(* ===== verification/Prelude.thy ===== *)
theory Prelude
  imports Main "HOL-Library.Word"
begin

text \<open>
  Shared vocabulary of the development: Go's fixed-width integers as words, byte slices as
  lists of bytes, the three ways a Go call ends (a value, a non-nil error, a panic), big-endian
  access to buffers as in \<^verbatim>\<open>encoding/binary\<close>, and the lemmas about them that the
  component theories share.

  A slice is modelled by the list of its elements. Slicing beyond the length is a panic here,
  while Go allows it up to the capacity; a result that does not panic in the model therefore
  does not panic in the code.
\<close>

unbundle bit_operations_syntax

section \<open>Machine integers and byte slices\<close>

type_synonym u8 = "8 word"
type_synonym u16 = "16 word"
type_synonym u32 = "32 word"
type_synonym u64 = "64 word"
type_synonym bytes = "u8 list"

named_theorems codec_simps \<open>evaluation of the encoders and decoders on explicit byte lists\<close>
named_theorems result_simps \<open>rules about the result monad\<close>

section \<open>Errors, panics and results\<close>

text \<open>
  An error value is the message it was created with; \<^verbatim>\<open>serrors.WrapStr\<close> and
  \<^verbatim>\<open>serrors.Wrap\<close> keep the error they wrap. The key/value context of an error is for
  logs only and is left out, so \<^verbatim>\<open>serrors.WithCtx\<close> is the identity.
\<close>

datatype go_error = Err string | WrapStr string go_error | Wrap go_error go_error

fun errors_Is :: "go_error \<Rightarrow> go_error \<Rightarrow> bool" where
  "errors_Is (Err m) t = (Err m = t)"
| "errors_Is (WrapStr m e) t = (WrapStr m e = t \<or> errors_Is e t)"
| "errors_Is (Wrap m e) t = (Wrap m e = t \<or> errors_Is m t \<or> errors_Is e t)"

datatype 'a result = Ok 'a | Fail go_error | Panic

primrec bindR :: "'a result \<Rightarrow> ('a \<Rightarrow> 'b result) \<Rightarrow> 'b result" where
  "bindR (Ok x) f = f x"
| "bindR (Fail e) f = Fail e"
| "bindR Panic f = Panic"

primrec mapR :: "('a \<Rightarrow> 'b) \<Rightarrow> 'a result \<Rightarrow> 'b result" where
  "mapR f (Ok x) = Ok (f x)"
| "mapR f (Fail e) = Fail e"
| "mapR f Panic = Panic"

text \<open>\<open>if err != nil { return serrors.WrapStr(msg, err) }\<close>\<close>

primrec wrapR :: "string \<Rightarrow> 'a result \<Rightarrow> 'a result" where
  "wrapR m (Ok x) = Ok x"
| "wrapR m (Fail e) = Fail (WrapStr m e)"
| "wrapR m Panic = Panic"

primrec isOk :: "'a result \<Rightarrow> bool" where
  "isOk (Ok x) = True"
| "isOk (Fail e) = False"
| "isOk Panic = False"

lemma bindR_eq_Ok [result_simps]: "bindR m f = Ok y \<longleftrightarrow> (\<exists>x. m = Ok x \<and> f x = Ok y)"
  by (cases m) auto

lemma bindR_eq_Panic [result_simps]:
  "bindR m f = Panic \<longleftrightarrow> m = Panic \<or> (\<exists>x. m = Ok x \<and> f x = Panic)"
  by (cases m) auto

lemma bindR_eq_Fail [result_simps]:
  "bindR m f = Fail e \<longleftrightarrow> m = Fail e \<or> (\<exists>x. m = Ok x \<and> f x = Fail e)"
  by (cases m) auto

lemma mapR_eq_Ok [result_simps]: "mapR f m = Ok y \<longleftrightarrow> (\<exists>x. m = Ok x \<and> y = f x)"
  by (cases m) auto

lemma mapR_eq_Panic [result_simps]: "mapR f m = Panic \<longleftrightarrow> m = Panic"
  by (cases m) auto

lemma mapR_eq_Fail [result_simps]: "mapR f m = Fail e \<longleftrightarrow> m = Fail e"
  by (cases m) auto

lemma wrapR_eq_Ok [result_simps]: "wrapR s m = Ok y \<longleftrightarrow> m = Ok y"
  by (cases m) auto

lemma wrapR_eq_Panic [result_simps]: "wrapR s m = Panic \<longleftrightarrow> m = Panic"
  by (cases m) auto

lemma isOk_iff [result_simps]: "isOk m \<longleftrightarrow> (\<exists>x. m = Ok x)"
  by (cases m) auto

lemma bindR_Ok_right [simp]: "bindR m Ok = m"
  by (cases m) auto

lemma bindR_assoc: "bindR (bindR m f) g = bindR m (\<lambda>x. bindR (f x) g)"
  by (cases m) auto

section \<open>Slices\<close>

text \<open>\<open>xs[a:b]\<close> with natural or (signed) \<^verbatim>\<open>int\<close> bounds, and \<open>copy(b[off:], xs)\<close> into a buffer that is long enough.\<close>

definition slice :: "'a list \<Rightarrow> nat \<Rightarrow> nat \<Rightarrow> 'a list result" where
  "slice xs a b = (if a \<le> b \<and> b \<le> length xs then Ok (take (b - a) (drop a xs)) else Panic)"

definition sliceI :: "'a list \<Rightarrow> int \<Rightarrow> int \<Rightarrow> 'a list result" where
  "sliceI xs a b = (if 0 \<le> a \<and> 0 \<le> b then slice xs (nat a) (nat b) else Panic)"

definition copy_at :: "nat \<Rightarrow> 'a list \<Rightarrow> 'a list \<Rightarrow> 'a list" where
  "copy_at off xs b = take off b @ xs @ drop (off + length xs) b"

lemma length_copy_at [simp]:
  "off + length xs \<le> length b \<Longrightarrow> length (copy_at off xs b) = length b"
  by (simp add: copy_at_def)

lemma copy_at_0: "copy_at 0 xs b = xs @ drop (length xs) b"
  by (simp add: copy_at_def)

lemma take_copy_at_0 [simp]: "take (length xs) (copy_at 0 xs b) = xs"
  by (simp add: copy_at_0)

lemma take_copy_at_before [simp]:
  "n \<le> off \<Longrightarrow> off \<le> length b \<Longrightarrow> take n (copy_at off xs b) = take n b"
  by (simp add: copy_at_def)

lemma drop_copy_at_at [simp]:
  "off \<le> length b \<Longrightarrow> take (length xs) (drop off (copy_at off xs b)) = xs"
  by (simp add: copy_at_def)

lemma drop_copy_at_after:
  assumes "off + length xs \<le> n" and "off \<le> length b"
  shows "drop n (copy_at off xs b) = drop n b"
proof -
  have "drop n (copy_at off xs b) = drop (n - off - length xs) (drop (off + length xs) b)"
    using assms by (simp add: copy_at_def diff_diff_add add.commute)
  also have "\<dots> = drop n b"
    using assms by simp
  finally show ?thesis .
qed

lemma take_drop_copy_at_disjoint:
  assumes "k + w \<le> off \<or> off + length xs \<le> k" and "off + length xs \<le> length b"
  shows "take w (drop k (copy_at off xs b)) = take w (drop k b)"
proof (cases "k + w \<le> off")
  case True
  have "take w (drop k (copy_at off xs b)) = drop k (take (k + w) (copy_at off xs b))"
    by (simp add: take_drop add.commute)
  also have "\<dots> = take w (drop k b)"
    using True assms(2) by (simp add: take_drop add.commute)
  finally show ?thesis .
next
  case False
  then show ?thesis using assms by (simp add: drop_copy_at_after)
qed

lemma copy_at_same:
  "off + n \<le> length b \<Longrightarrow> copy_at off (take n (drop off b)) b = b"
  by (simp add: copy_at_def add.commute [of off] flip: drop_drop)

lemma copy_at_append:
  "off + length (xs @ ys) \<le> length b \<Longrightarrow>
     copy_at (off + length xs) ys (copy_at off xs b) = copy_at off (xs @ ys) b"
  by (simp add: copy_at_def ac_simps)

lemma slice_Ok_iff [result_simps]:
  "slice xs a b = Ok ys \<longleftrightarrow> a \<le> b \<and> b \<le> length xs \<and> ys = take (b - a) (drop a xs)"
  by (auto simp: slice_def)

lemma slice_not_Fail [simp]: "slice xs a b \<noteq> Fail e"
  by (simp add: slice_def)

lemma slice_Panic_iff [result_simps]: "slice xs a b = Panic \<longleftrightarrow> \<not> (a \<le> b \<and> b \<le> length xs)"
  by (auto simp: slice_def)

section \<open>Big-endian integers, as in Go's encoding/binary\<close>

definition be_u16 :: "bytes \<Rightarrow> u16" where
  "be_u16 b = ucast (b ! 1) OR push_bit 8 (ucast (b ! 0))"

definition be_u32 :: "bytes \<Rightarrow> u32" where
  "be_u32 b = ucast (b ! 3) OR push_bit 8 (ucast (b ! 2)) OR push_bit 16 (ucast (b ! 1))
     OR push_bit 24 (ucast (b ! 0))"

definition be_u64 :: "bytes \<Rightarrow> u64" where
  "be_u64 b = ucast (b ! 7) OR push_bit 8 (ucast (b ! 6)) OR push_bit 16 (ucast (b ! 5))
     OR push_bit 24 (ucast (b ! 4)) OR push_bit 32 (ucast (b ! 3)) OR push_bit 40 (ucast (b ! 2))
     OR push_bit 48 (ucast (b ! 1)) OR push_bit 56 (ucast (b ! 0))"

definition put_u16 :: "u16 \<Rightarrow> bytes" where
  "put_u16 v = [ucast (drop_bit 8 v), ucast v]"

definition put_u32 :: "u32 \<Rightarrow> bytes" where
  "put_u32 v = [ucast (drop_bit 24 v), ucast (drop_bit 16 v), ucast (drop_bit 8 v), ucast v]"

definition put_u64 :: "u64 \<Rightarrow> bytes" where
  "put_u64 v = [ucast (drop_bit 56 v), ucast (drop_bit 48 v), ucast (drop_bit 40 v),
     ucast (drop_bit 32 v), ucast (drop_bit 24 v), ucast (drop_bit 16 v), ucast (drop_bit 8 v),
     ucast v]"

lemma length_put_u16 [simp]: "length (put_u16 v) = 2"
  by (simp add: put_u16_def)

lemma length_put_u32 [simp]: "length (put_u32 v) = 4"
  by (simp add: put_u32_def)

lemma length_put_u64 [simp]: "length (put_u64 v) = 8"
  by (simp add: put_u64_def)

text \<open>Moving a byte of a word back to its place keeps exactly the bits of that byte.\<close>

lemma bit_byte_in_place:
  fixes v :: "'a::len word"
  shows "n < LENGTH('a) \<Longrightarrow>
    bit (push_bit k (ucast (ucast (drop_bit k v) :: u8)) :: 'a word) n \<longleftrightarrow>
      k \<le> n \<and> n < k + 8 \<and> bit v n"
  by (auto simp: bit_simps)

lemma bit_low_byte:
  fixes v :: "'a::len word"
  shows "n < LENGTH('a) \<Longrightarrow> bit (ucast (ucast v :: u8) :: 'a word) n \<longleftrightarrow> n < 8 \<and> bit v n"
  by (auto simp: bit_simps)

lemmas bit_bytes = bit_byte_in_place bit_low_byte bit_or_iff

lemma be_u16_put [simp]: "be_u16 (put_u16 v @ r) = v"
  by (rule bit_word_eqI) (simp add: be_u16_def put_u16_def bit_bytes, linarith)

lemma be_u32_put [simp]: "be_u32 (put_u32 v @ r) = v"
  by (rule bit_word_eqI) (simp add: be_u32_def put_u32_def bit_bytes, linarith)

lemma be_u64_put [simp]: "be_u64 (put_u64 v @ r) = v"
  by (rule bit_word_eqI) (simp add: be_u64_def put_u64_def bit_bytes, linarith)

section \<open>Small words and short lists\<close>

lemma and_3F: "(x::u8) AND 0x3F = take_bit 6 x"
proof -
  have "(0x3F :: u8) = mask 6" by (simp add: mask_eq_exp_minus_1)
  then show ?thesis by (simp only: take_bit_eq_mask)
qed

lemma bit_less_exp:
  fixes x :: u8
  assumes "bit x n" and "uint x < 2 ^ k"
  shows "n < k"
proof -
  have "take_bit k (uint x) = uint x"
    using assms(2) by (intro take_bit_int_eq_self) simp_all
  moreover have "bit (uint x) n"
    using assms(1) bit_imp_le_length [OF assms(1)] by (simp add: bit_uint_iff)
  ultimately show ?thesis
    by (metis bit_take_bit_iff)
qed

lemma take_bit_less_exp: "uint (take_bit k (x::u8)) < 2 ^ k"
  by (simp add: unsigned_take_bit_eq)

lemma list_all_True [simp]: "list_all (\<lambda>_. True) xs"
  by (simp add: list_all_iff)

lemma length_eq_3: "length xs = 3 \<longleftrightarrow> (\<exists>a b c. xs = [a, b, c])"
  by (auto simp: numeral_3_eq_3 length_Suc_conv)

lemma top_bits_less: "uint (ucast (drop_bit 30 (l::u32)) :: u8) < 4"
proof -
  have "uint (drop_bit 30 l) < 4"
    using uint_bounded [of l] by (simp add: drop_bit_eq_div uint_div)
  then show ?thesis
    by (simp add: unsigned_ucast_eq take_bit_int_eq_self)
qed

end
