(* ===== verification/PathFields.thy ===== *)
theory PathFields
  imports Prelude
begin

text \<open>
  Info fields and hop fields of a SCION path (\<^verbatim>\<open>pkg/slayers/path/infofield.go\<close>,
  \<^verbatim>\<open>hopfield.go\<close>) and the hop field MAC (\<^verbatim>\<open>mac.go\<close>): the two structs, their wire format
  and the expiry arithmetic. The locale \<open>field_codec\<close> is the contract of a fixed-width field;
  both field types are interpreted, and the decoder and serializer of whole paths rest on it.
\<close>

unbundle bit_operations_syntax

section \<open>Hop fields\<close>

definition HopLen :: nat where "HopLen = 12"

definition MacLen :: nat where "MacLen = 6"

record HopField =
  IngressRouterAlert :: bool
  EgressRouterAlert :: bool
  ExpTime :: u8
  ConsIngress :: u16
  ConsEgress :: u16
  Mac :: bytes

definition HopField_zero :: HopField where
  "HopField_zero = \<lparr>IngressRouterAlert = False, EgressRouterAlert = False, ExpTime = 0,
     ConsIngress = 0, ConsEgress = 0, Mac = replicate 6 0\<rparr>"

text \<open>\<^verbatim>\<open>Mac\<close> is a \<^verbatim>\<open>[6]byte\<close>: the array length is an invariant of the list.\<close>

definition wf_hop :: "HopField \<Rightarrow> bool" where
  "wf_hop h \<longleftrightarrow> length (Mac h) = MacLen"

definition HopField_DecodeFromBytes :: "bytes \<Rightarrow> HopField result" where
  "HopField_DecodeFromBytes raw =
    (if length raw < HopLen then Fail (Err ''HopField raw too short'')
     else Ok \<lparr>IngressRouterAlert = (raw ! 0 AND 2 = 2),
              EgressRouterAlert = (raw ! 0 AND 1 = 1),
              ExpTime = raw ! 1,
              ConsIngress = be_u16 (take 2 (drop 2 raw)),
              ConsEgress = be_u16 (take 2 (drop 4 raw)),
              Mac = take 6 (drop 6 raw)\<rparr>)"

definition HopField_bytes :: "HopField \<Rightarrow> bytes" where
  "HopField_bytes h =
     [(if EgressRouterAlert h then 1 else 0) OR (if IngressRouterAlert h then 2 else 0), ExpTime h]
     @ put_u16 (ConsIngress h) @ put_u16 (ConsEgress h) @ Mac h"

definition HopField_SerializeTo :: "HopField \<Rightarrow> bytes \<Rightarrow> bytes result" where
  "HopField_SerializeTo h b =
    (if length b < HopLen then Fail (Err ''buffer for HopField too short'')
     else Ok (copy_at 0 (HopField_bytes h) b))"

section \<open>Expiry of hop fields\<close>

text \<open>Durations are \<^verbatim>\<open>int64\<close> nanoseconds; no intermediate value leaves that range.\<close>

definition MaxTTL :: int where "MaxTTL = 24 * 60 * 60 * 1000000000"

definition expTimeUnit :: int where "expTimeUnit = MaxTTL div 256"

definition ExpTimeToDuration :: "u8 \<Rightarrow> int" where
  "ExpTimeToDuration e = (uint e + 1) * expTimeUnit"

definition ExpTimeFromDuration :: "int \<Rightarrow> u8 result" where
  "ExpTimeFromDuration d =
    (if d < expTimeUnit then Fail (Err ''duration too small'')
     else if d > MaxTTL then Fail (Err ''duration too large'')
     else Ok (word_of_int (d * 256 div MaxTTL - 1)))"

section \<open>Info fields\<close>

definition InfoLen :: nat where "InfoLen = 8"

record InfoField =
  Peer :: bool
  ConsDir :: bool
  SegID :: u16
  Timestamp :: u32

definition InfoField_DecodeFromBytes :: "bytes \<Rightarrow> InfoField result" where
  "InfoField_DecodeFromBytes raw =
    (if length raw < InfoLen then Fail (Err ''InfoField raw too short'')
     else Ok \<lparr>Peer = (raw ! 0 AND 2 = 2),
              ConsDir = (raw ! 0 AND 1 = 1),
              SegID = be_u16 (take 2 (drop 2 raw)),
              Timestamp = be_u32 (take 4 (drop 4 raw))\<rparr>)"

definition InfoField_bytes :: "InfoField \<Rightarrow> bytes" where
  "InfoField_bytes i =
     [(if ConsDir i then 1 else 0) OR (if Peer i then 2 else 0), 0]
     @ put_u16 (SegID i) @ put_u32 (Timestamp i)"

definition InfoField_SerializeTo :: "InfoField \<Rightarrow> bytes \<Rightarrow> bytes result" where
  "InfoField_SerializeTo i b =
    (if length b < InfoLen then Fail (Err ''buffer for InfoField too short'')
     else Ok (copy_at 0 (InfoField_bytes i) b))"

definition UpdateSegID :: "InfoField \<Rightarrow> bytes \<Rightarrow> InfoField" where
  "UpdateSegID i hfMac = i\<lparr>SegID := SegID i XOR be_u16 (take 2 hfMac)\<rparr>"

section \<open>The hop field MAC\<close>

text \<open>
  The keyed hash is AES-CMAC of a third-party package and is the parameter \<open>h\<close>: the digest of
  the bytes written since \<^verbatim>\<open>Reset\<close>. Only its length (16) is relied on. \<^verbatim>\<open>MACInput\<close> would panic on a buffer of
  fewer than 16 bytes; its callers never pass one, so the model has no panic there.
\<close>

definition MACBufferSize :: nat where "MACBufferSize = 16"

definition MACInput :: "u16 \<Rightarrow> u32 \<Rightarrow> u8 \<Rightarrow> u16 \<Rightarrow> u16 \<Rightarrow> bytes \<Rightarrow> bytes" where
  "MACInput segID timestamp expTime consIngress consEgress buffer =
     copy_at 0 (put_u16 0 @ put_u16 segID @ put_u32 timestamp @ [0, expTime]
       @ put_u16 consIngress @ put_u16 consEgress @ put_u16 0) buffer"

definition FullMAC :: "(bytes \<Rightarrow> bytes) \<Rightarrow> InfoField \<Rightarrow> HopField \<Rightarrow> bytes \<Rightarrow> bytes" where
  "FullMAC h info hf buffer =
    (let buffer = (if length buffer < MACBufferSize then replicate MACBufferSize 0 else buffer);
         buffer = MACInput (SegID info) (Timestamp info) (ExpTime hf)
                    (ConsIngress hf) (ConsEgress hf) buffer
     in take 16 (h buffer))"

definition MAC :: "(bytes \<Rightarrow> bytes) \<Rightarrow> InfoField \<Rightarrow> HopField \<Rightarrow> bytes \<Rightarrow> bytes" where
  "MAC h info hf buffer = take MacLen (FullMAC h info hf buffer)"

section \<open>Sequences of fixed-width fields\<close>

text \<open>
  The loops of \<^verbatim>\<open>Decoded.DecodeFromBytes\<close> and \<^verbatim>\<open>Decoded.SerializeTo\<close> over the info and hop
  fields: each turn works on the next \<open>w\<close> bytes of the buffer.
\<close>

fun decode_seq :: "nat \<Rightarrow> (bytes \<Rightarrow> 'a result) \<Rightarrow> nat \<Rightarrow> nat \<Rightarrow> bytes \<Rightarrow> 'a list result" where
  "decode_seq w dec 0 offset data = Ok []"
| "decode_seq w dec (Suc n) offset data =
     bindR (slice data offset (offset + w)) (\<lambda>s.
     bindR (dec s) (\<lambda>x.
     mapR (Cons x) (decode_seq w dec n (offset + w) data)))"

fun serialize_seq ::
  "nat \<Rightarrow> ('a \<Rightarrow> bytes \<Rightarrow> bytes result) \<Rightarrow> 'a list \<Rightarrow> nat \<Rightarrow> bytes \<Rightarrow> bytes result" where
  "serialize_seq w ser [] offset b = Ok b"
| "serialize_seq w ser (x # xs) offset b =
     bindR (slice b offset (offset + w)) (\<lambda>s.
     bindR (ser x s) (\<lambda>s'.
     serialize_seq w ser xs (offset + w) (copy_at offset s' b)))"

locale field_codec =
  fixes width :: nat
    and wf :: "'a \<Rightarrow> bool"
    and enc :: "'a \<Rightarrow> bytes"
    and ser :: "'a \<Rightarrow> bytes \<Rightarrow> bytes result"
    and dec :: "bytes \<Rightarrow> 'a result"
  assumes enc_width: "wf x \<Longrightarrow> length (enc x) = width"
    and ser_enc: "width \<le> length b \<Longrightarrow> ser x b = Ok (copy_at 0 (enc x) b)"
    and dec_enc: "wf x \<Longrightarrow> dec (enc x) = Ok x"
    and dec_total: "width \<le> length b \<Longrightarrow> \<exists>x. dec b = Ok x \<and> wf x"
begin

lemma serialize_one:
  "wf x \<Longrightarrow> off + width \<le> length b \<Longrightarrow>
     bindR (slice b off (off + width)) (\<lambda>s. bindR (ser x s) (\<lambda>s'. f (copy_at off s' b)))
     = f (copy_at off (enc x) b)"
  by (simp add: slice_def ser_enc copy_at_0 enc_width)

lemma length_concat_enc: "list_all wf xs \<Longrightarrow> length (concat (map enc xs)) = width * length xs"
  by (induction xs) (auto simp: enc_width)

lemma serialize_seq_concat:
  "list_all wf xs \<Longrightarrow> off + width * length xs \<le> length b \<Longrightarrow>
     serialize_seq width ser xs off b = Ok (copy_at off (concat (map enc xs)) b)"
proof (induction xs arbitrary: off b)
  case Nil
  then show ?case by (simp add: copy_at_def)
next
  case (Cons x xs)
  have len: "length (copy_at off (enc x) b) = length b"
    using Cons.prems by (simp add: enc_width)
  have "serialize_seq width ser (x # xs) off b
      = serialize_seq width ser xs (off + width) (copy_at off (enc x) b)"
    using Cons.prems serialize_one [of x off b "serialize_seq width ser xs (off + width)"] by simp
  also have "\<dots> = Ok (copy_at (off + width) (concat (map enc xs)) (copy_at off (enc x) b))"
    using Cons.prems by (intro Cons.IH) (simp_all add: len)
  also have "\<dots> = Ok (copy_at off (concat (map enc (x # xs))) b)"
    using Cons.prems copy_at_append [of off "enc x" "concat (map enc xs)" b]
    by (simp add: enc_width length_concat_enc)
  finally show ?case .
qed

lemma update_concat:
  "list_all wf xs \<Longrightarrow> wf x \<Longrightarrow> i < length xs \<Longrightarrow>
     copy_at (length pre + width * i) (enc x) (pre @ concat (map enc xs) @ post)
     = pre @ concat (map enc (xs[i := x])) @ post"
proof (induction xs arbitrary: i pre)
  case (Cons y ys)
  show ?case
  proof (cases i)
    case 0
    then show ?thesis using Cons.prems by (simp add: copy_at_def enc_width)
  next
    case (Suc j)
    then show ?thesis using Cons.IH [of j "pre @ enc y"] Cons.prems by (simp add: enc_width ac_simps)
  qed
qed simp

lemma decode_seq_concat:
  "list_all wf xs \<Longrightarrow> off + width * length xs \<le> length data \<Longrightarrow>
     take (width * length xs) (drop off data) = concat (map enc xs) \<Longrightarrow>
     decode_seq width dec (length xs) off data = Ok xs"
proof (induction xs arbitrary: off)
  case Nil
  then show ?case by simp
next
  case (Cons x xs)
  have eq: "take width (drop off data) @ take (width * length xs) (drop (off + width) data)
      = enc x @ concat (map enc xs)"
    using Cons.prems(3) by (simp add: take_add add.commute)
  have lens: "length (take width (drop off data)) = length (enc x)"
    using Cons.prems by (simp add: enc_width)
  have "slice data off (off + width) = Ok (enc x)"
    using Cons.prems eq lens by (simp add: slice_def)
  moreover have "decode_seq width dec (length xs) (off + width) data = Ok xs"
    using Cons.prems eq lens by (intro Cons.IH) simp_all
  ultimately show ?case
    using Cons.prems by (simp add: dec_enc)
qed

lemma decode_seq_total:
  "off + width * n \<le> length data \<Longrightarrow>
     \<exists>xs. decode_seq width dec n off data = Ok xs \<and> length xs = n \<and> list_all wf xs"
proof (induction n arbitrary: off)
  case 0
  then show ?case by simp
next
  case (Suc n)
  obtain x where "dec (take width (drop off data)) = Ok x" and "wf x"
    using Suc.prems dec_total [of "take width (drop off data)"] by auto
  moreover obtain xs where "decode_seq width dec n (off + width) data = Ok xs"
      and "length xs = n" and "list_all wf xs"
    using Suc.IH [of "off + width"] Suc.prems by auto
  ultimately show ?case
    using Suc.prems by (auto simp: slice_def)
qed

end

section \<open>Both field types are fixed-width codecs\<close>

lemma flag_bits [simp]:
  fixes p q :: bool
  shows "((if p then 1 else 0) OR (if q then 2 else 0) :: u8) AND 2 = 2 \<longleftrightarrow> q"
    and "((if p then 1 else 0) OR (if q then 2 else 0) :: u8) AND 1 = 1 \<longleftrightarrow> p"
  by auto

lemma HopField_dec_bytes:
  "wf_hop h \<Longrightarrow> HopField_DecodeFromBytes (HopField_bytes h) = Ok h"
  using be_u16_put [of "ConsIngress h" "[]"] be_u16_put [of "ConsEgress h" "[]"]
  by (simp add: HopField_DecodeFromBytes_def HopField_bytes_def wf_hop_def HopLen_def MacLen_def
      put_u16_def)

lemma InfoField_dec_bytes: "InfoField_DecodeFromBytes (InfoField_bytes i) = Ok i"
  using be_u16_put [of "SegID i" "[]"] be_u32_put [of "Timestamp i" "[]"]
  by (simp add: InfoField_DecodeFromBytes_def InfoField_bytes_def InfoLen_def
      put_u16_def put_u32_def)

interpretation hop: field_codec HopLen wf_hop HopField_bytes HopField_SerializeTo
  HopField_DecodeFromBytes
proof unfold_locales
  show "wf_hop x \<Longrightarrow> length (HopField_bytes x) = HopLen" for x
    by (simp add: HopField_bytes_def wf_hop_def HopLen_def MacLen_def)
  show "HopLen \<le> length b \<Longrightarrow> HopField_SerializeTo x b = Ok (copy_at 0 (HopField_bytes x) b)"
    for x b
    by (simp add: HopField_SerializeTo_def)
  show "wf_hop x \<Longrightarrow> HopField_DecodeFromBytes (HopField_bytes x) = Ok x" for x
    by (rule HopField_dec_bytes)
  show "HopLen \<le> length b \<Longrightarrow> \<exists>x. HopField_DecodeFromBytes b = Ok x \<and> wf_hop x" for b
    by (simp add: HopField_DecodeFromBytes_def wf_hop_def HopLen_def MacLen_def)
qed

interpretation info: field_codec InfoLen "\<lambda>_. True" InfoField_bytes InfoField_SerializeTo
  InfoField_DecodeFromBytes
proof unfold_locales
  show "length (InfoField_bytes x) = InfoLen" for x
    by (simp add: InfoField_bytes_def InfoLen_def)
  show "InfoLen \<le> length b \<Longrightarrow> InfoField_SerializeTo x b = Ok (copy_at 0 (InfoField_bytes x) b)"
    for x b
    by (simp add: InfoField_SerializeTo_def)
  show "InfoField_DecodeFromBytes (InfoField_bytes x) = Ok x" for x
    by (rule InfoField_dec_bytes)
  show "InfoLen \<le> length b \<Longrightarrow> \<exists>x. InfoField_DecodeFromBytes b = Ok x \<and> True" for b
    by (simp add: InfoField_DecodeFromBytes_def)
qed

section \<open>Properties\<close>

lemma expTimeUnit_eval [simp]: "expTimeUnit = 337500000000"
  by (simp add: expTimeUnit_def MaxTTL_def)

text \<open>Every relative expiry value survives the trip through a duration: the value computed for
  the duration an expiry stands for is that expiry.\<close>

lemma exp_time_roundtrip: "ExpTimeFromDuration (ExpTimeToDuration e) = Ok e"
proof -
  have "0 \<le> uint e" and "uint e < 256"
    using uint_bounded [of e] by simp_all
  then show ?thesis
    by (simp add: ExpTimeFromDuration_def ExpTimeToDuration_def MaxTTL_def algebra_simps)
qed

text \<open>for a duration in range, \<^verbatim>\<open>ExpTimeFromDuration\<close> returns the largest expiry value whose
  duration does not exceed it: the duration it stands for is at most the given one, and one more
  unit is beyond it.\<close>

lemma exp_time_floor:
  assumes "expTimeUnit \<le> d" and "d \<le> MaxTTL"
  shows "\<exists>e. ExpTimeFromDuration d = Ok e \<and> ExpTimeToDuration e \<le> d
    \<and> d < ExpTimeToDuration e + expTimeUnit"
proof -
  define q where "q = d * 256 div MaxTTL - 1"
  have eq: "d * 256 div MaxTTL = d div 337500000000"
    using div_mult_mult1 [of 256 d 337500000000] by (simp add: MaxTTL_def mult.commute)
  have "0 \<le> q" and "q < 256"
    using assms by (simp_all add: q_def eq MaxTTL_def)
  then have "uint (word_of_int q :: u8) = q"
    by (simp add: uint_word_of_int)
  moreover have "(q + 1) * 337500000000 \<le> d" and "d < (q + 1) * 337500000000 + 337500000000"
    by (simp_all add: q_def eq)
  ultimately show ?thesis
    using assms by (simp add: ExpTimeFromDuration_def ExpTimeToDuration_def flip: q_def)
qed

lemma exp_time_floor_witness:
  "\<exists>e. ExpTimeFromDuration 3600000000000 = Ok e \<and> ExpTimeToDuration e \<le> 3600000000000
    \<and> 3600000000000 < ExpTimeToDuration e + expTimeUnit"
  using exp_time_floor [of 3600000000000] by (simp add: MaxTTL_def)

lemma put_u16_inj [simp]: "put_u16 a = put_u16 b \<longleftrightarrow> a = b"
  using be_u16_put [of a "[]"] be_u16_put [of b "[]"] by metis

lemma put_u32_inj [simp]: "put_u32 a = put_u32 b \<longleftrightarrow> a = b"
  using be_u32_put [of a "[]"] be_u32_put [of b "[]"] by metis

text \<open>C30: the MAC input block binds every authenticated quantity: two blocks are equal only if the
  segment identifier, the timestamp, the expiry and both interfaces are equal.\<close>

theorem mac_input_injective:
  "MACInput s t e i g b = MACInput s' t' e' i' g' b' \<Longrightarrow>
     s = s' \<and> t = t' \<and> e = e' \<and> i = i' \<and> g = g'"
  by (simp add: MACInput_def copy_at_0)

theorem mac_input_injective_witness:
  "MACInput 1 2 3 4 5 (replicate 16 0) = MACInput 1 2 3 4 5 (replicate 16 7)
    \<and> (1::u16) = 1 \<and> (2::u32) = 2 \<and> (3::u8) = 3 \<and> (4::u16) = 4 \<and> (5::u16) = 5"
proof -
  have eq: "MACInput 1 2 3 4 5 (replicate 16 0) = MACInput 1 2 3 4 5 (replicate 16 7)"
    by (simp add: MACInput_def copy_at_0)
  show ?thesis using eq mac_input_injective [OF eq] by simp
qed

text \<open>XORing the same MAC into the segment identifier twice restores it.\<close>

lemma UpdateSegID_involution [simp]: "UpdateSegID (UpdateSegID i m) m = i"
  by (simp add: UpdateSegID_def xor.assoc)

lemma UpdateSegID_frame [simp]:
  "Peer (UpdateSegID i m) = Peer i" "ConsDir (UpdateSegID i m) = ConsDir i"
  "Timestamp (UpdateSegID i m) = Timestamp i"
  by (simp_all add: UpdateSegID_def)

lemma length_FullMAC: "(\<And>y. length (h y) = 16) \<Longrightarrow> length (FullMAC h i f b) = 16"
  by (simp add: FullMAC_def Let_def)

end
