(* ===== verification/ScionPath.thy ===== *)
theory ScionPath
  imports PathFields
begin

text \<open>
  The SCION path type (\<^verbatim>\<open>pkg/slayers/path/scion\<close>): the path meta header, the common part
  \<^verbatim>\<open>Base\<close>, the raw representation the router works on in place, and the fully decoded one.
  Go's struct embedding is record extension: \<^verbatim>\<open>Raw\<close> and \<^verbatim>\<open>Decoded\<close> extend \<^verbatim>\<open>Base\<close>. A nil
  \<^verbatim>\<open>Raw\<close> slice is the empty list; a decoded path always has at least the meta header.
\<close>

unbundle bit_operations_syntax

section \<open>Meta header\<close>

definition MaxINFs :: int where "MaxINFs = 3"
definition MaxHops :: int where "MaxHops = 64"
definition MetaLen :: nat where "MetaLen = 4"

record MetaHdr =
  CurrINF :: u8
  CurrHF :: u8
  SegLen :: "u8 list"

definition MetaHdr_DecodeFromBytes :: "bytes \<Rightarrow> MetaHdr result" where
  "MetaHdr_DecodeFromBytes raw =
    (if length raw < MetaLen then Fail (Err ''MetaHdr raw too short'')
     else let line = be_u32 raw in
       Ok \<lparr>CurrINF = ucast (drop_bit 30 line),
           CurrHF = ucast (drop_bit 24 line) AND 0x3F,
           SegLen = [ucast (drop_bit 12 line) AND 0x3F,
                     ucast (drop_bit 6 line) AND 0x3F,
                     ucast line AND 0x3F]\<rparr>)"

definition MetaHdr_line :: "MetaHdr \<Rightarrow> u32" where
  "MetaHdr_line m =
     push_bit 30 (ucast (CurrINF m)) OR push_bit 24 (ucast (CurrHF m AND 0x3F))
     OR push_bit 12 (ucast (SegLen m ! 0 AND 0x3F))
     OR push_bit 6 (ucast (SegLen m ! 1 AND 0x3F))
     OR ucast (SegLen m ! 2 AND 0x3F)"

definition MetaHdr_SerializeTo :: "MetaHdr \<Rightarrow> bytes \<Rightarrow> bytes result" where
  "MetaHdr_SerializeTo m b =
    (if length b < MetaLen then Fail (Err ''buffer for MetaHdr too short'')
     else Ok (copy_at 0 (put_u32 (MetaHdr_line m)) b))"

section \<open>Base\<close>

record Base =
  PathMeta :: MetaHdr
  NumINF :: int
  NumHops :: int

text \<open>The loop \<^verbatim>\<open>for i := 2; i >= 0; i--\<close> over the segment lengths.\<close>

fun Base_count :: "u8 list \<Rightarrow> nat list \<Rightarrow> int \<Rightarrow> int \<Rightarrow> (int \<times> int) result" where
  "Base_count segLen [] numINF numHops = Ok (numINF, numHops)"
| "Base_count segLen (i # is) numINF numHops =
    (if segLen ! i = 0 \<and> numINF > 0
     then Fail (Err ''Meta.SegLen[i] == 0, but Meta.SegLen[NumINF-1] > 0'')
     else Base_count segLen is
            (if segLen ! i > 0 \<and> numINF = 0 then int i + 1 else numINF)
            (numHops + uint (segLen ! i)))"

definition Base_DecodeFromBytes :: "bytes \<Rightarrow> Base result" where
  "Base_DecodeFromBytes data =
     bindR (MetaHdr_DecodeFromBytes data) (\<lambda>m.
     bindR (Base_count (SegLen m) [2, 1, 0] 0 0) (\<lambda>(numINF, numHops).
     if numHops > MaxHops then Fail (Err ''NumHops too large'')
     else Ok \<lparr>PathMeta = m, NumINF = numINF, NumHops = numHops\<rparr>))"

definition infIndexForHF :: "'a Base_scheme \<Rightarrow> u8 \<Rightarrow> u8" where
  "infIndexForHF s hf =
    (if hf < SegLen (PathMeta s) ! 0 then 0
     else if hf < SegLen (PathMeta s) ! 0 + SegLen (PathMeta s) ! 1 then 1
     else 2)"

text \<open>\<^verbatim>\<open>IncPath\<close> updates the meta header also when it returns an error.\<close>

definition Base_IncPath :: "'a Base_scheme \<Rightarrow> 'a Base_scheme \<times> unit result" where
  "Base_IncPath s =
    (if NumINF s = 0 then (s, Fail (Err ''empty path cannot be increased''))
     else if uint (CurrHF (PathMeta s)) \<ge> NumHops s - 1
     then (s\<lparr>PathMeta := (PathMeta s)\<lparr>CurrHF := word_of_int (NumHops s - 1)\<rparr>\<rparr>,
           Fail (Err ''path already at end''))
     else let hf = CurrHF (PathMeta s) + 1 in
       (s\<lparr>PathMeta := (PathMeta s)\<lparr>CurrHF := hf, CurrINF := infIndexForHF s hf\<rparr>\<rparr>, Ok ()))"

definition IsXover :: "'a Base_scheme \<Rightarrow> bool" where
  "IsXover s \<longleftrightarrow> CurrHF (PathMeta s) + 1 < word_of_int (NumHops s)
     \<and> CurrINF (PathMeta s) \<noteq> infIndexForHF s (CurrHF (PathMeta s) + 1)"

definition IsFirstHopAfterXover :: "'a Base_scheme \<Rightarrow> bool" where
  "IsFirstHopAfterXover s \<longleftrightarrow> CurrINF (PathMeta s) > 0 \<and> CurrHF (PathMeta s) > 0
     \<and> CurrINF (PathMeta s) - 1 = infIndexForHF s (CurrHF (PathMeta s) - 1)"

definition Base_Len :: "'a Base_scheme \<Rightarrow> int" where
  "Base_Len s = int MetaLen + NumINF s * int InfoLen + NumHops s * int HopLen"

section \<open>Raw\<close>

record Raw = Base +
  RawBytes :: bytes

definition Raw_DecodeFromBytes :: "bytes \<Rightarrow> Raw result" where
  "Raw_DecodeFromBytes data =
     bindR (Base_DecodeFromBytes data) (\<lambda>s.
     let pathLen = Base_Len s in
     if int (length data) < pathLen then Fail (Err ''RawPath raw too short'')
     else mapR (\<lambda>raw. Base.extend s \<lparr>RawBytes = raw\<rparr>) (sliceI data 0 pathLen))"

text \<open>Serializing writes the meta header through to the path's own buffer first.\<close>

definition Raw_write_meta :: "Raw \<Rightarrow> Raw \<times> unit result" where
  "Raw_write_meta s =
    (case bindR (slice (RawBytes s) 0 MetaLen) (MetaHdr_SerializeTo (PathMeta s)) of
       Ok m \<Rightarrow> (s\<lparr>RawBytes := copy_at 0 m (RawBytes s)\<rparr>, Ok ())
     | Fail e \<Rightarrow> (s, Fail e)
     | Panic \<Rightarrow> (s, Panic))"

definition Raw_SerializeTo :: "Raw \<Rightarrow> bytes \<Rightarrow> Raw \<times> bytes result" where
  "Raw_SerializeTo s b =
    (if RawBytes s = [] then (s, Fail (Err ''raw is nil''))
     else if int (length b) < Base_Len s then (s, Fail (Err ''buffer too small''))
     else case Raw_write_meta s of
       (s', Ok _) \<Rightarrow> (s', Ok (copy_at 0 (take (length b) (RawBytes s')) b))
     | (s', Fail e) \<Rightarrow> (s', Fail e)
     | (s', Panic) \<Rightarrow> (s', Panic))"

definition Raw_IncPath :: "Raw \<Rightarrow> Raw \<times> unit result" where
  "Raw_IncPath s =
    (case Base_IncPath s of
       (s', Ok _) \<Rightarrow> Raw_write_meta s'
     | (s', r) \<Rightarrow> (s', r))"

definition GetInfoField :: "Raw \<Rightarrow> int \<Rightarrow> InfoField result" where
  "GetInfoField s idx =
    (if idx \<ge> NumINF s then Fail (Err ''InfoField index out of bounds'')
     else let infOffset = int MetaLen + idx * int InfoLen in
       bindR (sliceI (RawBytes s) infOffset (infOffset + int InfoLen)) InfoField_DecodeFromBytes)"

definition GetCurrentInfoField :: "Raw \<Rightarrow> InfoField result" where
  "GetCurrentInfoField s = GetInfoField s (uint (CurrINF (PathMeta s)))"

definition SetInfoField :: "Raw \<Rightarrow> InfoField \<Rightarrow> int \<Rightarrow> Raw result" where
  "SetInfoField s info idx =
    (if idx \<ge> NumINF s then Fail (Err ''InfoField index out of bounds'')
     else let infOffset = int MetaLen + idx * int InfoLen in
       bindR (sliceI (RawBytes s) infOffset (infOffset + int InfoLen)) (\<lambda>b.
       bindR (InfoField_SerializeTo info b) (\<lambda>b'.
       Ok (s\<lparr>RawBytes := copy_at (nat infOffset) b' (RawBytes s)\<rparr>))))"

definition hopOffset :: "Raw \<Rightarrow> int \<Rightarrow> int" where
  "hopOffset s idx = int MetaLen + NumINF s * int InfoLen + idx * int HopLen"

definition GetHopField :: "Raw \<Rightarrow> int \<Rightarrow> HopField result" where
  "GetHopField s idx =
    (if idx \<ge> NumHops s then Fail (Err ''HopField index out of bounds'')
     else bindR (sliceI (RawBytes s) (hopOffset s idx) (hopOffset s idx + int HopLen))
            HopField_DecodeFromBytes)"

definition GetCurrentHopField :: "Raw \<Rightarrow> HopField result" where
  "GetCurrentHopField s = GetHopField s (uint (CurrHF (PathMeta s)))"

definition SetHopField :: "Raw \<Rightarrow> HopField \<Rightarrow> int \<Rightarrow> Raw result" where
  "SetHopField s hop idx =
    (if idx \<ge> NumHops s then Fail (Err ''HopField index out of bounds'')
     else bindR (sliceI (RawBytes s) (hopOffset s idx) (hopOffset s idx + int HopLen)) (\<lambda>b.
       bindR (HopField_SerializeTo hop b) (\<lambda>b'.
       Ok (s\<lparr>RawBytes := copy_at (nat (hopOffset s idx)) b' (RawBytes s)\<rparr>))))"

definition IsFirstHop :: "Raw \<Rightarrow> bool" where
  "IsFirstHop s \<longleftrightarrow> CurrHF (PathMeta s) = 0"

definition IsPenultimateHop :: "Raw \<Rightarrow> bool" where
  "IsPenultimateHop s \<longleftrightarrow> uint (CurrHF (PathMeta s)) = NumHops s - 2"

definition IsLastHop :: "Raw \<Rightarrow> bool" where
  "IsLastHop s \<longleftrightarrow> uint (CurrHF (PathMeta s)) = NumHops s - 1"

section \<open>Decoded\<close>

record Decoded = Base +
  InfoFields :: "InfoField list"
  HopFields :: "HopField list"

definition Decoded_DecodeFromBytes :: "bytes \<Rightarrow> Decoded result" where
  "Decoded_DecodeFromBytes data =
     bindR (Base_DecodeFromBytes data) (\<lambda>s.
     if int (length data) < Base_Len s then Fail (Err ''DecodedPath raw too short'')
     else
       bindR (decode_seq InfoLen InfoField_DecodeFromBytes (nat (NumINF s)) MetaLen data) (\<lambda>infos.
       bindR (decode_seq HopLen HopField_DecodeFromBytes (nat (NumHops s))
                (MetaLen + nat (NumINF s) * InfoLen) data) (\<lambda>hops.
       Ok (Base.extend s \<lparr>InfoFields = infos, HopFields = hops\<rparr>))))"

definition Decoded_SerializeTo :: "Decoded \<Rightarrow> bytes \<Rightarrow> bytes result" where
  "Decoded_SerializeTo s b =
    (if int (length b) < Base_Len s
     then Fail (Err ''buffer too small to serialize path.'')
     else
       bindR (slice b 0 MetaLen) (\<lambda>m.
       bindR (MetaHdr_SerializeTo (PathMeta s) m) (\<lambda>m'.
       bindR (serialize_seq InfoLen InfoField_SerializeTo (InfoFields s) MetaLen (copy_at 0 m' b))
         (\<lambda>b.
       serialize_seq HopLen HopField_SerializeTo (HopFields s)
         (MetaLen + length (InfoFields s) * InfoLen) b))))"

text \<open>\<^verbatim>\<open>for i, j := 0, n-1; i < j; i, j = i+1, j-1 { xs[i], xs[j] = xs[j], xs[i] }\<close>\<close>

function swap_loop :: "nat \<Rightarrow> nat \<Rightarrow> 'a list \<Rightarrow> 'a list" where
  "swap_loop i j xs =
    (if i < j then swap_loop (i + 1) (j - 1) (xs[i := xs ! j, j := xs ! i]) else xs)"
  by pat_completeness auto
termination
  by (relation "measure (\<lambda>(i, j, xs). j - i)") auto

declare swap_loop.simps [simp del]

text \<open>\<^verbatim>\<open>xs[0], xs[l] = xs[l], xs[0]\<close>\<close>

definition swap_first :: "nat \<Rightarrow> 'a list \<Rightarrow> 'a list" where
  "swap_first l xs = xs[0 := xs ! l, l := xs ! 0]"

text \<open>
  The accesses panic unless the slices hold the announced number of fields (and there are at
  most three segments).
\<close>

definition Decoded_Reverse :: "Decoded \<Rightarrow> Decoded result" where
  "Decoded_Reverse s =
    (if NumINF s = 0
     then Fail (Err ''empty decoded path is invalid and cannot be reversed'')
     else if NumINF s > int (length (InfoFields s)) \<or> NumINF s > 3
       \<or> (NumHops s > 1 \<and> NumHops s > int (length (HopFields s))) then Panic
     else let l = nat (NumINF s - 1);
              infos = (if NumINF s > 1 then swap_first l (InfoFields s) else InfoFields s);
              segs = (if NumINF s > 1 then swap_first l (SegLen (PathMeta s))
                      else SegLen (PathMeta s));
              infos = map (\<lambda>info. info\<lparr>ConsDir := \<not> ConsDir info\<rparr>) (take (nat (NumINF s)) infos)
                        @ drop (nat (NumINF s)) infos;
              hops = swap_loop 0 (nat (NumHops s - 1)) (HopFields s)
       in Ok (s\<lparr>InfoFields := infos, HopFields := hops,
                PathMeta := (PathMeta s)\<lparr>SegLen := segs,
                  CurrINF := word_of_int (NumINF s) - CurrINF (PathMeta s) - 1,
                  CurrHF := word_of_int (NumHops s) - CurrHF (PathMeta s) - 1\<rparr>\<rparr>))"

definition ToRaw :: "Decoded \<Rightarrow> Raw result" where
  "ToRaw s =
    (if Base_Len s < 0 then Panic
     else bindR (Decoded_SerializeTo s (replicate (nat (Base_Len s)) 0)) Raw_DecodeFromBytes)"

section \<open>Conversions of Raw\<close>

definition ToDecoded :: "Raw \<Rightarrow> Raw \<times> Decoded result" where
  "ToDecoded s =
    (case Raw_write_meta s of
       (s', Ok _) \<Rightarrow> (s', Decoded_DecodeFromBytes (RawBytes s'))
     | (s', Fail e) \<Rightarrow> (s', Fail e)
     | (s', Panic) \<Rightarrow> (s', Panic))"

definition Raw_Reverse :: "Raw \<Rightarrow> Raw result" where
  "Raw_Reverse s =
    (case ToDecoded s of (s', r) \<Rightarrow>
       bindR r (\<lambda>decoded.
       bindR (Decoded_Reverse decoded) (\<lambda>reversed.
       bindR (Decoded_SerializeTo reversed (RawBytes s')) (\<lambda>b.
       Raw_DecodeFromBytes b))))"

section \<open>Well-formed headers\<close>

text \<open>The ranges of the bit fields of a meta header.\<close>

definition wf_meta :: "MetaHdr \<Rightarrow> bool" where
  "wf_meta m \<longleftrightarrow> CurrINF m < 4 \<and> CurrHF m < 64 \<and> length (SegLen m) = 3
     \<and> (\<forall>i<3. SegLen m ! i < 64)"

lemma MetaHdr_decode_wf: "MetaHdr_DecodeFromBytes raw = Ok m \<Longrightarrow> wf_meta m"
  by (auto simp: MetaHdr_DecodeFromBytes_def Let_def wf_meta_def and_3F nth_Cons' word_less_def
      split: if_splits intro: top_bits_less take_bit_less_exp [of 6, simplified])

lemma MetaHdr_dec_line:
  "wf_meta m \<Longrightarrow> MetaHdr_DecodeFromBytes (put_u32 (MetaHdr_line m) @ r) = Ok m"
proof -
  assume wf: "wf_meta m"
  have bINF: "bit (CurrINF m) n \<Longrightarrow> n < 2" for n
    using wf bit_less_exp [of "CurrINF m" n 2] by (simp add: wf_meta_def word_less_def)
  have bHF: "bit (CurrHF m) n \<Longrightarrow> n < 6" for n
    using wf bit_less_exp [of "CurrHF m" n 6] by (simp add: wf_meta_def word_less_def)
  have bSeg: "i < 3 \<Longrightarrow> bit (SegLen m ! i) n \<Longrightarrow> n < 6" for i n
    using wf bit_less_exp [of "SegLen m ! i" n 6] by (simp add: wf_meta_def word_less_def)
  have "ucast (drop_bit 30 (MetaHdr_line m)) = CurrINF m"
    by (intro bit_word_eqI)
      (auto simp: MetaHdr_line_def bit_simps and_3F dest: bINF)
  moreover have "ucast (drop_bit 24 (MetaHdr_line m)) AND 0x3F = CurrHF m"
    by (intro bit_word_eqI)
      (auto simp: MetaHdr_line_def bit_simps and_3F dest: bHF)
  moreover have "ucast (drop_bit 12 (MetaHdr_line m)) AND 0x3F = SegLen m ! 0"
    by (intro bit_word_eqI)
      (auto simp: MetaHdr_line_def bit_simps and_3F dest: bSeg [of 0, simplified])
  moreover have "ucast (drop_bit 6 (MetaHdr_line m)) AND 0x3F = SegLen m ! 1"
    by (intro bit_word_eqI)
      (auto simp: MetaHdr_line_def bit_simps and_3F dest: bSeg [of 1, simplified])
  moreover have "ucast (MetaHdr_line m) AND 0x3F = SegLen m ! 2"
    by (intro bit_word_eqI)
      (auto simp: MetaHdr_line_def bit_simps and_3F dest: bSeg [of 2, simplified])
  moreover have "[SegLen m ! 0, SegLen m ! 1, SegLen m ! 2] = SegLen m"
    using wf by (auto simp: wf_meta_def length_eq_3)
  ultimately show ?thesis
    by (simp add: MetaHdr_DecodeFromBytes_def MetaLen_def)
qed

text \<open>
  What decoding establishes for the common part: the segments in use are the first \<open>NumINF\<close>, and
  \<open>NumHops\<close> is the sum of their lengths and at most 64. Nothing is said about \<open>CurrINF\<close> and
  \<open>CurrHF\<close> beyond their bit widths: a received header may point anywhere.
\<close>

definition wf_base :: "'a Base_scheme \<Rightarrow> bool" where
  "wf_base s \<longleftrightarrow> wf_meta (PathMeta s) \<and> 0 \<le> NumINF s \<and> NumINF s \<le> 3
     \<and> (\<forall>i<3. 0 < SegLen (PathMeta s) ! i \<longleftrightarrow> int i < NumINF s)
     \<and> NumHops s = sum_list (map uint (SegLen (PathMeta s))) \<and> NumHops s \<le> MaxHops"

lemma all_less_3: "(\<forall>i<3. P i) \<longleftrightarrow> P 0 \<and> P 1 \<and> P (2::nat)"
  by (auto simp: numeral_3_eq_3 less_Suc_eq numeral_2_eq_2)

lemma Base_count_Ok_iff:
  "Base_count [a, b, c] [2, 1, 0] 0 0 = Ok (n, h) \<longleftrightarrow>
     h = uint a + (uint b + uint c) \<and> 0 \<le> n \<and> n \<le> 3
     \<and> (a > 0 \<longleftrightarrow> n > 0) \<and> (b > 0 \<longleftrightarrow> n > 1) \<and> (c > 0 \<longleftrightarrow> n > 2)"
  by (cases "a = 0"; cases "b = 0"; cases "c = 0") (auto simp: word_gt_0)

lemma Base_DecodeFromBytes_iff:
  "Base_DecodeFromBytes data = Ok s \<longleftrightarrow>
     MetaHdr_DecodeFromBytes data = Ok (PathMeta s) \<and> wf_base s"
proof (cases "MetaHdr_DecodeFromBytes data")
  case (Ok m)
  then have "wf_meta m" by (rule MetaHdr_decode_wf)
  then obtain a b c where abc: "SegLen m = [a, b, c]"
    by (auto simp: wf_meta_def length_eq_3)
  obtain n h where eq: "s = \<lparr>PathMeta = PathMeta s, NumINF = n, NumHops = h\<rparr>"
    by (cases s) simp
  show ?thesis
  proof (cases "PathMeta s = m")
    case True
    with eq have s: "s = \<lparr>PathMeta = m, NumINF = n, NumHops = h\<rparr>" by simp
    have "Base_DecodeFromBytes data = Ok s \<longleftrightarrow>
        Base_count [a, b, c] [2, 1, 0] 0 0 = Ok (n, h) \<and> h \<le> MaxHops"
      by (cases "Base_count [a, b, c] [2, 1, 0] 0 0")
        (auto simp: Base_DecodeFromBytes_def Ok abc s split: if_splits simp del: Base_count.simps)
    also have "\<dots> \<longleftrightarrow> wf_base s"
      using \<open>wf_meta m\<close> unfolding Base_count_Ok_iff by (auto simp: wf_base_def s abc all_less_3)
    finally show ?thesis using Ok True by simp
  next
    case False
    then show ?thesis
      by (auto simp: Base_DecodeFromBytes_def Ok bindR_eq_Ok split: if_splits
          simp del: Base_count.simps)
  qed
qed (simp_all add: Base_DecodeFromBytes_def)

lemma decode_seq_iff:
  "decode_seq w dec n off data = Ok xs \<longleftrightarrow>
     length xs = n \<and> (\<forall>i<n. off + w * Suc i \<le> length data
        \<and> dec (take w (drop (off + w * i) data)) = Ok (xs ! i))"
proof (induction n arbitrary: off xs)
  case 0
  then show ?case by auto
next
  case (Suc n)
  have all_Suc: "(\<forall>i<Suc n. P i) \<longleftrightarrow> P 0 \<and> (\<forall>i<n. P (Suc i))" for P
    by (auto simp: less_Suc_eq_0_disj)
  show ?case
  proof (cases xs)
    case Nil
    then show ?thesis by (auto simp: bindR_eq_Ok mapR_eq_Ok)
  next
    case (Cons y ys)
    show ?thesis
      unfolding Cons all_Suc
      by (auto simp: bindR_eq_Ok mapR_eq_Ok slice_Ok_iff Suc.IH algebra_simps)
  qed
qed

lemmas path_lens = MetaLen_def InfoLen_def HopLen_def

lemma Base_Len_truncate [simp]: "Base_Len (Base.truncate s) = Base_Len s"
  by (simp add: Base_Len_def Base.truncate_def)

lemma wf_base_truncate [simp]: "wf_base (Base.truncate s) = wf_base s"
  by (simp add: wf_base_def Base.truncate_def)

lemma Base_extend_truncate [simp]:
  "Base.truncate (Base.extend s x) = s" "PathMeta (Base.extend s x) = PathMeta s"
  "NumINF (Base.extend s x) = NumINF s" "NumHops (Base.extend s x) = NumHops s"
  by (cases s; simp add: Base.extend_def Base.truncate_def)+

definition wf_raw :: "Raw \<Rightarrow> bool" where
  "wf_raw r \<longleftrightarrow> wf_base r \<and> int (length (RawBytes r)) = Base_Len r"

lemma wf_base_bounds:
  assumes "wf_base s"
  shows "0 \<le> NumINF s" "NumINF s \<le> 3" "0 \<le> NumHops s" "NumHops s \<le> 64"
proof -
  show "0 \<le> NumINF s" "NumINF s \<le> 3" "NumHops s \<le> 64"
    using assms by (auto simp: wf_base_def MaxHops_def)
  show "0 \<le> NumHops s"
    using assms by (auto simp: wf_base_def intro!: sum_list_nonneg)
qed

lemma wf_raw_length:
  assumes "wf_raw r"
  shows "length (RawBytes r) = 4 + 8 * nat (NumINF r) + 12 * nat (NumHops r)"
proof -
  have "int (length (RawBytes r)) = int (4 + 8 * nat (NumINF r) + 12 * nat (NumHops r))"
    using assms wf_base_bounds [of r] by (simp add: wf_raw_def Base_Len_def path_lens)
  then show ?thesis by linarith
qed

lemma Base_extend_frame [simp]:
  "wf_base (Base.extend s x) = wf_base s" "Base_Len (Base.extend s x) = Base_Len s"
  by (simp_all add: wf_base_def Base_Len_def)

lemma RawBytes_extend [simp]: "RawBytes (Base.extend s \<lparr>RawBytes = b\<rparr>) = b"
  by (simp add: Base.extend_def)

lemma Base_Len_pos: "wf_base s \<Longrightarrow> 4 \<le> Base_Len s"
  using wf_base_bounds [of s] by (simp add: Base_Len_def path_lens)

lemma extend_Raw_eq_iff:
  "Base.extend s \<lparr>RawBytes = b\<rparr> = r \<longleftrightarrow> s = Base.truncate r \<and> b = RawBytes r"
  by (cases r; cases s) (auto simp: Base.extend_def Base.truncate_def)

lemma Raw_DecodeFromBytes_iff:
  "Raw_DecodeFromBytes data = Ok r \<longleftrightarrow>
     Base_DecodeFromBytes data = Ok (Base.truncate r) \<and> Base_Len r \<le> int (length data)
     \<and> RawBytes r = take (nat (Base_Len r)) data"
proof (cases "Base_DecodeFromBytes data")
  case (Ok s)
  then have "0 \<le> Base_Len s"
    using Base_Len_pos [of s] by (simp add: Base_DecodeFromBytes_iff)
  then have "Raw_DecodeFromBytes data =
      (if int (length data) < Base_Len s then Fail (Err ''RawPath raw too short'')
       else Ok (Base.extend s \<lparr>RawBytes = take (nat (Base_Len s)) data\<rparr>))"
    by (simp add: Raw_DecodeFromBytes_def Ok sliceI_def slice_def nat_le_iff)
  then show ?thesis
    using Ok by (auto simp: extend_Raw_eq_iff not_less)
qed (simp_all add: Raw_DecodeFromBytes_def)

lemma Raw_DecodeFromBytes_wf: "Raw_DecodeFromBytes data = Ok r \<Longrightarrow> wf_raw r"
  using Base_Len_pos [of "Base.truncate r"]
  by (auto simp: Raw_DecodeFromBytes_iff Base_DecodeFromBytes_iff wf_raw_def min_def nat_le_iff)

lemma Base_DecodeFromBytes_no_panic [simp]: "Base_DecodeFromBytes data \<noteq> Panic"
proof -
  have "Base_count segs is n h \<noteq> Panic" for segs "is" n h
    by (induction segs "is" n h rule: Base_count.induct) auto
  then show ?thesis
    by (auto simp: Base_DecodeFromBytes_def bindR_eq_Panic MetaHdr_DecodeFromBytes_def Let_def
        split: prod.splits if_splits simp del: Base_count.simps)
qed

lemma Raw_DecodeFromBytes_no_panic [simp]: "Raw_DecodeFromBytes data \<noteq> Panic"
proof -
  have "0 \<le> Base_Len s" if "Base_DecodeFromBytes data = Ok s" for s
    using that Base_Len_pos [of s] by (simp add: Base_DecodeFromBytes_iff)
  then show ?thesis
    by (auto simp: Raw_DecodeFromBytes_def bindR_eq_Panic mapR_eq_Panic sliceI_def
        slice_Panic_iff Let_def nat_le_iff split: if_splits)
qed

section \<open>Raw refines Decoded\<close>

text \<open>The raw path \<open>r\<close> holds, at the wire offsets, exactly the fields of the decoded path \<open>d\<close>.\<close>

definition refines :: "Raw \<Rightarrow> Decoded \<Rightarrow> bool" where
  "refines r d \<longleftrightarrow> wf_raw r \<and> Base.truncate r = Base.truncate d
     \<and> length (InfoFields d) = nat (NumINF r) \<and> length (HopFields d) = nat (NumHops r)
     \<and> (\<forall>i<nat (NumINF r). InfoField_DecodeFromBytes
          (take InfoLen (drop (MetaLen + InfoLen * i) (RawBytes r))) = Ok (InfoFields d ! i))
     \<and> (\<forall>i<nat (NumHops r). HopField_DecodeFromBytes
          (take HopLen (drop (MetaLen + nat (NumINF r) * InfoLen + HopLen * i) (RawBytes r)))
            = Ok (HopFields d ! i))"

lemma refines_Base:
  "refines r d \<Longrightarrow> PathMeta d = PathMeta r \<and> NumINF d = NumINF r \<and> NumHops d = NumHops r"
  by (cases r; cases d) (simp add: refines_def Base.truncate_def)

lemma GetInfoField_refines:
  assumes "refines r d" and "i < nat (NumINF r)"
  shows "GetInfoField r (int i) = Ok (InfoFields d ! i)"
proof -
  have wf: "wf_raw r" using assms(1) by (simp add: refines_def)
  have "MetaLen + InfoLen * i + InfoLen \<le> length (RawBytes r)"
    using wf_raw_length [OF wf] assms(2) by (simp add: path_lens)
  then have "sliceI (RawBytes r) (int MetaLen + int i * int InfoLen)
      (int MetaLen + int i * int InfoLen + int InfoLen)
      = Ok (take InfoLen (drop (MetaLen + InfoLen * i) (RawBytes r)))"
    by (simp add: sliceI_def slice_def nat_add_distrib nat_mult_distrib mult.commute)
  then show ?thesis
    using assms by (simp add: GetInfoField_def Let_def refines_def)
qed

lemma hopOffset_nat:
  "wf_raw r \<Longrightarrow> hopOffset r (int i) = int (MetaLen + nat (NumINF r) * InfoLen + HopLen * i)"
  using wf_base_bounds [of r] by (simp add: hopOffset_def wf_raw_def)

lemma GetHopField_refines:
  assumes "refines r d" and "i < nat (NumHops r)"
  shows "GetHopField r (int i) = Ok (HopFields d ! i)"
proof -
  have wf: "wf_raw r" using assms(1) by (simp add: refines_def)
  have "MetaLen + nat (NumINF r) * InfoLen + HopLen * i + HopLen \<le> length (RawBytes r)"
    using wf_raw_length [OF wf] assms(2) by (simp add: path_lens)
  then have "sliceI (RawBytes r) (hopOffset r (int i)) (hopOffset r (int i) + int HopLen)
      = Ok (take HopLen (drop (MetaLen + nat (NumINF r) * InfoLen + HopLen * i) (RawBytes r)))"
    unfolding hopOffset_nat [OF wf] by (simp add: sliceI_def slice_def nat_add_distrib nat_mult_distrib)
  then show ?thesis
    using assms by (simp add: GetHopField_def refines_def)
qed

lemma wf_raw_update_bytes [simp]:
  "wf_raw r \<Longrightarrow> length b = length (RawBytes r) \<Longrightarrow> wf_raw (r\<lparr>RawBytes := b\<rparr>)"
  by (simp add: wf_raw_def wf_base_def Base_Len_def)

lemma SetInfoField_refines:
  assumes "refines r d" and "i < nat (NumINF r)"
  shows "\<exists>r'. SetInfoField r x (int i) = Ok r'
    \<and> refines r' (d\<lparr>InfoFields := (InfoFields d)[i := x]\<rparr>)"
proof -
  let ?off = "MetaLen + InfoLen * i"
  let ?b = "copy_at ?off (InfoField_bytes x) (RawBytes r)"
  have wf: "wf_raw r" using assms(1) by (simp add: refines_def)
  have bound: "?off + InfoLen \<le> MetaLen + nat (NumINF r) * InfoLen"
      "MetaLen + nat (NumINF r) * InfoLen + HopLen * nat (NumHops r) = length (RawBytes r)"
    using wf_raw_length [OF wf] assms(2) by (simp_all add: path_lens)
  have len: "length (InfoField_bytes x) = InfoLen" by (rule info.enc_width) simp
  have "SetInfoField r x (int i) = Ok (r\<lparr>RawBytes := ?b\<rparr>)"
    using assms(2) bound
    by (simp add: SetInfoField_def Let_def sliceI_def slice_def nat_add_distrib nat_mult_distrib
        InfoField_SerializeTo_def copy_at_0 len mult.commute)
  moreover have "refines (r\<lparr>RawBytes := ?b\<rparr>) (d\<lparr>InfoFields := (InfoFields d)[i := x]\<rparr>)"
  proof -
    have "InfoField_DecodeFromBytes (take InfoLen (drop (MetaLen + InfoLen * j) ?b))
        = Ok ((InfoFields d)[i := x] ! j)" if "j < nat (NumINF r)" for j
    proof (cases "j = i")
      case True
      then show ?thesis
        using bound assms drop_copy_at_at [of ?off "RawBytes r" "InfoField_bytes x"]
        by (simp add: len refines_def InfoField_dec_bytes)
    next
      case False
      then have "MetaLen + InfoLen * j + InfoLen \<le> ?off \<or> ?off + InfoLen \<le> MetaLen + InfoLen * j"
        by (auto simp: path_lens)
      then show ?thesis
        using bound assms(1) that False
        by (simp add: take_drop_copy_at_disjoint len refines_def)
    qed
    moreover have "HopField_DecodeFromBytes
        (take HopLen (drop (MetaLen + nat (NumINF r) * InfoLen + HopLen * j) ?b))
        = Ok (HopFields d ! j)" if "j < nat (NumHops r)" for j
      using bound assms(1) that by (simp add: take_drop_copy_at_disjoint len refines_def)
    ultimately show ?thesis
      using assms(1) bound by (simp add: refines_def len Base.truncate_def)
  qed
  ultimately show ?thesis by blast
qed

lemma SetHopField_refines:
  assumes "refines r d" and "i < nat (NumHops r)" and "wf_hop x"
  shows "\<exists>r'. SetHopField r x (int i) = Ok r'
    \<and> refines r' (d\<lparr>HopFields := (HopFields d)[i := x]\<rparr>)"
proof -
  let ?off = "MetaLen + nat (NumINF r) * InfoLen + HopLen * i"
  let ?b = "copy_at ?off (HopField_bytes x) (RawBytes r)"
  have wf: "wf_raw r" using assms(1) by (simp add: refines_def)
  have bound: "?off + HopLen \<le> length (RawBytes r)"
    using wf_raw_length [OF wf] assms(2) by (simp add: path_lens)
  have len: "length (HopField_bytes x) = HopLen" using assms(3) by (rule hop.enc_width)
  have "SetHopField r x (int i) = Ok (r\<lparr>RawBytes := ?b\<rparr>)"
    using assms(2) bound unfolding SetHopField_def hopOffset_nat [OF wf]
    by (simp add: sliceI_def slice_def nat_add_distrib nat_mult_distrib
        HopField_SerializeTo_def copy_at_0 len)
  moreover have "refines (r\<lparr>RawBytes := ?b\<rparr>) (d\<lparr>HopFields := (HopFields d)[i := x]\<rparr>)"
  proof -
    have "HopField_DecodeFromBytes
        (take HopLen (drop (MetaLen + nat (NumINF r) * InfoLen + HopLen * j) ?b))
        = Ok ((HopFields d)[i := x] ! j)" if "j < nat (NumHops r)" for j
    proof (cases "j = i")
      case True
      then show ?thesis
        using bound assms drop_copy_at_at [of ?off "RawBytes r" "HopField_bytes x"]
        by (simp add: len refines_def HopField_dec_bytes)
    next
      case False
      then have "HopLen * j + HopLen \<le> HopLen * i \<or> HopLen * i + HopLen \<le> HopLen * j"
        by (auto simp: path_lens)
      then show ?thesis
        using bound assms(1) that False
        by (simp add: take_drop_copy_at_disjoint len refines_def)
    qed
    moreover have "InfoField_DecodeFromBytes (take InfoLen (drop (MetaLen + InfoLen * j) ?b))
        = Ok (InfoFields d ! j)" if "j < nat (NumINF r)" for j
    proof -
      have "MetaLen + InfoLen * j + InfoLen \<le> ?off"
        using that by (simp add: path_lens)
      then show ?thesis
        using bound assms(1) that by (simp add: take_drop_copy_at_disjoint len refines_def)
    qed
    ultimately show ?thesis
      using assms(1) bound by (simp add: refines_def len Base.truncate_def)
  qed
  ultimately show ?thesis by blast
qed

lemma Raw_write_meta_wf:
  assumes "wf_raw r"
  shows "Raw_write_meta r
    = (r\<lparr>RawBytes := copy_at 0 (put_u32 (MetaHdr_line (PathMeta r))) (RawBytes r)\<rparr>, Ok ())"
  using wf_raw_length [OF assms]
  by (simp add: Raw_write_meta_def slice_def MetaLen_def MetaHdr_SerializeTo_def copy_at_0)

lemma refines_write_meta:
  assumes "refines r d"
  shows "refines (r\<lparr>RawBytes := copy_at 0 (put_u32 m) (RawBytes r)\<rparr>) d"
proof -
  have "4 \<le> length (RawBytes r)"
    using assms wf_raw_length [of r] by (simp add: refines_def)
  then show ?thesis
    using assms refines_Base [OF assms]
    by (simp add: refines_def take_drop_copy_at_disjoint Base.truncate_def MetaLen_def)
qed

lemma refines_update_meta:
  assumes "refines r d" and "wf_base (r\<lparr>PathMeta := m\<rparr>)"
  shows "refines (r\<lparr>PathMeta := m\<rparr>) (d\<lparr>PathMeta := m\<rparr>)"
  using assms by (cases r; cases d) (simp add: refines_def wf_raw_def Base_Len_def Base.truncate_def)

lemma wf_base_NumHops_pos: "wf_base s \<Longrightarrow> NumINF s \<noteq> 0 \<Longrightarrow> 0 < NumHops s"
  by (auto simp: wf_base_def wf_meta_def length_eq_3 all_less_3 word_gt_0 word_less_def
      add_pos_nonneg)

lemma uint_u8_plus1: "uint (x::u8) < 255 \<Longrightarrow> uint (x + 1) = uint x + 1"
  by (simp add: uint_plus_if')

lemma infIndexForHF_less: "infIndexForHF s hf < 4"
  by (simp add: infIndexForHF_def)

lemma wf_base_IncPath:
  assumes "wf_base s"
  shows "wf_base (fst (Base_IncPath s))"
proof -
  have b: "0 \<le> NumHops s" "NumHops s \<le> 64" using wf_base_bounds [OF assms] by auto
  have "uint (word_of_int (NumHops s - 1) :: u8) < 64" if "NumINF s \<noteq> 0"
    using b wf_base_NumHops_pos [OF assms that] by (simp add: uint_word_of_int del: of_int_diff)
  moreover have "uint (CurrHF (PathMeta s) + 1) < 64" if "uint (CurrHF (PathMeta s)) < NumHops s - 1"
    using b that by (simp add: uint_u8_plus1)
  ultimately show ?thesis
    using assms infIndexForHF_less [of s]
    by (auto simp: Base_IncPath_def Let_def wf_base_def wf_meta_def word_less_def)
qed

lemma Raw_IncPath_refines:
  assumes "refines r d"
  shows "refines (fst (Raw_IncPath r)) (fst (Base_IncPath d))
    \<and> snd (Raw_IncPath r) = snd (Base_IncPath d)"
proof -
  have eqs: "PathMeta d = PathMeta r" "NumINF d = NumINF r" "NumHops d = NumHops r"
    using refines_Base [OF assms] by auto
  obtain m where m: "fst (Base_IncPath r) = r\<lparr>PathMeta := m\<rparr>"
      "fst (Base_IncPath d) = d\<lparr>PathMeta := m\<rparr>" "snd (Base_IncPath r) = snd (Base_IncPath d)"
  proof -
    have same: "r = r\<lparr>PathMeta := PathMeta r\<rparr>" "d = d\<lparr>PathMeta := PathMeta r\<rparr>"
      using eqs by (cases r; cases d; simp)+
    consider "NumINF r = 0" | "NumINF r \<noteq> 0" "uint (CurrHF (PathMeta r)) \<ge> NumHops r - 1"
      | "NumINF r \<noteq> 0" "uint (CurrHF (PathMeta r)) < NumHops r - 1"
      by linarith
    then show ?thesis
    proof cases
      case 1
      with same eqs show ?thesis by (intro that [of "PathMeta r"]) (simp_all add: Base_IncPath_def)
    qed (rule that; simp add: Base_IncPath_def eqs Let_def infIndexForHF_def)+
  qed
  have ref: "refines (r\<lparr>PathMeta := m\<rparr>) (d\<lparr>PathMeta := m\<rparr>)"
    using assms wf_base_IncPath [of r] m(1)
    by (intro refines_update_meta) (auto simp: refines_def wf_raw_def)
  then show ?thesis
    using Raw_write_meta_wf [of "r\<lparr>PathMeta := m\<rparr>"] refines_write_meta [OF ref] m
    by (cases "Base_IncPath r"; cases "snd (Base_IncPath r)")
      (auto simp: Raw_IncPath_def refines_def)
qed

definition wf_decoded :: "Decoded \<Rightarrow> bool" where
  "wf_decoded d \<longleftrightarrow> wf_base d \<and> length (InfoFields d) = nat (NumINF d)
     \<and> length (HopFields d) = nat (NumHops d) \<and> list_all wf_hop (HopFields d)"

lemma extend_Decoded_eq_iff:
  "Base.extend s \<lparr>InfoFields = is, HopFields = hs\<rparr> = d \<longleftrightarrow>
     s = Base.truncate d \<and> is = InfoFields d \<and> hs = HopFields d"
  by (cases d; cases s) (auto simp: Base.extend_def Base.truncate_def)

lemma Decoded_DecodeFromBytes_iff:
  "Decoded_DecodeFromBytes data = Ok d \<longleftrightarrow>
     Base_DecodeFromBytes data = Ok (Base.truncate d) \<and> Base_Len d \<le> int (length data)
     \<and> decode_seq InfoLen InfoField_DecodeFromBytes (nat (NumINF d)) MetaLen data
         = Ok (InfoFields d)
     \<and> decode_seq HopLen HopField_DecodeFromBytes (nat (NumHops d))
         (MetaLen + nat (NumINF d) * InfoLen) data = Ok (HopFields d)"
proof (cases "Base_DecodeFromBytes data")
  case (Ok s)
  show ?thesis
    by (cases "s = Base.truncate d")
      (auto simp: Decoded_DecodeFromBytes_def Ok bindR_eq_Ok extend_Decoded_eq_iff
        Base.truncate_def Base_Len_def)
qed (simp_all add: Decoded_DecodeFromBytes_def)

lemma wf_raw_refines_Decoded:
  assumes "wf_raw r"
  shows "\<exists>d. refines r d \<and> wf_decoded d"
proof -
  have len: "length (RawBytes r) = 4 + 8 * nat (NumINF r) + 12 * nat (NumHops r)"
    by (rule wf_raw_length [OF assms])
  obtain ifs where ifs: "decode_seq InfoLen InfoField_DecodeFromBytes (nat (NumINF r)) MetaLen (RawBytes r) = Ok ifs"
      "length ifs = nat (NumINF r)"
    using info.decode_seq_total [of MetaLen "nat (NumINF r)" "RawBytes r"] len
    by (auto simp: path_lens)
  obtain hs where hs: "decode_seq HopLen HopField_DecodeFromBytes (nat (NumHops r))
      (MetaLen + nat (NumINF r) * InfoLen) (RawBytes r) = Ok hs"
      "length hs = nat (NumHops r)" "list_all wf_hop hs"
    using hop.decode_seq_total [of "MetaLen + nat (NumINF r) * InfoLen" "nat (NumHops r)" "RawBytes r"] len
    by (auto simp: path_lens)
  let ?d = "Base.extend (Base.truncate r) \<lparr>InfoFields = ifs, HopFields = hs\<rparr>"
  have "refines r ?d"
    using assms ifs hs unfolding refines_def decode_seq_iff
    by (simp add: Base.extend_def Base.truncate_def)
  moreover have "wf_decoded ?d"
    using assms ifs hs
    by (simp add: wf_decoded_def wf_raw_def Base.extend_def Base.truncate_def wf_base_def)
  ultimately show ?thesis by blast
qed

text \<open>
  The pointer of a raw path is kept twice, in \<^verbatim>\<open>PathMeta\<close> and in the first bytes of the buffer, which are what a
  packet carries. The path is in sync if they agree; then \<open>r\<close> encodes \<open>d\<close>: its bytes decode to \<open>d\<close>.
\<close>

definition in_sync :: "Raw \<Rightarrow> bool" where
  "in_sync r \<longleftrightarrow> MetaHdr_DecodeFromBytes (RawBytes r) = Ok (PathMeta r)"

definition encodes :: "Raw \<Rightarrow> Decoded \<Rightarrow> bool" where
  "encodes r d \<longleftrightarrow> refines r d \<and> Decoded_DecodeFromBytes (RawBytes r) = Ok d"

lemma MetaHdr_decode_prefix:
  "MetaLen \<le> length b \<Longrightarrow> MetaHdr_DecodeFromBytes (take MetaLen b) = MetaHdr_DecodeFromBytes b"
  by (simp add: MetaHdr_DecodeFromBytes_def be_u32_def MetaLen_def Let_def)

lemma MetaHdr_decode_cong:
  assumes "take MetaLen b = take MetaLen b'" and "MetaLen \<le> length b" and "MetaLen \<le> length b'"
  shows "MetaHdr_DecodeFromBytes b = MetaHdr_DecodeFromBytes b'"
  using MetaHdr_decode_prefix [OF assms(2)] MetaHdr_decode_prefix [OF assms(3)] assms(1) by simp

lemma MetaHdr_decode_append:
  assumes "take n data = b" and "MetaLen \<le> length b"
  shows "MetaHdr_DecodeFromBytes data = MetaHdr_DecodeFromBytes b"
proof -
  have data: "data = b @ drop n data" using assms(1) by (metis append_take_drop_id)
  have "take MetaLen (b @ drop n data) = take MetaLen b" using assms(2) by simp
  then show ?thesis using assms(2) data by (intro MetaHdr_decode_cong) (metis, metis length_append trans_le_add1, simp)
qed

lemma wf_raw_MetaLen: "wf_raw r \<Longrightarrow> MetaLen \<le> length (RawBytes r)"
  by (simp add: wf_raw_length MetaLen_def)

lemma encodes_iff: "encodes r d \<longleftrightarrow> refines r d \<and> in_sync r"
proof (cases "refines r d")
  case True
  have wf: "wf_raw r" using True by (simp add: refines_def)
  have eqs: "PathMeta d = PathMeta r" "NumINF d = NumINF r" "NumHops d = NumHops r"
    using refines_Base [OF True] by auto
  have "wf_base (Base.truncate d)" using wf eqs by (simp add: wf_raw_def wf_base_def Base.truncate_def)
  then have "Base_DecodeFromBytes (RawBytes r) = Ok (Base.truncate d) \<longleftrightarrow> in_sync r"
    by (simp add: Base_DecodeFromBytes_iff in_sync_def eqs Base.truncate_def)
  then show ?thesis
    using True wf wf_raw_length [OF wf] unfolding encodes_def Decoded_DecodeFromBytes_iff decode_seq_iff
    by (auto simp: refines_def eqs path_lens Base_Len_def wf_raw_def)
qed (simp add: encodes_def)

lemma in_sync_write_meta:
  assumes "wf_raw r"
  shows "in_sync (r\<lparr>RawBytes := copy_at 0 (put_u32 (MetaHdr_line (PathMeta r))) (RawBytes r)\<rparr>)"
  using assms by (simp add: in_sync_def copy_at_0 MetaHdr_dec_line wf_raw_def wf_base_def)

lemma in_sync_copy:
  assumes "in_sync r" and "wf_raw r" and "MetaLen \<le> off" and "off + length b \<le> length (RawBytes r)"
  shows "in_sync (r\<lparr>RawBytes := copy_at off b (RawBytes r)\<rparr>)"
proof -
  have "take MetaLen (copy_at off b (RawBytes r)) = take MetaLen (RawBytes r)" using assms(3,4) by simp
  from MetaHdr_decode_cong [OF this] assms wf_raw_MetaLen [OF assms(2)] show ?thesis by (simp add: in_sync_def)
qed

lemma sliceI_length: "sliceI b i j = Ok c \<Longrightarrow> length c = nat (j - i) \<and> 0 \<le> i \<and> i \<le> j \<and> j \<le> int (length b)"
  by (auto simp: sliceI_def slice_def split: if_splits)

lemma SetInfoField_sync:
  assumes "in_sync r" and "wf_raw r" and "SetInfoField r x i = Ok r'" and "0 \<le> i"
  shows "in_sync r'"
proof -
  obtain b b' where b: "sliceI (RawBytes r) (int MetaLen + i * int InfoLen) (int MetaLen + i * int InfoLen + int InfoLen) = Ok b"
      "InfoField_SerializeTo x b = Ok b'" "r' = r\<lparr>RawBytes := copy_at (nat (int MetaLen + i * int InfoLen)) b' (RawBytes r)\<rparr>"
    using assms(3) by (auto simp: SetInfoField_def Let_def bindR_eq_Ok split: if_splits)
  have len: "length (InfoField_bytes x) = InfoLen" by (rule info.enc_width) simp
  have b1: "length b = InfoLen" "0 \<le> i * int InfoLen" "int MetaLen + i * int InfoLen + int InfoLen \<le> int (length (RawBytes r))"
    using sliceI_length [OF b(1)] assms(4) by simp_all
  have b2: "length b' = InfoLen" using b(2) b1(1) len by (auto simp: InfoField_SerializeTo_def copy_at_0 split: if_splits)
  have "MetaLen \<le> nat (int MetaLen + i * int InfoLen)"
      "nat (int MetaLen + i * int InfoLen) + length b' \<le> length (RawBytes r)"
    using b1(2,3) b2 by linarith+
  from in_sync_copy [OF assms(1,2) this] show ?thesis by (simp add: b(3))
qed

lemma SetHopField_sync:
  assumes "in_sync r" and "wf_raw r" and "SetHopField r x i = Ok r'" and "0 \<le> i" and "wf_hop x"
  shows "in_sync r'"
proof -
  obtain b b' where b: "sliceI (RawBytes r) (hopOffset r i) (hopOffset r i + int HopLen) = Ok b"
      "HopField_SerializeTo x b = Ok b'" "r' = r\<lparr>RawBytes := copy_at (nat (hopOffset r i)) b' (RawBytes r)\<rparr>"
    using assms(3) by (auto simp: SetHopField_def bindR_eq_Ok split: if_splits)
  have len: "length (HopField_bytes x) = HopLen" using assms(5) by (rule hop.enc_width)
  have off: "int MetaLen \<le> hopOffset r i" using wf_base_bounds [of r] assms(2,4) by (simp add: hopOffset_def wf_raw_def)
  have b1: "length b = HopLen" "hopOffset r i + int HopLen \<le> int (length (RawBytes r))"
    using sliceI_length [OF b(1)] by simp_all
  have b2: "length b' = HopLen" using b(2) b1(1) len by (auto simp: HopField_SerializeTo_def copy_at_0 split: if_splits)
  have "MetaLen \<le> nat (hopOffset r i)" "nat (hopOffset r i) + length b' \<le> length (RawBytes r)"
    using b1(2) b2 off by linarith+
  from in_sync_copy [OF assms(1,2) this] show ?thesis by (simp add: b(3))
qed

lemma Raw_IncPath_sync:
  assumes "wf_raw r" and "snd (Raw_IncPath r) = Ok ()"
  shows "in_sync (fst (Raw_IncPath r))"
proof -
  obtain s' u where s': "Base_IncPath r = (s', u)" by (cases "Base_IncPath r")
  have "wf_base s'" using wf_base_IncPath [of r] assms(1) s' by (simp add: wf_raw_def)
  moreover have "Base_Len s' = Base_Len r" "RawBytes s' = RawBytes r"
    using arg_cong [OF s', of fst] by (auto simp: Base_IncPath_def Let_def Base_Len_def split: if_splits)
  ultimately have wf: "wf_raw s'" using assms(1) by (simp add: wf_raw_def)
  have "u = Ok ()" using assms(2) by (cases u) (simp_all add: Raw_IncPath_def s')
  then show ?thesis using in_sync_write_meta [OF wf] Raw_write_meta_wf [OF wf] by (simp add: Raw_IncPath_def s')
qed

lemma Raw_DecodeFromBytes_sync:
  assumes "Raw_DecodeFromBytes data = Ok r"
  shows "in_sync r"
proof -
  have r: "MetaHdr_DecodeFromBytes data = Ok (PathMeta r)" "RawBytes r = take (nat (Base_Len r)) data"
    using assms by (auto simp: Raw_DecodeFromBytes_iff Base_DecodeFromBytes_iff Base.truncate_def)
  have wf: "MetaLen \<le> length (RawBytes r)" using wf_raw_MetaLen [OF Raw_DecodeFromBytes_wf [OF assms]] .
  from MetaHdr_decode_append [OF r(2) [symmetric] this] r(1) show ?thesis by (simp add: in_sync_def)
qed

lemma Raw_decode_again:
  assumes "wf_raw r" and "in_sync r" and "take (length (RawBytes r)) data = RawBytes r"
  shows "Raw_DecodeFromBytes data = Ok r"
proof -
  have len: "length (RawBytes r) \<le> length data" using arg_cong [OF assms(3), of length] by simp
  have "MetaHdr_DecodeFromBytes data = MetaHdr_DecodeFromBytes (RawBytes r)"
    by (rule MetaHdr_decode_append [OF assms(3) wf_raw_MetaLen [OF assms(1)]])
  then have "Base_DecodeFromBytes data = Ok (Base.truncate r)"
    using assms(1,2) by (simp add: Base_DecodeFromBytes_iff in_sync_def wf_raw_def wf_base_def Base.truncate_def)
  moreover have "Base_Len r = int (length (RawBytes r))" using assms(1) by (simp add: wf_raw_def)
  ultimately show ?thesis using assms(3) len by (simp add: Raw_DecodeFromBytes_iff)
qed

lemma ToDecoded_refines:
  assumes "refines r d"
  shows "refines (fst (ToDecoded r)) d \<and> snd (ToDecoded r) = Ok d"
proof -
  let ?raw = "copy_at 0 (put_u32 (MetaHdr_line (PathMeta r))) (RawBytes r)"
  let ?r = "r\<lparr>RawBytes := ?raw\<rparr>"
  have wf: "wf_raw r" using assms by (simp add: refines_def)
  have ref: "refines ?r d" by (rule refines_write_meta [OF assms])
  have eqs: "PathMeta d = PathMeta r" "NumINF d = NumINF r" "NumHops d = NumHops r"
    using refines_Base [OF assms] by auto
  have base: "Base_DecodeFromBytes ?raw = Ok (Base.truncate d)"
    using wf eqs by (simp add: Base_DecodeFromBytes_iff copy_at_0 MetaHdr_dec_line
        Base.truncate_def wf_raw_def wf_base_def)
  have len: "length ?raw = 4 + 8 * nat (NumINF r) + 12 * nat (NumHops r)"
    using wf_raw_length [OF wf] by simp
  then have "Decoded_DecodeFromBytes ?raw = Ok d"
    using ref base wf unfolding Decoded_DecodeFromBytes_iff decode_seq_iff
    by (auto simp: refines_def eqs path_lens Base_Len_def wf_raw_def)
  then show ?thesis
    using ref by (simp add: ToDecoded_def Raw_write_meta_wf [OF wf])
qed

section \<open>Round trip of decoded paths\<close>

definition path_bytes :: "Decoded \<Rightarrow> bytes" where
  "path_bytes d = put_u32 (MetaHdr_line (PathMeta d)) @ concat (map InfoField_bytes (InfoFields d))
     @ concat (map HopField_bytes (HopFields d))"

lemma length_path_bytes: "wf_decoded d \<Longrightarrow> int (length (path_bytes d)) = Base_Len d"
  using wf_base_bounds [of d] info.length_concat_enc [of "InfoFields d"]
    hop.length_concat_enc [of "HopFields d"]
  by (simp add: path_bytes_def wf_decoded_def Base_Len_def MetaLen_def)

lemma Decoded_SerializeTo_wf:
  assumes wf: "wf_decoded d" and len: "Base_Len d \<le> int (length b)"
  shows "Decoded_SerializeTo d b = Ok (copy_at 0 (path_bytes d) b)"
proof -
  let ?m = "put_u32 (MetaHdr_line (PathMeta d))"
  let ?i = "concat (map InfoField_bytes (InfoFields d))"
  let ?h = "concat (map HopField_bytes (HopFields d))"
  have li: "length ?i = InfoLen * length (InfoFields d)"
    and lh: "length ?h = HopLen * length (HopFields d)"
    using info.length_concat_enc [of "InfoFields d"] hop.length_concat_enc [of "HopFields d"] wf
    by (simp_all add: wf_decoded_def)
  have total: "MetaLen + InfoLen * length (InfoFields d) + HopLen * length (HopFields d) \<le> length b"
    using len length_path_bytes [OF wf] li lh by (simp add: path_bytes_def path_lens)
  then have four: "4 \<le> length b" by (simp add: MetaLen_def)
  have hops: "list_all wf_hop (HopFields d)" using wf by (simp add: wf_decoded_def)
  have "Decoded_SerializeTo d b = bindR (serialize_seq InfoLen InfoField_SerializeTo (InfoFields d)
      MetaLen (copy_at 0 ?m b)) (serialize_seq HopLen HopField_SerializeTo (HopFields d)
         (MetaLen + length (InfoFields d) * InfoLen))"
    using len four by (simp add: Decoded_SerializeTo_def slice_def MetaLen_def MetaHdr_SerializeTo_def copy_at_0)
  also have "\<dots> = serialize_seq HopLen HopField_SerializeTo (HopFields d)
         (MetaLen + InfoLen * length (InfoFields d)) (copy_at MetaLen ?i (copy_at 0 ?m b))"
    using total four info.serialize_seq_concat [of "InfoFields d" MetaLen "copy_at 0 ?m b"]
    by (simp add: mult.commute)
  also have "\<dots> = Ok (copy_at (MetaLen + InfoLen * length (InfoFields d)) ?h
        (copy_at MetaLen ?i (copy_at 0 ?m b)))"
    using total four hops li
    by (intro hop.serialize_seq_concat) (simp_all add: MetaLen_def)
  also have "\<dots> = Ok (copy_at 0 (path_bytes d) b)"
    using total four li lh copy_at_append [of 0 ?m ?i b] copy_at_append [of 0 "?m @ ?i" ?h b]
    by (simp add: path_bytes_def MetaLen_def)
  finally show ?thesis .
qed

lemma Decoded_decode_path_bytes:
  assumes wf: "wf_decoded d"
  shows "Decoded_DecodeFromBytes (path_bytes d @ rest) = Ok d"
proof -
  let ?i = "concat (map InfoField_bytes (InfoFields d))"
  let ?h = "concat (map HopField_bytes (HopFields d))"
  have li: "length ?i = InfoLen * length (InfoFields d)"
    and lh: "length ?h = HopLen * length (HopFields d)"
    using info.length_concat_enc [of "InfoFields d"] hop.length_concat_enc [of "HopFields d"] wf
    by (simp_all add: wf_decoded_def)
  have "Base_DecodeFromBytes (path_bytes d @ rest) = Ok (Base.truncate d)"
    using wf by (simp add: Base_DecodeFromBytes_iff path_bytes_def MetaHdr_dec_line
        Base.truncate_def wf_decoded_def wf_base_def)
  moreover have "decode_seq InfoLen InfoField_DecodeFromBytes (length (InfoFields d)) MetaLen
      (path_bytes d @ rest) = Ok (InfoFields d)"
    by (rule info.decode_seq_concat) (simp_all add: path_bytes_def li MetaLen_def list_all_iff)
  moreover have "decode_seq HopLen HopField_DecodeFromBytes (length (HopFields d))
      (MetaLen + InfoLen * length (InfoFields d)) (path_bytes d @ rest) = Ok (HopFields d)"
    using wf by (intro hop.decode_seq_concat)
      (simp_all add: path_bytes_def li lh MetaLen_def wf_decoded_def)
  moreover have "Base_Len d \<le> int (length (path_bytes d @ rest))"
    using length_path_bytes [OF wf] by simp
  ultimately show ?thesis
    using wf by (simp add: Decoded_DecodeFromBytes_iff wf_decoded_def mult.commute)
qed

lemma ToRaw_refines:
  assumes wf: "wf_decoded d"
  shows "\<exists>r. ToRaw d = Ok r \<and> refines r d \<and> RawBytes r = path_bytes d"
proof -
  have len: "int (length (path_bytes d)) = Base_Len d" by (rule length_path_bytes [OF wf])
  define r where "r = Base.extend (Base.truncate d) \<lparr>RawBytes = path_bytes d\<rparr>"
  have base: "Base_DecodeFromBytes (path_bytes d) = Ok (Base.truncate d)"
    using Decoded_decode_path_bytes [OF wf, of "[]"] by (simp add: Decoded_DecodeFromBytes_iff)
  have "0 \<le> Base_Len d" using len by linarith
  moreover have "Decoded_SerializeTo d (replicate (nat (Base_Len d)) 0) = Ok (path_bytes d)"
    using wf len \<open>0 \<le> Base_Len d\<close>
    by (simp add: Decoded_SerializeTo_wf copy_at_0 flip: len)
  moreover have "Raw_DecodeFromBytes (path_bytes d) = Ok r"
    using base len \<open>0 \<le> Base_Len d\<close> by (simp add: Raw_DecodeFromBytes_iff r_def flip: len)
  ultimately have "ToRaw d = Ok r" by (simp add: ToRaw_def)
  moreover have "refines r d"
    using Decoded_decode_path_bytes [OF wf, of "[]"] wf len
    unfolding Decoded_DecodeFromBytes_iff decode_seq_iff refines_def
    by (simp add: r_def wf_raw_def wf_decoded_def Base.extend_def Base.truncate_def wf_base_def Base_Len_def)
  ultimately show ?thesis by (auto simp: r_def)
qed

section \<open>Reversal\<close>

lemma length_swap_loop [simp]: "length (swap_loop i j xs) = length xs"
  by (induction i j xs rule: swap_loop.induct) (subst swap_loop.simps, simp)

lemma swap_loop_nth:
  "length xs = Suc (i + j) \<Longrightarrow> k < length xs \<Longrightarrow>
     swap_loop i j xs ! k = (if i \<le> k \<and> k \<le> j then xs ! (i + j - k) else xs ! k)"
proof (induction i j xs rule: swap_loop.induct)
  case (1 i j xs)
  show ?case
  proof (cases "i < j")
    case True
    with 1 have "swap_loop i j xs ! k
        = (if Suc i \<le> k \<and> k \<le> j - 1 then xs[i := xs ! j, j := xs ! i] ! (i + j - k)
           else xs[i := xs ! j, j := xs ! i] ! k)"
      by (subst swap_loop.simps) simp
    also have "\<dots> = (if i \<le> k \<and> k \<le> j then xs ! (i + j - k) else xs ! k)"
      using 1 True by (auto simp: nth_list_update)
    finally show ?thesis .
  next
    case False
    with 1 show ?thesis by (subst swap_loop.simps) (auto simp: le_less)
  qed
qed

lemma swap_loop_rev: "swap_loop 0 (length xs - 1) xs = rev xs"
proof (cases "xs = []")
  case True
  then show ?thesis by (simp add: swap_loop.simps)
next
  case False
  then show ?thesis
    by (intro nth_equalityI) (auto simp: swap_loop_nth rev_nth)
qed

definition flip_dir :: "InfoField \<Rightarrow> InfoField" where
  "flip_dir info = info\<lparr>ConsDir := \<not> ConsDir info\<rparr>"

lemma flip_dir_flip [simp]: "flip_dir (flip_dir i) = i"
  by (simp add: flip_dir_def)

definition rev_meta :: "Decoded \<Rightarrow> MetaHdr" where
  "rev_meta d = (PathMeta d)\<lparr>
     SegLen := rev (take (nat (NumINF d)) (SegLen (PathMeta d))) @ drop (nat (NumINF d)) (SegLen (PathMeta d)),
     CurrINF := word_of_int (NumINF d) - CurrINF (PathMeta d) - 1,
     CurrHF := word_of_int (NumHops d) - CurrHF (PathMeta d) - 1\<rparr>"

text \<open>The pointers of a path in transit are in range, and the segment pointer matches the hop.\<close>

definition ptr_ok :: "'a Base_scheme \<Rightarrow> bool" where
  "ptr_ok s \<longleftrightarrow> uint (CurrINF (PathMeta s)) < NumINF s \<and> uint (CurrHF (PathMeta s)) < NumHops s"

definition ptr_consistent :: "'a Base_scheme \<Rightarrow> bool" where
  "ptr_consistent s \<longleftrightarrow> CurrINF (PathMeta s) = infIndexForHF s (CurrHF (PathMeta s))"

lemma swap_first_rev: "length xs = Suc l \<Longrightarrow> 0 < l \<Longrightarrow> l < 3 \<Longrightarrow> swap_first l xs = rev xs"
  by (auto simp: swap_first_def less_Suc_eq numeral_3_eq_3 length_Suc_conv)

lemma swap_first_rev_prefix:
  "length xs = 3 \<Longrightarrow> 0 < l \<Longrightarrow> l < 3 \<Longrightarrow> swap_first l xs = rev (take (Suc l) xs) @ drop (Suc l) xs"
  by (auto simp: swap_first_def less_Suc_eq numeral_3_eq_3 length_Suc_conv)

lemma Decoded_Reverse_eq:
  assumes wf: "wf_decoded d" and n: "NumINF d \<noteq> 0"
  shows "Decoded_Reverse d = Ok (d\<lparr>InfoFields := rev (map flip_dir (InfoFields d)),
    HopFields := rev (HopFields d), PathMeta := rev_meta d\<rparr>)"
proof -
  have b: "1 \<le> NumINF d" "NumINF d \<le> 3" "0 \<le> NumHops d"
    using wf n wf_base_bounds [of d] by (auto simp: wf_decoded_def)
  define l where "l = nat (NumINF d - 1)"
  have nat_n: "nat (NumINF d) = Suc l" and l3: "l < 3" and l_iff: "NumINF d > 1 \<longleftrightarrow> 0 < l"
    using b by (auto simp: l_def)
  have lens: "length (InfoFields d) = Suc l" "length (SegLen (PathMeta d)) = 3"
      "length (HopFields d) = nat (NumHops d)"
    using wf nat_n by (auto simp: wf_decoded_def wf_base_def wf_meta_def)
  have infos: "(if 1 < NumINF d then swap_first l (InfoFields d) else InfoFields d) = rev (InfoFields d)"
    using lens l3 l_iff by (auto simp: swap_first_rev length_Suc_conv)
  have segs: "(if 1 < NumINF d then swap_first l (SegLen (PathMeta d)) else SegLen (PathMeta d))
      = rev (take (Suc l) (SegLen (PathMeta d))) @ drop (Suc l) (SegLen (PathMeta d))"
    using lens l3 l_iff by (auto simp: swap_first_rev_prefix length_eq_3)
  have hops: "swap_loop 0 (nat (NumHops d - 1)) (HopFields d) = rev (HopFields d)"
    using swap_loop_rev [of "HopFields d"] lens(3) b(3) by (simp add: nat_diff_distrib')
  have nl: "nat (NumINF d - 1) = l" by (simp add: l_def)
  show ?thesis
    unfolding Decoded_Reverse_def Let_def nl infos segs hops nat_n
    using b lens n nat_n by (auto simp: rev_meta_def flip_dir_def [abs_def] rev_map)
qed

lemma uint_ptr_reverse:
  "uint (x::u8) < n \<Longrightarrow> n \<le> 255 \<Longrightarrow> uint (word_of_int n - x - 1) = n - uint x - 1"
proof -
  assume a: "uint x < n" "n \<le> 255"
  have "word_of_int n - x - 1 = (word_of_int (n - uint x - 1) :: u8)" by simp
  moreover have "0 \<le> n - uint x - 1" "n - uint x - 1 < 256"
    using a uint_ge_0 [of x] by linarith+
  ultimately show ?thesis
    by (simp only: uint_word_of_int) (simp add: mod_pos_pos_trivial)
qed

lemma wf_decoded_reverse:
  assumes wf: "wf_decoded d" and ptr: "ptr_ok d"
  shows "wf_decoded (d\<lparr>InfoFields := rev (map flip_dir (InfoFields d)),
    HopFields := rev (HopFields d), PathMeta := rev_meta d\<rparr>)"
proof -
  have b: "0 \<le> NumINF d" "NumINF d \<le> 3" "NumHops d \<le> 64"
    using wf wf_base_bounds [of d] by (auto simp: wf_decoded_def)
  have p: "uint (CurrINF (PathMeta d)) < NumINF d" "uint (CurrHF (PathMeta d)) < NumHops d"
    using ptr by (auto simp: ptr_ok_def)
  have "uint (CurrINF (rev_meta d)) = NumINF d - uint (CurrINF (PathMeta d)) - 1"
      "uint (CurrHF (rev_meta d)) = NumHops d - uint (CurrHF (PathMeta d)) - 1"
    using b uint_ptr_reverse [OF p(1)] uint_ptr_reverse [OF p(2)] by (simp_all add: rev_meta_def)
  then have ptrs: "uint (CurrINF (rev_meta d)) < 4" "uint (CurrHF (rev_meta d)) < 64"
    using b uint_ge_0 [of "CurrINF (PathMeta d)"] uint_ge_0 [of "CurrHF (PathMeta d)"]
    by linarith+
  obtain x y z where xyz: "SegLen (PathMeta d) = [x, y, z]"
    using wf by (auto simp: wf_decoded_def wf_base_def wf_meta_def length_eq_3)
  consider "NumINF d = 1" | "NumINF d = 2" | "NumINF d = 3" using b p(1) uint_ge_0 [of "CurrINF (PathMeta d)"] by linarith
  then have "wf_base (d\<lparr>PathMeta := rev_meta d\<rparr>)"
    using wf ptrs
    by cases (auto simp: wf_decoded_def wf_base_def wf_meta_def rev_meta_def xyz all_less_3
        word_less_def)
  then show ?thesis
    using wf by (simp add: wf_decoded_def wf_base_def)
qed

lemma reverse_consistent:
  assumes wf: "wf_base d" and ptr: "ptr_ok d" and con: "ptr_consistent d"
  shows "ptr_ok (d\<lparr>PathMeta := rev_meta d\<rparr>) \<and> ptr_consistent (d\<lparr>PathMeta := rev_meta d\<rparr>)"
proof -
  have b: "NumINF d \<le> 3" "NumHops d \<le> 64"
    using wf wf_base_bounds [of d] by auto
  have p: "uint (CurrINF (PathMeta d)) < NumINF d" "uint (CurrHF (PathMeta d)) < NumHops d"
    using ptr by (auto simp: ptr_ok_def)
  have u: "uint (CurrINF (rev_meta d)) = NumINF d - uint (CurrINF (PathMeta d)) - 1"
      "uint (CurrHF (rev_meta d)) = NumHops d - uint (CurrHF (PathMeta d)) - 1"
    using b uint_ptr_reverse [OF p(1)] uint_ptr_reverse [OF p(2)] by (simp_all add: rev_meta_def)
  obtain x y z where xyz: "SegLen (PathMeta d) = [x, y, z]"
    using wf by (auto simp: wf_base_def wf_meta_def length_eq_3)
  have small: "uint x < 64" "uint y < 64" "uint z < 64"
    using wf by (auto simp: wf_base_def wf_meta_def xyz all_less_3 word_less_def)
  have sums: "uint (x + y) = uint x + uint y" "uint (y + x) = uint y + uint x" 
     "uint (z + y) = uint z + uint y"
    using small by (simp_all add: uint_plus_if')
  have hops: "NumHops d = uint x + uint y + uint z" "0 < x \<longleftrightarrow> 0 < NumINF d" "0 < y \<longleftrightarrow> 1 < NumINF d" "0 < z \<longleftrightarrow> 2 < NumINF d"
    using wf by (auto simp: wf_base_def xyz all_less_3)
  have "uint (CurrINF (rev_meta d)) < NumINF d" "uint (CurrHF (rev_meta d)) < NumHops d"
    using u uint_ge_0 [of "CurrINF (PathMeta d)"] uint_ge_0 [of "CurrHF (PathMeta d)"]
    by linarith+
  then have "ptr_ok (d\<lparr>PathMeta := rev_meta d\<rparr>)"
    by (simp add: ptr_ok_def)
  moreover have "uint (CurrINF (rev_meta d)) = uint (infIndexForHF (d\<lparr>PathMeta := rev_meta d\<rparr>)
      (CurrHF (rev_meta d)))"
  proof -
    have con': "uint (CurrINF (PathMeta d)) = (if uint (CurrHF (PathMeta d)) < uint x then 0
        else if uint (CurrHF (PathMeta d)) < uint x + uint y then 1 else 2)"
      using con by (simp add: ptr_consistent_def infIndexForHF_def xyz word_less_def sums)
    have nonneg: "- 1 < uint (CurrHF (PathMeta d))"
      using uint_ge_0 [of "CurrHF (PathMeta d)"] by linarith
    consider "NumINF d = 1" | "NumINF d = 2" | "NumINF d = 3"
      using b p(1) uint_ge_0 [of "CurrINF (PathMeta d)"] by linarith
    then show ?thesis
    proof cases
      case 1
      then have z0: "y = 0" "z = 0" using hops by (simp_all add: word_gt_0)
      have "SegLen (rev_meta d) = [x, y, z]" by (simp add: rev_meta_def xyz 1)
      then show ?thesis
        using 1 p hops con' u z0 nonneg by (simp add: infIndexForHF_def word_less_def)
    next
      case 2
      then have z0: "z = 0" using hops by (simp add: word_gt_0)
      have "SegLen (rev_meta d) = [y, x, z]" by (simp add: rev_meta_def xyz 2)
      then show ?thesis
        using 2 p hops con' u z0 sums nonneg by (simp add: infIndexForHF_def word_less_def split: if_splits)
    next
      case 3
      have "SegLen (rev_meta d) = [z, y, x]" by (simp add: rev_meta_def xyz 3)
      then show ?thesis
        using 3 p hops con' u sums nonneg by (simp add: infIndexForHF_def word_less_def split: if_splits)
    qed
  qed
  ultimately show ?thesis
    by (simp add: ptr_consistent_def word_uint_eq_iff)
qed

lemma Decoded_DecodeFromBytes_no_panic: "Decoded_DecodeFromBytes data \<noteq> Panic"
proof (cases "Base_DecodeFromBytes data")
  case (Ok s)
  show ?thesis
  proof (cases "int (length data) < Base_Len s")
    case False
    have "wf_base s" using Ok by (simp add: Base_DecodeFromBytes_iff)
    then have "MetaLen + InfoLen * nat (NumINF s) + HopLen * nat (NumHops s) \<le> length data"
      using False wf_base_bounds [of s] by (simp add: Base_Len_def path_lens)
    then show ?thesis
      using info.decode_seq_total [of MetaLen "nat (NumINF s)" data]
        hop.decode_seq_total [of "MetaLen + nat (NumINF s) * InfoLen" "nat (NumHops s)" data]
      by (auto simp: Decoded_DecodeFromBytes_def Ok mult.commute)
  qed (simp add: Decoded_DecodeFromBytes_def Ok)
qed (simp_all add: Decoded_DecodeFromBytes_def)

section \<open>Properties\<close>

text \<open>A well-formed decoded path survives serialization: writing it into any buffer that is long
  enough and decoding the result, whatever follows it in the buffer, gives the same path.\<close>

lemma decoded_roundtrip:
  assumes "wf_decoded d" and "Base_Len d \<le> int (length b)"
  shows "\<exists>b'. Decoded_SerializeTo d b = Ok b' \<and> Decoded_DecodeFromBytes b' = Ok d
    \<and> length b' = length b \<and> drop (nat (Base_Len d)) b' = drop (nat (Base_Len d)) b"
proof -
  have len: "length (path_bytes d) = nat (Base_Len d)"
    using length_path_bytes [OF assms(1)] by linarith
  then show ?thesis
    using assms Decoded_SerializeTo_wf [OF assms] Decoded_decode_path_bytes [OF assms(1)]
    by (simp add: copy_at_0 nat_le_iff)
qed

definition sample_hop :: "u16 \<Rightarrow> u16 \<Rightarrow> HopField" where
  "sample_hop i e = \<lparr>IngressRouterAlert = False, EgressRouterAlert = False, ExpTime = 63,
     ConsIngress = i, ConsEgress = e, Mac = [1, 2, 3, 4, 5, 6]\<rparr>"

definition sample_path :: Decoded where
  "sample_path = \<lparr>PathMeta = \<lparr>CurrINF = 0, CurrHF = 1, SegLen = [2, 2, 0]\<rparr>, NumINF = 2, NumHops = 4,
     InfoFields = [\<lparr>Peer = False, ConsDir = False, SegID = 7, Timestamp = 9\<rparr>,
                   \<lparr>Peer = False, ConsDir = True, SegID = 8, Timestamp = 10\<rparr>],
     HopFields = [sample_hop 1 0, sample_hop 0 2, sample_hop 0 3, sample_hop 4 0]\<rparr>"

lemma sample_path_wf: "wf_decoded sample_path" "ptr_ok sample_path" "ptr_consistent sample_path"
  by (simp_all add: wf_decoded_def wf_base_def wf_meta_def sample_path_def sample_hop_def wf_hop_def
      MacLen_def all_less_3 MaxHops_def ptr_ok_def ptr_consistent_def infIndexForHF_def)

lemma decoded_roundtrip_witness:
  "wf_decoded sample_path \<and> (\<exists>b'. Decoded_SerializeTo sample_path (replicate 80 0) = Ok b'
     \<and> Decoded_DecodeFromBytes b' = Ok sample_path)"
  using sample_path_wf decoded_roundtrip [of sample_path "replicate 80 0"]
  by (auto simp: Base_Len_def sample_path_def path_lens)

text \<open>The raw and the decoded representation accept the same inputs and agree: \<^verbatim>\<open>Raw\<close> decodes a
  buffer exactly when \<^verbatim>\<open>Decoded\<close> does, neither panics, and \<^verbatim>\<open>ToDecoded\<close> of the raw path is the
  decoded one, which is well-formed.\<close>

lemma raw_decoded_agree:
  "Raw_DecodeFromBytes data \<noteq> Panic \<and> Decoded_DecodeFromBytes data \<noteq> Panic
   \<and> (isOk (Raw_DecodeFromBytes data) \<longleftrightarrow> isOk (Decoded_DecodeFromBytes data))
   \<and> (case Raw_DecodeFromBytes data of Ok r \<Rightarrow> Decoded_DecodeFromBytes data = snd (ToDecoded r)
        \<and> (\<exists>d. snd (ToDecoded r) = Ok d \<and> refines r d \<and> wf_decoded d) | _ \<Rightarrow> True)"
proof (cases "Raw_DecodeFromBytes data")
  case (Ok r)
  have wf: "wf_raw r" using Ok by (rule Raw_DecodeFromBytes_wf)
  obtain d where d: "refines r d" "wf_decoded d" using wf_raw_refines_Decoded [OF wf] by blast
  have r: "Base_DecodeFromBytes data = Ok (Base.truncate r)" "Base_Len r \<le> int (length data)"
      "RawBytes r = take (nat (Base_Len r)) data"
    using Ok by (auto simp: Raw_DecodeFromBytes_iff)
  have tr: "Base.truncate r = Base.truncate d" using d(1) by (simp add: refines_def)
  have len: "nat (Base_Len r) = 4 + 8 * nat (NumINF r) + 12 * nat (NumHops r)"
  proof -
    have "Base_Len r = int (length (RawBytes r))" using wf by (simp add: wf_raw_def)
    then show ?thesis using wf_raw_length [OF wf] by linarith
  qed
  have bound: "4 + 8 * nat (NumINF r) + 12 * nat (NumHops r) \<le> length data"
    using r(2) len by linarith
  have sub: "take w (drop k (take n data)) = take w (drop k data)" if "k + w \<le> n" for k w n
    using that by (simp add: take_drop min_def add.commute)
  have "Decoded_DecodeFromBytes data = Ok d"
    using d(1) r refines_Base [OF d(1)] tr len bound
    unfolding Decoded_DecodeFromBytes_iff decode_seq_iff refines_def
    by (auto simp: path_lens sub Base_Len_def)
  then show ?thesis
    using Ok d ToDecoded_refines [OF d(1)] by simp
next
  case (Fail e)
  have "Decoded_DecodeFromBytes data \<noteq> Ok d" for d
  proof
    assume d: "Decoded_DecodeFromBytes data = Ok d"
    define r where "r = Base.extend (Base.truncate d) \<lparr>RawBytes = take (nat (Base_Len d)) data\<rparr>"
    have "Raw_DecodeFromBytes data = Ok r"
      using d by (simp add: Raw_DecodeFromBytes_iff Decoded_DecodeFromBytes_iff r_def)
    with Fail show False by simp
  qed
  moreover have "Decoded_DecodeFromBytes data \<noteq> Panic" by (rule Decoded_DecodeFromBytes_no_panic)
  ultimately show ?thesis
    using Fail by (cases "Decoded_DecodeFromBytes data") auto
qed simp

text \<open>C27: the router's in-place representation refines the decoded path: reading a field, writing a
  field and advancing the path on the raw bytes correspond to list access, list update and
  \<^verbatim>\<open>IncPath\<close> on the decoded path, with the same result, and \<^verbatim>\<open>ToDecoded\<close> returns that path. The buffer follows:
  a raw path whose bytes decode to the decoded path is turned by the two writes into one whose bytes decode to the
  updated path, and after \<^verbatim>\<open>ToDecoded\<close> and every successful \<^verbatim>\<open>IncPath\<close> the bytes, meta header included, decode to
  the path as it is now, whatever the first four bytes were before.\<close>

theorem raw_refines_decoded:
  assumes "refines r d" and "i < nat (NumINF r)" and "j < nat (NumHops r)" and "wf_hop h"
  shows "snd (ToDecoded r) = Ok d \<and> encodes (fst (ToDecoded r)) d
    \<and> GetInfoField r (int i) = Ok (InfoFields d ! i)
    \<and> GetHopField r (int j) = Ok (HopFields d ! j)
    \<and> (\<exists>r'. SetInfoField r x (int i) = Ok r'
         \<and> refines r' (d\<lparr>InfoFields := (InfoFields d)[i := x]\<rparr>)
         \<and> (encodes r d \<longrightarrow> encodes r' (d\<lparr>InfoFields := (InfoFields d)[i := x]\<rparr>)))
    \<and> (\<exists>r'. SetHopField r h (int j) = Ok r'
         \<and> refines r' (d\<lparr>HopFields := (HopFields d)[j := h]\<rparr>)
         \<and> (encodes r d \<longrightarrow> encodes r' (d\<lparr>HopFields := (HopFields d)[j := h]\<rparr>)))
    \<and> snd (Raw_IncPath r) = snd (Base_IncPath d)
    \<and> refines (fst (Raw_IncPath r)) (fst (Base_IncPath d))
    \<and> (snd (Base_IncPath d) = Ok () \<longrightarrow> encodes (fst (Raw_IncPath r)) (fst (Base_IncPath d)))"
proof -
  have wf: "wf_raw r" using assms(1) by (simp add: refines_def)
  obtain r1 where r1: "SetInfoField r x (int i) = Ok r1" "refines r1 (d\<lparr>InfoFields := (InfoFields d)[i := x]\<rparr>)"
    using SetInfoField_refines [OF assms(1,2), of x] by blast
  obtain r2 where r2: "SetHopField r h (int j) = Ok r2" "refines r2 (d\<lparr>HopFields := (HopFields d)[j := h]\<rparr>)"
    using SetHopField_refines [OF assms(1,3,4)] by blast
  note inc = Raw_IncPath_refines [OF assms(1)]
  have "in_sync r \<longrightarrow> in_sync r1" "in_sync r \<longrightarrow> in_sync r2" "snd (Base_IncPath d) = Ok () \<longrightarrow> in_sync (fst (Raw_IncPath r))"
    using SetInfoField_sync [OF _ wf r1(1)] SetHopField_sync [OF _ wf r2(1) _ assms(4)] Raw_IncPath_sync [OF wf] inc by simp_all
  moreover have "encodes (fst (ToDecoded r)) d"
    using ToDecoded_refines [OF assms(1)] in_sync_write_meta [OF wf] Raw_write_meta_wf [OF wf] by (simp add: encodes_iff ToDecoded_def)
  ultimately show ?thesis
    using ToDecoded_refines [OF assms(1)] GetInfoField_refines [OF assms(1,2)] GetHopField_refines [OF assms(1,3)] r1 r2 inc
    by (simp add: encodes_iff)
qed

theorem raw_refines_decoded_witness:
  "\<exists>r. encodes r sample_path \<and> GetInfoField r 1 = Ok (InfoFields sample_path ! 1)
     \<and> GetHopField r 2 = Ok (sample_hop 0 3)
     \<and> Decoded_DecodeFromBytes (RawBytes (fst (Raw_IncPath r))) = Ok (fst (Base_IncPath sample_path))
     \<and> CurrHF (PathMeta (fst (Base_IncPath sample_path))) = 2"
proof -
  obtain r where r: "refines r sample_path" "encodes r sample_path"
    using ToRaw_refines [OF sample_path_wf(1)] Decoded_decode_path_bytes [OF sample_path_wf(1), of "[]"] by (auto simp: encodes_def)
  have n: "NumINF r = 2" "NumHops r = 4"
    using refines_Base [OF r(1)] by (simp_all add: sample_path_def)
  have inc: "snd (Base_IncPath sample_path) = Ok ()" "CurrHF (PathMeta (fst (Base_IncPath sample_path))) = 2" by code_simp+
  show ?thesis
    using r raw_refines_decoded [OF r(1), of 1 2 "sample_hop 0 3"] n inc
    by (auto simp: wf_hop_def sample_hop_def MacLen_def sample_path_def encodes_def)
qed

text \<open>C38: reversing a path in transit gives the hop fields in opposite order, the segments in opposite
  order with their direction flags flipped, pointers that again designate the same hop and its
  segment, and a well-formed path; reversing twice restores the path.\<close>

theorem reverse_involution:
  assumes "wf_decoded d" and "ptr_ok d" and "ptr_consistent d"
  shows "\<exists>d'. Decoded_Reverse d = Ok d' \<and> Decoded_Reverse d' = Ok d \<and> wf_decoded d'
    \<and> ptr_ok d' \<and> ptr_consistent d'
    \<and> HopFields d' = rev (HopFields d) \<and> InfoFields d' = rev (map flip_dir (InfoFields d))
    \<and> HopFields d' ! unat (CurrHF (PathMeta d')) = HopFields d ! unat (CurrHF (PathMeta d))"
proof -
  let ?d = "d\<lparr>InfoFields := rev (map flip_dir (InfoFields d)), HopFields := rev (HopFields d),
    PathMeta := rev_meta d\<rparr>"
  have n: "NumINF d \<noteq> 0" using assms(2) uint_ge_0 [of "CurrINF (PathMeta d)"]
    by (auto simp: ptr_ok_def)
  have rev: "Decoded_Reverse d = Ok ?d" by (rule Decoded_Reverse_eq [OF assms(1) n])
  have wf': "wf_decoded ?d" by (rule wf_decoded_reverse [OF assms(1,2)])
  have "ptr_ok ?d = ptr_ok (d\<lparr>PathMeta := rev_meta d\<rparr>)"
      "ptr_consistent ?d = ptr_consistent (d\<lparr>PathMeta := rev_meta d\<rparr>)"
    by (simp_all add: ptr_ok_def ptr_consistent_def infIndexForHF_def)
  then have ptrs: "ptr_ok ?d \<and> ptr_consistent ?d"
    using reverse_consistent [of d] assms by (simp add: wf_decoded_def)
  have wfb: "wf_base d" using assms(1) by (simp add: wf_decoded_def)
  have lens: "length (SegLen (PathMeta d)) = 3" "length (HopFields d) = nat (NumHops d)"
      "nat (NumINF d) \<le> 3" "NumHops d \<le> 64"
    using assms(1) wfb wf_base_bounds [OF wfb]
    by (simp_all add: wf_decoded_def wf_base_def wf_meta_def)
  have meta: "rev_meta ?d = PathMeta d"
  proof -
    obtain c h sl where m: "PathMeta d = \<lparr>CurrINF = c, CurrHF = h, SegLen = sl\<rparr>"
      by (cases "PathMeta d") simp
    have "rev (take n (rev (take n sl) @ drop n sl)) @ drop n (rev (take n sl) @ drop n sl) = sl"
      if "n \<le> length sl" for n
      using that by simp
    with lens show ?thesis by (simp add: rev_meta_def m)
  qed
  have "Decoded_Reverse ?d = Ok d"
    using Decoded_Reverse_eq [OF wf'] n unfolding meta
    by (cases d) (simp add: rev_map comp_def)
  moreover have "rev (HopFields d) ! unat (CurrHF (rev_meta d))
      = HopFields d ! unat (CurrHF (PathMeta d))"
  proof -
    have hf: "uint (CurrHF (PathMeta d)) < NumHops d" using assms(2) by (simp add: ptr_ok_def)
    have "uint (CurrHF (rev_meta d)) = NumHops d - uint (CurrHF (PathMeta d)) - 1"
      using lens uint_ptr_reverse [OF hf] by (simp add: rev_meta_def)
    moreover have "nat (N - u - 1) = nat N - Suc (nat u)" "nat u < nat N" if "0 \<le> u" "u < N"
      for N u :: int
      using that by linarith+
    ultimately have "unat (CurrHF (rev_meta d)) = length (HopFields d) - Suc (unat (CurrHF (PathMeta d)))"
        "unat (CurrHF (PathMeta d)) < length (HopFields d)"
      unfolding unat_eq_nat_uint lens(2) using hf uint_ge_0 by metis+
    then show ?thesis by (simp add: rev_nth)
  qed
  ultimately show ?thesis using rev wf' ptrs by auto
qed

theorem reverse_involution_witness:
  "\<exists>d'. Decoded_Reverse sample_path = Ok d' \<and> Decoded_Reverse d' = Ok sample_path
    \<and> HopFields d' = [sample_hop 4 0, sample_hop 0 3, sample_hop 0 2, sample_hop 1 0]"
  using reverse_involution [OF sample_path_wf] by (auto simp: sample_path_def)

lemma Base_IncPath_frame [simp]:
  "NumINF (fst (Base_IncPath s)) = NumINF s" "NumHops (fst (Base_IncPath s)) = NumHops s"
  "SegLen (PathMeta (fst (Base_IncPath s))) = SegLen (PathMeta s)"
  "infIndexForHF (fst (Base_IncPath s)) = infIndexForHF s"
  by (auto simp: Base_IncPath_def Let_def infIndexForHF_def)

lemma isOk_Base_IncPath:
  "isOk (snd (Base_IncPath s)) \<longleftrightarrow> NumINF s \<noteq> 0 \<and> uint (CurrHF (PathMeta s)) < NumHops s - 1"
  by (auto simp: Base_IncPath_def Let_def)

lemma Base_IncPath_moves:
  assumes "isOk (snd (Base_IncPath s))"
  shows "CurrHF (PathMeta (fst (Base_IncPath s))) = CurrHF (PathMeta s) + 1
    \<and> ptr_consistent (fst (Base_IncPath s))"
proof -
  have "fst (Base_IncPath s) = s\<lparr>PathMeta := (PathMeta s)\<lparr>CurrHF := CurrHF (PathMeta s) + 1,
      CurrINF := infIndexForHF s (CurrHF (PathMeta s) + 1)\<rparr>\<rparr>"
    using assms by (simp add: isOk_Base_IncPath) (simp add: Base_IncPath_def Let_def)
  then show ?thesis by (simp add: ptr_consistent_def infIndexForHF_def)
qed

text \<open>C39: walking a path: from its first hop field, each of the first \<open>NumHops - 1\<close> calls of
  \<^verbatim>\<open>IncPath\<close> succeeds and moves to the next hop field with the matching segment pointer; at the
  last hop field the next call is an error.\<close>

theorem incpath_walk:
  assumes "wf_base s" and "CurrHF (PathMeta s) = 0" and "NumINF s \<noteq> 0" and "int k < NumHops s"
  shows "uint (CurrHF (PathMeta (((\<lambda>s. fst (Base_IncPath s)) ^^ k) s))) = int k
    \<and> (0 < k \<longrightarrow> ptr_consistent (((\<lambda>s. fst (Base_IncPath s)) ^^ k) s))
    \<and> NumHops (((\<lambda>s. fst (Base_IncPath s)) ^^ k) s) = NumHops s
    \<and> (isOk (snd (Base_IncPath (((\<lambda>s. fst (Base_IncPath s)) ^^ k) s))) \<longleftrightarrow> int k < NumHops s - 1)"
  using assms(4)
proof (induction k)
  case 0
  then show ?case using assms by (simp add: isOk_Base_IncPath)
next
  case (Suc k)
  define t where "t = ((\<lambda>s. fst (Base_IncPath s)) ^^ k) s"
  have inf: "NumINF (((\<lambda>s. fst (Base_IncPath s)) ^^ j) s) = NumINF s" for j
    by (induction j) simp_all
  have hf: "uint (CurrHF (PathMeta t)) = int k" and nh: "NumHops t = NumHops s"
    and ok: "isOk (snd (Base_IncPath t))"
    using Suc by (simp_all add: t_def)
  have "NumHops s \<le> 64" using wf_base_bounds [OF assms(1)] by simp
  then have "uint (CurrHF (PathMeta t) + 1) = int k + 1"
    using hf Suc.prems by (simp add: uint_u8_plus1)
  then show ?case
    using Base_IncPath_moves [OF ok] nh inf [of k] assms(3)
    by (simp add: isOk_Base_IncPath flip: t_def)
qed

theorem incpath_walk_witness:
  "uint (CurrHF (PathMeta (((\<lambda>s. fst (Base_IncPath s)) ^^ 2)
     (sample_path\<lparr>PathMeta := (PathMeta sample_path)\<lparr>CurrHF := 0\<rparr>\<rparr>)))) = 2"
  using incpath_walk [of "sample_path\<lparr>PathMeta := (PathMeta sample_path)\<lparr>CurrHF := 0\<rparr>\<rparr>" 2]
    sample_path_wf(1)
  by (simp add: wf_decoded_def wf_base_def wf_meta_def sample_path_def)

end
