(* ===== verification/Addr.thy ===== *)
theory Addr
  imports Prelude
begin

text \<open>
  ISD and AS numbers, their textual forms, service addresses and host addresses
  (\<^verbatim>\<open>pkg/addr\<close>). The parts of \<^verbatim>\<open>strconv\<close>, \<^verbatim>\<open>strings\<close> and \<^verbatim>\<open>net/netip\<close> they use come first. Text is a list of
  ASCII characters.
\<close>

unbundle bit_operations_syntax

section \<open>strconv and strings\<close>

definition digitVal :: "char \<Rightarrow> nat option" where
  "digitVal c = (let k = of_char c :: nat in
     if 48 \<le> k \<and> k \<le> 57 then Some (k - 48)
     else if 97 \<le> k \<and> k \<le> 122 then Some (k - 97 + 10)
     else if 65 \<le> k \<and> k \<le> 90 then Some (k - 65 + 10)
     else None)"

definition digitChar :: "nat \<Rightarrow> char" where
  "digitChar d = char_of (if d < 10 then 48 + d else 87 + d)"

definition ErrSyntax :: go_error where "ErrSyntax = Err ''invalid syntax''"
definition ErrRange :: go_error where "ErrRange = Err ''value out of range''"

fun ParseUint_loop :: "nat \<Rightarrow> nat \<Rightarrow> nat \<Rightarrow> string \<Rightarrow> nat result" where
  "ParseUint_loop base maxVal n [] = Ok n"
| "ParseUint_loop base maxVal n (c # cs) =
    (case digitVal c of
       None \<Rightarrow> Fail ErrSyntax
     | Some d \<Rightarrow>
         if base \<le> d then Fail ErrSyntax
         else if maxVal < n * base + d then Fail ErrRange
         else ParseUint_loop base maxVal (n * base + d) cs)"

definition ParseUint :: "string \<Rightarrow> nat \<Rightarrow> nat \<Rightarrow> nat result" where
  "ParseUint s base bitSize =
    (if s = [] then Fail ErrSyntax else ParseUint_loop base (2 ^ bitSize - 1) 0 s)"

function FormatUint :: "nat \<Rightarrow> nat \<Rightarrow> string" where
  "FormatUint n base =
    (if n < base \<or> base < 2 then [digitChar n]
     else FormatUint (n div base) base @ [digitChar (n mod base)])"
  by pat_completeness auto
termination
  by (relation "measure fst") (auto simp: div_less_dividend)

declare FormatUint.simps [simp del]

text \<open>\<open>strings.Split(s, sep)\<close>; an empty separator splits after every character.\<close>

fun Split_from :: "string \<Rightarrow> string \<Rightarrow> nat \<Rightarrow> string \<Rightarrow> string list" where
  "Split_from sep cur (Suc k) (c # cs) = Split_from sep cur k cs"
| "Split_from sep cur (Suc k) [] = [cur]"
| "Split_from sep cur 0 [] = [cur]"
| "Split_from sep cur 0 (c # cs) =
    (if take (length sep) (c # cs) = sep
     then cur # Split_from sep [] (length sep - 1) cs
     else Split_from sep (cur @ [c]) 0 cs)"

definition Split :: "string \<Rightarrow> string \<Rightarrow> string list" where
  "Split s sep = (if sep = [] then map (\<lambda>c. [c]) s else Split_from sep [] 0 s)"

definition HasSuffix :: "string \<Rightarrow> string \<Rightarrow> bool" where
  "HasSuffix s suf \<longleftrightarrow> length suf \<le> length s \<and> drop (length s - length suf) s = suf"

definition TrimSuffix :: "string \<Rightarrow> string \<Rightarrow> string" where
  "TrimSuffix s suf = (if HasSuffix s suf then take (length s - length suf) s else s)"

definition TrimPrefix :: "string \<Rightarrow> string \<Rightarrow> string" where
  "TrimPrefix s pre = (if take (length pre) s = pre then drop (length pre) s else s)"

section \<open>ISD, AS and ISD-AS numbers\<close>

type_synonym ISD = u16
type_synonym AS = u64
type_synonym IA = u64

definition IABytes :: nat where "IABytes = 8"
definition ISDBits :: nat where "ISDBits = 16"
definition ASBits :: nat where "ASBits = 48"
definition BGPASBits :: nat where "BGPASBits = 32"
definition asPartBits :: nat where "asPartBits = 16"
definition asPartBase :: nat where "asPartBase = 16"
definition asParts :: nat where "asParts = ASBits div asPartBits"
definition MaxAS :: AS where "MaxAS = 0xFFFFFFFFFFFF"
definition MaxBGPAS :: AS where "MaxBGPAS = 0xFFFFFFFF"
definition asPartMask :: u64 where "asPartMask = 0xFFFF"

definition ParseISD :: "string \<Rightarrow> ISD result" where
  "ParseISD s = mapR of_nat (wrapR ''parsing ISD'' (ParseUint s 10 ISDBits))"

definition ISD_String :: "ISD \<Rightarrow> string" where
  "ISD_String isd = FormatUint (unat isd) 10"

definition AS_inRange :: "AS \<Rightarrow> bool" where
  "AS_inRange as \<longleftrightarrow> as \<le> MaxAS"

definition asParseBGP :: "string \<Rightarrow> AS result" where
  "asParseBGP s = mapR of_nat (wrapR ''parsing BGP AS'' (ParseUint s 10 BGPASBits))"

fun parseAS_parts :: "string list \<Rightarrow> AS \<Rightarrow> AS result" where
  "parseAS_parts [] parsed = Ok parsed"
| "parseAS_parts (p # ps) parsed =
    bindR (wrapR ''parsing AS part'' (ParseUint p asPartBase asPartBits)) (\<lambda>v.
    parseAS_parts ps (push_bit asPartBits parsed OR of_nat v))"

definition parseAS :: "string \<Rightarrow> string \<Rightarrow> AS result" where
  "parseAS as sep =
    (let parts = Split as sep in
     if length parts = 1 then asParseBGP as
     else if length parts \<noteq> asParts then Fail (Err ''wrong number of separators'')
     else bindR (parseAS_parts parts 0) (\<lambda>parsed.
       if \<not> AS_inRange parsed then Fail (Err ''AS out of range'') else Ok parsed))"

definition ParseAS :: "string \<Rightarrow> AS result" where
  "ParseAS as = parseAS as '':''"

definition asPart :: "AS \<Rightarrow> nat \<Rightarrow> string" where
  "asPart as i =
     FormatUint (unat (drop_bit (asPartBits * (asParts - i - 1)) as AND asPartMask)) asPartBase"

definition fmtAS :: "AS \<Rightarrow> string \<Rightarrow> string" where
  "fmtAS as sep =
    (if \<not> AS_inRange as
     then FormatUint (unat as) 10 @ '' [Illegal AS: larger than '' @ FormatUint (unat MaxAS) 10 @ '']''
     else if as \<le> MaxBGPAS then FormatUint (unat as) 10
     else concat (map (\<lambda>i. (if i > 0 then sep else []) @ asPart as i) [0..<asParts]))"

definition AS_String :: "AS \<Rightarrow> string" where
  "AS_String as = fmtAS as '':''"

definition AS_MarshalText :: "AS \<Rightarrow> string result" where
  "AS_MarshalText as =
    (if \<not> AS_inRange as then Fail (Err ''AS out of range'') else Ok (AS_String as))"

text \<open>\<open>UnmarshalText\<close> leaves its target unchanged when it fails.\<close>

definition AS_UnmarshalText :: "AS \<Rightarrow> string \<Rightarrow> AS \<times> unit result" where
  "AS_UnmarshalText as text =
    (case ParseAS text of Ok parsed \<Rightarrow> (parsed, Ok ()) | Fail e \<Rightarrow> (as, Fail e)
     | Panic \<Rightarrow> (as, Panic))"

definition IAFrom :: "ISD \<Rightarrow> AS \<Rightarrow> IA result" where
  "IAFrom isd as =
    (if \<not> AS_inRange as then Fail (Err ''AS out of range'')
     else Ok (push_bit ASBits (ucast isd) OR (as AND MaxAS)))"

definition MustIAFrom :: "ISD \<Rightarrow> AS \<Rightarrow> IA result" where
  "MustIAFrom isd as = (case IAFrom isd as of Ok ia \<Rightarrow> Ok ia | _ \<Rightarrow> Panic)"

definition ParseIA :: "string \<Rightarrow> IA result" where
  "ParseIA ia =
    (let parts = Split ia ''-'' in
     if length parts \<noteq> 2 then Fail (Err ''invalid ISD-AS'')
     else bindR (ParseISD (parts ! 0)) (\<lambda>isd.
          bindR (ParseAS (parts ! 1)) (\<lambda>as. MustIAFrom isd as)))"

definition IA_ISD :: "IA \<Rightarrow> ISD" where
  "IA_ISD ia = ucast (drop_bit ASBits ia)"

definition IA_AS :: "IA \<Rightarrow> AS" where
  "IA_AS ia = ia AND MaxAS"

definition IA_String :: "IA \<Rightarrow> string" where
  "IA_String ia = FormatUint (unat (IA_ISD ia)) 10 @ ''-'' @ AS_String (IA_AS ia)"

definition IA_UnmarshalText :: "IA \<Rightarrow> string \<Rightarrow> IA \<times> unit result" where
  "IA_UnmarshalText ia b =
    (case ParseIA b of Ok parsed \<Rightarrow> (parsed, Ok ()) | Fail e \<Rightarrow> (ia, Fail e)
     | Panic \<Rightarrow> (ia, Panic))"

definition IA_IsZero :: "IA \<Rightarrow> bool" where
  "IA_IsZero ia \<longleftrightarrow> ia = 0"

definition IA_IsWildcard :: "IA \<Rightarrow> bool" where
  "IA_IsWildcard ia \<longleftrightarrow> IA_ISD ia = 0 \<or> IA_AS ia = 0"

section \<open>Formatting with options\<close>

record formatOptions =
  defaultPrefix :: bool
  separator :: string

text \<open>An option is a function on the options record, as in the code.\<close>

type_synonym FormatOption = "formatOptions \<Rightarrow> formatOptions"

definition applyFormatOptions :: "FormatOption list \<Rightarrow> formatOptions" where
  "applyFormatOptions opts = fold (\<lambda>opt o'. opt o') opts \<lparr>defaultPrefix = False, separator = '':''\<rparr>"

definition WithDefaultPrefix :: FormatOption where
  "WithDefaultPrefix o' = o'\<lparr>defaultPrefix := True\<rparr>"

definition WithSeparator :: "string \<Rightarrow> FormatOption" where
  "WithSeparator sep o' = o'\<lparr>separator := sep\<rparr>"

definition WithFileSeparator :: FormatOption where
  "WithFileSeparator = WithSeparator ''_''"

definition ParseFormattedISD :: "string \<Rightarrow> FormatOption list \<Rightarrow> ISD result" where
  "ParseFormattedISD isd opts =
    (if defaultPrefix (applyFormatOptions opts)
     then let trimmed = TrimPrefix isd ''ISD'' in
       if trimmed = isd then Fail (Err ''prefix is missing'') else ParseISD trimmed
     else ParseISD isd)"

definition ParseFormattedAS :: "string \<Rightarrow> FormatOption list \<Rightarrow> AS result" where
  "ParseFormattedAS as opts =
    (let o' = applyFormatOptions opts in
     if defaultPrefix o'
     then let trimmed = TrimPrefix as ''AS'' in
       if trimmed = as then Fail (Err ''prefix is missing'') else parseAS trimmed (separator o')
     else parseAS as (separator o'))"

definition ParseFormattedIA :: "string \<Rightarrow> FormatOption list \<Rightarrow> IA result" where
  "ParseFormattedIA ia opts =
    (let parts = Split ia ''-'' in
     if length parts \<noteq> 2 then Fail (Err ''invalid ISD-AS'')
     else bindR (wrapR ''parsing ISD part'' (ParseFormattedISD (parts ! 0) opts)) (\<lambda>isd.
          bindR (wrapR ''parsing AS part'' (ParseFormattedAS (parts ! 1) opts)) (\<lambda>as.
          MustIAFrom isd as)))"

definition FormatISD :: "ISD \<Rightarrow> FormatOption list \<Rightarrow> string" where
  "FormatISD isd opts =
    (if defaultPrefix (applyFormatOptions opts) then ''ISD'' @ FormatUint (unat isd) 10
     else FormatUint (unat isd) 10)"

definition FormatAS :: "AS \<Rightarrow> FormatOption list \<Rightarrow> string" where
  "FormatAS as opts =
    (let o' = applyFormatOptions opts; s = fmtAS as (separator o') in
     if defaultPrefix o' then ''AS'' @ s else s)"

definition FormatIA :: "IA \<Rightarrow> FormatOption list \<Rightarrow> string" where
  "FormatIA ia opts =
    (let o' = applyFormatOptions opts; as = fmtAS (IA_AS ia) (separator o') in
     if defaultPrefix o' then ''ISD'' @ FormatUint (unat (IA_ISD ia)) 10 @ ''-AS'' @ as
     else FormatUint (unat (IA_ISD ia)) 10 @ ''-'' @ as)"

section \<open>Service addresses\<close>

type_synonym SVC = u16

definition SvcDS :: SVC where "SvcDS = 0x0001"
definition SvcCS :: SVC where "SvcCS = 0x0002"
definition SvcWildcard :: SVC where "SvcWildcard = 0x0010"
definition SvcNone :: SVC where "SvcNone = 0xFFFF"
definition SVCMcast :: SVC where "SVCMcast = 0x8000"

definition ParseSVC :: "string \<Rightarrow> SVC result" where
  "ParseSVC str0 =
    (let (str, m) = (if HasSuffix str0 ''_A'' then (TrimSuffix str0 ''_A'', 0)
                     else if HasSuffix str0 ''_M'' then (TrimSuffix str0 ''_M'', SVCMcast)
                     else (str0, 0)) in
     if str = ''DS'' then Ok (SvcDS OR m)
     else if str = ''CS'' then Ok (SvcCS OR m)
     else if str = ''Wildcard'' then Ok (SvcWildcard OR m)
     else Fail (Err ''invalid service address''))"

definition SVC_IsMulticast :: "SVC \<Rightarrow> bool" where
  "SVC_IsMulticast h \<longleftrightarrow> h AND SVCMcast \<noteq> 0"

definition SVC_Base :: "SVC \<Rightarrow> SVC" where
  "SVC_Base h = h AND NOT SVCMcast"

definition SVC_Multicast :: "SVC \<Rightarrow> SVC" where
  "SVC_Multicast h = h OR SVCMcast"

definition padLeft :: "nat \<Rightarrow> string \<Rightarrow> string" where
  "padLeft w s = replicate (w - length s) (CHR ''0'') @ s"

definition SVC_BaseString :: "SVC \<Rightarrow> string" where
  "SVC_BaseString h =
    (if SVC_Base h = SvcDS then ''DS''
     else if SVC_Base h = SvcCS then ''CS''
     else if SVC_Base h = SvcWildcard then ''Wildcard''
     else ''<SVC:0x'' @ padLeft 4 (FormatUint (unat h) 16) @ ''>'')"

definition SVC_String :: "SVC \<Rightarrow> string" where
  "SVC_String h = SVC_BaseString h @ (if SVC_IsMulticast h then ''_M'' else [])"

section \<open>Host addresses\<close>

text \<open>
  \<^verbatim>\<open>netip.Addr\<close>: the invalid zero value, an IPv4 address, or an IPv6 address with its zone. An
  IPv6 address may be an IPv4 address in its mapped form; \<^verbatim>\<open>Unmap\<close> removes that form.
\<close>

datatype netip_Addr = IPInvalid | IPv4 bytes | IPv6 bytes string

definition netip_AddrFrom4 :: "bytes \<Rightarrow> netip_Addr" where
  "netip_AddrFrom4 b = IPv4 b"

definition netip_AddrFrom16 :: "bytes \<Rightarrow> netip_Addr" where
  "netip_AddrFrom16 b = IPv6 b []"

definition mapped_prefix :: bytes where
  "mapped_prefix = replicate 10 0 @ [0xFF, 0xFF]"

fun netip_Unmap :: "netip_Addr \<Rightarrow> netip_Addr" where
  "netip_Unmap (IPv6 b z) = (if take 12 b = mapped_prefix then IPv4 (drop 12 b) else IPv6 b z)"
| "netip_Unmap a = a"

fun netip_AsSlice :: "netip_Addr \<Rightarrow> bytes" where
  "netip_AsSlice IPInvalid = []"
| "netip_AsSlice (IPv4 b) = b"
| "netip_AsSlice (IPv6 b z) = b"

fun netip_Is6 :: "netip_Addr \<Rightarrow> bool" where
  "netip_Is6 (IPv6 b z) = True"
| "netip_Is6 a = False"

text \<open>The tag \<open>t\<close> of the struct selects the constructor.\<close>

datatype Host = HostNone | HostIP netip_Addr | HostSVC SVC

datatype HostAddrType = HostTypeNone | HostTypeIP | HostTypeSVC

fun Host_Type :: "Host \<Rightarrow> HostAddrType" where
  "Host_Type HostNone = HostTypeNone"
| "Host_Type (HostIP ip) = HostTypeIP"
| "Host_Type (HostSVC svc) = HostTypeSVC"

fun Host_IP :: "Host \<Rightarrow> netip_Addr result" where
  "Host_IP (HostIP ip) = Ok ip"
| "Host_IP h = Panic"

fun Host_SVC :: "Host \<Rightarrow> SVC result" where
  "Host_SVC (HostSVC svc) = Ok svc"
| "Host_SVC h = Panic"

section \<open>Reading back printed numbers\<close>

lemma of_char_digitChar: "d < 36 \<Longrightarrow> of_char (digitChar d) = (if d < 10 then 48 + d else 87 + d)"
  by (auto simp: digitChar_def of_char_of)

lemma digitVal_digitChar [simp]: "d < 36 \<Longrightarrow> digitVal (digitChar d) = Some d"
  by (auto simp: digitVal_def of_char_digitChar Let_def)

lemma ParseUint_loop_append:
  "ParseUint_loop b mx n (xs @ ys) = bindR (ParseUint_loop b mx n xs) (\<lambda>m. ParseUint_loop b mx m ys)"
  by (induction xs arbitrary: n) (auto split: option.splits)

lemma ParseUint_loop_FormatUint:
  assumes "2 \<le> base" "base \<le> 36" "n \<le> mx"
  shows "ParseUint_loop base mx 0 (FormatUint n base) = Ok n"
  using assms
proof (induction n base rule: FormatUint.induct)
  case (1 n base)
  have le: "n div base \<le> mx" using "1.prems" by (meson div_le_dividend le_trans)
  show ?case
  proof (cases "n < base")
    case True
    with "1.prems" show ?thesis by (simp add: FormatUint.simps [of n])
  next
    case False
    with 1 le have IH: "ParseUint_loop base mx 0 (FormatUint (n div base) base) = Ok (n div base)"
      by simp
    have d: "n mod base < 36" "\<not> base \<le> n mod base"
      using "1.prems" by (auto simp: not_le intro: less_le_trans [of _ base])
    have eq: "n div base * base + n mod base = n" by simp
    from False "1.prems" d show ?thesis
      unfolding FormatUint.simps [of n base]
      by (simp add: ParseUint_loop_append IH eq digitVal_digitChar [OF d(1)] d(2))
  qed
qed

lemma FormatUint_not_Nil [simp]: "FormatUint n b \<noteq> []"
  by (subst FormatUint.simps) simp

lemma ParseUint_FormatUint [simp]:
  "2 \<le> base \<Longrightarrow> base \<le> 36 \<Longrightarrow> n < 2 ^ w \<Longrightarrow> ParseUint (FormatUint n base) base w = Ok n"
  by (simp add: ParseUint_def ParseUint_loop_FormatUint)

lemma set_FormatUint:
  "2 \<le> base \<Longrightarrow> set (FormatUint n base) \<subseteq> digitChar ` {..<base}"
proof (induction n base rule: FormatUint.induct)
  case (1 n base)
  then show ?case
    by (subst FormatUint.simps) auto
qed

lemma ParseUint_loop_bound:
  "ParseUint_loop base mx n s = Ok v \<Longrightarrow> n \<le> mx \<Longrightarrow> v \<le> mx"
  by (induction s arbitrary: n) (auto split: option.splits if_splits)

lemma ParseUint_bound: "ParseUint s base w = Ok v \<Longrightarrow> v < 2 ^ w"
proof -
  assume "ParseUint s base w = Ok v"
  then have "v \<le> 2 ^ w - 1"
    using ParseUint_loop_bound [of base "2 ^ w - 1" 0 s v]
    by (auto simp: ParseUint_def split: if_splits)
  then show ?thesis using zero_less_power [of "2::nat" w] by linarith
qed

lemma ParseUint_not_Panic [simp]: "ParseUint s base w \<noteq> Panic"
proof -
  have "ParseUint_loop base mx n s \<noteq> Panic" for mx n
    by (induction s arbitrary: n) (auto split: option.splits)
  then show ?thesis by (simp add: ParseUint_def)
qed

section \<open>Splitting joined strings\<close>

lemma Split_from_skip:
  "length sep' = k \<Longrightarrow> Split_from sep cur k (sep' @ s) = Split_from sep cur 0 s"
  by (induction sep' arbitrary: k) auto

lemma Split_from_word:
  assumes "sep \<noteq> []" "hd sep \<notin> set w"
  shows "Split_from sep cur 0 (w @ s) = Split_from sep (cur @ w) 0 s"
  using assms(2)
proof (induction w arbitrary: cur)
  case (Cons c w)
  then have "take (length sep) (c # w @ s) \<noteq> sep"
    using assms(1) by (cases sep) auto
  with Cons show ?case by simp
qed simp

lemma Split_from_sep:
  assumes "sep \<noteq> []"
  shows "Split_from sep cur 0 (sep @ s) = cur # Split_from sep [] 0 s"
proof -
  obtain c cs where "sep = c # cs" using assms by (cases sep) auto
  then show ?thesis
    using Split_from_skip [of cs "length sep - 1" sep "[]" s] by simp
qed

lemma Split_single: "sep \<noteq> [] \<Longrightarrow> hd sep \<notin> set w \<Longrightarrow> Split w sep = [w]"
  using Split_from_word [of sep w "[]" "[]"] by (simp add: Split_def)

lemma Split_Cons:
  "sep \<noteq> [] \<Longrightarrow> hd sep \<notin> set w \<Longrightarrow> Split (w @ sep @ s) sep = w # Split s sep"
  by (simp add: Split_def Split_from_word Split_from_sep)


section \<open>Properties\<close>

text \<open>A separator that cannot be confused with the digits around it or with the ISD-AS hyphen.\<close>

definition good_separator :: "string \<Rightarrow> bool" where
  "good_separator sep \<longleftrightarrow> sep \<noteq> [] \<and> (case digitVal (hd sep) of None \<Rightarrow> True | Some d \<Rightarrow> 16 \<le> d)
     \<and> CHR ''-'' \<notin> set sep"

lemma good_separator_digits:
  "good_separator sep \<Longrightarrow> 2 \<le> base \<Longrightarrow> base \<le> 16 \<Longrightarrow> hd sep \<notin> set (FormatUint n base)"
proof
  assume *: "good_separator sep" "2 \<le> base" "base \<le> 16" "hd sep \<in> set (FormatUint n base)"
  then obtain d where "d < base" "hd sep = digitChar d" using set_FormatUint [of base n] by auto
  with * show False by (auto simp: good_separator_def)
qed

lemma hyphen_not_digit: "2 \<le> base \<Longrightarrow> base \<le> 16 \<Longrightarrow> CHR ''-'' \<notin> set (FormatUint n base)"
proof -
  assume b: "2 \<le> base" "base \<le> 16"
  have "CHR ''-'' \<noteq> digitChar d" if "d < base" for d
  proof
    assume "CHR ''-'' = digitChar d"
    then have "digitVal (CHR ''-'') = Some d" using that b by simp
    then show False by (simp add: digitVal_def)
  qed
  with set_FormatUint [of base n] b show ?thesis by auto
qed

lemma asParts_3: "asParts = 3"
  by (simp add: asParts_def ASBits_def asPartBits_def)

lemma asPartMask_mask: "asPartMask = mask 16"
  by (simp add: asPartMask_def mask_eq_exp_minus_1)

lemma MaxAS_mask: "MaxAS = mask 48"
  by (simp add: MaxAS_def mask_eq_exp_minus_1)

lemma AS_inRange_iff: "AS_inRange as \<longleftrightarrow> take_bit 48 as = as"
proof -
  have "AS_inRange as \<longleftrightarrow> uint as < 2 ^ 48"
    by (auto simp: AS_inRange_def MaxAS_def word_le_def)
  also have "\<dots> \<longleftrightarrow> take_bit 48 (uint as) = uint as"
    by (metis take_bit_int_eq_self_iff uint_ge_0)
  also have "\<dots> \<longleftrightarrow> take_bit 48 as = as"
    by (metis unsigned_take_bit_eq word_uint_eqI)
  finally show ?thesis .
qed

lemma as_parts_value:
  "push_bit 16 (push_bit 16 (push_bit 16 0 OR take_bit 16 (drop_bit 32 as)) OR take_bit 16 (drop_bit 16 as))
     OR take_bit 16 as = take_bit 48 (as::u64)"
proof (rule bit_word_eqI)
  fix n
  show "bit (push_bit 16 (push_bit 16 (push_bit 16 0 OR take_bit 16 (drop_bit 32 as))
      OR take_bit 16 (drop_bit 16 as)) OR take_bit 16 as) n \<longleftrightarrow> bit (take_bit 48 as) n"
    if "n < LENGTH(64)"
    using that by (cases "32 \<le> n") (auto simp: bit_simps)
qed

lemma fmtAS_parts:
  "AS_inRange as \<Longrightarrow> \<not> as \<le> MaxBGPAS \<Longrightarrow>
     fmtAS as sep = asPart as 0 @ sep @ asPart as 1 @ sep @ asPart as 2"
  by (simp add: fmtAS_def asParts_3 upt_rec numeral_2_eq_2)

lemma ParseUint_asPart:
  "ParseUint (asPart as i) 16 16 = Ok (unat (take_bit 16 (drop_bit (16 * (2 - i)) as)))"
proof -
  have "unat (take_bit 16 x) < 2 ^ 16" for x :: u64
    by (metis take_bit_nat_less_exp unsigned_take_bit_eq)
  then show ?thesis
    by (simp add: asPart_def asPartBase_def asParts_3 asPartBits_def asPartMask_mask
        flip: take_bit_eq_mask)
qed

lemma parseAS_fmtAS:
  assumes "good_separator sep" and "AS_inRange as"
  shows "parseAS (fmtAS as sep) sep = Ok as"
proof (cases "as \<le> MaxBGPAS")
  case True
  have "sep \<noteq> []" using assms(1) by (simp add: good_separator_def)
  moreover have "unat as < 2 ^ 32"
    using True by (simp add: MaxBGPAS_def word_le_nat_alt)
  ultimately show ?thesis
    using True assms by (simp add: parseAS_def fmtAS_def Split_single good_separator_digits
        asParseBGP_def BGPASBits_def)
next
  case False
  have sep: "sep \<noteq> []" using assms(1) by (simp add: good_separator_def)
  have notin: "hd sep \<notin> set (asPart as i)" for i
    using good_separator_digits [OF assms(1)] by (simp add: asPart_def asPartBase_def)
  have "Split (fmtAS as sep) sep = [asPart as 0, asPart as 1, asPart as 2]"
    using assms(2) False sep notin by (simp add: fmtAS_parts Split_Cons Split_single)
  then show ?thesis
    using assms(2) as_parts_value [of as]
    by (simp add: parseAS_def asParts_3 asPartBits_def asPartBase_def ParseUint_asPart AS_inRange_iff)
qed

lemma hyphen_not_in_fmtAS:
  "good_separator sep \<Longrightarrow> AS_inRange as \<Longrightarrow> CHR ''-'' \<notin> set (fmtAS as sep)"
  by (cases "as \<le> MaxBGPAS")
    (simp_all add: fmtAS_def hyphen_not_digit fmtAS_parts asPart_def asPartBase_def good_separator_def
      asParts_3 upt_rec numeral_2_eq_2)

lemma IA_AS_inRange [simp]: "AS_inRange (IA_AS ia)"
  by (simp add: AS_inRange_iff IA_AS_def MaxAS_mask flip: take_bit_eq_mask)

lemma IAFrom_parts: "MustIAFrom (IA_ISD ia) (IA_AS ia) = Ok ia"
proof -
  have "push_bit 48 (ucast (ucast (drop_bit 48 ia) :: u16)) OR take_bit 48 ia = ia" for ia :: u64
    by (rule bit_word_eqI) (auto simp: bit_simps)
  then show ?thesis
    by (simp add: MustIAFrom_def IAFrom_def IA_ISD_def ASBits_def)
      (simp add: IA_AS_def MaxAS_mask flip: take_bit_eq_mask)
qed

lemma prefix_trim [simp]: "pre \<noteq> [] \<Longrightarrow> TrimPrefix (pre @ s) pre = s"
  by (simp add: TrimPrefix_def)

lemma Split_hyphen:
  "CHR ''-'' \<notin> set a \<Longrightarrow> CHR ''-'' \<notin> set b \<Longrightarrow> Split (a @ ''-'' @ b) ''-'' = [a, b]"
  by (simp add: Split_Cons [of "''-''" a b, simplified] Split_single)

lemma ParseISD_FormatUint [simp]: "ParseISD (FormatUint (unat isd) 10) = Ok isd"
proof -
  have "unat isd < 2 ^ 16" using unsigned_less [of isd] by simp
  then show ?thesis by (simp add: ParseISD_def ISDBits_def)
qed

lemma parseAS_inRange: "parseAS s sep = Ok as \<Longrightarrow> AS_inRange as"
proof (cases "length (Split s sep) = 1")
  case True
  assume "parseAS s sep = Ok as"
  with True obtain v where v: "ParseUint s 10 32 = Ok v" "as = of_nat v"
    by (auto simp: parseAS_def asParseBGP_def BGPASBits_def mapR_eq_Ok wrapR_eq_Ok)
  then have "v < 2 ^ 32" using ParseUint_bound by blast
  then have "unat as < 2 ^ 32" using v(2) by (simp add: unsigned_of_nat take_bit_nat_eq_self)
  then show ?thesis by (simp add: AS_inRange_def MaxAS_def word_le_nat_alt)
next
  case False
  assume "parseAS s sep = Ok as"
  with False show ?thesis
    by (auto simp: parseAS_def Let_def bindR_eq_Ok split: if_splits)
qed

lemma parseAS_not_Panic: "parseAS s sep \<noteq> Panic"
proof -
  have "parseAS_parts ps a \<noteq> Panic" for ps a
    by (induction ps arbitrary: a) (simp_all add: bindR_eq_Panic wrapR_eq_Panic)
  then show ?thesis
    by (simp add: parseAS_def Let_def asParseBGP_def mapR_eq_Panic wrapR_eq_Panic bindR_eq_Panic)
qed

lemma ParseISD_not_Panic: "ParseISD s \<noteq> Panic"
  by (simp add: ParseISD_def mapR_eq_Panic wrapR_eq_Panic)

lemma MustIAFrom_inRange: "AS_inRange as \<Longrightarrow> MustIAFrom isd as \<noteq> Panic"
  by (simp add: MustIAFrom_def IAFrom_def)

text \<open>Printing an ISD-AS number and parsing the text gives the number back, for every list of
  format options whose separator is not empty, does not begin with a hexadecimal digit and has no
  hyphen; the default form (\<^verbatim>\<open>String\<close> and \<^verbatim>\<open>ParseIA\<close>) is always of this kind.\<close>

lemma ia_roundtrip:
  assumes "good_separator (separator (applyFormatOptions opts))"
  shows "ParseFormattedIA (FormatIA ia opts) opts = Ok ia \<and> ParseIA (IA_String ia) = Ok ia"
proof
  let ?sep = "separator (applyFormatOptions opts)"
  have isd: "CHR ''-'' \<notin> set (FormatUint (unat (IA_ISD ia)) 10)"
    by (simp add: hyphen_not_digit)
  have as: "CHR ''-'' \<notin> set (fmtAS (IA_AS ia) ?sep)"
    by (rule hyphen_not_in_fmtAS [OF assms]) simp
  have rt: "parseAS (fmtAS (IA_AS ia) ?sep) ?sep = Ok (IA_AS ia)"
    by (rule parseAS_fmtAS [OF assms]) simp
  have ISD: "TrimPrefix (''ISD'' @ s) ''ISD'' = s" and AS: "TrimPrefix (''AS'' @ s) ''AS'' = s" for s
    by (rule prefix_trim, simp)+
  show "ParseFormattedIA (FormatIA ia opts) opts = Ok ia"
  proof (cases "defaultPrefix (applyFormatOptions opts)")
    case True
    let ?a = "''ISD'' @ FormatUint (unat (IA_ISD ia)) 10" and ?b = "''AS'' @ fmtAS (IA_AS ia) ?sep"
    have "FormatIA ia opts = ?a @ ''-'' @ ?b"
      by (simp add: FormatIA_def Let_def True)
    moreover have "Split (?a @ ''-'' @ ?b) ''-'' = [?a, ?b]"
      by (rule Split_hyphen) (use isd as in simp_all)
    moreover have "ParseFormattedISD ?a opts = Ok (IA_ISD ia)"
        "ParseFormattedAS ?b opts = Ok (IA_AS ia)"
      using rt by (simp_all add: ParseFormattedISD_def ParseFormattedAS_def True Let_def
          ISD [simplified] AS [simplified])
    ultimately show ?thesis by (simp add: ParseFormattedIA_def IAFrom_parts)
  next
    case False
    then show ?thesis using rt
      by (simp add: FormatIA_def ParseFormattedIA_def Split_hyphen [OF isd as, simplified]
          ParseFormattedISD_def ParseFormattedAS_def IAFrom_parts)
  qed
  have colon: "good_separator '':''" by (simp add: good_separator_def digitVal_def)
  show "ParseIA (IA_String ia) = Ok ia"
    using Split_hyphen [OF isd hyphen_not_in_fmtAS [OF colon IA_AS_inRange]]
      parseAS_fmtAS [OF colon IA_AS_inRange]
    by (simp add: ParseIA_def IA_String_def AS_String_def ParseAS_def IAFrom_parts)
qed

lemma ia_roundtrip_witness:
  "FormatIA 0x0001FF0000000110 [WithDefaultPrefix, WithFileSeparator] = ''ISD1-ASff00_0_110''
   \<and> ParseFormattedIA ''ISD1-ASff00_0_110'' [WithDefaultPrefix, WithFileSeparator]
       = Ok 0x0001FF0000000110
   \<and> ParseIA (IA_String 0x0001FF0000000110) = Ok 0x0001FF0000000110"
proof -
  let ?opts = "[WithDefaultPrefix, WithFileSeparator]"
  have "good_separator (separator (applyFormatOptions ?opts))"
    by (simp add: applyFormatOptions_def WithDefaultPrefix_def WithFileSeparator_def
        WithSeparator_def good_separator_def digitVal_def)
  note ia_roundtrip [OF this, of "0x0001FF0000000110"]
  moreover have "FormatIA 0x0001FF0000000110 ?opts = ''ISD1-ASff00_0_110''"
    by (simp add: FormatIA_def applyFormatOptions_def WithDefaultPrefix_def WithFileSeparator_def
        WithSeparator_def IA_AS_def IA_ISD_def fmtAS_def AS_inRange_def MaxAS_def MaxBGPAS_def
        ASBits_def asParts_3 upt_rec asPart_def asPartBits_def asPartBase_def asPartMask_def
        FormatUint.simps digitChar_def char_of_def bit_0 Let_def)
  ultimately show ?thesis by simp
qed

text \<open>Parsing never panics, whatever the text and options, and an AS number that parses is in the
  48-bit range, so that the panic in \<^verbatim>\<open>MustIAFrom\<close> is not reachable from the parsers.\<close>

lemma parse_ia_safe:
  "ParseIA s \<noteq> Panic \<and> ParseFormattedIA s opts \<noteq> Panic
   \<and> (case ParseAS s of Ok as \<Rightarrow> as \<le> MaxAS | Fail e \<Rightarrow> True | Panic \<Rightarrow> False)"
proof -
  have as: "bindR (parseAS t sep) (MustIAFrom isd) \<noteq> Panic" for t sep isd
    using parseAS_inRange MustIAFrom_inRange by (auto simp: bindR_eq_Panic parseAS_not_Panic)
  have "ParseIA s \<noteq> Panic"
    using as by (auto simp: ParseIA_def Let_def bindR_eq_Panic ParseISD_not_Panic ParseAS_def)
  moreover have "ParseFormattedISD t opts \<noteq> Panic" for t
    by (simp add: ParseFormattedISD_def Let_def ParseISD_not_Panic)
  moreover have "bindR (wrapR m (ParseFormattedAS t opts)) (MustIAFrom isd) \<noteq> Panic" for m t isd
    using parseAS_inRange MustIAFrom_inRange
    by (auto simp: ParseFormattedAS_def Let_def bindR_eq_Panic wrapR_eq_Panic wrapR_eq_Ok
        parseAS_not_Panic split: if_splits)
  ultimately show ?thesis
    using parseAS_inRange [of s "'':''"] parseAS_not_Panic [of s "'':''"]
    by (auto simp: ParseFormattedIA_def Let_def bindR_eq_Panic wrapR_eq_Panic ParseAS_def
        AS_inRange_def split: result.splits)
qed

text \<open>a service address that parses prints to a text that parses to the same address: the printed
  form is the canonical name, and the suffix \<^verbatim>\<open>_A\<close> is not printed.\<close>

lemma svc_roundtrip:
  assumes "ParseSVC s = Ok v"
  shows "ParseSVC (SVC_String v) = Ok v"
proof -
  have "v \<in> {SvcDS, SvcCS, SvcWildcard, SvcDS OR SVCMcast, SvcCS OR SVCMcast, SvcWildcard OR SVCMcast}"
    using assms by (auto simp: ParseSVC_def Let_def split: if_splits)
  moreover have "ParseSVC (SVC_String SvcDS) = Ok SvcDS" by code_simp
  moreover have "ParseSVC (SVC_String SvcCS) = Ok SvcCS" by code_simp
  moreover have "ParseSVC (SVC_String SvcWildcard) = Ok SvcWildcard" by code_simp
  moreover have "ParseSVC (SVC_String (SvcDS OR SVCMcast)) = Ok (SvcDS OR SVCMcast)" by code_simp
  moreover have "ParseSVC (SVC_String (SvcCS OR SVCMcast)) = Ok (SvcCS OR SVCMcast)" by code_simp
  moreover have "ParseSVC (SVC_String (SvcWildcard OR SVCMcast)) = Ok (SvcWildcard OR SVCMcast)"
    by code_simp
  ultimately show ?thesis by auto
qed

lemma svc_roundtrip_witness:
  "ParseSVC ''CS_A'' = Ok SvcCS \<and> SVC_String SvcCS = ''CS'' \<and> ParseSVC ''CS'' = Ok SvcCS"
proof -
  have "ParseSVC ''CS_A'' = Ok SvcCS" "SVC_String SvcCS = ''CS''" by code_simp+
  with svc_roundtrip [of "''CS_A''" SvcCS] show ?thesis by simp
qed

end
