(* ===== verification/PathTypes.thy ===== *)
theory PathTypes
  imports ScionPath
begin

text \<open>
  The path type registry and the path types other than the SCION path (\<^verbatim>\<open>pkg/slayers/path/path.go\<close>,
  \<^verbatim>\<open>empty\<close>, \<^verbatim>\<open>onehop\<close>, \<^verbatim>\<open>epic\<close>), and the interface \<^verbatim>\<open>path.Path\<close> with its dynamic dispatch. The
  contract that the SCION header relies on is the locale \<open>path_type\<close>; every path type interprets it.
\<close>

unbundle bit_operations_syntax

section \<open>Empty path\<close>

type_synonym PathType = u8

definition empty_PathLen :: int where "empty_PathLen = 0"
definition empty_PathType :: PathType where "empty_PathType = 0"
definition scion_PathType :: PathType where "scion_PathType = 1"

definition empty_DecodeFromBytes :: "bytes \<Rightarrow> unit result" where
  "empty_DecodeFromBytes r = (if length r \<noteq> 0 then Fail (Err ''decoding an empty path'') else Ok ())"

definition empty_SerializeTo :: "unit \<Rightarrow> bytes \<Rightarrow> unit \<times> bytes result" where
  "empty_SerializeTo o' b = (o', Ok b)"

section \<open>One-hop path\<close>

definition onehop_PathLen :: int where "onehop_PathLen = int InfoLen + 2 * int HopLen"
definition onehop_PathType :: PathType where "onehop_PathType = 2"

record OneHop =
  Info :: InfoField
  FirstHop :: HopField
  SecondHop :: HopField

definition onehop_DecodeFromBytes :: "bytes \<Rightarrow> OneHop result" where
  "onehop_DecodeFromBytes data =
    (if int (length data) < onehop_PathLen then Fail (Err ''buffer too short for OneHop path'')
     else
       bindR (slice data 0 InfoLen) (\<lambda>s. bindR (InfoField_DecodeFromBytes s) (\<lambda>i.
       bindR (slice data InfoLen (InfoLen + HopLen)) (\<lambda>s. bindR (HopField_DecodeFromBytes s) (\<lambda>h1.
       bindR (slice data (InfoLen + HopLen) (InfoLen + HopLen + HopLen)) (\<lambda>s.
       bindR (HopField_DecodeFromBytes s) (\<lambda>h2.
       Ok \<lparr>Info = i, FirstHop = h1, SecondHop = h2\<rparr>)))))))"

definition onehop_SerializeTo :: "OneHop \<Rightarrow> bytes \<Rightarrow> OneHop \<times> bytes result" where
  "onehop_SerializeTo o' b = (o',
    (if int (length b) < onehop_PathLen then Fail (Err ''buffer too short for OneHop path'')
     else
       bindR (slice b 0 (0 + InfoLen)) (\<lambda>s. bindR (InfoField_SerializeTo (Info o') s) (\<lambda>s.
       let b = copy_at 0 s b in
       bindR (slice b InfoLen (InfoLen + HopLen)) (\<lambda>s. bindR (HopField_SerializeTo (FirstHop o') s) (\<lambda>s.
       let b = copy_at InfoLen s b in
       bindR (slice b (InfoLen + HopLen) (InfoLen + HopLen + HopLen)) (\<lambda>s.
       bindR (HopField_SerializeTo (SecondHop o') s) (\<lambda>s.
       Ok (copy_at (InfoLen + HopLen) s b)))))))))"

definition ToSCIONDecoded :: "OneHop \<Rightarrow> Decoded result" where
  "ToSCIONDecoded o' =
    (if ConsIngress (SecondHop o') = 0 then Fail (Err ''incomplete path can't be converted'')
     else Ok \<lparr>PathMeta = \<lparr>CurrINF = 0, CurrHF = 0, SegLen = [2, 0, 0]\<rparr>, NumINF = 1, NumHops = 2,
       InfoFields = [\<lparr>Peer = False, ConsDir = True, SegID = SegID (Info o'),
                      Timestamp = Timestamp (Info o')\<rparr>],
       HopFields = [\<lparr>IngressRouterAlert = IngressRouterAlert (FirstHop o'),
                     EgressRouterAlert = EgressRouterAlert (FirstHop o'),
                     ExpTime = ExpTime (FirstHop o'),
                     ConsIngress = ConsIngress (FirstHop o'),
                     ConsEgress = ConsEgress (FirstHop o'),
                     Mac = Mac (FirstHop o')\<rparr>,
                    \<lparr>IngressRouterAlert = IngressRouterAlert (SecondHop o'),
                     EgressRouterAlert = EgressRouterAlert (SecondHop o'),
                     ExpTime = ExpTime (SecondHop o'),
                     ConsIngress = ConsIngress (SecondHop o'),
                     ConsEgress = ConsEgress (SecondHop o'),
                     Mac = Mac (SecondHop o')\<rparr>]\<rparr>)"

definition onehop_Reverse :: "OneHop \<Rightarrow> Decoded result" where
  "onehop_Reverse o' =
     bindR (wrapR ''converting to scion path'' (ToSCIONDecoded o')) (\<lambda>sp.
     case Base_IncPath sp of (sp', r) \<Rightarrow>
       bindR (wrapR ''incrementing path'' r) (\<lambda>_. Decoded_Reverse sp'))"

section \<open>EPIC path\<close>

definition epic_PathType :: PathType where "epic_PathType = 3"
definition MetadataLen :: nat where "MetadataLen = 16"
definition PktIDLen :: nat where "PktIDLen = 8"
definition HVFLen :: nat where "HVFLen = 4"

record PktID =
  PktTimestamp :: u32
  Counter :: u32

definition PktID_DecodeFromBytes :: "bytes \<Rightarrow> PktID result" where
  "PktID_DecodeFromBytes raw =
     bindR (slice raw 0 4) (\<lambda>t. bindR (slice raw 4 8) (\<lambda>c.
     Ok \<lparr>PktTimestamp = be_u32 t, Counter = be_u32 c\<rparr>))"

definition PktID_SerializeTo :: "PktID \<Rightarrow> bytes \<Rightarrow> bytes result" where
  "PktID_SerializeTo i b =
    (if length b < 8 then Panic
     else Ok (copy_at 4 (put_u32 (Counter i)) (copy_at 0 (put_u32 (PktTimestamp i)) b)))"

text \<open>\<open>ScionPath\<close> is a pointer: \<open>None\<close> is nil.\<close>

record Epic =
  EpicPktID :: PktID
  PHVF :: bytes
  LHVF :: bytes
  EpicScionPath :: "Raw option"

definition epic_Len :: "Epic \<Rightarrow> int" where
  "epic_Len p = (case EpicScionPath p of None \<Rightarrow> int MetadataLen
     | Some r \<Rightarrow> int MetadataLen + Base_Len r)"

definition epic_SerializeTo :: "Epic \<Rightarrow> bytes \<Rightarrow> Epic \<times> bytes result" where
  "epic_SerializeTo p b =
    (if int (length b) < epic_Len p then (p, Fail (Err ''buffer too small to serialize path.''))
     else if length (PHVF p) \<noteq> HVFLen then (p, Fail (Err ''invalid length of PHVF''))
     else if length (LHVF p) \<noteq> HVFLen then (p, Fail (Err ''invalid length of LHVF''))
     else case EpicScionPath p of
       None \<Rightarrow> (p, Fail (Err ''SCION path is nil''))
     | Some sp \<Rightarrow>
         (case bindR (slice b 0 PktIDLen) (PktID_SerializeTo (EpicPktID p)) of
            Fail e \<Rightarrow> (p, Fail e)
          | Panic \<Rightarrow> (p, Panic)
          | Ok s \<Rightarrow>
              let b = copy_at 0 s b;
                  b = copy_at PktIDLen (PHVF p) b;
                  b = copy_at (PktIDLen + HVFLen) (LHVF p) b
              in (case Raw_SerializeTo sp (drop MetadataLen b) of (sp', r) \<Rightarrow>
                   (p\<lparr>EpicScionPath := Some sp'\<rparr>, mapR (\<lambda>s. copy_at MetadataLen s b) r))))"

definition epic_DecodeFromBytes :: "bytes \<Rightarrow> Epic result" where
  "epic_DecodeFromBytes b =
    (if length b < MetadataLen then Fail (Err ''EPIC Path raw too short'')
     else
       bindR (slice b 0 PktIDLen) (\<lambda>s. bindR (PktID_DecodeFromBytes s) (\<lambda>i.
       bindR (slice b PktIDLen (PktIDLen + HVFLen)) (\<lambda>phvf.
       bindR (slice b (PktIDLen + HVFLen) MetadataLen) (\<lambda>lhvf.
       bindR (Raw_DecodeFromBytes (drop MetadataLen b)) (\<lambda>sp.
       Ok \<lparr>EpicPktID = i, PHVF = phvf, LHVF = lhvf, EpicScionPath = Some sp\<rparr>))))))"

definition epic_Reverse :: "Epic \<Rightarrow> Epic result" where
  "epic_Reverse p =
    (case EpicScionPath p of
       None \<Rightarrow> Fail (Err ''scion subpath must not be nil'')
     | Some sp \<Rightarrow> bindR (Raw_Reverse sp) (\<lambda>rev. Ok (p\<lparr>EpicScionPath := Some rev\<rparr>)))"

section \<open>Paths of unknown type\<close>

record rawPath =
  rawPath_raw :: bytes
  rawPath_type :: PathType

definition rawPath_DecodeFromBytes :: "rawPath \<Rightarrow> bytes \<Rightarrow> rawPath result" where
  "rawPath_DecodeFromBytes p b = Ok (p\<lparr>rawPath_raw := b\<rparr>)"

definition rawPath_SerializeTo :: "rawPath \<Rightarrow> bytes \<Rightarrow> rawPath \<times> bytes result" where
  "rawPath_SerializeTo p b = (p, Ok (copy_at 0 (take (length b) (rawPath_raw p)) b))"

section \<open>The interface path.Path\<close>

datatype Path =
    EmptyPath
  | OneHopPath OneHop
  | ScionRawPath Raw
  | ScionDecodedPath Decoded
  | EpicPath Epic
  | UnknownPath rawPath

fun Path_Len :: "Path \<Rightarrow> int" where
  "Path_Len EmptyPath = empty_PathLen"
| "Path_Len (OneHopPath p) = onehop_PathLen"
| "Path_Len (ScionRawPath p) = Base_Len p"
| "Path_Len (ScionDecodedPath p) = Base_Len p"
| "Path_Len (EpicPath p) = epic_Len p"
| "Path_Len (UnknownPath p) = int (length (rawPath_raw p))"

fun Path_Type :: "Path \<Rightarrow> PathType" where
  "Path_Type EmptyPath = empty_PathType"
| "Path_Type (OneHopPath p) = onehop_PathType"
| "Path_Type (ScionRawPath p) = scion_PathType"
| "Path_Type (ScionDecodedPath p) = scion_PathType"
| "Path_Type (EpicPath p) = epic_PathType"
| "Path_Type (UnknownPath p) = rawPath_type p"

fun Path_SerializeTo :: "Path \<Rightarrow> bytes \<Rightarrow> Path \<times> bytes result" where
  "Path_SerializeTo EmptyPath b = (EmptyPath, snd (empty_SerializeTo () b))"
| "Path_SerializeTo (OneHopPath p) b = map_prod OneHopPath id (onehop_SerializeTo p b)"
| "Path_SerializeTo (ScionRawPath p) b = map_prod ScionRawPath id (Raw_SerializeTo p b)"
| "Path_SerializeTo (ScionDecodedPath p) b = (ScionDecodedPath p, Decoded_SerializeTo p b)"
| "Path_SerializeTo (EpicPath p) b = map_prod EpicPath id (epic_SerializeTo p b)"
| "Path_SerializeTo (UnknownPath p) b = map_prod UnknownPath id (rawPath_SerializeTo p b)"

text \<open>Decoding overwrites the receiver: only its dynamic type (and the type tag of an unknown path) matters.\<close>

fun Path_DecodeFromBytes :: "Path \<Rightarrow> bytes \<Rightarrow> Path result" where
  "Path_DecodeFromBytes EmptyPath b = mapR (\<lambda>_. EmptyPath) (empty_DecodeFromBytes b)"
| "Path_DecodeFromBytes (OneHopPath _) b = mapR OneHopPath (onehop_DecodeFromBytes b)"
| "Path_DecodeFromBytes (ScionRawPath _) b = mapR ScionRawPath (Raw_DecodeFromBytes b)"
| "Path_DecodeFromBytes (ScionDecodedPath _) b = mapR ScionDecodedPath (Decoded_DecodeFromBytes b)"
| "Path_DecodeFromBytes (EpicPath _) b = mapR EpicPath (epic_DecodeFromBytes b)"
| "Path_DecodeFromBytes (UnknownPath p) b = mapR UnknownPath (rawPath_DecodeFromBytes p b)"

fun Path_Reverse :: "Path \<Rightarrow> Path result" where
  "Path_Reverse EmptyPath = Ok EmptyPath"
| "Path_Reverse (OneHopPath p) = mapR ScionDecodedPath (onehop_Reverse p)"
| "Path_Reverse (ScionRawPath p) = mapR ScionRawPath (Raw_Reverse p)"
| "Path_Reverse (ScionDecodedPath p) = mapR ScionDecodedPath (Decoded_Reverse p)"
| "Path_Reverse (EpicPath p) = mapR EpicPath (epic_Reverse p)"
| "Path_Reverse (UnknownPath p) = Fail (Err ''not supported'')"

section \<open>The registry\<close>

text \<open>\<open>New\<close> is a constructor function without arguments: the value it creates.\<close>

record Metadata =
  MetaType :: PathType
  Desc :: string
  New :: Path

record registry =
  registeredPaths :: "PathType \<Rightarrow> Metadata option"
  strictDecoding :: bool

definition RegisterPath :: "registry \<Rightarrow> Metadata \<Rightarrow> registry result" where
  "RegisterPath g pathMeta =
    (case registeredPaths g (MetaType pathMeta) of
       Some _ \<Rightarrow> Panic
     | None \<Rightarrow> Ok (g\<lparr>registeredPaths := (registeredPaths g)(MetaType pathMeta \<mapsto> pathMeta)\<rparr>))"

definition StrictDecoding :: "registry \<Rightarrow> bool \<Rightarrow> registry" where
  "StrictDecoding g strict = g\<lparr>strictDecoding := strict\<rparr>"

definition NewRawPath :: Path where
  "NewRawPath = UnknownPath \<lparr>rawPath_raw = [], rawPath_type = 0\<rparr>"

definition NewPath :: "registry \<Rightarrow> PathType \<Rightarrow> Path result" where
  "NewPath g t =
    (case registeredPaths g t of
       None \<Rightarrow> if strictDecoding g then Fail (Err ''unsupported path'')
               else Ok (UnknownPath \<lparr>rawPath_raw = [], rawPath_type = 0\<rparr>)
     | Some pm \<Rightarrow> Ok (New pm))"

text \<open>The zero values the constructors create.\<close>

definition zero_hop :: HopField where "zero_hop = HopField_zero"

definition zero_info :: InfoField where
  "zero_info = \<lparr>Peer = False, ConsDir = False, SegID = 0, Timestamp = 0\<rparr>"

definition zero_raw :: Raw where
  "zero_raw = \<lparr>PathMeta = \<lparr>CurrINF = 0, CurrHF = 0, SegLen = [0, 0, 0]\<rparr>, NumINF = 0, NumHops = 0,
     RawBytes = []\<rparr>"

definition empty_Metadata :: Metadata where
  "empty_Metadata = \<lparr>MetaType = empty_PathType, Desc = ''Empty'', New = EmptyPath\<rparr>"

definition onehop_Metadata :: Metadata where
  "onehop_Metadata = \<lparr>MetaType = onehop_PathType, Desc = ''OneHop'',
     New = OneHopPath \<lparr>Info = zero_info, FirstHop = zero_hop, SecondHop = zero_hop\<rparr>\<rparr>"

definition scion_Metadata :: Metadata where
  "scion_Metadata = \<lparr>MetaType = scion_PathType, Desc = ''SCION'', New = ScionRawPath zero_raw\<rparr>"

definition zero_epic :: "Raw option \<Rightarrow> Epic" where
  "zero_epic sp = \<lparr>EpicPktID = \<lparr>PktTimestamp = 0, Counter = 0\<rparr>, PHVF = [], LHVF = [], EpicScionPath = sp\<rparr>"

definition epic_Metadata :: Metadata where
  "epic_Metadata = \<lparr>MetaType = epic_PathType, Desc = ''Epic'', New = EpicPath (zero_epic (Some zero_raw))\<rparr>"

definition registry_zero :: registry where
  "registry_zero = \<lparr>registeredPaths = (\<lambda>_. None), strictDecoding = True\<rparr>"

section \<open>The contract of a path type\<close>

text \<open>
  Decoding never panics and gives a valid path that fits in the input. Serializing a valid path
  into a buffer that is long enough writes an encoding of exactly \<open>len\<close> bytes and nothing else, and
  that encoding decodes to the path as it is after serializing (the raw SCION path writes its meta
  header through to its own buffer).
\<close>

locale path_type =
  fixes dec :: "bytes \<Rightarrow> 'p result"
    and ser :: "'p \<Rightarrow> bytes \<Rightarrow> 'p \<times> bytes result"
    and len :: "'p \<Rightarrow> int"
    and valid :: "'p \<Rightarrow> bool"
  assumes dec_no_panic: "dec b \<noteq> Panic"
    and dec_valid: "dec b = Ok p \<Longrightarrow> valid p"
    and dec_len: "dec b = Ok p \<Longrightarrow> len p \<le> int (length b)"
    and len_nonneg: "valid p \<Longrightarrow> 0 \<le> len p"
    and ser_valid: "valid p \<Longrightarrow> len p \<le> int (length b) \<Longrightarrow>
      \<exists>p' out. ser p b = (p', Ok (copy_at 0 out b)) \<and> int (length out) = len p
        \<and> len p' = len p \<and> dec out = Ok p'"
begin

text \<open>Serializing writes only the first \<open>len\<close> bytes, and they decode to the path.\<close>

lemma ser_then_dec:
  assumes "valid p" and "len p \<le> int (length b)" and "ser p b = (p', r)"
  shows "\<exists>b'. r = Ok b' \<and> length b' = length b \<and> dec (take (nat (len p)) b') = Ok p'
    \<and> drop (nat (len p)) b' = drop (nat (len p)) b \<and> len p' = len p"
proof -
  obtain out where "r = Ok (copy_at 0 out b)" "int (length out) = len p" "len p' = len p" "dec out = Ok p'"
    using ser_valid [OF assms(1,2)] assms(3) by auto
  moreover from this have "nat (len p) = length out" by (metis nat_int)
  ultimately show ?thesis
    using assms(2) by (simp add: copy_at_0)
qed

text \<open>Decoding and serializing again does not panic, and a second decoding sees the same path.\<close>

lemma reencode:
  assumes "dec b = Ok p" and "ser p b = (p', r)"
  shows "\<exists>b'. r = Ok b' \<and> dec (take (nat (len p)) b') = Ok p' \<and> length b' = length b"
  using ser_then_dec [OF dec_valid [OF assms(1)] dec_len [OF assms(1)] assms(2)] by auto

end

section \<open>Every path type fulfils the contract\<close>

lemma Decoded_DecodeFromBytes_wf:
  assumes "Decoded_DecodeFromBytes b = Ok d"
  shows "wf_decoded d"
proof -
  have "decode_seq HopLen HopField_DecodeFromBytes (nat (NumHops d)) (MetaLen + nat (NumINF d) * InfoLen) b
      = Ok (HopFields d)" and wf: "wf_base d" "length (HopFields d) = nat (NumHops d)"
      "length (InfoFields d) = nat (NumINF d)" and len: "Base_Len d \<le> int (length b)"
    using assms by (auto simp: Decoded_DecodeFromBytes_iff Base_DecodeFromBytes_iff decode_seq_iff)
  moreover have "MetaLen + nat (NumINF d) * InfoLen + HopLen * nat (NumHops d) \<le> length b"
    using len wf_base_bounds [OF wf(1)] by (simp add: Base_Len_def path_lens)
  ultimately have "list_all wf_hop (HopFields d)"
    using hop.decode_seq_total [of "MetaLen + nat (NumINF d) * InfoLen" "nat (NumHops d)" b] by auto
  with wf show ?thesis by (simp add: wf_decoded_def)
qed

interpretation empty: path_type empty_DecodeFromBytes empty_SerializeTo "\<lambda>_. empty_PathLen" "\<lambda>_. True"
  by unfold_locales (auto simp: empty_DecodeFromBytes_def empty_SerializeTo_def empty_PathLen_def copy_at_def
      intro!: exI [of _ "[]"])

interpretation decoded: path_type Decoded_DecodeFromBytes "\<lambda>d b. (d, Decoded_SerializeTo d b)" Base_Len
  wf_decoded
proof unfold_locales
  show "Decoded_DecodeFromBytes b \<noteq> Panic" for b by (rule Decoded_DecodeFromBytes_no_panic)
  show "wf_decoded p" if "Decoded_DecodeFromBytes b = Ok p" for b p
    using that by (rule Decoded_DecodeFromBytes_wf)
  show "Base_Len p \<le> int (length b)" if "Decoded_DecodeFromBytes b = Ok p" for b p
    using that by (simp add: Decoded_DecodeFromBytes_iff)
  show "0 \<le> Base_Len p" if "wf_decoded p" for p
    using that Base_Len_pos [of p] by (simp add: wf_decoded_def)
  show "\<exists>p' out. (p, Decoded_SerializeTo p b) = (p', Ok (copy_at 0 out b)) \<and> int (length out) = Base_Len p
      \<and> Base_Len p' = Base_Len p \<and> Decoded_DecodeFromBytes out = Ok p'"
    if "wf_decoded p" "Base_Len p \<le> int (length b)" for p b
    using that Decoded_decode_path_bytes [of p "[]"]
    by (auto simp: Decoded_SerializeTo_wf length_path_bytes)
qed

lemma Raw_decode_written_meta:
  assumes "wf_raw r"
  shows "Raw_DecodeFromBytes (copy_at 0 (put_u32 (MetaHdr_line (PathMeta r))) (RawBytes r))
    = Ok (r\<lparr>RawBytes := copy_at 0 (put_u32 (MetaHdr_line (PathMeta r))) (RawBytes r)\<rparr>)"
proof -
  have base: "wf_base r" and len: "int (length (RawBytes r)) = Base_Len r"
    using assms by (simp_all add: wf_raw_def)
  have "MetaHdr_DecodeFromBytes (copy_at 0 (put_u32 (MetaHdr_line (PathMeta r))) (RawBytes r)) = Ok (PathMeta r)"
    using base by (simp add: copy_at_0 MetaHdr_dec_line wf_base_def)
  moreover have "4 \<le> length (RawBytes r)"
    using Base_Len_pos [OF base] len by linarith
  ultimately show ?thesis
    using base len unfolding Raw_DecodeFromBytes_iff Base_DecodeFromBytes_iff
    by (simp add: Base.truncate_def wf_base_def Base_Len_def flip: len)
qed

interpretation raw: path_type Raw_DecodeFromBytes Raw_SerializeTo Base_Len wf_raw
proof unfold_locales
  show "Raw_DecodeFromBytes b \<noteq> Panic" for b by simp
  show "Raw_DecodeFromBytes b = Ok p \<Longrightarrow> wf_raw p" for b p by (rule Raw_DecodeFromBytes_wf)
  show "Raw_DecodeFromBytes b = Ok p \<Longrightarrow> Base_Len p \<le> int (length b)" for b p
    by (simp add: Raw_DecodeFromBytes_iff)
  show "0 \<le> Base_Len p" if "wf_raw p" for p
    using that Base_Len_pos [of p] by (simp add: wf_raw_def)
  show "\<exists>p' out. Raw_SerializeTo p b = (p', Ok (copy_at 0 out b)) \<and> int (length out) = Base_Len p
      \<and> Base_Len p' = Base_Len p \<and> Raw_DecodeFromBytes out = Ok p'"
    if wf: "wf_raw p" and len: "Base_Len p \<le> int (length b)" for p b
  proof -
    let ?p' = "p\<lparr>RawBytes := copy_at 0 (put_u32 (MetaHdr_line (PathMeta p))) (RawBytes p)\<rparr>"
    have l: "int (length (RawBytes p)) = Base_Len p" "4 \<le> length (RawBytes p)"
      using wf wf_raw_length [OF wf] by (simp_all add: wf_raw_def)
    have "Raw_write_meta p = (?p', Ok ())" using wf by (simp add: Raw_write_meta_wf)
    moreover have "RawBytes p \<noteq> []" using l by auto
    ultimately have "Raw_SerializeTo p b = (?p', Ok (copy_at 0 (RawBytes ?p') b))"
      using len l by (simp add: Raw_SerializeTo_def)
    moreover have "Raw_DecodeFromBytes (RawBytes ?p') = Ok ?p'"
      using Raw_decode_written_meta [OF wf] by simp
    ultimately show ?thesis using l by (auto simp: Base_Len_def)
  qed
qed

lemma copy_at_full: "length xs = length b \<Longrightarrow> copy_at 0 xs b = xs"
  by (simp add: copy_at_0)

definition wf_onehop :: "OneHop \<Rightarrow> bool" where
  "wf_onehop o' \<longleftrightarrow> wf_hop (FirstHop o') \<and> wf_hop (SecondHop o')"

definition onehop_bytes :: "OneHop \<Rightarrow> bytes" where
  "onehop_bytes o' = InfoField_bytes (Info o') @ HopField_bytes (FirstHop o') @ HopField_bytes (SecondHop o')"

lemma length_onehop_bytes: "wf_onehop o' \<Longrightarrow> int (length (onehop_bytes o')) = onehop_PathLen"
  by (simp add: onehop_bytes_def onehop_PathLen_def wf_onehop_def hop.enc_width info.enc_width)

lemma onehop_SerializeTo_wf:
  assumes "wf_onehop o'" and "onehop_PathLen \<le> int (length b)"
  shows "onehop_SerializeTo o' b = (o', Ok (copy_at 0 (onehop_bytes o') b))"
proof -
  have len: "InfoLen + HopLen + HopLen \<le> length b"
    using assms(2) by (simp add: onehop_PathLen_def)
  have "InfoLen + HopLen \<le> length b" "InfoLen \<le> length b" using len by simp_all
  moreover have "copy_at (InfoLen + HopLen) (HopField_bytes (SecondHop o'))
      (copy_at InfoLen (HopField_bytes (FirstHop o')) (copy_at 0 (InfoField_bytes (Info o')) b))
      = copy_at 0 (onehop_bytes o') b"
    using len assms(1) copy_at_append [of 0 "InfoField_bytes (Info o')" "HopField_bytes (FirstHop o')" b]
      copy_at_append [of 0 "InfoField_bytes (Info o') @ HopField_bytes (FirstHop o')" "HopField_bytes (SecondHop o')" b]
    by (simp add: onehop_bytes_def wf_onehop_def hop.enc_width info.enc_width)
  ultimately show ?thesis
    using assms len
    by (simp add: onehop_SerializeTo_def wf_onehop_def slice_def hop.ser_enc info.ser_enc copy_at_full
        hop.enc_width info.enc_width Let_def)
qed

lemma onehop_decode_bytes:
  assumes "wf_onehop o'"
  shows "onehop_DecodeFromBytes (onehop_bytes o') = Ok o'"
  using assms length_onehop_bytes [OF assms]
  by (simp add: onehop_DecodeFromBytes_def slice_def)
    (simp add: onehop_bytes_def wf_onehop_def hop.enc_width info.enc_width info.dec_enc hop.dec_enc)

interpretation onehop: path_type onehop_DecodeFromBytes onehop_SerializeTo "\<lambda>_. onehop_PathLen" wf_onehop
proof unfold_locales
  show "onehop_DecodeFromBytes b \<noteq> Panic" for b
    by (simp add: onehop_DecodeFromBytes_def bindR_eq_Panic slice_Panic_iff onehop_PathLen_def
        InfoField_DecodeFromBytes_def HopField_DecodeFromBytes_def)
  show "wf_onehop p" if "onehop_DecodeFromBytes b = Ok p" for b p
  proof -
    have "wf_hop h" if "HopField_DecodeFromBytes b = Ok h" for b h
      using that hop.dec_total [of b] by (cases "HopLen \<le> length b")
        (auto simp: HopField_DecodeFromBytes_def not_le)
    with that show ?thesis
      by (auto simp: onehop_DecodeFromBytes_def bindR_eq_Ok wf_onehop_def split: if_splits)
  qed
  show "onehop_PathLen \<le> int (length b)" if "onehop_DecodeFromBytes b = Ok p" for b p
    using that by (auto simp: onehop_DecodeFromBytes_def split: if_splits)
  show "0 \<le> onehop_PathLen" by (simp add: onehop_PathLen_def)
  show "\<exists>p' out. onehop_SerializeTo p b = (p', Ok (copy_at 0 out b)) \<and> int (length out) = onehop_PathLen
      \<and> onehop_PathLen = onehop_PathLen \<and> onehop_DecodeFromBytes out = Ok p'"
    if "wf_onehop p" "onehop_PathLen \<le> int (length b)" for p b
    using that onehop_SerializeTo_wf length_onehop_bytes onehop_decode_bytes by blast
qed

definition wf_epic :: "Epic \<Rightarrow> bool" where
  "wf_epic p \<longleftrightarrow> length (PHVF p) = HVFLen \<and> length (LHVF p) = HVFLen
     \<and> (case EpicScionPath p of None \<Rightarrow> False | Some r \<Rightarrow> wf_raw r)"

definition epic_meta_bytes :: "Epic \<Rightarrow> bytes" where
  "epic_meta_bytes p = put_u32 (PktTimestamp (EpicPktID p)) @ put_u32 (Counter (EpicPktID p)) @ PHVF p @ LHVF p"

lemmas epic_lens = MetadataLen_def PktIDLen_def HVFLen_def

lemma length_epic_meta: "wf_epic p \<Longrightarrow> length (epic_meta_bytes p) = MetadataLen"
  by (simp add: epic_meta_bytes_def wf_epic_def epic_lens)

lemma epic_meta_written:
  assumes "wf_epic p" and "16 \<le> length b"
  shows "bindR (slice b 0 PktIDLen) (PktID_SerializeTo (EpicPktID p))
      = Ok (put_u32 (PktTimestamp (EpicPktID p)) @ put_u32 (Counter (EpicPktID p)))"
    and "copy_at (PktIDLen + HVFLen) (LHVF p) (copy_at PktIDLen (PHVF p)
      (copy_at 0 (put_u32 (PktTimestamp (EpicPktID p)) @ put_u32 (Counter (EpicPktID p))) b))
      = epic_meta_bytes p @ drop 16 b"
  using assms
  by (simp_all add: slice_def PktID_SerializeTo_def epic_lens copy_at_def epic_meta_bytes_def wf_epic_def)

lemma epic_eta:
  "\<lparr>EpicPktID = \<lparr>PktTimestamp = PktTimestamp (EpicPktID p), Counter = Counter (EpicPktID p)\<rparr>,
     PHVF = PHVF p, LHVF = LHVF p, EpicScionPath = x\<rparr> = p\<lparr>EpicScionPath := x\<rparr>"
  by (cases p) simp

lemma epic_decode_bytes:
  assumes "wf_epic p"
  shows "epic_DecodeFromBytes (epic_meta_bytes p @ s)
    = bindR (Raw_DecodeFromBytes s) (\<lambda>sp. Ok (p\<lparr>EpicScionPath := Some sp\<rparr>))"
proof -
  have "take 4 (put_u32 x @ y) = put_u32 x" "take 4 (drop 4 (put_u32 x @ put_u32 z @ y)) = put_u32 z" for x y z
    by simp_all
  moreover have "be_u32 (put_u32 x) = x" for x using be_u32_put [of x "[]"] by simp
  ultimately show ?thesis
    using length_epic_meta [OF assms] assms
    by (simp add: epic_DecodeFromBytes_def slice_def epic_lens PktID_DecodeFromBytes_def)
      (simp add: epic_meta_bytes_def wf_epic_def epic_lens epic_eta)
qed

lemma epic_SerializeTo_wf:
  assumes "wf_epic p" and "EpicScionPath p = Some r" and "epic_Len p \<le> int (length b)"
  shows "\<exists>r' out. epic_SerializeTo p b
      = (p\<lparr>EpicScionPath := Some r'\<rparr>, Ok (copy_at 0 (epic_meta_bytes p @ out) b))
    \<and> int (length out) = Base_Len r \<and> Base_Len r' = Base_Len r \<and> Raw_DecodeFromBytes out = Ok r'"
proof -
  have wf: "wf_raw r" using assms(1,2) by (simp add: wf_epic_def)
  have "0 \<le> Base_Len r" using raw.len_nonneg [OF wf] .
  then have len: "16 \<le> length b" "Base_Len r \<le> int (length (drop 16 b))"
    using assms by (simp_all add: epic_Len_def MetadataLen_def)
  obtain r' out where out: "Raw_SerializeTo r (drop 16 b) = (r', Ok (copy_at 0 out (drop 16 b)))"
      "int (length out) = Base_Len r" "Base_Len r' = Base_Len r" "Raw_DecodeFromBytes out = Ok r'"
    using raw.ser_valid [OF wf len(2)] by auto
  have m: "length (epic_meta_bytes p) = 16" using length_epic_meta [OF assms(1)] by (simp add: MetadataLen_def)
  have "copy_at 16 (copy_at 0 out (drop 16 b)) (epic_meta_bytes p @ drop 16 b)
      = copy_at 0 (epic_meta_bytes p @ out) b"
    using m len out(2) by (simp add: copy_at_def ac_simps)
  then have "epic_SerializeTo p b
      = (p\<lparr>EpicScionPath := Some r'\<rparr>, Ok (copy_at 0 (epic_meta_bytes p @ out) b))"
    using assms epic_meta_written [OF assms(1) len(1)] out(1) m
    by (simp add: epic_SerializeTo_def wf_epic_def Let_def MetadataLen_def)
  with out show ?thesis by blast
qed

interpretation epic: path_type epic_DecodeFromBytes epic_SerializeTo epic_Len wf_epic
proof unfold_locales
  show "epic_DecodeFromBytes b \<noteq> Panic" for b
    by (auto simp: epic_DecodeFromBytes_def bindR_eq_Panic slice_Panic_iff slice_Ok_iff epic_lens
        PktID_DecodeFromBytes_def)
  show "wf_epic p" if "epic_DecodeFromBytes b = Ok p" for b p
    using that by (auto simp: epic_DecodeFromBytes_def bindR_eq_Ok slice_Ok_iff epic_lens wf_epic_def
        split: if_splits dest: Raw_DecodeFromBytes_wf)
  show "epic_Len p \<le> int (length b)" if "epic_DecodeFromBytes b = Ok p" for b p
    using that raw.dec_len [of "drop MetadataLen b"]
    by (auto simp: epic_DecodeFromBytes_def bindR_eq_Ok slice_Ok_iff epic_Len_def split: if_splits)
  show "0 \<le> epic_Len p" if "wf_epic p" for p
    using that raw.len_nonneg by (auto simp: epic_Len_def wf_epic_def split: option.splits)
  show "\<exists>p' out. epic_SerializeTo p b = (p', Ok (copy_at 0 out b)) \<and> int (length out) = epic_Len p
      \<and> epic_Len p' = epic_Len p \<and> epic_DecodeFromBytes out = Ok p'"
    if wf: "wf_epic p" and len: "epic_Len p \<le> int (length b)" for p b
  proof -
    obtain r where r: "EpicScionPath p = Some r" using wf by (auto simp: wf_epic_def split: option.splits)
    from epic_SerializeTo_wf [OF wf r len] obtain r' out where
      ser: "epic_SerializeTo p b = (p\<lparr>EpicScionPath := Some r'\<rparr>, Ok (copy_at 0 (epic_meta_bytes p @ out) b))"
      and out: "int (length out) = Base_Len r" "Base_Len r' = Base_Len r" "Raw_DecodeFromBytes out = Ok r'"
      by blast
    have "int (length (epic_meta_bytes p @ out)) = epic_Len p"
        "epic_Len (p\<lparr>EpicScionPath := Some r'\<rparr>) = epic_Len p"
      using r out length_epic_meta [OF wf] by (simp_all add: epic_Len_def)
    moreover have "epic_DecodeFromBytes (epic_meta_bytes p @ out) = Ok (p\<lparr>EpicScionPath := Some r'\<rparr>)"
      using out(3) by (simp add: epic_decode_bytes [OF wf])
    ultimately show ?thesis using ser by blast
  qed
qed

section \<open>Dynamic dispatch keeps the contract\<close>

text \<open>Validity of a path value of any type, and the path value a decoder of a given type starts from.\<close>

fun valid_path :: "Path \<Rightarrow> bool" where
  "valid_path EmptyPath = True"
| "valid_path (OneHopPath p) = wf_onehop p"
| "valid_path (ScionRawPath p) = wf_raw p"
| "valid_path (ScionDecodedPath p) = wf_decoded p"
| "valid_path (EpicPath p) = wf_epic p"
| "valid_path (UnknownPath p) = True"

fun same_kind :: "Path \<Rightarrow> Path \<Rightarrow> bool" where
  "same_kind EmptyPath EmptyPath = True"
| "same_kind (OneHopPath _) (OneHopPath _) = True"
| "same_kind (ScionRawPath _) (ScionRawPath _) = True"
| "same_kind (ScionDecodedPath _) (ScionDecodedPath _) = True"
| "same_kind (EpicPath _) (EpicPath _) = True"
| "same_kind (UnknownPath p) (UnknownPath q) = (rawPath_type p = rawPath_type q)"
| "same_kind _ _ = False"

lemma Path_ser_valid:
  assumes "valid_path p" and "Path_Len p \<le> int (length b)" and "same_kind q p"
  shows "\<exists>p' out. Path_SerializeTo p b = (p', Ok (copy_at 0 out b)) \<and> int (length out) = Path_Len p
    \<and> Path_Len p' = Path_Len p \<and> Path_DecodeFromBytes q out = Ok p'"
proof (cases p)
  case EmptyPath
  with assms show ?thesis
    by (cases q) (auto simp: empty_SerializeTo_def empty_DecodeFromBytes_def empty_PathLen_def copy_at_def
        intro!: exI [of _ "[]"])
next
  case (OneHopPath x)
  with assms onehop.ser_valid [of x b] show ?thesis by (cases q) (auto, force?)
next
  case (ScionRawPath x)
  with assms raw.ser_valid [of x b] show ?thesis by (cases q) (auto, force?)
next
  case (ScionDecodedPath x)
  with assms decoded.ser_valid [of x b] show ?thesis by (cases q) (auto, force?)
next
  case (EpicPath x)
  with assms epic.ser_valid [of x b] show ?thesis by (cases q) (auto, force?)
next
  case (UnknownPath x)
  with assms show ?thesis
    by (cases q) (auto simp: rawPath_SerializeTo_def rawPath_DecodeFromBytes_def intro!: exI [of _ "rawPath_raw x"])
qed

lemma Path_dec_no_panic [simp]: "Path_DecodeFromBytes q b \<noteq> Panic"
  by (cases q) (simp_all add: mapR_eq_Panic empty.dec_no_panic onehop.dec_no_panic decoded.dec_no_panic
      epic.dec_no_panic rawPath_DecodeFromBytes_def)

lemma Path_dec_valid:
  "Path_DecodeFromBytes q b = Ok p \<Longrightarrow> valid_path p \<and> same_kind q p \<and> Path_Len p \<le> int (length b)"
  by (cases q) (auto simp: mapR_eq_Ok rawPath_DecodeFromBytes_def
      dest: empty.dec_len onehop.dec_valid onehop.dec_len raw.dec_valid raw.dec_len decoded.dec_valid
        decoded.dec_len epic.dec_valid epic.dec_len)

section \<open>Properties\<close>

text \<open>Every path type keeps the contract of the \<^verbatim>\<open>path.Path\<close> interface: a decoded path is valid and
  fits in its input; serializing a valid path of any type into a buffer of at least \<^verbatim>\<open>Len()\<close> bytes
  succeeds, changes only its first \<^verbatim>\<open>Len()\<close> bytes, and those bytes decode, with a decoder of the same
  type, to the path.\<close>

lemma path_contract:
  assumes "valid_path p" and "Path_Len p \<le> int (length b)" and "same_kind q p"
  shows "\<exists>p' b'. Path_SerializeTo p b = (p', Ok b') \<and> length b' = length b
    \<and> drop (nat (Path_Len p)) b' = drop (nat (Path_Len p)) b
    \<and> Path_DecodeFromBytes q (take (nat (Path_Len p)) b') = Ok p'
    \<and> Path_Len p' = Path_Len p \<and> valid_path p'"
proof -
  obtain p' out where out: "Path_SerializeTo p b = (p', Ok (copy_at 0 out b))"
      "int (length out) = Path_Len p" "Path_Len p' = Path_Len p" "Path_DecodeFromBytes q out = Ok p'"
    using Path_ser_valid [OF assms] by auto
  moreover from out(2) have "nat (Path_Len p) = length out" by (metis nat_int)
  ultimately show ?thesis
    using assms(2) Path_dec_valid [OF out(4)] by (simp add: copy_at_0)
qed

definition sample_epic :: Epic where
  "sample_epic = \<lparr>EpicPktID = \<lparr>PktTimestamp = 7, Counter = 9\<rparr>, PHVF = [1, 2, 3, 4], LHVF = [5, 6, 7, 8],
     EpicScionPath = Some (zero_raw\<lparr>RawBytes := [0, 0, 0, 0]\<rparr>)\<rparr>"

lemma path_contract_witness:
  "\<exists>p' b'. Path_SerializeTo (EpicPath sample_epic) (replicate 30 0xFF) = (p', Ok b')
    \<and> drop 20 b' = replicate 10 0xFF
    \<and> Path_DecodeFromBytes (EpicPath (zero_epic None)) (take 20 b') = Ok p'"
proof -
  have wf: "valid_path (EpicPath sample_epic)"
    by (simp add: sample_epic_def wf_epic_def HVFLen_def wf_raw_def wf_base_def wf_meta_def zero_raw_def
        Base_Len_def path_lens MaxHops_def all_less_3)
  have len: "Path_Len (EpicPath sample_epic) = 20"
    by (simp add: sample_epic_def epic_Len_def MetadataLen_def zero_raw_def Base_Len_def path_lens)
  have "Path_Len (EpicPath sample_epic) \<le> int (length (replicate 30 (0xFF :: u8)))" using len by simp
  from path_contract [OF wf this, of "EpicPath (zero_epic None)"] show ?thesis
    using len by auto
qed

text \<open>A one-hop path whose second hop field has been filled in reverses to a SCION path that leads
  back: two hop fields in opposite order, one segment against construction direction with the
  segment's identifier and timestamp, at its first hop; a one-hop path that is not yet complete
  cannot be reversed.\<close>

lemma onehop_reverse:
  "onehop_Reverse o' =
    (if ConsIngress (SecondHop o') = 0
     then Fail (WrapStr ''converting to scion path'' (Err ''incomplete path can't be converted''))
     else Ok \<lparr>PathMeta = \<lparr>CurrINF = 0, CurrHF = 0, SegLen = [2, 0, 0]\<rparr>, NumINF = 1, NumHops = 2,
       InfoFields = [\<lparr>Peer = False, ConsDir = False, SegID = SegID (Info o'),
                      Timestamp = Timestamp (Info o')\<rparr>],
       HopFields = [SecondHop o', FirstHop o']\<rparr>)"
  by (simp add: onehop_Reverse_def ToSCIONDecoded_def Base_IncPath_def infIndexForHF_def
      Decoded_Reverse_def swap_loop.simps Let_def)

definition register_all :: "registry \<Rightarrow> Metadata list \<Rightarrow> registry result" where
  "register_all g ms = fold (\<lambda>m r. bindR r (\<lambda>g. RegisterPath g m)) ms (Ok g)"

definition slayers_init :: "registry result" where
  "slayers_init = register_all registry_zero [empty_Metadata, scion_Metadata, onehop_Metadata, epic_Metadata]"

text \<open>the registrations of the package initializer succeed, after them each of the four path types
  has a decoder of its kind and every other type is refused under strict decoding, and
  registering any of them again panics.\<close>

lemma registry_init:
  "\<exists>g. slayers_init = Ok g
    \<and> (\<forall>t. NewPath g t =
        (if t = 0 then Ok EmptyPath else if t = 1 then Ok (New scion_Metadata)
         else if t = 2 then Ok (New onehop_Metadata) else if t = 3 then Ok (New epic_Metadata)
         else Fail (Err ''unsupported path'')))
    \<and> (\<forall>m. RegisterPath g m = Panic \<longleftrightarrow> MetaType m < 4)"
proof -
  let ?g = "\<lparr>registeredPaths = [0 \<mapsto> empty_Metadata, 1 \<mapsto> scion_Metadata, 2 \<mapsto> onehop_Metadata,
    3 \<mapsto> epic_Metadata], strictDecoding = True\<rparr>"
  have "slayers_init = Ok ?g"
    by (simp add: slayers_init_def register_all_def RegisterPath_def registry_zero_def empty_Metadata_def
        scion_Metadata_def onehop_Metadata_def epic_Metadata_def empty_PathType_def scion_PathType_def
        onehop_PathType_def epic_PathType_def)
  moreover have "NewPath ?g t =
      (if t = 0 then Ok EmptyPath else if t = 1 then Ok (New scion_Metadata)
       else if t = 2 then Ok (New onehop_Metadata) else if t = 3 then Ok (New epic_Metadata)
       else Fail (Err ''unsupported path''))" for t
    by (simp add: NewPath_def empty_Metadata_def)
  moreover have "(t::u8) < 4 \<longleftrightarrow> t = 0 \<or> t = 1 \<or> t = 2 \<or> t = 3" for t
  proof
    assume "t < 4"
    then have "unat t < 4" by (simp add: word_less_nat_alt)
    then have "unat t \<in> {0, 1, 2, 3}" by auto
    then show "t = 0 \<or> t = 1 \<or> t = 2 \<or> t = 3"
      by (auto simp: word_unat_eq_iff)
  qed auto
  then have "RegisterPath ?g m = Panic \<longleftrightarrow> MetaType m < 4" for m
    by (simp add: RegisterPath_def)
  ultimately show ?thesis by blast
qed

end
