(* ===== verification/Header.thy ===== *)
theory Header
  imports PathTypes Addr
begin

text \<open>
  The SCION common, address and path header (\<^verbatim>\<open>pkg/slayers/scion.go\<close>): serialization, decoding with
  new or recycled path objects, host addresses in the header, the layer that follows, and the
  checksum with the pseudo header.
\<close>

unbundle bit_operations_syntax

section \<open>The header\<close>

definition LineLen :: int where "LineLen = 4"
definition CmnHdrLen :: int where "CmnHdrLen = 12"
definition MaxHdrLen :: int where "MaxHdrLen = 1020"

type_synonym AddrType = u8
type_synonym L4ProtocolType = u8

definition T4Ip :: AddrType where "T4Ip = 0"
definition T4Svc :: AddrType where "T4Svc = 4"
definition T16Ip :: AddrType where "T16Ip = 3"

definition AddrType_Length :: "AddrType \<Rightarrow> int" where
  "AddrType_Length t = LineLen * (1 + (uint t AND 3))"

record BaseLayer =
  Contents :: bytes
  Payload :: bytes

text \<open>\<open>SPath\<close> is an interface value, nil at first. \<open>pathPool\<close> tells whether paths are recycled.\<close>

record SCION = BaseLayer +
  Version :: u8
  TrafficClass :: u8
  FlowID :: u32
  NextHdr :: L4ProtocolType
  HdrLen :: u8
  PayloadLen :: u16
  SPathType :: PathType
  DstAddrType :: AddrType
  SrcAddrType :: AddrType
  DstIA :: IA
  SrcIA :: IA
  RawDstAddr :: bytes
  RawSrcAddr :: bytes
  SPath :: "Path option"
  pathPool :: bool

definition AddrHdrLen :: "SCION \<Rightarrow> int" where
  "AddrHdrLen s = 2 * int IABytes + AddrType_Length (DstAddrType s) + AddrType_Length (SrcAddrType s)"

definition SerializeAddrHdr :: "SCION \<Rightarrow> bytes \<Rightarrow> bytes result" where
  "SerializeAddrHdr s buf =
    (if int (length buf) < AddrHdrLen s then Fail (Err ''provided buffer is too small'')
     else let dst = nat (AddrType_Length (DstAddrType s));
              src = nat (AddrType_Length (SrcAddrType s));
              buf = copy_at 0 (put_u64 (DstIA s)) buf;
              buf = copy_at IABytes (put_u64 (SrcIA s)) buf;
              buf = copy_at (2 * IABytes) (take dst (RawDstAddr s)) buf;
              buf = copy_at (2 * IABytes + dst) (take src (RawSrcAddr s)) buf
          in Ok buf)"

definition DecodeAddrHdr :: "SCION \<Rightarrow> bytes \<Rightarrow> SCION result" where
  "DecodeAddrHdr s data =
    (if int (length data) < AddrHdrLen s then Fail (Err ''provided buffer is too small'')
     else let dst = nat (AddrType_Length (DstAddrType s));
              src = nat (AddrType_Length (SrcAddrType s)) in
       bindR (slice data (2 * IABytes) (2 * IABytes + dst)) (\<lambda>rawDst.
       bindR (slice data (2 * IABytes + dst) (2 * IABytes + dst + src)) (\<lambda>rawSrc.
       Ok (s\<lparr>DstIA := be_u64 data, SrcIA := be_u64 (drop IABytes data),
             RawDstAddr := rawDst, RawSrcAddr := rawSrc\<rparr>))))"

text \<open>The first twelve bytes.\<close>

definition firstLine :: "SCION \<Rightarrow> u32" where
  "firstLine s = push_bit 28 (ucast (Version s AND 0xF)) OR push_bit 20 (ucast (TrafficClass s))
     OR (FlowID s AND 0xFFFFF)"

definition CmnHdr_bytes :: "SCION \<Rightarrow> bytes" where
  "CmnHdr_bytes s = put_u32 (firstLine s) @ [NextHdr s, HdrLen s] @ put_u16 (PayloadLen s)
     @ [SPathType s, push_bit 4 (DstAddrType s AND 0xF) OR (SrcAddrType s AND 0xF)] @ put_u16 0"

text \<open>
  The serialize buffer belongs to gopacket: \<open>fresh n\<close> stands for the \<open>n\<close> bytes that \<^verbatim>\<open>PrependBytes\<close>
  puts in front of the payload, whose content is arbitrary. The result is the header together with
  the payload; on an error the content of the buffer is left open.
\<close>

definition SCION_SerializeTo ::
  "(nat \<Rightarrow> bytes) \<Rightarrow> bool \<Rightarrow> SCION \<Rightarrow> bytes \<Rightarrow> SCION \<times> bytes result" where
  "SCION_SerializeTo fresh fixLengths s payload =
    (case SPath s of
       None \<Rightarrow> (s, Panic)
     | Some path \<Rightarrow>
       let scnLen = CmnHdrLen + AddrHdrLen s + Path_Len path in
       if scnLen > MaxHdrLen then (s, Fail (Err ''header length exceeds maximum''))
       else if scnLen mod LineLen \<noteq> 0
       then (s, Fail (Err ''header length is not an integer multiple of line length''))
       else
         let buf = fresh (nat scnLen);
             s = (if fixLengths then s\<lparr>HdrLen := word_of_int (scnLen div LineLen),
                    PayloadLen := of_nat (length payload)\<rparr> else s);
             buf = copy_at 0 (CmnHdr_bytes s) buf
         in case SerializeAddrHdr s (drop (nat CmnHdrLen) buf) of
              Fail e \<Rightarrow> (s, Fail e)
            | Panic \<Rightarrow> (s, Panic)
            | Ok ab \<Rightarrow>
                let buf = copy_at (nat CmnHdrLen) ab buf;
                    offset = nat (CmnHdrLen + AddrHdrLen s)
                in case Path_SerializeTo path (drop offset buf) of (path', r) \<Rightarrow>
                     (s\<lparr>SPath := Some path'\<rparr>, mapR (\<lambda>pb. copy_at offset pb buf @ payload) r))"

text \<open>The paths of the pool, and the path a decoder starts from.\<close>

definition pathPool_paths :: "Path list" where
  "pathPool_paths = [EmptyPath, ScionRawPath zero_raw,
     OneHopPath \<lparr>Info = zero_info, FirstHop = zero_hop, SecondHop = zero_hop\<rparr>, EpicPath (zero_epic None)]"

definition RecyclePaths :: "SCION \<Rightarrow> SCION" where
  "RecyclePaths s = s\<lparr>pathPool := True\<rparr>"

definition getPath :: "registry \<Rightarrow> SCION \<Rightarrow> PathType \<Rightarrow> Path result" where
  "getPath g s t =
    (if \<not> pathPool s then NewPath g t
     else if unat t < length pathPool_paths then Ok (pathPool_paths ! unat t)
     else Ok NewRawPath)"

text \<open>
  On an error the layer keeps a mixture of old and new fields; the model returns the error only,
  since no caller uses the layer after an error.
\<close>

definition SCION_DecodeFromBytes :: "registry \<Rightarrow> SCION \<Rightarrow> bytes \<Rightarrow> SCION result" where
  "SCION_DecodeFromBytes g s data =
    (if int (length data) < CmnHdrLen
     then Fail (Err ''packet is shorter than the common header length'')
     else
       let firstLine = be_u32 data;
           s = s\<lparr>Version := ucast (drop_bit 28 firstLine),
                 TrafficClass := ucast (drop_bit 20 firstLine AND 0xFF),
                 FlowID := firstLine AND 0xFFFFF,
                 NextHdr := data ! 4, HdrLen := data ! 5, PayloadLen := be_u16 (drop 6 data),
                 SPathType := data ! 8, DstAddrType := drop_bit 4 (data ! 9) AND 0xF,
                 SrcAddrType := data ! 9 AND 0xF\<rparr> in
       bindR (DecodeAddrHdr s (drop (nat CmnHdrLen) data)) (\<lambda>s.
       let addrHdrLen = AddrHdrLen s;
           offset = CmnHdrLen + addrHdrLen;
           hdrBytes = uint (HdrLen s) * LineLen;
           pathLen = hdrBytes - CmnHdrLen - addrHdrLen in
       if pathLen < 0 then Fail (Err ''invalid header, negative pathLen'')
       else if int (length data) < offset + pathLen
       then Fail (Err ''provided buffer is too small'')
       else
         bindR (getPath g s (SPathType s)) (\<lambda>p.
         bindR (sliceI data offset (offset + pathLen)) (\<lambda>pb.
         bindR (Path_DecodeFromBytes p pb) (\<lambda>path.
         bindR (sliceI data 0 hdrBytes) (\<lambda>contents.
         Ok (s\<lparr>SPath := Some path, Contents := contents,
               Payload := drop (nat hdrBytes) data\<rparr>)))))))"

section \<open>Following layers\<close>

datatype LayerType = LayerTypeHopByHopExtn | LayerTypeEndToEndExtn | LayerTypeSCIONUDP
  | LayerTypeSCMP | LayerTypeBFD | LayerTypePayload | LayerTypeDecodeFailure

definition L4None :: L4ProtocolType where "L4None = 0"
definition L4TCP :: L4ProtocolType where "L4TCP = 6"
definition L4UDP :: L4ProtocolType where "L4UDP = 17"
definition HopByHopClass :: L4ProtocolType where "HopByHopClass = 200"
definition End2EndClass :: L4ProtocolType where "End2EndClass = 201"
definition L4SCMP :: L4ProtocolType where "L4SCMP = 202"
definition L4BFD :: L4ProtocolType where "L4BFD = 203"

definition scionNextLayerTypeL4 :: "L4ProtocolType \<Rightarrow> LayerType" where
  "scionNextLayerTypeL4 t =
    (if t = L4UDP then LayerTypeSCIONUDP else if t = L4SCMP then LayerTypeSCMP
     else if t = L4BFD then LayerTypeBFD else LayerTypePayload)"

definition scionNextLayerType :: "L4ProtocolType \<Rightarrow> LayerType" where
  "scionNextLayerType t =
    (if t = HopByHopClass then LayerTypeHopByHopExtn
     else if t = End2EndClass then LayerTypeEndToEndExtn else scionNextLayerTypeL4 t)"

definition scionNextLayerTypeAfterHBH :: "L4ProtocolType \<Rightarrow> LayerType" where
  "scionNextLayerTypeAfterHBH t =
    (if t = HopByHopClass then LayerTypeDecodeFailure
     else if t = End2EndClass then LayerTypeEndToEndExtn else scionNextLayerTypeL4 t)"

definition scionNextLayerTypeAfterE2E :: "L4ProtocolType \<Rightarrow> LayerType" where
  "scionNextLayerTypeAfterE2E t =
    (if t = HopByHopClass then LayerTypeDecodeFailure
     else if t = End2EndClass then LayerTypeDecodeFailure else scionNextLayerTypeL4 t)"

section \<open>Host addresses in the header\<close>

text \<open>\<open>copy(arr[:], raw)\<close> into a zeroed array of \<open>n\<close> bytes.\<close>

definition to_array :: "nat \<Rightarrow> bytes \<Rightarrow> bytes" where
  "to_array n raw = take n (raw @ replicate n 0)"

definition ParseAddr :: "AddrType \<Rightarrow> bytes \<Rightarrow> Host result" where
  "ParseAddr addrType raw =
    (if addrType = T4Ip then Ok (HostIP (netip_AddrFrom4 (to_array 4 raw)))
     else if addrType = T4Svc then bindR (slice raw 0 2) (\<lambda>r. Ok (HostSVC (be_u16 r)))
     else if addrType = T16Ip then Ok (HostIP (netip_AddrFrom16 (to_array 16 raw)))
     else Fail (Err ''unsupported address type/length combination''))"

fun PackAddr :: "Host \<Rightarrow> (AddrType \<times> bytes) result" where
  "PackAddr (HostIP ip0) =
    (let ip = netip_Unmap ip0 in
     if ip = IPInvalid then Fail (Err ''unsupported address'')
     else if netip_Is6 ip then Ok (T16Ip, netip_AsSlice ip)
     else Ok (T4Ip, netip_AsSlice ip))"
| "PackAddr (HostSVC svc) = Ok (T4Svc, put_u16 svc @ [0, 0])"
| "PackAddr HostNone = Fail (Err ''unsupported address'')"

definition DstAddr :: "SCION \<Rightarrow> Host result" where
  "DstAddr s = ParseAddr (DstAddrType s) (RawDstAddr s)"

definition SrcAddr :: "SCION \<Rightarrow> Host result" where
  "SrcAddr s = ParseAddr (SrcAddrType s) (RawSrcAddr s)"

text \<open>On an error \<^verbatim>\<open>PackAddr\<close> returns the zero address type and no bytes, and they are stored.\<close>

definition SetDstAddr :: "SCION \<Rightarrow> Host \<Rightarrow> SCION \<times> unit result" where
  "SetDstAddr s dst =
    (case PackAddr dst of
       Ok (t, raw) \<Rightarrow> (s\<lparr>DstAddrType := t, RawDstAddr := raw\<rparr>, Ok ())
     | Fail e \<Rightarrow> (s\<lparr>DstAddrType := 0, RawDstAddr := []\<rparr>, Fail e)
     | Panic \<Rightarrow> (s, Panic))"

definition SetSrcAddr :: "SCION \<Rightarrow> Host \<Rightarrow> SCION \<times> unit result" where
  "SetSrcAddr s src =
    (case PackAddr src of
       Ok (t, raw) \<Rightarrow> (s\<lparr>SrcAddrType := t, RawSrcAddr := raw\<rparr>, Ok ())
     | Fail e \<Rightarrow> (s\<lparr>SrcAddrType := 0, RawSrcAddr := []\<rparr>, Fail e)
     | Panic \<Rightarrow> (s, Panic))"

section \<open>Checksum\<close>

text \<open>
  The loops add bytes in pairs to a wrapping 32-bit sum. A loop over an address of odd length reads
  one byte beyond it, which panics.
\<close>

fun sum_pairs :: "bytes \<Rightarrow> u32 \<Rightarrow> u32 result" where
  "sum_pairs [] csum = Ok csum"
| "sum_pairs [a] csum = Panic"
| "sum_pairs (a # b # bs) csum = sum_pairs bs (csum + push_bit 8 (ucast a) + ucast b)"

fun sum_ias :: "bytes \<Rightarrow> bytes \<Rightarrow> u32 \<Rightarrow> u32" where
  "sum_ias (a # b # as) (c # d # cs) csum =
     sum_ias as cs (csum + push_bit 8 (ucast a) + ucast b + push_bit 8 (ucast c) + ucast d)"
| "sum_ias _ _ csum = csum"

definition pseudoHeaderChecksum :: "SCION \<Rightarrow> nat \<Rightarrow> u8 \<Rightarrow> u32 result" where
  "pseudoHeaderChecksum s len protocol =
    (if RawDstAddr s = [] then Fail (Err ''destination address missing'')
     else if RawSrcAddr s = [] then Fail (Err ''source address missing'')
     else
       let csum = sum_ias (put_u64 (SrcIA s)) (put_u64 (DstIA s)) 0 in
       bindR (sum_pairs (RawSrcAddr s) csum) (\<lambda>csum.
       bindR (sum_pairs (RawDstAddr s) csum) (\<lambda>csum.
       let l = of_nat len in
       Ok (csum + (drop_bit 16 l + (l AND 0xFFFF)) + ucast protocol))))"

fun upperLayerChecksum :: "bytes \<Rightarrow> u32 \<Rightarrow> u32" where
  "upperLayerChecksum [] csum = csum"
| "upperLayerChecksum [a] csum = csum + push_bit 8 (ucast a)"
| "upperLayerChecksum (a # b # bs) csum = upperLayerChecksum bs (csum + push_bit 8 (ucast a) + ucast b)"

lemma fold_step_nat:
  "unat (drop_bit 16 c + (c AND 0xFFFF)) = unat c div 65536 + unat (c::u32) mod 65536"
proof -
  have "(0xFFFF :: u32) = mask 16" by (simp add: mask_eq_exp_minus_1)
  then have "c AND 0xFFFF = take_bit 16 c" by (simp only: take_bit_eq_mask)
  then have "unat (c AND 0xFFFF) = take_bit 16 (unat c)"
    by (simp only: unsigned_take_bit_eq)
  then have "unat (c AND 0xFFFF) = unat c mod 65536"
    by (simp add: take_bit_eq_mod)
  moreover have "unat (drop_bit 16 c) = unat c div 65536"
    by (simp add: drop_bit_eq_div unat_div)
  moreover have "unat c < 2 ^ 32" using unsigned_less [of c] by simp
  ultimately show ?thesis
    by (simp add: unat_word_ariths)
qed

function fold_loop :: "u32 \<Rightarrow> u32" where
  "fold_loop csum = (if csum > 0xFFFF then fold_loop (drop_bit 16 csum + (csum AND 0xFFFF)) else csum)"
  by pat_completeness auto

termination
proof (relation "measure unat")
  fix c :: u32
  assume "c > 0xFFFF"
  then have "65536 \<le> unat c" by (simp add: word_less_nat_alt)
  then have "unat c div 65536 + unat c mod 65536 < unat c"
    using div_mult_mod_eq [of "unat c" 65536] by linarith
  then show "(drop_bit 16 c + (c AND 0xFFFF), c) \<in> measure unat"
    by (simp add: fold_step_nat)
qed simp

declare fold_loop.simps [simp del]

definition foldChecksum :: "u32 \<Rightarrow> u16" where
  "foldChecksum csum = NOT (ucast (fold_loop csum))"

definition computeChecksum :: "SCION option \<Rightarrow> bytes \<Rightarrow> u8 \<Rightarrow> u16 result" where
  "computeChecksum s upperLayer protocol =
    (case s of
       None \<Rightarrow> Fail (Err ''SCION header missing'')
     | Some s \<Rightarrow>
         bindR (pseudoHeaderChecksum s (length upperLayer) protocol) (\<lambda>csum.
         Ok (foldChecksum (upperLayerChecksum upperLayer csum))))"


section \<open>Encoding and decoding\<close>

lemma AddrType_Length_cases: "AddrType_Length t \<in> {4, 8, 12, 16}"
proof -
  have "uint t AND 3 = uint t mod 4"
    using take_bit_eq_mask [of 2 "uint t"] by (simp add: take_bit_eq_mod mask_eq_exp_minus_1)
  moreover have "uint t mod 4 \<in> {0, 1, 2, 3}" by auto
  ultimately show ?thesis by (auto simp: AddrType_Length_def LineLen_def)
qed

lemma AddrType_Length_bounds: "4 \<le> AddrType_Length t" "AddrType_Length t \<le> 16"
  using AddrType_Length_cases [of t] by auto

definition addr_bytes :: "SCION \<Rightarrow> bytes" where
  "addr_bytes s = put_u64 (DstIA s) @ put_u64 (SrcIA s) @ RawDstAddr s @ RawSrcAddr s"

text \<open>A header that has an encoding: fields within their bit widths, addresses of the announced length.\<close>

definition wf_scion :: "SCION \<Rightarrow> bool" where
  "wf_scion s \<longleftrightarrow> Version s < 16 \<and> FlowID s < 0x100000 \<and> DstAddrType s < 16 \<and> SrcAddrType s < 16
     \<and> int (length (RawDstAddr s)) = AddrType_Length (DstAddrType s)
     \<and> int (length (RawSrcAddr s)) = AddrType_Length (SrcAddrType s)
     \<and> (case SPath s of None \<Rightarrow> False | Some p \<Rightarrow> valid_path p)"

lemma length_addr_bytes: "wf_scion s \<Longrightarrow> int (length (addr_bytes s)) = AddrHdrLen s"
  by (simp add: wf_scion_def addr_bytes_def AddrHdrLen_def IABytes_def)

lemma wf_addr_lens:
  assumes "wf_scion s"
  shows "length (RawDstAddr s) = nat (AddrType_Length (DstAddrType s))"
    and "length (RawSrcAddr s) = nat (AddrType_Length (SrcAddrType s))"
  using assms nat_int by (metis wf_scion_def)+

lemma SerializeAddrHdr_wf:
  assumes "wf_scion s" and "AddrHdrLen s \<le> int (length buf)"
  shows "SerializeAddrHdr s buf = Ok (copy_at 0 (addr_bytes s) buf)"
proof -
  define dst where "dst = nat (AddrType_Length (DstAddrType s))"
  define src where "src = nat (AddrType_Length (SrcAddrType s))"
  have l: "length (RawDstAddr s) = dst" "length (RawSrcAddr s) = src"
    using wf_addr_lens [OF assms(1)] by (simp_all add: dst_def src_def)
  have "int (16 + dst + src) \<le> int (length buf)"
    using assms by (simp add: AddrHdrLen_def IABytes_def wf_scion_def flip: l)
  then have len: "16 + dst + src \<le> length buf" by linarith
  have "copy_at (16 + dst) (RawSrcAddr s) (copy_at 16 (RawDstAddr s)
      (copy_at 8 (put_u64 (SrcIA s)) (copy_at 0 (put_u64 (DstIA s)) buf)))
    = copy_at 0 (addr_bytes s) buf"
    using len l copy_at_append [of 0 "put_u64 (DstIA s)" "put_u64 (SrcIA s)" buf]
      copy_at_append [of 0 "put_u64 (DstIA s) @ put_u64 (SrcIA s)" "RawDstAddr s" buf]
      copy_at_append [of 0 "put_u64 (DstIA s) @ put_u64 (SrcIA s) @ RawDstAddr s" "RawSrcAddr s" buf]
    by (simp add: addr_bytes_def add.commute)
  then show ?thesis
    using assms(2) l by (simp add: SerializeAddrHdr_def Let_def IABytes_def flip: dst_def src_def)
qed

lemma DecodeAddrHdr_bytes:
  assumes "wf_scion s" and "DstAddrType t = DstAddrType s" and "SrcAddrType t = SrcAddrType s"
  shows "DecodeAddrHdr t (addr_bytes s @ rest) = Ok (t\<lparr>DstIA := DstIA s, SrcIA := SrcIA s,
    RawDstAddr := RawDstAddr s, RawSrcAddr := RawSrcAddr s\<rparr>)"
proof -
  have len: "AddrHdrLen t = int (length (addr_bytes s))"
    using length_addr_bytes [OF assms(1)] assms(2,3) by (simp add: AddrHdrLen_def)
  have l: "nat (AddrType_Length (DstAddrType s)) = length (RawDstAddr s)"
      "nat (AddrType_Length (SrcAddrType s)) = length (RawSrcAddr s)"
    using wf_addr_lens [OF assms(1)] by simp_all
  have "slice (addr_bytes s @ rest) 16 (16 + length (RawDstAddr s)) = Ok (RawDstAddr s)"
      "slice (addr_bytes s @ rest) (16 + length (RawDstAddr s))
         (16 + length (RawDstAddr s) + length (RawSrcAddr s)) = Ok (RawSrcAddr s)"
    by (simp_all add: slice_def addr_bytes_def)
  moreover have "be_u64 (addr_bytes s @ rest) = DstIA s" "be_u64 (drop 8 (addr_bytes s @ rest)) = SrcIA s"
    by (simp_all add: addr_bytes_def)
  ultimately show ?thesis
    unfolding DecodeAddrHdr_def len Let_def assms(2,3) l IABytes_def by simp
qed

lemma and_0F: "(x::u8) AND 0xF = take_bit 4 x"
proof -
  have "(0xF :: u8) = mask 4" by (simp add: mask_eq_exp_minus_1)
  then show ?thesis by (simp only: take_bit_eq_mask)
qed

lemma and_FFFFF: "(x::u32) AND 0xFFFFF = take_bit 20 x"
proof -
  have "(0xFFFFF :: u32) = mask 20" by (simp add: mask_eq_exp_minus_1)
  then show ?thesis by (simp only: take_bit_eq_mask)
qed

lemma and_FF: "(x::u32) AND 0xFF = take_bit 8 x"
proof -
  have "(0xFF :: u32) = mask 8" by (simp add: mask_eq_exp_minus_1)
  then show ?thesis by (simp only: take_bit_eq_mask)
qed

lemma take_bit_word_self:
  fixes x :: "'a::len word"
  assumes "uint x < 2 ^ n"
  shows "take_bit n x = x"
  using assms by (metis take_bit_int_eq_self_iff uint_ge_0 unsigned_take_bit_eq word_uint_eqI)

lemma nibble_bits: "(x::u8) < 16 \<Longrightarrow> bit x n \<Longrightarrow> n < 4"
  using bit_less_exp [of x n 4] by (simp add: word_less_def)

lemma CmnHdr_fields:
  assumes "wf_scion s"
  shows "ucast (drop_bit 28 (firstLine s)) = Version s"
    and "ucast (drop_bit 20 (firstLine s) AND 0xFF) = TrafficClass s"
    and "firstLine s AND 0xFFFFF = FlowID s"
    and "drop_bit 4 (push_bit 4 (DstAddrType s AND 0xF) OR (SrcAddrType s AND 0xF)) AND 0xF = DstAddrType s"
    and "(push_bit 4 (DstAddrType s AND 0xF) OR (SrcAddrType s AND 0xF)) AND 0xF = SrcAddrType s"
proof -
  have nib: "bit (Version s) n \<Longrightarrow> n < 4" "bit (DstAddrType s) n \<Longrightarrow> n < 4" "bit (SrcAddrType s) n \<Longrightarrow> n < 4"
    for n using assms nibble_bits by (auto simp: wf_scion_def)
  have flow: "take_bit 20 (FlowID s) = FlowID s"
    using assms by (intro take_bit_word_self) (simp add: wf_scion_def word_less_def)
  show "ucast (drop_bit 28 (firstLine s)) = Version s"
    by (rule bit_word_eqI)
      (auto simp: firstLine_def bit_simps and_0F and_FFFFF dest: nib bit_imp_le_length)
  show "ucast (drop_bit 20 (firstLine s) AND 0xFF) = TrafficClass s"
    by (rule bit_word_eqI) (auto simp: firstLine_def bit_simps and_0F and_FF and_FFFFF)
  have "firstLine s AND 0xFFFFF = take_bit 20 (FlowID s)"
    by (rule bit_word_eqI) (auto simp: firstLine_def bit_simps and_FFFFF)
  with flow show "firstLine s AND 0xFFFFF = FlowID s" by simp
  show "drop_bit 4 (push_bit 4 (DstAddrType s AND 0xF) OR (SrcAddrType s AND 0xF)) AND 0xF = DstAddrType s"
    by (rule bit_word_eqI) (auto simp: bit_simps and_0F dest: nib)
  show "(push_bit 4 (DstAddrType s AND 0xF) OR (SrcAddrType s AND 0xF)) AND 0xF = SrcAddrType s"
    by (rule bit_word_eqI) (auto simp: bit_simps and_0F dest: nib)
qed

lemma length_CmnHdr_bytes [simp]: "length (CmnHdr_bytes s) = 12"
  by (simp add: CmnHdr_bytes_def)

lemma CmnHdr_nth:
  "be_u32 (CmnHdr_bytes s @ r) = firstLine s" "(CmnHdr_bytes s @ r) ! 4 = NextHdr s"
  "(CmnHdr_bytes s @ r) ! 5 = HdrLen s" "be_u16 (drop 6 (CmnHdr_bytes s @ r)) = PayloadLen s"
  "(CmnHdr_bytes s @ r) ! 8 = SPathType s"
  "(CmnHdr_bytes s @ r) ! 9 = push_bit 4 (DstAddrType s AND 0xF) OR (SrcAddrType s AND 0xF)"
  by (simp_all add: CmnHdr_bytes_def nth_append)

lemma copy_at_suffix [simp]:
  "length xs = off \<Longrightarrow> length ys = length zs \<Longrightarrow> copy_at off ys (xs @ zs) = xs @ ys"
  by (simp add: copy_at_def)

lemma AddrHdrLen_bounds: "24 \<le> AddrHdrLen s" "AddrHdrLen s \<le> 48"
  using AddrType_Length_bounds [of "DstAddrType s"] AddrType_Length_bounds [of "SrcAddrType s"]
  by (simp_all add: AddrHdrLen_def IABytes_def)

definition fix_lengths :: "SCION \<Rightarrow> int \<Rightarrow> nat \<Rightarrow> SCION" where
  "fix_lengths s scnLen n = s\<lparr>HdrLen := word_of_int (scnLen div LineLen), PayloadLen := of_nat n\<rparr>"

lemma SCION_SerializeTo_wf:
  assumes wf: "wf_scion s" and p: "SPath s = Some p" and fresh: "\<And>n. length (fresh n) = n"
    and scn: "scnLen = CmnHdrLen + AddrHdrLen s + Path_Len p" "scnLen \<le> MaxHdrLen" "scnLen mod LineLen = 0"
    and kind: "same_kind q p"
  shows "\<exists>p' out. SCION_SerializeTo fresh fl s pay
      = ((if fl then fix_lengths s scnLen (length pay) else s)\<lparr>SPath := Some p'\<rparr>,
         Ok (CmnHdr_bytes (if fl then fix_lengths s scnLen (length pay) else s) @ addr_bytes s @ out @ pay))
    \<and> int (length out) = Path_Len p \<and> Path_Len p' = Path_Len p \<and> Path_DecodeFromBytes q out = Ok p'
    \<and> (\<exists>rest. int (length rest) = Path_Len p \<and> Path_SerializeTo p rest = (p', Ok out))"
proof -
  define s' where "s' = (if fl then fix_lengths s scnLen (length pay) else s)"
  let ?A = "nat (AddrHdrLen s)"
  have valid: "valid_path p" using wf p by (simp add: wf_scion_def)
  have nn: "0 \<le> Path_Len p"
  proof -
    have "Path_Len p \<le> int (length (replicate (nat (Path_Len p)) (0::u8)))" by simp
    from Path_ser_valid [OF valid this kind] obtain out where "int (length (out::bytes)) = Path_Len p"
      by blast
    then show ?thesis by linarith
  qed
  have A: "length (addr_bytes s) = ?A" using length_addr_bytes [OF wf] by linarith
  define rest where "rest = drop (12 + ?A) (fresh (nat scnLen))"
  have nat_scn: "nat scnLen = 12 + ?A + nat (Path_Len p)"
    using nn AddrHdrLen_bounds [of s] by (simp add: scn(1) CmnHdrLen_def nat_add_distrib)
  then have lens: "length (drop 12 (fresh (nat scnLen))) = ?A + nat (Path_Len p)"
      "length rest = nat (Path_Len p)"
    by (simp_all add: fresh rest_def)
  obtain p' out where out: "Path_SerializeTo p rest = (p', Ok (copy_at 0 out rest))"
      "int (length out) = Path_Len p" "Path_Len p' = Path_Len p" "Path_DecodeFromBytes q out = Ok p'"
    using Path_ser_valid [OF valid _ kind, of rest] lens nn by auto
  have full: "copy_at 0 out rest = out"
    using out(2) lens by (simp add: copy_at_0)
  have wf': "wf_scion s'" and A': "AddrHdrLen s' = AddrHdrLen s" and ab: "addr_bytes s' = addr_bytes s"
    using wf by (simp_all add: s'_def wf_scion_def fix_lengths_def AddrHdrLen_def addr_bytes_def)
  let ?buf = "copy_at 0 (CmnHdr_bytes s') (fresh (nat scnLen))"
  have buf: "?buf = CmnHdr_bytes s' @ drop 12 (fresh (nat scnLen))"
    by (simp add: copy_at_0)
  have "SerializeAddrHdr s' (drop 12 ?buf) = Ok (addr_bytes s @ rest)"
    using lens nn AddrHdrLen_bounds [of s]
    by (subst SerializeAddrHdr_wf [OF wf']) (simp_all add: A' ab buf copy_at_0 A rest_def add.commute)
  moreover have "copy_at 12 (addr_bytes s @ rest) ?buf = CmnHdr_bytes s' @ addr_bytes s @ rest"
    using lens by (simp add: buf A)
  moreover have "nat (12 + AddrHdrLen s) = 12 + ?A"
    using AddrHdrLen_bounds [of s] by (simp add: nat_add_distrib)
  moreover have "copy_at (12 + ?A) out ((CmnHdr_bytes s' @ addr_bytes s) @ rest)
      = (CmnHdr_bytes s' @ addr_bytes s) @ out"
    using out(2) lens A by (intro copy_at_suffix) simp_all
  ultimately have "SCION_SerializeTo fresh fl s pay
      = (s'\<lparr>SPath := Some p'\<rparr>, Ok (CmnHdr_bytes s' @ addr_bytes s @ out @ pay))"
    using scn p out(1) full A A'
    by (cases fl) (simp_all add: s'_def SCION_SerializeTo_def Let_def CmnHdrLen_def flip: scn(1) fix_lengths_def)
  moreover have "int (length rest) = Path_Len p" "Path_SerializeTo p rest = (p', Ok out)" using out(1) full lens(2) nn by simp_all
  ultimately show ?thesis using out(2-4) unfolding s'_def by blast
qed

lemma SCION_Decode_bytes:
  assumes wf: "wf_scion s" and hdr: "uint (HdrLen s) * LineLen = CmnHdrLen + AddrHdrLen s + int (length out)"
    and path: "getPath g s0 (SPathType s) = Ok q" "Path_DecodeFromBytes q out = Ok p"
  shows "SCION_DecodeFromBytes g s0 (CmnHdr_bytes s @ addr_bytes s @ out @ pay)
    = Ok (s\<lparr>SPath := Some p, Contents := CmnHdr_bytes s @ addr_bytes s @ out, Payload := pay,
           pathPool := pathPool s0\<rparr>)"
proof -
  define t where "t = s0\<lparr>Version := Version s, TrafficClass := TrafficClass s, FlowID := FlowID s,
    NextHdr := NextHdr s, HdrLen := HdrLen s, PayloadLen := PayloadLen s, SPathType := SPathType s,
    DstAddrType := DstAddrType s, SrcAddrType := SrcAddrType s\<rparr>"
  define u where "u = t\<lparr>DstIA := DstIA s, SrcIA := SrcIA s, RawDstAddr := RawDstAddr s, RawSrcAddr := RawSrcAddr s\<rparr>"
  let ?data = "CmnHdr_bytes s @ addr_bytes s @ out @ pay"
  have dec: "DecodeAddrHdr t (drop 12 ?data) = Ok u"
    using DecodeAddrHdr_bytes [OF wf, of t "out @ pay"] by (simp add: t_def u_def)
  have u: "AddrHdrLen u = AddrHdrLen s" "HdrLen u = HdrLen s" "SPathType u = SPathType s"
      "getPath g u (SPathType s) = Ok q"
    using path(1) by (simp_all add: u_def t_def AddrHdrLen_def getPath_def)
  have A: "AddrHdrLen s = int (length (addr_bytes s))" using length_addr_bytes [OF wf] by simp
  have "SCION_DecodeFromBytes g s0 ?data
    = bindR (DecodeAddrHdr t (drop 12 ?data)) (\<lambda>s.
       let addrHdrLen = AddrHdrLen s; offset = CmnHdrLen + addrHdrLen; hdrBytes = uint (HdrLen s) * LineLen;
           pathLen = hdrBytes - CmnHdrLen - addrHdrLen in
       if pathLen < 0 then Fail (Err ''invalid header, negative pathLen'')
       else if int (length ?data) < offset + pathLen then Fail (Err ''provided buffer is too small'')
       else bindR (getPath g s (SPathType s)) (\<lambda>p. bindR (sliceI ?data offset (offset + pathLen)) (\<lambda>pb.
         bindR (Path_DecodeFromBytes p pb) (\<lambda>path. bindR (sliceI ?data 0 hdrBytes) (\<lambda>contents.
         Ok (s\<lparr>SPath := Some path, Contents := contents, Payload := drop (nat hdrBytes) ?data\<rparr>))))))"
    unfolding SCION_DecodeFromBytes_def CmnHdr_nth CmnHdr_fields [OF wf] Let_def t_def
    by (simp add: CmnHdrLen_def)
  also have "\<dots> = Ok (u\<lparr>SPath := Some p, Contents := CmnHdr_bytes s @ addr_bytes s @ out, Payload := pay\<rparr>)"
  proof -
    have "sliceI ?data (12 + int (length (addr_bytes s))) (12 + int (length (addr_bytes s)) + int (length out)) = Ok out"
        "sliceI ?data 0 (12 + int (length (addr_bytes s)) + int (length out)) = Ok (CmnHdr_bytes s @ addr_bytes s @ out)"
        "drop (nat (12 + int (length (addr_bytes s)) + int (length out))) ?data = pay"
      by (simp_all add: sliceI_def slice_def nat_add_distrib)
    then show ?thesis
      unfolding dec u Let_def hdr A by (simp add: CmnHdrLen_def hdr A u path(2))
  qed
  also have "u\<lparr>SPath := Some p, Contents := CmnHdr_bytes s @ addr_bytes s @ out, Payload := pay\<rparr>
     = s\<lparr>SPath := Some p, Contents := CmnHdr_bytes s @ addr_bytes s @ out, Payload := pay, pathPool := pathPool s0\<rparr>"
    by (simp add: u_def t_def)
  finally show ?thesis .
qed


section \<open>Properties of the header\<close>

lemma word_of_int_hdrlen:
  assumes "0 \<le> n" "n \<le> MaxHdrLen" "n mod LineLen = 0"
  shows "uint (word_of_int (n div LineLen) :: u8) * LineLen = n"
proof -
  have "n div 4 < 256" using assms by (simp add: MaxHdrLen_def)
  then have "uint (word_of_int (n div 4) :: u8) = n div 4"
    using assms by (simp add: uint_word_of_int LineLen_def)
  then show ?thesis using assms(3) by (simp add: LineLen_def mod_eq_0_iff_dvd)
qed

text \<open>C28: a header whose fields are within their widths, whose addresses have the announced lengths and
  whose path is valid and of the announced type serializes (with length fixing) unless it is longer
  than 1020 bytes or not a multiple of four, and decoding the packet gives the header back: the same
  fields, the path as serialized, and exactly the payload.\<close>

theorem scion_header_roundtrip:
  assumes wf: "wf_scion s" and p: "SPath s = Some p" and fresh: "\<And>n. length (fresh n) = n"
    and len: "CmnHdrLen + AddrHdrLen s + Path_Len p \<le> MaxHdrLen"
      "(CmnHdrLen + AddrHdrLen s + Path_Len p) mod LineLen = 0"
    and path: "getPath g s0 (SPathType s) = Ok q" "same_kind q p"
  shows "\<exists>s' b. SCION_SerializeTo fresh True s pay = (s', Ok b)
    \<and> SCION_DecodeFromBytes g s0 b
        = Ok (s'\<lparr>Contents := take (length b - length pay) b, Payload := pay, pathPool := pathPool s0\<rparr>)
    \<and> s' = s\<lparr>HdrLen := HdrLen s', PayloadLen := of_nat (length pay), SPath := SPath s'\<rparr>
    \<and> int (length b) = CmnHdrLen + AddrHdrLen s + Path_Len p + int (length pay)"
proof -
  let ?n = "CmnHdrLen + AddrHdrLen s + Path_Len p"
  let ?s = "fix_lengths s ?n (length pay)"
  obtain p' out where ser: "SCION_SerializeTo fresh True s pay
      = (?s\<lparr>SPath := Some p'\<rparr>, Ok (CmnHdr_bytes ?s @ addr_bytes s @ out @ pay))"
      and out: "int (length out) = Path_Len p" "Path_Len p' = Path_Len p" "Path_DecodeFromBytes q out = Ok p'"
    using SCION_SerializeTo_wf [OF wf p fresh refl len path(2), where fl = True and pay = pay] unfolding if_True by blast
  have wf': "wf_scion ?s" and ab: "addr_bytes ?s = addr_bytes s"
    using wf by (simp_all add: wf_scion_def fix_lengths_def addr_bytes_def)
  have A: "int (length (addr_bytes s)) = AddrHdrLen s" by (rule length_addr_bytes [OF wf])
  have "0 \<le> ?n" using out(1) AddrHdrLen_bounds [of s] by (simp add: CmnHdrLen_def)
  then have hdr: "uint (HdrLen ?s) * LineLen = CmnHdrLen + AddrHdrLen ?s + int (length out)"
    using word_of_int_hdrlen [OF _ len] out(1) by (simp add: fix_lengths_def AddrHdrLen_def)
  have "getPath g s0 (SPathType ?s) = Ok q" using path(1) by (simp add: fix_lengths_def)
  from SCION_Decode_bytes [OF wf' hdr this out(3), of pay, unfolded ab] ser show ?thesis
    by (auto simp: fix_lengths_def A out(1) CmnHdrLen_def simp flip: append_assoc)
qed

text \<open>A header with an empty path from an IPv4 host to a service.\<close>

definition sample_header :: SCION where
  "sample_header = \<lparr>Contents = [], Payload = [], Version = 0, TrafficClass = 0xB8, FlowID = 0xDEAD,
     NextHdr = 17, HdrLen = 0, PayloadLen = 0, SPathType = 0, DstAddrType = T4Svc, SrcAddrType = T4Ip,
     DstIA = 0x1FF0000000110, SrcIA = 0x1FF0000000111, RawDstAddr = [0, 2, 0, 0], RawSrcAddr = [10, 0, 0, 1],
     SPath = Some EmptyPath, pathPool = True\<rparr>"

theorem scion_header_roundtrip_witness:
  "\<exists>s' b. SCION_SerializeTo (\<lambda>n. replicate n 0xFF) True sample_header [1, 2, 3] = (s', Ok b)
    \<and> length b = 39
    \<and> SCION_DecodeFromBytes registry_zero sample_header b
        = Ok (s'\<lparr>Contents := take 36 b, Payload := [1, 2, 3], pathPool := True\<rparr>)"
proof -
  have A: "AddrHdrLen sample_header = 24"
    by (simp add: sample_header_def AddrHdrLen_def AddrType_Length_def IABytes_def LineLen_def T4Svc_def T4Ip_def)
  have wf: "wf_scion sample_header" 
    by (simp add: sample_header_def wf_scion_def AddrType_Length_def LineLen_def T4Svc_def T4Ip_def)
  have "SPath sample_header = Some EmptyPath" "length (replicate n (0xFF :: u8)) = n"
      "CmnHdrLen + AddrHdrLen sample_header + Path_Len EmptyPath \<le> MaxHdrLen"
      "(CmnHdrLen + AddrHdrLen sample_header + Path_Len EmptyPath) mod LineLen = 0"
      "getPath registry_zero sample_header (SPathType sample_header) = Ok EmptyPath" for n
    by (simp_all add: A CmnHdrLen_def MaxHdrLen_def LineLen_def empty_PathLen_def)
      (simp_all add: sample_header_def getPath_def pathPool_paths_def)
  from scion_header_roundtrip [OF wf this, of "[1, 2, 3]"]
  obtain s' b where ser: "SCION_SerializeTo (\<lambda>n. replicate n 0xFF) True sample_header [1, 2, 3] = (s', Ok b)"
    and len: "int (length b) = CmnHdrLen + AddrHdrLen sample_header + Path_Len EmptyPath + int (length [1 :: u8, 2, 3])"
    and dec: "SCION_DecodeFromBytes registry_zero sample_header b = Ok (s'\<lparr>Contents := take (length b - length [1 :: u8, 2, 3]) b,
      Payload := [1, 2, 3], pathPool := pathPool sample_header\<rparr>)"
    by auto
  from len have "length b = 39" by (simp add: A CmnHdrLen_def empty_PathLen_def)
  with ser dec show ?thesis by (auto simp: sample_header_def)
qed

lemma DecodeAddrHdr_Ok:
  assumes "AddrHdrLen s \<le> int (length data)"
  shows "\<exists>d r. DecodeAddrHdr s data = Ok (s\<lparr>DstIA := be_u64 data, SrcIA := be_u64 (drop IABytes data),
      RawDstAddr := d, RawSrcAddr := r\<rparr>)
    \<and> int (length d) = AddrType_Length (DstAddrType s) \<and> int (length r) = AddrType_Length (SrcAddrType s)"
proof -
  define dst where "dst = nat (AddrType_Length (DstAddrType s))"
  define src where "src = nat (AddrType_Length (SrcAddrType s))"
  have l: "int dst = AddrType_Length (DstAddrType s)" "int src = AddrType_Length (SrcAddrType s)"
    using AddrType_Length_bounds [of "DstAddrType s"] AddrType_Length_bounds [of "SrcAddrType s"]
    by (simp_all add: dst_def src_def)
  have "int (16 + dst + src) \<le> int (length data)" using assms by (simp add: l AddrHdrLen_def IABytes_def)
  then have len: "16 + dst + src \<le> length data" by linarith
  then have "slice data 16 (16 + dst) = Ok (take dst (drop 16 data))"
      "slice data (16 + dst) (16 + dst + src) = Ok (take src (drop (16 + dst) data))"
    by (simp_all add: slice_def)
  then have "DecodeAddrHdr s data = Ok (s\<lparr>DstIA := be_u64 data, SrcIA := be_u64 (drop IABytes data),
      RawDstAddr := take dst (drop 16 data), RawSrcAddr := take src (drop (16 + dst) data)\<rparr>)"
    using assms unfolding DecodeAddrHdr_def Let_def dst_def [symmetric] src_def [symmetric]
    by (simp add: IABytes_def)
  moreover have "length (take dst (drop 16 data)) = dst" "length (take src (drop (16 + dst) data)) = src"
    using len by simp_all
  ultimately show ?thesis using l by metis
qed

lemma nibble_less: "(x::u8) AND 0xF < 16" "ucast (drop_bit 28 (l::u32)) < (16::u8)" "(l::u32) AND 0xFFFFF < 0x100000"
proof -
  show "x AND 0xF < 16"
    using take_bit_less_exp [of 4 x] by (simp add: and_0F word_less_def)
  have "uint (drop_bit 28 l) < 16"
    using uint_bounded [of l] by (simp add: drop_bit_eq_div uint_div)
  then show "ucast (drop_bit 28 l) < (16::u8)"
    by (simp add: word_less_def unsigned_ucast_eq take_bit_int_eq_self)
  have "uint (take_bit 20 l) < 2 ^ 20" by (simp only: unsigned_take_bit_eq take_bit_int_less_exp)
  then show "l AND 0xFFFFF < 0x100000"
    by (simp add: and_FFFFF word_less_def)
qed

lemma sliceI_prefix: "0 \<le> n \<Longrightarrow> n \<le> int (length data) \<Longrightarrow> sliceI data 0 n = Ok (take (nat n) data)"
  by (simp add: sliceI_def slice_def nat_le_iff)

lemma sliceI_range:
  "0 \<le> a \<Longrightarrow> a \<le> b \<Longrightarrow> b \<le> int (length data) \<Longrightarrow> \<exists>xs. sliceI data a b = Ok xs \<and> int (length xs) = b - a"
  by (auto simp: sliceI_def slice_def nat_le_iff)

lemma getPath_not_Panic [simp]: "getPath g s t \<noteq> Panic"
  by (auto simp: getPath_def NewPath_def split: option.splits)

lemma getPath_cong: "pathPool s = pathPool t \<Longrightarrow> getPath g s x = getPath g t x"
  by (simp add: getPath_def)

lemma SCION_DecodeFromBytes_safe:
  "SCION_DecodeFromBytes g s data \<noteq> Panic
   \<and> (case SCION_DecodeFromBytes g s data of
        Ok t \<Rightarrow> wf_scion t \<and> Contents t @ Payload t = data \<and> int (length (Contents t)) = 4 * uint (HdrLen t)
          \<and> (\<exists>p q. SPath t = Some p \<and> getPath g s (SPathType t) = Ok q \<and> same_kind q p)
      | _ \<Rightarrow> True)"
proof (cases "int (length data) < CmnHdrLen")
  case True
  then show ?thesis by (simp add: SCION_DecodeFromBytes_def)
next
  case long: False
  define s1 where "s1 = s\<lparr>Version := ucast (drop_bit 28 (be_u32 data)),
    TrafficClass := ucast (drop_bit 20 (be_u32 data) AND 0xFF), FlowID := be_u32 data AND 0xFFFFF,
    NextHdr := data ! 4, HdrLen := data ! 5, PayloadLen := be_u16 (drop 6 data), SPathType := data ! 8,
    DstAddrType := drop_bit 4 (data ! 9) AND 0xF, SrcAddrType := data ! 9 AND 0xF\<rparr>"
  show ?thesis
  proof (cases "AddrHdrLen s1 \<le> int (length (drop (nat CmnHdrLen) data))")
    case False
    then have "DecodeAddrHdr s1 (drop (nat CmnHdrLen) data) = Fail (Err ''provided buffer is too small'')"
      by (simp add: DecodeAddrHdr_def)
    then show ?thesis using long
      by (simp add: SCION_DecodeFromBytes_def Let_def flip: s1_def)
  next
    case True
    then obtain d r where dec: "DecodeAddrHdr s1 (drop (nat CmnHdrLen) data)
        = Ok (s1\<lparr>DstIA := be_u64 (drop (nat CmnHdrLen) data),
            SrcIA := be_u64 (drop IABytes (drop (nat CmnHdrLen) data)), RawDstAddr := d, RawSrcAddr := r\<rparr>)"
        and lens: "int (length d) = AddrType_Length (DstAddrType s1)" "int (length r) = AddrType_Length (SrcAddrType s1)"
      using DecodeAddrHdr_Ok by blast
    define s2 where "s2 = s1\<lparr>DstIA := be_u64 (drop (nat CmnHdrLen) data),
      SrcIA := be_u64 (drop IABytes (drop (nat CmnHdrLen) data)), RawDstAddr := d, RawSrcAddr := r\<rparr>"
    define pl where "pl = uint (HdrLen s2) * LineLen - CmnHdrLen - AddrHdrLen s2"
    have s2: "wf_scion (s2\<lparr>SPath := Some p, Contents := c, Payload := y\<rparr>) \<longleftrightarrow> valid_path p" for p c y
      using lens by (simp add: wf_scion_def s2_def s1_def nibble_less)
    have eq: "SCION_DecodeFromBytes g s data
      = (if pl < 0 then Fail (Err ''invalid header, negative pathLen'')
         else if int (length data) < CmnHdrLen + AddrHdrLen s2 + pl then Fail (Err ''provided buffer is too small'')
         else bindR (getPath g s (SPathType s2)) (\<lambda>p.
           bindR (sliceI data (CmnHdrLen + AddrHdrLen s2) (CmnHdrLen + AddrHdrLen s2 + pl)) (\<lambda>pb.
           bindR (Path_DecodeFromBytes p pb) (\<lambda>path.
           bindR (sliceI data 0 (uint (HdrLen s2) * LineLen)) (\<lambda>contents.
           Ok (s2\<lparr>SPath := Some path, Contents := contents,
                  Payload := drop (nat (uint (HdrLen s2) * LineLen)) data\<rparr>))))))"
      using long getPath_cong [of s s2] dec
      by (simp add: SCION_DecodeFromBytes_def Let_def pl_def s2_def flip: s1_def) (simp add: s1_def)
    show ?thesis
    proof (cases "pl < 0 \<or> int (length data) < CmnHdrLen + AddrHdrLen s2 + pl")
      case True
      then show ?thesis by (auto simp: eq)
    next
      case False
      have hb: "0 \<le> uint (HdrLen s2) * LineLen" "uint (HdrLen s2) * LineLen \<le> int (length data)"
        using False by (simp_all add: pl_def LineLen_def)
      obtain pb where pb: "sliceI data (CmnHdrLen + AddrHdrLen s2) (CmnHdrLen + AddrHdrLen s2 + pl) = Ok pb"
        using sliceI_range [of "CmnHdrLen + AddrHdrLen s2" "CmnHdrLen + AddrHdrLen s2 + pl" data] False
          AddrHdrLen_bounds [of s2] by (auto simp: CmnHdrLen_def)
      have "int (length (take (nat (uint (HdrLen s2) * 4)) data)) = 4 * uint (HdrLen s2)"
        using hb by (simp add: LineLen_def)
      then show ?thesis
        using False hb Path_dec_valid [of _ pb]
        by (auto simp: eq pb sliceI_prefix bindR_eq_Panic s2 LineLen_def split: result.splits
            simp: bindR_eq_Ok simp del: length_take)
    qed
  qed
qed

text \<open>Decoding a header never panics, whatever the bytes; a decoded header is well-formed, its path
  was decoded by the decoder registered (or pooled) for its type, and header and payload together
  are the input.\<close>

lemma scion_decode_safe:
  "SCION_DecodeFromBytes g s data \<noteq> Panic
   \<and> (case SCION_DecodeFromBytes g s data of
        Ok t \<Rightarrow> wf_scion t \<and> Contents t @ Payload t = data \<and> int (length (Contents t)) = 4 * uint (HdrLen t)
          \<and> (\<exists>p q. SPath t = Some p \<and> getPath g s (SPathType t) = Ok q \<and> same_kind q p)
      | _ \<Rightarrow> True)"
  by (rule SCION_DecodeFromBytes_safe)

section \<open>The checksum as a sum modulo 65535\<close>

fun nsum :: "bytes \<Rightarrow> nat" where
  "nsum [] = 0"
| "nsum [a] = unat a * 256"
| "nsum (a # b # bs) = unat a * 256 + unat b + nsum bs"

lemma unat_u8_less: "unat (a::u8) < 256"
  using unsigned_less [of a, where 'a = nat] by simp

lemma unat_u16_less: "unat (a::u16) < 65536"
  using unsigned_less [of a, where 'a = nat] by simp

lemma unat_u32_less: "unat (a::u32) < 4294967296"
  using unsigned_less [of a, where 'a = nat] by simp

lemma mod_add_nested: "(p + (q + x mod m)) mod m = (p + (q + x)) mod (m::nat)"
  by (metis add.assoc mod_add_right_eq)

lemma unat_byte: "unat (ucast (a::u8) :: u32) = unat a" "unat (push_bit 8 (ucast a) :: u32) = unat a * 256"
proof -
  have a: "unat a < 256" by (rule unat_u8_less)
  then show "unat (ucast a :: u32) = unat a" by (simp add: unsigned_ucast_eq take_bit_nat_eq_self)
  then show "unat (push_bit 8 (ucast a) :: u32) = unat a * 256"
    using a by (simp add: push_bit_eq_mult unat_word_ariths)
qed

lemma unat_add32: "unat (x + y :: u32) = (unat x + unat y) mod 4294967296"
  by (simp add: unat_word_ariths)

lemma unat_upperLayerChecksum:
  "unat (upperLayerChecksum bs c) = (unat c + nsum bs) mod 4294967296"
proof (induction bs c rule: upperLayerChecksum.induct)
  case (1 c)
  have "unat c < 4294967296" by (rule unat_u32_less)
  then show ?case by simp
next
  case (2 a c)
  then show ?case by (simp add: unat_add32 unat_byte)
next
  case (3 a b bs c)
  then show ?case by (simp add: unat_add32 unat_byte mod_simps) (simp add: ac_simps)
qed

lemma nsum_bound: "nsum bs \<le> 65535 * ((length bs + 1) div 2)"
proof (induction bs rule: nsum.induct)
  case (2 a)
  then show ?case using unat_u8_less [of a] by simp
next
  case (3 a b bs)
  then show ?case using unat_u8_less [of a] unat_u8_less [of b] by simp
qed simp

lemma nsum_append: "even (length xs) \<Longrightarrow> nsum (xs @ ys) = nsum xs + nsum ys"
  by (induction xs rule: nsum.induct) auto

lemma nsum_put_u16: "nsum (put_u16 c @ ys) = unat c + nsum ys"
proof -
  have "unat (drop_bit 8 c) < 256" using unat_u16_less [of c] by (simp add: drop_bit_eq_div unat_div)
  then have "unat (ucast (drop_bit 8 c) :: u8) = unat c div 256"
    by (simp add: unsigned_ucast_eq take_bit_nat_eq_self) (simp add: drop_bit_eq_div unat_div)
  moreover have "unat (ucast c :: u8) = unat c mod 256"
    by (simp add: unsigned_ucast_eq take_bit_eq_mod)
  ultimately show ?thesis by (simp add: put_u16_def)
qed

lemma sum_pairs_even: "even (length bs) \<Longrightarrow> sum_pairs bs c = Ok (upperLayerChecksum bs c)"
  by (induction bs c rule: sum_pairs.induct) auto

lemma unat_sum_ias:
  "even (length a) \<Longrightarrow> length a = length b \<Longrightarrow>
     unat (sum_ias a b c) = (unat c + nsum a + nsum b) mod 4294967296"
proof (induction a b c rule: sum_ias.induct)
  case (1 a b as c d cs csum)
  then show ?case by (simp add: unat_add32 unat_byte mod_simps) (simp add: ac_simps mod_add_nested)
qed (auto simp: mod_less [OF unat_u32_less])

text \<open>Folding keeps the sum modulo 65535 and gives zero only for a zero sum.\<close>

lemma fold_loop_spec:
  "unat (fold_loop c) \<le> 65535 \<and> unat (fold_loop c) mod 65535 = unat c mod 65535
   \<and> (fold_loop c = 0 \<longleftrightarrow> c = 0)"
proof (induction c rule: fold_loop.induct)
  case (1 c)
  let ?d = "drop_bit 16 c + (c AND 0xFFFF)"
  have d: "unat ?d = unat c div 65536 + unat c mod 65536" by (rule fold_step_nat)
  have cong: "unat ?d mod 65535 = unat c mod 65535"
  proof -
    have "unat c = 65535 * (unat c div 65536) + unat ?d"
      unfolding d using div_mult_mod_eq [of "unat c" 65536] by linarith
    then show ?thesis by (metis mod_mult_self4)
  qed
  show ?case
  proof (cases "c > 0xFFFF")
    case True
    then have "65536 \<le> unat c" by (simp add: word_less_nat_alt)
    then have "unat ?d \<noteq> 0" unfolding d by (simp add: div_eq_0_iff)
    then have "?d \<noteq> 0" "c \<noteq> 0" using True by (auto simp: unat_eq_0)
    with 1 [OF True] cong True show ?thesis by (subst (1 2 3) fold_loop.simps) simp
  next
    case False
    then have "unat c \<le> 65535" by (simp add: word_less_nat_alt not_less word_le_nat_alt)
    with False show ?thesis by (subst (1 2 3) fold_loop.simps) simp
  qed
qed

lemma unat_foldChecksum: "unat (foldChecksum c) = 65535 - unat (fold_loop c)"
proof -
  have "unat (fold_loop c) \<le> 65535" using fold_loop_spec by blast
  then have u: "unat (ucast (fold_loop c) :: u16) = unat (fold_loop c)"
    by (simp add: unsigned_ucast_eq take_bit_nat_eq_self)
  have "unat (NOT x) = 65535 - unat x" for x :: u16
  proof -
    have "uint (NOT x) = take_bit 16 (NOT (uint x))" by (simp add: unsigned_not_eq)
    also have "\<dots> = 65535 - uint x"
    proof -
      have lt: "uint x < 65536" using uint_bounded [of x] by simp
      have "(- uint x - 1) mod 65536 = (- uint x - 1 + 65536) mod 65536" by (simp only: mod_add_self2)
      also have "(- uint x - 1 + 65536) mod 65536 = 65535 - uint x"
        using lt uint_ge_0 [of x] by (subst mod_pos_pos_trivial) linarith+
      finally show ?thesis by (simp add: take_bit_eq_mod not_int_def)
    qed
    finally have "int (unat (NOT x)) = 65535 - int (unat x)" by (simp only: of_nat_unat)
    then show ?thesis by linarith
  qed
  with u show ?thesis by (simp add: foldChecksum_def)
qed


lemma pseudoHeaderChecksum_wf:
  assumes "wf_scion s"
  shows "\<exists>c. (\<forall>n. pseudoHeaderChecksum s n proto = Ok (c n)) \<and> (\<forall>n\<le>65535. unat (c n) \<le> 2000000)"
proof -
  define c1 where "c1 = sum_ias (put_u64 (SrcIA s)) (put_u64 (DstIA s)) 0"
  define c3 where "c3 = upperLayerChecksum (RawDstAddr s) (upperLayerChecksum (RawSrcAddr s) c1)"
  have l: "length (RawDstAddr s) \<in> {4, 8, 12, 16}" "length (RawSrcAddr s) \<in> {4, 8, 12, 16}"
    using wf_addr_lens [OF assms] AddrType_Length_cases [of "DstAddrType s"]
      AddrType_Length_cases [of "SrcAddrType s"] by auto
  then have ne: "RawDstAddr s \<noteq> []" "RawSrcAddr s \<noteq> []" "even (length (RawDstAddr s))" "even (length (RawSrcAddr s))"
    by auto
  have b: "nsum (RawDstAddr s) \<le> 65535 * 8" "nsum (RawSrcAddr s) \<le> 65535 * 8"
    using nsum_bound [of "RawDstAddr s"] nsum_bound [of "RawSrcAddr s"] l by auto
  have i: "nsum (put_u64 x) \<le> 65535 * 4" for x using nsum_bound [of "put_u64 x"] by simp
  have "unat c1 \<le> 65535 * 8"
    using i [of "SrcIA s"] i [of "DstIA s"] by (simp add: c1_def unat_sum_ias)
  then have c3: "unat c3 \<le> 65535 * 24"
    using b by (simp add: c3_def unat_upperLayerChecksum)
  define c where "c n = c3 + (drop_bit 16 (of_nat n) + (of_nat n AND 0xFFFF)) + ucast proto" for n
  have "pseudoHeaderChecksum s n proto = Ok (c n)" for n
    using ne by (simp add: pseudoHeaderChecksum_def sum_pairs_even c_def c3_def c1_def Let_def)
  moreover have "unat (c n) \<le> 2000000" if "n \<le> 65535" for n
  proof -
    have "unat (of_nat n :: u32) = n" using that by (simp add: unsigned_of_nat take_bit_nat_eq_self)
    then have "unat (drop_bit 16 (of_nat n) + (of_nat n AND 0xFFFF) :: u32) \<le> 65535"
      using that by (simp add: fold_step_nat)
    then show ?thesis
      using c3 unat_u8_less [of proto] by (simp add: c_def unat_add32 unat_byte)
  qed
  ultimately show ?thesis by blast
qed

lemma computeChecksum_verifies:
  assumes "wf_scion s" and "even (length pre)" and "length (pre @ [0, 0] @ post) \<le> 65535"
  shows "\<exists>c. computeChecksum (Some s) (pre @ [0, 0] @ post) proto = Ok c
    \<and> computeChecksum (Some s) (pre @ put_u16 c @ post) proto = Ok 0"
proof -
  let ?n = "length (pre @ [0, 0] @ post)"
  obtain h where h: "pseudoHeaderChecksum s ?n proto = Ok h" "unat h \<le> 2000000"
    using pseudoHeaderChecksum_wf [OF assms(1), of proto] assms(3) by blast
  define N where "N = nsum pre + nsum post"
  have z: "nsum (pre @ [0, 0] @ post) = N" using assms(2) by (simp add: nsum_append N_def)
  have "N \<le> 65535 * 32768" using nsum_bound [of "pre @ [0, 0] @ post"] assms(3) z by simp
  define x where "x = upperLayerChecksum (pre @ [0, 0] @ post) h"
  define c where "c = foldChecksum x"
  have x: "unat x = unat h + N"
    unfolding x_def unat_upperLayerChecksum z using h(2) \<open>N \<le> 65535 * 32768\<close> by simp
  define y where "y = upperLayerChecksum (pre @ put_u16 c @ post) h"
  have c: "unat c = 65535 - unat (fold_loop x)" by (simp add: c_def unat_foldChecksum)
  have "nsum (pre @ put_u16 c @ post) = N + unat c"
    using assms(2) by (simp add: nsum_append nsum_put_u16 N_def)
  then have y: "unat y = unat x + unat c"
    unfolding y_def unat_upperLayerChecksum x using h(2) \<open>N \<le> 65535 * 32768\<close> unat_u16_less [of c] by simp
  have f: "unat (fold_loop x) \<le> 65535" "unat (fold_loop x) mod 65535 = unat x mod 65535"
      "fold_loop x = 0 \<longleftrightarrow> x = 0"
    using fold_loop_spec by blast+
  have "unat y mod 65535 = (unat (fold_loop x) + unat c) mod 65535"
    unfolding y using f(2) by (metis mod_add_left_eq)
  then have "unat y mod 65535 = 0" using f(1) c by simp
  moreover have "y \<noteq> 0"
  proof
    assume "y = 0"
    then have "unat x = 0" "unat c = 0" using y by simp_all
    then show False using c f(3) by (simp add: unat_eq_0)
  qed
  ultimately have "unat (fold_loop y) = 65535"
    using fold_loop_spec [of y] by (metis dvd_imp_le le_antisym mod_0_imp_dvd neq0_conv unat_eq_0)
  then have "foldChecksum y = 0" using unat_foldChecksum [of y] by (simp add: unat_eq_0)
  then show ?thesis
    using h(1) by (auto simp: computeChecksum_def c_def x_def y_def)
qed

text \<open>For a well-formed header and an upper layer of at most 65535 bytes the checksum is always
  computed, and it verifies: computed over the upper layer with zeros at an even offset and stored
  there, it makes the checksum of the upper layer zero. The 32-bit sum cannot wrap.\<close>

lemma checksum_verifies:
  assumes "wf_scion s" and "even (length pre)" and "length (pre @ [0, 0] @ post) \<le> 65535"
  shows "\<exists>c. computeChecksum (Some s) (pre @ [0, 0] @ post) proto = Ok c
    \<and> computeChecksum (Some s) (pre @ put_u16 c @ post) proto = Ok 0"
  using assms by (rule computeChecksum_verifies)

lemma checksum_verifies_witness:
  "\<exists>c. computeChecksum (Some sample_header) ([0x12, 0x34] @ [0, 0] @ [0x56]) 17 = Ok c
    \<and> computeChecksum (Some sample_header) ([0x12, 0x34] @ put_u16 c @ [0x56]) 17 = Ok 0"
proof -
  have "wf_scion sample_header"
    by (simp add: sample_header_def wf_scion_def AddrType_Length_def LineLen_def T4Svc_def T4Ip_def)
  from checksum_verifies [OF this, of "[0x12, 0x34]" "[0x56]" 17] show ?thesis by simp
qed

section \<open>Host addresses\<close>

text \<open>An IP address as \<^verbatim>\<open>netip\<close> constructs it has four or sixteen bytes.\<close>

fun wf_ip :: "netip_Addr \<Rightarrow> bool" where
  "wf_ip IPInvalid = True"
| "wf_ip (IPv4 b) = (length b = 4)"
| "wf_ip (IPv6 b z) = (length b = 16)"

fun canonical_host :: "Host \<Rightarrow> Host" where
  "canonical_host (HostIP ip) =
    (case netip_Unmap ip of IPv6 b z \<Rightarrow> HostIP (IPv6 b []) | ip' \<Rightarrow> HostIP ip')"
| "canonical_host h = h"

lemma PackAddr_spec:
  assumes "\<And>ip. h = HostIP ip \<Longrightarrow> wf_ip ip"
  shows "case PackAddr h of
      Ok (t, raw) \<Rightarrow> ParseAddr t raw = Ok (canonical_host h) \<and> int (length raw) = AddrType_Length t
    | Fail e \<Rightarrow> h = HostNone \<or> h = HostIP IPInvalid
    | Panic \<Rightarrow> False"
proof (cases h)
  case (HostIP ip)
  then have "wf_ip ip" by (rule assms)
  then show ?thesis
    by (cases ip)
      (auto simp: HostIP ParseAddr_def T4Ip_def T16Ip_def T4Svc_def AddrType_Length_def LineLen_def
        to_array_def netip_AddrFrom4_def netip_AddrFrom16_def Let_def)
next
  case (HostSVC svc)
  then show ?thesis
    using be_u16_put [of svc "[]"]
    by (simp add: ParseAddr_def T4Ip_def T16Ip_def T4Svc_def AddrType_Length_def LineLen_def slice_def)
qed simp

text \<open>a host address that can be packed into a header parses back to the host: the same service, or
  the same IP address with an IPv4-mapped IPv6 address replaced by the IPv4 address and without the
  zone; the packed bytes have the length of their address type, and only the invalid IP address and
  the empty host cannot be packed.\<close>

lemma host_addr_roundtrip:
  assumes "\<And>ip. h = HostIP ip \<Longrightarrow> wf_ip ip"
  shows "case PackAddr h of
      Ok (t, raw) \<Rightarrow> ParseAddr t raw = Ok (canonical_host h) \<and> int (length raw) = AddrType_Length t
    | Fail e \<Rightarrow> h = HostNone \<or> h = HostIP IPInvalid
    | Panic \<Rightarrow> False"
  using assms by (rule PackAddr_spec)

lemma host_addr_roundtrip_witness:
  "PackAddr (HostIP (IPv6 (mapped_prefix @ [10, 0, 0, 1]) ''eth0'')) = Ok (T4Ip, [10, 0, 0, 1])
   \<and> ParseAddr T4Ip [10, 0, 0, 1] = Ok (HostIP (IPv4 [10, 0, 0, 1]))"
proof -
  have p: "PackAddr (HostIP (IPv6 (mapped_prefix @ [10, 0, 0, 1]) ''eth0'')) = Ok (T4Ip, [10, 0, 0, 1])"
    by (simp add: mapped_prefix_def numeral_eq_Suc)
  have "wf_ip ip" if "HostIP (IPv6 (mapped_prefix @ [10, 0, 0, 1]) ''eth0'') = HostIP ip" for ip
    using that by (auto simp: mapped_prefix_def)
  from host_addr_roundtrip [of "HostIP (IPv6 (mapped_prefix @ [10, 0, 0, 1]) ''eth0'')", OF this] p show ?thesis
    by (simp add: mapped_prefix_def numeral_eq_Suc)
qed

end
