(* ===== verification/Extn.thy ===== *)
theory Extn
  imports Header
begin

text \<open>
  Extension headers with TLV options and the SCION/UDP header (\<^verbatim>\<open>pkg/slayers/extn.go\<close>,
  \<^verbatim>\<open>pkg/slayers/udp.go\<close>): decoding, alignment and padding of options, serialization.
\<close>

unbundle bit_operations_syntax

section \<open>TLV options\<close>

type_synonym OptionType = u8

definition OptTypePad1 :: OptionType where "OptTypePad1 = 0"
definition OptTypePadN :: OptionType where "OptTypePadN = 1"
definition OptTypeAuthenticator :: OptionType where "OptTypeAuthenticator = 2"
definition OptTypeIdentifier :: OptionType where "OptTypeIdentifier = 3"
definition OptTypeFabrid :: OptionType where "OptTypeFabrid = 4"

record tlvOption =
  OptType :: OptionType
  OptDataLen :: u8
  ActualLength :: nat
  OptData :: bytes
  OptAlign :: "u8 \<times> u8"

definition tlvOption_length :: "tlvOption \<Rightarrow> bool \<Rightarrow> nat" where
  "tlvOption_length opt fixLengths =
    (if OptType opt = OptTypePad1 then 1
     else if fixLengths then length (OptData opt) + 2
     else unat (OptDataLen opt) + 2)"

text \<open>\<open>copy(data[off:], xs)\<close>: as much as fits.\<close>

definition copy_fit :: "nat \<Rightarrow> bytes \<Rightarrow> bytes \<Rightarrow> bytes" where
  "copy_fit off xs b = copy_at off (take (length b - off) xs) b"

text \<open>
  Serializing returns the option, whose length field may have been set, and the buffer; \<open>None\<close> is
  the nil buffer of a dry run.
\<close>

definition tlvOption_serializeTo ::
  "tlvOption \<Rightarrow> bytes option \<Rightarrow> bool \<Rightarrow> (tlvOption \<times> bytes option) result" where
  "tlvOption_serializeTo opt data fixLengths =
    (if OptType opt = OptTypePad1
     then (case data of None \<Rightarrow> Ok (opt, None)
           | Some d \<Rightarrow> if d = [] then Panic else Ok (opt, Some (d[0 := 0])))
     else
       let opt = (if fixLengths then opt\<lparr>OptDataLen := of_nat (length (OptData opt))\<rparr> else opt) in
       case data of None \<Rightarrow> Ok (opt, None)
       | Some d \<Rightarrow>
           if length d < 2 then Panic
           else Ok (opt, Some (copy_fit 2 (OptData opt) (d[0 := OptType opt, 1 := OptDataLen opt]))))"

definition decodeTLVOption :: "bytes \<Rightarrow> tlvOption result" where
  "decodeTLVOption data =
    (if data = [] then Panic
     else if data ! 0 = OptTypePad1
     then Ok \<lparr>OptType = data ! 0, OptDataLen = 0, ActualLength = 1, OptData = [], OptAlign = (0, 0)\<rparr>
     else if length data < 2 then Fail (Err ''buffer too short'')
     else let actual = unat (data ! 1) + 2 in
       if length data < actual then Fail (Err ''buffer too short'')
       else bindR (slice data 2 actual) (\<lambda>optData.
         Ok \<lparr>OptType = data ! 0, OptDataLen = data ! 1, ActualLength = actual, OptData = optData,
             OptAlign = (0, 0)\<rparr>))"

text \<open>\<open>buf\<close> is the rest of the buffer where the padding goes.\<close>

definition serializeTLVOptionPadding :: "bytes \<Rightarrow> nat \<Rightarrow> bytes result" where
  "serializeTLVOptionPadding data padLength =
    (if padLength = 0 then Ok data
     else if padLength = 1 then (if data = [] then Panic else Ok (data[0 := 0]))
     else let dataLen = of_nat padLength - 2 :: u8 in
       bindR (tlvOption_serializeTo \<lparr>OptType = OptTypePadN, OptDataLen = dataLen, ActualLength = 0,
                OptData = replicate (unat dataLen) 0, OptAlign = (0, 0)\<rparr> (Some data) False) (\<lambda>(_, d).
       case d of Some d \<Rightarrow> Ok d | None \<Rightarrow> Ok data))"

text \<open>Writing into \<open>buf[length-2:]\<close>; slicing beyond the buffer panics.\<close>

definition write_from :: "nat \<Rightarrow> (bytes \<Rightarrow> bytes result) \<Rightarrow> bytes option \<Rightarrow> bytes option result" where
  "write_from pos f buf =
    (case buf of None \<Rightarrow> Ok None
     | Some b \<Rightarrow> bindR (slice b pos (length b)) (\<lambda>d. bindR (f d) (\<lambda>d. Ok (Some (copy_at pos d b)))))"

text \<open>The padding in front of an option with alignment \<open>x*n+y\<close>.\<close>

definition align_pad :: "tlvOption \<Rightarrow> nat \<Rightarrow> nat" where
  "align_pad opt len =
    (let x = unat (fst (OptAlign opt)); y = unat (snd (OptAlign opt)) in
     if x = 0 then 0
     else let offset = x * (len div x) + y;
              offset = (if offset < len then offset + x else offset)
          in offset - len)"

fun serializeTLVOptions_loop ::
  "bool \<Rightarrow> tlvOption list \<Rightarrow> nat \<Rightarrow> bytes option \<Rightarrow> (tlvOption list \<times> nat \<times> bytes option) result" where
  "serializeTLVOptions_loop fixLengths [] len buf = Ok ([], len, buf)"
| "serializeTLVOptions_loop fixLengths (opt # opts) len buf =
    (let pad = (if fixLengths then align_pad opt len else 0) in
     bindR (if pad = 0 then Ok buf else write_from (len - 2) (\<lambda>d. serializeTLVOptionPadding d pad) buf) (\<lambda>buf.
     let len = len + pad in
     bindR (case buf of
              None \<Rightarrow> tlvOption_serializeTo opt None fixLengths
            | Some b \<Rightarrow> bindR (slice b (len - 2) (length b)) (\<lambda>d.
                bindR (tlvOption_serializeTo opt (Some d) fixLengths) (\<lambda>(opt, d).
                case d of None \<Rightarrow> Ok (opt, Some b) | Some d \<Rightarrow> Ok (opt, Some (copy_at (len - 2) d b))))) (\<lambda>(opt, buf).
     bindR (serializeTLVOptions_loop fixLengths opts (len + tlvOption_length opt fixLengths) buf)
       (\<lambda>(opts, len, buf). Ok (opt # opts, len, buf)))))"

definition end_pad :: "nat \<Rightarrow> nat" where
  "end_pad len = (let p = len mod 4 in if p \<noteq> 0 then 4 - p else 0)"

definition serializeTLVOptions ::
  "bytes option \<Rightarrow> tlvOption list \<Rightarrow> bool \<Rightarrow> (tlvOption list \<times> nat \<times> bytes option) result" where
  "serializeTLVOptions buf options fixLengths =
     bindR (serializeTLVOptions_loop fixLengths options 2 buf) (\<lambda>(options, len, buf).
     let pad = (if fixLengths then end_pad len else 0) in
     bindR (if pad = 0 then Ok buf else write_from (len - 2) (\<lambda>d. serializeTLVOptionPadding d pad) buf) (\<lambda>buf.
     Ok (options, len + pad - 2, buf)))"

section \<open>Extension headers\<close>

record extnBase = BaseLayer +
  ExtNextHdr :: L4ProtocolType
  ExtLen :: u8
  ActualLen :: nat

text \<open>
  \<open>fresh n\<close> is the content of the \<open>n\<close> bytes that gopacket's \<^verbatim>\<open>PrependBytes\<close> puts in front of the
  payload. The result is the extension with its payload.
\<close>

definition serializeToWithTLVOptions ::
  "(nat \<Rightarrow> bytes) \<Rightarrow> bool \<Rightarrow> 'a extnBase_scheme \<Rightarrow> tlvOption list \<Rightarrow> bytes
     \<Rightarrow> ('a extnBase_scheme \<times> tlvOption list \<times> bytes) result" where
  "serializeToWithTLVOptions fresh fixLengths e options payload =
     bindR (serializeTLVOptions None options fixLengths) (\<lambda>(options, l, _).
     bindR (serializeTLVOptions (Some (fresh l)) options fixLengths) (\<lambda>(options, _, bytes).
     let bytes = (case bytes of Some b \<Rightarrow> b | None \<Rightarrow> []);
         len = length bytes + 2 in
     if len mod 4 \<noteq> 0 then Fail (Err ''SCION extension actual length must be multiple of 4'')
     else let e = (if fixLengths then e\<lparr>ExtLen := of_nat (len div 4) - 1\<rparr> else e) in
       Ok (e, options, [ExtNextHdr e, ExtLen e] @ bytes @ payload)))"

definition decodeExtnBase :: "bytes \<Rightarrow> extnBase result" where
  "decodeExtnBase data =
    (if length data < 2 then Fail (Err ''invalid extension header. Length less than 2'')
     else let actual = (unat (data ! 1) + 1) * 4 in
       if length data < actual
       then Fail (Err ''invalid extension header. Length less than specified length'')
       else Ok \<lparr>Contents = take actual data, Payload = drop actual data,
                ExtNextHdr = data ! 0, ExtLen = data ! 1, ActualLen = actual\<rparr>)"

text \<open>The loop over the options; every option takes at least one byte.\<close>

function decodeTLVOptions :: "bytes \<Rightarrow> tlvOption list result" where
  "decodeTLVOptions data =
    (if data = [] then Ok []
     else case decodeTLVOption data of
       Ok opt \<Rightarrow> if ActualLength opt = 0 then Panic
                 else mapR (Cons opt) (decodeTLVOptions (drop (ActualLength opt) data))
     | Fail e \<Rightarrow> Fail e
     | Panic \<Rightarrow> Panic)"
  by pat_completeness auto
termination
  by (relation "measure length") auto

declare decodeTLVOptions.simps [simp del]

definition checkHopByHopExtnNextHdr :: "L4ProtocolType \<Rightarrow> unit result" where
  "checkHopByHopExtnNextHdr t =
    (if t = HopByHopClass then Fail (Err ''hbh extension must not be repeated'') else Ok ())"

definition checkEndToEndExtnNextHdr :: "L4ProtocolType \<Rightarrow> unit result" where
  "checkEndToEndExtnNextHdr t =
    (if t = HopByHopClass then Fail (Err ''e2e extension must not come before the HBH extension'')
     else if t = End2EndClass then Fail (Err ''e2e extension must not be repeated'') else Ok ())"

record HopByHopExtn = extnBase +
  HbhOptions :: "tlvOption list"

record EndToEndExtn = extnBase +
  E2eOptions :: "tlvOption list"

definition HopByHopExtn_DecodeFromBytes :: "bytes \<Rightarrow> HopByHopExtn result" where
  "HopByHopExtn_DecodeFromBytes data =
     bindR (decodeExtnBase data) (\<lambda>e.
     bindR (checkHopByHopExtnNextHdr (ExtNextHdr e)) (\<lambda>_.
     bindR (slice data 2 (ActualLen e)) (\<lambda>d.
     bindR (decodeTLVOptions d) (\<lambda>opts.
     Ok (extnBase.extend e \<lparr>HbhOptions = opts\<rparr>)))))"

definition HopByHopExtn_SerializeTo ::
  "(nat \<Rightarrow> bytes) \<Rightarrow> bool \<Rightarrow> HopByHopExtn \<Rightarrow> bytes \<Rightarrow> (HopByHopExtn \<times> bytes) result" where
  "HopByHopExtn_SerializeTo fresh fixLengths h payload =
     bindR (checkHopByHopExtnNextHdr (ExtNextHdr h)) (\<lambda>_.
     bindR (serializeToWithTLVOptions fresh fixLengths h (HbhOptions h) payload) (\<lambda>(h, opts, b).
     Ok (h\<lparr>HbhOptions := opts\<rparr>, b)))"

definition HopByHopExtn_NextLayerType :: "'a extnBase_scheme \<Rightarrow> LayerType" where
  "HopByHopExtn_NextLayerType h = scionNextLayerTypeAfterHBH (ExtNextHdr h)"

definition EndToEndExtn_DecodeFromBytes :: "bytes \<Rightarrow> EndToEndExtn result" where
  "EndToEndExtn_DecodeFromBytes data =
     bindR (decodeExtnBase data) (\<lambda>e.
     bindR (checkEndToEndExtnNextHdr (ExtNextHdr e)) (\<lambda>_.
     bindR (slice data 2 (ActualLen e)) (\<lambda>d.
     bindR (decodeTLVOptions d) (\<lambda>opts.
     Ok (extnBase.extend e \<lparr>E2eOptions = opts\<rparr>)))))"

definition EndToEndExtn_SerializeTo ::
  "(nat \<Rightarrow> bytes) \<Rightarrow> bool \<Rightarrow> EndToEndExtn \<Rightarrow> bytes \<Rightarrow> (EndToEndExtn \<times> bytes) result" where
  "EndToEndExtn_SerializeTo fresh fixLengths e payload =
     bindR (checkEndToEndExtnNextHdr (ExtNextHdr e)) (\<lambda>_.
     bindR (serializeToWithTLVOptions fresh fixLengths e (E2eOptions e) payload) (\<lambda>(e, opts, b).
     Ok (e\<lparr>E2eOptions := opts\<rparr>, b)))"

definition EndToEndExtn_NextLayerType :: "'a extnBase_scheme \<Rightarrow> LayerType" where
  "EndToEndExtn_NextLayerType e = scionNextLayerTypeAfterE2E (ExtNextHdr e)"

definition ErrOptionNotFound :: go_error where "ErrOptionNotFound = Err ''Option not found''"

definition FindOption :: "EndToEndExtn \<Rightarrow> OptionType \<Rightarrow> tlvOption result" where
  "FindOption e typ =
    (case find (\<lambda>opt. OptType opt = typ) (E2eOptions e) of
       Some opt \<Rightarrow> Ok opt | None \<Rightarrow> Fail ErrOptionNotFound)"

definition HopByHopExtnSkipper_DecodeFromBytes :: "bytes \<Rightarrow> extnBase result" where
  "HopByHopExtnSkipper_DecodeFromBytes data =
     bindR (decodeExtnBase data) (\<lambda>e.
     bindR (checkHopByHopExtnNextHdr (ExtNextHdr e)) (\<lambda>_. Ok e))"

definition EndToEndExtnSkipper_DecodeFromBytes :: "bytes \<Rightarrow> extnBase result" where
  "EndToEndExtnSkipper_DecodeFromBytes data =
     bindR (decodeExtnBase data) (\<lambda>e.
     bindR (checkEndToEndExtnNextHdr (ExtNextHdr e)) (\<lambda>_. Ok e))"

section \<open>SCION/UDP\<close>

record UDP = BaseLayer +
  SrcPort :: u16
  DstPort :: u16
  Length :: u16
  UDPChecksum :: u16
  UDPscn :: "SCION option"

definition UDP_DecodeFromBytes :: "UDP \<Rightarrow> bytes \<Rightarrow> UDP result" where
  "UDP_DecodeFromBytes u data =
    (if length data < 8 then Fail (Err ''Invalid UDP header. Length less than 8'')
     else
       let u = u\<lparr>SrcPort := be_u16 data, DstPort := be_u16 (drop 2 data), Length := be_u16 (drop 4 data),
                 UDPChecksum := be_u16 (drop 6 data), Contents := take 8 data, Payload := []\<rparr> in
       if Length u \<ge> 8
       then mapR (\<lambda>p. u\<lparr>Payload := p\<rparr>) (slice data 8 (min (unat (Length u)) (length data)))
       else if Length u = 0 then Ok (u\<lparr>Payload := drop 8 data\<rparr>)
       else Fail (Err ''UDP packet too small''))"

definition UDP_fixLengths :: "UDP \<Rightarrow> nat \<Rightarrow> UDP" where
  "UDP_fixLengths u len = (if len > 65535 then u\<lparr>Length := 0\<rparr> else u\<lparr>Length := of_nat len\<rparr>)"

definition UDP_SerializeTo :: "bool \<Rightarrow> bool \<Rightarrow> UDP \<Rightarrow> bytes \<Rightarrow> UDP \<times> bytes result" where
  "UDP_SerializeTo fixLengths computeChecksums u payload =
    (let u = (if fixLengths then UDP_fixLengths u (8 + length payload) else u);
         hdr = put_u16 (SrcPort u) @ put_u16 (DstPort u) @ put_u16 (Length u) in
     if computeChecksums
     then case UDPscn u of
            None \<Rightarrow> (u, Fail (Err ''can not calculate checksum without SCION header''))
          | Some scn \<Rightarrow>
              (case computeChecksum (Some scn) (hdr @ [0, 0] @ payload) L4UDP of
                 Ok c \<Rightarrow> (u\<lparr>UDPChecksum := c\<rparr>, Ok (hdr @ put_u16 c @ payload))
               | Fail e \<Rightarrow> (u\<lparr>UDPChecksum := 0\<rparr>, Fail e)
               | Panic \<Rightarrow> (u, Panic))
     else (u, Ok (hdr @ put_u16 (UDPChecksum u) @ payload)))"

section \<open>The layout of serialized options\<close>

definition enc_opt :: "tlvOption \<Rightarrow> bytes" where
  "enc_opt opt = (if OptType opt = OptTypePad1 then [0]
     else [OptType opt, of_nat (length (OptData opt))] @ OptData opt)"

definition enc_pad :: "nat \<Rightarrow> bytes" where
  "enc_pad n = (if n = 0 then [] else if n = 1 then [0] else [1, of_nat (n - 2)] @ replicate (n - 2) 0)"

fun layout :: "nat \<Rightarrow> tlvOption list \<Rightarrow> bytes" where
  "layout len [] = []"
| "layout len (opt # opts) =
     enc_pad (align_pad opt len) @ enc_opt opt @ layout (len + align_pad opt len + length (enc_opt opt)) opts"

definition fixed_opt :: "tlvOption \<Rightarrow> tlvOption" where
  "fixed_opt opt = (if OptType opt = OptTypePad1 then opt else opt\<lparr>OptDataLen := of_nat (length (OptData opt))\<rparr>)"

lemma length_enc_pad [simp]: "length (enc_pad n) = n"
  by (auto simp: enc_pad_def)

lemma length_enc_opt: "length (enc_opt opt) = tlvOption_length opt True"
  by (simp add: enc_opt_def tlvOption_length_def)

lemma align_pad_bound: "align_pad opt len \<le> 255"
proof -
  define x y where "x = unat (fst (OptAlign opt))" and "y = unat (snd (OptAlign opt))"
  define m where "m = x * (len div x)"
  have "x < 256" "y < 256" by (simp_all add: x_def y_def unat_u8_less)
  moreover have "len - m < x" if "0 < x"
    using that by (simp add: m_def minus_mult_div_eq_mod)
  moreover have "m \<le> len" by (simp add: m_def)
  moreover have "align_pad opt len = (if x = 0 then 0 else (if m + y < len then m + y + x else m + y) - len)"
    by (simp add: align_pad_def Let_def m_def x_def y_def)
  ultimately show ?thesis by auto
qed

lemma end_pad_bound: "end_pad len \<le> 3"
  by (auto simp: end_pad_def Let_def)

lemma end_pad_aligned: "(len + end_pad len) mod 4 = 0"
  unfolding end_pad_def Let_def by presburger

lemma tlvOption_serializeTo_fix:
  assumes "tlvOption_length opt True \<le> length d"
  shows "tlvOption_serializeTo opt (Some d) True = Ok (fixed_opt opt, Some (copy_at 0 (enc_opt opt) d))"
proof (cases "OptType opt = OptTypePad1")
  case True
  then have "d \<noteq> []" using assms by (auto simp: tlvOption_length_def)
  then obtain x xs where "d = x # xs" by (cases d) auto
  then show ?thesis using True
    by (simp add: tlvOption_serializeTo_def enc_opt_def copy_at_0 fixed_opt_def)
next
  case False
  then have "length (OptData opt) + 2 \<le> length d" using assms by (simp add: tlvOption_length_def)
  moreover from this obtain x y xs where "d = x # y # xs"
    by (cases d; cases "tl d") auto
  ultimately show ?thesis using False
    by (simp add: tlvOption_serializeTo_def enc_opt_def copy_at_def copy_fit_def fixed_opt_def)
qed

lemma serializeTLVOptionPadding_enc:
  assumes "n \<le> length d" and "n \<le> 255"
  shows "serializeTLVOptionPadding d n = Ok (copy_at 0 (enc_pad n) d)"
proof -
  consider "n = 0" | "n = 1" | m where "n = m + 2"
    by (metis One_nat_def Suc_pred add_2_eq_Suc' not_gr_zero)
  then show ?thesis
  proof cases
    case 1
    then show ?thesis by (simp add: serializeTLVOptionPadding_def enc_pad_def copy_at_def)
  next
    case 2
    then obtain x xs where "d = x # xs" using assms by (cases d) auto
    with 2 show ?thesis by (simp add: serializeTLVOptionPadding_def enc_pad_def copy_at_def)
  next
    case 3
    then have "unat (of_nat m :: u8) = m" using assms(2)
      by (simp add: unsigned_of_nat take_bit_nat_eq_self)
    moreover from 3 assms(1) obtain x y xs where "d = x # y # xs" by (cases d; cases "tl d") auto
    ultimately show ?thesis using 3 assms
      by (simp add: serializeTLVOptionPadding_def enc_pad_def tlvOption_serializeTo_def OptTypePad1_def
          OptTypePadN_def copy_fit_def copy_at_def Let_def)
  qed
qed

lemma write_from_enc:
  assumes "\<And>d. length d = length b - pos \<Longrightarrow> f d = Ok (copy_at 0 xs d)" and "pos + length xs \<le> length b"
  shows "write_from pos f (Some b) = Ok (Some (copy_at pos xs b))"
  using assms by (simp add: write_from_def slice_def copy_at_def ac_simps)

text \<open>A dry run computes the length and sets the length fields.\<close>

lemma loop_dryrun:
  "serializeTLVOptions_loop True opts len None
    = Ok (map fixed_opt opts, len + length (layout len opts), None)"
proof (induction opts arbitrary: len)
  case (Cons opt opts)
  have "tlvOption_serializeTo opt None True = Ok (fixed_opt opt, None)"
    by (simp add: tlvOption_serializeTo_def fixed_opt_def)
  moreover have "tlvOption_length (fixed_opt opt) True = length (enc_opt opt)"
    by (simp add: length_enc_opt fixed_opt_def tlvOption_length_def)
  ultimately show ?case
    by (simp add: Cons.IH write_from_def Let_def add.assoc)
qed simp

lemma loop_write:
  assumes "2 \<le> len" and "len - 2 + length (layout len opts) \<le> length b"
  shows "serializeTLVOptions_loop True opts len (Some b)
    = Ok (map fixed_opt opts, len + length (layout len opts), Some (copy_at (len - 2) (layout len opts) b))"
  using assms
proof (induction opts arbitrary: len b)
  case Nil
  then show ?case by (simp add: copy_at_def)
next
  case (Cons opt opts)
  define pad where "pad = align_pad opt len"
  define l2 where "l2 = len + pad"
  define l3 where "l3 = l2 + length (enc_opt opt)"
  have fits: "len - 2 + pad + length (enc_opt opt) + length (layout l3 opts) \<le> length b"
    using Cons.prems by (simp add: pad_def l2_def l3_def)
  define b1 where "b1 = copy_at (len - 2) (enc_pad pad) b"
  have lb1: "length b1 = length b" using fits by (simp add: b1_def)
  have w1: "(if pad = 0 then Ok (Some b) else write_from (len - 2) (\<lambda>d. serializeTLVOptionPadding d pad) (Some b))
      = Ok (Some b1)"
  proof (cases "pad = 0")
    case True
    then show ?thesis by (simp add: b1_def enc_pad_def copy_at_def)
  next
    case False
    have "pad \<le> 255" by (simp add: pad_def align_pad_bound)
    then have "write_from (len - 2) (\<lambda>d. serializeTLVOptionPadding d pad) (Some b) = Ok (Some b1)"
      unfolding b1_def using fits by (intro write_from_enc serializeTLVOptionPadding_enc) simp_all
    with False show ?thesis by simp
  qed
  have pos: "l2 - 2 = len - 2 + pad" using Cons.prems by (simp add: l2_def)
  define b2 where "b2 = copy_at (l2 - 2) (enc_opt opt) b1"
  have w2: "bindR (slice b1 (l2 - 2) (length b1)) (\<lambda>d. bindR (tlvOption_serializeTo opt (Some d) True)
        (\<lambda>(opt, d). case d of None \<Rightarrow> Ok (opt, Some b1) | Some d \<Rightarrow> Ok (opt, Some (copy_at (l2 - 2) d b1))))
      = Ok (fixed_opt opt, Some b2)"
    using fits lb1 by (simp add: slice_def tlvOption_serializeTo_fix pos flip: length_enc_opt)
      (simp add: b2_def copy_at_def pos ac_simps)
  have len3: "tlvOption_length (fixed_opt opt) True = length (enc_opt opt)"
    by (simp add: length_enc_opt fixed_opt_def tlvOption_length_def)
  have lb2: "length b2 = length b" using fits lb1 pos by (simp add: b2_def)
  have IH: "serializeTLVOptions_loop True opts l3 (Some b2)
      = Ok (map fixed_opt opts, l3 + length (layout l3 opts), Some (copy_at (l3 - 2) (layout l3 opts) b2))"
    using Cons.prems fits lb2 by (intro Cons.IH) (simp_all add: l3_def l2_def)
  have "copy_at (l3 - 2) (layout l3 opts) b2 = copy_at (len - 2) (layout len (opt # opts)) b"
  proof -
    have "b2 = copy_at (len - 2) (enc_pad pad @ enc_opt opt) b"
      unfolding b2_def b1_def pos using fits copy_at_append [of "len - 2" "enc_pad pad" "enc_opt opt" b] by simp
    moreover have "l3 - 2 = len - 2 + length (enc_pad pad @ enc_opt opt)"
      using Cons.prems by (simp add: l3_def l2_def)
    ultimately show ?thesis
      using fits copy_at_append [of "len - 2" "enc_pad pad @ enc_opt opt" "layout l3 opts" b]
      by (simp add: pad_def l2_def l3_def)
  qed
  then show ?case
    using w1 w2 IH by (simp add: len3 Let_def flip: pad_def l2_def) (simp add: l3_def l2_def pad_def add.assoc)
qed

definition full_layout :: "tlvOption list \<Rightarrow> bytes" where
  "full_layout opts = layout 2 opts @ enc_pad (end_pad (2 + length (layout 2 opts)))"

lemma serializeTLVOptions_dryrun:
  "serializeTLVOptions None opts True = Ok (map fixed_opt opts, length (full_layout opts), None)"
  by (simp add: serializeTLVOptions_def loop_dryrun write_from_def Let_def full_layout_def)

lemma serializeTLVOptions_write:
  assumes "length b = length (full_layout opts)"
  shows "serializeTLVOptions (Some b) opts True = Ok (map fixed_opt opts, length (full_layout opts), Some (full_layout opts))"
proof -
  let ?l = "layout 2 opts" and ?p = "end_pad (2 + length (layout 2 opts))"
  have len: "length b = length ?l + ?p" using assms by (simp add: full_layout_def)
  then have loop: "serializeTLVOptions_loop True opts 2 (Some b)
      = Ok (map fixed_opt opts, 2 + length ?l, Some (copy_at 0 ?l b))"
    using loop_write [of 2 opts b] by simp
  have "(if ?p = 0 then Ok (Some (copy_at 0 ?l b))
        else write_from (2 + length ?l - 2) (\<lambda>d. serializeTLVOptionPadding d ?p) (Some (copy_at 0 ?l b)))
      = Ok (Some (full_layout opts))"
  proof (cases "?p = 0")
    case True
    with len show ?thesis by (simp add: full_layout_def copy_at_0 enc_pad_def)
  next
    case False
    have "write_from (2 + length ?l - 2) (\<lambda>d. serializeTLVOptionPadding d ?p) (Some (copy_at 0 ?l b))
        = Ok (Some (copy_at (2 + length ?l - 2) (enc_pad ?p) (copy_at 0 ?l b)))"
      using len end_pad_bound [of "2 + length ?l"]
      by (intro write_from_enc serializeTLVOptionPadding_enc) simp_all
    moreover have "copy_at (length ?l) (enc_pad ?p) (copy_at 0 ?l b) = full_layout opts"
      using len copy_at_append [of 0 ?l "enc_pad ?p" b] by (simp add: full_layout_def copy_at_0)
    ultimately show ?thesis using False by simp
  qed
  then show ?thesis
    unfolding serializeTLVOptions_def loop bindR.simps prod.case Let_def if_True
    by (simp only: bindR.simps) (simp add: full_layout_def)
qed

lemma full_layout_aligned: "(length (full_layout opts) + 2) mod 4 = 0"
  using end_pad_aligned [of "2 + length (layout 2 opts)"] by (simp add: full_layout_def ac_simps)

lemma enc_opt_fixed [simp]: "enc_opt (fixed_opt opt) = enc_opt opt"
  by (simp add: enc_opt_def fixed_opt_def)

lemma layout_fixed [simp]: "layout len (map fixed_opt opts) = layout len opts"
proof -
  have "align_pad (fixed_opt opt) len = align_pad opt len" for opt len
    by (simp add: align_pad_def fixed_opt_def Let_def)
  then show ?thesis by (induction opts arbitrary: len) simp_all
qed

lemma fixed_opt_idem [simp]: "fixed_opt (fixed_opt opt) = fixed_opt opt"
  by (simp add: fixed_opt_def)

definition fixed_extlen :: "tlvOption list \<Rightarrow> u8" where
  "fixed_extlen opts = of_nat ((length (full_layout opts) + 2) div 4) - 1"

lemma serializeToWithTLVOptions_fix:
  assumes "\<And>n. length (fresh n) = n"
  shows "serializeToWithTLVOptions fresh True e opts pay
    = Ok (e\<lparr>ExtLen := fixed_extlen opts\<rparr>, map fixed_opt opts,
          [ExtNextHdr e, fixed_extlen opts] @ full_layout opts @ pay)"
proof -
  have "full_layout (map fixed_opt opts) = full_layout opts" by (simp add: full_layout_def)
  then have "serializeTLVOptions (Some (fresh (length (full_layout opts)))) (map fixed_opt opts) True
      = Ok (map fixed_opt opts, length (full_layout opts), Some (full_layout opts))"
    using serializeTLVOptions_write [of "fresh (length (full_layout opts))" "map fixed_opt opts"] assms
    by (simp add: comp_def)
  then show ?thesis
    using full_layout_aligned [of opts]
    by (simp add: serializeToWithTLVOptions_def serializeTLVOptions_dryrun fixed_extlen_def Let_def)
qed

section \<open>Decoding a layout\<close>

definition is_pad :: "tlvOption \<Rightarrow> bool" where
  "is_pad opt \<longleftrightarrow> OptType opt = OptTypePad1 \<or> OptType opt = OptTypePadN"

definition decoded_opt :: "tlvOption \<Rightarrow> tlvOption" where
  "decoded_opt opt = \<lparr>OptType = OptType opt, OptDataLen = of_nat (length (OptData opt)),
     ActualLength = length (OptData opt) + 2, OptData = OptData opt, OptAlign = (0, 0)\<rparr>"

lemma decode_enc_opt:
  assumes "OptType opt \<noteq> OptTypePad1" and "length (OptData opt) \<le> 255"
  shows "decodeTLVOptions (enc_opt opt @ rest) = mapR (Cons (decoded_opt opt)) (decodeTLVOptions rest)"
proof -
  have "unat (of_nat (length (OptData opt)) :: u8) = length (OptData opt)"
    using assms(2) by (simp add: unsigned_of_nat take_bit_nat_eq_self)
  then have "decodeTLVOption (enc_opt opt @ rest) = Ok (decoded_opt opt)"
    using assms by (simp add: decodeTLVOption_def enc_opt_def decoded_opt_def slice_def Let_def)
  then show ?thesis
    using assms by (subst decodeTLVOptions.simps) (simp add: enc_opt_def decoded_opt_def)
qed

lemma decode_enc_pad:
  assumes "n \<le> 255"
  shows "\<exists>ps. (\<forall>p\<in>set ps. is_pad p) \<and> (\<forall>rest. decodeTLVOptions (enc_pad n @ rest)
    = mapR (\<lambda>os. ps @ os) (decodeTLVOptions rest))"
proof -
  have id: "mapR (\<lambda>os. os) r = r" for r :: "tlvOption list result" by (cases r) simp_all
  consider "n = 0" | "n = 1" | m where "n = m + 2"
    by (metis One_nat_def Suc_pred add_2_eq_Suc' not_gr_zero)
  then show ?thesis
  proof cases
    case 1
    then show ?thesis by (intro exI [of _ "[]"]) (simp add: enc_pad_def id)
  next
    case 2
    define p where "p = \<lparr>OptType = 0, OptDataLen = 0, ActualLength = 1, OptData = [], OptAlign = (0, 0)\<rparr>"
    have "decodeTLVOptions (enc_pad n @ rest) = mapR (\<lambda>os. [p] @ os) (decodeTLVOptions rest)" for rest
      using 2 by (subst decodeTLVOptions.simps)
        (cases "decodeTLVOptions rest"; simp add: enc_pad_def decodeTLVOption_def OptTypePad1_def p_def)
    moreover have "is_pad p" by (simp add: is_pad_def p_def OptTypePad1_def)
    ultimately show ?thesis by (intro exI [of _ "[p]"]) simp
  next
    case 3
    define p where "p = \<lparr>OptType = OptTypePadN, OptDataLen = 0, ActualLength = 0, OptData = replicate m 0, OptAlign = (0, 0)\<rparr>"
    have "enc_pad n = enc_opt p" using 3
      by (simp add: enc_pad_def enc_opt_def p_def OptTypePad1_def OptTypePadN_def)
    moreover have "OptType p \<noteq> OptTypePad1" "length (OptData p) \<le> 255"
      using 3 assms by (simp_all add: p_def OptTypePad1_def OptTypePadN_def)
    moreover have "is_pad (decoded_opt p)" by (simp add: is_pad_def decoded_opt_def p_def)
    ultimately show ?thesis
      using decode_enc_opt [of p] by (intro exI [of _ "[decoded_opt p]"]) (simp add: append_Cons [abs_def])
  qed
qed

lemma decode_layout:
  assumes "\<forall>opt\<in>set opts. \<not> is_pad opt \<and> length (OptData opt) \<le> 255"
  shows "\<exists>ds. filter (\<lambda>p. \<not> is_pad p) ds = map decoded_opt opts
    \<and> (\<forall>rest. decodeTLVOptions (layout len opts @ rest) = mapR (\<lambda>os. ds @ os) (decodeTLVOptions rest))"
  using assms
proof (induction opts arbitrary: len)
  case Nil
  have "mapR (\<lambda>os. os) r = r" for r :: "tlvOption list result" by (cases r) simp_all
  then show ?case by (intro exI [of _ "[]"]) simp
next
  case (Cons opt opts)
  obtain ps where ps: "\<forall>p\<in>set ps. is_pad p" "\<And>rest. decodeTLVOptions (enc_pad (align_pad opt len) @ rest)
      = mapR (\<lambda>os. ps @ os) (decodeTLVOptions rest)"
    using decode_enc_pad [OF align_pad_bound] by blast
  obtain ds where ds: "filter (\<lambda>p. \<not> is_pad p) ds = map decoded_opt opts"
      "\<And>rest. decodeTLVOptions (layout (len + align_pad opt len + length (enc_opt opt)) opts @ rest)
        = mapR (\<lambda>os. ds @ os) (decodeTLVOptions rest)"
    using Cons.IH [of "len + align_pad opt len + length (enc_opt opt)"] Cons.prems by auto
  have comp: "mapR f (mapR g r) = mapR (\<lambda>x. f (g x)) r" for f :: "tlvOption list \<Rightarrow> tlvOption list" and g r
    by (cases r) simp_all
  have np: "OptType opt \<noteq> OptTypePad1" "length (OptData opt) \<le> 255" "\<not> is_pad (decoded_opt opt)"
    using Cons.prems by (auto simp: is_pad_def decoded_opt_def)
  have "filter (\<lambda>p. \<not> is_pad p) (ps @ decoded_opt opt # ds) = map decoded_opt (opt # opts)"
    using ps(1) ds(1) np by (simp add: filter_empty_conv)
  moreover have "decodeTLVOptions (layout len (opt # opts) @ rest)
      = mapR (\<lambda>os. (ps @ decoded_opt opt # ds) @ os) (decodeTLVOptions rest)" for rest
    by (simp add: ps(2) decode_enc_opt [OF np(1,2)] ds(2) comp)
  ultimately show ?case by blast
qed

lemma decode_full_layout:
  assumes "\<forall>opt\<in>set opts. \<not> is_pad opt \<and> length (OptData opt) \<le> 255"
  shows "\<exists>ds. decodeTLVOptions (full_layout opts) = Ok ds \<and> filter (\<lambda>p. \<not> is_pad p) ds = map decoded_opt opts"
proof -
  obtain ds where ds: "filter (\<lambda>p. \<not> is_pad p) ds = map decoded_opt opts"
      "\<And>rest. decodeTLVOptions (layout 2 opts @ rest) = mapR (\<lambda>os. ds @ os) (decodeTLVOptions rest)"
    using decode_layout [OF assms] by blast
  have "end_pad l \<le> 255" for l using end_pad_bound [of l] by simp
  from decode_enc_pad [OF this] obtain ps where ps: "\<forall>p\<in>set ps. is_pad p"
      "\<And>rest. decodeTLVOptions (enc_pad (end_pad (2 + length (layout 2 opts))) @ rest)
        = mapR (\<lambda>os. ps @ os) (decodeTLVOptions rest)"
    by blast
  have "decodeTLVOptions [] = Ok []" by (simp add: decodeTLVOptions.simps)
  then have "decodeTLVOptions (full_layout opts) = Ok (ds @ ps)"
    using ds(2) [of "enc_pad (end_pad (2 + length (layout 2 opts)))"] ps(2) [of "[]"]
    by (simp add: full_layout_def)
  then show ?thesis using ds(1) ps(1) by (simp add: filter_empty_conv)
qed

section \<open>Properties of extensions and UDP\<close>

lemma decodeTLVOption_ActualLength:
  "decodeTLVOption d = Ok opt \<Longrightarrow> 0 < ActualLength opt"
  by (auto simp: decodeTLVOption_def Let_def bindR_eq_Ok split: if_splits)

lemma decodeTLVOption_not_Panic: "d \<noteq> [] \<Longrightarrow> decodeTLVOption d \<noteq> Panic"
  by (auto simp: decodeTLVOption_def Let_def bindR_eq_Panic slice_Panic_iff)

lemma decodeTLVOptions_not_Panic: "decodeTLVOptions d \<noteq> Panic"
proof (induction d rule: decodeTLVOptions.induct)
  case (1 d)
  show ?case
  proof (cases "d = []")
    case True
    then show ?thesis by (simp add: decodeTLVOptions.simps)
  next
    case False
    then show ?thesis
      using 1 decodeTLVOption_ActualLength [of d] decodeTLVOption_not_Panic [OF False]
      by (subst decodeTLVOptions.simps) (auto simp: mapR_eq_Panic split: result.splits)
  qed
qed

lemma decodeExtnBase_Ok:
  "decodeExtnBase data = Ok e \<Longrightarrow> 2 \<le> ActualLen e \<and> ActualLen e \<le> length data
     \<and> Contents e @ Payload e = data \<and> length (Contents e) = ActualLen e"
  by (auto simp: decodeExtnBase_def Let_def split: if_splits)

lemma extension_not_Panic:
  "HopByHopExtn_DecodeFromBytes data \<noteq> Panic \<and> EndToEndExtn_DecodeFromBytes data \<noteq> Panic
   \<and> HopByHopExtnSkipper_DecodeFromBytes data \<noteq> Panic \<and> EndToEndExtnSkipper_DecodeFromBytes data \<noteq> Panic"
proof -
  have "decodeExtnBase data \<noteq> Panic" by (simp add: decodeExtnBase_def Let_def)
  moreover have "checkHopByHopExtnNextHdr t \<noteq> Panic" "checkEndToEndExtnNextHdr t \<noteq> Panic" for t
    by (simp_all add: checkHopByHopExtnNextHdr_def checkEndToEndExtnNextHdr_def)
  ultimately show ?thesis
    using decodeTLVOptions_not_Panic decodeExtnBase_Ok [of data]
    by (auto simp: HopByHopExtn_DecodeFromBytes_def EndToEndExtn_DecodeFromBytes_def
        HopByHopExtnSkipper_DecodeFromBytes_def EndToEndExtnSkipper_DecodeFromBytes_def bindR_eq_Panic
        slice_Panic_iff)
qed

text \<open>Decoding an extension header never panics, whatever the bytes, for both extensions and for the
  variants that skip the options: the option loop makes progress and stays inside the header.\<close>

lemma extension_decode_safe:
  "HopByHopExtn_DecodeFromBytes data \<noteq> Panic \<and> EndToEndExtn_DecodeFromBytes data \<noteq> Panic
   \<and> HopByHopExtnSkipper_DecodeFromBytes data \<noteq> Panic \<and> EndToEndExtnSkipper_DecodeFromBytes data \<noteq> Panic"
  by (rule extension_not_Panic)

lemma decodeExtnBase_serialized:
  assumes "length (full_layout opts) + 2 \<le> 1024"
  shows "decodeExtnBase ([t, fixed_extlen opts] @ full_layout opts @ pay)
    = Ok \<lparr>Contents = [t, fixed_extlen opts] @ full_layout opts, Payload = pay, ExtNextHdr = t,
         ExtLen = fixed_extlen opts, ActualLen = length (full_layout opts) + 2\<rparr>"
proof -
  obtain k where k: "length (full_layout opts) + 2 = 4 * k"
    using full_layout_aligned [of opts] by (metis mod_0_imp_dvd dvdE)
  then have "1 \<le> k" "k \<le> 256" using assms by linarith+
  then obtain j where j: "k = Suc j" "j < 256" by (cases k) auto
  then have "unat (of_nat k - 1 :: u8) = k - 1"
    by (simp add: unsigned_of_nat take_bit_nat_eq_self)
  moreover have "fixed_extlen opts = of_nat k - 1" unfolding fixed_extlen_def k by simp
  ultimately have len: "(unat (fixed_extlen opts) + 1) * 4 = length (full_layout opts) + 2"
    using k \<open>1 \<le> k\<close> by simp
  have nth: "([t, fixed_extlen opts] @ full_layout opts @ pay) ! 1 = fixed_extlen opts" by simp
  show ?thesis unfolding decodeExtnBase_def Let_def nth len by simp
qed

text \<open>An extension whose options are no padding and carry at most 255 bytes each, and which fits in
  1024 bytes, survives serialization with length fixing: both extension decoders give back the next
  header, the payload and, apart from inserted padding, exactly the options in order.\<close>

lemma extension_roundtrip:
  fixes h :: HopByHopExtn and e :: EndToEndExtn
  assumes fresh: "\<And>n. length (fresh n) = n"
    and opts: "\<forall>opt\<in>set opts. \<not> is_pad opt \<and> length (OptData opt) \<le> 255"
    and len: "length (full_layout opts) + 2 \<le> 1024"
    and h: "HbhOptions h = opts" "ExtNextHdr h \<noteq> HopByHopClass"
    and e: "E2eOptions e = opts" "ExtNextHdr e \<noteq> HopByHopClass" "ExtNextHdr e \<noteq> End2EndClass"
  shows "(\<exists>h' b d. HopByHopExtn_SerializeTo fresh True h pay = Ok (h', b)
      \<and> HopByHopExtn_DecodeFromBytes b = Ok d \<and> ExtNextHdr d = ExtNextHdr h \<and> Payload d = pay
      \<and> filter (\<lambda>p. \<not> is_pad p) (HbhOptions d) = map decoded_opt opts)
    \<and> (\<exists>e' b d. EndToEndExtn_SerializeTo fresh True e pay = Ok (e', b)
      \<and> EndToEndExtn_DecodeFromBytes b = Ok d \<and> ExtNextHdr d = ExtNextHdr e \<and> Payload d = pay
      \<and> filter (\<lambda>p. \<not> is_pad p) (E2eOptions d) = map decoded_opt opts)"
proof -
  obtain ds where ds: "decodeTLVOptions (full_layout opts) = Ok ds"
      "filter (\<lambda>p. \<not> is_pad p) ds = map decoded_opt opts"
    using decode_full_layout [OF opts] by blast
  have sl: "slice ([t, x] @ full_layout opts @ pay) 2 (length (full_layout opts) + 2) = Ok (full_layout opts)" for t x
    by (simp add: slice_def)
  have "HopByHopExtn_DecodeFromBytes ([ExtNextHdr h, fixed_extlen opts] @ full_layout opts @ pay)
      = Ok (extnBase.extend \<lparr>Contents = [ExtNextHdr h, fixed_extlen opts] @ full_layout opts, Payload = pay,
          ExtNextHdr = ExtNextHdr h, ExtLen = fixed_extlen opts, ActualLen = length (full_layout opts) + 2\<rparr>
          \<lparr>HbhOptions = ds\<rparr>)"
    using h(2) unfolding HopByHopExtn_DecodeFromBytes_def decodeExtnBase_serialized [OF len]
    by (simp only: bindR.simps extnBase.simps checkHopByHopExtnNextHdr_def if_False sl ds)
  moreover have "EndToEndExtn_DecodeFromBytes ([ExtNextHdr e, fixed_extlen opts] @ full_layout opts @ pay)
      = Ok (extnBase.extend \<lparr>Contents = [ExtNextHdr e, fixed_extlen opts] @ full_layout opts, Payload = pay,
          ExtNextHdr = ExtNextHdr e, ExtLen = fixed_extlen opts, ActualLen = length (full_layout opts) + 2\<rparr>
          \<lparr>E2eOptions = ds\<rparr>)"
    using e(2,3) unfolding EndToEndExtn_DecodeFromBytes_def decodeExtnBase_serialized [OF len]
    by (simp only: bindR.simps extnBase.simps checkEndToEndExtnNextHdr_def if_False sl ds)
  moreover have "HopByHopExtn_SerializeTo fresh True h pay
      = Ok (h\<lparr>ExtLen := fixed_extlen opts, HbhOptions := map fixed_opt opts\<rparr>,
           [ExtNextHdr h, fixed_extlen opts] @ full_layout opts @ pay)"
    using h by (simp add: HopByHopExtn_SerializeTo_def checkHopByHopExtnNextHdr_def
        serializeToWithTLVOptions_fix [OF fresh])
  moreover have "EndToEndExtn_SerializeTo fresh True e pay
      = Ok (e\<lparr>ExtLen := fixed_extlen opts, E2eOptions := map fixed_opt opts\<rparr>,
           [ExtNextHdr e, fixed_extlen opts] @ full_layout opts @ pay)"
    using e by (simp add: EndToEndExtn_SerializeTo_def checkEndToEndExtnNextHdr_def
        serializeToWithTLVOptions_fix [OF fresh])
  ultimately show ?thesis using ds(2) by (simp add: extnBase.defs)
qed

definition sample_option :: tlvOption where
  "sample_option = \<lparr>OptType = OptTypeAuthenticator, OptDataLen = 0, ActualLength = 0, OptData = [7, 8, 9],
     OptAlign = (4, 2)\<rparr>"

definition sample_hbh :: HopByHopExtn where
  "sample_hbh = \<lparr>Contents = [], Payload = [], ExtNextHdr = 17, ExtLen = 0, ActualLen = 0, HbhOptions = [sample_option, sample_option]\<rparr>"

definition sample_e2e :: EndToEndExtn where
  "sample_e2e = \<lparr>Contents = [], Payload = [], ExtNextHdr = 17, ExtLen = 0, ActualLen = 0, E2eOptions = [sample_option, sample_option]\<rparr>"

lemma extension_roundtrip_witness:
  "(\<exists>h' b d. HopByHopExtn_SerializeTo (\<lambda>n. replicate n 0) True sample_hbh [1] = Ok (h', b)
      \<and> HopByHopExtn_DecodeFromBytes b = Ok d \<and> ExtNextHdr d = 17 \<and> Payload d = [1]
      \<and> filter (\<lambda>p. \<not> is_pad p) (HbhOptions d) = [decoded_opt sample_option, decoded_opt sample_option])"
proof -
  have "\<forall>opt\<in>set [sample_option, sample_option]. \<not> is_pad opt \<and> length (OptData opt) \<le> 255"
    by (simp add: sample_option_def is_pad_def OptTypePad1_def OptTypePadN_def OptTypeAuthenticator_def)
  moreover have "length (full_layout [sample_option, sample_option]) + 2 \<le> 1024"
    by (simp add: full_layout_def length_enc_opt sample_option_def tlvOption_length_def align_pad_def
        end_pad_def OptTypePad1_def OptTypeAuthenticator_def)
  ultimately show ?thesis
    using extension_roundtrip [of "\<lambda>n. replicate n 0" "[sample_option, sample_option]" sample_hbh sample_e2e "[1]"]
    by (simp add: sample_hbh_def sample_e2e_def HopByHopClass_def End2EndClass_def)
qed

text \<open>Serialization with length fixing places every option on its alignment: an option that asks for
  \<open>x*n+y\<close> starts, counted from the beginning of the extension header, at such an offset, with its type,
  length and data there, and the whole header is a multiple of four bytes long.\<close>

lemma option_alignment:
  assumes fresh: "\<And>n. length (fresh n) = n" and opts: "opts = pre @ opt # post" and np: "OptType opt \<noteq> OptTypePad1"
  shows "\<exists>e' opts' b off. serializeToWithTLVOptions fresh True (e :: extnBase) opts pay = Ok (e', opts', b)
    \<and> (length b - length pay) mod 4 = 0
    \<and> take (length (OptData opt) + 2) (drop off b) = [OptType opt, of_nat (length (OptData opt))] @ OptData opt
    \<and> (fst (OptAlign opt) = 0
       \<or> (\<exists>n. off = unat (fst (OptAlign opt)) * n + unat (snd (OptAlign opt))))"
proof -
  define x y where "x = unat (fst (OptAlign opt))" and "y = unat (snd (OptAlign opt))"
  have split: "\<exists>p s. layout len (pre @ opt # post) = p @ enc_opt opt @ s
      \<and> (x = 0 \<or> (\<exists>n. len + length p = x * n + y))" for len
  proof (induction pre arbitrary: len)
    case Nil
    have "x = 0 \<or> (\<exists>n. len + align_pad opt len = x * n + y)"
    proof (cases "x = 0")
      case False
      define m where "m = x * (len div x)"
      have "m \<le> len" "len < m + x" using False by (simp_all add: m_def) (metis dividend_less_times_div neq0_conv mult_Suc_right add.commute)
      then have "len + align_pad opt len = (if m + y < len then x * (len div x + 1) + y else x * (len div x) + y)"
        using False by (simp add: align_pad_def Let_def m_def flip: x_def y_def)
      then show ?thesis by (cases "m + y < len") (simp_all only: if_True if_False, blast+)
    qed simp
    then show ?case
      by (intro exI [of _ "enc_pad (align_pad opt len)"] exI) simp
  next
    case (Cons a pre)
    let ?l = "len + align_pad a len + length (enc_opt a)"
    obtain p s where p: "layout ?l (pre @ opt # post) = p @ enc_opt opt @ s"
        "x = 0 \<or> (\<exists>n. ?l + length p = x * n + y)"
      using Cons.IH by blast
    then show ?case
      by (intro exI [of _ "enc_pad (align_pad a len) @ enc_opt a @ p"] exI [of _ s]) (auto simp: ac_simps)
  qed
  obtain p s where p: "layout 2 opts = p @ enc_opt opt @ s" "x = 0 \<or> (\<exists>n. 2 + length p = x * n + y)"
    using split [of 2] opts by blast
  define b where "b = [ExtNextHdr e, fixed_extlen opts] @ full_layout opts @ pay"
  have "take (length (OptData opt) + 2) (drop (2 + length p) b) = [OptType opt, of_nat (length (OptData opt))] @ OptData opt"
    using np by (simp add: b_def full_layout_def p(1)) (simp add: enc_opt_def)
  moreover have "(length b - length pay) mod 4 = 0"
    using full_layout_aligned [of opts] by (simp add: b_def)
  moreover have "serializeToWithTLVOptions fresh True e opts pay
      = Ok (e\<lparr>ExtLen := fixed_extlen opts\<rparr>, map fixed_opt opts, b)"
    unfolding b_def by (rule serializeToWithTLVOptions_fix [OF fresh])
  moreover have "fst (OptAlign opt) = 0 \<or> (\<exists>n. 2 + length p = unat (fst (OptAlign opt)) * n + unat (snd (OptAlign opt)))"
    using p(2) by (simp add: x_def y_def unat_eq_0)
  ultimately show ?thesis
    by (intro exI [of _ "e\<lparr>ExtLen := fixed_extlen opts\<rparr>"] exI [of _ "map fixed_opt opts"] exI [of _ b]
        exI [of _ "2 + length p"] conjI)
qed

lemma option_alignment_witness:
  "\<exists>e' opts' b off. serializeToWithTLVOptions (\<lambda>n. replicate n 0) True
      (\<lparr>Contents = [], Payload = [], ExtNextHdr = 17, ExtLen = 0, ActualLen = 0\<rparr>) [sample_option, sample_option] [] = Ok (e', opts', b)
    \<and> take (length [7 :: u8, 8, 9] + 2) (drop off b) = [2, 3, 7, 8, 9] \<and> (\<exists>n. off = 4 * n + 2)"
proof -
  let ?e = "\<lparr>Contents = [], Payload = [], ExtNextHdr = 17, ExtLen = 0, ActualLen = 0\<rparr> :: extnBase"
  have "[sample_option, sample_option] = [sample_option] @ sample_option # []" by simp
  from option_alignment [where fresh = "\<lambda>n. replicate n 0" and e = ?e and pay = "[]", OF _ this]
  show ?thesis
    by (simp add: sample_option_def OptTypePad1_def OptTypeAuthenticator_def) blast
qed

text \<open>a SCION/UDP datagram serialized with length and checksum fixing decodes to its ports and payload,
  and its checksum verifies against the SCION header.\<close>

lemma udp_roundtrip:
  assumes "UDPscn u = Some s" and "wf_scion s" and "8 + length pay \<le> 65535"
  shows "\<exists>u' b d. UDP_SerializeTo True True u pay = (u', Ok b) \<and> UDP_DecodeFromBytes u0 b = Ok d
    \<and> SrcPort d = SrcPort u \<and> DstPort d = DstPort u \<and> Payload d = pay \<and> unat (Length d) = 8 + length pay
    \<and> UDPChecksum d = UDPChecksum u' \<and> computeChecksum (Some s) b L4UDP = Ok 0"
proof -
  let ?hdr = "put_u16 (SrcPort u) @ put_u16 (DstPort u) @ put_u16 (of_nat (8 + length pay))"
  have "length (?hdr @ [0, 0] @ pay) \<le> 65535" "even (length ?hdr)" using assms(3) by simp_all
  then obtain c where c: "computeChecksum (Some s) (?hdr @ [0, 0] @ pay) L4UDP = Ok c"
      "computeChecksum (Some s) (?hdr @ put_u16 c @ pay) L4UDP = Ok 0"
    using computeChecksum_verifies [OF assms(2)] by blast
  have len: "unat (of_nat (8 + length pay) :: u16) = 8 + length pay"
    using assms(3) unfolding unsigned_of_nat by (simp add: take_bit_nat_eq_self)
  then have ge: "8 \<le> (of_nat (8 + length pay) :: u16)"
    by (simp only: word_le_nat_alt) simp
  have ser: "UDP_SerializeTo True True u pay
      = (u\<lparr>Length := of_nat (8 + length pay), UDPChecksum := c\<rparr>, Ok (?hdr @ put_u16 c @ pay))"
    using assms(1,3) c(1) by (simp add: UDP_SerializeTo_def UDP_fixLengths_def)
  have "UDP_DecodeFromBytes u0 (?hdr @ put_u16 c @ pay) = Ok (u0\<lparr>SrcPort := SrcPort u, DstPort := DstPort u,
      Length := of_nat (8 + length pay), UDPChecksum := c, Contents := ?hdr @ put_u16 c, Payload := pay\<rparr>)"
    using ge len by (simp add: UDP_DecodeFromBytes_def slice_def)
  with ser c(2) len show ?thesis by auto
qed

lemma udp_roundtrip_witness:
  "\<exists>u' b d. UDP_SerializeTo True True \<lparr>Contents = [], Payload = [], SrcPort = 1, DstPort = 2, Length = 0,
      UDPChecksum = 0, UDPscn = Some sample_header\<rparr> [1, 2] = (u', Ok b)
    \<and> UDP_DecodeFromBytes \<lparr>Contents = [], Payload = [], SrcPort = 0, DstPort = 0, Length = 0,
      UDPChecksum = 0, UDPscn = None\<rparr> b = Ok d \<and> DstPort d = 2 \<and> Payload d = [1, 2]
    \<and> computeChecksum (Some sample_header) b L4UDP = Ok 0"
proof -
  let ?u = "\<lparr>Contents = [], Payload = [], SrcPort = 1, DstPort = 2, Length = 0, UDPChecksum = 0, UDPscn = Some sample_header\<rparr>"
  have "wf_scion sample_header"
    by (simp add: sample_header_def wf_scion_def AddrType_Length_def LineLen_def T4Svc_def T4Ip_def)
  from udp_roundtrip [of ?u sample_header "[1, 2]", OF _ this] show ?thesis by simp blast
qed

end
