(* ===== verification/Scmp.thy ===== *)
theory Scmp
  imports Header
begin

text \<open>
  SCMP, the control message protocol (\<^verbatim>\<open>pkg/slayers/scmp.go\<close>, \<^verbatim>\<open>scmp_typecode.go\<close>, \<^verbatim>\<open>scmp_msg.go\<close>): type
  codes, the SCMP header with its checksum, and the seven message bodies. The message bodies share
  one contract, the locale \<open>scmp_message\<close>.
\<close>

unbundle bit_operations_syntax

section \<open>Types and codes\<close>

type_synonym SCMPType = u8
type_synonym SCMPCode = u8
type_synonym SCMPTypeCode = u16

definition SCMPTypeDestinationUnreachable :: SCMPType where "SCMPTypeDestinationUnreachable = 1"
definition SCMPTypePacketTooBig :: SCMPType where "SCMPTypePacketTooBig = 2"
definition SCMPTypeParameterProblem :: SCMPType where "SCMPTypeParameterProblem = 4"
definition SCMPTypeExternalInterfaceDown :: SCMPType where "SCMPTypeExternalInterfaceDown = 5"
definition SCMPTypeInternalConnectivityDown :: SCMPType where "SCMPTypeInternalConnectivityDown = 6"
definition SCMPTypeEchoRequest :: SCMPType where "SCMPTypeEchoRequest = 128"
definition SCMPTypeEchoReply :: SCMPType where "SCMPTypeEchoReply = 129"
definition SCMPTypeTracerouteRequest :: SCMPType where "SCMPTypeTracerouteRequest = 130"
definition SCMPTypeTracerouteReply :: SCMPType where "SCMPTypeTracerouteReply = 131"

definition SCMPCodeNoRoute :: SCMPCode where "SCMPCodeNoRoute = 0"
definition SCMPCodeInvalidPacketSize :: SCMPCode where "SCMPCodeInvalidPacketSize = 19"
definition SCMPCodeInvalidSourceAddress :: SCMPCode where "SCMPCodeInvalidSourceAddress = 33"
definition SCMPCodeInvalidDestinationAddress :: SCMPCode where "SCMPCodeInvalidDestinationAddress = 34"
definition SCMPCodeInvalidPath :: SCMPCode where "SCMPCodeInvalidPath = 48"
definition SCMPCodeUnknownHopFieldIngress :: SCMPCode where "SCMPCodeUnknownHopFieldIngress = 49"
definition SCMPCodeUnknownHopFieldEgress :: SCMPCode where "SCMPCodeUnknownHopFieldEgress = 50"
definition SCMPCodeInvalidHopFieldMAC :: SCMPCode where "SCMPCodeInvalidHopFieldMAC = 51"
definition SCMPCodePathExpired :: SCMPCode where "SCMPCodePathExpired = 52"
definition SCMPCodeInvalidSegmentChange :: SCMPCode where "SCMPCodeInvalidSegmentChange = 53"

definition TypeCode_Type :: "SCMPTypeCode \<Rightarrow> SCMPType" where
  "TypeCode_Type a = ucast (drop_bit 8 a)"

definition TypeCode_Code :: "SCMPTypeCode \<Rightarrow> SCMPCode" where
  "TypeCode_Code a = ucast a"

definition TypeCode_InfoMsg :: "SCMPTypeCode \<Rightarrow> bool" where
  "TypeCode_InfoMsg a \<longleftrightarrow> TypeCode_Type a > 127"

definition CreateSCMPTypeCode :: "SCMPType \<Rightarrow> SCMPCode \<Rightarrow> SCMPTypeCode" where
  "CreateSCMPTypeCode typ code = be_u16 [typ, code]"

section \<open>The SCMP header\<close>

record SCMP = BaseLayer +
  TypeCode :: SCMPTypeCode
  SCMPChecksum :: u16
  SCMPscn :: "SCION option"

datatype SCMPLayerType = LT_DestinationUnreachable | LT_PacketTooBig | LT_ParameterProblem
  | LT_ExternalInterfaceDown | LT_InternalConnectivityDown | LT_Echo | LT_Traceroute | LT_Payload

definition SCMP_NextLayerType :: "SCMP \<Rightarrow> SCMPLayerType" where
  "SCMP_NextLayerType s =
    (let t = TypeCode_Type (TypeCode s) in
     if t = SCMPTypeDestinationUnreachable then LT_DestinationUnreachable
     else if t = SCMPTypePacketTooBig then LT_PacketTooBig
     else if t = SCMPTypeParameterProblem then LT_ParameterProblem
     else if t = SCMPTypeExternalInterfaceDown then LT_ExternalInterfaceDown
     else if t = SCMPTypeInternalConnectivityDown then LT_InternalConnectivityDown
     else if t = SCMPTypeEchoRequest \<or> t = SCMPTypeEchoReply then LT_Echo
     else if t = SCMPTypeTracerouteRequest \<or> t = SCMPTypeTracerouteReply then LT_Traceroute
     else LT_Payload)"

definition SCMP_SerializeTo :: "bool \<Rightarrow> SCMP \<Rightarrow> bytes \<Rightarrow> SCMP \<times> bytes result" where
  "SCMP_SerializeTo computeChecksums s payload =
    (let tc = put_u16 (TypeCode s) in
     if computeChecksums
     then case SCMPscn s of
            None \<Rightarrow> (s, Fail (Err ''can not calculate checksum without SCION header''))
          | Some scn \<Rightarrow>
              (case computeChecksum (Some scn) (tc @ [0, 0] @ payload) L4SCMP of
                 Ok c \<Rightarrow> (s\<lparr>SCMPChecksum := c\<rparr>, Ok (tc @ put_u16 c @ payload))
               | Fail e \<Rightarrow> (s\<lparr>SCMPChecksum := 0\<rparr>, Fail e)
               | Panic \<Rightarrow> (s, Panic))
     else (s, Ok (tc @ put_u16 (SCMPChecksum s) @ payload)))"

definition SCMP_DecodeFromBytes :: "SCMP \<Rightarrow> bytes \<Rightarrow> SCMP result" where
  "SCMP_DecodeFromBytes s data =
    (if length data < 4 then Fail (Err ''SCMP layer length is less then 4 bytes'')
     else Ok (s\<lparr>TypeCode := CreateSCMPTypeCode (data ! 0) (data ! 1), SCMPChecksum := be_u16 (drop 2 data),
                Contents := take 4 data, Payload := drop 4 data\<rparr>))"

definition SetNetworkLayerForChecksum :: "SCMP \<Rightarrow> SCION \<Rightarrow> SCMP" where
  "SetNetworkLayerForChecksum s scn = s\<lparr>SCMPscn := Some scn\<rparr>"

section \<open>Message bodies\<close>

text \<open>
  A body is serialized in front of the payload that is already in the buffer. All bytes of the body
  are written.
\<close>

definition scmpRawInterfaceLen :: nat where "scmpRawInterfaceLen = 8"

definition base_layer :: "nat \<Rightarrow> bytes \<Rightarrow> BaseLayer" where
  "base_layer n data = \<lparr>Contents = take n data, Payload = drop n data\<rparr>"

record SCMPExternalInterfaceDown = BaseLayer +
  ExtIA :: IA
  ExtIfID :: u64

definition SCMPExternalInterfaceDown_DecodeFromBytes :: "bytes \<Rightarrow> SCMPExternalInterfaceDown result" where
  "SCMPExternalInterfaceDown_DecodeFromBytes data =
    (if length data < IABytes + scmpRawInterfaceLen then Fail (Err ''buffer too short'')
     else Ok (BaseLayer.extend (base_layer 16 data) \<lparr>ExtIA = be_u64 data, ExtIfID = be_u64 (drop 8 data)\<rparr>))"

definition SCMPExternalInterfaceDown_SerializeTo :: "SCMPExternalInterfaceDown \<Rightarrow> bytes \<Rightarrow> bytes" where
  "SCMPExternalInterfaceDown_SerializeTo i payload = put_u64 (ExtIA i) @ put_u64 (ExtIfID i) @ payload"

record SCMPInternalConnectivityDown = BaseLayer +
  IntIA :: IA
  IntIngress :: u64
  IntEgress :: u64

definition SCMPInternalConnectivityDown_DecodeFromBytes :: "bytes \<Rightarrow> SCMPInternalConnectivityDown result" where
  "SCMPInternalConnectivityDown_DecodeFromBytes data =
    (if length data < IABytes + 2 * scmpRawInterfaceLen then Fail (Err ''buffer too short'')
     else Ok (BaseLayer.extend (base_layer 24 data)
       \<lparr>IntIA = be_u64 data, IntIngress = be_u64 (drop 8 data), IntEgress = be_u64 (drop 16 data)\<rparr>))"

definition SCMPInternalConnectivityDown_SerializeTo :: "SCMPInternalConnectivityDown \<Rightarrow> bytes \<Rightarrow> bytes" where
  "SCMPInternalConnectivityDown_SerializeTo i payload =
     put_u64 (IntIA i) @ put_u64 (IntIngress i) @ put_u64 (IntEgress i) @ payload"

record SCMPEcho = BaseLayer +
  EchoIdentifier :: u16
  EchoSeqNumber :: u16

definition SCMPEcho_DecodeFromBytes :: "bytes \<Rightarrow> SCMPEcho result" where
  "SCMPEcho_DecodeFromBytes data =
    (if length data < 4 then Fail (Err ''buffer too short'')
     else Ok (BaseLayer.extend (base_layer 4 data)
       \<lparr>EchoIdentifier = be_u16 data, EchoSeqNumber = be_u16 (drop 2 data)\<rparr>))"

definition SCMPEcho_SerializeTo :: "SCMPEcho \<Rightarrow> bytes \<Rightarrow> bytes" where
  "SCMPEcho_SerializeTo i payload = put_u16 (EchoIdentifier i) @ put_u16 (EchoSeqNumber i) @ payload"

record SCMPParameterProblem = BaseLayer +
  Pointer :: u16

definition SCMPParameterProblem_DecodeFromBytes :: "bytes \<Rightarrow> SCMPParameterProblem result" where
  "SCMPParameterProblem_DecodeFromBytes data =
    (if length data < 4 then Fail (Err ''buffer too short'')
     else Ok (BaseLayer.extend (base_layer 4 data) \<lparr>Pointer = be_u16 (drop 2 data)\<rparr>))"

definition SCMPParameterProblem_SerializeTo :: "SCMPParameterProblem \<Rightarrow> bytes \<Rightarrow> bytes" where
  "SCMPParameterProblem_SerializeTo i payload = put_u16 0 @ put_u16 (Pointer i) @ payload"

record SCMPTraceroute = BaseLayer +
  TrIdentifier :: u16
  TrSequence :: u16
  TrIA :: IA
  TrInterface :: u64

definition SCMPTraceroute_DecodeFromBytes :: "bytes \<Rightarrow> SCMPTraceroute result" where
  "SCMPTraceroute_DecodeFromBytes data =
    (if length data < 2 + 2 + IABytes + scmpRawInterfaceLen then Fail (Err ''buffer too short'')
     else Ok (BaseLayer.extend (base_layer 20 data)
       \<lparr>TrIdentifier = be_u16 data, TrSequence = be_u16 (drop 2 data), TrIA = be_u64 (drop 4 data),
        TrInterface = be_u64 (drop 12 data)\<rparr>))"

definition SCMPTraceroute_SerializeTo :: "SCMPTraceroute \<Rightarrow> bytes \<Rightarrow> bytes" where
  "SCMPTraceroute_SerializeTo i payload =
     put_u16 (TrIdentifier i) @ put_u16 (TrSequence i) @ put_u64 (TrIA i) @ put_u64 (TrInterface i) @ payload"

definition SCMPDestinationUnreachable_DecodeFromBytes :: "bytes \<Rightarrow> BaseLayer result" where
  "SCMPDestinationUnreachable_DecodeFromBytes data =
    (if length data < 4 then Fail (Err ''buffer too short'') else Ok (base_layer 4 data))"

definition SCMPDestinationUnreachable_SerializeTo :: "BaseLayer \<Rightarrow> bytes \<Rightarrow> bytes" where
  "SCMPDestinationUnreachable_SerializeTo i payload = replicate 4 0 @ payload"

record SCMPPacketTooBig = BaseLayer +
  MTU :: u16

definition SCMPPacketTooBig_DecodeFromBytes :: "bytes \<Rightarrow> SCMPPacketTooBig result" where
  "SCMPPacketTooBig_DecodeFromBytes data =
    (if length data < 4 then Fail (Err ''buffer too short'')
     else Ok (BaseLayer.extend (base_layer 4 data) \<lparr>MTU = be_u16 (drop 2 data)\<rparr>))"

definition SCMPPacketTooBig_SerializeTo :: "SCMPPacketTooBig \<Rightarrow> bytes \<Rightarrow> bytes" where
  "SCMPPacketTooBig_SerializeTo i payload = put_u16 0 @ put_u16 (MTU i) @ payload"

section \<open>The contract of a message body\<close>

text \<open>
  A body has a fixed width. A buffer is decoded exactly when it holds the body, what is behind the
  body is the payload, and decoding what was serialized gives the fields back.
\<close>

locale scmp_message =
  fixes width :: nat
    and ser :: "'m BaseLayer_scheme \<Rightarrow> bytes \<Rightarrow> bytes"
    and dec :: "bytes \<Rightarrow> 'm BaseLayer_scheme result"
  assumes ser_width: "length (ser m p) = width + length p"
    and dec_total: "width \<le> length b \<Longrightarrow> \<exists>m. dec b = Ok m \<and> Contents m = take width b \<and> Payload m = drop width b"
    and dec_short: "length b < width \<Longrightarrow> dec b = Fail (Err ''buffer too short'')"
    and dec_ser: "dec (ser m p) = Ok d \<Longrightarrow> m\<lparr>Contents := [], Payload := []\<rparr> = d\<lparr>Contents := [], Payload := []\<rparr> \<and> Payload d = p"
begin

lemma no_panic: "dec b \<noteq> Panic"
  using dec_total [of b] dec_short [of b] by (cases "width \<le> length b") auto

lemma roundtrip:
  "\<exists>d. dec (ser m p) = Ok d \<and> d\<lparr>Contents := [], Payload := []\<rparr> = m\<lparr>Contents := [], Payload := []\<rparr> \<and> Payload d = p"
  using dec_total [of "ser m p"] dec_ser [of m p] ser_width [of m p] by auto

lemma accepts_iff: "isOk (dec b) \<longleftrightarrow> width \<le> length b"
  using dec_total [of b] dec_short [of b] by (cases "width \<le> length b") auto

end

lemmas scmp_body_simps = base_layer_def BaseLayer.defs IABytes_def scmpRawInterfaceLen_def

interpretation extdown: scmp_message 16 SCMPExternalInterfaceDown_SerializeTo
  SCMPExternalInterfaceDown_DecodeFromBytes
  by unfold_locales (auto simp: SCMPExternalInterfaceDown_SerializeTo_def
      SCMPExternalInterfaceDown_DecodeFromBytes_def scmp_body_simps)

interpretation intdown: scmp_message 24 SCMPInternalConnectivityDown_SerializeTo
  SCMPInternalConnectivityDown_DecodeFromBytes
  by unfold_locales (auto simp: SCMPInternalConnectivityDown_SerializeTo_def
      SCMPInternalConnectivityDown_DecodeFromBytes_def scmp_body_simps)

interpretation echo: scmp_message 4 SCMPEcho_SerializeTo SCMPEcho_DecodeFromBytes
  by unfold_locales (auto simp: SCMPEcho_SerializeTo_def SCMPEcho_DecodeFromBytes_def scmp_body_simps)

interpretation parameter: scmp_message 4 SCMPParameterProblem_SerializeTo SCMPParameterProblem_DecodeFromBytes
  by unfold_locales (auto simp: SCMPParameterProblem_SerializeTo_def SCMPParameterProblem_DecodeFromBytes_def scmp_body_simps)

interpretation traceroute: scmp_message 20 SCMPTraceroute_SerializeTo SCMPTraceroute_DecodeFromBytes
  by unfold_locales (auto simp: SCMPTraceroute_SerializeTo_def SCMPTraceroute_DecodeFromBytes_def scmp_body_simps)

interpretation unreachable: scmp_message 4 SCMPDestinationUnreachable_SerializeTo
  SCMPDestinationUnreachable_DecodeFromBytes
  by unfold_locales (auto simp: SCMPDestinationUnreachable_SerializeTo_def
      SCMPDestinationUnreachable_DecodeFromBytes_def scmp_body_simps)

interpretation toobig: scmp_message 4 SCMPPacketTooBig_SerializeTo SCMPPacketTooBig_DecodeFromBytes
  by unfold_locales (auto simp: SCMPPacketTooBig_SerializeTo_def SCMPPacketTooBig_DecodeFromBytes_def scmp_body_simps)

section \<open>Messages as a whole\<close>

text \<open>A message body of any kind, with the decoder that the type code of the header selects.\<close>

datatype scmp_body =
    ExternalInterfaceDown SCMPExternalInterfaceDown
  | InternalConnectivityDown SCMPInternalConnectivityDown
  | Echo SCMPEcho
  | ParameterProblem SCMPParameterProblem
  | Traceroute SCMPTraceroute
  | DestinationUnreachable BaseLayer
  | PacketTooBig SCMPPacketTooBig

fun body_kind :: "scmp_body \<Rightarrow> SCMPLayerType" where
  "body_kind (ExternalInterfaceDown m) = LT_ExternalInterfaceDown"
| "body_kind (InternalConnectivityDown m) = LT_InternalConnectivityDown"
| "body_kind (Echo m) = LT_Echo"
| "body_kind (ParameterProblem m) = LT_ParameterProblem"
| "body_kind (Traceroute m) = LT_Traceroute"
| "body_kind (DestinationUnreachable m) = LT_DestinationUnreachable"
| "body_kind (PacketTooBig m) = LT_PacketTooBig"

fun body_SerializeTo :: "scmp_body \<Rightarrow> bytes \<Rightarrow> bytes" where
  "body_SerializeTo (ExternalInterfaceDown m) p = SCMPExternalInterfaceDown_SerializeTo m p"
| "body_SerializeTo (InternalConnectivityDown m) p = SCMPInternalConnectivityDown_SerializeTo m p"
| "body_SerializeTo (Echo m) p = SCMPEcho_SerializeTo m p"
| "body_SerializeTo (ParameterProblem m) p = SCMPParameterProblem_SerializeTo m p"
| "body_SerializeTo (Traceroute m) p = SCMPTraceroute_SerializeTo m p"
| "body_SerializeTo (DestinationUnreachable m) p = SCMPDestinationUnreachable_SerializeTo m p"
| "body_SerializeTo (PacketTooBig m) p = SCMPPacketTooBig_SerializeTo m p"

fun body_DecodeFromBytes :: "SCMPLayerType \<Rightarrow> bytes \<Rightarrow> scmp_body option result" where
  "body_DecodeFromBytes LT_ExternalInterfaceDown b =
     mapR (\<lambda>m. Some (ExternalInterfaceDown m)) (SCMPExternalInterfaceDown_DecodeFromBytes b)"
| "body_DecodeFromBytes LT_InternalConnectivityDown b =
     mapR (\<lambda>m. Some (InternalConnectivityDown m)) (SCMPInternalConnectivityDown_DecodeFromBytes b)"
| "body_DecodeFromBytes LT_Echo b = mapR (\<lambda>m. Some (Echo m)) (SCMPEcho_DecodeFromBytes b)"
| "body_DecodeFromBytes LT_ParameterProblem b =
     mapR (\<lambda>m. Some (ParameterProblem m)) (SCMPParameterProblem_DecodeFromBytes b)"
| "body_DecodeFromBytes LT_Traceroute b = mapR (\<lambda>m. Some (Traceroute m)) (SCMPTraceroute_DecodeFromBytes b)"
| "body_DecodeFromBytes LT_DestinationUnreachable b =
     mapR (\<lambda>m. Some (DestinationUnreachable m)) (SCMPDestinationUnreachable_DecodeFromBytes b)"
| "body_DecodeFromBytes LT_PacketTooBig b = mapR (\<lambda>m. Some (PacketTooBig m)) (SCMPPacketTooBig_DecodeFromBytes b)"
| "body_DecodeFromBytes LT_Payload b = Ok None"

fun clear_layer :: "scmp_body \<Rightarrow> scmp_body" where
  "clear_layer (ExternalInterfaceDown m) = ExternalInterfaceDown (m\<lparr>Contents := [], Payload := []\<rparr>)"
| "clear_layer (InternalConnectivityDown m) = InternalConnectivityDown (m\<lparr>Contents := [], Payload := []\<rparr>)"
| "clear_layer (Echo m) = Echo (m\<lparr>Contents := [], Payload := []\<rparr>)"
| "clear_layer (ParameterProblem m) = ParameterProblem (m\<lparr>Contents := [], Payload := []\<rparr>)"
| "clear_layer (Traceroute m) = Traceroute (m\<lparr>Contents := [], Payload := []\<rparr>)"
| "clear_layer (DestinationUnreachable m) = DestinationUnreachable (m\<lparr>Contents := [], Payload := []\<rparr>)"
| "clear_layer (PacketTooBig m) = PacketTooBig (m\<lparr>Contents := [], Payload := []\<rparr>)"

fun body_payload :: "scmp_body \<Rightarrow> bytes" where
  "body_payload (ExternalInterfaceDown m) = Payload m"
| "body_payload (InternalConnectivityDown m) = Payload m"
| "body_payload (Echo m) = Payload m"
| "body_payload (ParameterProblem m) = Payload m"
| "body_payload (Traceroute m) = Payload m"
| "body_payload (DestinationUnreachable m) = Payload m"
| "body_payload (PacketTooBig m) = Payload m"

lemma body_roundtrip:
  "\<exists>m'. body_DecodeFromBytes (body_kind m) (body_SerializeTo m p) = Ok (Some m')
     \<and> clear_layer m' = clear_layer m \<and> body_payload m' = p"
proof (cases m)
  case (ExternalInterfaceDown x)
  then show ?thesis using extdown.roundtrip [of x p] by auto
next
  case (InternalConnectivityDown x)
  then show ?thesis using intdown.roundtrip [of x p] by auto
next
  case (Echo x)
  then show ?thesis using echo.roundtrip [of x p] by auto
next
  case (ParameterProblem x)
  then show ?thesis using parameter.roundtrip [of x p] by auto
next
  case (Traceroute x)
  then show ?thesis using traceroute.roundtrip [of x p] by auto
next
  case (DestinationUnreachable x)
  then show ?thesis using unreachable.roundtrip [of x p] by auto
next
  case (PacketTooBig x)
  then show ?thesis using toobig.roundtrip [of x p] by auto
qed

lemma body_width: "length (body_SerializeTo m p) \<le> 24 + length p"
  by (cases m) (simp_all add: extdown.ser_width intdown.ser_width echo.ser_width parameter.ser_width
      traceroute.ser_width unreachable.ser_width toobig.ser_width)

text \<open>A type code is exactly its type and its code, and the informational messages are those with
  the top bit of the type set.\<close>

lemma scmp_typecode:
  "TypeCode_Type (CreateSCMPTypeCode t c) = t \<and> TypeCode_Code (CreateSCMPTypeCode t c) = c
   \<and> CreateSCMPTypeCode (TypeCode_Type a) (TypeCode_Code a) = a
   \<and> (TypeCode_InfoMsg a \<longleftrightarrow> bit a 15)"
proof -
  have "TypeCode_Type (CreateSCMPTypeCode t c) = t" "TypeCode_Code (CreateSCMPTypeCode t c) = c"
    by (rule bit_word_eqI; auto simp: TypeCode_Type_def TypeCode_Code_def CreateSCMPTypeCode_def be_u16_def
        bit_simps dest: bit_imp_le_length)+
  moreover have "CreateSCMPTypeCode (TypeCode_Type a) (TypeCode_Code a) = a"
    using be_u16_put [of a "[]"] by (simp add: CreateSCMPTypeCode_def TypeCode_Type_def TypeCode_Code_def put_u16_def)
  moreover have "TypeCode_InfoMsg a \<longleftrightarrow> bit a 15"
  proof -
    have "bit a 15 \<longleftrightarrow> bit (TypeCode_Type a) 7"
      by (auto simp: TypeCode_Type_def bit_simps)
    also have "\<dots> \<longleftrightarrow> 127 < TypeCode_Type a"
    proof -
      have "bit x 7 \<longleftrightarrow> 127 < x" for x :: u8
      proof -
        have "bit x 7 \<longleftrightarrow> bit (unat x) 7" by (simp add: bit_unsigned_iff)
        also have "\<dots> \<longleftrightarrow> odd (unat x div 128)" by (simp add: bit_iff_odd)
        also have "\<dots> \<longleftrightarrow> 128 \<le> unat x"
        proof (cases "128 \<le> unat x")
          case True
          then have "unat x div 128 = 1" using unat_u8_less [of x] by (intro div_nat_eqI) simp_all
          with True show ?thesis by simp
        next
          case False
          then show ?thesis by simp
        qed
        finally show ?thesis by (simp add: word_less_nat_alt less_eq_Suc_le)
      qed
      then show ?thesis .
    qed
    finally show ?thesis by (simp add: TypeCode_InfoMsg_def)
  qed
  ultimately show ?thesis by blast
qed

text \<open>An SCMP message of any kind, serialized with its checksum in front of a payload, decodes to the
  same type code, selects the decoder of its kind, and gives back every field of the body and the
  payload; its checksum verifies against the SCION header.\<close>

lemma scmp_roundtrip:
  assumes "SCMPscn s = Some scn" and "wf_scion scn" and "SCMP_NextLayerType s = body_kind m"
    and "length quote \<le> 65000"
  shows "\<exists>s' b d m'. SCMP_SerializeTo True s (body_SerializeTo m quote) = (s', Ok b)
    \<and> SCMP_DecodeFromBytes s0 b = Ok d \<and> TypeCode d = TypeCode s \<and> SCMPChecksum d = SCMPChecksum s'
    \<and> body_DecodeFromBytes (SCMP_NextLayerType d) (Payload d) = Ok (Some m')
    \<and> clear_layer m' = clear_layer m \<and> body_payload m' = quote
    \<and> computeChecksum (Some scn) b L4SCMP = Ok 0"
proof -
  let ?tc = "put_u16 (TypeCode s)" and ?body = "body_SerializeTo m quote"
  have "length (?tc @ [0, 0] @ ?body) \<le> 65535" "even (length ?tc)"
    using body_width [of m quote] assms(4) by simp_all
  then obtain c where c: "computeChecksum (Some scn) (?tc @ [0, 0] @ ?body) L4SCMP = Ok c"
      "computeChecksum (Some scn) (?tc @ put_u16 c @ ?body) L4SCMP = Ok 0"
    using computeChecksum_verifies [OF assms(2)] by blast
  have ser: "SCMP_SerializeTo True s ?body = (s\<lparr>SCMPChecksum := c\<rparr>, Ok (?tc @ put_u16 c @ ?body))"
    using assms(1) c(1) by (simp add: SCMP_SerializeTo_def)
  have "CreateSCMPTypeCode ((?tc @ r) ! 0) ((?tc @ r) ! 1) = TypeCode s" for r
    using be_u16_put [of "TypeCode s" "[]"] by (simp add: CreateSCMPTypeCode_def put_u16_def)
  then have dec: "SCMP_DecodeFromBytes s0 (?tc @ put_u16 c @ ?body) = Ok (s0\<lparr>TypeCode := TypeCode s, SCMPChecksum := c,
      Contents := ?tc @ put_u16 c, Payload := ?body\<rparr>)"
    by (simp add: SCMP_DecodeFromBytes_def)
  have "SCMP_NextLayerType (s0\<lparr>TypeCode := TypeCode s, SCMPChecksum := c, Contents := ?tc @ put_u16 c, Payload := ?body\<rparr>)
      = body_kind m"
    using assms(3) by (simp add: SCMP_NextLayerType_def)
  with ser dec c(2) body_roundtrip [of m quote] show ?thesis by auto
qed

definition sample_scmp :: SCMP where
  "sample_scmp = \<lparr>Contents = [], Payload = [], TypeCode = CreateSCMPTypeCode SCMPTypeEchoRequest 0,
     SCMPChecksum = 0, SCMPscn = Some sample_header\<rparr>"

lemma scmp_roundtrip_witness:
  "\<exists>s' b d m'. SCMP_SerializeTo True sample_scmp (body_SerializeTo
        (Echo \<lparr>Contents = [], Payload = [], EchoIdentifier = 7, EchoSeqNumber = 9\<rparr>) [1, 2]) = (s', Ok b)
    \<and> SCMP_DecodeFromBytes sample_scmp b = Ok d
    \<and> body_DecodeFromBytes (SCMP_NextLayerType d) (Payload d) = Ok (Some m')
    \<and> clear_layer m' = Echo \<lparr>Contents = [], Payload = [], EchoIdentifier = 7, EchoSeqNumber = 9\<rparr>
    \<and> body_payload m' = [1, 2]"
proof -
  let ?m = "Echo \<lparr>Contents = [], Payload = [], EchoIdentifier = 7, EchoSeqNumber = 9\<rparr>"
  have wf: "wf_scion sample_header"
    by (simp add: sample_header_def wf_scion_def AddrType_Length_def LineLen_def T4Svc_def T4Ip_def)
  have "SCMPscn sample_scmp = Some sample_header" by (simp add: sample_scmp_def)
  moreover have "SCMP_NextLayerType sample_scmp = body_kind ?m" by code_simp
  ultimately show ?thesis
    using scmp_roundtrip [OF _ wf, of sample_scmp ?m "[1, 2]" sample_scmp] by auto
qed

end
