(* ===== verification/Bfd.thy ===== *)
theory Bfd
  imports Prelude
begin

text \<open>
  Bidirectional forwarding detection between routers (\<^verbatim>\<open>router/bfd\<close>): the state machine of RFC 5880,
  jittered transmission intervals, and the session with its receive queue. The main loop of
  \<^verbatim>\<open>Session.Run\<close> is a step relation with one rule for each branch of its \<^verbatim>\<open>select\<close>, plus one for
  messages arriving from the network. A timer is modelled by the duration it was last armed with;
  when it fires is left open. Durations are nanoseconds.
\<close>

unbundle bit_operations_syntax

section \<open>State machine\<close>

type_synonym bfd_state = u8
type_synonym bfd_event = int

definition stateAdminDown :: bfd_state where "stateAdminDown = 0"
definition stateDown :: bfd_state where "stateDown = 1"
definition stateInit :: bfd_state where "stateInit = 2"
definition stateUp :: bfd_state where "stateUp = 3"

definition eventAdminDown :: bfd_event where "eventAdminDown = 0"
definition eventDown :: bfd_event where "eventDown = 1"
definition eventInit :: bfd_event where "eventInit = 2"
definition eventUp :: bfd_event where "eventUp = 3"
definition eventTimer :: bfd_event where "eventTimer = 4"
definition eventAdminUp :: bfd_event where "eventAdminUp = 5"

definition transition :: "bfd_state \<Rightarrow> bfd_event \<Rightarrow> bfd_state result" where
  "transition currState e =
    (if currState = stateAdminDown then
       (if e = eventAdminUp then Ok stateDown
        else if e = eventInit \<or> e = eventUp \<or> e = eventDown \<or> e = eventTimer \<or> e = eventAdminDown
        then Ok stateAdminDown
        else Panic)
     else if currState = stateDown then
       (if e = eventInit then Ok stateUp
        else if e = eventDown then Ok stateInit
        else if e = eventUp \<or> e = eventTimer \<or> e = eventAdminUp then Ok stateDown
        else if e = eventAdminDown then Ok stateAdminDown
        else Panic)
     else if currState = stateInit then
       (if e = eventInit \<or> e = eventUp then Ok stateUp
        else if e = eventTimer then Ok stateDown
        else if e = eventDown \<or> e = eventAdminUp then Ok stateInit
        else if e = eventAdminDown then Ok stateAdminDown
        else Panic)
     else if currState = stateUp then
       (if e = eventInit \<or> e = eventUp \<or> e = eventAdminUp then Ok stateUp
        else if e = eventTimer \<or> e = eventDown then Ok stateDown
        else if e = eventAdminDown then Ok stateAdminDown
        else Panic)
     else Panic)"

section \<open>Intervals\<close>

definition Microsecond :: int where "Microsecond = 1000"
definition Second :: int where "Second = 1000000000"
definition Minute :: int where "Minute = 60 * Second"

definition minJitter :: int where "minJitter = 0"
definition minJitterDetectMult1 :: int where "minJitterDetectMult1 = 10"
definition maxJitter :: int where "maxJitter = 25"

text \<open>\<open>intn n\<close> is the random number source: an integer from \<open>0\<close> to \<open>n - 1\<close>.\<close>

definition Generate :: "(int \<Rightarrow> int) \<Rightarrow> int \<Rightarrow> int \<Rightarrow> int result" where
  "Generate intn x y = (if x < 0 \<or> y \<le> x then Panic else Ok (intn (y - x) + x))"

definition computeInterval :: "(int \<Rightarrow> int) \<Rightarrow> int \<Rightarrow> nat \<Rightarrow> int result" where
  "computeInterval intn transmitInterval detectMult =
    (if transmitInterval \<le> 0 then Panic
     else if detectMult = 0 then Panic
     else let jitter = (if detectMult = 1 then minJitterDetectMult1 else minJitter) in
       bindR (Generate intn jitter maxJitter) (\<lambda>jitterPercent.
       Ok ((transmitInterval * (100 - jitterPercent)) div 100)))"

definition durationToBFDInterval :: "int \<Rightarrow> u32 result" where
  "durationToBFDInterval d =
    (if d < 0 then Fail (Err ''duration cannot be negative'')
     else let i = d div Microsecond in
       if i > 0xFFFFFFFF then Fail (Err ''number of microseconds overflows uint32'')
       else Ok (word_of_int i))"

definition bfdIntervalToDuration :: "u32 \<Rightarrow> int" where
  "bfdIntervalToDuration x = uint x * Microsecond"

section \<open>Messages\<close>

text \<open>
  A BFD control packet is a layer of gopacket: the fields the session looks at. \<open>BLength\<close> is the value
  of its \<^verbatim>\<open>Length()\<close> method and \<open>BAuthType\<close> the type in its authentication header, if there is one.
\<close>

record BFD =
  BVersion :: u8
  BState :: bfd_state
  BAuthPresent :: bool
  BLength :: int
  BDetectMultiplier :: u8
  BMultipoint :: bool
  BMyDiscriminator :: u32
  BYourDiscriminator :: u32
  BAuthType :: "u8 option"
  BPoll :: bool
  BFinal :: bool
  BRequiredMinEchoRxInterval :: u32
  BDemand :: bool
  BDesiredMinTxInterval :: u32
  BRequiredMinRxInterval :: u32

record bfdMessage =
  MState :: bfd_state
  MDetectMultiplier :: u8
  MMyDiscriminator :: u32
  MYourDiscriminator :: u32
  MDesiredMinTxInterval :: u32
  MRequiredMinRxInterval :: u32

definition BFDAuthTypeNone :: u8 where "BFDAuthTypeNone = 0"

definition shouldDiscard :: "BFD \<Rightarrow> bool" where
  "shouldDiscard pkt =
    (if BVersion pkt \<noteq> 1 then True
     else if \<not> BAuthPresent pkt \<and> BLength pkt < 24 then True
     else if BAuthPresent pkt \<and> BLength pkt < 26 then True
     else if BDetectMultiplier pkt = 0 then True
     else if BMultipoint pkt then True
     else if BMyDiscriminator pkt = 0 then True
     else if BYourDiscriminator pkt = 0 \<and> \<not> (BState pkt = stateAdminDown \<or> BState pkt = stateDown) then True
     else if \<not> BAuthPresent pkt \<and> (case BAuthType pkt of None \<Rightarrow> False | Some t \<Rightarrow> t \<noteq> BFDAuthTypeNone) then True
     else if BAuthPresent pkt then True
     else if BPoll pkt then True
     else if BFinal pkt then True
     else if BRequiredMinEchoRxInterval pkt \<noteq> 0 then True
     else if BDemand pkt then True
     else False)"

section \<open>Session\<close>

text \<open>
  \<open>messages\<close> is the buffered channel, \<open>closed\<close> whether it was closed. \<open>sent\<close> collects the packets
  handed to the sender.
\<close>

record Session =
  hasSender :: bool
  LocalDiscriminator :: u32
  RemoteDiscriminator :: u32
  remoteDiscriminator :: u32
  DesiredMinTxInterval :: int
  RequiredMinRxInterval :: int
  DetectMult :: u8
  ReceiveQueueSize :: nat
  messages :: "bfdMessage list"
  closed :: bool
  localState :: bfd_state
  runMarker :: bool
  desiredMinTXInterval :: int
  remoteState :: bfd_state
  remoteMinRxInterval :: int
  detectionTimer :: int
  sendTimer :: int
  sent :: "BFD list"

definition defaultTransmissionInterval :: int where "defaultTransmissionInterval = Second"
definition defaultDetectionTimeout :: int where "defaultDetectionTimeout = Minute"

definition AlreadyRunning :: go_error where "AlreadyRunning = Err ''is running''"

definition runOnceCheck :: "Session \<Rightarrow> Session \<times> unit result" where
  "runOnceCheck s = (if runMarker s then (s, Fail AlreadyRunning) else (s\<lparr>runMarker := True\<rparr>, Ok ()))"

definition validateParameters :: "Session \<Rightarrow> unit result" where
  "validateParameters s =
    (if DetectMult s = 0 then Fail (Err ''detection multiplier must be > 0'')
     else
       bindR (wrapR ''bad desired minimum transmission interval''
               (durationToBFDInterval (DesiredMinTxInterval s))) (\<lambda>tx.
       if tx = 0 then Fail (Err ''desired minimum transmission interval must be > 0'')
       else
         bindR (wrapR ''bad required minimum receive interval''
                 (durationToBFDInterval (RequiredMinRxInterval s))) (\<lambda>rx.
         if rx = 0 then Fail (Err ''required minimum receive interval must be > 0'')
         else if LocalDiscriminator s = 0 then Fail (Err ''local discriminator must be > 0'')
         else if \<not> hasSender s then Fail (Err ''sender must not be nil'')
         else Ok ())))"

text \<open>\<^verbatim>\<open>Run\<close> up to its main loop.\<close>

definition Run_init :: "Session \<Rightarrow> Session \<times> unit result" where
  "Run_init s =
    (case runOnceCheck s of
       (s, Ok _) \<Rightarrow>
         (case validateParameters s of
            Ok _ \<Rightarrow>
              let s = (if RemoteDiscriminator s \<noteq> 0
                       then s\<lparr>remoteDiscriminator := RemoteDiscriminator s\<rparr> else s)
              in (s\<lparr>detectionTimer := defaultDetectionTimeout, localState := stateDown,
                    desiredMinTXInterval := defaultTransmissionInterval,
                    sendTimer := defaultTransmissionInterval\<rparr>, Ok ())
          | Fail e \<Rightarrow> (s, Fail e)
          | Panic \<Rightarrow> (s, Panic))
     | (s, r) \<Rightarrow> (s, r))"

definition computeNextSendInterval :: "(int \<Rightarrow> int) \<Rightarrow> Session \<Rightarrow> int result" where
  "computeNextSendInterval intn s =
     computeInterval intn (max (desiredMinTXInterval s) (remoteMinRxInterval s)) (unat (DetectMult s))"

definition IsUp :: "Session \<Rightarrow> bool" where
  "IsUp s \<longleftrightarrow> localState s = stateUp"

definition Session_transition :: "Session \<Rightarrow> bfd_event \<Rightarrow> Session result" where
  "Session_transition s e = mapR (\<lambda>st. s\<lparr>localState := st\<rparr>) (transition (localState s) e)"

text \<open>The branch that takes a message from the channel.\<close>

definition Run_message :: "(int \<Rightarrow> int) \<Rightarrow> Session \<Rightarrow> bfdMessage \<Rightarrow> Session result" where
  "Run_message intn s msg =
    (let detectionTime = uint (MDetectMultiplier msg)
           * max (RequiredMinRxInterval s) (bfdIntervalToDuration (MDesiredMinTxInterval msg));
         s = s\<lparr>detectionTimer := detectionTime, remoteState := MState msg,
               remoteMinRxInterval := bfdIntervalToDuration (MRequiredMinRxInterval msg)\<rparr>;
         s = (if remoteDiscriminator s = 0 then s\<lparr>remoteDiscriminator := MMyDiscriminator msg\<rparr> else s);
         oldState = localState s in
     bindR (Session_transition s (uint (remoteState s))) (\<lambda>s.
     if oldState = stateDown \<and> localState s \<noteq> stateDown
     then let s = s\<lparr>desiredMinTXInterval := DesiredMinTxInterval s\<rparr> in
       mapR (\<lambda>d. s\<lparr>sendTimer := d\<rparr>) (computeNextSendInterval intn s)
     else Ok s))"

text \<open>The branch of the send timer; a send error is only logged.\<close>

definition Run_send :: "(int \<Rightarrow> int) \<Rightarrow> Session \<Rightarrow> Session result" where
  "Run_send intn s =
     bindR (computeNextSendInterval intn s) (\<lambda>d.
     let tx = (case durationToBFDInterval (desiredMinTXInterval s) of Ok i \<Rightarrow> i | _ \<Rightarrow> 0);
         rx = (case durationToBFDInterval (RequiredMinRxInterval s) of Ok i \<Rightarrow> i | _ \<Rightarrow> 0);
         pkt = \<lparr>BVersion = 1, BState = localState s, BAuthPresent = False, BLength = 24,
                BDetectMultiplier = DetectMult s, BMultipoint = False,
                BMyDiscriminator = LocalDiscriminator s, BYourDiscriminator = remoteDiscriminator s,
                BAuthType = None, BPoll = False, BFinal = False, BRequiredMinEchoRxInterval = 0,
                BDemand = False, BDesiredMinTxInterval = tx, BRequiredMinRxInterval = rx\<rparr>
     in Ok (s\<lparr>sendTimer := d, sent := sent s @ [pkt]\<rparr>))"

text \<open>The branch of the detection timer.\<close>

definition Run_detect :: "Session \<Rightarrow> Session result" where
  "Run_detect s =
     bindR (Session_transition (s\<lparr>detectionTimer := defaultDetectionTimeout\<rparr>) eventTimer) (\<lambda>s.
     let s = s\<lparr>remoteDiscriminator := 0\<rparr> in
     Ok (if localState s = stateDown
         then s\<lparr>desiredMinTXInterval := defaultTransmissionInterval\<rparr> else s))"

definition to_message :: "BFD \<Rightarrow> bfdMessage" where
  "to_message msg = \<lparr>MState = BState msg, MDetectMultiplier = BDetectMultiplier msg,
     MMyDiscriminator = BMyDiscriminator msg, MYourDiscriminator = BYourDiscriminator msg,
     MDesiredMinTxInterval = BDesiredMinTxInterval msg, MRequiredMinRxInterval = BRequiredMinRxInterval msg\<rparr>"

text \<open>
  \<^verbatim>\<open>ReceiveMessage\<close> blocks while the channel is full: then there is no result. Sending on a closed
  channel panics.
\<close>

definition ReceiveMessage :: "Session \<Rightarrow> BFD \<Rightarrow> Session result option" where
  "ReceiveMessage s msg =
    (if shouldDiscard msg then Some (Ok s)
     else if closed s then Some Panic
     else if length (messages s) < max 1 (ReceiveQueueSize s)
     then Some (Ok (s\<lparr>messages := messages s @ [to_message msg]\<rparr>))
     else None)"

definition Close :: "Session \<Rightarrow> Session result" where
  "Close s = (if closed s then Panic else Ok (s\<lparr>closed := True\<rparr>))"

section \<open>The main loop as a step relation\<close>

text \<open>A control packet as gopacket decodes it: the state is two bits wide.\<close>

definition wire_packet :: "BFD \<Rightarrow> bool" where
  "wire_packet pkt \<longleftrightarrow> BState pkt < 4"

inductive session_step :: "Session \<Rightarrow> Session result \<Rightarrow> bool" where
  receive: "wire_packet pkt \<Longrightarrow> ReceiveMessage s pkt = Some r \<Longrightarrow> session_step s r"
| message: "messages s = msg # rest \<Longrightarrow> (\<And>n. 0 < n \<Longrightarrow> 0 \<le> intn n \<and> intn n < n)
    \<Longrightarrow> session_step s (Run_message intn (s\<lparr>messages := rest\<rparr>) msg)"
| send: "(\<And>n. 0 < n \<Longrightarrow> 0 \<le> intn n \<and> intn n < n) \<Longrightarrow> session_step s (Run_send intn s)"
| detect: "session_step s (Run_detect s)"

inductive session_reach :: "Session \<Rightarrow> Session \<Rightarrow> bool" for s0 where
  start: "Run_init s0 = (s, Ok ()) \<Longrightarrow> session_reach s0 s"
| step: "session_reach s0 s \<Longrightarrow> session_step s (Ok s') \<Longrightarrow> session_reach s0 s'"

inductive_cases session_stepE: "session_step s r"

section \<open>Transitions\<close>

lemmas bfd_states = stateAdminDown_def stateDown_def stateInit_def stateUp_def
lemmas bfd_events = eventAdminDown_def eventDown_def eventInit_def eventUp_def eventTimer_def eventAdminUp_def

lemma u8_less4: "(t::u8) < 4 \<longleftrightarrow> t = 0 \<or> t = 1 \<or> t = 2 \<or> t = 3"
proof
  assume "t < 4"
  then have "unat t < 4" by (simp add: word_less_nat_alt)
  then have "unat t \<in> {0, 1, 2, 3}" by auto
  then show "t = 0 \<or> t = 1 \<or> t = 2 \<or> t = 3"
    by (auto simp: word_unat_eq_iff)
qed auto

text \<open>The table of RFC 5880 for a state and the state the peer reports.\<close>

lemma transition_message:
  assumes "st < 4" "m < 4"
  shows "transition st (uint m) = Ok
    (if st = stateAdminDown \<or> m = stateAdminDown then stateAdminDown
     else if st = stateDown then (if m = stateDown then stateInit else if m = stateInit then stateUp else stateDown)
     else if st = stateInit then (if m = stateDown then stateInit else stateUp)
     else (if m = stateDown then stateDown else stateUp))"
  using assms unfolding u8_less4
  by (elim disjE) (simp_all add: transition_def bfd_states bfd_events)

lemma transition_timer:
  "st < 4 \<Longrightarrow> transition st eventTimer = Ok (if st = stateAdminDown then stateAdminDown else stateDown)"
  unfolding u8_less4 by (elim disjE) (simp_all add: transition_def bfd_states bfd_events)

section \<open>Invariant of a running session\<close>

definition valid_msg :: "bfdMessage \<Rightarrow> bool" where
  "valid_msg m \<longleftrightarrow> MState m < 4 \<and> MDetectMultiplier m \<noteq> 0 \<and> MMyDiscriminator m \<noteq> 0"

definition session_inv :: "Session \<Rightarrow> bool" where
  "session_inv s \<longleftrightarrow> DetectMult s \<noteq> 0 \<and> Microsecond \<le> DesiredMinTxInterval s \<and> Microsecond \<le> RequiredMinRxInterval s
     \<and> LocalDiscriminator s \<noteq> 0 \<and> \<not> closed s \<and> localState s < 4 \<and> remoteState s < 4
     \<and> Microsecond \<le> desiredMinTXInterval s \<and> 0 < detectionTimer s \<and> 0 < sendTimer s
     \<and> (\<forall>m\<in>set (messages s). valid_msg m)
     \<and> (localState s = stateUp \<longrightarrow> remoteState s = stateInit \<or> remoteState s = stateUp)
     \<and> (localState s = stateInit \<longrightarrow> remoteState s = stateDown)"

lemma durationToBFDInterval_pos:
  "durationToBFDInterval d = Ok i \<Longrightarrow> i \<noteq> 0 \<Longrightarrow> Microsecond \<le> d"
proof -
  assume *: "durationToBFDInterval d = Ok i" "i \<noteq> 0"
  then have "d div 1000 \<noteq> 0" "0 \<le> d"
    by (auto simp: durationToBFDInterval_def Let_def Microsecond_def split: if_splits)
  then show ?thesis by (auto simp: Microsecond_def)
qed

definition good_intn :: "(int \<Rightarrow> int) \<Rightarrow> bool" where
  "good_intn intn \<longleftrightarrow> (\<forall>n. 0 < n \<longrightarrow> 0 \<le> intn n \<and> intn n < n)"

lemma computeInterval_spec:
  assumes "0 < t" "0 < k" "good_intn intn"
  shows "\<exists>d. computeInterval intn t k = Ok d \<and> 75 * t \<le> 100 * d + 99 \<and> d \<le> t
    \<and> (k = 1 \<longrightarrow> 10 * d \<le> 9 * t)"
proof -
  define lo where "lo = (if k = 1 then 10 else 0 :: int)"
  define j where "j = intn (25 - lo) + lo"
  have j: "lo \<le> j" "j \<le> 24"
    using assms(3) [unfolded good_intn_def, rule_format, of "25 - lo"] by (auto simp: j_def lo_def split: if_splits)
  have eq: "computeInterval intn t k = Ok ((t * (100 - j)) div 100)"
    using assms(1,2) by (simp add: computeInterval_def Generate_def minJitter_def minJitterDetectMult1_def
        maxJitter_def j_def lo_def Let_def)
  define p q where "p = t * (100 - j)" and "q = p div 100"
  have "t * 76 \<le> p" using assms(1) j unfolding p_def by (intro mult_left_mono) auto
  moreover have "p \<le> t * (100 - lo)" using assms(1) j unfolding p_def by (intro mult_left_mono) auto
  moreover have "100 * q \<le> p" "p < 100 * q + 100" unfolding q_def by linarith+
  moreover have "lo = (if k = 1 then 10 else 0)" by (simp add: lo_def)
  ultimately have "75 * t \<le> 100 * q + 99 \<and> q \<le> t \<and> (k = 1 \<longrightarrow> 10 * q \<le> 9 * t)"
    using assms(1) by (cases "k = 1") auto
  then show ?thesis unfolding eq by (simp add: p_def q_def)
qed

lemma computeInterval_pos:
  assumes "Microsecond \<le> t" "0 < k" "good_intn intn"
  shows "\<exists>d. computeInterval intn t k = Ok d \<and> 0 < d"
  using computeInterval_spec [of t k intn] assms by (auto simp: Microsecond_def)

lemma session_inv_init:
  assumes "Run_init s0 = (s, Ok ())" and "remoteState s0 < 4" and "messages s0 = []" and "\<not> closed s0"
  shows "session_inv s"
proof -
  have v: "validateParameters (s0\<lparr>runMarker := True\<rparr>) = Ok ()"
    using assms(1) by (auto simp: Run_init_def runOnceCheck_def split: if_splits result.splits)
  then have "DetectMult s0 \<noteq> 0" "LocalDiscriminator s0 \<noteq> 0"
      "Microsecond \<le> DesiredMinTxInterval s0" "Microsecond \<le> RequiredMinRxInterval s0"
    using durationToBFDInterval_pos
    by (auto simp: validateParameters_def bindR_eq_Ok wrapR_eq_Ok split: if_splits)
  moreover have "s = (let t = s0\<lparr>runMarker := True\<rparr> in
      (if RemoteDiscriminator t \<noteq> 0 then t\<lparr>remoteDiscriminator := RemoteDiscriminator t\<rparr> else t)
        \<lparr>detectionTimer := defaultDetectionTimeout, localState := stateDown,
         desiredMinTXInterval := defaultTransmissionInterval, sendTimer := defaultTransmissionInterval\<rparr>)"
    using assms(1) v by (auto simp: Run_init_def runOnceCheck_def Let_def split: if_splits)
  ultimately show ?thesis
    using assms(2-) by (simp add: session_inv_def Let_def bfd_states defaultDetectionTimeout_def Minute_def
        Second_def defaultTransmissionInterval_def Microsecond_def split: if_splits)
qed

lemma Run_message_eq:
  assumes inv: "session_inv s" and msg: "valid_msg m" and intn: "good_intn intn"
  shows "\<exists>d st. transition (localState s) (uint (MState m)) = Ok st \<and> 0 < d
    \<and> Run_message intn s m = Ok (s\<lparr>detectionTimer := uint (MDetectMultiplier m)
           * max (RequiredMinRxInterval s) (bfdIntervalToDuration (MDesiredMinTxInterval m)),
        remoteState := MState m, remoteMinRxInterval := bfdIntervalToDuration (MRequiredMinRxInterval m),
        remoteDiscriminator := (if remoteDiscriminator s = 0 then MMyDiscriminator m else remoteDiscriminator s),
        localState := st,
        desiredMinTXInterval := (if localState s = stateDown \<and> st \<noteq> stateDown then DesiredMinTxInterval s
                                 else desiredMinTXInterval s),
        sendTimer := (if localState s = stateDown \<and> st \<noteq> stateDown then d else sendTimer s)\<rparr>)"
proof -
  have "localState s < 4" "MState m < 4" using inv msg by (simp_all add: session_inv_def valid_msg_def)
  then obtain st where st: "transition (localState s) (uint (MState m)) = Ok st"
    using transition_message by blast
  have "0 < unat (DetectMult s)" using inv by (simp add: session_inv_def unat_gt_0)
  moreover have "Microsecond \<le> max (DesiredMinTxInterval s) (bfdIntervalToDuration (MRequiredMinRxInterval m))"
    using inv by (auto simp: session_inv_def max_def)
  ultimately obtain d where d: "computeInterval intn
      (max (DesiredMinTxInterval s) (bfdIntervalToDuration (MRequiredMinRxInterval m))) (unat (DetectMult s)) = Ok d"
      "0 < d"
    using computeInterval_pos [OF _ _ intn] by blast
  define s1 where "s1 = s\<lparr>detectionTimer := uint (MDetectMultiplier m)
           * max (RequiredMinRxInterval s) (bfdIntervalToDuration (MDesiredMinTxInterval m)),
        remoteState := MState m, remoteMinRxInterval := bfdIntervalToDuration (MRequiredMinRxInterval m),
        remoteDiscriminator := (if remoteDiscriminator s = 0 then MMyDiscriminator m else remoteDiscriminator s)\<rparr>"
  have s1: "localState s1 = localState s" "remoteState s1 = MState m" "DesiredMinTxInterval s1 = DesiredMinTxInterval s"
      "remoteMinRxInterval s1 = bfdIntervalToDuration (MRequiredMinRxInterval m)" "DetectMult s1 = DetectMult s"
      "desiredMinTXInterval s1 = desiredMinTXInterval s" "sendTimer s1 = sendTimer s"
    by (simp_all add: s1_def)
  have "Run_message intn s m = bindR (Session_transition s1 (uint (remoteState s1))) (\<lambda>t.
     if localState s1 = stateDown \<and> localState t \<noteq> stateDown
     then let t = t\<lparr>desiredMinTXInterval := DesiredMinTxInterval t\<rparr> in
       mapR (\<lambda>d. t\<lparr>sendTimer := d\<rparr>) (computeNextSendInterval intn t)
     else Ok t)"
    unfolding Run_message_def Let_def s1_def by (cases "remoteDiscriminator s = 0") simp_all
  also have "\<dots> = Ok (s1\<lparr>localState := st,
        desiredMinTXInterval := (if localState s = stateDown \<and> st \<noteq> stateDown then DesiredMinTxInterval s
                                 else desiredMinTXInterval s),
        sendTimer := (if localState s = stateDown \<and> st \<noteq> stateDown then d else sendTimer s)\<rparr>)"
  proof (cases "localState s = stateDown \<and> st \<noteq> stateDown")
    case True
    then have "transition stateDown (uint (MState m)) = Ok st" using st by simp
    with True show ?thesis by (simp add: Session_transition_def s1 d computeNextSendInterval_def)
  next
    case False
    have "s1\<lparr>localState := st, desiredMinTXInterval := desiredMinTXInterval s, sendTimer := sendTimer s\<rparr> = s1\<lparr>localState := st\<rparr>"
      using s1(6,7) by (intro Session.equality) simp_all
    moreover have "Session_transition s1 (uint (remoteState s1)) = Ok (s1\<lparr>localState := st\<rparr>)"
      by (simp add: Session_transition_def s1 st)
    moreover have "(localState s1 = stateDown \<and> localState (s1\<lparr>localState := st\<rparr>) \<noteq> stateDown) = False"
      using False by (simp add: s1)
    ultimately show ?thesis using False by (simp only: bindR.simps if_False)
  qed
  finally show ?thesis using st d(2) unfolding s1_def by blast
qed

lemma session_inv_message:
  assumes inv: "session_inv s" and msg: "valid_msg m" and intn: "good_intn intn"
  shows "\<exists>s'. Run_message intn s m = Ok s' \<and> session_inv s'"
proof -
  obtain d st where st: "transition (localState s) (uint (MState m)) = Ok st" "0 < d"
    and eq: "Run_message intn s m = Ok (s\<lparr>detectionTimer := uint (MDetectMultiplier m)
           * max (RequiredMinRxInterval s) (bfdIntervalToDuration (MDesiredMinTxInterval m)),
        remoteState := MState m, remoteMinRxInterval := bfdIntervalToDuration (MRequiredMinRxInterval m),
        remoteDiscriminator := (if remoteDiscriminator s = 0 then MMyDiscriminator m else remoteDiscriminator s),
        localState := st,
        desiredMinTXInterval := (if localState s = stateDown \<and> st \<noteq> stateDown then DesiredMinTxInterval s
                                 else desiredMinTXInterval s),
        sendTimer := (if localState s = stateDown \<and> st \<noteq> stateDown then d else sendTimer s)\<rparr>)"
    using Run_message_eq [OF assms] by blast
  have l: "localState s < 4" "MState m < 4" using inv msg by (simp_all add: session_inv_def valid_msg_def)
  have states: "st < 4 \<and> (st = stateUp \<longrightarrow> MState m = stateInit \<or> MState m = stateUp)
      \<and> (st = stateInit \<longrightarrow> MState m = stateDown)"
    using st(1) transition_message [OF l] l(2) unfolding u8_less4
    by (auto simp: bfd_states split: if_splits)
  have "0 < uint (MDetectMultiplier m)"
    using msg by (simp add: valid_msg_def uint_0_iff order_less_le)
  moreover have "0 < max (RequiredMinRxInterval s) (bfdIntervalToDuration (MDesiredMinTxInterval m))"
    using inv by (auto simp: session_inv_def Microsecond_def max_def)
  ultimately show ?thesis
    using inv msg states st(2) unfolding eq
    by (auto simp: session_inv_def valid_msg_def)
qed

lemma session_inv_send:
  assumes inv: "session_inv s" and intn: "good_intn intn"
  shows "\<exists>s' pkt. Run_send intn s = Ok s' \<and> session_inv s' \<and> s' = s\<lparr>sendTimer := sendTimer s', sent := sent s @ [pkt]\<rparr>
    \<and> localState s' = localState s \<and> BState pkt = localState s \<and> BMyDiscriminator pkt = LocalDiscriminator s
    \<and> BYourDiscriminator pkt = remoteDiscriminator s \<and> BDetectMultiplier pkt = DetectMult s
    \<and> (shouldDiscard pkt \<longleftrightarrow> remoteDiscriminator s = 0 \<and> localState s \<noteq> stateAdminDown \<and> localState s \<noteq> stateDown)"
proof -
  have "0 < unat (DetectMult s)" "Microsecond \<le> max (desiredMinTXInterval s) (remoteMinRxInterval s)"
    using inv by (auto simp: session_inv_def unat_gt_0 max_def)
  then obtain d where d: "computeNextSendInterval intn s = Ok d" "0 < d"
    unfolding computeNextSendInterval_def using computeInterval_pos [OF _ _ intn] by blast
  obtain pkt where pkt: "Run_send intn s = Ok (s\<lparr>sendTimer := d, sent := sent s @ [pkt]\<rparr>)"
    "BVersion pkt = 1" "BState pkt = localState s" "\<not> BAuthPresent pkt" "BLength pkt = 24"
    "BDetectMultiplier pkt = DetectMult s" "\<not> BMultipoint pkt" "BMyDiscriminator pkt = LocalDiscriminator s"
    "BYourDiscriminator pkt = remoteDiscriminator s" "BAuthType pkt = None" "\<not> BPoll pkt" "\<not> BFinal pkt"
    "BRequiredMinEchoRxInterval pkt = 0" "\<not> BDemand pkt"
    unfolding Run_send_def d(1) Let_def by simp
  have "session_inv (s\<lparr>sendTimer := d, sent := sent s @ [pkt]\<rparr>)"
    using inv d(2) by (simp add: session_inv_def)
  moreover have "shouldDiscard pkt \<longleftrightarrow> remoteDiscriminator s = 0 \<and> localState s \<noteq> stateAdminDown \<and> localState s \<noteq> stateDown"
    using inv pkt(2-) by (simp add: shouldDiscard_def session_inv_def)
  moreover have "s\<lparr>sendTimer := d, sent := sent s @ [pkt]\<rparr>
      = s\<lparr>sendTimer := sendTimer (s\<lparr>sendTimer := d, sent := sent s @ [pkt]\<rparr>), sent := sent s @ [pkt]\<rparr>"
    by simp
  moreover have "localState (s\<lparr>sendTimer := d, sent := sent s @ [pkt]\<rparr>) = localState s" by simp
  ultimately show ?thesis using pkt by blast
qed

lemma session_inv_detect:
  assumes "session_inv s"
  shows "\<exists>s'. Run_detect s = Ok s' \<and> session_inv s' \<and> remoteDiscriminator s' = 0
    \<and> localState s' = (if localState s = stateAdminDown then stateAdminDown else stateDown)"
proof -
  have "localState s < 4" using assms by (simp add: session_inv_def)
  from transition_timer [OF this] show ?thesis
    using assms
    by (auto simp: Run_detect_def Session_transition_def session_inv_def Let_def bfd_states
        defaultDetectionTimeout_def Minute_def Second_def defaultTransmissionInterval_def Microsecond_def)
qed

lemma session_inv_receive:
  assumes "session_inv s" "wire_packet pkt" "ReceiveMessage s pkt = Some r"
  shows "\<exists>s'. r = Ok s' \<and> session_inv s' \<and> localState s' = localState s"
  using assms
  by (auto simp: ReceiveMessage_def session_inv_def wire_packet_def to_message_def valid_msg_def
      shouldDiscard_def split: if_splits)

lemma session_inv_step:
  assumes "session_inv s" and "session_step s r"
  shows "\<exists>s'. r = Ok s' \<and> session_inv s' \<and> (localState s = stateAdminDown \<longrightarrow> localState s' = stateAdminDown)"
  using assms(2)
proof cases
  case (receive pkt)
  then show ?thesis using session_inv_receive [OF assms(1)] by metis
next
  case (message msg rest intn)
  have intn: "good_intn intn" using message(3) by (simp add: good_intn_def)
  have inv: "session_inv (s\<lparr>messages := rest\<rparr>)" and msg: "valid_msg msg"
    using assms(1) message(2) by (auto simp: session_inv_def)
  obtain s' where s': "r = Ok s'" "session_inv s'"
    using session_inv_message [OF inv msg intn] message(1) by auto
  moreover have "localState s' = stateAdminDown" if "localState s = stateAdminDown"
  proof -
    have "MState msg < 4" using msg by (simp add: valid_msg_def)
    then have "transition stateAdminDown (uint (MState msg)) = Ok stateAdminDown"
      using transition_message [of stateAdminDown "MState msg"] by (simp add: bfd_states)
    then show ?thesis
      using Run_message_eq [OF inv msg intn] s'(1) message(1) that by auto
  qed
  ultimately show ?thesis by blast
next
  case (send intn)
  then have "good_intn intn" by (simp add: good_intn_def)
  then obtain s' where "Run_send intn s = Ok s'" "session_inv s'" "localState s' = localState s"
    using session_inv_send [OF assms(1)] by blast
  then show ?thesis using send by auto
next
  case detect
  then show ?thesis using session_inv_detect [OF assms(1)] by auto
qed

lemma session_reach_inv:
  assumes "session_reach s0 s" and "remoteState s0 < 4" and "messages s0 = []" and "\<not> closed s0"
  shows "session_inv s"
  using assms(1)
proof induction
  case (start s)
  then show ?case using session_inv_init assms(2-) by blast
next
  case (step s s')
  then show ?case using session_inv_step [of s "Ok s'"] by auto
qed

section \<open>Properties\<close>

text \<open>A session that passed the parameter checks of \<^verbatim>\<open>Run\<close> never panics, whatever packets arrive and
  whenever its timers fire; its timers are always armed with a positive duration; and it is up only
  while the peer has last reported Init or Up.\<close>

lemma bfd_session_safe:
  assumes "session_reach s0 s" and "remoteState s0 < 4" and "messages s0 = []" and "\<not> closed s0"
  shows "0 < detectionTimer s \<and> 0 < sendTimer s
    \<and> (IsUp s \<longrightarrow> remoteState s = stateInit \<or> remoteState s = stateUp)
    \<and> (\<forall>r. session_step s r \<longrightarrow> r \<noteq> Panic)"
proof -
  have inv: "session_inv s" by (rule session_reach_inv [OF assms])
  moreover have "r \<noteq> Panic" if "session_step s r" for r
    using session_inv_step [OF inv that] by auto
  ultimately show ?thesis by (auto simp: session_inv_def IsUp_def)
qed

definition sample_session :: "u32 \<Rightarrow> Session" where
  "sample_session disc = \<lparr>hasSender = True, LocalDiscriminator = disc, RemoteDiscriminator = 0, remoteDiscriminator = 0,
     DesiredMinTxInterval = 200000000, RequiredMinRxInterval = 200000000, DetectMult = 3, ReceiveQueueSize = 10,
     messages = [], closed = False, localState = 0, runMarker = False, desiredMinTXInterval = 0, remoteState = 0,
     remoteMinRxInterval = 0, detectionTimer = 0, sendTimer = 0, sent = []\<rparr>"

lemma sample_session_runs:
  "disc \<noteq> 0 \<Longrightarrow> \<exists>s. Run_init (sample_session disc) = (s, Ok ()) \<and> localState s = stateDown"
  by (simp add: sample_session_def Run_init_def runOnceCheck_def validateParameters_def durationToBFDInterval_def
      Microsecond_def Let_def)

lemma bfd_session_safe_witness:
  "\<exists>s. Run_init (sample_session 7) = (s, Ok ()) \<and> 0 < sendTimer s \<and> (\<forall>r. session_step s r \<longrightarrow> r \<noteq> Panic)"
proof -
  obtain s where s: "Run_init (sample_session 7) = (s, Ok ())" using sample_session_runs [of 7] by auto
  from bfd_session_safe [OF session_reach.start [OF s]] show ?thesis
    using s by (simp add: sample_session_def)
qed

text \<open>Runs of the loop from a state on, and what is sent on the way.\<close>

abbreviation session_run :: "Session \<Rightarrow> Session \<Rightarrow> bool" where
  "session_run \<equiv> rtranclp (\<lambda>a b. session_step a (Ok b))"

lemma step_sent:
  assumes "session_inv s" and "session_step s (Ok s')"
  shows "\<exists>pkts. sent s' = sent s @ pkts \<and> (\<forall>pkt \<in> set pkts. BState pkt = localState s)"
  using assms(2)
proof cases
  case (receive pkt)
  then have "sent s' = sent s" by (auto simp: ReceiveMessage_def split: if_splits)
  then show ?thesis by simp
next
  case (message msg rest intn)
  have intn: "good_intn intn" using message(3) by (simp add: good_intn_def)
  have inv: "session_inv (s\<lparr>messages := rest\<rparr>)" and msg: "valid_msg msg"
    using assms(1) message(2) by (auto simp: session_inv_def)
  have "sent s' = sent s" using Run_message_eq [OF inv msg intn] message(1) by auto
  then show ?thesis by simp
next
  case (send intn)
  then have "good_intn intn" by (simp add: good_intn_def)
  then obtain pkt where "s' = s\<lparr>sendTimer := sendTimer s', sent := sent s @ [pkt]\<rparr>" "BState pkt = localState s"
    using session_inv_send [OF assms(1)] send by (metis result.inject(1))
  then have "sent s' = sent s @ [pkt]" "BState pkt = localState s" by (metis Session.select_convs(18) Session.surjective Session.update_convs(18), simp)
  then show ?thesis by auto
next
  case detect
  then have run: "Run_detect s = Ok s'" by simp
  then obtain st where "transition (localState s) eventTimer = Ok st"
    unfolding Run_detect_def Session_transition_def by (cases "transition (localState s) eventTimer") simp_all
  with run have "sent s' = sent s" unfolding Run_detect_def Session_transition_def Let_def by (simp split: if_splits) force+
  then show ?thesis by simp
qed

lemma admin_down_run:
  assumes "session_run s s'" and "session_inv s" and "localState s = stateAdminDown"
  shows "session_inv s' \<and> localState s' = stateAdminDown \<and> (\<exists>pkts. sent s' = sent s @ pkts \<and> (\<forall>pkt \<in> set pkts. BState pkt = stateAdminDown))"
  using assms(1)
proof induction
  case base
  then show ?case using assms by simp
next
  case (step s1 s2)
  then obtain pkts where inv: "session_inv s1" "localState s1 = stateAdminDown"
    and pkts: "sent s1 = sent s @ pkts" "\<forall>pkt \<in> set pkts. BState pkt = stateAdminDown" by blast
  obtain more where "sent s2 = sent s1 @ more" "\<forall>pkt \<in> set more. BState pkt = stateAdminDown"
    using step_sent [OF inv(1) step.hyps(2)] inv(2) by auto
  then have "sent s2 = sent s @ (pkts @ more)" "\<forall>pkt \<in> set (pkts @ more). BState pkt = stateAdminDown" using pkts by auto
  then show ?case using session_inv_step [OF inv(1) step.hyps(2)] inv(2) by blast
qed

text \<open>C40: a peer that reports AdminDown takes a session out for good. In whatever state the running session is (Up and
  Init included) when its loop takes a control packet with the state AdminDown from its queue, it goes to AdminDown,
  and from then on no packet and no timer leads out of that state: the link is never reported up again while the
  session runs, and every control packet it sends carries the state AdminDown.\<close>

theorem bfd_admin_down_absorbing:
  assumes "session_reach s0 s" and "remoteState s0 < 4" and "messages s0 = []" and "\<not> closed s0"
    and "messages s = msg # rest" and "MState msg = stateAdminDown" and "good_intn intn"
  shows "\<exists>s1. Run_message intn (s\<lparr>messages := rest\<rparr>) msg = Ok s1 \<and> localState s1 = stateAdminDown
    \<and> (\<forall>s'. session_run s1 s' \<longrightarrow> localState s' = stateAdminDown \<and> \<not> IsUp s'
         \<and> (\<exists>pkts. sent s' = sent s1 @ pkts \<and> (\<forall>pkt \<in> set pkts. BState pkt = stateAdminDown)))"
proof -
  have inv: "session_inv (s\<lparr>messages := rest\<rparr>)" and msg: "valid_msg msg"
    using session_reach_inv [OF assms(1-4)] assms(5) by (auto simp: session_inv_def)
  have "localState s < 4" using inv by (simp add: session_inv_def)
  then have "transition (localState s) (uint (MState msg)) = Ok stateAdminDown"
    using transition_message [of "localState s" "MState msg"] assms(6) by (auto simp: u8_less4 bfd_states)
  then obtain s1 where s1: "Run_message intn (s\<lparr>messages := rest\<rparr>) msg = Ok s1" "localState s1 = stateAdminDown"
    using Run_message_eq [OF inv msg assms(7)] by auto
  moreover have "session_inv s1" using session_inv_message [OF inv msg assms(7)] s1(1) by auto
  ultimately show ?thesis using admin_down_run [of s1] by (auto simp: IsUp_def bfd_states)
qed

text \<open>A packet that arrives at an empty queue and is taken from it.\<close>

lemma reach_packet:
  assumes s: "session_reach s0 s" and pre: "remoteState s0 < 4" "messages s0 = []" "\<not> closed s0"
    and pkt: "messages s = []" "wire_packet pkt" "\<not> shouldDiscard pkt"
    and st: "transition (localState s) (uint (BState pkt)) = Ok st"
  shows "\<exists>s1 s2. session_reach s0 s1 \<and> messages s1 = [to_message pkt] \<and> localState s1 = localState s
    \<and> session_reach s0 s2 \<and> messages s2 = [] \<and> localState s2 = st"
proof -
  have inv: "session_inv s" by (rule session_reach_inv [OF s pre])
  define s1 where "s1 = s\<lparr>messages := [to_message pkt]\<rparr>"
  have "ReceiveMessage s pkt = Some (Ok s1)" using pkt inv by (simp add: ReceiveMessage_def session_inv_def s1_def)
  then have r1: "session_reach s0 s1" using session_reach.step [OF s] session_step.receive [OF pkt(2)] by blast
  have inv1: "session_inv (s1\<lparr>messages := []\<rparr>)" and msg: "valid_msg (to_message pkt)"
    using session_reach_inv [OF r1 pre] by (simp_all add: session_inv_def s1_def)
  have intn: "good_intn (\<lambda>_. 0)" by (simp add: good_intn_def)
  obtain s2 where s2: "Run_message (\<lambda>_. 0) (s1\<lparr>messages := []\<rparr>) (to_message pkt) = Ok s2" "localState s2 = st" "messages s2 = []"
    using Run_message_eq [OF inv1 msg intn] st by (auto simp: s1_def to_message_def)
  have "session_step s1 (Ok s2)"
    using session_step.message [of s1 "to_message pkt" "[]" "\<lambda>_. 0"] s2(1) by (simp add: s1_def)
  with r1 have "session_reach s0 s2" by (rule session_reach.step)
  then show ?thesis using r1 s2 by (auto simp: s1_def)
qed

text \<open>Packets of a peer: one that brings a session up, and one that says AdminDown.\<close>

definition admin_down_packet :: BFD where
  "admin_down_packet = \<lparr>BVersion = 1, BState = stateAdminDown, BAuthPresent = False, BLength = 24, BDetectMultiplier = 3,
     BMultipoint = False, BMyDiscriminator = 9, BYourDiscriminator = 7, BAuthType = None, BPoll = False, BFinal = False,
     BRequiredMinEchoRxInterval = 0, BDemand = False, BDesiredMinTxInterval = 200000, BRequiredMinRxInterval = 200000\<rparr>"

theorem bfd_admin_down_absorbing_witness:
  "\<exists>s s1. session_reach (sample_session 7) s \<and> IsUp s \<and> messages s = [to_message admin_down_packet]
    \<and> Run_message (\<lambda>_. 0) (s\<lparr>messages := []\<rparr>) (to_message admin_down_packet) = Ok s1
    \<and> (\<forall>s'. session_run s1 s' \<longrightarrow> \<not> IsUp s')"
proof -
  obtain s1 where s1: "Run_init (sample_session 7) = (s1, Ok ())" "localState s1 = stateDown"
    using sample_session_runs [of 7] by auto
  have r1: "session_reach (sample_session 7) s1" by (rule session_reach.start [OF s1(1)])
  have pre: "remoteState (sample_session 7) < 4" "messages (sample_session 7) = []" "\<not> closed (sample_session 7)"
    by (simp_all add: sample_session_def)
  have m1: "messages s1 = []"
    using s1(1) by (auto simp: sample_session_def Run_init_def runOnceCheck_def validateParameters_def
        durationToBFDInterval_def Microsecond_def Let_def)
  have pk: "wire_packet admin_down_packet" "\<not> shouldDiscard admin_down_packet"
      "wire_packet (admin_down_packet\<lparr>BState := stateInit\<rparr>)" "\<not> shouldDiscard (admin_down_packet\<lparr>BState := stateInit\<rparr>)"
    by (simp_all add: wire_packet_def shouldDiscard_def admin_down_packet_def bfd_states)
  obtain s2 where s2: "session_reach (sample_session 7) s2" "messages s2 = []" "localState s2 = stateUp"
    using reach_packet [OF r1 pre m1 pk(3,4), of stateUp] s1(2) by (auto simp: transition_def bfd_states bfd_events)
  obtain s3 where s3: "session_reach (sample_session 7) s3" "messages s3 = [to_message admin_down_packet]" "localState s3 = stateUp"
    using reach_packet [OF s2(1) pre s2(2) pk(1,2), of stateAdminDown] s2(3)
    by (auto simp: transition_def admin_down_packet_def bfd_states bfd_events)
  have "MState (to_message admin_down_packet) = stateAdminDown" "good_intn (\<lambda>_. 0)"
    by (simp_all add: to_message_def admin_down_packet_def good_intn_def)
  from bfd_admin_down_absorbing [OF s3(1) pre s3(2) this] s3 show ?thesis by (auto simp: IsUp_def)
qed

text \<open>The interval to the next packet is the negotiated interval reduced by less than a quarter, and by
  at least a tenth when a single lost packet already takes the session down.\<close>

lemma bfd_jitter_bounds:
  assumes "0 < t" and "0 < k" and "good_intn intn"
  shows "\<exists>d. computeInterval intn t k = Ok d \<and> 75 * t \<le> 100 * d + 99 \<and> d \<le> t \<and> (k = 1 \<longrightarrow> 10 * d \<le> 9 * t)"
  using assms by (rule computeInterval_spec)

lemma bfd_jitter_bounds_witness:
  "\<exists>d. computeInterval (\<lambda>n. n - 1) 1000000 1 = Ok d \<and> 750000 \<le> d \<and> d \<le> 900000"
  using bfd_jitter_bounds [of 1000000 1 "\<lambda>n. n - 1"] by (auto simp: good_intn_def)

section \<open>Bringing a session up\<close>

text \<open>One exchange: a session's send timer fires, and the peer receives and processes the packet.\<close>

definition deliver :: "(int \<Rightarrow> int) \<Rightarrow> Session \<Rightarrow> Session \<Rightarrow> (Session \<times> Session) result" where
  "deliver intn a b =
     bindR (Run_send intn a) (\<lambda>a'.
     case ReceiveMessage b (last (sent a')) of
       None \<Rightarrow> Fail (Err ''blocked'')
     | Some r \<Rightarrow> bindR r (\<lambda>b'.
         case messages b' of
           [] \<Rightarrow> Ok (a', b')
         | m # rest \<Rightarrow> mapR (Pair a') (Run_message intn (b'\<lparr>messages := rest\<rparr>) m)))"

lemma deliver_spec:
  assumes a: "session_inv a" and b: "session_inv b" "messages b = []" and intn: "good_intn intn"
    and acc: "remoteDiscriminator a \<noteq> 0 \<or> localState a = stateDown"
  shows "\<exists>a' b'. deliver intn a b = Ok (a', b') \<and> session_inv a' \<and> session_inv b'
    \<and> messages b' = [] \<and> messages a' = messages a \<and> localState a' = localState a
    \<and> remoteDiscriminator a' = remoteDiscriminator a \<and> remoteDiscriminator b' \<noteq> 0
    \<and> transition (localState b) (uint (localState a)) = Ok (localState b')"
proof -
  obtain a' pkt where a': "Run_send intn a = Ok a'" "session_inv a'"
      "a' = a\<lparr>sendTimer := sendTimer a', sent := sent a @ [pkt]\<rparr>" "localState a' = localState a"
      and pkt: "BState pkt = localState a" "BMyDiscriminator pkt = LocalDiscriminator a"
      "BDetectMultiplier pkt = DetectMult a" "\<not> shouldDiscard pkt"
    using session_inv_send [OF a intn] acc by blast
  have fields: "sent a' = sent a @ [pkt]" "messages a' = messages a" "remoteDiscriminator a' = remoteDiscriminator a"
    by (subst a'(3), simp)+
  have rcv: "ReceiveMessage b pkt = Some (Ok (b\<lparr>messages := [to_message pkt]\<rparr>))"
    using b pkt(4) by (simp add: ReceiveMessage_def session_inv_def)
  have valid: "valid_msg (to_message pkt)"
    using a pkt by (simp add: valid_msg_def to_message_def session_inv_def)
  have self: "b\<lparr>messages := []\<rparr> = b" using b(2) by (cases b) simp
  obtain d st where st: "transition (localState b) (uint (localState a)) = Ok st"
    and run: "Run_message intn b (to_message pkt) = Ok (b\<lparr>detectionTimer := uint (MDetectMultiplier (to_message pkt))
           * max (RequiredMinRxInterval b) (bfdIntervalToDuration (MDesiredMinTxInterval (to_message pkt))),
        remoteState := MState (to_message pkt), remoteMinRxInterval := bfdIntervalToDuration (MRequiredMinRxInterval (to_message pkt)),
        remoteDiscriminator := (if remoteDiscriminator b = 0 then MMyDiscriminator (to_message pkt) else remoteDiscriminator b),
        localState := st,
        desiredMinTXInterval := (if localState b = stateDown \<and> st \<noteq> stateDown then DesiredMinTxInterval b
                                 else desiredMinTXInterval b),
        sendTimer := (if localState b = stateDown \<and> st \<noteq> stateDown then d else sendTimer b)\<rparr>)"
    using Run_message_eq [OF b(1) valid intn] pkt(1) by (auto simp: to_message_def)
  obtain b' where b': "Run_message intn b (to_message pkt) = Ok b'" "session_inv b'"
    using session_inv_message [OF b(1) valid intn] by blast
  have md: "MMyDiscriminator (to_message pkt) \<noteq> 0" using valid by (simp add: valid_msg_def)
  from run b'(1) have eq: "localState b' = st" "messages b' = messages b"
      "remoteDiscriminator b' = (if remoteDiscriminator b = 0 then MMyDiscriminator (to_message pkt) else remoteDiscriminator b)"
    by simp_all
  then have "localState b' = st" "messages b' = []" "remoteDiscriminator b' \<noteq> 0"
    using md b(2) by simp_all
  moreover have "deliver intn a b = Ok (a', b')"
    using a'(1) fields(1) rcv b'(1) by (simp add: deliver_def self)
  ultimately show ?thesis using a' b'(2) fields st by blast
qed

text \<open>C29: two running sessions that are down reach the state Up on both sides after three packets, one in
  each direction and one back, whatever the random jitter.\<close>

theorem bfd_handshake:
  assumes "session_inv a" and "session_inv b" and "messages a = []" and "messages b = []"
    and "localState a = stateDown" and "localState b = stateDown" and "good_intn intn"
  shows "\<exists>a1 b1 a2 b2 a3 b3. deliver intn a b = Ok (a1, b1) \<and> deliver intn b1 a1 = Ok (b2, a2)
    \<and> deliver intn a2 b2 = Ok (a3, b3) \<and> IsUp a3 \<and> IsUp b3"
proof -
  obtain a1 b1 where 1: "deliver intn a b = Ok (a1, b1)" "session_inv a1" "session_inv b1" "messages a1 = []"
      "messages b1 = []" "localState a1 = stateDown" "remoteDiscriminator b1 \<noteq> 0" "localState b1 = stateInit"
    using deliver_spec [OF assms(1,2,4,7)] assms(3,5,6)
    by (auto simp: transition_def bfd_states bfd_events)
  obtain b2 a2 where 2: "deliver intn b1 a1 = Ok (b2, a2)" "session_inv b2" "session_inv a2" "messages b2 = []"
      "localState b2 = stateInit" "remoteDiscriminator a2 \<noteq> 0" "localState a2 = stateUp"
    using deliver_spec [OF 1(3,2,4) assms(7)] 1
    by (auto simp: transition_def bfd_states bfd_events)
  obtain a3 b3 where 3: "deliver intn a2 b2 = Ok (a3, b3)" "localState a3 = stateUp" "localState b3 = stateUp"
    using deliver_spec [OF 2(3,2,4) assms(7)] 2
    by (auto simp: transition_def bfd_states bfd_events)
  show ?thesis using 1(1) 2(1) 3 by (auto simp: IsUp_def)
qed

theorem bfd_handshake_witness:
  "\<exists>a b a1 b1 a2 b2 a3 b3. Run_init (sample_session 7) = (a, Ok ()) \<and> Run_init (sample_session 8) = (b, Ok ())
    \<and> deliver (\<lambda>_. 0) a b = Ok (a1, b1) \<and> deliver (\<lambda>_. 0) b1 a1 = Ok (b2, a2)
    \<and> deliver (\<lambda>_. 0) a2 b2 = Ok (a3, b3) \<and> IsUp a3 \<and> IsUp b3"
proof -
  have run: "\<exists>s. Run_init (sample_session d) = (s, Ok ()) \<and> localState s = stateDown \<and> messages s = [] \<and> session_inv s"
    if nz: "d \<noteq> 0" for d
  proof -
    obtain s where s: "Run_init (sample_session d) = (s, Ok ())" "localState s = stateDown"
      using sample_session_runs [OF nz] by blast
    moreover have "messages s = []"
      using s(1) nz by (auto simp: sample_session_def Run_init_def runOnceCheck_def validateParameters_def
          durationToBFDInterval_def Microsecond_def Let_def)
    moreover have "session_inv s" using session_inv_init [OF s(1)] by (simp add: sample_session_def)
    ultimately show ?thesis by blast
  qed
  obtain a b where "Run_init (sample_session 7) = (a, Ok ())" "localState a = stateDown" "messages a = []" "session_inv a"
      "Run_init (sample_session 8) = (b, Ok ())" "localState b = stateDown" "messages b = []" "session_inv b"
    using run [of 7] run [of 8] by auto
  moreover have "good_intn (\<lambda>_. 0)" by (simp add: good_intn_def)
  ultimately show ?thesis using bfd_handshake [of a b "\<lambda>_. 0"] by blast
qed

end
