(* ===== verification/EpicAuth.thy ===== *)
theory EpicAuth
  imports Header
begin

text \<open>
  EPIC-HP packet authentication (\<^verbatim>\<open>pkg/experimental/epic\<close>): the freshness window of the packet
  timestamp, the input block of the hop validation field, its CBC-MAC and its verification.
  A \<^verbatim>\<open>time.Time\<close> is the number of nanoseconds since the epoch. AES is the parameter \<open>aes\<close>: the
  encryption of one block under a key.
\<close>

unbundle bit_operations_syntax

section \<open>Timestamps\<close>

definition AuthLen :: nat where "AuthLen = 16"
definition MaxPacketLifetime :: int where "MaxPacketLifetime = 2 * 1000000000"
definition MaxClockSkew :: int where "MaxClockSkew = 1000000000"
definition TimestampResolution :: int where "TimestampResolution = 21 * 1000"
definition epic_MACBufferSize :: nat where "epic_MACBufferSize = 48"

text \<open>\<^verbatim>\<open>Time.Sub\<close> saturates at the bounds of a 64-bit duration.\<close>

definition time_Sub :: "int \<Rightarrow> int \<Rightarrow> int" where
  "time_Sub t u = max (- (2 ^ 63)) (min (2 ^ 63 - 1) (t - u))"

definition CreateTimestamp :: "int \<Rightarrow> int \<Rightarrow> u32 result" where
  "CreateTimestamp input now =
    (if input > now then Fail (Err ''provided input timestamp is in the future'')
     else let epicTS = time_Sub now input div TimestampResolution - 1;
              epicTS = (if epicTS < 0 then 0 else epicTS) in
       if epicTS \<ge> 2 ^ 32 then Fail (Err ''diff between input and now >1d63min'')
       else Ok (word_of_int epicTS))"

definition VerifyTimestamp :: "int \<Rightarrow> u32 \<Rightarrow> int \<Rightarrow> unit result" where
  "VerifyTimestamp timestamp epicTS now =
    (let diff = (uint epicTS + 1) * TimestampResolution;
         tsSender = timestamp + diff in
     if tsSender > now + MaxClockSkew then Fail (Err ''epic timestamp is in the future'')
     else if now > tsSender + MaxPacketLifetime + MaxClockSkew
     then Fail (Err ''epic timestamp expired'')
     else Ok ())"

section \<open>Packet counters\<close>

definition PktCounterFromCore :: "u8 \<Rightarrow> u32 \<Rightarrow> u32" where
  "PktCounterFromCore coreID coreCounter = push_bit 24 (ucast coreID) OR (coreCounter AND 0x00FFFFFF)"

definition CoreFromPktCounter :: "u32 \<Rightarrow> u8 \<times> u32" where
  "CoreFromPktCounter counter = (ucast (drop_bit 24 counter), counter AND 0x00FFFFFF)"

section \<open>The hop validation field\<close>

text \<open>\<^verbatim>\<open>cipher.NewCBCEncrypter\<close> and \<^verbatim>\<open>CryptBlocks\<close> on a number of blocks.\<close>

fun cbc :: "(bytes \<Rightarrow> bytes) \<Rightarrow> nat \<Rightarrow> bytes \<Rightarrow> bytes \<Rightarrow> bytes" where
  "cbc E 0 iv data = []"
| "cbc E (Suc n) iv data =
    (let c = E (map2 (XOR) iv (take 16 data)) in c @ cbc E n c (drop 16 data))"

definition initEpicMac :: "(bytes \<Rightarrow> bytes \<Rightarrow> bytes) \<Rightarrow> bytes \<Rightarrow> (bytes \<Rightarrow> bytes) result" where
  "initEpicMac aes key =
    (if length key \<in> {16, 24, 32}
     then Ok (\<lambda>data. cbc (aes key) (length data div 16) (replicate 16 0) data)
     else Fail (Err ''Unable to initialize AES cipher''))"

text \<open>\<open>math.Ceil((23 + float64(l)) / 16)\<close> is exact for every length of a slice.\<close>

definition prepareMacInput :: "PktID \<Rightarrow> SCION option \<Rightarrow> u32 \<Rightarrow> bytes \<Rightarrow> (nat \<times> bytes) result" where
  "prepareMacInput pktID s timestamp inputBuffer =
    (case s of
       None \<Rightarrow> Fail (Err ''SCION common+address header must not be nil'')
     | Some s \<Rightarrow>
         let srcAddr = RawSrcAddr s;
             l = length srcAddr;
             nrBlocks = (23 + l + 15) div 16;
             inputLength = 16 * nrBlocks in
         if length inputBuffer < inputLength then Panic
         else
           let b = copy_at 0 [SrcAddrType s AND 3] inputBuffer;
               b = copy_at 1 (put_u32 timestamp) b in
           bindR (PktID_SerializeTo pktID (drop 5 b)) (\<lambda>pb.
           let b = copy_at 5 pb b;
               b = copy_at 13 (put_u64 (SrcIA s)) b;
               b = copy_at 21 srcAddr b;
               b = copy_at (21 + l) (put_u16 (PayloadLen s)) b;
               b = copy_at (23 + l) (replicate (inputLength - (23 + l)) 0) b
           in Ok (inputLength, b)))"

definition CalcMac ::
  "(bytes \<Rightarrow> bytes \<Rightarrow> bytes) \<Rightarrow> bytes \<Rightarrow> PktID \<Rightarrow> SCION option \<Rightarrow> u32 \<Rightarrow> bytes \<Rightarrow> bytes result" where
  "CalcMac aes auth pktID s timestamp buffer =
    (let buffer = (if length buffer < epic_MACBufferSize then replicate epic_MACBufferSize 0 else buffer) in
     bindR (initEpicMac aes auth) (\<lambda>f.
     bindR (prepareMacInput pktID s timestamp buffer) (\<lambda>(inputLength, buffer).
     let input = f (take inputLength buffer) in
     slice input (length input - 16) (length input - 16 + 4))))"

definition VerifyHVF ::
  "(bytes \<Rightarrow> bytes \<Rightarrow> bytes) \<Rightarrow> bytes \<Rightarrow> PktID \<Rightarrow> SCION option \<Rightarrow> u32 \<Rightarrow> bytes \<Rightarrow> bytes \<Rightarrow> unit result" where
  "VerifyHVF aes auth pktID s timestamp hvf buffer =
    (if s = None \<or> length auth \<noteq> AuthLen then Fail (Err ''invalid input'')
     else bindR (CalcMac aes auth pktID s timestamp buffer) (\<lambda>mac.
       if hvf \<noteq> mac then Fail (Err ''epic hop validation field verification failed'')
       else Ok ()))"

section \<open>The authenticated block\<close>

text \<open>What the buffer holds, independently of what was in it before.\<close>

definition epic_block :: "PktID \<Rightarrow> SCION \<Rightarrow> u32 \<Rightarrow> bytes" where
  "epic_block i s ts =
    (let m = [SrcAddrType s AND 3] @ put_u32 ts @ put_u32 (PktTimestamp i) @ put_u32 (Counter i)
           @ put_u64 (SrcIA s) @ RawSrcAddr s @ put_u16 (PayloadLen s)
     in m @ replicate (16 * ((length m + 15) div 16) - length m) 0)"

lemma copy_at_chain:
  "n = length xs \<Longrightarrow> length xs + length ys \<le> length b \<Longrightarrow> copy_at n ys (copy_at 0 xs b) = copy_at 0 (xs @ ys) b"
  using copy_at_append [of 0 xs ys b] by simp

lemma PktID_SerializeTo_at:
  assumes "n + 8 \<le> length b"
  shows "\<exists>pb. PktID_SerializeTo i (drop n b) = Ok pb
    \<and> copy_at n pb b = copy_at n (put_u32 (PktTimestamp i) @ put_u32 (Counter i)) b"
proof -
  have "PktID_SerializeTo i (drop n b) = Ok (copy_at 0 (put_u32 (PktTimestamp i) @ put_u32 (Counter i)) (drop n b))"
    using assms by (simp add: PktID_SerializeTo_def copy_at_chain)
  moreover have "copy_at n (copy_at 0 xs (drop n b)) b = copy_at n xs b" if "n + length xs \<le> length b" for xs
    using that by (simp add: copy_at_def add.commute)
  ultimately show ?thesis using assms by simp
qed

lemma prepareMacInput_block:
  assumes "16 * ((38 + length (RawSrcAddr s)) div 16) \<le> length b"
  shows "\<exists>b'. prepareMacInput i (Some s) ts b = Ok (length (epic_block i s ts), b')
    \<and> take (length (epic_block i s ts)) b' = epic_block i s ts"
proof -
  define l where "l = length (RawSrcAddr s)"
  define n where "n = 16 * ((38 + l) div 16)"
  have n: "23 + l \<le> n" "n \<le> length b" using assms by (simp_all add: n_def l_def)
  have n': "16 * ((l + 38) div 16) = n" by (simp add: n_def add.commute)
  define m1 where "m1 = [SrcAddrType s AND 3] @ put_u32 ts"
  define pid where "pid = put_u32 (PktTimestamp i) @ put_u32 (Counter i)"
  have b1: "copy_at 1 (put_u32 ts) (copy_at 0 [SrcAddrType s AND 3] b) = copy_at 0 m1 b"
    using n by (simp add: m1_def copy_at_chain)
  have m1: "length m1 = 5" "length pid = 8" by (simp_all add: m1_def pid_def)
  obtain pb where pb: "PktID_SerializeTo i (drop 5 (copy_at 0 m1 b)) = Ok pb"
      "copy_at 5 pb (copy_at 0 m1 b) = copy_at 0 (m1 @ pid) b"
    using PktID_SerializeTo_at [of 5 "copy_at 0 m1 b" i] n m1
    by (auto simp: copy_at_chain simp flip: pid_def)
  have blk: "epic_block i s ts = ((((m1 @ pid) @ put_u64 (SrcIA s)) @ RawSrcAddr s) @ put_u16 (PayloadLen s))
      @ replicate (n - (23 + l)) 0"
    by (simp add: epic_block_def m1_def pid_def n_def l_def add_ac)
  have "prepareMacInput i (Some s) ts b = Ok (n, copy_at 0 (epic_block i s ts) b)"
    unfolding blk using n m1 pb b1 n'
    by (simp add: prepareMacInput_def copy_at_chain Let_def add_ac flip: l_def)
  moreover have "length (epic_block i s ts) = n" using n m1 by (simp add: blk l_def)
  ultimately show ?thesis by (metis take_copy_at_0)
qed

lemma length_cbc: "(\<And>x. length (E x) = 16) \<Longrightarrow> length (cbc E n iv d) = 16 * n"
  by (induction n arbitrary: iv d) (simp_all add: Let_def)

lemma length_epic_block:
  "length (epic_block i s ts) = 16 * ((length (epic_block i s ts)) div 16)"
  "16 \<le> length (epic_block i s ts)"
  by (simp_all add: epic_block_def Let_def; linarith)+

text \<open>The hop validation field as the specification has it: the first four bytes of the last CBC block.\<close>

definition epic_hvf :: "(bytes \<Rightarrow> bytes \<Rightarrow> bytes) \<Rightarrow> bytes \<Rightarrow> PktID \<Rightarrow> SCION \<Rightarrow> u32 \<Rightarrow> bytes" where
  "epic_hvf aes auth i s ts =
    (let m = epic_block i s ts; n = length m div 16
     in take 4 (drop (16 * (n - 1)) (cbc (aes auth) n (replicate 16 0) m)))"

lemma CalcMac_hvf:
  assumes aes: "\<And>k x. length (aes k x) = 16" and "length auth = 16" and "length (RawSrcAddr s) \<le> 16"
  shows "CalcMac aes auth i (Some s) ts b = Ok (epic_hvf aes auth i s ts)"
proof -
  define buf where "buf = (if length b < epic_MACBufferSize then replicate epic_MACBufferSize 0 else b)"
  define n where "n = length (epic_block i s ts) div 16"
  have n: "length (epic_block i s ts) = 16 * n" "1 \<le> n"
    using length_epic_block [of i s ts] by (simp_all add: n_def)
  have "16 * ((38 + length (RawSrcAddr s)) div 16) \<le> length buf"
  proof -
    have "(38 + length (RawSrcAddr s)) div 16 \<le> (38 + 16) div 16"
      using assms(3) by (intro div_le_mono) simp
    then show ?thesis by (simp add: buf_def epic_MACBufferSize_def)
  qed
  then obtain b' where b': "prepareMacInput i (Some s) ts buf = Ok (16 * n, b')"
      "take (16 * n) b' = epic_block i s ts"
    using prepareMacInput_block [of s buf i ts] n(1) by auto
  have "min (length b') (16 * n) = 16 * n" using n(1) b'(2) by (metis length_take)
  moreover note b'
  moreover have "initEpicMac aes auth = Ok (\<lambda>d. cbc (aes auth) (length d div 16) (replicate 16 0) d)"
    using assms(2) by (simp add: initEpicMac_def)
  moreover have "16 * n - 16 = 16 * (n - 1)" "16 * n - 16 + 4 \<le> 16 * n" using n by (simp_all add: diff_mult_distrib2)
  ultimately show ?thesis
    using n by (simp add: CalcMac_def epic_hvf_def slice_def length_cbc [OF aes] Let_def flip: buf_def)
qed

lemma AddrType_Length_low_bits: "t AND 3 = u AND 3 \<Longrightarrow> AddrType_Length t = AddrType_Length u"
proof -
  assume "t AND 3 = u AND 3"
  then have "uint (t AND 3) = uint (u AND 3)" by simp
  then show ?thesis by (simp add: AddrType_Length_def uint_and)
qed

lemma put_u64_inj [simp]: "put_u64 a = put_u64 b \<longleftrightarrow> a = b"
  using be_u64_put [of a "[]"] be_u64_put [of b "[]"] by (metis append_Nil2)

lemma epic_block_inj:
  assumes "int (length (RawSrcAddr s)) = AddrType_Length (SrcAddrType s)"
    and "int (length (RawSrcAddr t)) = AddrType_Length (SrcAddrType t)"
    and eq: "epic_block i s ts = epic_block j t us"
  shows "i = j \<and> ts = us \<and> SrcIA s = SrcIA t \<and> RawSrcAddr s = RawSrcAddr t \<and> PayloadLen s = PayloadLen t
    \<and> SrcAddrType s AND 3 = SrcAddrType t AND 3"
proof -
  let ?m = "\<lambda>i s ts. [SrcAddrType s AND 3] @ put_u32 ts @ put_u32 (PktTimestamp i) @ put_u32 (Counter i)
           @ put_u64 (SrcIA s) @ RawSrcAddr s @ put_u16 (PayloadLen s)"
  obtain z z' where z: "epic_block i s ts = ?m i s ts @ z" "epic_block j t us = ?m j t us @ z'"
    by (simp add: epic_block_def Let_def)
  have bits: "SrcAddrType s AND 3 = SrcAddrType t AND 3"
    using eq unfolding z by simp
  have len: "length (RawSrcAddr s) = length (RawSrcAddr t)"
    using AddrType_Length_low_bits [OF bits] assms(1,2) by simp
  show ?thesis
    using eq bits len unfolding z
    by (simp add: append_eq_append_conv)
qed

section \<open>Properties\<close>

text \<open>C33: for a header with a well-formed source address and a 16 byte authenticator, verification never
  panics, does not depend on what is left in the scratch buffer, and accepts exactly the hop validation
  field that is the first four bytes of the last CBC block over the authenticated block; two packets have
  the same authenticated block only when they agree on the packet identifier, the info field timestamp,
  the source ISD-AS, the source host and the payload length.\<close>

theorem epic_hvf_exact:
  assumes "\<And>k x. length (aes k x) = 16" and "length auth = AuthLen"
    and "int (length (RawSrcAddr s)) = AddrType_Length (SrcAddrType s)"
    and "int (length (RawSrcAddr t)) = AddrType_Length (SrcAddrType t)"
  shows "VerifyHVF aes auth i (Some s) ts hvf b =
      (if hvf = epic_hvf aes auth i s ts then Ok ()
       else Fail (Err ''epic hop validation field verification failed''))
    \<and> CalcMac aes auth i (Some s) ts b = Ok (epic_hvf aes auth i s ts)
    \<and> (epic_block i s ts = epic_block j t us \<longrightarrow> i = j \<and> ts = us \<and> SrcIA s = SrcIA t
        \<and> RawSrcAddr s = RawSrcAddr t \<and> PayloadLen s = PayloadLen t)"
proof -
  have "length (RawSrcAddr s) \<le> 16" using assms(3) AddrType_Length_bounds(2) [of "SrcAddrType s"] by linarith
  then have "CalcMac aes auth i (Some s) ts b = Ok (epic_hvf aes auth i s ts)"
    using CalcMac_hvf [OF assms(1)] assms(2) by (simp add: AuthLen_def)
  then show ?thesis
    using assms(2) epic_block_inj [OF assms(3,4)] by (simp add: VerifyHVF_def)
qed

theorem epic_hvf_exact_witness:
  "VerifyHVF (\<lambda>_ _. replicate 16 9) (replicate 16 7) \<lparr>PktTimestamp = 1, Counter = 2\<rparr> (Some sample_header) 5
     [9, 9, 9, 9] [] = Ok ()
   \<and> VerifyHVF (\<lambda>_ _. replicate 16 9) (replicate 16 7) \<lparr>PktTimestamp = 1, Counter = 2\<rparr> (Some sample_header) 5
     [9, 9, 9, 8] [] = Fail (Err ''epic hop validation field verification failed'')"
proof -
  let ?i = "\<lparr>PktTimestamp = 1, Counter = 2\<rparr>"
  have hvf: "epic_hvf (\<lambda>_ _. replicate 16 9) (replicate 16 7) ?i sample_header 5 = [9, 9, 9, 9]"
    by code_simp
  have len: "int (length (RawSrcAddr sample_header)) = AddrType_Length (SrcAddrType sample_header)"
    by code_simp
  show ?thesis
    using epic_hvf_exact [of "\<lambda>_ _. replicate 16 9" "replicate 16 7" sample_header sample_header ?i 5 "[9, 9, 9, 9]" "[]" ?i 5]
      epic_hvf_exact [of "\<lambda>_ _. replicate 16 9" "replicate 16 7" sample_header sample_header ?i 5 "[9, 9, 9, 8]" "[]" ?i 5]
      hvf len by (simp add: AuthLen_def)
qed

text \<open>C34: a packet stamped at time \<open>t\<close> by the sender is accepted by every verifier whose clock lies within
  the window of one second before to three seconds after \<open>t\<close> (less the resolution of 21 microseconds),
  and rejected by every verifier whose clock lies outside it by more than the resolution; a timestamp is
  only created relative to a time that is not in the future.\<close>

theorem epic_timestamp_window:
  assumes "CreateTimestamp ref t = Ok ts"
  shows "ref \<le> t \<and> (t - MaxClockSkew + TimestampResolution \<le> now
      \<and> now \<le> t + MaxPacketLifetime + MaxClockSkew - TimestampResolution \<longrightarrow> VerifyTimestamp ref ts now = Ok ())
    \<and> (now < t - MaxClockSkew - TimestampResolution
      \<or> t + MaxPacketLifetime + MaxClockSkew + TimestampResolution < now \<longrightarrow> (\<exists>e. VerifyTimestamp ref ts now = Fail e))"
proof -
  define q where "q = time_Sub t ref div TimestampResolution - 1"
  define q' where "q' = (if q < 0 then 0 else q)"
  have ok: "ref \<le> t" "q' < 2 ^ 32" "ts = word_of_int q'"
    using assms by (auto simp: CreateTimestamp_def q_def q'_def Let_def split: if_splits)
  have "q < 2 ^ 32" using ok(2) by (auto simp: q'_def split: if_splits)
  then have sub: "time_Sub t ref = t - ref"
    using ok(1) by (auto simp: q_def time_Sub_def TimestampResolution_def min_def max_def split: if_splits)
  have ts: "uint ts = q'"
    using ok by (simp add: uint_word_of_int q'_def)
  define d where "d = ref + (q' + 1) * TimestampResolution"
  have d: "t - TimestampResolution \<le> d" "d \<le> t + TimestampResolution"
    using ok(1) unfolding d_def q'_def q_def sub TimestampResolution_def by (auto; linarith)+
  have ver: "VerifyTimestamp ref ts now =
    (if d > now + MaxClockSkew then Fail (Err ''epic timestamp is in the future'')
     else if now > d + MaxPacketLifetime + MaxClockSkew then Fail (Err ''epic timestamp expired'') else Ok ())"
    by (simp add: VerifyTimestamp_def ts d_def)
  show ?thesis
    using ok(1) d by (auto simp: ver MaxClockSkew_def MaxPacketLifetime_def TimestampResolution_def)
qed

theorem epic_timestamp_window_witness:
  "CreateTimestamp 0 1000000 = Ok 46 \<and> VerifyTimestamp 0 46 2500000000 = Ok ()
   \<and> (\<exists>e. VerifyTimestamp 0 46 3500000000 = Fail e)"
proof -
  have c: "CreateTimestamp 0 1000000 = Ok 46"
    by (simp add: CreateTimestamp_def time_Sub_def TimestampResolution_def)
  show ?thesis
    using c epic_timestamp_window [OF c, of 2500000000] epic_timestamp_window [OF c, of 3500000000]
    by (simp add: MaxClockSkew_def MaxPacketLifetime_def TimestampResolution_def)
qed

lemma core_counter_roundtrip:
  "CoreFromPktCounter (PktCounterFromCore c n) = (c, n AND 0x00FFFFFF)"
  "(case CoreFromPktCounter x of (c', n') \<Rightarrow> PktCounterFromCore c' n') = x"
proof -
  have m: "(0x00FFFFFF :: u32) = mask 24" by (simp add: mask_eq_exp_minus_1)
  show "CoreFromPktCounter (PktCounterFromCore c n) = (c, n AND 0x00FFFFFF)"
    unfolding CoreFromPktCounter_def PktCounterFromCore_def m
    by (auto intro!: bit_word_eqI simp: bit_simps dest: bit_imp_le_length)
  show "(case CoreFromPktCounter x of (c', n') \<Rightarrow> PktCounterFromCore c' n') = x"
    unfolding CoreFromPktCounter_def PktCounterFromCore_def m
    by (auto intro!: bit_word_eqI simp: bit_simps dest: bit_imp_le_length)
qed

end
