(* ===== verification/Fabrid.thy ===== *)
theory Fabrid
  imports Extn EpicAuth
begin

text \<open>
  The FABRID extension: the identifier and FABRID hop-by-hop options
  (\<^verbatim>\<open>pkg/slayers/extension\<close>) and the cryptographic operations on them
  (\<^verbatim>\<open>pkg/experimental/fabrid/crypto\<close>). AES is again the parameter \<open>aes\<close>. Arrays of fixed size are
  lists of that length; scratch buffers are returned where they are written.
\<close>

unbundle bit_operations_syntax

section \<open>The identifier option\<close>

definition identifierLength :: nat where "identifierLength = 8"

text \<open>\<open>IdTimestamp\<close> in nanoseconds since the epoch; the products below stay within 63 bits.\<close>

record IdentifierOption =
  IdTimestamp :: int
  PacketID :: u32
  BaseTimestamp :: u32

definition GetRelativeTimestamp :: "IdentifierOption \<Rightarrow> u32" where
  "GetRelativeTimestamp i =
     word_of_int (IdTimestamp i div 1000000 - uint (BaseTimestamp i) * 1000) AND 0x7FFFFFF"

definition decodeTimestampFromBytes :: "IdentifierOption \<Rightarrow> bytes \<Rightarrow> IdentifierOption" where
  "decodeTimestampFromBytes i b =
    (let relativeTimestamp = be_u32 b AND 0x7FFFFFF;
         ts = (ucast relativeTimestamp + 1000 * ucast (BaseTimestamp i) :: u64)
     in i\<lparr>IdTimestamp := 1000000 * sint ts\<rparr>)"

definition IdentifierOption_decode :: "IdentifierOption \<Rightarrow> bytes \<Rightarrow> IdentifierOption result" where
  "IdentifierOption_decode i b =
    (if length b < identifierLength then Fail (Err ''raw data too short'')
     else Ok ((decodeTimestampFromBytes i (take 4 b))\<lparr>PacketID := be_u32 (drop 4 b)\<rparr>))"

definition IdentifierOption_Serialize :: "IdentifierOption option \<Rightarrow> bytes \<Rightarrow> bytes result" where
  "IdentifierOption_Serialize i b =
    (case i of
       None \<Rightarrow> Fail (Err ''identifier option must not be nil'')
     | Some i \<Rightarrow>
         if length b < identifierLength then Fail (Err ''buffer too short'')
         else Ok (copy_at 4 (put_u32 (PacketID i)) (copy_at 0 (put_u32 (GetRelativeTimestamp i)) b)))"

definition ParseIdentifierOption :: "tlvOption \<Rightarrow> u32 \<Rightarrow> IdentifierOption result" where
  "ParseIdentifierOption o' baseTimestamp =
    (if OptType o' \<noteq> OptTypeIdentifier then Fail (Err ''Wrong option type'')
     else IdentifierOption_decode \<lparr>IdTimestamp = 0, PacketID = 0, BaseTimestamp = baseTimestamp\<rparr> (OptData o'))"

section \<open>The FABRID option\<close>

definition baseFabridLen :: u8 where "baseFabridLen = 4"
definition FabridMetadataLen :: nat where "FabridMetadataLen = 4"
definition MaxSupportedFabridHops :: u8 where "MaxSupportedFabridHops = 62"

record FabridHopfieldMetadata =
  EncryptedPolicyID :: u8
  FabridEnabled :: bool
  ASLevelKey :: bool
  HopValidationField :: bytes

record FabridOption =
  HopfieldMetadata :: "FabridHopfieldMetadata list"
  PathValidator :: bytes

definition zero_meta :: FabridHopfieldMetadata where
  "zero_meta = \<lparr>EncryptedPolicyID = 0, FabridEnabled = False, ASLevelKey = False, HopValidationField = [0, 0, 0]\<rparr>"

definition decodeFabridHopfieldMetadata :: "FabridHopfieldMetadata \<Rightarrow> bytes \<Rightarrow> FabridHopfieldMetadata result" where
  "decodeFabridHopfieldMetadata f b =
    (if length b < 4 then Panic
     else let f = f\<lparr>EncryptedPolicyID := b ! 0, HopValidationField := [b ! 1 AND 0x3f, b ! 2, b ! 3]\<rparr> in
       Ok (if b ! 1 AND 0x80 > 0
           then f\<lparr>FabridEnabled := True, ASLevelKey := (if b ! 1 AND 0x40 > 0 then True else ASLevelKey f)\<rparr>
           else f))"

definition DecodeFabridHopfieldMetadata :: "FabridHopfieldMetadata \<Rightarrow> bytes \<Rightarrow> FabridHopfieldMetadata result" where
  "DecodeFabridHopfieldMetadata f b =
    (if length b < FabridMetadataLen then Fail (Err ''Buffer too small to decode metadata'')
     else decodeFabridHopfieldMetadata f b)"

definition FabridHopfieldMetadata_bytes :: "FabridHopfieldMetadata \<Rightarrow> bytes" where
  "FabridHopfieldMetadata_bytes f =
    (let b1 = HopValidationField f ! 0 AND 0x3f;
         b1 = (if FabridEnabled f then (if ASLevelKey f then (b1 OR 0x80) OR 0x40 else b1 OR 0x80) else b1)
     in [EncryptedPolicyID f, b1, HopValidationField f ! 1, HopValidationField f ! 2])"

definition FabridHopfieldMetadata_SerializeTo :: "FabridHopfieldMetadata \<Rightarrow> bytes \<Rightarrow> bytes result" where
  "FabridHopfieldMetadata_SerializeTo f b =
    (if length b < FabridMetadataLen then Fail (Err ''Buffer too small to serialize metadata'')
     else Ok (copy_at 0 (FabridHopfieldMetadata_bytes f) b))"

text \<open>The length is computed in eight bits.\<close>

definition FabridOptionLen :: "u8 \<Rightarrow> u8" where
  "FabridOptionLen numHopfields = baseFabridLen + numHopfields * of_nat FabridMetadataLen"

definition FabridOption_validate :: "bytes \<Rightarrow> u8 \<Rightarrow> u8 \<Rightarrow> unit result" where
  "FabridOption_validate b currHf numHfs =
    (if length b < unat (FabridOptionLen numHfs) then Fail (Err ''Raw Fabrid option too short'')
     else if numHfs > MaxSupportedFabridHops
     then Fail (Err ''Fabrid is not supported for paths consisting of more than 62 hopfields'')
     else if currHf \<ge> numHfs then Fail (Err ''Current HF is >= the number of HFs'')
     else Ok ())"

definition DecodeForHF :: "FabridOption \<Rightarrow> bytes \<Rightarrow> u8 \<Rightarrow> u8 \<Rightarrow> FabridOption result" where
  "DecodeForHF f b currHf numHfs =
     bindR (FabridOption_validate b currHf numHfs) (\<lambda>_.
     let byteIndex = unat currHf * FabridMetadataLen in
     bindR (slice b byteIndex (byteIndex + FabridMetadataLen)) (\<lambda>s.
     bindR (decodeFabridHopfieldMetadata zero_meta s) (\<lambda>md.
     Ok (f\<lparr>HopfieldMetadata := [md]\<rparr>))))"

definition DecodeFull :: "FabridOption \<Rightarrow> bytes \<Rightarrow> u8 \<Rightarrow> FabridOption result" where
  "DecodeFull f b numHfs =
     bindR (FabridOption_validate b 0 numHfs) (\<lambda>_.
     bindR (decode_seq FabridMetadataLen (decodeFabridHopfieldMetadata zero_meta) (unat numHfs) 0 b) (\<lambda>mds.
     let byteIndex = unat numHfs * FabridMetadataLen in
     bindR (slice b byteIndex (byteIndex + 4)) (\<lambda>pv.
     Ok (f\<lparr>HopfieldMetadata := mds, PathValidator := pv\<rparr>))))"

definition FabridOption_SerializeTo :: "FabridOption \<Rightarrow> bytes \<Rightarrow> bytes result" where
  "FabridOption_SerializeTo f b =
    (if length b < unat (FabridOptionLen (of_nat (length (HopfieldMetadata f))))
     then Fail (Err ''Buffer too short'')
     else if length (HopfieldMetadata f) > unat MaxSupportedFabridHops
     then Fail (Err ''Fabrid is not supported for paths consisting of more than 62 hopfields'')
     else
       bindR (serialize_seq 4 FabridHopfieldMetadata_SerializeTo (HopfieldMetadata f) 0 b) (\<lambda>b.
       let byteIndex = 4 * length (HopfieldMetadata f) in
       bindR (slice b byteIndex (byteIndex + 4)) (\<lambda>_.
       Ok (copy_at byteIndex (PathValidator f) b))))"

definition zero_fabrid :: FabridOption where
  "zero_fabrid = \<lparr>HopfieldMetadata = [], PathValidator = [0, 0, 0, 0]\<rparr>"

definition ParseFabridOptionFullExtension :: "tlvOption \<Rightarrow> u8 \<Rightarrow> FabridOption result" where
  "ParseFabridOptionFullExtension o' numHfs =
    (if OptType o' \<noteq> OptTypeFabrid then Fail (Err ''Wrong option type'')
     else DecodeFull zero_fabrid (OptData o') numHfs)"

definition ParseFabridOptionCurrentHop :: "tlvOption \<Rightarrow> u8 \<Rightarrow> u8 \<Rightarrow> FabridOption result" where
  "ParseFabridOptionCurrentHop o' currHf numHfs =
    (if OptType o' \<noteq> OptTypeFabrid then Fail (Err ''Wrong option type'')
     else DecodeForHF zero_fabrid (OptData o') currHf numHfs)"

section \<open>Message authentication\<close>

definition FabridMacInputSize :: nat where "FabridMacInputSize = 46"

definition zeroBlock :: bytes where "zeroBlock = replicate 16 0"

definition aes_NewCipher :: "(bytes \<Rightarrow> bytes \<Rightarrow> bytes) \<Rightarrow> bytes \<Rightarrow> (bytes \<Rightarrow> bytes) result" where
  "aes_NewCipher aes key = (if length key \<in> {16, 24, 32} then Ok (aes key) else Fail (Err ''invalid key size''))"

text \<open>
  \<open>macBlock\<close> returns the buffers \<open>tmp\<close> and \<open>dst\<close>. \<^verbatim>\<open>CryptBlocks\<close> panics when its input is not a
  multiple of the block size or longer than its output, and chains from one call to the next.
\<close>

definition macBlock ::
  "(bytes \<Rightarrow> bytes \<Rightarrow> bytes) \<Rightarrow> bytes \<Rightarrow> bytes \<Rightarrow> bytes \<Rightarrow> bytes \<Rightarrow> (bytes \<times> bytes) result" where
  "macBlock aes key tmp src dst =
     bindR (wrapR ''unable to initialize AES cipher'' (aes_NewCipher aes key)) (\<lambda>block.
     if length dst < 16 then Fail (Err ''Dst length is invalid'')
     else if length src = 0 then Fail (Err ''Src length cannot be 0'')
     else if length tmp < 16 then Fail (Err ''tmp length is invalid'')
     else
       let paddingLength = (16 - length src mod 16) mod 16;
           blockCount = length src div 16;
           c = cbc block blockCount zeroBlock (take (16 * blockCount) src);
           iv = (if blockCount = 0 then zeroBlock else drop (16 * (blockCount - 1)) c) in
       if length dst < 16 * blockCount then Panic
       else
         let dst = copy_at 0 c dst in
         if paddingLength = 0 then Ok (tmp, dst)
         else
           let tmp = copy_at 0 (drop (16 * blockCount) src) tmp;
               tmp = copy_at (16 - paddingLength) (take paddingLength zeroBlock) tmp in
           if length tmp mod 16 \<noteq> 0 \<or> length dst < length tmp then Panic
           else Ok (tmp, copy_at 0 (cbc block (length tmp div 16) iv tmp) dst))"

text \<open>Returns the scratch buffer and the result buffer.\<close>

definition computeFabridHVF ::
  "(bytes \<Rightarrow> bytes \<Rightarrow> bytes) \<Rightarrow> FabridHopfieldMetadata \<Rightarrow> IdentifierOption option \<Rightarrow> SCION
   \<Rightarrow> bytes \<Rightarrow> bytes \<Rightarrow> bytes \<Rightarrow> u16 \<Rightarrow> u16 \<Rightarrow> (bytes \<times> bytes) result" where
  "computeFabridHVF aes f i s tmpBuffer resultBuffer key ingress egress =
    (if length key \<noteq> 16 then Fail (Err ''Wrong key length'')
     else if length tmpBuffer < FabridMacInputSize then Fail (Err ''tmpBuffer too small'')
     else if length resultBuffer < 16 then Fail (Err ''resultBuffer too small'')
     else
       bindR (IdentifierOption_Serialize i (take 8 tmpBuffer)) (\<lambda>t8.
       let tmp = copy_at 0 t8 tmpBuffer;
           srcAddr = RawSrcAddr s;
           requiredLen = 14 + length srcAddr;
           tmp = copy_at 8 (put_u16 ingress) tmp;
           tmp = copy_at 10 (put_u16 egress) tmp;
           tmp = tmp[12 := EncryptedPolicyID f];
           tmp = tmp[13 := word_of_int (AddrType_Length (SrcAddrType s))] in
       bindR (slice tmp 14 requiredLen) (\<lambda>_.
       let tmp = copy_at 14 srcAddr tmp in
       bindR (slice tmp 30 46) (\<lambda>scratch.
       bindR (macBlock aes key scratch (take requiredLen tmp) resultBuffer) (\<lambda>(scratch, resultBuffer).
       Ok (copy_at 30 scratch tmp, resultBuffer))))))"

text \<open>The two hop validation fields: bytes 0 to 2 and 3 to 5, without the two flag bits.\<close>

definition base_HVF :: "bytes \<Rightarrow> bytes" where
  "base_HVF computed = [computed ! 0 AND 0x3f, computed ! 1, computed ! 2]"

definition verified_HVF :: "bytes \<Rightarrow> bytes" where
  "verified_HVF computed = [computed ! 3 AND 0x3f, computed ! 4, computed ! 5]"

definition ComputeBaseHVF ::
  "(bytes \<Rightarrow> bytes \<Rightarrow> bytes) \<Rightarrow> FabridHopfieldMetadata \<Rightarrow> IdentifierOption option \<Rightarrow> SCION
   \<Rightarrow> bytes \<Rightarrow> bytes \<Rightarrow> u16 \<Rightarrow> u16 \<Rightarrow> FabridHopfieldMetadata result" where
  "ComputeBaseHVF aes f i s tmpBuffer key ingress egress =
     bindR (computeFabridHVF aes f i s tmpBuffer (replicate 16 0) key ingress egress) (\<lambda>(_, computed).
     Ok (f\<lparr>HopValidationField := base_HVF computed\<rparr>))"

definition ComputeVerifiedHVF ::
  "(bytes \<Rightarrow> bytes \<Rightarrow> bytes) \<Rightarrow> FabridHopfieldMetadata \<Rightarrow> IdentifierOption option \<Rightarrow> SCION
   \<Rightarrow> bytes \<Rightarrow> bytes \<Rightarrow> u16 \<Rightarrow> u16 \<Rightarrow> FabridHopfieldMetadata result" where
  "ComputeVerifiedHVF aes f i s tmpBuffer key ingress egress =
     bindR (computeFabridHVF aes f i s tmpBuffer (replicate 16 0) key ingress egress) (\<lambda>(_, computed).
     Ok (f\<lparr>HopValidationField := verified_HVF computed\<rparr>))"

definition VerifyAndUpdate ::
  "(bytes \<Rightarrow> bytes \<Rightarrow> bytes) \<Rightarrow> FabridHopfieldMetadata \<Rightarrow> IdentifierOption option \<Rightarrow> SCION
   \<Rightarrow> bytes \<Rightarrow> bytes \<Rightarrow> u16 \<Rightarrow> u16 \<Rightarrow> FabridHopfieldMetadata result" where
  "VerifyAndUpdate aes f i s tmpBuffer key ingress egress =
     bindR (computeFabridHVF aes f i s tmpBuffer (replicate 16 0) key ingress egress) (\<lambda>(_, computed).
     if base_HVF computed \<noteq> HopValidationField f then Fail (Err ''HVF is not valid'')
     else Ok (f\<lparr>HopValidationField := verified_HVF computed\<rparr>))"

section \<open>Policy identifiers\<close>

type_synonym PolicyID = u8

definition calcPolicyEncryptionMask ::
  "(bytes \<Rightarrow> bytes \<Rightarrow> bytes) \<Rightarrow> bytes \<Rightarrow> IdentifierOption option \<Rightarrow> bytes result" where
  "calcPolicyEncryptionMask aes key i =
     bindR (aes_NewCipher aes key) (\<lambda>cipher.
     bindR (IdentifierOption_Serialize i (replicate 16 0)) (\<lambda>buf.
     Ok (cipher buf)))"

definition ComputePolicyID ::
  "(bytes \<Rightarrow> bytes \<Rightarrow> bytes) \<Rightarrow> FabridHopfieldMetadata \<Rightarrow> IdentifierOption option \<Rightarrow> bytes \<Rightarrow> PolicyID result" where
  "ComputePolicyID aes f i key =
     bindR (calcPolicyEncryptionMask aes key i) (\<lambda>buf. Ok (EncryptedPolicyID f XOR buf ! 0))"

definition EncryptPolicyID ::
  "(bytes \<Rightarrow> bytes \<Rightarrow> bytes) \<Rightarrow> PolicyID \<Rightarrow> IdentifierOption option \<Rightarrow> bytes \<Rightarrow> u8 result" where
  "EncryptPolicyID aes f i key =
     bindR (calcPolicyEncryptionMask aes key i) (\<lambda>buf. Ok (f XOR buf ! 0))"

section \<open>The path validator\<close>

text \<open>
  Rounding up to a multiple of the block size is \<open>(n + 15) &^ 15\<close>. The loop copies the three bytes of
  every hop into the buffer; \<open>dst\<close> of the MAC starts where \<open>src\<close> does, and \<^verbatim>\<open>macBlock\<close> reads each part
  of \<open>src\<close> before it writes over it. The verifier returns a byte along with its error.
\<close>

definition VerifyPathValidator ::
  "(bytes \<Rightarrow> bytes \<Rightarrow> bytes) \<Rightarrow> FabridOption \<Rightarrow> bytes \<Rightarrow> bytes \<Rightarrow> (u8 \<times> go_error option) result" where
  "VerifyPathValidator aes f tmpBuffer pathKey =
    (let inputLength = 3 * length (HopfieldMetadata f);
         requiredBufferLength = 16 + 16 * ((inputLength + 15) div 16) in
     if length tmpBuffer < requiredBufferLength then Ok (0, Some (Err ''tmpBuffer length is invalid''))
     else
       let tmpBuffer = copy_at 16 (concat (map HopValidationField (HopfieldMetadata f))) tmpBuffer in
       case macBlock aes pathKey (take 16 tmpBuffer) (take inputLength (drop 16 tmpBuffer)) (drop 16 tmpBuffer) of
         Panic \<Rightarrow> Panic
       | Fail e \<Rightarrow> Ok (0, Some e)
       | Ok (_, dst) \<Rightarrow>
           bindR (slice dst 4 5) (\<lambda>v.
           let validationNumber = hd v in
           if take 4 dst \<noteq> PathValidator f
           then Ok (validationNumber, Some (Err ''Path validator is not valid''))
           else Ok (validationNumber, None)))"

record HopInterface =
  HIgIf :: u64
  HEgIf :: u64
  HIA :: IA

text \<open>The loop of \<^verbatim>\<open>InitValidators\<close> over the hops; it returns the metadata and the part of the path
  validator's input it has filled. \<open>outBuffer\<close> and \<open>tmpBuffer\<close> are handed from turn to turn.\<close>

fun InitValidators_loop ::
  "(bytes \<Rightarrow> bytes \<Rightarrow> bytes) \<Rightarrow> IdentifierOption option \<Rightarrow> SCION \<Rightarrow> (IA \<rightharpoonup> bytes) \<Rightarrow> (IA \<rightharpoonup> bytes)
   \<Rightarrow> HopInterface list \<Rightarrow> FabridHopfieldMetadata list \<Rightarrow> bytes \<Rightarrow> bytes
   \<Rightarrow> (FabridHopfieldMetadata list \<times> bytes \<times> bytes) result" where
  "InitValidators_loop aes i s asHostKeys asAsKeys hops [] tmpBuffer outBuffer = Ok ([], [], tmpBuffer)"
| "InitValidators_loop aes i s asHostKeys asAsKeys hops (meta # metas) tmpBuffer outBuffer =
    (if \<not> FabridEnabled meta
     then bindR (InitValidators_loop aes i s asHostKeys asAsKeys (tl hops) metas tmpBuffer outBuffer)
            (\<lambda>(ms, pv, tmp). Ok (meta # ms, [0, 0, 0] @ pv, tmp))
     else case hops of
       [] \<Rightarrow> Panic
     | hop # hops' \<Rightarrow>
         (case (if ASLevelKey meta then asAsKeys else asHostKeys) (HIA hop) of
            None \<Rightarrow> Fail (Err ''InitValidators expected AS to AS key but was not in dictionary'')
          | Some key \<Rightarrow>
              bindR (computeFabridHVF aes meta i s tmpBuffer outBuffer key (ucast (HIgIf hop)) (ucast (HEgIf hop)))
                (\<lambda>(tmpBuffer, outBuffer).
              let outBuffer = outBuffer[0 := outBuffer ! 0 AND 0x3f, 3 := outBuffer ! 3 AND 0x3f] in
              bindR (InitValidators_loop aes i s asHostKeys asAsKeys hops' metas tmpBuffer outBuffer)
                (\<lambda>(ms, pv, tmp).
              Ok (meta\<lparr>HopValidationField := take 3 outBuffer\<rparr> # ms, take 3 (drop 3 outBuffer) @ pv, tmp)))))"

definition InitValidators ::
  "(bytes \<Rightarrow> bytes \<Rightarrow> bytes) \<Rightarrow> FabridOption \<Rightarrow> IdentifierOption option \<Rightarrow> SCION \<Rightarrow> bytes \<Rightarrow> bytes option
   \<Rightarrow> (IA \<rightharpoonup> bytes) \<Rightarrow> (IA \<rightharpoonup> bytes) \<Rightarrow> HopInterface list \<Rightarrow> FabridOption result" where
  "InitValidators aes f i s tmpBuffer pathKey asHostKeys asAsKeys hops =
     bindR (InitValidators_loop aes i s asHostKeys asAsKeys hops (HopfieldMetadata f) tmpBuffer (replicate 16 0))
       (\<lambda>(metas, pv, tmpBuffer).
     let f = f\<lparr>HopfieldMetadata := metas\<rparr> in
     case pathKey of
       None \<Rightarrow> Ok f
     | Some key \<Rightarrow>
         let pathValInputLength = 3 * length metas;
             pathValBuffer = pv @ replicate (16 * ((pathValInputLength + 15) div 16) - length pv) 0 in
         bindR (slice tmpBuffer 0 16) (\<lambda>t.
         bindR (macBlock aes key t (take pathValInputLength pathValBuffer) pathValBuffer) (\<lambda>(_, dst).
         bindR (slice dst 0 4) (\<lambda>v.
         Ok (f\<lparr>PathValidator := v\<rparr>)))))"

section \<open>Wire format\<close>

definition wf_metadata :: "FabridHopfieldMetadata \<Rightarrow> bool" where
  "wf_metadata f \<longleftrightarrow> length (HopValidationField f) = 3 \<and> HopValidationField f ! 0 < 64
     \<and> (ASLevelKey f \<longrightarrow> FabridEnabled f)"

lemma length_3_nth: "length xs = 3 \<Longrightarrow> xs = [xs ! 0, xs ! 1, xs ! 2]"
  by (auto simp: length_eq_3)

lemma bit_0x80: "bit (0x80 :: int) n \<longleftrightarrow> n = 7"
  using bit_exp_iff [where 'a = int, of 7 n] by auto

lemma bit_0x40: "bit (0x40 :: int) n \<longleftrightarrow> n = 6"
  using bit_exp_iff [where 'a = int, of 6 n] by auto

lemma hvf_bits:
  fixes x :: u8
  assumes "x < 64"
  shows "x AND 0x3f = x" "(x OR 0x80) AND 0x3f = x" "((x OR 0x80) OR 0x40) AND 0x3f = x"
    "x AND 0x80 = 0" "(x OR 0x80) AND 0x80 = 0x80" "((x OR 0x80) OR 0x40) AND 0x80 = 0x80"
    "(x OR 0x80) AND 0x40 = 0" "((x OR 0x80) OR 0x40) AND 0x40 = 0x40"
proof -
  have "uint x < 2 ^ 6" using assms by (simp add: word_less_def)
  then have b: "bit x n \<Longrightarrow> n < 6" for n using bit_less_exp by blast
  have m: "(0x3f :: u8) = mask 6" by (simp add: mask_eq_exp_minus_1)
  show "x AND 0x3f = x" "(x OR 0x80) AND 0x3f = x" "((x OR 0x80) OR 0x40) AND 0x3f = x"
    "x AND 0x80 = 0" "(x OR 0x80) AND 0x80 = 0x80" "((x OR 0x80) OR 0x40) AND 0x80 = 0x80"
    "(x OR 0x80) AND 0x40 = 0" "((x OR 0x80) OR 0x40) AND 0x40 = 0x40"
    unfolding m by (rule bit_word_eqI; auto simp: bit_and_iff bit_or_iff bit_mask_iff bit_0x80 bit_0x40 dest: b)+
qed

lemma and_3f_less: "(x::u8) AND 0x3f < 64"
proof -
  have "uint (take_bit 6 x) < 2 ^ 6" by (rule take_bit_less_exp)
  then show ?thesis by (simp add: and_3F word_less_def)
qed

lemma metadata_decode_bytes:
  assumes "wf_metadata f"
  shows "decodeFabridHopfieldMetadata zero_meta (FabridHopfieldMetadata_bytes f) = Ok f"
proof -
  have "HopValidationField f ! 0 < 64" "HopValidationField f = [HopValidationField f ! 0, HopValidationField f ! 1, HopValidationField f ! 2]"
    using assms length_3_nth [of "HopValidationField f"] by (auto simp: wf_metadata_def)
  then show ?thesis
    using assms
    by (cases f) (auto simp: decodeFabridHopfieldMetadata_def FabridHopfieldMetadata_bytes_def zero_meta_def
        wf_metadata_def hvf_bits Let_def word_neq_0_conv [symmetric])
qed

interpretation metadata: field_codec FabridMetadataLen wf_metadata FabridHopfieldMetadata_bytes
    FabridHopfieldMetadata_SerializeTo "decodeFabridHopfieldMetadata zero_meta"
proof unfold_locales
  fix x :: FabridHopfieldMetadata and b :: bytes
  show "length (FabridHopfieldMetadata_bytes x) = FabridMetadataLen"
    by (simp add: FabridHopfieldMetadata_bytes_def FabridMetadataLen_def Let_def)
  show "FabridMetadataLen \<le> length b \<Longrightarrow> FabridHopfieldMetadata_SerializeTo x b = Ok (copy_at 0 (FabridHopfieldMetadata_bytes x) b)"
    by (simp add: FabridHopfieldMetadata_SerializeTo_def)
  show "wf_metadata x \<Longrightarrow> decodeFabridHopfieldMetadata zero_meta (FabridHopfieldMetadata_bytes x) = Ok x"
    by (rule metadata_decode_bytes)
  show "FabridMetadataLen \<le> length b \<Longrightarrow> \<exists>x. decodeFabridHopfieldMetadata zero_meta b = Ok x \<and> wf_metadata x"
    by (simp add: decodeFabridHopfieldMetadata_def FabridMetadataLen_def wf_metadata_def zero_meta_def Let_def and_3f_less)
qed

section \<open>The hop authenticator\<close>

text \<open>The message a hop authenticates and its CBC-MAC: one full block and one padded block.\<close>

definition hop_message :: "IdentifierOption \<Rightarrow> SCION \<Rightarrow> u8 \<Rightarrow> u16 \<Rightarrow> u16 \<Rightarrow> bytes" where
  "hop_message i s pid ingress egress =
     put_u32 (GetRelativeTimestamp i) @ put_u32 (PacketID i) @ put_u16 ingress @ put_u16 egress
     @ [pid, word_of_int (AddrType_Length (SrcAddrType s))] @ RawSrcAddr s"

definition hop_mac :: "(bytes \<Rightarrow> bytes \<Rightarrow> bytes) \<Rightarrow> bytes \<Rightarrow> bytes \<Rightarrow> bytes" where
  "hop_mac aes key m =
    (let c = aes key (map2 (XOR) zeroBlock (take 16 m))
     in aes key (map2 (XOR) c (drop 16 m @ replicate (32 - length m) 0)))"

lemma macBlock_two_blocks:
  assumes aes: "\<And>k x. length (aes k x) = 16" and "length key = 16" and "length tmp = 16" and "length dst = 16"
    and "16 < length m" and "length m < 32"
  shows "\<exists>tmp'. macBlock aes key tmp m dst = Ok (tmp', hop_mac aes key m) \<and> length tmp' = 16"
proof -
  have d: "length m div 16 = 1" "length m mod 16 = length m - 16" "(16 - (length m - 16)) mod 16 = 32 - length m"
    using assms(5,6) by (simp_all add: div_nat_eqI mod_nat_eqI mod_if)
  define tmp1 where "tmp1 = copy_at 0 (drop 16 m) tmp"
  define tmp2 where "tmp2 = copy_at (32 - (32 - length m) - 16) (replicate (32 - length m) 0) tmp1"
  have t: "tmp2 = drop 16 m @ replicate (32 - length m) 0"
    using assms(3,5,6) by (simp add: tmp2_def tmp1_def copy_at_def)
  have l: "length tmp2 = 16" using assms(5,6) by (simp add: t)
  have nz: "m \<noteq> []" using assms(5) by auto
  have e: "16 - (32 - length m) = 32 - (32 - length m) - 16" using assms(5,6) by simp
  have "macBlock aes key tmp m dst = Ok (tmp2, hop_mac aes key m)"
    using assms l d e nz
    by (simp add: macBlock_def aes_NewCipher_def hop_mac_def Let_def t copy_at_0 copy_at_def zeroBlock_def)
  then show ?thesis using l by blast
qed

lemma length_hop_message: "length (hop_message i s p ig eg) = 14 + length (RawSrcAddr s)"
  by (simp add: hop_message_def)

lemma IdentifierOption_Serialize_at:
  "8 \<le> length b \<Longrightarrow> IdentifierOption_Serialize (Some i) b
     = Ok (copy_at 0 (put_u32 (GetRelativeTimestamp i) @ put_u32 (PacketID i)) b)"
  by (simp add: IdentifierOption_Serialize_def identifierLength_def copy_at_chain)

lemma list_update_copy_at: "n < length b \<Longrightarrow> b[n := x] = copy_at n [x] b"
  by (simp add: copy_at_def upd_conv_take_nth_drop)

lemma computeFabridHVF_mac:
  assumes aes: "\<And>k x. length (aes k x) = 16" and "length key = 16" and tmp: "46 \<le> length tmp"
    and "length res = 16" and src: "4 \<le> length (RawSrcAddr s)" "length (RawSrcAddr s) \<le> 16"
  shows "\<exists>tmp'. computeFabridHVF aes f (Some i) s tmp res key ig eg
      = Ok (tmp', hop_mac aes key (hop_message i s (EncryptedPolicyID f) ig eg)) \<and> length tmp' = length tmp"
proof -
  define id where "id = put_u32 (GetRelativeTimestamp i) @ put_u32 (PacketID i)"
  have id: "length id = 8" by (simp add: id_def)
  define l where "l = AddrType_Length (SrcAddrType s)"
  define t1 where "t1 = copy_at 0 (id @ put_u16 ig @ put_u16 eg) tmp"
  define m where "m = hop_message i s (EncryptedPolicyID f) ig eg"
  have ser: "IdentifierOption_Serialize (Some i) (take 8 tmp) = Ok id"
    using tmp by (simp add: IdentifierOption_Serialize_at id_def copy_at_0)
  have t1: "copy_at 10 (put_u16 eg) (copy_at 8 (put_u16 ig) (copy_at 0 id tmp)) = t1"
    using tmp id by (simp add: t1_def copy_at_chain)
  have upd: "(t1[12 := EncryptedPolicyID f])[13 := word_of_int l]
      = copy_at 0 (id @ put_u16 ig @ put_u16 eg @ [EncryptedPolicyID f, word_of_int l]) tmp"
    (is "_ = ?t2")
    using tmp id by (simp add: t1_def list_update_copy_at copy_at_chain)
  have full: "copy_at 14 (RawSrcAddr s) ?t2 = copy_at 0 m tmp"
    using tmp src id by (simp add: copy_at_chain m_def hop_message_def l_def id_def)
  have mlen: "length m = 14 + length (RawSrcAddr s)" by (simp add: m_def length_hop_message)
  have tk: "take (14 + length (RawSrcAddr s)) (copy_at 0 m tmp) = m" by (simp flip: mlen)
  have len: "length (copy_at 0 m tmp) = length tmp" using tmp src mlen by simp
  obtain sc where sc: "slice (copy_at 0 m tmp) 30 46 = Ok sc" "length sc = 16"
    using tmp len by (simp add: slice_def)
  obtain sc' where sc': "macBlock aes key sc m res = Ok (sc', hop_mac aes key m)" "length sc' = 16"
    using macBlock_two_blocks [of aes key sc res m] aes assms(2,4) sc(2) mlen src by auto
  have s14: "\<exists>x. slice ?t2 14 (14 + length (RawSrcAddr s)) = Ok x"
    using tmp src id by (simp add: slice_def)
  have "computeFabridHVF aes f (Some i) s tmp res key ig eg = Ok (copy_at 30 sc' (copy_at 0 m tmp), hop_mac aes key m)"
    using assms(2,4) tmp ser t1 upd full tk sc sc' s14
    by (auto simp: computeFabridHVF_def FabridMacInputSize_def Let_def l_def)
  moreover have "length (copy_at 30 sc' (copy_at 0 m tmp)) = length tmp" using len tmp sc'(2) by simp
  ultimately show ?thesis by (auto simp: m_def)
qed

definition good_src :: "SCION \<Rightarrow> bool" where
  "good_src s \<longleftrightarrow> int (length (RawSrcAddr s)) = AddrType_Length (SrcAddrType s)"

lemma good_src_bounds: "good_src s \<Longrightarrow> 4 \<le> length (RawSrcAddr s) \<and> length (RawSrcAddr s) \<le> 16"
  using AddrType_Length_bounds [of "SrcAddrType s"] by (simp add: good_src_def)

text \<open>What a hop expects and what it leaves behind.\<close>

definition hop_tag :: "(bytes \<Rightarrow> bytes \<Rightarrow> bytes) \<Rightarrow> bytes \<Rightarrow> IdentifierOption \<Rightarrow> SCION \<Rightarrow> u8 \<Rightarrow> u16 \<Rightarrow> u16 \<Rightarrow> bytes" where
  "hop_tag aes key i s p ig eg = hop_mac aes key (hop_message i s p ig eg)"

lemma VerifyAndUpdate_tag:
  assumes "\<And>k x. length (aes k x) = 16" and "length key = 16" and "46 \<le> length tmp" and "good_src s"
  shows "VerifyAndUpdate aes f (Some i) s tmp key ig eg =
    (let t = hop_tag aes key i s (EncryptedPolicyID f) ig eg in
     if base_HVF t \<noteq> HopValidationField f then Fail (Err ''HVF is not valid'')
     else Ok (f\<lparr>HopValidationField := verified_HVF t\<rparr>))"
  using computeFabridHVF_mac [of aes key tmp "replicate 16 0" s f i ig eg] assms good_src_bounds [OF assms(4)]
  by (auto simp: VerifyAndUpdate_def hop_tag_def Let_def)

lemma length_hop_tag: "(\<And>k x. length (aes k x) = 16) \<Longrightarrow> length (hop_tag aes key i s p ig eg) = 16"
  by (simp add: hop_tag_def hop_mac_def Let_def)

lemma out_buffer_parts:
  assumes "length out = 16"
  shows "take 3 (out[0 := out ! 0 AND 0x3f, 3 := out ! 3 AND 0x3f]) = base_HVF out"
    "take 3 (drop 3 (out[0 := out ! 0 AND 0x3f, 3 := out ! 3 AND 0x3f])) = verified_HVF out"
proof -
  obtain a b c d e f r where "out = a # b # c # d # e # f # r"
    using assms by (auto simp: eval_nat_numeral length_Suc_conv)
  then show "take 3 (out[0 := out ! 0 AND 0x3f, 3 := out ! 3 AND 0x3f]) = base_HVF out"
    "take 3 (drop 3 (out[0 := out ! 0 AND 0x3f, 3 := out ! 3 AND 0x3f])) = verified_HVF out"
    by (simp_all add: base_HVF_def verified_HVF_def numeral_eq_Suc)
qed

section \<open>A packet on its way\<close>

text \<open>Every AS on the path with FABRID enabled verifies and updates its field.\<close>

definition hop_update ::
  "(bytes \<Rightarrow> bytes \<Rightarrow> bytes) \<Rightarrow> IdentifierOption \<Rightarrow> SCION \<Rightarrow> (IA \<rightharpoonup> bytes) \<Rightarrow> (IA \<rightharpoonup> bytes) \<Rightarrow> bytes
   \<Rightarrow> FabridHopfieldMetadata \<Rightarrow> HopInterface \<Rightarrow> FabridHopfieldMetadata result" where
  "hop_update aes i s asHostKeys asAsKeys tmp m hop =
    (if \<not> FabridEnabled m then Ok m
     else case (if ASLevelKey m then asAsKeys else asHostKeys) (HIA hop) of
       None \<Rightarrow> Fail (Err ''no key'')
     | Some key \<Rightarrow> VerifyAndUpdate aes m (Some i) s tmp key (ucast (HIgIf hop)) (ucast (HEgIf hop)))"

fun fabrid_walk ::
  "(FabridHopfieldMetadata \<Rightarrow> HopInterface \<Rightarrow> FabridHopfieldMetadata result)
   \<Rightarrow> FabridHopfieldMetadata list \<Rightarrow> HopInterface list \<Rightarrow> FabridHopfieldMetadata list result" where
  "fabrid_walk upd [] hops = Ok []"
| "fabrid_walk upd (m # ms) [] = Panic"
| "fabrid_walk upd (m # ms) (h # hs) = bindR (upd m h) (\<lambda>m'. mapR (Cons m') (fabrid_walk upd ms hs))"

lemma InitValidators_loop_walk:
  assumes aes: "\<And>k x. length (aes k x) = 16" and s: "good_src s" and buf: "46 \<le> length buf"
    and keys: "\<And>ia k. hk ia = Some k \<or> ak ia = Some k \<Longrightarrow> length k = 16"
  shows "InitValidators_loop aes (Some i) s hk ak hops metas tmp out = Ok (ms, pv, tmp')
    \<Longrightarrow> length hops = length metas \<Longrightarrow> 46 \<le> length tmp \<Longrightarrow> length out = 16
    \<Longrightarrow> \<forall>m \<in> set metas. \<not> FabridEnabled m \<longrightarrow> HopValidationField m = [0, 0, 0]
    \<Longrightarrow> length ms = length metas \<and> length pv = 3 * length metas \<and> length tmp' = length tmp
      \<and> (\<exists>ms'. fabrid_walk (hop_update aes i s hk ak buf) ms hops = Ok ms'
           \<and> concat (map HopValidationField ms') = pv \<and> length ms' = length metas)"
proof (induction metas arbitrary: hops tmp out ms pv tmp')
  case Nil
  then show ?case by simp
next
  case (Cons m metas)
  then obtain hop hops' where hops: "hops = hop # hops'" "length hops' = length metas"
    by (cases hops) auto
  show ?case
  proof (cases "FabridEnabled m")
    case False
    with Cons.prems(1) hops obtain ms1 pv1 where rec:
        "InitValidators_loop aes (Some i) s hk ak hops' metas tmp out = Ok (ms1, pv1, tmp')"
        "ms = m # ms1" "pv = [0, 0, 0] @ pv1"
      by (auto simp: result_simps)
    show ?thesis
      using Cons.IH [OF rec(1) hops(2)] Cons.prems rec(2,3) hops(1) False
      by (auto simp: hop_update_def result_simps)
  next
    case True
    with Cons.prems(1) hops obtain key where key: "(if ASLevelKey m then ak else hk) (HIA hop) = Some key"
      by (auto split: option.splits)
    have klen: "length key = 16" using keys key by (auto split: if_splits)
    let ?t = "hop_tag aes key i s (EncryptedPolicyID m) (ucast (HIgIf hop)) (ucast (HEgIf hop))"
    let ?out = "?t[0 := ?t ! 0 AND 0x3f, 3 := ?t ! 3 AND 0x3f]"
    obtain tmp1 where c: "computeFabridHVF aes m (Some i) s tmp out key (ucast (HIgIf hop)) (ucast (HEgIf hop)) = Ok (tmp1, ?t)"
        "length tmp1 = length tmp"
      using computeFabridHVF_mac [of aes key tmp out s m i "ucast (HIgIf hop)" "ucast (HEgIf hop)"]
        aes klen Cons.prems(3,4) good_src_bounds [OF s] unfolding hop_tag_def by blast
    from Cons.prems(1) hops True key c obtain ms1 pv1 where rec:
        "InitValidators_loop aes (Some i) s hk ak hops' metas tmp1 ?out = Ok (ms1, pv1, tmp')"
        "ms = m\<lparr>HopValidationField := take 3 ?out\<rparr> # ms1" "pv = take 3 (drop 3 ?out) @ pv1"
      by (auto simp: result_simps Let_def)
    have t: "length ?t = 16" using length_hop_tag [of aes] aes by simp
    have ih: "length ms1 = length metas \<and> length pv1 = 3 * length metas \<and> length tmp' = length tmp1
      \<and> (\<exists>ms'. fabrid_walk (hop_update aes i s hk ak buf) ms1 hops' = Ok ms'
           \<and> concat (map HopValidationField ms') = pv1 \<and> length ms' = length metas)"
      using Cons.IH [OF rec(1) hops(2)] Cons.prems c(2) t by simp
    have upd: "hop_update aes i s hk ak buf (m\<lparr>HopValidationField := base_HVF ?t\<rparr>) hop
        = Ok (m\<lparr>HopValidationField := verified_HVF ?t\<rparr>)"
      using VerifyAndUpdate_tag [of aes key buf s] aes klen buf s True key
      by (simp add: hop_update_def Let_def)
    show ?thesis
      using ih upd rec(2,3) hops(1) c(2) unfolding out_buffer_parts [OF t]
      by (auto simp: result_simps verified_HVF_def)
  qed
qed

section \<open>The path validator\<close>

text \<open>
  The first block \<^verbatim>\<open>macBlock\<close> leaves in its output: the last block of the CBC-MAC when the message has
  to be padded, but the first block when its length is a multiple of the block size.
\<close>

definition mac_out :: "(bytes \<Rightarrow> bytes \<Rightarrow> bytes) \<Rightarrow> bytes \<Rightarrow> bytes \<Rightarrow> bytes" where
  "mac_out aes key m =
    (let n = length m div 16; c = cbc (aes key) n zeroBlock (take (16 * n) m);
         iv = (if n = 0 then zeroBlock else drop (16 * (n - 1)) c)
     in if length m mod 16 = 0 then take 16 c
        else aes key (map2 (XOR) iv (drop (16 * n) m @ replicate (16 - length m mod 16) 0)))"

lemma macBlock_out:
  assumes aes: "\<And>k x. length (aes k x) = 16" and key: "length key \<in> {16, 24, 32}" and tmp: "length tmp = 16"
    and "m \<noteq> []" and dst: "16 \<le> length dst" "length m \<le> length dst"
  shows "\<exists>tmp' dst'. macBlock aes key tmp m dst = Ok (tmp', dst') \<and> take 16 dst' = mac_out aes key m"
proof -
  define n where "n = length m div 16"
  define c where "c = cbc (aes key) n zeroBlock (take (16 * n) m)"
  have n: "16 * n \<le> length m" by (simp add: n_def)
  have c: "length c = 16 * n" by (simp add: c_def length_cbc [OF aes])
  show ?thesis
  proof (cases "length m mod 16 = 0")
    case True
    then have "length m = 16 * n" by (simp add: n_def mod_0_imp_dvd)
    then have "1 \<le> n" using assms(4) by (cases n) auto
    then show ?thesis
      using True key tmp dst assms(4) n c
      by (simp add: macBlock_def aes_NewCipher_def mac_out_def Let_def copy_at_0 flip: n_def c_def)
  next
    case False
    define p where "p = 16 - length m mod 16"
    have p: "0 < p" "p < 16" "(16 - length m mod 16) mod 16 = p" "length m - 16 * n = 16 - p"
      using False by (simp_all add: p_def n_def modulo_nat_def)
    define tmp2 where "tmp2 = copy_at (16 - p) (replicate p 0) (copy_at 0 (drop (16 * n) m) tmp)"
    have t: "tmp2 = drop (16 * n) m @ replicate p 0"
      using tmp p by (simp add: tmp2_def copy_at_def)
    have "length tmp2 = 16" using p n by (simp add: t)
    then show ?thesis
      using False key tmp dst assms(4) n c p t
      by (simp add: macBlock_def aes_NewCipher_def mac_out_def Let_def copy_at_0 zeroBlock_def aes
          flip: n_def c_def tmp2_def)
  qed
qed

definition hvf_bytes :: "FabridOption \<Rightarrow> bytes" where
  "hvf_bytes f = concat (map HopValidationField (HopfieldMetadata f))"

lemma VerifyPathValidator_mac:
  assumes aes: "\<And>k x. length (aes k x) = 16" and key: "length key \<in> {16, 24, 32}"
    and len: "length (hvf_bytes f) = 3 * length (HopfieldMetadata f)" and ne: "HopfieldMetadata f \<noteq> []"
    and buf: "16 + 16 * ((3 * length (HopfieldMetadata f) + 15) div 16) \<le> length buf"
  shows "VerifyPathValidator aes f buf key = Ok (mac_out aes key (hvf_bytes f) ! 4,
    if take 4 (mac_out aes key (hvf_bytes f)) = PathValidator f then None else Some (Err ''Path validator is not valid''))"
proof -
  let ?n = "3 * length (HopfieldMetadata f)"
  define b where "b = copy_at 16 (hvf_bytes f) buf"
  have n: "?n \<le> 16 * ((?n + 15) div 16)" "3 \<le> ?n" using ne by (auto simp: Suc_le_eq)
  have "1 \<le> (?n + 15) div 16" using n(2) by (simp add: Suc_le_eq div_greater_zero_iff)
  then have l: "16 \<le> 16 * ((?n + 15) div 16)" by simp
  have fits: "16 + length (hvf_bytes f) \<le> length buf" using buf n(1) len by linarith
  then have "take (length (hvf_bytes f)) (drop 16 b) = hvf_bytes f" by (simp add: b_def)
  with fits have b: "length b = length buf" "length (take 16 b) = 16" "take ?n (drop 16 b) = hvf_bytes f"
    by (simp_all add: b_def len)
  have "hvf_bytes f \<noteq> []" using len n(2) by auto
  moreover have "16 \<le> length (drop 16 b)" "length (hvf_bytes f) \<le> length (drop 16 b)"
    using b(1) buf n(1) l len unfolding length_drop by linarith+
  ultimately obtain t d where d: "macBlock aes key (take 16 b) (hvf_bytes f) (drop 16 b) = Ok (t, d)"
      "take 16 d = mac_out aes key (hvf_bytes f)"
    using macBlock_out [of aes key "take 16 b" "hvf_bytes f" "drop 16 b"] aes key b(2) by blast
  have m: "length (mac_out aes key (hvf_bytes f)) = 16"
  proof (cases "length (hvf_bytes f) mod 16 = 0")
    case True
    then have "16 \<le> length (hvf_bytes f)" using \<open>hvf_bytes f \<noteq> []\<close> by (metis dvd_imp_le length_greater_0_conv mod_0_imp_dvd)
    then show ?thesis using True by (simp add: mac_out_def Let_def length_cbc [OF aes])
  qed (simp add: mac_out_def Let_def aes)
  have d16: "16 \<le> length d" using m unfolding d(2) [symmetric] by simp
  have sl: "slice d 4 5 = Ok (take 1 (drop 4 d))" using d16 by (simp add: slice_def)
  have "hd (take 1 (drop 4 d)) = take 16 d ! 4" using d16 by (simp add: hd_drop_conv_nth)
  moreover have "take 4 d = take 4 (take 16 d)" by simp
  ultimately show ?thesis
    using buf d(1) b(3) sl unfolding d(2)
    by (simp add: VerifyPathValidator_def Let_def flip: hvf_bytes_def b_def)
qed

section \<open>Properties\<close>

lemma FabridOptionLen_bounded: "n \<le> 62 \<Longrightarrow> unat (FabridOptionLen n) = 4 + 4 * unat n"
proof -
  assume "n \<le> 62"
  then have "unat n \<le> 62" by (simp add: word_le_nat_alt)
  then show ?thesis
    by (simp add: FabridOptionLen_def baseFabridLen_def FabridMetadataLen_def unat_word_ariths)
qed

text \<open>The eight-bit length computation never lets a read run past the option.\<close>

lemma FabridOption_validate_Ok:
  "FabridOption_validate b currHf numHfs = Ok () \<Longrightarrow>
     currHf < numHfs \<and> numHfs \<le> 62 \<and> 4 + 4 * unat numHfs \<le> length b"
  using FabridOptionLen_bounded [of numHfs]
  by (auto simp: FabridOption_validate_def MaxSupportedFabridHops_def not_less not_le split: if_splits)

lemma FabridOption_validate_not_Panic [simp]: "FabridOption_validate b c n \<noteq> Panic"
  by (simp add: FabridOption_validate_def)

lemma DecodeForHF_safe:
  "DecodeForHF f b currHf numHfs \<noteq> Panic"
  "DecodeForHF f b currHf numHfs = Ok f' \<Longrightarrow> (\<exists>md. HopfieldMetadata f' = [md] \<and> wf_metadata md)
     \<and> currHf < numHfs \<and> numHfs \<le> 62 \<and> 4 + 4 * unat numHfs \<le> length b"
proof -
  have *: "\<exists>s md. slice b (unat currHf * 4) (unat currHf * 4 + 4) = Ok s \<and> decodeFabridHopfieldMetadata zero_meta s = Ok md
      \<and> wf_metadata md" if "FabridOption_validate b currHf numHfs = Ok ()"
  proof -
    have "unat currHf < unat numHfs" "4 + 4 * unat numHfs \<le> length b"
      using FabridOption_validate_Ok [OF that] by (simp_all add: word_less_nat_alt)
    then have "slice b (unat currHf * 4) (unat currHf * 4 + 4) = Ok (take 4 (drop (unat currHf * 4) b))"
      "4 \<le> length (take 4 (drop (unat currHf * 4) b))"
      by (simp_all add: slice_def)
    then show ?thesis using metadata.dec_total by (simp add: FabridMetadataLen_def)
  qed
  show "DecodeForHF f b currHf numHfs \<noteq> Panic"
    using * by (auto simp: DecodeForHF_def FabridMetadataLen_def Let_def result_simps)
  show "DecodeForHF f b currHf numHfs = Ok f' \<Longrightarrow> (\<exists>md. HopfieldMetadata f' = [md] \<and> wf_metadata md)
     \<and> currHf < numHfs \<and> numHfs \<le> 62 \<and> 4 + 4 * unat numHfs \<le> length b"
    using * FabridOption_validate_Ok by (fastforce simp: DecodeForHF_def FabridMetadataLen_def Let_def result_simps)
qed

lemma fabrid_option_roundtrip:
  assumes wf: "list_all wf_metadata (HopfieldMetadata f)" and n: "length (HopfieldMetadata f) \<le> 62"
    and ne: "HopfieldMetadata f \<noteq> []" and pv: "length (PathValidator f) = 4"
    and b: "length b = 4 * length (HopfieldMetadata f) + 4"
  shows "\<exists>b'. FabridOption_SerializeTo f b = Ok b' \<and> length b' = length b
    \<and> DecodeFull zero_fabrid b' (of_nat (length (HopfieldMetadata f))) = Ok f"
proof -
  define k where "k = length (HopfieldMetadata f)"
  define m where "m = concat (map FabridHopfieldMetadata_bytes (HopfieldMetadata f))"
  have k: "unat (of_nat k :: u8) = k" "(of_nat k :: u8) \<le> 62" "0 < (of_nat k :: u8)"
    using n ne by (simp_all add: k_def word_le_nat_alt word_less_nat_alt unat_of_nat)
  have m: "length m = 4 * k"
    using metadata.length_concat_enc [OF wf] by (simp add: m_def k_def FabridMetadataLen_def)
  have "serialize_seq 4 FabridHopfieldMetadata_SerializeTo (HopfieldMetadata f) 0 b = Ok (copy_at 0 m b)"
    using metadata.serialize_seq_concat [OF wf, of 0 b] b by (simp add: m_def FabridMetadataLen_def)
  moreover have "copy_at (4 * k) (PathValidator f) (copy_at 0 m b) = m @ PathValidator f"
    using m pv b by (simp add: copy_at_def k_def)
  ultimately have ser: "FabridOption_SerializeTo f b = Ok (m @ PathValidator f)"
    using b n FabridOptionLen_bounded [OF k(2)] k(1) m
    by (simp add: FabridOption_SerializeTo_def slice_def MaxSupportedFabridHops_def Let_def flip: k_def)
  have "FabridOption_validate (m @ PathValidator f) 0 (of_nat k) = Ok ()"
    using k m pv FabridOptionLen_bounded [OF k(2)]
    by (simp add: FabridOption_validate_def MaxSupportedFabridHops_def not_less not_le)
  moreover have "decode_seq FabridMetadataLen (decodeFabridHopfieldMetadata zero_meta) k 0 (m @ PathValidator f)
      = Ok (HopfieldMetadata f)"
    unfolding k_def using m
    by (intro metadata.decode_seq_concat [OF wf]) (simp_all add: FabridMetadataLen_def m_def k_def)
  moreover have "slice (m @ PathValidator f) (4 * k) (4 * k + 4) = Ok (PathValidator f)"
    using m pv by (simp add: slice_def)
  ultimately have "DecodeFull zero_fabrid (m @ PathValidator f) (of_nat k) = Ok f"
    using k(1) by (cases f) (simp add: DecodeFull_def FabridMetadataLen_def zero_fabrid_def Let_def mult.commute)
  then show ?thesis using ser m pv b by (simp add: k_def)
qed

lemma policy_id_roundtrip:
  assumes "length key = 16" and "EncryptPolicyID aes p (Some i) key = Ok e" and "EncryptedPolicyID f = e"
  shows "ComputePolicyID aes f (Some i) key = Ok p"
proof -
  obtain x where "calcPolicyEncryptionMask aes key (Some i) = Ok x" "EncryptedPolicyID f = p XOR x ! 0"
    using assms by (auto simp: EncryptPolicyID_def result_simps)
  then show ?thesis by (simp add: ComputePolicyID_def xor.assoc)
qed

text \<open>C35: when the source has initialised the validators of a packet with the keys of the ASes on the path, every
  AS on the path with FABRID enabled accepts its hop validation field and replaces it, and the
  destination accepts the path validator over the replaced fields.\<close>

theorem fabrid_path_validates:
  assumes "\<And>k x. length (aes k x) = 16" and "good_src s"
    and "\<And>ia k. hk ia = Some k \<or> ak ia = Some k \<Longrightarrow> length k = 16"
    and "\<forall>m \<in> set (HopfieldMetadata f). \<not> FabridEnabled m \<longrightarrow> HopValidationField m = [0, 0, 0]"
    and "length hops = length (HopfieldMetadata f)" and "46 \<le> length tmp"
    and "InitValidators aes f (Some i) s tmp (Some pathKey) hk ak hops = Ok f'"
    and "46 \<le> length routerBuf"
    and "16 + 16 * ((3 * length hops + 15) div 16) \<le> length dstBuf"
  shows "\<exists>ms v. fabrid_walk (hop_update aes i s hk ak routerBuf) (HopfieldMetadata f') hops = Ok ms
    \<and> VerifyPathValidator aes (f'\<lparr>HopfieldMetadata := ms\<rparr>) dstBuf pathKey = Ok (v, None)"
proof -
  from assms(7) obtain metas pv tmp' where loop:
      "InitValidators_loop aes (Some i) s hk ak hops (HopfieldMetadata f) tmp (replicate 16 0) = Ok (metas, pv, tmp')"
    and rest: "bindR (slice tmp' 0 16) (\<lambda>t. bindR (macBlock aes pathKey t (take (3 * length metas)
        (pv @ replicate (16 * ((3 * length metas + 15) div 16) - length pv) 0))
        (pv @ replicate (16 * ((3 * length metas + 15) div 16) - length pv) 0))
        (\<lambda>(_, dst). bindR (slice dst 0 4) (\<lambda>v. Ok (f\<lparr>HopfieldMetadata := metas, PathValidator := v\<rparr>)))) = Ok f'"
    by (auto simp: InitValidators_def result_simps Let_def)
  have walk: "length metas = length hops" "length pv = 3 * length hops" "length tmp' = length tmp"
      "\<exists>ms. fabrid_walk (hop_update aes i s hk ak routerBuf) metas hops = Ok ms
        \<and> concat (map HopValidationField ms) = pv \<and> length ms = length hops"
    using InitValidators_loop_walk [OF assms(1,2,8,3) loop assms(5,6)] assms(4,5) by simp_all
  then obtain ms where ms: "fabrid_walk (hop_update aes i s hk ak routerBuf) metas hops = Ok ms"
      "concat (map HopValidationField ms) = pv" "length ms = length hops" by blast
  define dst where "dst = pv @ replicate (16 * ((3 * length metas + 15) div 16) - length pv) 0"
  have src: "take (3 * length metas) dst = pv" using walk(1,2) by (simp add: dst_def)
  have key: "length pathKey \<in> {16, 24, 32}" "16 \<le> length dst" "pv \<noteq> []"
    using rest unfolding dst_def [symmetric] src
    by (auto simp: result_simps macBlock_def aes_NewCipher_def Let_def split: if_splits)
  obtain t where t: "slice tmp' 0 16 = Ok t" "length t = 16"
    using walk(3) assms(6) by (simp add: slice_def)
  obtain t' d where d: "macBlock aes pathKey t pv dst = Ok (t', d)" "take 16 d = mac_out aes pathKey pv"
    using macBlock_out [of aes pathKey t pv dst] assms(1) key t(2) by (auto simp: dst_def)
  have f': "f' = f\<lparr>HopfieldMetadata := metas, PathValidator := take 4 (mac_out aes pathKey pv)\<rparr>"
  proof -
    have "f' = f\<lparr>HopfieldMetadata := metas, PathValidator := take 4 d\<rparr>"
      using rest t d unfolding dst_def [symmetric] src by (auto simp: result_simps)
    moreover have "take 4 d = take 4 (take 16 d)" by simp
    ultimately show ?thesis by (simp only: d(2))
  qed
  have "ms \<noteq> []" using key(3) ms(2) by auto
  then have "VerifyPathValidator aes (f'\<lparr>HopfieldMetadata := ms\<rparr>) dstBuf pathKey = Ok (mac_out aes pathKey pv ! 4, None)"
    using VerifyPathValidator_mac [of aes pathKey "f'\<lparr>HopfieldMetadata := ms\<rparr>" dstBuf] assms(1,9) key(1) ms walk(2)
    by (auto simp: hvf_bytes_def f')
  then show ?thesis using ms(1) f' by auto
qed

theorem fabrid_path_validates_witness:
  "\<exists>f' ms v. InitValidators (\<lambda>_ _. replicate 16 9) \<lparr>HopfieldMetadata = [zero_meta\<lparr>FabridEnabled := True\<rparr>, zero_meta], PathValidator = [0, 0, 0, 0]\<rparr>
      (Some \<lparr>IdTimestamp = 0, PacketID = 7, BaseTimestamp = 0\<rparr>) sample_header (replicate 46 0) (Some (replicate 16 1))
      (\<lambda>_. Some (replicate 16 2)) (\<lambda>_. None) [\<lparr>HIgIf = 1, HEgIf = 2, HIA = 3\<rparr>, \<lparr>HIgIf = 4, HEgIf = 5, HIA = 6\<rparr>] = Ok f'
    \<and> fabrid_walk (hop_update (\<lambda>_ _. replicate 16 9) \<lparr>IdTimestamp = 0, PacketID = 7, BaseTimestamp = 0\<rparr> sample_header
        (\<lambda>_. Some (replicate 16 2)) (\<lambda>_. None) (replicate 46 0)) (HopfieldMetadata f')
        [\<lparr>HIgIf = 1, HEgIf = 2, HIA = 3\<rparr>, \<lparr>HIgIf = 4, HEgIf = 5, HIA = 6\<rparr>] = Ok ms
    \<and> VerifyPathValidator (\<lambda>_ _. replicate 16 9) (f'\<lparr>HopfieldMetadata := ms\<rparr>) (replicate 32 0) (replicate 16 1) = Ok (v, None)"
proof -
  let ?aes = "\<lambda>_ _. replicate 16 (9::u8)" and ?i = "\<lparr>IdTimestamp = 0, PacketID = 7, BaseTimestamp = 0\<rparr>"
  let ?f = "\<lparr>HopfieldMetadata = [zero_meta\<lparr>FabridEnabled := True\<rparr>, zero_meta], PathValidator = [0, 0, 0, 0]\<rparr>"
  let ?hops = "[\<lparr>HIgIf = 1, HEgIf = 2, HIA = 3\<rparr>, \<lparr>HIgIf = 4, HEgIf = 5, HIA = 6\<rparr>]"
  have "isOk (InitValidators ?aes ?f (Some ?i) sample_header (replicate 46 0) (Some (replicate 16 1))
      (\<lambda>_. Some (replicate 16 2)) (\<lambda>_. None) ?hops)"
    by code_simp
  then obtain f' where init: "InitValidators ?aes ?f (Some ?i) sample_header (replicate 46 0) (Some (replicate 16 1))
      (\<lambda>_. Some (replicate 16 2)) (\<lambda>_. None) ?hops = Ok f'"
    by (auto simp: isOk_iff)
  have "good_src sample_header" by code_simp
  then show ?thesis
    using init fabrid_path_validates [OF _ _ _ _ _ _ init, of "replicate 46 0" "replicate 32 0"]
    by (simp add: zero_meta_def)
qed

text \<open>C36: on a path whose number of hops is a multiple of sixteen the validation fields fill whole cipher
  blocks, and the path validator then depends on the first sixteen bytes of them only: fields of later
  hops can be changed without the destination noticing.\<close>

theorem fabrid_validator_gap:
  assumes "\<And>k x. length (aes k x) = 16" and "length key = 16"
    and "length (HopfieldMetadata f) = 16 * n" and "length (HopfieldMetadata g) = 16 * n" and "0 < n"
    and "list_all wf_metadata (HopfieldMetadata f)" and "list_all wf_metadata (HopfieldMetadata g)"
    and "take 16 (hvf_bytes f) = take 16 (hvf_bytes g)" and "PathValidator f = PathValidator g"
    and "16 + 48 * n \<le> length buf"
  shows "VerifyPathValidator aes f buf key = VerifyPathValidator aes g buf key"
proof -
  have len: "length (hvf_bytes h) = 3 * length (HopfieldMetadata h)" if "list_all wf_metadata (HopfieldMetadata h)" for h
    using that unfolding hvf_bytes_def by (induction "HopfieldMetadata h" arbitrary: h)
      (simp_all add: length_concat list_all_iff wf_metadata_def sum_list_triv comp_def cong: map_cong)
  have first: "mac_out aes key m = aes key (map2 (XOR) zeroBlock (take 16 m))" if "length m = 48 * n" for m
  proof -
    have "length m div 16 = 3 * n" using that by simp
    then obtain k where "length m div 16 = Suc k" using assms(5) by (cases n) simp_all
    then show ?thesis using that assms(1,5) by (simp add: mac_out_def Let_def)
  qed
  have d: "(48 * n + 15) div 16 = 3 * n" by simp
  have "mac_out aes key (hvf_bytes f) = mac_out aes key (hvf_bytes g)"
    using first len assms(3,4,6,7,8) by simp
  moreover have "HopfieldMetadata f \<noteq> []" "HopfieldMetadata g \<noteq> []" using assms(3,4,5) by auto
  ultimately show ?thesis
    using VerifyPathValidator_mac [of aes key f buf] VerifyPathValidator_mac [of aes key g buf] assms len d by simp
qed

theorem fabrid_validator_gap_witness:
  "VerifyPathValidator (\<lambda>k x. take 16 (x @ replicate 16 0))
      \<lparr>HopfieldMetadata = replicate 16 zero_meta, PathValidator = [0, 0, 0, 0]\<rparr> (replicate 64 0) (replicate 16 1)
   = VerifyPathValidator (\<lambda>k x. take 16 (x @ replicate 16 0))
      \<lparr>HopfieldMetadata = replicate 15 zero_meta @ [zero_meta\<lparr>HopValidationField := [1, 1, 1]\<rparr>], PathValidator = [0, 0, 0, 0]\<rparr>
      (replicate 64 0) (replicate 16 1)"
proof -
  have "take 16 (hvf_bytes \<lparr>HopfieldMetadata = replicate 16 zero_meta, PathValidator = [0, 0, 0, 0]\<rparr>)
      = take 16 (hvf_bytes \<lparr>HopfieldMetadata = replicate 15 zero_meta @ [zero_meta\<lparr>HopValidationField := [1, 1, 1]\<rparr>],
          PathValidator = [0, 0, 0, 0]\<rparr>)"
    by code_simp
  then show ?thesis
    using fabrid_validator_gap [of "\<lambda>k x. take 16 (x @ replicate 16 0)" "replicate 16 1"
        "\<lparr>HopfieldMetadata = replicate 16 zero_meta, PathValidator = [0, 0, 0, 0]\<rparr>" 1
        "\<lparr>HopfieldMetadata = replicate 15 zero_meta @ [zero_meta\<lparr>HopValidationField := [1, 1, 1]\<rparr>], PathValidator = [0, 0, 0, 0]\<rparr>"
        "replicate 64 0"]
    by (simp add: wf_metadata_def zero_meta_def list_all_iff)
qed

end
