(* ===== verification/Drkey.thy ===== *)
theory Drkey
  imports Fabrid
begin

text \<open>
  DRKey: key derivation (\<^verbatim>\<open>pkg/drkey\<close>, \<^verbatim>\<open>pkg/drkey/specific\<close>, \<^verbatim>\<open>pkg/drkey/generic\<close>) and the
  router's store of secret values (\<^verbatim>\<open>router/control/drkey.go\<close>). AES and PBKDF2 are parameters, and so is
  \<open>parseHost\<close>, the textual form of host addresses, which rests on \<^verbatim>\<open>net/netip\<close>.
\<close>

unbundle bit_operations_syntax

section \<open>Keys\<close>

type_synonym Protocol = u16
type_synonym Key = bytes
type_synonym KeyType = u8

definition AsAs :: KeyType where "AsAs = 0"
definition AsHost :: KeyType where "AsHost = 1"
definition HostAS :: KeyType where "HostAS = 2"
definition HostHost :: KeyType where "HostHost = 3"

record Epoch =
  NotBefore :: int
  NotAfter :: int

definition SecsToTime :: "u32 \<Rightarrow> int" where "SecsToTime t = uint t * 1000000000"
definition TimeToSecs :: "int \<Rightarrow> u32" where "TimeToSecs t = word_of_int (t div 1000000000)"

definition NewEpoch :: "u32 \<Rightarrow> u32 \<Rightarrow> Epoch" where
  "NewEpoch b e = \<lparr>NotBefore = SecsToTime b, NotAfter = SecsToTime e\<rparr>"

text \<open>\<open>pbkdf2\<close> is PBKDF2 with the salt and parameters the code passes.\<close>

definition DeriveSV :: "(bytes \<Rightarrow> bytes) \<Rightarrow> Protocol \<Rightarrow> Epoch \<Rightarrow> bytes \<Rightarrow> (Epoch \<times> Protocol \<times> Key) result" where
  "DeriveSV pbkdf2 protoID epoch asSecret =
    (if length asSecret = 0 then Fail (Err ''Invalid zero sized secret'')
     else let buf = put_u64 (of_nat (length asSecret)) @ asSecret @ put_u16 protoID
                @ put_u32 (TimeToSecs (NotBefore epoch)) @ put_u32 (TimeToSecs (NotAfter epoch))
          in Ok (epoch, protoID, take 16 (pbkdf2 buf @ replicate 16 0)))"

section \<open>Derivation\<close>

definition initAESCBC :: "(bytes \<Rightarrow> bytes \<Rightarrow> bytes) \<Rightarrow> bytes \<Rightarrow> (bytes \<Rightarrow> bytes) result" where
  "initAESCBC aes key =
    (case aes_NewCipher aes key of
       Ok E \<Rightarrow> Ok (\<lambda>data. cbc E (length data div 16) zeroBlock data)
     | _ \<Rightarrow> Fail (Err ''Unable to initialize AES cipher''))"

definition cbcMac :: "(bytes \<Rightarrow> bytes) \<Rightarrow> bytes \<Rightarrow> bytes result" where
  "cbcMac mode b =
    (if length b mod 16 \<noteq> 0 then Panic
     else let b = mode b in if length b < 16 then Panic else Ok (drop (length b - 16) b))"

definition DeriveKey :: "(bytes \<Rightarrow> bytes \<Rightarrow> bytes) \<Rightarrow> bytes \<Rightarrow> Key \<Rightarrow> Key result" where
  "DeriveKey aes input upperLevelKey =
     bindR (initAESCBC aes upperLevelKey) (\<lambda>mode. cbcMac mode input)"

text \<open>
  The inputs are a header, the packed host address and zeros up to a multiple of the block size, written
  into a buffer. \<open>put_input\<close> is the part the serializers share; it returns the length and the buffer.
\<close>

definition put_input :: "bytes \<Rightarrow> bytes \<Rightarrow> bytes \<Rightarrow> (nat \<times> bytes) result" where
  "put_input hdr raw input =
    (let l = length raw;
         nrBlocks = (length hdr + l - 1) div 16 + 1;
         inputLength = 16 * nrBlocks in
     if length input < inputLength then Panic
     else Ok (inputLength, copy_at (length hdr + l) (take (inputLength - (length hdr + l)) zeroBlock)
                (copy_at (length hdr) raw (copy_at 0 hdr input))))"

definition SerializeHostHostInput :: "bytes \<Rightarrow> Host \<Rightarrow> (nat \<times> bytes) result" where
  "SerializeHostHostInput input host =
     bindR (wrapR ''packing host address'' (PackAddr host)) (\<lambda>(typ, raw).
     put_input [HostHost, typ AND 0xF] raw input)"

definition specific_serializeLevel2Input :: "bytes \<Rightarrow> KeyType \<Rightarrow> Host \<Rightarrow> (nat \<times> bytes) result" where
  "specific_serializeLevel2Input input derType host =
     bindR (wrapR ''packing host address'' (PackAddr host)) (\<lambda>(typ, raw).
     put_input [derType, typ AND 0xF] raw input)"

definition generic_serializeLevel2Input :: "bytes \<Rightarrow> KeyType \<Rightarrow> Protocol \<Rightarrow> Host \<Rightarrow> (nat \<times> bytes) result" where
  "generic_serializeLevel2Input input derType proto host =
     bindR (wrapR ''packing host address'' (PackAddr host)) (\<lambda>(typ, raw).
     put_input ([derType] @ put_u16 proto @ [typ AND 0xF]) raw input)"

definition serializeLevel1Input :: "bytes \<Rightarrow> IA \<Rightarrow> (nat \<times> bytes) result" where
  "serializeLevel1Input buf dstIA =
    (if length buf < 16 then Panic
     else Ok (16, copy_at 9 (take (length buf - 9) zeroBlock) (copy_at 1 (put_u64 dstIA) (buf[0 := AsAs]))))"

definition DeriveLevel1 :: "(bytes \<Rightarrow> bytes \<Rightarrow> bytes) \<Rightarrow> IA \<Rightarrow> Key \<Rightarrow> Key result" where
  "DeriveLevel1 aes dstIA key =
     bindR (serializeLevel1Input (replicate 16 0) dstIA) (\<lambda>(l, buf).
     bindR (slice buf 0 l) (\<lambda>input. DeriveKey aes input key))"

text \<open>The level 2 and 3 derivations parse the host, serialize the input and derive the key.\<close>

definition derive_host ::
  "(bytes \<Rightarrow> bytes \<Rightarrow> bytes) \<Rightarrow> (string \<Rightarrow> Host result) \<Rightarrow> string \<Rightarrow> string \<Rightarrow> (bytes \<Rightarrow> Host \<Rightarrow> (nat \<times> bytes) result)
   \<Rightarrow> string \<Rightarrow> Key \<Rightarrow> Key result" where
  "derive_host aes parseHost perr serr ser host key =
     bindR (wrapR perr (parseHost host)) (\<lambda>h.
     bindR (wrapR serr (ser (replicate 32 0) h)) (\<lambda>(l, buf).
     bindR (slice buf 0 l) (\<lambda>input. DeriveKey aes input key)))"

definition specific_DeriveASHost where
  "specific_DeriveASHost aes parseHost dstHost key =
     derive_host aes parseHost ''parsing dst host'' ''serializing drkey level 2 input''
       (\<lambda>buf. specific_serializeLevel2Input buf AsHost) dstHost key"

definition specific_DeriveHostAS where
  "specific_DeriveHostAS aes parseHost srcHost key =
     derive_host aes parseHost ''parsing src host'' ''serializing drkey level 2 input''
       (\<lambda>buf. specific_serializeLevel2Input buf HostAS) srcHost key"

definition specific_DeriveHostHost where
  "specific_DeriveHostHost aes parseHost dstHost key =
     derive_host aes parseHost ''deriving input H2H'' ''serializing drkey host-host input''
       SerializeHostHostInput dstHost key"

definition generic_DeriveASHost where
  "generic_DeriveASHost aes parseHost proto dstHost key =
     derive_host aes parseHost ''parsing dst host'' ''serializing drkey level 2 input''
       (\<lambda>buf. generic_serializeLevel2Input buf AsHost proto) dstHost key"

definition generic_DeriveHostAS where
  "generic_DeriveHostAS aes parseHost proto srcHost key =
     derive_host aes parseHost ''parsing src host'' ''serializing drkey level 2 input''
       (\<lambda>buf. generic_serializeLevel2Input buf HostAS proto) srcHost key"

definition generic_DeriveHostHost where
  "generic_DeriveHostHost aes parseHost dstHost key =
     derive_host aes parseHost ''deriving input H2H'' ''serializing drkey host-host input''
       SerializeHostHostInput dstHost key"

section \<open>The router's secret values\<close>

definition pastValidity :: int where "pastValidity = 5 * 1000000000"
definition errDRKeySecretInvalid :: go_error where
  "errDRKeySecretInvalid = Err ''no valid drkey secret for provided time period''"
definition errDRKeyNotInitialized :: go_error where "errDRKeyNotInitialized = Err ''drkey not initialized''"

record SecretValue =
  EpochBegin :: int
  EpochEnd :: int
  SVKey :: Key

text \<open>The zero value: the zero \<^verbatim>\<open>time.Time\<close> is the first instant of year 1.\<close>

definition zero_time :: int where "zero_time = - 62135596800 * 1000000000"
definition zero_secret :: SecretValue where
  "zero_secret = \<lparr>EpochBegin = zero_time, EpochEnd = zero_time, SVKey = replicate 16 0\<rparr>"

record DRKeyProvider =
  drKeySecrets :: "SecretValue list list option"
  drKeySecretNextOverwrite :: "u8 list"

text \<open>\<open>numProtocols\<close> is the number of protocols of the generated protobuf enumeration.\<close>

definition DRKeyProvider_Init :: "nat \<Rightarrow> DRKeyProvider \<Rightarrow> DRKeyProvider" where
  "DRKeyProvider_Init numProtocols d =
     d\<lparr>drKeySecrets := Some (replicate numProtocols [zero_secret, zero_secret]),
       drKeySecretNextOverwrite := replicate numProtocols 0\<rparr>"

definition AddSecret :: "DRKeyProvider \<Rightarrow> int \<Rightarrow> SecretValue \<Rightarrow> DRKeyProvider \<times> unit result" where
  "AddSecret d protocolID sv =
    (case drKeySecrets d of
       None \<Rightarrow> (d, Fail errDRKeyNotInitialized)
     | Some secrets \<Rightarrow>
         if protocolID > int (length secrets)
         then (d, Fail (Err ''Error while adding a new drkey. ProtocolID too large''))
         else if protocolID < 0 \<or> int (length (drKeySecretNextOverwrite d)) \<le> protocolID then (d, Panic)
         else let p = nat protocolID; nextOverwrite = drKeySecretNextOverwrite d ! p in
           if length secrets \<le> p \<or> 2 \<le> unat nextOverwrite then (d, Panic)
           else (d\<lparr>drKeySecrets := Some (secrets[p := (secrets ! p)[unat nextOverwrite := sv]]),
                   drKeySecretNextOverwrite := (drKeySecretNextOverwrite d)[p := 1 - nextOverwrite]\<rparr>, Ok ()))"

definition getSecret :: "int \<Rightarrow> DRKeyProvider \<Rightarrow> int \<Rightarrow> int \<Rightarrow> SecretValue result" where
  "getSecret now d protocolID t =
    (case drKeySecrets d of
       None \<Rightarrow> Fail errDRKeyNotInitialized
     | Some secrets \<Rightarrow>
         if protocolID < 0 \<or> int (length secrets) \<le> protocolID then Panic
         else if time_Sub now t > pastValidity then Fail (Err ''time after validity window'')
         else case find (\<lambda>sv. t > EpochBegin sv \<and> EpochEnd sv > t) (secrets ! nat protocolID) of
           Some sv \<Rightarrow> Ok sv
         | None \<Rightarrow> Fail errDRKeySecretInvalid)"

definition DeriveASASKey ::
  "(bytes \<Rightarrow> bytes \<Rightarrow> bytes) \<Rightarrow> int \<Rightarrow> DRKeyProvider \<Rightarrow> int \<Rightarrow> int \<Rightarrow> IA \<Rightarrow> Key result" where
  "DeriveASASKey aes now d protocolID t srcAS =
     bindR (getSecret now d protocolID t) (\<lambda>secret. DeriveLevel1 aes srcAS (SVKey secret))"

definition DeriveASHostKey ::
  "(bytes \<Rightarrow> bytes \<Rightarrow> bytes) \<Rightarrow> (string \<Rightarrow> Host result) \<Rightarrow> int \<Rightarrow> DRKeyProvider \<Rightarrow> int \<Rightarrow> int \<Rightarrow> IA \<Rightarrow> string
   \<Rightarrow> Key result" where
  "DeriveASHostKey aes parseHost now d protocolID t srcAS src =
     bindR (DeriveASASKey aes now d protocolID t srcAS) (\<lambda>asToAsKey.
     specific_DeriveASHost aes parseHost src asToAsKey)"

section \<open>The derivation inputs\<close>

definition input_block :: "bytes \<Rightarrow> bytes \<Rightarrow> bytes" where
  "input_block hdr raw =
    (let n = length hdr + length raw in hdr @ raw @ replicate (16 * ((n - 1) div 16 + 1) - n) 0)"

lemma put_input_block:
  assumes "1 \<le> length hdr" and "length hdr + length raw \<le> 32" and "length b = 32"
  shows "\<exists>n b'. put_input hdr raw b = Ok (n, b') \<and> n \<le> 32 \<and> take n b' = input_block hdr raw
    \<and> length b' = 32 \<and> n mod 16 = 0 \<and> 16 \<le> n"
proof -
  define m where "m = length hdr + length raw"
  define n where "n = 16 * ((m - 1) div 16 + 1)"
  have n: "m \<le> n" "n \<le> m + 15" "n mod 16 = 0" "16 \<le> n" using assms(1) by (auto simp: n_def m_def)
  have "(m - 1) div 16 \<le> 31 div 16" using assms(2) by (intro div_le_mono) (simp add: m_def)
  then have n32: "n \<le> 32" by (simp add: n_def)
  have n': "16 + 16 * ((m - Suc 0) div 16) = n" "\<not> Suc 0 < (m - Suc 0) div 16"
    using n32 by (simp_all add: n_def)
  have z: "take (n - m) zeroBlock = replicate (n - m) 0" using n by (simp add: zeroBlock_def)
  have "put_input hdr raw b = Ok (n, copy_at m (replicate (n - m) 0) (copy_at (length hdr) raw (copy_at 0 hdr b)))"
    using assms n32 z n' by (simp add: put_input_def Let_def flip: m_def)
  moreover have "copy_at m (replicate (n - m) 0) (copy_at (length hdr) raw (copy_at 0 hdr b))
      = copy_at 0 (hdr @ raw @ replicate (n - m) 0) b"
    using assms n n32 by (simp add: copy_at_chain m_def)
  moreover have "take n (copy_at 0 (hdr @ raw @ replicate (n - m) 0) b) = hdr @ raw @ replicate (n - m) 0"
    using n by (simp add: copy_at_0 m_def)
  moreover have "length (copy_at 0 (hdr @ raw @ replicate (n - m) 0) b) = 32"
    using assms n n32 by (simp add: m_def)
  ultimately show ?thesis using n32 n n' by (simp add: input_block_def Let_def flip: m_def)
qed

lemma PackAddr_type:
  assumes "PackAddr h = Ok (t, raw)" and "\<And>ip. h = HostIP ip \<Longrightarrow> wf_ip ip"
  shows "t AND 0xF = t" "int (length raw) = AddrType_Length t" "ParseAddr t raw = Ok (canonical_host h)"
    "length raw \<le> 16" "1 \<le> length raw"
proof -
  have "t \<in> {T4Ip, T16Ip, T4Svc}"
    using assms(1) by (cases h) (auto simp: Let_def split: if_splits)
  then show "t AND 0xF = t" by (auto simp: T4Ip_def T16Ip_def T4Svc_def)
  show "int (length raw) = AddrType_Length t" "ParseAddr t raw = Ok (canonical_host h)"
    using PackAddr_spec [of h] assms by simp_all
  then show "length raw \<le> 16" "1 \<le> length raw" using AddrType_Length_bounds [of t] by linarith+
qed

text \<open>No input is a prefix of another one: the header and the address type determine the length.\<close>

lemma input_block_prefix_free:
  assumes "int (length r1) = AddrType_Length t1" and "int (length r2) = AddrType_Length t2"
    and "length h1 = length h2"
    and "input_block (h2 @ [t2]) r2 = input_block (h1 @ [t1]) r1 @ rest"
  shows "h1 = h2 \<and> t1 = t2 \<and> r1 = r2"
proof -
  obtain z1 z2 where z: "input_block (h1 @ [t1]) r1 = h1 @ [t1] @ r1 @ z1"
      "input_block (h2 @ [t2]) r2 = h2 @ [t2] @ r2 @ z2"
    by (simp add: input_block_def Let_def)
  have "h1 = h2 \<and> t1 = t2" using assms(3,4) unfolding z by simp
  moreover from this have "length r1 = length r2" using assms(1,2) by simp
  ultimately show ?thesis using assms(4) unfolding z by simp
qed

lemma serialize_pair_prefix_free:
  assumes "PackAddr h1 = Ok (t1, r1)" and "\<And>ip. h1 = HostIP ip \<Longrightarrow> wf_ip ip"
    and "PackAddr h2 = Ok (t2, r2)" and "\<And>ip. h2 = HostIP ip \<Longrightarrow> wf_ip ip"
    and "length hd1 = length hd2" and "length hd1 \<le> 15"
  shows "\<exists>n1 b1 n2 b2. put_input (hd1 @ [t1 AND 0xF]) r1 (replicate 32 0) = Ok (n1, b1)
      \<and> put_input (hd2 @ [t2 AND 0xF]) r2 (replicate 32 0) = Ok (n2, b2) \<and> n1 \<in> {16, 32} \<and> n2 \<in> {16, 32}
      \<and> (\<forall>rest. take n2 b2 = take n1 b1 @ rest \<longrightarrow> hd1 = hd2 \<and> canonical_host h1 = canonical_host h2)"
proof -
  note P1 = PackAddr_type [OF assms(1,2)] and P2 = PackAddr_type [OF assms(3,4)]
  have two: "n \<in> {16, 32}" if "n \<le> 32" "n mod 16 = 0" "16 \<le> n" for n :: nat
  proof -
    have "n = 16 \<or> n = 32" using that by presburger
    then show ?thesis by simp
  qed
  obtain n1 b1 where 1: "put_input (hd1 @ [t1]) r1 (replicate 32 0) = Ok (n1, b1)"
      "take n1 b1 = input_block (hd1 @ [t1]) r1" "n1 \<in> {16, 32}"
    using put_input_block [of "hd1 @ [t1]" r1 "replicate 32 0"] P1(4) assms(6) two by auto
  obtain n2 b2 where 2: "put_input (hd2 @ [t2]) r2 (replicate 32 0) = Ok (n2, b2)"
      "take n2 b2 = input_block (hd2 @ [t2]) r2" "n2 \<in> {16, 32}"
    using put_input_block [of "hd2 @ [t2]" r2 "replicate 32 0"] P2(4) assms(5,6) two by auto
  have "hd1 = hd2 \<and> canonical_host h1 = canonical_host h2" if "take n2 b2 = take n1 b1 @ rest" for rest
    using input_block_prefix_free [OF P1(2) P2(2) assms(5)] that P1(3) P2(3) unfolding 1(2) 2(2) by auto
  then show ?thesis using 1 2 P1(1) P2(1) by auto
qed

text \<open>The inputs of the host-level key derivations have the length of one or two cipher blocks, are
  written without a panic, and are prefix free: when the input for one key type, protocol and host is an
  initial part of the input for another, then type, protocol and host agree. This is what the CBC-MAC
  behind the derivation needs to yield independent keys.\<close>

lemma drkey_inputs_prefix_free:
  assumes "PackAddr h1 = Ok (t1, r1)" and "\<And>ip. h1 = HostIP ip \<Longrightarrow> wf_ip ip"
    and "PackAddr h2 = Ok (t2, r2)" and "\<And>ip. h2 = HostIP ip \<Longrightarrow> wf_ip ip"
  shows "(\<exists>n1 b1 n2 b2. specific_serializeLevel2Input (replicate 32 0) k1 h1 = Ok (n1, b1)
      \<and> specific_serializeLevel2Input (replicate 32 0) k2 h2 = Ok (n2, b2) \<and> n1 \<in> {16, 32} \<and> n2 \<in> {16, 32}
      \<and> (\<forall>rest. take n2 b2 = take n1 b1 @ rest \<longrightarrow> k1 = k2 \<and> canonical_host h1 = canonical_host h2))
    \<and> (\<exists>n1 b1 n2 b2. generic_serializeLevel2Input (replicate 32 0) k1 p1 h1 = Ok (n1, b1)
      \<and> generic_serializeLevel2Input (replicate 32 0) k2 p2 h2 = Ok (n2, b2) \<and> n1 \<in> {16, 32} \<and> n2 \<in> {16, 32}
      \<and> (\<forall>rest. take n2 b2 = take n1 b1 @ rest \<longrightarrow> k1 = k2 \<and> p1 = p2 \<and> canonical_host h1 = canonical_host h2))"
  using serialize_pair_prefix_free [OF assms, of "[k1]" "[k2]"]
    serialize_pair_prefix_free [OF assms, of "[k1] @ put_u16 p1" "[k2] @ put_u16 p2"] assms(1,3)
  by (simp add: specific_serializeLevel2Input_def generic_serializeLevel2Input_def)

lemma drkey_inputs_prefix_free_witness:
  "\<exists>n1 b1 n2 b2. specific_serializeLevel2Input (replicate 32 0) AsHost (HostSVC 2) = Ok (n1, b1)
     \<and> specific_serializeLevel2Input (replicate 32 0) HostAS (HostIP (IPv4 [10, 0, 0, 1])) = Ok (n2, b2)
     \<and> (\<forall>rest. take n2 b2 \<noteq> take n1 b1 @ rest)"
  using drkey_inputs_prefix_free [of "HostSVC 2" T4Svc "put_u16 2 @ [0, 0]" "HostIP (IPv4 [10, 0, 0, 1])" T4Ip "[10, 0, 0, 1]"
      AsHost HostAS]
  by (fastforce simp: AsHost_def HostAS_def)

section \<open>The store of secret values\<close>

definition provider_inv :: "nat \<Rightarrow> DRKeyProvider \<Rightarrow> bool" where
  "provider_inv n d \<longleftrightarrow> (\<exists>ss. drKeySecrets d = Some ss \<and> length ss = n \<and> (\<forall>s \<in> set ss. length s = 2))
     \<and> length (drKeySecretNextOverwrite d) = n \<and> (\<forall>x \<in> set (drKeySecretNextOverwrite d). x = 0 \<or> x = 1)"

lemma provider_inv_init: "provider_inv n (DRKeyProvider_Init n d)"
  by (auto simp: provider_inv_def DRKeyProvider_Init_def)

lemma AddSecret_Ok:
  assumes "provider_inv n d" and "0 \<le> p" and "p < int n"
  shows "\<exists>d' ss x. AddSecret d p sv = (d', Ok ()) \<and> provider_inv n d' \<and> drKeySecrets d = Some ss
    \<and> x = drKeySecretNextOverwrite d ! nat p \<and> (x = 0 \<or> x = 1)
    \<and> drKeySecrets d' = Some (ss[nat p := (ss ! nat p)[unat x := sv]]) \<and> drKeySecretNextOverwrite d' ! nat p = 1 - x"
proof -
  obtain ss where ss: "drKeySecrets d = Some ss" "length ss = n" "\<forall>s \<in> set ss. length s = 2"
    using assms(1) by (auto simp: provider_inv_def)
  define x where "x = drKeySecretNextOverwrite d ! nat p"
  have len: "length (drKeySecretNextOverwrite d) = n" "nat p < n" "\<not> int n < p" "\<not> int n \<le> p" "\<not> n \<le> nat p"
    using assms by (auto simp: provider_inv_def)
  have x: "x = 0 \<or> x = 1" using assms(1) len by (auto simp: provider_inv_def x_def)
  have "unat x < 2" using x by auto
  then have "AddSecret d p sv = (d\<lparr>drKeySecrets := Some (ss[nat p := (ss ! nat p)[unat x := sv]]),
      drKeySecretNextOverwrite := (drKeySecretNextOverwrite d)[nat p := 1 - x]\<rparr>, Ok ())"
    using ss assms(2,3) len by (simp add: AddSecret_def Let_def flip: x_def)
  moreover have "provider_inv n (d\<lparr>drKeySecrets := Some (ss[nat p := (ss ! nat p)[unat x := sv]]),
      drKeySecretNextOverwrite := (drKeySecretNextOverwrite d)[nat p := 1 - x]\<rparr>)"
    using ss len assms(1) x
    by (auto simp: provider_inv_def dest!: set_update_subset_insert [THEN subsetD])
  ultimately show ?thesis using ss x len by (auto simp: x_def)
qed

text \<open>C37: with \<open>n\<close> protocols, adding a secret value succeeds exactly for the protocols 0 to n-1 and keeps the
  store well formed, is rejected above n, and panics for the protocol number n (and for negative ones): the
  range check is off by one. Two secret values added in a row are both kept, and a lookup within a validity
  period, not more than five seconds in the past, finds a secret value that is valid at that time.\<close>

theorem drkey_secret_store:
  assumes "provider_inv n d"
  shows "(case AddSecret d p sv of
      (d', Ok _) \<Rightarrow> 0 \<le> p \<and> p < int n \<and> provider_inv n d'
    | (d', Fail _) \<Rightarrow> int n < p \<and> d' = d
    | (d', Panic) \<Rightarrow> (p = int n \<or> p < 0) \<and> d' = d)
    \<and> (0 \<le> p \<and> p < int n \<longrightarrow> (\<exists>d1 d2 ss. AddSecret d p sv = (d1, Ok ()) \<and> AddSecret d1 p sv2 = (d2, Ok ())
        \<and> drKeySecrets d2 = Some ss \<and> set (ss ! nat p) = {sv, sv2}
        \<and> (EpochBegin sv2 < t \<and> t < EpochEnd sv2 \<and> time_Sub now t \<le> pastValidity
           \<longrightarrow> (\<exists>s. getSecret now d2 p t = Ok s \<and> s \<in> {sv, sv2} \<and> EpochBegin s < t \<and> t < EpochEnd s))))"
proof (cases "0 \<le> p \<and> p < int n")
  case True
  obtain d1 ss x where 1: "AddSecret d p sv = (d1, Ok ())" "provider_inv n d1" "drKeySecrets d = Some ss"
      "x = 0 \<or> x = 1" "drKeySecrets d1 = Some (ss[nat p := (ss ! nat p)[unat x := sv]])"
      "drKeySecretNextOverwrite d1 ! nat p = 1 - x"
    using AddSecret_Ok [OF assms, of p sv] True by blast
  obtain d2 where 2: "AddSecret d1 p sv2 = (d2, Ok ())"
      "drKeySecrets d2 = Some (ss[nat p := (ss ! nat p)[unat x := sv, unat (1 - x) := sv2]])"
    using AddSecret_Ok [OF 1(2), of p sv2] True 1(5,6) assms by (auto simp: provider_inv_def)
  have "nat p < length ss" "length (ss ! nat p) = 2" using assms 1(3) True by (auto simp: provider_inv_def)
  then obtain a b where ab: "ss ! nat p = [a, b]" by (auto simp: numeral_2_eq_2 length_Suc_conv)
  define l where "l = (ss ! nat p)[unat x := sv, unat (1 - x) := sv2]"
  have l: "set l = {sv, sv2}" using 1(4) by (auto simp: l_def ab)
  have nth: "(ss[nat p := l]) ! nat p = l" using \<open>nat p < length ss\<close> by simp
  have get: "\<exists>s. getSecret now d2 p t = Ok s \<and> s \<in> {sv, sv2} \<and> EpochBegin s < t \<and> t < EpochEnd s"
    if win: "EpochBegin sv2 < t" "t < EpochEnd sv2" "time_Sub now t \<le> pastValidity"
  proof -
    obtain s where "find (\<lambda>sv. t > EpochBegin sv \<and> EpochEnd sv > t) l = Some s"
      using win(1,2) l by (metis (mono_tags, lifting) find_None_iff insertCI not_None_eq)
    moreover from this have "s \<in> {sv, sv2} \<and> EpochBegin s < t \<and> t < EpochEnd s"
      using l by (metis (mono_tags, lifting) find_Some_iff nth_mem)
    ultimately show ?thesis
      using 2(2) nth win(3) True assms 1(3) by (simp add: getSecret_def provider_inv_def flip: l_def)
  qed
  show ?thesis using 1(1,2) 2 l nth True get by (simp flip: l_def)
next
  case False
  moreover from assms obtain ss where "drKeySecrets d = Some ss" "length ss = n" "length (drKeySecretNextOverwrite d) = n"
    by (auto simp: provider_inv_def)
  ultimately have "AddSecret d p sv = (if int n < p then (d, Fail (Err ''Error while adding a new drkey. ProtocolID too large''))
      else (d, Panic))"
    by (auto simp: AddSecret_def)
  then show ?thesis using False by auto
qed

theorem drkey_secret_store_witness:
  "provider_inv 2 (DRKeyProvider_Init 2 \<lparr>drKeySecrets = None, drKeySecretNextOverwrite = []\<rparr>)
   \<and> (\<exists>d'. AddSecret (DRKeyProvider_Init 2 \<lparr>drKeySecrets = None, drKeySecretNextOverwrite = []\<rparr>) 1
        \<lparr>EpochBegin = 0, EpochEnd = 10, SVKey = replicate 16 1\<rparr> = (d', Ok ()) \<and> provider_inv 2 d')
   \<and> snd (AddSecret (DRKeyProvider_Init 2 \<lparr>drKeySecrets = None, drKeySecretNextOverwrite = []\<rparr>) 2
        \<lparr>EpochBegin = 0, EpochEnd = 10, SVKey = replicate 16 1\<rparr>) = Panic"
proof -
  let ?d = "DRKeyProvider_Init 2 \<lparr>drKeySecrets = None, drKeySecretNextOverwrite = []\<rparr>"
  let ?sv = "\<lparr>EpochBegin = 0, EpochEnd = 10, SVKey = replicate 16 1\<rparr>"
  have inv: "provider_inv 2 ?d" by (rule provider_inv_init)
  show ?thesis
    using drkey_secret_store [OF inv, of 1 ?sv ?sv 0 0] drkey_secret_store [OF inv, of 2 ?sv ?sv 0 0] inv
    by (auto split: prod.splits result.splits)
qed

end
