(* ===== verification/DataPlane.thy ===== *)
theory DataPlane
  imports Bfd Drkey Scmp
begin

text \<open>
  The configuration of the border router's data plane (\<^verbatim>\<open>router/dataplane.go\<close>, \<^verbatim>\<open>router/svc.go\<close>,
  \<^verbatim>\<open>router/connector.go\<close>): the state every packet processor reads, the operations the control process
  calls to set it up, the service registry, the sender of BFD packets and the choice of a processor for a
  packet.

  Maps that are nil or empty behave alike and are both the empty map. A connection is a number. The
  addresses of services are shared by pointer, since the packet processor writes to them: a pointer is a
  number, and \<open>udpAddrs\<close> holds what it points to. Addresses of next hops are never written and are kept as
  values. BFD sessions are shared between interfaces as well: \<open>bfdSessions\<close> maps an interface to an index
  into \<open>bfdPool\<close>. Locks, metrics and logging are left out.
\<close>

unbundle bit_operations_syntax

section \<open>Addresses and link types\<close>

record UDPAddr =
  UIP :: bytes
  UPort :: int
  UZone :: string

text \<open>\<^verbatim>\<open>net.IP.Equal\<close> and the equality of \<^verbatim>\<open>UDPAddr.String\<close> identify an IPv4 address with its IPv4-mapped form.\<close>

definition ip_norm :: "bytes \<Rightarrow> bytes" where
  "ip_norm b = (if length b = 16 \<and> take 12 b = mapped_prefix then drop 12 b else b)"

definition ip_Equal :: "bytes \<Rightarrow> bytes \<Rightarrow> bool" where
  "ip_Equal a b \<longleftrightarrow> ip_norm a = ip_norm b"

definition same_String :: "UDPAddr \<Rightarrow> UDPAddr \<Rightarrow> bool" where
  "same_String a b \<longleftrightarrow> ip_norm (UIP a) = ip_norm (UIP b) \<and> UPort a = UPort b \<and> UZone a = UZone b"

definition netip_AddrFromSlice :: "bytes \<Rightarrow> netip_Addr option" where
  "netip_AddrFromSlice b =
    (if length b = 4 then Some (netip_AddrFrom4 b)
     else if length b = 16 then Some (netip_AddrFrom16 b) else None)"

definition EndhostPort :: int where "EndhostPort = 30041"

datatype LinkType = Unset | Core | Parent | Child | PeerLink

definition LinkType_MarshalText :: "LinkType \<Rightarrow> string result" where
  "LinkType_MarshalText l =
    (case l of Core \<Rightarrow> Ok ''core'' | Parent \<Rightarrow> Ok ''parent'' | Child \<Rightarrow> Ok ''child'' | PeerLink \<Rightarrow> Ok ''peer''
     | Unset \<Rightarrow> Fail (Err ''invalid link type''))"

definition lower_char :: "char \<Rightarrow> char" where
  "lower_char c = (let n = of_char c :: nat in if 65 \<le> n \<and> n \<le> 90 then char_of (n + 32) else c)"

text \<open>\<^verbatim>\<open>strings.ToLower\<close> on the characters of the four names is the ASCII mapping.\<close>

definition LinkType_UnmarshalText :: "string \<Rightarrow> LinkType result" where
  "LinkType_UnmarshalText data =
    (let s = map lower_char data in
     if s = ''core'' then Ok Core
     else if s = ''parent'' then Ok Parent
     else if s = ''child'' then Ok Child
     else if s = ''peer'' then Ok PeerLink
     else Fail (Err ''invalid link type''))"

definition LinkTypeFromString :: "string \<Rightarrow> LinkType" where
  "LinkTypeFromString s = (case LinkType_UnmarshalText s of Ok l \<Rightarrow> l | _ \<Rightarrow> Unset)"

section \<open>Services\<close>

type_synonym services = "SVC \<Rightarrow> nat list"

definition newServices :: services where "newServices = (\<lambda>_. [])"

fun services_index :: "(nat \<Rightarrow> UDPAddr) \<Rightarrow> UDPAddr \<Rightarrow> nat list \<Rightarrow> nat \<Rightarrow> nat option" where
  "services_index store a [] i = None"
| "services_index store a (p # ps) i =
    (if ip_Equal (UIP a) (UIP (store p)) \<and> UPort a = UPort (store p) then Some i
     else services_index store a ps (Suc i))"

definition services_AddSvc :: "(nat \<Rightarrow> UDPAddr) \<Rightarrow> services \<Rightarrow> SVC \<Rightarrow> nat \<Rightarrow> services" where
  "services_AddSvc store m svc a =
    (case services_index store (store a) (m svc) 0 of
       Some _ \<Rightarrow> m
     | None \<Rightarrow> m(svc := m svc @ [a]))"

definition services_DelSvc :: "(nat \<Rightarrow> UDPAddr) \<Rightarrow> services \<Rightarrow> SVC \<Rightarrow> nat \<Rightarrow> services" where
  "services_DelSvc store m svc a =
    (let addrs = m svc in
     case services_index store (store a) addrs 0 of
       None \<Rightarrow> m
     | Some i \<Rightarrow> m(svc := butlast (addrs[i := last addrs])))"

text \<open>\<open>intn\<close> is \<^verbatim>\<open>mrand.Intn\<close>.\<close>

definition services_Any :: "(nat \<Rightarrow> nat) \<Rightarrow> services \<Rightarrow> SVC \<Rightarrow> nat option" where
  "services_Any intn m svc =
    (let addrs = m svc in if length addrs = 0 then None else Some (addrs ! intn (length addrs)))"

section \<open>Sender of BFD packets\<close>

definition hopFieldDefaultExpTime :: u8 where "hopFieldDefaultExpTime = 63"

text \<open>\<open>bs_ohp\<close> tells whether the path of \<open>bs_scn\<close> is the one-hop path the sender updates.\<close>

record bfdSend =
  bs_conn :: nat
  bs_srcAddr :: UDPAddr
  bs_dstAddr :: UDPAddr
  bs_scn :: SCION
  bs_ohp :: bool
  bs_mac :: "bytes \<Rightarrow> bytes"

definition zero_scion :: SCION where
  "zero_scion = \<lparr>Contents = [], Payload = [], Version = 0, TrafficClass = 0, FlowID = 0, NextHdr = 0, HdrLen = 0,
     PayloadLen = 0, SPathType = 0, DstAddrType = 0, SrcAddrType = 0, DstIA = 0, SrcIA = 0, RawDstAddr = [],
     RawSrcAddr = [], SPath = None, pathPool = False\<rparr>"

definition newBFDSend ::
  "nat \<Rightarrow> IA \<Rightarrow> IA \<Rightarrow> UDPAddr \<Rightarrow> UDPAddr \<Rightarrow> u16 \<Rightarrow> (bytes \<Rightarrow> bytes) \<Rightarrow> bfdSend result" where
  "newBFDSend conn srcIA dstIA srcAddr dstAddr ifID mac =
    (let scn = zero_scion\<lparr>TrafficClass := 0xb8, FlowID := 0xdead, NextHdr := L4BFD, SrcIA := srcIA, DstIA := dstIA\<rparr> in
     case netip_AddrFromSlice (UIP srcAddr) of
       None \<Rightarrow> Fail (Err ''invalid source IP'')
     | Some srcIP \<Rightarrow>
     (case netip_AddrFromSlice (UIP dstAddr) of
       None \<Rightarrow> Fail (Err ''invalid destination IP'')
     | Some dstIP \<Rightarrow>
     (case SetSrcAddr scn (HostIP srcIP) of
       (scn, Ok _) \<Rightarrow>
       (case SetDstAddr scn (HostIP dstIP) of
         (scn, Ok _) \<Rightarrow>
           let ohp = \<lparr>Info = zero_info\<lparr>ConsDir := True\<rparr>,
                      FirstHop = zero_hop\<lparr>ConsEgress := ifID, ExpTime := hopFieldDefaultExpTime\<rparr>,
                      SecondHop = zero_hop\<rparr>;
               scn = (if ifID = 0 then scn\<lparr>SPathType := empty_PathType, SPath := Some EmptyPath\<rparr>
                      else scn\<lparr>SPathType := onehop_PathType, SPath := Some (OneHopPath ohp)\<rparr>)
           in Ok \<lparr>bs_conn = conn, bs_srcAddr = srcAddr, bs_dstAddr = dstAddr, bs_scn = scn,
                  bs_ohp = (ifID \<noteq> 0), bs_mac = mac\<rparr>
       | _ \<Rightarrow> Panic)
     | _ \<Rightarrow> Panic)))"

text \<open>
  Sending: the current time in seconds is \<open>now\<close>, \<open>bfdBytes\<close> the encoding of the BFD layer by gopacket. The
  result is the sender with its updated header and the packet written to the connection.
\<close>

definition bfdSend_Send :: "(nat \<Rightarrow> bytes) \<Rightarrow> int \<Rightarrow> bfdSend \<Rightarrow> bytes \<Rightarrow> bfdSend \<times> bytes result" where
  "bfdSend_Send fresh now b bfdBytes =
    (let b = (case (bs_ohp b, SPath (bs_scn b)) of
                (True, Some (OneHopPath o')) \<Rightarrow>
                  let o' = o'\<lparr>Info := (Info o')\<lparr>Timestamp := word_of_int (now - 10)\<rparr>\<rparr>;
                      o' = o'\<lparr>FirstHop := (FirstHop o')\<lparr>Mac := MAC (bs_mac b) (Info o') (FirstHop o') (replicate MACBufferSize 0)\<rparr>\<rparr>
                  in b\<lparr>bs_scn := (bs_scn b)\<lparr>SPath := Some (OneHopPath o')\<rparr>\<rparr>
              | _ \<Rightarrow> b) in
     case SCION_SerializeTo fresh True (bs_scn b) bfdBytes of (scn, r) \<Rightarrow> (b\<lparr>bs_scn := scn\<rparr>, r))"

section \<open>The data plane\<close>

record PolicyIPRange =
  MPLSLabel :: u32
  RangeIP :: bytes
  RangePrefix :: nat

record DataPlane =
  interfaces :: "u16 \<rightharpoonup> nat"
  external :: "u16 \<rightharpoonup> nat"
  linkTypes :: "u16 \<rightharpoonup> LinkType"
  neighborIAs :: "u16 \<rightharpoonup> IA"
  peerInterfaces :: "u16 \<rightharpoonup> u16"
  internal :: "nat option"
  internalIP :: netip_Addr
  internalNextHops :: "u16 \<rightharpoonup> UDPAddr"
  svcs :: "services option"
  udpAddrs :: "nat \<Rightarrow> UDPAddr"
  macFactory :: "(bytes \<Rightarrow> bytes) option"
  bfdSessions :: "u16 \<rightharpoonup> nat"
  bfdPool :: "(bfdSend \<times> Session) list"
  localIA :: IA
  running :: bool
  drkeys :: DRKeyProvider
  fabridPolicyIPRangeMap :: "u32 \<rightharpoonup> PolicyIPRange list"
  fabridPolicyInterfaceMap :: "u64 \<rightharpoonup> u32"
  dispatchedPortStart :: u16
  dispatchedPortEnd :: u16
  ExperimentalSCMPAuthentication :: bool

definition alreadySet :: go_error where "alreadySet = Err ''already set''"
definition emptyValue :: go_error where "emptyValue = Err ''empty value''"
definition modifyExisting :: go_error where
  "modifyExisting = Err ''modifying a running dataplane is not allowed''"
definition unsupportedPathType :: go_error where "unsupportedPathType = Err ''unsupported path type''"
definition errShortPacket :: go_error where "errShortPacket = Err ''Packet is too short''"

definition SetIA :: "DataPlane \<Rightarrow> IA \<Rightarrow> DataPlane \<times> unit result" where
  "SetIA d ia =
    (if running d then (d, Fail modifyExisting)
     else if IA_IsZero ia then (d, Fail emptyValue)
     else if \<not> IA_IsZero (localIA d) then (d, Fail alreadySet)
     else (d\<lparr>localIA := ia\<rparr>, Ok ()))"

text \<open>\<open>newCMAC\<close> is \<^verbatim>\<open>cmac.New\<close> of a third-party package on a block cipher.\<close>

definition InitMac ::
  "(bytes \<Rightarrow> bytes \<Rightarrow> bytes) \<Rightarrow> ((bytes \<Rightarrow> bytes) \<Rightarrow> (bytes \<Rightarrow> bytes) result) \<Rightarrow> bytes \<Rightarrow> (bytes \<Rightarrow> bytes) result" where
  "InitMac aes newCMAC key =
    (case aes_NewCipher aes key of
       Panic \<Rightarrow> Panic
     | Fail e \<Rightarrow> Fail (Wrap (Err ''Unable to initialize AES cipher'') e)
     | Ok block \<Rightarrow>
         (case newCMAC block of
            Panic \<Rightarrow> Panic
          | Fail e \<Rightarrow> Fail (Wrap (Err ''Unable to initialize Mac'') e)
          | Ok mac \<Rightarrow> Ok mac))"

definition SetKey ::
  "(bytes \<Rightarrow> bytes \<Rightarrow> bytes) \<Rightarrow> ((bytes \<Rightarrow> bytes) \<Rightarrow> (bytes \<Rightarrow> bytes) result) \<Rightarrow> DataPlane \<Rightarrow> bytes
   \<Rightarrow> DataPlane \<times> unit result" where
  "SetKey aes newCMAC d key =
    (if running d then (d, Fail modifyExisting)
     else if length key = 0 then (d, Fail emptyValue)
     else if macFactory d \<noteq> None then (d, Fail alreadySet)
     else case InitMac aes newCMAC key of
       Fail e \<Rightarrow> (d, Fail e)
     | Panic \<Rightarrow> (d, Panic)
     | Ok mac \<Rightarrow> (d\<lparr>macFactory := Some mac\<rparr>, Ok ()))"

definition SetPortRange :: "DataPlane \<Rightarrow> u16 \<Rightarrow> u16 \<Rightarrow> DataPlane" where
  "SetPortRange d start end' = d\<lparr>dispatchedPortStart := start, dispatchedPortEnd := end'\<rparr>"

definition AddInternalInterface :: "DataPlane \<Rightarrow> nat option \<Rightarrow> netip_Addr \<Rightarrow> DataPlane \<times> unit result" where
  "AddInternalInterface d conn ip =
    (if running d then (d, Fail modifyExisting)
     else case conn of
       None \<Rightarrow> (d, Fail emptyValue)
     | Some c \<Rightarrow>
         if internal d \<noteq> None then (d, Fail alreadySet)
         else (d\<lparr>interfaces := (interfaces d)(0 \<mapsto> c), internal := Some c, internalIP := ip\<rparr>, Ok ()))"

text \<open>\<open>rnd\<close> is the result of \<^verbatim>\<open>rand.Int\<close> below 0xfffffffe. A nil \<open>cfgDisable\<close> pointer panics.\<close>

record BFDConfig =
  cfgDisable :: "bool option"
  cfgDetectMult :: u8
  cfgDesiredMinTxInterval :: int
  cfgRequiredMinRxInterval :: int

record LinkEnd =
  LEIA :: IA
  LEAddr :: "UDPAddr option"

definition addBFDController ::
  "u32 result \<Rightarrow> DataPlane \<Rightarrow> u16 \<Rightarrow> bfdSend \<Rightarrow> BFDConfig \<Rightarrow> DataPlane \<times> unit result" where
  "addBFDController rnd d ifID s cfg =
    (case rnd of
       Fail e \<Rightarrow> (d, Fail e)
     | Panic \<Rightarrow> (d, Panic)
     | Ok discInt \<Rightarrow>
         let disc = discInt + 1;
             session = \<lparr>hasSender = True, LocalDiscriminator = disc, RemoteDiscriminator = 0, remoteDiscriminator = 0,
               DesiredMinTxInterval = cfgDesiredMinTxInterval cfg, RequiredMinRxInterval = cfgRequiredMinRxInterval cfg,
               DetectMult = cfgDetectMult cfg, ReceiveQueueSize = 10, messages = [], closed = False,
               localState = 0, runMarker = False, desiredMinTXInterval = 0, remoteState = 0, remoteMinRxInterval = 0,
               detectionTimer = 0, sendTimer = 0, sent = []\<rparr>
         in (d\<lparr>bfdPool := bfdPool d @ [(s, session)],
               bfdSessions := (bfdSessions d)(ifID \<mapsto> length (bfdPool d))\<rparr>, Ok ()))"

definition addExternalInterfaceBFD ::
  "u32 result \<Rightarrow> DataPlane \<Rightarrow> u16 \<Rightarrow> nat \<Rightarrow> IA \<Rightarrow> UDPAddr \<Rightarrow> IA \<Rightarrow> UDPAddr \<Rightarrow> BFDConfig \<Rightarrow> DataPlane \<times> unit result" where
  "addExternalInterfaceBFD rnd d ifID conn srcIA src dstIA dst cfg =
    (case cfgDisable cfg of
       None \<Rightarrow> (d, Panic)
     | Some True \<Rightarrow> (d, Ok ())
     | Some False \<Rightarrow>
         (case macFactory d of
            None \<Rightarrow> (d, Panic)
          | Some mac \<Rightarrow>
              (case newBFDSend conn srcIA dstIA src dst ifID mac of
                 Fail e \<Rightarrow> (d, Fail e)
               | Panic \<Rightarrow> (d, Panic)
               | Ok s \<Rightarrow> addBFDController rnd d ifID s cfg)))"

definition AddExternalInterface ::
  "u32 result \<Rightarrow> DataPlane \<Rightarrow> u16 \<Rightarrow> nat option \<Rightarrow> LinkEnd \<Rightarrow> LinkEnd \<Rightarrow> BFDConfig \<Rightarrow> DataPlane \<times> unit result" where
  "AddExternalInterface rnd d ifID conn src dst cfg =
    (if running d then (d, Fail modifyExisting)
     else case (conn, LEAddr src, LEAddr dst) of
       (Some c, Some srcA, Some dstA) \<Rightarrow>
         (case addExternalInterfaceBFD rnd d ifID c (LEIA src) srcA (LEIA dst) dstA cfg of
            (d, Fail e) \<Rightarrow> (d, Fail (WrapStr ''adding external BFD'' e))
          | (d, Panic) \<Rightarrow> (d, Panic)
          | (d, Ok _) \<Rightarrow>
              if external d ifID \<noteq> None then (d, Fail alreadySet)
              else (d\<lparr>interfaces := (interfaces d)(ifID \<mapsto> c), external := (external d)(ifID \<mapsto> c)\<rparr>, Ok ()))
     | _ \<Rightarrow> (d, Fail emptyValue))"

definition AddNeighborIA :: "DataPlane \<Rightarrow> u16 \<Rightarrow> IA \<Rightarrow> DataPlane \<times> unit result" where
  "AddNeighborIA d ifID remote =
    (if running d then (d, Fail modifyExisting)
     else if IA_IsZero remote then (d, Fail emptyValue)
     else if neighborIAs d ifID \<noteq> None then (d, Fail alreadySet)
     else (d\<lparr>neighborIAs := (neighborIAs d)(ifID \<mapsto> remote)\<rparr>, Ok ()))"

definition AddLinkType :: "DataPlane \<Rightarrow> u16 \<Rightarrow> LinkType \<Rightarrow> DataPlane \<times> unit result" where
  "AddLinkType d ifID linkTo =
    (if linkTypes d ifID \<noteq> None then (d, Fail alreadySet)
     else (d\<lparr>linkTypes := (linkTypes d)(ifID \<mapsto> linkTo)\<rparr>, Ok ()))"

definition AddRemotePeer :: "DataPlane \<Rightarrow> u16 \<Rightarrow> u16 \<Rightarrow> DataPlane \<times> unit result" where
  "AddRemotePeer d local remote =
    (if (case linkTypes d local of None \<Rightarrow> False | Some t \<Rightarrow> t \<noteq> PeerLink) then (d, Fail unsupportedPathType)
     else if peerInterfaces d local \<noteq> None then (d, Fail alreadySet)
     else (d\<lparr>peerInterfaces := (peerInterfaces d)(local \<mapsto> remote)\<rparr>, Ok ()))"

definition bfd_up :: "DataPlane \<Rightarrow> u16 \<Rightarrow> bool option" where
  "bfd_up d ifID = map_option (\<lambda>i. IsUp (snd (bfdPool d ! i))) (bfdSessions d ifID)"

datatype InterfaceState = InterfaceUp | InterfaceDown

definition getInterfaceState :: "DataPlane \<Rightarrow> u16 \<Rightarrow> InterfaceState" where
  "getInterfaceState d interfaceID = (if bfd_up d interfaceID = Some False then InterfaceDown else InterfaceUp)"

definition AddSvc :: "DataPlane \<Rightarrow> SVC \<Rightarrow> nat option \<Rightarrow> DataPlane \<times> unit result" where
  "AddSvc d svc a =
    (case a of
       None \<Rightarrow> (d, Fail emptyValue)
     | Some p \<Rightarrow>
         let m = (case svcs d of None \<Rightarrow> newServices | Some m \<Rightarrow> m)
         in (d\<lparr>svcs := Some (services_AddSvc (udpAddrs d) m svc p)\<rparr>, Ok ()))"

definition DelSvc :: "DataPlane \<Rightarrow> SVC \<Rightarrow> nat option \<Rightarrow> DataPlane \<times> unit result" where
  "DelSvc d svc a =
    (case a of
       None \<Rightarrow> (d, Fail emptyValue)
     | Some p \<Rightarrow>
         (case svcs d of
            None \<Rightarrow> (d, Ok ())
          | Some m \<Rightarrow> (d\<lparr>svcs := Some (services_DelSvc (udpAddrs d) m svc p)\<rparr>, Ok ())))"

text \<open>\<open>iter\<close> is the order in which \<^verbatim>\<open>range\<close> visits the keys of the map of next hops.\<close>

definition addNextHopBFD ::
  "u32 result \<Rightarrow> u16 list \<Rightarrow> DataPlane \<Rightarrow> u16 \<Rightarrow> UDPAddr \<Rightarrow> UDPAddr \<Rightarrow> BFDConfig \<Rightarrow> DataPlane \<times> unit result" where
  "addNextHopBFD rnd iter d ifID src dst cfg =
    (case cfgDisable cfg of
       None \<Rightarrow> (d, Panic)
     | Some True \<Rightarrow> (d, Ok ())
     | Some False \<Rightarrow>
         (case find (\<lambda>k. (case internalNextHops d k of None \<Rightarrow> False | Some v \<Rightarrow> same_String v dst)
                        \<and> bfdSessions d k \<noteq> None) iter of
            Some k \<Rightarrow> (d\<lparr>bfdSessions := (bfdSessions d)(ifID := bfdSessions d k)\<rparr>, Ok ())
          | None \<Rightarrow>
              (case macFactory d of
                 None \<Rightarrow> (d, Panic)
               | Some mac \<Rightarrow>
                   (case newBFDSend (case internal d of None \<Rightarrow> 0 | Some c \<Rightarrow> c) (localIA d) (localIA d) src dst 0 mac of
                      Fail e \<Rightarrow> (d, Fail e)
                    | Panic \<Rightarrow> (d, Panic)
                    | Ok s \<Rightarrow> addBFDController rnd d ifID s cfg))))"

definition AddNextHop ::
  "u32 result \<Rightarrow> u16 list \<Rightarrow> DataPlane \<Rightarrow> u16 \<Rightarrow> UDPAddr option \<Rightarrow> UDPAddr option \<Rightarrow> BFDConfig
   \<Rightarrow> DataPlane \<times> unit result" where
  "AddNextHop rnd iter d ifID src dst cfg =
    (if running d then (d, Fail modifyExisting)
     else case (dst, src) of
       (Some dstA, Some srcA) \<Rightarrow>
         (case addNextHopBFD rnd iter d ifID srcA dstA cfg of
            (d, Fail e) \<Rightarrow> (d, Fail (WrapStr ''adding next hop BFD'' e))
          | (d, Panic) \<Rightarrow> (d, Panic)
          | (d, Ok _) \<Rightarrow>
              if internalNextHops d ifID \<noteq> None then (d, Fail alreadySet)
              else (d\<lparr>internalNextHops := (internalNextHops d)(ifID \<mapsto> dstA)\<rparr>, Ok ()))
     | _ \<Rightarrow> (d, Fail emptyValue))"

definition UpdateFabridPolicies ::
  "DataPlane \<Rightarrow> (u32 \<rightharpoonup> PolicyIPRange list) \<Rightarrow> (u64 \<rightharpoonup> u32) \<Rightarrow> DataPlane" where
  "UpdateFabridPolicies d ipRangePolicies interfacePolicies =
     d\<lparr>fabridPolicyIPRangeMap := ipRangePolicies, fabridPolicyInterfaceMap := interfacePolicies\<rparr>"

section \<open>Choosing a processor\<close>

definition fnv1aOffset32 :: u32 where "fnv1aOffset32 = 2166136261"

definition hashFNV1a :: "u32 \<Rightarrow> u8 \<Rightarrow> u32" where
  "hashFNV1a state c = (state XOR ucast c) * 16777619"

text \<open>\<open>s % uint32(numProcRoutines)\<close> panics for zero.\<close>

definition computeProcID :: "bytes \<Rightarrow> int \<Rightarrow> u32 \<Rightarrow> u32 result" where
  "computeProcID data numProcRoutines hashSeed =
    (if int (length data) < CmnHdrLen then Fail errShortPacket
     else
       let dstHostAddrLen = AddrType_Length (drop_bit 4 (data ! 9) AND 0xF);
           srcHostAddrLen = AddrType_Length (data ! 9 AND 0xF);
           addrHdrLen = 2 * int IABytes + srcHostAddrLen + dstHostAddrLen in
       if int (length data) < CmnHdrLen + addrHdrLen then Fail errShortPacket
       else
         let s = hashFNV1a hashSeed (data ! 1 AND 0xF);
             s = foldl hashFNV1a s (take 2 (drop 2 data));
             s = foldl hashFNV1a s (take (nat addrHdrLen) (drop (nat CmnHdrLen) data))
         in if (word_of_int numProcRoutines :: u32) = 0 then Panic
            else Ok (s mod word_of_int numProcRoutines))"

definition hash_seed :: "bytes \<Rightarrow> u32" where
  "hash_seed randomBytes = foldl hashFNV1a fnv1aOffset32 randomBytes"

section \<open>What the service registry promises\<close>

text \<open>
  The interface the packet processor and the control process rely on: per service a set of endpoints. The
  random choice is any function that stays below its bound.
\<close>

locale service_registry =
  fixes inv :: "'m \<Rightarrow> bool"
    and endpoints :: "'m \<Rightarrow> SVC \<Rightarrow> 'e set"
    and endpoint :: "'p \<Rightarrow> 'e"
    and empty :: 'm
    and add :: "'m \<Rightarrow> SVC \<Rightarrow> 'p \<Rightarrow> 'm"
    and del :: "'m \<Rightarrow> SVC \<Rightarrow> 'p \<Rightarrow> 'm"
    and any :: "(nat \<Rightarrow> nat) \<Rightarrow> 'm \<Rightarrow> SVC \<Rightarrow> 'p option"
  assumes empty_inv: "inv empty" and empty_endpoints: "endpoints empty s = {}"
    and add_inv: "inv m \<Longrightarrow> inv (add m s p)"
    and add_endpoints: "inv m \<Longrightarrow> endpoints (add m s p) t = (if t = s then insert (endpoint p) (endpoints m s) else endpoints m t)"
    and del_inv: "inv m \<Longrightarrow> inv (del m s p)"
    and del_endpoints: "inv m \<Longrightarrow> endpoints (del m s p) t = (if t = s then endpoints m s - {endpoint p} else endpoints m t)"
    and any_None: "any rnd m s = None \<longleftrightarrow> endpoints m s = {}"
    and any_Some: "(\<And>n. 0 < n \<Longrightarrow> rnd n < n) \<Longrightarrow> any rnd m s = Some p \<Longrightarrow> endpoint p \<in> endpoints m s"
begin

text \<open>An endpoint that was removed is not chosen, and one that was added and not removed keeps the service alive.\<close>

lemma any_after_del:
  assumes "inv m" and "\<And>n. 0 < n \<Longrightarrow> rnd n < n" and "any rnd (del m s p) s = Some q"
  shows "endpoint q \<noteq> endpoint p \<and> endpoint q \<in> endpoints m s"
  using any_Some [OF assms(2,3)] del_endpoints [OF assms(1), of s p s] by simp

lemma any_after_add: "inv m \<Longrightarrow> any rnd (add m s p) s \<noteq> None"
  by (simp add: any_None add_endpoints)

end

definition svc_key :: "(nat \<Rightarrow> UDPAddr) \<Rightarrow> nat \<Rightarrow> bytes \<times> int" where
  "svc_key store p = (ip_norm (UIP (store p)), UPort (store p))"

definition svc_endpoints :: "(nat \<Rightarrow> UDPAddr) \<Rightarrow> services \<Rightarrow> SVC \<Rightarrow> (bytes \<times> int) set" where
  "svc_endpoints store m s = svc_key store ` set (m s)"

definition svc_inv :: "(nat \<Rightarrow> UDPAddr) \<Rightarrow> services \<Rightarrow> bool" where
  "svc_inv store m \<longleftrightarrow> (\<forall>s. distinct (map (svc_key store) (m s)))"

lemma services_index_None:
  "services_index store (store p) ps i = None \<longleftrightarrow> svc_key store p \<notin> svc_key store ` set ps"
  by (induction ps arbitrary: i) (auto simp: svc_key_def ip_Equal_def)

lemma services_index_Some:
  "services_index store (store p) ps i = Some j \<Longrightarrow>
     i \<le> j \<and> j - i < length ps \<and> svc_key store (ps ! (j - i)) = svc_key store p"
proof (induction ps arbitrary: i)
  case (Cons q ps)
  then show ?case
    by (fastforce simp: svc_key_def ip_Equal_def nth_Cons' split: if_splits dest!: Cons.IH [of "Suc i"])
qed simp

lemma swap_remove:
  assumes "distinct ks" and "i < length ks"
  shows "set (butlast (ks[i := last ks])) = set ks - {ks ! i} \<and> distinct (butlast (ks[i := last ks]))"
proof -
  obtain ys z where ks: "ks = ys @ [z]" using assms(2) by (cases ks rule: rev_cases) auto
  have d: "distinct ys" "z \<notin> set ys" using assms(1) by (simp_all add: ks)
  show ?thesis
  proof (cases "i = length ys")
    case True
    then show ?thesis using d by (simp add: ks)
  next
    case False
    then have i: "i < length ys" using assms(2) by (simp add: ks)
    then have eq: "butlast (ks[i := last ks]) = ys[i := z]" by (simp add: ks list_update_append1)
    have "set (ys[i := z]) = insert z (set ys - {ys ! i})" using d i by (simp add: set_update_distinct)
    moreover have "distinct (ys[i := z])" using d i by (intro distinct_list_update) auto
    moreover have "ys ! i \<noteq> z" using d i by auto
    moreover have "ks ! i = ys ! i" "set ks = insert z (set ys)" using i by (simp_all add: ks nth_append)
    ultimately show ?thesis using d(2) unfolding eq by (simp add: insert_Diff_if)
  qed
qed

lemmas set_swap_remove = swap_remove [THEN conjunct1] swap_remove [THEN conjunct2]

lemma services_DelSvc_map:
  assumes "svc_inv store m" and "services_index store (store p) (m s) 0 = Some i"
  shows "map (svc_key store) (services_DelSvc store m s p s)
      = butlast ((map (svc_key store) (m s))[i := last (map (svc_key store) (m s))])"
    "i < length (m s)" "map (svc_key store) (m s) ! i = svc_key store p"
proof -
  have i: "i < length (m s)" "svc_key store (m s ! i) = svc_key store p"
    using services_index_Some [OF assms(2)] by simp_all
  then show "i < length (m s)" "map (svc_key store) (m s) ! i = svc_key store p" by simp_all
  have "m s \<noteq> []" using i by auto
  then show "map (svc_key store) (services_DelSvc store m s p s)
      = butlast ((map (svc_key store) (m s))[i := last (map (svc_key store) (m s))])"
    using assms(2) by (simp add: services_DelSvc_def Let_def map_butlast map_update last_map)
qed

interpretation svc: service_registry "svc_inv store" "svc_endpoints store" "svc_key store" newServices
    "services_AddSvc store" "services_DelSvc store" services_Any for store
proof unfold_locales
  fix m s t p rnd
  show "svc_inv store newServices" "svc_endpoints store newServices s = {}"
    by (simp_all add: svc_inv_def svc_endpoints_def newServices_def)
  show "services_Any rnd m s = None \<longleftrightarrow> svc_endpoints store m s = {}"
    by (simp add: services_Any_def svc_endpoints_def Let_def)
  show "svc_inv store (services_AddSvc store m s p)" if "svc_inv store m"
    using that services_index_None [of store p "m s" 0]
    by (auto simp: svc_inv_def services_AddSvc_def split: option.splits)
  show "svc_endpoints store (services_AddSvc store m s p) t
      = (if t = s then insert (svc_key store p) (svc_endpoints store m s) else svc_endpoints store m t)" if "svc_inv store m"
    using services_index_None [of store p "m s" 0]
    by (auto simp: svc_endpoints_def services_AddSvc_def split: option.splits)
  show "svc_inv store (services_DelSvc store m s p)" if inv: "svc_inv store m"
  proof (cases "services_index store (store p) (m s) 0")
    case (Some i)
    then have "distinct (map (svc_key store) (services_DelSvc store m s p s))"
      using services_DelSvc_map [OF inv Some] set_swap_remove(2) [of "map (svc_key store) (m s)" i] inv
      by (simp add: svc_inv_def)
    then show ?thesis using inv Some by (auto simp: svc_inv_def services_DelSvc_def Let_def)
  qed (use inv in \<open>simp add: services_DelSvc_def Let_def\<close>)
  show "svc_endpoints store (services_DelSvc store m s p) t
      = (if t = s then svc_endpoints store m s - {svc_key store p} else svc_endpoints store m t)" if inv: "svc_inv store m"
  proof (cases "services_index store (store p) (m s) 0")
    case None
    then show ?thesis using services_index_None [of store p "m s" 0] by (auto simp: svc_endpoints_def services_DelSvc_def Let_def)
  next
    case (Some i)
    have "set (map (svc_key store) (services_DelSvc store m s p s)) = set (map (svc_key store) (m s)) - {svc_key store p}"
      using services_DelSvc_map [OF inv Some] set_swap_remove(1) [of "map (svc_key store) (m s)" i] inv
      by (simp add: svc_inv_def)
    then show ?thesis using Some by (auto simp: svc_endpoints_def services_DelSvc_def Let_def)
  qed
  show "svc_key store p \<in> svc_endpoints store m s" if "\<And>n. 0 < n \<Longrightarrow> rnd n < n" "services_Any rnd m s = Some p"
    using that by (auto simp: services_Any_def svc_endpoints_def Let_def split: if_splits)
qed

lemma services_Any_onto:
  assumes "k \<in> svc_endpoints store m s"
  shows "\<exists>rnd q. (\<forall>n>0. rnd n < n) \<and> services_Any rnd m s = Some q \<and> svc_key store q = k"
proof -
  obtain i where i: "i < length (m s)" "svc_key store (m s ! i) = k"
    using assms by (auto simp: svc_endpoints_def in_set_conv_nth)
  define rnd where "rnd n = min i (n - 1)" for n :: nat
  have "rnd n < n" if "0 < n" for n using that by (simp add: rnd_def min_less_iff_disj)
  moreover have "rnd (length (m s)) = i" using i(1) by (simp add: rnd_def)
  then have "services_Any rnd m s = Some (m s ! i)" using i(1) by (auto simp: services_Any_def Let_def)
  ultimately show ?thesis using i(2) by (intro exI [of _ rnd] exI [of _ "m s ! i"]) simp
qed

text \<open>C32: the service registry behaves as a set of endpoints per service (an endpoint is an address and a port, an IPv4
  address and its mapped IPv6 form being the same): a new registry has none, registering an endpoint adds exactly
  that one to its service, deleting removes exactly that one, neither touches another service, and no service ever
  holds an endpoint twice. A lookup fails exactly for a service without endpoints, otherwise yields one of its
  endpoints, and depending on the random choice any of them; so it succeeds after a registration and never yields a
  deleted endpoint.\<close>

theorem service_registry_spec:
  assumes "svc_inv store m" and "\<forall>n>0. rnd n < n"
  shows "svc_inv store newServices \<and> svc_endpoints store newServices t = {}
    \<and> svc_inv store (services_AddSvc store m s p)
    \<and> svc_endpoints store (services_AddSvc store m s p) t
        = (if t = s then insert (svc_key store p) (svc_endpoints store m s) else svc_endpoints store m t)
    \<and> svc_inv store (services_DelSvc store m s p)
    \<and> svc_endpoints store (services_DelSvc store m s p) t
        = (if t = s then svc_endpoints store m s - {svc_key store p} else svc_endpoints store m t)
    \<and> (case services_Any rnd m s of None \<Rightarrow> svc_endpoints store m s = {} | Some q \<Rightarrow> svc_key store q \<in> svc_endpoints store m s)
    \<and> (\<forall>k \<in> svc_endpoints store m s. \<exists>rnd' q. (\<forall>n>0. rnd' n < n) \<and> services_Any rnd' m s = Some q \<and> svc_key store q = k)
    \<and> services_Any rnd (services_AddSvc store m s p) s \<noteq> None
    \<and> (\<forall>q. services_Any rnd (services_DelSvc store m s p) s = Some q \<longrightarrow> svc_key store q \<noteq> svc_key store p)"
proof (intro conjI ballI allI impI)
  show "svc_inv store newServices" by (rule svc.empty_inv)
  show "svc_endpoints store newServices t = {}" by (rule svc.empty_endpoints)
  show "svc_inv store (services_AddSvc store m s p)" by (rule svc.add_inv [OF assms(1)])
  show "svc_inv store (services_DelSvc store m s p)" by (rule svc.del_inv [OF assms(1)])
  show "svc_endpoints store (services_AddSvc store m s p) t
      = (if t = s then insert (svc_key store p) (svc_endpoints store m s) else svc_endpoints store m t)"
    by (rule svc.add_endpoints [OF assms(1)])
  show "svc_endpoints store (services_DelSvc store m s p) t
      = (if t = s then svc_endpoints store m s - {svc_key store p} else svc_endpoints store m t)"
    by (rule svc.del_endpoints [OF assms(1)])
  show "case services_Any rnd m s of None \<Rightarrow> svc_endpoints store m s = {} | Some q \<Rightarrow> svc_key store q \<in> svc_endpoints store m s"
    using svc.any_None [of rnd m s store] svc.any_Some [of rnd m s _ store] assms(2) by (auto split: option.split)
  fix k assume "k \<in> svc_endpoints store m s"
  then show "\<exists>rnd' q. (\<forall>n>0. rnd' n < n) \<and> services_Any rnd' m s = Some q \<and> svc_key store q = k" by (rule services_Any_onto)
next
  show "services_Any rnd (services_AddSvc store m s p) s \<noteq> None" by (rule svc.any_after_add [OF assms(1)])
  fix q assume "services_Any rnd (services_DelSvc store m s p) s = Some q"
  from svc.any_after_del [OF assms(1) _ this] assms(2) show "svc_key store q \<noteq> svc_key store p" by simp
qed

definition sample_store :: "nat \<Rightarrow> UDPAddr" where
  "sample_store p = \<lparr>UIP = [10, 0, 0, 1], UPort = int p, UZone = []\<rparr>"

theorem service_registry_spec_witness:
  "svc_endpoints sample_store (services_DelSvc sample_store (services_AddSvc sample_store
      (services_AddSvc sample_store newServices SvcCS 7) SvcCS 8) SvcCS 7) SvcCS = {svc_key sample_store 8}"
proof -
  have rnd: "\<forall>n>0. (\<lambda>_. 0) n < (n :: nat)" by simp
  define m1 where "m1 = services_AddSvc sample_store newServices SvcCS 7"
  define m2 where "m2 = services_AddSvc sample_store m1 SvcCS 8"
  have m1: "svc_inv sample_store m1" "svc_endpoints sample_store m1 SvcCS = {svc_key sample_store 7}"
    using service_registry_spec [OF svc.empty_inv rnd, where store = sample_store and s = SvcCS and p = 7 and t = SvcCS]
    by (simp_all add: m1_def)
  have m2: "svc_inv sample_store m2" "svc_endpoints sample_store m2 SvcCS = {svc_key sample_store 7, svc_key sample_store 8}"
    using service_registry_spec [OF m1(1) rnd, where s = SvcCS and p = 8 and t = SvcCS] m1(2) by (auto simp: m2_def)
  have "svc_key sample_store 7 \<noteq> svc_key sample_store 8" by (simp add: svc_key_def sample_store_def)
  then show ?thesis
    using service_registry_spec [OF m2(1) rnd, where s = SvcCS and p = 7 and t = SvcCS] m2(2)
    unfolding m2_def m1_def by auto
qed

section \<open>Packets of one flow\<close>

text \<open>The processor depends on the flow identifier and the address header only, and exists.\<close>

lemma take_eq_le: "take n xs = take n ys \<Longrightarrow> m \<le> n \<Longrightarrow> take m xs = take m ys"
  by (metis min.absorb1 take_take)

lemma computeProcID_flow:
  assumes "length p = length q" and "p ! 1 AND 0xF = q ! 1 AND 0xF" and "take 2 (drop 2 p) = take 2 (drop 2 q)"
    and "p ! 9 = q ! 9" and "take 48 (drop 12 p) = take 48 (drop 12 q)"
  shows "computeProcID p n seed = computeProcID q n seed"
proof -
  let ?l = "\<lambda>x::u8. 2 * int IABytes + AddrType_Length (x AND 0xF) + AddrType_Length (drop_bit 4 x AND 0xF)"
  have "nat (?l x) \<le> 48" for x
    using AddrType_Length_bounds [of "x AND 0xF"] AddrType_Length_bounds [of "drop_bit 4 x AND 0xF"]
    by (simp add: IABytes_def)
  then have "take (nat (?l x)) (drop 12 p) = take (nat (?l x)) (drop 12 q)" for x
    by (rule take_eq_le [OF assms(5)])
  then have "take (nat (?l (p ! 9))) (drop (nat CmnHdrLen) p) = take (nat (?l (p ! 9))) (drop (nat CmnHdrLen) q)"
    unfolding CmnHdrLen_def by (simp only: numeral_nat nat_numeral)
  then show ?thesis
    unfolding computeProcID_def Let_def assms(1-3) assms(4) [symmetric] by (simp only:)
qed

lemma computeProcID_bound:
  assumes "computeProcID p n seed = Ok i" and "0 < n" and "n < 2 ^ 32"
  shows "uint i < n"
proof -
  have "uint (word_of_int n :: u32) = n" using assms(2,3) by (simp add: uint_word_of_int)
  moreover have "\<exists>s. i = s mod (word_of_int n :: u32)" using assms(1)
    by (auto simp: computeProcID_def Let_def split: if_splits)
  ultimately show ?thesis using assms(2) by (auto simp: uint_mod)
qed

end
