(* ===== verification/Connector.thy ===== *)
theory Connector
  imports DataPlane
begin

text \<open>
  The connector (\<^verbatim>\<open>router/connector.go\<close>), through which the control process configures the data plane, and
  the invariant of every configuration it can build. Opening a socket is the parameter \<open>newConn\<close>.
\<close>

unbundle bit_operations_syntax

section \<open>State and operations\<close>

record LinkInfo =
  LILocal :: LinkEnd
  LIRemote :: LinkEnd
  LILinkTo :: LinkType
  LIBFD :: BFDConfig
  LIMTU :: int

record InternalInterface =
  IIIA :: IA
  IIAddr :: UDPAddr

record ExternalInterface =
  EIInterfaceID :: u16
  EILink :: LinkInfo
  EIState :: InterfaceState

record SiblingInterface =
  SIInterfaceID :: u16
  SIInternalInterface :: "UDPAddr option"
  SIRelationship :: LinkType
  SIMTU :: int
  SINeighborIA :: IA
  SIState :: InterfaceState

record BFDDefaults =
  dfDisable :: bool
  dfDetectMult :: u8
  dfDesiredMinTxInterval :: int
  dfRequiredMinRxInterval :: int

record Connector =
  cDataPlane :: DataPlane
  cia :: IA
  internalInterfaces :: "InternalInterface list"
  externalInterfaces :: "u16 \<rightharpoonup> ExternalInterface"
  siblingInterfaces :: "u16 \<rightharpoonup> SiblingInterface"
  cBFD :: BFDDefaults
  cDispatchedPortStart :: "int option"
  cDispatchedPortEnd :: "int option"

definition errMultiIA :: go_error where "errMultiIA = Err ''different IA not allowed''"

text \<open>Running an operation of the data plane inside the connector.\<close>

definition on_plane :: "Connector \<Rightarrow> DataPlane \<times> unit result \<Rightarrow> Connector \<times> unit result" where
  "on_plane c r = (c\<lparr>cDataPlane := fst r\<rparr>, snd r)"

definition CreateIACtx :: "Connector \<Rightarrow> IA \<Rightarrow> Connector \<times> unit result" where
  "CreateIACtx c ia =
    (if \<not> IA_IsZero (cia c) then (c, Fail errMultiIA)
     else on_plane (c\<lparr>cia := ia\<rparr>) (SetIA (cDataPlane c) ia))"

definition netip_UDPAddr :: "netip_Addr \<Rightarrow> int \<Rightarrow> UDPAddr" where
  "netip_UDPAddr ip port = \<lparr>UIP = netip_AsSlice ip, UPort = port, UZone = (case ip of IPv6 _ z \<Rightarrow> z | _ \<Rightarrow> [])\<rparr>"

definition Connector_AddInternalInterface ::
  "nat result \<Rightarrow> Connector \<Rightarrow> IA \<Rightarrow> netip_Addr \<Rightarrow> int \<Rightarrow> Connector \<times> unit result" where
  "Connector_AddInternalInterface newConn c ia ip port =
    (if cia c \<noteq> ia then (c, Fail errMultiIA)
     else case newConn of
       Fail e \<Rightarrow> (c, Fail e)
     | Panic \<Rightarrow> (c, Panic)
     | Ok conn \<Rightarrow>
         let c = c\<lparr>internalInterfaces := internalInterfaces c @ [\<lparr>IIIA = ia, IIAddr = netip_UDPAddr ip port\<rparr>]\<rparr>
         in on_plane c (AddInternalInterface (cDataPlane c) (Some conn) ip))"

definition applyBFDDefaults :: "Connector \<Rightarrow> BFDConfig \<Rightarrow> BFDConfig" where
  "applyBFDDefaults c cfg =
    (let cfg = (if cfgDisable cfg = None then cfg\<lparr>cfgDisable := Some (dfDisable (cBFD c))\<rparr> else cfg);
         cfg = (if cfgDetectMult cfg = 0 then cfg\<lparr>cfgDetectMult := dfDetectMult (cBFD c)\<rparr> else cfg);
         cfg = (if cfgDesiredMinTxInterval cfg = 0
                then cfg\<lparr>cfgDesiredMinTxInterval := dfDesiredMinTxInterval (cBFD c)\<rparr> else cfg)
     in if cfgRequiredMinRxInterval cfg = 0
        then cfg\<lparr>cfgRequiredMinRxInterval := dfRequiredMinRxInterval (cBFD c)\<rparr> else cfg)"

definition Connector_AddExternalInterface ::
  "u32 result \<Rightarrow> u16 list \<Rightarrow> nat result \<Rightarrow> Connector \<Rightarrow> u64 \<Rightarrow> LinkInfo \<Rightarrow> bool \<Rightarrow> Connector \<times> unit result" where
  "Connector_AddExternalInterface rnd iter newConn c localIfID link owned =
    (let intf = ucast localIfID :: u16 in
     if cia c \<noteq> LEIA (LILocal link) then (c, Fail errMultiIA)
     else case on_plane c (AddLinkType (cDataPlane c) intf (LILinkTo link)) of
       (c, Fail e) \<Rightarrow> (c, Fail (WrapStr ''adding link type'' e))
     | (c, Panic) \<Rightarrow> (c, Panic)
     | (c, Ok _) \<Rightarrow>
     (case on_plane c (AddNeighborIA (cDataPlane c) intf (LEIA (LIRemote link))) of
       (c, Fail e) \<Rightarrow> (c, Fail (WrapStr ''adding neighboring IA'' e))
     | (c, Panic) \<Rightarrow> (c, Panic)
     | (c, Ok _) \<Rightarrow>
         let link = link\<lparr>LIBFD := applyBFDDefaults c (LIBFD link)\<rparr> in
         if owned then
           let c = c\<lparr>externalInterfaces := (externalInterfaces c)(intf \<mapsto>
                 \<lparr>EIInterfaceID = intf, EILink = link, EIState = InterfaceDown\<rparr>)\<rparr> in
           (case newConn of
              Fail e \<Rightarrow> (c, Fail e)
            | Panic \<Rightarrow> (c, Panic)
            | Ok conn \<Rightarrow> on_plane c (AddExternalInterface rnd (cDataPlane c) intf (Some conn)
                           (LILocal link) (LIRemote link) (LIBFD link)))
         else
           let c = c\<lparr>siblingInterfaces := (siblingInterfaces c)(intf \<mapsto>
                 \<lparr>SIInterfaceID = intf, SIInternalInterface = LEAddr (LIRemote link), SIRelationship = LILinkTo link,
                  SIMTU = LIMTU link, SINeighborIA = LEIA (LIRemote link), SIState = InterfaceDown\<rparr>)\<rparr> in
           on_plane c (AddNextHop rnd iter (cDataPlane c) intf (LEAddr (LILocal link)) (LEAddr (LIRemote link))
             (LIBFD link))))"

definition Connector_AddSvc :: "Connector \<Rightarrow> IA \<Rightarrow> SVC \<Rightarrow> nat option \<Rightarrow> Connector \<times> unit result" where
  "Connector_AddSvc c ia svc a =
    (if cia c \<noteq> ia then (c, Fail errMultiIA) else on_plane c (AddSvc (cDataPlane c) svc a))"

definition Connector_DelSvc :: "Connector \<Rightarrow> IA \<Rightarrow> SVC \<Rightarrow> nat option \<Rightarrow> Connector \<times> unit result" where
  "Connector_DelSvc c ia svc a =
    (if cia c \<noteq> ia then (c, Fail errMultiIA) else on_plane c (DelSvc (cDataPlane c) svc a))"

definition Connector_SetKey ::
  "(bytes \<Rightarrow> bytes \<Rightarrow> bytes) \<Rightarrow> ((bytes \<Rightarrow> bytes) \<Rightarrow> (bytes \<Rightarrow> bytes) result) \<Rightarrow> Connector \<Rightarrow> IA \<Rightarrow> int \<Rightarrow> bytes
   \<Rightarrow> Connector \<times> unit result" where
  "Connector_SetKey aes newCMAC c ia index key =
    (if cia c \<noteq> ia then (c, Fail errMultiIA)
     else if index \<noteq> 0 then (c, Fail (Err ''currently only index 0 key is supported''))
     else on_plane c (SetKey aes newCMAC (cDataPlane c) key))"

definition ListInternalInterfaces :: "Connector \<Rightarrow> InternalInterface list result" where
  "ListInternalInterfaces c =
    (if length (internalInterfaces c) = 0 then Fail (Err ''internal interface is not set'')
     else Ok (internalInterfaces c))"

text \<open>\<open>iter\<close> is the order in which the map is visited.\<close>

definition ListExternalInterfaces :: "u16 list \<Rightarrow> Connector \<Rightarrow> ExternalInterface list" where
  "ListExternalInterfaces iter c =
     map (\<lambda>e. e\<lparr>EIState := getInterfaceState (cDataPlane c) (EIInterfaceID e)\<rparr>) (List.map_filter (externalInterfaces c) iter)"

definition ListSiblingInterfaces :: "u16 list \<Rightarrow> Connector \<Rightarrow> SiblingInterface list" where
  "ListSiblingInterfaces iter c =
     map (\<lambda>e. e\<lparr>SIState := getInterfaceState (cDataPlane c) (SIInterfaceID e)\<rparr>) (List.map_filter (siblingInterfaces c) iter)"

definition Connector_SetPortRange :: "Connector \<Rightarrow> u16 \<Rightarrow> u16 \<Rightarrow> Connector" where
  "Connector_SetPortRange c start end' =
    (let start = (case cDispatchedPortStart c of Some p \<Rightarrow> word_of_int p | None \<Rightarrow> start);
         end' = (case cDispatchedPortEnd c of Some p \<Rightarrow> word_of_int p | None \<Rightarrow> end')
     in c\<lparr>cDataPlane := SetPortRange (cDataPlane c) start end'\<rparr>)"

section \<open>Configurations\<close>

text \<open>Every call the control process can make, with any outcome of its parameters.\<close>

inductive configure :: "Connector \<Rightarrow> Connector \<Rightarrow> bool" where
  ia: "configure c (fst (CreateIACtx c ia))"
| internal: "configure c (fst (Connector_AddInternalInterface conn c ia ip port))"
| external: "configure c (fst (Connector_AddExternalInterface rnd iter conn c ifID link owned))"
| add_svc: "configure c (fst (Connector_AddSvc c ia svc a))"
| del_svc: "configure c (fst (Connector_DelSvc c ia svc a))"
| key: "configure c (fst (Connector_SetKey aes newCMAC c ia index key))"
| ports: "configure c (Connector_SetPortRange c s e)"
| policies: "configure c (c\<lparr>cDataPlane := UpdateFabridPolicies (cDataPlane c) r i\<rparr>)"

inductive configured :: "Connector \<Rightarrow> Connector \<Rightarrow> bool" where
  start: "configured c c"
| step: "configured c c' \<Longrightarrow> configure c' c'' \<Longrightarrow> configured c c''"

text \<open>
  The invariant: an interface is owned by this router or by a sibling, not by both; every one of them has a
  link type and a neighbour, whose ISD-AS is not zero; owned interfaces have a connection; sessions exist for
  configured interfaces only and refer to the pool.
\<close>

definition plane_inv :: "DataPlane \<Rightarrow> bool" where
  "plane_inv d \<longleftrightarrow>
     (\<forall>i. external d i \<noteq> None \<longrightarrow> internalNextHops d i = None \<and> linkTypes d i \<noteq> None \<and> neighborIAs d i \<noteq> None
        \<and> interfaces d i \<noteq> None)
     \<and> (\<forall>i. internalNextHops d i \<noteq> None \<longrightarrow> linkTypes d i \<noteq> None \<and> neighborIAs d i \<noteq> None)
     \<and> (\<forall>i p. bfdSessions d i = Some p \<longrightarrow> p < length (bfdPool d) \<and> linkTypes d i \<noteq> None)
     \<and> (\<forall>i. neighborIAs d i \<noteq> Some 0)"

lemma fst_on_plane [simp]: "cDataPlane (fst (on_plane c r)) = fst r"
  by (simp add: on_plane_def)

lemma on_plane_pair: "on_plane c (d, r) = (c\<lparr>cDataPlane := d\<rparr>, r)"
  by (simp add: on_plane_def)

text \<open>Operations that only touch parts the invariant does not mention.\<close>

lemma plane_inv_frame:
  assumes "plane_inv d"
  shows "plane_inv (fst (SetIA d ia))" "plane_inv (fst (SetKey aes cm d k))" "plane_inv (SetPortRange d a b)"
    "plane_inv (fst (AddInternalInterface d conn ip))" "plane_inv (fst (AddSvc d svc p))" "plane_inv (fst (DelSvc d svc p))"
    "plane_inv (UpdateFabridPolicies d r i)"
  using assms
  by (auto simp: plane_inv_def SetIA_def SetKey_def SetPortRange_def AddInternalInterface_def AddSvc_def DelSvc_def
      UpdateFabridPolicies_def Let_def split: result.splits option.splits)

definition plane_frame :: "DataPlane \<Rightarrow> DataPlane \<Rightarrow> bool" where
  "plane_frame d d' \<longleftrightarrow> external d' = external d \<and> internalNextHops d' = internalNextHops d
     \<and> interfaces d' = interfaces d \<and> linkTypes d' = linkTypes d \<and> neighborIAs d' = neighborIAs d"

lemma addBFDController_inv:
  assumes "plane_inv d" and "linkTypes d i \<noteq> None"
  shows "plane_inv (fst (addBFDController rnd d i s cfg))" "plane_frame d (fst (addBFDController rnd d i s cfg))"
  using assms by (auto simp: addBFDController_def plane_inv_def plane_frame_def Let_def less_Suc_eq split: result.splits)

lemma addExternalInterfaceBFD_inv:
  assumes "plane_inv d" and "linkTypes d i \<noteq> None"
  shows "plane_inv (fst (addExternalInterfaceBFD rnd d i c a b e f cfg))"
    "plane_frame d (fst (addExternalInterfaceBFD rnd d i c a b e f cfg))"
  using assms addBFDController_inv [OF assms]
  by (auto simp: addExternalInterfaceBFD_def plane_frame_def split: option.splits result.splits bool.splits)

lemma addNextHopBFD_inv:
  assumes "plane_inv d" and "linkTypes d i \<noteq> None"
  shows "plane_inv (fst (addNextHopBFD rnd iter d i a b cfg))" "plane_frame d (fst (addNextHopBFD rnd iter d i a b cfg))"
proof -
  have share: "plane_inv (d\<lparr>bfdSessions := (bfdSessions d)(i := bfdSessions d k)\<rparr>)" for k
    using assms by (auto simp: plane_inv_def)
  show "plane_inv (fst (addNextHopBFD rnd iter d i a b cfg))"
    using share assms(1) addBFDController_inv [OF assms]
    by (auto simp: addNextHopBFD_def split: option.splits result.splits bool.splits)
  show "plane_frame d (fst (addNextHopBFD rnd iter d i a b cfg))"
    using addBFDController_inv [OF assms]
    by (auto simp: addNextHopBFD_def plane_frame_def split: option.splits result.splits bool.splits)
qed

lemma AddExternalInterface_inv:
  assumes "plane_inv d" and "linkTypes d i \<noteq> None" and "neighborIAs d i \<noteq> None" and "internalNextHops d i = None"
  shows "plane_inv (fst (AddExternalInterface rnd d i conn src dst cfg))"
proof -
  have add: "plane_inv (d'\<lparr>interfaces := (interfaces d')(i \<mapsto> c), external := (external d')(i \<mapsto> c)\<rparr>)"
    if "plane_inv d'" "plane_frame d d'" for c d'
    using that assms(2-4) by (auto simp: plane_inv_def plane_frame_def)
  show ?thesis
  proof (cases "\<not> running d \<and> (\<exists>c a b. conn = Some c \<and> LEAddr src = Some a \<and> LEAddr dst = Some b)")
    case True
    then obtain c a b where eq: "conn = Some c" "LEAddr src = Some a" "LEAddr dst = Some b" by blast
    obtain d' r where r: "addExternalInterfaceBFD rnd d i c (LEIA src) a (LEIA dst) b cfg = (d', r)" by fastforce
    have "plane_inv d'" "plane_frame d d'"
      using addExternalInterfaceBFD_inv [OF assms(1,2), of rnd c "LEIA src" a "LEIA dst" b cfg] r by simp_all
    then show ?thesis using True eq r add by (cases r) (auto simp: AddExternalInterface_def)
  next
    case False
    then show ?thesis using assms(1) by (auto simp: AddExternalInterface_def split: option.splits)
  qed
qed

lemma AddNextHop_inv:
  assumes "plane_inv d" and "linkTypes d i \<noteq> None" and "neighborIAs d i \<noteq> None" and "external d i = None"
  shows "plane_inv (fst (AddNextHop rnd iter d i src dst cfg))"
proof -
  have add: "plane_inv (d'\<lparr>internalNextHops := (internalNextHops d')(i \<mapsto> b)\<rparr>)"
    if "plane_inv d'" "plane_frame d d'" for b d'
    using that assms(2-4) by (auto simp: plane_inv_def plane_frame_def)
  show ?thesis
  proof (cases "\<not> running d \<and> (\<exists>a b. src = Some a \<and> dst = Some b)")
    case True
    then obtain a b where eq: "src = Some a" "dst = Some b" by blast
    obtain d' r where r: "addNextHopBFD rnd iter d i a b cfg = (d', r)" by fastforce
    have "plane_inv d'" "plane_frame d d'"
      using addNextHopBFD_inv [OF assms(1,2), of rnd iter a b cfg] r by simp_all
    then show ?thesis using True eq r add by (cases r) (auto simp: AddNextHop_def)
  next
    case False
    then show ?thesis using assms(1) by (auto simp: AddNextHop_def split: option.splits)
  qed
qed

text \<open>A link type is only ever added for a new interface.\<close>

lemma AddLinkType_inv:
  assumes "plane_inv d" and "AddLinkType d i t = (d', r)"
  shows "plane_inv d'" "r = Ok () \<Longrightarrow> linkTypes d' i \<noteq> None \<and> external d' i = None \<and> internalNextHops d' i = None"
  using assms unfolding AddLinkType_def plane_inv_def by (auto split: if_splits)

lemma AddNeighborIA_inv:
  assumes "plane_inv d" and "AddNeighborIA d i t = (d', r)"
  shows "plane_inv d'" "r = Ok () \<Longrightarrow> neighborIAs d' i \<noteq> None"
    "linkTypes d' = linkTypes d" "external d' = external d" "internalNextHops d' = internalNextHops d"
  using assms by (auto simp: AddNeighborIA_def plane_inv_def IA_IsZero_def split: if_splits)

lemma Connector_AddExternalInterface_inv:
  assumes "plane_inv (cDataPlane c)"
  shows "plane_inv (cDataPlane (fst (Connector_AddExternalInterface rnd iter conn c ifID link owned)))"
proof -
  let ?i = "ucast ifID :: u16"
  obtain d1 r1 where 1: "AddLinkType (cDataPlane c) ?i (LILinkTo link) = (d1, r1)" by fastforce
  obtain d2 r2 where 2: "AddNeighborIA d1 ?i (LEIA (LIRemote link)) = (d2, r2)" by fastforce
  note i1 = AddLinkType_inv [OF assms 1]
  note i2 = AddNeighborIA_inv [OF i1(1) 2]
  have ext: "plane_inv (fst (AddExternalInterface rnd d2 ?i k s t u))" "plane_inv (fst (AddNextHop rnd iter d2 ?i v w u))"
    if "r1 = Ok ()" "r2 = Ok ()" for k s t u v w
    using that i1 i2 AddExternalInterface_inv [OF i2(1)] AddNextHop_inv [OF i2(1)] by simp_all
  show ?thesis
    using assms i1(1) i2(1) ext 1 2
    by (cases r1; cases r2) (auto simp: Connector_AddExternalInterface_def on_plane_pair Let_def split: result.splits if_splits)
qed

lemma configure_inv: "configure c c' \<Longrightarrow> plane_inv (cDataPlane c) \<Longrightarrow> plane_inv (cDataPlane c')"
proof (induction rule: configure.induct)
  case (internal c conn ia ip port)
  then show ?case by (auto simp: Connector_AddInternalInterface_def Let_def plane_inv_frame split: result.splits)
next
  case (ports c s e)
  then show ?case by (simp add: Connector_SetPortRange_def Let_def plane_inv_frame)
qed (auto simp: CreateIACtx_def Connector_AddSvc_def Connector_DelSvc_def Connector_SetKey_def
    plane_inv_frame Connector_AddExternalInterface_inv)

lemma configured_inv: "configured c c' \<Longrightarrow> plane_inv (cDataPlane c) \<Longrightarrow> plane_inv (cDataPlane c')"
  by (induction rule: configured.induct) (auto dest: configure_inv)

text \<open>The connector and the data plane before any call.\<close>

definition empty_plane :: DataPlane where
  "empty_plane = \<lparr>interfaces = Map.empty, external = Map.empty, linkTypes = Map.empty, neighborIAs = Map.empty,
     peerInterfaces = Map.empty, internal = None, internalIP = IPInvalid, internalNextHops = Map.empty, svcs = None,
     udpAddrs = (\<lambda>_. \<lparr>UIP = [], UPort = 0, UZone = []\<rparr>), macFactory = None, bfdSessions = Map.empty, bfdPool = [],
     localIA = 0, running = False, drkeys = \<lparr>drKeySecrets = None, drKeySecretNextOverwrite = []\<rparr>,
     fabridPolicyIPRangeMap = Map.empty, fabridPolicyInterfaceMap = Map.empty, dispatchedPortStart = 0,
     dispatchedPortEnd = 0, ExperimentalSCMPAuthentication = False\<rparr>"

definition new_connector :: "BFDDefaults \<Rightarrow> Connector" where
  "new_connector bfd = \<lparr>cDataPlane = empty_plane, cia = 0, internalInterfaces = [], externalInterfaces = Map.empty,
     siblingInterfaces = Map.empty, cBFD = bfd, cDispatchedPortStart = None, cDispatchedPortEnd = None\<rparr>"

lemma plane_inv_empty: "plane_inv empty_plane"
  by (simp add: plane_inv_def empty_plane_def)

text \<open>C31: in every configuration the connector can build, whatever calls succeed or fail, an interface is owned
  by this router or reached through a sibling but never both, each of them has a link type and a non-zero
  neighbour, owned interfaces have a connection, and every BFD session belongs to an interface with a link
  type and refers to an existing session.\<close>

theorem connector_config_sound:
  assumes "configured (new_connector bfd) c"
  shows "plane_inv (cDataPlane c)"
  using configured_inv [OF assms] plane_inv_empty by (simp add: new_connector_def)

theorem connector_config_sound_witness:
  "\<exists>c. configured (new_connector \<lparr>dfDisable = True, dfDetectMult = 3, dfDesiredMinTxInterval = 1, dfRequiredMinRxInterval = 1\<rparr>) c
     \<and> cia c = 5 \<and> plane_inv (cDataPlane c)"
proof -
  let ?c = "new_connector \<lparr>dfDisable = True, dfDetectMult = 3, dfDesiredMinTxInterval = 1, dfRequiredMinRxInterval = 1\<rparr>"
  have "configured ?c (fst (CreateIACtx ?c 5))"
    by (rule configured.step [OF configured.start configure.ia])
  moreover have "cia (fst (CreateIACtx ?c 5)) = 5"
    by (simp add: CreateIACtx_def new_connector_def on_plane_def IA_IsZero_def)
  ultimately show ?thesis using connector_config_sound by blast
qed

text \<open>What packets are forwarded by.\<close>

definition forwarding_tables :: "DataPlane \<Rightarrow> _" where
  "forwarding_tables d = (interfaces d, external d, neighborIAs d, peerInterfaces d, internal d, internalIP d,
     internalNextHops d, macFactory d, bfdSessions d, localIA d, running d)"

lemma running_frozen:
  assumes "running d"
  shows "fst (SetIA d ia) = d" "fst (SetKey aes cm d k) = d" "fst (AddInternalInterface d conn ip) = d"
    "fst (AddExternalInterface rnd d i conn' src dst cfg) = d" "fst (AddNeighborIA d i n) = d"
    "fst (AddNextHop rnd iter d i src' dst' cfg) = d"
    "forwarding_tables (SetPortRange d a b) = forwarding_tables d"
    "forwarding_tables (fst (AddSvc d svc p)) = forwarding_tables d"
    "forwarding_tables (fst (DelSvc d svc p)) = forwarding_tables d"
    "forwarding_tables (UpdateFabridPolicies d r f) = forwarding_tables d"
    "forwarding_tables (fst (AddLinkType d i t)) = forwarding_tables d" "running (fst (AddLinkType d i t))"
    "fst (AddNeighborIA (fst (AddLinkType d i t)) i n) = fst (AddLinkType d i t)"
  using assms
  by (auto simp: SetIA_def SetKey_def AddInternalInterface_def AddExternalInterface_def AddNeighborIA_def AddNextHop_def
      SetPortRange_def AddSvc_def DelSvc_def UpdateFabridPolicies_def AddLinkType_def forwarding_tables_def Let_def
      split: option.splits)

text \<open>While the data plane runs no call through the connector changes its interfaces, connections,
  neighbours, next hops, key, sessions or ISD-AS: calls that would are rejected. Link types are the
  exception: adding one is not guarded and succeeds for a new interface.\<close>

lemma running_config_frozen:
  assumes "configure c c'" and "running (cDataPlane c)"
  shows "forwarding_tables (cDataPlane c') = forwarding_tables (cDataPlane c)
    \<and> (linkTypes (cDataPlane c) i = None \<longrightarrow>
        linkTypes (fst (AddLinkType (cDataPlane c) i t)) i = Some t \<and> snd (AddLinkType (cDataPlane c) i t) = Ok ())"
proof -
  have "forwarding_tables (cDataPlane c') = forwarding_tables (cDataPlane c)"
    using assms
  proof (induction rule: configure.induct)
    case (internal c conn ia ip port)
    then show ?case by (auto simp: Connector_AddInternalInterface_def Let_def running_frozen split: result.splits)
  next
    case (external c rnd iter conn ifID link owned)
    let ?i = "ucast ifID :: u16"
    obtain d1 r1 where 1: "AddLinkType (cDataPlane c) ?i (LILinkTo link) = (d1, r1)" by fastforce
    have d1: "forwarding_tables d1 = forwarding_tables (cDataPlane c)" "running d1"
      using running_frozen(11,12) [OF external, of ?i "LILinkTo link"] 1 by simp_all
    obtain d2 r2 where 2: "AddNeighborIA d1 ?i (LEIA (LIRemote link)) = (d2, r2)" by fastforce
    have "d2 = d1" using running_frozen(5) [OF d1(2), of ?i "LEIA (LIRemote link)"] 2 by simp
    then show ?case
      using 1 2 d1 running_frozen(4,6) [OF d1(2)]
      by (cases r1; cases r2) (auto simp: Connector_AddExternalInterface_def on_plane_pair Let_def split: result.splits if_splits)
  next
    case (ports c s e)
    then show ?case by (simp add: Connector_SetPortRange_def Let_def running_frozen)
  qed (auto simp: CreateIACtx_def Connector_AddSvc_def Connector_DelSvc_def Connector_SetKey_def running_frozen)
  then show ?thesis by (simp add: AddLinkType_def)
qed

lemma running_config_frozen_witness:
  "let c = (new_connector \<lparr>dfDisable = True, dfDetectMult = 3, dfDesiredMinTxInterval = 1, dfRequiredMinRxInterval = 1\<rparr>)
      \<lparr>cDataPlane := empty_plane\<lparr>running := True\<rparr>\<rparr>
   in forwarding_tables (cDataPlane (fst (CreateIACtx c 5))) = forwarding_tables (cDataPlane c)
    \<and> snd (AddLinkType (cDataPlane c) 3 Core) = Ok ()"
  unfolding Let_def
  using running_config_frozen [OF configure.ia, of
      "(new_connector \<lparr>dfDisable = True, dfDetectMult = 3, dfDesiredMinTxInterval = 1, dfRequiredMinRxInterval = 1\<rparr>)
       \<lparr>cDataPlane := empty_plane\<lparr>running := True\<rparr>\<rparr>" 5 3 Core]
  by (simp add: empty_plane_def)

end
