(* ===== verification/Router.thy ===== *)
theory Router
  imports Connector Extn Fabrid
begin

text \<open>
  The fast path of the border router: the packet processor of \<^verbatim>\<open>router/dataplane.go\<close> and
  \<^verbatim>\<open>router/dataplane_fabrid.go\<close>, from the decoding of the headers to the decision where a packet goes.

  The processor is a record that every step takes and returns. A step ends with the two results of the Go
  method, with a panic, or blocks on the channel of a BFD session. The path and the options of the
  hop-by-hop header are slices of the packet: a write to them is written through to \<open>rawPkt\<close> at the
  offset where they start (\<open>pathOff\<close> for the path). \<open>scionLayer\<close> shares the path with \<open>path\<close>. Logging and
  metrics are left out; the hash state, the input buffers and the serialize buffer do not carry data from
  one packet to the next and are not fields; \<open>macOf\<close> is the keyed hash that \<^verbatim>\<open>macFactory\<close> makes.
\<close>

unbundle bit_operations_syntax

section \<open>Results and the processor\<close>

datatype slowPathType = slowPathSCMP | slowPathRouterAlert

record slowPathRequest =
  spTyp :: slowPathType
  spScmpType :: SCMPType
  spCode :: SCMPCode
  spCause :: "go_error option"
  spPointer :: u16
  spIA :: IA
  spInterfaceId :: u16
  spIngressId :: u16
  spEgressId :: u16

datatype trafficType = ttOther | ttIn | ttOut | ttInTransit | ttOutTransit | ttBrTransit

record processResult =
  EgressID :: u16
  OutAddr :: "UDPAddr option"
  OutPkt :: "bytes option"
  SlowPathRequest :: slowPathRequest
  TrafficType :: trafficType

definition zero_request :: slowPathRequest where
  "zero_request = \<lparr>spTyp = slowPathSCMP, spScmpType = 0, spCode = 0, spCause = None, spPointer = 0, spIA = 0,
     spInterfaceId = 0, spIngressId = 0, spEgressId = 0\<rparr>"

definition zero_result :: processResult where
  "zero_result = \<lparr>EgressID = 0, OutAddr = None, OutPkt = None, SlowPathRequest = zero_request, TrafficType = ttOther\<rparr>"

datatype transitType = ingressEgressSameRouter | ingressEgressDifferentRouter | internalTraffic

text \<open>The layers a packet starts with; the last one decoded is kept.\<close>

datatype lastLayer = ScionLayer SCION | HbhLayer HopByHopExtn | E2eLayer extnBase

record scionPacketProcessor =
  plane :: DataPlane
  ingressID :: u16
  rawPkt :: bytes
  srcAddr :: UDPAddr
  macOf :: "bytes \<Rightarrow> bytes"
  scionLayer :: SCION
  hbhLayer :: HopByHopExtn
  e2eLayer :: extnBase
  lastLayerOf :: "lastLayer option"
  pathOf :: "Raw option"
  pathOff :: nat
  hopField :: HopField
  infoField :: InfoField
  effectiveXover :: bool
  peering :: bool
  cachedMac :: bytes
  idOpt :: "IdentifierOption option"
  fabridOpt :: "FabridOption option"
  mplsLabel :: u32
  nextHop :: "UDPAddr option"
  transit :: transitType

datatype outcome = Ret processResult "go_error option" | Crash | Blocked

type_synonym step = "scionPacketProcessor \<Rightarrow> scionPacketProcessor \<times> outcome"

text \<open>\<open>if r, err := f(); err != nil { return r, err }\<close> followed by \<open>g\<close>, and a sequence of such calls.\<close>

definition andThen :: "step \<Rightarrow> step \<Rightarrow> step" where
  "andThen f g p = (case f p of (p', Ret r None) \<Rightarrow> g p' | x \<Rightarrow> x)"

definition stepsThen :: "step list \<Rightarrow> step \<Rightarrow> step" where
  "stepsThen fs g = foldr andThen fs g"

definition skip :: step where "skip p = (p, Ret zero_result None)"

definition failWith :: "go_error \<Rightarrow> step" where "failWith e p = (p, Ret zero_result (Some e))"

text \<open>A method that returns an error only, called as \<open>if err := f(); err != nil { return processResult{}, err }\<close>.\<close>

definition errOnly :: "(scionPacketProcessor \<Rightarrow> scionPacketProcessor \<times> unit result) \<Rightarrow> step" where
  "errOnly f p =
    (case f p of
       (p', Ok _) \<Rightarrow> (p', Ret zero_result None)
     | (p', Fail e) \<Rightarrow> (p', Ret zero_result (Some e))
     | (p', Panic) \<Rightarrow> (p', Crash))"

text \<open>
  What is not in the repository, or random, or the clock: AES, the text form of a host and its parser
  (\<^verbatim>\<open>net/netip\<close>), \<^verbatim>\<open>mrand.Intn\<close>, the BFD codec and \<^verbatim>\<open>gopacket.NewPacket\<close> with the properties of the
  layers that are used, the content of a fresh serialize buffer, the order of a map traversal, and
  \<^verbatim>\<open>time.Now\<close> in nanoseconds at the places that call it (0: first expiry check, 1: after a segment change,
  2: EPIC, 3: DRKey).
\<close>

datatype gp_layer = GpUDP u16 | GpSCMP SCMPTypeCode | GpEcho u16 | GpTraceroute u16 | GpPayload bytes
  | GpOther bool

record envir =
  aesOf :: "bytes \<Rightarrow> bytes \<Rightarrow> bytes"
  hostText :: "Host \<Rightarrow> string"
  parseHost :: "string \<Rightarrow> Host result"
  intn :: "nat \<Rightarrow> nat"
  bfdDecode :: "bytes \<Rightarrow> BFD result"
  scmpLayers :: "SCMPLayerType \<Rightarrow> bytes \<Rightarrow> gp_layer list"
  scionLayers :: "bytes \<Rightarrow> gp_layer list"
  freshBytes :: "nat \<Rightarrow> bytes"
  rangeOrder :: "u16 list"
  timeNow :: "nat \<Rightarrow> int"
  pathRegistry :: registry

section \<open>Errors\<close>

definition errInvalidSrcIA :: go_error where "errInvalidSrcIA = Err ''invalid source ISD-AS''"
definition errInvalidDstIA :: go_error where "errInvalidDstIA = Err ''invalid destination ISD-AS''"
definition invalidSrcAddrForTransit :: go_error where "invalidSrcAddrForTransit = Err ''invalid source address for transit pkt''"
definition invalidDstAddr :: go_error where "invalidDstAddr = Err ''invalid destination address''"
definition cannotRoute :: go_error where "cannotRoute = Err ''cannot route, dropping pkt''"
definition malformedPath :: go_error where "malformedPath = Err ''malformed path content''"
definition noSVCBackend :: go_error where "noSVCBackend = Err ''cannot find internal IP for the SVC''"
definition unsupportedPathTypeNextHeader :: go_error where "unsupportedPathTypeNextHeader = Err ''unsupported combination''"
definition noBFDSessionFound :: go_error where "noBFDSessionFound = Err ''no BFD session was found''"
definition noBFDSessionConfigured :: go_error where "noBFDSessionConfigured = Err ''no BFD sessions have been configured''"
definition errPeeringEmptySeg0 :: go_error where "errPeeringEmptySeg0 = Err ''zero-length segment[0] in peering path''"
definition errPeeringEmptySeg1 :: go_error where "errPeeringEmptySeg1 = Err ''zero-length segment[1] in peering path''"
definition errPeeringNonemptySeg2 :: go_error where "errPeeringNonemptySeg2 = Err ''non-zero-length segment[2] in peering path''"
definition errBFDSessionDown :: go_error where "errBFDSessionDown = Err ''bfd session down''"
definition expiredHop :: go_error where "expiredHop = Err ''expired hop''"
definition ingressInterfaceInvalid :: go_error where "ingressInterfaceInvalid = Err ''ingress interface invalid''"
definition macVerificationFailed :: go_error where "macVerificationFailed = Err ''MAC verification failed''"
definition badPacketSize :: go_error where "badPacketSize = Err ''bad packet size''"
definition slowPathRequired :: go_error where "slowPathRequired = Err ''slow-path required''"

definition slowPath :: "slowPathRequest \<Rightarrow> step" where
  "slowPath s p = (p, Ret (zero_result\<lparr>SlowPathRequest := s\<rparr>) (Some slowPathRequired))"

text \<open>A parameter problem with the given code, pointer and cause.\<close>

definition paramProblem :: "SCMPCode \<Rightarrow> u16 \<Rightarrow> go_error \<Rightarrow> step" where
  "paramProblem code pointer cause =
     slowPath (zero_request\<lparr>spScmpType := SCMPTypeParameterProblem, spCode := code, spPointer := pointer,
       spCause := Some cause\<rparr>)"

section \<open>Layers\<close>

fun LayerPayload :: "lastLayer \<Rightarrow> bytes" where
  "LayerPayload (ScionLayer s) = Payload s"
| "LayerPayload (HbhLayer h) = Payload h"
| "LayerPayload (E2eLayer e) = Payload e"

fun NextLayerType :: "lastLayer \<Rightarrow> LayerType" where
  "NextLayerType (ScionLayer s) = scionNextLayerType (NextHdr s)"
| "NextLayerType (HbhLayer h) = HopByHopExtn_NextLayerType h"
| "NextLayerType (E2eLayer e) = EndToEndExtn_NextLayerType e"

fun nextHdr :: "lastLayer \<Rightarrow> L4ProtocolType" where
  "nextHdr (ScionLayer s) = NextHdr s"
| "nextHdr (E2eLayer e) = ExtNextHdr e"
| "nextHdr (HbhLayer h) = ExtNextHdr h"

text \<open>\<^verbatim>\<open>decodeLayers(p.rawPkt, &p.scionLayer, &p.hbhLayer, &p.e2eLayer)\<close>\<close>

definition decodeLayers ::
  "registry \<Rightarrow> scionPacketProcessor \<Rightarrow> scionPacketProcessor result" where
  "decodeLayers g p =
     bindR (SCION_DecodeFromBytes g (scionLayer p) (rawPkt p)) (\<lambda>s.
     let p = p\<lparr>scionLayer := s\<rparr>; last = ScionLayer s in
     bindR (if NextLayerType last = LayerTypeHopByHopExtn
            then bindR (HopByHopExtn_DecodeFromBytes (LayerPayload last)) (\<lambda>h. Ok (p\<lparr>hbhLayer := h\<rparr>, HbhLayer h))
            else Ok (p, last)) (\<lambda>(p, last).
     bindR (if NextLayerType last = LayerTypeEndToEndExtn
            then bindR (EndToEndExtnSkipper_DecodeFromBytes (LayerPayload last)) (\<lambda>e. Ok (p\<lparr>e2eLayer := e\<rparr>, E2eLayer e))
            else Ok (p, last)) (\<lambda>(p, last).
     Ok (p\<lparr>lastLayerOf := Some last\<rparr>))))"

section \<open>Access to the path\<close>

definition withPath :: "(Raw \<Rightarrow> step) \<Rightarrow> step" where
  "withPath f p = (case pathOf p of None \<Rightarrow> (p, Crash) | Some s \<Rightarrow> f s p)"

text \<open>The path is shared with the SCION layer and is a slice of the packet.\<close>

definition setPath :: "Raw \<Rightarrow> scionPacketProcessor \<Rightarrow> scionPacketProcessor" where
  "setPath s p = p\<lparr>pathOf := Some s, rawPkt := copy_at (pathOff p) (RawBytes s) (rawPkt p),
     scionLayer := (scionLayer p)\<lparr>SPath :=
       (case SPath (scionLayer p) of
          Some (EpicPath e) \<Rightarrow> Some (EpicPath (e\<lparr>EpicScionPath := Some s\<rparr>))
        | _ \<Rightarrow> Some (ScionRawPath s))\<rparr>\<rparr>"

definition currentInfoPointer :: "scionPacketProcessor \<Rightarrow> Raw \<Rightarrow> u16" where
  "currentInfoPointer p s = word_of_int (CmnHdrLen + AddrHdrLen (scionLayer p) + int MetaLen
     + int InfoLen * uint (CurrINF (PathMeta s)))"

definition currentHopPointer :: "scionPacketProcessor \<Rightarrow> Raw \<Rightarrow> u16" where
  "currentHopPointer p s = word_of_int (CmnHdrLen + AddrHdrLen (scionLayer p) + int MetaLen
     + int InfoLen * NumINF s + int HopLen * uint (CurrHF (PathMeta s)))"

text \<open>\<open>x, err := ...; if err != nil { return processResult{}, err }\<close>\<close>

definition orFail :: "'a result \<Rightarrow> ('a \<Rightarrow> step) \<Rightarrow> step" where
  "orFail r k p = (case r of Ok x \<Rightarrow> k x p | Fail e \<Rightarrow> failWith e p | Panic \<Rightarrow> (p, Crash))"

definition parsePath :: step where
  "parsePath = withPath (\<lambda>s p.
     orFail (GetCurrentHopField s) (\<lambda>hf p.
     orFail (GetCurrentInfoField s) (\<lambda>info p. skip (p\<lparr>infoField := info\<rparr>)) (p\<lparr>hopField := hf\<rparr>)) p)"

definition determinePeer :: "MetaHdr \<Rightarrow> InfoField \<Rightarrow> bool result" where
  "determinePeer pathMeta info =
    (if \<not> Peer info then Ok False
     else if SegLen pathMeta ! 0 = 0 then Fail errPeeringEmptySeg0
     else if SegLen pathMeta ! 1 = 0 then Fail errPeeringEmptySeg1
     else if SegLen pathMeta ! 2 \<noteq> 0 then Fail errPeeringNonemptySeg2
     else let currHF = CurrHF pathMeta; segLen = SegLen pathMeta ! 0
          in Ok (currHF = segLen - 1 \<or> currHF = segLen))"

definition proc_determinePeer :: step where
  "proc_determinePeer = withPath (\<lambda>s p.
     orFail (determinePeer (PathMeta s) (infoField p)) (\<lambda>peer p. skip (p\<lparr>peering := peer\<rparr>)) (p\<lparr>peering := False\<rparr>))"

text \<open>\<open>k\<close> tells which reading of the clock this is.\<close>

definition validateHopExpiry :: "envir \<Rightarrow> nat \<Rightarrow> step" where
  "validateHopExpiry E k = withPath (\<lambda>s p.
     let expiration = SecsToTime (Timestamp (infoField p)) + ExpTimeToDuration (ExpTime (hopField p)) in
     if \<not> expiration < timeNow E k then skip p
     else paramProblem SCMPCodePathExpired (currentHopPointer p s) expiredHop p)"

definition validateIngressID :: step where
  "validateIngressID = withPath (\<lambda>s p.
     let pktIngressID = (if ConsDir (infoField p) then ConsIngress (hopField p) else ConsEgress (hopField p));
         errCode = (if ConsDir (infoField p) then SCMPCodeUnknownHopFieldIngress else SCMPCodeUnknownHopFieldEgress) in
     if ingressID p \<noteq> 0 \<and> ingressID p \<noteq> pktIngressID
     then paramProblem errCode (currentHopPointer p s) ingressInterfaceInvalid p
     else skip p)"

definition invalidSrcIA :: step where
  "invalidSrcIA = paramProblem SCMPCodeInvalidSourceAddress (word_of_int (CmnHdrLen + int IABytes)) errInvalidSrcIA"

definition invalidDstIA :: step where
  "invalidDstIA = paramProblem SCMPCodeInvalidDestinationAddress (word_of_int CmnHdrLen) errInvalidDstIA"

definition validateSrcDstIA :: step where
  "validateSrcDstIA = withPath (\<lambda>s p.
     let srcIsLocal = (SrcIA (scionLayer p) = localIA (plane p));
         dstIsLocal = (DstIA (scionLayer p) = localIA (plane p)) in
     if ingressID p = 0
     then (if IsFirstHop s \<and> \<not> srcIsLocal then invalidSrcIA p
           else if dstIsLocal then invalidDstIA p
           else skip p)
     else (if srcIsLocal then invalidSrcIA p
           else if IsLastHop s \<noteq> dstIsLocal then invalidDstIA p
           else skip p))"

text \<open>The two calls that \<open>cannot be out of range\<close> panic otherwise.\<close>

definition ingressInterface :: "scionPacketProcessor \<Rightarrow> Raw \<Rightarrow> u16 result" where
  "ingressInterface p s =
    (let cons = (\<lambda>info hop. if ConsDir info then ConsIngress hop else ConsEgress hop) in
     if \<not> peering p \<and> IsFirstHopAfterXover s
     then (case GetInfoField s (uint (CurrINF (PathMeta s)) - 1) of
             Ok info \<Rightarrow> (case GetHopField s (uint (CurrHF (PathMeta s)) - 1) of
                          Ok hop \<Rightarrow> Ok (cons info hop) | _ \<Rightarrow> Panic)
           | _ \<Rightarrow> Panic)
     else Ok (cons (infoField p) (hopField p)))"

definition egressInterface :: "scionPacketProcessor \<Rightarrow> u16" where
  "egressInterface p = (if ConsDir (infoField p) then ConsEgress (hopField p) else ConsIngress (hopField p))"

definition validateTransitUnderlaySrc :: step where
  "validateTransitUnderlaySrc = withPath (\<lambda>s p.
     if IsFirstHop s \<or> ingressID p \<noteq> 0 then skip p
     else orFail (ingressInterface p s) (\<lambda>pktIngressID p.
       case internalNextHops (plane p) pktIngressID of
         None \<Rightarrow> failWith invalidSrcAddrForTransit p
       | Some expectedSrc \<Rightarrow>
           if \<not> ip_Equal (UIP expectedSrc) (UIP (srcAddr p)) then failWith invalidSrcAddrForTransit p
           else skip p) p)"

definition linkType :: "DataPlane \<Rightarrow> u16 \<Rightarrow> LinkType" where
  "linkType d i = (case linkTypes d i of None \<Rightarrow> Unset | Some t \<Rightarrow> t)"

definition cannotRouteEgress :: "Raw \<Rightarrow> step" where
  "cannotRouteEgress s p =
     paramProblem (if ConsDir (infoField p) then SCMPCodeUnknownHopFieldEgress else SCMPCodeUnknownHopFieldIngress)
       (currentHopPointer p s) cannotRoute p"

definition validateEgressID :: step where
  "validateEgressID = withPath (\<lambda>s p.
     let pktEgressID = egressInterface p;
         ih = (internalNextHops (plane p) pktEgressID \<noteq> None);
         eh = (external (plane p) pktEgressID \<noteq> None) in
     if \<not> ih \<and> \<not> eh \<or> ingressID p = 0 \<and> \<not> eh then cannotRouteEgress s p
     else
       let ingress = linkType (plane p) (ingressID p); egress = linkType (plane p) pktEgressID in
       if \<not> effectiveXover p then
         (if ingressID p = 0 then skip p
          else if ingress = Core \<and> egress = Core then skip p
          else if ingress = Child \<and> egress = Parent then skip p
          else if ingress = Parent \<and> egress = Child then skip p
          else if ingress = Child \<and> egress = PeerLink then skip p
          else if ingress = PeerLink \<and> egress = Child then skip p
          else paramProblem SCMPCodeInvalidPath (currentHopPointer p s) cannotRoute p)
       else
         (if ingress = Core \<and> egress = Child then skip p
          else if ingress = Child \<and> egress = Core then skip p
          else if ingress = Child \<and> egress = Child then skip p
          else paramProblem SCMPCodeInvalidSegmentChange (currentInfoPointer p s) cannotRoute p))"

definition updateNonConsDirIngressSegID :: step where
  "updateNonConsDirIngressSegID = withPath (\<lambda>s p.
     if \<not> ConsDir (infoField p) \<and> ingressID p \<noteq> 0 \<and> \<not> peering p then
       let p = p\<lparr>infoField := UpdateSegID (infoField p) (Mac (hopField p))\<rparr> in
       orFail (wrapR ''update info field'' (SetInfoField s (infoField p) (uint (CurrINF (PathMeta s)))))
         (\<lambda>s p. skip (setPath s p)) p
     else skip p)"

text \<open>The hash and the input buffer are overwritten in full.\<close>

definition verifyCurrentMAC :: step where
  "verifyCurrentMAC = withPath (\<lambda>s p.
     let fullMac = FullMAC (macOf p) (infoField p) (hopField p) (replicate MACBufferSize 0) in
     if take MacLen (Mac (hopField p)) \<noteq> take MacLen fullMac
     then paramProblem SCMPCodeInvalidHopFieldMAC (currentHopPointer p s) macVerificationFailed p
     else skip (p\<lparr>cachedMac := fullMac\<rparr>))"

definition processEgress :: step where
  "processEgress = andThen
     (withPath (\<lambda>s p.
        if ConsDir (infoField p) \<and> \<not> peering p then
          let p = p\<lparr>infoField := UpdateSegID (infoField p) (Mac (hopField p))\<rparr> in
          orFail (wrapR ''update info field'' (SetInfoField s (infoField p) (uint (CurrINF (PathMeta s)))))
            (\<lambda>s p. skip (setPath s p)) p
        else skip p))
     (withPath (\<lambda>s p.
        case Raw_IncPath s of (s, r) \<Rightarrow>
          orFail (wrapR ''incrementing path'' r) (\<lambda>_. skip) (setPath s p)))"

definition doXover :: step where
  "doXover p = andThen
     (withPath (\<lambda>s p.
        case Raw_IncPath s of (s, r) \<Rightarrow>
          orFail (wrapR ''incrementing path'' r) (\<lambda>_. skip) (setPath s p)))
     parsePath (p\<lparr>effectiveXover := True\<rparr>)"

definition validateEgressUp :: step where
  "validateEgressUp p =
    (let egressID = egressInterface p in
     if bfd_up (plane p) egressID = Some False then
       (if external (plane p) egressID = None
        then slowPath (zero_request\<lparr>spScmpType := SCMPTypeInternalConnectivityDown, spIA := localIA (plane p),
               spIngressId := ingressID p, spEgressId := egressID, spCause := Some errBFDSessionDown\<rparr>) p
        else slowPath (zero_request\<lparr>spScmpType := SCMPTypeExternalInterfaceDown, spIA := localIA (plane p),
               spInterfaceId := egressID, spCause := Some errBFDSessionDown\<rparr>) p)
     else skip p)"

text \<open>The alert flags, which one is the ingress flag depending on the direction, and clearing them.\<close>

definition ingressRouterAlertFlag :: "scionPacketProcessor \<Rightarrow> bool" where
  "ingressRouterAlertFlag p =
    (if \<not> ConsDir (infoField p) then EgressRouterAlert (hopField p) else IngressRouterAlert (hopField p))"

definition egressRouterAlertFlag :: "scionPacketProcessor \<Rightarrow> bool" where
  "egressRouterAlertFlag p =
    (if \<not> ConsDir (infoField p) then IngressRouterAlert (hopField p) else EgressRouterAlert (hopField p))"

definition setHop :: "HopField \<Rightarrow> u16 \<Rightarrow> step" where
  "setHop hf interfaceID = withPath (\<lambda>s p.
     orFail (wrapR ''update hop field'' (SetHopField s hf (uint (CurrHF (PathMeta s)))))
       (\<lambda>s p. slowPath (zero_request\<lparr>spTyp := slowPathRouterAlert, spInterfaceId := interfaceID\<rparr>) (setPath s p))
       (p\<lparr>hopField := hf\<rparr>))"

definition handleIngressRouterAlert :: step where
  "handleIngressRouterAlert p =
    (if ingressID p = 0 then skip p
     else if \<not> ingressRouterAlertFlag p then skip p
     else setHop (if \<not> ConsDir (infoField p) then (hopField p)\<lparr>EgressRouterAlert := False\<rparr>
                  else (hopField p)\<lparr>IngressRouterAlert := False\<rparr>) (ingressID p) p)"

definition handleEgressRouterAlert :: step where
  "handleEgressRouterAlert p =
    (if \<not> egressRouterAlertFlag p then skip p
     else let egressID = egressInterface p in
       if external (plane p) egressID = None then skip p
       else setHop (if \<not> ConsDir (infoField p) then (hopField p)\<lparr>IngressRouterAlert := False\<rparr>
                    else (hopField p)\<lparr>EgressRouterAlert := False\<rparr>) egressID p)"

definition validatePktLen :: step where
  "validatePktLen p =
    (if uint (PayloadLen (scionLayer p)) = int (length (Payload (scionLayer p))) then skip p
     else paramProblem SCMPCodeInvalidPacketSize 0 badPacketSize p)"

section \<open>Delivery inside the AS\<close>

definition decodeSCMP :: "envir \<Rightarrow> SCMP \<Rightarrow> gp_layer list result" where
  "decodeSCMP E scmp =
    (let layers = scmpLayers E (SCMP_NextLayerType scmp) (Payload scmp) in
     if length layers = 0 \<or> length layers > 2 then Fail (Err ''invalid number of SCMP layers'')
     else if GpOther False \<in> set layers then Fail (Err ''invalid SCMP layer, not serializable'')
     else Ok layers)"

text \<open>The first layer of a kind.\<close>

fun firstLayer :: "(gp_layer \<Rightarrow> 'a option) \<Rightarrow> gp_layer list \<Rightarrow> 'a option" where
  "firstLayer f [] = None"
| "firstLayer f (l # ls) = (case f l of None \<Rightarrow> firstLayer f ls | Some x \<Rightarrow> Some x)"

fun layerUDP :: "gp_layer \<Rightarrow> u16 option" where
  "layerUDP (GpUDP port) = Some port" | "layerUDP _ = None"
fun layerSCMP :: "gp_layer \<Rightarrow> SCMPTypeCode option" where
  "layerSCMP (GpSCMP tc) = Some tc" | "layerSCMP _ = None"
fun layerEcho :: "gp_layer \<Rightarrow> u16 option" where
  "layerEcho (GpEcho i) = Some i" | "layerEcho _ = None"
fun layerTraceroute :: "gp_layer \<Rightarrow> u16 option" where
  "layerTraceroute (GpTraceroute i) = Some i" | "layerTraceroute _ = None"

definition getDstPortSCMP :: "envir \<Rightarrow> SCMP \<Rightarrow> u16 result" where
  "getDstPortSCMP E scmp =
    (let t = TypeCode_Type (TypeCode scmp) in
     if t = SCMPTypeEchoRequest \<or> t = SCMPTypeTracerouteRequest then Ok (word_of_int EndhostPort)
     else if t = SCMPTypeEchoReply then mapR EchoIdentifier (SCMPEcho_DecodeFromBytes (Payload scmp))
     else if t = SCMPTypeTracerouteReply then mapR TrIdentifier (SCMPTraceroute_DecodeFromBytes (Payload scmp))
     else if SCMP_NextLayerType scmp = LT_Payload then Fail (Err ''unsupported SCMP error message'')
     else bindR (decodeSCMP E scmp) (\<lambda>l.
       if length l \<noteq> 2 then Fail (Err ''SCMP error message without payload'')
       else case l ! 1 of
         GpPayload offending \<Rightarrow>
           let gpkt = scionLayers E offending in
           (case firstLayer layerUDP gpkt of
              Some port \<Rightarrow> if port = 0 then Fail (Err ''SCMP error with truncated UDP header'') else Ok port
            | None \<Rightarrow>
                (case firstLayer layerSCMP gpkt of
                   None \<Rightarrow> Fail (Err ''unknown SCION SCMP content'')
                 | Some tc \<Rightarrow>
                     if \<not> TypeCode_InfoMsg tc then Fail (Err ''SCMP error message in response to SCMP error message'')
                     else if TypeCode_Type tc \<noteq> SCMPTypeEchoRequest \<and> TypeCode_Type tc \<noteq> SCMPTypeTracerouteRequest
                     then Fail (Err ''unsupported SCMP info message'')
                     else (case firstLayer layerEcho gpkt of
                             Some i \<Rightarrow> Ok i
                           | None \<Rightarrow>
                               (case firstLayer layerTraceroute gpkt of
                                  Some i \<Rightarrow> Ok i
                                | None \<Rightarrow> Fail (Err ''SCMP error with truncated payload'')))))
       | _ \<Rightarrow> Panic))"

definition zero_SCMP :: SCMP where
  "zero_SCMP = \<lparr>Contents = [], Payload = [], TypeCode = 0, SCMPChecksum = 0, SCMPscn = None\<rparr>"

text \<open>Ports outside the range of dispatched ports are replaced.\<close>

definition dispatchPort :: "DataPlane \<Rightarrow> u16 \<Rightarrow> u16" where
  "dispatchPort d port =
    (if port < dispatchedPortStart d \<or> port > dispatchedPortEnd d then word_of_int EndhostPort else port)"

definition addEndhostPort :: "envir \<Rightarrow> DataPlane \<Rightarrow> lastLayer \<Rightarrow> bytes \<Rightarrow> UDPAddr result" where
  "addEndhostPort E d lst dst =
    (let l4Type = nextHdr lst; pld = LayerPayload lst in
     if l4Type = L4UDP then
       (if length pld < 8 then Fail (Err ''SCION/UDP header len too small'')
        else Ok \<lparr>UIP = dst, UPort = uint (dispatchPort d (be_u16 (drop 2 pld))), UZone = []\<rparr>)
     else if l4Type = L4SCMP then
       bindR (wrapR ''decoding SCMP layer for extracting endhost dst port'' (SCMP_DecodeFromBytes zero_SCMP pld)) (\<lambda>scmp.
       bindR (wrapR ''getting dst port from SCMP message'' (getDstPortSCMP E scmp)) (\<lambda>port.
       Ok \<lparr>UIP = dst, UPort = uint (dispatchPort d port), UZone = []\<rparr>))
     else Ok \<lparr>UIP = dst, UPort = EndhostPort, UZone = []\<rparr>)"

text \<open>
  The endpoint of a service is a pointer into the registry, and the port is written through it. A data
  plane to which no service was ever added has no registry: the call of its method panics.
\<close>

definition resolveLocalDst :: "envir \<Rightarrow> DataPlane \<Rightarrow> SCION \<Rightarrow> lastLayer \<Rightarrow> DataPlane \<times> UDPAddr result" where
  "resolveLocalDst E d s lst =
    (case DstAddr s of
       Fail e \<Rightarrow> (d, Fail invalidDstAddr)
     | Panic \<Rightarrow> (d, Panic)
     | Ok (HostSVC svc) \<Rightarrow>
         (case svcs d of
            None \<Rightarrow> (d, Panic)
          | Some m \<Rightarrow>
              (case services_Any (intn E) m (SVC_Base svc) of
                 None \<Rightarrow> (d, Fail noSVCBackend)
               | Some a \<Rightarrow>
                   let port = word_of_int (UPort (udpAddrs d a)) :: u16;
                       d = (if port < dispatchedPortStart d \<or> port > dispatchedPortEnd d
                            then d\<lparr>udpAddrs := (udpAddrs d)(a := (udpAddrs d a)\<lparr>UPort := EndhostPort\<rparr>)\<rparr> else d)
                   in (d, Ok (udpAddrs d a))))
     | Ok (HostIP ip) \<Rightarrow> (d, addEndhostPort E d lst (netip_AsSlice ip))
     | Ok HostNone \<Rightarrow> (d, Panic))"

text \<open>\<open>k\<close> is what follows with the address, which is nil after an error that is not handled.\<close>

definition resolveInbound :: "envir \<Rightarrow> (UDPAddr option \<Rightarrow> step) \<Rightarrow> step" where
  "resolveInbound E k p =
    (case lastLayerOf p of
       None \<Rightarrow> (p, Crash)
     | Some lst \<Rightarrow>
         (case resolveLocalDst E (plane p) (scionLayer p) lst of (d, r) \<Rightarrow>
            let p = p\<lparr>plane := d\<rparr> in
            (case r of
               Panic \<Rightarrow> (p, Crash)
             | Ok a \<Rightarrow> k (Some a) p
             | Fail e \<Rightarrow>
                 if errors_Is e noSVCBackend
                 then slowPath (zero_request\<lparr>spScmpType := SCMPTypeDestinationUnreachable, spCode := SCMPCodeNoRoute,
                        spCause := Some e\<rparr>) p
                 else if errors_Is e invalidDstAddr
                 then slowPath (zero_request\<lparr>spScmpType := SCMPTypeParameterProblem,
                        spCode := SCMPCodeInvalidDestinationAddress, spCause := Some e\<rparr>) p
                 else k None p)))"

section \<open>FABRID\<close>

text \<open>\<^verbatim>\<open>net.IPNet.Contains\<close>, with the mask \<^verbatim>\<open>net.CIDRMask\<close> makes of the prefix length.\<close>

definition cidrMask :: "nat \<Rightarrow> nat \<Rightarrow> bytes" where
  "cidrMask ones n = map (\<lambda>i. let k = min 8 (ones - 8 * i) in NOT (mask (8 - k))) [0..<n]"

definition networkNumberAndMask :: "PolicyIPRange \<Rightarrow> bytes \<times> bytes" where
  "networkNumberAndMask r =
    (let ip = ip_norm (RangeIP r); n = (if length (RangeIP r) = 4 then 4 else 16) in
     if length ip \<noteq> 4 \<and> length ip \<noteq> 16 \<or> RangePrefix r > 8 * n then ([], [])
     else if length ip = 4 \<and> n = 16 then (ip, drop 12 (cidrMask (RangePrefix r) n))
     else (ip, cidrMask (RangePrefix r) n))"

definition IPNet_Contains :: "PolicyIPRange \<Rightarrow> bytes \<Rightarrow> bool" where
  "IPNet_Contains r ip =
    (case networkNumberAndMask r of (nn, m) \<Rightarrow>
       let ip = ip_norm ip in
       length ip = length nn \<and> map2 (AND) nn m = map2 (AND) ip m)"

definition getFabridMplsLabelForInterface :: "DataPlane \<Rightarrow> u32 \<Rightarrow> u32 \<Rightarrow> u32 \<Rightarrow> u32 result" where
  "getFabridMplsLabelForInterface d ingress policyIndex egress =
    (let key = push_bit 24 (ucast ingress) + push_bit 8 (ucast egress) + ucast policyIndex :: u64 in
     case fabridPolicyInterfaceMap d key of
       Some l \<Rightarrow> Ok l
     | None \<Rightarrow>
         let key = push_bit 63 1 + push_bit 8 (ucast egress) + ucast policyIndex :: u64 in
         (case fabridPolicyInterfaceMap d key of
            Some l \<Rightarrow> Ok l
          | None \<Rightarrow> Fail (Err ''Provided policyID is invalid'')))"

fun bestRange :: "bytes \<Rightarrow> PolicyIPRange list \<Rightarrow> PolicyIPRange option \<Rightarrow> PolicyIPRange option" where
  "bestRange ip [] best = best"
| "bestRange ip (r # rs) best =
     bestRange ip rs
       (if IPNet_Contains r ip
        then (case best of None \<Rightarrow> Some r
              | Some b \<Rightarrow> if RangePrefix r > RangePrefix b then Some r else best)
        else best)"

definition getFabridMplsLabel :: "DataPlane \<Rightarrow> u32 \<Rightarrow> u32 \<Rightarrow> bytes \<Rightarrow> u32 result" where
  "getFabridMplsLabel d ingress policyIndex nextHopIP =
    (let ipRanges = (case fabridPolicyIPRangeMap d (push_bit 8 ingress + policyIndex) of
                       Some rs \<Rightarrow> Some rs
                     | None \<Rightarrow> fabridPolicyIPRangeMap d (push_bit 31 1 + policyIndex)) in
     case ipRanges of
       None \<Rightarrow> Fail (Err ''Provided policyID is invalid'')
     | Some rs \<Rightarrow>
         (case bestRange nextHopIP rs None of
            None \<Rightarrow> Fail (Err ''Provided policy index is not valid for nexthop.'')
          | Some r \<Rightarrow> Ok (MPLSLabel r)))"

text \<open>The number of the protocol is \<open>PROTOCOL_FABRID\<close> of the protocol buffer definitions. A nil \<open>nextHop\<close> panics.\<close>

definition drkey_FABRID :: int where "drkey_FABRID = 2"

definition fabridLabel :: "scionPacketProcessor \<Rightarrow> PolicyID \<Rightarrow> u16 \<Rightarrow> u32 option result" where
  "fabridLabel p policyID egressIF =
    (let ing = ucast (ingressID p) :: u32; pol = ucast policyID :: u32 in
     if policyID = 0 then Ok None
     else case transit p of
       ingressEgressDifferentRouter \<Rightarrow> mapR Some (getFabridMplsLabelForInterface (plane p) ing pol (ucast egressIF))
     | internalTraffic \<Rightarrow>
         (case nextHop p of
            None \<Rightarrow> Panic
          | Some a \<Rightarrow>
              (case getFabridMplsLabel (plane p) ing pol (UIP a) of
                 Ok l \<Rightarrow> Ok (Some l)
               | Panic \<Rightarrow> Panic
               | Fail _ \<Rightarrow> mapR Some (getFabridMplsLabelForInterface (plane p) ing pol 0)))
     | ingressEgressSameRouter \<Rightarrow> Ok None)"

definition processFabrid ::
  "envir \<Rightarrow> u16 \<Rightarrow> FabridHopfieldMetadata \<Rightarrow> scionPacketProcessor
   \<Rightarrow> (scionPacketProcessor \<times> FabridHopfieldMetadata) result" where
  "processFabrid E egressIF meta p =
     bindR (SrcAddr (scionLayer p)) (\<lambda>src.
     case idOpt p of
       None \<Rightarrow> Panic
     | Some ident \<Rightarrow>
         bindR (if ASLevelKey meta
                then DeriveASASKey (aesOf E) (timeNow E 3) (drkeys (plane p)) drkey_FABRID (IdTimestamp ident) (SrcIA (scionLayer p))
                else DeriveASHostKey (aesOf E) (parseHost E) (timeNow E 3) (drkeys (plane p)) drkey_FABRID (IdTimestamp ident)
                       (SrcIA (scionLayer p)) (hostText E src)) (\<lambda>key.
         bindR (ComputePolicyID (aesOf E) meta (Some ident) key) (\<lambda>policyID.
         bindR (VerifyAndUpdate (aesOf E) meta (Some ident) (scionLayer p) (replicate FabridMacInputSize 0) key
                  (ingressID p) egressIF) (\<lambda>meta.
         bindR (fabridLabel p policyID egressIF) (\<lambda>l.
         Ok (case l of None \<Rightarrow> p | Some l \<Rightarrow> p\<lparr>mplsLabel := l\<rparr>, meta))))))"

text \<open>
  The loop over the options. \<open>off\<close> is where the option starts in the packet; its data start two bytes
  later. The index of the hop is computed in eight bits.
\<close>

definition fabridHop :: "scionPacketProcessor \<Rightarrow> Raw \<Rightarrow> u8" where
  "fabridHop p s = (if Peer (infoField p) then CurrHF (PathMeta s) else CurrHF (PathMeta s) - CurrINF (PathMeta s))"

definition fabridNumHFs :: "scionPacketProcessor \<Rightarrow> Raw \<Rightarrow> int" where
  "fabridNumHFs p s = NumHops s - NumINF s + 1 + (if Peer (infoField p) then 1 else 0)"

fun hbhOption :: "envir \<Rightarrow> u16 \<Rightarrow> tlvOption list \<Rightarrow> nat \<Rightarrow> step" where
  "hbhOption E egressIF [] off p = skip p"
| "hbhOption E egressIF (opt # opts) off p =
    (if OptType opt = OptTypeIdentifier then
       (if idOpt p \<noteq> None then failWith (Err ''Identifier HBH option provided multiple times'') p
        else withPath (\<lambda>s p.
          orFail (if CurrINF (PathMeta s) > 0
                  then (case GetInfoField s 0 of
                          Ok first \<Rightarrow> Ok (Timestamp first)
                        | Fail _ \<Rightarrow> Fail (Err ''Failed to parse first InfoField'')
                        | Panic \<Rightarrow> Panic)
                  else Ok (Timestamp (infoField p))) (\<lambda>baseTimestamp.
          orFail (ParseIdentifierOption opt baseTimestamp) (\<lambda>i p.
          hbhOption E egressIF opts (off + ActualLength opt) (p\<lparr>idOpt := Some i\<rparr>))) p) p)
     else if OptType opt = OptTypeFabrid then
       (if fabridOpt p \<noteq> None then failWith (Err ''FABRID HBH option provided multiple times'') p
        else if idOpt p = None then failWith (Err ''Identifier HBH option must be present when using FABRID'') p
        else withPath (\<lambda>s p.
          let currHop = fabridHop p s in
          if ingressID p = 0 \<and> currHop \<noteq> 0 then skip p
          else orFail (ParseFabridOptionCurrentHop opt currHop (word_of_int (fabridNumHFs p s))) (\<lambda>f p.
            case HopfieldMetadata f of
              [] \<Rightarrow> (p, Crash)
            | meta # _ \<Rightarrow>
                if FabridEnabled meta then
                  orFail (processFabrid E egressIF meta (p\<lparr>fabridOpt := Some f\<rparr>)) (\<lambda>(p, meta) _.
                  let dataOff = unat (currHop * 4 :: u8) in
                  if length (OptData opt) < dataOff then (p, Crash)
                  else orFail (FabridHopfieldMetadata_SerializeTo meta (drop dataOff (OptData opt))) (\<lambda>b p.
                    hbhOption E egressIF opts (off + ActualLength opt)
                      (p\<lparr>fabridOpt := Some (f\<lparr>HopfieldMetadata := [meta]\<rparr>),
                         rawPkt := copy_at (off + 2 + dataOff) b (rawPkt p)\<rparr>)) p) p
                else hbhOption E egressIF opts (off + ActualLength opt) p) p) p)
     else hbhOption E egressIF opts (off + ActualLength opt) p)"

declare hbhOption.simps(2) [simp del]

definition hbhOff :: "scionPacketProcessor \<Rightarrow> nat" where
  "hbhOff p = unat (HdrLen (scionLayer p)) * 4 + 2"

definition processHbhOptions :: "envir \<Rightarrow> u16 \<Rightarrow> step" where
  "processHbhOptions E egressIF p = hbhOption E egressIF (HbhOptions (hbhLayer p)) (hbhOff p) p"

section \<open>Processing a SCION path\<close>

definition ret :: "processResult \<Rightarrow> step" where "ret r p = (p, Ret r None)"

text \<open>The packet is for this AS.\<close>

definition processInbound :: "envir \<Rightarrow> step" where
  "processInbound E = resolveInbound E (\<lambda>a p.
     andThen (processHbhOptions E 0)
       (\<lambda>p. ret (zero_result\<lparr>OutAddr := a, OutPkt := Some (rawPkt p), TrafficType := ttIn\<rparr>) p)
       (p\<lparr>transit := internalTraffic, nextHop := a\<rparr>))"

text \<open>After the checks of the egress interface: out through it, or to the router that has it.\<close>

definition trafficOut :: "scionPacketProcessor \<Rightarrow> trafficType" where
  "trafficOut p = (if SrcIA (scionLayer p) = localIA (plane p) then ttOut
                   else if ingressID p = 0 then ttOutTransit else ttBrTransit)"

definition processForward :: "envir \<Rightarrow> step" where
  "processForward E p =
    (let egressID = egressInterface p in
     if external (plane p) egressID \<noteq> None then
       stepsThen [processHbhOptions E egressID, processEgress]
         (\<lambda>p. ret (zero_result\<lparr>EgressID := egressID, OutPkt := Some (rawPkt p), TrafficType := trafficOut p\<rparr>) p)
         (p\<lparr>transit := ingressEgressSameRouter\<rparr>)
     else case internalNextHops (plane p) egressID of
       Some a \<Rightarrow>
         andThen (processHbhOptions E egressID)
           (\<lambda>p. ret (zero_result\<lparr>OutAddr := Some a, OutPkt := Some (rawPkt p), TrafficType := ttInTransit\<rparr>) p)
           (p\<lparr>transit := ingressEgressDifferentRouter, nextHop := Some a\<rparr>)
     | None \<Rightarrow> withPath cannotRouteEgress p)"

definition xover :: "envir \<Rightarrow> step" where
  "xover E = withPath (\<lambda>s p.
     if IsXover s \<and> \<not> peering p
     then stepsThen [doXover, validateHopExpiry E 1] verifyCurrentMAC p
     else skip p)"

definition processOutbound :: "envir \<Rightarrow> step" where
  "processOutbound E = stepsThen [xover E, validateEgressID, handleEgressRouterAlert, validateEgressUp] (processForward E)"

definition process :: "envir \<Rightarrow> step" where
  "process E =
     stepsThen [parsePath, proc_determinePeer, validateHopExpiry E 0, validateIngressID, validatePktLen,
                validateTransitUnderlaySrc, validateSrcDstIA, updateNonConsDirIngressSegID, verifyCurrentMAC,
                handleIngressRouterAlert]
       (\<lambda>p. if DstIA (scionLayer p) = localIA (plane p) then processInbound E p else processOutbound E p)"

text \<open>The path starts behind the address header, for EPIC behind the EPIC header that follows it.\<close>

definition processSCION :: "envir \<Rightarrow> step" where
  "processSCION E p =
    (case SPath (scionLayer p) of
       Some (ScionRawPath s) \<Rightarrow>
         process E (p\<lparr>pathOf := Some s, pathOff := nat (CmnHdrLen + AddrHdrLen (scionLayer p))\<rparr>)
     | _ \<Rightarrow> failWith malformedPath (p\<lparr>pathOf := None\<rparr>))"

definition verifyEPIC :: "envir \<Rightarrow> Epic \<Rightarrow> bool \<Rightarrow> step" where
  "verifyEPIC E epic isLast = withPath (\<lambda>s.
     orFail (GetInfoField s 0) (\<lambda>firstInfo.
     orFail (VerifyTimestamp (SecsToTime (Timestamp firstInfo)) (PktTimestamp (EpicPktID epic)) (timeNow E 2)) (\<lambda>_ p.
     orFail (VerifyHVF (aesOf E) (cachedMac p) (EpicPktID epic) (Some (scionLayer p)) (Timestamp firstInfo)
               (if isLast then LHVF epic else PHVF epic) (replicate epic_MACBufferSize 0)) (\<lambda>_. skip) p)))"

definition processEPIC :: "envir \<Rightarrow> step" where
  "processEPIC E p =
    (case SPath (scionLayer p) of
       Some (EpicPath epic) \<Rightarrow>
         (case EpicScionPath epic of
            None \<Rightarrow> failWith malformedPath (p\<lparr>pathOf := None\<rparr>)
          | Some s \<Rightarrow>
              (case process E (p\<lparr>pathOf := Some s,
                                 pathOff := nat (CmnHdrLen + AddrHdrLen (scionLayer p)) + MetadataLen\<rparr>) of
                 (p, Ret result None) \<Rightarrow>
                   if IsPenultimateHop s \<or> IsLastHop s
                   then andThen (verifyEPIC E epic (IsLastHop s)) (ret result) p
                   else ret result p
               | x \<Rightarrow> x))
     | _ \<Rightarrow> failWith malformedPath p)"

section \<open>One-hop paths and BFD\<close>

text \<open>The header is serialized into a fresh buffer and copied over the start of the packet.\<close>

definition updateSCIONLayer :: "envir \<Rightarrow> bytes \<Rightarrow> SCION \<Rightarrow> bytes result" where
  "updateSCIONLayer E raw s =
     bindR (snd (SCION_SerializeTo (freshBytes E) False s [])) (\<lambda>rawContents.
     if length raw < length rawContents then Panic else Ok (copy_at 0 rawContents raw))"

definition setOneHop :: "OneHop \<Rightarrow> scionPacketProcessor \<Rightarrow> scionPacketProcessor" where
  "setOneHop ohp p = p\<lparr>scionLayer := (scionLayer p)\<lparr>SPath := Some (OneHopPath ohp)\<rparr>\<rparr>"

definition processOHP_out :: "envir \<Rightarrow> OneHop \<Rightarrow> step" where
  "processOHP_out E ohp p =
    (let s = scionLayer p; egress = ConsEgress (FirstHop ohp) in
     if localIA (plane p) \<noteq> SrcIA s then failWith (WrapStr ''bad source IA'' cannotRoute) p
     else case neighborIAs (plane p) egress of
       None \<Rightarrow> failWith cannotRoute p
     | Some neighborIA \<Rightarrow>
         if neighborIA \<noteq> DstIA s then failWith (WrapStr ''bad destination IA'' cannotRoute) p
         else if Mac (FirstHop ohp) \<noteq> MAC (macOf p) (Info ohp) (FirstHop ohp) (replicate MACBufferSize 0)
         then failWith (Err ''MAC'') p
         else
           let p = setOneHop (ohp\<lparr>Info := UpdateSegID (Info ohp) (Mac (FirstHop ohp))\<rparr>) p in
           orFail (updateSCIONLayer E (rawPkt p) (scionLayer p)) (\<lambda>raw p.
             ret (zero_result\<lparr>EgressID := egress, OutPkt := Some raw\<rparr>) (p\<lparr>rawPkt := raw\<rparr>)) p)"

definition processOHP_in :: "envir \<Rightarrow> OneHop \<Rightarrow> step" where
  "processOHP_in E ohp p =
    (let s = scionLayer p in
     if localIA (plane p) \<noteq> DstIA s then failWith (WrapStr ''bad destination IA'' cannotRoute) p
     else if (case neighborIAs (plane p) (ingressID p) of None \<Rightarrow> 0 | Some ia \<Rightarrow> ia) \<noteq> SrcIA s
     then failWith (WrapStr ''bad source IA'' cannotRoute) p
     else
       let hop = zero_hop\<lparr>ConsIngress := ingressID p, ExpTime := ExpTime (FirstHop ohp)\<rparr>;
           hop = hop\<lparr>Mac := MAC (macOf p) (Info ohp) hop (replicate MACBufferSize 0)\<rparr>;
           p = setOneHop (ohp\<lparr>SecondHop := hop\<rparr>) p in
       orFail (updateSCIONLayer E (rawPkt p) (scionLayer p)) (\<lambda>raw p.
         let p = p\<lparr>rawPkt := raw\<rparr> in
         case lastLayerOf p of
           None \<Rightarrow> (p, Crash)
         | Some lst \<Rightarrow>
             (case resolveLocalDst E (plane p) (scionLayer p) lst of (d, r) \<Rightarrow>
                orFail r (\<lambda>a. ret (zero_result\<lparr>OutAddr := Some a, OutPkt := Some raw\<rparr>)) (p\<lparr>plane := d\<rparr>))) p)"

definition processOHP :: "envir \<Rightarrow> step" where
  "processOHP E p =
    (case SPath (scionLayer p) of
       Some (OneHopPath ohp) \<Rightarrow>
         if \<not> ConsDir (Info ohp)
         then failWith (WrapStr ''OneHop path in reverse construction direction is not allowed'' malformedPath) p
         else if ingressID p = 0 then processOHP_out E ohp p
         else processOHP_in E ohp p
     | _ \<Rightarrow> failWith malformedPath p)"

text \<open>\<^verbatim>\<open>len(p.d.bfdSessions) == 0\<close>: no interface number has a session.\<close>

definition noSessions :: "DataPlane \<Rightarrow> bool" where
  "noSessions d \<longleftrightarrow> (\<forall>i < 65536. bfdSessions d (of_nat i) = None)"

definition deliverBFD :: "BFD \<Rightarrow> u16 \<Rightarrow> step" where
  "deliverBFD bfd ifID p =
    (case bfdSessions (plane p) ifID of
       None \<Rightarrow> failWith noBFDSessionFound p
     | Some i \<Rightarrow>
         (case bfdPool (plane p) ! i of (snd', session) \<Rightarrow>
            (case ReceiveMessage session bfd of
               None \<Rightarrow> (p, Blocked)
             | Some Panic \<Rightarrow> (p, Crash)
             | Some (Fail e) \<Rightarrow> failWith e p
             | Some (Ok session') \<Rightarrow>
                 skip (p\<lparr>plane := (plane p)\<lparr>bfdPool := (bfdPool (plane p))[i := (snd', session')]\<rparr>\<rparr>))))"

definition processInterBFD :: "envir \<Rightarrow> bytes \<Rightarrow> step" where
  "processInterBFD E data p =
    (if noSessions (plane p) then failWith noBFDSessionConfigured p
     else orFail (bfdDecode E data) (\<lambda>bfd p. deliverBFD bfd (ingressID p) p) p)"

definition processIntraBFD :: "envir \<Rightarrow> bytes \<Rightarrow> step" where
  "processIntraBFD E data p =
    (if noSessions (plane p) then failWith noBFDSessionConfigured p
     else orFail (bfdDecode E data) (\<lambda>bfd p.
       deliverBFD bfd
         (case find (\<lambda>k. (case internalNextHops (plane p) k of
                            None \<Rightarrow> False
                          | Some v \<Rightarrow> UIP v = UIP (srcAddr p) \<and> UPort v = UPort (srcAddr p))) (rangeOrder E) of
            None \<Rightarrow> 0 | Some k \<Rightarrow> k) p) p)"

section \<open>The entry point\<close>

definition zero_extn :: extnBase where
  "zero_extn = \<lparr>Contents = [], Payload = [], ExtNextHdr = 0, ExtLen = 0, ActualLen = 0\<rparr>"

definition newPacketProcessor :: "DataPlane \<Rightarrow> scionPacketProcessor result" where
  "newPacketProcessor d =
    (case macFactory d of
       None \<Rightarrow> Panic
     | Some mac \<Rightarrow> Ok \<lparr>plane = d, ingressID = 0, rawPkt = [], srcAddr = \<lparr>UIP = [], UPort = 0, UZone = []\<rparr>, macOf = mac,
         scionLayer = RecyclePaths zero_scion, hbhLayer = extnBase.extend zero_extn \<lparr>HbhOptions = []\<rparr>, e2eLayer = zero_extn,
         lastLayerOf = None, pathOf = None, pathOff = 0, hopField = zero_hop, infoField = zero_info,
         effectiveXover = False, peering = False, cachedMac = [], idOpt = None, fabridOpt = None, mplsLabel = 0,
         nextHop = None, transit = ingressEgressSameRouter\<rparr>)"

definition reset :: "scionPacketProcessor \<Rightarrow> scionPacketProcessor" where
  "reset p = p\<lparr>rawPkt := [], ingressID := 0, pathOf := None, hopField := zero_hop, infoField := zero_info,
     effectiveXover := False, peering := False, cachedMac := [],
     hbhLayer := extnBase.extend zero_extn \<lparr>HbhOptions = []\<rparr>, e2eLayer := zero_extn,
     idOpt := None, fabridOpt := None, mplsLabel := 0, nextHop := None\<rparr>"

definition dispatch :: "envir \<Rightarrow> lastLayer \<Rightarrow> step" where
  "dispatch E lst p =
    (let pld = LayerPayload lst; pathType = SPathType (scionLayer p) in
     if pathType = empty_PathType then
       (if NextLayerType lst = LayerTypeBFD then processIntraBFD E pld p
        else failWith unsupportedPathTypeNextHeader p)
     else if pathType = onehop_PathType then
       (if NextLayerType lst = LayerTypeBFD
        then (case SPath (scionLayer p) of
                Some (OneHopPath _) \<Rightarrow> processInterBFD E pld p
              | _ \<Rightarrow> failWith malformedPath p)
        else processOHP E p)
     else if pathType = scion_PathType then processSCION E p
     else if pathType = epic_PathType then processEPIC E p
     else failWith unsupportedPathType p)"

definition processPkt :: "envir \<Rightarrow> bytes \<Rightarrow> UDPAddr \<Rightarrow> u16 \<Rightarrow> step" where
  "processPkt E raw src ingress p =
    (let p = (reset p)\<lparr>rawPkt := raw, srcAddr := src, ingressID := ingress\<rparr> in
     case decodeLayers (pathRegistry E) p of
       Fail e \<Rightarrow> failWith e (p\<lparr>lastLayerOf := None\<rparr>)
     | Panic \<Rightarrow> (p, Crash)
     | Ok p \<Rightarrow>
         (case lastLayerOf p of
            None \<Rightarrow> (p, Crash)
          | Some lst \<Rightarrow> dispatch E lst p))"

end
