(* ===== verification/Forwarding.thy ===== *)
theory Forwarding
  imports Router
begin

text \<open>
  What the packet processor guarantees. A step that succeeds (no error) satisfied its checks; the rules in
  \<open>ok_simps\<close> say for every step when it succeeds and with which state, and the properties of whole packets
  follow by chaining them. Dually, the rules in \<open>safe_intros\<close> show that no step panics on a processor whose
  path is well formed.
\<close>

unbundle bit_operations_syntax

named_theorems ok_simps \<open>when a step of the processor succeeds\<close>
named_theorems safe_intros \<open>steps that do not panic\<close>

section \<open>Successful steps\<close>

lemma skip_ok [ok_simps]: "skip p = (q, Ret r None) \<longleftrightarrow> q = p \<and> r = zero_result"
  by (auto simp: skip_def)

lemma failing [ok_simps]:
  "failWith e p \<noteq> (q, Ret r None)" "slowPath s p \<noteq> (q, Ret r None)" "paramProblem c i e p \<noteq> (q, Ret r None)"
  "invalidSrcIA p \<noteq> (q, Ret r None)" "invalidDstIA p \<noteq> (q, Ret r None)" "cannotRouteEgress s' p \<noteq> (q, Ret r None)"
  by (simp_all add: failWith_def slowPath_def paramProblem_def invalidSrcIA_def invalidDstIA_def cannotRouteEgress_def)

lemma ret_ok [ok_simps]: "ret x p = (q, Ret r None) \<longleftrightarrow> q = p \<and> r = x"
  by (auto simp: ret_def)

lemma andThen_ok [ok_simps]:
  "andThen f g p = (q, Ret r None) \<longleftrightarrow> (\<exists>p' r'. f p = (p', Ret r' None) \<and> g p' = (q, Ret r None))"
  by (auto simp: andThen_def split: prod.splits outcome.splits option.splits)

lemma stepsThen_simps [simp]: "stepsThen [] g = g" "stepsThen (f # fs) g = andThen f (stepsThen fs g)"
  by (simp_all add: stepsThen_def)

lemma withPath_ok [ok_simps]:
  "withPath f p = (q, Ret r None) \<longleftrightarrow> (\<exists>s. pathOf p = Some s \<and> f s p = (q, Ret r None))"
  by (auto simp: withPath_def split: option.splits)

lemma orFail_ok [ok_simps]:
  "orFail m k p = (q, Ret r None) \<longleftrightarrow> (\<exists>x. m = Ok x \<and> k x p = (q, Ret r None))"
  by (auto simp: orFail_def failWith_def split: result.splits)

lemma if_ok [ok_simps]:
  "(if b then x else y) = (q, Ret r None) \<longleftrightarrow> (b \<and> x = (q, Ret r None)) \<or> (\<not> b \<and> y = (q, Ret r None))"
  by simp

lemma option_ok [ok_simps]:
  "(case x of None \<Rightarrow> a | Some y \<Rightarrow> f y) = (q, Ret r None) \<longleftrightarrow>
     (x = None \<and> a = (q, Ret r None)) \<or> (\<exists>y. x = Some y \<and> f y = (q, Ret r None))"
  by (cases x) simp_all

text \<open>The checks of \<open>process\<close>.\<close>

lemma parsePath_ok [ok_simps]:
  "parsePath p = (q, Ret r None) \<longleftrightarrow> (\<exists>s hf info. pathOf p = Some s \<and> GetCurrentHopField s = Ok hf
     \<and> GetCurrentInfoField s = Ok info \<and> q = p\<lparr>hopField := hf, infoField := info\<rparr> \<and> r = zero_result)"
  by (auto simp: parsePath_def ok_simps)

lemma proc_determinePeer_ok [ok_simps]:
  "proc_determinePeer p = (q, Ret r None) \<longleftrightarrow> (\<exists>s peer. pathOf p = Some s
     \<and> determinePeer (PathMeta s) (infoField p) = Ok peer \<and> q = p\<lparr>peering := peer\<rparr> \<and> r = zero_result)"
  by (auto simp: proc_determinePeer_def ok_simps)

definition unexpired :: "int \<Rightarrow> InfoField \<Rightarrow> HopField \<Rightarrow> bool" where
  "unexpired now info hf \<longleftrightarrow> now \<le> SecsToTime (Timestamp info) + ExpTimeToDuration (ExpTime hf)"

lemma validateHopExpiry_ok [ok_simps]:
  "validateHopExpiry E k p = (q, Ret r None) \<longleftrightarrow> pathOf p \<noteq> None \<and> unexpired (timeNow E k) (infoField p) (hopField p)
     \<and> q = p \<and> r = zero_result"
  by (auto simp: validateHopExpiry_def ok_simps Let_def unexpired_def)

definition cons_ingress :: "InfoField \<Rightarrow> HopField \<Rightarrow> u16" where
  "cons_ingress info hf = (if ConsDir info then ConsIngress hf else ConsEgress hf)"

definition cons_egress :: "InfoField \<Rightarrow> HopField \<Rightarrow> u16" where
  "cons_egress info hf = (if ConsDir info then ConsEgress hf else ConsIngress hf)"

lemma egressInterface_eq: "egressInterface p = cons_egress (infoField p) (hopField p)"
  by (simp add: egressInterface_def cons_egress_def)

lemma validateIngressID_ok [ok_simps]:
  "validateIngressID p = (q, Ret r None) \<longleftrightarrow> pathOf p \<noteq> None
     \<and> (ingressID p = 0 \<or> ingressID p = cons_ingress (infoField p) (hopField p)) \<and> q = p \<and> r = zero_result"
  by (auto simp: validateIngressID_def ok_simps Let_def cons_ingress_def)

lemma validatePktLen_ok [ok_simps]:
  "validatePktLen p = (q, Ret r None) \<longleftrightarrow> uint (PayloadLen (scionLayer p)) = int (length (Payload (scionLayer p)))
     \<and> q = p \<and> r = zero_result"
  by (auto simp: validatePktLen_def ok_simps)

text \<open>A packet that came from inside the AS and is not at its first hop came from the sibling router that has
  the ingress interface.\<close>

definition from_sibling :: "DataPlane \<Rightarrow> u16 \<Rightarrow> UDPAddr \<Rightarrow> bool" where
  "from_sibling d i src \<longleftrightarrow> (\<exists>a. internalNextHops d i = Some a \<and> ip_Equal (UIP a) (UIP src))"

lemma ingressInterface_ok:
  "ingressInterface p s = Ok i \<longleftrightarrow> (\<exists>info hf.
     (if \<not> peering p \<and> IsFirstHopAfterXover s
      then GetInfoField s (uint (CurrINF (PathMeta s)) - 1) = Ok info \<and> GetHopField s (uint (CurrHF (PathMeta s)) - 1) = Ok hf
      else info = infoField p \<and> hf = hopField p)
     \<and> i = (if ConsDir info then ConsIngress hf else ConsEgress hf))"
  by (auto simp: ingressInterface_def Let_def split: result.splits)

lemma validateTransitUnderlaySrc_ok [ok_simps]:
  "validateTransitUnderlaySrc p = (q, Ret r None) \<longleftrightarrow> (\<exists>s. pathOf p = Some s
     \<and> (IsFirstHop s \<or> ingressID p \<noteq> 0 \<or> (\<exists>i. ingressInterface p s = Ok i \<and> from_sibling (plane p) i (srcAddr p)))
     \<and> q = p \<and> r = zero_result)"
  by (auto simp: validateTransitUnderlaySrc_def ok_simps from_sibling_def)

definition ia_ok :: "IA \<Rightarrow> u16 \<Rightarrow> IA \<Rightarrow> IA \<Rightarrow> Raw \<Rightarrow> bool" where
  "ia_ok local ingress src dst s \<longleftrightarrow>
    (if ingress = 0 then (IsFirstHop s \<longrightarrow> src = local) \<and> dst \<noteq> local
     else src \<noteq> local \<and> (IsLastHop s \<longleftrightarrow> dst = local))"

lemma validateSrcDstIA_ok [ok_simps]:
  "validateSrcDstIA p = (q, Ret r None) \<longleftrightarrow> (\<exists>s. pathOf p = Some s
     \<and> ia_ok (localIA (plane p)) (ingressID p) (SrcIA (scionLayer p)) (DstIA (scionLayer p)) s \<and> q = p \<and> r = zero_result)"
  by (auto simp: validateSrcDstIA_def ok_simps Let_def ia_ok_def)

lemma updateNonConsDirIngressSegID_ok [ok_simps]:
  "updateNonConsDirIngressSegID p = (q, Ret r None) \<longleftrightarrow> (\<exists>s. pathOf p = Some s \<and> r = zero_result
     \<and> (if \<not> ConsDir (infoField p) \<and> ingressID p \<noteq> 0 \<and> \<not> peering p
        then \<exists>s'. SetInfoField s (UpdateSegID (infoField p) (Mac (hopField p))) (uint (CurrINF (PathMeta s))) = Ok s'
               \<and> q = setPath s' (p\<lparr>infoField := UpdateSegID (infoField p) (Mac (hopField p))\<rparr>)
        else q = p))"
  by (auto simp: updateNonConsDirIngressSegID_def ok_simps Let_def wrapR_eq_Ok)

definition authentic :: "(bytes \<Rightarrow> bytes) \<Rightarrow> InfoField \<Rightarrow> HopField \<Rightarrow> bool" where
  "authentic mac info hf \<longleftrightarrow> take MacLen (Mac hf) = MAC mac info hf (replicate MACBufferSize 0)"

lemma verifyCurrentMAC_ok [ok_simps]:
  "verifyCurrentMAC p = (q, Ret r None) \<longleftrightarrow> pathOf p \<noteq> None \<and> authentic (macOf p) (infoField p) (hopField p)
     \<and> q = p\<lparr>cachedMac := FullMAC (macOf p) (infoField p) (hopField p) (replicate MACBufferSize 0)\<rparr> \<and> r = zero_result"
  by (auto simp: verifyCurrentMAC_def ok_simps Let_def authentic_def MAC_def)

lemma setHop_fails [ok_simps]: "setHop hf i p \<noteq> (q, Ret r None)"
  by (simp add: setHop_def ok_simps)

lemma handleIngressRouterAlert_ok [ok_simps]:
  "handleIngressRouterAlert p = (q, Ret r None) \<longleftrightarrow> (ingressID p = 0 \<or> \<not> ingressRouterAlertFlag p) \<and> q = p \<and> r = zero_result"
  by (auto simp: handleIngressRouterAlert_def ok_simps)

lemma handleEgressRouterAlert_ok [ok_simps]:
  "handleEgressRouterAlert p = (q, Ret r None) \<longleftrightarrow>
     (\<not> egressRouterAlertFlag p \<or> external (plane p) (egressInterface p) = None) \<and> q = p \<and> r = zero_result"
  by (auto simp: handleEgressRouterAlert_def ok_simps Let_def)

lemma validateEgressUp_ok [ok_simps]:
  "validateEgressUp p = (q, Ret r None) \<longleftrightarrow> bfd_up (plane p) (egressInterface p) \<noteq> Some False \<and> q = p \<and> r = zero_result"
  by (auto simp: validateEgressUp_def ok_simps Let_def)

text \<open>The pairs of links a packet may use: within a segment, and where it changes from one segment to the next.\<close>

definition valid_pair :: "bool \<Rightarrow> LinkType \<Rightarrow> LinkType \<Rightarrow> bool" where
  "valid_pair xo i e \<longleftrightarrow>
    (if xo then (i, e) \<in> {(Core, Child), (Child, Core), (Child, Child)}
     else (i, e) \<in> {(Core, Core), (Child, Parent), (Parent, Child), (Child, PeerLink), (PeerLink, Child)})"

definition egress_ok :: "DataPlane \<Rightarrow> u16 \<Rightarrow> bool \<Rightarrow> u16 \<Rightarrow> bool" where
  "egress_ok d ingress xo e \<longleftrightarrow>
     (if ingress = 0 then external d e \<noteq> None else external d e \<noteq> None \<or> internalNextHops d e \<noteq> None)
     \<and> (ingress = 0 \<and> \<not> xo \<or> valid_pair xo (linkType d ingress) (linkType d e))"

lemma validateEgressID_ok [ok_simps]:
  "validateEgressID p = (q, Ret r None) \<longleftrightarrow> pathOf p \<noteq> None
     \<and> egress_ok (plane p) (ingressID p) (effectiveXover p) (egressInterface p) \<and> q = p \<and> r = zero_result"
proof (cases "effectiveXover p")
  case True
  then show ?thesis
    by (auto simp: validateEgressID_def ok_simps Let_def egress_ok_def valid_pair_def)
next
  case False
  then show ?thesis
    by (auto simp: validateEgressID_def ok_simps Let_def egress_ok_def valid_pair_def)
qed

text \<open>Writing the segment identifier, advancing the path, and both.\<close>

definition put_info :: "bool \<Rightarrow> Raw \<Rightarrow> InfoField \<Rightarrow> Raw result" where
  "put_info b s info = (if b then SetInfoField s info (uint (CurrINF (PathMeta s))) else Ok s)"

definition next_info :: "bool \<Rightarrow> InfoField \<Rightarrow> HopField \<Rightarrow> InfoField" where
  "next_info b info hf = (if b then UpdateSegID info (Mac hf) else info)"

definition advance :: "Raw \<Rightarrow> Raw result" where
  "advance s = mapR (\<lambda>_. fst (Raw_IncPath s)) (snd (Raw_IncPath s))"

lemma setPath_select [simp]:
  "pathOf (setPath s p) = Some s" "plane (setPath s p) = plane p" "ingressID (setPath s p) = ingressID p"
  "hopField (setPath s p) = hopField p" "infoField (setPath s p) = infoField p" "peering (setPath s p) = peering p"
  "effectiveXover (setPath s p) = effectiveXover p" "macOf (setPath s p) = macOf p" "srcAddr (setPath s p) = srcAddr p"
  "lastLayerOf (setPath s p) = lastLayerOf p" "hbhLayer (setPath s p) = hbhLayer p" "pathOff (setPath s p) = pathOff p"
  "cachedMac (setPath s p) = cachedMac p" "idOpt (setPath s p) = idOpt p" "fabridOpt (setPath s p) = fabridOpt p"
  "rawPkt (setPath s p) = copy_at (pathOff p) (RawBytes s) (rawPkt p)"
  by (simp_all add: setPath_def)

lemma setPath_layer [simp]:
  "SrcIA (scionLayer (setPath s p)) = SrcIA (scionLayer p)" "DstIA (scionLayer (setPath s p)) = DstIA (scionLayer p)"
  "HdrLen (scionLayer (setPath s p)) = HdrLen (scionLayer p)" "PayloadLen (scionLayer (setPath s p)) = PayloadLen (scionLayer p)"
  "Payload (scionLayer (setPath s p)) = Payload (scionLayer p)" "DstAddrType (scionLayer (setPath s p)) = DstAddrType (scionLayer p)"
  "SrcAddrType (scionLayer (setPath s p)) = SrcAddrType (scionLayer p)" "RawSrcAddr (scionLayer (setPath s p)) = RawSrcAddr (scionLayer p)"
  "RawDstAddr (scionLayer (setPath s p)) = RawDstAddr (scionLayer p)"
  by (simp_all add: setPath_def)

lemma incPath_ok [ok_simps]:
  "(case Raw_IncPath s of (s, r) \<Rightarrow> orFail (wrapR m r) (\<lambda>_. skip) (setPath s p)) = (q, Ret r None) \<longleftrightarrow>
     (\<exists>s'. advance s = Ok s' \<and> q = setPath s' p \<and> r = zero_result)"
  by (auto simp: advance_def ok_simps wrapR_eq_Ok mapR_eq_Ok split: prod.splits)

lemma processEgress_ok [ok_simps]:
  "processEgress p = (q, Ret r None) \<longleftrightarrow> (\<exists>s s1 s2. pathOf p = Some s \<and> r = zero_result
     \<and> put_info (ConsDir (infoField p) \<and> \<not> peering p) s (UpdateSegID (infoField p) (Mac (hopField p))) = Ok s1
     \<and> advance s1 = Ok s2
     \<and> q = setPath s2 (if ConsDir (infoField p) \<and> \<not> peering p
                        then setPath s1 (p\<lparr>infoField := UpdateSegID (infoField p) (Mac (hopField p))\<rparr>) else p))"
  by (cases "ConsDir (infoField p) \<and> \<not> peering p")
    (auto simp: processEgress_def ok_simps wrapR_eq_Ok Let_def put_info_def)

lemma doXover_ok [ok_simps]:
  "doXover p = (q, Ret r None) \<longleftrightarrow> (\<exists>s s' hf info. pathOf p = Some s \<and> advance s = Ok s' \<and> GetCurrentHopField s' = Ok hf
     \<and> GetCurrentInfoField s' = Ok info \<and> q = setPath s' (p\<lparr>effectiveXover := True\<rparr>)\<lparr>hopField := hf, infoField := info\<rparr>
     \<and> r = zero_result)"
  by (auto simp: doXover_def ok_simps)

lemma xover_ok [ok_simps]:
  "xover E p = (q, Ret r None) \<longleftrightarrow> (\<exists>s. pathOf p = Some s \<and> r = zero_result
     \<and> (if IsXover s \<and> \<not> peering p
        then \<exists>s' hf info. advance s = Ok s' \<and> GetCurrentHopField s' = Ok hf \<and> GetCurrentInfoField s' = Ok info
          \<and> unexpired (timeNow E 1) info hf \<and> authentic (macOf p) info hf
          \<and> q = setPath s' (p\<lparr>effectiveXover := True\<rparr>)\<lparr>hopField := hf, infoField := info,
                  cachedMac := FullMAC (macOf p) info hf (replicate MACBufferSize 0)\<rparr>
        else q = p))"
  by (cases "pathOf p") (auto simp: xover_def ok_simps)

section \<open>Hop-by-hop options\<close>

text \<open>The options change the label, what was parsed of them, and the bytes of the FABRID option.\<close>

definition hbh_frame :: "scionPacketProcessor \<Rightarrow> scionPacketProcessor \<Rightarrow> bool" where
  "hbh_frame p q \<longleftrightarrow> q = p\<lparr>rawPkt := rawPkt q, idOpt := idOpt q, fabridOpt := fabridOpt q, mplsLabel := mplsLabel q\<rparr>"

lemma hbh_frame_refl [simp]: "hbh_frame p p"
  by (simp add: hbh_frame_def)

lemma hbh_frame_trans: "hbh_frame (p\<lparr>rawPkt := a, idOpt := b, fabridOpt := c, mplsLabel := d\<rparr>) q \<Longrightarrow> hbh_frame p q"
  by (simp add: hbh_frame_def)

lemma hbh_frame_upd:
  "hbh_frame (p\<lparr>idOpt := b\<rparr>) q \<Longrightarrow> hbh_frame p q"
  "hbh_frame (p\<lparr>mplsLabel := d, fabridOpt := c, rawPkt := a\<rparr>) q \<Longrightarrow> hbh_frame p q"
  "hbh_frame (p\<lparr>fabridOpt := c, rawPkt := a\<rparr>) q \<Longrightarrow> hbh_frame p q"
  by (simp_all add: hbh_frame_def)

lemma hbh_frame_select:
  assumes "hbh_frame p q"
  shows "pathOf q = pathOf p" "plane q = plane p" "ingressID q = ingressID p" "scionLayer q = scionLayer p"
    "hopField q = hopField p" "infoField q = infoField p" "peering q = peering p" "macOf q = macOf p"
    "pathOff q = pathOff p" "cachedMac q = cachedMac p" "lastLayerOf q = lastLayerOf p" "hbhLayer q = hbhLayer p" "srcAddr q = srcAddr p"
  by (subst assms [unfolded hbh_frame_def], simp)+

lemma processFabrid_frame:
  "processFabrid E e m p = Ok (q, m') \<Longrightarrow> \<exists>l. q = p\<lparr>mplsLabel := l\<rparr>"
proof -
  assume "processFabrid E e m p = Ok (q, m')"
  then have "q = p \<or> (\<exists>l. q = p\<lparr>mplsLabel := l\<rparr>)"
    by (auto simp: processFabrid_def bindR_eq_Ok split: option.splits)
  moreover have "p = p\<lparr>mplsLabel := mplsLabel p\<rparr>" by simp
  ultimately show ?thesis by blast
qed

lemma list_ok [ok_simps]:
  "(case xs of [] \<Rightarrow> a | y # ys \<Rightarrow> f y ys) = (q, Ret r None) \<longleftrightarrow>
     (xs = [] \<and> a = (q, Ret r None)) \<or> (\<exists>y ys. xs = y # ys \<and> f y ys = (q, Ret r None))"
  by (cases xs) simp_all

lemma serialize_tail:
  assumes "FabridHopfieldMetadata_SerializeTo m (drop k d) = Ok b"
  shows "length b = length d - k" "4 \<le> length b" "drop 4 b = drop (k + 4) d"
proof -
  have len: "length (FabridHopfieldMetadata_bytes m) = 4" by (simp add: FabridHopfieldMetadata_bytes_def Let_def)
  have "4 \<le> length d - k" "b = FabridHopfieldMetadata_bytes m @ drop (k + 4) d"
    using assms len by (auto simp: FabridHopfieldMetadata_SerializeTo_def FabridMetadataLen_def copy_at_0 add.commute split: if_splits)
  then show "length b = length d - k" "4 \<le> length b" "drop 4 b = drop (k + 4) d" using len by simp_all
qed

text \<open>One turn of the loop that does not end it: the state the next turn starts from.\<close>

lemma hbhOption_cases:
  assumes "hbhOption E e (opt # opts) off p = (q, Ret r None)"
  obtains (stop) "q = p" "r = zero_result"
  | (ident) i where "hbhOption E e opts (off + ActualLength opt) (p\<lparr>idOpt := Some i\<rparr>) = (q, Ret r None)"
  | (fabrid) l f k b where "hbhOption E e opts (off + ActualLength opt)
      (p\<lparr>mplsLabel := l, fabridOpt := Some f, rawPkt := copy_at (off + 2 + k) b (rawPkt p)\<rparr>) = (q, Ret r None)"
      "OptType opt = OptTypeFabrid" "k + length b = length (OptData opt)" "4 \<le> length b" "drop 4 b = drop (k + 4) (OptData opt)"
  | (pass) "hbhOption E e opts (off + ActualLength opt) p = (q, Ret r None)"
proof -
  consider "OptType opt = OptTypeIdentifier" | "OptType opt = OptTypeFabrid" "OptType opt \<noteq> OptTypeIdentifier"
    | "OptType opt \<noteq> OptTypeIdentifier" "OptType opt \<noteq> OptTypeFabrid" by blast
  then show thesis
  proof cases
    case 1
    then show thesis using assms ident by (auto simp: hbhOption.simps ok_simps)
  next
    case 2
    then have "(q = p \<and> r = zero_result) \<or> hbhOption E e opts (off + ActualLength opt) p = (q, Ret r None)
        \<or> (\<exists>f meta p' m' k b. processFabrid E e meta (p\<lparr>fabridOpt := Some f\<rparr>) = Ok (p', m')
           \<and> \<not> length (OptData opt) < k
           \<and> FabridHopfieldMetadata_SerializeTo m' (drop k (OptData opt)) = Ok b
           \<and> hbhOption E e opts (off + ActualLength opt)
               (p'\<lparr>fabridOpt := Some (f\<lparr>HopfieldMetadata := [m']\<rparr>), rawPkt := copy_at (off + 2 + k) b (rawPkt p')\<rparr>) = (q, Ret r None))"
      using assms by (simp add: hbhOption.simps ok_simps Let_def) (elim exE conjE disjE; blast)
    then consider "q = p" "r = zero_result" | "hbhOption E e opts (off + ActualLength opt) p = (q, Ret r None)"
      | f meta p' m' k b where "processFabrid E e meta (p\<lparr>fabridOpt := Some f\<rparr>) = Ok (p', m')"
        "\<not> length (OptData opt) < k" "FabridHopfieldMetadata_SerializeTo m' (drop k (OptData opt)) = Ok b"
        "hbhOption E e opts (off + ActualLength opt)
           (p'\<lparr>fabridOpt := Some (f\<lparr>HopfieldMetadata := [m']\<rparr>), rawPkt := copy_at (off + 2 + k) b (rawPkt p')\<rparr>) = (q, Ret r None)"
      by blast
    then show thesis
    proof cases
      case 3
      obtain l where p': "p' = p\<lparr>fabridOpt := Some f, mplsLabel := l\<rparr>" using processFabrid_frame [OF 3(1)] by auto
      have b: "length b = length (OptData opt) - k" "4 \<le> length b" "drop 4 b = drop (k + 4) (OptData opt)"
        using serialize_tail [OF 3(3)] by simp_all
      show thesis
        by (rule fabrid [where k = k and b = b and l = l and f = "f\<lparr>HopfieldMetadata := [m']\<rparr>"])
          (use 3 2 b in \<open>simp_all add: p'\<close>)
    qed (use stop pass in blast)+
  next
    case 3
    then show thesis using assms pass by (auto simp: hbhOption.simps)
  qed
qed

lemma hbhOption_ok:
  "hbhOption E e opts off p = (q, Ret r None) \<Longrightarrow> hbh_frame p q \<and> r = zero_result"
proof (induction opts arbitrary: off p)
  case (Cons opt opts)
  from Cons.prems show ?case
  proof (cases rule: hbhOption_cases)
    case (ident i)
    then show ?thesis using Cons.IH hbh_frame_upd(1) by blast
  next
    case (fabrid l f k b)
    from Cons.IH [OF fabrid(1)] show ?thesis by (simp add: hbh_frame_def)
  next
    case pass
    then show ?thesis using Cons.IH by blast
  qed simp
qed (auto simp: ok_simps)

text \<open>Where the options lie in the packet, and what the loop leaves as it is.\<close>

fun opts_fit :: "tlvOption list \<Rightarrow> nat \<Rightarrow> nat \<Rightarrow> bool" where
  "opts_fit [] off n \<longleftrightarrow> off \<le> n"
| "opts_fit (opt # opts) off n \<longleftrightarrow> (OptType opt \<noteq> OptTypePad1 \<longrightarrow> ActualLength opt = length (OptData opt) + 2)
     \<and> opts_fit opts (off + ActualLength opt) n"

definition opts_len :: "tlvOption list \<Rightarrow> nat" where "opts_len opts = sum_list (map ActualLength opts)"

lemma opts_fit_len: "opts_fit opts off n \<Longrightarrow> off + opts_len opts \<le> n"
proof (induction opts arbitrary: off)
  case (Cons opt opts)
  then have "off + ActualLength opt + opts_len opts \<le> n" by simp
  then show ?case by (simp add: opts_len_def)
qed (simp add: opts_len_def)

lemma hbhOption_bytes:
  assumes "hbhOption E e opts off p = (q, Ret r None)" and "opts_fit opts off (length (rawPkt p))"
  shows "length (rawPkt q) = length (rawPkt p) \<and> take off (rawPkt q) = take off (rawPkt p)
    \<and> drop (off + opts_len opts) (rawPkt q) = drop (off + opts_len opts) (rawPkt p)
    \<and> (OptTypeFabrid \<notin> OptType ` set opts \<longrightarrow> rawPkt q = rawPkt p)"
  using assms
proof (induction opts arbitrary: off p)
  case (Cons opt opts)
  have len: "off + opts_len (opt # opts) = off + ActualLength opt + opts_len opts" by (simp add: opts_len_def)
  have shorter: "take off xs = take off ys" if "take (off + ActualLength opt) xs = take (off + ActualLength opt) ys" for xs ys :: bytes
    using that by (rule take_eq_le) simp
  from Cons.prems(1) show ?case
  proof (cases rule: hbhOption_cases)
    case (ident i)
    have "opts_fit opts (off + ActualLength opt) (length (rawPkt (p\<lparr>idOpt := Some i\<rparr>)))" using Cons.prems(2) by simp
    note ih = Cons.IH [OF ident this]
    from shorter [OF ih [THEN conjunct2, THEN conjunct1]] ih show ?thesis unfolding len by simp
  next
    case (fabrid l f k b)
    define p' where "p' = p\<lparr>mplsLabel := l, fabridOpt := Some f, rawPkt := copy_at (off + 2 + k) b (rawPkt p)\<rparr>"
    have "OptType opt \<noteq> OptTypePad1" using fabrid(2) by (simp add: OptTypeFabrid_def OptTypePad1_def)
    then have fit: "off + 2 + k + length b = off + ActualLength opt" "off + ActualLength opt + opts_len opts \<le> length (rawPkt p)"
      using Cons.prems(2) fabrid(3) opts_fit_len [OF Cons.prems(2)] by (simp_all add: opts_len_def)
    have p': "length (rawPkt p') = length (rawPkt p)" "take off (rawPkt p') = take off (rawPkt p)"
        "drop (off + ActualLength opt + opts_len opts) (rawPkt p') = drop (off + ActualLength opt + opts_len opts) (rawPkt p)"
      using fit by (simp_all add: p'_def drop_copy_at_after)
    have "opts_fit opts (off + ActualLength opt) (length (rawPkt p'))" using Cons.prems(2) p'(1) by simp
    note ih = Cons.IH [OF fabrid(1) [folded p'_def] this]
    from shorter [OF ih [THEN conjunct2, THEN conjunct1]] ih show ?thesis unfolding len using p' fabrid(2) by simp
  next
    case pass
    have "opts_fit opts (off + ActualLength opt) (length (rawPkt p))" using Cons.prems(2) by simp
    note ih = Cons.IH [OF pass this]
    from shorter [OF ih [THEN conjunct2, THEN conjunct1]] ih show ?thesis unfolding len by simp
  qed simp
qed (auto simp: ok_simps)

lemma decodeTLVOption_fit:
  assumes "decodeTLVOption data = Ok opt"
  shows "OptType opt \<noteq> OptTypePad1 \<longrightarrow> ActualLength opt = length (OptData opt) + 2" "ActualLength opt \<le> length data"
  using assms by (auto simp: decodeTLVOption_def Let_def bindR_eq_Ok slice_Ok_iff Suc_le_eq split: if_splits)

lemma decodeTLVOptions_fit:
  "decodeTLVOptions data = Ok opts \<Longrightarrow> off + length data \<le> n \<Longrightarrow> opts_fit opts off n"
proof (induction data arbitrary: opts off rule: decodeTLVOptions.induct)
  case (1 data)
  show ?case
  proof (cases "data = []")
    case True
    then show ?thesis using "1.prems" by (simp add: decodeTLVOptions.simps)
  next
    case False
    then obtain opt opts' where dec: "decodeTLVOption data = Ok opt" "ActualLength opt \<noteq> 0"
        "decodeTLVOptions (drop (ActualLength opt) data) = Ok opts'" "opts = opt # opts'"
      using "1.prems"(1) by (subst (asm) decodeTLVOptions.simps)
        (auto simp: mapR_eq_Ok split: result.splits if_splits)
    moreover note decodeTLVOption_fit [OF dec(1)]
    moreover have "opts_fit opts' (off + ActualLength opt) n"
      using decodeTLVOption_fit(2) [OF dec(1)] "1.prems"(2) by (intro "1.IH" [OF False dec(1,2,3)]) simp
    ultimately show ?thesis by simp
  qed
qed

section \<open>From arrival to departure\<close>

text \<open>What processing a packet leaves alone, in one equation.\<close>

definition core where
  "core p = (plane p, ingressID p, srcAddr p, macOf p, hbhLayer p, pathOff p, lastLayerOf p, (scionLayer p)\<lparr>SPath := None\<rparr>)"

lemma core_select:
  assumes "core q = core p"
  shows "plane q = plane p" "ingressID q = ingressID p" "srcAddr q = srcAddr p" "macOf q = macOf p" "hbhLayer q = hbhLayer p"
    "pathOff q = pathOff p" "lastLayerOf q = lastLayerOf p"
    "SrcIA (scionLayer q) = SrcIA (scionLayer p)" "DstIA (scionLayer q) = DstIA (scionLayer p)"
    "HdrLen (scionLayer q) = HdrLen (scionLayer p)"
proof -
  have eq: "(scionLayer q)\<lparr>SPath := None\<rparr> = (scionLayer p)\<lparr>SPath := None\<rparr>" using assms by (simp add: core_def)
  have sel: "SrcIA s = SrcIA (s\<lparr>SPath := None\<rparr>)" "DstIA s = DstIA (s\<lparr>SPath := None\<rparr>)" "HdrLen s = HdrLen (s\<lparr>SPath := None\<rparr>)" for s
    by simp_all
  show "SrcIA (scionLayer q) = SrcIA (scionLayer p)" "DstIA (scionLayer q) = DstIA (scionLayer p)"
    "HdrLen (scionLayer q) = HdrLen (scionLayer p)"
    by (simp_all only: sel [of "scionLayer q"] eq) simp_all
qed (use assms in \<open>simp_all add: core_def\<close>)

lemma core_setPath [simp]: "core (setPath s p) = core p"
  by (simp add: core_def setPath_def)

lemma core_update [simp]:
  "core (p\<lparr>hopField := hf\<rparr>) = core p" "core (p\<lparr>infoField := i\<rparr>) = core p" "core (p\<lparr>peering := b\<rparr>) = core p"
  "core (p\<lparr>effectiveXover := b\<rparr>) = core p" "core (p\<lparr>cachedMac := m\<rparr>) = core p" "core (p\<lparr>transit := t\<rparr>) = core p"
  "core (p\<lparr>nextHop := a\<rparr>) = core p" "core (p\<lparr>rawPkt := raw\<rparr>) = core p" "core (p\<lparr>idOpt := i'\<rparr>) = core p"
  "core (p\<lparr>fabridOpt := f\<rparr>) = core p" "core (p\<lparr>mplsLabel := l\<rparr>) = core p"
  by (simp_all add: core_def)

lemma core_hbh: "hbh_frame p q \<Longrightarrow> core q = core p"
  by (simp add: core_def hbh_frame_select)

definition upd_in :: "scionPacketProcessor \<Rightarrow> InfoField \<Rightarrow> bool \<Rightarrow> bool" where
  "upd_in p info peer \<longleftrightarrow> \<not> ConsDir info \<and> ingressID p \<noteq> 0 \<and> \<not> peer"

text \<open>
  The current hop field was accepted: it is unexpired and authentic, names the interface the packet came
  in through, and source, destination and underlay source are plausible. \<open>s1\<close> is the path after the update
  of the segment identifier.
\<close>

definition arrives ::
  "envir \<Rightarrow> scionPacketProcessor \<Rightarrow> Raw \<Rightarrow> HopField \<Rightarrow> InfoField \<Rightarrow> bool \<Rightarrow> Raw \<Rightarrow> bool" where
  "arrives E p s hf info peer s1 \<longleftrightarrow>
     GetCurrentHopField s = Ok hf \<and> GetCurrentInfoField s = Ok info \<and> determinePeer (PathMeta s) info = Ok peer
     \<and> unexpired (timeNow E 0) info hf
     \<and> (ingressID p = 0 \<or> ingressID p = cons_ingress info hf)
     \<and> uint (PayloadLen (scionLayer p)) = int (length (Payload (scionLayer p)))
     \<and> (IsFirstHop s \<or> ingressID p \<noteq> 0
        \<or> (\<exists>i. ingressInterface (p\<lparr>hopField := hf, infoField := info, peering := peer\<rparr>) s = Ok i
             \<and> from_sibling (plane p) i (srcAddr p)))
     \<and> ia_ok (localIA (plane p)) (ingressID p) (SrcIA (scionLayer p)) (DstIA (scionLayer p)) s
     \<and> put_info (upd_in p info peer) s (UpdateSegID info (Mac hf)) = Ok s1
     \<and> authentic (macOf p) (next_info (upd_in p info peer) info hf) hf"

definition arrived ::
  "scionPacketProcessor \<Rightarrow> HopField \<Rightarrow> InfoField \<Rightarrow> bool \<Rightarrow> Raw \<Rightarrow> scionPacketProcessor \<Rightarrow> bool" where
  "arrived p hf info peer s1 p1 \<longleftrightarrow> core p1 = core p \<and> pathOf p1 = Some s1 \<and> hopField p1 = hf
     \<and> infoField p1 = next_info (upd_in p info peer) info hf \<and> peering p1 = peer \<and> effectiveXover p1 = effectiveXover p
     \<and> rawPkt p1 = (if upd_in p info peer then copy_at (pathOff p) (RawBytes s1) (rawPkt p) else rawPkt p)"

lemma process_ok:
  assumes "process E p = (q, Ret r None)" and "pathOf p = Some s"
  shows "\<exists>hf info peer s1 p1. arrives E p s hf info peer s1 \<and> arrived p hf info peer s1 p1
    \<and> (if DstIA (scionLayer p) = localIA (plane p) then processInbound E p1 = (q, Ret r None)
       else processOutbound E p1 = (q, Ret r None))"
proof -
  obtain hf info peer where a: "GetCurrentHopField s = Ok hf" "GetCurrentInfoField s = Ok info"
      "determinePeer (PathMeta s) info = Ok peer"
      "unexpired (timeNow E 0) info hf" "ingressID p = 0 \<or> ingressID p = cons_ingress info hf"
      "uint (PayloadLen (scionLayer p)) = int (length (Payload (scionLayer p)))"
      "IsFirstHop s \<or> ingressID p \<noteq> 0
        \<or> (\<exists>i. ingressInterface (p\<lparr>hopField := hf, infoField := info, peering := peer\<rparr>) s = Ok i
             \<and> from_sibling (plane p) i (srcAddr p))"
      "ia_ok (localIA (plane p)) (ingressID p) (SrcIA (scionLayer p)) (DstIA (scionLayer p)) s"
    and b: "\<exists>p1 r1 p2 r2 p3 r3. updateNonConsDirIngressSegID (p\<lparr>hopField := hf, infoField := info, peering := peer\<rparr>) = (p1, Ret r1 None)
       \<and> verifyCurrentMAC p1 = (p2, Ret r2 None) \<and> handleIngressRouterAlert p2 = (p3, Ret r3 None)
       \<and> (if DstIA (scionLayer p3) = localIA (plane p3) then processInbound E p3 else processOutbound E p3) = (q, Ret r None)"
    using assms unfolding process_def stepsThen_simps andThen_ok parsePath_ok proc_determinePeer_ok validateHopExpiry_ok
      validateIngressID_ok validatePktLen_ok validateTransitUnderlaySrc_ok validateSrcDstIA_ok
    by (elim exE conjE) simp
  from b obtain p1 where p1: "updateNonConsDirIngressSegID (p\<lparr>hopField := hf, infoField := info, peering := peer\<rparr>) = (p1, Ret zero_result None)"
      "authentic (macOf p1) (infoField p1) (hopField p1)"
      "(if DstIA (scionLayer p1) = localIA (plane p1) then processInbound E (p1\<lparr>cachedMac := FullMAC (macOf p1) (infoField p1) (hopField p1) (replicate MACBufferSize 0)\<rparr>)
        else processOutbound E (p1\<lparr>cachedMac := FullMAC (macOf p1) (infoField p1) (hopField p1) (replicate MACBufferSize 0)\<rparr>)) = (q, Ret r None)"
    by (auto simp: verifyCurrentMAC_ok handleIngressRouterAlert_ok updateNonConsDirIngressSegID_ok split del: if_split)
  obtain s1 where s1: "put_info (upd_in p info peer) s (UpdateSegID info (Mac hf)) = Ok s1" "arrived p hf info peer s1 p1"
    using p1(1) assms(2) by (auto simp: updateNonConsDirIngressSegID_ok arrived_def put_info_def upd_in_def next_info_def split: if_splits)
  define m where "m = FullMAC (macOf p1) (infoField p1) (hopField p1) (replicate MACBufferSize 0)"
  have core: "core p1 = core p" and fields: "infoField p1 = next_info (upd_in p info peer) info hf" "hopField p1 = hf"
    using s1(2) by (simp_all add: arrived_def)
  have "arrives E p s hf info peer s1"
    using a s1(1) p1(2) unfolding arrives_def fields core_select [OF core] by blast
  moreover have "arrived p hf info peer s1 (p1\<lparr>cachedMac := m\<rparr>)" using s1(2) by (simp add: arrived_def)
  moreover have "if DstIA (scionLayer p) = localIA (plane p) then processInbound E (p1\<lparr>cachedMac := m\<rparr>) = (q, Ret r None)
       else processOutbound E (p1\<lparr>cachedMac := m\<rparr>) = (q, Ret r None)"
    using p1(3) unfolding core_select [OF core] m_def by (simp split: if_splits)
  ultimately show ?thesis by blast
qed

text \<open>
  The packet leaves: if the path changes to another segment here, the first hop field of that segment was
  accepted as well. \<open>hf\<close> and \<open>info\<close> are the fields the egress interface is taken from, \<open>s2\<close> the path with the
  pointer at them, and \<open>xo\<close> tells whether the segment changed.
\<close>

definition departs ::
  "envir \<Rightarrow> scionPacketProcessor \<Rightarrow> Raw \<Rightarrow> HopField \<Rightarrow> InfoField \<Rightarrow> Raw \<Rightarrow> bool \<Rightarrow> bool" where
  "departs E p1 s1 hf info s2 xo \<longleftrightarrow>
     (if IsXover s1 \<and> \<not> peering p1
      then xo \<and> advance s1 = Ok s2 \<and> GetCurrentHopField s2 = Ok hf \<and> GetCurrentInfoField s2 = Ok info
           \<and> unexpired (timeNow E 1) info hf \<and> authentic (macOf p1) info hf
      else xo = effectiveXover p1 \<and> s2 = s1 \<and> hf = hopField p1 \<and> info = infoField p1)
     \<and> egress_ok (plane p1) (ingressID p1) xo (cons_egress info hf)
     \<and> bfd_up (plane p1) (cons_egress info hf) \<noteq> Some False"

text \<open>What is sent: over an external link with the path advanced, or unchanged to the sibling router with the link.\<close>

definition sends ::
  "envir \<Rightarrow> scionPacketProcessor \<Rightarrow> HopField \<Rightarrow> InfoField \<Rightarrow> Raw \<Rightarrow> scionPacketProcessor \<Rightarrow> processResult \<Rightarrow> bool" where
  "sends E p1 hf info s2 q r \<longleftrightarrow>
    (let e = cons_egress info hf in
     OutPkt r = Some (rawPkt q) \<and> core q = core p1
     \<and> (if external (plane p1) e \<noteq> None
        then EgressID r = e \<and> OutAddr r = None
          \<and> (\<exists>s3 s4. put_info (ConsDir info \<and> \<not> peering p1) s2 (UpdateSegID info (Mac hf)) = Ok s3
               \<and> advance s3 = Ok s4 \<and> pathOf q = Some s4)
        else EgressID r = 0 \<and> OutAddr r \<noteq> None \<and> OutAddr r = internalNextHops (plane p1) e \<and> pathOf q = Some s2))"

lemma processForward_ok:
  assumes "processForward E p = (q, Ret r None)" and "pathOf p = Some s"
  shows "sends E p (hopField p) (infoField p) s q r"
proof (cases "external (plane p) (egressInterface p)")
  case (Some c)
  define p0 where "p0 = p\<lparr>transit := ingressEgressSameRouter\<rparr>"
  obtain p1 where p1: "hbhOption E (egressInterface p) (HbhOptions (hbhLayer p)) (hbhOff p0) p0 = (p1, Ret zero_result None)"
      "processEgress p1 = (q, Ret zero_result None)"
      "r = zero_result\<lparr>EgressID := egressInterface p, OutPkt := Some (rawPkt q), TrafficType := trafficOut q\<rparr>"
    using assms(1) Some unfolding processForward_def Let_def p0_def
    by (auto simp: ok_simps processHbhOptions_def dest: hbhOption_ok)
  have fr: "hbh_frame p0 p1" using hbhOption_ok [OF p1(1)] by simp
  note sel = hbh_frame_select [OF fr]
  obtain s3 s4 where "put_info (ConsDir (infoField p) \<and> \<not> peering p) s (UpdateSegID (infoField p) (Mac (hopField p))) = Ok s3"
      "advance s3 = Ok s4" "pathOf q = Some s4"
    using p1(2) assms(2) by (auto simp: processEgress_ok sel p0_def)
  moreover have "core q = core p"
    using p1(2) core_hbh [OF fr] by (auto simp: processEgress_ok p0_def split: if_splits)
  ultimately show ?thesis
    using Some p1(3) by (simp add: sends_def egressInterface_eq zero_result_def Let_def)
next
  case None
  then obtain a where a: "internalNextHops (plane p) (egressInterface p) = Some a"
    using assms by (cases "internalNextHops (plane p) (egressInterface p)") (simp_all add: processForward_def Let_def ok_simps)
  define p0 where "p0 = p\<lparr>transit := ingressEgressDifferentRouter, nextHop := Some a\<rparr>"
  have p1: "hbhOption E (egressInterface p) (HbhOptions (hbhLayer p)) (hbhOff p0) p0 = (q, Ret zero_result None)"
      "r = zero_result\<lparr>OutAddr := Some a, OutPkt := Some (rawPkt q), TrafficType := ttInTransit\<rparr>"
    using assms(1) None a unfolding processForward_def Let_def p0_def
    by (auto simp: ok_simps processHbhOptions_def dest: hbhOption_ok)
  have fr: "hbh_frame p0 q" using hbhOption_ok [OF p1(1)] by simp
  show ?thesis
    using None a p1(2) core_hbh [OF fr] hbh_frame_select(1) [OF fr] assms(2)
    by (simp add: sends_def egressInterface_eq zero_result_def Let_def p0_def)
qed

lemma sends_core:
  assumes "core p2 = core p1" and "peering p2 = peering p1" and "sends E p2 hf info s q r"
  shows "sends E p1 hf info s q r"
  using assms(3) unfolding sends_def core_select(1) [OF assms(1)] assms(1,2) .

lemma processOutbound_ok:
  assumes "processOutbound E p1 = (q, Ret r None)" and "pathOf p1 = Some s1"
  shows "\<exists>hf info s2 xo. departs E p1 s1 hf info s2 xo \<and> sends E p1 hf info s2 q r"
proof -
  obtain p2 r2 where p2: "xover E p1 = (p2, Ret r2 None)" "egress_ok (plane p2) (ingressID p2) (effectiveXover p2) (egressInterface p2)"
      "bfd_up (plane p2) (egressInterface p2) \<noteq> Some False" "processForward E p2 = (q, Ret r None)"
    using assms(1) unfolding processOutbound_def stepsThen_simps andThen_ok validateEgressID_ok handleEgressRouterAlert_ok
      validateEgressUp_ok by blast
  obtain s2 where s2: "pathOf p2 = Some s2" "core p2 = core p1" "peering p2 = peering p1"
      "departs E p1 s1 (hopField p2) (infoField p2) s2 (effectiveXover p2)"
    using p2(1-3) assms(2)
    by (cases "IsXover s1 \<and> \<not> peering p1") (auto simp: xover_ok departs_def egressInterface_eq)
  show ?thesis using s2 sends_core [OF s2(2,3) processForward_ok [OF p2(4) s2(1)]] by blast
qed

definition delivers :: "envir \<Rightarrow> scionPacketProcessor \<Rightarrow> Raw \<Rightarrow> scionPacketProcessor \<Rightarrow> processResult \<Rightarrow> bool" where
  "delivers E p1 s1 q r \<longleftrightarrow> (\<exists>lst d res. lastLayerOf p1 = Some lst \<and> resolveLocalDst E (plane p1) (scionLayer p1) lst = (d, res)
     \<and> res \<noteq> Panic \<and> res \<noteq> Fail noSVCBackend \<and> res \<noteq> Fail invalidDstAddr
     \<and> OutAddr r = (case res of Ok a \<Rightarrow> Some a | _ \<Rightarrow> None)
     \<and> EgressID r = 0 \<and> OutPkt r = Some (rawPkt q) \<and> plane q = d \<and> pathOf q = Some s1 \<and> core (q\<lparr>plane := plane p1\<rparr>) = core p1)"

lemma processInbound_ok:
  assumes "processInbound E p1 = (q, Ret r None)" and "pathOf p1 = Some s1"
  shows "delivers E p1 s1 q r"
proof -
  obtain lst where lst: "lastLayerOf p1 = Some lst"
    using assms(1) by (cases "lastLayerOf p1") (simp_all add: processInbound_def resolveInbound_def)
  obtain d res where res: "resolveLocalDst E (plane p1) (scionLayer p1) lst = (d, res)" by (cases "resolveLocalDst E (plane p1) (scionLayer p1) lst")
  define a where "a = (case res of Ok a \<Rightarrow> Some a | _ \<Rightarrow> None)"
  define p2 where "p2 = p1\<lparr>plane := d, transit := internalTraffic, nextHop := a\<rparr>"
  have ok: "res \<noteq> Panic" "res \<noteq> Fail noSVCBackend" "res \<noteq> Fail invalidDstAddr"
      "hbhOption E 0 (HbhOptions (hbhLayer p1)) (hbhOff p2) p2 = (q, Ret zero_result None)"
      "r = zero_result\<lparr>OutAddr := a, OutPkt := Some (rawPkt q), TrafficType := ttIn\<rparr>"
    using assms(1) lst res unfolding processInbound_def resolveInbound_def a_def p2_def
    by (auto simp: ok_simps processHbhOptions_def noSVCBackend_def invalidDstAddr_def Let_def
        dest: hbhOption_ok split: result.splits if_splits)
  have fr: "hbh_frame p2 q" using hbhOption_ok [OF ok(4)] by simp
  have "core (q\<lparr>plane := plane p1\<rparr>) = core p1" using core_hbh [OF fr] by (simp add: core_def p2_def)
  then show ?thesis
    unfolding delivers_def using lst res ok hbh_frame_select [OF fr] assms(2)
    by (auto simp: zero_result_def p2_def a_def)
qed

section \<open>Packets with a SCION or EPIC path\<close>

fun raw_path :: "SCION \<Rightarrow> Raw option" where
  "raw_path s = (case SPath s of Some (ScionRawPath r) \<Rightarrow> Some r | Some (EpicPath e) \<Rightarrow> EpicScionPath e | _ \<Rightarrow> None)"

declare raw_path.simps [simp del]

definition path_start :: "SCION \<Rightarrow> nat" where
  "path_start s = nat (CmnHdrLen + AddrHdrLen s) + (case SPath s of Some (EpicPath e) \<Rightarrow> MetadataLen | _ \<Rightarrow> 0)"

text \<open>The processor after the headers were decoded.\<close>

definition decoded :: "bytes \<Rightarrow> UDPAddr \<Rightarrow> u16 \<Rightarrow> SCION \<Rightarrow> scionPacketProcessor \<Rightarrow> scionPacketProcessor \<Rightarrow> bool" where
  "decoded raw src ingress scn p p0 \<longleftrightarrow> plane p0 = plane p \<and> ingressID p0 = ingress \<and> rawPkt p0 = raw \<and> srcAddr p0 = src
     \<and> macOf p0 = macOf p \<and> scionLayer p0 = scn \<and> effectiveXover p0 = False \<and> lastLayerOf p0 \<noteq> None
     \<and> idOpt p0 = None \<and> fabridOpt p0 = None
     \<and> (HbhOptions (hbhLayer p0) = [] \<or> scionNextLayerType (NextHdr scn) = LayerTypeHopByHopExtn
          \<and> HopByHopExtn_DecodeFromBytes (Payload scn) = Ok (hbhLayer p0))"

lemma decodeLayers_cases:
  assumes "decodeLayers g p = Ok p0"
  obtains scn h e l where "SCION_DecodeFromBytes g (scionLayer p) (rawPkt p) = Ok scn"
    "p0 = p\<lparr>scionLayer := scn, hbhLayer := h, e2eLayer := e, lastLayerOf := Some l\<rparr>"
    "h = hbhLayer p \<or> scionNextLayerType (NextHdr scn) = LayerTypeHopByHopExtn \<and> HopByHopExtn_DecodeFromBytes (Payload scn) = Ok h"
proof -
  obtain scn where scn: "SCION_DecodeFromBytes g (scionLayer p) (rawPkt p) = Ok scn"
    using assms by (auto simp: decodeLayers_def bindR_eq_Ok)
  obtain h l1 where h: "(if scionNextLayerType (NextHdr scn) = LayerTypeHopByHopExtn
      then bindR (HopByHopExtn_DecodeFromBytes (Payload scn)) (\<lambda>h. Ok (p\<lparr>scionLayer := scn, hbhLayer := h\<rparr>, HbhLayer h))
      else Ok (p\<lparr>scionLayer := scn\<rparr>, ScionLayer scn)) = Ok (p\<lparr>scionLayer := scn, hbhLayer := h\<rparr>, l1)"
    and e: "bindR (if NextLayerType l1 = LayerTypeEndToEndExtn
            then bindR (EndToEndExtnSkipper_DecodeFromBytes (LayerPayload l1)) (\<lambda>e. Ok (p\<lparr>scionLayer := scn, hbhLayer := h, e2eLayer := e\<rparr>, E2eLayer e))
            else Ok (p\<lparr>scionLayer := scn, hbhLayer := h\<rparr>, l1)) (\<lambda>(p, last). Ok (p\<lparr>lastLayerOf := Some last\<rparr>)) = Ok p0"
  proof (cases "scionNextLayerType (NextHdr scn) = LayerTypeHopByHopExtn")
    case True
    then obtain h where "HopByHopExtn_DecodeFromBytes (Payload scn) = Ok h"
      using assms scn by (auto simp: decodeLayers_def bindR_eq_Ok)
    with True assms scn show thesis by (intro that [of h "HbhLayer h"]) (simp_all add: decodeLayers_def Let_def)
  next
    case False
    with assms scn show thesis
      by (intro that [of "hbhLayer p" "ScionLayer scn"]) (simp_all add: decodeLayers_def Let_def split: if_splits)
  qed
  have h': "h = hbhLayer p \<or> scionNextLayerType (NextHdr scn) = LayerTypeHopByHopExtn \<and> HopByHopExtn_DecodeFromBytes (Payload scn) = Ok h"
  proof (cases "scionNextLayerType (NextHdr scn) = LayerTypeHopByHopExtn")
    case True
    with h show ?thesis by (auto simp: bindR_eq_Ok dest: arg_cong [where f = hbhLayer])
  next
    case False
    with h have "p\<lparr>scionLayer := scn\<rparr> = p\<lparr>scionLayer := scn, hbhLayer := h\<rparr>" by simp
    from arg_cong [where f = hbhLayer, OF this] show ?thesis by simp
  qed
  show thesis
  proof (cases "NextLayerType l1 = LayerTypeEndToEndExtn")
    case True
    then obtain ex where "EndToEndExtnSkipper_DecodeFromBytes (LayerPayload l1) = Ok ex" using e by (auto simp: bindR_eq_Ok)
    with True e show thesis by (intro that [OF scn _ h', where e = ex and l = "E2eLayer ex"]) simp
  next
    case False
    with e show thesis by (intro that [OF scn _ h', where e = "e2eLayer p" and l = l1]) simp
  qed
qed

lemma decodeLayers_ok:
  assumes "decodeLayers g ((reset p)\<lparr>rawPkt := raw, srcAddr := src, ingressID := ingress\<rparr>) = Ok p0"
  shows "\<exists>scn. SCION_DecodeFromBytes g (scionLayer p) raw = Ok scn \<and> decoded raw src ingress scn p p0"
  by (rule decodeLayers_cases [OF assms]) (auto simp: decoded_def reset_def extnBase.extend_def)

lemma deliverBFD_no_packet:
  "deliverBFD b i p = (q, Ret r None) \<Longrightarrow> OutPkt r = None"
  by (cases "bfdSessions (plane p) i"; cases "bfdPool (plane p) ! the (bfdSessions (plane p) i)")
    (auto simp: deliverBFD_def failWith_def skip_def zero_result_def split: option.splits result.splits)

lemma processBFD_no_packet:
  "processInterBFD E d p = (q, Ret r None) \<Longrightarrow> OutPkt r = None" "processIntraBFD E d p = (q, Ret r None) \<Longrightarrow> OutPkt r = None"
  by (auto simp: processInterBFD_def processIntraBFD_def ok_simps dest: deliverBFD_no_packet)

lemma verifyEPIC_ok:
  "verifyEPIC E epic l p = (q, Ret r None) \<longleftrightarrow> (\<exists>s info. pathOf p = Some s \<and> GetInfoField s 0 = Ok info
     \<and> VerifyTimestamp (SecsToTime (Timestamp info)) (PktTimestamp (EpicPktID epic)) (timeNow E 2) = Ok ()
     \<and> VerifyHVF (aesOf E) (cachedMac p) (EpicPktID epic) (Some (scionLayer p)) (Timestamp info)
         (if l then LHVF epic else PHVF epic) (replicate epic_MACBufferSize 0) = Ok ()
     \<and> q = p \<and> r = zero_result)"
  by (auto simp: verifyEPIC_def ok_simps)

text \<open>The state \<open>process\<close> starts from.\<close>

definition start_of :: "scionPacketProcessor \<Rightarrow> Raw \<Rightarrow> scionPacketProcessor" where
  "start_of p0 s = p0\<lparr>pathOf := Some s, pathOff := path_start (scionLayer p0)\<rparr>"

lemma processEPIC_ok:
  assumes "processEPIC E p0 = (q, Ret r None)" and "SPath (scionLayer p0) = Some (EpicPath epic)" and "EpicScionPath epic = Some s"
  shows "process E (start_of p0 s) = (q, Ret r None) \<and> (IsPenultimateHop s \<or> IsLastHop s \<longrightarrow> verifyEPIC E epic (IsLastHop s) q = (q, Ret zero_result None))"
proof -
  have start: "p0\<lparr>pathOf := Some s, pathOff := nat (CmnHdrLen + AddrHdrLen (scionLayer p0)) + MetadataLen\<rparr> = start_of p0 s"
    using assms(2) by (simp add: start_of_def path_start_def)
  obtain q0 x where x: "process E (start_of p0 s) = (q0, x)" by (cases "process E (start_of p0 s)")
  then obtain r0 where r0: "x = Ret r0 None" "if IsPenultimateHop s \<or> IsLastHop s
      then andThen (verifyEPIC E epic (IsLastHop s)) (ret r0) q0 = (q, Ret r None) else ret r0 q0 = (q, Ret r None)"
    using assms unfolding processEPIC_def by (auto simp: start split: outcome.splits option.splits if_splits)
  then show ?thesis using x by (auto simp: andThen_ok ret_ok verifyEPIC_ok split: if_splits)
qed

lemma dispatch_ok:
  assumes "dispatch E lst p0 = (q, Ret r None)" and "OutPkt r \<noteq> None" and "raw_path (scionLayer p0) = Some s"
  shows "process E (start_of p0 s) = (q, Ret r None)"
    and "SPath (scionLayer p0) = Some (EpicPath epic) \<Longrightarrow> IsPenultimateHop s \<or> IsLastHop s
      \<Longrightarrow> verifyEPIC E epic (IsLastHop s) q = (q, Ret zero_result None)"
proof -
  consider "SPath (scionLayer p0) = Some (ScionRawPath s)" | e where "SPath (scionLayer p0) = Some (EpicPath e)" "EpicScionPath e = Some s"
    using assms(3) by (auto simp: raw_path.simps split: option.splits Path.splits)
  then have "process E (start_of p0 s) = (q, Ret r None)
      \<and> (SPath (scionLayer p0) = Some (EpicPath epic) \<and> (IsPenultimateHop s \<or> IsLastHop s)
         \<longrightarrow> verifyEPIC E epic (IsLastHop s) q = (q, Ret zero_result None))"
  proof cases
    case 1
    then have "processSCION E p0 = (q, Ret r None)"
      using assms(1,2) processBFD_no_packet
      by (auto simp: dispatch_def Let_def ok_simps processOHP_def processEPIC_def split: if_splits)
    then show ?thesis using 1 by (simp add: processSCION_def start_of_def path_start_def)
  next
    case 2
    then have "processEPIC E p0 = (q, Ret r None)"
      using assms(1,2) processBFD_no_packet
      by (auto simp: dispatch_def Let_def ok_simps processOHP_def processSCION_def split: if_splits)
    from processEPIC_ok [OF this 2] show ?thesis using 2(1) by auto
  qed
  then show "process E (start_of p0 s) = (q, Ret r None)"
    and "SPath (scionLayer p0) = Some (EpicPath epic) \<Longrightarrow> IsPenultimateHop s \<or> IsLastHop s
      \<Longrightarrow> verifyEPIC E epic (IsLastHop s) q = (q, Ret zero_result None)" by blast+
qed

lemma forwarded_ok:
  assumes "processPkt E raw src ingress p = (q, Ret r None)" and "OutPkt r \<noteq> None"
    and "SCION_DecodeFromBytes (pathRegistry E) (scionLayer p) raw = Ok scn" and "raw_path scn = Some s"
  obtains p0 hf info peer s1 p1 where "decoded raw src ingress scn p p0" "process E (start_of p0 s) = (q, Ret r None)"
    "arrives E (start_of p0 s) s hf info peer s1" "arrived (start_of p0 s) hf info peer s1 p1"
    "DstIA scn = localIA (plane p) \<Longrightarrow> delivers E p1 s1 q r"
    "DstIA scn \<noteq> localIA (plane p) \<Longrightarrow> \<exists>hf' info' s2 xo. departs E p1 s1 hf' info' s2 xo \<and> sends E p1 hf' info' s2 q r"
proof -
  define pin where "pin = (reset p)\<lparr>rawPkt := raw, srcAddr := src, ingressID := ingress\<rparr>"
  obtain p0 lst where p0: "decodeLayers (pathRegistry E) pin = Ok p0" "dispatch E lst p0 = (q, Ret r None)"
    using assms(1) unfolding processPkt_def Let_def pin_def
    by (auto simp: ok_simps split: result.splits option.splits)
  have dec: "decoded raw src ingress scn p p0" using decodeLayers_ok [OF p0(1) [unfolded pin_def]] assms(3) by simp
  then have sel: "scionLayer p0 = scn" "plane p0 = plane p" by (simp_all add: decoded_def)
  have pr: "process E (start_of p0 s) = (q, Ret r None)"
    using dispatch_ok(1) [OF p0(2) assms(2)] assms(4) sel by simp
  obtain hf info peer s1 p1 where "arrives E (start_of p0 s) s hf info peer s1" and arr: "arrived (start_of p0 s) hf info peer s1 p1"
      and cont: "if DstIA scn = localIA (plane p) then processInbound E p1 = (q, Ret r None) else processOutbound E p1 = (q, Ret r None)"
    using process_ok [OF pr, of s] sel by (auto simp: start_of_def)
  moreover have "pathOf p1 = Some s1" using arr by (simp add: arrived_def)
  ultimately show thesis
    using processInbound_ok [of E p1 q r s1] processOutbound_ok [of E p1 q r s1] by (intro that [OF dec pr]) (auto split: if_splits)
qed

lemma put_info_base:
  "put_info b s info = Ok s1 \<Longrightarrow> \<exists>raw. s1 = s\<lparr>RawBytes := raw\<rparr>"
  by (cases s) (auto simp: put_info_def SetInfoField_def bindR_eq_Ok Let_def split: if_splits)

lemma put_info_meta:
  assumes "put_info b s info = Ok s1"
  shows "IsXover s1 = IsXover s" "PathMeta s1 = PathMeta s" "NumINF s1 = NumINF s" "NumHops s1 = NumHops s"
  using put_info_base [OF assms] by (auto simp: IsXover_def infIndexForHF_def)

lemma next_info_ConsDir [simp]: "ConsDir (next_info b info hf) = ConsDir info"
  by (simp add: next_info_def UpdateSegID_def)

text \<open>The fields the egress interface is taken from.\<close>

lemma departs_fields:
  assumes "departs E p1 s1 hf' info' s2 xo" and "arrived p hf info peer s1 p1"
  shows "if IsXover s1 \<and> \<not> peer
    then xo \<and> advance s1 = Ok s2 \<and> GetCurrentHopField s2 = Ok hf' \<and> GetCurrentInfoField s2 = Ok info'
    else xo = effectiveXover p \<and> hf' = hf \<and> ConsDir info' = ConsDir info"
  using assms by (auto simp: departs_def arrived_def)

section \<open>Guarantees for forwarded packets\<close>

text \<open>C1: the router sends a packet on only if its hop field is authentic under the key of the AS and not expired, and, for a
  packet that came in over an external link, names the interface of that link as the one the packet comes in on. The MAC
  covers the segment identifier as it was when the hop field was created, so for a packet that travels
  against the construction direction and comes from outside it is checked after the identifier was updated. Where
  the packet changes to another segment, the first hop field of that segment is authentic and not expired as well.\<close>

theorem forwarded_authentic:
  assumes "processPkt E raw src ingress p = (q, Ret r None)" and "OutPkt r \<noteq> None"
    and "SCION_DecodeFromBytes (pathRegistry E) (scionLayer p) raw = Ok scn" and "raw_path scn = Some s"
  shows "\<exists>hf info peer s1. GetCurrentHopField s = Ok hf \<and> GetCurrentInfoField s = Ok info
    \<and> determinePeer (PathMeta s) info = Ok peer
    \<and> unexpired (timeNow E 0) info hf
    \<and> (ingress = 0 \<or> ingress = (if ConsDir info then ConsIngress hf else ConsEgress hf))
    \<and> (let upd = \<not> ConsDir info \<and> ingress \<noteq> 0 \<and> \<not> peer in
        put_info upd s (UpdateSegID info (Mac hf)) = Ok s1
        \<and> authentic (macOf p) (next_info upd info hf) hf)
    \<and> (DstIA scn \<noteq> localIA (plane p) \<and> IsXover s \<and> \<not> peer \<longrightarrow>
        (\<exists>s2 hf2 info2. advance s1 = Ok s2 \<and> GetCurrentHopField s2 = Ok hf2 \<and> GetCurrentInfoField s2 = Ok info2
          \<and> unexpired (timeNow E 1) info2 hf2 \<and> authentic (macOf p) info2 hf2))"
  using assms
proof (rule forwarded_ok)
  fix p0 hf info peer s1 p1
  assume dec: "decoded raw src ingress scn p p0" and arr: "arrives E (start_of p0 s) s hf info peer s1"
    and arrd: "arrived (start_of p0 s) hf info peer s1 p1"
    and out: "DstIA scn \<noteq> localIA (plane p) \<Longrightarrow> \<exists>hf' info' s2 xo. departs E p1 s1 hf' info' s2 xo \<and> sends E p1 hf' info' s2 q r"
  have sel: "macOf (start_of p0 s) = macOf p" "ingressID (start_of p0 s) = ingress"
    using dec by (simp_all add: decoded_def start_of_def)
  have "core p1 = core (start_of p0 s)" and peer: "peering p1 = peer" using arrd by (simp_all add: arrived_def)
  then have mac: "macOf p1 = macOf p" using sel(1) by (simp add: core_def)
  have upd: "upd_in (start_of p0 s) info peer = (\<not> ConsDir info \<and> ingress \<noteq> 0 \<and> \<not> peer)" by (simp add: upd_in_def sel)
  have s1: "put_info (\<not> ConsDir info \<and> ingress \<noteq> 0 \<and> \<not> peer) s (UpdateSegID info (Mac hf)) = Ok s1"
    using arr unfolding arrives_def upd by blast
  have "\<exists>s2 hf2 info2. advance s1 = Ok s2 \<and> GetCurrentHopField s2 = Ok hf2 \<and> GetCurrentInfoField s2 = Ok info2
          \<and> unexpired (timeNow E 1) info2 hf2 \<and> authentic (macOf p) info2 hf2"
    if "DstIA scn \<noteq> localIA (plane p)" "IsXover s" "\<not> peer"
    using out [OF that(1)] that(2,3) put_info_meta(1) [OF s1] unfolding departs_def mac peer by auto
  then show ?thesis
    using arr s1 unfolding arrives_def sel upd Let_def cons_ingress_def by blast
qed

text \<open>C2: the router sends a packet out of its AS only through the egress interface of its current hop field, the one the
  direction of the segment selects, or, where the path changes to another segment at this hop (and not over a peering
  link), of the first hop field of that segment. The interface is one it knows whose BFD session is not down, reached
  directly or through the sibling router that has it, and the packet passes only between links that may be joined:
  within a segment core to core, child to parent, parent to child, and between a child and a peering link; at
  a change of segment between core and child or child and child, so that no customer or peer carries transit traffic.
  A packet for this AS stays inside.\<close>

theorem forwarded_egress:
  assumes "processPkt E raw src ingress p = (q, Ret r None)" and "OutPkt r \<noteq> None"
    and "SCION_DecodeFromBytes (pathRegistry E) (scionLayer p) raw = Ok scn" and "raw_path scn = Some s"
  shows "if DstIA scn = localIA (plane p) then EgressID r = 0
    else \<exists>hf info peer s1 hf' info' xo e. GetCurrentHopField s = Ok hf \<and> GetCurrentInfoField s = Ok info
      \<and> determinePeer (PathMeta s) info = Ok peer
      \<and> put_info (\<not> ConsDir info \<and> ingress \<noteq> 0 \<and> \<not> peer) s (UpdateSegID info (Mac hf)) = Ok s1
      \<and> xo = (IsXover s \<and> \<not> peer)
      \<and> (if xo then \<exists>s2. advance s1 = Ok s2 \<and> GetCurrentHopField s2 = Ok hf' \<and> GetCurrentInfoField s2 = Ok info'
         else hf' = hf \<and> info' = info)
      \<and> e = (if ConsDir info' then ConsEgress hf' else ConsIngress hf')
      \<and> egress_ok (plane p) ingress xo e \<and> bfd_up (plane p) e \<noteq> Some False
      \<and> (if external (plane p) e \<noteq> None then EgressID r = e \<and> OutAddr r = None
         else EgressID r = 0 \<and> OutAddr r = internalNextHops (plane p) e \<and> OutAddr r \<noteq> None)"
  using assms
proof (rule forwarded_ok)
  fix p0 hf info peer s1 p1
  assume dec: "decoded raw src ingress scn p p0" and arr: "arrives E (start_of p0 s) s hf info peer s1"
    and arrd: "arrived (start_of p0 s) hf info peer s1 p1"
    and inb: "DstIA scn = localIA (plane p) \<Longrightarrow> delivers E p1 s1 q r"
    and out: "DstIA scn \<noteq> localIA (plane p) \<Longrightarrow> \<exists>hf' info' s2 xo. departs E p1 s1 hf' info' s2 xo \<and> sends E p1 hf' info' s2 q r"
  have "core p1 = core (start_of p0 s)" using arrd by (simp add: arrived_def)
  then have sel: "plane p1 = plane p" "ingressID p1 = ingress" "ingressID (start_of p0 s) = ingress"
    using dec by (simp_all add: core_def decoded_def start_of_def)
  show ?thesis
  proof (cases "DstIA scn = localIA (plane p)")
    case True
    then show ?thesis using inb by (auto simp: delivers_def)
  next
    case False
    from out [OF False] obtain hf' info' s2 xo where d: "departs E p1 s1 hf' info' s2 xo" "sends E p1 hf' info' s2 q r" by blast
    have fields: "GetCurrentHopField s = Ok hf" "GetCurrentInfoField s = Ok info" "determinePeer (PathMeta s) info = Ok peer"
        and s1: "put_info (\<not> ConsDir info \<and> ingress \<noteq> 0 \<and> \<not> peer) s (UpdateSegID info (Mac hf)) = Ok s1"
      using arr unfolding arrives_def upd_in_def sel by blast+
    define info'' where "info'' = (if IsXover s \<and> \<not> peer then info' else info)"
    have cross: "xo = (IsXover s \<and> \<not> peer)" "if xo then \<exists>s2. advance s1 = Ok s2 \<and> GetCurrentHopField s2 = Ok hf' \<and> GetCurrentInfoField s2 = Ok info''
         else hf' = hf \<and> info'' = info" and egr: "cons_egress info' hf' = (if ConsDir info'' then ConsEgress hf' else ConsIngress hf')"
      using departs_fields [OF d(1) arrd] dec put_info_meta(1) [OF s1]
      by (auto simp: info''_def cons_egress_def decoded_def start_of_def)
    have "egress_ok (plane p) ingress xo (cons_egress info' hf')" "bfd_up (plane p) (cons_egress info' hf') \<noteq> Some False"
      using d(1) unfolding departs_def sel by simp_all
    moreover have "if external (plane p) (cons_egress info' hf') \<noteq> None then EgressID r = cons_egress info' hf' \<and> OutAddr r = None
         else EgressID r = 0 \<and> OutAddr r = internalNextHops (plane p) (cons_egress info' hf') \<and> OutAddr r \<noteq> None"
      using d(2) unfolding sends_def sel Let_def by (auto split: if_splits)
    ultimately show ?thesis using False fields s1 cross egr by (simp only: if_False) blast
  qed
qed

text \<open>C5: whose packets pass. A packet from inside is forwarded only if it is at its first hop with the local AS as
  its source, or comes from the sibling router that has its ingress interface, which is the one of its hop field or,
  right after a change of segment, of the hop field before it; it is never for the local AS. A packet
  from outside names the interface it came in through, does not claim to be from the local AS, and is for the local AS
  exactly if it is at its last hop. The length of its payload is the one its header gives.\<close>

theorem forwarded_source_checked:
  assumes "processPkt E raw src ingress p = (q, Ret r None)" and "OutPkt r \<noteq> None"
    and "SCION_DecodeFromBytes (pathRegistry E) (scionLayer p) raw = Ok scn" and "raw_path scn = Some s"
  shows "uint (PayloadLen scn) = int (length (Payload scn)) \<and> (\<exists>hf info. GetCurrentHopField s = Ok hf \<and> GetCurrentInfoField s = Ok info
    \<and> (if ingress = 0
       then DstIA scn \<noteq> localIA (plane p)
         \<and> (if IsFirstHop s then SrcIA scn = localIA (plane p) else \<exists>peer info' hf'. determinePeer (PathMeta s) info = Ok peer
              \<and> (if \<not> peer \<and> IsFirstHopAfterXover s
                 then GetInfoField s (uint (CurrINF (PathMeta s)) - 1) = Ok info' \<and> GetHopField s (uint (CurrHF (PathMeta s)) - 1) = Ok hf'
                 else info' = info \<and> hf' = hf)
              \<and> from_sibling (plane p) (if ConsDir info' then ConsIngress hf' else ConsEgress hf') src)
       else ingress = cons_ingress info hf \<and> SrcIA scn \<noteq> localIA (plane p)
         \<and> (IsLastHop s \<longleftrightarrow> DstIA scn = localIA (plane p))))"
  using assms
proof (rule forwarded_ok)
  fix p0 hf info peer s1 p1
  assume dec: "decoded raw src ingress scn p p0" and arr: "arrives E (start_of p0 s) s hf info peer s1"
  have sel: "plane (start_of p0 s) = plane p" "ingressID (start_of p0 s) = ingress" "srcAddr (start_of p0 s) = src"
      "scionLayer (start_of p0 s) = scn"
    using dec by (simp_all add: decoded_def start_of_def)
  have sib: "\<exists>info' hf'. (if \<not> peer \<and> IsFirstHopAfterXover s
                 then GetInfoField s (uint (CurrINF (PathMeta s)) - 1) = Ok info' \<and> GetHopField s (uint (CurrHF (PathMeta s)) - 1) = Ok hf'
                 else info' = info \<and> hf' = hf)
              \<and> from_sibling (plane p) (if ConsDir info' then ConsIngress hf' else ConsEgress hf') src"
    if "ingress = 0" "\<not> IsFirstHop s"
    using arr that unfolding arrives_def sel ingressInterface_ok scionPacketProcessor.select_convs by fastforce
  show ?thesis
    using arr sib unfolding arrives_def sel ia_ok_def by (cases "ingress = 0"; cases "IsFirstHop s") auto
qed

section \<open>A packet on its way\<close>

text \<open>A packet at the second of three hops, from a parent link to a child link.\<close>

definition sample_packet :: bytes where
  "sample_packet =
     [0, 0, 0, 1, 17, 21, 0, 8, 1, 0, 0, 0] @ put_u64 0x0001000000000003 @ put_u64 0x0001000000000001
     @ [10, 0, 0, 3] @ [10, 0, 0, 1]
     @ [1, 0, 0x30, 0] @ [1, 0, 0, 7, 0, 0, 0, 0]
     @ [0, 63, 0, 0, 0, 1, 0, 0, 0, 0, 0, 0] @ [0, 63, 0, 2, 0, 3, 0, 0, 0, 0, 0, 0] @ [0, 63, 0, 4, 0, 0, 0, 0, 0, 0, 0, 0]
     @ [0, 80, 0, 81, 0, 8, 0, 0]"

definition sample_envir :: envir where
  "sample_envir = \<lparr>aesOf = \<lambda>_ _. replicate 16 0, hostText = \<lambda>_. [], parseHost = \<lambda>_. Ok HostNone, intn = \<lambda>_. 0,
     bfdDecode = \<lambda>_. Fail emptyValue, scmpLayers = \<lambda>_ _. [], scionLayers = \<lambda>_. [], freshBytes = \<lambda>n. replicate n 0,
     rangeOrder = [], timeNow = \<lambda>_. 0, pathRegistry = registry_zero\<rparr>"

definition sample_plane :: DataPlane where
  "sample_plane = empty_plane\<lparr>external := [2 \<mapsto> 0, 3 \<mapsto> 1], linkTypes := [2 \<mapsto> Parent, 3 \<mapsto> Child], localIA := 0x0001000000000002,
     macFactory := Some (\<lambda>_. replicate 16 0)\<rparr>"

definition sample_processor :: scionPacketProcessor where
  "sample_processor = (case newPacketProcessor sample_plane of Ok p \<Rightarrow> p)"

definition sample_src :: UDPAddr where "sample_src = \<lparr>UIP = [10, 0, 0, 9], UPort = 5, UZone = []\<rparr>"

definition sample_out :: bytes where "sample_out = sample_packet[36 := 2]"

definition sample_result :: processResult where
  "sample_result = zero_result\<lparr>EgressID := 3, OutPkt := Some sample_out, TrafficType := ttBrTransit\<rparr>"

definition sample_route :: Raw where
  "sample_route = \<lparr>PathMeta = \<lparr>CurrINF = 0, CurrHF = 1, SegLen = [3, 0, 0]\<rparr>, NumINF = 1, NumHops = 3,
     RawBytes = take 48 (drop 36 sample_packet)\<rparr>"

lemma sample_forward_snd:
  "snd (processPkt sample_envir sample_packet sample_src 2 sample_processor) = Ret sample_result None"
  by code_simp

lemma sample_forward:
  "processPkt sample_envir sample_packet sample_src 2 sample_processor
     = (fst (processPkt sample_envir sample_packet sample_src 2 sample_processor), Ret sample_result None)"
  using sample_forward_snd by (metis prod.collapse)

lemma sample_decode_path:
  "mapR (\<lambda>s. (raw_path s, DstIA s, SrcIA s)) (SCION_DecodeFromBytes (pathRegistry sample_envir) (scionLayer sample_processor) sample_packet)
     = Ok (Some sample_route, 0x0001000000000003, 0x0001000000000001)"
  by code_simp

lemma sample_decode:
  "\<exists>scn. SCION_DecodeFromBytes (pathRegistry sample_envir) (scionLayer sample_processor) sample_packet = Ok scn
     \<and> raw_path scn = Some sample_route \<and> DstIA scn = 0x0001000000000003 \<and> SrcIA scn = 0x0001000000000001"
  using sample_decode_path by (auto simp: mapR_eq_Ok)

lemma sample_OutPkt: "OutPkt sample_result \<noteq> None"
  by (simp add: sample_result_def)

lemma sample_sel: "plane sample_processor = sample_plane" "localIA sample_plane = 0x0001000000000002"
  by (simp_all add: sample_processor_def newPacketProcessor_def sample_plane_def)

theorem forwarded_authentic_witness:
  "\<exists>hf info. GetCurrentHopField sample_route = Ok hf \<and> GetCurrentInfoField sample_route = Ok info
     \<and> unexpired (timeNow sample_envir 0) info hf \<and> (if ConsDir info then ConsIngress hf else ConsEgress hf) = 2"
proof -
  obtain scn where scn: "SCION_DecodeFromBytes (pathRegistry sample_envir) (scionLayer sample_processor) sample_packet = Ok scn"
    "raw_path scn = Some sample_route" using sample_decode by blast
  have "(2 :: u16) \<noteq> 0" by simp
  then show ?thesis using forwarded_authentic [OF sample_forward sample_OutPkt scn] by metis
qed

theorem forwarded_egress_witness:
  "EgressID sample_result = 3 \<and> egress_ok sample_plane 2 False 3
     \<and> (\<exists>hf info. GetCurrentHopField sample_route = Ok hf \<and> GetCurrentInfoField sample_route = Ok info
          \<and> (if ConsDir info then ConsEgress hf else ConsIngress hf) = 3)"
proof -
  obtain scn where scn: "SCION_DecodeFromBytes (pathRegistry sample_envir) (scionLayer sample_processor) sample_packet = Ok scn"
    "raw_path scn = Some sample_route" "DstIA scn = 0x0001000000000003" using sample_decode by blast
  have e: "EgressID sample_result = 3" "\<not> IsXover sample_route" by (simp add: sample_result_def) code_simp
  from forwarded_egress [OF sample_forward sample_OutPkt scn(1,2)] scn(3) e show ?thesis
    by (auto simp: sample_sel split: if_splits)
qed

theorem forwarded_source_checked_witness:
  "\<exists>hf info. GetCurrentHopField sample_route = Ok hf \<and> GetCurrentInfoField sample_route = Ok info
     \<and> cons_ingress info hf = 2 \<and> \<not> IsLastHop sample_route"
proof -
  obtain scn where scn: "SCION_DecodeFromBytes (pathRegistry sample_envir) (scionLayer sample_processor) sample_packet = Ok scn"
    "raw_path scn = Some sample_route" "DstIA scn = 0x0001000000000003" using sample_decode by blast
  from forwarded_source_checked [OF sample_forward sample_OutPkt scn(1,2)] scn(3) show ?thesis
    by (auto simp: sample_sel)
qed

end
