(* ===== verification/ForwardPath.thy ===== *)
theory ForwardPath
  imports Forwarding
begin

text \<open>
  What forwarding does to the bytes of a packet. The path of a decoded packet lies at a known place in its
  bytes; every step of the processor keeps it there and writes nowhere else, apart from the hop-by-hop
  options. On the decoded form of the path a router moves the pointer and updates segment identifiers
  (\<open>forward_path\<close>), and the bytes that leave refine that.
\<close>

unbundle bit_operations_syntax

section \<open>Where the path lies in the packet\<close>

lemma SCION_Decode_path:
  assumes "SCION_DecodeFromBytes g s data = Ok t"
  shows "\<exists>q path. SPath t = Some path \<and> Payload t = drop (4 * unat (HdrLen t)) data
    \<and> Path_DecodeFromBytes q (take (4 * unat (HdrLen t) - nat (CmnHdrLen + AddrHdrLen t)) (drop (nat (CmnHdrLen + AddrHdrLen t)) data)) = Ok path
    \<and> nat (CmnHdrLen + AddrHdrLen t) \<le> 4 * unat (HdrLen t) \<and> 4 * unat (HdrLen t) \<le> length data"
proof -
  obtain s2 q pb path c where *: "0 \<le> uint (HdrLen s2) * LineLen - CmnHdrLen - AddrHdrLen s2"
      "CmnHdrLen + AddrHdrLen s2 + (uint (HdrLen s2) * LineLen - CmnHdrLen - AddrHdrLen s2) \<le> int (length data)"
      "sliceI data (CmnHdrLen + AddrHdrLen s2) (CmnHdrLen + AddrHdrLen s2 + (uint (HdrLen s2) * LineLen - CmnHdrLen - AddrHdrLen s2)) = Ok pb"
      "Path_DecodeFromBytes q pb = Ok path"
      "t = s2\<lparr>SPath := Some path, Contents := c, Payload := drop (nat (uint (HdrLen s2) * LineLen)) data\<rparr>"
    using assms by (auto simp: SCION_DecodeFromBytes_def bindR_eq_Ok Let_def not_less split: if_splits)
  have t: "AddrHdrLen t = AddrHdrLen s2" "HdrLen t = HdrLen s2" using *(5) by (simp_all add: AddrHdrLen_def)
  have pos: "0 \<le> CmnHdrLen + AddrHdrLen s2" using AddrHdrLen_bounds [of s2] by (simp add: CmnHdrLen_def)
  have n: "nat (uint (HdrLen s2) * LineLen) = 4 * unat (HdrLen s2)" by (simp add: LineLen_def nat_mult_distrib)
  have le: "nat (CmnHdrLen + AddrHdrLen s2) \<le> 4 * unat (HdrLen s2)" "4 * unat (HdrLen s2) \<le> length data"
    using *(1,2) pos unfolding n [symmetric] by linarith+
  have "pb = take (4 * unat (HdrLen t) - nat (CmnHdrLen + AddrHdrLen t)) (drop (nat (CmnHdrLen + AddrHdrLen t)) data)"
    using *(3) pos le unfolding t n [symmetric] by (simp add: sliceI_def slice_def nat_diff_distrib' split: if_splits)
  then show ?thesis using *(4,5) le unfolding t n [symmetric] by auto
qed

definition path_lies :: "bytes \<Rightarrow> nat \<Rightarrow> Raw \<Rightarrow> bool" where
  "path_lies raw off s \<longleftrightarrow> off + length (RawBytes s) \<le> length raw \<and> take (length (RawBytes s)) (drop off raw) = RawBytes s"

lemma raw_prefix:
  assumes "Raw_DecodeFromBytes b = Ok s"
  shows "wf_raw s" "length (RawBytes s) \<le> length b" "take (length (RawBytes s)) b = RawBytes s"
  using assms Raw_DecodeFromBytes_wf [OF assms] by (auto simp: Raw_DecodeFromBytes_iff nat_le_iff min_def)

lemma decoded_path_lies:
  assumes "SCION_DecodeFromBytes g s0 raw = Ok scn" and "raw_path scn = Some s"
  shows "wf_raw s \<and> in_sync s \<and> path_lies raw (path_start scn) s \<and> path_start scn + length (RawBytes s) \<le> 4 * unat (HdrLen scn)
    \<and> Payload scn = drop (4 * unat (HdrLen scn)) raw \<and> 4 * unat (HdrLen scn) \<le> length raw"
proof -
  define off where "off = nat (CmnHdrLen + AddrHdrLen scn)"
  define n where "n = 4 * unat (HdrLen scn)"
  obtain q path where d: "SPath scn = Some path" "Path_DecodeFromBytes q (take (n - off) (drop off raw)) = Ok path"
      "Payload scn = drop n raw" "off \<le> n" "n \<le> length raw"
    using SCION_Decode_path [OF assms(1)] unfolding off_def n_def by blast
  have lies: "path_lies raw (off + k) s \<and> off + k + length (RawBytes s) \<le> n \<and> wf_raw s \<and> in_sync s"
    if "Raw_DecodeFromBytes (drop k (take (n - off) (drop off raw))) = Ok s" "k \<le> n - off" for k
  proof -
    note pre = raw_prefix [OF that(1)]
    have len: "off + k + length (RawBytes s) \<le> n" using pre(2) d(4,5) that(2) by simp
    have "take (length (RawBytes s)) (drop (off + k) raw)
        = take (length (RawBytes s)) (drop k (take (n - off) (drop off raw)))"
      using len by (simp add: drop_take take_take min_def add.commute)
    then show ?thesis using pre(1,3) len d(5) Raw_DecodeFromBytes_sync [OF that(1)] by (simp add: path_lies_def)
  qed
  consider "SPath scn = Some (ScionRawPath s)" | e where "SPath scn = Some (EpicPath e)" "EpicScionPath e = Some s"
    using assms(2) by (auto simp: raw_path.simps split: option.splits Path.splits)
  then have "path_lies raw (path_start scn) s \<and> path_start scn + length (RawBytes s) \<le> n \<and> wf_raw s \<and> in_sync s"
  proof cases
    case 1
    then have "Raw_DecodeFromBytes (take (n - off) (drop off raw)) = Ok s"
      using d by (cases q) (auto simp: mapR_eq_Ok)
    then show ?thesis using lies [of 0] 1 by (simp add: path_start_def off_def)
  next
    case 2
    then have "epic_DecodeFromBytes (take (n - off) (drop off raw)) = Ok e"
      using d by (cases q) (auto simp: mapR_eq_Ok)
    then have "Raw_DecodeFromBytes (drop MetadataLen (take (n - off) (drop off raw))) = Ok s" "MetadataLen \<le> n - off"
      using 2(2) d(4,5) by (auto simp: epic_DecodeFromBytes_def bindR_eq_Ok split: if_splits)
    then show ?thesis using lies [of MetadataLen] 2 by (simp add: path_start_def off_def)
  qed
  then show ?thesis using d by (simp add: n_def)
qed

section \<open>Forwarding on decoded paths\<close>

text \<open>What the router does to the path, on its decoded form.\<close>

definition cur_hop :: "Decoded \<Rightarrow> HopField" where "cur_hop d = HopFields d ! unat (CurrHF (PathMeta d))"
definition cur_info :: "Decoded \<Rightarrow> InfoField" where "cur_info d = InfoFields d ! unat (CurrINF (PathMeta d))"

definition chain_segid :: "bool \<Rightarrow> Decoded \<Rightarrow> Decoded" where
  "chain_segid b d = (if b then d\<lparr>InfoFields := (InfoFields d)[unat (CurrINF (PathMeta d)) := UpdateSegID (cur_info d) (Mac (cur_hop d))]\<rparr>
     else d)"

definition forward_path :: "u16 \<Rightarrow> bool \<Rightarrow> bool \<Rightarrow> Decoded \<Rightarrow> Decoded" where
  "forward_path ingress peer ext d =
    (let d1 = chain_segid (\<not> ConsDir (cur_info d) \<and> ingress \<noteq> 0 \<and> \<not> peer) d;
         d2 = (if IsXover d1 \<and> \<not> peer then fst (Base_IncPath d1) else d1)
     in if ext then fst (Base_IncPath (chain_segid (ConsDir (cur_info d2) \<and> \<not> peer) d2)) else d2)"

lemma unat_less_nat: "uint (w :: 'a::len word) < n \<Longrightarrow> unat w < nat n"
  by (subst unat_eq_nat_uint, subst nat_less_eq_zless) simp_all

lemma int_unat_word: "int (unat (w :: 'a::len word)) = uint w"
  by simp

lemma current_refines:
  assumes "refines s d"
  shows "GetCurrentHopField s = Ok hf \<Longrightarrow> hf = cur_hop d" "GetCurrentInfoField s = Ok info \<Longrightarrow> info = cur_info d"
proof -
  note base = refines_Base [OF assms]
  show "hf = cur_hop d" if "GetCurrentHopField s = Ok hf"
  proof -
    have "unat (CurrHF (PathMeta s)) < nat (NumHops s)"
      using that by (intro unat_less_nat) (auto simp: GetCurrentHopField_def GetHopField_def split: if_splits)
    from GetHopField_refines [OF assms this, unfolded int_unat_word] that base show ?thesis by (simp add: GetCurrentHopField_def cur_hop_def)
  qed
  show "info = cur_info d" if "GetCurrentInfoField s = Ok info"
  proof -
    have "unat (CurrINF (PathMeta s)) < nat (NumINF s)"
      using that by (intro unat_less_nat) (auto simp: GetCurrentInfoField_def GetInfoField_def split: if_splits)
    from GetInfoField_refines [OF assms this, unfolded int_unat_word] that base show ?thesis by (simp add: GetCurrentInfoField_def cur_info_def)
  qed
qed

lemma put_info_refines:
  assumes "refines s d" and "put_info b s (UpdateSegID info (Mac hf)) = Ok s1" and "hf = cur_hop d" and "info = cur_info d"
  shows "refines s1 (chain_segid b d)"
proof (cases b)
  case True
  have "unat (CurrINF (PathMeta s)) < nat (NumINF s)"
    using assms(2) True by (intro unat_less_nat) (auto simp: put_info_def SetInfoField_def split: if_splits)
  from SetInfoField_refines [OF assms(1) this, of "UpdateSegID info (Mac hf)", unfolded int_unat_word]
  obtain r' where "SetInfoField s (UpdateSegID info (Mac hf)) (uint (CurrINF (PathMeta s))) = Ok r'"
      "refines r' (d\<lparr>InfoFields := (InfoFields d)[unat (CurrINF (PathMeta s)) := UpdateSegID info (Mac hf)]\<rparr>)" by blast
  then show ?thesis using assms(2-4) True refines_Base [OF assms(1)] by (simp add: put_info_def chain_segid_def)
next
  case False
  then show ?thesis using assms(1,2) by (simp add: put_info_def chain_segid_def)
qed

lemma advance_refines:
  "refines s d \<Longrightarrow> advance s = Ok s' \<Longrightarrow> refines s' (fst (Base_IncPath d)) \<and> snd (Base_IncPath d) = Ok ()"
  using Raw_IncPath_refines [of s d] by (auto simp: advance_def mapR_eq_Ok)

text \<open>The pointer in the buffer follows.\<close>

lemma put_info_sync:
  assumes "wf_raw s" and "in_sync s" and "put_info b s info = Ok s1"
  shows "in_sync s1"
proof (cases b)
  case True
  then have "SetInfoField s info (uint (CurrINF (PathMeta s))) = Ok s1" using assms(3) by (simp add: put_info_def)
  from SetInfoField_sync [OF assms(2,1) this] show ?thesis by simp
qed (use assms in \<open>simp add: put_info_def\<close>)

lemma advance_sync: "wf_raw s \<Longrightarrow> advance s = Ok s1 \<Longrightarrow> in_sync s1"
  using Raw_IncPath_sync [of s] by (auto simp: advance_def mapR_eq_Ok)

lemma IsXover_refines: "refines s d \<Longrightarrow> IsXover s = IsXover d"
  using refines_Base [of s d] by (simp add: IsXover_def infIndexForHF_def)


text \<open>The path that leaves refines the decoded path moved forward.\<close>

lemma arrives_refines:
  assumes "arrives E p s hf info peer s1" and "refines s d"
  shows "hf = cur_hop d" "info = cur_info d" "determinePeer (PathMeta d) (cur_info d) = Ok peer"
    "refines s1 (chain_segid (\<not> ConsDir (cur_info d) \<and> ingressID p \<noteq> 0 \<and> \<not> peer) d)"
proof -
  show hf: "hf = cur_hop d" and info: "info = cur_info d"
    using assms current_refines [OF assms(2)] by (auto simp: arrives_def)
  show "determinePeer (PathMeta d) (cur_info d) = Ok peer"
    using assms(1) refines_Base [OF assms(2)] info by (simp add: arrives_def)
  have "put_info (\<not> ConsDir (cur_info d) \<and> ingressID p \<noteq> 0 \<and> \<not> peer) s (UpdateSegID info (Mac hf)) = Ok s1"
    using assms(1) info by (simp add: arrives_def upd_in_def)
  from put_info_refines [OF assms(2) this hf info]
  show "refines s1 (chain_segid (\<not> ConsDir (cur_info d) \<and> ingressID p \<noteq> 0 \<and> \<not> peer) d)" .
qed

lemma chain_segid_select [simp]:
  "cur_hop (chain_segid b d) = cur_hop d" "PathMeta (chain_segid b d) = PathMeta d" "HopFields (chain_segid b d) = HopFields d"
  "NumHops (chain_segid b d) = NumHops d" "NumINF (chain_segid b d) = NumINF d"
  by (simp_all add: chain_segid_def cur_hop_def)

lemma cur_info_chain_segid:
  "unat (CurrINF (PathMeta d)) < length (InfoFields d) \<Longrightarrow> cur_info (chain_segid b d) = next_info b (cur_info d) (cur_hop d)"
  by (simp add: chain_segid_def cur_info_def cur_hop_def next_info_def)

lemma departs_refines:
  assumes dep: "departs E p1 s1 hf info s2 xo" and send: "sends E p1 hf info s2 q r" and ref: "refines s1 d1"
    and hop: "hopField p1 = cur_hop d1" "infoField p1 = cur_info d1"
  shows "\<exists>s'. pathOf q = Some s' \<and> refines s'
    (let d2 = (if IsXover d1 \<and> \<not> peering p1 then fst (Base_IncPath d1) else d1)
     in if OutAddr r = None then fst (Base_IncPath (chain_segid (ConsDir (cur_info d2) \<and> \<not> peering p1) d2)) else d2)"
proof -
  define d2 where "d2 = (if IsXover d1 \<and> \<not> peering p1 then fst (Base_IncPath d1) else d1)"
  have d2: "refines s2 d2" "hf = cur_hop d2" "info = cur_info d2"
  proof -
    show r2: "refines s2 d2"
      using dep ref advance_refines [OF ref, of s2] IsXover_refines [OF ref]
      by (auto simp: departs_def d2_def split: if_splits)
    show "hf = cur_hop d2" "info = cur_info d2"
      using dep hop current_refines [OF r2] IsXover_refines [OF ref]
      by (auto simp: departs_def d2_def split: if_splits)
  qed
  show ?thesis
  proof (cases "external (plane p1) (cons_egress info hf)")
    case None
    then show ?thesis using send d2(1) by (auto simp: sends_def Let_def simp flip: d2_def)
  next
    case (Some c)
    then obtain s3 s4 where s4: "put_info (ConsDir info \<and> \<not> peering p1) s2 (UpdateSegID info (Mac hf)) = Ok s3"
        "advance s3 = Ok s4" "pathOf q = Some s4" "OutAddr r = None"
      using send by (auto simp: sends_def Let_def)
    from put_info_refines [OF d2(1) s4(1) d2(2,3)] have "refines s3 (chain_segid (ConsDir info \<and> \<not> peering p1) d2)" .
    from advance_refines [OF this s4(2)] s4(3,4) show ?thesis using d2(3) by (simp flip: d2_def)
  qed
qed


section \<open>Steps that keep an invariant\<close>

definition keeps :: "(scionPacketProcessor \<Rightarrow> bool) \<Rightarrow> step \<Rightarrow> (scionPacketProcessor \<Rightarrow> bool) \<Rightarrow> bool" where
  "keeps I f J \<longleftrightarrow> (\<forall>p q r. I p \<longrightarrow> f p = (q, Ret r None) \<longrightarrow> J q)"

lemma keepsI: "(\<And>p q r. I p \<Longrightarrow> f p = (q, Ret r None) \<Longrightarrow> J q) \<Longrightarrow> keeps I f J"
  by (auto simp: keeps_def)

lemma keepsD: "keeps I f J \<Longrightarrow> I p \<Longrightarrow> f p = (q, Ret r None) \<Longrightarrow> J q"
  by (auto simp: keeps_def)

lemma keeps_andThen: "keeps I f J \<Longrightarrow> keeps J g K \<Longrightarrow> keeps I (andThen f g) K"
  by (auto simp: keeps_def andThen_ok)

lemma keeps_stepsThen: "list_all (\<lambda>f. keeps I f I) fs \<Longrightarrow> keeps I g K \<Longrightarrow> keeps I (stepsThen fs g) K"
  by (induction fs) (auto intro: keeps_andThen)

text \<open>
  The layout relative to the start \<open>p0\<close> of processing and its packet \<open>raw\<close>: the path, of constant length
  \<open>n\<close>, lies at its place, and outside of it and of the hop-by-hop options nothing has changed.
\<close>

definition hbh_opts :: "scionPacketProcessor \<Rightarrow> tlvOption list" where "hbh_opts p = HbhOptions (hbhLayer p)"

definition outside :: "scionPacketProcessor \<Rightarrow> nat \<Rightarrow> bytes \<Rightarrow> bool" where
  "outside p0 n b \<longleftrightarrow> length b = length (rawPkt p0) \<and> take (pathOff p0) b = take (pathOff p0) (rawPkt p0)
     \<and> take (hbhOff p0 - (pathOff p0 + n)) (drop (pathOff p0 + n) b)
         = take (hbhOff p0 - (pathOff p0 + n)) (drop (pathOff p0 + n) (rawPkt p0))
     \<and> drop (hbhOff p0 + opts_len (hbh_opts p0)) b = drop (hbhOff p0 + opts_len (hbh_opts p0)) (rawPkt p0)
     \<and> (OptTypeFabrid \<notin> OptType ` set (hbh_opts p0) \<longrightarrow> drop (pathOff p0 + n) b = drop (pathOff p0 + n) (rawPkt p0))"

definition start_ok :: "scionPacketProcessor \<Rightarrow> nat \<Rightarrow> bool" where
  "start_ok p0 n \<longleftrightarrow> pathOff p0 + n + 2 \<le> hbhOff p0 \<and> pathOff p0 + n \<le> length (rawPkt p0)
     \<and> (hbh_opts p0 = [] \<or> opts_fit (hbh_opts p0) (hbhOff p0) (length (rawPkt p0)))"

definition laid :: "scionPacketProcessor \<Rightarrow> nat \<Rightarrow> scionPacketProcessor \<Rightarrow> bool" where
  "laid p0 n p \<longleftrightarrow> outside p0 n (rawPkt p)
     \<and> (\<exists>s. pathOf p = Some s \<and> wf_raw s \<and> length (RawBytes s) = n \<and> path_lies (rawPkt p) (pathOff p0) s)"

definition lay :: "scionPacketProcessor \<Rightarrow> nat \<Rightarrow> scionPacketProcessor \<Rightarrow> bool" where
  "lay p0 n p \<longleftrightarrow> core p = core p0 \<and> start_ok p0 n \<and> laid p0 n p"

lemma lay_update [simp]:
  "lay p0 n (p\<lparr>hopField := hf\<rparr>) = lay p0 n p" "lay p0 n (p\<lparr>infoField := i\<rparr>) = lay p0 n p" "lay p0 n (p\<lparr>peering := b\<rparr>) = lay p0 n p"
  "lay p0 n (p\<lparr>effectiveXover := b\<rparr>) = lay p0 n p" "lay p0 n (p\<lparr>cachedMac := m\<rparr>) = lay p0 n p" "lay p0 n (p\<lparr>transit := t\<rparr>) = lay p0 n p"
  "lay p0 n (p\<lparr>nextHop := a\<rparr>) = lay p0 n p"
  by (simp_all add: lay_def laid_def)

lemma outside_write:
  assumes "outside p0 n b" and "start_ok p0 n" and "length x = n"
  shows "outside p0 n (copy_at (pathOff p0) x b)"
proof -
  have len: "pathOff p0 + n \<le> length b" using assms(1,2) by (simp add: outside_def start_ok_def)
  have "drop k (copy_at (pathOff p0) x b) = drop k b" if "pathOff p0 + n \<le> k" for k
    using that len assms(3) by (intro drop_copy_at_after) simp_all
  then show ?thesis
    using assms len unfolding outside_def start_ok_def by simp
qed

lemma lay_setPath:
  assumes "lay p0 n p" and "wf_raw s" and "length (RawBytes s) = n"
  shows "lay p0 n (setPath s p)"
proof -
  have off: "pathOff p = pathOff p0" using assms(1) core_select(6) [of p p0] by (simp add: lay_def)
  have o: "outside p0 n (rawPkt p)" "start_ok p0 n" using assms(1) by (simp_all add: lay_def laid_def)
  have "path_lies (copy_at (pathOff p0) (RawBytes s) (rawPkt p)) (pathOff p0) s"
    using o assms(3) by (auto simp: path_lies_def outside_def start_ok_def)
  then show ?thesis
    using assms outside_write [OF o assms(3)] by (simp add: lay_def laid_def off)
qed


lemma put_info_wf:
  assumes "wf_raw s" and "put_info b s (UpdateSegID info m) = Ok s1"
  shows "wf_raw s1" "length (RawBytes s1) = length (RawBytes s)"
proof -
  obtain d where d: "refines s d" using wf_raw_refines_Decoded [OF assms(1)] by blast
  have "wf_raw s1"
  proof (cases b)
    case True
    then have "unat (CurrINF (PathMeta s)) < nat (NumINF s)"
      using assms(2) by (intro unat_less_nat) (auto simp: put_info_def SetInfoField_def split: if_splits)
    from SetInfoField_refines [OF d this, of "UpdateSegID info m", unfolded int_unat_word] assms(2) True
    show ?thesis by (auto simp: put_info_def refines_def)
  next
    case False
    then show ?thesis using assms by (simp add: put_info_def)
  qed
  then show "wf_raw s1" .
  then show "length (RawBytes s1) = length (RawBytes s)"
    using assms(1) put_info_meta [OF assms(2)] by (simp add: wf_raw_length)
qed

lemma advance_wf:
  assumes "wf_raw s" and "advance s = Ok s'"
  shows "wf_raw s'" "length (RawBytes s') = length (RawBytes s)"
    "uint (CurrHF (PathMeta s')) < NumHops s'" "NumHops s' = NumHops s" "NumINF s' = NumINF s"
proof -
  obtain d where d: "refines s d" using wf_raw_refines_Decoded [OF assms(1)] by blast
  note ref = advance_refines [OF d assms(2)]
  have base: "NumHops s' = NumHops (fst (Base_IncPath d))" "NumINF s' = NumINF (fst (Base_IncPath d))"
      "PathMeta s' = PathMeta (fst (Base_IncPath d))" "NumHops d = NumHops s" "NumINF d = NumINF s"
    using refines_Base [of s' "fst (Base_IncPath d)"] refines_Base [OF d] ref by simp_all
  show n: "NumHops s' = NumHops s" "NumINF s' = NumINF s" using base by simp_all
  show "wf_raw s'" using ref by (simp add: refines_def)
  then show "length (RawBytes s') = length (RawBytes s)" using assms(1) n by (simp add: wf_raw_length)
  have b: "NumHops d \<le> 64" using base(4) wf_base_bounds(4) [of s] assms(1) by (simp add: wf_raw_def)
  have "uint (CurrHF (PathMeta (fst (Base_IncPath d)))) < NumHops d"
    using ref b by (auto simp: Base_IncPath_def Let_def uint_u8_plus1 split: if_splits)
  then show "uint (CurrHF (PathMeta s')) < NumHops s'" using base by simp
qed

lemma lay_pathOf: "lay p0 n p \<Longrightarrow> pathOf p = Some s \<Longrightarrow> wf_raw s \<and> length (RawBytes s) = n"
  by (auto simp: lay_def laid_def)

named_theorems keeps_intros \<open>steps that keep the layout of the packet\<close>

lemma keeps_checks [keeps_intros]:
  "keeps (lay p0 n) parsePath (lay p0 n)" "keeps (lay p0 n) proc_determinePeer (lay p0 n)"
  "keeps (lay p0 n) (validateHopExpiry E k) (lay p0 n)" "keeps (lay p0 n) validateIngressID (lay p0 n)"
  "keeps (lay p0 n) validatePktLen (lay p0 n)" "keeps (lay p0 n) validateTransitUnderlaySrc (lay p0 n)"
  "keeps (lay p0 n) validateSrcDstIA (lay p0 n)" "keeps (lay p0 n) verifyCurrentMAC (lay p0 n)"
  "keeps (lay p0 n) handleIngressRouterAlert (lay p0 n)" "keeps (lay p0 n) handleEgressRouterAlert (lay p0 n)"
  "keeps (lay p0 n) validateEgressID (lay p0 n)" "keeps (lay p0 n) validateEgressUp (lay p0 n)"
  by (auto simp: keeps_def parsePath_ok proc_determinePeer_ok validateHopExpiry_ok validateIngressID_ok validatePktLen_ok
      validateTransitUnderlaySrc_ok validateSrcDstIA_ok verifyCurrentMAC_ok handleIngressRouterAlert_ok
      handleEgressRouterAlert_ok validateEgressID_ok validateEgressUp_ok)

lemma lay_put_info:
  "lay p0 n p \<Longrightarrow> pathOf p = Some s \<Longrightarrow> put_info b s (UpdateSegID info m) = Ok s1 \<Longrightarrow> lay p0 n (setPath s1 p)"
  using lay_pathOf put_info_wf by (intro lay_setPath) metis+

lemma lay_advance:
  "lay p0 n p \<Longrightarrow> pathOf p = Some s \<Longrightarrow> advance s = Ok s1 \<Longrightarrow> lay p0 n (setPath s1 p)"
  using lay_pathOf advance_wf by (intro lay_setPath) metis+

lemma keeps_segid [keeps_intros]: "keeps (lay p0 n) updateNonConsDirIngressSegID (lay p0 n)"
proof (rule keepsI)
  fix p q r assume lay: "lay p0 n p" and ok: "updateNonConsDirIngressSegID p = (q, Ret r None)"
  from ok obtain s where s: "pathOf p = Some s" by (auto simp: updateNonConsDirIngressSegID_ok)
  define p' where "p' = p\<lparr>infoField := UpdateSegID (infoField p) (Mac (hopField p))\<rparr>"
  have l': "lay p0 n p'" "pathOf p' = Some s" using lay s by (simp_all add: p'_def)
  have "q = p \<or> (\<exists>s'. put_info True s (UpdateSegID (infoField p) (Mac (hopField p))) = Ok s' \<and> q = setPath s' p')"
    using ok s by (auto simp: updateNonConsDirIngressSegID_ok put_info_def p'_def split: if_splits)
  then show "lay p0 n q" using lay lay_put_info [OF l'] by auto
qed

lemma keeps_egress [keeps_intros]: "keeps (lay p0 n) processEgress (lay p0 n)"
proof (rule keepsI)
  fix p q r assume lay: "lay p0 n p" and ok: "processEgress p = (q, Ret r None)"
  define b where "b = (ConsDir (infoField p) \<and> \<not> peering p)"
  obtain s s1 s2 where s: "pathOf p = Some s" "put_info b s (UpdateSegID (infoField p) (Mac (hopField p))) = Ok s1"
      "advance s1 = Ok s2" "q = setPath s2 (if b then setPath s1 (p\<lparr>infoField := UpdateSegID (infoField p) (Mac (hopField p))\<rparr>) else p)"
    using ok unfolding processEgress_ok b_def by blast
  show "lay p0 n q"
  proof (cases b)
    case True
    have "lay p0 n (setPath s1 (p\<lparr>infoField := UpdateSegID (infoField p) (Mac (hopField p))\<rparr>))"
      using lay s(1) by (intro lay_put_info [OF _ _ s(2)]) simp_all
    from lay_advance [OF this _ s(3)] show ?thesis using s(4) True by simp
  next
    case False
    then show ?thesis using s lay_advance [OF lay s(1), of s2] by (simp add: put_info_def)
  qed
qed

lemma keeps_xover [keeps_intros]: "keeps (lay p0 n) (xover E) (lay p0 n)"
proof (rule keepsI)
  fix p q r assume lay: "lay p0 n p" and ok: "xover E p = (q, Ret r None)"
  obtain s where s: "pathOf p = Some s" using ok by (auto simp: xover_ok)
  show "lay p0 n q"
  proof (cases "IsXover s \<and> \<not> peering p")
    case True
    then obtain s' hf info m where "advance s = Ok s'"
        "q = setPath s' (p\<lparr>effectiveXover := True\<rparr>)\<lparr>hopField := hf, infoField := info, cachedMac := m\<rparr>"
      using ok s by (auto simp: xover_ok)
    moreover from this have "lay p0 n (setPath s' (p\<lparr>effectiveXover := True\<rparr>))"
      using lay s by (intro lay_advance) simp_all
    ultimately show ?thesis by simp
  next
    case False
    then show ?thesis using ok s lay by (auto simp: xover_ok)
  qed
qed


lemma take_drop_eq: "take h x = take h y \<Longrightarrow> k + m \<le> h \<Longrightarrow> take m (drop k x) = take m (drop k y)"
proof -
  assume eq: "take h x = take h y" and le: "k + m \<le> h"
  have "take m (drop k z) = drop k (take (k + m) z)" for z :: "'a list" by (simp add: take_drop add.commute)
  then show ?thesis using take_eq_le [OF eq le] by simp
qed

lemma hbh_laid:
  assumes "laid p0 n p" and ok: "start_ok p0 n" and "hbh_opts p = hbh_opts p0" and "hbhOff p = hbhOff p0"
    and "processHbhOptions E e p = (q, Ret r None)"
  shows "laid p0 n q"
proof (cases "hbh_opts p0 = []")
  case True
  then show ?thesis using assms by (simp add: processHbhOptions_def hbh_opts_def skip_ok)
next
  case False
  have o: "outside p0 n (rawPkt p)" using assms(1) by (simp add: laid_def)
  have run: "hbhOption E e (hbh_opts p0) (hbhOff p0) p = (q, Ret r None)"
    using assms(3-5) by (simp add: processHbhOptions_def hbh_opts_def)
  have "opts_fit (hbh_opts p0) (hbhOff p0) (length (rawPkt p))" using ok False o by (simp add: start_ok_def outside_def)
  note b = hbhOption_bytes [OF run this]
  have off: "pathOff p0 + n \<le> hbhOff p0" using ok by (simp add: start_ok_def)
  have pre: "take (hbhOff p0) (rawPkt q) = take (hbhOff p0) (rawPkt p)" using b by blast
  have "outside p0 n (rawPkt q)"
    using o b take_eq_le [OF pre, of "pathOff p0"] take_drop_eq [OF pre, of "pathOff p0 + n" "hbhOff p0 - (pathOff p0 + n)"] off
    by (simp add: outside_def)
  moreover have "pathOf q = pathOf p" using hbhOption_ok [OF run] hbh_frame_select(1) by blast
  moreover have "path_lies (rawPkt q) (pathOff p0) s" if "path_lies (rawPkt p) (pathOff p0) s" "length (RawBytes s) = n" for s
    using that b take_drop_eq [OF pre, of "pathOff p0" n] off by (simp add: path_lies_def)
  ultimately show ?thesis using assms(1) by (auto simp: laid_def)
qed

lemma core_hbhOff: "core p = core p0 \<Longrightarrow> hbh_opts p = hbh_opts p0 \<and> hbhOff p = hbhOff p0"
  by (simp add: hbh_opts_def hbhOff_def core_select [of p p0])

lemma keeps_hbh [keeps_intros]: "keeps (lay p0 n) (processHbhOptions E e) (lay p0 n)"
proof (rule keepsI)
  fix p q r assume lay: "lay p0 n p" and run: "processHbhOptions E e p = (q, Ret r None)"
  then have "laid p0 n q" using core_hbhOff [of p p0] by (intro hbh_laid [OF _ _ _ _ run]) (simp_all add: lay_def)
  moreover have "core q = core p" using run hbhOption_ok core_hbh unfolding processHbhOptions_def by blast
  ultimately show "lay p0 n q" using lay by (simp add: lay_def)
qed

text \<open>The end of processing: the bytes sent are those of the processor.\<close>

lemma keeps_forward:
  assumes "lay p0 n p" and "processForward E p = (q, Ret r None)"
  shows "lay p0 n q"
proof -
  have "keeps (lay p0 n) (\<lambda>p. ret (f p) p) (lay p0 n)" for f by (auto simp: keeps_def ret_ok)
  then have ext: "keeps (lay p0 n) (stepsThen [processHbhOptions E e, processEgress] (\<lambda>p. ret (f p) p)) (lay p0 n)"
    and int: "keeps (lay p0 n) (andThen (processHbhOptions E e) (\<lambda>p. ret (f p) p)) (lay p0 n)" for f e
    by (auto intro!: keeps_stepsThen keeps_andThen keeps_intros)
  show ?thesis
  proof (cases "external (plane p) (egressInterface p)")
    case (Some c)
    have "lay p0 n (p\<lparr>transit := ingressEgressSameRouter\<rparr>)" using assms(1) by simp
    from keepsD [OF ext this] assms(2) Some show ?thesis unfolding processForward_def Let_def by fastforce
  next
    case None
    then obtain a where a: "internalNextHops (plane p) (egressInterface p) = Some a"
      using assms by (cases "internalNextHops (plane p) (egressInterface p)") (simp_all add: processForward_def Let_def ok_simps)
    have "lay p0 n (p\<lparr>transit := ingressEgressDifferentRouter, nextHop := Some a\<rparr>)" using assms(1) by simp
    from keepsD [OF int this] assms(2) None a show ?thesis unfolding processForward_def Let_def by fastforce
  qed
qed

lemma process_laid:
  assumes "lay p0 n p" and "process E p = (q, Ret r None)"
  shows "laid p0 n q"
proof -
  have out: "keeps (lay p0 n) (processOutbound E) (laid p0 n)"
  proof -
    have "keeps (lay p0 n) (processForward E) (laid p0 n)" by (intro keepsI) (use keeps_forward lay_def in blast)
    then show ?thesis unfolding processOutbound_def by (intro keeps_stepsThen) (simp_all add: keeps_intros)
  qed
  have inb: "keeps (lay p0 n) (processInbound E) (laid p0 n)"
  proof (rule keepsI)
    fix p q r assume lay: "lay p0 n p" and run: "processInbound E p = (q, Ret r None)"
    obtain lst where lst: "lastLayerOf p = Some lst"
      using run by (cases "lastLayerOf p") (simp_all add: processInbound_def resolveInbound_def)
    obtain d a where da: "processHbhOptions E 0 (p\<lparr>plane := d, transit := internalTraffic, nextHop := a\<rparr>) = (q, Ret zero_result None)"
      using run lst unfolding processInbound_def resolveInbound_def processHbhOptions_def
      by (auto simp: ok_simps Let_def dest: hbhOption_ok split: result.splits if_splits prod.splits)
    show "laid p0 n q"
      by (rule hbh_laid [OF _ _ _ _ da])
        (use lay core_hbhOff [of p p0] in \<open>simp_all add: lay_def laid_def hbh_opts_def hbhOff_def\<close>)
  qed
  have "keeps (lay p0 n) (\<lambda>p. if DstIA (scionLayer p) = localIA (plane p) then processInbound E p else processOutbound E p) (laid p0 n)"
    using keepsD [OF out] keepsD [OF inb] by (intro keepsI) (auto split: if_splits)
  then have "keeps (lay p0 n) (process E) (laid p0 n)"
    unfolding process_def by (intro keeps_stepsThen) (simp_all add: keeps_intros)
  from keepsD [OF this assms] show ?thesis .
qed

section \<open>The packet that leaves\<close>

lemma hbh_decode_fit:
  assumes "HopByHopExtn_DecodeFromBytes (drop k raw) = Ok h" and "k \<le> length raw"
  shows "opts_fit (HbhOptions h) (k + 2) (length raw)"
proof -
  obtain e d opts where e: "decodeExtnBase (drop k raw) = Ok e" "slice (drop k raw) 2 (ActualLen e) = Ok d"
      "decodeTLVOptions d = Ok opts" "h = extnBase.extend e \<lparr>HbhOptions = opts\<rparr>"
    using assms(1) by (auto simp: HopByHopExtn_DecodeFromBytes_def bindR_eq_Ok)
  have "k + 2 + length d \<le> length raw" using e(2) assms(2) by (auto simp: slice_Ok_iff)
  then show ?thesis using decodeTLVOptions_fit [OF e(3)] e(4) by (simp add: extnBase.extend_def)
qed

lemma start_lay:
  assumes dec: "decoded raw src ingress scn p p0" and scn: "SCION_DecodeFromBytes g s0 raw = Ok scn" and s: "raw_path scn = Some s"
  shows "lay (start_of p0 s) (length (RawBytes s)) (start_of p0 s)"
proof -
  note lies = decoded_path_lies [OF scn s]
  have sel: "scionLayer p0 = scn" "rawPkt p0 = raw" using dec by (simp_all add: decoded_def)
  have "hbh_opts (start_of p0 s) = [] \<or> opts_fit (hbh_opts (start_of p0 s)) (hbhOff (start_of p0 s)) (length (rawPkt (start_of p0 s)))"
    using dec hbh_decode_fit [of "4 * unat (HdrLen scn)" raw "hbhLayer p0"] lies
    by (auto simp: decoded_def hbh_opts_def start_of_def hbhOff_def mult.commute)
  then show ?thesis
    using lies by (simp add: lay_def laid_def start_ok_def outside_def start_of_def sel hbhOff_def path_lies_def mult.commute)
qed

lemma laid_bytes:
  assumes "decoded raw src ingress scn p p0" and "laid (start_of p0 s) n q" and "path_start scn + n \<le> 4 * unat (HdrLen scn)"
  shows "length (rawPkt q) = length raw" "take (path_start scn) (rawPkt q) = take (path_start scn) raw"
    "take (4 * unat (HdrLen scn) - (path_start scn + n)) (drop (path_start scn + n) (rawPkt q))
       = take (4 * unat (HdrLen scn) - (path_start scn + n)) (drop (path_start scn + n) raw)"
    "NextHdr scn \<noteq> HopByHopClass \<Longrightarrow> drop (path_start scn + n) (rawPkt q) = drop (path_start scn + n) raw"
    "\<And>s'. pathOf q = Some s' \<Longrightarrow> path_lies (rawPkt q) (path_start scn) s'"
proof -
  have sel: "pathOff (start_of p0 s) = path_start scn" "rawPkt (start_of p0 s) = raw" "hbhOff (start_of p0 s) = 4 * unat (HdrLen scn) + 2"
      "hbh_opts (start_of p0 s) = HbhOptions (hbhLayer p0)"
    using assms(1) by (simp_all add: decoded_def start_of_def hbhOff_def hbh_opts_def)
  have o: "outside (start_of p0 s) n (rawPkt q)" using assms(2) by (simp add: laid_def)
  show "length (rawPkt q) = length raw" "take (path_start scn) (rawPkt q) = take (path_start scn) raw"
    using o by (simp_all add: outside_def sel)
  have "take (4 * unat (HdrLen scn) + 2 - (path_start scn + n)) (drop (path_start scn + n) (rawPkt q))
      = take (4 * unat (HdrLen scn) + 2 - (path_start scn + n)) (drop (path_start scn + n) raw)"
    using o unfolding outside_def sel by blast
  then show "take (4 * unat (HdrLen scn) - (path_start scn + n)) (drop (path_start scn + n) (rawPkt q))
       = take (4 * unat (HdrLen scn) - (path_start scn + n)) (drop (path_start scn + n) raw)"
    by (rule take_eq_le) simp
  show "drop (path_start scn + n) (rawPkt q) = drop (path_start scn + n) raw" if "NextHdr scn \<noteq> HopByHopClass"
  proof -
    have "scionNextLayerType (NextHdr scn) \<noteq> LayerTypeHopByHopExtn"
      using that by (simp add: scionNextLayerType_def scionNextLayerTypeL4_def)
    then have "HbhOptions (hbhLayer p0) = []" using assms(1) by (simp add: decoded_def)
    then show ?thesis using o by (simp add: outside_def sel)
  qed
  show "path_lies (rawPkt q) (path_start scn) s'" if "pathOf q = Some s'" for s'
    using assms(2) that by (auto simp: laid_def sel)
qed


text \<open>The path the router makes of a decoded path, for a packet to this AS and for one that leaves it.\<close>

definition routed_path :: "bool \<Rightarrow> u16 \<Rightarrow> bool \<Rightarrow> bool \<Rightarrow> Decoded \<Rightarrow> Decoded" where
  "routed_path inbound ingress peer ext d =
    (if inbound then chain_segid (\<not> ConsDir (cur_info d) \<and> ingress \<noteq> 0 \<and> \<not> peer) d else forward_path ingress peer ext d)"

lemma routed_refines:
  assumes "decoded raw src ingress scn p p0" and arr: "arrives E (start_of p0 s) s hf info peer s1"
    and arrd: "arrived (start_of p0 s) hf info peer s1 p1"
    and "DstIA scn = localIA (plane p) \<Longrightarrow> delivers E p1 s1 q r"
    and "DstIA scn \<noteq> localIA (plane p) \<Longrightarrow> \<exists>hf' info' s2 xo. departs E p1 s1 hf' info' s2 xo \<and> sends E p1 hf' info' s2 q r"
    and ref: "refines s d"
  shows "\<exists>s'. pathOf q = Some s' \<and> refines s' (routed_path (DstIA scn = localIA (plane p)) ingress peer (OutAddr r = None) d)"
proof -
  have ing: "ingressID (start_of p0 s) = ingress" using assms(1) by (simp add: decoded_def start_of_def)
  note a = arrives_refines [OF arr ref, unfolded ing]
  define d1 where "d1 = chain_segid (\<not> ConsDir (cur_info d) \<and> ingress \<noteq> 0 \<and> \<not> peer) d"
  have r1: "refines s1 d1" using a(4) by (simp add: d1_def)
  have "unat (CurrINF (PathMeta d)) < length (InfoFields d)"
  proof -
    have "unat (CurrINF (PathMeta s)) < nat (NumINF s)"
      using arr by (intro unat_less_nat) (auto simp: arrives_def GetCurrentInfoField_def GetInfoField_def split: if_splits)
    then show ?thesis using ref refines_Base [OF ref] by (simp add: refines_def)
  qed
  then have fields: "hopField p1 = cur_hop d1" "infoField p1 = cur_info d1" "peering p1 = peer"
    using arrd a(1,2) by (simp_all add: arrived_def d1_def cur_info_chain_segid upd_in_def ing)
  show ?thesis
  proof (cases "DstIA scn = localIA (plane p)")
    case True
    then show ?thesis using assms(4) r1 by (auto simp: delivers_def routed_path_def d1_def)
  next
    case False
    then obtain hf' info' s2 xo where "departs E p1 s1 hf' info' s2 xo" "sends E p1 hf' info' s2 q r" using assms(5) by blast
    from departs_refines [OF this r1 fields(1,2), unfolded fields(3) d1_def Let_def] show ?thesis
      unfolding routed_path_def forward_path_def Let_def if_not_P [OF False] .
  qed
qed

lemma sends_sync:
  assumes dep: "departs E p1 s1 hf info s2 xo" and send: "sends E p1 hf info s2 q r" and wf: "wf_raw s1" and sync: "in_sync s1"
    and q: "pathOf q = Some s'"
  shows "in_sync s'"
proof -
  have s2: "wf_raw s2 \<and> in_sync s2"
    using dep wf sync advance_wf(1) [OF wf] advance_sync [OF wf] unfolding departs_def by (auto split: if_splits)
  have "s' = s2 \<or> (\<exists>b s3. put_info b s2 (UpdateSegID info (Mac hf)) = Ok s3 \<and> advance s3 = Ok s')"
    using send q by (auto simp: sends_def Let_def split: if_splits)
  then show ?thesis using s2 put_info_wf(1) advance_sync by blast
qed

lemma routed_sync:
  assumes arr: "arrives E p0 s hf info peer s1"
    and inb: "b \<Longrightarrow> delivers E p1 s1 q r"
    and out: "\<not> b \<Longrightarrow> \<exists>hf' info' s2 xo. departs E p1 s1 hf' info' s2 xo \<and> sends E p1 hf' info' s2 q r"
    and wf: "wf_raw s" and sync: "in_sync s" and q: "pathOf q = Some s'"
  shows "in_sync s'"
proof -
  have put: "put_info (upd_in p0 info peer) s (UpdateSegID info (Mac hf)) = Ok s1" using arr by (simp add: arrives_def)
  have s1: "wf_raw s1" "in_sync s1" using put_info_wf(1) [OF wf put] put_info_sync [OF wf sync put] by auto
  show ?thesis
  proof (cases b)
    case True
    then show ?thesis using inb q s1 by (auto simp: delivers_def)
  next
    case False
    then show ?thesis using out sends_sync [OF _ _ s1 q] by blast
  qed
qed

lemma path_lies_decode:
  assumes "path_lies b off s" and "refines s d" and "in_sync s"
  shows "Decoded_DecodeFromBytes (drop off b) = Ok d"
proof -
  have "Raw_DecodeFromBytes (drop off b) = Ok s"
    using assms by (intro Raw_decode_again) (simp_all add: refines_def path_lies_def)
  then show ?thesis using raw_decoded_agree [of "drop off b"] ToDecoded_refines [OF assms(2)] by simp
qed


lemma sample_path_start:
  assumes "SCION_DecodeFromBytes (pathRegistry sample_envir) (scionLayer sample_processor) sample_packet = Ok scn"
  shows "path_start scn = 36"
proof -
  have "mapR path_start (SCION_DecodeFromBytes (pathRegistry sample_envir) (scionLayer sample_processor) sample_packet) = Ok 36"
    by code_simp
  then show ?thesis using assms by simp
qed

lemma sample_route_facts:
  assumes "refines sample_route d"
  shows "ConsDir (cur_info d)" "\<not> Peer (cur_info d)" "\<not> IsXover d"
proof -
  have "GetCurrentInfoField sample_route = Ok \<lparr>Peer = False, ConsDir = True, SegID = 7, Timestamp = 0\<rparr>" by code_simp
  from current_refines(2) [OF assms this] have info: "cur_info d = \<lparr>Peer = False, ConsDir = True, SegID = 7, Timestamp = 0\<rparr>" by simp
  show "ConsDir (cur_info d)" "\<not> Peer (cur_info d)" by (simp_all add: info)
  have "\<not> IsXover sample_route" by code_simp
  then show "\<not> IsXover d" using IsXover_refines [OF assms] by simp
qed


end
