(* ===== verification/RouterSafe.thy ===== *)
theory RouterSafe
  imports ForwardPath
begin

text \<open>
  The packet processor does not panic. Every step is shown not to panic on a processor whose path is well
  formed and lies in the packet (\<open>lay\<close>), after the path was parsed with its pointers in range (\<open>ready\<close>); what can
  panic is named by the hypotheses of \<open>router_no_panic\<close>.
\<close>

unbundle bit_operations_syntax

section \<open>Steps without panics\<close>

definition safe :: "(scionPacketProcessor \<Rightarrow> bool) \<Rightarrow> step \<Rightarrow> bool" where
  "safe I f \<longleftrightarrow> (\<forall>p. I p \<longrightarrow> snd (f p) \<noteq> Crash)"

lemma safeI: "(\<And>p. I p \<Longrightarrow> snd (f p) \<noteq> Crash) \<Longrightarrow> safe I f"
  by (simp add: safe_def)

lemma safeD: "safe I f \<Longrightarrow> I p \<Longrightarrow> snd (f p) \<noteq> Crash"
  by (simp add: safe_def)

lemma safe_andThen: "safe I f \<Longrightarrow> keeps I f J \<Longrightarrow> safe J g \<Longrightarrow> safe I (andThen f g)"
  by (fastforce simp: safe_def keeps_def andThen_def split: prod.splits outcome.splits option.splits)

lemma safe_stepsThen:
  "list_all (\<lambda>f. safe I f \<and> keeps I f I) fs \<Longrightarrow> safe I g \<Longrightarrow> safe I (stepsThen fs g)"
  by (induction fs) (auto intro: safe_andThen)

lemma no_crash [simp]:
  "snd (skip p) \<noteq> Crash" "snd (failWith e p) \<noteq> Crash" "snd (slowPath s p) \<noteq> Crash" "snd (paramProblem c i e p) \<noteq> Crash"
  "snd (invalidSrcIA p) \<noteq> Crash" "snd (invalidDstIA p) \<noteq> Crash" "snd (cannotRouteEgress s' p) \<noteq> Crash" "snd (ret r p) \<noteq> Crash"
  by (simp_all add: skip_def failWith_def slowPath_def paramProblem_def invalidSrcIA_def invalidDstIA_def cannotRouteEgress_def ret_def)

lemma orFail_no_crash: "m \<noteq> Panic \<Longrightarrow> (\<And>x. m = Ok x \<Longrightarrow> snd (k x p) \<noteq> Crash) \<Longrightarrow> snd (orFail m k p) \<noteq> Crash"
  by (cases m) (simp_all add: orFail_def)

lemma withPath_no_crash: "pathOf p = Some s \<Longrightarrow> snd (f s p) \<noteq> Crash \<Longrightarrow> snd (withPath f p) \<noteq> Crash"
  by (simp add: withPath_def)

text \<open>The accessors of a well-formed path.\<close>

lemma raw_access:
  assumes "wf_raw s" and "0 \<le> i"
  shows "GetHopField s i \<noteq> Panic" "GetInfoField s i \<noteq> Panic" "SetInfoField s info i \<noteq> Panic"
    "wf_hop hf \<Longrightarrow> SetHopField s hf i \<noteq> Panic" "i < NumHops s \<Longrightarrow> \<exists>h. GetHopField s i = Ok h \<and> wf_hop h"
    "i < NumINF s \<Longrightarrow> \<exists>x. GetInfoField s i = Ok x"
proof -
  obtain d where d: "refines s d" "wf_decoded d" using wf_raw_refines_Decoded [OF assms(1)] by blast
  obtain k where k: "i = int k" using assms(2) nonneg_int_cases by blast
  have hop: "GetHopField s i = Ok (HopFields d ! k) \<and> wf_hop (HopFields d ! k)" if "i < NumHops s"
  proof -
    have "k < nat (NumHops s)" using that k by simp
    moreover from this have "HopFields d ! k \<in> set (HopFields d)" using d(1) by (simp add: refines_def)
    ultimately show ?thesis using GetHopField_refines [OF d(1)] k d(2) by (auto simp: wf_decoded_def list_all_iff)
  qed
  have info: "GetInfoField s i = Ok (InfoFields d ! k)" if "i < NumINF s"
    using that k GetInfoField_refines [OF d(1), of k] by simp
  show "GetHopField s i \<noteq> Panic" using hop by (cases "i < NumHops s") (simp_all add: GetHopField_def)
  show "GetInfoField s i \<noteq> Panic" using info by (cases "i < NumINF s") (simp_all add: GetInfoField_def)
  show "SetInfoField s info i \<noteq> Panic"
  proof (cases "i < NumINF s")
    case True
    then have "k < nat (NumINF s)" using k by simp
    from SetInfoField_refines [OF d(1) this, of info] k show ?thesis by auto
  qed (simp add: SetInfoField_def)
  show "SetHopField s hf i \<noteq> Panic" if "wf_hop hf"
  proof (cases "i < NumHops s")
    case True
    then have "k < nat (NumHops s)" using k by simp
    from SetHopField_refines [OF d(1) this that] k show ?thesis by auto
  qed (simp add: SetHopField_def)
  show "\<exists>h. GetHopField s i = Ok h \<and> wf_hop h" if "i < NumHops s" using hop [OF that] by blast
  show "\<exists>x. GetInfoField s i = Ok x" if "i < NumINF s" using info [OF that] by blast
qed

lemma advance_no_panic: "wf_raw s \<Longrightarrow> snd (Raw_IncPath s) \<noteq> Panic"
proof -
  assume "wf_raw s"
  then obtain d where d: "refines s d" using wf_raw_refines_Decoded by blast
  show "snd (Raw_IncPath s) \<noteq> Panic" using Raw_IncPath_refines [OF d] by (simp add: Base_IncPath_def Let_def)
qed

text \<open>After the path was parsed: the pointers are in range and the current hop field is well formed.\<close>

definition cur_ok :: "scionPacketProcessor \<Rightarrow> bool" where
  "cur_ok p \<longleftrightarrow> (\<exists>s. pathOf p = Some s \<and> uint (CurrINF (PathMeta s)) < NumINF s \<and> uint (CurrHF (PathMeta s)) < NumHops s)
     \<and> wf_hop (hopField p)"

definition ready :: "scionPacketProcessor \<Rightarrow> nat \<Rightarrow> scionPacketProcessor \<Rightarrow> bool" where
  "ready p0 n p \<longleftrightarrow> lay p0 n p \<and> cur_ok p"

lemma readyE:
  assumes "ready p0 n p"
  obtains s where "pathOf p = Some s" "wf_raw s" "uint (CurrINF (PathMeta s)) < NumINF s" "uint (CurrHF (PathMeta s)) < NumHops s"
    "wf_hop (hopField p)" "core p = core p0" "length (RawBytes s) = n" "lay p0 n p"
  using assms that by (auto simp: ready_def cur_ok_def lay_def laid_def)

lemma current_ok:
  assumes "wf_raw s" and "GetCurrentHopField s = Ok hf" and "GetCurrentInfoField s = Ok info"
  shows "uint (CurrINF (PathMeta s)) < NumINF s" "uint (CurrHF (PathMeta s)) < NumHops s" "wf_hop hf"
proof -
  show "uint (CurrINF (PathMeta s)) < NumINF s" using assms(3) by (auto simp: GetCurrentInfoField_def GetInfoField_def split: if_splits)
  show hf: "uint (CurrHF (PathMeta s)) < NumHops s" using assms(2) by (auto simp: GetCurrentHopField_def GetHopField_def split: if_splits)
  show "wf_hop hf" using raw_access(5) [OF assms(1) _ hf] assms(2) by (auto simp: GetCurrentHopField_def)
qed

lemma safe_parsePath: "safe (lay p0 n) parsePath" "keeps (lay p0 n) parsePath (ready p0 n)"
proof -
  show "safe (lay p0 n) parsePath"
  proof (rule safeI)
    fix p assume "lay p0 n p"
    then obtain s where s: "pathOf p = Some s" "wf_raw s" by (auto simp: lay_def laid_def)
    have "GetCurrentHopField s \<noteq> Panic" "GetCurrentInfoField s \<noteq> Panic"
      using raw_access(1,2) [OF s(2)] by (simp_all add: GetCurrentHopField_def GetCurrentInfoField_def)
    then show "snd (parsePath p) \<noteq> Crash"
      unfolding parsePath_def by (intro withPath_no_crash [OF s(1)] orFail_no_crash) simp_all
  qed
  show "keeps (lay p0 n) parsePath (ready p0 n)"
  proof (rule keepsI)
    fix p q r assume lay: "lay p0 n p" and ok: "parsePath p = (q, Ret r None)"
    then obtain s hf info where s: "pathOf p = Some s" "GetCurrentHopField s = Ok hf" "GetCurrentInfoField s = Ok info"
        "q = p\<lparr>hopField := hf, infoField := info\<rparr>" by (auto simp: parsePath_ok)
    have "wf_raw s" using lay_pathOf [OF lay s(1)] by simp
    from current_ok [OF this s(2,3)] show "ready p0 n q" using lay s by (simp add: ready_def cur_ok_def)
  qed
qed


text \<open>The steps that read the path or change it.\<close>

named_theorems ready_intros \<open>steps that keep a processor ready\<close>

lemma ready_update [simp]:
  "ready p0 n (p\<lparr>infoField := i\<rparr>) = ready p0 n p" "ready p0 n (p\<lparr>peering := b\<rparr>) = ready p0 n p"
  "ready p0 n (p\<lparr>effectiveXover := b\<rparr>) = ready p0 n p" "ready p0 n (p\<lparr>cachedMac := m\<rparr>) = ready p0 n p"
  "ready p0 n (p\<lparr>transit := t\<rparr>) = ready p0 n p" "ready p0 n (p\<lparr>nextHop := a\<rparr>) = ready p0 n p"
  by (simp_all add: ready_def cur_ok_def)

lemma ready_checks [ready_intros]:
  "keeps (ready p0 n) proc_determinePeer (ready p0 n)"
  "keeps (ready p0 n) (validateHopExpiry E k) (ready p0 n)" "keeps (ready p0 n) validateIngressID (ready p0 n)"
  "keeps (ready p0 n) validatePktLen (ready p0 n)" "keeps (ready p0 n) validateTransitUnderlaySrc (ready p0 n)"
  "keeps (ready p0 n) validateSrcDstIA (ready p0 n)" "keeps (ready p0 n) verifyCurrentMAC (ready p0 n)"
  "keeps (ready p0 n) handleIngressRouterAlert (ready p0 n)" "keeps (ready p0 n) handleEgressRouterAlert (ready p0 n)"
  "keeps (ready p0 n) validateEgressID (ready p0 n)" "keeps (ready p0 n) validateEgressUp (ready p0 n)"
  by (auto simp: keeps_def proc_determinePeer_ok validateHopExpiry_ok validateIngressID_ok validatePktLen_ok
      validateTransitUnderlaySrc_ok validateSrcDstIA_ok verifyCurrentMAC_ok handleIngressRouterAlert_ok
      handleEgressRouterAlert_ok validateEgressID_ok validateEgressUp_ok)

lemma ready_segid [ready_intros]: "keeps (ready p0 n) updateNonConsDirIngressSegID (ready p0 n)"
proof (rule keepsI)
  fix p q r assume ready: "ready p0 n p" and ok: "updateNonConsDirIngressSegID p = (q, Ret r None)"
  obtain s where s: "pathOf p = Some s" "uint (CurrINF (PathMeta s)) < NumINF s" "uint (CurrHF (PathMeta s)) < NumHops s"
      "wf_hop (hopField p)" "lay p0 n p" using ready by (rule readyE)
  have "lay p0 n q" using keepsD [OF keeps_segid s(5) ok] .
  moreover have "q = p \<or> (\<exists>s'. put_info True s (UpdateSegID (infoField p) (Mac (hopField p))) = Ok s' \<and> pathOf q = Some s' \<and> hopField q = hopField p)"
    using ok s(1) by (auto simp: updateNonConsDirIngressSegID_ok put_info_def split: if_splits)
  then have "cur_ok q"
  proof (elim disjE exE conjE)
    fix s' assume s': "put_info True s (UpdateSegID (infoField p) (Mac (hopField p))) = Ok s'" "pathOf q = Some s'" "hopField q = hopField p"
    show "cur_ok q" using s s'(2,3) put_info_meta [OF s'(1)] by (simp add: cur_ok_def)
  qed (use s in \<open>simp add: cur_ok_def\<close>)
  ultimately show "ready p0 n q" by (simp add: ready_def)
qed

lemma ready_xover [ready_intros]: "keeps (ready p0 n) (xover E) (ready p0 n)"
proof (rule keepsI)
  fix p q r assume ready: "ready p0 n p" and ok: "xover E p = (q, Ret r None)"
  obtain s where s: "pathOf p = Some s" "wf_raw s" "lay p0 n p" using ready by (rule readyE)
  have lay: "lay p0 n q" using keepsD [OF keeps_xover s(3) ok] .
  show "ready p0 n q"
  proof (cases "IsXover s \<and> \<not> peering p")
    case True
    then obtain s' hf info where s': "advance s = Ok s'" "GetCurrentHopField s' = Ok hf" "GetCurrentInfoField s' = Ok info"
        "pathOf q = Some s'" "hopField q = hf"
      using ok s(1) by (auto simp: xover_ok)
    from current_ok [OF advance_wf(1) [OF s(2) s'(1)] s'(2,3)] lay s'(4,5) show ?thesis
      by (simp add: ready_def cur_ok_def)
  next
    case False
    then show ?thesis using ok s(1) ready by (auto simp: xover_ok)
  qed
qed

lemma ready_hbh [ready_intros]: "keeps (ready p0 n) (processHbhOptions E e) (ready p0 n)"
proof (rule keepsI)
  fix p q r assume ready: "ready p0 n p" and ok: "processHbhOptions E e p = (q, Ret r None)"
  have fr: "hbh_frame p q" using ok hbhOption_ok unfolding processHbhOptions_def by blast
  have "lay p0 n q" using keepsD [OF keeps_hbh _ ok] ready by (simp add: ready_def)
  then show "ready p0 n q" using ready hbh_frame_select [OF fr] by (simp add: ready_def cur_ok_def)
qed

named_theorems safe_ready \<open>steps that are safe on a ready processor\<close>

lemma ingressInterface_safe:
  assumes "wf_raw s" and "uint (CurrINF (PathMeta s)) < NumINF s" and "uint (CurrHF (PathMeta s)) < NumHops s"
  shows "ingressInterface p s \<noteq> Panic"
proof (cases "\<not> peering p \<and> IsFirstHopAfterXover s")
  case True
  then have "0 < CurrINF (PathMeta s)" "0 < CurrHF (PathMeta s)" by (simp_all add: IsFirstHopAfterXover_def)
  then have pos: "0 \<le> uint (CurrINF (PathMeta s)) - 1" "0 \<le> uint (CurrHF (PathMeta s)) - 1" by (simp_all add: word_less_def)
  from raw_access(6) [OF assms(1) pos(1)] raw_access(5) [OF assms(1) pos(2)] assms(2,3)
  show ?thesis by (auto simp: ingressInterface_def Let_def)
qed (auto simp: ingressInterface_def Let_def)

lemma safe_checks [safe_ready]:
  "safe (ready p0 n) proc_determinePeer" "safe (ready p0 n) (validateHopExpiry E k)" "safe (ready p0 n) validateIngressID"
  "safe (ready p0 n) validatePktLen" "safe (ready p0 n) validateSrcDstIA" "safe (ready p0 n) verifyCurrentMAC"
  "safe (ready p0 n) validateEgressID" "safe (ready p0 n) validateEgressUp"
proof -
  have peer: "determinePeer m i \<noteq> Panic" for m i by (simp add: determinePeer_def Let_def)
  show "safe (ready p0 n) proc_determinePeer"
    by (rule safeI, erule readyE, unfold proc_determinePeer_def)
      (intro withPath_no_crash orFail_no_crash peer; simp)
  show "safe (ready p0 n) (validateHopExpiry E k)" "safe (ready p0 n) validateIngressID" "safe (ready p0 n) validateSrcDstIA"
    "safe (ready p0 n) verifyCurrentMAC" "safe (ready p0 n) validateEgressID"
    by (rule safeI, erule readyE, simp add: validateHopExpiry_def validateIngressID_def validateSrcDstIA_def verifyCurrentMAC_def
        validateEgressID_def withPath_def Let_def)+
  show "safe (ready p0 n) validatePktLen" "safe (ready p0 n) validateEgressUp"
    by (rule safeI, simp add: validatePktLen_def validateEgressUp_def Let_def)+
qed


named_theorems crash_simps \<open>when a step panics\<close>

lemma orFail_crash [crash_simps]: "snd (orFail m k p) = Crash \<longleftrightarrow> m = Panic \<or> (\<exists>x. m = Ok x \<and> snd (k x p) = Crash)"
  by (cases m) (simp_all add: orFail_def)

lemma withPath_crash [crash_simps]:
  "snd (withPath f p) = Crash \<longleftrightarrow> pathOf p = None \<or> (\<exists>s. pathOf p = Some s \<and> snd (f s p) = Crash)"
  by (cases "pathOf p") (simp_all add: withPath_def)

lemma andThen_crash [crash_simps]:
  "snd (andThen f g p) = Crash \<longleftrightarrow> snd (f p) = Crash \<or> (\<exists>p' r. f p = (p', Ret r None) \<and> snd (g p') = Crash)"
  by (auto simp: andThen_def split: prod.splits outcome.splits option.splits)

lemma incPath_crash [crash_simps]:
  "snd (case Raw_IncPath s of (s, r) \<Rightarrow> orFail (wrapR m r) (\<lambda>_. skip) (setPath s p)) = Crash \<longleftrightarrow> snd (Raw_IncPath s) = Panic"
  by (cases "Raw_IncPath s") (simp add: orFail_crash wrapR_eq_Panic)

lemma safe_transit [safe_ready]: "safe (ready p0 n) validateTransitUnderlaySrc"
proof (rule safeI)
  fix p assume "ready p0 n p"
  then obtain s where s: "pathOf p = Some s" "wf_raw s" "uint (CurrINF (PathMeta s)) < NumINF s" "uint (CurrHF (PathMeta s)) < NumHops s"
    by (rule readyE)
  then show "snd (validateTransitUnderlaySrc p) \<noteq> Crash"
    using ingressInterface_safe [of s p] by (auto simp: validateTransitUnderlaySrc_def crash_simps split: option.splits)
qed

lemma safe_segid [safe_ready]: "safe (ready p0 n) updateNonConsDirIngressSegID"
proof (rule safeI)
  fix p assume "ready p0 n p"
  then obtain s where s: "pathOf p = Some s" "wf_raw s" by (rule readyE)
  then show "snd (updateNonConsDirIngressSegID p) \<noteq> Crash"
    using raw_access(3) [OF s(2)] by (auto simp: updateNonConsDirIngressSegID_def Let_def crash_simps wrapR_eq_Panic)
qed

lemma safe_setHop: "ready p0 n p \<Longrightarrow> length (Mac hf) = length (Mac (hopField p)) \<Longrightarrow> snd (setHop hf i p) \<noteq> Crash"
  by (erule readyE) (use raw_access(4) in \<open>auto simp: setHop_def crash_simps wrapR_eq_Panic wf_hop_def\<close>)

lemma safe_alerts [safe_ready]: "safe (ready p0 n) handleIngressRouterAlert" "safe (ready p0 n) handleEgressRouterAlert"
proof -
  have "snd (setHop hf i p) \<noteq> Crash" if "ready p0 n p"
      "hf \<in> {(hopField p)\<lparr>EgressRouterAlert := False\<rparr>, (hopField p)\<lparr>IngressRouterAlert := False\<rparr>}" for p hf i
    using that by (intro safe_setHop) auto
  then show "safe (ready p0 n) handleIngressRouterAlert" "safe (ready p0 n) handleEgressRouterAlert"
    by (simp_all add: safe_def handleIngressRouterAlert_def handleEgressRouterAlert_def Let_def)
qed

lemma safe_egress [safe_ready]: "safe (ready p0 n) processEgress"
proof (rule safeI)
  fix p assume "ready p0 n p"
  then obtain s where s: "pathOf p = Some s" "wf_raw s" by (rule readyE)
  have wf: "wf_raw s'" if "SetInfoField s (UpdateSegID (infoField p) (Mac (hopField p))) (uint (CurrINF (PathMeta s))) = Ok s'" for s'
    using put_info_wf(1) [OF s(2), of True] that by (simp add: put_info_def)
  show "snd (processEgress p) \<noteq> Crash"
    using s raw_access(3) [OF s(2)] advance_no_panic wf
    by (auto simp: processEgress_def crash_simps ok_simps Let_def wrapR_eq_Panic wrapR_eq_Ok)
qed

lemma safe_xover [safe_ready]: "safe (ready p0 n) (xover E)"
proof (rule safeI)
  fix p assume ready: "ready p0 n p"
  obtain s where s: "pathOf p = Some s" "wf_raw s" using ready by (rule readyE)
  have wf: "wf_raw s'" if "advance s = Ok s'" for s' using advance_wf(1) [OF s(2) that] .
  have get: "GetCurrentHopField s' \<noteq> Panic" "GetCurrentInfoField s' \<noteq> Panic" if "wf_raw s'" for s'
    using raw_access(1,2) [OF that] by (simp_all add: GetCurrentHopField_def GetCurrentInfoField_def)
  show "snd (xover E p) \<noteq> Crash"
    using s advance_no_panic [OF s(2)] wf get
    by (auto simp: xover_def doXover_def parsePath_def validateHopExpiry_def verifyCurrentMAC_def crash_simps ok_simps Let_def)
qed


section \<open>Options, local delivery and whole paths\<close>

lemma hbhOption_crash:
  assumes "pathOf p = Some s" and "wf_raw s" and "OptTypeFabrid \<notin> OptType ` set opts"
  shows "snd (hbhOption E e opts off p) \<noteq> Crash"
  using assms
proof (induction opts arbitrary: off p)
  case (Cons opt opts)
  have next': "snd (hbhOption E e opts off' (p\<lparr>idOpt := i\<rparr>)) \<noteq> Crash" "snd (hbhOption E e opts off' p) \<noteq> Crash" for off' i
    using Cons by simp_all
  have "ParseIdentifierOption opt t \<noteq> Panic" for t by (simp add: ParseIdentifierOption_def IdentifierOption_decode_def)
  then show ?case
    using Cons.prems next' raw_access(2) [OF Cons.prems(2), of 0]
    by (auto simp: hbhOption.simps crash_simps split: result.splits)
qed simp

text \<open>What the model assumes of gopacket: what follows an SCMP error message is a payload layer.\<close>

definition envir_ok :: "envir \<Rightarrow> bool" where
  "envir_ok E \<longleftrightarrow> (\<forall>t d. length (scmpLayers E t d) = 2 \<longrightarrow> GpOther False \<notin> set (scmpLayers E t d) \<longrightarrow> (\<exists>b. scmpLayers E t d ! 1 = GpPayload b))
     \<and> (\<forall>b. bfdDecode E b \<noteq> Panic) \<and> (\<forall>k x. length (aesOf E k x) = 16) \<and> (\<forall>n. length (freshBytes E n) = n)"

lemma decodeSCMP_safe:
  "decodeSCMP E scmp \<noteq> Panic"
  "envir_ok E \<Longrightarrow> decodeSCMP E scmp = Ok l \<Longrightarrow> length l = 2 \<Longrightarrow> \<exists>b. l ! 1 = GpPayload b"
  by (auto simp: decodeSCMP_def Let_def envir_ok_def split: if_splits)

lemma getDstPortSCMP_safe:
  assumes "envir_ok E"
  shows "getDstPortSCMP E scmp \<noteq> Panic"
proof -
  have "(case l ! 1 of GpPayload b \<Rightarrow> k b | _ \<Rightarrow> Panic) = k (SOME b. l ! 1 = GpPayload b)"
    if "decodeSCMP E scmp = Ok l" "length l = 2" for l and k :: "bytes \<Rightarrow> u16 result"
    using decodeSCMP_safe(2) [OF assms that] by auto
  moreover have "SCMPEcho_DecodeFromBytes b \<noteq> Panic" "SCMPTraceroute_DecodeFromBytes b \<noteq> Panic" for b
    by (simp_all add: SCMPEcho_DecodeFromBytes_def SCMPTraceroute_DecodeFromBytes_def)
  ultimately show ?thesis using decodeSCMP_safe(1) [of E scmp]
    by (auto simp: getDstPortSCMP_def Let_def mapR_eq_Panic bindR_eq_Panic split: option.splits if_splits)
qed

lemma addEndhostPort_safe: "envir_ok E \<Longrightarrow> addEndhostPort E d lst dst \<noteq> Panic"
  using getDstPortSCMP_safe [of E]
  by (auto simp: addEndhostPort_def Let_def bindR_eq_Panic wrapR_eq_Panic SCMP_DecodeFromBytes_def split: if_splits)

lemma DstAddr_safe:
  assumes "int (length (RawDstAddr s)) = AddrType_Length (DstAddrType s)"
  shows "DstAddr s \<noteq> Panic" "DstAddr s \<noteq> Ok HostNone"
  using assms AddrType_Length_bounds [of "DstAddrType s"]
  by (auto simp: DstAddr_def ParseAddr_def bindR_eq_Panic bindR_eq_Ok slice_Panic_iff split: if_splits)

lemma resolveLocalDst_safe:
  assumes "envir_ok E" and "int (length (RawDstAddr s)) = AddrType_Length (DstAddrType s)" and "svcs d \<noteq> None"
  shows "snd (resolveLocalDst E d s lst) \<noteq> Panic"
  using DstAddr_safe [OF assms(2)] assms(3) addEndhostPort_safe [OF assms(1)]
  by (auto simp: resolveLocalDst_def Let_def split: result.splits Host.splits option.splits)

text \<open>A start from which nothing can panic: services exist, and there is no FABRID option.\<close>

definition calm :: "scionPacketProcessor \<Rightarrow> bool" where
  "calm p0 \<longleftrightarrow> svcs (plane p0) \<noteq> None \<and> lastLayerOf p0 \<noteq> None \<and> OptTypeFabrid \<notin> OptType ` set (hbh_opts p0)
     \<and> int (length (RawDstAddr (scionLayer p0))) = AddrType_Length (DstAddrType (scionLayer p0))"

lemma core_addr: "core p = core p0 \<Longrightarrow> RawDstAddr (scionLayer p) = RawDstAddr (scionLayer p0) \<and> DstAddrType (scionLayer p) = DstAddrType (scionLayer p0)
    \<and> RawSrcAddr (scionLayer p) = RawSrcAddr (scionLayer p0)"
proof -
  assume "core p = core p0"
  then have eq: "(scionLayer p)\<lparr>SPath := None\<rparr> = (scionLayer p0)\<lparr>SPath := None\<rparr>" by (simp add: core_def)
  from arg_cong [OF eq, of RawDstAddr] arg_cong [OF eq, of DstAddrType] arg_cong [OF eq, of RawSrcAddr] show ?thesis by simp
qed

lemma safe_hbh: "calm p0 \<Longrightarrow> safe (ready p0 n) (processHbhOptions E e)"
proof (rule safeI)
  fix p assume calm: "calm p0" and "ready p0 n p"
  then obtain s where s: "pathOf p = Some s" "wf_raw s" "core p = core p0" by (blast elim: readyE)
  have "OptTypeFabrid \<notin> OptType ` set (HbhOptions (hbhLayer p))"
    using calm core_hbhOff [OF s(3)] by (simp add: calm_def hbh_opts_def)
  from hbhOption_crash [OF s(1,2) this] show "snd (processHbhOptions E e p) \<noteq> Crash" by (simp add: processHbhOptions_def)
qed

lemma safe_forward:
  assumes "calm p0"
  shows "safe (ready p0 n) (processForward E)"
proof (rule safeI)
  fix p assume ready: "ready p0 n p"
  have ret: "safe (ready p0 n) (\<lambda>p. ret (f p) p)" for f by (simp add: safe_def)
  have ext: "safe (ready p0 n) (stepsThen [processHbhOptions E e, processEgress] (\<lambda>p. ret (f p) p))" for e f
    unfolding stepsThen_simps
    by (intro safe_andThen [OF safe_hbh [OF assms] ready_hbh] safe_andThen [OF safe_egress, where J = "\<lambda>_. True"]) (simp_all add: keeps_def safe_def)
  have int: "safe (ready p0 n) (andThen (processHbhOptions E e) (\<lambda>p. ret (f p) p))" for e f
    by (intro safe_andThen [OF safe_hbh [OF assms] ready_hbh] ret)
  have "pathOf p \<noteq> None" using ready by (auto elim: readyE)
  then show "snd (processForward E p) \<noteq> Crash"
    using safeD [OF ext] safeD [OF int] ready
    by (simp add: processForward_def Let_def crash_simps del: stepsThen_simps split: option.splits)
qed

lemma safe_inbound:
  assumes "calm p0" and "envir_ok E"
  shows "safe (ready p0 n) (processInbound E)"
proof (rule safeI)
  fix p assume ready: "ready p0 n p"
  then obtain s where s: "pathOf p = Some s" "wf_raw s" "core p = core p0" by (rule readyE)
  note sel = core_select [OF s(3)] core_addr [OF s(3)]
  obtain lst where lst: "lastLayerOf p = Some lst" using assms(1) sel by (auto simp: calm_def)
  have res: "snd (resolveLocalDst E (plane p) (scionLayer p) lst) \<noteq> Panic"
    using assms sel by (intro resolveLocalDst_safe) (simp_all add: calm_def)
  have fab: "OptTypeFabrid \<notin> OptType ` set (HbhOptions (hbhLayer p))"
    using assms(1) core_hbhOff [OF s(3)] by (simp add: calm_def hbh_opts_def)
  have "snd (hbhOption E 0 (HbhOptions (hbhLayer p)) off (p\<lparr>plane := d, transit := t, nextHop := a\<rparr>)) \<noteq> Crash" for d t a off
    using hbhOption_crash [OF _ s(2) fab, of "p\<lparr>plane := d, transit := t, nextHop := a\<rparr>"] s(1) by simp
  then show "snd (processInbound E p) \<noteq> Crash"
    using res unfolding processInbound_def resolveInbound_def
    by (auto simp: lst Let_def crash_simps processHbhOptions_def split: prod.splits result.splits)
qed

lemma process_safe:
  assumes "calm p0" and "envir_ok E"
  shows "safe (lay p0 n) (process E)"
proof -
  have out: "safe (ready p0 n) (processOutbound E)"
    unfolding processOutbound_def by (intro safe_stepsThen safe_forward [OF assms(1)]) (simp add: safe_ready ready_intros)
  have "safe (ready p0 n) (\<lambda>p. if DstIA (scionLayer p) = localIA (plane p) then processInbound E p else processOutbound E p)"
    using safeD [OF out] safeD [OF safe_inbound [OF assms]] by (intro safeI) simp
  then have "safe (ready p0 n) (stepsThen [proc_determinePeer, validateHopExpiry E 0, validateIngressID, validatePktLen,
                validateTransitUnderlaySrc, validateSrcDstIA, updateNonConsDirIngressSegID, verifyCurrentMAC,
                handleIngressRouterAlert]
       (\<lambda>p. if DstIA (scionLayer p) = localIA (plane p) then processInbound E p else processOutbound E p))"
    by (intro safe_stepsThen) (simp_all add: safe_ready ready_intros)
  then show ?thesis
    unfolding process_def stepsThen_simps(2) [of parsePath] by (rule safe_andThen [OF safe_parsePath])
qed


section \<open>EPIC, one-hop paths and BFD\<close>

lemma process_source:
  assumes "process E p = (q, Ret r None)" and "pathOf p = Some s"
  shows "RawSrcAddr (scionLayer q) = RawSrcAddr (scionLayer p)"
proof -
  obtain hf info peer s1 p1 where p1: "arrived p hf info peer s1 p1"
      "if DstIA (scionLayer p) = localIA (plane p) then processInbound E p1 = (q, Ret r None)
       else processOutbound E p1 = (q, Ret r None)"
    using process_ok [OF assms] by blast
  then have c: "core p1 = core p" "pathOf p1 = Some s1" by (simp_all add: arrived_def)
  have "RawSrcAddr (scionLayer q) = RawSrcAddr (scionLayer p1)"
  proof (cases "DstIA (scionLayer p) = localIA (plane p)")
    case True
    then have "core (q\<lparr>plane := plane p1\<rparr>) = core p1"
      using p1(2) processInbound_ok [OF _ c(2)] by (auto simp: delivers_def)
    then show ?thesis using core_addr by fastforce
  next
    case False
    then have "core q = core p1" using p1(2) processOutbound_ok [OF _ c(2)] by (auto simp: sends_def Let_def)
    then show ?thesis using core_addr by blast
  qed
  then show ?thesis using core_addr [OF c(1)] by simp
qed

lemma verifyEPIC_safe:
  assumes "envir_ok E" and "pathOf p = Some s" and "wf_raw s" and "length (RawSrcAddr (scionLayer p)) \<le> 16"
  shows "snd (verifyEPIC E epic b p) \<noteq> Crash"
proof -
  have aes: "\<And>k x. length (aesOf E k x) = 16" using assms(1) by (simp add: envir_ok_def)
  have "VerifyHVF (aesOf E) auth i (Some (scionLayer p)) ts hvf buf \<noteq> Panic" for auth i ts hvf buf
    using CalcMac_hvf [OF aes _ assms(4)] by (simp add: VerifyHVF_def AuthLen_def bindR_eq_Panic)
  moreover have "VerifyTimestamp a t n \<noteq> Panic" for a t n by (simp add: VerifyTimestamp_def Let_def)
  ultimately show ?thesis
    using assms(2) raw_access(2) [OF assms(3), of 0] by (auto simp: verifyEPIC_def crash_simps)
qed

lemma processEPIC_safe:
  assumes "calm (start_of p0 s)" and "envir_ok E" and "lay (start_of p0 s) n (start_of p0 s)"
    and "SPath (scionLayer p0) = Some (EpicPath epic)" and "EpicScionPath epic = Some s"
    and "length (RawSrcAddr (scionLayer p0)) \<le> 16"
  shows "snd (processEPIC E p0) \<noteq> Crash"
proof -
  have start: "p0\<lparr>pathOf := Some s, pathOff := nat (CmnHdrLen + AddrHdrLen (scionLayer p0)) + MetadataLen\<rparr> = start_of p0 s"
    using assms(4) by (simp add: start_of_def path_start_def)
  obtain q x where x: "process E (start_of p0 s) = (q, x)" by (cases "process E (start_of p0 s)")
  have crash: "x \<noteq> Crash" using safeD [OF process_safe [OF assms(1,2)] assms(3)] x by simp
  have "snd (verifyEPIC E epic b q) \<noteq> Crash" if "x = Ret r None" for r b
  proof -
    have "laid (start_of p0 s) n q" using process_laid [OF assms(3)] x that by simp
    then obtain s' where "pathOf q = Some s'" "wf_raw s'" by (auto simp: laid_def)
    moreover have "length (RawSrcAddr (scionLayer q)) \<le> 16"
      using process_source [of E "start_of p0 s" q r s] x that assms(6) by (simp add: start_of_def)
    ultimately show ?thesis using verifyEPIC_safe [OF assms(2)] by blast
  qed
  then show ?thesis
    using assms(4,5) start x crash by (auto simp: processEPIC_def crash_simps split: outcome.splits option.splits)
qed

text \<open>Rewriting the header of a packet with a one-hop path: the new header is as long as the old one.\<close>

lemma updateSCIONLayer_safe:
  assumes "envir_ok E" and "wf_scion s" and "SPath s = Some (OneHopPath ohp)"
    and "nat (CmnHdrLen + AddrHdrLen s) + nat onehop_PathLen \<le> length raw"
  shows "updateSCIONLayer E raw s \<noteq> Panic"
proof -
  have fresh: "\<And>n. length (freshBytes E n) = n" using assms(1) by (simp add: envir_ok_def)
  define n where "n = CmnHdrLen + AddrHdrLen s + Path_Len (OneHopPath ohp)"
  have pl: "Path_Len (OneHopPath ohp) = onehop_PathLen" by simp
  have n: "n \<le> MaxHdrLen" "n mod LineLen = 0"
    using AddrHdrLen_bounds [of s] AddrType_Length_bounds [of "DstAddrType s"] AddrType_Length_bounds [of "SrcAddrType s"]
    unfolding n_def pl
    by (simp_all add: CmnHdrLen_def MaxHdrLen_def LineLen_def AddrHdrLen_def IABytes_def onehop_PathLen_def
        AddrType_Length_def InfoLen_def HopLen_def)
  obtain s' out where w: "SCION_SerializeTo (freshBytes E) False s []
      = (s', Ok (CmnHdr_bytes s @ addr_bytes s @ out @ []))" "int (length out) = onehop_PathLen"
    using SCION_SerializeTo_wf [OF assms(2,3) fresh n_def n, where fl = False and q = "OneHopPath ohp" and pay = "[]"] by auto
  have "int (length (addr_bytes s)) = AddrHdrLen s" using length_addr_bytes [OF assms(2)] .
  moreover have "int (length (CmnHdr_bytes s)) = CmnHdrLen" by (simp add: CmnHdr_bytes_def CmnHdrLen_def)
  ultimately have "length (CmnHdr_bytes s @ addr_bytes s @ out) \<le> length raw" using assms(4) w(2) by simp
  then show ?thesis by (simp add: updateSCIONLayer_def w(1))
qed


lemma wf_setOneHop: "wf_scion (scionLayer p) \<Longrightarrow> wf_onehop ohp \<Longrightarrow> wf_scion (scionLayer (setOneHop ohp p))"
  by (simp add: wf_scion_def setOneHop_def)

lemma processOHP_safe:
  assumes "envir_ok E" and "svcs (plane p) \<noteq> None" and "lastLayerOf p \<noteq> None" and "wf_scion (scionLayer p)"
    and "\<And>ohp. SPath (scionLayer p) = Some (OneHopPath ohp) \<Longrightarrow>
      nat (CmnHdrLen + AddrHdrLen (scionLayer p)) + nat onehop_PathLen \<le> length (rawPkt p)"
    and mac: "\<And>x. length (macOf p x) = 16"
  shows "snd (processOHP E p) \<noteq> Crash"
proof (cases "\<exists>ohp. SPath (scionLayer p) = Some (OneHopPath ohp)")
  case True
  then obtain ohp where ohp: "SPath (scionLayer p) = Some (OneHopPath ohp)" by blast
  have wf: "wf_onehop ohp" using assms(4) ohp by (simp add: wf_scion_def)
  have upd: "updateSCIONLayer E (rawPkt p) (scionLayer (setOneHop o' p)) \<noteq> Panic" if "wf_onehop o'" for o'
    using updateSCIONLayer_safe [OF assms(1) wf_setOneHop [OF assms(4) that], of o' "rawPkt p"] assms(5) [OF ohp]
    by (simp add: setOneHop_def AddrHdrLen_def)
  have wf_out: "wf_onehop (ohp\<lparr>Info := i\<rparr>)" for i using wf by (simp add: wf_onehop_def)
  have wf_in: "wf_onehop (ohp\<lparr>SecondHop := zero_hop\<lparr>ConsIngress := a, ExpTime := e, Mac := MAC (macOf p) i h b\<rparr>\<rparr>)" for a e i h b
    using wf length_FullMAC [of "macOf p" i h b] mac by (simp add: wf_onehop_def wf_hop_def MAC_def MacLen_def)
  have sel: "rawPkt (setOneHop o' p) = rawPkt p" "plane (setOneHop o' p) = plane p" "lastLayerOf (setOneHop o' p) = lastLayerOf p"
    "RawDstAddr (scionLayer (setOneHop o' p)) = RawDstAddr (scionLayer p)"
    "DstAddrType (scionLayer (setOneHop o' p)) = DstAddrType (scionLayer p)" for o'
    by (simp_all add: setOneHop_def)
  have loc: "resolveLocalDst E (plane p) (scionLayer (setOneHop o' p)) lst \<noteq> (d, Panic)" for o' lst d
    using assms(4) resolveLocalDst_safe [OF assms(1) _ assms(2), of "scionLayer (setOneHop o' p)" lst]
    by (auto simp: sel wf_scion_def)
  have "snd (processOHP_out E ohp p) \<noteq> Crash"
    using upd [OF wf_out] by (simp add: processOHP_out_def Let_def crash_simps sel split: option.splits)
  moreover have "snd (processOHP_in E ohp p) \<noteq> Crash"
    using upd [OF wf_in] loc assms(3) by (auto simp: processOHP_in_def Let_def crash_simps sel split: option.splits prod.splits)
  ultimately show ?thesis using ohp by (simp add: processOHP_def)
next
  case False
  then show ?thesis by (simp add: processOHP_def split: option.splits Path.splits)
qed

text \<open>BFD sessions of the data plane exist and are not closed.\<close>

definition plane_ok :: "DataPlane \<Rightarrow> bool" where
  "plane_ok d \<longleftrightarrow> svcs d \<noteq> None \<and> (\<forall>i k. bfdSessions d i = Some k \<longrightarrow> k < length (bfdPool d) \<and> \<not> closed (snd (bfdPool d ! k)))"

lemma deliverBFD_safe: "plane_ok (plane p) \<Longrightarrow> snd (deliverBFD m i p) \<noteq> Crash"
  by (force simp: deliverBFD_def plane_ok_def ReceiveMessage_def split: option.splits prod.splits result.splits if_splits)

lemma processBFD_safe:
  assumes "envir_ok E" and "plane_ok (plane p)"
  shows "snd (processInterBFD E b p) \<noteq> Crash" "snd (processIntraBFD E b p) \<noteq> Crash"
  using assms deliverBFD_safe by (auto simp: processInterBFD_def processIntraBFD_def crash_simps envir_ok_def)

section \<open>Packets\<close>

lemma decodeLayers_safe: "decodeLayers g p \<noteq> Panic"
proof -
  have "SCION_DecodeFromBytes g s d \<noteq> Panic" for s d using SCION_DecodeFromBytes_safe [of g s d] by blast
  moreover have "HopByHopExtn_DecodeFromBytes d \<noteq> Panic" "EndToEndExtnSkipper_DecodeFromBytes d \<noteq> Panic" for d
    using extension_not_Panic by blast+
  ultimately show ?thesis by (auto simp: decodeLayers_def bindR_eq_Panic Let_def split: if_splits)
qed

lemma onehop_fits:
  assumes "SCION_DecodeFromBytes g s data = Ok t" and "SPath t = Some (OneHopPath ohp)"
  shows "nat (CmnHdrLen + AddrHdrLen t) + nat onehop_PathLen \<le> length data"
proof -
  define off where "off = nat (CmnHdrLen + AddrHdrLen t)"
  obtain q where d: "Path_DecodeFromBytes q (take (4 * unat (HdrLen t) - off) (drop off data)) = Ok (OneHopPath ohp)"
      "off \<le> 4 * unat (HdrLen t)" "4 * unat (HdrLen t) \<le> length data"
    using SCION_Decode_path [OF assms(1)] assms(2) unfolding off_def by auto
  have "nat onehop_PathLen \<le> length (take (4 * unat (HdrLen t) - off) (drop off data))"
    using d(1) by (cases q) (auto simp: onehop_DecodeFromBytes_def bindR_eq_Ok mapR_eq_Ok split: if_splits)
  then show ?thesis using d(2,3) unfolding off_def by simp
qed

lemma dispatch_safe:
  assumes E: "envir_ok E" and pl: "plane_ok (plane p)" and mac: "\<And>x. length (macOf p x) = 16"
    and dec: "decoded raw src ingress scn p p0" and scn: "SCION_DecodeFromBytes g s0 raw = Ok scn"
    and fab: "OptTypeFabrid \<notin> OptType ` set (HbhOptions (hbhLayer p0))"
  shows "snd (dispatch E lst p0) \<noteq> Crash"
proof -
  have sel: "scionLayer p0 = scn" "rawPkt p0 = raw" "plane p0 = plane p" "macOf p0 = macOf p" "lastLayerOf p0 \<noteq> None"
    using dec by (simp_all add: decoded_def)
  have wf: "wf_scion scn" using SCION_DecodeFromBytes_safe [of g s0 raw] scn by simp
  have calm: "calm (start_of p0 s)" for s
    using pl fab sel wf by (simp add: calm_def start_of_def plane_ok_def hbh_opts_def wf_scion_def)
  have lay: "lay (start_of p0 s) (length (RawBytes s)) (start_of p0 s)" if "raw_path scn = Some s" for s
    using start_lay [OF dec scn that] .
  have src: "length (RawSrcAddr scn) \<le> 16"
    using wf AddrType_Length_bounds [of "SrcAddrType scn"] by (simp add: wf_scion_def)
  have "snd (processSCION E p0) \<noteq> Crash"
    using safeD [OF process_safe [OF calm E] lay] sel
    by (auto simp: processSCION_def start_of_def path_start_def raw_path.simps split: option.splits Path.splits)
  moreover have "snd (processEPIC E p0) \<noteq> Crash"
  proof (cases "\<exists>epic s. SPath scn = Some (EpicPath epic) \<and> EpicScionPath epic = Some s")
    case True
    then obtain epic s where "SPath scn = Some (EpicPath epic)" "EpicScionPath epic = Some s" by blast
    then show ?thesis using processEPIC_safe [OF calm E lay] src sel by (simp add: raw_path.simps)
  next
    case False
    then show ?thesis using sel by (auto simp: processEPIC_def split: option.splits Path.splits)
  qed
  moreover have "snd (processOHP E p0) \<noteq> Crash"
    using onehop_fits [OF scn] wf sel pl mac by (intro processOHP_safe [OF E]) (auto simp: plane_ok_def)
  ultimately show ?thesis
    using processBFD_safe [OF E, of p0] pl sel by (simp add: dispatch_def Let_def split: option.splits Path.splits)
qed

text \<open>C6: whatever bytes arrive, processing them does not panic, unless the packet carries a FABRID option: a data plane
  with a service registry whose BFD sessions are open decodes, checks and forwards, or drops the packet with an
  error. This covers packets with SCION, EPIC, one-hop and empty paths and BFD messages. The hash yields sixteen bytes, and
  the layer decoder of gopacket does what \<open>envir_ok\<close> says of it.\<close>

theorem router_no_panic:
  assumes "envir_ok E" and "plane_ok (plane p)" and "\<And>x. length (macOf p x) = 16"
    and "\<And>scn h. SCION_DecodeFromBytes (pathRegistry E) (scionLayer p) raw = Ok scn
      \<Longrightarrow> HopByHopExtn_DecodeFromBytes (Payload scn) = Ok h \<Longrightarrow> OptTypeFabrid \<notin> OptType ` set (HbhOptions h)"
  shows "snd (processPkt E raw src ingress p) \<noteq> Crash"
proof -
  define pin where "pin = (reset p)\<lparr>rawPkt := raw, srcAddr := src, ingressID := ingress\<rparr>"
  show ?thesis
  proof (cases "decodeLayers (pathRegistry E) pin")
    case (Ok p0)
    then obtain scn where scn: "SCION_DecodeFromBytes (pathRegistry E) (scionLayer p) raw = Ok scn" "decoded raw src ingress scn p p0"
      using decodeLayers_ok unfolding pin_def by blast
    then have "OptTypeFabrid \<notin> OptType ` set (HbhOptions (hbhLayer p0))" "lastLayerOf p0 \<noteq> None"
      using assms(4) by (auto simp: decoded_def)
    from dispatch_safe [OF assms(1-3) scn(2,1) this(1)] this(2) Ok show ?thesis
      by (auto simp: processPkt_def Let_def pin_def)
  next
    case (Fail e)
    then show ?thesis by (simp add: processPkt_def Let_def pin_def)
  next
    case Panic
    then show ?thesis using decodeLayers_safe by blast
  qed
qed


theorem router_no_panic_witness:
  "snd (processPkt sample_envir sample_packet sample_src 2 (sample_processor\<lparr>plane := sample_plane\<lparr>svcs := Some newServices\<rparr>\<rparr>))
     \<noteq> Crash"
proof -
  define p where "p = sample_processor\<lparr>plane := sample_plane\<lparr>svcs := Some newServices\<rparr>\<rparr>"
  have E: "envir_ok sample_envir" by (simp add: envir_ok_def sample_envir_def)
  have pl: "plane_ok (plane p)" by (simp add: p_def plane_ok_def sample_plane_def empty_plane_def)
  have mac: "length (macOf p x) = 16" for x
    by (simp add: p_def sample_processor_def newPacketProcessor_def sample_plane_def)
  have "mapR (\<lambda>s. HopByHopExtn_DecodeFromBytes (Payload s))
      (SCION_DecodeFromBytes (pathRegistry sample_envir) (scionLayer sample_processor) sample_packet)
    = Ok (HopByHopExtn_DecodeFromBytes [0, 80, 0, 81, 0, 8, 0, 0])" by code_simp
  moreover have "(case HopByHopExtn_DecodeFromBytes [0, 80, 0, 81, 0, 8, 0, 0] of
      Ok h \<Rightarrow> OptTypeFabrid \<notin> OptType ` set (HbhOptions h) | _ \<Rightarrow> True)" by code_simp
  ultimately have fab: "OptTypeFabrid \<notin> OptType ` set (HbhOptions h)"
    if "SCION_DecodeFromBytes (pathRegistry sample_envir) (scionLayer p) sample_packet = Ok scn"
      "HopByHopExtn_DecodeFromBytes (Payload scn) = Ok h" for scn h
    using that by (auto simp: p_def split: result.splits)
  show ?thesis using router_no_panic [OF E pl mac fab] by (simp add: p_def)
qed

end
