(* ===== verification/Spao.thy ===== *)
theory Spao
  imports ForwardPath "HOL-Library.Signed_Division"
begin

text \<open>
  The packet authenticator option (\<^verbatim>\<open>pkg/slayers/pkt_auth.go\<close>), the data it authenticates
  (\<^verbatim>\<open>pkg/spao\<close>) and the key provider of the router (\<^verbatim>\<open>private/drkey/drkeyutil/provider.go\<close>). CMAC, which
  is not in the repository, is a parameter that takes the key and the message.
\<close>

unbundle bit_operations_syntax

section \<open>The option\<close>

type_synonym PacketAuthSPI = u32
type_synonym PacketAuthAlg = u8

definition PacketAuthASHost :: u8 where "PacketAuthASHost = 0"
definition PacketAuthHostHost :: u8 where "PacketAuthHostHost = 1"
definition PacketAuthSenderSide :: u8 where "PacketAuthSenderSide = 0"
definition PacketAuthReceiverSide :: u8 where "PacketAuthReceiverSide = 1"
definition PacketAuthOptionMetadataLen :: nat where "PacketAuthOptionMetadataLen = 12"
definition PacketAuthCMAC :: PacketAuthAlg where "PacketAuthCMAC = 0"
definition PacketAuthSHA1_AES_CBC :: PacketAuthAlg where "PacketAuthSHA1_AES_CBC = 1"

definition PacketAuthSPI_Type :: "PacketAuthSPI \<Rightarrow> u8" where
  "PacketAuthSPI_Type p = (if p AND push_bit 17 1 = 0 then PacketAuthASHost else PacketAuthHostHost)"

definition PacketAuthSPI_Direction :: "PacketAuthSPI \<Rightarrow> u8" where
  "PacketAuthSPI_Direction p = (if p AND push_bit 16 1 = 0 then PacketAuthSenderSide else PacketAuthReceiverSide)"

definition PacketAuthSPI_DRKeyProto :: "PacketAuthSPI \<Rightarrow> u16" where
  "PacketAuthSPI_DRKeyProto p = ucast p"

definition PacketAuthSPI_IsDRKey :: "PacketAuthSPI \<Rightarrow> bool" where
  "PacketAuthSPI_IsDRKey p \<longleftrightarrow> p > 0 \<and> p < push_bit 21 1"

definition MakePacketAuthSPIDRKey :: "u16 \<Rightarrow> u8 \<Rightarrow> u8 \<Rightarrow> PacketAuthSPI result" where
  "MakePacketAuthSPIDRKey proto drkeyType dir =
    (if proto < 1 then Fail (Err ''Invalid proto identifier value'')
     else if drkeyType > 1 then Fail (Err ''Invalid DRKeyType value'')
     else if dir > 1 then Fail (Err ''Invalid DRKeyDirection value'')
     else Ok (push_bit 17 (ucast (drkeyType AND 1)) OR push_bit 16 (ucast (dir AND 1)) OR ucast proto))"

record PacketAuthOptionParams =
  ParamSPI :: PacketAuthSPI
  ParamAlgorithm :: PacketAuthAlg
  ParamTimestampSN :: u64
  ParamAuth :: bytes

definition put_u48 :: "u64 \<Rightarrow> bytes" where
  "put_u48 v = [ucast (drop_bit 40 v), ucast (drop_bit 32 v)] @ put_u32 (ucast v)"

definition be_u48 :: "bytes \<Rightarrow> u64" where
  "be_u48 b = push_bit 40 (ucast (b ! 0)) + push_bit 32 (ucast (b ! 1)) + ucast (be_u32 (drop 2 b))"

text \<open>The option wraps an end-to-end option. All of its data is overwritten, whether or not the buffer is reused.\<close>

type_synonym PacketAuthOption = tlvOption

definition PacketAuthOption_Reset :: "PacketAuthOption \<Rightarrow> PacketAuthOptionParams \<Rightarrow> PacketAuthOption result" where
  "PacketAuthOption_Reset opt p =
    (if ParamTimestampSN p \<ge> push_bit 48 1 then Fail (Err ''Timestamp value should be smaller than 2^48'')
     else Ok (opt\<lparr>OptType := OptTypeAuthenticator,
       OptData := put_u32 (ParamSPI p) @ [ParamAlgorithm p, 0] @ put_u48 (ParamTimestampSN p) @ ParamAuth p,
       OptAlign := (4, 2), OptDataLen := 0, ActualLength := 0\<rparr>))"

definition zero_option :: PacketAuthOption where
  "zero_option = \<lparr>OptType = 0, OptDataLen = 0, ActualLength = 0, OptData = [], OptAlign = (0, 0)\<rparr>"

definition NewPacketAuthOption :: "PacketAuthOptionParams \<Rightarrow> PacketAuthOption result" where
  "NewPacketAuthOption p = PacketAuthOption_Reset zero_option p"

definition ParsePacketAuthOption :: "tlvOption \<Rightarrow> PacketAuthOption result" where
  "ParsePacketAuthOption opt =
    (if OptType opt \<noteq> OptTypeAuthenticator then Fail (Err ''wrong option type'')
     else if length (OptData opt) < PacketAuthOptionMetadataLen then Fail (Err ''buffer too short'')
     else Ok opt)"

text \<open>The accessors panic on data shorter than the metadata.\<close>

definition PacketAuthOption_SPI :: "PacketAuthOption \<Rightarrow> PacketAuthSPI result" where
  "PacketAuthOption_SPI opt = mapR be_u32 (slice (OptData opt) 0 4)"

definition PacketAuthOption_Algorithm :: "PacketAuthOption \<Rightarrow> PacketAuthAlg result" where
  "PacketAuthOption_Algorithm opt = (if length (OptData opt) \<le> 4 then Panic else Ok (OptData opt ! 4))"

definition PacketAuthOption_TimestampSN :: "PacketAuthOption \<Rightarrow> u64 result" where
  "PacketAuthOption_TimestampSN opt = mapR be_u48 (slice (OptData opt) 6 12)"

definition PacketAuthOption_Authenticator :: "PacketAuthOption \<Rightarrow> bytes result" where
  "PacketAuthOption_Authenticator opt = slice (OptData opt) 12 (length (OptData opt))"

section \<open>The authenticated data\<close>

definition fixAuthDataInputLen :: nat where
  "fixAuthDataInputLen = PacketAuthOptionMetadataLen + nat (CmnHdrLen - LineLen)"

definition spao_MACBufferSize :: nat where "spao_MACBufferSize = 1032"

text \<open>The two loops of \<^verbatim>\<open>zeroOutWithBase\<close>, \<open>n\<close> rounds from an offset.\<close>

fun zeroInfos :: "nat \<Rightarrow> nat \<Rightarrow> bytes \<Rightarrow> bytes result" where
  "zeroInfos 0 offset buf = Ok buf"
| "zeroInfos (Suc n) offset buf =
    (if length buf < offset + 4 then Panic else zeroInfos n (offset + 8) (copy_at (offset + 2) (put_u16 0) buf))"

fun zeroHops :: "nat \<Rightarrow> nat \<Rightarrow> bytes \<Rightarrow> bytes result" where
  "zeroHops 0 offset buf = Ok buf"
| "zeroHops (Suc n) offset buf =
    (if length buf \<le> offset then Panic else zeroHops n (offset + 12) (buf[offset := 0]))"

definition zeroOutWithBase :: "'a Base_scheme \<Rightarrow> bytes \<Rightarrow> bytes result" where
  "zeroOutWithBase base buf =
    (if buf = [] then Panic
     else bindR (zeroInfos (nat (NumINF base)) 4 (buf[0 := 0])) (\<lambda>buf.
       zeroHops (sum_list (map unat (take (nat (NumINF base)) (SegLen (PathMeta base))))) (4 + 8 * nat (NumINF base)) buf))"

definition zeroOutOneHop :: "bytes \<Rightarrow> bytes result" where
  "zeroOutOneHop buf =
    (if length buf < 20 then Panic
     else Ok (copy_fit 20 (replicate 12 0) ((copy_at 2 (put_u16 0) buf)[8 := 0])))"

text \<open>Serializing a raw path also rewrites its meta header in place; the path that results is returned with the buffer.\<close>

definition zeroOutMutablePath :: "Path \<Rightarrow> bytes \<Rightarrow> Path \<times> bytes result" where
  "zeroOutMutablePath orig buf =
    (case Path_SerializeTo orig buf of (p, r) \<Rightarrow>
       (p, bindR (wrapR ''serializing path for resetting fields'' r) (\<lambda>buf.
         case p of
           EmptyPath \<Rightarrow> Ok buf
         | ScionRawPath s \<Rightarrow> zeroOutWithBase s buf
         | ScionDecodedPath d \<Rightarrow> zeroOutWithBase d buf
         | EpicPath e \<Rightarrow>
             (case EpicScionPath e of
                None \<Rightarrow> Panic
              | Some s \<Rightarrow>
                  if length buf < MetadataLen then Panic
                  else mapR (\<lambda>b. take MetadataLen buf @ b) (zeroOutWithBase s (drop MetadataLen buf)))
         | OneHopPath _ \<Rightarrow> zeroOutOneHop buf
         | UnknownPath _ \<Rightarrow> Fail (Err ''unknown path type''))))"

text \<open>\<open>offset += copy(buf[offset:], xs)\<close>\<close>

definition put_addr :: "bool \<Rightarrow> bytes \<Rightarrow> nat \<times> bytes \<Rightarrow> nat \<times> bytes" where
  "put_addr cond xs st =
    (case st of (off, buf) \<Rightarrow>
       if cond then (off + min (length buf - off) (length xs), copy_fit off xs buf) else (off, buf))"

definition serializeAuthenticatedData ::
  "bytes \<Rightarrow> SCION \<Rightarrow> PacketAuthOption \<Rightarrow> L4ProtocolType \<Rightarrow> bytes \<Rightarrow> (nat \<times> bytes) result" where
  "serializeAuthenticatedData buf s opt pldType pld =
    (if length buf < spao_MACBufferSize then Panic
     else case SPath s of
       None \<Rightarrow> Panic
     | Some path \<Rightarrow>
         let hdrLen = CmnHdrLen + AddrHdrLen s + Path_Len path in
         if hdrLen > MaxHdrLen then Fail (Err ''SCION header length exceeds maximum'')
         else if hdrLen mod LineLen \<noteq> 0 then Fail (Err ''SCION header length is not an integer multiple of line length'')
         else
           bindR (PacketAuthOption_Algorithm opt) (\<lambda>alg.
           bindR (PacketAuthOption_TimestampSN opt) (\<lambda>ts.
           bindR (PacketAuthOption_SPI opt) (\<lambda>spi.
           let firstHdrLine = push_bit 28 (ucast (Version s AND 0xF)) OR push_bit 20 (ucast (TrafficClass s AND 0x3f))
                                OR (FlowID s AND 0xFFFFF) :: u32;
               buf = copy_at 0 ([word_of_int (hdrLen div LineLen), pldType] @ put_u16 (of_nat (length pld)) @ [alg, 0]
                       @ put_u48 ts @ put_u32 firstHdrLine
                       @ [SPathType s, push_bit 4 (DstAddrType s AND 0xF) OR (SrcAddrType s AND 0xF)] @ put_u16 0) buf;
               dr = PacketAuthSPI_IsDRKey spi;
               host = (PacketAuthSPI_Type spi = PacketAuthASHost);
               st = put_addr (\<not> dr) (put_u64 (DstIA s) @ put_u64 (SrcIA s)) (fixAuthDataInputLen, buf);
               st = put_addr (\<not> dr \<or> host \<and> PacketAuthSPI_Direction spi = PacketAuthReceiverSide) (RawDstAddr s) st;
               st = put_addr (\<not> dr \<or> host \<and> PacketAuthSPI_Direction spi = PacketAuthSenderSide) (RawSrcAddr s) st in
           case st of (off, buf) \<Rightarrow>
             bindR (snd (zeroOutMutablePath path (drop off buf))) (\<lambda>b.
             Ok (off + nat (Path_Len path), take off buf @ b))))))"

definition initCMAC :: "(bytes \<Rightarrow> bytes \<Rightarrow> bytes) \<Rightarrow> bytes \<Rightarrow> (bytes \<Rightarrow> bytes) result" where
  "initCMAC cmac key =
    (if length key \<in> {16, 24, 32} then Ok (cmac key) else Fail (Err ''unable to initialize AES cipher''))"

text \<open>The tag is the result; it is also written to the start of the output buffer.\<close>

definition ComputeAuthCMAC ::
  "(bytes \<Rightarrow> bytes \<Rightarrow> bytes) \<Rightarrow> bytes \<Rightarrow> PacketAuthOption \<Rightarrow> SCION \<Rightarrow> L4ProtocolType \<Rightarrow> bytes \<Rightarrow> bytes \<Rightarrow> bytes result" where
  "ComputeAuthCMAC cmac key opt s pldType pld auxBuffer =
     bindR (initCMAC cmac key) (\<lambda>mac.
     bindR (serializeAuthenticatedData auxBuffer s opt pldType pld) (\<lambda>(inputLen, auxBuffer).
     bindR (slice auxBuffer 0 inputLen) (\<lambda>x. Ok (mac (x @ pld)))))"

section \<open>Timestamps and keys\<close>

definition RelativeTimestamp :: "Epoch \<Rightarrow> int \<Rightarrow> u64 result" where
  "RelativeTimestamp e t =
    (let relTime = time_Sub t (NotBefore e) in
     if relTime \<ge> 2 ^ 48 then Fail (Err ''relative timestamp is bigger than 2^48-1'') else Ok (word_of_int relTime))"

definition AbsoluteTimestamp :: "Epoch \<Rightarrow> u64 \<Rightarrow> int" where
  "AbsoluteTimestamp e relTime = NotBefore e + sint relTime"

record FakeProvider =
  EpochDuration :: int
  AcceptanceWindow :: int

record ASHostKey =
  HostKey :: Key
  HostEpoch :: Epoch

text \<open>Durations are in nanoseconds; the division of integers truncates.\<close>

definition fake_newEpoch :: "int \<Rightarrow> int \<Rightarrow> Epoch" where
  "fake_newEpoch idx duration =
    (let begin' = word_of_int (idx * duration) :: u32 in NewEpoch begin' (begin' + word_of_int duration))"

definition fake_duration :: "FakeProvider \<Rightarrow> int" where
  "fake_duration p = EpochDuration p sdiv Second"

definition fake_key :: "int \<Rightarrow> int \<Rightarrow> ASHostKey" where
  "fake_key idx duration = \<lparr>HostKey = replicate 16 0, HostEpoch = fake_newEpoch idx duration\<rparr>"

definition GetASHostKey :: "FakeProvider \<Rightarrow> int \<Rightarrow> IA \<Rightarrow> Host \<Rightarrow> ASHostKey result" where
  "GetASHostKey p validTime ia host =
    (let duration = fake_duration p in
     if duration = 0 then Panic else Ok (fake_key ((validTime div Second) sdiv duration) duration))"

definition getASHostTriple :: "FakeProvider \<Rightarrow> int \<Rightarrow> ASHostKey list result" where
  "getASHostTriple p validTime =
    (let duration = fake_duration p in
     if duration = 0 then Panic
     else let idx = (validTime div Second) sdiv duration in
       Ok [fake_key (idx - 1) duration, fake_key idx duration, fake_key (idx + 1) duration])"

definition Validity_Contains :: "int \<Rightarrow> int \<Rightarrow> int \<Rightarrow> bool" where
  "Validity_Contains notBefore notAfter t \<longleftrightarrow> \<not> t < notBefore \<and> \<not> t > notAfter"

definition GetKeyWithinAcceptanceWindow :: "FakeProvider \<Rightarrow> int \<Rightarrow> u64 \<Rightarrow> IA \<Rightarrow> Host \<Rightarrow> ASHostKey result" where
  "GetKeyWithinAcceptanceWindow p t timestamp dstIA dstAddr =
     bindR (getASHostTriple p t) (\<lambda>keys.
     let half = AcceptanceWindow p sdiv 2;
         valid = (\<lambda>k. Validity_Contains (t - half) (t + half) (AbsoluteTimestamp (HostEpoch (keys ! k)) timestamp)) in
     if valid 1 then Ok (keys ! 1)
     else if valid 0 then Ok (keys ! 0)
     else if valid 2 then Ok (keys ! 2)
     else Fail (Err ''no absTime falls into the acceptance window''))"


section \<open>Round trip of the option\<close>

lemma length_put_u48 [simp]: "length (put_u48 v) = 6"
  by (simp add: put_u48_def)

lemma be_u48_put:
  assumes "v < push_bit 48 1"
  shows "be_u48 (put_u48 v @ r) = v"
proof -
  have "uint v < 2 ^ 48" using assms by (simp add: word_less_def)
  then have "take_bit 48 v = v" by (simp add: word_uint_eq_iff unsigned_take_bit_eq take_bit_int_eq_self)
  then have top: "bit v n \<Longrightarrow> n < 48" for n by (metis bit_take_bit_iff)
  have dis: "a + b = a OR b" if "a AND b = 0" for a b :: u64 using that by (rule disjunctive_add_eq_or)
  have "be_u48 (put_u48 v @ r) = push_bit 40 (ucast (ucast (drop_bit 40 v) :: u8)) OR push_bit 32 (ucast (ucast (drop_bit 32 v) :: u8))
      OR ucast (ucast v :: u32)"
    unfolding be_u48_def put_u48_def
    by (simp, subst dis, rule bit_word_eqI, simp add: bit_simps, fastforce, subst dis, rule bit_word_eqI)
      (auto simp: bit_simps ac_simps)
  also have "\<dots> = v"
  proof (rule bit_word_eqI)
    fix n :: nat
    have "40 + (n - 40) = n \<or> n < 40" by linarith
    then show "bit (push_bit 40 (ucast (ucast (drop_bit 40 v) :: u8)) OR push_bit 32 (ucast (ucast (drop_bit 32 v) :: u8))
        OR ucast (ucast v :: u32) :: u64) n = bit v n"
      using top [of n] by (auto simp: bit_simps)
  qed
  finally show ?thesis .
qed

lemma packet_auth_option_roundtrip:
  assumes "PacketAuthOption_Reset opt p = Ok opt'"
  shows "ParsePacketAuthOption opt' = Ok opt' \<and> PacketAuthOption_SPI opt' = Ok (ParamSPI p)
    \<and> PacketAuthOption_Algorithm opt' = Ok (ParamAlgorithm p) \<and> PacketAuthOption_TimestampSN opt' = Ok (ParamTimestampSN p)
    \<and> PacketAuthOption_Authenticator opt' = Ok (ParamAuth p)"
proof -
  have lt: "ParamTimestampSN p < push_bit 48 1" and d: "OptType opt' = OptTypeAuthenticator"
    "OptData opt' = put_u32 (ParamSPI p) @ [ParamAlgorithm p, 0] @ put_u48 (ParamTimestampSN p) @ ParamAuth p"
    using assms by (auto simp: PacketAuthOption_Reset_def split: if_splits)
  show ?thesis
    using be_u48_put [OF lt, of "[]"] be_u32_put [of "ParamSPI p" "[]"]
    by (simp add: ParsePacketAuthOption_def PacketAuthOption_SPI_def PacketAuthOption_Algorithm_def PacketAuthOption_TimestampSN_def
        PacketAuthOption_Authenticator_def d PacketAuthOptionMetadataLen_def slice_def be_u32_put nth_append)
qed

section \<open>What is left of a path\<close>

text \<open>
  Routers change the current pointers, the segment identifiers and the router alert flags. A path without them
  is what the authenticated data contain.
\<close>

definition strip_info :: "InfoField \<Rightarrow> InfoField" where "strip_info i = i\<lparr>SegID := 0\<rparr>"

definition strip_hop :: "HopField \<Rightarrow> HopField" where
  "strip_hop h = h\<lparr>EgressRouterAlert := False, IngressRouterAlert := False\<rparr>"

definition strip :: "Decoded \<Rightarrow> Decoded" where
  "strip d = d\<lparr>PathMeta := (PathMeta d)\<lparr>CurrINF := 0, CurrHF := 0\<rparr>, InfoFields := map strip_info (InfoFields d),
     HopFields := map strip_hop (HopFields d)\<rparr>"

lemma zeroInfos_bytes:
  "zeroInfos (length is) (length pre) (pre @ concat (map InfoField_bytes is) @ post)
    = Ok (pre @ concat (map (InfoField_bytes \<circ> strip_info) is) @ post)"
proof (induction "is" arbitrary: pre)
  case (Cons i "is")
  let ?f = "[(if ConsDir i then 1 else 0) OR (if Peer i then 2 else 0), 0] :: bytes"
  have "copy_at (length pre + 2) (put_u16 0) (pre @ InfoField_bytes i @ concat (map InfoField_bytes is) @ post)
      = (pre @ InfoField_bytes (strip_info i)) @ concat (map InfoField_bytes is) @ post"
    by (simp add: copy_at_def InfoField_bytes_def strip_info_def put_u16_def)
  moreover have "length (pre @ InfoField_bytes (strip_info i)) = length pre + 8"
    using info.enc_width [of "strip_info i"] by (simp add: InfoLen_def)
  ultimately show ?case
    using Cons.IH [of "pre @ InfoField_bytes (strip_info i)"] info.enc_width [of i] by (simp add: InfoLen_def)
qed simp

lemma zeroHops_bytes:
  assumes "list_all wf_hop hs"
  shows "zeroHops (length hs) (length pre) (pre @ concat (map HopField_bytes hs) @ post)
    = Ok (pre @ concat (map (HopField_bytes \<circ> strip_hop) hs) @ post)"
  using assms
proof (induction hs arbitrary: pre)
  case (Cons h hs)
  have "(pre @ HopField_bytes h @ concat (map HopField_bytes hs) @ post)[length pre := 0]
      = (pre @ HopField_bytes (strip_hop h)) @ concat (map HopField_bytes hs) @ post"
    by (simp add: list_update_append HopField_bytes_def strip_hop_def)
  moreover have "wf_hop (strip_hop h)" "wf_hop h" using Cons.prems by (simp_all add: wf_hop_def strip_hop_def)
  then have "length (pre @ HopField_bytes (strip_hop h)) = length pre + 12" "length (HopField_bytes h) = 12"
    using hop.enc_width by (simp_all add: HopLen_def)
  ultimately show ?case
    using Cons.IH [of "pre @ HopField_bytes (strip_hop h)"] Cons.prems by simp
qed simp

lemma put_u32_line_strip:
  assumes "wf_meta m"
  shows "(put_u32 (MetaHdr_line m))[0 := 0] = put_u32 (MetaHdr_line (m\<lparr>CurrINF := 0, CurrHF := 0\<rparr>))"
proof -
  have "ucast (drop_bit 24 (MetaHdr_line (m\<lparr>CurrINF := 0, CurrHF := 0\<rparr>))) = (0 :: u8)"
    by (rule bit_word_eqI) (auto simp: MetaHdr_line_def bit_simps and_3F)
  moreover have "ucast (drop_bit k (MetaHdr_line m)) = (ucast (drop_bit k (MetaHdr_line (m\<lparr>CurrINF := 0, CurrHF := 0\<rparr>))) :: u8)"
    if "k \<le> 16" for k
    using that by (intro bit_word_eqI) (auto simp: MetaHdr_line_def bit_simps and_3F)
  from this [of 16] this [of 8] this [of 0] show ?thesis using calculation by (simp add: put_u32_def)
qed


lemma wf_base_hop_count:
  assumes "wf_base b"
  shows "sum_list (map unat (take (nat (NumINF b)) (SegLen (PathMeta b)))) = nat (NumHops b)"
proof -
  obtain x y z where sl: "SegLen (PathMeta b) = [x, y, z]" using assms by (auto simp: wf_base_def wf_meta_def length_eq_3)
  have hops: "nat (NumHops b) = unat x + unat y + unat z" using assms by (simp add: wf_base_def sl nat_add_distrib)
  have seg: "0 < x \<longleftrightarrow> 0 < NumINF b" "0 < y \<longleftrightarrow> 1 < NumINF b" "0 < z \<longleftrightarrow> 2 < NumINF b"
    using assms by (simp_all add: wf_base_def sl all_less_3)
  have "NumINF b = 0 \<or> NumINF b = 1 \<or> NumINF b = 2 \<or> NumINF b = 3" using wf_base_bounds [OF assms] by auto
  then show ?thesis
    by (elim disjE) (use seg in \<open>simp_all add: sl hops word_gt_0\<close>)
qed

lemma zeroOutWithBase_bytes:
  assumes wf: "wf_decoded d" and b: "PathMeta b = PathMeta d" "NumINF b = NumINF d"
  shows "zeroOutWithBase b (path_bytes d @ post) = Ok (path_bytes (strip d) @ post)"
proof -
  define m where "m = put_u32 (MetaHdr_line (PathMeta (strip d)))"
  have len: "length m = 4" by (simp add: m_def)
  have meta: "(path_bytes d @ post)[0 := 0] = m @ concat (map InfoField_bytes (InfoFields d)) @ concat (map HopField_bytes (HopFields d)) @ post"
    using put_u32_line_strip [of "PathMeta d"] wf
    by (simp add: path_bytes_def list_update_append m_def strip_def wf_decoded_def wf_base_def)
  have n: "length (InfoFields d) = nat (NumINF b)" "length (HopFields d) = nat (NumHops d)" using wf b by (simp_all add: wf_decoded_def)
  have hops: "sum_list (map unat (take (nat (NumINF b)) (SegLen (PathMeta b)))) = length (HopFields d)"
    using wf_base_hop_count [of d] wf b n by (simp add: wf_decoded_def)
  have "zeroInfos (nat (NumINF b)) 4 ((path_bytes d @ post)[0 := 0])
      = Ok ((m @ concat (map (InfoField_bytes \<circ> strip_info) (InfoFields d))) @ concat (map HopField_bytes (HopFields d)) @ post)"
    using zeroInfos_bytes [of "InfoFields d" m "concat (map HopField_bytes (HopFields d)) @ post"] len n unfolding meta by simp
  moreover have "length (m @ concat (map (InfoField_bytes \<circ> strip_info) (InfoFields d))) = 4 + 8 * nat (NumINF b)"
    using info.length_concat_enc [of "map strip_info (InfoFields d)"] len n by (simp add: InfoLen_def comp_def list_all_iff)
  moreover have "path_bytes d @ post \<noteq> []" by (simp add: path_bytes_def put_u32_def)
  ultimately show ?thesis
    using zeroHops_bytes [of "HopFields d" "m @ concat (map (InfoField_bytes \<circ> strip_info) (InfoFields d))" post] wf
    by (simp add: zeroOutWithBase_def hops wf_decoded_def path_bytes_def strip_def m_def comp_def)
qed

text \<open>A raw path whose reserved bits are zero, as the serializer writes them.\<close>

definition canonical :: "Raw \<Rightarrow> bool" where
  "canonical s \<longleftrightarrow> wf_raw s \<and> (\<forall>d. refines s d \<longrightarrow> RawBytes s = path_bytes d)"

lemma refines_unique:
  assumes "refines s d" and "refines s d'"
  shows "d = d'"
proof -
  have "InfoFields d = InfoFields d'" "HopFields d = HopFields d'"
    using assms by (auto simp: refines_def intro!: nth_equalityI)
  moreover have "Base.truncate d = Base.truncate d'" using assms by (simp add: refines_def)
  ultimately show ?thesis by (cases d; cases d') (simp add: Base.truncate_def)
qed

lemma refines_wf: "refines s d \<Longrightarrow> wf_decoded d \<and> wf_raw s"
  using wf_raw_refines_Decoded [of s] refines_unique [of s d] by (auto simp: refines_def)


lemma canonicalI: "refines s d \<Longrightarrow> RawBytes s = path_bytes d \<Longrightarrow> canonical s"
  by (metis canonical_def refines_wf refines_unique)

lemma canonicalD: "canonical s \<Longrightarrow> refines s d \<Longrightarrow> RawBytes s = path_bytes d"
  by (simp add: canonical_def)

lemma canonical_SetInfoField:
  assumes "canonical s" and "SetInfoField s x (uint (CurrINF (PathMeta s))) = Ok s1"
  shows "canonical s1"
proof -
  define i where "i = unat (CurrINF (PathMeta s))"
  have i: "uint (CurrINF (PathMeta s)) = int i" by (simp add: i_def)
  obtain d where d: "refines s d" using assms(1) wf_raw_refines_Decoded by (auto simp: canonical_def)
  have lt: "i < nat (NumINF s)" using assms(2) by (auto simp: SetInfoField_def i split: if_splits)
  obtain r' where r': "SetInfoField s x (int i) = Ok r'" "refines r' (d\<lparr>InfoFields := (InfoFields d)[i := x]\<rparr>)"
    using SetInfoField_refines [OF d lt] by blast
  then have s1: "refines s1 (d\<lparr>InfoFields := (InfoFields d)[i := x]\<rparr>)" using assms(2) i by simp
  define off where "off = MetaLen + InfoLen * i"
  have bound: "off + InfoLen \<le> length (RawBytes s)"
    using wf_raw_length [of s] assms(1) lt by (simp add: canonical_def off_def path_lens)
  have "length (InfoField_bytes x) = InfoLen" by (rule info.enc_width) simp
  then have "SetInfoField s x (int i) = Ok (s\<lparr>RawBytes := copy_at off (InfoField_bytes x) (RawBytes s)\<rparr>)"
    using lt bound by (simp add: SetInfoField_def Let_def sliceI_def slice_def nat_add_distrib nat_mult_distrib
        InfoField_SerializeTo_def copy_at_0 mult.commute off_def)
  then have b: "RawBytes s1 = copy_at off (InfoField_bytes x) (RawBytes s)" using assms(2) i by auto
  have len: "i < length (InfoFields d)" using d lt by (simp add: refines_def)
  have "RawBytes s1 = path_bytes (d\<lparr>InfoFields := (InfoFields d)[i := x]\<rparr>)"
    using info.update_concat [OF _ _ len, where x = x and pre = "put_u32 (MetaHdr_line (PathMeta d))"
        and post = "concat (map HopField_bytes (HopFields d))"]
    unfolding b canonicalD [OF assms(1) d] by (simp add: path_bytes_def off_def MetaLen_def list_all_iff)
  then show ?thesis using s1 by (rule canonicalI [rotated])
qed

lemma canonical_put_info: "canonical s \<Longrightarrow> put_info b s x = Ok s1 \<Longrightarrow> canonical s1"
  using canonical_SetInfoField by (auto simp: put_info_def split: if_splits)

lemma canonical_advance:
  assumes "canonical s" and "advance s = Ok s'"
  shows "canonical s'"
proof -
  obtain d where d: "refines s d" using assms(1) wf_raw_refines_Decoded by (auto simp: canonical_def)
  note ref = advance_refines [OF d assms(2)]
  have base: "snd (Base_IncPath s) = Ok ()" using ref refines_Base [OF d] by (simp add: Base_IncPath_def Let_def split: if_splits)
  have wf: "wf_raw (fst (Base_IncPath s))" "RawBytes (fst (Base_IncPath s)) = RawBytes s"
    using assms(1) wf_base_IncPath [of s] by (auto simp: canonical_def wf_raw_def Base_Len_def Base_IncPath_def Let_def)
  have "s' = fst (Raw_write_meta (fst (Base_IncPath s)))"
    using assms(2) base by (cases "Base_IncPath s") (auto simp: advance_def mapR_eq_Ok Raw_IncPath_def)
  then have s': "RawBytes s' = copy_at 0 (put_u32 (MetaHdr_line (PathMeta s'))) (RawBytes s)" "PathMeta s' = PathMeta (fst (Base_IncPath s))"
    using Raw_write_meta_wf [OF wf(1)] wf(2) by simp_all
  have "PathMeta (fst (Base_IncPath d)) = PathMeta s'" using ref refines_Base [of s' "fst (Base_IncPath d)"] by simp
  moreover have "InfoFields (fst (Base_IncPath d)) = InfoFields d" "HopFields (fst (Base_IncPath d)) = HopFields d"
    by (simp_all add: Base_IncPath_def Let_def)
  ultimately have "RawBytes s' = path_bytes (fst (Base_IncPath d))"
    using s'(1) canonicalD [OF assms(1) d] by (simp add: path_bytes_def copy_at_0)
  then show ?thesis using ref by (blast intro: canonicalI)
qed

lemma strip_chain_segid: "strip (chain_segid b d) = strip d"
proof -
  have "map strip_info (xs[i := UpdateSegID (xs ! i) m]) = map strip_info xs" for xs i m
    by (cases "i < length xs")
      (auto simp: map_update strip_info_def UpdateSegID_def not_less list_update_beyond intro!: list_update_same_conv [THEN iffD2])
  then show ?thesis by (simp add: chain_segid_def strip_def cur_info_def)
qed

lemma strip_IncPath: "strip (fst (Base_IncPath d)) = strip d"
  by (simp add: strip_def Base_IncPath_def Let_def)

lemma strip_routed_path: "strip (routed_path inbound ingress peer ext d) = strip d"
  by (simp add: routed_path_def forward_path_def Let_def strip_chain_segid strip_IncPath)


section \<open>Authentication survives forwarding\<close>

definition with_raw :: "SCION \<Rightarrow> Raw \<Rightarrow> SCION" where
  "with_raw scn s = scn\<lparr>SPath := (case SPath scn of
       Some (EpicPath e) \<Rightarrow> Some (EpicPath (e\<lparr>EpicScionPath := Some s\<rparr>)) | _ \<Rightarrow> Some (ScionRawPath s))\<rparr>"

lemma Raw_SerializeTo_canonical:
  assumes "canonical s" and "refines s d"
  shows "Raw_SerializeTo s b = (s, if int (length b) < Base_Len s then Fail (Err ''buffer too small'')
    else Ok (path_bytes d @ drop (length (path_bytes d)) b))"
proof -
  have wf: "wf_raw s" using assms(1) by (simp add: canonical_def)
  note rb = canonicalD [OF assms]
  have len: "int (length (RawBytes s)) = Base_Len s" using wf by (simp add: wf_raw_def)
  have "PathMeta s = PathMeta d" using refines_Base [OF assms(2)] by simp
  then have "copy_at 0 (put_u32 (MetaHdr_line (PathMeta s))) (RawBytes s) = RawBytes s"
    by (simp add: rb path_bytes_def copy_at_0)
  moreover have "RawBytes s \<noteq> []" by (simp add: rb path_bytes_def put_u32_def)
  ultimately show ?thesis
    using len by (auto simp: Raw_SerializeTo_def Raw_write_meta_wf [OF wf] rb copy_at_0)
qed

lemma zeroOut_canonical:
  assumes "canonical s" and "refines s d"
  shows "snd (zeroOutMutablePath (ScionRawPath s) b) = (if int (length b) < Base_Len s
      then Fail (WrapStr ''serializing path for resetting fields'' (Err ''buffer too small''))
      else Ok (path_bytes (strip d) @ drop (length (path_bytes d)) b))"
  using zeroOutWithBase_bytes [of d s] refines_wf [OF assms(2)] refines_Base [OF assms(2)]
  by (simp add: zeroOutMutablePath_def Raw_SerializeTo_canonical [OF assms] wrapR_def)


lemma zeroOut_epic_canonical:
  assumes "canonical s" and "refines s d" and wf: "length (PHVF e) = HVFLen" "length (LHVF e) = HVFLen" and e: "EpicScionPath e = Some s"
  shows "snd (zeroOutMutablePath (EpicPath e) b) = (if int (length b) < int MetadataLen + Base_Len s
      then Fail (WrapStr ''serializing path for resetting fields'' (Err ''buffer too small to serialize path.''))
      else Ok (epic_meta_bytes e @ path_bytes (strip d) @ drop (MetadataLen + length (path_bytes d)) b))"
proof -
  have len: "epic_Len e = int MetadataLen + Base_Len s" using e by (simp add: epic_Len_def)
  have wfe: "wf_epic e" using assms by (simp add: wf_epic_def canonical_def)
  have pos: "0 < Base_Len s" using assms(1) Base_Len_pos [of s] by (simp add: canonical_def wf_raw_def)
  show ?thesis
  proof (cases "int (length b) < int MetadataLen + Base_Len s")
    case True
    then show ?thesis by (simp add: zeroOutMutablePath_def epic_SerializeTo_def len)
  next
    case False
    then have l16: "16 \<le> length b" using pos by (simp add: epic_lens)
    note m = epic_meta_written [OF wfe l16]
    have ml: "length (epic_meta_bytes e) = 16" using length_epic_meta [OF wfe] by (simp add: epic_lens)
    have keep: "e\<lparr>EpicScionPath := Some s\<rparr> = e" using e by (cases e) simp
    have "Raw_SerializeTo s (drop MetadataLen (epic_meta_bytes e @ drop 16 b))
        = (s, Ok (path_bytes d @ drop (length (path_bytes d)) (drop 16 b)))"
      using False l16 ml by (simp add: Raw_SerializeTo_canonical [OF assms(1,2)] epic_lens)
    moreover have "copy_at MetadataLen (path_bytes d @ drop (length (path_bytes d)) (drop 16 b)) (epic_meta_bytes e @ drop 16 b)
        = epic_meta_bytes e @ path_bytes d @ drop (16 + length (path_bytes d)) b"
      using ml by (simp add: copy_at_def epic_lens add.commute)
    ultimately have ser: "epic_SerializeTo e b = (e, Ok (epic_meta_bytes e @ path_bytes d @ drop (16 + length (path_bytes d)) b))"
      using False wf unfolding epic_SerializeTo_def e option.case m(1) result.case Let_def m(2) by (simp add: len keep)
    show ?thesis
      using False e zeroOutWithBase_bytes [of d s] refines_wf [OF assms(2)] refines_Base [OF assms(2)] ml
      by (simp add: zeroOutMutablePath_def ser epic_lens)
  qed
qed

lemma path_bytes_length: "refines s d \<Longrightarrow> int (length (path_bytes d)) = Base_Len s"
  using length_path_bytes [of d] refines_wf [of s d] refines_Base [of s d] by (simp add: Base_Len_def)

lemma auth_data_same:
  assumes "wf_scion scn" and "raw_path scn = Some s" and s: "canonical s" "refines s d" and s': "canonical s'" "refines s' d'"
    and strip: "strip d' = strip d"
  shows "serializeAuthenticatedData buf (with_raw scn s') opt t pld = serializeAuthenticatedData buf scn opt t pld"
proof -
  have "NumINF d' = NumINF d" "NumHops d' = NumHops d" using arg_cong [OF strip, of NumINF] arg_cong [OF strip, of NumHops]
    by (simp_all add: strip_def)
  then have bl: "Base_Len s' = Base_Len s" using refines_Base [OF s(2)] refines_Base [OF s'(2)] by (simp add: Base_Len_def)
  then have pl: "length (path_bytes d') = length (path_bytes d)" using path_bytes_length [OF s(2)] path_bytes_length [OF s'(2)] by simp
  have hdr: "AddrHdrLen (with_raw scn s') = AddrHdrLen scn" by (simp add: with_raw_def AddrHdrLen_def)
  obtain p p' where p: "SPath scn = Some p" "SPath (with_raw scn s') = Some p'" "Path_Len p' = Path_Len p"
      "\<And>b. snd (zeroOutMutablePath p' b) = snd (zeroOutMutablePath p b)"
  proof (cases "\<exists>e. SPath scn = Some (EpicPath e)")
    case True
    then obtain e where e: "SPath scn = Some (EpicPath e)" "EpicScionPath e = Some s" using assms(2) by (auto simp: raw_path.simps)
    have w: "length (PHVF e) = HVFLen" "length (LHVF e) = HVFLen" using assms(1) e by (simp_all add: wf_scion_def wf_epic_def)
    have eq: "epic_meta_bytes (e\<lparr>EpicScionPath := Some s'\<rparr>) = epic_meta_bytes e" by (simp add: epic_meta_bytes_def)
    have "snd (zeroOutMutablePath (EpicPath (e\<lparr>EpicScionPath := Some s'\<rparr>)) b) = snd (zeroOutMutablePath (EpicPath e) b)" for b
      using zeroOut_epic_canonical [OF s w e(2), of b] zeroOut_epic_canonical [OF s', of "e\<lparr>EpicScionPath := Some s'\<rparr>" b] w
      by (simp add: strip bl pl eq)
    then show ?thesis
      using e bl by (intro that [of "EpicPath e" "EpicPath (e\<lparr>EpicScionPath := Some s'\<rparr>)"]) (simp_all add: with_raw_def epic_Len_def)
  next
    case False
    then have e: "SPath scn = Some (ScionRawPath s)" using assms(2) by (auto simp: raw_path.simps split: option.splits Path.splits)
    have "snd (zeroOutMutablePath (ScionRawPath s') b) = snd (zeroOutMutablePath (ScionRawPath s) b)" for b
      using zeroOut_canonical [OF s, of b] zeroOut_canonical [OF s', of b] by (simp add: strip bl pl)
    then show ?thesis using e bl by (intro that [of "ScionRawPath s" "ScionRawPath s'"]) (simp_all add: with_raw_def)
  qed
  have sel: "Version (with_raw scn s') = Version scn" "TrafficClass (with_raw scn s') = TrafficClass scn" "FlowID (with_raw scn s') = FlowID scn"
    "SPathType (with_raw scn s') = SPathType scn" "DstAddrType (with_raw scn s') = DstAddrType scn" "SrcAddrType (with_raw scn s') = SrcAddrType scn"
    "DstIA (with_raw scn s') = DstIA scn" "SrcIA (with_raw scn s') = SrcIA scn" "RawDstAddr (with_raw scn s') = RawDstAddr scn"
    "RawSrcAddr (with_raw scn s') = RawSrcAddr scn"
    by (simp_all add: with_raw_def)
  show ?thesis unfolding serializeAuthenticatedData_def p(1,2) option.case p(3,4) hdr sel ..
qed

lemma routed_canonical:
  assumes "canonical s" and "arrives E (start_of p0 s) s hf info peer s1"
    and "inb \<Longrightarrow> delivers E p1 s1 q r"
    and "\<not> inb \<Longrightarrow> \<exists>hf' info' s2 xo. departs E p1 s1 hf' info' s2 xo \<and> sends E p1 hf' info' s2 q r"
    and "pathOf q = Some s'"
  shows "canonical s'"
proof -
  have s1: "canonical s1" using assms(2) canonical_put_info [OF assms(1)] by (auto simp: arrives_def)
  show ?thesis
  proof (cases inb)
    case True
    then show ?thesis using assms(3,5) s1 by (auto simp: delivers_def)
  next
    case False
    then obtain hf' info' s2 xo where d: "departs E p1 s1 hf' info' s2 xo" "sends E p1 hf' info' s2 q r" using assms(4) by blast
    have "canonical s2" using d(1) canonical_advance [OF s1] s1 by (auto simp: departs_def split: if_splits)
    moreover have "s' = s2 \<or> (\<exists>b x s3. put_info b s2 x = Ok s3 \<and> advance s3 = Ok s')"
      using d(2) assms(5) by (auto simp: sends_def Let_def split: if_splits)
    ultimately show ?thesis using canonical_put_info canonical_advance by blast
  qed
qed

lemma nth_take_eq: "take n a = take n b \<Longrightarrow> i < n \<Longrightarrow> a ! i = b ! i"
  by (metis nth_take)

lemma take_drop_prefix: "take n a = take n b \<Longrightarrow> take (n - k) (drop k a) = take (n - k) (drop k b)"
  by (metis drop_take)

lemma DecodeAddrHdr_same:
  assumes "take (nat (AddrHdrLen s)) a = take (nat (AddrHdrLen s)) b" and "AddrHdrLen s \<le> int (length a)" and "AddrHdrLen s \<le> int (length b)"
  shows "DecodeAddrHdr s a = DecodeAddrHdr s b"
proof -
  define dst where "dst = nat (AddrType_Length (DstAddrType s))"
  define src where "src = nat (AddrType_Length (SrcAddrType s))"
  have n: "nat (AddrHdrLen s) = 16 + dst + src"
    using AddrType_Length_bounds [of "DstAddrType s"] AddrType_Length_bounds [of "SrcAddrType s"]
    by (simp add: AddrHdrLen_def IABytes_def dst_def src_def)
  have len: "16 + dst + src \<le> length a" "16 + dst + src \<le> length b" using assms(2,3) n by linarith+
  have nth: "a ! i = b ! i" if "i < 16" for i using nth_take_eq [OF assms(1), of i] that n by simp
  have ia: "be_u64 a = be_u64 b" "be_u64 (drop IABytes a) = be_u64 (drop IABytes b)"
    using nth len by (simp_all add: be_u64_def IABytes_def)
  have "take dst (drop 16 a) = take dst (drop 16 b)" "take src (drop (16 + dst) a) = take src (drop (16 + dst) b)"
    by (rule take_drop_eq [OF assms(1)], simp add: n)+
  then have "slice a 16 (16 + dst) = slice b 16 (16 + dst)" "slice a (16 + dst) (16 + dst + src) = slice b (16 + dst) (16 + dst + src)"
    using len by (simp_all add: slice_def)
  then show ?thesis
    using assms(2,3) ia unfolding DecodeAddrHdr_def Let_def dst_def [symmetric] src_def [symmetric] by (simp add: IABytes_def)
qed

text \<open>The header of a packet of which only the path was replaced.\<close>

lemma SCION_decode_same_header:
  assumes dec: "SCION_DecodeFromBytes g s raw = Ok scn" and len: "length out = length raw"
    and off: "off = nat (CmnHdrLen + AddrHdrLen scn)" and n: "n = 4 * unat (HdrLen scn)"
    and pre: "take off out = take off raw"
    and path: "\<And>q path. SPath scn = Some path \<Longrightarrow> Path_DecodeFromBytes q (take (n - off) (drop off raw)) = Ok path
      \<Longrightarrow> Path_DecodeFromBytes q (take (n - off) (drop off out)) = Ok path'"
  shows "SCION_DecodeFromBytes g s out = Ok (scn\<lparr>SPath := Some path', Contents := take n out, Payload := drop n out\<rparr>)"
proof -
  define s1 where "s1 data = s\<lparr>Version := ucast (drop_bit 28 (be_u32 data)),
      TrafficClass := ucast (drop_bit 20 (be_u32 data) AND 0xFF), FlowID := be_u32 data AND 0xFFFFF,
      NextHdr := data ! 4, HdrLen := data ! 5, PayloadLen := be_u16 (drop 6 data), SPathType := data ! 8,
      DstAddrType := drop_bit 4 (data ! 9) AND 0xF, SrcAddrType := data ! 9 AND 0xF\<rparr>" for data
  note unf = SCION_DecodeFromBytes_def Let_def s1_def [symmetric]
  obtain s2 q pb p0 c where d: "CmnHdrLen \<le> int (length raw)" "DecodeAddrHdr (s1 raw) (drop (nat CmnHdrLen) raw) = Ok s2"
      "0 \<le> uint (HdrLen s2) * LineLen - CmnHdrLen - AddrHdrLen s2"
      "CmnHdrLen + AddrHdrLen s2 + (uint (HdrLen s2) * LineLen - CmnHdrLen - AddrHdrLen s2) \<le> int (length raw)"
      "getPath g s2 (SPathType s2) = Ok q"
      "sliceI raw (CmnHdrLen + AddrHdrLen s2) (CmnHdrLen + AddrHdrLen s2 + (uint (HdrLen s2) * LineLen - CmnHdrLen - AddrHdrLen s2)) = Ok pb"
      "Path_DecodeFromBytes q pb = Ok p0"
      "scn = s2\<lparr>SPath := Some p0, Contents := c, Payload := drop (nat (uint (HdrLen s2) * LineLen)) raw\<rparr>"
    using dec unfolding unf by (auto simp: bindR_eq_Ok not_less split: if_splits)
  have scn: "AddrHdrLen scn = AddrHdrLen s2" "HdrLen scn = HdrLen s2" "SPath scn = Some p0" using d(8) by (simp_all add: AddrHdrLen_def)
  have pos: "0 \<le> AddrHdrLen s2" using AddrHdrLen_bounds [of s2] by simp
  have off': "off = 12 + nat (AddrHdrLen s2)" using pos by (simp add: off scn CmnHdrLen_def)
  have n': "nat (uint (HdrLen s2) * LineLen) = n" by (simp add: n scn LineLen_def nat_mult_distrib)
  have le: "off \<le> n" "n \<le> length raw" using d(3,4) pos unfolding n' [symmetric] off' by (simp_all add: CmnHdrLen_def)
  have nth: "out ! i = raw ! i" if "i < 12" for i using nth_take_eq [OF pre, of i] that off' by simp
  have s1: "s1 out = s1 raw" using nth len d(1) by (simp add: s1_def be_u32_def be_u16_def CmnHdrLen_def)
  obtain dd rr where "s2 = (s1 raw)\<lparr>DstIA := be_u64 (drop (nat CmnHdrLen) raw), SrcIA := be_u64 (drop IABytes (drop (nat CmnHdrLen) raw)),
      RawDstAddr := dd, RawSrcAddr := rr\<rparr>"
    using d(2) unfolding DecodeAddrHdr_def Let_def by (auto simp: bindR_eq_Ok split: if_splits)
  then have al: "AddrHdrLen (s1 raw) = AddrHdrLen s2" by (simp add: AddrHdrLen_def)
  have "take (nat (AddrHdrLen s2)) (drop 12 out) = take (nat (AddrHdrLen s2)) (drop 12 raw)"
    by (rule take_drop_eq [OF pre]) (simp add: off')
  moreover have "int off \<le> int (length raw)" using le by linarith
  ultimately have addr: "DecodeAddrHdr (s1 raw) (drop (nat CmnHdrLen) out) = Ok s2"
    using DecodeAddrHdr_same [of "s1 raw" "drop 12 out" "drop 12 raw"] d(2) len le pos unfolding al off' by (simp add: CmnHdrLen_def)
  have sl: "sliceI data (CmnHdrLen + AddrHdrLen s2) (CmnHdrLen + AddrHdrLen s2 + (uint (HdrLen s2) * LineLen - CmnHdrLen - AddrHdrLen s2))
      = Ok (take (n - off) (drop off data))" if "length data = length raw" for data
    using that le pos d(3,4) off unfolding scn n' [symmetric] by (simp add: sliceI_def slice_def nat_diff_distrib' CmnHdrLen_def)
  from sl [OF refl] have "pb = take (n - off) (drop off raw)" using d(6) by simp
  then have "Path_DecodeFromBytes q (take (n - off) (drop off out)) = Ok path'" using path [OF scn(3)] d(7) by simp
  moreover have "sliceI out 0 (uint (HdrLen s2) * LineLen) = Ok (take n out)"
    using le len n' by (simp add: sliceI_prefix LineLen_def nat_le_iff [symmetric])
  ultimately show ?thesis
    using d(1,3-5) len n' d(8) addr sl [OF len] unfolding unf s1 by (simp add: not_less)
qed

text \<open>The path of the packet that leaves, as the decoder of the next host reads it.\<close>

lemma Path_decode_replaced:
  assumes path: "SPath scn = Some path" "raw_path scn = Some s" "Path_DecodeFromBytes q (take (n - off) (drop off raw)) = Ok path"
    and off: "off = nat (CmnHdrLen + AddrHdrLen scn)" and n: "path_start scn + length (RawBytes s) \<le> n" "n \<le> length raw"
    and len: "length out = length raw" and pre: "take (path_start scn) out = take (path_start scn) raw"
    and s': "wf_raw s'" "in_sync s'" "length (RawBytes s') = length (RawBytes s)" "path_lies out (path_start scn) s'"
  shows "Path_DecodeFromBytes q (take (n - off) (drop off out)) = Ok (the (SPath (with_raw scn s')))"
proof -
  have raw: "Raw_DecodeFromBytes (drop k (take (n - off) (drop off out))) = Ok s'" if "path_start scn = off + k" for k
  proof (rule Raw_decode_again [OF s'(1,2)])
    have "take (length (RawBytes s')) (drop k (take (n - off) (drop off out))) = take (length (RawBytes s')) (drop (off + k) out)"
      using n(1) s'(3) that by (simp add: drop_take add.commute min_def)
    then show "take (length (RawBytes s')) (drop k (take (n - off) (drop off out))) = RawBytes s'"
      using s'(4) that by (simp add: path_lies_def)
  qed
  consider "path = ScionRawPath s" | e where "path = EpicPath e" "EpicScionPath e = Some s"
    using path(1,2) by (auto simp: raw_path.simps split: Path.splits)
  then show ?thesis
  proof cases
    case 1
    then have "path_start scn = off + 0" using path(1) by (simp add: path_start_def off)
    from raw [OF this] 1 path(1,3) show ?thesis by (cases q) (auto simp: mapR_eq_Ok with_raw_def)
  next
    case 2
    then have st: "path_start scn = off + MetadataLen" using path(1) by (simp add: path_start_def off)
    define b where "b = take (n - off) (drop off raw)"
    define b' where "b' = take (n - off) (drop off out)"
    have bl: "MetadataLen \<le> length b" "length b' = length b" using n len st by (simp_all add: b_def b'_def)
    have "take MetadataLen (drop off out) = take MetadataLen (drop off raw)" by (rule take_drop_eq [OF pre]) (simp add: st)
    then have same: "take MetadataLen b' = take MetadataLen b" using n st by (simp add: b_def b'_def min_def)
    have sl: "slice b' i j = slice b i j" if "j \<le> MetadataLen" for i j
      using that bl take_drop_eq [OF same, of i "j - i"] by (auto simp: slice_def)
    obtain x where q: "q = EpicPath x" "epic_DecodeFromBytes b = Ok e" using path(3) 2(1) by (cases q) (auto simp: mapR_eq_Ok b_def)
    then have "epic_DecodeFromBytes b' = Ok (e\<lparr>EpicScionPath := Some s'\<rparr>)"
      using raw [OF st] bl sl unfolding epic_DecodeFromBytes_def b'_def [symmetric]
      by (auto simp: bindR_eq_Ok epic_lens split: if_splits)
    then show ?thesis using q 2(1) path(1) by (simp add: with_raw_def b'_def)
  qed
qed

lemma canonical_sync:
  assumes "canonical s" shows "in_sync s"
proof -
  obtain d where d: "refines s d" using assms wf_raw_refines_Decoded by (auto simp: canonical_def)
  have "wf_meta (PathMeta s)" using assms by (simp add: canonical_def wf_raw_def wf_base_def)
  then show ?thesis using canonicalD [OF assms d] refines_Base [OF d] by (simp add: in_sync_def path_bytes_def MetaHdr_dec_line)
qed

lemma auth_data_contents:
  "serializeAuthenticatedData buf (u\<lparr>Contents := c, Payload := y\<rparr>) opt t pld = serializeAuthenticatedData buf u opt t pld"
proof -
  let ?u = "u\<lparr>Contents := c, Payload := y\<rparr>"
  have sel: "Version ?u = Version u" "TrafficClass ?u = TrafficClass u" "FlowID ?u = FlowID u" "SPathType ?u = SPathType u"
    "DstAddrType ?u = DstAddrType u" "SrcAddrType ?u = SrcAddrType u" "DstIA ?u = DstIA u" "SrcIA ?u = SrcIA u"
    "RawDstAddr ?u = RawDstAddr u" "RawSrcAddr ?u = RawSrcAddr u" "SPath ?u = SPath u" "AddrHdrLen ?u = AddrHdrLen u"
    by (simp_all add: AddrHdrLen_def)
  show ?thesis unfolding serializeAuthenticatedData_def sel ..
qed

text \<open>C25: the authenticator of an end host survives the routers. Of a packet whose path has its reserved bits zero, as
  every serializer writes them (the routers zero those of an info field they update, and they are authenticated), decode
  the bytes the router sends on: whatever the option and the payload, the data the packet authenticator covers, and
  with every key the authenticator itself, are those of the packet that came in. Without a hop-by-hop header the
  payload is the same too.\<close>

theorem spao_survives_forwarding:
  assumes "processPkt E raw src ingress p = (q, Ret r None)" and "OutPkt r = Some out"
    and "SCION_DecodeFromBytes (pathRegistry E) (scionLayer p) raw = Ok scn" and "raw_path scn = Some s" and "canonical s"
  shows "\<exists>scn'. SCION_DecodeFromBytes (pathRegistry E) (scionLayer p) out = Ok scn'
    \<and> (\<forall>buf opt t pld. serializeAuthenticatedData buf scn' opt t pld = serializeAuthenticatedData buf scn opt t pld)
    \<and> (\<forall>cmac key opt t pld buf. ComputeAuthCMAC cmac key opt scn' t pld buf = ComputeAuthCMAC cmac key opt scn t pld buf)
    \<and> (NextHdr scn \<noteq> HopByHopClass \<longrightarrow> Payload scn' = Payload scn)"
proof -
  obtain d where d: "refines s d" using assms(5) wf_raw_refines_Decoded by (auto simp: canonical_def)
  have out: "OutPkt r \<noteq> None" using assms(2) by simp
  obtain p0 hf info peer s1 p1 where f: "decoded raw src ingress scn p p0" "process E (start_of p0 s) = (q, Ret r None)"
    "arrives E (start_of p0 s) s hf info peer s1" "arrived (start_of p0 s) hf info peer s1 p1"
    "DstIA scn = localIA (plane p) \<Longrightarrow> delivers E p1 s1 q r"
    "DstIA scn \<noteq> localIA (plane p) \<Longrightarrow> \<exists>hf' info' s2 xo. departs E p1 s1 hf' info' s2 xo \<and> sends E p1 hf' info' s2 q r"
    using forwarded_ok [OF assms(1) out assms(3,4)] by blast
  have q: "out = rawPkt q"
    using f(5,6) assms(2) by (cases "DstIA scn = localIA (plane p)") (auto simp: delivers_def sends_def Let_def)
  note lies = decoded_path_lies [OF assms(3,4)]
  have laid: "laid (start_of p0 s) (length (RawBytes s)) q" using process_laid [OF start_lay [OF f(1) assms(3,4)] f(2)] .
  note b = laid_bytes [OF f(1) laid, of, unfolded q [symmetric]]
  obtain s' where s': "pathOf q = Some s'" "refines s' (routed_path (DstIA scn = localIA (plane p)) ingress peer (OutAddr r = None) d)"
    using routed_refines [OF f(1,3,4,5,6) d] by blast
  have can: "canonical s'" using routed_canonical [OF assms(5) f(3,5,6) s'(1)] .
  have wf: "wf_scion scn" using SCION_DecodeFromBytes_safe [of "pathRegistry E" "scionLayer p" raw] assms(3) by simp
  have at: "path_lies out (path_start scn) s'" "length (RawBytes s') = length (RawBytes s)"
    using b(5) [OF _ s'(1)] lies laid s'(1) by (auto simp: laid_def)
  have bytes: "length out = length raw" "take (path_start scn) out = take (path_start scn) raw" using b(1,2) lies by simp_all
  define scn' where "scn' = (with_raw scn s')\<lparr>Contents := take (4 * unat (HdrLen scn)) out, Payload := drop (4 * unat (HdrLen scn)) out\<rparr>"
  have "take (nat (CmnHdrLen + AddrHdrLen scn)) out = take (nat (CmnHdrLen + AddrHdrLen scn)) raw"
    by (rule take_eq_le [OF bytes(2)]) (simp add: path_start_def)
  from SCION_decode_same_header [OF assms(3) bytes(1) refl refl this, of "the (SPath (with_raw scn s'))"]
  have dec: "SCION_DecodeFromBytes (pathRegistry E) (scionLayer p) out = Ok scn'"
    using Path_decode_replaced [OF _ assms(4) _ refl _ _ bytes _ canonical_sync [OF can] at(2,1)] lies can
    by (auto simp: scn'_def with_raw_def canonical_def split: option.splits Path.splits)
  have data: "serializeAuthenticatedData buf scn' opt t pld = serializeAuthenticatedData buf scn opt t pld" for buf opt t pld
    unfolding scn'_def auth_data_contents by (rule auth_data_same [OF wf assms(4,5) d can s'(2) strip_routed_path])
  moreover have "ComputeAuthCMAC cmac key opt scn' t pld buf = ComputeAuthCMAC cmac key opt scn t pld buf" for cmac key opt t pld buf
    by (simp add: ComputeAuthCMAC_def data)
  moreover have "Payload scn' = Payload scn" if "NextHdr scn \<noteq> HopByHopClass"
  proof -
    have "drop (path_start scn + length (RawBytes s)) out = drop (path_start scn + length (RawBytes s)) raw" using b(4) that lies by blast
    from arg_cong [OF this, of "drop (4 * unat (HdrLen scn) - (path_start scn + length (RawBytes s)))"] lies
    show ?thesis by (simp add: scn'_def)
  qed
  ultimately show ?thesis using dec by blast
qed

theorem spao_survives_forwarding_witness:
  "\<exists>scn scn'. SCION_DecodeFromBytes (pathRegistry sample_envir) (scionLayer sample_processor) sample_packet = Ok scn
     \<and> SCION_DecodeFromBytes (pathRegistry sample_envir) (scionLayer sample_processor) sample_out = Ok scn'
     \<and> (\<forall>buf opt t pld. serializeAuthenticatedData buf scn' opt t pld = serializeAuthenticatedData buf scn opt t pld)"
proof -
  have "Raw_DecodeFromBytes (RawBytes sample_route) = Ok sample_route" by code_simp
  then obtain d where d: "refines sample_route d" using raw_prefix(1) wf_raw_refines_Decoded by blast
  have "snd (ToDecoded sample_route) = Ok d" using ToDecoded_refines [OF d] by simp
  moreover have "mapR path_bytes (snd (ToDecoded sample_route)) = Ok (RawBytes sample_route)" by code_simp
  ultimately have "canonical sample_route" using d by (auto intro: canonicalI)
  moreover obtain scn where scn: "SCION_DecodeFromBytes (pathRegistry sample_envir) (scionLayer sample_processor) sample_packet = Ok scn"
    "raw_path scn = Some sample_route" using sample_decode by blast
  moreover have "OutPkt sample_result = Some sample_out" by (simp add: sample_result_def zero_result_def)
  ultimately show ?thesis using spao_survives_forwarding [OF sample_forward _ scn] by blast
qed

section \<open>Keys for timestamps\<close>

lemma sdiv_nonneg: "0 \<le> a \<Longrightarrow> 0 < b \<Longrightarrow> a sdiv b = a div (b :: int)"
  by (cases "a = 0") (simp_all add: signed_divide_int_def)

lemma fake_epoch_begin:
  assumes "0 \<le> i * D" and "i * D < 2 ^ 32"
  shows "NotBefore (HostEpoch (fake_key i D)) = i * D * Second"
proof -
  have u: "uint (word_of_int x :: u32) = x" if "0 \<le> x" "x < 2 ^ 32" for x using that by (simp add: uint_word_of_int)
  have "NotBefore (HostEpoch (fake_key i D)) = uint (word_of_int (i * D) :: u32) * Second"
    unfolding fake_key_def fake_newEpoch_def Let_def NewEpoch_def SecsToTime_def Second_def ASHostKey.simps Epoch.simps ..
  then show ?thesis using u [OF assms] by simp
qed

text \<open>The epoch of a time, and the distance of a stamp read in another epoch.\<close>

lemma epoch_of_time:
  fixes t D :: int
  assumes "0 < D" and "D * Second \<le> t" and "t + 2 * D * Second < 2 ^ 32 * Second"
  defines "i \<equiv> (t div Second) div D"
  shows "1 \<le> i" "(i + 1) * D < 2 ^ 32" "i * D * Second \<le> t" "t < i * D * Second + D * Second"
proof -
  have i: "i = t div (Second * D)" using assms(1) by (simp add: i_def zdiv_zmult2_eq Second_def)
  have pos: "0 < Second * D" using assms(1) by (simp add: Second_def)
  show le: "i * D * Second \<le> t" and lt: "t < i * D * Second + D * Second"
    using div_mult_mod_eq [of t "Second * D"] pos_mod_bound [OF pos, of t] pos_mod_sign [OF pos, of t] unfolding i
    by (simp_all add: algebra_simps)
  have "1 * (D * Second) < (i + 1) * (D * Second)" using lt assms(2) by (simp add: algebra_simps)
  then show "1 \<le> i" using assms(1) by (simp add: Second_def mult_less_cancel_right)
  have "(i + 1) * D * Second < 2 ^ 32 * Second" using le assms(1,3) by (simp add: algebra_simps Second_def)
  then show "(i + 1) * D < 2 ^ 32" by (simp add: Second_def mult.commute)
qed

text \<open>C26: a receiver finds the key of the sender. A sender at time \<open>t\<close> stamps its packet relative to the epoch of its
  key; a receiver whose clock reads \<open>u\<close>, at most half the acceptance window away, selects the key of the same
  epoch, also across the end of an epoch. It holds for epochs that are longer than the window and end before the
  32-bit seconds do.\<close>

theorem spao_key_selected:
  assumes p: "EpochDuration p = D * Second" "0 < D" "0 \<le> AcceptanceWindow p" "AcceptanceWindow p < EpochDuration p"
    and t: "D * Second \<le> t" "t + 2 * D * Second < 2 ^ 32 * Second" "D * Second < 2 ^ 48"
    and near: "\<bar>t - u\<bar> \<le> AcceptanceWindow p div 2" and u: "D * Second \<le> u" "u + 2 * D * Second < 2 ^ 32 * Second"
    and k: "GetASHostKey p t ia h = Ok k"
  shows "\<exists>ts. RelativeTimestamp (HostEpoch k) t = Ok ts \<and> GetKeyWithinAcceptanceWindow p u ts ia' h' = Ok k"
proof -
  define i where "i = (t div Second) div D"
  define j where "j = (u div Second) div D"
  define w where "w = AcceptanceWindow p div 2"
  note et = epoch_of_time [OF p(2) t(1,2), folded i_def] and eu = epoch_of_time [OF p(2) u, folded j_def]
  have dur: "fake_duration p = D" using p(1,2) by (simp add: fake_duration_def sdiv_nonneg Second_def)
  have sd: "x div Second sdiv D = (x div Second) div D" if "0 \<le> x" for x
    using that p(2) by (simp add: sdiv_nonneg Second_def pos_imp_zdiv_nonneg_iff)
  have pos: "0 \<le> t" "0 \<le> u" using t(1) u(1) p(2) by (simp_all add: Second_def)
  have k': "k = fake_key i D" using k p(2) sd [OF pos(1)] by (simp add: GetASHostKey_def dur i_def Let_def)
  have nb: "NotBefore (HostEpoch k) = i * D * Second"
    unfolding k' using et(1,2) p(2) by (intro fake_epoch_begin) (simp_all add: algebra_simps)
  define rel where "rel = t - i * D * Second"
  have rel: "0 \<le> rel" "rel < 2 ^ 48" using et(3,4) t(3) by (simp_all add: rel_def)
  have ts: "RelativeTimestamp (HostEpoch k) t = Ok (word_of_int rel)"
    using rel by (simp add: RelativeTimestamp_def nb time_Sub_def rel_def [symmetric] Let_def)
  have sint: "sint (word_of_int rel :: u64) = rel" using rel by (simp add: sint_uint uint_word_of_int signed_take_bit_int_eq_self)
  have half: "AcceptanceWindow p sdiv 2 = w" using p(3) by (simp add: sdiv_nonneg w_def)
  have ww: "2 * w < D * Second" using p(1,4) by (simp add: w_def)
  define valid where "valid e \<longleftrightarrow> Validity_Contains (u - w) (u + w) (AbsoluteTimestamp (HostEpoch (fake_key e D)) (word_of_int rel))" for e
  have valid: "valid e \<longleftrightarrow> e = i" if "e \<in> {j - 1, j, j + 1}" for e
  proof -
    have "0 \<le> e" "e \<le> j + 1" using that eu(1) by auto
    then have "0 \<le> e * D" "e * D \<le> (j + 1) * D" using p(2) by (simp, intro mult_right_mono) simp_all
    then have "NotBefore (HostEpoch (fake_key e D)) = e * D * Second" using eu(2) by (intro fake_epoch_begin) simp_all
    then have abs: "AbsoluteTimestamp (HostEpoch (fake_key e D)) (word_of_int rel) = t + (e - i) * (D * Second)"
      unfolding AbsoluteTimestamp_def sint by (simp add: rel_def algebra_simps)
    have "D * Second \<le> \<bar>(e - i) * (D * Second)\<bar>" if "e \<noteq> i"
      using that p(2) mult_right_mono [of 1 "\<bar>e - i\<bar>" "D * Second"] by (simp add: abs_mult Second_def)
    then show ?thesis using near ww unfolding valid_def abs Validity_Contains_def w_def [symmetric] by (cases "e = i") auto
  qed
  have ij: "i \<in> {j - 1, j, j + 1}"
  proof -
    have "(i - j) * (D * Second) < 2 * (D * Second)" "(j - i) * (D * Second) < 2 * (D * Second)"
      using et(3,4) eu(3,4) near ww by (simp_all add: w_def [symmetric] algebra_simps abs_le_iff)
    then have "i - j < 2" "j - i < 2" using p(2) by (simp_all add: Second_def mult_less_cancel_right)
    then show ?thesis by auto
  qed
  have "GetKeyWithinAcceptanceWindow p u (word_of_int rel) ia' h'
      = (if valid j then Ok (fake_key j D) else if valid (j - 1) then Ok (fake_key (j - 1) D)
         else if valid (j + 1) then Ok (fake_key (j + 1) D) else Fail (Err ''no absTime falls into the acceptance window''))"
    using p(2) sd [OF pos(2)] by (simp add: GetKeyWithinAcceptanceWindow_def getASHostTriple_def dur half j_def valid_def Let_def numeral_2_eq_2)
  then show ?thesis using ts k' valid ij by auto
qed

theorem spao_key_selected_witness:
  "\<exists>k ts. GetASHostKey \<lparr>EpochDuration = 86400 * Second, AcceptanceWindow = 300 * Second\<rparr> (172800 * Second) 0 HostNone = Ok k
     \<and> GetKeyWithinAcceptanceWindow \<lparr>EpochDuration = 86400 * Second, AcceptanceWindow = 300 * Second\<rparr> (172799 * Second) ts 0 HostNone = Ok k"
proof -
  let ?p = "\<lparr>EpochDuration = 86400 * Second, AcceptanceWindow = 300 * Second\<rparr>"
  obtain k where "GetASHostKey ?p (172800 * Second) 0 HostNone = Ok k"
    by (simp add: GetASHostKey_def fake_duration_def Let_def Second_def sdiv_nonneg)
  moreover from this obtain ts where "GetKeyWithinAcceptanceWindow ?p (172799 * Second) ts 0 HostNone = Ok k"
    using spao_key_selected [of ?p 86400 "172800 * Second" "172799 * Second" 0 HostNone k 0 HostNone] by (auto simp: Second_def)
  ultimately show ?thesis by blast
qed

end
