(* ===== verification/SlowPath.thy ===== *)
theory SlowPath
  imports RouterSafe Spao
begin

text \<open>
  The slow path of the border router: SCMP error messages and traceroute replies
  (\<^verbatim>\<open>slowPathPacketProcessor\<close> in \<^verbatim>\<open>router/dataplane.go\<close>). The packet has been through the fast path, which
  may have written to it. CMAC is a parameter, \<open>timeNow E 4\<close> and \<open>timeNow E 5\<close> are the two readings of the
  clock.
\<close>

unbundle bit_operations_syntax

section \<open>The processor\<close>

record slowPacket =
  pktSrcAddr :: UDPAddr
  pktIngress :: u16
  pktRaw :: bytes
  pktRequest :: slowPathRequest

record slowPathPacketProcessor =
  sPlane :: DataPlane
  sIngressID :: u16
  sRawPkt :: bytes
  sSrcAddr :: UDPAddr
  sScionLayer :: SCION
  sE2eLayer :: extnBase
  sLastLayer :: "lastLayer option"
  sPath :: "Raw option"
  sOptAuth :: PacketAuthOption
  sProvider :: FakeProvider

definition bufSize :: nat where "bufSize = 9000"
definition e2eAuthHdrLen :: int where "e2eAuthHdrLen = 32"
definition MaxSCMPPacketLen :: int where "MaxSCMPPacketLen = 1232"
definition drkey_SCMP :: u16 where "drkey_SCMP = 1"

definition newSlowPathProcessor :: "DataPlane \<Rightarrow> FakeProvider \<Rightarrow> slowPathPacketProcessor" where
  "newSlowPathProcessor d provider =
    \<lparr>sPlane = d, sIngressID = 0, sRawPkt = [], sSrcAddr = \<lparr>UIP = [], UPort = 0, UZone = []\<rparr>,
     sScionLayer = RecyclePaths zero_scion, sE2eLayer = zero_extn, sLastLayer = None, sPath = None,
     sOptAuth = zero_option, sProvider = provider\<rparr>"

definition slow_reset :: "slowPathPacketProcessor \<Rightarrow> slowPathPacketProcessor" where
  "slow_reset p = p\<lparr>sPath := None, sE2eLayer := zero_extn\<rparr>"

text \<open>\<^verbatim>\<open>decodeLayers\<close> with the skippers of both extension headers.\<close>

definition slow_decodeLayers :: "registry \<Rightarrow> slowPathPacketProcessor \<Rightarrow> slowPathPacketProcessor result" where
  "slow_decodeLayers g p =
     bindR (SCION_DecodeFromBytes g (sScionLayer p) (sRawPkt p)) (\<lambda>s.
     bindR (if NextLayerType (ScionLayer s) = LayerTypeHopByHopExtn
            then mapR (\<lambda>h. HbhLayer (extnBase.extend h \<lparr>HbhOptions = []\<rparr>)) (HopByHopExtnSkipper_DecodeFromBytes (LayerPayload (ScionLayer s)))
            else Ok (ScionLayer s)) (\<lambda>last.
     if NextLayerType last = LayerTypeEndToEndExtn
     then mapR (\<lambda>e. p\<lparr>sScionLayer := s, sE2eLayer := e, sLastLayer := Some (E2eLayer e)\<rparr>)
            (EndToEndExtnSkipper_DecodeFromBytes (LayerPayload last))
     else Ok (p\<lparr>sScionLayer := s, sLastLayer := Some last\<rparr>)))"

section \<open>The path of the reply\<close>

definition cannot :: "'a result \<Rightarrow> 'a result" where
  "cannot r = (case r of Fail e \<Rightarrow> Fail (Wrap cannotRoute e) | _ \<Rightarrow> r)"

definition incDecoded :: "Decoded \<Rightarrow> Decoded result" where
  "incDecoded d = (case Base_IncPath d of (d', r) \<Rightarrow> mapR (\<lambda>_. d') (cannot r))"

definition replyPath :: "bool \<Rightarrow> Decoded \<Rightarrow> Decoded result" where
  "replyPath ext decPath =
     bindR (cannot (Decoded_Reverse decPath)) (\<lambda>revPath.
     if length (InfoFields revPath) \<le> unat (CurrINF (PathMeta revPath)) then Panic
     else bindR (cannot (determinePeer (PathMeta revPath) (cur_info revPath))) (\<lambda>peer.
     bindR (if IsXover revPath \<and> \<not> peer then incDecoded revPath else Ok revPath) (\<lambda>revPath.
     if \<not> ext then Ok revPath
     else if length (InfoFields revPath) \<le> unat (CurrINF (PathMeta revPath)) then Panic
     else if ConsDir (cur_info revPath) \<and> \<not> peer \<and> length (HopFields revPath) \<le> unat (CurrHF (PathMeta revPath)) then Panic
     else incDecoded (chain_segid (ConsDir (cur_info revPath) \<and> \<not> peer) revPath))))"

section \<open>Authentication\<close>

definition resetSPAOMetadata :: "slowPathPacketProcessor \<Rightarrow> ASHostKey \<Rightarrow> int \<Rightarrow> PacketAuthOption result" where
  "resetSPAOMetadata p key now =
     bindR (MakePacketAuthSPIDRKey drkey_SCMP PacketAuthASHost PacketAuthSenderSide) (\<lambda>spi.
     bindR (RelativeTimestamp (HostEpoch key) now) (\<lambda>timestamp.
     PacketAuthOption_Reset (sOptAuth p)
       \<lparr>ParamSPI = spi, ParamAlgorithm = PacketAuthCMAC, ParamTimestampSN = timestamp, ParamAuth = replicate 16 0\<rparr>))"

text \<open>Every error on the way makes the answer false; a panic stays one.\<close>

definition hasValidAuth :: "(bytes \<Rightarrow> bytes \<Rightarrow> bytes) \<Rightarrow> slowPathPacketProcessor \<Rightarrow> int \<Rightarrow> bool result" where
  "hasValidAuth cmac p t =
    (case sLastLayer p of
       Some (E2eLayer e) \<Rightarrow>
         (case bindR (EndToEndExtn_DecodeFromBytes (Contents (sE2eLayer p))) (\<lambda>e2e.
               bindR (FindOption e2e OptTypeAuthenticator) (\<lambda>opt.
               bindR (ParsePacketAuthOption opt) (\<lambda>authOption.
               bindR (SrcAddr (sScionLayer p)) (\<lambda>src.
               bindR (PacketAuthOption_TimestampSN authOption) (\<lambda>ts.
               bindR (GetKeyWithinAcceptanceWindow (sProvider p) t ts (SrcIA (sScionLayer p)) src) (\<lambda>key.
               bindR (ComputeAuthCMAC cmac (HostKey key) authOption (sScionLayer p) L4SCMP (LayerPayload (E2eLayer e))
                        (replicate spao_MACBufferSize 0)) (\<lambda>tag.
               bindR (PacketAuthOption_Authenticator authOption) (\<lambda>auth. Ok (auth = tag))))))))) of
            Ok b \<Rightarrow> Ok b | Fail _ \<Rightarrow> Ok False | Panic \<Rightarrow> Panic)
     | Some _ \<Rightarrow> Ok False
     | None \<Rightarrow> Panic)"

section \<open>SCMP messages\<close>

definition scmpHdrLen :: "SCMPType \<Rightarrow> int" where
  "scmpHdrLen t = (if t = SCMPTypeExternalInterfaceDown then 20 else if t = SCMPTypeInternalConnectivityDown then 28 else 8)"

text \<open>The header of the reply. The host part of the source is the internal address of the router.\<close>

definition replyHeader :: "slowPathPacketProcessor \<Rightarrow> Decoded \<Rightarrow> (SCION \<times> Host) result" where
  "replyHeader p revPath =
    (let s = zero_scion\<lparr>FlowID := FlowID (sScionLayer p), TrafficClass := TrafficClass (sScionLayer p),
               SPathType := scion_PathType, SPath := Some (ScionDecodedPath revPath),
               DstIA := SrcIA (sScionLayer p), SrcIA := localIA (sPlane p)\<rparr> in
     bindR (cannot (SrcAddr (sScionLayer p))) (\<lambda>srcA.
     case SetDstAddr s srcA of (s, r) \<Rightarrow> bindR (cannot r) (\<lambda>_.
     case SetSrcAddr s (HostIP (internalIP (sPlane p))) of (s, r) \<Rightarrow> bindR (cannot r) (\<lambda>_.
     Ok (s\<lparr>NextHdr := L4SCMP\<rparr>, srcA)))))"

text \<open>The part of the packet that is quoted, for errors only. A negative bound makes the slice expression panic.\<close>

definition quoteOf :: "SCION \<Rightarrow> Decoded \<Rightarrow> bool \<Rightarrow> SCMPType \<Rightarrow> go_error option \<Rightarrow> bytes \<Rightarrow> bytes result" where
  "quoteOf s revPath needsAuth t cause raw =
    (if cause = None then Ok []
     else let hdrLen = CmnHdrLen + AddrHdrLen s + Base_Len revPath + (if needsAuth then e2eAuthHdrLen else 0) + scmpHdrLen t;
              maxQuoteLen = MaxSCMPPacketLen - hdrLen
       in if int (length raw) > maxQuoteLen then sliceI raw 0 maxQuoteLen else Ok raw)"

definition needsAuthOf ::
  "envir \<Rightarrow> (bytes \<Rightarrow> bytes \<Rightarrow> bytes) \<Rightarrow> SCMPType \<Rightarrow> go_error option \<Rightarrow> slowPathPacketProcessor \<Rightarrow> bool result" where
  "needsAuthOf E cmac typ cause p =
    (if \<not> ExperimentalSCMPAuthentication (sPlane p) then Ok False
     else if cause \<noteq> None then Ok True
     else if typ = SCMPTypeTracerouteReply then hasValidAuth cmac p (timeNow E 4)
     else Ok False)"

text \<open>The headers in front of the SCMP message. The reusable option is overwritten in full, its authenticator by the tag.\<close>

definition addHeaders ::
  "envir \<Rightarrow> (bytes \<Rightarrow> bytes \<Rightarrow> bytes) \<Rightarrow> slowPathPacketProcessor \<Rightarrow> SCION \<Rightarrow> Host \<Rightarrow> bool \<Rightarrow> bytes \<Rightarrow> bytes result" where
  "addHeaders E cmac p scionL srcA needsAuth l4 =
    (if needsAuth then
       let scionL = scionL\<lparr>NextHdr := End2EndClass\<rparr>; now = timeNow E 5 in
       bindR (cannot (GetASHostKey (sProvider p) now (DstIA scionL) srcA)) (\<lambda>key.
       bindR (cannot (resetSPAOMetadata p key now)) (\<lambda>opt.
       bindR (cannot (ComputeAuthCMAC cmac (HostKey key) opt scionL L4SCMP l4 (replicate spao_MACBufferSize 0))) (\<lambda>tag.
       bindR (cannot (EndToEndExtn_SerializeTo (freshBytes E) True
                (extnBase.extend (zero_extn\<lparr>ExtNextHdr := L4SCMP\<rparr>)
                  \<lparr>E2eOptions = [opt\<lparr>OptData := take 12 (OptData opt) @ tag\<rparr>]\<rparr>) l4)) (\<lambda>(_, b).
       cannot (snd (SCION_SerializeTo (freshBytes E) True scionL b))))))
     else cannot (snd (SCION_SerializeTo (freshBytes E) True (scionL\<lparr>NextHdr := L4SCMP\<rparr>) l4)))"

definition composeSCMP ::
  "envir \<Rightarrow> (bytes \<Rightarrow> bytes \<Rightarrow> bytes) \<Rightarrow> SCMPType \<Rightarrow> SCMPCode \<Rightarrow> scmp_body option \<Rightarrow> go_error option
   \<Rightarrow> slowPathPacketProcessor \<Rightarrow> Decoded \<Rightarrow> bytes result" where
  "composeSCMP E cmac typ code scmpP cause p decPath =
     bindR (replyPath (external (sPlane p) (sIngressID p) \<noteq> None) decPath) (\<lambda>revPath.
     bindR (replyHeader p revPath) (\<lambda>(scionL, srcA).
     bindR (needsAuthOf E cmac typ cause p) (\<lambda>needsAuth.
     bindR (quoteOf scionL revPath needsAuth typ cause (sRawPkt p)) (\<lambda>quote.
     bindR (case scmpP of
              None \<Rightarrow> Panic
            | Some body \<Rightarrow>
                cannot (snd (SCMP_SerializeTo True
                  (SetNetworkLayerForChecksum (zero_SCMP\<lparr>TypeCode := CreateSCMPTypeCode typ code\<rparr>) scionL)
                  (body_SerializeTo body quote)))) (\<lambda>l4.
     addHeaders E cmac p scionL srcA needsAuth l4)))))"

text \<open>Decoding the raw path writes its meta header, which is a part of the packet.\<close>

definition prepareSCMP ::
  "envir \<Rightarrow> (bytes \<Rightarrow> bytes \<Rightarrow> bytes) \<Rightarrow> SCMPType \<Rightarrow> SCMPCode \<Rightarrow> scmp_body option \<Rightarrow> go_error option
   \<Rightarrow> slowPathPacketProcessor \<Rightarrow> slowPathPacketProcessor \<times> bytes result" where
  "prepareSCMP E cmac typ code scmpP cause p =
    (case (case SPath (sScionLayer p) of
             None \<Rightarrow> Panic
           | Some (ScionRawPath s) \<Rightarrow> Ok (Some s)
           | Some (EpicPath e) \<Rightarrow> Ok (EpicScionPath e)
           | Some _ \<Rightarrow> Fail cannotRoute) of
       Panic \<Rightarrow> (p, Panic)
     | Fail e \<Rightarrow> (p, Fail e)
     | Ok None \<Rightarrow> (p, Panic)
     | Ok (Some s) \<Rightarrow>
         (case ToDecoded s of (s, dec) \<Rightarrow>
            let p = p\<lparr>sRawPkt := copy_at (path_start (sScionLayer p)) (RawBytes s) (sRawPkt p)\<rparr> in
            (p, bindR (cannot dec) (composeSCMP E cmac typ code scmpP cause p))))"

text \<open>
  The reply replaces the packet in its buffer, which has room for \<open>bufSize\<close> bytes. The result is returned
  with the error, if there is one.
\<close>

definition packSCMP ::
  "envir \<Rightarrow> (bytes \<Rightarrow> bytes \<Rightarrow> bytes) \<Rightarrow> SCMPType \<Rightarrow> SCMPCode \<Rightarrow> scmp_body option \<Rightarrow> go_error option
   \<Rightarrow> slowPathPacketProcessor \<Rightarrow> slowPathPacketProcessor \<times> outcome" where
  "packSCMP E cmac typ code scmpP cause p =
    (case sLastLayer p of
       None \<Rightarrow> (p, Crash)
     | Some lst \<Rightarrow>
         (case (if NextLayerType lst = LayerTypeSCMP
                then bindR (wrapR ''decoding SCMP layer'' (SCMP_DecodeFromBytes zero_SCMP (LayerPayload lst))) (\<lambda>scmp.
                  if \<not> TypeCode_InfoMsg (TypeCode scmp)
                  then Fail (case cause of None \<Rightarrow> Err ''SCMP error for SCMP error pkt -> DROP''
                             | Some c \<Rightarrow> WrapStr ''SCMP error for SCMP error pkt -> DROP'' c)
                  else Ok ())
                else Ok ()) of
            Panic \<Rightarrow> (p, Crash)
          | Fail e \<Rightarrow> (p, Ret zero_result (Some e))
          | Ok _ \<Rightarrow>
              (case prepareSCMP E cmac typ code scmpP cause p of
                 (p, Panic) \<Rightarrow> (p, Crash)
               | (p, Fail e) \<Rightarrow>
                   (p, Ret (zero_result\<lparr>OutPkt := Some (sRawPkt p), EgressID := sIngressID p, OutAddr := Some (sSrcAddr p)\<rparr>) (Some e))
               | (p, Ok rawSCMP) \<Rightarrow>
                   if bufSize < length rawSCMP then (p, Crash)
                   else let p = p\<lparr>sRawPkt := rawSCMP\<rparr> in
                     (p, Ret (zero_result\<lparr>OutPkt := Some rawSCMP, EgressID := sIngressID p, OutAddr := Some (sSrcAddr p)\<rparr>) None))))"

definition handleSCMPTraceRouteRequest ::
  "envir \<Rightarrow> (bytes \<Rightarrow> bytes \<Rightarrow> bytes) \<Rightarrow> u16 \<Rightarrow> slowPathPacketProcessor \<Rightarrow> slowPathPacketProcessor \<times> outcome" where
  "handleSCMPTraceRouteRequest E cmac interfaceID p =
    (case sLastLayer p of
       None \<Rightarrow> (p, Crash)
     | Some lst \<Rightarrow>
         if NextLayerType lst \<noteq> LayerTypeSCMP then (p, Ret zero_result None)
         else (case SCMP_DecodeFromBytes zero_SCMP (LayerPayload lst) of
                 Panic \<Rightarrow> (p, Crash)
               | Fail _ \<Rightarrow> (p, Ret zero_result None)
               | Ok scmpH \<Rightarrow>
                   if TypeCode scmpH \<noteq> CreateSCMPTypeCode SCMPTypeTracerouteRequest 0 then (p, Ret zero_result None)
                   else (case SCMPTraceroute_DecodeFromBytes (Payload scmpH) of
                           Panic \<Rightarrow> (p, Crash)
                         | Fail _ \<Rightarrow> (p, Ret zero_result None)
                         | Ok t \<Rightarrow>
                             packSCMP E cmac SCMPTypeTracerouteReply 0
                               (Some (Traceroute \<lparr>Contents = [], Payload = [], TrIdentifier = TrIdentifier t, TrSequence = TrSequence t,
                                  TrIA = localIA (sPlane p), TrInterface = ucast interfaceID\<rparr>)) None p)))"

definition requestBody :: "slowPathRequest \<Rightarrow> scmp_body option" where
  "requestBody s =
    (let t = spScmpType s; b = \<lparr>Contents = [], Payload = []\<rparr> in
     if t = SCMPTypeParameterProblem then Some (ParameterProblem (BaseLayer.extend b \<lparr>Pointer = spPointer s\<rparr>))
     else if t = SCMPTypeDestinationUnreachable then Some (DestinationUnreachable b)
     else if t = SCMPTypeExternalInterfaceDown
     then Some (ExternalInterfaceDown (BaseLayer.extend b \<lparr>ExtIA = spIA s, ExtIfID = ucast (spInterfaceId s)\<rparr>))
     else if t = SCMPTypeInternalConnectivityDown
     then Some (InternalConnectivityDown (BaseLayer.extend b \<lparr>IntIA = spIA s, IntIngress = ucast (spIngressId s), IntEgress = ucast (spEgressId s)\<rparr>))
     else None)"

definition processPacket ::
  "envir \<Rightarrow> (bytes \<Rightarrow> bytes \<Rightarrow> bytes) \<Rightarrow> slowPacket \<Rightarrow> slowPathPacketProcessor \<Rightarrow> slowPathPacketProcessor \<times> outcome" where
  "processPacket E cmac pkt p =
    (let p = (slow_reset p)\<lparr>sIngressID := pktIngress pkt, sSrcAddr := pktSrcAddr pkt, sRawPkt := pktRaw pkt\<rparr> in
     case slow_decodeLayers (pathRegistry E) p of
       Panic \<Rightarrow> (p, Crash)
     | Fail e \<Rightarrow> (p, Ret zero_result (Some e))
     | Ok p \<Rightarrow>
         let pathType = SPathType (sScionLayer p) in
         (case (if pathType = scion_PathType
                then (case SPath (sScionLayer p) of Some (ScionRawPath s) \<Rightarrow> Ok s | _ \<Rightarrow> Fail malformedPath)
                else if pathType = epic_PathType
                then (case SPath (sScionLayer p) of
                        Some (EpicPath e) \<Rightarrow> (case EpicScionPath e of Some s \<Rightarrow> Ok s | None \<Rightarrow> Fail malformedPath)
                      | _ \<Rightarrow> Fail malformedPath)
                else Fail (Err ''Path type not supported for slow-path'')) of
            Panic \<Rightarrow> (p, Crash)
          | Fail e \<Rightarrow> (p, Ret zero_result (Some e))
          | Ok s \<Rightarrow>
              let p = p\<lparr>sPath := Some s\<rparr>; rq = pktRequest pkt in
              (case spTyp rq of
                 slowPathSCMP \<Rightarrow> packSCMP E cmac (spScmpType rq) (spCode rq) (requestBody rq) (spCause rq) p
               | slowPathRouterAlert \<Rightarrow> handleSCMPTraceRouteRequest E cmac (spInterfaceId rq) p)))"


section \<open>Rules for results\<close>

lemma cannot_simps [simp]: "cannot r = Ok x \<longleftrightarrow> r = Ok x" "cannot r = Panic \<longleftrightarrow> r = Panic" "cannot (Ok x) = Ok x"
  by (cases r; simp add: cannot_def)+

lemma packSCMP_ok:
  assumes "packSCMP E cmac typ code body cause p = (q, Ret r None)"
  obtains lst out where "sLastLayer p = Some lst"
    "NextLayerType lst = LayerTypeSCMP \<Longrightarrow> \<exists>m. SCMP_DecodeFromBytes zero_SCMP (LayerPayload lst) = Ok m \<and> TypeCode_InfoMsg (TypeCode m)"
    "snd (prepareSCMP E cmac typ code body cause p) = Ok out"
    "r = zero_result\<lparr>OutPkt := Some out, EgressID := sIngressID (fst (prepareSCMP E cmac typ code body cause p)),
           OutAddr := Some (sSrcAddr (fst (prepareSCMP E cmac typ code body cause p)))\<rparr>"
proof -
  obtain lst where lst: "sLastLayer p = Some lst" using assms by (cases "sLastLayer p") (simp_all add: packSCMP_def)
  obtain p1 x where x: "prepareSCMP E cmac typ code body cause p = (p1, x)" by (cases "prepareSCMP E cmac typ code body cause p")
  show thesis
  proof (rule that [OF lst])
    show "\<exists>m. SCMP_DecodeFromBytes zero_SCMP (LayerPayload lst) = Ok m \<and> TypeCode_InfoMsg (TypeCode m)" if "NextLayerType lst = LayerTypeSCMP"
      using assms that lst by (auto simp: packSCMP_def bindR_eq_Ok split: result.splits if_splits dest!: wrapR_eq_Ok [THEN iffD1])
    show "snd (prepareSCMP E cmac typ code body cause p) = Ok (sRawPkt q)"
        "r = zero_result\<lparr>OutPkt := Some (sRawPkt q), EgressID := sIngressID (fst (prepareSCMP E cmac typ code body cause p)),
           OutAddr := Some (sSrcAddr (fst (prepareSCMP E cmac typ code body cause p)))\<rparr>"
      using assms lst x by (auto simp: packSCMP_def Let_def split: result.splits if_splits)
  qed
qed


section \<open>The reply\<close>

lemma length_chain_segid [simp]: "length (InfoFields (chain_segid b d)) = length (InfoFields d)"
  by (simp add: chain_segid_def)

lemma wf_decoded_chain [simp]: "wf_decoded (chain_segid b d) = wf_decoded d"
  by (simp add: wf_decoded_def wf_base_def)

lemma Base_Len_chain [simp]: "Base_Len (chain_segid b d) = Base_Len d"
  by (simp add: Base_Len_def)

lemma incDecoded_ok:
  assumes "incDecoded d = Ok d'"
  shows "d' = fst (Base_IncPath d)" "snd (Base_IncPath d) = Ok ()" "InfoFields d' = InfoFields d" "HopFields d' = HopFields d"
    "Base_Len d' = Base_Len d" "wf_decoded d \<Longrightarrow> wf_decoded d'"
proof -
  show d': "d' = fst (Base_IncPath d)" and "snd (Base_IncPath d) = Ok ()"
    using assms by (cases "Base_IncPath d"; simp add: incDecoded_def mapR_eq_Ok)+
  show f: "InfoFields d' = InfoFields d" "HopFields d' = HopFields d" unfolding d' by (simp_all add: Base_IncPath_def Let_def)
  show "Base_Len d' = Base_Len d" by (simp add: d' Base_Len_def)
  show "wf_decoded d'" if "wf_decoded d" using that wf_base_IncPath [of d] f by (simp add: wf_decoded_def d')
qed

lemma replyPath_cases:
  assumes "replyPath ext d = Ok rp" and "Decoded_Reverse d = Ok rv"
  obtains peer r1 where "determinePeer (PathMeta rv) (cur_info rv) = Ok peer"
    "if IsXover rv \<and> \<not> peer then incDecoded rv = Ok r1 else r1 = rv"
    "if ext then incDecoded (chain_segid (ConsDir (cur_info r1) \<and> \<not> peer) r1) = Ok rp else rp = r1"
proof -
  obtain peer where p: "determinePeer (PathMeta rv) (cur_info rv) = Ok peer"
    using assms by (auto simp: replyPath_def bindR_eq_Ok split: if_splits)
  obtain r1 where r1: "(if IsXover rv \<and> \<not> peer then incDecoded rv else Ok rv) = Ok r1"
    using assms p by (auto simp: replyPath_def bindR_eq_Ok split: if_splits)
  have "if ext then incDecoded (chain_segid (ConsDir (cur_info r1) \<and> \<not> peer) r1) = Ok rp else rp = r1"
    using assms p r1 by (auto simp: replyPath_def bindR_eq_Ok split: if_splits)
  then show thesis using that [OF p, of r1] r1 by (auto split: if_splits)
qed

lemma replyPath_wf:
  assumes wf: "wf_decoded d" and ptr: "ptr_ok d" and rp: "replyPath ext d = Ok rp"
  shows "wf_decoded rp" "Base_Len rp = Base_Len d"
proof -
  have n: "NumINF d \<noteq> 0" using ptr by (auto simp: ptr_ok_def dest: order.strict_trans1 [OF uint_nonnegative])
  define rv where "rv = d\<lparr>InfoFields := rev (map flip_dir (InfoFields d)), HopFields := rev (HopFields d), PathMeta := rev_meta d\<rparr>"
  have rv: "Decoded_Reverse d = Ok rv" "wf_decoded rv" "Base_Len rv = Base_Len d"
    using Decoded_Reverse_eq [OF wf n] wf_decoded_reverse [OF wf ptr] by (simp_all add: rv_def Base_Len_def)
  obtain peer r1 where r1: "if IsXover rv \<and> \<not> peer then incDecoded rv = Ok r1 else r1 = rv"
      "if ext then incDecoded (chain_segid (ConsDir (cur_info r1) \<and> \<not> peer) r1) = Ok rp else rp = r1"
    using replyPath_cases [OF rp rv(1)] by blast
  have "wf_decoded r1 \<and> Base_Len r1 = Base_Len d"
    using r1(1) rv(2,3) incDecoded_ok(5,6) [of rv r1] by (simp split: if_splits)
  then show "wf_decoded rp" "Base_Len rp = Base_Len d"
    using r1(2) incDecoded_ok(5,6) [of "chain_segid (ConsDir (cur_info r1) \<and> \<not> peer) r1" rp] by (simp_all split: if_splits)
qed

lemma ParseAddr_wf_ip: "ParseAddr t raw = Ok (HostIP ip) \<Longrightarrow> wf_ip ip"
  by (auto simp: ParseAddr_def netip_AddrFrom4_def netip_AddrFrom16_def to_array_def bindR_eq_Ok split: if_splits)

lemma replyHeader_ok:
  assumes ok: "replyHeader p rp = Ok (h, srcA)" and scn: "wf_scion (sScionLayer p)" and ip: "wf_ip (internalIP (sPlane p))"
    and rp: "wf_decoded rp"
  shows "wf_scion h" "SPath h = Some (ScionDecodedPath rp)" "DstIA h = SrcIA (sScionLayer p)" "SrcIA h = localIA (sPlane p)"
    "NextHdr h = L4SCMP" "SPathType h = scion_PathType" "SrcAddr (sScionLayer p) = Ok srcA" "DstAddr h = Ok (canonical_host srcA)"
    "SrcAddr h = Ok (canonical_host (HostIP (internalIP (sPlane p))))"
proof -
  obtain t raw t' raw' where a: "SrcAddr (sScionLayer p) = Ok srcA" "PackAddr srcA = Ok (t, raw)"
      "PackAddr (HostIP (internalIP (sPlane p))) = Ok (t', raw')"
      "h = zero_scion\<lparr>FlowID := FlowID (sScionLayer p), TrafficClass := TrafficClass (sScionLayer p),
               SPathType := scion_PathType, SPath := Some (ScionDecodedPath rp),
               DstIA := SrcIA (sScionLayer p), SrcIA := localIA (sPlane p), DstAddrType := t, RawDstAddr := raw,
               SrcAddrType := t', RawSrcAddr := raw', NextHdr := L4SCMP\<rparr>"
  proof -
    have src: "SrcAddr (sScionLayer p) = Ok srcA" using ok
      by (cases "SrcAddr (sScionLayer p)") (auto simp: replyHeader_def Let_def bindR_eq_Ok cannot_def split: prod.splits)
    obtain t raw where tr: "PackAddr srcA = Ok (t, raw)"
      using ok src by (cases "PackAddr srcA") (auto simp: replyHeader_def Let_def SetDstAddr_def cannot_def)
    obtain t' raw' where tr': "PackAddr (HostIP (internalIP (sPlane p))) = Ok (t', raw')"
      using ok src tr by (cases "PackAddr (HostIP (internalIP (sPlane p)))")
        (auto simp: replyHeader_def Let_def SetDstAddr_def SetSrcAddr_def cannot_def simp del: PackAddr.simps)
    show thesis using ok src tr tr'
      by (intro that [OF src tr tr']) (simp add: replyHeader_def Let_def SetDstAddr_def SetSrcAddr_def cannot_def del: PackAddr.simps)
  qed
  have src: "wf_ip i" if "srcA = HostIP i" for i using a(1) that ParseAddr_wf_ip by (auto simp: SrcAddr_def)
  from PackAddr_spec [of srcA, OF src] a(2) have d: "ParseAddr t raw = Ok (canonical_host srcA)" "int (length raw) = AddrType_Length t" by simp_all
  from PackAddr_spec [of "HostIP (internalIP (sPlane p))"] ip a(3)
  have s: "ParseAddr t' raw' = Ok (canonical_host (HostIP (internalIP (sPlane p))))" "int (length raw') = AddrType_Length t'" by simp_all
  have t: "t < 16" "t' < 16" using d(1) s(1) by (auto simp: ParseAddr_def T4Ip_def T4Svc_def T16Ip_def split: if_splits)
  show "wf_scion h" using scn d(2) s(2) t rp by (simp add: a(4) wf_scion_def zero_scion_def)
  show "SPath h = Some (ScionDecodedPath rp)" "DstIA h = SrcIA (sScionLayer p)" "SrcIA h = localIA (sPlane p)"
    "NextHdr h = L4SCMP" "SPathType h = scion_PathType" "SrcAddr (sScionLayer p) = Ok srcA" "DstAddr h = Ok (canonical_host srcA)"
    "SrcAddr h = Ok (canonical_host (HostIP (internalIP (sPlane p))))"
    using a(1) d(1) s(1) by (simp_all add: a(4) DstAddr_def SrcAddr_def)
qed

text \<open>The serialized header of the reply.\<close>

lemma reply_bytes:
  assumes wf: "wf_scion h" and p: "SPath h = Some (ScionDecodedPath rp)" and fresh: "\<And>n. length (fresh n) = n"
    and ok: "snd (SCION_SerializeTo fresh True h pay) = Ok out"
  shows "\<exists>h'. h' = fix_lengths h (CmnHdrLen + AddrHdrLen h + Base_Len rp) (length pay)
    \<and> out = CmnHdr_bytes h' @ addr_bytes h @ path_bytes rp @ pay"
    "int (length out) = CmnHdrLen + AddrHdrLen h + Base_Len rp + int (length pay)"
proof -
  define n where "n = CmnHdrLen + AddrHdrLen h + Path_Len (ScionDecodedPath rp)"
  have n: "n \<le> MaxHdrLen" "n mod LineLen = 0" using ok p by (auto simp: SCION_SerializeTo_def n_def Let_def split: if_splits)
  have rp: "wf_decoded rp" using wf p by (simp add: wf_scion_def)
  obtain b rest where b: "snd (SCION_SerializeTo fresh True h pay) = Ok (CmnHdr_bytes (fix_lengths h n (length pay)) @ addr_bytes h @ b @ pay)"
      "int (length rest) = Base_Len rp" "Decoded_SerializeTo rp rest = Ok b"
    using SCION_SerializeTo_wf [OF wf p fresh n_def n, where fl = True and q = "ScionDecodedPath rp" and pay = pay] by auto
  have "b = path_bytes rp" using b(3) Decoded_SerializeTo_wf [OF rp, of rest] b(2) length_path_bytes [OF rp] by (simp add: copy_at_0)
  then have out: "out = CmnHdr_bytes (fix_lengths h n (length pay)) @ addr_bytes h @ path_bytes rp @ pay" using b(1) ok by simp
  then show "\<exists>h'. h' = fix_lengths h (CmnHdrLen + AddrHdrLen h + Base_Len rp) (length pay)
    \<and> out = CmnHdr_bytes h' @ addr_bytes h @ path_bytes rp @ pay" by (simp add: n_def)
  show "int (length out) = CmnHdrLen + AddrHdrLen h + Base_Len rp + int (length pay)"
    using length_addr_bytes [OF wf] length_path_bytes [OF rp] by (simp add: out CmnHdrLen_def)
qed


lemma auth_extension:
  assumes "length tag = 16" and "length (OptData opt) = 28" and "OptAlign opt = (4, 2)" and "OptType opt = OptTypeAuthenticator"
    and fresh: "\<And>n. length (fresh n) = n"
    and ok: "EndToEndExtn_SerializeTo fresh True (extnBase.extend (zero_extn\<lparr>ExtNextHdr := L4SCMP\<rparr>)
                 \<lparr>E2eOptions = [opt\<lparr>OptData := take 12 (OptData opt) @ tag\<rparr>]\<rparr>) pay = Ok (e, b)"
  shows "\<exists>ext. b = ext @ pay \<and> length ext = 32"
proof -
  define o' where "o' = opt\<lparr>OptData := take 12 (OptData opt) @ tag\<rparr>"
  have "b = ([L4SCMP, fixed_extlen [o']] @ full_layout [o']) @ pay"
    using ok by (auto simp: EndToEndExtn_SerializeTo_def bindR_eq_Ok serializeToWithTLVOptions_fix [OF fresh] extnBase.extend_def o'_def)
  moreover have "align_pad o' 2 = 0" using assms(3) by (simp add: align_pad_def Let_def o'_def)
  then have "length (full_layout [o']) = 30"
    using assms(1,2,4) by (simp add: full_layout_def length_enc_opt tlvOption_length_def end_pad_def o'_def OptTypeAuthenticator_def OptTypePad1_def)
  ultimately show ?thesis by (intro exI [of _ "[L4SCMP, fixed_extlen [o']] @ full_layout [o']"]) simp
qed

lemma resetSPAO_ok:
  assumes "resetSPAOMetadata p key now = Ok opt"
  shows "length (OptData opt) = 28" "OptAlign opt = (4, 2)" "OptType opt = OptTypeAuthenticator"
  using assms by (auto simp: resetSPAOMetadata_def bindR_eq_Ok PacketAuthOption_Reset_def split: if_splits)

lemma SCMP_ser_ok:
  assumes "snd (SCMP_SerializeTo True (SetNetworkLayerForChecksum (zero_SCMP\<lparr>TypeCode := tc\<rparr>) h) pay) = Ok l4"
  shows "\<exists>c. l4 = put_u16 tc @ put_u16 c @ pay \<and> computeChecksum (Some h) (put_u16 tc @ [0, 0] @ pay) L4SCMP = Ok c"
  using assms by (auto simp: SCMP_SerializeTo_def SetNetworkLayerForChecksum_def Let_def split: result.splits)

text \<open>What a successful reply consists of; \<open>auth\<close> tells whether it carries an authenticator.\<close>

definition reply_parts ::
  "envir \<Rightarrow> SCMPType \<Rightarrow> SCMPCode \<Rightarrow> scmp_body \<Rightarrow> go_error option \<Rightarrow> slowPathPacketProcessor \<Rightarrow> bytes \<Rightarrow> Decoded \<Rightarrow> Decoded
   \<Rightarrow> SCION \<Rightarrow> bool \<Rightarrow> bytes \<Rightarrow> bytes \<Rightarrow> bool" where
  "reply_parts E typ code m cause p raw d rp h auth quote out \<longleftrightarrow>
     replyPath (external (sPlane p) (sIngressID p) \<noteq> None) d = Ok rp
     \<and> (\<exists>srcA. replyHeader p rp = Ok (h, srcA)) \<and> quoteOf h rp auth typ cause raw = Ok quote
     \<and> (\<exists>ext c n. out = CmnHdr_bytes (fix_lengths (h\<lparr>NextHdr := (if auth then End2EndClass else L4SCMP)\<rparr>) (CmnHdrLen + AddrHdrLen h + Base_Len rp) n)
           @ addr_bytes h @ path_bytes rp @ ext @ put_u16 (CreateSCMPTypeCode typ code) @ put_u16 c @ body_SerializeTo m quote
         \<and> length ext = (if auth then 32 else 0)
         \<and> computeChecksum (Some h) (put_u16 (CreateSCMPTypeCode typ code) @ [0, 0] @ body_SerializeTo m quote) L4SCMP = Ok c)"

lemma prepareSCMP_ok:
  assumes ok: "snd (prepareSCMP E cmac typ code body cause p) = Ok out" and path: "raw_path (sScionLayer p) = Some s"
    and d: "refines s d" "ptr_ok d" and wf: "wf_scion (sScionLayer p)" "wf_ip (internalIP (sPlane p))"
    and fresh: "\<And>n. length (freshBytes E n) = n" and cmac: "\<And>k x. length (cmac k x) = 16"
  shows "\<exists>m rp h auth quote. body = Some m
    \<and> reply_parts E typ code m cause p (copy_at (path_start (sScionLayer p)) (RawBytes (fst (ToDecoded s))) (sRawPkt p)) d rp h auth quote out"
proof -
  define p1 where "p1 = p\<lparr>sRawPkt := copy_at (path_start (sScionLayer p)) (RawBytes (fst (ToDecoded s))) (sRawPkt p)\<rparr>"
  have sel: "sPlane p1 = sPlane p" "sIngressID p1 = sIngressID p" "sScionLayer p1 = sScionLayer p"
    "sRawPkt p1 = copy_at (path_start (sScionLayer p)) (RawBytes (fst (ToDecoded s))) (sRawPkt p)" by (simp_all add: p1_def)
  have hdr: "replyHeader p1 rp = replyHeader p rp" for rp by (simp add: replyHeader_def sel)
  have dec: "snd (ToDecoded s) = Ok d" using ToDecoded_refines [OF d(1)] by simp
  have comp: "composeSCMP E cmac typ code body cause p1 d = Ok out"
  proof -
    have "(case SPath (sScionLayer p) of None \<Rightarrow> Panic | Some (ScionRawPath s) \<Rightarrow> Ok (Some s) | Some (EpicPath e) \<Rightarrow> Ok (EpicScionPath e)
        | Some _ \<Rightarrow> Fail cannotRoute) = Ok (Some s)"
      using path by (auto simp: raw_path.simps split: option.splits Path.splits)
    then show ?thesis using ok dec unfolding prepareSCMP_def p1_def by (cases "ToDecoded s") (simp add: Let_def)
  qed
  obtain rp h srcA auth quote m l4 where f: "replyPath (external (sPlane p) (sIngressID p) \<noteq> None) d = Ok rp" "replyHeader p rp = Ok (h, srcA)"
      "quoteOf h rp auth typ cause (sRawPkt p1) = Ok quote" "body = Some m"
      "snd (SCMP_SerializeTo True (SetNetworkLayerForChecksum (zero_SCMP\<lparr>TypeCode := CreateSCMPTypeCode typ code\<rparr>) h) (body_SerializeTo m quote)) = Ok l4"
      "addHeaders E cmac p1 h srcA auth l4 = Ok out"
    using comp unfolding composeSCMP_def sel(1,2) hdr
    by (cases body) (auto simp: bindR_eq_Ok)
  have rp: "wf_decoded rp" using replyPath_wf [OF _ d(2) f(1)] refines_wf [OF d(1)] by simp
  note h = replyHeader_ok [OF f(2) wf rp]
  obtain c where c: "l4 = put_u16 (CreateSCMPTypeCode typ code) @ put_u16 c @ body_SerializeTo m quote"
      "computeChecksum (Some h) (put_u16 (CreateSCMPTypeCode typ code) @ [0, 0] @ body_SerializeTo m quote) L4SCMP = Ok c"
    using SCMP_ser_ok [OF f(5)] by blast
  obtain ext where ext: "length ext = (if auth then 32 else 0)"
      "snd (SCION_SerializeTo (freshBytes E) True (h\<lparr>NextHdr := (if auth then End2EndClass else L4SCMP)\<rparr>) (ext @ l4)) = Ok out"
  proof (cases auth)
    case True
    then obtain key opt tag e b where k: "resetSPAOMetadata p1 key (timeNow E 5) = Ok opt"
        "ComputeAuthCMAC cmac (HostKey key) opt (h\<lparr>NextHdr := End2EndClass\<rparr>) L4SCMP l4 (replicate spao_MACBufferSize 0) = Ok tag"
        "EndToEndExtn_SerializeTo (freshBytes E) True (extnBase.extend (zero_extn\<lparr>ExtNextHdr := L4SCMP\<rparr>)
                  \<lparr>E2eOptions = [opt\<lparr>OptData := take 12 (OptData opt) @ tag\<rparr>]\<rparr>) l4 = Ok (e, b)"
        "snd (SCION_SerializeTo (freshBytes E) True (h\<lparr>NextHdr := End2EndClass\<rparr>) b) = Ok out"
      using f(6) by (auto simp: addHeaders_def Let_def bindR_eq_Ok)
    have "length tag = 16" using k(2) cmac by (auto simp: ComputeAuthCMAC_def bindR_eq_Ok initCMAC_def split: if_splits)
    from auth_extension [OF this resetSPAO_ok [OF k(1)] fresh k(3)] k(4) True show ?thesis using that by auto
  next
    case False
    then show ?thesis using f(6) that [of "[]"] by (simp add: addHeaders_def)
  qed
  have hw: "wf_scion (h\<lparr>NextHdr := x\<rparr>)" "SPath (h\<lparr>NextHdr := x\<rparr>) = Some (ScionDecodedPath rp)" for x using h(1,2) by (simp_all add: wf_scion_def)
  from reply_bytes(1) [OF hw fresh ext(2)] obtain n where
    "out = CmnHdr_bytes (fix_lengths (h\<lparr>NextHdr := (if auth then End2EndClass else L4SCMP)\<rparr>) (CmnHdrLen + AddrHdrLen h + Base_Len rp) n)
           @ addr_bytes h @ path_bytes rp @ ext @ l4"
    by (auto simp: AddrHdrLen_def addr_bytes_def)
  then show ?thesis using f(1-4) c ext(1) unfolding reply_parts_def sel(4) by blast
qed


section \<open>Error messages\<close>

lemma body_length:
  "requestBody rq = Some m \<Longrightarrow> int (length (body_SerializeTo m quote)) + 4 = scmpHdrLen (spScmpType rq) + int (length quote)"
  by (auto simp: requestBody_def Let_def scmpHdrLen_def SCMPParameterProblem_SerializeTo_def SCMPDestinationUnreachable_SerializeTo_def
      SCMPExternalInterfaceDown_SerializeTo_def SCMPInternalConnectivityDown_SerializeTo_def SCMPTypeParameterProblem_def
      SCMPTypeDestinationUnreachable_def SCMPTypeExternalInterfaceDown_def SCMPTypeInternalConnectivityDown_def
      BaseLayer.extend_def split: if_splits)

lemma reply_length:
  assumes parts: "reply_parts E (spScmpType rq) code m cause p raw d rp h auth quote out" and rq: "requestBody rq = Some m" and "cause \<noteq> None"
    and wf: "wf_scion h" "wf_decoded rp"
  shows "int (length out) \<le> MaxSCMPPacketLen" "\<exists>n. quote = take n raw"
proof -
  define hl where "hl = CmnHdrLen + AddrHdrLen h + Base_Len rp + (if auth then e2eAuthHdrLen else 0) + scmpHdrLen (spScmpType rq)"
  have q: "(if int (length raw) > MaxSCMPPacketLen - hl then sliceI raw 0 (MaxSCMPPacketLen - hl) else Ok raw) = Ok quote"
  proof -
    have "quoteOf h rp auth (spScmpType rq) cause raw = Ok quote" using parts unfolding reply_parts_def by blast
    then show ?thesis using assms(3) by (simp add: quoteOf_def Let_def flip: hl_def)
  qed
  then show "\<exists>n. quote = take n raw" by (auto simp: sliceI_def slice_Ok_iff split: if_splits intro: exI [of _ "length raw"])
  have "int (length quote) \<le> MaxSCMPPacketLen - hl" using q by (auto simp: sliceI_def slice_Ok_iff split: if_splits)
  moreover have "int (length out) = hl + int (length quote)"
    using parts body_length [OF rq, of quote] length_addr_bytes [OF wf(1)] length_path_bytes [OF wf(2)]
    by (auto simp: reply_parts_def hl_def e2eAuthHdrLen_def CmnHdrLen_def)
  ultimately show "int (length out) \<le> MaxSCMPPacketLen" by simp
qed

lemma slow_decodeLayers_ok:
  assumes "slow_decodeLayers g p = Ok p'"
  shows "\<exists>scn lst. SCION_DecodeFromBytes g (sScionLayer p) (sRawPkt p) = Ok scn
    \<and> sScionLayer p' = scn \<and> sLastLayer p' = Some lst \<and> sPlane p' = sPlane p \<and> sIngressID p' = sIngressID p \<and> sRawPkt p' = sRawPkt p
    \<and> sSrcAddr p' = sSrcAddr p"
proof -
  obtain scn where scn: "SCION_DecodeFromBytes g (sScionLayer p) (sRawPkt p) = Ok scn"
    using assms by (cases "SCION_DecodeFromBytes g (sScionLayer p) (sRawPkt p)") (simp_all add: slow_decodeLayers_def)
  have "\<exists>lst. (if NextLayerType lst = LayerTypeEndToEndExtn
     then mapR (\<lambda>e. p\<lparr>sScionLayer := scn, sE2eLayer := e, sLastLayer := Some (E2eLayer e)\<rparr>)
            (EndToEndExtnSkipper_DecodeFromBytes (LayerPayload lst))
     else Ok (p\<lparr>sScionLayer := scn, sLastLayer := Some lst\<rparr>)) = Ok p'"
    using assms by (simp only: slow_decodeLayers_def scn bindR.simps bindR_eq_Ok) blast
  then obtain lst where l: "(if NextLayerType lst = LayerTypeEndToEndExtn
     then mapR (\<lambda>e. p\<lparr>sScionLayer := scn, sE2eLayer := e, sLastLayer := Some (E2eLayer e)\<rparr>)
            (EndToEndExtnSkipper_DecodeFromBytes (LayerPayload lst))
     else Ok (p\<lparr>sScionLayer := scn, sLastLayer := Some lst\<rparr>)) = Ok p'" ..
  show ?thesis
  proof (cases "NextLayerType lst = LayerTypeEndToEndExtn")
    case True
    then obtain e where "p' = p\<lparr>sScionLayer := scn, sE2eLayer := e, sLastLayer := Some (E2eLayer e)\<rparr>" using l by (auto simp: mapR_eq_Ok)
    then show ?thesis using scn by simp
  next
    case False
    then have "p' = p\<lparr>sScionLayer := scn, sLastLayer := Some lst\<rparr>" using l by simp
    then show ?thesis using scn by simp
  qed
qed

lemma prepareSCMP_frame:
  "sIngressID (fst (prepareSCMP E cmac typ code body cause p)) = sIngressID p"
  "sSrcAddr (fst (prepareSCMP E cmac typ code body cause p)) = sSrcAddr p"
  by (auto simp: prepareSCMP_def Let_def split: option.splits result.splits prod.splits Path.splits)

text \<open>C7: an SCMP error message goes back over the link the packet came in on, to the address it came from. It is sent to the
  source of the packet, from this AS and the internal address of the router, on the reply path, and quotes a prefix of
  the packet; with all headers it has at most 1232 bytes. There is no error message about an error message.\<close>

theorem scmp_error_reply:
  assumes run: "processPacket E cmac pkt p = (q, Ret r None)" and rq: "spTyp (pktRequest pkt) = slowPathSCMP" "spCause (pktRequest pkt) \<noteq> None"
    and scn: "SCION_DecodeFromBytes (pathRegistry E) (sScionLayer p) (pktRaw pkt) = Ok scn" "raw_path scn = Some s"
    and d: "refines s d" "ptr_ok d" and ip: "wf_ip (internalIP (sPlane p))"
    and E: "\<And>n. length (freshBytes E n) = n" "\<And>k x. length (cmac k x) = 16"
  shows "\<exists>out m rp h auth quote p'. OutPkt r = Some out \<and> EgressID r = pktIngress pkt \<and> OutAddr r = Some (pktSrcAddr pkt)
    \<and> requestBody (pktRequest pkt) = Some m \<and> int (length out) \<le> MaxSCMPPacketLen
    \<and> slow_decodeLayers (pathRegistry E) ((slow_reset p)\<lparr>sIngressID := pktIngress pkt, sSrcAddr := pktSrcAddr pkt, sRawPkt := pktRaw pkt\<rparr>) = Ok p'
    \<and> reply_parts E (spScmpType (pktRequest pkt)) (spCode (pktRequest pkt)) m (spCause (pktRequest pkt)) (p'\<lparr>sPath := Some s\<rparr>)
        (copy_at (path_start scn) (RawBytes (fst (ToDecoded s))) (pktRaw pkt)) d rp h auth quote out
    \<and> (\<exists>n. quote = take n (copy_at (path_start scn) (RawBytes (fst (ToDecoded s))) (pktRaw pkt)))
    \<and> DstIA h = SrcIA scn \<and> SrcIA h = localIA (sPlane p) \<and> SrcAddr h = Ok (canonical_host (HostIP (internalIP (sPlane p))))
    \<and> (\<exists>src. SrcAddr scn = Ok src \<and> DstAddr h = Ok (canonical_host src))
    \<and> (\<exists>lst. sLastLayer p' = Some lst \<and> (NextLayerType lst = LayerTypeSCMP \<longrightarrow>
         (\<exists>scmp. SCMP_DecodeFromBytes zero_SCMP (LayerPayload lst) = Ok scmp \<and> TypeCode_InfoMsg (TypeCode scmp))))"
proof -
  define p0 where "p0 = (slow_reset p)\<lparr>sIngressID := pktIngress pkt, sSrcAddr := pktSrcAddr pkt, sRawPkt := pktRaw pkt\<rparr>"
  have p0: "sScionLayer p0 = sScionLayer p" "sRawPkt p0 = pktRaw pkt" "sPlane p0 = sPlane p" "sIngressID p0 = pktIngress pkt" "sSrcAddr p0 = pktSrcAddr pkt"
    by (simp_all add: p0_def slow_reset_def)
  let ?rq = "pktRequest pkt"
  obtain p' where p': "slow_decodeLayers (pathRegistry E) p0 = Ok p'"
    using run by (cases "slow_decodeLayers (pathRegistry E) p0") (simp_all add: processPacket_def Let_def p0_def)
  then have sel: "sScionLayer p' = scn" "sPlane p' = sPlane p" "sIngressID p' = pktIngress pkt" "sRawPkt p' = pktRaw pkt" "sSrcAddr p' = pktSrcAddr pkt"
    using slow_decodeLayers_ok [OF p'] scn(1) p0 by auto
  let ?p = "p'\<lparr>sPath := Some s\<rparr>"
  have pack: "packSCMP E cmac (spScmpType ?rq) (spCode ?rq) (requestBody ?rq) (spCause ?rq) ?p = (q, Ret r None)"
    using run p' rq(1) scn(2) sel(1)
    by (auto simp: processPacket_def Let_def p0_def [symmetric] raw_path.simps split: if_splits option.splits Path.splits)
  obtain lst out where o: "sLastLayer ?p = Some lst"
      "NextLayerType lst = LayerTypeSCMP \<Longrightarrow> \<exists>m. SCMP_DecodeFromBytes zero_SCMP (LayerPayload lst) = Ok m \<and> TypeCode_InfoMsg (TypeCode m)"
      "snd (prepareSCMP E cmac (spScmpType ?rq) (spCode ?rq) (requestBody ?rq) (spCause ?rq) ?p) = Ok out"
      "r = zero_result\<lparr>OutPkt := Some out, EgressID := pktIngress pkt, OutAddr := Some (pktSrcAddr pkt)\<rparr>"
    using packSCMP_ok [OF pack] by (auto simp: prepareSCMP_frame sel)
  have wf: "wf_scion (sScionLayer ?p)" using SCION_DecodeFromBytes_safe [of "pathRegistry E" "sScionLayer p" "pktRaw pkt"] scn(1) sel(1) by simp
  obtain m rp h auth quote where m: "requestBody ?rq = Some m"
      "reply_parts E (spScmpType ?rq) (spCode ?rq) m (spCause ?rq) ?p
        (copy_at (path_start scn) (RawBytes (fst (ToDecoded s))) (pktRaw pkt)) d rp h auth quote out"
    using prepareSCMP_ok [OF o(3) _ d wf _ E(1) E(2)] scn(2) ip sel by auto
  have rp: "wf_decoded rp" using m(2) replyPath_wf [OF _ d(2)] refines_wf [OF d(1)] by (auto simp: reply_parts_def)
  obtain srcA where "replyHeader ?p rp = Ok (h, srcA)" using m(2) by (auto simp: reply_parts_def)
  note h = replyHeader_ok [OF this wf _ rp]
  have hh: "wf_scion h" "DstIA h = SrcIA scn" "SrcIA h = localIA (sPlane p)" "SrcAddr h = Ok (canonical_host (HostIP (internalIP (sPlane p))))"
      "SrcAddr scn = Ok srcA" "DstAddr h = Ok (canonical_host srcA)"
    using h ip sel by simp_all
  show ?thesis
    using p' m o(1,2,4) reply_length [OF m(2,1) rq(2) hh(1) rp] hh(2-6) unfolding p0_def
    by (intro exI [of _ out] exI [of _ m] exI [of _ rp] exI [of _ h] exI [of _ auth] exI [of _ quote] exI [of _ p']) (auto simp: zero_result_def)
qed

section \<open>A parameter problem\<close>

definition sample_slow :: slowPathPacketProcessor where
  "sample_slow = newSlowPathProcessor (sample_plane\<lparr>internalIP := IPv4 [10, 0, 0, 2]\<rparr>) \<lparr>EpochDuration = 1, AcceptanceWindow = 1\<rparr>"

definition sample_slow_packet :: slowPacket where
  "sample_slow_packet = \<lparr>pktSrcAddr = sample_src, pktIngress = 2, pktRaw = sample_packet,
     pktRequest = \<lparr>spTyp = slowPathSCMP, spScmpType = SCMPTypeParameterProblem, spCode = 48, spCause = Some emptyValue, spPointer = 60,
       spIA = 0, spInterfaceId = 0, spIngressId = 0, spEgressId = 0\<rparr>\<rparr>"

lemma sample_slow_run:
  "\<exists>q r. processPacket sample_envir (\<lambda>_ _. replicate 16 0) sample_slow_packet sample_slow = (q, Ret r None) \<and> map_option length (OutPkt r) = Some 184"
proof -
  have "(case snd (processPacket sample_envir (\<lambda>_ _. replicate 16 0) sample_slow_packet sample_slow) of
      Ret r None \<Rightarrow> map_option length (OutPkt r) = Some 184 | _ \<Rightarrow> False)"
    by code_simp
  then show ?thesis by (cases "processPacket sample_envir (\<lambda>_ _. replicate 16 0) sample_slow_packet sample_slow")
    (auto split: outcome.splits option.splits)
qed

theorem scmp_error_reply_witness:
  "\<exists>q r out. processPacket sample_envir (\<lambda>_ _. replicate 16 0) sample_slow_packet sample_slow = (q, Ret r None)
     \<and> OutPkt r = Some out \<and> length out = 184 \<and> int (length out) \<le> MaxSCMPPacketLen \<and> EgressID r = 2 \<and> OutAddr r = Some sample_src"
proof -
  obtain q r where run: "processPacket sample_envir (\<lambda>_ _. replicate 16 0) sample_slow_packet sample_slow = (q, Ret r None)"
      "map_option length (OutPkt r) = Some 184" using sample_slow_run by blast
  have "Raw_DecodeFromBytes (RawBytes sample_route) = Ok sample_route" by code_simp
  then obtain d where d: "refines sample_route d" using raw_prefix(1) wf_raw_refines_Decoded by blast
  have "Base.truncate sample_route = Base.truncate d" using d by (simp add: refines_def)
  then have ptr: "ptr_ok d" by (cases d) (auto simp: ptr_ok_def sample_route_def Base.truncate_def)
  have lay: "sScionLayer sample_slow = scionLayer sample_processor" by code_simp
  obtain scn where scn: "SCION_DecodeFromBytes (pathRegistry sample_envir) (sScionLayer sample_slow) (pktRaw sample_slow_packet) = Ok scn"
    "raw_path scn = Some sample_route" "SrcIA scn = 0x0001000000000001" using sample_decode by (auto simp: lay sample_slow_packet_def)
  have pl: "internalIP (sPlane sample_slow) = IPv4 [10, 0, 0, 2]" "localIA (sPlane sample_slow) = 0x0001000000000002" by code_simp+
  have pk: "spTyp (pktRequest sample_slow_packet) = slowPathSCMP" "spCause (pktRequest sample_slow_packet) \<noteq> None"
    "pktIngress sample_slow_packet = 2" "pktSrcAddr sample_slow_packet = sample_src" by (simp_all add: sample_slow_packet_def)
  have E: "length (freshBytes sample_envir n) = n" for n by (simp add: sample_envir_def)
  show ?thesis using scmp_error_reply [OF run(1) pk(1,2) scn(1,2) d ptr _ E] run scn(3) pl pk by auto
qed

end
