(* ===== verification/ReplyPath.thy ===== *)
theory ReplyPath
  imports SlowPath
begin

text \<open>
  Where an SCMP message goes: the path \<^verbatim>\<open>prepareSCMP\<close> computes (\<^verbatim>\<open>router/dataplane.go\<close>) against the path the packet
  arrived with.
\<close>

unbundle bit_operations_syntax

section \<open>The reply leads back\<close>

definition rev_path :: "Decoded \<Rightarrow> Decoded" where
  "rev_path d = d\<lparr>InfoFields := rev (map flip_dir (InfoFields d)), HopFields := rev (HopFields d), PathMeta := rev_meta d\<rparr>"

text \<open>A usable path: well formed, with pointers in range that belong together.\<close>

definition usable :: "Decoded \<Rightarrow> bool" where
  "usable d \<longleftrightarrow> wf_decoded d \<and> ptr_ok d \<and> ptr_consistent d"

lemma Reverse_usable: "usable d \<Longrightarrow> Decoded_Reverse d = Ok (rev_path d)"
  by (auto simp: usable_def ptr_ok_def rev_path_def intro!: Decoded_Reverse_eq dest: order.strict_trans1 [OF uint_nonnegative])

lemma infIndex_rev_path: "infIndexForHF (rev_path d) = infIndexForHF (d\<lparr>PathMeta := rev_meta d\<rparr>)"
  by (simp add: infIndexForHF_def rev_path_def fun_eq_iff)

lemma PathMeta_rev_path: "PathMeta (rev_path d) = rev_meta d"
  by (simp add: rev_path_def)

lemma infIndex_range:
  assumes "wf_base s" and "uint hf < NumHops s" and "0 < NumINF s"
  shows "uint (infIndexForHF s hf) < NumINF s"
proof -
  obtain x y z where seg: "SegLen (PathMeta s) = [x, y, z]" using assms(1)
    by (auto simp: wf_base_def wf_meta_def length_Suc_conv numeral_3_eq_3)
  have n: "NumHops s = uint x + uint y + uint z" "NumHops s \<le> 64" "NumINF s \<le> 3"
      "0 < x \<longleftrightarrow> 0 < NumINF s" "0 < y \<longleftrightarrow> 1 < NumINF s" "0 < z \<longleftrightarrow> 2 < NumINF s"
    using assms(1) by (auto simp: wf_base_def seg all_less_3 MaxHops_def)
  have "uint x + uint y < 256" using n(1,2) uint_ge_0 [of z] by linarith
  then have u: "uint (x + y) = uint x + uint y" by (simp add: uint_plus_if')
  have z: "0 < y \<longleftrightarrow> 0 < uint y" "0 < z \<longleftrightarrow> 0 < uint z" by (simp_all add: word_less_def)
  show ?thesis using assms(2,3) n z u uint_ge_0 [of y] uint_ge_0 [of z]
    by (cases "0 < y"; cases "0 < z") (auto simp: infIndexForHF_def seg word_less_def)
qed

lemma rev_path_ptrs:
  assumes "usable d"
  shows "uint (CurrHF (PathMeta (rev_path d))) = NumHops d - uint (CurrHF (PathMeta d)) - 1"
    "uint (CurrINF (PathMeta (rev_path d))) = NumINF d - uint (CurrINF (PathMeta d)) - 1"
    "infIndexForHF (rev_path d) (CurrHF (PathMeta (rev_path d))) = CurrINF (PathMeta (rev_path d))"
    "NumINF (rev_path d) = NumINF d" "NumHops (rev_path d) = NumHops d"
proof -
  have b: "NumINF d \<le> 3" "NumHops d \<le> 64" using assms wf_base_bounds [of d] by (auto simp: usable_def wf_decoded_def)
  have p: "uint (CurrINF (PathMeta d)) < NumINF d" "uint (CurrHF (PathMeta d)) < NumHops d" using assms by (auto simp: usable_def ptr_ok_def)
  show "uint (CurrHF (PathMeta (rev_path d))) = NumHops d - uint (CurrHF (PathMeta d)) - 1"
    "uint (CurrINF (PathMeta (rev_path d))) = NumINF d - uint (CurrINF (PathMeta d)) - 1"
    using b uint_ptr_reverse [OF p(1)] uint_ptr_reverse [OF p(2)] by (simp_all add: rev_path_def rev_meta_def)
  show "infIndexForHF (rev_path d) (CurrHF (PathMeta (rev_path d))) = CurrINF (PathMeta (rev_path d))"
    using reverse_consistent [of d] assms unfolding infIndex_rev_path
    by (simp add: usable_def wf_decoded_def ptr_consistent_def PathMeta_rev_path)
qed (simp_all add: rev_path_def)

lemma usable_inc:
  assumes "usable d" and "snd (Base_IncPath d) = Ok ()"
  shows "usable (fst (Base_IncPath d))" "uint (CurrHF (PathMeta (fst (Base_IncPath d)))) = uint (CurrHF (PathMeta d)) + 1"
proof -
  have ok: "isOk (snd (Base_IncPath d))" using assms(2) by simp
  have n: "NumHops d \<le> 64" "uint (CurrHF (PathMeta d)) < NumHops d - 1" "NumINF d \<noteq> 0"
    using assms(1) wf_base_bounds [of d] ok by (auto simp: usable_def wf_decoded_def isOk_Base_IncPath)
  then show c: "uint (CurrHF (PathMeta (fst (Base_IncPath d)))) = uint (CurrHF (PathMeta d)) + 1"
    using Base_IncPath_moves [OF ok] by (simp add: uint_u8_plus1)
  have f: "InfoFields (fst (Base_IncPath d)) = InfoFields d" "HopFields (fst (Base_IncPath d)) = HopFields d"
    by (simp_all add: Base_IncPath_def Let_def)
  have wf: "wf_decoded (fst (Base_IncPath d))"
    using assms(1) wf_base_IncPath [of d] f by (simp add: usable_def wf_decoded_def)
  have con: "ptr_consistent (fst (Base_IncPath d))" using Base_IncPath_moves [OF ok] by simp
  have "ptr_ok (fst (Base_IncPath d))"
    using c n con wf wf_base_bounds(1) [of d] assms(1) infIndex_range [of "fst (Base_IncPath d)"]
    by (simp add: ptr_ok_def ptr_consistent_def wf_decoded_def usable_def)
  then show "usable (fst (Base_IncPath d))" using wf con by (simp add: usable_def)
qed

text \<open>Undoing a step on the reversed path.\<close>

lemma rev_inc:
  assumes u: "usable d" and ok: "snd (Base_IncPath d) = Ok ()"
  shows "Base_IncPath (rev_path (fst (Base_IncPath d))) = (rev_path d, Ok ())"
proof -
  define d' where "d' = fst (Base_IncPath d)"
  note d' = usable_inc [OF u ok, folded d'_def]
  note r = rev_path_ptrs [OF u] and r' = rev_path_ptrs [OF d'(1)]
  have fr: "NumINF d' = NumINF d" "NumHops d' = NumHops d" "SegLen (PathMeta d') = SegLen (PathMeta d)"
      "InfoFields d' = InfoFields d" "HopFields d' = HopFields d"
    by (simp_all add: d'_def) (simp_all add: Base_IncPath_def Let_def)
  have n: "NumHops d \<le> 64" "NumINF d \<noteq> 0" using u wf_base_bounds [of d]
    by (auto simp: usable_def wf_decoded_def ptr_ok_def dest: order.strict_trans1 [OF uint_nonnegative])
  have c: "uint (CurrHF (PathMeta (rev_path d'))) + 1 = uint (CurrHF (PathMeta (rev_path d)))" using r(1) r'(1) d'(2) fr by simp
  then have hf: "CurrHF (PathMeta (rev_path d')) + 1 = CurrHF (PathMeta (rev_path d))"
  proof -
    have "uint (CurrHF (PathMeta (rev_path d'))) < 255" using c r(1) n(1) uint_ge_0 [of "CurrHF (PathMeta d)"] by linarith
    then show ?thesis using c by (simp add: word_uint_eq_iff uint_u8_plus1)
  qed
  have "infIndexForHF (rev_path d') = infIndexForHF (rev_path d)"
    by (simp add: infIndexForHF_def fun_eq_iff rev_path_def rev_meta_def fr)
  then have inf: "infIndexForHF (rev_path d') (CurrHF (PathMeta (rev_path d))) = CurrINF (PathMeta (rev_path d))" using r(3) by simp
  have lt: "\<not> NumHops d - 1 \<le> uint (CurrHF (PathMeta (rev_path d')))"
    using c r(1) uint_ge_0 [of "CurrHF (PathMeta d)"] by linarith
  have "Base_IncPath (rev_path d') = ((rev_path d')\<lparr>PathMeta := (PathMeta (rev_path d'))
      \<lparr>CurrHF := CurrHF (PathMeta (rev_path d)), CurrINF := CurrINF (PathMeta (rev_path d))\<rparr>\<rparr>, Ok ())"
    using lt n(2) by (simp add: Base_IncPath_def Let_def hf inf r'(4,5) fr)
  also have "(rev_path d')\<lparr>PathMeta := (PathMeta (rev_path d'))
      \<lparr>CurrHF := CurrHF (PathMeta (rev_path d)), CurrINF := CurrINF (PathMeta (rev_path d))\<rparr>\<rparr> = rev_path d"
    using fr by (cases d; cases d'; cases "PathMeta d"; cases "PathMeta d'") (simp add: rev_path_def rev_meta_def)
  finally show ?thesis by (simp add: d'_def)
qed


lemma usable_unat:
  assumes "usable d"
  shows "unat (CurrINF (PathMeta d)) < length (InfoFields d)" "unat (CurrHF (PathMeta d)) < length (HopFields d)"
    "unat (CurrINF (PathMeta (rev_path d))) = length (InfoFields d) - Suc (unat (CurrINF (PathMeta d)))"
    "unat (CurrHF (PathMeta (rev_path d))) = length (HopFields d) - Suc (unat (CurrHF (PathMeta d)))"
proof -
  have l: "int (length (InfoFields d)) = NumINF d" "int (length (HopFields d)) = NumHops d"
    using assms wf_base_bounds(1,3) [of d] by (auto simp: usable_def wf_decoded_def)
  have p: "uint (CurrINF (PathMeta d)) < NumINF d" "uint (CurrHF (PathMeta d)) < NumHops d" using assms by (auto simp: usable_def ptr_ok_def)
  show a: "unat (CurrINF (PathMeta d)) < length (InfoFields d)" "unat (CurrHF (PathMeta d)) < length (HopFields d)"
    using p unfolding l [symmetric] int_unat_word [symmetric] by linarith+
  show "unat (CurrINF (PathMeta (rev_path d))) = length (InfoFields d) - Suc (unat (CurrINF (PathMeta d)))"
    "unat (CurrHF (PathMeta (rev_path d))) = length (HopFields d) - Suc (unat (CurrHF (PathMeta d)))"
    using rev_path_ptrs(1,2) [OF assms] a unfolding l [symmetric] int_unat_word [symmetric] by linarith+
qed

lemma cur_rev_path:
  assumes "usable d"
  shows "cur_info (rev_path d) = flip_dir (cur_info d)" "cur_hop (rev_path d) = cur_hop d"
  using usable_unat [OF assms]
  by (simp_all add: cur_info_def cur_hop_def rev_nth) (simp_all add: rev_path_def rev_nth)

lemma chain_frame [simp]:
  "PathMeta (chain_segid b d) = PathMeta d" "NumINF (chain_segid b d) = NumINF d" "NumHops (chain_segid b d) = NumHops d"
  "infIndexForHF (chain_segid b d) = infIndexForHF d" "HopFields (chain_segid b d) = HopFields d"
  by (simp_all add: chain_segid_def infIndexForHF_def fun_eq_iff)

lemma usable_chain: "usable (chain_segid b d) \<longleftrightarrow> usable d"
  by (auto simp: usable_def chain_segid_def wf_decoded_def wf_base_def ptr_ok_def ptr_consistent_def infIndexForHF_def)

lemma cur_chain:
  assumes "usable d"
  shows "cur_info (chain_segid b d) = (if b then UpdateSegID (cur_info d) (Mac (cur_hop d)) else cur_info d)" "cur_hop (chain_segid b d) = cur_hop d"
  using usable_unat(1) [OF assms] by (simp_all add: chain_segid_def cur_info_def cur_hop_def)

lemma flip_dir_UpdateSegID: "flip_dir (UpdateSegID i m) = UpdateSegID (flip_dir i) m"
  by (simp add: flip_dir_def UpdateSegID_def)

text \<open>Updating the segment identifier commutes with reversing the path.\<close>

lemma chain_rev_path:
  assumes "usable d"
  shows "chain_segid b (rev_path d) = rev_path (chain_segid b d)"
proof (cases b)
  case True
  have "rev (map flip_dir ((InfoFields d)[unat (CurrINF (PathMeta d)) := UpdateSegID (cur_info d) (Mac (cur_hop d))]))
     = (rev (map flip_dir (InfoFields d)))[length (InfoFields d) - Suc (unat (CurrINF (PathMeta d))) := flip_dir (UpdateSegID (cur_info d) (Mac (cur_hop d)))]"
    using usable_unat(1) [OF assms] by (simp add: map_update rev_update)
  then show ?thesis using True usable_unat(3) [OF assms]
    by (simp add: chain_segid_def cur_rev_path [OF assms] flip_dir_UpdateSegID) (simp add: rev_path_def rev_meta_def)
qed (simp add: chain_segid_def)

lemma chain_twice: "usable d \<Longrightarrow> chain_segid b (chain_segid b d) = d"
  by (cases b) (simp_all add: chain_segid_def cur_info_def cur_hop_def usable_unat)


lemma determinePeer_plain: "\<not> Peer info \<Longrightarrow> determinePeer m info = Ok False"
  by (simp add: determinePeer_def)

lemma Peer_flip [simp]: "Peer (flip_dir i) = Peer i" "ConsDir (flip_dir i) = (\<not> ConsDir i)"
  by (simp_all add: flip_dir_def)

text \<open>On the way back from \<open>d\<close>, the next hop is the one before the current hop of \<open>d\<close>.\<close>

lemma rev_back:
  assumes u: "usable d" and pos: "0 < CurrHF (PathMeta d)"
  shows "CurrHF (PathMeta (rev_path d)) + 1 < word_of_int (NumHops d)" "isOk (snd (Base_IncPath (rev_path d)))"
    "uint (CurrHF (PathMeta (rev_path d)) + 1) = NumHops d - uint (CurrHF (PathMeta d))"
proof -
  have n: "NumHops d \<le> 64" "NumINF d \<noteq> 0" using u wf_base_bounds [of d]
    by (auto simp: usable_def wf_decoded_def ptr_ok_def dest: order.strict_trans1 [OF uint_nonnegative])
  have h: "0 < uint (CurrHF (PathMeta d))" "uint (CurrHF (PathMeta d)) < NumHops d"
    using pos u by (auto simp: word_less_def usable_def ptr_ok_def)
  have "uint (CurrHF (PathMeta (rev_path d))) < 255" using rev_path_ptrs(1) [OF u] n(1) h by linarith
  then show c: "uint (CurrHF (PathMeta (rev_path d)) + 1) = NumHops d - uint (CurrHF (PathMeta d))"
    using rev_path_ptrs(1) [OF u] by (simp add: uint_u8_plus1)
  show "CurrHF (PathMeta (rev_path d)) + 1 < word_of_int (NumHops d)"
    using c h n(1) by (simp add: word_less_def uint_word_of_int take_bit_int_eq_self)
  show "isOk (snd (Base_IncPath (rev_path d)))"
    using n(2) h rev_path_ptrs(1,4,5) [OF u] by (simp add: isOk_Base_IncPath)
qed

lemma incDecoded_Ok: "isOk (snd (Base_IncPath d)) \<Longrightarrow> incDecoded d = Ok (fst (Base_IncPath d))"
  by (cases "Base_IncPath d"; cases "snd (Base_IncPath d)") (simp_all add: incDecoded_def cannot_def)

lemma rev_meta_cong: "NumINF d = NumINF e \<Longrightarrow> NumHops d = NumHops e \<Longrightarrow> PathMeta d = PathMeta e \<Longrightarrow> rev_meta d = rev_meta e"
  by (simp add: rev_meta_def)

section \<open>The neighbour's view\<close>

text \<open>The path when the previous hop is the current one.\<close>

definition prev_hop :: "Decoded \<Rightarrow> Decoded" where
  "prev_hop d = d\<lparr>PathMeta := (PathMeta d)\<lparr>CurrHF := CurrHF (PathMeta d) - 1, CurrINF := infIndexForHF d (CurrHF (PathMeta d) - 1)\<rparr>\<rparr>"

lemma prev_hop:
  assumes u: "usable d" and pos: "0 < CurrHF (PathMeta d)"
  shows "usable (prev_hop d)" "Base_IncPath (prev_hop d) = (d, Ok ())"
proof -
  have h: "uint (CurrHF (PathMeta d) - 1) = uint (CurrHF (PathMeta d)) - 1"
    using pos by (simp add: uint_sub_if' word_less_def)
  have b: "uint (CurrHF (PathMeta d)) < NumHops d" "0 < NumINF d" using u
    by (auto simp: usable_def ptr_ok_def dest: order.strict_trans1 [OF uint_nonnegative])
  have m: "infIndexForHF (prev_hop d) = infIndexForHF d" by (simp add: prev_hop_def infIndexForHF_def fun_eq_iff)
  have wf: "wf_base d" using u by (simp add: usable_def wf_decoded_def)
  have i: "uint (infIndexForHF d (CurrHF (PathMeta d) - 1)) < NumINF d" using infIndex_range [OF wf] b h by simp
  have "CurrHF (PathMeta d) - 1 < 64" using wf h pos by (simp add: wf_base_def wf_meta_def word_less_def)
  then show "usable (prev_hop d)"
    using u h b i m infIndexForHF_less [of d] unfolding usable_def wf_decoded_def ptr_consistent_def ptr_ok_def
    by (simp add: prev_hop_def wf_base_def wf_meta_def)
  show "Base_IncPath (prev_hop d) = (d, Ok ())"
    using b h u unfolding Base_IncPath_def Let_def m by (simp add: prev_hop_def usable_def ptr_consistent_def)
qed

text \<open>The current hop field is the first one of its segment, and not of the path.\<close>

definition crossed :: "Decoded \<Rightarrow> bool" where
  "crossed d \<longleftrightarrow> 0 < CurrHF (PathMeta d) \<and> infIndexForHF d (CurrHF (PathMeta d) - 1) \<noteq> CurrINF (PathMeta d)"

lemma crossed_chain [simp]: "crossed (chain_segid b d) = crossed d"
  by (simp add: crossed_def)

lemma rev_prev_hop:
  "usable d \<Longrightarrow> 0 < CurrHF (PathMeta d) \<Longrightarrow> Base_IncPath (rev_path d) = (rev_path (prev_hop d), Ok ())"
  using rev_inc [OF prev_hop(1), of d] by (simp add: prev_hop(2))

lemma IsXover_rev_path:
  assumes u: "usable d"
  shows "IsXover (rev_path d) \<longleftrightarrow> crossed d"
proof (cases "0 < CurrHF (PathMeta d)")
  case True
  have "CurrINF (PathMeta (rev_path (prev_hop d))) = infIndexForHF (rev_path d) (CurrHF (PathMeta (rev_path d)) + 1)"
    using Base_IncPath_moves [OF rev_back(2) [OF u True]] Base_IncPath_frame(4) [of "rev_path d"]
    by (simp add: rev_prev_hop [OF u True] ptr_consistent_def)
  moreover have "CurrINF (PathMeta (rev_path (prev_hop d))) = CurrINF (PathMeta (rev_path d))
      \<longleftrightarrow> infIndexForHF d (CurrHF (PathMeta d) - 1) = CurrINF (PathMeta d)"
    using rev_path_ptrs(2) [OF u] rev_path_ptrs(2) [OF prev_hop(1) [OF u True]]
    by (simp add: word_uint_eq_iff prev_hop_def)
  ultimately show ?thesis using rev_back(1) [OF u True] rev_path_ptrs(5) [OF u] True by (auto simp: IsXover_def crossed_def)
next
  case False
  then have z: "CurrHF (PathMeta d) = 0" by (simp add: word_gt_0)
  have n: "0 < NumHops d" "NumHops d \<le> 64" using u wf_base_bounds [of d]
    by (auto simp: usable_def wf_decoded_def ptr_ok_def dest: order.strict_trans1 [OF uint_nonnegative])
  have "uint (CurrHF (PathMeta (rev_path d)) + 1) = NumHops d" using rev_path_ptrs(1) [OF u] z n by (simp add: uint_u8_plus1)
  then have "\<not> IsXover (rev_path d)" using n rev_path_ptrs(5) [OF u]
    by (simp add: IsXover_def word_less_def uint_word_of_int take_bit_int_eq_self)
  then show ?thesis using False by (simp add: crossed_def)
qed

text \<open>The two hops next to a peering link are the same ones on the way back.\<close>

lemma determinePeer_rev:
  assumes u: "usable d" and ok: "determinePeer (PathMeta d) i = Ok peer"
  shows "determinePeer (PathMeta (rev_path d)) (flip_dir i) = Ok peer"
proof (cases "Peer i")
  case True
  obtain a b c where seg: "SegLen (PathMeta d) = [a, b, c]"
    using u by (auto simp: usable_def wf_decoded_def wf_base_def wf_meta_def length_eq_3)
  have nz: "a \<noteq> 0" "b \<noteq> 0" "c = 0" and peer: "peer = (CurrHF (PathMeta d) = a - 1 \<or> CurrHF (PathMeta d) = a)"
    using ok True by (auto simp: determinePeer_def seg Let_def split: if_splits)
  have base: "wf_base d" using u by (simp add: usable_def wf_decoded_def)
  have n: "NumINF d = 2" "NumHops d = uint a + uint b" "NumHops d \<le> 64"
    using base nz by (auto simp: wf_base_def seg all_less_3 MaxHops_def word_gt_0)
  have hf: "uint (CurrHF (PathMeta (rev_path d))) = uint a + uint b - uint (CurrHF (PathMeta d)) - 1" using rev_path_ptrs(1) [OF u] n by simp
  have "uint a \<noteq> 0" "uint b \<noteq> 0" using nz by (simp_all add: uint_0_iff)
  then have pos: "1 \<le> uint a" "1 \<le> uint b" using uint_ge_0 [of a] uint_ge_0 [of b] by linarith+
  then have "uint (a - 1) = uint a - 1" "uint (b - 1) = uint b - 1" by (simp_all add: uint_sub_if')
  then have "(CurrHF (PathMeta (rev_path d)) = b - 1 \<or> CurrHF (PathMeta (rev_path d)) = b)
      \<longleftrightarrow> (CurrHF (PathMeta d) = a - 1 \<or> CurrHF (PathMeta d) = a)"
    unfolding word_uint_eq_iff using hf by auto
  moreover have "SegLen (PathMeta (rev_path d)) = [b, a, 0]" using n nz by (simp add: rev_path_def rev_meta_def seg)
  ultimately show ?thesis using nz peer True by (simp add: determinePeer_def Let_def)
qed (use ok in \<open>simp add: determinePeer_def\<close>)

text \<open>A path over a peering link changes its segment next to that link only.\<close>

lemma peering_no_xover:
  assumes u: "usable d" and ok: "determinePeer (PathMeta d) (cur_info d) = Ok False" and x: "IsXover d"
  shows "\<not> Peer (cur_info d)"
proof
  assume p: "Peer (cur_info d)"
  obtain a b c where seg: "SegLen (PathMeta d) = [a, b, c]"
    using u by (auto simp: usable_def wf_decoded_def wf_base_def wf_meta_def length_eq_3)
  have nz: "c = 0" "CurrHF (PathMeta d) \<noteq> a - 1"
    using ok p by (auto simp: determinePeer_def seg Let_def split: if_splits)
  have base: "wf_base d" "ptr_consistent d" using u by (simp_all add: usable_def wf_decoded_def)
  have n: "NumHops d = uint a + uint b" "NumHops d \<le> 64" using base nz by (auto simp: wf_base_def seg MaxHops_def)
  have lt: "uint (CurrHF (PathMeta d)) < NumHops d" using u by (simp add: usable_def ptr_ok_def)
  have h1: "uint (CurrHF (PathMeta d) + 1) = uint (CurrHF (PathMeta d)) + 1" using lt n(2) by (simp add: uint_u8_plus1)
  have ab: "uint (a + b) = uint a + uint b" using n by (simp add: uint_plus_if')
  have "uint (CurrHF (PathMeta d) + 1) < NumHops d" using x n ab
    by (simp add: IsXover_def word_less_def uint_word_of_int take_bit_int_eq_self)
  moreover note ab
  moreover have "uint (CurrHF (PathMeta d)) + 1 \<noteq> uint a"
  proof
    assume "uint (CurrHF (PathMeta d)) + 1 = uint a"
    then have "CurrHF (PathMeta d) + 1 = a" using h1 by (simp add: word_uint_eq_iff)
    then show False using nz(2) by (metis add_diff_cancel_right')
  qed
  ultimately have "infIndexForHF d (CurrHF (PathMeta d) + 1) = infIndexForHF d (CurrHF (PathMeta d))"
    using h1 n(1) by (auto simp: infIndexForHF_def seg word_less_def)
  then show False using x base(2) by (simp add: IsXover_def ptr_consistent_def)
qed

text \<open>What \<^verbatim>\<open>prepareSCMP\<close> computes, on the path before it is reversed: a change of segment is undone, unless it is one
  over a peering link, and for a reply that leaves the AS the segment identifier is updated and the path advanced.\<close>

lemma incDecoded_rev: "usable d \<Longrightarrow> 0 < CurrHF (PathMeta d) \<Longrightarrow> incDecoded (rev_path d) = Ok (rev_path (prev_hop d))"
  by (simp add: incDecoded_def rev_prev_hop cannot_def)

lemma replyPath_eq:
  assumes u: "usable d" and peer: "determinePeer (PathMeta d) (cur_info d) = Ok peer"
    and e: "e = (if crossed d \<and> \<not> peer then prev_hop d else d)"
  shows "replyPath ext d = (if ext then incDecoded (rev_path (chain_segid (\<not> ConsDir (cur_info e) \<and> \<not> peer) e)) else Ok (rev_path e))"
proof -
  have ue: "usable e" using u prev_hop(1) [OF u] by (simp add: e crossed_def)
  have len: "\<not> length (InfoFields (rev_path x)) \<le> unat (CurrINF (PathMeta (rev_path x)))"
      "\<not> length (HopFields (rev_path x)) \<le> unat (CurrHF (PathMeta (rev_path x)))" if "usable x" for x
    using usable_unat [OF that] by (simp_all add: rev_path_def)
  have "determinePeer (PathMeta (rev_path d)) (cur_info (rev_path d)) = Ok peer"
    using determinePeer_rev [OF u peer] by (simp add: cur_rev_path(1) [OF u])
  moreover have "(if IsXover (rev_path d) \<and> \<not> peer then incDecoded (rev_path d) else Ok (rev_path d)) = Ok (rev_path e)"
    using incDecoded_rev [OF u] by (simp add: e IsXover_rev_path [OF u]) (simp add: crossed_def)
  ultimately show ?thesis
    using len [OF u] len [OF ue] by (simp add: replyPath_def Reverse_usable [OF u] cannot_def cur_rev_path(1) [OF ue] chain_rev_path [OF ue])
qed

lemma xor_same_iff: "x = x XOR y \<longleftrightarrow> y = 0" for x y :: u16
proof
  assume "x = x XOR y"
  then have "x XOR x = x XOR (x XOR y)" by (rule arg_cong)
  then show "y = 0" by (simp flip: xor.assoc)
qed simp

lemma reply_of_chained:
  assumes u: "usable d" and np: "\<not> Peer (cur_info d)" and pos: "0 < CurrHF (PathMeta d)"
    and same: "infIndexForHF d (CurrHF (PathMeta d) - 1) = CurrINF (PathMeta d)"
  shows "replyPath True d = Decoded_Reverse (prev_hop (chain_segid (\<not> ConsDir (cur_info d)) d))"
proof -
  define e where "e = chain_segid (\<not> ConsDir (cur_info d)) d"
  have e: "usable e" "0 < CurrHF (PathMeta e)" using assms by (simp_all add: e_def usable_chain)
  have "replyPath True d = incDecoded (rev_path e)"
    using replyPath_eq [OF u determinePeer_plain [OF np] refl, of True] same by (simp add: crossed_def e_def)
  then show ?thesis using incDecoded_rev [OF e] Reverse_usable [OF prev_hop(1) [OF e]] by (simp add: e_def)
qed

lemma prev_hop_inc:
  assumes u: "usable d" and ok: "snd (Base_IncPath d) = Ok ()"
  shows "prev_hop (fst (Base_IncPath d)) = d"
proof -
  have con: "infIndexForHF d (CurrHF (PathMeta d)) = CurrINF (PathMeta d)" using u by (simp add: usable_def ptr_consistent_def)
  have m: "CurrHF (PathMeta (fst (Base_IncPath d))) = CurrHF (PathMeta d) + 1"
    using ok by (auto simp: Base_IncPath_def Let_def split: if_splits)
  have "prev_hop (fst (Base_IncPath d)) = d\<lparr>PathMeta := (PathMeta d)\<lparr>CurrHF := CurrHF (PathMeta d), CurrINF := CurrINF (PathMeta d)\<rparr>\<rparr>"
    unfolding prev_hop_def m Base_IncPath_frame(4) using ok
    by (auto simp: Base_IncPath_def Let_def con split: if_splits)
  then show ?thesis by simp
qed

lemma crossed_inc:
  assumes u: "usable d" and x: "IsXover d"
  shows "snd (Base_IncPath d) = Ok ()" "crossed (fst (Base_IncPath d))"
proof -
  have b: "NumHops d \<le> 64" "uint (CurrHF (PathMeta d)) < NumHops d" "NumINF d \<noteq> 0" using u wf_base_bounds [of d]
    by (auto simp: usable_def wf_decoded_def ptr_ok_def dest: order.strict_trans1 [OF uint_nonnegative])
  have "uint (CurrHF (PathMeta d) + 1) < NumHops d" using x b(1) wf_base_bounds(3) [of d] u
    by (simp add: IsXover_def word_less_def uint_word_of_int take_bit_int_eq_self usable_def wf_decoded_def)
  moreover have "uint (CurrHF (PathMeta d) + 1) = uint (CurrHF (PathMeta d)) + 1" using b by (simp add: uint_u8_plus1)
  ultimately have k: "isOk (snd (Base_IncPath d))" using b by (simp add: isOk_Base_IncPath)
  then show ok: "snd (Base_IncPath d) = Ok ()" by (cases "snd (Base_IncPath d)") auto
  define d2 where "d2 = fst (Base_IncPath d)"
  have pos: "0 < CurrHF (PathMeta d2)" using usable_inc(2) [OF u ok] uint_ge_0 [of "CurrHF (PathMeta d)"] unfolding word_less_def d2_def by simp
  have "CurrINF (PathMeta d2) \<noteq> CurrINF (PathMeta d)"
    using x Base_IncPath_moves [OF k] by (auto simp: IsXover_def ptr_consistent_def d2_def)
  moreover have "infIndexForHF d2 (CurrHF (PathMeta d2) - 1) = CurrINF (PathMeta d)"
    using arg_cong [OF prev_hop_inc [OF u ok], of "\<lambda>x. CurrINF (PathMeta x)"] by (simp add: prev_hop_def d2_def)
  ultimately show "crossed (fst (Base_IncPath d))" using pos by (simp add: crossed_def d2_def)
qed

text \<open>Crossing over to the next segment does not change the reply.\<close>

lemma replyPath_after_xover:
  assumes u: "usable d" and np: "\<forall>i \<in> set (InfoFields d). \<not> Peer i" and nx: "\<not> crossed d" and x: "IsXover d"
  shows "replyPath ext (fst (Base_IncPath d)) = replyPath ext d"
proof -
  define d2 where "d2 = fst (Base_IncPath d)"
  note c = crossed_inc [OF u x]
  have u2: "usable d2" using usable_inc(1) [OF u c(1)] by (simp add: d2_def)
  have "InfoFields d2 = InfoFields d" by (simp add: d2_def Base_IncPath_def Let_def)
  then have p: "\<not> Peer (cur_info d2)" "\<not> Peer (cur_info d)"
    using np usable_unat(1) [OF u2] usable_unat(1) [OF u] by (auto simp: cur_info_def)
  have "prev_hop d2 = d" "crossed d2" using prev_hop_inc [OF u c(1)] c(2) by (simp_all add: d2_def)
  then show ?thesis
    using replyPath_eq [OF u2 determinePeer_plain [OF p(1)] refl, of ext] replyPath_eq [OF u determinePeer_plain [OF p(2)] refl, of ext] nx
    by (simp add: d2_def)
qed

text \<open>C8: an SCMP message follows the reverse of the path the packet came with, over peering links too. A message that leaves
  over the link the packet came in on takes the reverse of the path as the neighbouring router sent it: the same
  segment identifiers, and the neighbour's hop as the current one, which lies in the other segment exactly if the link is
  the peering link of the path. A message that stays in the AS, for a packet from inside, takes the reverse of the path with the
  hop at which the packet entered the AS as the current one. This holds at every point after the update of the
  segment identifier on ingress, before and after a cross-over to the next segment. The path is one whose segments all
  have the peering flag or none, which changes its segment at most once in an AS, and a packet that comes in from outside
  does so at a hop of the same segment or over the peering link.\<close>

theorem scmp_reply_path:
  assumes u: "usable d" and flags: "\<forall>i \<in> set (InfoFields d). Peer i = Peer (cur_info d)"
    and peer: "determinePeer (PathMeta d) (cur_info d) = Ok peer"
    and outside: "ext \<Longrightarrow> 0 < CurrHF (PathMeta d) \<and> (peer \<or> \<not> crossed d)" and once: "crossed d \<Longrightarrow> IsXover d \<Longrightarrow> peer"
    and d1: "d1 = chain_segid (\<not> ConsDir (cur_info d) \<and> ext \<and> \<not> peer) d"
    and d2: "d2 = (if IsXover d1 \<and> \<not> peer then fst (Base_IncPath d1) else d1)"
  shows "\<exists>rp. Decoded_Reverse (if ext \<or> crossed d \<and> \<not> peer then prev_hop d else d) = Ok rp
    \<and> replyPath ext d1 = Ok rp \<and> replyPath ext d2 = Ok rp"
proof -
  define e where "e = (if ext \<or> crossed d \<and> \<not> peer then prev_hop d else d)"
  have ue: "usable e" using u outside prev_hop(1) [OF u] by (auto simp: e_def crossed_def)
  have u1: "usable d1" and meta: "PathMeta d1 = PathMeta d" "ConsDir (cur_info d1) = ConsDir (cur_info d)" "Peer (cur_info d1) = Peer (cur_info d)"
    using u by (simp_all add: d1 usable_chain cur_chain UpdateSegID_def)
  have peer1: "determinePeer (PathMeta d1) (cur_info d1) = Ok peer" using peer meta by (simp add: determinePeer_def)
  have "chain_segid (\<not> ConsDir (cur_info d) \<and> ext \<and> \<not> peer) d1 = d" using chain_twice [OF u] by (simp add: d1)
  then have r1: "replyPath ext d1 = Ok (rev_path e)"
    using replyPath_eq [OF u1 peer1 refl, of ext] outside incDecoded_rev [OF u] meta by (auto simp: e_def d1 chain_segid_def [of False])
  moreover have "replyPath ext d2 = replyPath ext d1"
  proof (cases "IsXover d1 \<and> \<not> peer")
    case True
    have "\<not> Peer (cur_info d)" using peering_no_xover [OF u1] peer1 True meta by simp
    then have np: "\<forall>i \<in> set (InfoFields d1). \<not> Peer i" using flags
      by (auto simp: d1 chain_segid_def UpdateSegID_def split: if_splits dest!: set_update_subset_insert [THEN subsetD])
    have "IsXover d" using True by (simp add: d1 IsXover_def)
    then have "\<not> crossed d1" using once True by (auto simp: d1)
    then show ?thesis using replyPath_after_xover [OF u1 np] True d2 by simp
  qed (use d2 in auto)
  ultimately show ?thesis using Reverse_usable [OF ue] by (simp add: e_def)
qed

text \<open>C9: a message about an error found before that update, such as an expired hop field, gets another path when the
  packet travels against the construction direction: the update made for it leaves a segment identifier that differs
  from the one of the packet whenever the first two bytes of the MAC are not zero. Only in construction direction the
  reply path is right at that point.\<close>

theorem scmp_reply_path_early:
  assumes "usable d" and "\<forall>i \<in> set (InfoFields d). \<not> Peer i" and "0 < CurrHF (PathMeta d)"
    and "infIndexForHF d (CurrHF (PathMeta d) - 1) = CurrINF (PathMeta d)"
  shows "\<exists>rp. replyPath True d = Ok rp \<and> SegID (cur_info rp) = (if ConsDir (cur_info d) then SegID (cur_info d)
      else SegID (cur_info d) XOR be_u16 (take 2 (Mac (cur_hop d))))
    \<and> (Decoded_Reverse (prev_hop d) = Ok rp \<longleftrightarrow> ConsDir (cur_info d) \<or> be_u16 (take 2 (Mac (cur_hop d))) = 0)"
proof -
  define e where "e = chain_segid (\<not> ConsDir (cur_info d)) d"
  have np: "\<not> Peer (cur_info d)" using assms(1,2) usable_unat(1) [OF assms(1)] by (auto simp: cur_info_def)
  have e: "usable e" "0 < CurrHF (PathMeta e)" "CurrINF (PathMeta (prev_hop e)) = CurrINF (PathMeta e)" "InfoFields (prev_hop e) = InfoFields e"
    using assms by (simp_all add: e_def usable_chain prev_hop_def)
  have d: "CurrINF (PathMeta (prev_hop d)) = CurrINF (PathMeta d)" "InfoFields (prev_hop d) = InfoFields d" 
    using assms(4) by (simp_all add: prev_hop_def)
  have r: "replyPath True d = Ok (rev_path (prev_hop e))" "Decoded_Reverse (prev_hop d) = Ok (rev_path (prev_hop d))"
    using reply_of_chained [OF assms(1) np assms(3,4)] Reverse_usable prev_hop(1) [OF e(1,2)] prev_hop(1) [OF assms(1,3)] by (simp_all add: e_def)
  have c: "cur_info (rev_path (prev_hop e)) = flip_dir (cur_info e)" "cur_info (rev_path (prev_hop d)) = flip_dir (cur_info d)"
    using e d cur_rev_path(1) [OF prev_hop(1) [OF e(1,2)]] cur_rev_path(1) [OF prev_hop(1) [OF assms(1,3)]] by (simp_all add: cur_info_def)
  have s: "SegID (cur_info e) = (if ConsDir (cur_info d) then SegID (cur_info d) else SegID (cur_info d) XOR be_u16 (take 2 (Mac (cur_hop d))))"
    by (simp add: e_def cur_chain [OF assms(1)] UpdateSegID_def)
  have "rev_path (prev_hop d) = rev_path (prev_hop e) \<longleftrightarrow> ConsDir (cur_info d) \<or> be_u16 (take 2 (Mac (cur_hop d))) = 0"
  proof
    assume "rev_path (prev_hop d) = rev_path (prev_hop e)"
    then have "SegID (flip_dir (cur_info d)) = SegID (flip_dir (cur_info e))" using c by metis
    then show "ConsDir (cur_info d) \<or> be_u16 (take 2 (Mac (cur_hop d))) = 0" using s
      by (simp add: flip_dir_def xor_same_iff split: if_splits)
  next
    assume "ConsDir (cur_info d) \<or> be_u16 (take 2 (Mac (cur_hop d))) = 0"
    then have "e = d" by (auto simp: e_def chain_segid_def UpdateSegID_def cur_info_def)
    then show "rev_path (prev_hop d) = rev_path (prev_hop e)" by simp
  qed
  then show ?thesis using r c s by (auto simp: flip_dir_def)
qed

definition sample_back :: Decoded where
  "sample_back = \<lparr>PathMeta = \<lparr>CurrINF = 0, CurrHF = 1, SegLen = [2, 2, 0]\<rparr>, NumINF = 2, NumHops = 4,
     InfoFields = [\<lparr>Peer = False, ConsDir = False, SegID = 7, Timestamp = 0\<rparr>, \<lparr>Peer = False, ConsDir = True, SegID = 9, Timestamp = 0\<rparr>],
     HopFields = map (\<lambda>x. \<lparr>IngressRouterAlert = False, EgressRouterAlert = False, ExpTime = 63, ConsIngress = x, ConsEgress = 0, Mac = [0, 5, 0, 0, 0, 0]\<rparr>) [1, 2, 3, 4]\<rparr>"

lemma sample_back_usable: "usable sample_back" "\<forall>i \<in> set (InfoFields sample_back). \<not> Peer i"
  "0 < CurrHF (PathMeta sample_back)" "infIndexForHF sample_back (CurrHF (PathMeta sample_back) - 1) = CurrINF (PathMeta sample_back)"
  by (simp_all add: usable_def sample_back_def wf_decoded_def wf_base_def wf_meta_def all_less_3 MaxHops_def ptr_ok_def ptr_consistent_def
      infIndexForHF_def wf_hop_def MacLen_def)

text \<open>The same path over a peering link, at the hop behind that link.\<close>

definition sample_peering :: Decoded where
  "sample_peering = sample_back\<lparr>InfoFields := map (\<lambda>i. i\<lparr>Peer := True\<rparr>) (InfoFields sample_back),
     PathMeta := \<lparr>CurrINF = 1, CurrHF = 2, SegLen = [2, 2, 0]\<rparr>\<rparr>"

lemma sample_peering_usable: "usable sample_peering"
  by (simp add: usable_def sample_peering_def sample_back_def wf_decoded_def wf_base_def wf_meta_def all_less_3 MaxHops_def ptr_ok_def ptr_consistent_def
      infIndexForHF_def wf_hop_def MacLen_def)

text \<open>At the cross-over of a path that goes up and then down: the reply path of the packet with either pointer; and
  at the hop behind a peering link, where the reply goes back over the link to the other segment.\<close>

theorem scmp_reply_path_witness:
  "(\<exists>rp. Decoded_Reverse (prev_hop sample_back) = Ok rp
    \<and> replyPath True (fst (Base_IncPath (chain_segid True sample_back))) = Ok rp \<and> SegID (cur_info rp) = 7 \<and> CurrHF (PathMeta rp) = 3)
   \<and> (\<exists>rp. Decoded_Reverse (prev_hop sample_peering) = Ok rp
    \<and> replyPath True sample_peering = Ok rp \<and> SegID (cur_info rp) = 7 \<and> CurrHF (PathMeta rp) = 2)"
proof
  have x: "IsXover (chain_segid True sample_back)" "ConsDir (cur_info sample_back) = False" "\<not> crossed sample_back"
      "determinePeer (PathMeta sample_back) (cur_info sample_back) = Ok False" "\<forall>i \<in> set (InfoFields sample_back). Peer i = Peer (cur_info sample_back)"
    by code_simp+
  have "mapR (\<lambda>rp. (SegID (cur_info rp), CurrHF (PathMeta rp))) (Decoded_Reverse (prev_hop sample_back)) = Ok (7, 3)" by code_simp
  then show "\<exists>rp. Decoded_Reverse (prev_hop sample_back) = Ok rp
    \<and> replyPath True (fst (Base_IncPath (chain_segid True sample_back))) = Ok rp \<and> SegID (cur_info rp) = 7 \<and> CurrHF (PathMeta rp) = 3"
    using scmp_reply_path [OF sample_back_usable(1) x(5,4) _ _ refl refl, of True] x sample_back_usable(3) by (auto simp: mapR_eq_Ok)
  have y: "determinePeer (PathMeta sample_peering) (cur_info sample_peering) = Ok True"
      "\<forall>i \<in> set (InfoFields sample_peering). Peer i = Peer (cur_info sample_peering)" "0 < CurrHF (PathMeta sample_peering)"
    by code_simp+
  have "mapR (\<lambda>rp. (SegID (cur_info rp), CurrHF (PathMeta rp))) (Decoded_Reverse (prev_hop sample_peering)) = Ok (7, 2)" by code_simp
  then show "\<exists>rp. Decoded_Reverse (prev_hop sample_peering) = Ok rp
    \<and> replyPath True sample_peering = Ok rp \<and> SegID (cur_info rp) = 7 \<and> CurrHF (PathMeta rp) = 2"
    using scmp_reply_path [OF sample_peering_usable y(2,1) _ _ refl refl, of True] y(3) by (auto simp: mapR_eq_Ok chain_segid_def)
qed

theorem scmp_reply_path_early_witness:
  "\<exists>rp. replyPath True sample_back = Ok rp \<and> SegID (cur_info rp) = 2 \<and> Decoded_Reverse (prev_hop sample_back) \<noteq> Ok rp"
proof -
  have "ConsDir (cur_info sample_back) = False" "SegID (cur_info sample_back) = 7" "be_u16 (take 2 (Mac (cur_hop sample_back))) = 5" by code_simp+
  then show ?thesis using scmp_reply_path_early [OF sample_back_usable] by auto
qed

end
