(* ===== verification/Pipeline.thy ===== *)
theory Pipeline
  imports SlowPath "HOL-Library.Multiset"
begin

text \<open>
  The goroutines of a running data plane and what they share: the pool of packet buffers and the queues between
  receivers, processors, slow-path processors and forwarders (\<^verbatim>\<open>Run\<close>, \<^verbatim>\<open>initPacketPool\<close>, \<^verbatim>\<open>initQueues\<close>, \<^verbatim>\<open>runReceiver\<close>,
  \<^verbatim>\<open>runProcessor\<close>, \<^verbatim>\<open>runSlowPathProcessor\<close>, \<^verbatim>\<open>runForwarder\<close>, \<^verbatim>\<open>readUpTo\<close> in \<^verbatim>\<open>router/dataplane.go\<close>). A buffer is a number, \<open>None\<close> is the
  nil slice. Each communication of a goroutine is one step, so that steps of different goroutines interleave in
  any order. What sockets deliver and accept is part of the step.
\<close>

section \<open>Packets and configuration\<close>

record RunConfig =
  NumProcessors :: nat
  NumSlowPathProcessors :: nat
  BatchSize :: nat

record packet =
  pkSrc :: UDPAddr
  pkDst :: "UDPAddr option"
  pkIngress :: u16
  pkTraffic :: trafficType
  pkBuf :: "nat option"
  pkRaw :: bytes
  pkLabel :: u8

text \<open>One message of a batch: its buffer, the contents of the whole buffer, the number of bytes read, the sender.\<close>

record message =
  msgBuf :: "nat option"
  msgData :: bytes
  msgN :: nat
  msgAddr :: UDPAddr

text \<open>
  The state of one interface: \<open>rxFresh\<close> and \<open>rxKept\<close> are the buffers in \<^verbatim>\<open>msgs\<close> of its receiver, taken from the pool in this
  round and left over from earlier ones, \<open>rxRead\<close> the messages read but not yet handed on; \<open>txQ\<close> is the queue of its
  forwarder and \<open>txPkts\<close> the packets it is about to write.
\<close>

record ifState =
  rxSeed :: u32
  rxFresh :: "nat option list"
  rxKept :: "nat option list"
  rxRead :: "message list"
  txQ :: "packet list"
  txPkts :: "packet list"

record procState =
  procQ :: "packet list"
  procBusy :: "packet option"
  procOf :: scionPacketProcessor

record slowState =
  slowQ :: "(packet \<times> slowPathRequest) list"
  slowBusy :: "(packet \<times> slowPathRequest) option"
  slowOf :: slowPathPacketProcessor

record pipeline =
  runCfg :: RunConfig
  queueSize :: nat
  pool :: "nat option list"
  ifIDs :: "u16 set"
  ifs :: "u16 \<Rightarrow> ifState"
  procs :: "procState list"
  slows :: "slowState list"
  shared :: DataPlane

section \<open>Start\<close>

definition processorQueueSize :: "RunConfig \<Rightarrow> u16 set \<Rightarrow> nat" where
  "processorQueueSize cfg I = max (card I * BatchSize cfg div NumProcessors cfg) (BatchSize cfg)"

definition poolSize :: "RunConfig \<Rightarrow> u16 set \<Rightarrow> nat \<Rightarrow> nat" where
  "poolSize cfg I qs = card I * BatchSize cfg + (NumProcessors cfg + NumSlowPathProcessors cfg) * (qs + 1) + card I * (2 * BatchSize cfg)"

definition initPacketPool :: "RunConfig \<Rightarrow> u16 set \<Rightarrow> nat \<Rightarrow> nat option list" where
  "initPacketPool cfg I qs = map Some [0..<poolSize cfg I qs]"

definition newReceiver :: "bytes \<Rightarrow> ifState" where
  "newReceiver rnd = \<lparr>rxSeed = hash_seed rnd, rxFresh = [], rxKept = [], rxRead = [], txQ = [], txPkts = []\<rparr>"

definition startRun :: "RunConfig \<Rightarrow> DataPlane \<Rightarrow> (u16 \<Rightarrow> bytes) \<Rightarrow> FakeProvider \<Rightarrow> pipeline result" where
  "startRun cfg d rnd provider =
    (let I = dom (interfaces d); qs = processorQueueSize cfg I; d = d\<lparr>running := True\<rparr> in
     mapR (\<lambda>p. \<lparr>runCfg = cfg, queueSize = qs, pool = initPacketPool cfg I qs, ifIDs = I, ifs = (\<lambda>i. newReceiver (rnd i)),
        procs = replicate (NumProcessors cfg) \<lparr>procQ = [], procBusy = None, procOf = p\<rparr>,
        slows = replicate (NumSlowPathProcessors cfg) \<lparr>slowQ = [], slowBusy = None, slowOf = newSlowPathProcessor d provider\<rparr>,
        shared = d\<rparr>) (newPacketProcessor d))"

section \<open>The steps of the goroutines\<close>

definition returnPacketToPool :: "nat option \<Rightarrow> pipeline \<Rightarrow> pipeline" where
  "returnPacketToPool b s = s\<lparr>pool := pool s @ [b]\<rparr>"

definition onIf :: "u16 \<Rightarrow> (ifState \<Rightarrow> ifState) \<Rightarrow> pipeline \<Rightarrow> pipeline" where
  "onIf i f s = s\<lparr>ifs := (ifs s)(i := f (ifs s i))\<rparr>"

definition onProc :: "nat \<Rightarrow> (procState \<Rightarrow> procState) \<Rightarrow> pipeline \<Rightarrow> pipeline" where
  "onProc k f s = s\<lparr>procs := (procs s)[k := f (procs s ! k)]\<rparr>"

definition onSlow :: "nat \<Rightarrow> (slowState \<Rightarrow> slowState) \<Rightarrow> pipeline \<Rightarrow> pipeline" where
  "onSlow k f s = s\<lparr>slows := (slows s)[k := f (slows s ! k)]\<rparr>"

text \<open>The receiver takes a buffer out of the pool.\<close>

definition rxCollect :: "u16 \<Rightarrow> pipeline \<Rightarrow> pipeline" where
  "rxCollect i s = onIf i (\<lambda>x. x\<lparr>rxFresh := rxFresh x @ [hd (pool s)]\<rparr>) (s\<lparr>pool := tl (pool s)\<rparr>)"

text \<open>It reads a batch of messages into its buffers: the contents, lengths and senders are \<open>ms\<close>. \<^verbatim>\<open>ReadBatch\<close> returns either
  messages or an error; after an error the loop starts over with the same buffers.\<close>

definition rxReadBatch :: "u16 \<Rightarrow> (bytes \<times> nat \<times> UDPAddr) list \<Rightarrow> pipeline \<Rightarrow> pipeline" where
  "rxReadBatch i ms = onIf i (\<lambda>x. let msgs = rxFresh x @ rxKept x in
     x\<lparr>rxRead := map2 (\<lambda>b (data, n, a). \<lparr>msgBuf = b, msgData = data, msgN = n, msgAddr = a\<rparr>) (take (length ms) msgs) ms,
       rxFresh := [], rxKept := drop (length ms) msgs\<rparr>)"

text \<open>Sending to a queue that is full drops the packet.\<close>

definition enqueueForProcessing :: "u16 \<Rightarrow> pipeline \<Rightarrow> pipeline option" where
  "enqueueForProcessing i s =
    (let x = ifs s i; m = hd (rxRead x); s' = onIf i (\<lambda>x. x\<lparr>rxRead := tl (rxRead x)\<rparr>) s in
     case computeProcID (msgData m) (int (NumProcessors (runCfg s))) (rxSeed x) of
       Ok k \<Rightarrow> Some (
         if length (procQ (procs s ! unat k)) < queueSize s
         then onProc (unat k) (\<lambda>q. q\<lparr>procQ := procQ q @ [\<lparr>pkSrc = msgAddr m, pkDst = None, pkIngress = i, pkTraffic = ttOther,
                pkBuf = msgBuf m, pkRaw = take (msgN m) (msgData m), pkLabel = 0\<rparr>]\<rparr>) s'
         else returnPacketToPool (msgBuf m) s')
     | Fail e \<Rightarrow> Some (returnPacketToPool (msgBuf m) s')
     | Panic \<Rightarrow> None)"

text \<open>A processor takes a packet from its queue, \<open>procTake\<close>, and disposes of it, \<open>procDone\<close>.\<close>

definition procTake :: "nat \<Rightarrow> pipeline \<Rightarrow> pipeline" where
  "procTake k = onProc k (\<lambda>q. q\<lparr>procBusy := Some (hd (procQ q)), procQ := tl (procQ q)\<rparr>)"

definition sendTo :: "u16 \<Rightarrow> packet \<Rightarrow> pipeline \<Rightarrow> pipeline" where
  "sendTo egress p s =
    (if egress \<in> ifIDs s \<and> length (txQ (ifs s egress)) < BatchSize (runCfg s)
     then onIf egress (\<lambda>x. x\<lparr>txQ := txQ x @ [p]\<rparr>) s
     else returnPacketToPool (pkBuf p) s)"

definition disposeOf :: "nat \<Rightarrow> packet \<Rightarrow> u32 \<Rightarrow> processResult \<Rightarrow> go_error option \<Rightarrow> pipeline \<Rightarrow> pipeline" where
  "disposeOf k p label r err s =
    (case err of
       Some e \<Rightarrow>
         if errors_Is e slowPathRequired then
           (let j = k mod NumSlowPathProcessors (runCfg s) in
            if length (slowQ (slows s ! j)) < queueSize s
            then onSlow j (\<lambda>q. q\<lparr>slowQ := slowQ q @ [(p, SlowPathRequest r)]\<rparr>) s
            else returnPacketToPool (pkBuf p) s)
         else returnPacketToPool (pkBuf p) s
     | None \<Rightarrow>
         (case OutPkt r of
            None \<Rightarrow> returnPacketToPool (pkBuf p) s
          | Some out \<Rightarrow> sendTo (EgressID r) (p\<lparr>pkRaw := out, pkDst := OutAddr r, pkLabel := ucast label, pkTraffic := TrafficType r\<rparr>) s))"

definition procDone :: "envir \<Rightarrow> nat \<Rightarrow> pipeline \<Rightarrow> pipeline option" where
  "procDone E k s =
    (case procBusy (procs s ! k) of
       None \<Rightarrow> None
     | Some p \<Rightarrow>
         (case processPkt E (pkRaw p) (pkSrc p) (pkIngress p) ((procOf (procs s ! k))\<lparr>plane := shared s\<rparr>) of
            (q, Ret r err) \<Rightarrow>
              Some (disposeOf k p (mplsLabel q) r err (onProc k (\<lambda>x. x\<lparr>procBusy := None, procOf := q\<rparr>) (s\<lparr>shared := plane q\<rparr>)))
          | _ \<Rightarrow> None))"

definition slowTake :: "nat \<Rightarrow> pipeline \<Rightarrow> pipeline" where
  "slowTake k = onSlow k (\<lambda>q. q\<lparr>slowBusy := Some (hd (slowQ q)), slowQ := tl (slowQ q)\<rparr>)"

text \<open>The slow path sends what it gets, the nil slice too.\<close>

definition slowDispose :: "packet \<Rightarrow> processResult \<Rightarrow> go_error option \<Rightarrow> pipeline \<Rightarrow> pipeline" where
  "slowDispose p r err s =
    (case err of
       Some e \<Rightarrow> returnPacketToPool (pkBuf p) s
     | None \<Rightarrow> sendTo (EgressID r)
         (case OutPkt r of None \<Rightarrow> p\<lparr>pkDst := OutAddr r, pkBuf := None, pkRaw := []\<rparr>
          | Some out \<Rightarrow> p\<lparr>pkDst := OutAddr r, pkRaw := out\<rparr>) s)"

definition slowRun :: "envir \<Rightarrow> (bytes \<Rightarrow> bytes \<Rightarrow> bytes) \<Rightarrow> nat \<Rightarrow> pipeline \<Rightarrow> slowPathPacketProcessor \<times> outcome" where
  "slowRun E cmac k s =
    (case slowBusy (slows s ! k) of
       None \<Rightarrow> (slowOf (slows s ! k), Blocked)
     | Some (p, rq) \<Rightarrow> processPacket E cmac \<lparr>pktSrcAddr = pkSrc p, pktIngress = pkIngress p, pktRaw = pkRaw p, pktRequest = rq\<rparr>
         ((slowOf (slows s ! k))\<lparr>sPlane := shared s\<rparr>))"

definition slowDone :: "envir \<Rightarrow> (bytes \<Rightarrow> bytes \<Rightarrow> bytes) \<Rightarrow> nat \<Rightarrow> pipeline \<Rightarrow> pipeline option" where
  "slowDone E cmac k s =
    (case (slowBusy (slows s ! k), slowRun E cmac k s) of
       (Some (p, rq), (q, Ret r err)) \<Rightarrow>
         Some (slowDispose p r err (onSlow k (\<lambda>x. x\<lparr>slowBusy := None, slowOf := q\<rparr>) (s\<lparr>shared := sPlane q\<rparr>)))
     | _ \<Rightarrow> None)"

text \<open>\<^verbatim>\<open>readUpTo\<close> receives one packet at a time.\<close>

definition txReadOne :: "u16 \<Rightarrow> pipeline \<Rightarrow> pipeline" where
  "txReadOne i = onIf i (\<lambda>x. x\<lparr>txPkts := txPkts x @ [hd (txQ x)], txQ := tl (txQ x)\<rparr>)"

text \<open>The packets whose buffers go back to the pool after writing \<open>written\<close> of them, and the packets that are left.\<close>

definition afterWrite :: "int \<Rightarrow> packet list \<Rightarrow> packet list \<times> packet list" where
  "afterWrite written pkts =
    (let written = (if written < 0 then 0 else nat written) in
     if written \<noteq> length pkts then (take (Suc written) pkts, drop (Suc written) pkts) else (pkts, []))"

definition txWrite :: "u16 \<Rightarrow> int \<Rightarrow> pipeline \<Rightarrow> pipeline" where
  "txWrite i written s =
    (case afterWrite written (txPkts (ifs s i)) of (done, left) \<Rightarrow>
       foldl (\<lambda>s p. returnPacketToPool (pkBuf p) s) (onIf i (\<lambda>x. x\<lparr>txPkts := left\<rparr>) s) done)"

section \<open>Runs\<close>

text \<open>The slow path returned neither a packet nor an error.\<close>

definition losesBuffer :: "envir \<Rightarrow> (bytes \<Rightarrow> bytes \<Rightarrow> bytes) \<Rightarrow> nat \<Rightarrow> pipeline \<Rightarrow> bool" where
  "losesBuffer E cmac k s = (case slowRun E cmac k s of (q, Ret r None) \<Rightarrow> OutPkt r = None | _ \<Rightarrow> False)"

text \<open>What a socket can deliver: a message fits its buffer, and the nil slice holds nothing.\<close>

definition fits :: "nat option \<Rightarrow> bytes \<times> nat \<times> UDPAddr \<Rightarrow> bool" where
  "fits b m \<longleftrightarrow> length (fst m) = (if b = None then 0 else bufSize) \<and> fst (snd m) \<le> length (fst m)"

text \<open>A step of some goroutine; the flag marks the steps of the slow path that lose the buffer of the packet.\<close>

inductive pipe_step :: "bool \<Rightarrow> pipeline \<Rightarrow> pipeline \<Rightarrow> bool" where
  collect: "i \<in> ifIDs s \<Longrightarrow> rxRead (ifs s i) = [] \<Longrightarrow> length (rxFresh (ifs s i)) + length (rxKept (ifs s i)) < BatchSize (runCfg s)
    \<Longrightarrow> pool s \<noteq> [] \<Longrightarrow> pipe_step False s (rxCollect i s)"
| readBatch: "i \<in> ifIDs s \<Longrightarrow> rxRead (ifs s i) = [] \<Longrightarrow> length (rxFresh (ifs s i)) + length (rxKept (ifs s i)) = BatchSize (runCfg s)
    \<Longrightarrow> length ms \<le> BatchSize (runCfg s) \<Longrightarrow> list_all2 fits (take (length ms) (rxFresh (ifs s i) @ rxKept (ifs s i))) ms
    \<Longrightarrow> pipe_step False s (rxReadBatch i ms s)"
| enqueue: "i \<in> ifIDs s \<Longrightarrow> rxRead (ifs s i) \<noteq> [] \<Longrightarrow> enqueueForProcessing i s = Some s' \<Longrightarrow> pipe_step False s s'"
| proc_take: "k < length (procs s) \<Longrightarrow> procBusy (procs s ! k) = None \<Longrightarrow> procQ (procs s ! k) \<noteq> [] \<Longrightarrow> pipe_step False s (procTake k s)"
| proc_done: "k < length (procs s) \<Longrightarrow> procDone E k s = Some s' \<Longrightarrow> pipe_step False s s'"
| slow_take: "k < length (slows s) \<Longrightarrow> slowBusy (slows s ! k) = None \<Longrightarrow> slowQ (slows s ! k) \<noteq> [] \<Longrightarrow> pipe_step False s (slowTake k s)"
| slow_done: "k < length (slows s) \<Longrightarrow> slowDone E cmac k s = Some s' \<Longrightarrow> pipe_step (losesBuffer E cmac k s) s s'"
| tx_read: "i \<in> ifIDs s \<Longrightarrow> txQ (ifs s i) \<noteq> [] \<Longrightarrow> length (txPkts (ifs s i)) < BatchSize (runCfg s) \<Longrightarrow> pipe_step False s (txReadOne i s)"
| tx_write: "i \<in> ifIDs s \<Longrightarrow> txPkts (ifs s i) \<noteq> [] \<Longrightarrow> written \<le> int (length (txPkts (ifs s i))) \<Longrightarrow> pipe_step False s (txWrite i written s)"

inductive pipe_run :: "pipeline \<Rightarrow> nat \<Rightarrow> pipeline \<Rightarrow> bool" for s0 where
  start: "pipe_run s0 0 s0"
| step: "pipe_run s0 n s \<Longrightarrow> pipe_step lost s s' \<Longrightarrow> pipe_run s0 (if lost then Suc n else n) s'"

inductive_cases pipe_stepE: "pipe_step lost s s'"

section \<open>Where the buffers are\<close>

definition ifHeld :: "ifState \<Rightarrow> nat option multiset" where
  "ifHeld x = mset (rxFresh x) + mset (rxKept x) + mset (map msgBuf (rxRead x)) + mset (map pkBuf (txQ x)) + mset (map pkBuf (txPkts x))"

definition procHeld :: "procState \<Rightarrow> nat option multiset" where
  "procHeld q = mset (map pkBuf (procQ q)) + (case procBusy q of None \<Rightarrow> {#} | Some p \<Rightarrow> {#pkBuf p#})"

definition slowHeld :: "slowState \<Rightarrow> nat option multiset" where
  "slowHeld q = mset (map (pkBuf \<circ> fst) (slowQ q)) + (case slowBusy q of None \<Rightarrow> {#} | Some p \<Rightarrow> {#pkBuf (fst p)#})"

definition held :: "pipeline \<Rightarrow> nat option multiset" where
  "held s = mset (pool s) + (\<Sum>i\<in>ifIDs s. ifHeld (ifs s i)) + (\<Sum>q\<leftarrow>procs s. procHeld q) + (\<Sum>q\<leftarrow>slows s. slowHeld q)"

lemma sum_fun_upd:
  assumes "finite A" and "i \<in> A"
  shows "(\<Sum>j\<in>A. f ((g(i := x)) j)) + f (g i) = (\<Sum>j\<in>A. f (g j)) + (f x :: 'a multiset)"
proof -
  have "(\<Sum>j\<in>A. f ((g(i := x)) j)) = f x + (\<Sum>j\<in>A - {i}. f (g j))"
    using assms by (subst sum.remove [OF assms]) (auto intro!: sum.cong)
  moreover have "(\<Sum>j\<in>A. f (g j)) = f (g i) + (\<Sum>j\<in>A - {i}. f (g j))" using assms by (rule sum.remove)
  ultimately show ?thesis by (simp add: ac_simps)
qed

lemma sum_list_update_mset:
  "k < length xs \<Longrightarrow> (\<Sum>q\<leftarrow>xs[k := y]. f q) + f (xs ! k) = (\<Sum>q\<leftarrow>xs. f q) + (f y :: 'a multiset)"
proof (induction xs arbitrary: k)
  case (Cons a xs)
  then show ?case by (cases k) (simp_all add: ac_simps)
qed simp

named_theorems held_rules

lemma held_onIf [held_rules]: "finite (ifIDs s) \<Longrightarrow> i \<in> ifIDs s \<Longrightarrow> held (onIf i f s) + ifHeld (ifs s i) = held s + ifHeld (f (ifs s i))"
  using sum_fun_upd [of "ifIDs s" i ifHeld "ifs s" "f (ifs s i)"] by (simp add: held_def onIf_def ac_simps)

lemma held_onProc [held_rules]: "k < length (procs s) \<Longrightarrow> held (onProc k f s) + procHeld (procs s ! k) = held s + procHeld (f (procs s ! k))"
  using sum_list_update_mset [of k "procs s" procHeld "f (procs s ! k)"] by (simp add: held_def onProc_def ac_simps)

lemma held_onSlow [held_rules]: "k < length (slows s) \<Longrightarrow> held (onSlow k f s) + slowHeld (slows s ! k) = held s + slowHeld (f (slows s ! k))"
  using sum_list_update_mset [of k "slows s" slowHeld "f (slows s ! k)"] by (simp add: held_def onSlow_def ac_simps)

lemma held_return: "held (returnPacketToPool b s) = held s + {#b#}"
  by (simp add: held_def returnPacketToPool_def)

lemma held_shared: "held (s\<lparr>shared := d\<rparr>) = held s"
  by (simp add: held_def)


section \<open>The queues stay within their bounds\<close>

definition if_ok :: "nat \<Rightarrow> ifState \<Rightarrow> bool" where
  "if_ok n x \<longleftrightarrow> length (rxFresh x) + length (rxKept x) + length (rxRead x) \<le> n \<and> length (txQ x) \<le> n \<and> length (txPkts x) \<le> n
     \<and> (\<forall>m \<in> set (rxRead x). msgBuf m = None \<longrightarrow> msgData m = [])"

definition proc_ok :: "nat \<Rightarrow> procState \<Rightarrow> bool" where
  "proc_ok n q \<longleftrightarrow> length (procQ q) \<le> n \<and> (\<forall>p \<in> set (procQ q) \<union> set_option (procBusy q). pkBuf p \<noteq> None)"

definition slow_ok :: "nat \<Rightarrow> slowState \<Rightarrow> bool" where
  "slow_ok n q \<longleftrightarrow> length (slowQ q) \<le> n \<and> (\<forall>p \<in> set (slowQ q) \<union> set_option (slowBusy q). pkBuf (fst p) \<noteq> None)"

definition pipe_ok :: "RunConfig \<Rightarrow> u16 set \<Rightarrow> nat \<Rightarrow> pipeline \<Rightarrow> bool" where
  "pipe_ok cfg I qs s \<longleftrightarrow> runCfg s = cfg \<and> ifIDs s = I \<and> queueSize s = qs \<and> finite I
     \<and> 0 < NumSlowPathProcessors cfg \<and> 0 < NumProcessors cfg \<and> NumProcessors cfg < 2 ^ 32
     \<and> length (procs s) = NumProcessors cfg \<and> length (slows s) = NumSlowPathProcessors cfg
     \<and> (\<forall>i \<in> I. if_ok (BatchSize cfg) (ifs s i)) \<and> (\<forall>q \<in> set (procs s). proc_ok qs q) \<and> (\<forall>q \<in> set (slows s). slow_ok qs q)"

lemma pipe_okD:
  assumes "pipe_ok cfg I qs s"
  shows "runCfg s = cfg" "ifIDs s = I" "queueSize s = qs" "finite I" "length (procs s) = NumProcessors cfg"
    "length (slows s) = NumSlowPathProcessors cfg" "0 < NumSlowPathProcessors cfg" "0 < NumProcessors cfg" "NumProcessors cfg < 2 ^ 32"
  using assms by (simp_all add: pipe_ok_def)

lemma pipe_ok_at:
  assumes "pipe_ok cfg I qs s"
  shows "i \<in> I \<Longrightarrow> if_ok (BatchSize cfg) (ifs s i)" "k < NumProcessors cfg \<Longrightarrow> proc_ok qs (procs s ! k)"
    "k < NumSlowPathProcessors cfg \<Longrightarrow> slow_ok qs (slows s ! k)"
  using assms by (auto simp: pipe_ok_def)

lemma pipe_ok_onIf: "pipe_ok cfg I qs s \<Longrightarrow> if_ok (BatchSize cfg) (f (ifs s i)) \<Longrightarrow> pipe_ok cfg I qs (onIf i f s)"
  by (simp add: pipe_ok_def onIf_def)

lemma pipe_ok_onProc: "pipe_ok cfg I qs s \<Longrightarrow> proc_ok qs (f (procs s ! k)) \<Longrightarrow> pipe_ok cfg I qs (onProc k f s)"
  by (auto simp: pipe_ok_def onProc_def dest: set_update_subset_insert [THEN subsetD])

lemma pipe_ok_onSlow: "pipe_ok cfg I qs s \<Longrightarrow> slow_ok qs (f (slows s ! k)) \<Longrightarrow> pipe_ok cfg I qs (onSlow k f s)"
  by (auto simp: pipe_ok_def onSlow_def dest: set_update_subset_insert [THEN subsetD])

lemma pipe_ok_pool [simp]: "pipe_ok cfg I qs (s\<lparr>pool := b\<rparr>) = pipe_ok cfg I qs s"
  "pipe_ok cfg I qs (s\<lparr>shared := d\<rparr>) = pipe_ok cfg I qs s" "pipe_ok cfg I qs (returnPacketToPool x s) = pipe_ok cfg I qs s"
  by (simp_all add: pipe_ok_def returnPacketToPool_def)

lemmas pipe_okI = pipe_ok_onIf pipe_ok_onProc pipe_ok_onSlow

text \<open>Sending a packet hands its buffer to a queue or to the pool.\<close>

lemma sendTo:
  assumes "pipe_ok cfg I qs s"
  shows "pipe_ok cfg I qs (sendTo i p s)" "held (sendTo i p s) = held s + {#pkBuf p#}"
proof -
  show "pipe_ok cfg I qs (sendTo i p s)"
    using assms pipe_ok_at(1) [OF assms, of i] pipe_okD [OF assms] by (auto simp: sendTo_def if_ok_def intro!: pipe_ok_onIf)
  show "held (sendTo i p s) = held s + {#pkBuf p#}"
    using held_onIf [of s i "\<lambda>x. x\<lparr>txQ := txQ x @ [p]\<rparr>"] pipe_okD [OF assms]
    by (auto simp: sendTo_def held_return ifHeld_def)
qed

lemma disposeOf:
  assumes "pipe_ok cfg I qs s" and "pkBuf p \<noteq> None"
  shows "pipe_ok cfg I qs (disposeOf k p l r err s)" "held (disposeOf k p l r err s) = held s + {#pkBuf p#}"
proof -
  let ?j = "k mod NumSlowPathProcessors cfg"
  note D = pipe_okD [OF assms(1)]
  have j: "?j < NumSlowPathProcessors cfg" using D(7) by simp
  have "pipe_ok cfg I qs (onSlow ?j (\<lambda>q. q\<lparr>slowQ := slowQ q @ [(p, SlowPathRequest r)]\<rparr>) s)" if "length (slowQ (slows s ! ?j)) < qs"
    using that pipe_ok_at(3) [OF assms(1) j] assms(2) by (intro pipe_ok_onSlow [OF assms(1)]) (auto simp: slow_ok_def)
  then show "pipe_ok cfg I qs (disposeOf k p l r err s)"
    using assms sendTo(1) [OF assms(1)] D by (auto simp: disposeOf_def Let_def split: option.split)
  show "held (disposeOf k p l r err s) = held s + {#pkBuf p#}"
    using held_onSlow [of ?j s "\<lambda>q. q\<lparr>slowQ := slowQ q @ [(p, SlowPathRequest r)]\<rparr>"] sendTo(2) [OF assms(1)] D j
    by (auto simp: disposeOf_def Let_def held_return slowHeld_def split: option.split)
qed

lemma foldl_return:
  "held (foldl (\<lambda>s p. returnPacketToPool (pkBuf p) s) s ps) = held s + mset (map pkBuf ps)"
  "pipe_ok cfg I qs (foldl (\<lambda>s p. returnPacketToPool (pkBuf p) s) s ps) = pipe_ok cfg I qs s"
  by (induction ps arbitrary: s) (simp_all add: held_return)


section \<open>Every step conserves the buffers\<close>

lemma computeProcID_range:
  assumes "computeProcID data (int n) seed = Ok k" and "n < 2 ^ 32"
  shows "unat k < n" "data \<noteq> []"
proof -
  have "(word_of_int (int n) :: u32) \<noteq> 0" and k: "\<exists>s. k = s mod word_of_int (int n)"
    using assms(1) by (auto simp: computeProcID_def Let_def split: if_splits)
  moreover have "unat (word_of_int (int n) :: u32) = n" using assms(2) by (simp add: unat_of_nat take_bit_nat_eq_self)
  ultimately show "unat k < n" by (metis unat_mod_distrib mod_less_divisor unat_gt_0 word_neq_0_conv)
  show "data \<noteq> []" using assms(1) by (auto simp: computeProcID_def CmnHdrLen_def)
qed

lemma collect_step:
  assumes "pipe_ok cfg I qs s" and "i \<in> I" and "rxRead (ifs s i) = []"
    and "length (rxFresh (ifs s i)) + length (rxKept (ifs s i)) < BatchSize cfg" and "pool s \<noteq> []"
  shows "pipe_ok cfg I qs (rxCollect i s)" "held (rxCollect i s) = held s"
proof -
  let ?t = "s\<lparr>pool := tl (pool s)\<rparr>" and ?f = "\<lambda>x. x\<lparr>rxFresh := rxFresh x @ [hd (pool s)]\<rparr>"
  have t: "held s = held ?t + {#hd (pool s)#}" using assms(5) by (cases "pool s") (simp_all add: held_def)
  show "pipe_ok cfg I qs (rxCollect i s)"
    using assms pipe_ok_at(1) [OF assms(1,2)] by (auto simp: rxCollect_def if_ok_def intro!: pipe_ok_onIf)
  show "held (rxCollect i s) = held s"
    using held_onIf [of ?t i ?f] t assms(2) pipe_okD(2,4) [OF assms(1)] by (simp add: rxCollect_def ifHeld_def)
qed

lemma read_step:
  assumes "pipe_ok cfg I qs s" and "i \<in> I" and "rxRead (ifs s i) = []"
    and "length (rxFresh (ifs s i)) + length (rxKept (ifs s i)) = BatchSize cfg" and "length ms \<le> BatchSize cfg"
    and fit: "list_all2 fits (take (length ms) (rxFresh (ifs s i) @ rxKept (ifs s i))) ms"
  shows "pipe_ok cfg I qs (rxReadBatch i ms s)" "held (rxReadBatch i ms s) = held s"
proof -
  let ?x = "ifs s i" and ?m = "\<lambda>b (data, n, a). \<lparr>msgBuf = b, msgData = data, msgN = n, msgAddr = a\<rparr>"
  let ?b = "rxFresh ?x @ rxKept ?x"
  have l: "length ms \<le> length ?b" using assms(4,5) by simp
  have buf: "map msgBuf (map2 ?m (take (length ms) ?b) ms) = take (length ms) ?b"
    using l by (auto simp: map2_map_map o_def split_def intro!: nth_equalityI)
  have none: "msgData m = []" if "m \<in> set (map2 ?m (take (length ms) ?b) ms)" "msgBuf m = None" for m
    using fit that by (auto simp: list_all2_iff fits_def)
  let ?f = "\<lambda>x. let msgs = rxFresh x @ rxKept x in
     x\<lparr>rxRead := map2 ?m (take (length ms) msgs) ms, rxFresh := [], rxKept := drop (length ms) msgs\<rparr>"
  have h: "ifHeld (?f ?x) = ifHeld ?x"
  proof -
    have "mset (take (length ms) ?b) + mset (drop (length ms) ?b) = mset ?b" by (metis append_take_drop_id mset_append)
    then show ?thesis using buf assms(3) by (simp only: ifHeld_def Let_def) (simp add: ac_simps)
  qed
  show "held (rxReadBatch i ms s) = held s"
    using held_onIf [of s i ?f] h assms(2) pipe_okD(2,4) [OF assms(1)] by (simp add: rxReadBatch_def)
  have "if_ok (BatchSize cfg) (?f ?x)"
    using pipe_ok_at(1) [OF assms(1,2)] none assms(3-5) by (auto simp: if_ok_def Let_def)
  then show "pipe_ok cfg I qs (rxReadBatch i ms s)" unfolding rxReadBatch_def by (rule pipe_ok_onIf [OF assms(1)])
qed

lemma enqueue_step:
  assumes ok: "pipe_ok cfg I qs s" and i: "i \<in> I" and ne: "rxRead (ifs s i) \<noteq> []" and run: "enqueueForProcessing i s = Some s'"
  shows "pipe_ok cfg I qs s'" "held s' = held s"
proof -
  note D = pipe_okD [OF ok]
  let ?m = "hd (rxRead (ifs s i))" and ?f = "\<lambda>x. x\<lparr>rxRead := tl (rxRead x)\<rparr>"
  let ?t = "onIf i ?f s"
  have t: "pipe_ok cfg I qs ?t"
    using pipe_ok_at(1) [OF ok i] by (intro pipe_ok_onIf [OF ok]) (auto simp: if_ok_def dest: list.set_sel(2) [OF ne])
  have "mset (map msgBuf (rxRead (ifs s i))) = mset (map msgBuf (tl (rxRead (ifs s i)))) + {#msgBuf ?m#}" using ne by (cases "rxRead (ifs s i)") simp_all
  then have th: "held ?t + {#msgBuf ?m#} = held s" using held_onIf [of s i ?f] i D(2,4) by (simp add: ifHeld_def)
  have "pipe_ok cfg I qs s' \<and> held s' = held ?t + {#msgBuf ?m#}"
  proof (cases "computeProcID (msgData ?m) (int (NumProcessors cfg)) (rxSeed (ifs s i))")
    case (Ok k)
    note k = computeProcID_range [OF Ok D(9)]
    have nb: "msgBuf ?m \<noteq> None" using k(2) pipe_ok_at(1) [OF ok i] list.set_sel(1) [OF ne] by (auto simp: if_ok_def simp del: list.set_sel)
    let ?p = "\<lparr>pkSrc = msgAddr ?m, pkDst = None, pkIngress = i, pkTraffic = ttOther, pkBuf = msgBuf ?m,
       pkRaw = take (msgN ?m) (msgData ?m), pkLabel = 0\<rparr>" and ?g = "\<lambda>p q. q\<lparr>procQ := procQ q @ [p]\<rparr>"
    have pr: "procs ?t = procs s" by (simp add: onIf_def)
    have "pipe_ok cfg I qs (onProc (unat k) (?g ?p) ?t)" if "length (procQ (procs s ! unat k)) < qs"
      using that pipe_ok_at(2) [OF t k(1)] nb by (intro pipe_ok_onProc [OF t]) (auto simp: proc_ok_def pr)
    then show ?thesis using run Ok D t k(1) held_onProc [of "unat k" ?t "?g ?p"]
      by (auto simp: enqueueForProcessing_def Let_def held_return procHeld_def pr)
  qed (use run t D in \<open>auto simp: enqueueForProcessing_def Let_def held_return\<close>)
  then show "pipe_ok cfg I qs s'" "held s' = held s" using th by auto
qed

lemma take_steps:
  assumes ok: "pipe_ok cfg I qs s"
  shows "k < NumProcessors cfg \<Longrightarrow> procBusy (procs s ! k) = None \<Longrightarrow> procQ (procs s ! k) \<noteq> [] \<Longrightarrow>
      pipe_ok cfg I qs (procTake k s) \<and> held (procTake k s) = held s"
    "j < NumSlowPathProcessors cfg \<Longrightarrow> slowBusy (slows s ! j) = None \<Longrightarrow> slowQ (slows s ! j) \<noteq> [] \<Longrightarrow>
      pipe_ok cfg I qs (slowTake j s) \<and> held (slowTake j s) = held s"
proof -
  note D = pipe_okD [OF ok]
  show "pipe_ok cfg I qs (procTake k s) \<and> held (procTake k s) = held s"
    if k: "k < NumProcessors cfg" "procBusy (procs s ! k) = None" "procQ (procs s ! k) \<noteq> []"
    using k pipe_ok_at(2) [OF ok k(1)] D(5) held_onProc [of k s "\<lambda>q. q\<lparr>procBusy := Some (hd (procQ q)), procQ := tl (procQ q)\<rparr>"]
    by (cases "procQ (procs s ! k)") (auto simp: procTake_def procHeld_def proc_ok_def intro!: pipe_ok_onProc [OF ok])
  show "pipe_ok cfg I qs (slowTake j s) \<and> held (slowTake j s) = held s"
    if k: "j < NumSlowPathProcessors cfg" "slowBusy (slows s ! j) = None" "slowQ (slows s ! j) \<noteq> []"
    using k pipe_ok_at(3) [OF ok k(1)] D(6) held_onSlow [of j s "\<lambda>q. q\<lparr>slowBusy := Some (hd (slowQ q)), slowQ := tl (slowQ q)\<rparr>"]
    by (cases "slowQ (slows s ! j)") (auto simp: slowTake_def slowHeld_def slow_ok_def intro!: pipe_ok_onSlow [OF ok])
qed

lemma proc_done_step:
  assumes ok: "pipe_ok cfg I qs s" and k: "k < NumProcessors cfg" and run: "procDone E k s = Some s'"
  shows "pipe_ok cfg I qs s'" "held s' = held s"
proof -
  note D = pipe_okD [OF ok]
  obtain p q r err where p: "procBusy (procs s ! k) = Some p"
      "s' = disposeOf k p (mplsLabel q) r err (onProc k (\<lambda>x. x\<lparr>procBusy := None, procOf := q\<rparr>) (s\<lparr>shared := plane q\<rparr>))"
    using run by (auto simp: procDone_def split: option.splits prod.splits outcome.splits)
  let ?t = "onProc k (\<lambda>x. x\<lparr>procBusy := None, procOf := q\<rparr>) (s\<lparr>shared := plane q\<rparr>)"
  have nb: "pkBuf p \<noteq> None" using pipe_ok_at(2) [OF ok k] p(1) by (auto simp: proc_ok_def)
  have t: "pipe_ok cfg I qs ?t" using ok pipe_ok_at(2) [OF ok k] by (intro pipe_ok_onProc) (auto simp: proc_ok_def)
  show "pipe_ok cfg I qs s'" unfolding p(2) by (rule disposeOf(1) [OF t nb])
  have "held ?t + {#pkBuf p#} = held s"
    using held_onProc [of k "s\<lparr>shared := plane q\<rparr>" "\<lambda>x. x\<lparr>procBusy := None, procOf := q\<rparr>"] k D(5) p(1) by (simp add: procHeld_def held_shared)
  then show "held s' = held s" unfolding p(2) disposeOf(2) [OF t nb] .
qed

lemma slow_done_step:
  assumes ok: "pipe_ok cfg I qs s" and k: "k < NumSlowPathProcessors cfg" and run: "slowDone E cmac k s = Some s'"
  shows "pipe_ok cfg I qs s'"
    "if losesBuffer E cmac k s then \<exists>b. held s = held s' - {#None#} + {#Some b#} \<and> None \<in># held s' else held s' = held s"
proof -
  note D = pipe_okD [OF ok]
  obtain p rq q r err where p: "slowBusy (slows s ! k) = Some (p, rq)" "slowRun E cmac k s = (q, Ret r err)"
      "s' = slowDispose p r err (onSlow k (\<lambda>x. x\<lparr>slowBusy := None, slowOf := q\<rparr>) (s\<lparr>shared := sPlane q\<rparr>))"
    using run by (auto simp: slowDone_def split: option.splits prod.splits outcome.splits)
  let ?t = "onSlow k (\<lambda>x. x\<lparr>slowBusy := None, slowOf := q\<rparr>) (s\<lparr>shared := sPlane q\<rparr>)"
  obtain b where b: "pkBuf p = Some b" using pipe_ok_at(3) [OF ok k] p(1) by (auto simp: slow_ok_def)
  have t: "pipe_ok cfg I qs ?t" using ok pipe_ok_at(3) [OF ok k] by (intro pipe_ok_onSlow) (auto simp: slow_ok_def)
  have h: "held ?t + {#pkBuf p#} = held s"
    using held_onSlow [of k "s\<lparr>shared := sPlane q\<rparr>" "\<lambda>x. x\<lparr>slowBusy := None, slowOf := q\<rparr>"] k D(6) p(1) by (simp add: slowHeld_def held_shared)
  show "pipe_ok cfg I qs s'" using t sendTo(1) [OF t] by (auto simp: p(3) slowDispose_def split: option.split)
  show "if losesBuffer E cmac k s then \<exists>b. held s = held s' - {#None#} + {#Some b#} \<and> None \<in># held s' else held s' = held s"
    using sendTo(2) [OF t] b by (auto simp: p(2,3) losesBuffer_def slowDispose_def held_return split: option.split simp flip: h intro!: exI [of _ b])
qed

lemma tx_steps:
  assumes ok: "pipe_ok cfg I qs s" and i: "i \<in> I"
  shows "txQ (ifs s i) \<noteq> [] \<Longrightarrow> length (txPkts (ifs s i)) < BatchSize cfg \<Longrightarrow> pipe_ok cfg I qs (txReadOne i s) \<and> held (txReadOne i s) = held s"
    "pipe_ok cfg I qs (txWrite i w s) \<and> held (txWrite i w s) = held s"
proof -
  note D = pipe_okD [OF ok] and x = pipe_ok_at(1) [OF ok i]
  show "pipe_ok cfg I qs (txReadOne i s) \<and> held (txReadOne i s) = held s"
    if "txQ (ifs s i) \<noteq> []" "length (txPkts (ifs s i)) < BatchSize cfg"
    using that x held_onIf [of s i "\<lambda>x. x\<lparr>txPkts := txPkts x @ [hd (txQ x)], txQ := tl (txQ x)\<rparr>"] i D
    by (cases "txQ (ifs s i)") (simp_all add: txReadOne_def ifHeld_def if_ok_def pipe_ok_onIf [OF ok])
  obtain dn lf where a: "afterWrite w (txPkts (ifs s i)) = (dn, lf)" by fastforce
  have sp: "dn @ lf = txPkts (ifs s i)" using a by (auto simp: afterWrite_def Let_def split: if_splits)
  have l: "length lf \<le> length (txPkts (ifs s i))" by (metis sp length_append le_add2)
  have "pipe_ok cfg I qs (onIf i (\<lambda>x. x\<lparr>txPkts := lf\<rparr>) s)" using x l by (intro pipe_ok_onIf [OF ok]) (auto simp: if_ok_def)
  moreover have "held (onIf i (\<lambda>x. x\<lparr>txPkts := lf\<rparr>) s) + mset (map pkBuf dn) = held s"
    using held_onIf [of s i "\<lambda>x. x\<lparr>txPkts := lf\<rparr>"] i D by (simp add: ifHeld_def flip: sp) 
  ultimately show "pipe_ok cfg I qs (txWrite i w s) \<and> held (txWrite i w s) = held s" by (simp add: txWrite_def a foldl_return)
qed


lemma step_ok:
  assumes ok: "pipe_ok cfg I qs s" and "pipe_step lost s s'"
  shows "pipe_ok cfg I qs s'
    \<and> (if lost then \<exists>b. held s = held s' - {#None#} + {#Some b#} \<and> None \<in># held s' else held s' = held s)"
proof -
  note D = pipe_okD [OF ok]
  show ?thesis using assms(2)
  proof (cases rule: pipe_step.cases)
    case (collect i) then show ?thesis using collect_step [OF ok, of i] D by simp
  next
    case (readBatch i ms) then show ?thesis using read_step [OF ok, of i ms] D by simp
  next
    case (enqueue i) then show ?thesis using enqueue_step [OF ok, of i] D by simp
  next
    case (proc_take k) then show ?thesis using take_steps(1) [OF ok, of k] D by simp
  next
    case (proc_done k E) then show ?thesis using proc_done_step [OF ok, of k E] D by simp
  next
    case (slow_take k) then show ?thesis using take_steps(2) [OF ok, of k] D by simp
  next
    case (slow_done k E cmac) then show ?thesis using slow_done_step [OF ok, of k E cmac] D by simp
  next
    case (tx_read i) then show ?thesis using tx_steps(1) [OF ok, of i] D by simp
  next
    case (tx_write i w) then show ?thesis using tx_steps(2) [OF ok, of i w] D by simp
  qed
qed

text \<open>The invariant of a run that has lost \<open>n\<close> buffers out of \<open>m\<close>.\<close>

definition conserved :: "nat \<Rightarrow> nat \<Rightarrow> nat option multiset \<Rightarrow> bool" where
  "conserved m n h \<longleftrightarrow> count h None = n \<and> size h = m \<and> (\<forall>b. count h (Some b) \<le> (if b < m then 1 else 0))"

lemma conserved_count: "conserved m n h \<Longrightarrow> count h (Some b) \<le> (if b < m then 1 else 0)"
  by (simp only: conserved_def)

lemma conserved_lost:
  assumes "conserved m n (add_mset (Some b) (h - {#None#}))" and "None \<in># h"
  shows "conserved m (Suc n) h"
proof -
  obtain h' where h: "h = add_mset None h'" using assms(2) by (metis insert_DiffM)
  have c: "count (add_mset (Some b) h') (Some x) \<le> (if x < m then 1 else 0)" for x using assms(1) by (simp add: conserved_def h)
  have "count h (Some x) \<le> (if x < m then 1 else 0)" for x using c [of x] by (cases "x = b") (simp_all add: h)
  then show ?thesis using assms(1) by (simp add: conserved_def h)
qed

lemma sum_list_empty: "sum_list (replicate n {#}) = {#}"
  by (induction n) simp_all

lemma startRun_ok:
  assumes "startRun cfg d rnd provider = Ok s" and "finite (dom (interfaces d))" and "0 < NumProcessors cfg" "NumProcessors cfg < 2 ^ 32"
    "0 < NumSlowPathProcessors cfg"
  shows "pipe_ok cfg (dom (interfaces d)) (processorQueueSize cfg (dom (interfaces d))) s"
    "held s = mset (map Some [0..<poolSize cfg (dom (interfaces d)) (processorQueueSize cfg (dom (interfaces d)))])"
  using assms
  by (auto simp: startRun_def Let_def mapR_eq_Ok pipe_ok_def newReceiver_def if_ok_def proc_ok_def slow_ok_def held_def ifHeld_def procHeld_def
      slowHeld_def initPacketPool_def sum_list_empty)

lemma conserved_start: "conserved m 0 (mset (map Some [0..<m]))"
proof -
  have "distinct (map Some [0..<m])" by (simp add: distinct_map)
  then have c: "count (mset (map Some [0..<m])) x = (if x \<in> set (map Some [0..<m]) then 1 else 0)" for x
    by (simp only: distinct_count_atmost_1)
  show ?thesis unfolding conserved_def c by auto
qed

lemma conserved_all:
  assumes "conserved m 0 h"
  shows "h = mset (map Some [0..<m])"
proof -
  have "h \<subseteq># mset (map Some [0..<m])"
  proof (rule mset_subset_eqI)
    fix a
    have "distinct (map Some [0..<m])" by (simp add: distinct_map)
    then have c: "count (mset (map Some [0..<m])) a = (if a \<in> set (map Some [0..<m]) then 1 else 0)" by (simp only: distinct_count_atmost_1)
    show "count h a \<le> count (mset (map Some [0..<m])) a"
    proof (cases a)
      case (Some b)
      then have "(a \<in> set (map Some [0..<m])) = (b < m)" by auto
      then show ?thesis unfolding c using conserved_count [OF assms, of b] Some by simp
    qed (use assms in \<open>simp add: conserved_def\<close>)
  qed
  moreover have "size h = size (mset (map Some [0..<m]))" using assms by (simp add: conserved_def)
  ultimately show ?thesis by (metis size_mset_mono subset_mset.le_less mset_subset_size less_irrefl)
qed

lemma run_ok:
  assumes "pipe_run s0 n s" and "pipe_ok cfg I qs s0" and "conserved m 0 (held s0)"
  shows "pipe_ok cfg I qs s \<and> conserved m n (held s)"
  using assms
proof (induction rule: pipe_run.induct)
  case (step n s lost s')
  then have "pipe_ok cfg I qs s" "conserved m n (held s)" by auto
  with step_ok [OF this(1) step.hyps(2)] show ?case by (cases lost) (auto dest!: conserved_lost)
qed auto

section \<open>The pool\<close>

text \<open>C10: the buffers of a running data plane are conserved. Wherever the goroutines are, no buffer is in two places, the
  pool never holds more than its channel can take, so returning a buffer never blocks, and the number of nil
  slices that circulate in place of buffers is the number of times the slow path returned neither a packet nor
  an error. Without such a result every buffer of the pool is still there.\<close>

theorem buffers_conserved:
  assumes "startRun cfg d rnd provider = Ok s0" and "finite (dom (interfaces d))" and "0 < NumProcessors cfg" "NumProcessors cfg < 2 ^ 32"
    and "0 < NumSlowPathProcessors cfg" and "pipe_run s0 n s"
    and "m = poolSize cfg (dom (interfaces d)) (processorQueueSize cfg (dom (interfaces d)))"
  shows "size (held s) = m \<and> length (pool s) \<le> m \<and> (\<forall>b. count (held s) (Some b) \<le> 1) \<and> count (held s) None = n
    \<and> (n = 0 \<longrightarrow> held s = mset (map Some [0..<m]))"
proof -
  have c: "conserved m n (held s)" using run_ok [OF assms(6) startRun_ok(1) [OF assms(1-5)]] startRun_ok(2) [OF assms(1-5)] conserved_start assms(7) by simp
  have "mset (pool s) \<subseteq># held s" by (simp add: held_def)
  then have "length (pool s) \<le> size (held s)" by (metis size_mset size_mset_mono)
  moreover have "count (held s) (Some b) \<le> 1" for b using conserved_count [OF c, of b] by (simp split: if_splits)
  ultimately show ?thesis using c conserved_all by (auto simp: conserved_def)
qed

lemma size_sum_list: "size (\<Sum>x\<leftarrow>xs. f x :: 'a multiset) = (\<Sum>x\<leftarrow>xs. size (f x))"
  by (induction xs) simp_all

lemma sum_list_bound: "(\<And>x. x \<in> set xs \<Longrightarrow> f x \<le> (k::nat)) \<Longrightarrow> (\<Sum>x\<leftarrow>xs. f x) \<le> length xs * k"
  by (induction xs) (auto intro: add_mono)

lemma held_size:
  assumes "pipe_ok cfg I qs s" and "i \<in> I"
  shows "size (held s) + BatchSize cfg \<le> length (pool s) + poolSize cfg I qs
    + (length (rxFresh (ifs s i)) + length (rxKept (ifs s i)) + length (rxRead (ifs s i)))"
proof -
  let ?B = "BatchSize cfg" and ?x = "ifs s i"
  note D = pipe_okD [OF assms(1)]
  have b: "size (ifHeld (ifs s j)) \<le> 3 * ?B" if "j \<in> I" for j using pipe_ok_at(1) [OF assms(1) that] by (simp add: ifHeld_def if_ok_def)
  have "size (\<Sum>j\<in>I. ifHeld (ifs s j)) = (\<Sum>j\<in>I. size (ifHeld (ifs s j)))"
    using sum_comp_morphism [of size "\<lambda>j. ifHeld (ifs s j)" I] by (simp add: o_def)
  also have "\<dots> = size (ifHeld ?x) + (\<Sum>j\<in>I - {i}. size (ifHeld (ifs s j)))" using D(4) assms(2) by (rule sum.remove)
  also have "\<dots> \<le> size (ifHeld ?x) + (card I - 1) * (3 * ?B)"
    using sum_bounded_above [of "I - {i}" "\<lambda>j. size (ifHeld (ifs s j))" "3 * ?B"] b D(4) assms(2) by (simp add: card_Diff_singleton)
  finally have "size (\<Sum>j\<in>I. ifHeld (ifs s j)) + 3 * ?B \<le> size (ifHeld ?x) + card I * (3 * ?B)"
    using D(4) assms(2) by (cases "card I") auto
  moreover have "size (ifHeld ?x) \<le> length (rxFresh ?x) + length (rxKept ?x) + length (rxRead ?x) + 2 * ?B"
    using pipe_ok_at(1) [OF assms] by (simp add: ifHeld_def if_ok_def)
  moreover have "(\<Sum>q\<leftarrow>procs s. size (procHeld q)) \<le> NumProcessors cfg * (qs + 1)"
    using sum_list_bound [of "procs s" "\<lambda>q. size (procHeld q)" "qs + 1"] assms(1) D(5)
    by (fastforce simp: pipe_ok_def proc_ok_def procHeld_def split: option.splits)
  moreover have "(\<Sum>q\<leftarrow>slows s. size (slowHeld q)) \<le> NumSlowPathProcessors cfg * (qs + 1)"
    using sum_list_bound [of "slows s" "\<lambda>q. size (slowHeld q)" "qs + 1"] assms(1) D(6)
    by (fastforce simp: pipe_ok_def slow_ok_def slowHeld_def split: option.splits)
  ultimately show ?thesis by (simp add: held_def D(2) size_sum_list poolSize_def algebra_simps)
qed

text \<open>C11: a receiver never waits for a buffer: whenever it holds fewer buffers than a batch needs, the pool is not empty,
  whatever the other goroutines do. The pool is as large as all queues and batches together.\<close>

theorem receiver_never_starves:
  assumes "startRun cfg d rnd provider = Ok s0" and "finite (dom (interfaces d))" and "0 < NumProcessors cfg" "NumProcessors cfg < 2 ^ 32"
    and "0 < NumSlowPathProcessors cfg" and "pipe_run s0 n s" and "i \<in> ifIDs s"
    and "length (rxFresh (ifs s i)) + length (rxKept (ifs s i)) + length (rxRead (ifs s i)) < BatchSize cfg"
  shows "pool s \<noteq> []"
proof -
  let ?I = "dom (interfaces d)" and ?qs = "processorQueueSize cfg (dom (interfaces d))"
  have ok: "pipe_ok cfg ?I ?qs s" and c: "conserved (poolSize cfg ?I ?qs) n (held s)"
    using run_ok [OF assms(6) startRun_ok(1) [OF assms(1-5)] conserved_start [of "poolSize cfg ?I ?qs", folded startRun_ok(2) [OF assms(1-5)]]] by blast+
  show ?thesis using held_size [OF ok, of i] assms(7,8) c pipe_okD(2) [OF ok] by (auto simp: conserved_def)
qed

section \<open>One interface\<close>

definition sample_cfg :: RunConfig where "sample_cfg = \<lparr>NumProcessors = 1, NumSlowPathProcessors = 1, BatchSize = 2\<rparr>"

definition sample_run :: pipeline where
  "sample_run = (case startRun sample_cfg (sample_plane\<lparr>interfaces := [0 \<mapsto> 0]\<rparr>) (\<lambda>_. [1, 2, 3, 4]) \<lparr>EpochDuration = 1, AcceptanceWindow = 1\<rparr> of Ok s \<Rightarrow> s)"

lemma sample_run_Ok:
  "startRun sample_cfg (sample_plane\<lparr>interfaces := [0 \<mapsto> 0]\<rparr>) (\<lambda>_. [1, 2, 3, 4]) \<lparr>EpochDuration = 1, AcceptanceWindow = 1\<rparr> = Ok sample_run"
  "finite (dom (interfaces (sample_plane\<lparr>interfaces := [0 \<mapsto> 0]\<rparr>)))" "0 < NumProcessors sample_cfg" "NumProcessors sample_cfg < 2 ^ 32"
  "0 < NumSlowPathProcessors sample_cfg"
  by (simp_all add: sample_run_def startRun_def Let_def sample_cfg_def newPacketProcessor_def sample_plane_def empty_plane_def)

lemma sample_run_step: "pipe_run sample_run 0 (rxCollect 0 sample_run)"
proof -
  have "pipe_step False sample_run (rxCollect 0 sample_run)"
    by (rule pipe_step.collect)
      (simp_all add: sample_run_def startRun_def Let_def sample_cfg_def newPacketProcessor_def sample_plane_def empty_plane_def newReceiver_def initPacketPool_def poolSize_def)
  from pipe_run.step [OF pipe_run.start this] show ?thesis by simp
qed

theorem buffers_conserved_witness:
  "size (held (rxCollect 0 sample_run)) = poolSize sample_cfg {0} 2 \<and> count (held (rxCollect 0 sample_run)) None = 0"
  using buffers_conserved [OF sample_run_Ok sample_run_step refl] by (simp add: processorQueueSize_def sample_cfg_def del: mset_map mset_upt)

theorem receiver_never_starves_witness: "pool (rxCollect 0 sample_run) \<noteq> []"
  by (rule receiver_never_starves [OF sample_run_Ok sample_run_step, where i = 0])
    (simp_all add: rxCollect_def onIf_def sample_run_def startRun_def Let_def sample_cfg_def newPacketProcessor_def sample_plane_def empty_plane_def newReceiver_def)

end
