(* ===== verification/SegExt.thy ===== *)
theory SegExt
  imports Header "HOL-Library.AList" "HOL-Library.Signed_Division"
begin

text \<open>
  Extensions of AS entries in path segments (\<^verbatim>\<open>pkg/segment/extensions\<close>, \<^verbatim>\<open>pkg/segment/extensions.go\<close>, \<^verbatim>\<open>unsigned.go\<close>): digests, EPIC
  authenticators, FABRID maps and static information. A Go map is an association list with distinct keys, in the
  order in which a range loop visits it. SHA-256 is the parameter \<open>sha\<close>.
\<close>

unbundle bit_operations_syntax

type_synonym ('k, 'v) gomap = "('k \<times> 'v) list"

text \<open>\<open>copy\<close> into a fresh array of \<open>n\<close> bytes.\<close>

definition copy_fresh :: "nat \<Rightarrow> bytes \<Rightarrow> bytes" where
  "copy_fresh n b = take n b @ replicate (n - length b) 0"

section \<open>Digests\<close>

definition DigestLength :: nat where "DigestLength = 16"

record digest_Extension =
  dxEpic :: bytes
  dxFabrid :: bytes

record pb_DigestExtension =
  pbEpicDigest :: "bytes option"
  pbFabridDigest :: "bytes option"

definition digest_ExtensionFromPB :: "pb_DigestExtension option \<Rightarrow> digest_Extension option" where
  "digest_ExtensionFromPB = map_option (\<lambda>d.
     \<lparr>dxEpic = (case pbEpicDigest d of None \<Rightarrow> [] | Some b \<Rightarrow> copy_fresh DigestLength b),
      dxFabrid = (case pbFabridDigest d of None \<Rightarrow> [] | Some b \<Rightarrow> copy_fresh DigestLength b)\<rparr>)"

definition digest_ExtensionToPB :: "digest_Extension option \<Rightarrow> pb_DigestExtension option" where
  "digest_ExtensionToPB = map_option (\<lambda>d.
     \<lparr>pbEpicDigest = Some (copy_fresh DigestLength (dxEpic d)), pbFabridDigest = Some (copy_fresh DigestLength (dxFabrid d))\<rparr>)"

definition calculateDigest :: "(bytes \<Rightarrow> bytes) \<Rightarrow> bytes \<Rightarrow> bytes" where
  "calculateDigest sha input = take DigestLength (sha input)"

definition Digest_Validate :: "(bytes \<Rightarrow> bytes) \<Rightarrow> bytes \<Rightarrow> bytes \<Rightarrow> unit result" where
  "Digest_Validate sha d input = (if calculateDigest sha input \<noteq> d then Fail (Err ''digest validation failed'') else Ok ())"

section \<open>EPIC authenticators\<close>

definition AuthLen :: nat where "AuthLen = 10"

record epic_Detached =
  AuthHopEntry :: bytes
  AuthPeerEntries :: "bytes list"

definition epic_DetachedFromPB :: "epic_Detached option \<Rightarrow> epic_Detached option" where
  "epic_DetachedFromPB = map_option (\<lambda>e.
     \<lparr>AuthHopEntry = copy_fresh AuthLen (AuthHopEntry e), AuthPeerEntries = map (copy_fresh AuthLen) (AuthPeerEntries e)\<rparr>)"

definition epic_DetachedToPB :: "epic_Detached option \<Rightarrow> epic_Detached option" where
  "epic_DetachedToPB ed =
    (case ed of
       None \<Rightarrow> None
     | Some e \<Rightarrow> if length (AuthHopEntry e) \<noteq> AuthLen \<or> (\<exists>p \<in> set (AuthPeerEntries e). length p \<noteq> AuthLen) then None else Some e)"

definition DigestInput :: "epic_Detached \<Rightarrow> bytes result" where
  "DigestInput e =
    (if length (AuthHopEntry e) \<noteq> AuthLen then Fail (Err ''hop entry authenticator of wrong length'')
     else if \<exists>p \<in> set (AuthPeerEntries e). length p \<noteq> AuthLen then Fail (Err ''peer entry authenticator of wrong length'')
     else Ok (put_u16 (word_of_nat (1 + length (AuthPeerEntries e))) @ AuthHopEntry e @ concat (AuthPeerEntries e)))"

section \<open>FABRID maps\<close>

record ConnectionPoint =
  cpType :: string
  cpIP :: string
  cpPrefix :: u32
  cpInterfaceId :: u16

record ConnectionPair =
  cpIngress :: ConnectionPoint
  cpEgress :: ConnectionPoint

record fabrid_PolicyIdentifier =
  piIsLocal :: bool
  piIdentifier :: u32

record fabrid_Detached =
  SupportedIndicesMap :: "(ConnectionPair, u8 list) gomap"
  IndexIdentiferMap :: "(u8, fabrid_PolicyIdentifier) gomap"

definition IPv4Range :: string where "IPv4Range = ''ipv4''"
definition IPv6Range :: string where "IPv6Range = ''ipv6''"
definition cpInterface :: string where "cpInterface = ''interface''"
definition cpWildcard :: string where "cpWildcard = ''wildcard''"

fun string_less :: "string \<Rightarrow> string \<Rightarrow> bool" where
  "string_less _ [] = False"
| "string_less [] (_ # _) = True"
| "string_less (a # as) (b # bs) = (if a = b then string_less as bs else (of_char a :: nat) < of_char b)"

definition ConnectionPoint_Less :: "ConnectionPoint \<Rightarrow> ConnectionPoint \<Rightarrow> bool" where
  "ConnectionPoint_Less c d =
    (if cpType c \<noteq> cpType d then string_less (cpType c) (cpType d)
     else if cpIP c \<noteq> cpIP d then string_less (cpIP c) (cpIP d)
     else if cpPrefix c \<noteq> cpPrefix d then cpPrefix c < cpPrefix d
     else cpInterfaceId c < cpInterfaceId d)"

definition pair_less :: "ConnectionPair \<Rightarrow> ConnectionPair \<Rightarrow> bool" where
  "pair_less p q = (if cpIngress p \<noteq> cpIngress q then ConnectionPoint_Less (cpIngress p) (cpIngress q) else ConnectionPoint_Less (cpEgress p) (cpEgress q))"

text \<open>\<^verbatim>\<open>sort.Slice\<close> for a strict order on keys that are all different.\<close>

fun insert_by :: "('a \<Rightarrow> 'a \<Rightarrow> bool) \<Rightarrow> 'a \<Rightarrow> 'a list \<Rightarrow> 'a list" where
  "insert_by lt x [] = [x]"
| "insert_by lt x (y # ys) = (if lt y x then y # insert_by lt x ys else x # y # ys)"

definition sort_by :: "('a \<Rightarrow> 'a \<Rightarrow> bool) \<Rightarrow> 'a list \<Rightarrow> 'a list" where
  "sort_by lt xs = foldr (insert_by lt) xs []"

definition SupportedIndices_SortedKeys :: "(ConnectionPair, u8 list) gomap \<Rightarrow> ConnectionPair list" where
  "SupportedIndices_SortedKeys m = sort_by pair_less (map fst m)"

definition IndexIdentifier_SortedKeys :: "(u8, 'v) gomap \<Rightarrow> u8 list" where
  "IndexIdentifier_SortedKeys m = sort_by (<) (map fst m)"

definition MatchesIF :: "ConnectionPoint \<Rightarrow> u16 \<Rightarrow> bool" where
  "MatchesIF c intf \<longleftrightarrow> cpType c = cpInterface \<and> cpInterfaceId c = intf \<or> cpType c = cpWildcard"

definition Pair_Matches :: "ConnectionPair \<Rightarrow> u16 \<Rightarrow> u16 \<Rightarrow> bool \<Rightarrow> bool" where
  "Pair_Matches c ingress egress allowIp \<longleftrightarrow>
     MatchesIF (cpIngress c) ingress \<and> MatchesIF (cpEgress c) egress
     \<or> allowIp \<and> MatchesIF (cpIngress c) ingress \<and> egress = 0 \<and> (cpType (cpEgress c) = IPv4Range \<or> cpType (cpEgress c) = IPv6Range)"

text \<open>
  \<^verbatim>\<open>binary.Write\<close> writes values of fixed size only; for a string it returns an error and writes nothing. The error is
  ignored here, so the type and the address of a connection point do not reach the hash.
\<close>

definition binary_Write_string :: "string \<Rightarrow> bytes" where
  "binary_Write_string _ = []"

definition point_hash_input :: "ConnectionPoint \<Rightarrow> bytes" where
  "point_hash_input c = binary_Write_string (cpType c) @
     (if cpType c = cpInterface then put_u16 (cpInterfaceId c)
      else if cpType c = IPv4Range \<or> cpType c = IPv6Range then put_u32 (cpPrefix c) @ binary_Write_string (cpIP c)
      else [])"

definition fabrid_hash_input :: "fabrid_Detached \<Rightarrow> bytes" where
  "fabrid_hash_input d =
     concat (map (\<lambda>k. case map_of (IndexIdentiferMap d) k of
         None \<Rightarrow> []
       | Some i \<Rightarrow> [k, if piIsLocal i then 1 else 0] @ put_u32 (piIdentifier i)) (IndexIdentifier_SortedKeys (IndexIdentiferMap d)))
   @ concat (map (\<lambda>k. case map_of (SupportedIndicesMap d) k of
         None \<Rightarrow> []
       | Some s \<Rightarrow> point_hash_input (cpIngress k) @ point_hash_input (cpEgress k) @ sort s) (SupportedIndices_SortedKeys (SupportedIndicesMap d)))"

definition fabrid_Hash :: "(bytes \<Rightarrow> bytes) \<Rightarrow> fabrid_Detached \<Rightarrow> bytes" where
  "fabrid_Hash sha d = take DigestLength (sha (fabrid_hash_input d))"

text \<open>Conversion of the index map: keys are cut to 8 bits on reading.\<close>

definition IndexIdentifierMapToPB :: "(u8, fabrid_PolicyIdentifier) gomap \<Rightarrow> (u32, fabrid_PolicyIdentifier) gomap" where
  "IndexIdentifierMapToPB m = map (\<lambda>(k, v). (ucast k, v)) m"

definition IndexIdentifierMapFromPB :: "(u32, fabrid_PolicyIdentifier) gomap \<Rightarrow> (u8, fabrid_PolicyIdentifier) gomap" where
  "IndexIdentifierMapFromPB m = foldl (\<lambda>acc (k, v). AList.update (ucast k) v acc) [] m"

text \<open>
  Connection points on the wire. Two compositions of the standard library are parameters: \<open>ipString b\<close> is
  \<^verbatim>\<open>net.IP(b).String()\<close>, \<open>ipMasked s p n\<close> is \<^verbatim>\<open>net.ParseIP(s).Mask(net.CIDRMask(p, n))\<close>.
\<close>

record ipText =
  ipString :: "bytes \<Rightarrow> string"
  ipMasked :: "string \<Rightarrow> u32 \<Rightarrow> nat \<Rightarrow> bytes"

datatype pb_ConnectionType = CONNECTION_UNSPECIFIED | CONNECTION_IPV4_RANGE | CONNECTION_IPV6_RANGE | CONNECTION_INTERFACE | CONNECTION_WILDCARD

record pb_ConnectionPoint =
  pbcType :: pb_ConnectionType
  pbcIpAddress :: bytes
  pbcIpPrefix :: u32
  pbcInterface :: u64

record pb_FabridMaps =
  pbSupported :: "((pb_ConnectionPoint \<times> pb_ConnectionPoint) \<times> u32 list) list"
  pbIdentifiers :: "(u32, fabrid_PolicyIdentifier) gomap"

definition no_point :: ConnectionPoint where "no_point = \<lparr>cpType = [], cpIP = [], cpPrefix = 0, cpInterfaceId = 0\<rparr>"

definition IPNetwork :: "ipText \<Rightarrow> ConnectionPoint \<Rightarrow> bytes" where
  "IPNetwork T c = (if cpType c = IPv4Range then ipMasked T (cpIP c) (cpPrefix c) 32
     else if cpType c = IPv6Range then ipMasked T (cpIP c) (cpPrefix c) 128 else [])"

definition IPConnectionPointFromString :: "ipText \<Rightarrow> string \<Rightarrow> u32 \<Rightarrow> string \<Rightarrow> ConnectionPoint" where
  "IPConnectionPointFromString T ip prefix typ =
     no_point\<lparr>cpType := typ, cpIP := ipString T (if typ = IPv4Range then ipMasked T ip prefix 32 else if typ = IPv6Range then ipMasked T ip prefix 128 else []),
       cpPrefix := prefix\<rparr>"

definition ConnectionPointToPB :: "ipText \<Rightarrow> ConnectionPoint \<Rightarrow> pb_ConnectionPoint" where
  "ConnectionPointToPB T c =
    (if cpType c = IPv4Range then \<lparr>pbcType = CONNECTION_IPV4_RANGE, pbcIpAddress = IPNetwork T c, pbcIpPrefix = cpPrefix c, pbcInterface = 0\<rparr>
     else if cpType c = IPv6Range then \<lparr>pbcType = CONNECTION_IPV6_RANGE, pbcIpAddress = IPNetwork T c, pbcIpPrefix = cpPrefix c, pbcInterface = 0\<rparr>
     else if cpType c = cpInterface then \<lparr>pbcType = CONNECTION_INTERFACE, pbcIpAddress = [], pbcIpPrefix = 0, pbcInterface = ucast (cpInterfaceId c)\<rparr>
     else if cpType c = cpWildcard then \<lparr>pbcType = CONNECTION_WILDCARD, pbcIpAddress = [], pbcIpPrefix = 0, pbcInterface = 0\<rparr>
     else \<lparr>pbcType = CONNECTION_UNSPECIFIED, pbcIpAddress = [], pbcIpPrefix = 0, pbcInterface = 0\<rparr>)"

definition ConnectionPointFromPB :: "ipText \<Rightarrow> pb_ConnectionPoint \<Rightarrow> ConnectionPoint" where
  "ConnectionPointFromPB T p =
    (case pbcType p of
       CONNECTION_IPV4_RANGE \<Rightarrow> no_point\<lparr>cpType := IPv4Range, cpIP := ipString T (pbcIpAddress p), cpPrefix := pbcIpPrefix p\<rparr>
     | CONNECTION_IPV6_RANGE \<Rightarrow> no_point\<lparr>cpType := IPv6Range, cpIP := ipString T (pbcIpAddress p), cpPrefix := pbcIpPrefix p\<rparr>
     | CONNECTION_INTERFACE \<Rightarrow> no_point\<lparr>cpType := cpInterface, cpInterfaceId := ucast (pbcInterface p)\<rparr>
     | CONNECTION_WILDCARD \<Rightarrow> no_point\<lparr>cpType := cpWildcard\<rparr>
     | CONNECTION_UNSPECIFIED \<Rightarrow> no_point)"

definition SupportedIndicesMapToPB :: "ipText \<Rightarrow> (ConnectionPair, u8 list) gomap \<Rightarrow> ((pb_ConnectionPoint \<times> pb_ConnectionPoint) \<times> u32 list) list" where
  "SupportedIndicesMapToPB T m =
     map (\<lambda>(ie, indices). ((ConnectionPointToPB T (cpIngress ie), ConnectionPointToPB T (cpEgress ie)), map ucast indices)) m"

definition SupportedIndicesMapFromPB :: "ipText \<Rightarrow> ((pb_ConnectionPoint \<times> pb_ConnectionPoint) \<times> u32 list) list \<Rightarrow> (ConnectionPair, u8 list) gomap" where
  "SupportedIndicesMapFromPB T m = foldl (\<lambda>acc ((i, e), indices).
     AList.update \<lparr>cpIngress = ConnectionPointFromPB T i, cpEgress = ConnectionPointFromPB T e\<rparr> (map ucast indices) acc) [] m"

definition fabrid_DetachedToPB :: "ipText \<Rightarrow> fabrid_Detached \<Rightarrow> pb_FabridMaps option" where
  "fabrid_DetachedToPB T d = Some \<lparr>pbSupported = SupportedIndicesMapToPB T (SupportedIndicesMap d),
     pbIdentifiers = IndexIdentifierMapToPB (IndexIdentiferMap d)\<rparr>"

definition fabrid_DetachedFromPB :: "ipText \<Rightarrow> pb_FabridMaps option option \<Rightarrow> fabrid_Detached option" where
  "fabrid_DetachedFromPB T d =
    (case d of
       Some (Some maps) \<Rightarrow> Some \<lparr>SupportedIndicesMap = SupportedIndicesMapFromPB T (pbSupported maps),
         IndexIdentiferMap = IndexIdentifierMapFromPB (pbIdentifiers maps)\<rparr>
     | _ \<Rightarrow> None)"

section \<open>Static information\<close>

type_synonym IFIDType = u64

record 'v interIntra =
  siIntra :: "(IFIDType, 'v) gomap"
  siInter :: "(IFIDType, 'v) gomap"

text \<open>Coordinates are floating point numbers that are only copied; their type is left open.\<close>

record 'f GeoCoordinates =
  Latitude :: 'f
  Longitude :: 'f
  Address :: string

datatype static_LinkType = LinkTypeDirect | LinkTypeMultihop | LinkTypeOpennet | LinkTypeOther u8

datatype pb_LinkType = LINK_TYPE_UNSPECIFIED | LINK_TYPE_DIRECT | LINK_TYPE_MULTI_HOP | LINK_TYPE_OPEN_NET | LINK_TYPE_OTHER int

record 'f static_Extension =
  Latency :: "int interIntra"
  Bandwidth :: "u64 interIntra"
  CarbonIntensity :: "u64 interIntra"
  Sbom :: "u64 interIntra"
  Vuln :: "u64 interIntra"
  Fixed :: "u64 interIntra"
  Affected :: "u64 interIntra"
  Geo :: "(IFIDType, 'f GeoCoordinates) gomap"
  LinkTypes :: "(IFIDType, static_LinkType) gomap"
  InternalHops :: "(IFIDType, u32) gomap"
  Note :: string

record 'f pb_StaticInfoExtension =
  pbLatency :: "u32 interIntra option"
  pbBandwidth :: "u64 interIntra option"
  pbCarbonIntensity :: "u64 interIntra option"
  pbSbom :: "u64 interIntra option"
  pbVuln :: "u64 interIntra option"
  pbFixed :: "u64 interIntra option"
  pbAffected :: "u64 interIntra option"
  pbGeo :: "(u64, 'f GeoCoordinates) gomap"
  pbLinkType :: "(u64, pb_LinkType) gomap"
  pbInternalHops :: "(u64, u32) gomap"
  pbNote :: string

definition no_info :: "'v interIntra" where "no_info = \<lparr>siIntra = [], siInter = []\<rparr>"

definition latencyInfoFromPB :: "u32 interIntra option \<Rightarrow> int interIntra" where
  "latencyInfoFromPB pb =
    (case pb of
       None \<Rightarrow> no_info
     | Some p \<Rightarrow> if siIntra p = [] \<and> siInter p = [] then no_info
         else \<lparr>siIntra = map (\<lambda>(k, v). (k, uint v * 1000)) (siIntra p), siInter = map (\<lambda>(k, v). (k, uint v * 1000)) (siInter p)\<rparr>)"

definition bandwidthInfoFromPB :: "u64 interIntra option \<Rightarrow> u64 interIntra" where
  "bandwidthInfoFromPB pb = (case pb of None \<Rightarrow> no_info | Some p \<Rightarrow> p)"

definition carbonIntensityInfoFromPB :: "u64 interIntra option \<Rightarrow> u64 interIntra" where
  "carbonIntensityInfoFromPB pb = (case pb of None \<Rightarrow> no_info | Some p \<Rightarrow> p)"

definition SbomInfoFromPB :: "u64 interIntra option \<Rightarrow> u64 interIntra" where
  "SbomInfoFromPB pb = (case pb of None \<Rightarrow> no_info | Some p \<Rightarrow> p)"

definition VulnInfoFromPB :: "u64 interIntra option \<Rightarrow> u64 interIntra" where
  "VulnInfoFromPB pb = (case pb of None \<Rightarrow> no_info | Some p \<Rightarrow> p)"

definition FixedInfoFromPB :: "u64 interIntra option \<Rightarrow> u64 interIntra" where
  "FixedInfoFromPB pb = (case pb of None \<Rightarrow> no_info | Some p \<Rightarrow> p)"

definition AffectedInfoFromPB :: "u64 interIntra option \<Rightarrow> u64 interIntra" where
  "AffectedInfoFromPB pb = (case pb of None \<Rightarrow> no_info | Some p \<Rightarrow> p)"

definition linkTypeInfoFromPB :: "(u64, pb_LinkType) gomap \<Rightarrow> (IFIDType, static_LinkType) gomap" where
  "linkTypeInfoFromPB pb = List.map_filter (\<lambda>(k, v). case v of
       LINK_TYPE_DIRECT \<Rightarrow> Some (k, LinkTypeDirect) | LINK_TYPE_MULTI_HOP \<Rightarrow> Some (k, LinkTypeMultihop)
     | LINK_TYPE_OPEN_NET \<Rightarrow> Some (k, LinkTypeOpennet) | _ \<Rightarrow> None) pb"

definition static_FromPB :: "'f pb_StaticInfoExtension option \<Rightarrow> 'f static_Extension option" where
  "static_FromPB = map_option (\<lambda>pb.
     \<lparr>Latency = latencyInfoFromPB (pbLatency pb), Bandwidth = bandwidthInfoFromPB (pbBandwidth pb),
      CarbonIntensity = carbonIntensityInfoFromPB (pbCarbonIntensity pb), Sbom = SbomInfoFromPB (pbSbom pb), Vuln = VulnInfoFromPB (pbVuln pb),
      Fixed = FixedInfoFromPB (pbFixed pb), Affected = AffectedInfoFromPB (pbAffected pb), Geo = pbGeo pb, LinkTypes = linkTypeInfoFromPB (pbLinkType pb),
      InternalHops = pbInternalHops pb, Note = pbNote pb\<rparr>)"

text \<open>\<open>v.Microseconds()\<close> truncates, the conversion to 32 bits wraps.\<close>

definition latencyInfoToPB :: "int interIntra \<Rightarrow> u32 interIntra option" where
  "latencyInfoToPB li =
    (if siIntra li = [] \<and> siInter li = [] then None
     else let f = map (\<lambda>(k, v). (k, word_of_int (v sdiv 1000) :: u32)) in Some \<lparr>siIntra = f (siIntra li), siInter = f (siInter li)\<rparr>)"

definition bandwidthInfoToPB :: "u64 interIntra \<Rightarrow> u64 interIntra option" where
  "bandwidthInfoToPB i = (if siIntra i = [] \<and> siInter i = [] then None else Some i)"

definition carbonIntensityInfoToPB :: "u64 interIntra \<Rightarrow> u64 interIntra option" where
  "carbonIntensityInfoToPB i = (if siIntra i = [] \<and> siInter i = [] then None else Some i)"

definition SbomInfoToPB :: "u64 interIntra \<Rightarrow> u64 interIntra option" where
  "SbomInfoToPB i = (if siIntra i = [] \<and> siInter i = [] then None else Some i)"

definition VulnInfoToPB :: "u64 interIntra \<Rightarrow> u64 interIntra option" where
  "VulnInfoToPB i = (if siIntra i = [] \<and> siInter i = [] then None else Some i)"

definition FixedInfoToPB :: "u64 interIntra \<Rightarrow> u64 interIntra option" where
  "FixedInfoToPB i = (if siIntra i = [] \<and> siInter i = [] then None else Some i)"

definition AffectedInfoToPB :: "u64 interIntra \<Rightarrow> u64 interIntra option" where
  "AffectedInfoToPB i = (if siIntra i = [] \<and> siInter i = [] then None else Some i)"

definition linkTypeInfoToPB :: "(IFIDType, static_LinkType) gomap \<Rightarrow> (u64, pb_LinkType) gomap" where
  "linkTypeInfoToPB lti = List.map_filter (\<lambda>(k, v). case v of
       LinkTypeDirect \<Rightarrow> Some (k, LINK_TYPE_DIRECT) | LinkTypeMultihop \<Rightarrow> Some (k, LINK_TYPE_MULTI_HOP)
     | LinkTypeOpennet \<Rightarrow> Some (k, LINK_TYPE_OPEN_NET) | LinkTypeOther _ \<Rightarrow> None) lti"

definition static_ToPB :: "'f static_Extension option \<Rightarrow> 'f pb_StaticInfoExtension option" where
  "static_ToPB = map_option (\<lambda>si.
     \<lparr>pbLatency = latencyInfoToPB (Latency si), pbBandwidth = bandwidthInfoToPB (Bandwidth si),
      pbCarbonIntensity = carbonIntensityInfoToPB (CarbonIntensity si), pbSbom = SbomInfoToPB (Sbom si), pbVuln = VulnInfoToPB (Vuln si),
      pbFixed = FixedInfoToPB (Fixed si), pbAffected = AffectedInfoToPB (Affected si), pbGeo = Geo si, pbLinkType = linkTypeInfoToPB (LinkTypes si),
      pbInternalHops = InternalHops si, pbNote = Note si\<rparr>)"

section \<open>Signed and unsigned extensions\<close>

record 'f seg_Extensions =
  IsHidden :: bool
  StaticInfo :: "'f static_Extension option"
  Digests :: "digest_Extension option"

record UnsignedExtensions =
  EpicDetached :: "epic_Detached option"
  FabridDetached :: "fabrid_Detached option"

record 'f pb_SegExtensions =
  pbHiddenPath :: "bool option"
  pbStaticInfo :: "'f pb_StaticInfoExtension option"
  pbDigests :: "pb_DigestExtension option"

definition extensionsFromPB :: "'f pb_SegExtensions option \<Rightarrow> 'f seg_Extensions" where
  "extensionsFromPB pb =
    (case pb of
       None \<Rightarrow> \<lparr>IsHidden = False, StaticInfo = None, Digests = None\<rparr>
     | Some p \<Rightarrow> \<lparr>IsHidden = (pbHiddenPath p = Some True), StaticInfo = static_FromPB (pbStaticInfo p), Digests = digest_ExtensionFromPB (pbDigests p)\<rparr>)"

definition extensionsToPB :: "'f seg_Extensions \<Rightarrow> 'f pb_SegExtensions option" where
  "extensionsToPB ext =
    (let hiddenPath = (if IsHidden ext then Some True else None); staticInfo = static_ToPB (StaticInfo ext); digest = digest_ExtensionToPB (Digests ext) in
     if hiddenPath \<noteq> None \<or> staticInfo \<noteq> None \<or> digest \<noteq> None
     then Some \<lparr>pbHiddenPath = hiddenPath, pbStaticInfo = staticInfo, pbDigests = digest\<rparr> else None)"

record pb_Unsigned =
  pbEpic :: "epic_Detached option"
  pbFabrid :: "pb_FabridMaps option option"

definition UnsignedExtensionsFromPB :: "ipText \<Rightarrow> pb_Unsigned option \<Rightarrow> UnsignedExtensions" where
  "UnsignedExtensionsFromPB T ue =
    (case ue of
       None \<Rightarrow> \<lparr>EpicDetached = None, FabridDetached = None\<rparr>
     | Some u \<Rightarrow> \<lparr>EpicDetached = epic_DetachedFromPB (pbEpic u), FabridDetached = fabrid_DetachedFromPB T (pbFabrid u)\<rparr>)"

definition UnsignedExtensionsToPB :: "ipText \<Rightarrow> UnsignedExtensions \<Rightarrow> pb_Unsigned" where
  "UnsignedExtensionsToPB T ue = \<lparr>pbEpic = epic_DetachedToPB (EpicDetached ue), pbFabrid = map_option (fabrid_DetachedToPB T) (FabridDetached ue)\<rparr>"

definition checkUnsignedExtensions :: "(bytes \<Rightarrow> bytes) \<Rightarrow> UnsignedExtensions \<Rightarrow> 'f seg_Extensions \<Rightarrow> unit result" where
  "checkUnsignedExtensions sha ue e =
    (let epicDigest = (case Digests e of None \<Rightarrow> [] | Some d \<Rightarrow> dxEpic d);
         fabridDigest = (case Digests e of None \<Rightarrow> [] | Some d \<Rightarrow> dxFabrid d) in
     bindR (case EpicDetached ue of
        None \<Rightarrow> Ok ()
      | Some ed \<Rightarrow>
          if epicDigest = [] then Fail (Err ''epic authenticators present, but hash is not'')
          else bindR (DigestInput ed) (Digest_Validate sha epicDigest)) (\<lambda>_.
     case FabridDetached ue of
       None \<Rightarrow> Ok ()
     | Some fd \<Rightarrow>
         if SupportedIndicesMap fd \<noteq> [] \<and> IndexIdentiferMap fd = [] then Fail (Err ''fabrid maps are malformed'')
         else if fabridDigest \<noteq> [] then
           (if fabridDigest \<noteq> fabrid_Hash sha fd then Fail (Err ''fabrid digest validation failed'') else Ok ())
         else Fail (Err ''fabrid maps present, but hash is not'')))"

section \<open>Round trips\<close>

lemma length_copy_fresh [simp]: "length (copy_fresh n b) = n"
  by (simp add: copy_fresh_def)

lemma copy_fresh_id [simp]: "length b = n \<Longrightarrow> copy_fresh n b = b"
  by (simp add: copy_fresh_def)

lemma map_filter_id: "(\<And>x. x \<in> set xs \<Longrightarrow> f x = Some (g x)) \<Longrightarrow> List.map_filter f xs = map g xs"
  by (induction xs) (simp_all add: map_filter_simps)

text \<open>Which static information survives the wire: latencies in whole microseconds of 32 bits, and known link types.\<close>

definition wire_latency :: "int \<Rightarrow> bool" where
  "wire_latency v \<longleftrightarrow> 0 \<le> v \<and> v mod 1000 = 0 \<and> v div 1000 < 2 ^ 32"

definition wire_static :: "'f static_Extension \<Rightarrow> bool" where
  "wire_static s \<longleftrightarrow> (\<forall>(k, v) \<in> set (siIntra (Latency s)) \<union> set (siInter (Latency s)). wire_latency v)
     \<and> (\<forall>(k, v) \<in> set (LinkTypes s). \<forall>n. v \<noteq> LinkTypeOther n)"

lemma latency_conv: "wire_latency v \<Longrightarrow> uint (word_of_int (v sdiv 1000) :: u32) * 1000 = v"
  by (cases "v = 0") (auto simp: wire_latency_def signed_divide_int_def uint_word_of_int take_bit_int_eq_self sgn_if)

lemma latency_roundtrip:
  assumes "\<forall>(k, v) \<in> set (siIntra i) \<union> set (siInter i). wire_latency v"
  shows "latencyInfoFromPB (latencyInfoToPB i) = i"
proof -
  have "map (\<lambda>(k, v). (k, uint v * 1000)) (map (\<lambda>(k, v). (k, word_of_int (v sdiv 1000) :: u32)) xs) = xs"
    if "\<forall>(k, v) \<in> set xs. wire_latency v" for xs :: "(IFIDType \<times> int) list"
    using that by (induction xs) (auto simp: latency_conv)
  from this [of "siIntra i"] this [of "siInter i"] show ?thesis using assms
    by (cases i) (simp add: latencyInfoFromPB_def latencyInfoToPB_def no_info_def Let_def)
qed

lemma link_roundtrip: "(\<forall>(k, v) \<in> set xs. \<forall>n. v \<noteq> LinkTypeOther n) \<Longrightarrow> linkTypeInfoFromPB (linkTypeInfoToPB xs) = xs"
proof (induction xs)
  case (Cons x xs)
  then show ?case by (cases x; cases "snd x") (auto simp: linkTypeInfoFromPB_def linkTypeInfoToPB_def map_filter_simps)
qed (simp add: linkTypeInfoFromPB_def linkTypeInfoToPB_def map_filter_simps)

lemma info_roundtrip:
  "bandwidthInfoFromPB (bandwidthInfoToPB i) = i" "carbonIntensityInfoFromPB (carbonIntensityInfoToPB i) = i" "SbomInfoFromPB (SbomInfoToPB i) = i"
  "VulnInfoFromPB (VulnInfoToPB i) = i" "FixedInfoFromPB (FixedInfoToPB i) = i" "AffectedInfoFromPB (AffectedInfoToPB i) = i"
  by (cases i; simp add: bandwidthInfoFromPB_def bandwidthInfoToPB_def carbonIntensityInfoFromPB_def carbonIntensityInfoToPB_def
    SbomInfoFromPB_def SbomInfoToPB_def VulnInfoFromPB_def VulnInfoToPB_def FixedInfoFromPB_def FixedInfoToPB_def
    AffectedInfoFromPB_def AffectedInfoToPB_def no_info_def)+

lemma static_roundtrip: "(\<And>x. s = Some x \<Longrightarrow> wire_static x) \<Longrightarrow> static_FromPB (static_ToPB s) = s"
  by (cases s) (auto simp: static_FromPB_def static_ToPB_def info_roundtrip wire_static_def latency_roundtrip link_roundtrip)

lemma digest_roundtrip:
  "(\<And>x. d = Some x \<Longrightarrow> length (dxEpic x) = 16 \<and> length (dxFabrid x) = 16) \<Longrightarrow> digest_ExtensionFromPB (digest_ExtensionToPB d) = d"
  by (cases d) (auto simp: digest_ExtensionFromPB_def digest_ExtensionToPB_def DigestLength_def)

text \<open>A digest that is absent becomes sixteen zero bytes on the wire.\<close>

lemma digest_absent: "digest_ExtensionFromPB (digest_ExtensionToPB (Some \<lparr>dxEpic = e, dxFabrid = []\<rparr>))
    = Some \<lparr>dxEpic = copy_fresh 16 e, dxFabrid = replicate 16 0\<rparr>"
  by (simp add: digest_ExtensionFromPB_def digest_ExtensionToPB_def DigestLength_def copy_fresh_def)

lemma extensions_roundtrip:
  assumes "\<And>x. StaticInfo e = Some x \<Longrightarrow> wire_static x"
    and "\<And>x. Digests e = Some x \<Longrightarrow> length (dxEpic x) = 16 \<and> length (dxFabrid x) = 16"
  shows "extensionsFromPB (extensionsToPB e) = e"
  using static_roundtrip [of "StaticInfo e"] digest_roundtrip [of "Digests e"] assms
  by (cases e) (auto simp: extensionsFromPB_def extensionsToPB_def Let_def static_FromPB_def static_ToPB_def digest_ExtensionFromPB_def digest_ExtensionToPB_def)

section \<open>What the FABRID digest covers\<close>

text \<open>Connection points that agree in what reaches the hash: the addresses, and which kind of range they are in, may differ.\<close>

definition is_range :: "string \<Rightarrow> bool" where "is_range t \<longleftrightarrow> t = IPv4Range \<or> t = IPv6Range"

definition alike :: "ConnectionPoint \<Rightarrow> ConnectionPoint \<Rightarrow> bool" where
  "alike c d \<longleftrightarrow> cpPrefix d = cpPrefix c \<and> cpInterfaceId d = cpInterfaceId c
     \<and> (cpType d = cpType c \<or> is_range (cpType c) \<and> is_range (cpType d))"

lemma point_hash_alike: "alike c d \<Longrightarrow> point_hash_input d = point_hash_input c"
  by (auto simp: alike_def is_range_def point_hash_input_def binary_Write_string_def cpInterface_def IPv4Range_def IPv6Range_def)

lemma set_insert_by: "set (insert_by lt x ys) = insert x (set ys)"
  by (induction ys) auto

lemma set_sort_by [simp]: "set (sort_by lt xs) = set xs"
  by (induction xs) (simp_all add: sort_by_def set_insert_by)

lemma insert_by_map:
  "(\<And>y. y \<in> set ys \<Longrightarrow> lt (g y) (g x) = lt y x) \<Longrightarrow> insert_by lt (g x) (map g ys) = map g (insert_by lt x ys)"
  by (induction ys) auto

lemma sort_by_map:
  "(\<And>x y. x \<in> set xs \<Longrightarrow> y \<in> set xs \<Longrightarrow> lt (g x) (g y) = lt x y) \<Longrightarrow> sort_by lt (map g xs) = map g (sort_by lt xs)"
proof (induction xs)
  case (Cons x xs)
  then have "sort_by lt (map g xs) = map g (sort_by lt xs)" by simp
  then show ?case using Cons.prems insert_by_map [of "sort_by lt xs" lt g x] by (simp add: sort_by_def set_sort_by [unfolded sort_by_def])
qed (simp add: sort_by_def)

lemma map_of_rekey:
  "inj_on g (fst ` set m) \<Longrightarrow> k \<in> fst ` set m \<Longrightarrow> map_of (map (\<lambda>(c, s). (g c, s)) m) (g k) = map_of m k"
proof (induction m)
  case (Cons x m)
  obtain c s where x: "x = (c, s)" by (cases x)
  have eq: "g k = g c \<longleftrightarrow> k = c" using Cons.prems x inj_onD [OF Cons.prems(1), of k c] by force
  show ?case
  proof (cases "k = c")
    case False
    then have "k \<in> fst ` set m" "inj_on g (fst ` set m)" using Cons.prems x by (auto intro: inj_on_subset)
    then show ?thesis using Cons.IH False eq x by simp
  qed (simp add: x)
qed simp

text \<open>C22: the digest that protects the detached FABRID maps does not cover the addresses of IP ranges, nor whether a range is
  one of IPv4 or IPv6 addresses. In maps with any number of connection pairs, replace the addresses, and exchange the
  two kinds of range, in any way that keeps the pairs different and in the same order: the digest stays the
  same, so the replaced maps pass the check of the unsigned extensions.\<close>

theorem fabrid_digest_gap:
  assumes "SupportedIndicesMap fd' = map (\<lambda>(c, s). (g c, s)) (SupportedIndicesMap fd)" and "IndexIdentiferMap fd' = IndexIdentiferMap fd"
    and same: "\<And>c. c \<in> fst ` set (SupportedIndicesMap fd) \<Longrightarrow> alike (cpIngress c) (cpIngress (g c)) \<and> alike (cpEgress c) (cpEgress (g c))"
    and inj: "inj_on g (fst ` set (SupportedIndicesMap fd))"
    and order: "\<And>c d. c \<in> fst ` set (SupportedIndicesMap fd) \<Longrightarrow> d \<in> fst ` set (SupportedIndicesMap fd) \<Longrightarrow> pair_less (g c) (g d) = pair_less c d"
    and "checkUnsignedExtensions sha \<lparr>EpicDetached = ed, FabridDetached = Some fd\<rparr> e = Ok ()"
  shows "checkUnsignedExtensions sha \<lparr>EpicDetached = ed, FabridDetached = Some fd'\<rparr> e = Ok ()"
proof -
  let ?m = "SupportedIndicesMap fd"
  have keys: "SupportedIndices_SortedKeys (SupportedIndicesMap fd') = map g (SupportedIndices_SortedKeys ?m)"
    using sort_by_map [of "map fst ?m" pair_less g] order
    by (simp add: SupportedIndices_SortedKeys_def assms(1) comp_def case_prod_beta)
  have "(case map_of (SupportedIndicesMap fd') (g k) of None \<Rightarrow> []
        | Some s \<Rightarrow> point_hash_input (cpIngress (g k)) @ point_hash_input (cpEgress (g k)) @ sort s)
      = (case map_of ?m k of None \<Rightarrow> [] | Some s \<Rightarrow> point_hash_input (cpIngress k) @ point_hash_input (cpEgress k) @ sort s)"
    if "k \<in> set (SupportedIndices_SortedKeys ?m)" for k
  proof -
    have k: "k \<in> fst ` set ?m" using that by (simp add: SupportedIndices_SortedKeys_def)
    have eq: "point_hash_input (cpIngress (g k)) = point_hash_input (cpIngress k)" "point_hash_input (cpEgress (g k)) = point_hash_input (cpEgress k)"
      using same [OF k] by (simp_all add: point_hash_alike)
    show ?thesis unfolding eq assms(1) map_of_rekey [OF inj k] ..
  qed
  then have "fabrid_hash_input fd' = fabrid_hash_input fd"
    unfolding fabrid_hash_input_def keys map_map assms(2) comp_def by (simp cong: map_cong)
  then have "fabrid_Hash sha fd' = fabrid_Hash sha fd" by (simp add: fabrid_Hash_def)
  moreover have "SupportedIndicesMap fd' \<noteq> [] \<longleftrightarrow> ?m \<noteq> []" by (simp add: assms(1))
  ultimately show ?thesis
    using assms(6) by (simp only: checkUnsignedExtensions_def Let_def UnsignedExtensions.simps option.case assms(2))
qed

definition sample_pair :: "u16 \<Rightarrow> ConnectionPair" where
  "sample_pair i = \<lparr>cpIngress = \<lparr>cpType = cpInterface, cpIP = [], cpPrefix = 0, cpInterfaceId = i\<rparr>,
     cpEgress = \<lparr>cpType = IPv4Range, cpIP = ''10.0.0.0'', cpPrefix = 8, cpInterfaceId = 0\<rparr>\<rparr>"

definition sample_readdress :: "ConnectionPair \<Rightarrow> ConnectionPair" where
  "sample_readdress c = c\<lparr>cpEgress := (cpEgress c)\<lparr>cpType := IPv6Range, cpIP := ''fd00::''\<rparr>\<rparr>"

definition sample_maps :: fabrid_Detached where
  "sample_maps = \<lparr>SupportedIndicesMap = [(sample_pair 1, [7]), (sample_pair 2, [7])], IndexIdentiferMap = [(7, \<lparr>piIsLocal = True, piIdentifier = 3\<rparr>)]\<rparr>"

definition sample_digests :: "unit seg_Extensions" where
  "sample_digests = \<lparr>IsHidden = False, StaticInfo = None,
     Digests = Some \<lparr>dxEpic = [], dxFabrid = fabrid_Hash (\<lambda>x. x @ replicate 32 0) sample_maps\<rparr>\<rparr>"

theorem fabrid_digest_gap_witness:
  "checkUnsignedExtensions (\<lambda>x. x @ replicate 32 0) \<lparr>EpicDetached = None, FabridDetached = Some (sample_maps\<lparr>SupportedIndicesMap :=
      [(sample_readdress (sample_pair 1), [7]), (sample_readdress (sample_pair 2), [7])]\<rparr>)\<rparr> sample_digests = Ok ()"
proof (rule fabrid_digest_gap [where g = sample_readdress])
  show "checkUnsignedExtensions (\<lambda>x. x @ replicate 32 0) \<lparr>EpicDetached = None, FabridDetached = Some sample_maps\<rparr> sample_digests = Ok ()"
    by code_simp
qed (auto simp: sample_maps_def sample_readdress_def sample_pair_def alike_def is_range_def pair_less_def ConnectionPoint_Less_def)

end
