(* ===== verification/Segment.thy ===== *)
theory Segment
  imports SegExt
begin

text \<open>
  Path segments (\<^verbatim>\<open>pkg/segment\<close>): AS entries with their hop and peer entries, validation, expiry, identifiers,
  signatures, and the translation from and to protobuf. Protobuf encoding and the extraction of the signed body
  are the parameters of the record \<open>wire\<close>; signers and verifiers are functions. Times are nanoseconds.
\<close>

unbundle bit_operations_syntax

section \<open>Data\<close>

record seg_HopField =
  hfExpTime :: u8
  hfConsIngress :: u16
  hfConsEgress :: u16
  hfMAC :: bytes

record HopEntry =
  heHopField :: seg_HopField
  heIngressMTU :: int

record PeerEntry =
  peHopField :: seg_HopField
  pePeer :: IA
  pePeerInterface :: u16
  pePeerMTU :: int

record SignedMessage =
  HeaderAndBody :: bytes
  Signature :: bytes

record 'f ASEntry =
  Signed :: "SignedMessage option"
  Pqsigned :: "SignedMessage option"
  Local :: IA
  NextIA :: IA
  hopEntry :: HopEntry
  PeerEntries :: "PeerEntry list"
  MTU :: int
  Extensions :: "'f seg_Extensions"
  Unsigned :: UnsignedExtensions

record seg_Info =
  infoRaw :: bytes
  infoTimestamp :: int
  SegmentID :: u16

record 'f PathSegment =
  segInfo :: seg_Info
  ASEntries :: "'f ASEntry list"

section \<open>Protobuf messages\<close>

record pb_SegmentInformation =
  pbTimestamp :: int
  pbSegmentId :: u32

record pb_HopField =
  pbExpTime :: u32
  pbIngress :: u64
  pbEgress :: u64
  pbMac :: bytes

record pb_HopEntry =
  pbIngressMtu :: u32
  pbHopField :: "pb_HopField option"

record pb_PeerEntry =
  pbPeerIsdAs :: u64
  pbPeerInterface :: u64
  pbPeerMtu :: u32
  pbPeerHopField :: "pb_HopField option"

record 'f pb_SignedBody =
  pbIsdAs :: u64
  pbNextIsdAs :: u64
  pbMtu :: u32
  pbHopEntry :: "pb_HopEntry option"
  pbPeerEntries :: "pb_PeerEntry option list"
  pbExtensions :: "'f pb_SegExtensions option"

record pb_ASEntry =
  pbSigned :: "SignedMessage option"
  pbUnsigned :: "pb_Unsigned option"
  pbPqsigned :: "SignedMessage option"

record pb_PathSegment =
  pbSegmentInfo :: bytes
  pbAsEntries :: "pb_ASEntry option list"

record 'f wire =
  marshalInfo :: "pb_SegmentInformation \<Rightarrow> bytes result"
  unmarshalInfo :: "bytes \<Rightarrow> pb_SegmentInformation result"
  marshalBody :: "'f pb_SignedBody \<Rightarrow> bytes result"
  unmarshalBody :: "bytes \<Rightarrow> 'f pb_SignedBody result"
  extractBody :: "SignedMessage option \<Rightarrow> bytes result"
  marshalSigned :: "SignedMessage \<Rightarrow> bytes result"
  wireText :: ipText

definition time_Unix :: "int \<Rightarrow> int" where "time_Unix t = t div 1000000000"

definition unix_Time :: "int \<Rightarrow> int" where "unix_Time s = s * 1000000000"

definition TimeToSecs :: "int \<Rightarrow> u32" where "TimeToSecs t = word_of_int (time_Unix t)"

definition SecsToTime :: "u32 \<Rightarrow> int" where "SecsToTime s = unix_Time (uint s)"

section \<open>From protobuf\<close>

definition infoFromRaw :: "'f wire \<Rightarrow> bytes \<Rightarrow> seg_Info result" where
  "infoFromRaw w raw = bindR (unmarshalInfo w raw) (\<lambda>pb.
     if pbSegmentId pb > 65535 then Fail (Err ''segment ID overflows uint16'')
     else Ok \<lparr>infoRaw = raw, infoTimestamp = unix_Time (pbTimestamp pb), SegmentID = ucast (pbSegmentId pb)\<rparr>)"

definition NewInfo :: "'f wire \<Rightarrow> int \<Rightarrow> u16 \<Rightarrow> seg_Info result" where
  "NewInfo w timestamp segmentID =
    (let pb = \<lparr>pbTimestamp = time_Unix timestamp, pbSegmentId = ucast segmentID\<rparr> in
     bindR (marshalInfo w pb) (\<lambda>raw. Ok \<lparr>infoRaw = raw, infoTimestamp = unix_Time (pbTimestamp pb), SegmentID = segmentID\<rparr>))"

definition CreateSegment :: "'f wire \<Rightarrow> int \<Rightarrow> u16 \<Rightarrow> 'f PathSegment result" where
  "CreateSegment w timestamp segID = mapR (\<lambda>info. \<lparr>segInfo = info, ASEntries = []\<rparr>) (NewInfo w timestamp segID)"

definition hopFieldFromPB :: "pb_HopField \<Rightarrow> seg_HopField result" where
  "hopFieldFromPB pb =
    (if pbIngress pb > 65535 then Fail (Err ''ingress exceeds 65535'')
     else if pbEgress pb > 65535 then Fail (Err ''egress exceeds 65535'')
     else if pbExpTime pb > 255 then Fail (Err ''exp_time exceeds 255'')
     else if length (pbMac pb) \<noteq> 6 then Fail (Err ''MAC must be 6 bytes'')
     else Ok \<lparr>hfExpTime = ucast (pbExpTime pb), hfConsIngress = ucast (pbIngress pb), hfConsEgress = ucast (pbEgress pb), hfMAC = pbMac pb\<rparr>)"

definition hopEntryFromPB :: "pb_HopEntry option \<Rightarrow> HopEntry result" where
  "hopEntryFromPB pb =
    (case pb of
       None \<Rightarrow> Fail (Err ''nil hop entry'')
     | Some p \<Rightarrow>
         (case pbHopField p of
            None \<Rightarrow> Fail (Err ''hop field is nil'')
          | Some h \<Rightarrow>
              if pbIngressMtu p > 2147483647 then Fail (Err ''MTU too big'')
              else bindR (wrapR ''parsing hop field'' (hopFieldFromPB h)) (\<lambda>hop. Ok \<lparr>heHopField = hop, heIngressMTU = uint (pbIngressMtu p)\<rparr>)))"

definition peerEntryFromPB :: "pb_PeerEntry \<Rightarrow> PeerEntry result" where
  "peerEntryFromPB p =
    (case pbPeerHopField p of
       None \<Rightarrow> Fail (Err ''hop field is nil'')
     | Some h \<Rightarrow>
         if IA_IsWildcard (pbPeerIsdAs p) then Fail (Err ''wildcard peer'')
         else if pbPeerInterface p > 65535 then Fail (Err ''peer interface exceeds 65535'')
         else if pbPeerMtu p > 2147483647 then Fail (Err ''MTU too big'')
         else bindR (wrapR ''parsing hop field'' (hopFieldFromPB h)) (\<lambda>hop.
           Ok \<lparr>peHopField = hop, pePeer = pbPeerIsdAs p, pePeerInterface = ucast (pbPeerInterface p), pePeerMTU = uint (pbPeerMtu p)\<rparr>))"

text \<open>Nil peer entries are skipped.\<close>

fun peerEntriesFromPB :: "pb_PeerEntry option list \<Rightarrow> PeerEntry list result" where
  "peerEntriesFromPB [] = Ok []"
| "peerEntriesFromPB (None # ps) = peerEntriesFromPB ps"
| "peerEntriesFromPB (Some p # ps) =
    bindR (wrapR ''parsing peer entry'' (peerEntryFromPB p)) (\<lambda>e. mapR ((#) e) (peerEntriesFromPB ps))"

definition ASEntryFromPB :: "'f wire \<Rightarrow> pb_ASEntry option \<Rightarrow> 'f ASEntry result" where
  "ASEntryFromPB w pb =
    (case pb of
       None \<Rightarrow> Fail (Err ''nil entry'')
     | Some p \<Rightarrow>
         bindR (extractBody w (pbSigned p)) (\<lambda>body.
         bindR (unmarshalBody w body) (\<lambda>entry.
         if IA_IsWildcard (pbIsdAs entry) then Fail (Err ''wildcard local ISD-AS'')
         else if pbMtu entry > 2147483647 then Fail (Err ''MTU too big'')
         else bindR (wrapR ''parsing hop entry'' (hopEntryFromPB (pbHopEntry entry))) (\<lambda>hop.
           bindR (peerEntriesFromPB (pbPeerEntries entry)) (\<lambda>peers.
             Ok \<lparr>Signed = pbSigned p, Pqsigned = pbPqsigned p, Local = pbIsdAs entry, NextIA = pbNextIsdAs entry, hopEntry = hop,
                 PeerEntries = peers, MTU = uint (pbMtu entry), Extensions = extensionsFromPB (pbExtensions entry),
                 Unsigned = UnsignedExtensionsFromPB (wireText w) (pbUnsigned p)\<rparr>)))))"

fun entriesFromPB :: "'f wire \<Rightarrow> pb_ASEntry option list \<Rightarrow> 'f ASEntry list result" where
  "entriesFromPB w [] = Ok []"
| "entriesFromPB w (e # es) = bindR (wrapR ''parsing AS entry'' (ASEntryFromPB w e)) (\<lambda>a. mapR ((#) a) (entriesFromPB w es))"

definition segmentFromPB :: "'f wire \<Rightarrow> pb_PathSegment \<Rightarrow> 'f PathSegment result" where
  "segmentFromPB w pb =
     bindR (wrapR ''parsing segment info'' (infoFromRaw w (pbSegmentInfo pb))) (\<lambda>info.
     bindR (entriesFromPB w (pbAsEntries pb)) (\<lambda>es. Ok \<lparr>segInfo = info, ASEntries = es\<rparr>))"

section \<open>Validation\<close>

datatype ValidationMethod = ValidateSegment | ValidateBeacon

definition validateEntry :: "(bytes \<Rightarrow> bytes) \<Rightarrow> ValidationMethod \<Rightarrow> 'f ASEntry \<Rightarrow> 'f ASEntry option \<Rightarrow> unit result" where
  "validateEntry sha m e nxt =
     bindR (case nxt of
        Some n \<Rightarrow> if NextIA e \<noteq> Local n then Fail (Err ''next AS entry has inconsistent ISD-AS'') else Ok ()
      | None \<Rightarrow>
          (case m of
             ValidateBeacon \<Rightarrow>
               if IA_IsWildcard (NextIA e) then Fail (Err ''next ISD-AS of the last AS entry in a beacon must not be empty'')
               else if hfConsEgress (heHopField (hopEntry e)) = 0 then Fail (Err ''last hop in beacon with zero egress interface'')
               else Ok ()
           | ValidateSegment \<Rightarrow>
               if \<not> IA_IsZero (NextIA e) then Fail (Err ''next ISD-AS of last AS entry in a segment must be empty'')
               else if hfConsEgress (heHopField (hopEntry e)) \<noteq> 0 then Fail (Err ''last hop in segment with non-zero egress interface'')
               else Ok ())) (\<lambda>_.
     bindR (if \<exists>p \<in> set (PeerEntries e). hfConsEgress (peHopField p) \<noteq> hfConsEgress (heHopField (hopEntry e))
            then Fail (Err ''egress interface of peer entry does not match hop entry'') else Ok ()) (\<lambda>_.
     checkUnsignedExtensions sha (Unsigned e) (Extensions e)))"

fun validateEntries :: "(bytes \<Rightarrow> bytes) \<Rightarrow> ValidationMethod \<Rightarrow> 'f ASEntry list \<Rightarrow> unit result" where
  "validateEntries sha m [] = Ok ()"
| "validateEntries sha m (e # es) =
    bindR (validateEntry sha m e (case es of [] \<Rightarrow> None | n # _ \<Rightarrow> Some n)) (\<lambda>_. validateEntries sha m es)"

definition Validate :: "(bytes \<Rightarrow> bytes) \<Rightarrow> ValidationMethod \<Rightarrow> 'f PathSegment \<Rightarrow> unit result" where
  "Validate sha m ps =
    (case ASEntries ps of
       [] \<Rightarrow> Fail (Err ''no AS entries'')
     | e # _ \<Rightarrow>
         if hfConsIngress (heHopField (hopEntry e)) \<noteq> 0 then Fail (Err ''first hop with non-zero ingress interface'')
         else validateEntries sha m (ASEntries ps))"

definition SegmentFromPB :: "'f wire \<Rightarrow> (bytes \<Rightarrow> bytes) \<Rightarrow> pb_PathSegment \<Rightarrow> 'f PathSegment result" where
  "SegmentFromPB w sha pb = bindR (segmentFromPB w pb) (\<lambda>s. mapR (\<lambda>_. s) (Validate sha ValidateSegment s))"

definition BeaconFromPB :: "'f wire \<Rightarrow> (bytes \<Rightarrow> bytes) \<Rightarrow> pb_PathSegment \<Rightarrow> 'f PathSegment result" where
  "BeaconFromPB w sha pb = bindR (segmentFromPB w pb) (\<lambda>s. mapR (\<lambda>_. s) (Validate sha ValidateBeacon s))"

section \<open>Identifiers and expiry\<close>

definition hash_input :: "bool \<Rightarrow> 'f PathSegment \<Rightarrow> bytes" where
  "hash_input hopOnly ps = concat (map (\<lambda>e.
     put_u64 (Local e) @ put_u16 (hfConsIngress (heHopField (hopEntry e))) @ put_u16 (hfConsEgress (heHopField (hopEntry e)))
     @ (if hopOnly then [] else concat (map (\<lambda>p. put_u64 (pePeer p) @ put_u16 (hfConsIngress (peHopField p)) @ put_u16 (hfConsEgress (peHopField p)))
          (PeerEntries e)))) (ASEntries ps))"

definition calculateHash :: "(bytes \<Rightarrow> bytes) \<Rightarrow> bool \<Rightarrow> 'f PathSegment \<Rightarrow> bytes" where
  "calculateHash sha hopOnly ps = sha (hash_input hopOnly ps)"

definition seg_ID :: "(bytes \<Rightarrow> bytes) \<Rightarrow> 'f PathSegment \<Rightarrow> bytes" where "seg_ID sha ps = calculateHash sha True ps"

definition FullID :: "(bytes \<Rightarrow> bytes) \<Rightarrow> 'f PathSegment \<Rightarrow> bytes" where "FullID sha ps = calculateHash sha False ps"

text \<open>The loop of \<^verbatim>\<open>expiry\<close>: the hop entry and then the peer entries of each AS entry.\<close>

definition entryHops :: "'f ASEntry \<Rightarrow> seg_HopField list" where
  "entryHops e = heHopField (hopEntry e) # map peHopField (PeerEntries e)"

definition expiry :: "int \<Rightarrow> (int \<Rightarrow> int \<Rightarrow> bool) \<Rightarrow> 'f PathSegment \<Rightarrow> int" where
  "expiry initTTL cmp ps =
     infoTimestamp (segInfo ps) + foldl (\<lambda>ttl h. let t = ExpTimeToDuration (hfExpTime h) in if cmp t ttl then t else ttl)
       initTTL (concat (map entryHops (ASEntries ps)))"

definition MaxExpiry :: "'f PathSegment \<Rightarrow> int" where "MaxExpiry = expiry 0 (\<lambda>hf ttl. hf > ttl)"

definition MinExpiry :: "'f PathSegment \<Rightarrow> int" where "MinExpiry = expiry MaxTTL (\<lambda>hf ttl. hf < ttl)"

definition FirstIA :: "'f PathSegment \<Rightarrow> IA result" where
  "FirstIA ps = (case ASEntries ps of [] \<Rightarrow> Panic | e # _ \<Rightarrow> Ok (Local e))"

definition LastIA :: "'f PathSegment \<Rightarrow> IA result" where
  "LastIA ps = (if ASEntries ps = [] then Panic else Ok (Local (last (ASEntries ps))))"

definition MaxIdx :: "'f PathSegment \<Rightarrow> int" where "MaxIdx ps = int (length (ASEntries ps)) - 1"

definition validateIdx :: "'f PathSegment \<Rightarrow> int \<Rightarrow> unit result" where
  "validateIdx ps idx = (if idx < 0 \<or> idx > MaxIdx ps then Fail (Err ''index is out of range'') else Ok ())"

section \<open>Signatures\<close>

text \<open>\<open>Signed\<close> of an earlier entry is dereferenced.\<close>

definition associatedData :: "'f PathSegment \<Rightarrow> nat \<Rightarrow> bytes list result" where
  "associatedData ps idx =
    (if \<exists>e \<in> set (take idx (ASEntries ps)). Signed e = None then Panic
     else Ok (infoRaw (segInfo ps) # concat (map (\<lambda>e. [HeaderAndBody (the (Signed e)), Signature (the (Signed e))]) (take idx (ASEntries ps)))))"

definition hopFieldToPB :: "seg_HopField \<Rightarrow> pb_HopField" where
  "hopFieldToPB h = \<lparr>pbExpTime = ucast (hfExpTime h), pbIngress = ucast (hfConsIngress h), pbEgress = ucast (hfConsEgress h), pbMac = hfMAC h\<rparr>"

definition bodyToPB :: "'f ASEntry \<Rightarrow> 'f pb_SignedBody" where
  "bodyToPB e =
    \<lparr>pbIsdAs = Local e, pbNextIsdAs = NextIA e, pbMtu = word_of_int (MTU e),
     pbHopEntry = Some \<lparr>pbIngressMtu = word_of_int (heIngressMTU (hopEntry e)), pbHopField = Some (hopFieldToPB (heHopField (hopEntry e)))\<rparr>,
     pbPeerEntries = map (\<lambda>p. Some \<lparr>pbPeerIsdAs = pePeer p, pbPeerInterface = ucast (pePeerInterface p), pbPeerMtu = word_of_int (pePeerMTU p),
       pbPeerHopField = Some (hopFieldToPB (peHopField p))\<rparr>) (PeerEntries e),
     pbExtensions = extensionsToPB (Extensions e)\<rparr>"

record segSigner =
  Sign :: "bytes \<Rightarrow> bytes list \<Rightarrow> SignedMessage result"
  SignPQ :: "bytes \<Rightarrow> bytes list \<Rightarrow> SignedMessage result"
  sgNotBefore :: int
  sgNotAfter :: int

text \<open>The error of \<^verbatim>\<open>SignPQ\<close> is not looked at; the entry then has no second signature.\<close>

definition AddASEntry :: "'f wire \<Rightarrow> segSigner \<Rightarrow> 'f PathSegment \<Rightarrow> 'f ASEntry \<Rightarrow> 'f PathSegment result" where
  "AddASEntry w signer ps e =
     bindR (wrapR ''packing AS entry'' (marshalBody w (bodyToPB e))) (\<lambda>raw.
     bindR (associatedData ps (length (ASEntries ps))) (\<lambda>ad.
     bindR (wrapR ''signing AS entry'' (Sign signer raw ad)) (\<lambda>signed.
     bindR (wrapR ''packing signed message'' (marshalSigned w signed)) (\<lambda>rawSigned.
     case SignPQ signer [] [rawSigned] of
       Panic \<Rightarrow> Panic
     | r \<Rightarrow> Ok (ps\<lparr>ASEntries := ASEntries ps @ [e\<lparr>Signed := Some signed, Pqsigned := (case r of Ok m \<Rightarrow> Some m | _ \<Rightarrow> None)\<rparr>]\<rparr>)))))"

definition VerifyASEntry :: "'f wire \<Rightarrow> (SignedMessage option \<Rightarrow> bytes list \<Rightarrow> unit result) \<Rightarrow> 'f PathSegment \<Rightarrow> int \<Rightarrow> unit result" where
  "VerifyASEntry w verify ps idx =
     bindR (validateIdx ps idx) (\<lambda>_.
     let e = ASEntries ps ! nat idx in
     bindR (associatedData ps (nat idx)) (\<lambda>ad.
     bindR (verify (Signed e) ad) (\<lambda>_.
     case Pqsigned e of
       None \<Rightarrow> Ok ()
     | Some pq \<Rightarrow>
         (case Signed e of
            None \<Rightarrow> verify (Some pq) [[]]
          | Some s \<Rightarrow> bindR (wrapR ''packing signed message'' (marshalSigned w s)) (\<lambda>raw. verify (Some pq) [raw])))))"

fun verifyFrom :: "'f wire \<Rightarrow> (SignedMessage option \<Rightarrow> bytes list \<Rightarrow> unit result) \<Rightarrow> 'f PathSegment \<Rightarrow> nat list \<Rightarrow> unit result" where
  "verifyFrom w verify ps [] = Ok ()"
| "verifyFrom w verify ps (i # js) = bindR (wrapR ''verifying AS entry'' (VerifyASEntry w verify ps (int i))) (\<lambda>_. verifyFrom w verify ps js)"

definition seg_Verify :: "'f wire \<Rightarrow> (SignedMessage option \<Rightarrow> bytes list \<Rightarrow> unit result) \<Rightarrow> 'f PathSegment \<Rightarrow> unit result" where
  "seg_Verify w verify ps = verifyFrom w verify ps [0..<length (ASEntries ps)]"

definition PathSegmentToPB :: "'f wire \<Rightarrow> 'f PathSegment \<Rightarrow> pb_PathSegment" where
  "PathSegmentToPB w ps = \<lparr>pbSegmentInfo = infoRaw (segInfo ps),
     pbAsEntries = map (\<lambda>e. Some \<lparr>pbSigned = Signed e, pbUnsigned = Some (UnsignedExtensionsToPB (wireText w) (Unsigned e)), pbPqsigned = Pqsigned e\<rparr>) (ASEntries ps)\<rparr>"

end
