(* ===== verification/Certs.thy ===== *)
theory Certs
  imports Addr
begin

text \<open>
  SCION certificates (\<^verbatim>\<open>pkg/scrypto/cppki/certs.go\<close>, \<^verbatim>\<open>name.go\<close>, \<^verbatim>\<open>validity.go\<close>): their types, the rules a certificate of each type
  obeys, and certificate chains. A parsed X.509 certificate is a record of the fields that are used, with the address of the
  object, \<open>cPtr\<close>; the standard library's verification of a chain is a parameter.
\<close>

unbundle bit_operations_syntax

section \<open>Validity\<close>

type_synonym Validity = "int \<times> int"

definition Validity_Contains :: "Validity \<Rightarrow> int \<Rightarrow> bool" where
  "Validity_Contains v t \<longleftrightarrow> \<not> t < fst v \<and> \<not> t > snd v"

definition Validity_Covers :: "Validity \<Rightarrow> Validity \<Rightarrow> bool" where
  "Validity_Covers v oth \<longleftrightarrow> \<not> fst oth < fst v \<and> \<not> snd oth > snd v"

definition ErrInvalidValidityPeriod :: go_error where
  "ErrInvalidValidityPeriod = Err ''NotAfter before NotBefore''"

definition Validity_Validate :: "Validity \<Rightarrow> unit result" where
  "Validity_Validate v = (if \<not> snd v > fst v then Fail ErrInvalidValidityPeriod else Ok ())"

section \<open>Distinguished names\<close>

type_synonym oid = "int list"

text \<open>The value of an attribute is of any type; a string is told apart.\<close>

datatype attrValue = AttrString string | AttrOther nat

type_synonym attrTV = "oid \<times> attrValue"

text \<open>A name, with what \<^verbatim>\<open>ToRDNSequence\<close> and the string of that return.\<close>

record pkix_Name =
  Names :: "attrTV list"
  rdnSeq :: "attrTV list list"
  rdnText :: string

definition rdnSETSubset :: "attrTV list \<Rightarrow> attrTV list \<Rightarrow> bool" where
  "rdnSETSubset s t \<longleftrightarrow> (\<forall>a \<in> set s. \<exists>b \<in> set t. a = b)"

definition equalRDNSET :: "attrTV list \<Rightarrow> attrTV list \<Rightarrow> bool" where
  "equalRDNSET s t \<longleftrightarrow> rdnSETSubset s t \<and> rdnSETSubset t s"

fun equalRDNSequence :: "attrTV list list \<Rightarrow> attrTV list list \<Rightarrow> bool" where
  "equalRDNSequence [] [] = True"
| "equalRDNSequence (s # ss) (t # ts) = (length s = length t \<and> equalRDNSET s t \<and> equalRDNSequence ss ts)"
| "equalRDNSequence _ _ = False"

definition equalName :: "pkix_Name \<Rightarrow> pkix_Name \<Rightarrow> bool" where
  "equalName n m \<longleftrightarrow> rdnText n = rdnText m \<and> equalRDNSequence (rdnSeq n) (rdnSeq m)"

section \<open>Certificates\<close>

datatype SignatureAlgorithm = UnknownSignatureAlgorithm | MD5WithRSA | SHA1WithRSA | SHA256WithRSA | SHA384WithRSA | SHA512WithRSA | DSAWithSHA1
  | ECDSAWithSHA1 | ECDSAWithSHA256 | ECDSAWithSHA384 | ECDSAWithSHA512 | PureMLDSA44 | OtherSignature nat

datatype PublicKeyAlgorithm = ECDSA | OtherKey nat

datatype ExtKeyUsage = ExtKeyUsageServerAuth | ExtKeyUsageClientAuth | ExtKeyUsageTimeStamping | OtherUsage nat

record x509_Extension =
  extId :: oid
  extCritical :: bool
  extValue :: bytes

record Certificate =
  cPtr :: nat
  cRaw :: bytes
  RawIssuer :: bytes
  cVersion :: int
  SerialNumber :: "int option"
  cSignatureAlgorithm :: SignatureAlgorithm
  cPublicKeyAlgorithm :: PublicKeyAlgorithm
  Issuer :: pkix_Name
  Subject :: pkix_Name
  NotBefore :: int
  NotAfter :: int
  KeyUsage :: u64
  cExtensions :: "x509_Extension list"
  ExtKeyUsages :: "ExtKeyUsage list"
  UnknownExtKeyUsage :: "oid list"
  BasicConstraintsValid :: bool
  IsCA :: bool
  MaxPathLen :: int
  SubjectKeyId :: bytes
  AuthorityKeyId :: bytes

definition KeyUsageDigitalSignature :: u64 where "KeyUsageDigitalSignature = 1"
definition KeyUsageCertSign :: u64 where "KeyUsageCertSign = 32"

definition CertVersion :: int where "CertVersion = 3"
definition OIDExtKeyUsageSensitive :: oid where "OIDExtKeyUsageSensitive = [1, 3, 6, 1, 4, 1, 55324, 1, 3, 1]"
definition OIDExtKeyUsageRegular :: oid where "OIDExtKeyUsageRegular = [1, 3, 6, 1, 4, 1, 55324, 1, 3, 2]"
definition OIDExtKeyUsageRoot :: oid where "OIDExtKeyUsageRoot = [1, 3, 6, 1, 4, 1, 55324, 1, 3, 3]"
definition OIDNameIA :: oid where "OIDNameIA = [1, 3, 6, 1, 4, 1, 55324, 1, 2, 1]"
definition OIDExtensionSubjectKeyID :: oid where "OIDExtensionSubjectKeyID = [2, 5, 29, 14]"
definition OIDExtensionBasicConstraints :: oid where "OIDExtensionBasicConstraints = [2, 5, 29, 19]"
definition OIDExtensionAuthorityKeyID :: oid where "OIDExtensionAuthorityKeyID = [2, 5, 29, 35]"

definition ValidSCIONSignatureAlgs :: "SignatureAlgorithm list" where
  "ValidSCIONSignatureAlgs = [ECDSAWithSHA256, ECDSAWithSHA384, ECDSAWithSHA512, PureMLDSA44]"

datatype CertType = InvalidCert | Sensitive | Regular | Root | CA | ASCert

text \<open>\<^verbatim>\<open>serrors.List\<close>: all checks are made, the result is an error if one of them failed. The error is that of the first failed check.\<close>

primrec errList :: "unit result list \<Rightarrow> unit result" where
  "errList [] = Ok ()"
| "errList (c # cs) = (case c of Ok _ \<Rightarrow> errList cs | Panic \<Rightarrow> Panic | Fail e \<Rightarrow> (case errList cs of Panic \<Rightarrow> Panic | _ \<Rightarrow> Fail e))"

definition check :: "bool \<Rightarrow> string \<Rightarrow> unit result" where
  "check bad msg = (if bad then Fail (Err msg) else Ok ())"

definition errIANotFound :: go_error where "errIANotFound = Err ''ISD-AS not found''"

primrec findIA_loop :: "attrTV list \<Rightarrow> IA option result" where
  "findIA_loop [] = Ok None"
| "findIA_loop (n # ns) =
    (if fst n \<noteq> OIDNameIA then findIA_loop ns
     else case snd n of
       AttrOther _ \<Rightarrow> Fail (Err ''invalid ISD-AS value (not string)'')
     | AttrString rawIA \<Rightarrow>
         bindR (wrapR ''invalid ISD-AS value'' (ParseIA rawIA)) (\<lambda>ia.
         if IA_IsWildcard ia then Fail (Err ''wildcard ISD-AS not allowed'')
         else if IA_String ia \<noteq> rawIA then Fail (Err ''ISD-AS not in canonical form'')
         else Ok (Some ia)))"

definition findIA :: "pkix_Name \<Rightarrow> IA option result" where
  "findIA dn = findIA_loop (Names dn)"

definition ExtractIA :: "pkix_Name \<Rightarrow> IA result" where
  "ExtractIA dn = bindR (findIA dn) (\<lambda>ia. case ia of None \<Rightarrow> Fail errIANotFound | Some ia \<Rightarrow> Ok ia)"

definition discard :: "'a result \<Rightarrow> unit result" where
  "discard r = mapR (\<lambda>_. ()) r"

definition subjectAndIssuerIASet :: "Certificate \<Rightarrow> unit result" where
  "subjectAndIssuerIASet c = errList [discard (ExtractIA (Issuer c)), discard (ExtractIA (Subject c))]"

definition oidInExtensions :: "oid \<Rightarrow> x509_Extension list \<Rightarrow> x509_Extension option" where
  "oidInExtensions i es = find (\<lambda>e. extId e = i) es"

definition validateSignatureAlg :: "Certificate \<Rightarrow> unit result" where
  "validateSignatureAlg c = check (cSignatureAlgorithm c \<notin> set ValidSCIONSignatureAlgs) ''invalid signature algorithm used''"

definition containsOID :: "oid list \<Rightarrow> oid \<Rightarrow> bool" where
  "containsOID oids i \<longleftrightarrow> i \<in> set oids"

definition critical :: "oid \<Rightarrow> Certificate \<Rightarrow> bool option" where
  "critical i c = map_option extCritical (oidInExtensions i (cExtensions c))"

definition generalValidation :: "Certificate \<Rightarrow> unit result" where
  "generalValidation c = errList [
     check (cVersion c \<noteq> CertVersion) ''invalid cert version'',
     check (SerialNumber c = None) ''missing serial number'',
     validateSignatureAlg c,
     check (SubjectKeyId c = []) ''subjectKeyID is missing'',
     check (critical OIDExtensionSubjectKeyID c = Some True) ''subjectKeyID is marked as critical'',
     check (critical OIDExtensionAuthorityKeyID c = Some True) ''authKeyId is marked as critical'']"

definition commonCAValidation :: "Certificate \<Rightarrow> int \<Rightarrow> unit result" where
  "commonCAValidation c pathLen = errList [
     check (KeyUsage c AND KeyUsageCertSign = 0) ''key usage CertSign not set'',
     check (KeyUsage c AND KeyUsageDigitalSignature \<noteq> 0) ''key usage DigitalSign set'',
     check (ExtKeyUsageClientAuth \<in> set (ExtKeyUsages c)) ''cannot have id-kp-clientAuth as ExtKeyUsage'',
     check (ExtKeyUsageServerAuth \<in> set (ExtKeyUsages c)) ''cannot have id-kp-serverAuth as ExtKeyUsage'',
     check (critical OIDExtensionBasicConstraints c = Some False) ''basic constraints not critical'',
     check (\<not> BasicConstraintsValid c \<or> \<not> IsCA c \<or> MaxPathLen c \<noteq> pathLen) ''basic constraints not valid'',
     subjectAndIssuerIASet c]"

definition commonVotingValidation :: "Certificate \<Rightarrow> unit result" where
  "commonVotingValidation c = errList [
     check (AuthorityKeyId c \<noteq> [] \<and> AuthorityKeyId c \<noteq> SubjectKeyId c) ''authorityKeyId is set but does not match subjectKeyID'',
     check (KeyUsage c AND KeyUsageCertSign \<noteq> 0) ''key usage CertSign is set'',
     check (KeyUsage c AND KeyUsageDigitalSignature \<noteq> 0) ''key usage DigitalSignature set'',
     check (ExtKeyUsageTimeStamping \<notin> set (ExtKeyUsages c)) ''id-kp-timeStamping not set'',
     check (ExtKeyUsageClientAuth \<in> set (ExtKeyUsages c)) ''id-kp-clientAuth is set'',
     check (ExtKeyUsageServerAuth \<in> set (ExtKeyUsages c)) ''id-kp-serverAuth is set'',
     check (BasicConstraintsValid c \<and> IsCA c) ''basic constraints exists and CA is true'',
     discard (findIA (Issuer c)), discard (findIA (Subject c))]"

definition validateRoot :: "Certificate \<Rightarrow> unit result" where
  "validateRoot c = errList [generalValidation c, commonCAValidation c 1,
     check (AuthorityKeyId c \<noteq> [] \<and> AuthorityKeyId c \<noteq> SubjectKeyId c) ''authorityKeyId is set but does not match subjectKeyID'',
     check (\<not> containsOID (UnknownExtKeyUsage c) OIDExtKeyUsageRoot) ''key usage id-kp-root not set'']"

definition validateCA :: "Certificate \<Rightarrow> unit result" where
  "validateCA c = errList [generalValidation c, commonCAValidation c 0, check (AuthorityKeyId c = []) ''authorityKeyId must be present'']"

definition validateAS :: "Certificate \<Rightarrow> unit result" where
  "validateAS c = errList [generalValidation c,
     check (KeyUsage c AND KeyUsageCertSign \<noteq> 0) ''key usage CertSign is set'',
     check (KeyUsage c AND KeyUsageDigitalSignature = 0) ''key usage DigitalSign not set'',
     check (BasicConstraintsValid c \<and> IsCA c) ''basic constraints extension has CA set'',
     subjectAndIssuerIASet c,
     check (AuthorityKeyId c = []) ''authorityKeyId must be present'',
     check (ExtKeyUsageTimeStamping \<notin> set (ExtKeyUsages c)) ''id-kp-timeStamping not set'']"

definition validateSensitiveCert :: "Certificate \<Rightarrow> unit result" where
  "validateSensitiveCert c = errList [generalValidation c, commonVotingValidation c,
     check (\<not> containsOID (UnknownExtKeyUsage c) OIDExtKeyUsageSensitive) ''no id-kp-sensitive'',
     check (containsOID (UnknownExtKeyUsage c) OIDExtKeyUsageRegular) ''both id-kp-sensitive id-kp-regular not allowed'']"

definition validateRegularCert :: "Certificate \<Rightarrow> unit result" where
  "validateRegularCert c = errList [generalValidation c, commonVotingValidation c,
     check (\<not> containsOID (UnknownExtKeyUsage c) OIDExtKeyUsageRegular) ''no id-kp-regular'',
     check (containsOID (UnknownExtKeyUsage c) OIDExtKeyUsageSensitive) ''both id-kp-sensitive id-kp-regular not allowed'']"

fun classifyUsage :: "oid list \<Rightarrow> CertType option" where
  "classifyUsage [] = None"
| "classifyUsage (u # us) =
    (if u = OIDExtKeyUsageSensitive then Some Sensitive
     else if u = OIDExtKeyUsageRegular then Some Regular
     else if u = OIDExtKeyUsageRoot then Some Root
     else classifyUsage us)"

definition classifyCert :: "Certificate option \<Rightarrow> CertType result" where
  "classifyCert c = (case c of
     None \<Rightarrow> Fail (Err ''nil cert can't be classified'')
   | Some c \<Rightarrow>
       (case classifyUsage (UnknownExtKeyUsage c) of
          Some t \<Rightarrow> Ok t
        | None \<Rightarrow>
            if KeyUsage c AND KeyUsageCertSign > 0 then Ok CA
            else if KeyUsage c AND KeyUsageDigitalSignature > 0 \<and> KeyUsage c AND KeyUsageCertSign = 0 then Ok ASCert
            else Fail (Err ''not able to classify cert'')))"

definition ErrInvalidCertType :: go_error where "ErrInvalidCertType = Err ''invalid certificate type''"

definition ValidateCert :: "Certificate \<Rightarrow> CertType result" where
  "ValidateCert c = bindR (classifyCert (Some c)) (\<lambda>ct. mapR (\<lambda>_. ct)
     (case ct of
        Sensitive \<Rightarrow> validateSensitiveCert c
      | Regular \<Rightarrow> validateRegularCert c
      | Root \<Rightarrow> validateRoot c
      | CA \<Rightarrow> validateCA c
      | ASCert \<Rightarrow> validateAS c
      | InvalidCert \<Rightarrow> Fail ErrInvalidCertType))"

definition ValidateChain :: "Certificate list \<Rightarrow> unit result" where
  "ValidateChain certs =
    (if length certs \<noteq> 2 then Fail (Err ''chain must contain two certificates'')
     else
       let as = certs ! 0; ca = certs ! 1 in
       bindR (wrapR ''validating first certificate'' (ValidateCert as)) (\<lambda>fst_type.
       if fst_type \<noteq> ASCert then Fail (Err ''first certificate of invalid type'')
       else bindR (wrapR ''validating second certificate'' (ValidateCert ca)) (\<lambda>snd_type.
       if snd_type \<noteq> CA then Fail (Err ''second certificate of invalid type'')
       else if \<not> Validity_Covers (NotBefore ca, NotAfter ca) (NotBefore as, NotAfter as) then Fail (Err ''CA validity period does not cover AS period'')
       else Ok ())))"

end
