(* ===== verification/Extender.thy ===== *)
theory Extender
  imports Segment Certs
begin

text \<open>
  Extension of path segments during beaconing (\<^verbatim>\<open>control/beaconing/extender.go\<close>), the interface state it consults
  (\<^verbatim>\<open>control/ifstate\<close>) and the choice of the signer (\<^verbatim>\<open>private/trust/signer.go\<close>). The hash of the AS key, the signers, and the generator of the
  static information are parts of the extender.
\<close>

unbundle bit_operations_syntax

section \<open>Interface state\<close>

datatype ifLinkType = ifCore | ifParent | ifChild | ifPeer | ifUnset

record InterfaceInfo =
  ifID :: u16
  ifIA :: IA
  ifLink :: ifLinkType
  ifRemoteID :: u16
  ifMTU :: u16

record ifInterface =
  topoInfo :: InterfaceInfo
  lastOriginate :: "int option"
  lastPropagate :: "int option"

type_synonym Interfaces = "(u16, ifInterface) gomap"

definition updateTopoInfo :: "InterfaceInfo \<Rightarrow> ifInterface \<Rightarrow> ifInterface" where
  "updateTopoInfo info i = i\<lparr>topoInfo := info\<lparr>ifRemoteID := ifRemoteID (topoInfo i)\<rparr>\<rparr>"

definition Interfaces_Update :: "(u16, InterfaceInfo) gomap \<Rightarrow> Interfaces \<Rightarrow> Interfaces" where
  "Interfaces_Update infos intfs = map (\<lambda>(k, info). (k, case map_of intfs k of
       Some i \<Rightarrow> updateTopoInfo info i
     | None \<Rightarrow> \<lparr>topoInfo = info, lastOriginate = None, lastPropagate = None\<rparr>)) infos"

definition NewInterfaces :: "(u16, InterfaceInfo) gomap \<Rightarrow> Interfaces" where
  "NewInterfaces infos = Interfaces_Update infos []"

definition Interfaces_Filtered :: "(ifInterface \<Rightarrow> bool) \<Rightarrow> Interfaces \<Rightarrow> ifInterface list" where
  "Interfaces_Filtered flt intfs = filter flt (map snd intfs)"

definition Interface_reset :: "ifInterface \<Rightarrow> ifInterface" where
  "Interface_reset i = i\<lparr>lastOriginate := None, lastPropagate := None\<rparr>"

definition Interfaces_Reset :: "Interfaces \<Rightarrow> Interfaces" where
  "Interfaces_Reset = map (\<lambda>(k, i). (k, Interface_reset i))"

definition Interfaces_Get :: "Interfaces \<Rightarrow> u16 \<Rightarrow> ifInterface option" where
  "Interfaces_Get = map_of"

definition Originate :: "u16 \<Rightarrow> int \<Rightarrow> Interfaces \<Rightarrow> Interfaces" where
  "Originate k now = map (\<lambda>(j, i). (j, if j = k then i\<lparr>lastOriginate := Some now\<rparr> else i))"

definition Propagate :: "u16 \<Rightarrow> int \<Rightarrow> Interfaces \<Rightarrow> Interfaces" where
  "Propagate k now = map (\<lambda>(j, i). (j, if j = k then i\<lparr>lastPropagate := Some now\<rparr> else i))"

section \<open>The signer\<close>

definition LastExpiring :: "segSigner list \<Rightarrow> int \<Rightarrow> int \<Rightarrow> segSigner result" where
  "LastExpiring signers notBefore notAfter =
    (case filter (\<lambda>s. Validity_Covers (sgNotBefore s, sgNotAfter s) (notBefore, notAfter)) signers of
       [] \<Rightarrow> Fail (Err ''no signer covers the given validity'')
     | c # cs \<Rightarrow> Ok (foldl (\<lambda>latest s. if sgNotAfter s > sgNotAfter latest then s else latest) c cs))"

section \<open>The extender\<close>

record 'f DefaultExtender =
  exIA :: IA
  SignerGen :: "segSigner list result"
  exMAC :: "bytes \<Rightarrow> bytes"
  Intfs :: Interfaces
  exMTU :: u16
  MaxExpTime :: u8
  exStaticInfo :: "(Interfaces \<Rightarrow> u16 \<Rightarrow> u16 \<Rightarrow> 'f static_Extension option) option"
  exEPIC :: bool
  exFabrid :: "fabrid_Detached option"

definition remoteIA :: "'f DefaultExtender \<Rightarrow> u16 \<Rightarrow> IA result" where
  "remoteIA s i =
    (if i = 0 then Ok 0
     else case Interfaces_Get (Intfs s) i of
       None \<Rightarrow> Fail (Err ''interface not found'')
     | Some f \<Rightarrow> if IA_IsWildcard (ifIA (topoInfo f)) then Fail (Err ''remote is wildcard'') else Ok (ifIA (topoInfo f)))"

definition remoteMTU :: "'f DefaultExtender \<Rightarrow> u16 \<Rightarrow> u16 result" where
  "remoteMTU s i =
    (if i = 0 then Ok 0
     else case Interfaces_Get (Intfs s) i of None \<Rightarrow> Fail (Err ''interface not found'') | Some f \<Rightarrow> Ok (ifMTU (topoInfo f)))"

definition remoteInfo :: "'f DefaultExtender \<Rightarrow> u16 \<Rightarrow> (IA \<times> u16 \<times> u16) result" where
  "remoteInfo s i =
    (if i = 0 then Ok (0, 0, 0)
     else case Interfaces_Get (Intfs s) i of
       None \<Rightarrow> Fail (Err ''interface not found'')
     | Some f \<Rightarrow>
         if ifRemoteID (topoInfo f) = 0 then Fail (Err ''remote interface ID is not set'')
         else if IA_IsWildcard (ifIA (topoInfo f)) then Fail (Err ''remote ISD-AS is wildcard'')
         else Ok (ifIA (topoInfo f), ifRemoteID (topoInfo f), ifMTU (topoInfo f)))"

definition createHopF :: "'f DefaultExtender \<Rightarrow> u16 \<Rightarrow> u16 \<Rightarrow> u8 \<Rightarrow> int \<Rightarrow> u16 \<Rightarrow> seg_HopField \<times> bytes" where
  "createHopF s ingress egress expTime ts beta =
    (let fullMAC = exMAC s (MACInput beta (TimeToSecs ts) expTime ingress egress (replicate MACBufferSize 0)) in
     (\<lparr>hfExpTime = expTime, hfConsIngress = ingress, hfConsEgress = egress, hfMAC = take MacLen fullMAC\<rparr>, drop MacLen fullMAC))"

definition extractBeta :: "'f PathSegment \<Rightarrow> u16" where
  "extractBeta ps = foldl (\<lambda>beta e. beta XOR be_u16 (take 2 (hfMAC (heHopField (hopEntry e))))) (SegmentID (segInfo ps)) (ASEntries ps)"

definition createHopEntry :: "'f DefaultExtender \<Rightarrow> u16 \<Rightarrow> u16 \<Rightarrow> u8 \<Rightarrow> int \<Rightarrow> u16 \<Rightarrow> (HopEntry \<times> bytes) result" where
  "createHopEntry s ingress egress expTime ts beta =
     bindR (wrapR ''checking remote ingress interface (mtu)'' (remoteMTU s ingress)) (\<lambda>mtu.
     case createHopF s ingress egress expTime ts beta of (hopF, epicMac) \<Rightarrow>
       Ok (\<lparr>heHopField = hopF, heIngressMTU = uint mtu\<rparr>, epicMac))"

definition createPeerEntry :: "'f DefaultExtender \<Rightarrow> u16 \<Rightarrow> u16 \<Rightarrow> u8 \<Rightarrow> int \<Rightarrow> u16 \<Rightarrow> (PeerEntry \<times> bytes) result" where
  "createPeerEntry s ingress egress expTime ts beta =
     bindR (wrapR ''checking remote ingress interface'' (remoteInfo s ingress)) (\<lambda>(ia, rid, mtu).
     case createHopF s ingress egress expTime ts beta of (hopF, epicMac) \<Rightarrow>
       Ok (\<lparr>peHopField = hopF, pePeer = ia, pePeerInterface = rid, pePeerMTU = uint mtu\<rparr>, epicMac))"

text \<open>A peer that fails is left out.\<close>

definition createPeerEntries :: "'f DefaultExtender \<Rightarrow> u16 \<Rightarrow> u16 list \<Rightarrow> u8 \<Rightarrow> int \<Rightarrow> u16 \<Rightarrow> PeerEntry list \<times> bytes list" where
  "createPeerEntries s egress peers expTime ts beta =
    (let es = List.map_filter (\<lambda>p. case createPeerEntry s p egress expTime ts beta of Ok e \<Rightarrow> Some e | _ \<Rightarrow> None) peers in
     (map fst es, map snd es))"

definition addExtensions :: "(bytes \<Rightarrow> bytes) \<Rightarrow> 'f DefaultExtender \<Rightarrow> u16 \<Rightarrow> u16 \<Rightarrow> bytes \<Rightarrow> bytes list
  \<Rightarrow> ('f seg_Extensions \<times> UnsignedExtensions) result" where
  "addExtensions sha s ingress egress epicHop epicPeers =
    (let static = (case exStaticInfo s of None \<Rightarrow> None | Some gen \<Rightarrow> gen (Intfs s) ingress egress);
         ed = \<lparr>AuthHopEntry = epicHop, AuthPeerEntries = epicPeers\<rparr> in
     bindR (if exEPIC s then mapR (\<lambda>input. Some (calculateDigest sha input)) (DigestInput ed) else Ok None) (\<lambda>epicD.
     let fabridD = map_option (fabrid_Hash sha) (exFabrid s) in
     Ok (\<lparr>IsHidden = False, StaticInfo = static,
          Digests = (if epicD = None \<and> fabridD = None then None
                     else Some \<lparr>dxEpic = (case epicD of None \<Rightarrow> [] | Some d \<Rightarrow> d), dxFabrid = (case fabridD of None \<Rightarrow> [] | Some d \<Rightarrow> d)\<rparr>)\<rparr>,
         \<lparr>EpicDetached = (if exEPIC s then Some ed else None), FabridDetached = exFabrid s\<rparr>)))"

definition hopExpTime :: "'f DefaultExtender \<Rightarrow> segSigner \<Rightarrow> int \<Rightarrow> u8 result" where
  "hopExpTime s signer ts =
    (if ts + ExpTimeToDuration (MaxExpTime s) > sgNotAfter signer
     then wrapR ''calculating expiry time from signer expiration time'' (ExpTimeFromDuration (sgNotAfter signer - ts))
     else Ok (MaxExpTime s))"

text \<open>The entry that \<^verbatim>\<open>Extend\<close> adds, and the signer it uses; \<open>now\<close> is the time of the call.\<close>

definition newEntry :: "(bytes \<Rightarrow> bytes) \<Rightarrow> int \<Rightarrow> 'f DefaultExtender \<Rightarrow> 'f PathSegment \<Rightarrow> u16 \<Rightarrow> u16 \<Rightarrow> u16 list
  \<Rightarrow> ('f ASEntry \<times> segSigner) result" where
  "newEntry sha now s ps ingress egress peers =
    (if exMTU s = 0 then Fail (Err ''MTU not set'')
     else if ingress = 0 \<and> \<not> MaxIdx ps < 0 then Fail (Err ''ingress must only be zero in first hop'')
     else if ingress \<noteq> 0 \<and> MaxIdx ps < 0 then Fail (Err ''ingress must be zero in first hop'')
     else if ingress = 0 \<and> egress = 0 then Fail (Err ''ingress and egress must not be both 0'')
     else
       let ts = infoTimestamp (segInfo ps) in
       bindR (wrapR ''getting signer'' (SignerGen s)) (\<lambda>signers.
       bindR (wrapR ''selecting signer'' (LastExpiring signers ts now)) (\<lambda>signer.
       bindR (hopExpTime s signer ts) (\<lambda>expTime.
       let hopBeta = extractBeta ps in
       bindR (wrapR ''creating hop entry'' (createHopEntry s ingress egress expTime ts hopBeta)) (\<lambda>(hop, epicHop).
       let peerBeta = hopBeta XOR be_u16 (take 2 (hfMAC (heHopField hop)));
           (peerEs, epicPeers) = createPeerEntries s egress peers expTime ts peerBeta in
       bindR (remoteIA s egress) (\<lambda>next.
       bindR (addExtensions sha s ingress egress epicHop epicPeers) (\<lambda>(ext, uns).
       Ok (\<lparr>Signed = None, Pqsigned = None, Local = exIA s, NextIA = next, hopEntry = hop, PeerEntries = peerEs, MTU = uint (exMTU s),
            Extensions = ext, Unsigned = uns\<rparr>, signer))))))))"

text \<open>The segment is extended before it is validated.\<close>

definition Extend :: "'f wire \<Rightarrow> (bytes \<Rightarrow> bytes) \<Rightarrow> int \<Rightarrow> 'f DefaultExtender \<Rightarrow> 'f PathSegment \<Rightarrow> u16 \<Rightarrow> u16 \<Rightarrow> u16 list
  \<Rightarrow> 'f PathSegment \<times> unit result" where
  "Extend w sha now s ps ingress egress peers =
    (case bindR (newEntry sha now s ps ingress egress peers) (\<lambda>(e, signer). AddASEntry w signer ps e) of
       Ok ps' \<Rightarrow> (ps', Validate sha (if egress = 0 then ValidateSegment else ValidateBeacon) ps')
     | Fail e \<Rightarrow> (ps, Fail e)
     | Panic \<Rightarrow> (ps, Panic))"

section \<open>Chained segments\<close>

definition hop_sigma :: "'f ASEntry \<Rightarrow> u16" where
  "hop_sigma e = be_u16 (take 2 (hfMAC (heHopField (hopEntry e))))"

fun beta_of :: "u16 \<Rightarrow> 'f ASEntry list \<Rightarrow> nat \<Rightarrow> u16" where
  "beta_of b es 0 = b"
| "beta_of b [] (Suc n) = b"
| "beta_of b (e # es) (Suc n) = beta_of (b XOR hop_sigma e) es n"

text \<open>The MAC of a hop field under the key of its AS and a segment identifier.\<close>

definition hop_auth :: "(bytes \<Rightarrow> bytes) \<Rightarrow> u16 \<Rightarrow> u32 \<Rightarrow> seg_HopField \<Rightarrow> bool" where
  "hop_auth mac beta ts h \<longleftrightarrow>
     hfMAC h = take MacLen (mac (MACInput beta ts (hfExpTime h) (hfConsIngress h) (hfConsEgress h) (replicate MACBufferSize 0)))"

text \<open>Every hop field of the segment chains to the hop fields before it; peer hop fields chain to the hop field of their own AS too.\<close>

definition seg_auth :: "(IA \<Rightarrow> bytes \<Rightarrow> bytes) \<Rightarrow> 'f PathSegment \<Rightarrow> bool" where
  "seg_auth keys ps \<longleftrightarrow> (\<forall>i < length (ASEntries ps). let e = ASEntries ps ! i; b = beta_of (SegmentID (segInfo ps)) (ASEntries ps) in
     hop_auth (keys (Local e)) (b i) (TimeToSecs (infoTimestamp (segInfo ps))) (heHopField (hopEntry e))
     \<and> (\<forall>p \<in> set (PeerEntries e). hop_auth (keys (Local e)) (b (Suc i)) (TimeToSecs (infoTimestamp (segInfo ps))) (peHopField p)))"

lemma beta_of_append: "i \<le> length es \<Longrightarrow> beta_of b (es @ xs) i = beta_of b es i"
  by (induction b es i rule: beta_of.induct) auto

lemma beta_of_all: "beta_of b es (length es) = foldl (\<lambda>beta e. beta XOR hop_sigma e) b es"
  by (induction es arbitrary: b) simp_all

lemma beta_of_Suc: "i < length es \<Longrightarrow> beta_of b es (Suc i) = beta_of b es i XOR hop_sigma (es ! i)"
proof (induction b es i rule: beta_of.induct)
  case (1 b es)
  then show ?case by (cases es) auto
qed auto

lemma extractBeta_eq: "extractBeta ps = beta_of (SegmentID (segInfo ps)) (ASEntries ps) (length (ASEntries ps))"
  by (simp add: extractBeta_def beta_of_all hop_sigma_def)

lemma createHopF_auth: "hop_auth (exMAC s) beta (TimeToSecs ts) (fst (createHopF s i e x ts beta))"
  "hfConsIngress (fst (createHopF s i e x ts beta)) = i" "hfConsEgress (fst (createHopF s i e x ts beta)) = e"
  "hfExpTime (fst (createHopF s i e x ts beta)) = x"
  by (simp_all add: hop_auth_def createHopF_def Let_def)

lemma LastExpiring_ok:
  assumes "LastExpiring signers b a = Ok s"
  shows "s \<in> set signers" "sgNotBefore s \<le> b" "a \<le> sgNotAfter s"
    "t \<in> set signers \<Longrightarrow> sgNotBefore t \<le> b \<Longrightarrow> a \<le> sgNotAfter t \<Longrightarrow> sgNotAfter t \<le> sgNotAfter s"
proof -
  let ?f = "\<lambda>latest s. if sgNotAfter s > sgNotAfter latest then s else latest"
  obtain c cs where c: "filter (\<lambda>s. Validity_Covers (sgNotBefore s, sgNotAfter s) (b, a)) signers = c # cs" "s = foldl ?f c cs"
    using assms by (auto simp: LastExpiring_def split: list.splits)
  have "foldl ?f c cs \<in> set (c # cs) \<and> (\<forall>t \<in> set (c # cs). sgNotAfter t \<le> sgNotAfter (foldl ?f c cs))" for c cs
  proof (induction cs arbitrary: c)
    case (Cons x cs)
    from this [of "?f c x"] show ?case by (fastforce split: if_splits)
  qed simp
  from this [of c cs] c have m: "s \<in> set (filter (\<lambda>s. Validity_Covers (sgNotBefore s, sgNotAfter s) (b, a)) signers)"
      "\<forall>t \<in> set (filter (\<lambda>s. Validity_Covers (sgNotBefore s, sgNotAfter s) (b, a)) signers). sgNotAfter t \<le> sgNotAfter s"
    by simp_all
  then show "s \<in> set signers" "sgNotBefore s \<le> b" "a \<le> sgNotAfter s"
    "t \<in> set signers \<Longrightarrow> sgNotBefore t \<le> b \<Longrightarrow> a \<le> sgNotAfter t \<Longrightarrow> sgNotAfter t \<le> sgNotAfter s"
    by (auto simp: Validity_Covers_def)
qed

lemma peer_entries_auth:
  assumes "p \<in> set (fst (createPeerEntries s egress peers x ts beta))"
  shows "hop_auth (exMAC s) beta (TimeToSecs ts) (peHopField p)" "hfConsEgress (peHopField p) = egress"
    "hfConsIngress (peHopField p) \<in> set peers" "hfExpTime (peHopField p) = x"
  using assms
  by (auto simp: createHopF_auth createPeerEntries_def Let_def List.map_filter_def createPeerEntry_def bindR_eq_Ok split_def split: result.splits)

lemma newEntry_ok:
  assumes "newEntry sha now s ps ingress egress peers = Ok (e, signer)"
  shows "\<exists>x. hopExpTime s signer (infoTimestamp (segInfo ps)) = Ok x
    \<and> heHopField (hopEntry e) = fst (createHopF s ingress egress x (infoTimestamp (segInfo ps)) (extractBeta ps))
    \<and> PeerEntries e = fst (createPeerEntries s egress peers x (infoTimestamp (segInfo ps)) (extractBeta ps XOR hop_sigma e))
    \<and> Local e = exIA s \<and> remoteIA s egress = Ok (NextIA e) \<and> (ingress = 0 \<longleftrightarrow> ASEntries ps = [])
    \<and> (\<exists>signers. SignerGen s = Ok signers \<and> LastExpiring signers (infoTimestamp (segInfo ps)) now = Ok signer)"
  using assms
  by (auto simp: newEntry_def Let_def bindR_eq_Ok wrapR_eq_Ok createHopEntry_def split_def hop_sigma_def MaxIdx_def split: if_splits)

lemma hopExpTime_bound:
  assumes "hopExpTime s signer ts = Ok x"
  shows "ts + ExpTimeToDuration x \<le> sgNotAfter signer" "ExpTimeToDuration x \<le> ExpTimeToDuration (MaxExpTime s)"
proof -
  have d: "ExpTimeToDuration x \<le> d" if "ExpTimeFromDuration d = Ok x" for d
    using that exp_time_floor [of d] by (auto simp: ExpTimeFromDuration_def split: if_splits)
  show "ts + ExpTimeToDuration x \<le> sgNotAfter signer"
    using assms d [of "sgNotAfter signer - ts"] by (auto simp: hopExpTime_def wrapR_eq_Ok split: if_splits)
  then show "ExpTimeToDuration x \<le> ExpTimeToDuration (MaxExpTime s)"
    using assms by (auto simp: hopExpTime_def split: if_splits)
qed

lemma AddASEntry_ok:
  assumes "AddASEntry w signer ps e = Ok ps'"
  shows "\<exists>sg pq. ps' = ps\<lparr>ASEntries := ASEntries ps @ [e\<lparr>Signed := Some sg, Pqsigned := pq\<rparr>]\<rparr>
    \<and> (\<exists>raw ad. marshalBody w (bodyToPB e) = Ok raw \<and> associatedData ps (length (ASEntries ps)) = Ok ad \<and> Sign signer raw ad = Ok sg)"
proof -
  obtain raw ad sg rs where a: "marshalBody w (bodyToPB e) = Ok raw" "associatedData ps (length (ASEntries ps)) = Ok ad" "Sign signer raw ad = Ok sg"
      "marshalSigned w sg = Ok rs"
      "(case SignPQ signer [] [rs] of Panic \<Rightarrow> Panic
        | r \<Rightarrow> Ok (ps\<lparr>ASEntries := ASEntries ps @ [e\<lparr>Signed := Some sg, Pqsigned := (case r of Ok m \<Rightarrow> Some m | _ \<Rightarrow> None)\<rparr>]\<rparr>)) = Ok ps'"
    using assms by (auto simp: AddASEntry_def bindR_eq_Ok wrapR_eq_Ok simp del: result.case)
  from a(5) show ?thesis using a(1-3) by (cases "SignPQ signer [] [rs]") auto
qed

text \<open>C12: extending a beacon keeps the chain of hop field MACs intact. If every hop field of the segment verifies under the
  key of its AS and the segment identifier accumulated over the hop fields before it, so does every hop field of
  the extended segment, peer hop fields included; the entry added is the one of this AS between the given
  interfaces, it expires before its signer does, and the result passes validation.\<close>

theorem extend_keeps_chain:
  assumes "Extend w sha now s ps ingress egress peers = (ps', Ok ())" and "seg_auth keys ps" and "keys (exIA s) = exMAC s"
  shows "\<exists>e. ASEntries ps' = ASEntries ps @ [e] \<and> segInfo ps' = segInfo ps \<and> seg_auth keys ps'
    \<and> Local e = exIA s \<and> hfConsIngress (heHopField (hopEntry e)) = ingress \<and> hfConsEgress (heHopField (hopEntry e)) = egress
    \<and> (\<exists>signers signer. SignerGen s = Ok signers \<and> signer \<in> set signers
         \<and> (\<forall>h \<in> set (entryHops e). infoTimestamp (segInfo ps) + ExpTimeToDuration (hfExpTime h) \<le> sgNotAfter signer))
    \<and> Validate sha (if egress = 0 then ValidateSegment else ValidateBeacon) ps' = Ok ()"
proof -
  obtain e signer where e: "newEntry sha now s ps ingress egress peers = Ok (e, signer)" "AddASEntry w signer ps e = Ok ps'"
      "Validate sha (if egress = 0 then ValidateSegment else ValidateBeacon) ps' = Ok ()"
    using assms(1) by (auto simp: Extend_def bindR_eq_Ok split: result.splits)
  obtain sg pq where ps': "ps' = ps\<lparr>ASEntries := ASEntries ps @ [e\<lparr>Signed := Some sg, Pqsigned := pq\<rparr>]\<rparr>" using AddASEntry_ok [OF e(2)] by blast
  let ?e = "e\<lparr>Signed := Some sg, Pqsigned := pq\<rparr>" and ?ts = "infoTimestamp (segInfo ps)"
  obtain x signers where x: "hopExpTime s signer ?ts = Ok x"
      "heHopField (hopEntry e) = fst (createHopF s ingress egress x ?ts (extractBeta ps))"
      "PeerEntries e = fst (createPeerEntries s egress peers x ?ts (extractBeta ps XOR hop_sigma e))" "Local e = exIA s"
      "SignerGen s = Ok signers" "LastExpiring signers ?ts now = Ok signer"
    using newEntry_ok [OF e(1)] by blast
  let ?n = "length (ASEntries ps)" and ?b = "beta_of (SegmentID (segInfo ps))"
  have b: "?b (ASEntries ps @ [?e]) i = ?b (ASEntries ps) i" if "i \<le> ?n" for i using that by (rule beta_of_append)
  have bn: "?b (ASEntries ps @ [?e]) (Suc ?n) = extractBeta ps XOR hop_sigma e"
    using beta_of_Suc [of ?n "ASEntries ps @ [?e]"] b [of ?n] by (simp add: extractBeta_eq hop_sigma_def)
  have new: "hop_auth (keys (Local ?e)) (?b (ASEntries ps @ [?e]) ?n) (TimeToSecs ?ts) (heHopField (hopEntry ?e))"
      "\<forall>p \<in> set (PeerEntries ?e). hop_auth (keys (Local ?e)) (?b (ASEntries ps @ [?e]) (Suc ?n)) (TimeToSecs ?ts) (peHopField p)"
    using x(2-4) assms(3) by (auto simp: b bn createHopF_auth peer_entries_auth(1) simp flip: extractBeta_eq)
  have "seg_auth keys ps'"
    unfolding seg_auth_def Let_def
  proof (intro allI impI)
    fix i assume "i < length (ASEntries ps')"
    then consider "i < ?n" | "i = ?n" by (auto simp: ps' less_Suc_eq)
    then show "hop_auth (keys (Local (ASEntries ps' ! i))) (beta_of (SegmentID (segInfo ps')) (ASEntries ps') i) (TimeToSecs (infoTimestamp (segInfo ps')))
        (heHopField (hopEntry (ASEntries ps' ! i)))
      \<and> (\<forall>p \<in> set (PeerEntries (ASEntries ps' ! i)). hop_auth (keys (Local (ASEntries ps' ! i))) (beta_of (SegmentID (segInfo ps')) (ASEntries ps') (Suc i))
        (TimeToSecs (infoTimestamp (segInfo ps'))) (peHopField p))"
    proof cases
      case 1
      then show ?thesis using assms(2) b [of i] b [of "Suc i"] by (simp add: seg_auth_def Let_def ps' nth_append)
    next
      case 2
      then show ?thesis using new by (simp add: ps' nth_append)
    qed
  qed
  moreover have "hfExpTime h = x" if "h \<in> set (entryHops ?e)" for h
    using that by (auto simp: entryHops_def x(2,3) createHopF_auth peer_entries_auth(4))
  then have "\<forall>h \<in> set (entryHops ?e). ?ts + ExpTimeToDuration (hfExpTime h) \<le> sgNotAfter signer" using hopExpTime_bound(1) [OF x(1)] by simp
  moreover have "hfConsIngress (heHopField (hopEntry e)) = ingress" "hfConsEgress (heHopField (hopEntry e)) = egress"
    using x(2) createHopF_auth by simp_all
  ultimately show ?thesis using ps' x(4,5) LastExpiring_ok(1) [OF x(6)] e(3) by (intro exI [of _ ?e]) auto
qed

section \<open>A first and a second hop\<close>

definition sample_wire :: "unit wire" where
  "sample_wire = \<lparr>marshalInfo = \<lambda>_. Ok [], unmarshalInfo = \<lambda>_. Ok \<lparr>pbTimestamp = 0, pbSegmentId = 0\<rparr>, marshalBody = \<lambda>_. Ok [],
     unmarshalBody = \<lambda>_. Fail (Err []), extractBody = \<lambda>_. Fail (Err []), marshalSigned = \<lambda>_. Ok [],
     wireText = \<lparr>ipString = \<lambda>_. [], ipMasked = \<lambda>_ _ _. []\<rparr>\<rparr>"

definition sample_signer :: segSigner where
  "sample_signer = \<lparr>Sign = \<lambda>_ _. Ok \<lparr>HeaderAndBody = [], Signature = []\<rparr>, SignPQ = \<lambda>_ _. Fail (Err []), sgNotBefore = 0, sgNotAfter = 10 ^ 15\<rparr>"

definition sample_mac :: "bytes \<Rightarrow> bytes" where "sample_mac b = take 16 (b ! 3 # b ! 13 # replicate 16 7)"

definition sample_extender :: "IA \<Rightarrow> unit DefaultExtender" where
  "sample_extender ia = \<lparr>exIA = ia, SignerGen = Ok [sample_signer], exMAC = sample_mac,
     Intfs = NewInterfaces [(1, \<lparr>ifID = 1, ifIA = 0x0001000000000002, ifLink = ifChild, ifRemoteID = 2, ifMTU = 1400\<rparr>),
       (5, \<lparr>ifID = 5, ifIA = 0x0001000000000009, ifLink = ifPeer, ifRemoteID = 6, ifMTU = 1300\<rparr>)],
     exMTU = 1472, MaxExpTime = 63, exStaticInfo = None, exEPIC = False, exFabrid = None\<rparr>"

definition sample_seg0 :: "unit PathSegment" where
  "sample_seg0 = \<lparr>segInfo = \<lparr>infoRaw = [], infoTimestamp = 1000000000, SegmentID = 99\<rparr>, ASEntries = []\<rparr>"

definition sample_seg1 :: "unit PathSegment" where
  "sample_seg1 = fst (Extend sample_wire (\<lambda>x. x) 2000000000 (sample_extender 0x0001000000000001) sample_seg0 0 1 [5])"

theorem extend_keeps_chain_witness:
  "seg_auth (\<lambda>_. sample_mac) sample_seg1 \<and> length (ASEntries sample_seg1) = 1"
proof -
  have "snd (Extend sample_wire (\<lambda>x. x) 2000000000 (sample_extender 0x0001000000000001) sample_seg0 0 1 [5]) = Ok ()" by code_simp
  then have "Extend sample_wire (\<lambda>x. x) 2000000000 (sample_extender 0x0001000000000001) sample_seg0 0 1 [5] = (sample_seg1, Ok ())"
    by (simp add: sample_seg1_def prod_eq_iff)
  moreover have "seg_auth (\<lambda>_. sample_mac) sample_seg0" by (simp add: seg_auth_def sample_seg0_def)
  moreover have "exMAC (sample_extender 0x0001000000000001) = sample_mac" by (simp add: sample_extender_def)
  ultimately show ?thesis using extend_keeps_chain [of sample_wire "\<lambda>x. x" 2000000000 "sample_extender 0x0001000000000001" sample_seg0 0 1 "[5]" sample_seg1 "\<lambda>_. sample_mac"]
    by (auto simp: sample_seg0_def)
qed

end
