(* ===== verification/Combinator.thy ===== *)
theory Combinator
  imports Extender ScionPath "HOL-Library.Multiset"
begin

text \<open>
  The path combinator (\<^verbatim>\<open>private/path/combinator\<close>): the multigraph built from path segments, the search for paths in it,
  the forwarding path of a solution, and the filters. A segment in the graph is identified by the pointer to it,
  here \<open>isPtr\<close>. The order in which Go ranges over the edges of a vertex is the parameter \<open>ord\<close>. Aggregated metadata other
  than interfaces, MTU, expiry and EPIC authenticators are left out.
\<close>

unbundle bit_operations_syntax

section \<open>The graph\<close>

datatype PathSegType = seg_up | seg_core | seg_down

record 'f inputSegment =
  isPtr :: nat
  isSeg :: "'f PathSegment"
  isType :: PathSegType

definition IsDownSeg :: "'f inputSegment \<Rightarrow> bool" where "IsDownSeg s \<longleftrightarrow> isType s = seg_down"

record vertex =
  vIA :: IA
  vUpIA :: IA
  vUpIFID :: u64
  vDownIA :: IA
  vDownIFID :: u64

definition vertexFromIA :: "IA \<Rightarrow> vertex" where
  "vertexFromIA ia = \<lparr>vIA = ia, vUpIA = 0, vUpIFID = 0, vDownIA = 0, vDownIFID = 0\<rparr>"

definition vertexFromPeering :: "IA \<Rightarrow> u64 \<Rightarrow> IA \<Rightarrow> u64 \<Rightarrow> vertex" where
  "vertexFromPeering upIA upIFID downIA downIFID = \<lparr>vIA = 0, vUpIA = upIA, vUpIFID = upIFID, vDownIA = downIA, vDownIFID = downIFID\<rparr>"

definition vertex_Reverse :: "vertex \<Rightarrow> vertex" where
  "vertex_Reverse v = \<lparr>vIA = vIA v, vUpIA = vDownIA v, vUpIFID = vDownIFID v, vDownIA = vUpIA v, vDownIFID = vUpIFID v\<rparr>"

record edge =
  Weight :: nat
  Shortcut :: nat
  PeerIdx :: nat

type_synonym 'f edgeMap = "('f inputSegment, edge) gomap"
type_synonym 'f vertexInfo = "(vertex, 'f edgeMap) gomap"
type_synonym 'f dmg = "(vertex, 'f vertexInfo) gomap"

definition ensure :: "'k \<Rightarrow> ('k, 'v list) gomap \<Rightarrow> ('k, 'v list) gomap" where
  "ensure k m = (if map_of m k = None then m @ [(k, [])] else m)"

definition at_key :: "('k, 'v list) gomap \<Rightarrow> 'k \<Rightarrow> 'v list" where
  "at_key m k = (case map_of m k of None \<Rightarrow> [] | Some v \<Rightarrow> v)"

definition AddEdge :: "vertex \<Rightarrow> vertex \<Rightarrow> 'f inputSegment \<Rightarrow> edge \<Rightarrow> 'f dmg \<Rightarrow> 'f dmg" where
  "AddEdge src dst sgm e g =
    (let g = ensure dst (ensure src g);
         neighborMap = ensure dst (at_key g src)
     in AList.update src (AList.update dst (AList.update sgm e (at_key neighborMap dst)) neighborMap) g)"

text \<open>The edges of a segment in the order in which \<^verbatim>\<open>traverseSegment\<close> adds them.\<close>

definition entryTuples :: "'f ASEntry list \<Rightarrow> nat \<Rightarrow> (vertex \<times> vertex \<times> nat) list" where
  "entryTuples es i =
    (let pinnedIA = Local (last es); e = es ! i in
     (if i \<noteq> length es - 1 then [(vertexFromIA pinnedIA, vertexFromIA (Local e), 0)] else [])
     @ map (\<lambda>k. let p = PeerEntries e ! k in
          (vertexFromIA pinnedIA, vertexFromPeering (Local e) (ucast (hfConsIngress (peHopField p))) (pePeer p) (ucast (pePeerInterface p)), k + 1))
        [0..<length (PeerEntries e)])"

definition tupleEdge :: "'f inputSegment \<Rightarrow> nat \<Rightarrow> vertex \<times> vertex \<times> nat \<Rightarrow> vertex \<times> vertex \<times> edge" where
  "tupleEdge sgm i t = (case t of (src, dst, peer) \<Rightarrow>
     let weight = length (ASEntries (isSeg sgm)) - 1 - i in
     if isType sgm = seg_down
     then (vertex_Reverse dst, src, \<lparr>Weight = (if peer \<noteq> 0 then weight + 1 else weight), Shortcut = i, PeerIdx = peer\<rparr>)
     else (src, dst, \<lparr>Weight = weight, Shortcut = i, PeerIdx = peer\<rparr>))"

definition segmentEdges :: "'f inputSegment \<Rightarrow> (vertex \<times> vertex \<times> edge) list" where
  "segmentEdges sgm =
    (let es = ASEntries (isSeg sgm) in
     if isType sgm = seg_core
     then [(vertexFromIA (Local (last es)), vertexFromIA (Local (hd es)), \<lparr>Weight = length es - 1, Shortcut = 0, PeerIdx = 0\<rparr>)]
     else concat (map (\<lambda>i. map (tupleEdge sgm i) (entryTuples es i)) (rev [0..<length es])))"

text \<open>A segment without entries is indexed out of range.\<close>

definition traverseSegment :: "'f inputSegment \<Rightarrow> 'f dmg result \<Rightarrow> 'f dmg result" where
  "traverseSegment sgm r = bindR r (\<lambda>g.
     if ASEntries (isSeg sgm) = [] then Panic
     else Ok (foldl (\<lambda>g (src, dst, e). AddEdge src dst sgm e g) g (segmentEdges sgm)))"

definition inputSegments :: "'f PathSegment list \<Rightarrow> 'f PathSegment list \<Rightarrow> 'f PathSegment list \<Rightarrow> 'f inputSegment list" where
  "inputSegments ups cores downs =
     map (\<lambda>(k, s, t). \<lparr>isPtr = k, isSeg = s, isType = t\<rparr>)
       (zip [0..<length ups + length cores + length downs]
         (map (\<lambda>s. (s, seg_up)) ups @ map (\<lambda>s. (s, seg_core)) cores @ map (\<lambda>s. (s, seg_down)) downs))"

definition newDMG :: "'f PathSegment list \<Rightarrow> 'f PathSegment list \<Rightarrow> 'f PathSegment list \<Rightarrow> 'f dmg result" where
  "newDMG ups cores downs = foldl (\<lambda>r s. traverseSegment s r) (Ok []) (inputSegments ups cores downs)"

section \<open>The search\<close>

record 'f solutionEdge =
  seEdge :: edge
  seSrc :: vertex
  seDst :: vertex
  seSegment :: "'f inputSegment"

record 'f pathSolution =
  solEdges :: "'f solutionEdge list"
  currentVertex :: vertex
  currentSeg :: "'f inputSegment option"
  cost :: nat

fun validNextSeg :: "'f inputSegment option \<Rightarrow> 'f inputSegment \<Rightarrow> bool" where
  "validNextSeg None nxt = True"
| "validNextSeg (Some c) nxt =
    (case isType c of
       seg_up \<Rightarrow> isType nxt = seg_core \<or> isType nxt = seg_down
     | seg_core \<Rightarrow> isType nxt = seg_down
     | seg_down \<Rightarrow> False)"

definition outEdges :: "'f dmg \<Rightarrow> vertex \<Rightarrow> (vertex \<times> 'f inputSegment \<times> edge) list" where
  "outEdges g v = concat (map (\<lambda>(dst, em). map (\<lambda>(sgm, e). (dst, sgm, e)) em) (at_key g v))"

definition extendSolution :: "'f pathSolution \<Rightarrow> vertex \<times> 'f inputSegment \<times> edge \<Rightarrow> 'f pathSolution" where
  "extendSolution p x = (case x of (nextVertex, sgm, e) \<Rightarrow>
     \<lparr>solEdges = solEdges p @ [\<lparr>seEdge = e, seSrc = currentVertex p, seDst = nextVertex, seSegment = sgm\<rparr>],
      currentVertex = nextVertex, currentSeg = Some sgm, cost = cost p + Weight e\<rparr>)"

type_synonym 'f edgeOrder = "(vertex \<times> 'f inputSegment \<times> edge) list \<Rightarrow> (vertex \<times> 'f inputSegment \<times> edge) list"

definition expand :: "'f edgeOrder \<Rightarrow> 'f dmg \<Rightarrow> 'f pathSolution \<Rightarrow> 'f pathSolution list" where
  "expand ord g p = map (extendSolution p) (filter (\<lambda>(v, sgm, e). validNextSeg (currentSeg p) sgm) (ord (outEdges g (currentVertex p))))"

text \<open>How many segments can still follow.\<close>

fun level :: "'f inputSegment option \<Rightarrow> nat" where
  "level None = 3"
| "level (Some s) = (case isType s of seg_up \<Rightarrow> 2 | seg_core \<Rightarrow> 1 | seg_down \<Rightarrow> 0)"

lemma level_expand: "q \<in> set (expand ord g p) \<Longrightarrow> level (currentSeg q) < level (currentSeg p)"
  by (cases "currentSeg p") (auto simp: expand_def extendSolution_def split: PathSegType.splits)

text \<open>The loop over the queue: each solution taken out is replaced by solutions with fewer segments to come.\<close>

function search :: "'f edgeOrder \<Rightarrow> 'f dmg \<Rightarrow> vertex \<Rightarrow> 'f pathSolution list \<Rightarrow> 'f pathSolution list \<Rightarrow> 'f pathSolution list" where
  "search ord g dst [] solutions = solutions"
| "search ord g dst (p # queue) solutions =
    (let new = expand ord g p in
     search ord g dst (queue @ filter (\<lambda>q. currentVertex q \<noteq> dst) new) (solutions @ filter (\<lambda>q. currentVertex q = dst) new))"
  by pat_completeness auto
termination
proof (relation "inv_image (mult less_than) (\<lambda>(ord, g, dst, queue, sols). mset (map (\<lambda>p. level (currentSeg p)) queue))")
  show "wf (inv_image (mult less_than) (\<lambda>(ord :: 'f edgeOrder, g :: 'f dmg, dst :: vertex, queue, sols :: 'f pathSolution list).
      mset (map (\<lambda>p. level (currentSeg p)) (queue :: 'f pathSolution list))))"
    by (intro wf_inv_image wf_mult wf_less_than)
  fix ord :: "'f edgeOrder" and g dst and p :: "'f pathSolution" and queue solutions new :: "'f pathSolution list"
  assume new: "new = expand ord g p"
  let ?l = "\<lambda>p. level (currentSeg p)"
  have "(mset (map ?l queue) + mset (map ?l (filter (\<lambda>q. currentVertex q \<noteq> dst) new)), mset (map ?l queue) + {#?l p#}) \<in> mult less_than"
    by (rule one_step_implies_mult) (use level_expand new in \<open>auto\<close>)
  then show "((ord, g, dst, queue @ filter (\<lambda>q. currentVertex q \<noteq> dst) new, solutions @ filter (\<lambda>q. currentVertex q = dst) new), ord, g, dst, p # queue, solutions)
      \<in> inv_image (mult less_than) (\<lambda>(ord, g, dst, queue, sols). mset (map (\<lambda>p. level (currentSeg p)) queue))"
    by simp
qed

section \<open>Order of solutions\<close>

fun bytes_less :: "bytes \<Rightarrow> bytes \<Rightarrow> bool" where
  "bytes_less _ [] = False"
| "bytes_less [] (_ # _) = True"
| "bytes_less (a # as) (b # bs) = (if a = b then bytes_less as bs else a < b)"

fun trailLess :: "(bytes \<Rightarrow> bytes) \<Rightarrow> 'f solutionEdge list \<Rightarrow> 'f solutionEdge list \<Rightarrow> bool" where
  "trailLess sha (a # as) (b # bs) =
    (let i = seg_ID sha (isSeg (seSegment a)); j = seg_ID sha (isSeg (seSegment b)) in
     if i \<noteq> j then bytes_less i j
     else if Shortcut (seEdge a) \<noteq> Shortcut (seEdge b) then Shortcut (seEdge a) < Shortcut (seEdge b)
     else if PeerIdx (seEdge a) \<noteq> PeerIdx (seEdge b) then PeerIdx (seEdge a) < PeerIdx (seEdge b)
     else trailLess sha as bs)"
| "trailLess sha _ _ = False"

definition solution_Less :: "(bytes \<Rightarrow> bytes) \<Rightarrow> 'f pathSolution \<Rightarrow> 'f pathSolution \<Rightarrow> bool" where
  "solution_Less sha a b =
    (if cost a \<noteq> cost b then cost a < cost b
     else if length (solEdges a) \<noteq> length (solEdges b) then length (solEdges a) < length (solEdges b)
     else trailLess sha (solEdges a) (solEdges b))"

definition GetPaths :: "(bytes \<Rightarrow> bytes) \<Rightarrow> 'f edgeOrder \<Rightarrow> 'f dmg \<Rightarrow> vertex \<Rightarrow> vertex \<Rightarrow> 'f pathSolution list" where
  "GetPaths sha ord g src dst =
     sort_by (solution_Less sha) (search ord g dst [\<lparr>solEdges = [], currentVertex = src, currentSeg = None, cost = 0\<rparr>] [])"

section \<open>Forwarding paths\<close>

record PathInterface =
  pifIA :: IA
  pifID :: u64

record 'f segment =
  sgInfo :: InfoField
  sgHops :: "HopField list"
  sgIntfs :: "PathInterface list"
  sgEntries :: "'f ASEntry list"

definition edgeEntries :: "'f solutionEdge \<Rightarrow> 'f ASEntry list" where
  "edgeEntries se = ASEntries (isSeg (seSegment se))"

text \<open>The entries used, from the last one back to the shortcut.\<close>

definition edgeIdx :: "'f solutionEdge \<Rightarrow> nat list" where
  "edgeIdx se = rev [Shortcut (seEdge se)..<length (edgeEntries se)]"

definition isPeerHop :: "'f solutionEdge \<Rightarrow> nat \<Rightarrow> bool" where
  "isPeerHop se i \<longleftrightarrow> i = Shortcut (seEdge se) \<and> PeerIdx (seEdge se) \<noteq> 0"

definition peerOf :: "'f solutionEdge \<Rightarrow> nat \<Rightarrow> PeerEntry" where
  "peerOf se i = PeerEntries (edgeEntries se ! i) ! (PeerIdx (seEdge se) - 1)"

definition hopAt :: "'f solutionEdge \<Rightarrow> nat \<Rightarrow> seg_HopField" where
  "hopAt se i = (if isPeerHop se i then peHopField (peerOf se i) else heHopField (hopEntry (edgeEntries se ! i)))"

definition toHop :: "seg_HopField \<Rightarrow> HopField" where
  "toHop h = \<lparr>IngressRouterAlert = False, EgressRouterAlert = False, ExpTime = hfExpTime h, ConsIngress = hfConsIngress h, ConsEgress = hfConsEgress h,
     Mac = hfMAC h\<rparr>"

definition entryIntfs :: "'f solutionEdge \<Rightarrow> nat \<Rightarrow> PathInterface list" where
  "entryIntfs se i =
    (let h = hopAt se i; ia = Local (edgeEntries se ! i); isShortcut = (i = Shortcut (seEdge se) \<and> Shortcut (seEdge se) \<noteq> 0) in
     (if hfConsEgress h \<noteq> 0 then [\<lparr>pifIA = ia, pifID = ucast (hfConsEgress h)\<rparr>] else [])
     @ (if hfConsIngress h \<noteq> 0 \<and> (\<not> isShortcut \<or> isPeerHop se i) then [\<lparr>pifIA = ia, pifID = ucast (hfConsIngress h)\<rparr>] else []))"

definition linkMTU :: "'f solutionEdge \<Rightarrow> nat \<Rightarrow> int" where
  "linkMTU se i = (if isPeerHop se i then pePeerMTU (peerOf se i) else heIngressMTU (hopEntry (edgeEntries se ! i)))"

definition minUint16 :: "u16 \<Rightarrow> u16 \<Rightarrow> u16" where "minUint16 x y = (if x < y then x else y)"

definition entryMTU :: "'f solutionEdge \<Rightarrow> u16 \<Rightarrow> nat \<Rightarrow> u16" where
  "entryMTU se mtu i =
    (let mtu = minUint16 mtu (word_of_int (MTU (edgeEntries se ! i))) in
     if linkMTU se i \<noteq> 0 then minUint16 mtu (word_of_int (linkMTU se i)) else mtu)"

text \<open>The authenticators of EPIC. For a peer entry the code takes the MAC of the hop entry, and indexes the list of authenticators
  without looking at its length.\<close>

definition getAuth :: "'f ASEntry \<Rightarrow> bytes option" where
  "getAuth a = map_option (\<lambda>d. copy_fresh 6 (hfMAC (heHopField (hopEntry a))) @ copy_fresh 10 (AuthHopEntry d)) (EpicDetached (Unsigned a))"

definition getAuthPeer :: "'f ASEntry \<Rightarrow> nat \<Rightarrow> bytes option result" where
  "getAuthPeer a i =
    (case EpicDetached (Unsigned a) of
       None \<Rightarrow> Ok None
     | Some d \<Rightarrow> if length (AuthPeerEntries d) \<le> i then Panic
         else Ok (Some (copy_fresh 6 (hfMAC (heHopField (hopEntry a))) @ copy_fresh 10 (AuthPeerEntries d ! i))))"

definition entryAuth :: "'f solutionEdge \<Rightarrow> nat \<Rightarrow> bytes option result" where
  "entryAuth se i = (if isPeerHop se i then getAuthPeer (edgeEntries se ! i) (PeerIdx (seEdge se) - 1) else Ok (getAuth (edgeEntries se ! i)))"

definition calculateBeta :: "'f solutionEdge \<Rightarrow> u16" where
  "calculateBeta se =
    (let e = seEdge se; index = (if IsDownSeg (seSegment se)
           then (if PeerIdx e \<noteq> 0 then Shortcut e + 1 else Shortcut e)
           else (let i = length (edgeEntries se) - 1 in if i = Shortcut e \<and> PeerIdx e \<noteq> 0 then i + 1 else i)) in
     foldl (\<lambda>beta a. beta XOR be_u16 (take 2 (hfMAC (heHopField (hopEntry a))))) (SegmentID (segInfo (isSeg (seSegment se)))) (take index (edgeEntries se)))"

definition edgeSegment :: "'f solutionEdge \<Rightarrow> 'f segment" where
  "edgeSegment se =
    (let down = IsDownSeg (seSegment se); idx = edgeIdx se;
         hops = map (\<lambda>i. toHop (hopAt se i)) idx; intfs = concat (map (entryIntfs se) idx); es = map (\<lambda>i. edgeEntries se ! i) idx in
     \<lparr>sgInfo = \<lparr>Peer = PeerIdx (seEdge se) \<noteq> 0, ConsDir = down, SegID = calculateBeta se,
        Timestamp = TimeToSecs (infoTimestamp (segInfo (isSeg (seSegment se))))\<rparr>,
      sgHops = (if down then rev hops else hops), sgIntfs = (if down then rev intfs else intfs), sgEntries = (if down then rev es else es)\<rparr>)"

fun edgeAuths :: "'f solutionEdge \<Rightarrow> nat list \<Rightarrow> bytes option list result" where
  "edgeAuths se [] = Ok []"
| "edgeAuths se (i # js) = bindR (entryAuth se i) (\<lambda>a. mapR ((#) a) (edgeAuths se js))"

fun solutionAuths :: "'f solutionEdge list \<Rightarrow> bytes option list result" where
  "solutionAuths [] = Ok []"
| "solutionAuths (se # ses) = bindR (edgeAuths se (edgeIdx se)) (\<lambda>as.
     mapR ((@) (if IsDownSeg (seSegment se) then rev as else as)) (solutionAuths ses))"

definition isEpicAvailable :: "bytes option list \<Rightarrow> (bytes \<times> bytes) option" where
  "isEpicAvailable as = (if length as < 2 then None
     else case (as ! (length as - 2), as ! (length as - 1)) of (Some a, Some b) \<Rightarrow> Some (a, b) | _ \<Rightarrow> None)"

definition computeHopFieldsTTL :: "'f segment \<Rightarrow> int" where
  "computeHopFieldsTTL s = foldl (\<lambda>ttl h. if ttl > ExpTimeToDuration (ExpTime h) then ExpTimeToDuration (ExpTime h) else ttl) MaxTTL (sgHops s)"

definition segment_ComputeExpTime :: "'f segment \<Rightarrow> int" where
  "segment_ComputeExpTime s = SecsToTime (Timestamp (sgInfo s)) + computeHopFieldsTTL s"

definition maxExpirationTime :: int where
  "maxExpirationTime = unix_Time 4294967295 + ExpTimeToDuration 255"

definition ComputeExpTime :: "'f segment list \<Rightarrow> int" where
  "ComputeExpTime ss = foldl (\<lambda>t s. if t > segment_ComputeExpTime s then segment_ComputeExpTime s else t) maxExpirationTime ss"

definition segs_Interfaces :: "'f segment list \<Rightarrow> PathInterface list" where
  "segs_Interfaces ss = concat (map sgIntfs ss)"

definition decodedPath :: "'f segment list \<Rightarrow> Decoded" where
  "decodedPath ss =
    \<lparr>PathMeta = \<lparr>CurrINF = 0, CurrHF = 0, SegLen = map (\<lambda>s. word_of_nat (length (sgHops s))) ss @ replicate (3 - length ss) 0\<rparr>,
     NumINF = int (length ss), NumHops = int (length (concat (map sgHops ss))),
     InfoFields = map sgInfo ss, HopFields = concat (map sgHops ss)\<rparr>"

definition ScionPath :: "'f segment list \<Rightarrow> bytes result" where
  "ScionPath ss =
    (if 3 < length ss then Panic
     else case Decoded_SerializeTo (decodedPath ss) (replicate (nat (Base_Len (decodedPath ss))) 0) of Ok b \<Rightarrow> Ok b | _ \<Rightarrow> Panic)"

text \<open>\<open>pqAlg\<close> reads the algorithm out of the header of a signature, which takes two protobuf decodings.\<close>

definition SIGNATURE_ALGORITHM_MLDSA44 :: int where "SIGNATURE_ALGORITHM_MLDSA44 = 4"

definition isPQsecure :: "(bytes \<Rightarrow> int result) \<Rightarrow> 'f segment list \<Rightarrow> bool" where
  "isPQsecure pqAlg ss \<longleftrightarrow> (\<forall>s \<in> set ss. \<forall>e \<in> set (sgEntries s). case Pqsigned e of None \<Rightarrow> False
     | Some m \<Rightarrow> pqAlg (HeaderAndBody m) = Ok SIGNATURE_ALGORITHM_MLDSA44)"

record comb_Path =
  SCIONPath :: bytes
  pathInterfaces :: "PathInterface list"
  pathMTU :: u16
  pathExpiry :: int
  pathPQsecure :: bool
  pathEpicAuths :: "(bytes \<times> bytes) option"
  pathWeight :: nat

definition solution_Path :: "(bytes \<Rightarrow> int result) \<Rightarrow> 'f pathSolution \<Rightarrow> comb_Path result" where
  "solution_Path pqAlg sol =
    (let ss = map edgeSegment (solEdges sol) in
     bindR (solutionAuths (solEdges sol)) (\<lambda>auths.
     mapR (\<lambda>raw. \<lparr>SCIONPath = raw, pathInterfaces = segs_Interfaces ss,
        pathMTU = foldl (\<lambda>mtu se. foldl (entryMTU se) mtu (edgeIdx se)) 65535 (solEdges sol),
        pathExpiry = ComputeExpTime ss, pathPQsecure = isPQsecure pqAlg ss, pathEpicAuths = isEpicAvailable auths, pathWeight = cost sol\<rparr>) (ScionPath ss)))"

section \<open>Filters\<close>

fun longLoop :: "(IA, nat) gomap \<Rightarrow> PathInterface list \<Rightarrow> bool" where
  "longLoop cs [] = False"
| "longLoop cs (i # js) =
    (let n = (case map_of cs (pifIA i) of None \<Rightarrow> 1 | Some k \<Rightarrow> k + 1) in if n > 2 then True else longLoop (AList.update (pifIA i) n cs) js)"

definition filterLongPaths :: "comb_Path list \<Rightarrow> comb_Path list" where
  "filterLongPaths ps = filter (\<lambda>p. \<not> longLoop [] (pathInterfaces p)) ps"

definition fingerprint :: "(bytes \<Rightarrow> bytes) \<Rightarrow> PathInterface list \<Rightarrow> bytes" where
  "fingerprint sha is = sha (concat (map (\<lambda>i. put_u64 (pifIA i) @ put_u64 (pifID i)) is))"

definition uniquePaths :: "(bytes \<Rightarrow> bytes) \<Rightarrow> comb_Path list \<Rightarrow> (bytes, nat) gomap" where
  "uniquePaths sha ps = foldl (\<lambda>m i. let key = fingerprint sha (pathInterfaces (ps ! i)) in
     case map_of m key of
       None \<Rightarrow> AList.update key i m
     | Some prev \<Rightarrow> if pathExpiry (ps ! i) > pathExpiry (ps ! prev) then AList.update key i m else m) [] [0..<length ps]"

definition filterDuplicates :: "(bytes \<Rightarrow> bytes) \<Rightarrow> comb_Path list \<Rightarrow> comb_Path list" where
  "filterDuplicates sha ps = map (nth ps) (sort (map snd (uniquePaths sha ps)))"

fun solution_Paths :: "(bytes \<Rightarrow> int result) \<Rightarrow> 'f pathSolution list \<Rightarrow> comb_Path list result" where
  "solution_Paths pqAlg [] = Ok []"
| "solution_Paths pqAlg (s # ss) = bindR (solution_Path pqAlg s) (\<lambda>p. mapR ((#) p) (solution_Paths pqAlg ss))"

definition Combine :: "(bytes \<Rightarrow> bytes) \<Rightarrow> (bytes \<Rightarrow> int result) \<Rightarrow> 'f edgeOrder \<Rightarrow> IA \<Rightarrow> IA \<Rightarrow> 'f PathSegment list \<Rightarrow> 'f PathSegment list
  \<Rightarrow> 'f PathSegment list \<Rightarrow> bool \<Rightarrow> comb_Path list result" where
  "Combine sha pqAlg ord src dst ups cores downs findAllIdentical =
     bindR (newDMG ups cores downs) (\<lambda>g.
     bindR (solution_Paths pqAlg (GetPaths sha ord g (vertexFromIA src) (vertexFromIA dst))) (\<lambda>paths.
     let paths = filterLongPaths paths in Ok (if findAllIdentical then paths else filterDuplicates sha paths)))"

end
