(* ===== verification/PathSearch.thy ===== *)
theory PathSearch
  imports Combinator
begin

text \<open>
  What the search of the combinator finds: exactly the chains of edges from the source to the destination with at most one
  up, one core and one down segment, and the edges are those of the segments that were put in.
\<close>

section \<open>Chains of edges\<close>

fun trail :: "'f dmg \<Rightarrow> vertex \<Rightarrow> vertex \<Rightarrow> 'f inputSegment option \<Rightarrow> 'f solutionEdge list \<Rightarrow> bool" where
  "trail g dst v cur [] = True"
| "trail g dst v cur (x # xs) \<longleftrightarrow> seSrc x = v \<and> (seDst x, seSegment x, seEdge x) \<in> set (outEdges g v) \<and> validNextSeg cur (seSegment x)
     \<and> (xs = [] \<or> seDst x \<noteq> dst) \<and> trail g dst (seDst x) (Some (seSegment x)) xs"

fun follow :: "'f pathSolution \<Rightarrow> 'f solutionEdge list \<Rightarrow> 'f pathSolution" where
  "follow p [] = p"
| "follow p (x # xs) = follow (extendSolution p (seDst x, seSegment x, seEdge x)) xs"

definition reaches :: "'f dmg \<Rightarrow> vertex \<Rightarrow> 'f pathSolution \<Rightarrow> 'f pathSolution set" where
  "reaches g dst p = {follow p xs | xs. xs \<noteq> [] \<and> trail g dst (currentVertex p) (currentSeg p) xs \<and> seDst (last xs) = dst}"

lemma set_expand:
  assumes "\<And>xs. set (ord xs) = set xs"
  shows "set (expand ord g p) = {extendSolution p (v, s, e) | v s e. (v, s, e) \<in> set (outEdges g (currentVertex p)) \<and> validNextSeg (currentSeg p) s}"
  using assms by (auto simp: expand_def)

lemma reaches_expand:
  assumes "\<And>xs. set (ord xs) = set xs"
  shows "reaches g dst p = {q \<in> set (expand ord g p). currentVertex q = dst} \<union> (\<Union>q \<in> {q \<in> set (expand ord g p). currentVertex q \<noteq> dst}. reaches g dst q)"
    (is "_ = ?A \<union> ?B")
proof (intro equalityI subsetI)
  fix r assume "r \<in> reaches g dst p"
  then obtain x xs where x: "r = follow p (x # xs)" "trail g dst (currentVertex p) (currentSeg p) (x # xs)" "seDst (last (x # xs)) = dst"
    by (auto simp: reaches_def neq_Nil_conv)
  let ?q = "extendSolution p (seDst x, seSegment x, seEdge x)"
  have q: "?q \<in> set (expand ord g p)" "currentVertex ?q = seDst x" "currentSeg ?q = Some (seSegment x)"
    using x(2) by (auto simp: set_expand [OF assms] extendSolution_def)
  show "r \<in> ?A \<union> ?B"
  proof (cases xs)
    case Nil
    then show ?thesis using x q by simp
  next
    case (Cons y ys)
    then have "r \<in> reaches g dst ?q" using x q by (auto simp: reaches_def intro!: exI [of _ xs])
    moreover have "seDst x \<noteq> dst" using x(2) Cons by simp
    ultimately show ?thesis using q by auto
  qed
next
  fix r assume "r \<in> ?A \<union> ?B"
  then consider (now) v s e where "r = extendSolution p (v, s, e)" "(v, s, e) \<in> set (outEdges g (currentVertex p))" "validNextSeg (currentSeg p) s" "v = dst"
    | (later) v s e where "r \<in> reaches g dst (extendSolution p (v, s, e))" "(v, s, e) \<in> set (outEdges g (currentVertex p))" "validNextSeg (currentSeg p) s" "v \<noteq> dst"
    unfolding set_expand [OF assms] by (auto simp: extendSolution_def)
  then show "r \<in> reaches g dst p"
  proof cases
    case now
    then show ?thesis unfolding reaches_def
      by (intro CollectI exI [of _ "[\<lparr>seEdge = e, seSrc = currentVertex p, seDst = v, seSegment = s\<rparr>]"]) simp
  next
    case later
    then obtain xs where "r = follow (extendSolution p (v, s, e)) xs" "xs \<noteq> []" "trail g dst v (Some s) xs" "seDst (last xs) = dst"
      by (auto simp: reaches_def extendSolution_def)
    then show ?thesis using later unfolding reaches_def
      by (intro CollectI exI [of _ "\<lparr>seEdge = e, seSrc = currentVertex p, seDst = v, seSegment = s\<rparr> # xs"]) simp
  qed
qed

lemma set_search:
  assumes "\<And>xs. set (ord xs) = set xs"
  shows "set (search ord g dst queue sols) = set sols \<union> (\<Union>p \<in> set queue. reaches g dst p)"
  using assms
proof (induction ord g dst queue sols rule: search.induct)
  case (2 ord g dst p queue solutions)
  show ?case using 2 reaches_expand [OF 2(2), of g dst p] by (simp add: Let_def) blast
qed simp

lemma mset_sort_by: "mset (sort_by lt xs) = mset xs"
proof -
  have "mset (insert_by lt x ys) = add_mset x (mset ys)" for x and ys :: "'a list" by (induction ys) auto
  then show ?thesis by (induction xs) (simp_all add: sort_by_def)
qed

lemma follow_eq:
  "trail g dst (currentVertex p) (currentSeg p) xs \<Longrightarrow> xs \<noteq> [] \<Longrightarrow>
    follow p xs = \<lparr>solEdges = solEdges p @ xs, currentVertex = seDst (last xs), currentSeg = Some (seSegment (last xs)),
      cost = cost p + (\<Sum>x\<leftarrow>xs. Weight (seEdge x))\<rparr>"
proof (induction xs arbitrary: p)
  case (Cons x xs)
  let ?q = "extendSolution p (seDst x, seSegment x, seEdge x)"
  have x: "\<lparr>seEdge = seEdge x, seSrc = currentVertex p, seDst = seDst x, seSegment = seSegment x\<rparr> = x" using Cons.prems(1) by (cases x) simp
  show ?case
  proof (cases "xs = []")
    case True
    then show ?thesis using x by (simp add: extendSolution_def)
  next
    case False
    have q: "?q = \<lparr>solEdges = solEdges p @ [x], currentVertex = seDst x, currentSeg = Some (seSegment x), cost = cost p + Weight (seEdge x)\<rparr>"
      by (simp add: extendSolution_def x)
    show ?thesis using Cons.IH [of ?q] Cons.prems False by (simp add: q add.assoc)
  qed
qed simp

text \<open>C13: the search finds exactly the chains of edges of the graph that lead from the source to the destination, visit the
  destination only at their end, and use at most one up, one core and one down segment in this order; the cost of
  a solution is the sum of the weights of its edges. The result does not depend on the order in which the edges
  of a vertex are visited.\<close>

theorem GetPaths_exact:
  assumes "\<And>xs. set (ord xs) = set xs"
  shows "p \<in> set (GetPaths sha ord g src dst) \<longleftrightarrow> solEdges p \<noteq> [] \<and> trail g dst src None (solEdges p) \<and> seDst (last (solEdges p)) = dst
    \<and> currentVertex p = dst \<and> currentSeg p = Some (seSegment (last (solEdges p))) \<and> cost p = (\<Sum>x\<leftarrow>solEdges p. Weight (seEdge x))"
proof -
  let ?s = "\<lparr>solEdges = [], currentVertex = src, currentSeg = None, cost = 0\<rparr>"
  have "p \<in> set (GetPaths sha ord g src dst) \<longleftrightarrow> p \<in> reaches g dst ?s" by (simp add: GetPaths_def set_search [OF assms] del: search.simps)
  also have "\<dots> \<longleftrightarrow> (\<exists>xs. p = follow ?s xs \<and> xs \<noteq> [] \<and> trail g dst src None xs \<and> seDst (last xs) = dst)" by (simp add: reaches_def)
  also have "\<dots> \<longleftrightarrow> solEdges p \<noteq> [] \<and> trail g dst src None (solEdges p) \<and> seDst (last (solEdges p)) = dst
    \<and> currentVertex p = dst \<and> currentSeg p = Some (seSegment (last (solEdges p))) \<and> cost p = (\<Sum>x\<leftarrow>solEdges p. Weight (seEdge x))"
  proof
    assume "\<exists>xs. p = follow ?s xs \<and> xs \<noteq> [] \<and> trail g dst src None xs \<and> seDst (last xs) = dst"
    then obtain xs where xs: "p = follow ?s xs" "xs \<noteq> []" "trail g dst src None xs" "seDst (last xs) = dst" by blast
    then show "solEdges p \<noteq> [] \<and> trail g dst src None (solEdges p) \<and> seDst (last (solEdges p)) = dst
      \<and> currentVertex p = dst \<and> currentSeg p = Some (seSegment (last (solEdges p))) \<and> cost p = (\<Sum>x\<leftarrow>solEdges p. Weight (seEdge x))"
      using follow_eq [of g dst ?s xs] by simp
  next
    assume a: "solEdges p \<noteq> [] \<and> trail g dst src None (solEdges p) \<and> seDst (last (solEdges p)) = dst
      \<and> currentVertex p = dst \<and> currentSeg p = Some (seSegment (last (solEdges p))) \<and> cost p = (\<Sum>x\<leftarrow>solEdges p. Weight (seEdge x))"
    then have "p = follow ?s (solEdges p)" using follow_eq [of g dst ?s "solEdges p"] by (cases p) simp
    then show "\<exists>xs. p = follow ?s xs \<and> xs \<noteq> [] \<and> trail g dst src None xs \<and> seDst (last xs) = dst" using a by blast
  qed
  finally show ?thesis .
qed

section \<open>Edges come from segments\<close>

definition edge_in :: "'f dmg \<Rightarrow> vertex \<Rightarrow> vertex \<Rightarrow> 'f inputSegment \<Rightarrow> edge \<Rightarrow> bool" where
  "edge_in g v w s e \<longleftrightarrow> (w, s, e) \<in> set (outEdges g v)"

lemma set_update: "set (AList.update k v m) \<subseteq> insert (k, v) (set m)"
  by (induction m) auto

lemma set_at_key: "x \<in> set (at_key m k) \<Longrightarrow> \<exists>v. (k, v) \<in> set m \<and> x \<in> set v"
  by (cases "map_of m k") (auto simp: at_key_def dest: map_of_SomeD)

lemma at_key_ensure [simp]: "at_key (ensure k m) j = at_key m j"
  by (auto simp: at_key_def ensure_def map_add_def split: option.splits)

lemma at_key_update: "at_key (AList.update k v m) j = (if j = k then v else at_key m j)"
  by (simp add: at_key_def update_conv)

lemma outEdges_AddEdge:
  assumes "(w, s, e) \<in> set (outEdges (AddEdge src dst sgm x g) v)"
  shows "(w, s, e) \<in> set (outEdges g v) \<or> v = src \<and> w = dst \<and> s = sgm \<and> e = x"
proof -
  let ?nm = "ensure dst (at_key g src)"
  have key: "at_key (AddEdge src dst sgm x g) v = (if v = src then AList.update dst (AList.update sgm x (at_key ?nm dst)) ?nm else at_key g v)"
    by (simp add: AddEdge_def Let_def at_key_update)
  show ?thesis
  proof (cases "v = src")
    case True
    then obtain em where em: "(w, em) \<in> set (AList.update dst (AList.update sgm x (at_key ?nm dst)) ?nm)" "(s, e) \<in> set em"
      using assms key by (auto simp: outEdges_def)
    have "(w, em) = (dst, AList.update sgm x (at_key ?nm dst)) \<or> (w, em) \<in> set ?nm" using set_update em(1) by fastforce
    then show ?thesis
    proof
      assume 1: "(w, em) = (dst, AList.update sgm x (at_key ?nm dst))"
      then have "(s, e) = (sgm, x) \<or> (s, e) \<in> set (at_key (at_key g src) dst)" using em(2) set_update by fastforce
      moreover have "(dst, s, e) \<in> set (outEdges g src)" if "(s, e) \<in> set (at_key (at_key g src) dst)"
        using set_at_key [OF that] by (force simp: outEdges_def)
      ultimately show ?thesis using 1 True by auto
    next
      assume "(w, em) \<in> set ?nm"
      then show ?thesis using em(2) True by (auto simp: ensure_def outEdges_def split: if_splits)
    qed
  qed (use assms key in \<open>simp add: outEdges_def\<close>)
qed

lemma outEdges_fold:
  "(w, s, e) \<in> set (outEdges (foldl (\<lambda>g (src, dst, x). AddEdge src dst sgm x g) g xs) v)
     \<Longrightarrow> (w, s, e) \<in> set (outEdges g v) \<or> s = sgm \<and> (v, w, e) \<in> set xs"
proof (induction xs arbitrary: g)
  case (Cons a xs)
  then show ?case by (cases a) (fastforce dest: outEdges_AddEdge)
qed simp

lemma newDMG_edges:
  assumes "newDMG ups cores downs = Ok g" and "(w, s, e) \<in> set (outEdges g v)"
  shows "s \<in> set (inputSegments ups cores downs)" "(v, w, e) \<in> set (segmentEdges s)" "ASEntries (isSeg s) \<noteq> []"
proof -
  have "s \<in> set ss \<and> (v, w, e) \<in> set (segmentEdges s) \<and> ASEntries (isSeg s) \<noteq> [] \<or> (\<exists>g0. r = Ok g0 \<and> (w, s, e) \<in> set (outEdges g0 v))"
    if "foldl (\<lambda>r s. traverseSegment s r) r ss = Ok g" for ss r
    using that
  proof (induction ss arbitrary: r)
    case (Cons a ss)
    from Cons.IH [of "traverseSegment a r"] Cons.prems show ?case
      by (auto simp: traverseSegment_def bindR_eq_Ok split: if_splits dest!: outEdges_fold)
  qed (use assms(2) in auto)
  from this [of "Ok []" "inputSegments ups cores downs"] assms show
    "s \<in> set (inputSegments ups cores downs)" "(v, w, e) \<in> set (segmentEdges s)" "ASEntries (isSeg s) \<noteq> []"
    by (auto simp: newDMG_def outEdges_def at_key_def)
qed

section \<open>A path over one segment\<close>

definition sample_seg2 :: "unit PathSegment" where
  "sample_seg2 = fst (Extend sample_wire (\<lambda>x. x) 2000000000 (sample_extender 0x0001000000000002) sample_seg1 1 0 [])"

definition sample_dmg :: "unit dmg" where
  "sample_dmg = (case newDMG [sample_seg2] [] [] of Ok g \<Rightarrow> g | _ \<Rightarrow> [])"

definition sample_paths :: "unit pathSolution list" where
  "sample_paths = GetPaths (\<lambda>x. x) (\<lambda>es. es) sample_dmg (vertexFromIA 0x0001000000000002) (vertexFromIA 0x0001000000000001)"

theorem GetPaths_exact_witness:
  "trail sample_dmg (vertexFromIA 0x0001000000000001) (vertexFromIA 0x0001000000000002) None (solEdges (sample_paths ! 0)) \<and> length sample_paths = 1"
proof -
  have n: "length sample_paths = 1" by code_simp
  then have "sample_paths ! 0 \<in> set sample_paths" by simp
  then show ?thesis using n GetPaths_exact [of "\<lambda>es. es" "sample_paths ! 0" "\<lambda>x. x" sample_dmg "vertexFromIA 0x0001000000000002" "vertexFromIA 0x0001000000000001"]
    by (simp add: sample_paths_def)
qed

end
