(* ===== verification/Journey.thy ===== *)
theory Journey
  imports ReplyPath
begin

text \<open>
  A packet on its way through the ASes of its path: each AS updates the path as \<open>forward_path\<close> says and verifies the MAC of its
  hop field, of both its hop fields at a change of segments.
\<close>

unbundle bit_operations_syntax

section \<open>The way of a packet\<close>

definition mac_ok :: "(bytes \<Rightarrow> bytes) \<Rightarrow> InfoField \<Rightarrow> HopField \<Rightarrow> bool" where
  "mac_ok key info hf \<longleftrightarrow> take MacLen (Mac hf) = take MacLen (FullMAC key info hf (replicate MACBufferSize 0))"

definition verifies :: "(bytes \<Rightarrow> bytes) \<Rightarrow> Decoded \<Rightarrow> bool" where
  "verifies key d \<longleftrightarrow> mac_ok key (cur_info d) (cur_hop d)"

text \<open>Whether a packet that starts, or arrives, at a hop is accepted by all ASes up to the last; \<open>n\<close> bounds their number. An AS
  uses the key of the hop at which the packet arrives.\<close>

fun journey :: "(nat \<Rightarrow> bytes \<Rightarrow> bytes) \<Rightarrow> nat \<Rightarrow> bool \<Rightarrow> Decoded \<Rightarrow> bool" where
  "journey key 0 first d = False"
| "journey key (Suc n) first d =
    (case determinePeer (PathMeta d) (cur_info d) of
       Ok peer \<Rightarrow>
         let d1 = chain_segid (\<not> ConsDir (cur_info d) \<and> \<not> first \<and> \<not> peer) d; x = (IsXover d1 \<and> \<not> peer);
             d2 = (if x then fst (Base_IncPath d1) else d1); k = key (unat (CurrHF (PathMeta d))) in
         verifies k d1 \<and> (x \<longrightarrow> verifies k d2)
         \<and> (uint (CurrHF (PathMeta d2)) = NumHops d2 - 1 \<or> journey key n False (forward_path (if first then 0 else 1) peer True d))
     | _ \<Rightarrow> False)"

section \<open>Paths that verify\<close>

definition hop_inf :: "Decoded \<Rightarrow> nat \<Rightarrow> nat" where
  "hop_inf d h = unat (infIndexForHF d (word_of_nat h))"

definition info_at :: "Decoded \<Rightarrow> nat \<Rightarrow> InfoField" where
  "info_at d h = InfoFields d ! hop_inf d h"

definition peer_hop :: "Decoded \<Rightarrow> nat \<Rightarrow> bool" where
  "peer_hop d h \<longleftrightarrow> Peer (info_at d h) \<and> (h + 1 = unat (SegLen (PathMeta d) ! 0) \<or> h = unat (SegLen (PathMeta d) ! 0))"

definition sigma_at :: "Decoded \<Rightarrow> nat \<Rightarrow> u16" where
  "sigma_at d h = be_u16 (take 2 (Mac (HopFields d ! h)))"

text \<open>\<open>need h\<close> is the segment identifier with which hop field \<open>h\<close> verifies.\<close>

definition chained :: "Decoded \<Rightarrow> (nat \<Rightarrow> bytes \<Rightarrow> bytes) \<Rightarrow> (nat \<Rightarrow> u16) \<Rightarrow> bool" where
  "chained d key need \<longleftrightarrow> usable d
     \<and> (\<forall>h. h < length (HopFields d) \<longrightarrow> mac_ok (key h) ((info_at d h)\<lparr>SegID := need h\<rparr>) (HopFields d ! h))
     \<and> (\<forall>h. h < length (HopFields d) \<and> (h = 0 \<or> hop_inf d (h - 1) \<noteq> hop_inf d h) \<longrightarrow> SegID (info_at d h) = need h)
     \<and> (\<forall>h. Suc h < length (HopFields d) \<and> hop_inf d (Suc h) = hop_inf d h \<longrightarrow>
          need (Suc h) = need h XOR (if ConsDir (info_at d h) then (if peer_hop d h then 0 else sigma_at d h)
            else (if peer_hop d (Suc h) then 0 else sigma_at d (Suc h))))
     \<and> (\<forall>h. Suc h < length (HopFields d) \<and> hop_inf d (Suc h) \<noteq> hop_inf d h \<longrightarrow>
          (if peer_hop d h then peer_hop d (Suc h) else Suc (Suc h) < length (HopFields d) \<and> hop_inf d (Suc (Suc h)) = hop_inf d (Suc h) \<and> \<not> peer_hop d (Suc h)
             \<and> key (Suc h) = key h))
     \<and> (\<forall>i \<in> set (InfoFields d). Peer i \<longrightarrow> SegLen (PathMeta d) ! 0 \<noteq> 0 \<and> SegLen (PathMeta d) ! 1 \<noteq> 0 \<and> SegLen (PathMeta d) ! 2 = 0)"

text \<open>A path of \<open>d0\<close> on its way, at hop \<open>h\<close> with segment identifier \<open>x\<close>; later segments are untouched.\<close>

definition stands :: "Decoded \<Rightarrow> nat \<Rightarrow> u16 \<Rightarrow> Decoded \<Rightarrow> bool" where
  "stands d0 h x d \<longleftrightarrow> PathMeta d = (PathMeta d0)\<lparr>CurrHF := word_of_nat h, CurrINF := infIndexForHF d0 (word_of_nat h)\<rparr>
     \<and> NumINF d = NumINF d0 \<and> NumHops d = NumHops d0 \<and> HopFields d = HopFields d0 \<and> length (InfoFields d) = length (InfoFields d0)
     \<and> (\<forall>j. hop_inf d0 h < j \<longrightarrow> InfoFields d ! j = InfoFields d0 ! j) \<and> InfoFields d ! hop_inf d0 h = (info_at d0 h)\<lparr>SegID := x\<rparr>"

lemma usable_sizes:
  assumes "usable d"
  shows "NumHops d = int (length (HopFields d))" "NumINF d = int (length (InfoFields d))" "length (HopFields d) \<le> 64" "0 < length (InfoFields d)"
  using assms wf_base_bounds [of d] by (auto simp: usable_def wf_decoded_def ptr_ok_def dest: order.strict_trans1 [OF uint_nonnegative])

lemma hop_inf_range: "usable d \<Longrightarrow> h < length (HopFields d) \<Longrightarrow> hop_inf d h < length (InfoFields d)"
proof -
  assume u: "usable d" and h: "h < length (HopFields d)"
  note z = usable_sizes [OF u]
  have "uint (word_of_nat h :: u8) = int h" using h z(3) by (simp add: uint_nat unat_of_nat take_bit_nat_eq_self)
  then have "uint (infIndexForHF d (word_of_nat h)) < NumINF d"
    using infIndex_range [of d "word_of_nat h"] u h z by (simp add: usable_def wf_decoded_def)
  then show ?thesis unfolding hop_inf_def z(2) int_unat_word [symmetric] by linarith
qed

lemma small_word:
  assumes "h < 256"
  shows "unat (word_of_nat h :: u8) = h" "uint (word_of_nat h :: u8) = int h"
  using assms by (simp_all add: unat_of_nat uint_nat take_bit_nat_eq_self)

lemma hop_inf_mono: "h < 256 \<Longrightarrow> k < 256 \<Longrightarrow> h \<le> k \<Longrightarrow> hop_inf d h \<le> hop_inf d k"
  by (auto simp: hop_inf_def infIndexForHF_def word_less_nat_alt small_word)

lemma hop_inf_word: "unat (infIndexForHF d (word_of_nat h)) = hop_inf d h"
  by (simp add: hop_inf_def)

lemma hop_inf_eq_iff: "infIndexForHF d (word_of_nat h) = infIndexForHF d (word_of_nat k) \<longleftrightarrow> hop_inf d h = hop_inf d k"
  by (simp add: hop_inf_def word_unat_eq_iff)

lemma stands_frame:
  assumes "stands d0 h x d"
  shows "SegLen (PathMeta d) = SegLen (PathMeta d0)" "CurrHF (PathMeta d) = word_of_nat h" "CurrINF (PathMeta d) = infIndexForHF d0 (word_of_nat h)"
    "infIndexForHF d = infIndexForHF d0" "NumINF d = NumINF d0" "NumHops d = NumHops d0" "HopFields d = HopFields d0"
  using assms by (simp_all add: stands_def infIndexForHF_def fun_eq_iff)

lemma stands_cur:
  assumes "stands d0 h x d" and "h < 256"
  shows "cur_info d = (info_at d0 h)\<lparr>SegID := x\<rparr>" "cur_hop d = HopFields d0 ! h"
  using assms stands_frame [OF assms(1)] by (simp_all add: cur_info_def cur_hop_def hop_inf_word small_word) (simp add: stands_def)

lemma stands_peer:
  assumes "stands d0 h x d" and "h < 255"
    and "Peer (info_at d0 h) \<longrightarrow> SegLen (PathMeta d0) ! 0 \<noteq> 0 \<and> SegLen (PathMeta d0) ! 1 \<noteq> 0 \<and> SegLen (PathMeta d0) ! 2 = 0"
  shows "determinePeer (PathMeta d) (cur_info d) = Ok (peer_hop d0 h)"
proof -
  have "(word_of_nat h = s - 1) \<longleftrightarrow> h + 1 = unat s" "(word_of_nat h = s) \<longleftrightarrow> h = unat s" for s :: u8
  proof -
    have "word_of_nat h = s - 1 \<longleftrightarrow> word_of_nat (Suc h) = s" by (simp add: algebra_simps)
    then show "(word_of_nat h = s - 1) \<longleftrightarrow> h + 1 = unat s" "(word_of_nat h = s) \<longleftrightarrow> h = unat s"
      using assms(2) small_word(1) [of h] small_word(1) [of "Suc h"] by (auto simp: word_unat_eq_iff simp del: of_nat_Suc)
  qed
  then show ?thesis using assms(2,3) stands_frame [OF assms(1)] stands_cur [OF assms(1)]
    by (auto simp: determinePeer_def peer_hop_def Let_def)
qed

lemma stands_chain:
  assumes "stands d0 h x d" and "h < 256" and "hop_inf d0 h < length (InfoFields d0)"
  shows "stands d0 h (x XOR (if b then sigma_at d0 h else 0)) (chain_segid b d)"
proof (cases b)
  case True
  have "unat (CurrINF (PathMeta d)) = hop_inf d0 h" using stands_frame(3) [OF assms(1)] by (simp add: hop_inf_word)
  then show ?thesis using True assms stands_cur [OF assms(1,2)]
    by (simp add: stands_def chain_segid_def UpdateSegID_def sigma_at_def)
qed (use assms in \<open>simp add: chain_segid_def\<close>)

lemma stands_inc:
  assumes "stands d0 h x d" and "usable d0" and "Suc h < length (HopFields d0)"
  shows "stands d0 (Suc h) (if hop_inf d0 (Suc h) = hop_inf d0 h then x else SegID (info_at d0 (Suc h))) (fst (Base_IncPath d))"
proof -
  note z = usable_sizes [OF assms(2)] and f = stands_frame [OF assms(1)]
  have h: "h < 256" "Suc h < 256" using assms(3) z(3) by simp_all
  have "\<not> NumHops d - 1 \<le> uint (CurrHF (PathMeta d))" "NumINF d \<noteq> 0"
    using f z(1,2,4) assms(3) small_word(2) [OF h(1)] by simp_all
  then have inc: "fst (Base_IncPath d) = d\<lparr>PathMeta := (PathMeta d)\<lparr>CurrHF := word_of_nat (Suc h), CurrINF := infIndexForHF d0 (word_of_nat (Suc h))\<rparr>\<rparr>"
    using f(2,4) by (simp add: Base_IncPath_def Let_def add.commute)
  have "hop_inf d0 h \<le> hop_inf d0 (Suc h)" using h by (intro hop_inf_mono) simp_all
  moreover have "InfoFields d ! hop_inf d0 (Suc h) = (info_at d0 (Suc h))\<lparr>SegID := (if hop_inf d0 (Suc h) = hop_inf d0 h then x else SegID (info_at d0 (Suc h)))\<rparr>"
    using assms(1) calculation by (auto simp: stands_def info_at_def)
  ultimately show ?thesis using assms(1) unfolding inc by (simp add: stands_def)
qed

lemma stands_xover:
  assumes "stands d0 h x d" and "usable d0" and "h < length (HopFields d0)"
  shows "IsXover d \<longleftrightarrow> Suc h < length (HopFields d0) \<and> hop_inf d0 (Suc h) \<noteq> hop_inf d0 h"
proof -
  note z = usable_sizes [OF assms(2)] and f = stands_frame [OF assms(1)]
  have "word_of_nat (Suc h) < (word_of_int (NumHops d0) :: u8) \<longleftrightarrow> Suc h < length (HopFields d0)"
    using assms(3) z(1,3) by (simp add: word_less_nat_alt small_word del: of_nat_Suc)
  moreover have "CurrHF (PathMeta d) + 1 = word_of_nat (Suc h)" using f(2) by (simp add: add.commute)
  ultimately show ?thesis using f hop_inf_eq_iff [of d0 h "Suc h"] by (auto simp: IsXover_def simp del: of_nat_Suc)
qed

section \<open>Every AS accepts\<close>

text \<open>The segment identifier with which a packet arrives at hop \<open>h\<close> from another AS.\<close>

definition arrives :: "Decoded \<Rightarrow> (nat \<Rightarrow> u16) \<Rightarrow> nat \<Rightarrow> u16" where
  "arrives d need h = need h XOR (if \<not> ConsDir (info_at d h) \<and> \<not> peer_hop d h then sigma_at d h else 0)"

lemma chainedD:
  assumes "chained d key need"
  shows "usable d"
    "h < length (HopFields d) \<Longrightarrow> mac_ok (key h) ((info_at d h)\<lparr>SegID := need h\<rparr>) (HopFields d ! h)"
    "Suc h < length (HopFields d) \<Longrightarrow> hop_inf d (Suc h) \<noteq> hop_inf d h \<Longrightarrow> SegID (info_at d (Suc h)) = need (Suc h)"
    "0 < length (HopFields d) \<Longrightarrow> SegID (info_at d 0) = need 0"
    "Suc h < length (HopFields d) \<Longrightarrow> hop_inf d (Suc h) = hop_inf d h \<Longrightarrow> need (Suc h) = need h XOR
       (if ConsDir (info_at d h) then (if peer_hop d h then 0 else sigma_at d h) else (if peer_hop d (Suc h) then 0 else sigma_at d (Suc h)))"
    "Suc h < length (HopFields d) \<Longrightarrow> hop_inf d (Suc h) \<noteq> hop_inf d h \<Longrightarrow> peer_hop d h \<Longrightarrow> peer_hop d (Suc h)"
    "Suc h < length (HopFields d) \<Longrightarrow> hop_inf d (Suc h) \<noteq> hop_inf d h \<Longrightarrow> \<not> peer_hop d h \<Longrightarrow>
       Suc (Suc h) < length (HopFields d) \<and> hop_inf d (Suc (Suc h)) = hop_inf d (Suc h) \<and> \<not> peer_hop d (Suc h) \<and> key (Suc h) = key h"
    "h < length (HopFields d) \<Longrightarrow> Peer (info_at d h) \<longrightarrow> SegLen (PathMeta d) ! 0 \<noteq> 0 \<and> SegLen (PathMeta d) ! 1 \<noteq> 0 \<and> SegLen (PathMeta d) ! 2 = 0"
proof -
  note c = assms [unfolded chained_def]
  show u: "usable d" using c by blast
  show "h < length (HopFields d) \<Longrightarrow> mac_ok (key h) ((info_at d h)\<lparr>SegID := need h\<rparr>) (HopFields d ! h)" using c by blast
  show "SegID (info_at d (Suc h)) = need (Suc h)" if "Suc h < length (HopFields d)" "hop_inf d (Suc h) \<noteq> hop_inf d h"
    using c that by (metis diff_Suc_1)
  show "0 < length (HopFields d) \<Longrightarrow> SegID (info_at d 0) = need 0" using c by blast
  show "need (Suc h) = need h XOR (if ConsDir (info_at d h) then (if peer_hop d h then 0 else sigma_at d h)
      else (if peer_hop d (Suc h) then 0 else sigma_at d (Suc h)))" if "Suc h < length (HopFields d)" "hop_inf d (Suc h) = hop_inf d h"
    using c that by blast
  show "peer_hop d (Suc h)" if "Suc h < length (HopFields d)" "hop_inf d (Suc h) \<noteq> hop_inf d h" "peer_hop d h" using c that by meson
  show "Suc (Suc h) < length (HopFields d) \<and> hop_inf d (Suc (Suc h)) = hop_inf d (Suc h) \<and> \<not> peer_hop d (Suc h) \<and> key (Suc h) = key h"
    if "Suc h < length (HopFields d)" "hop_inf d (Suc h) \<noteq> hop_inf d h" "\<not> peer_hop d h" using c that by meson
  show "Peer (info_at d h) \<longrightarrow> SegLen (PathMeta d) ! 0 \<noteq> 0 \<and> SegLen (PathMeta d) ! 1 \<noteq> 0 \<and> SegLen (PathMeta d) ! 2 = 0" if "h < length (HopFields d)"
  proof -
    have "info_at d h \<in> set (InfoFields d)" using hop_inf_range [OF u that] by (simp add: info_at_def)
    then show ?thesis using c by blast
  qed
qed

lemma verifies_stands:
  assumes "chained d0 key need" and "stands d0 h (need h) d" and "h < length (HopFields d0)"
  shows "verifies (key h) d"
proof -
  have "h < 256" using usable_sizes(3) [OF chainedD(1) [OF assms(1)]] assms(3) by simp
  then show ?thesis using stands_cur [OF assms(2)] chainedD(2) [OF assms(1,3)]
    by (simp add: verifies_def)
qed

lemma leave_hop:
  assumes c: "chained d0 key need" and s: "stands d0 h (need h) d" and h: "Suc h < length (HopFields d0)"
    and same: "hop_inf d0 (Suc h) = hop_inf d0 h \<or> peer_hop d0 h"
  shows "stands d0 (Suc h) (arrives d0 need (Suc h)) (fst (Base_IncPath (chain_segid (ConsDir (cur_info d) \<and> \<not> peer_hop d0 h) d)))"
proof -
  note u = chainedD(1) [OF c]
  have h': "h < 256" "hop_inf d0 h < length (InfoFields d0)" using usable_sizes(3) [OF u] hop_inf_range [OF u, of h] h by simp_all
  let ?b = "ConsDir (info_at d0 h) \<and> \<not> peer_hop d0 h"
  have b: "(ConsDir (cur_info d) \<and> \<not> peer_hop d0 h) = ?b" using stands_cur(1) [OF s h'(1)] by simp
  have st: "stands d0 (Suc h) (if hop_inf d0 (Suc h) = hop_inf d0 h then need h XOR (if ?b then sigma_at d0 h else 0) else SegID (info_at d0 (Suc h)))
      (fst (Base_IncPath (chain_segid ?b d)))"
    by (rule stands_inc [OF stands_chain [OF s h'] u h])
  have "(if hop_inf d0 (Suc h) = hop_inf d0 h then need h XOR (if ?b then sigma_at d0 h else 0) else SegID (info_at d0 (Suc h))) = arrives d0 need (Suc h)"
  proof (cases "hop_inf d0 (Suc h) = hop_inf d0 h")
    case True
    then have "info_at d0 (Suc h) = info_at d0 h" by (simp add: info_at_def)
    then show ?thesis using True chainedD(5) [OF c h True] by (simp add: arrives_def xor.assoc)
  next
    case False
    then show ?thesis using same chainedD(3,6) [OF c h False] by (simp add: arrives_def)
  qed
  then show ?thesis using st unfolding b by simp
qed

lemma journey_step:
  assumes "determinePeer (PathMeta d) (cur_info d) = Ok peer" and d1: "d1 = chain_segid (\<not> ConsDir (cur_info d) \<and> \<not> first \<and> \<not> peer) d"
    and d2: "d2 = (if IsXover d1 \<and> \<not> peer then fst (Base_IncPath d1) else d1)" 
    and "verifies (key (unat (CurrHF (PathMeta d)))) d1" and "verifies (key (unat (CurrHF (PathMeta d)))) d2"
    and "uint (CurrHF (PathMeta d2)) = NumHops d2 - 1 \<or> journey key n False (fst (Base_IncPath (chain_segid (ConsDir (cur_info d2) \<and> \<not> peer) d2)))"
  shows "journey key (Suc n) first d"
proof -
  have "(\<not> ConsDir (cur_info d) \<and> (if first then 0 else 1 :: u16) \<noteq> 0 \<and> \<not> peer) = (\<not> ConsDir (cur_info d) \<and> \<not> first \<and> \<not> peer)" by simp
  then have fwd: "forward_path (if first then 0 else 1) peer True d = fst (Base_IncPath (chain_segid (ConsDir (cur_info d2) \<and> \<not> peer) d2))"
    unfolding forward_path_def d1 d2 by (simp only: Let_def if_True)
  show ?thesis unfolding journey.simps assms(1) Let_def result.case fwd using assms(4-6) unfolding d1 [symmetric] d2 [symmetric] by blast
qed

lemma journey_from:
  assumes c: "chained d0 key need"
  shows "h < length (HopFields d0) \<Longrightarrow> length (HopFields d0) \<le> n + h \<Longrightarrow> stands d0 h (if first then need h else arrives d0 need h) d
    \<Longrightarrow> journey key n first d"
proof (induction n arbitrary: h first d)
  case (Suc n)
  note u = chainedD(1) [OF c] and s = Suc.prems(3)
  note z = usable_sizes [OF u]
  have h: "h < 255" "h < 256" "hop_inf d0 h < length (InfoFields d0)"
    using z(3) Suc.prems(1) hop_inf_range [OF u Suc.prems(1)] by simp_all
  let ?peer = "peer_hop d0 h"
  define d1 where "d1 = chain_segid (\<not> ConsDir (cur_info d) \<and> \<not> first \<and> \<not> peer_hop d0 h) d"
  define d2 where "d2 = (if IsXover d1 \<and> \<not> ?peer then fst (Base_IncPath d1) else d1)"
  note step = journey_step [OF stands_peer [OF s h(1) chainedD(8) [OF c Suc.prems(1)]] d1_def d2_def]
  have "ConsDir (cur_info d) = ConsDir (info_at d0 h)" using stands_cur(1) [OF s h(2)] by simp
  then have d1: "stands d0 h (need h) d1"
    using stands_chain [OF s h(2,3), of "\<not> ConsDir (cur_info d) \<and> \<not> first \<and> \<not> peer_hop d0 h"] unfolding d1_def
    by (cases first) (simp_all add: arrives_def xor.assoc split: if_splits)
  have k: "unat (CurrHF (PathMeta d)) = h" using stands_frame(2) [OF s] small_word(1) [OF h(2)] by simp
  note v1 = verifies_stands [OF c d1 Suc.prems(1)] and x = stands_xover [OF d1 u Suc.prems(1)]
  show ?case
  proof (cases "IsXover d1 \<and> \<not> ?peer")
    case True
    then have hx: "Suc h < length (HopFields d0)" "hop_inf d0 (Suc h) \<noteq> hop_inf d0 h" "\<not> ?peer" using x by auto
    have d2: "stands d0 (Suc h) (need (Suc h)) d2"
      using True stands_inc [OF d1 u hx(1)] chainedD(3) [OF c hx(1,2)] hx(2) by (simp add: d2_def)
    note n2 = chainedD(7) [OF c hx]
    have "stands d0 (Suc (Suc h)) (arrives d0 need (Suc (Suc h))) (fst (Base_IncPath (chain_segid (ConsDir (cur_info d2) \<and> \<not> peer_hop d0 (Suc h)) d2)))"
      using n2 by (intro leave_hop [OF c d2]) auto
    then have "journey key n False (fst (Base_IncPath (chain_segid (ConsDir (cur_info d2) \<and> \<not> ?peer) d2)))"
      using n2 hx(3) Suc.prems(2) by (intro Suc.IH [of "Suc (Suc h)"]) auto
    then show ?thesis using step k v1 verifies_stands [OF c d2 hx(1)] n2 by simp
  next
    case False
    then have d2: "d2 = d1" by (auto simp: d2_def)
    show ?thesis
    proof (cases "Suc h < length (HopFields d0)")
      case True
      then have "stands d0 (Suc h) (arrives d0 need (Suc h)) (fst (Base_IncPath (chain_segid (ConsDir (cur_info d1) \<and> \<not> ?peer) d1)))"
        using False x by (intro leave_hop [OF c d1]) auto
      then have "journey key n False (fst (Base_IncPath (chain_segid (ConsDir (cur_info d1) \<and> \<not> ?peer) d1)))"
        using True Suc.prems(2) by (intro Suc.IH [of "Suc h"]) auto
      then show ?thesis using step k v1 d2 by simp
    next
      case False
      then have "uint (CurrHF (PathMeta d1)) = NumHops d1 - 1"
        using stands_frame(2,6) [OF d1] z(1) small_word(2) [OF h(2)] Suc.prems(1) by simp
      then show ?thesis using step k v1 d2 by simp
    qed
  qed
qed simp

lemma chained_journey:
  assumes "chained d key need" and "CurrHF (PathMeta d) = 0" and "HopFields d \<noteq> []"
  shows "journey key (length (HopFields d)) True d"
proof (rule journey_from [OF assms(1), of 0])
  have "CurrINF (PathMeta d) = infIndexForHF d 0" using chainedD(1) [OF assms(1)] assms(2) by (simp add: usable_def ptr_consistent_def)
  then show "stands d 0 (if True then need 0 else arrives d need 0) d"
    using assms chainedD(4) [OF assms(1)] by (simp add: stands_def info_at_def hop_inf_def)
qed (use assms(3) in simp_all)

end
