(* ===== verification/EndToEnd.thy ===== *)
theory EndToEnd
  imports PathSearch Journey
begin

text \<open>
  From beacons to packets: the paths that the combinator builds from segments with intact MAC chains are accepted by every
  AS on the way.
\<close>

unbundle bit_operations_syntax

section \<open>The hops of one edge\<close>

definition edgeLen :: "'f solutionEdge \<Rightarrow> nat" where
  "edgeLen se = length (edgeEntries se) - Shortcut (seEdge se)"

text \<open>The entry behind hop \<open>k\<close> of the edge, in forwarding order.\<close>

definition hopIdx :: "'f solutionEdge \<Rightarrow> nat \<Rightarrow> nat" where
  "hopIdx se k = (if IsDownSeg (seSegment se) then Shortcut (seEdge se) + k else length (edgeEntries se) - 1 - k)"

definition edgeBeta :: "'f solutionEdge \<Rightarrow> nat \<Rightarrow> u16" where
  "edgeBeta se = beta_of (SegmentID (segInfo (isSeg (seSegment se)))) (edgeEntries se)"

definition edgeNeed :: "'f solutionEdge \<Rightarrow> nat \<Rightarrow> u16" where
  "edgeNeed se k = (let i = hopIdx se k in if isPeerHop se i then edgeBeta se (Suc i) else edgeBeta se i)"

definition edge_ok :: "(IA \<Rightarrow> bytes \<Rightarrow> bytes) \<Rightarrow> 'f solutionEdge \<Rightarrow> bool" where
  "edge_ok keys se \<longleftrightarrow> seg_auth keys (isSeg (seSegment se)) \<and> Shortcut (seEdge se) < length (edgeEntries se)
     \<and> PeerIdx (seEdge se) \<le> length (PeerEntries (edgeEntries se ! Shortcut (seEdge se)))
     \<and> (PeerIdx (seEdge se) = 0 \<longrightarrow> 2 \<le> edgeLen se)"

lemma hopIdx_range: "edge_ok keys se \<Longrightarrow> k < edgeLen se \<Longrightarrow> hopIdx se k < length (edgeEntries se) \<and> Shortcut (seEdge se) \<le> hopIdx se k"
  by (auto simp: hopIdx_def edgeLen_def edge_ok_def)

lemma edge_hops:
  assumes "edge_ok keys se"
  shows "length (sgHops (edgeSegment se)) = edgeLen se" "length (sgEntries (edgeSegment se)) = edgeLen se"
    "k < edgeLen se \<Longrightarrow> sgHops (edgeSegment se) ! k = toHop (hopAt se (hopIdx se k))"
    "k < edgeLen se \<Longrightarrow> sgEntries (edgeSegment se) ! k = edgeEntries se ! hopIdx se k"
  using assms by (auto simp: edgeSegment_def edgeLen_def edgeIdx_def Let_def hopIdx_def rev_map [symmetric] rev_nth edge_ok_def)

lemma calculateBeta_eq: "edge_ok keys se \<Longrightarrow> calculateBeta se = edgeNeed se 0"
proof -
  assume ok: "edge_ok keys se"
  have f: "foldl (\<lambda>beta a. beta XOR hop_sigma a) b (take i es) = beta_of b es i" if "i \<le> length es" for b i and es :: "'a ASEntry list"
    using that beta_of_all [of b "take i es"] beta_of_append [of i "take i es" b "drop i es"] by simp
  show ?thesis using ok f unfolding calculateBeta_def edgeNeed_def edgeBeta_def Let_def hopIdx_def isPeerHop_def edge_ok_def hop_sigma_def
    by auto
qed

lemma hop_sigma_hop: "\<not> isPeerHop se i \<Longrightarrow> be_u16 (take 2 (Mac (toHop (hopAt se i)))) = hop_sigma (edgeEntries se ! i)"
  by (simp add: toHop_def hopAt_def hop_sigma_def)

lemma edgeBeta_Suc: "i < length (edgeEntries se) \<Longrightarrow> edgeBeta se (Suc i) = edgeBeta se i XOR hop_sigma (edgeEntries se ! i)"
  by (simp add: edgeBeta_def beta_of_Suc)

lemma edgeNeed_Suc:
  assumes ok: "edge_ok keys se" and k: "Suc k < edgeLen se"
  shows "edgeNeed se (Suc k) = edgeNeed se k XOR
    (if IsDownSeg (seSegment se) then (if isPeerHop se (hopIdx se k) then 0 else be_u16 (take 2 (Mac (toHop (hopAt se (hopIdx se k))))))
     else (if isPeerHop se (hopIdx se (Suc k)) then 0 else be_u16 (take 2 (Mac (toHop (hopAt se (hopIdx se (Suc k))))))))"
proof -
  note r = hopIdx_range [OF ok, of k] hopIdx_range [OF ok k]
  show ?thesis
  proof (cases "IsDownSeg (seSegment se)")
    case True
    then have i: "hopIdx se (Suc k) = Suc (hopIdx se k)" by (simp add: hopIdx_def)
    then have "\<not> isPeerHop se (hopIdx se (Suc k))" using r k by (auto simp: isPeerHop_def)
    then show ?thesis using True i r k by (simp add: edgeNeed_def Let_def hop_sigma_hop edgeBeta_Suc)
  next
    case False
    then have i: "hopIdx se k = Suc (hopIdx se (Suc k))" using k r by (auto simp: hopIdx_def edgeLen_def)
    then have "\<not> isPeerHop se (hopIdx se k)" using r k by (auto simp: isPeerHop_def)
    then show ?thesis using False i r k by (simp add: edgeNeed_def Let_def hop_sigma_hop edgeBeta_Suc xor.assoc)
  qed
qed

lemma edge_auth:
  assumes ok: "edge_ok keys se" and k: "k < edgeLen se"
  shows "hop_auth (keys (Local (edgeEntries se ! hopIdx se k))) (edgeNeed se k)
    (Segment.TimeToSecs (infoTimestamp (segInfo (isSeg (seSegment se))))) (hopAt se (hopIdx se k))"
proof -
  let ?i = "hopIdx se k" and ?es = "edgeEntries se" and ?ts = "Segment.TimeToSecs (infoTimestamp (segInfo (isSeg (seSegment se))))"
  have i: "?i < length ?es" using hopIdx_range [OF ok k] by simp
  have auth: "hop_auth (keys (Local (?es ! ?i))) (edgeBeta se ?i) ?ts (heHopField (hopEntry (?es ! ?i)))"
      "p \<in> set (PeerEntries (?es ! ?i)) \<Longrightarrow> hop_auth (keys (Local (?es ! ?i))) (edgeBeta se (Suc ?i)) ?ts (peHopField p)" for p
    using ok i by (auto simp: edge_ok_def seg_auth_def Let_def edgeBeta_def edgeEntries_def)
  have "peerOf se ?i \<in> set (PeerEntries (?es ! ?i))" if "isPeerHop se ?i"
    using that ok by (auto simp: isPeerHop_def peerOf_def edge_ok_def intro!: nth_mem)
  then show ?thesis using auth by (auto simp: edgeNeed_def hopAt_def Let_def)
qed

lemma edge_mac:
  assumes ok: "edge_ok keys se" and k: "k < edgeLen se"
  shows "mac_ok (keys (Local (sgEntries (edgeSegment se) ! k))) ((sgInfo (edgeSegment se))\<lparr>SegID := edgeNeed se k\<rparr>) (sgHops (edgeSegment se) ! k)"
  using edge_auth [OF ok k] edge_hops(3,4) [OF ok k]
  by (simp add: mac_ok_def hop_auth_def toHop_def FullMAC_def edgeSegment_def Let_def MacLen_def)

section \<open>Positions on the whole path\<close>

fun loc :: "nat list \<Rightarrow> nat \<Rightarrow> nat \<times> nat" where
  "loc [] h = (0, h)"
| "loc (l # ls) h = (if h < l then (0, h) else case loc ls (h - l) of (j, k) \<Rightarrow> (Suc j, k))"

lemma loc_range: "h < sum_list ls \<Longrightarrow> loc ls h = (j, k) \<Longrightarrow> j < length ls \<and> k < ls ! j \<and> h = sum_list (take j ls) + k"
proof (induction ls h arbitrary: j k rule: loc.induct)
  case (2 l ls h)
  show ?case
  proof (cases "h < l")
    case False
    obtain j' k' where r: "loc ls (h - l) = (j', k')" by (cases "loc ls (h - l)")
    then have "j = Suc j'" "k = k'" using 2(3) False by auto
    moreover have "h - l < sum_list ls" using 2(2) False by auto
    ultimately show ?thesis using 2(1) [OF False _ r] False by auto
  qed (use 2(3) in auto)
qed simp

lemma loc_at: "j < length ls \<Longrightarrow> k < ls ! j \<Longrightarrow> loc ls (sum_list (take j ls) + k) = (j, k)"
proof (induction ls arbitrary: j)
  case (Cons l ls)
  then show ?case by (cases j) auto
qed simp

lemma concat_loc: "h < sum_list (map length xss) \<Longrightarrow> loc (map length xss) h = (j, k) \<Longrightarrow> concat xss ! h = xss ! j ! k"
proof (induction xss arbitrary: h j)
  case (Cons xs xss)
  show ?case
  proof (cases "h < length xs")
    case False
    obtain j' k' where r: "loc (map length xss) (h - length xs) = (j', k')" by (cases "loc (map length xss) (h - length xs)")
    then have jk: "j = Suc j'" "k = k'" using Cons.prems(2) False by auto
    have "h - length xs < sum_list (map length xss)" using Cons.prems(1) False by auto
    from Cons.IH [OF this, of j'] r jk False show ?thesis by (simp add: nth_append)
  qed (use Cons.prems in \<open>auto simp: nth_append\<close>)
qed simp

lemma loc_Suc:
  assumes "Suc h < sum_list ls" and "loc ls h = (j, k)" and "\<forall>l \<in> set ls. 0 < l"
  shows "loc ls (Suc h) = (if Suc k < ls ! j then (j, Suc k) else (Suc j, 0))" "Suc k < ls ! j \<or> Suc j < length ls"
proof -
  have r: "j < length ls" "k < ls ! j" "h = sum_list (take j ls) + k" using loc_range [of h ls j k] assms by auto
  have t: "sum_list (take (Suc j) ls) = sum_list (take j ls) + ls ! j" using r(1) by (simp add: take_Suc_conv_app_nth)
  show c: "Suc k < ls ! j \<or> Suc j < length ls"
  proof (rule ccontr)
    assume "\<not> (Suc k < ls ! j \<or> Suc j < length ls)"
    then have "Suc j = length ls" "Suc k = ls ! j" using r by auto
    then show False using t assms(1) r(3) by simp
  qed
  show "loc ls (Suc h) = (if Suc k < ls ! j then (j, Suc k) else (Suc j, 0))"
  proof (cases "Suc k < ls ! j")
    case True
    then show ?thesis using loc_at [OF r(1) True] r(3) by simp
  next
    case False
    then have "Suc j < length ls" "Suc h = sum_list (take (Suc j) ls) + 0" using c r t by auto
    then show ?thesis using loc_at [of "Suc j" ls 0] assms(3) False by simp
  qed
qed

definition edgeLens :: "'f solutionEdge list \<Rightarrow> nat list" where
  "edgeLens ses = map edgeLen ses"

definition pathNeed :: "'f solutionEdge list \<Rightarrow> nat \<Rightarrow> u16" where
  "pathNeed ses h = (case loc (edgeLens ses) h of (j, k) \<Rightarrow> edgeNeed (ses ! j) k)"

definition pathASes :: "'f solutionEdge list \<Rightarrow> IA list" where
  "pathASes ses = map Local (concat (map sgEntries (map edgeSegment ses)))"

text \<open>What the search guarantees of the edges of a solution.\<close>

definition joined :: "'f solutionEdge list \<Rightarrow> bool" where
  "joined ses \<longleftrightarrow> ((\<forall>x \<in> set ses. PeerIdx (seEdge x) = 0)
       \<and> (\<forall>j. Suc j < length ses \<longrightarrow> Local (edgeEntries (ses ! j) ! hopIdx (ses ! j) (edgeLen (ses ! j) - 1)) = Local (edgeEntries (ses ! Suc j) ! hopIdx (ses ! Suc j) 0)))
     \<or> (\<exists>a b. ses = [a, b] \<and> PeerIdx (seEdge a) \<noteq> 0 \<and> PeerIdx (seEdge b) \<noteq> 0 \<and> \<not> IsDownSeg (seSegment a) \<and> IsDownSeg (seSegment b))"

definition sized :: "'f solutionEdge list \<Rightarrow> bool" where
  "sized ses \<longleftrightarrow> ses \<noteq> [] \<and> length ses \<le> 3 \<and> (\<forall>x \<in> set ses. edgeLen x < 64) \<and> sum_list (edgeLens ses) \<le> 64"

lemma lens_pos: "\<forall>x \<in> set ses. edge_ok keys x \<Longrightarrow> \<forall>l \<in> set (edgeLens ses). 0 < l"
  by (auto simp: edgeLens_def edgeLen_def edge_ok_def)

lemma path_parts:
  assumes ok: "\<forall>x \<in> set ses. edge_ok keys x" and h: "h < sum_list (edgeLens ses)" and jk: "loc (edgeLens ses) h = (j, k)"
  shows "j < length ses" "k < edgeLen (ses ! j)" "HopFields (decodedPath (map edgeSegment ses)) ! h = sgHops (edgeSegment (ses ! j)) ! k"
    "pathASes ses ! h = Local (sgEntries (edgeSegment (ses ! j)) ! k)"
proof -
  have l: "edgeLens ses = map length (map sgHops (map edgeSegment ses))" "edgeLens ses = map length (map sgEntries (map edgeSegment ses))"
    using ok by (auto simp: edgeLens_def edge_hops(1,2) [of keys])
  show j: "j < length ses" "k < edgeLen (ses ! j)" using loc_range [OF h jk] by (auto simp: edgeLens_def)
  show "HopFields (decodedPath (map edgeSegment ses)) ! h = sgHops (edgeSegment (ses ! j)) ! k"
    using concat_loc [of h "map sgHops (map edgeSegment ses)" j k] h jk j l(1) by (simp add: decodedPath_def comp_def)
  have "h < length (concat (map sgEntries (map edgeSegment ses)))" using h l(2) by (simp add: length_concat comp_def)
  then show "pathASes ses ! h = Local (sgEntries (edgeSegment (ses ! j)) ! k)"
    using concat_loc [of h "map sgEntries (map edgeSegment ses)" j k] h jk j l(2) by (simp add: pathASes_def comp_def)
qed

text \<open>A path of one, two or three segments; unused lengths are zero.\<close>

lemma path_facts:
  assumes "\<forall>x \<in> set ses. edge_ok keys x" and d: "d = decodedPath (map edgeSegment ses)"
  shows "SegLen (PathMeta d) = map word_of_nat (edgeLens ses) @ replicate (3 - length ses) 0"
    "NumINF d = int (length ses)" "NumHops d = int (sum_list (edgeLens ses))" "InfoFields d = map (\<lambda>x. sgInfo (edgeSegment x)) ses"
    "length (HopFields d) = sum_list (edgeLens ses)" "CurrINF (PathMeta d) = 0" "CurrHF (PathMeta d) = 0"
proof -
  have l: "map (\<lambda>x. length (sgHops (edgeSegment x))) ses = edgeLens ses" using assms(1) by (auto simp: edgeLens_def edge_hops(1) [of keys])
  then show "length (HopFields d) = sum_list (edgeLens ses)" "NumHops d = int (sum_list (edgeLens ses))"
    by (simp_all add: d decodedPath_def length_concat comp_def)
  show "SegLen (PathMeta d) = map word_of_nat (edgeLens ses) @ replicate (3 - length ses) 0"
    by (simp add: d decodedPath_def comp_def flip: l)
qed (simp_all add: d decodedPath_def comp_def)

lemma list_1_2_3: "xs \<noteq> [] \<Longrightarrow> length xs \<le> 3 \<Longrightarrow> (\<exists>a. xs = [a]) \<or> (\<exists>a b. xs = [a, b]) \<or> (\<exists>a b c. xs = [a, b, c])"
  by (cases xs rule: remdups_adj.cases; cases "tl (tl xs)") auto

lemma path_inf:
  assumes ok: "\<forall>x \<in> set ses. edge_ok keys x" and z: "sized ses" and h: "h < sum_list (edgeLens ses)"
  shows "hop_inf (decodedPath (map edgeSegment ses)) h = fst (loc (edgeLens ses) h)"
proof -
  have len: "length ses = length (edgeLens ses)" by (simp add: edgeLens_def)
  then have ls: "edgeLens ses \<noteq> []" "length (edgeLens ses) \<le> 3" "sum_list (edgeLens ses) \<le> 64" using z by (auto simp: sized_def)
  note seg = path_facts(1) [OF ok refl]
  from list_1_2_3 [OF ls(1,2)] consider a where "edgeLens ses = [a]" | a b where "edgeLens ses = [a, b]" | a b c where "edgeLens ses = [a, b, c]" by auto
  then show ?thesis using h ls(3) seg len
  proof cases
    case (1 a)
    then show ?thesis using h ls(3) seg len by (simp add: hop_inf_def infIndexForHF_def word_less_nat_alt small_word)
  next
    case (2 a b)
    moreover have "unat (word_of_nat a + word_of_nat b :: u8) = a + b" using 2 ls(3) by (simp add: small_word flip: of_nat_add)
    ultimately show ?thesis using h ls(3) seg len by (auto simp: hop_inf_def infIndexForHF_def word_less_nat_alt small_word)
  next
    case (3 a b c)
    moreover have "unat (word_of_nat a + word_of_nat b :: u8) = a + b" using 3 ls(3) by (simp add: small_word flip: of_nat_add)
    ultimately show ?thesis using h ls(3) seg len by (auto simp: hop_inf_def infIndexForHF_def word_less_nat_alt small_word)
  qed
qed

lemma wf_base_lens:
  fixes d :: Decoded
  assumes "SegLen (PathMeta d) = map word_of_nat ls @ replicate (3 - length ls) 0" and "NumINF d = int (length ls)" and "NumHops d = int (sum_list ls)"
    and "CurrINF (PathMeta d) = 0" and "CurrHF (PathMeta d) = 0" and "ls \<noteq> []" and "length ls \<le> 3" and "sum_list ls \<le> 64" and "\<forall>l \<in> set ls. 0 < l \<and> l < 64"
  shows "wf_base d"
proof -
  from list_1_2_3 [OF assms(6,7)] consider a where "ls = [a]" | a b where "ls = [a, b]" | a b c where "ls = [a, b, c]" by auto
  then show ?thesis
    by cases (use assms in \<open>simp_all add: wf_base_def wf_meta_def all_less_3 MaxHops_def word_less_nat_alt small_word sum_list_replicate\<close>)
qed

lemma path_usable:
  assumes ok: "\<forall>x \<in> set ses. edge_ok keys x" and z: "sized ses" and mac: "\<And>ia x. MacLen \<le> length (keys ia x)"
  shows "usable (decodedPath (map edgeSegment ses))"
proof -
  let ?d = "decodedPath (map edgeSegment ses)"
  note f = path_facts [OF ok refl] and pos = lens_pos [OF ok]
  have len: "length ses = length (edgeLens ses)" by (simp add: edgeLens_def)
  then have ls: "edgeLens ses \<noteq> []" "length (edgeLens ses) \<le> 3" "sum_list (edgeLens ses) \<le> 64" "\<forall>l \<in> set (edgeLens ses). l < 64"
    using z by (auto simp: sized_def edgeLens_def)
  have w: "wf_base ?d"
    by (rule wf_base_lens [of ?d "edgeLens ses"]) (use ls pos f len in auto)
  have hop: "wf_hop (HopFields ?d ! h)" if h: "h < sum_list (edgeLens ses)" for h
  proof -
    obtain j k where jk: "loc (edgeLens ses) h = (j, k)" by (cases "loc (edgeLens ses) h")
    note p = path_parts [OF ok h jk]
    have jok: "edge_ok keys (ses ! j)" using ok p(1) by simp
    have "length (hfMAC (hopAt (ses ! j) (hopIdx (ses ! j) k))) = MacLen"
      using edge_auth [OF jok p(2)] mac by (simp add: hop_auth_def)
    then show ?thesis using p(3) edge_hops(3) [OF jok p(2)] by (simp add: wf_hop_def toHop_def)
  qed
  have "list_all wf_hop (HopFields ?d)" using hop f(5) by (simp add: list_all_length)
  moreover have "0 < sum_list (edgeLens ses)" "0 < length ses" using ls(1) pos len by (cases "edgeLens ses"; auto)+
  moreover have "CurrINF (PathMeta ?d) = infIndexForHF ?d 0"
    using path_inf [OF ok z, of 0] calculation(2) ls(1) pos f(6) by (cases "edgeLens ses") (auto simp: hop_inf_def unat_eq_0)
  ultimately show ?thesis using w f by (simp add: usable_def wf_decoded_def ptr_ok_def ptr_consistent_def)
qed

text \<open>The router takes a hop for a peering hop exactly where the combinator put one.\<close>

lemma path_peer_hop:
  assumes ok: "\<forall>x \<in> set ses. edge_ok keys x" and z: "sized ses" and jn: "joined ses"
    and h: "h < sum_list (edgeLens ses)" and jk: "loc (edgeLens ses) h = (j, k)"
  shows "info_at (decodedPath (map edgeSegment ses)) h = sgInfo (edgeSegment (ses ! j))"
    "peer_hop (decodedPath (map edgeSegment ses)) h \<longleftrightarrow> isPeerHop (ses ! j) (hopIdx (ses ! j) k)"
proof -
  let ?d = "decodedPath (map edgeSegment ses)"
  note p = path_parts [OF ok h jk] and f = path_facts [OF ok refl]
  show i: "info_at ?d h = sgInfo (edgeSegment (ses ! j))" using path_inf [OF ok z h] jk f(4) p(1) by (simp add: info_at_def)
  have P: "Peer (sgInfo (edgeSegment x)) \<longleftrightarrow> PeerIdx (seEdge x) \<noteq> 0" for x :: "'a solutionEdge" by (simp add: edgeSegment_def Let_def)
  from jn [unfolded joined_def] show "peer_hop ?d h \<longleftrightarrow> isPeerHop (ses ! j) (hopIdx (ses ! j) k)"
  proof (elim disjE conjE exE)
    assume "\<forall>x \<in> set ses. PeerIdx (seEdge x) = 0"
    then have "PeerIdx (seEdge (ses ! j)) = 0" using p(1) by simp
    then show ?thesis by (simp add: peer_hop_def i P isPeerHop_def)
  next
    fix a b assume ab: "ses = [a, b]" "PeerIdx (seEdge a) \<noteq> 0" "PeerIdx (seEdge b) \<noteq> 0" "\<not> IsDownSeg (seSegment a)" "IsDownSeg (seSegment b)"
    have l: "edgeLens ses = [edgeLen a, edgeLen b]" "edgeLen a < 256" using ab(1) z by (auto simp: edgeLens_def sized_def)
    have sl: "unat (SegLen (PathMeta ?d) ! 0) = edgeLen a" using f(1) l by (simp add: small_word)
    have ka: "Shortcut (seEdge a) < length (edgeEntries a)" "0 < edgeLen a" using ok ab(1) by (auto simp: edge_ok_def edgeLen_def)
    have "j = 0 \<and> k = h \<and> h < edgeLen a \<or> j = 1 \<and> h = edgeLen a + k" using jk l h by (auto split: if_splits)
    then show ?thesis using ab ka unfolding peer_hop_def i sl P by (auto simp: isPeerHop_def hopIdx_def edgeLen_def)
  qed
qed

lemma take_sum_le: "j < length ls \<Longrightarrow> sum_list (take j ls) + ls ! j \<le> sum_list (ls :: nat list)"
  by (metis append_take_drop_id le_add1 sum_list_append take_Suc_conv_app_nth sum_list.Cons sum_list.Nil add_0_right)

lemma path_sigma:
  assumes "\<forall>x \<in> set ses. edge_ok keys x" and "h < sum_list (edgeLens ses)" and "loc (edgeLens ses) h = (j, k)"
  shows "sigma_at (decodedPath (map edgeSegment ses)) h = be_u16 (take 2 (Mac (toHop (hopAt (ses ! j) (hopIdx (ses ! j) k)))))"
    "pathASes ses ! h = Local (edgeEntries (ses ! j) ! hopIdx (ses ! j) k)" "pathNeed ses h = edgeNeed (ses ! j) k"
  using path_parts [OF assms] edge_hops(3,4) [of keys "ses ! j" k] assms(1,3) by (simp_all add: sigma_at_def pathNeed_def)

text \<open>At a change of segments the last hop of one edge and the first hop of the next are both peering hops, or belong to the same AS.\<close>

lemma path_change:
  assumes ok: "\<forall>x \<in> set ses. edge_ok keys x" and z: "sized ses" and jn: "joined ses"
    and h: "Suc h < sum_list (edgeLens ses)" and jk: "loc (edgeLens ses) h = (j, k)" and last: "\<not> Suc k < edgeLens ses ! j"
  shows "if isPeerHop (ses ! j) (hopIdx (ses ! j) k) then isPeerHop (ses ! Suc j) (hopIdx (ses ! Suc j) 0)
    else \<not> isPeerHop (ses ! Suc j) (hopIdx (ses ! Suc j) 0) \<and> 2 \<le> edgeLen (ses ! Suc j)
      \<and> Local (edgeEntries (ses ! j) ! hopIdx (ses ! j) k) = Local (edgeEntries (ses ! Suc j) ! hopIdx (ses ! Suc j) 0)"
proof -
  have j: "Suc j < length ses" using loc_Suc(2) [OF h jk lens_pos [OF ok]] last by (simp add: edgeLens_def)
  have k: "k = edgeLen (ses ! j) - 1" using path_parts(1,2) [OF ok _ jk] h last by (simp add: edgeLens_def)
  from jn [unfolded joined_def] show ?thesis
  proof (elim disjE conjE exE)
    assume np: "\<forall>x \<in> set ses. PeerIdx (seEdge x) = 0"
      and l: "\<forall>j. Suc j < length ses \<longrightarrow> Local (edgeEntries (ses ! j) ! hopIdx (ses ! j) (edgeLen (ses ! j) - 1)) = Local (edgeEntries (ses ! Suc j) ! hopIdx (ses ! Suc j) 0)"
    have "PeerIdx (seEdge (ses ! j)) = 0" "PeerIdx (seEdge (ses ! Suc j)) = 0" "edge_ok keys (ses ! Suc j)" using np ok j by simp_all
    then show ?thesis using l j k by (simp add: isPeerHop_def edge_ok_def)
  next
    fix a b assume ab: "ses = [a, b]" "PeerIdx (seEdge a) \<noteq> 0" "PeerIdx (seEdge b) \<noteq> 0" "\<not> IsDownSeg (seSegment a)" "IsDownSeg (seSegment b)"
    have "Shortcut (seEdge a) < length (edgeEntries a)" using ok ab(1) by (simp add: edge_ok_def)
    then show ?thesis using ab j k by (auto simp: isPeerHop_def hopIdx_def edgeLen_def)
  qed
qed

lemma path_chained:
  assumes ok: "\<forall>x \<in> set ses. edge_ok keys x" and z: "sized ses" and jn: "joined ses" and mac: "\<And>ia x. MacLen \<le> length (keys ia x)"
  shows "chained (decodedPath (map edgeSegment ses)) (\<lambda>h. keys (pathASes ses ! h)) (pathNeed ses)"
proof -
  define d where "d = decodedPath (map edgeSegment ses)"
  let ?n = "sum_list (edgeLens ses)"
  note f = path_facts [OF ok d_def] and pos = lens_pos [OF ok] and ph = path_peer_hop [OF ok z jn, folded d_def]
    and inf = path_inf [OF ok z, folded d_def] and parts = path_parts [OF ok, folded d_def] and sg = path_sigma [OF ok, folded d_def]
  have eok: "edge_ok keys (ses ! j)" if "loc (edgeLens ses) h = (j, k)" "h < ?n" for h j k using parts(1) [OF that(2,1)] ok by simp
  have cd: "ConsDir (sgInfo (edgeSegment x)) \<longleftrightarrow> IsDownSeg (seSegment x)" "SegID (sgInfo (edgeSegment x)) = calculateBeta x" for x :: "'a solutionEdge"
    by (simp_all add: edgeSegment_def Let_def)
  have c2: "mac_ok (keys (pathASes ses ! h)) ((info_at d h)\<lparr>SegID := pathNeed ses h\<rparr>) (HopFields d ! h)" if h: "h < ?n" for h
  proof -
    obtain j k where jk: "loc (edgeLens ses) h = (j, k)" by (cases "loc (edgeLens ses) h")
    show ?thesis using edge_mac [OF eok [OF jk h] parts(2) [OF h jk]] parts(3,4) [OF h jk] ph(1) [OF h jk] sg(3) [OF h jk] by simp
  qed
  have c3: "SegID (info_at d h) = pathNeed ses h" if h: "h < ?n" and first: "h = 0 \<or> hop_inf d (h - 1) \<noteq> hop_inf d h" for h
  proof -
    obtain j k where jk: "loc (edgeLens ses) h = (j, k)" by (cases "loc (edgeLens ses) h")
    have "k = 0"
    proof (cases h)
      case 0
      then show ?thesis using jk by (cases "edgeLens ses") (auto simp: pos split: if_splits)
    next
      case (Suc g)
      obtain j' k' where g: "loc (edgeLens ses) g = (j', k')" by (cases "loc (edgeLens ses) g")
      show ?thesis using loc_Suc(1) [OF _ g pos] Suc h jk first inf [of g] inf [of h] g by (auto split: if_splits)
    qed
    then show ?thesis using ph(1) [OF h jk] cd(2) calculateBeta_eq [OF eok [OF jk h]] sg(3) [OF h jk] by simp
  qed
  have c4: "pathNeed ses (Suc h) = pathNeed ses h XOR (if ConsDir (info_at d h) then (if peer_hop d h then 0 else sigma_at d h)
      else (if peer_hop d (Suc h) then 0 else sigma_at d (Suc h)))" if h: "Suc h < ?n" and same: "hop_inf d (Suc h) = hop_inf d h" for h
  proof -
    obtain j k where jk: "loc (edgeLens ses) h = (j, k)" by (cases "loc (edgeLens ses) h")
    have h': "h < ?n" using h by simp
    have jk': "loc (edgeLens ses) (Suc h) = (j, Suc k)" and k: "Suc k < edgeLen (ses ! j)"
      using loc_Suc(1) [OF h jk pos] same inf [OF h] inf [OF h'] jk parts(1) [OF h' jk] by (auto simp: edgeLens_def split: if_splits)
    show ?thesis using edgeNeed_Suc [OF eok [OF jk h'] k] sg [OF h' jk] sg [OF h jk'] ph [OF h' jk] ph [OF h jk'] cd by simp
  qed
  have c5: "if peer_hop d h then peer_hop d (Suc h) else Suc (Suc h) < ?n \<and> hop_inf d (Suc (Suc h)) = hop_inf d (Suc h)
      \<and> \<not> peer_hop d (Suc h) \<and> keys (pathASes ses ! Suc h) = keys (pathASes ses ! h)"
    if h: "Suc h < ?n" and change: "hop_inf d (Suc h) \<noteq> hop_inf d h" for h
  proof -
    obtain j k where jk: "loc (edgeLens ses) h = (j, k)" by (cases "loc (edgeLens ses) h")
    have h': "h < ?n" using h by simp
    have k: "\<not> Suc k < edgeLens ses ! j" and jk': "loc (edgeLens ses) (Suc h) = (Suc j, 0)"
      using loc_Suc(1) [OF h jk pos] change inf [OF h] inf [OF h'] jk by (auto split: if_splits)
    note ch = path_change [OF ok z jn h jk k]
    have two: "Suc (Suc h) < ?n \<and> hop_inf d (Suc (Suc h)) = hop_inf d (Suc h)" if l: "2 \<le> edgeLen (ses ! Suc j)"
    proof -
      have "Suc j < length (edgeLens ses)" "edgeLens ses ! Suc j = edgeLen (ses ! Suc j)" "Suc h = sum_list (take (Suc j) (edgeLens ses))"
        using loc_range [OF h jk'] by (auto simp: edgeLens_def)
      then have n: "Suc (Suc h) < ?n" "Suc 0 < edgeLens ses ! Suc j" using take_sum_le [of "Suc j" "edgeLens ses"] l by simp_all
      then show ?thesis using loc_Suc(1) [OF n(1) jk' pos] jk' inf [OF n(1)] inf [OF h] by simp
    qed
    show ?thesis using ch two ph(2) [OF h' jk] ph(2) [OF h jk'] sg(2) [OF h' jk] sg(2) [OF h jk'] by (simp split: if_splits)
  qed
  have c6: "SegLen (PathMeta d) ! 0 \<noteq> 0 \<and> SegLen (PathMeta d) ! 1 \<noteq> 0 \<and> SegLen (PathMeta d) ! 2 = 0" if pi: "i \<in> set (InfoFields d)" "Peer i" for i
  proof -
    obtain x where "x \<in> set ses" "PeerIdx (seEdge x) \<noteq> 0" using pi f(4) by (auto simp: edgeSegment_def Let_def)
    moreover have "(\<forall>x \<in> set ses. PeerIdx (seEdge x) = 0) \<or> (\<exists>a b. ses = [a, b])" using jn unfolding joined_def by auto
    ultimately obtain a b where ab: "ses = [a, b]" by auto
    then have "edgeLen a < 256" "edgeLen b < 256" "0 < edgeLen a" "0 < edgeLen b" using z pos by (auto simp: sized_def edgeLens_def)
    then show ?thesis using f(1) ab by (simp add: edgeLens_def word_unat_eq_iff small_word)
  qed
  show ?thesis unfolding d_def [symmetric] chained_def f(5)
    using path_usable [OF ok z mac, folded d_def] c2 c3 c4 c5 c6 by blast
qed

section \<open>The edges of a solution\<close>

definition firstAS :: "'f solutionEdge \<Rightarrow> IA" where "firstAS x = Local (edgeEntries x ! hopIdx x 0)"
definition lastAS :: "'f solutionEdge \<Rightarrow> IA" where "lastAS x = Local (edgeEntries x ! hopIdx x (edgeLen x - 1))"

text \<open>An edge leads from its first AS to its last AS; with a peering link, from or to the vertex of that link.\<close>

definition edge_ends :: "'f solutionEdge \<Rightarrow> bool" where
  "edge_ends x \<longleftrightarrow> (if PeerIdx (seEdge x) = 0 then seSrc x = vertexFromIA (firstAS x) \<and> seDst x = vertexFromIA (lastAS x)
     else if IsDownSeg (seSegment x) then vIA (seSrc x) = 0 \<and> seDst x = vertexFromIA (lastAS x)
     else isType (seSegment x) = seg_up \<and> seSrc x = vertexFromIA (firstAS x) \<and> vIA (seDst x) = 0)"

lemma vertex_simps [simp]:
  "vertex_Reverse (vertexFromIA ia) = vertexFromIA ia" "vIA (vertexFromIA ia) = ia" "vIA (vertexFromPeering a b c d) = 0" "vIA (vertex_Reverse v) = vIA v"
  "vertexFromIA a' = vertexFromIA b' \<longleftrightarrow> a' = b'"
  by (simp_all add: vertex_Reverse_def vertexFromIA_def vertexFromPeering_def)

lemma segmentEdges_cases:
  assumes "(v, w, e) \<in> set (segmentEdges s)" and "es = ASEntries (isSeg s)" and "es \<noteq> []"
  obtains (core) "isType s = seg_core" "v = vertexFromIA (Local (last es))" "w = vertexFromIA (Local (hd es))" "Shortcut e = 0" "PeerIdx e = 0"
  | (plain) i where "isType s \<noteq> seg_core" "i < length es - 1" "Shortcut e = i" "PeerIdx e = 0"
      "(v, w) = (if isType s = seg_down then (vertexFromIA (Local (es ! i)), vertexFromIA (Local (last es)))
         else (vertexFromIA (Local (last es)), vertexFromIA (Local (es ! i))))"
  | (peer) i k u where "isType s \<noteq> seg_core" "i < length es" "Shortcut e = i" "k < length (PeerEntries (es ! i))" "PeerIdx e = k + 1" "vIA u = 0"
      "(v, w) = (if isType s = seg_down then (u, vertexFromIA (Local (last es))) else (vertexFromIA (Local (last es)), u))"
proof (cases "isType s = seg_core")
  case True
  then show ?thesis using assms core by (auto simp: segmentEdges_def Let_def)
next
  case False
  then obtain i t where t: "i < length es" "t \<in> set (entryTuples es i)" "(v, w, e) = tupleEdge s i t"
    using assms by (auto simp: segmentEdges_def Let_def)
  from t(2) consider (a) "i \<noteq> length es - 1" "t = (vertexFromIA (Local (last es)), vertexFromIA (Local (es ! i)), 0)"
    | (b) k u where "k < length (PeerEntries (es ! i))" "t = (vertexFromIA (Local (last es)), u, k + 1)" "vIA u = 0"
    by (auto simp: entryTuples_def Let_def split: if_splits)
  then show ?thesis
  proof cases
    case a
    then show ?thesis using t(1,3) False by (intro plain [of i]) (auto simp: tupleEdge_def Let_def split: if_splits)
  next
    case (b k u)
    then show ?thesis using t(1,3) False
      by (intro peer [of i k "if isType s = seg_down then vertex_Reverse u else u"]) (auto simp: tupleEdge_def Let_def split: if_splits)
  qed
qed

lemma edge_of_graph:
  assumes "(seSrc x, seDst x, seEdge x) \<in> set (segmentEdges (seSegment x))" and "seg_auth keys (isSeg (seSegment x))" and "2 \<le> length (edgeEntries x)"
  shows "edge_ok keys x" "edge_ends x"
proof -
  have ne: "edgeEntries x \<noteq> []" using assms(3) by auto
  then have l: "last (edgeEntries x) = edgeEntries x ! (length (edgeEntries x) - 1)" "hd (edgeEntries x) = edgeEntries x ! 0"
    by (simp_all add: last_conv_nth hd_conv_nth)
  have es: "edgeEntries x = ASEntries (isSeg (seSegment x))" by (simp add: edgeEntries_def)
  have "edge_ok keys x \<and> edge_ends x"
  proof (cases rule: segmentEdges_cases [OF assms(1) es ne])
    case 1
    then show ?thesis using assms(2,3) l
      by (auto simp: edge_ok_def edge_ends_def edgeLen_def firstAS_def lastAS_def hopIdx_def IsDownSeg_def)
  next
    case (2 i)
    then show ?thesis using assms(2,3) l
      by (auto simp: edge_ok_def edge_ends_def edgeLen_def firstAS_def lastAS_def hopIdx_def IsDownSeg_def split: if_splits)
  next
    case (3 i k u)
    then have "isType (seSegment x) = seg_up \<or> isType (seSegment x) = seg_down" by (cases "isType (seSegment x)") auto
    then show ?thesis using 3 assms(2,3) l
      by (auto simp: edge_ok_def edge_ends_def edgeLen_def firstAS_def lastAS_def hopIdx_def IsDownSeg_def split: if_splits)
  qed
  then show "edge_ok keys x" "edge_ends x" by simp_all
qed

lemma joined_Cons:
  assumes "joined (y # ys)" and "PeerIdx (seEdge x) = 0" and "lastAS x = firstAS y" and "isType (seSegment y) \<noteq> seg_up \<or> PeerIdx (seEdge y) = 0"
    and "edge_ends y"
  shows "joined (x # y # ys)"
proof -
  have np: "\<forall>z \<in> set (y # ys). PeerIdx (seEdge z) = 0"
    and l: "Suc j < length (y # ys) \<Longrightarrow> lastAS ((y # ys) ! j) = firstAS ((y # ys) ! Suc j)" for j
    using assms(1,4,5) by (auto simp: joined_def edge_ends_def IsDownSeg_def firstAS_def lastAS_def split: if_splits)
  have "lastAS ((x # y # ys) ! j) = firstAS ((x # y # ys) ! Suc j)" if "Suc j < length (x # y # ys)" for j
    using that l assms(3) by (cases j) auto
  then show ?thesis using np assms(2) unfolding joined_def firstAS_def [symmetric] lastAS_def [symmetric] by auto
qed

lemma trail_joined:
  assumes "trail g dst v cur xs" and "xs \<noteq> []" and "\<forall>x \<in> set xs. edge_ends x \<and> firstAS x \<noteq> 0 \<and> lastAS x \<noteq> 0"
    and "vIA v \<noteq> 0" and "seDst (last xs) = dst" and "vIA dst \<noteq> 0"
  shows "joined xs \<and> v = vertexFromIA (firstAS (hd xs)) \<and> dst = vertexFromIA (lastAS (last xs))"
  using assms(1-5)
proof (induction xs arbitrary: v cur)
  case (Cons x xs)
  have x: "seSrc x = v" "edge_ends x" "firstAS x \<noteq> 0" "lastAS x \<noteq> 0" using Cons.prems(1,3) by auto
  show ?case
  proof (cases "PeerIdx (seEdge x) = 0")
    case True
    then have e: "v = vertexFromIA (firstAS x)" "seDst x = vertexFromIA (lastAS x)" using x by (auto simp: edge_ends_def)
    show ?thesis
    proof (cases xs)
      case Nil
      then show ?thesis using True e Cons.prems(5) by (simp add: joined_def)
    next
      case xs: (Cons y ys)
      then have ih: "joined xs" "seDst x = vertexFromIA (firstAS y)" "dst = vertexFromIA (lastAS (last xs))"
        using Cons.IH [of "seDst x" "Some (seSegment x)"] Cons.prems x e(2) by auto
      have "isType (seSegment y) \<noteq> seg_up" using Cons.prems(1) xs by (auto split: PathSegType.splits)
      then show ?thesis using joined_Cons [of y ys x] ih True e xs Cons.prems(3) by auto
    qed
  next
    case False
    then have up: "\<not> IsDownSeg (seSegment x)" "v = vertexFromIA (firstAS x)" "vIA (seDst x) = 0"
      using x Cons.prems(4) by (auto simp: edge_ends_def split: if_splits)
    then obtain y ys where xs: "xs = y # ys" using Cons.prems(5) assms(6) by (cases xs) auto
    then have y: "seSrc y = seDst x" "edge_ends y" "firstAS y \<noteq> 0" using Cons.prems(1,3) by auto
    have dn: "PeerIdx (seEdge y) \<noteq> 0" "IsDownSeg (seSegment y)" "seDst y = vertexFromIA (lastAS y)"
      using up(3) y(2,3) unfolding y(1) [symmetric] by (auto simp: edge_ends_def split: if_splits)
    then have "ys = []" using Cons.prems(1) xs by (cases ys) (auto simp: IsDownSeg_def)
    then show ?thesis using xs up dn False Cons.prems(5) by (auto simp: joined_def)
  qed
qed simp

lemma trail_length: "trail g dst v cur xs \<Longrightarrow> length xs \<le> level cur"
proof (induction xs arbitrary: v cur)
  case (Cons x xs)
  have "length xs \<le> level (Some (seSegment x))" using Cons.IH [of "seDst x" "Some (seSegment x)"] Cons.prems by simp
  moreover have "level (Some (seSegment x)) < level cur"
    using Cons.prems by (cases cur) (auto split: PathSegType.splits)
  ultimately show ?case by simp
qed simp

text \<open>How many hops can still follow, if segments of the three types have at most \<open>a\<close>, \<open>b\<close> and \<open>c\<close> entries.\<close>

fun hops_left :: "nat \<Rightarrow> nat \<Rightarrow> nat \<Rightarrow> 'f inputSegment option \<Rightarrow> nat" where
  "hops_left a b c None = a + b + c"
| "hops_left a b c (Some s) = (case isType s of seg_up \<Rightarrow> b + c | seg_core \<Rightarrow> c | seg_down \<Rightarrow> 0)"

definition type_bound :: "nat \<Rightarrow> nat \<Rightarrow> nat \<Rightarrow> PathSegType \<Rightarrow> nat" where
  "type_bound a b c t = (case t of seg_up \<Rightarrow> a | seg_core \<Rightarrow> b | seg_down \<Rightarrow> c)"

lemma trail_hops:
  "trail g dst v cur xs \<Longrightarrow> \<forall>x \<in> set xs. length (edgeEntries x) \<le> type_bound a b c (isType (seSegment x)) \<Longrightarrow> sum_list (edgeLens xs) \<le> hops_left a b c cur"
proof (induction xs arbitrary: v cur)
  case (Cons x xs)
  have "sum_list (edgeLens xs) \<le> hops_left a b c (Some (seSegment x))" using Cons.IH [of "seDst x" "Some (seSegment x)"] Cons.prems by simp
  moreover have "edgeLen x \<le> type_bound a b c (isType (seSegment x))"
    using Cons.prems(2) by (auto simp: edgeLen_def intro: order.trans [OF diff_le_self])
  moreover have "validNextSeg cur (seSegment x)" using Cons.prems(1) by simp
  ultimately show ?case by (cases cur; cases "isType (seSegment x)"; cases "isType (the cur)") (auto simp: edgeLens_def type_bound_def simp del: sum_list_eq_0_iff)
qed (simp add: edgeLens_def)

lemma trail_edges: "trail g dst v cur xs \<Longrightarrow> x \<in> set xs \<Longrightarrow> (seDst x, seSegment x, seEdge x) \<in> set (outEdges g (seSrc x))"
  by (induction xs arbitrary: v cur) auto

lemma GetPaths_trail:
  assumes "p \<in> set (GetPaths sha ord g src dst)" and "\<And>xs. set (ord xs) = set xs"
  shows "solEdges p \<noteq> []" "trail g dst src None (solEdges p)" "seDst (last (solEdges p)) = dst"
proof -
  let ?s = "\<lparr>solEdges = [], currentVertex = src, currentSeg = None, cost = 0\<rparr>"
  have "p \<in> reaches g dst ?s" using assms(1) by (simp add: GetPaths_def set_search [OF assms(2)] del: search.simps)
  then obtain xs where xs: "p = follow ?s xs" "xs \<noteq> []" "trail g dst src None xs" "seDst (last xs) = dst" by (auto simp: reaches_def)
  then have "solEdges p = xs" using follow_eq [of g dst ?s xs] by simp
  then show "solEdges p \<noteq> []" "trail g dst src None (solEdges p)" "seDst (last (solEdges p)) = dst" using xs by simp_all
qed

section \<open>The paths of the combinator\<close>

text \<open>What beaconing guarantees of a segment: an intact chain of MACs over at least two ASes that are not wildcards.\<close>

definition beaconed :: "(IA \<Rightarrow> bytes \<Rightarrow> bytes) \<Rightarrow> nat \<Rightarrow> 'f PathSegment \<Rightarrow> bool" where
  "beaconed keys n s \<longleftrightarrow> seg_auth keys s \<and> 2 \<le> length (ASEntries s) \<and> length (ASEntries s) < 64 \<and> length (ASEntries s) \<le> n
     \<and> (\<forall>e \<in> set (ASEntries s). Local e \<noteq> 0)"

lemma inputSegments_mem:
  assumes "s \<in> set (inputSegments ups cores downs)"
  shows "isType s = seg_up \<and> isSeg s \<in> set ups \<or> isType s = seg_core \<and> isSeg s \<in> set cores \<or> isType s = seg_down \<and> isSeg s \<in> set downs"
  using assms by (auto simp: inputSegments_def dest!: set_zip_rightD)

lemma solution_edges:
  assumes g: "newDMG ups cores downs = Ok g" and p: "p \<in> set (GetPaths sha ord g (vertexFromIA src) (vertexFromIA dst))" and ord: "\<And>xs. set (ord xs) = set xs"
    and b: "\<forall>s \<in> set ups. beaconed keys a s" "\<forall>s \<in> set cores. beaconed keys b s" "\<forall>s \<in> set downs. beaconed keys c s" and abc: "a + b + c \<le> 64"
    and ends: "src \<noteq> 0" "dst \<noteq> 0"
  shows "\<forall>x \<in> set (solEdges p). edge_ok keys x" "sized (solEdges p)" "joined (solEdges p)"
    "firstAS (hd (solEdges p)) = src" "lastAS (last (solEdges p)) = dst"
proof -
  note t = GetPaths_trail [OF p ord]
  have x: "edge_ok keys x \<and> edge_ends x \<and> firstAS x \<noteq> 0 \<and> lastAS x \<noteq> 0 \<and> edgeLen x < 64
      \<and> length (edgeEntries x) \<le> type_bound a b c (isType (seSegment x))" if xs: "x \<in> set (solEdges p)" for x
  proof -
    note e = newDMG_edges [OF g trail_edges [OF t(2) xs]]
    have bx: "beaconed keys (type_bound a b c (isType (seSegment x))) (isSeg (seSegment x))" using inputSegments_mem [OF e(1)] b by (auto simp: type_bound_def)
    then have ok: "edge_ok keys x" "edge_ends x" using edge_of_graph [OF e(2), of keys] by (auto simp: beaconed_def edgeEntries_def)
    have "0 < edgeLen x" using ok(1) by (auto simp: edge_ok_def edgeLen_def)
    then have "hopIdx x 0 < length (edgeEntries x)" "hopIdx x (edgeLen x - 1) < length (edgeEntries x)"
      using hopIdx_range [OF ok(1), of 0] hopIdx_range [OF ok(1), of "edgeLen x - 1"] by auto
    then have "firstAS x \<noteq> 0" "lastAS x \<noteq> 0" using bx by (auto simp: firstAS_def lastAS_def beaconed_def edgeEntries_def)
    then show ?thesis using ok bx by (auto simp: beaconed_def edgeLen_def edgeEntries_def)
  qed
  then show "\<forall>x \<in> set (solEdges p). edge_ok keys x" by blast
  have "joined (solEdges p) \<and> vertexFromIA src = vertexFromIA (firstAS (hd (solEdges p))) \<and> vertexFromIA dst = vertexFromIA (lastAS (last (solEdges p)))"
    by (rule trail_joined [OF t(2,1) _ _ t(3)]) (use x ends in auto)
  then show "joined (solEdges p)" "firstAS (hd (solEdges p)) = src" "lastAS (last (solEdges p)) = dst" by simp_all
  have "sum_list (edgeLens (solEdges p)) \<le> a + b + c" using trail_hops [OF t(2), of a b c] x by simp
  then show "sized (solEdges p)" using t(1) trail_length [OF t(2)] x abc by (auto simp: sized_def)
qed

lemma path_ases:
  assumes ok: "\<forall>x \<in> set ses. edge_ok keys x" and ne: "ses \<noteq> []"
  shows "length (pathASes ses) = sum_list (edgeLens ses)" "hd (pathASes ses) = firstAS (hd ses)" "last (pathASes ses) = lastAS (last ses)"
proof -
  have l: "map (\<lambda>x. length (sgEntries (edgeSegment x))) ses = edgeLens ses" using ok by (auto simp: edgeLens_def edge_hops(2) [of keys])
  then show len: "length (pathASes ses) = sum_list (edgeLens ses)" by (simp add: pathASes_def length_concat comp_def)
  have pos: "0 < edgeLen x" "length (sgEntries (edgeSegment x)) = edgeLen x" if "x \<in> set ses" for x
    using ok that edge_hops(2) [of keys x] by (auto simp: edge_ok_def edgeLen_def)
  obtain x xs where xs: "ses = x # xs" using ne by (cases ses) auto
  have "hd (pathASes ses) = Local (sgEntries (edgeSegment x) ! 0)"
    using pos [of x] xs by (cases "sgEntries (edgeSegment x)") (auto simp: pathASes_def)
  then show "hd (pathASes ses) = firstAS (hd ses)" using edge_hops(4) [of keys x 0] ok xs pos [of x] by (simp add: firstAS_def)
  obtain y ys where ys: "ses = ys @ [y]" using ne by (cases ses rule: rev_cases) auto
  then have "sgEntries (edgeSegment y) \<noteq> []" using pos [of y] by auto
  then have "last (pathASes ses) = Local (sgEntries (edgeSegment y) ! (edgeLen y - 1))"
    using pos [of y] ys last_conv_nth [of "sgEntries (edgeSegment y)"] by (simp add: pathASes_def last_map)
  then show "last (pathASes ses) = lastAS (last ses)" using edge_hops(4) [of keys y "edgeLen y - 1"] ok ys pos [of y] by (simp add: lastAS_def)
qed

lemma Combine_mem:
  assumes "Combine sha pqAlg ord src dst ups cores downs same = Ok qs" and "q \<in> set qs"
  obtains g p where "newDMG ups cores downs = Ok g" "p \<in> set (GetPaths sha ord g (vertexFromIA src) (vertexFromIA dst))" "solution_Path pqAlg p = Ok q"
proof -
  obtain g ps where g: "newDMG ups cores downs = Ok g" "solution_Paths pqAlg (GetPaths sha ord g (vertexFromIA src) (vertexFromIA dst)) = Ok ps"
      "qs = (if same then filterLongPaths ps else filterDuplicates sha (filterLongPaths ps))"
    using assms(1) by (auto simp: Combine_def bindR_eq_Ok Let_def)
  have "set (map snd (foldl (\<lambda>m i. let key = fingerprint sha (pathInterfaces (xs ! i)) in
       case map_of m key of None \<Rightarrow> AList.update key i m
       | Some prev \<Rightarrow> if pathExpiry (xs ! i) > pathExpiry (xs ! prev) then AList.update key i m else m) m is)) \<subseteq> set (map snd m) \<union> set is" for xs m "is"
  proof (induction "is" arbitrary: m)
    case (Cons i js)
    show ?case using Cons [of "let key = fingerprint sha (pathInterfaces (xs ! i)) in
       case map_of m key of None \<Rightarrow> AList.update key i m
       | Some prev \<Rightarrow> if pathExpiry (xs ! i) > pathExpiry (xs ! prev) then AList.update key i m else m"]
      by (auto simp: Let_def split: option.splits if_splits dest!: subsetD [OF set_update])
  qed simp
  from this [of _ "[]"] have "set (filterDuplicates sha xs) \<subseteq> set xs" for xs by (force simp: filterDuplicates_def uniquePaths_def)
  from this [of "filterLongPaths ps"] have "q \<in> set ps" using g(3) assms(2) by (auto simp: filterLongPaths_def split: if_splits)
  moreover have "solution_Paths pqAlg ss = Ok ps \<Longrightarrow> q \<in> set ps \<Longrightarrow> \<exists>p \<in> set ss. solution_Path pqAlg p = Ok q" for ss
    by (induction ss arbitrary: ps) (auto simp: bindR_eq_Ok mapR_eq_Ok)
  ultimately show thesis using g that by blast
qed

lemma path_journey:
  assumes ok: "\<forall>x \<in> set ses. edge_ok keys x" and z: "sized ses" and jn: "joined ses" and mac: "\<And>ia x. MacLen \<le> length (keys ia x)"
    and raw: "ScionPath (map edgeSegment ses) = Ok raw"
  shows "\<exists>d. Decoded_DecodeFromBytes raw = Ok d \<and> length (HopFields d) = sum_list (edgeLens ses)
    \<and> journey (\<lambda>h. keys (pathASes ses ! h)) (length (HopFields d)) True d"
proof -
  let ?d = "decodedPath (map edgeSegment ses)"
  note c = path_chained [OF ok z jn mac] and f = path_facts [OF ok refl] and u = path_usable [OF ok z mac]
  have wf: "wf_decoded ?d" using u by (simp add: usable_def)
  have "int (length (path_bytes ?d)) = Base_Len ?d" using length_path_bytes [OF wf] by simp
  then have "raw = path_bytes ?d" using Decoded_SerializeTo_wf [OF wf, of "replicate (nat (Base_Len ?d)) 0"] raw
    by (auto simp: ScionPath_def copy_at_0 nat_le_iff split: if_splits)
  then have "Decoded_DecodeFromBytes raw = Ok ?d" using Decoded_decode_path_bytes [OF wf, of "[]"] by simp
  moreover have "HopFields ?d \<noteq> []" using f(5) z lens_pos [OF ok] by (cases ses) (auto simp: sized_def edgeLens_def)
  ultimately show ?thesis using chained_journey [OF c f(7)] f(5) by auto
qed

text \<open>C4: every path that the combinator returns for segments whose MAC chains are intact leads from the source to the
  destination and is accepted by every AS on the way: the raw path decodes, and each AS, after the updates that the
  routers before it made to the path, verifies the MAC of its hop field with its own key, of both its hop fields where it joins
  two segments. Shortcuts and peering links are included. The number of hops is bounded by the 64 hop fields of a path.\<close>

theorem combined_paths_accepted:
  assumes "Combine sha pqAlg ord src dst ups cores downs same = Ok qs" and "q \<in> set qs" and "\<And>xs. set (ord xs) = set xs"
    and "\<forall>s \<in> set ups. beaconed keys a s" and "\<forall>s \<in> set cores. beaconed keys b s" and "\<forall>s \<in> set downs. beaconed keys c s" and "a + b + c \<le> 64"
    and "src \<noteq> 0" and "dst \<noteq> 0" and "\<And>ia x. MacLen \<le> length (keys ia x)"
  shows "\<exists>d ases. Decoded_DecodeFromBytes (SCIONPath q) = Ok d \<and> length ases = length (HopFields d) \<and> hd ases = src \<and> last ases = dst
    \<and> journey (\<lambda>h. keys (ases ! h)) (length (HopFields d)) True d"
proof -
  obtain g p where p: "newDMG ups cores downs = Ok g" "p \<in> set (GetPaths sha ord g (vertexFromIA src) (vertexFromIA dst))" "solution_Path pqAlg p = Ok q"
    using Combine_mem [OF assms(1,2)] .
  note e = solution_edges [OF p(1,2) assms(3-9)]
  have ne: "solEdges p \<noteq> []" using e(2) by (simp add: sized_def)
  have "ScionPath (map edgeSegment (solEdges p)) = Ok (SCIONPath q)" using p(3) by (auto simp: solution_Path_def Let_def bindR_eq_Ok mapR_eq_Ok)
  then show ?thesis using path_journey [OF e(1-3) assms(10)] path_ases [OF e(1) ne] e(4,5) by metis
qed

section \<open>An up and a down segment\<close>

definition sample_core :: "unit DefaultExtender" where
  "sample_core = (sample_extender 0x0001000000000001)\<lparr>Intfs := NewInterfaces
     [(1, \<lparr>ifID = 1, ifIA = 0x0001000000000002, ifLink = ifChild, ifRemoteID = 2, ifMTU = 1400\<rparr>),
      (2, \<lparr>ifID = 2, ifIA = 0x0001000000000003, ifLink = ifChild, ifRemoteID = 4, ifMTU = 1400\<rparr>)]\<rparr>"

definition sample_leaf :: "unit PathSegment" where
  "sample_leaf = fst (Extend sample_wire (\<lambda>x. x) 2000000000 (sample_extender 0x0001000000000003)
     (fst (Extend sample_wire (\<lambda>x. x) 2000000000 sample_core sample_seg0 0 2 [])) 1 0 [])"

definition sample_combined :: "comb_Path list result" where
  "sample_combined = Combine (\<lambda>x. x) (\<lambda>_. Fail (Err [])) (\<lambda>es. es) 0x0001000000000002 0x0001000000000003 [sample_seg2] [] [sample_leaf] True"

lemma sample_beaconed: "beaconed (\<lambda>_. sample_mac) 4 sample_seg2" "beaconed (\<lambda>_. sample_mac) 4 sample_leaf"
  by code_simp+

lemma sample_combined_one: "case sample_combined of Ok qs \<Rightarrow> length qs = 1 | _ \<Rightarrow> False"
  by code_simp

theorem combined_paths_accepted_witness:
  "\<exists>q d (ases :: IA list). sample_combined = Ok [q] \<and> Decoded_DecodeFromBytes (SCIONPath q) = Ok d \<and> length ases = length (HopFields d)
     \<and> hd ases = 0x0001000000000002 \<and> last ases = 0x0001000000000003 \<and> journey (\<lambda>h. sample_mac) (length (HopFields d)) True d"
proof -
  obtain q where q: "sample_combined = Ok [q]"
    using sample_combined_one by (auto simp: length_Suc_conv numeral_eq_Suc split: result.splits)
  have "MacLen \<le> length (sample_mac x)" for x by (simp add: sample_mac_def MacLen_def)
  then show ?thesis using q combined_paths_accepted [OF q [unfolded sample_combined_def], of q "\<lambda>_. sample_mac" 4 0 4] sample_beaconed by auto
qed

end
