(* ===== verification/Trc.thy ===== *)
theory Trc
  imports Certs "HOL-Library.AList"
begin

text \<open>
  Trust root configurations (\<^verbatim>\<open>pkg/scrypto/cppki/trc.go\<close>, \<^verbatim>\<open>id.go\<close>, \<^verbatim>\<open>signed_trc.go\<close>, and the parts of \<^verbatim>\<open>pkg/scrypto/cms/protocol\<close> that find
  and read a signature): validation of a TRC, of an update of a TRC, and of the signatures on it. The order in which Go ranges
  over a map of certificates is the parameter \<open>ord\<close>. ASN.1, the hash functions and the check of a signature are the
  parameters in \<open>cmsEnv\<close>.
\<close>

unbundle bit_operations_syntax

section \<open>TRC identifiers\<close>

record TRCID =
  idISD :: ISD
  idSerial :: u64
  idBase :: u64

definition ErrWildcardISD :: go_error where "ErrWildcardISD = Err ''wildcard ISD''"
definition ErrReservedNumber :: go_error where "ErrReservedNumber = Err ''reserved number''"
definition ErrSerialBeforeBase :: go_error where "ErrSerialBeforeBase = Err ''serial before base''"

definition IsBase :: "TRCID \<Rightarrow> bool" where "IsBase i \<longleftrightarrow> idSerial i = idBase i"

definition TRCID_Validate :: "TRCID \<Rightarrow> unit result" where
  "TRCID_Validate i =
    (if idISD i = 0 then Fail ErrWildcardISD
     else if idBase i > idSerial i then Fail ErrSerialBeforeBase
     else if idBase i = 0 then Fail ErrReservedNumber
     else Ok ())"

section \<open>The payload\<close>

record TRC =
  trcRaw :: bytes
  trcVersion :: int
  trcID :: TRCID
  trcValidity :: Validity
  GracePeriod :: int
  NoTrustReset :: bool
  Votes :: "int list"
  Quorum :: int
  QuorumPQ :: int
  CoreASes :: "AS list"
  AuthoritativeASes :: "AS list"
  Description :: string
  Certificates :: "Certificate list"

type_synonym certMap = "(nat \<times> Certificate) list"
type_synonym certOrder = "certMap \<Rightarrow> certMap"

record classified =
  clSensitive :: certMap
  clRegular :: certMap
  clRoot :: certMap

definition ErrUnclassifiedCertificate :: go_error where "ErrUnclassifiedCertificate = Err ''unclassified certificate''"

fun classifyFrom :: "nat \<Rightarrow> Certificate list \<Rightarrow> classified \<Rightarrow> classified result" where
  "classifyFrom i [] c = Ok c"
| "classifyFrom i (x # xs) c =
    (case ValidateCert x of
       Panic \<Rightarrow> Panic
     | Fail e \<Rightarrow> Fail ErrUnclassifiedCertificate
     | Ok ct \<Rightarrow>
         if ct = Sensitive then classifyFrom (Suc i) xs (c\<lparr>clSensitive := clSensitive c @ [(i, x)]\<rparr>)
         else if ct = Regular then classifyFrom (Suc i) xs (c\<lparr>clRegular := clRegular c @ [(i, x)]\<rparr>)
         else if ct = Root then classifyFrom (Suc i) xs (c\<lparr>clRoot := clRoot c @ [(i, x)]\<rparr>)
         else Fail ErrInvalidCertType)"

definition no_certs :: classified where "no_certs = \<lparr>clSensitive = [], clRegular = [], clRoot = []\<rparr>"

definition classifyCerts :: "Certificate list \<Rightarrow> classified result" where
  "classifyCerts certs = classifyFrom 0 certs no_certs"

definition ErrNoASes :: go_error where "ErrNoASes = Err ''no ASes''"
definition ErrWildcardAS :: go_error where "ErrWildcardAS = Err ''wildcard AS''"
definition ErrDuplicateAS :: go_error where "ErrDuplicateAS = Err ''duplicate AS''"

fun validateASes :: "AS list \<Rightarrow> unit result" where
  "validateASes [] = Ok ()"
| "validateASes (a # as) = (if a = 0 then Fail ErrWildcardAS else if a \<in> set as then Fail ErrDuplicateAS else validateASes as)"

definition validateASSequence :: "AS list \<Rightarrow> unit result" where
  "validateASSequence ases = (if ases = [] then Fail ErrNoASes else validateASes ases)"

definition ErrDuplicate :: go_error where "ErrDuplicate = Err ''duplicate certificate''"

fun uniqueSubjects :: "certMap \<Rightarrow> unit result" where
  "uniqueSubjects [] = Ok ()"
| "uniqueSubjects (a # bs) = (if \<exists>b \<in> set bs. equalName (Subject (snd a)) (Subject (snd b)) then Fail ErrDuplicate else uniqueSubjects bs)"

definition uniqueSubject :: "certOrder \<Rightarrow> certMap \<Rightarrow> unit result" where
  "uniqueSubject ord m = uniqueSubjects (ord m)"

text \<open>A missing serial number would be dereferenced.\<close>

definition sameSerial :: "Certificate \<Rightarrow> Certificate \<Rightarrow> bool result" where
  "sameSerial a b = (case (SerialNumber a, SerialNumber b) of (Some x, Some y) \<Rightarrow> Ok (x = y) | _ \<Rightarrow> Panic)"

fun serialClash :: "Certificate \<Rightarrow> Certificate list \<Rightarrow> unit result" where
  "serialClash a [] = Ok ()"
| "serialClash a (b # bs) = bindR (sameSerial a b) (\<lambda>same. if same \<and> equalName (Issuer a) (Issuer b) then Fail ErrDuplicate else serialClash a bs)"

fun uniqueSerials :: "Certificate list \<Rightarrow> unit result" where
  "uniqueSerials [] = Ok ()"
| "uniqueSerials (a # bs) = bindR (serialClash a bs) (\<lambda>_. uniqueSerials bs)"

definition ErrCertForOtherISD :: go_error where "ErrCertForOtherISD = Err ''certificate for other ISD''"
definition ErrTRCValidityNotCovered :: go_error where "ErrTRCValidityNotCovered = Err ''TRC validity not covered by certificate''"

fun certsForTRC :: "TRC \<Rightarrow> Certificate list \<Rightarrow> unit result" where
  "certsForTRC trc [] = Ok ()"
| "certsForTRC trc (c # cs) =
    bindR (findIA (Subject c)) (\<lambda>ia.
    if (case ia of None \<Rightarrow> False | Some ia \<Rightarrow> IA_ISD ia \<noteq> idISD (trcID trc)) then Fail ErrCertForOtherISD
    else if \<not> Validity_Covers (NotBefore c, NotAfter c) (trcValidity trc) then Fail ErrTRCValidityNotCovered
    else certsForTRC trc cs)"

definition ErrInvalidTRCVersion :: go_error where "ErrInvalidTRCVersion = Err ''invalid TRC version''"
definition ErrInvalidID :: go_error where "ErrInvalidID = Err ''invalid ID''"
definition ErrGracePeriodNonZero :: go_error where "ErrGracePeriodNonZero = Err ''grace period non-zero''"
definition ErrVotesOnBaseTRC :: go_error where "ErrVotesOnBaseTRC = Err ''non-empty votes on base TRC''"
definition ErrInvalidQuorumSize :: go_error where "ErrInvalidQuorumSize = Err ''invalid quorum size''"
definition ErrNotEnoughVoters :: go_error where "ErrNotEnoughVoters = Err ''not enough voters''"

definition wrapErr :: "go_error \<Rightarrow> 'a result \<Rightarrow> 'a result" where
  "wrapErr m r = (case r of Fail e \<Rightarrow> Fail (Wrap m e) | x \<Rightarrow> x)"

definition TRC_Validate :: "certOrder \<Rightarrow> TRC \<Rightarrow> unit result" where
  "TRC_Validate ord trc =
    (if trcVersion trc \<noteq> 1 then Fail ErrInvalidTRCVersion
     else bindR (wrapErr ErrInvalidID (TRCID_Validate (trcID trc))) (\<lambda>_.
     bindR (Validity_Validate (trcValidity trc)) (\<lambda>_.
     if IsBase (trcID trc) \<and> GracePeriod trc \<noteq> 0 then Fail ErrGracePeriodNonZero
     else if IsBase (trcID trc) \<and> length (Votes trc) \<noteq> 0 then Fail ErrVotesOnBaseTRC
     else if Quorum trc = 0 \<or> Quorum trc > 255 then Fail ErrInvalidQuorumSize
     else if QuorumPQ trc < 0 \<or> QuorumPQ trc > 255 then Fail ErrInvalidQuorumSize
     else bindR (validateASSequence (CoreASes trc)) (\<lambda>_.
     bindR (validateASSequence (AuthoritativeASes trc)) (\<lambda>_.
     bindR (classifyCerts (Certificates trc)) (\<lambda>cl.
     if int (length (clSensitive cl)) < Quorum trc then Fail ErrNotEnoughVoters
     else if int (length (clRegular cl)) < Quorum trc then Fail ErrNotEnoughVoters
     else bindR (certsForTRC trc (Certificates trc)) (\<lambda>_.
     bindR (uniqueSerials (Certificates trc)) (\<lambda>_.
     bindR (uniqueSubject ord (clSensitive cl)) (\<lambda>_.
     bindR (uniqueSubject ord (clRegular cl)) (\<lambda>_.
     uniqueSubject ord (clRoot cl)))))))))))"

definition RootCerts :: "certOrder \<Rightarrow> TRC \<Rightarrow> Certificate list result" where
  "RootCerts ord trc = mapR (\<lambda>c. map snd (ord (clRoot c))) (classifyCerts (Certificates trc))"

definition RootPool :: "certOrder \<Rightarrow> TRC \<Rightarrow> Certificate list result" where
  "RootPool ord trc = bindR (RootCerts ord trc) (\<lambda>roots. if roots = [] then Fail (Err ''no root certificate'') else Ok roots)"

definition InGracePeriod :: "TRC \<Rightarrow> int \<Rightarrow> bool" where
  "InGracePeriod trc now \<longleftrightarrow> \<not> IsBase (trcID trc) \<and> Validity_Contains (fst (trcValidity trc), fst (trcValidity trc) + GracePeriod trc) now"

definition GracePeriodEnd :: "TRC \<Rightarrow> int option" where
  "GracePeriodEnd trc = (if IsBase (trcID trc) then None else Some (fst (trcValidity trc) + GracePeriod trc))"

section \<open>Updates\<close>

definition isPQ :: "Certificate \<Rightarrow> bool" where
  "isPQ c \<longleftrightarrow> cPublicKeyAlgorithm c \<noteq> ECDSA"

text \<open>Indexing the certificates of the predecessor panics when the vote is out of range.\<close>

definition certAt :: "Certificate list \<Rightarrow> int \<Rightarrow> Certificate result" where
  "certAt cs i = (if i < 0 \<or> int (length cs) \<le> i then Panic else Ok (cs ! nat i))"

fun countVotes :: "Certificate list \<Rightarrow> int list \<Rightarrow> nat \<Rightarrow> (IA \<times> int) list \<Rightarrow> (nat \<times> (IA \<times> int) list) result" where
  "countVotes cs [] n pq = Ok (n, pq)"
| "countVotes cs (i # is) n pq =
    bindR (certAt cs i) (\<lambda>c.
    if isPQ c
    then bindR (wrapR ''extracting IA from certificate subject'' (ExtractIA (Subject c))) (\<lambda>ia.
      countVotes cs is n (AList.update ia ((case map_of pq ia of None \<Rightarrow> 0 | Some k \<Rightarrow> k) + 1) pq))
    else countVotes cs is (n + 1) pq)"

datatype UpdateType = unknownUpdate | SensitiveUpdate | RegularUpdate

record Update =
  updType :: UpdateType
  NewVoters :: "Certificate list"
  updVotes :: "Certificate list"
  RootAcknowledgments :: "Certificate list"

text \<open>A certificate of the map with the same subject, and whether it is the same certificate.\<close>

definition certMap_find :: "certOrder \<Rightarrow> certMap \<Rightarrow> Certificate \<Rightarrow> (nat \<times> bool) option" where
  "certMap_find ord m cert = map_option (\<lambda>(i, p). (i, cRaw p = cRaw cert)) (find (\<lambda>(i, p). equalName (Subject p) (Subject cert)) (ord m))"

definition unchanged :: "certOrder \<Rightarrow> certMap \<Rightarrow> Certificate \<Rightarrow> bool" where
  "unchanged ord m cert \<longleftrightarrow> (case certMap_find ord m cert of Some (i, same) \<Rightarrow> same | None \<Rightarrow> False)"

definition detectNewVoters :: "certOrder \<Rightarrow> classified \<Rightarrow> classified \<Rightarrow> Certificate list" where
  "detectNewVoters ord pred nxt =
     filter (\<lambda>c. \<not> unchanged ord (clSensitive pred) c) (map snd (ord (clSensitive nxt)))
     @ filter (\<lambda>c. \<not> unchanged ord (clRegular pred) c) (map snd (ord (clRegular nxt)))"

definition equalASes :: "AS list \<Rightarrow> AS list \<Rightarrow> unit result" where
  "equalASes pred nxt = (if length pred \<noteq> length nxt then Fail (Err ''unequal sequence length'')
     else if pred \<noteq> nxt then Fail (Err ''different AS number'') else Ok ())"

definition voteOf :: "certMap \<Rightarrow> int \<Rightarrow> Certificate option" where
  "voteOf m i = (if i < 0 then None else map_of m (nat i))"

fun collectVoters :: "string \<Rightarrow> certMap \<Rightarrow> int list \<Rightarrow> Certificate list result" where
  "collectVoters msg m [] = Ok []"
| "collectVoters msg m (i # is) = (case voteOf m i of None \<Rightarrow> Fail (Err msg) | Some c \<Rightarrow> mapR ((#) c) (collectVoters msg m is))"

definition validateSensitive :: "TRC \<Rightarrow> classified \<Rightarrow> Certificate list result" where
  "validateSensitive trc pred = collectVoters ''vote by non-sensitive voter'' (clSensitive pred) (Votes trc)"

fun sensitiveUnchanged :: "certOrder \<Rightarrow> certMap \<Rightarrow> Certificate list \<Rightarrow> unit result" where
  "sensitiveUnchanged ord pred [] = Ok ()"
| "sensitiveUnchanged ord pred (c # cs) =
    (case certMap_find ord pred c of
       None \<Rightarrow> Fail (Err ''modified sensitive voting certificate'')
     | Some (i, same) \<Rightarrow> if \<not> same then Fail (Err ''new sensitive voting certificate'') else sensitiveUnchanged ord pred cs)"

fun changedIdx :: "string \<Rightarrow> certOrder \<Rightarrow> certMap \<Rightarrow> Certificate list \<Rightarrow> nat list result" where
  "changedIdx msg ord pred [] = Ok []"
| "changedIdx msg ord pred (c # cs) =
    (case certMap_find ord pred c of
       None \<Rightarrow> Fail (Err msg)
     | Some (i, same) \<Rightarrow> mapR (\<lambda>is. if same then is else i # is) (changedIdx msg ord pred cs))"

definition validateRegular :: "certOrder \<Rightarrow> TRC \<Rightarrow> TRC \<Rightarrow> classified \<Rightarrow> classified \<Rightarrow> (Certificate list \<times> Certificate list) result" where
  "validateRegular ord trc pred predCerts thisCerts =
    (if Quorum pred \<noteq> Quorum trc then Fail (Err ''quorum changed'')
     else if QuorumPQ pred \<noteq> QuorumPQ trc then Fail (Err ''quorum (PQ) changed'')
     else bindR (wrapR ''core ASes changed'' (equalASes (CoreASes pred) (CoreASes trc))) (\<lambda>_.
     bindR (wrapR ''authoritative ASes changed'' (equalASes (AuthoritativeASes pred) (AuthoritativeASes trc))) (\<lambda>_.
     if length (clSensitive predCerts) \<noteq> length (clSensitive thisCerts) then Fail (Err ''number of sensitive voting certificates changed'')
     else bindR (sensitiveUnchanged ord (clSensitive predCerts) (map snd (ord (clSensitive thisCerts)))) (\<lambda>_.
     if length (clRoot predCerts) \<noteq> length (clRoot thisCerts) then Fail (Err ''number of root certificates changed'')
     else bindR (changedIdx ''new root certificate'' ord (clRoot predCerts) (map snd (ord (clRoot thisCerts)))) (\<lambda>roots.
     if length (clRegular predCerts) \<noteq> length (clRegular thisCerts) then Fail (Err ''number of regular voting certificates changed'')
     else bindR (changedIdx ''new regular voting certificate'' ord (clRegular predCerts) (map snd (ord (clRegular thisCerts)))) (\<lambda>expected.
     bindR (collectVoters ''vote by non-regular voter'' (clRegular predCerts) (Votes trc)) (\<lambda>voters.
     if \<exists>i \<in> set expected. int i \<notin> set (Votes trc) then Fail (Err ''missing votes by modified regular voting certificates'')
     else Ok (voters, List.map_filter (map_of (clRoot predCerts)) roots))))))))"

definition ValidateUpdate :: "certOrder \<Rightarrow> TRC \<Rightarrow> TRC option \<Rightarrow> Update result" where
  "ValidateUpdate ord trc predecessor =
     bindR (TRC_Validate ord trc) (\<lambda>_.
     case predecessor of
       None \<Rightarrow> Fail (Err ''predecessor must not be nil for TRC update'')
     | Some pred \<Rightarrow>
       if idISD (trcID pred) \<noteq> idISD (trcID trc) then Fail (Err ''ISD mismatch'')
       else if idBase (trcID pred) \<noteq> idBase (trcID trc) then Fail (Err ''base number mismatch'')
       else if idSerial (trcID pred) + 1 \<noteq> idSerial (trcID trc) then Fail (Err ''serial number not an increment'')
       else if NoTrustReset pred \<noteq> NoTrustReset trc then Fail (Err ''noTrustReset changed'')
       else bindR (countVotes (Certificates pred) (Votes trc) 0 []) (\<lambda>(normalVotes, pqVotes).
       if int normalVotes < Quorum pred then Fail (Err ''number of normal votes smaller than quorum'')
       else if int (length pqVotes) < QuorumPQ pred then Fail (Err ''number of PQ votes smaller than PQ quorum'')
       else bindR (wrapR ''classifying certificates in predecessor'' (classifyCerts (Certificates pred))) (\<lambda>predCerts.
       bindR (wrapR ''classifying certificates'' (classifyCerts (Certificates trc))) (\<lambda>thisCerts.
       if Votes trc = [] then Panic
       else if voteOf (clRegular predCerts) (hd (Votes trc)) = None
       then mapR (\<lambda>votes. \<lparr>updType = SensitiveUpdate, NewVoters = detectNewVoters ord predCerts thisCerts, updVotes = votes, RootAcknowledgments = []\<rparr>)
         (wrapR ''validating sensitive update'' (validateSensitive trc predCerts))
       else mapR (\<lambda>(votes, acks). \<lparr>updType = RegularUpdate, NewVoters = detectNewVoters ord predCerts thisCerts, updVotes = votes, RootAcknowledgments = acks\<rparr>)
         (wrapR ''validating regular update'' (validateRegular ord trc pred predCerts thisCerts))))))"

section \<open>Signatures\<close>

record RawValue =
  rvClass :: int
  rvTag :: int
  rvBytes :: bytes
  rvFullBytes :: bytes

record SignerInfo =
  siVersion :: int
  SID :: RawValue
  DigestAlgorithm :: oid
  SignedAttrs :: "(oid \<times> RawValue) list option"
  siSignatureAlgorithm :: oid
  siSignature :: bytes

datatype cryptoHash = SHA1 | MD5 | SHA256 | SHA384 | SHA512

text \<open>ASN.1 values, hash functions, signatures. \<open>unmarshalISN\<close> gives the issuer and serial number as far as they were read, and the
  rest of the input, or none when there was an error.\<close>

record cmsEnv =
  unmarshalISN :: "bytes \<Rightarrow> (bytes \<times> int option) \<times> bytes option"
  unmarshalAny :: "bytes \<Rightarrow> (RawValue \<times> bytes) result"
  marshalSeq :: "(oid \<times> RawValue) list \<Rightarrow> bytes result"
  Available :: "cryptoHash \<Rightarrow> bool"
  hashSum :: "cryptoHash \<Rightarrow> bytes \<Rightarrow> bytes"
  CheckSignature :: "Certificate \<Rightarrow> SignatureAlgorithm \<Rightarrow> bytes \<Rightarrow> bytes \<Rightarrow> unit result"

definition ErrWrongType :: go_error where "ErrWrongType = Err ''cms/protocol: wrong choice or any type''"
definition ErrNoCertificate :: go_error where "ErrNoCertificate = Err ''no certificate found''"
definition ErrUnsupported :: go_error where "ErrUnsupported = Err ''unsupported type or version''"
definition ErrTrailingData :: go_error where "ErrTrailingData = Err ''unexpected trailing data''"

text \<open>An error of the decoding is not reported.\<close>

definition issuerAndSerialNumberSID :: "cmsEnv \<Rightarrow> SignerInfo \<Rightarrow> (bytes \<times> int option) result" where
  "issuerAndSerialNumberSID E si =
    (if rvClass (SID si) \<noteq> 0 \<or> rvTag (SID si) \<noteq> 16 then Fail ErrWrongType
     else case unmarshalISN E (rvFullBytes (SID si)) of
       (isn, Some rest) \<Rightarrow> if rest \<noteq> [] then Fail ErrTrailingData else Ok isn
     | (isn, None) \<Rightarrow> Ok isn)"

definition subjectKeyIdentifierSID :: "SignerInfo \<Rightarrow> bytes result" where
  "subjectKeyIdentifierSID si = (if rvClass (SID si) \<noteq> 2 \<or> rvTag (SID si) \<noteq> 0 then Fail ErrWrongType else Ok (rvBytes (SID si)))"

text \<open>Comparing with a serial number that was not read dereferences nil.\<close>

fun findBySerial :: "bytes \<Rightarrow> int option \<Rightarrow> Certificate list \<Rightarrow> Certificate option result" where
  "findBySerial iss sn [] = Ok None"
| "findBySerial iss sn (c # cs) =
    (if RawIssuer c = iss
     then case (sn, SerialNumber c) of
         (Some x, Some y) \<Rightarrow> if x = y then Ok (Some c) else findBySerial iss sn cs
       | _ \<Rightarrow> Panic
     else findBySerial iss sn cs)"

definition ExtensionSubjectKeyIdentifier :: oid where "ExtensionSubjectKeyIdentifier = [2, 5, 29, 14]"

definition FindCertificate :: "cmsEnv \<Rightarrow> SignerInfo \<Rightarrow> Certificate list \<Rightarrow> Certificate result" where
  "FindCertificate E si certs =
    (if siVersion si = 1 then
       bindR (issuerAndSerialNumberSID E si) (\<lambda>(iss, sn).
       bindR (findBySerial iss sn certs) (\<lambda>r. case r of Some c \<Rightarrow> Ok c | None \<Rightarrow> Fail ErrNoCertificate))
     else if siVersion si = 3 then
       bindR (subjectKeyIdentifierSID si) (\<lambda>ski.
       case find (\<lambda>c. \<exists>e \<in> set (cExtensions c). extId e = ExtensionSubjectKeyIdentifier \<and> extValue e = ski) certs of
         Some c \<Rightarrow> Ok c | None \<Rightarrow> Fail ErrNoCertificate)
     else Fail ErrUnsupported)"

definition DigestAlgorithmToCryptoHash :: "oid \<Rightarrow> cryptoHash option" where
  "DigestAlgorithmToCryptoHash i =
    map_of [([1, 3, 14, 3, 2, 26], SHA1), ([1, 2, 840, 113549, 2, 5], MD5), ([2, 16, 840, 1, 101, 3, 4, 2, 1], SHA256),
      ([2, 16, 840, 1, 101, 3, 4, 2, 2], SHA384), ([2, 16, 840, 1, 101, 3, 4, 2, 3], SHA512)] i"

definition si_Hash :: "cmsEnv \<Rightarrow> SignerInfo \<Rightarrow> cryptoHash result" where
  "si_Hash E si = (case DigestAlgorithmToCryptoHash (DigestAlgorithm si) of
     None \<Rightarrow> Fail ErrUnsupported
   | Some h \<Rightarrow> if \<not> Available E h then Fail ErrUnsupported else Ok h)"

definition signatureAlgorithms :: "(oid \<times> SignatureAlgorithm) list" where
  "signatureAlgorithms = [([1, 2, 840, 113549, 1, 1, 5], SHA1WithRSA), ([1, 2, 840, 113549, 1, 1, 4], MD5WithRSA), ([1, 2, 840, 113549, 1, 1, 11], SHA256WithRSA),
     ([1, 2, 840, 113549, 1, 1, 12], SHA384WithRSA), ([1, 2, 840, 113549, 1, 1, 13], SHA512WithRSA), ([1, 2, 840, 10045, 4, 1], ECDSAWithSHA1),
     ([1, 2, 840, 10045, 4, 3, 2], ECDSAWithSHA256), ([1, 2, 840, 10045, 4, 3, 3], ECDSAWithSHA384), ([1, 2, 840, 10045, 4, 3, 4], ECDSAWithSHA512),
     ([1, 2, 840, 10040, 4, 3], DSAWithSHA1), ([2, 16, 840, 1, 101, 3, 4, 3, 17], PureMLDSA44)]"

definition keyDigestAlgorithm :: "oid \<Rightarrow> oid \<Rightarrow> SignatureAlgorithm" where
  "keyDigestAlgorithm k d =
    (case DigestAlgorithmToCryptoHash d of
       None \<Rightarrow> UnknownSignatureAlgorithm
     | Some h \<Rightarrow>
       if k = [1, 2, 840, 113549, 1, 1, 1]
       then (case h of SHA1 \<Rightarrow> SHA1WithRSA | MD5 \<Rightarrow> MD5WithRSA | SHA256 \<Rightarrow> SHA256WithRSA | SHA384 \<Rightarrow> SHA384WithRSA | SHA512 \<Rightarrow> SHA512WithRSA)
       else if k = [1, 2, 840, 10045, 2, 1]
       then (case h of SHA1 \<Rightarrow> ECDSAWithSHA1 | MD5 \<Rightarrow> UnknownSignatureAlgorithm | SHA256 \<Rightarrow> ECDSAWithSHA256 | SHA384 \<Rightarrow> ECDSAWithSHA384
         | SHA512 \<Rightarrow> ECDSAWithSHA512)
       else UnknownSignatureAlgorithm)"

definition X509SignatureAlgorithm :: "SignerInfo \<Rightarrow> SignatureAlgorithm" where
  "X509SignatureAlgorithm si = (case map_of signatureAlgorithms (siSignatureAlgorithm si) of
     Some a \<Rightarrow> a | None \<Rightarrow> keyDigestAlgorithm (siSignatureAlgorithm si) (DigestAlgorithm si))"

text \<open>Each element read is shorter than what it was read from.\<close>

function decodeElements :: "(bytes \<Rightarrow> (RawValue \<times> bytes) result) \<Rightarrow> bytes \<Rightarrow> RawValue list result" where
  "decodeElements f der =
    (if der = [] then Ok []
     else case f der of
       Ok (rv, rest) \<Rightarrow> if length rest < length der then mapR ((#) rv) (decodeElements f rest) else Fail (Err ''asn1'')
     | Fail e \<Rightarrow> Fail e | Panic \<Rightarrow> Panic)"
  by pat_completeness auto
termination by (relation "measure (\<lambda>(f, der). length der)") auto

definition DecodeAnySet :: "cmsEnv \<Rightarrow> RawValue \<Rightarrow> RawValue list result" where
  "DecodeAnySet E rv =
    (if rvClass rv \<noteq> 0 then Fail (Err ''Bad class'')
     else if rvTag rv \<noteq> 17 then Fail (Err ''Bad tag'')
     else decodeElements (unmarshalAny E) (rvBytes rv))"

fun GetValues :: "cmsEnv \<Rightarrow> oid \<Rightarrow> (oid \<times> RawValue) list \<Rightarrow> RawValue list list result" where
  "GetValues E i [] = Ok []"
| "GetValues E i (a # as) =
    (if fst a = i then bindR (DecodeAnySet E (snd a)) (\<lambda>v. mapR ((#) v) (GetValues E i as)) else GetValues E i as)"

definition GetOnlyAttributeValueBytes :: "cmsEnv \<Rightarrow> oid \<Rightarrow> (oid \<times> RawValue) list option \<Rightarrow> RawValue result" where
  "GetOnlyAttributeValueBytes E i attrs =
     bindR (case attrs of None \<Rightarrow> Ok [] | Some as \<Rightarrow> GetValues E i as) (\<lambda>vals.
     if length vals \<noteq> 1 then Fail (Err ''bad attribute count'')
     else if length (vals ! 0) \<noteq> 1 then Fail (Err ''bad attribute element count'')
     else Ok (vals ! 0 ! 0))"

definition AttributeMessageDigest :: oid where "AttributeMessageDigest = [1, 2, 840, 113549, 1, 9, 4]"

definition GetMessageDigestAttribute :: "cmsEnv \<Rightarrow> SignerInfo \<Rightarrow> bytes result" where
  "GetMessageDigestAttribute E si =
     bindR (GetOnlyAttributeValueBytes E AttributeMessageDigest (SignedAttrs si)) (\<lambda>rv.
     if rvClass rv \<noteq> 0 \<or> rvTag rv \<noteq> 4 then Fail (Err ''bad class or tag'') else Ok (rvBytes rv))"

text \<open>The tag of the sequence is replaced by that of a set.\<close>

definition MarshaledForVerifying :: "cmsEnv \<Rightarrow> (oid \<times> RawValue) list option \<Rightarrow> bytes result" where
  "MarshaledForVerifying E attrs =
     bindR (marshalSeq E (case attrs of None \<Rightarrow> [] | Some as \<Rightarrow> as)) (\<lambda>b.
     case b of [] \<Rightarrow> Panic | t # ts \<Rightarrow> Ok (((t AND NOT 0x1f) OR 17) # ts))"

definition verifySignerInfo :: "cmsEnv \<Rightarrow> bytes \<Rightarrow> Certificate \<Rightarrow> SignerInfo \<Rightarrow> unit result" where
  "verifySignerInfo E raw cert si =
     bindR (si_Hash E si) (\<lambda>h.
     bindR (GetMessageDigestAttribute E si) (\<lambda>attrDigest.
     if attrDigest \<noteq> hashSum E h raw then Fail (Err ''message digest does not match'')
     else bindR (MarshaledForVerifying E (SignedAttrs si)) (\<lambda>sigInput.
       CheckSignature E cert (X509SignatureAlgorithm si) sigInput (siSignature si))))"

record SignedTRC =
  stRaw :: bytes
  stTRC :: TRC
  SignerInfos :: "SignerInfo list"

text \<open>The certificates that signed, by their addresses.\<close>

fun signersSeen :: "cmsEnv \<Rightarrow> bytes \<Rightarrow> Certificate list \<Rightarrow> SignerInfo list \<Rightarrow> nat list \<Rightarrow> nat list result" where
  "signersSeen E raw certs [] seen = Ok seen"
| "signersSeen E raw certs (si # sis) seen =
    (case FindCertificate E si certs of
       Panic \<Rightarrow> Panic
     | Fail e \<Rightarrow> if errors_Is e ErrNoCertificate then signersSeen E raw certs sis seen else Fail e
     | Ok cert \<Rightarrow> bindR (verifySignerInfo E raw cert si) (\<lambda>_. signersSeen E raw certs sis (List.insert (cPtr cert) seen)))"

definition verifyAll :: "cmsEnv \<Rightarrow> SignedTRC \<Rightarrow> Certificate list \<Rightarrow> unit result" where
  "verifyAll E s certs =
     bindR (signersSeen E (trcRaw (stTRC s)) certs (SignerInfos s) []) (\<lambda>seen.
     if length seen \<noteq> length certs then Fail (Err ''missing signatures'') else Ok ())"

definition verifyBase :: "cmsEnv \<Rightarrow> certOrder \<Rightarrow> SignedTRC \<Rightarrow> unit result" where
  "verifyBase E ord s =
     bindR (TRC_Validate ord (stTRC s)) (\<lambda>_.
     bindR (classifyCerts (Certificates (stTRC s))) (\<lambda>certs.
     wrapR ''verifying signatures for new voters'' (verifyAll E s (detectNewVoters ord no_certs certs))))"

definition verifyUpdate :: "cmsEnv \<Rightarrow> certOrder \<Rightarrow> SignedTRC \<Rightarrow> TRC option \<Rightarrow> unit result" where
  "verifyUpdate E ord s predecessor =
     bindR (ValidateUpdate ord (stTRC s) predecessor) (\<lambda>update.
     bindR (wrapR ''verifying signatures by new voters'' (verifyAll E s (NewVoters update))) (\<lambda>_.
     bindR (wrapR ''verifying root acknowledgments'' (verifyAll E s (RootAcknowledgments update))) (\<lambda>_.
     wrapR ''verifying votes'' (verifyAll E s (updVotes update)))))"

definition SignedTRC_Verify :: "cmsEnv \<Rightarrow> certOrder \<Rightarrow> SignedTRC \<Rightarrow> TRC option \<Rightarrow> unit result" where
  "SignedTRC_Verify E ord s predecessor =
    (if \<not> IsBase (trcID (stTRC s)) then verifyUpdate E ord s predecessor
     else if predecessor \<noteq> None then Fail (Err ''predecessor must be nil for base TRC'')
     else verifyBase E ord s)"

section \<open>Certificate chains\<close>

text \<open>\<open>x509Verify\<close> is the verification of a certificate by the standard library, with intermediates, roots, key usages and the time.\<close>

type_synonym chainVerifier = "Certificate \<Rightarrow> Certificate list \<Rightarrow> Certificate list \<Rightarrow> ExtKeyUsage list \<Rightarrow> int \<Rightarrow> unit result"

definition TRC_IsZero :: "TRC \<Rightarrow> bool" where
  "TRC_IsZero trc \<longleftrightarrow> trcRaw trc = [] \<and> trcVersion trc = 0 \<and> trcID trc = \<lparr>idISD = 0, idSerial = 0, idBase = 0\<rparr> \<and> trcValidity trc = (0, 0) \<and> GracePeriod trc = 0
     \<and> \<not> NoTrustReset trc \<and> Votes trc = [] \<and> Quorum trc = 0 \<and> CoreASes trc = [] \<and> AuthoritativeASes trc = [] \<and> Description trc = [] \<and> Certificates trc = []"

definition verifyChain :: "chainVerifier \<Rightarrow> certOrder \<Rightarrow> Certificate list \<Rightarrow> int \<Rightarrow> TRC option \<Rightarrow> unit result" where
  "verifyChain x509Verify ord certs now trc =
     bindR (wrapR ''chain validation failed'' (ValidateChain certs)) (\<lambda>_.
     case trc of
       None \<Rightarrow> Fail (Err ''TRC required for chain verification'')
     | Some trc \<Rightarrow>
         if TRC_IsZero trc then Fail (Err ''TRC required for chain verification'')
         else bindR (wrapR ''failed to extract root certs'' (RootPool ord trc)) (\<lambda>rootPool.
           x509Verify (certs ! 0) [certs ! 1] rootPool (ExtKeyUsages (certs ! 0)) now))"

fun VerifyChain :: "chainVerifier \<Rightarrow> certOrder \<Rightarrow> Certificate list \<Rightarrow> int \<Rightarrow> TRC option list \<Rightarrow> unit result" where
  "VerifyChain x509Verify ord certs now [] = Fail (Err ''chain did not verify against any selected TRC'')"
| "VerifyChain x509Verify ord certs now (trc # trcs) =
    (case verifyChain x509Verify ord certs now trc of
       Ok _ \<Rightarrow> Ok ()
     | Panic \<Rightarrow> Panic
     | Fail e \<Rightarrow> if trc = None then Panic else VerifyChain x509Verify ord certs now trcs)"

section \<open>Who signed\<close>

definition signed_by :: "cmsEnv \<Rightarrow> SignedTRC \<Rightarrow> Certificate \<Rightarrow> bool" where
  "signed_by E s c \<longleftrightarrow> (\<exists>si \<in> set (SignerInfos s). verifySignerInfo E (trcRaw (stTRC s)) c si = Ok ())"

lemma find_SomeD: "find P xs = Some x \<Longrightarrow> x \<in> set xs \<and> P x"
  by (induction xs) (auto split: if_splits)

lemma findBySerial_mem: "findBySerial iss sn cs = Ok (Some c) \<Longrightarrow> c \<in> set cs"
  by (induction cs) (auto split: if_splits option.splits)

lemma FindCertificate_mem: "FindCertificate E si certs = Ok c \<Longrightarrow> c \<in> set certs"
  by (auto simp: FindCertificate_def bindR_eq_Ok split: if_splits option.splits dest: findBySerial_mem find_SomeD)

lemma signersSeen_ok:
  assumes "signersSeen E raw certs sis seen = Ok seen'" and "distinct seen"
  shows "distinct seen' \<and> set seen' \<subseteq> set seen \<union> cPtr ` {c \<in> set certs. \<exists>si \<in> set sis. verifySignerInfo E raw c si = Ok ()}"
  using assms
proof (induction sis arbitrary: seen)
  case (Cons si sis)
  show ?case
  proof (cases "FindCertificate E si certs")
    case (Ok c)
    then have v: "verifySignerInfo E raw c si = Ok ()" "signersSeen E raw certs sis (List.insert (cPtr c) seen) = Ok seen'"
      using Cons.prems(1) by (auto simp: bindR_eq_Ok)
    show ?thesis using Cons.IH [OF v(2)] Cons.prems(2) v(1) FindCertificate_mem [OF Ok] by (auto simp: distinct_insert)
  next
    case (Fail e)
    then have v: "signersSeen E raw certs sis seen = Ok seen'" using Cons.prems(1) by (auto split: if_splits)
    show ?thesis using Cons.IH [OF v Cons.prems(2)] by fastforce
  qed (use Cons.prems(1) in auto)
qed simp

text \<open>All of the certificates signed, and none was given twice.\<close>

lemma verifyAll_ok:
  assumes "verifyAll E s certs = Ok ()"
  shows "distinct (map cPtr certs)" "\<forall>c \<in> set certs. signed_by E s c"
proof -
  obtain seen where s: "signersSeen E (trcRaw (stTRC s)) certs (SignerInfos s) [] = Ok seen" "length seen = length certs"
    using assms by (auto simp: verifyAll_def bindR_eq_Ok split: if_splits)
  have d: "distinct seen" "set seen \<subseteq> cPtr ` {c \<in> set certs. signed_by E s c}"
    using signersSeen_ok [OF s(1)] by (auto simp: signed_by_def)
  have "set seen \<subseteq> set (map cPtr certs)" using d(2) by auto
  moreover have "length certs \<le> card (set seen)" using d(1) s(2) by (simp add: distinct_card)
  ultimately have "length certs \<le> card (set (map cPtr certs))" "set seen = set (map cPtr certs)"
    using card_mono [of "set (map cPtr certs)" "set seen"] card_length [of "map cPtr certs"] card_subset_eq [of "set (map cPtr certs)" "set seen"] by auto
  then show dist: "distinct (map cPtr certs)" using card_length [of "map cPtr certs"] by (intro card_distinct) simp
  show "\<forall>c \<in> set certs. signed_by E s c"
  proof
    fix c assume c: "c \<in> set certs"
    then have "cPtr c \<in> cPtr ` {c \<in> set certs. signed_by E s c}" using d(2) \<open>set seen = set (map cPtr certs)\<close> by auto
    then obtain c' where "c' \<in> set certs" "signed_by E s c'" "cPtr c' = cPtr c" by auto
    moreover have "c' = c" using dist calculation c by (auto simp: distinct_map dest: inj_onD)
    ultimately show "signed_by E s c" by simp
  qed
qed

section \<open>Votes\<close>

lemma collectVoters_ok: "collectVoters msg m votes = Ok cs \<Longrightarrow> list_all2 (\<lambda>i c. voteOf m i = Some c) votes cs"
  by (induction votes arbitrary: cs) (auto simp: mapR_eq_Ok split: option.splits)

lemma classifyFrom_ok:
  assumes "classifyFrom k certs c = Ok c'"
  shows "clSensitive c' = clSensitive c @ filter (\<lambda>(i, x). ValidateCert x = Ok Sensitive) (zip [k..<k + length certs] certs)
    \<and> clRegular c' = clRegular c @ filter (\<lambda>(i, x). ValidateCert x = Ok Regular) (zip [k..<k + length certs] certs)
    \<and> clRoot c' = clRoot c @ filter (\<lambda>(i, x). ValidateCert x = Ok Root) (zip [k..<k + length certs] certs)"
  using assms
proof (induction certs arbitrary: k c)
  case (Cons x xs)
  have u: "[k..<k + length (x # xs)] = k # [Suc k..<Suc k + length xs]" by (simp del: upt_Suc add: upt_conv_Cons)
  obtain ct where ct: "ValidateCert x = Ok ct" using Cons.prems by (auto split: result.splits)
  have "ct = Sensitive \<or> ct = Regular \<or> ct = Root" using Cons.prems ct by (auto split: if_splits)
  then show ?case using Cons.prems ct Cons.IH [of "Suc k"] unfolding u by (elim disjE) (auto split: if_splits)
qed simp

definition typedCerts :: "CertType \<Rightarrow> Certificate list \<Rightarrow> certMap" where
  "typedCerts t certs = filter (\<lambda>(i, x). ValidateCert x = Ok t) (zip [0..<length certs] certs)"

lemma classifyCerts_ok:
  assumes "classifyCerts certs = Ok cl"
  shows "clSensitive cl = typedCerts Sensitive certs" "clRegular cl = typedCerts Regular certs" "clRoot cl = typedCerts Root certs"
  using classifyFrom_ok [OF assms [unfolded classifyCerts_def]] by (simp_all add: no_certs_def typedCerts_def)

lemma typedCerts_mem: "(i, c) \<in> set (typedCerts t certs) \<longleftrightarrow> i < length certs \<and> certs ! i = c \<and> ValidateCert c = Ok t"
proof -
  have "(i, c) \<in> set (zip [0..<length certs] certs) \<longleftrightarrow> i < length certs \<and> certs ! i = c" by (auto simp: in_set_zip intro!: exI [of _ i])
  then show ?thesis by (auto simp: typedCerts_def)
qed

lemma typedCerts_of: "map_of (typedCerts t certs) i = Some c \<longleftrightarrow> i < length certs \<and> certs ! i = c \<and> ValidateCert c = Ok t"
proof -
  have "distinct (map fst (typedCerts t certs))"
    unfolding typedCerts_def by (rule distinct_map_filter) simp
  then show ?thesis using typedCerts_mem [of i c t certs] by (metis map_of_eq_Some_iff)
qed

lemma voteOf_typed: "voteOf (typedCerts t certs) i = Some c \<longleftrightarrow> 0 \<le> i \<and> nat i < length certs \<and> certs ! nat i = c \<and> ValidateCert c = Ok t"
  by (auto simp: voteOf_def typedCerts_of)

text \<open>A chain is accepted only if it leads from an AS certificate over a CA certificate to root certificates of one of the TRCs.\<close>

lemma VerifyChain_ok:
  assumes "VerifyChain x509Verify ord certs now trcs = Ok ()" and "\<And>m. set (ord m) = set m"
  shows "\<exists>as ca trc roots. certs = [as, ca] \<and> ValidateCert as = Ok ASCert \<and> ValidateCert ca = Ok CA \<and> NotBefore ca \<le> NotBefore as \<and> NotAfter as \<le> NotAfter ca
    \<and> Some trc \<in> set trcs \<and> roots \<noteq> [] \<and> set roots \<subseteq> {c \<in> set (Certificates trc). ValidateCert c = Ok Root} \<and> x509Verify as [ca] roots (ExtKeyUsages as) now = Ok ()"
  using assms(1)
proof (induction trcs)
  case (Cons trc trcs)
  show ?case
  proof (cases "verifyChain x509Verify ord certs now trc")
    case (Ok u)
    then obtain t roots cl where t: "trc = Some t" "ValidateChain certs = Ok ()" "classifyCerts (Certificates t) = Ok cl" "roots = map snd (ord (clRoot cl))" "roots \<noteq> []"
        "x509Verify (certs ! 0) [certs ! 1] roots (ExtKeyUsages (certs ! 0)) now = Ok ()"
      by (auto simp: verifyChain_def bindR_eq_Ok wrapR_eq_Ok RootPool_def RootCerts_def mapR_eq_Ok split: option.splits if_splits)
    obtain as ca where c: "certs = [as, ca]" "ValidateCert as = Ok ASCert" "ValidateCert ca = Ok CA" "NotBefore ca \<le> NotBefore as" "NotAfter as \<le> NotAfter ca"
      using t(2) by (auto simp: ValidateChain_def Let_def bindR_eq_Ok wrapR_eq_Ok Validity_Covers_def length_Suc_conv numeral_2_eq_2 split: if_splits)
    have "set roots \<subseteq> {c \<in> set (Certificates t). ValidateCert c = Ok Root}"
      using t(4) assms(2) classifyCerts_ok(3) [OF t(3)] by (auto simp: typedCerts_mem)
    then show ?thesis using t c by (intro exI [of _ as] exI [of _ ca] exI [of _ t] exI [of _ roots]) simp
  next
    case (Fail e)
    then have "VerifyChain x509Verify ord certs now trcs = Ok ()" using Cons.prems by (simp split: if_splits)
    then show ?thesis using Cons.IH by auto
  qed (use Cons.prems in simp)
qed simp

lemma certAt_ok [simp]: "certAt cs i = Ok c \<longleftrightarrow> 0 \<le> i \<and> i < int (length cs) \<and> c = cs ! nat i"
  by (auto simp: certAt_def)

definition pqVoters :: "Certificate list \<Rightarrow> int list \<Rightarrow> IA set" where
  "pqVoters cs votes = {ia. \<exists>i \<in> set votes. isPQ (cs ! nat i) \<and> ExtractIA (Subject (cs ! nat i)) = Ok ia}"

lemma countVotes_ok:
  assumes "countVotes cs votes n pq = Ok (n', pq')" and "distinct (map fst pq)"
  shows "n' = n + length (filter (\<lambda>i. \<not> isPQ (cs ! nat i)) votes) \<and> distinct (map fst pq') \<and> set (map fst pq') = set (map fst pq) \<union> pqVoters cs votes"
  using assms
proof (induction votes arbitrary: n pq)
  case (Cons i js)
  let ?c = "cs ! nat i"
  show ?case
  proof (cases "isPQ ?c")
    case True
    then obtain ia where ia: "ExtractIA (Subject ?c) = Ok ia" and r: "countVotes cs js n (AList.update ia ((case map_of pq ia of None \<Rightarrow> 0 | Some k \<Rightarrow> k) + 1) pq) = Ok (n', pq')"
      using Cons.prems(1) by (auto simp: bindR_eq_Ok wrapR_eq_Ok)
    have keys: "set (map fst (AList.update ia x pq)) = insert ia (set (map fst pq))" for x
      using dom_update [of ia x pq] by (simp add: dom_map_of_conv_image_fst)
    show ?thesis using Cons.IH [OF r] Cons.prems(2) True ia keys by (auto simp: pqVoters_def distinct_update)
  next
    case False
    then have r: "countVotes cs js (n + 1) pq = Ok (n', pq')" using Cons.prems(1) by (auto simp: bindR_eq_Ok)
    show ?thesis using Cons.IH [OF r Cons.prems(2)] False by (auto simp: pqVoters_def)
  qed
qed (simp add: pqVoters_def)

section \<open>Kept by a regular update\<close>

lemma find_in_order:
  assumes "certMap_find ord m c = Some (i, same)" and "\<And>m. set (ord m) = set m"
  shows "\<exists>p. (i, p) \<in> set m \<and> equalName (Subject p) (Subject c) \<and> (same \<longleftrightarrow> cRaw p = cRaw c)"
proof -
  obtain p where p: "find (\<lambda>(i, p). equalName (Subject p) (Subject c)) (ord m) = Some (i, p)" "same = (cRaw p = cRaw c)"
    using assms(1) by (auto simp: certMap_find_def)
  then have "(i, p) \<in> set (ord m) \<and> equalName (Subject p) (Subject c)" by (auto dest: find_SomeD)
  then show ?thesis using p(2) assms(2) by auto
qed

lemma sensitiveUnchanged_ok:
  assumes "sensitiveUnchanged ord pred cs = Ok ()" and "c \<in> set cs" and "\<And>m. set (ord m) = set m"
  shows "\<exists>i p. (i, p) \<in> set pred \<and> equalName (Subject p) (Subject c) \<and> cRaw p = cRaw c"
  using assms(1,2)
proof (induction cs)
  case (Cons a cs)
  then obtain i where "certMap_find ord pred a = Some (i, True)" "sensitiveUnchanged ord pred cs = Ok ()" by (auto split: option.splits if_splits)
  then show ?case using Cons find_in_order [OF _ assms(3), of pred a i True] by auto
qed simp

lemma changedIdx_ok:
  assumes "changedIdx msg ord pred cs = Ok is" and "c \<in> set cs" and "\<And>m. set (ord m) = set m"
  shows "\<exists>i p. (i, p) \<in> set pred \<and> equalName (Subject p) (Subject c) \<and> (cRaw p = cRaw c \<or> i \<in> set is)"
  using assms(1,2)
proof (induction cs arbitrary: "is")
  case (Cons a cs)
  then obtain i same js where f: "certMap_find ord pred a = Some (i, same)" "changedIdx msg ord pred cs = Ok js" "is = (if same then js else i # js)"
    by (auto simp: mapR_eq_Ok split: option.splits prod.splits)
  show ?case
  proof (cases "c = a")
    case True
    then show ?thesis using f(3) find_in_order [OF f(1) assms(3)] by (cases same) auto
  next
    case False
    then obtain i' p where "(i', p) \<in> set pred" "equalName (Subject p) (Subject c)" "cRaw p = cRaw c \<or> i' \<in> set js"
      using Cons.IH [OF f(2)] Cons.prems(2) by auto
    then show ?thesis using f(3) by (cases same) auto
  qed
qed simp

text \<open>
  What a regular update keeps: the quorums, the core and the authoritative ASes, the sensitive voting certificates
  as they are, and the root and regular voting certificates up to replacement under the same subject, for which the
  replaced certificate signed. Nothing is added and nothing is removed.
\<close>

definition kept :: "CertType \<Rightarrow> (Certificate \<Rightarrow> Certificate \<Rightarrow> bool) \<Rightarrow> Certificate list \<Rightarrow> Certificate list \<Rightarrow> bool" where
  "kept t Q old new \<longleftrightarrow>
     (\<forall>c \<in> set new. ValidateCert c = Ok t \<longrightarrow> (\<exists>p \<in> set old. ValidateCert p = Ok t \<and> equalName (Subject p) (Subject c) \<and> Q p c))
   \<and> (\<forall>p \<in> set old. ValidateCert p = Ok t \<longrightarrow> (\<exists>c \<in> set new. ValidateCert c = Ok t \<and> equalName (Subject p) (Subject c) \<and> Q p c))"

definition regular_kept :: "cmsEnv \<Rightarrow> SignedTRC \<Rightarrow> TRC \<Rightarrow> bool" where
  "regular_kept E s pred \<longleftrightarrow> (let trc = stTRC s in
     Quorum trc = Quorum pred \<and> QuorumPQ trc = QuorumPQ pred \<and> CoreASes trc = CoreASes pred \<and> AuthoritativeASes trc = AuthoritativeASes pred
   \<and> kept Sensitive (\<lambda>p c. cRaw p = cRaw c) (Certificates pred) (Certificates trc)
   \<and> kept Root (\<lambda>p c. cRaw p = cRaw c \<or> signed_by E s p) (Certificates pred) (Certificates trc)
   \<and> kept Regular (\<lambda>p c. cRaw p = cRaw c \<or> signed_by E s p) (Certificates pred) (Certificates trc))"

lemma equalRDNSET_set: "equalRDNSET s t \<longleftrightarrow> set s = set t"
  by (auto simp: equalRDNSET_def rdnSETSubset_def)

lemma equalRDNSequence_list_all2: "equalRDNSequence xs ys \<longleftrightarrow> list_all2 (\<lambda>s t. length s = length t \<and> set s = set t) xs ys"
  by (induction xs ys rule: equalRDNSequence.induct) (simp_all add: equalRDNSET_set)

lemma equalName_sym: "equalName a b \<Longrightarrow> equalName b a"
  by (auto simp: equalName_def equalRDNSequence_list_all2 list_all2_conv_all_nth)

lemma equalName_trans: "equalName a b \<Longrightarrow> equalName b c \<Longrightarrow> equalName a c"
  by (auto simp: equalName_def equalRDNSequence_list_all2 list_all2_conv_all_nth)

lemma uniqueSubject_ok:
  assumes "uniqueSubject ord m = Ok ()" and "\<And>m. set (ord m) = set m" and "a \<in> set m" and "b \<in> set m"
    and "equalName (Subject (snd a)) (Subject (snd b))"
  shows "a = b"
proof -
  have "a = b" if "uniqueSubjects xs = Ok ()" "a \<in> set xs" "b \<in> set xs" for xs
    using that assms(5) equalName_sym [OF assms(5)] by (induction xs) (auto split: if_splits)
  then show ?thesis using assms(1-4) by (simp add: uniqueSubject_def)
qed

text \<open>A matching of the new entries with old ones, no two with the same, uses all old ones if there are equally many.\<close>

lemma matching_onto:
  assumes match: "\<And>x. x \<in> set xs \<Longrightarrow> \<exists>y \<in> set ys. R y x" and once: "\<And>x x' y. x \<in> set xs \<Longrightarrow> x' \<in> set xs \<Longrightarrow> R y x \<Longrightarrow> R y x' \<Longrightarrow> x = x'"
    and "distinct xs" and "distinct ys" and "length xs = length ys" and "y \<in> set ys"
  shows "\<exists>x \<in> set xs. R y x"
proof -
  obtain f where f: "\<And>x. x \<in> set xs \<Longrightarrow> f x \<in> set ys \<and> R (f x) x" using match by metis
  have "inj_on f (set xs)" using f once by (metis inj_onI)
  then have "card (f ` set xs) = card (set ys)" using assms(3-5) by (simp add: card_image distinct_card)
  then have "f ` set xs = set ys" using f by (intro card_subset_eq) auto
  then obtain x where "x \<in> set xs" "y = f x" using assms(6) by (metis imageE)
  then show ?thesis using f [of x] by auto
qed

lemma distinct_typedCerts: "distinct (typedCerts t certs)"
  by (simp add: typedCerts_def distinct_zipI1)

lemma kept_by:
  assumes match: "\<And>j c. (j, c) \<in> set (typedCerts t new) \<Longrightarrow> \<exists>i p. (i, p) \<in> set (typedCerts t old) \<and> equalName (Subject p) (Subject c) \<and> Q' i p c"
    and len: "length (typedCerts t old) = length (typedCerts t new)"
    and uniq: "uniqueSubject ord (typedCerts t new) = Ok ()" and ord: "\<And>m. set (ord m) = set m"
    and Q: "\<And>i p c. (i, p) \<in> set (typedCerts t old) \<Longrightarrow> Q' i p c \<Longrightarrow> Q p c"
  shows "kept t Q old new"
proof -
  have mem: "(\<exists>i. (i, c) \<in> set (typedCerts t certs)) \<longleftrightarrow> c \<in> set certs \<and> ValidateCert c = Ok t" for c certs
    unfolding typedCerts_mem by (metis in_set_conv_nth)
  have fwd: "\<exists>p \<in> set old. ValidateCert p = Ok t \<and> equalName (Subject p) (Subject c) \<and> Q p c" if "c \<in> set new" "ValidateCert c = Ok t" for c
    using that match Q mem by metis
  have bwd: "\<exists>c \<in> set new. ValidateCert c = Ok t \<and> equalName (Subject p) (Subject c) \<and> Q p c" if p: "p \<in> set old" "ValidateCert p = Ok t" for p
  proof -
    obtain i where i: "(i, p) \<in> set (typedCerts t old)" using p mem by blast
    have "\<exists>x \<in> set (typedCerts t new). equalName (Subject (snd (i, p))) (Subject (snd x)) \<and> Q' (fst (i, p)) (snd (i, p)) (snd x)"
    proof (rule matching_onto [where xs = "typedCerts t new" and ys = "typedCerts t old"])
      show "\<exists>y \<in> set (typedCerts t old). equalName (Subject (snd y)) (Subject (snd x)) \<and> Q' (fst y) (snd y) (snd x)"
        if "x \<in> set (typedCerts t new)" for x
        using match [of "fst x" "snd x"] that by force
      show "x = x'" if "x \<in> set (typedCerts t new)" "x' \<in> set (typedCerts t new)"
        "equalName (Subject (snd y)) (Subject (snd x)) \<and> Q' (fst y) (snd y) (snd x)"
        "equalName (Subject (snd y)) (Subject (snd x')) \<and> Q' (fst y) (snd y) (snd x')" for x x' and y :: "nat \<times> Certificate"
        using that(3,4) by (intro uniqueSubject_ok [OF uniq ord that(1,2)]) (blast intro: equalName_sym equalName_trans)
    qed (simp_all add: distinct_typedCerts len i)
    then show ?thesis using Q [OF i] mem by fastforce
  qed
  show ?thesis unfolding kept_def using fwd bwd by blast
qed

lemma TRC_Validate_unique:
  assumes "TRC_Validate ord trc = Ok ()" and "classifyCerts (Certificates trc) = Ok cl"
  shows "uniqueSubject ord (clSensitive cl) = Ok ()" "uniqueSubject ord (clRegular cl) = Ok ()" "uniqueSubject ord (clRoot cl) = Ok ()"
  using assms by (auto simp: TRC_Validate_def bindR_eq_Ok split: if_splits)

lemma typed_all: "c \<in> set certs \<Longrightarrow> ValidateCert c = Ok t \<Longrightarrow> (\<And>m. set (ord m) = set m) \<Longrightarrow> c \<in> set (map snd (ord (typedCerts t certs)))"
proof -
  assume c: "c \<in> set certs" "ValidateCert c = Ok t" and ord: "\<And>m. set (ord m) = set m"
  then obtain i where "i < length certs" "certs ! i = c" by (auto simp: in_set_conv_nth)
  then have "(i, c) \<in> set (ord (typedCerts t certs))" using c(2) ord by (simp add: typedCerts_mem)
  then show ?thesis by (force simp: image_iff)
qed

lemma validateRegular_ok:
  assumes "validateRegular ord trc pred predCerts thisCerts = Ok (votes, acks)" and ord: "\<And>m. set (ord m) = set m"
    and cl: "classifyCerts (Certificates pred) = Ok predCerts" "classifyCerts (Certificates trc) = Ok thisCerts" and trc: "trc = stTRC s"
    and signed: "\<forall>c \<in> set votes. signed_by E s c" "\<forall>c \<in> set acks. signed_by E s c" and valid: "TRC_Validate ord trc = Ok ()"
  shows "collectVoters ''vote by non-regular voter'' (typedCerts Regular (Certificates pred)) (Votes trc) = Ok votes" "regular_kept E s pred"
proof -
  note t = classifyCerts_ok [OF cl(1)] classifyCerts_ok [OF cl(2)]
  note uniq = TRC_Validate_unique [OF valid cl(2), unfolded t]
  obtain roots expected where r: "Quorum pred = Quorum trc" "QuorumPQ pred = QuorumPQ trc" "CoreASes pred = CoreASes trc" "AuthoritativeASes pred = AuthoritativeASes trc"
      "sensitiveUnchanged ord (clSensitive predCerts) (map snd (ord (clSensitive thisCerts))) = Ok ()"
      "changedIdx ''new root certificate'' ord (clRoot predCerts) (map snd (ord (clRoot thisCerts))) = Ok roots"
      "changedIdx ''new regular voting certificate'' ord (clRegular predCerts) (map snd (ord (clRegular thisCerts))) = Ok expected"
      "collectVoters ''vote by non-regular voter'' (clRegular predCerts) (Votes trc) = Ok votes"
      "\<forall>i \<in> set expected. int i \<in> set (Votes trc)" "acks = List.map_filter (map_of (clRoot predCerts)) roots"
      "length (clSensitive predCerts) = length (clSensitive thisCerts)" "length (clRoot predCerts) = length (clRoot thisCerts)"
      "length (clRegular predCerts) = length (clRegular thisCerts)"
    using assms(1) by (auto simp: validateRegular_def bindR_eq_Ok wrapR_eq_Ok equalASes_def split: if_splits)
  show "collectVoters ''vote by non-regular voter'' (typedCerts Regular (Certificates pred)) (Votes trc) = Ok votes" using r(8) t by simp
  have entry: "(j, c) \<in> set (typedCerts ty (Certificates trc)) \<Longrightarrow> c \<in> set (map snd (ord (typedCerts ty (Certificates trc))))" for j c ty
    using ord by (force simp: image_iff)
  have sens: "kept Sensitive (\<lambda>p c. cRaw p = cRaw c) (Certificates pred) (Certificates trc)"
    using sensitiveUnchanged_ok [OF r(5) _ ord] entry r(11) t
    by (intro kept_by [OF _ _ uniq(1) ord, where Q' = "\<lambda>i p c. cRaw p = cRaw c"]) simp_all
  have ack: "signed_by E s p" if "(i, p) \<in> set (typedCerts Root (Certificates pred))" "i \<in> set roots" for i p
  proof -
    have "map_of (clRoot predCerts) i = Some p" using that(1) t by (simp add: typedCerts_of typedCerts_mem)
    then have "p \<in> set acks" using that(2) r(10) by (force simp: List.map_filter_def)
    then show ?thesis using signed(2) by blast
  qed
  have root: "kept Root (\<lambda>p c. cRaw p = cRaw c \<or> signed_by E s p) (Certificates pred) (Certificates trc)"
    using changedIdx_ok [OF r(6) _ ord] entry r(12) t ack
    by (intro kept_by [OF _ _ uniq(3) ord, where Q' = "\<lambda>i p c. cRaw p = cRaw c \<or> i \<in> set roots"]) auto
  have vote: "signed_by E s p" if "(i, p) \<in> set (typedCerts Regular (Certificates pred))" "i \<in> set expected" for i p
  proof -
    have "int i \<in> set (Votes trc)" using r(9) that(2) by simp
    then obtain k where k: "k < length (Votes trc)" "Votes trc ! k = int i" by (auto simp: in_set_conv_nth)
    have l: "list_all2 (\<lambda>i c. voteOf (clRegular predCerts) i = Some c) (Votes trc) votes" by (rule collectVoters_ok [OF r(8)])
    have "voteOf (clRegular predCerts) (int i) = Some (votes ! k)" "k < length votes" using list_all2_nthD [OF l k(1)] list_all2_lengthD [OF l] k by auto
    moreover from this have "votes ! k = p" using that(1) t by (auto simp: voteOf_typed typedCerts_mem)
    ultimately show ?thesis using signed(1) by auto
  qed
  have reg: "kept Regular (\<lambda>p c. cRaw p = cRaw c \<or> signed_by E s p) (Certificates pred) (Certificates trc)"
    using changedIdx_ok [OF r(7) _ ord] entry r(13) t vote
    by (intro kept_by [OF _ _ uniq(2) ord, where Q' = "\<lambda>i p c. cRaw p = cRaw c \<or> i \<in> set expected"]) auto
  show "regular_kept E s pred" unfolding regular_kept_def Let_def trc [symmetric] using r(1-4) sens root reg by simp
qed

section \<open>Updates are authorized\<close>

lemma votes_distinct:
  assumes "list_all2 (\<lambda>i c. voteOf m i = Some c) votes cs" and "distinct (map cPtr cs)"
  shows "distinct votes"
proof (rule ccontr)
  assume "\<not> distinct votes"
  then obtain j k where jk: "j < k" "k < length votes" "votes ! j = votes ! k" by (metis distinct_conv_nth linorder_neqE_nat)
  have l: "length votes = length cs" using assms(1) by (rule list_all2_lengthD)
  have "cs ! j = cs ! k" using list_all2_nthD [OF assms(1), of j] list_all2_nthD [OF assms(1), of k] jk by simp
  moreover have "cPtr (cs ! j) \<noteq> cPtr (cs ! k)" using assms(2) jk l by (simp add: distinct_conv_nth)
  ultimately show False by simp
qed

text \<open>What the votes of the type \<open>t\<close> amount to.\<close>

definition voted :: "cmsEnv \<Rightarrow> SignedTRC \<Rightarrow> TRC \<Rightarrow> CertType \<Rightarrow> bool" where
  "voted E s pred t \<longleftrightarrow> distinct (Votes (stTRC s))
   \<and> (\<forall>i \<in> set (Votes (stTRC s)). 0 \<le> i \<and> nat i < length (Certificates pred)
        \<and> ValidateCert (Certificates pred ! nat i) = Ok t \<and> signed_by E s (Certificates pred ! nat i))"

lemma votes_ok:
  assumes "collectVoters msg (typedCerts t (Certificates pred)) (Votes (stTRC s)) = Ok cs" and "verifyAll E s cs = Ok ()"
  shows "voted E s pred t"
proof -
  note l = collectVoters_ok [OF assms(1)] and v = verifyAll_ok [OF assms(2)]
  have "0 \<le> i \<and> nat i < length (Certificates pred) \<and> ValidateCert (Certificates pred ! nat i) = Ok t \<and> signed_by E s (Certificates pred ! nat i)"
    if i: "i \<in> set (Votes (stTRC s))" for i
  proof -
    obtain k where k: "k < length (Votes (stTRC s))" "Votes (stTRC s) ! k = i" using i by (auto simp: in_set_conv_nth)
    then have c: "voteOf (typedCerts t (Certificates pred)) i = Some (cs ! k)" "cs ! k \<in> set cs"
      using list_all2_nthD [OF l k(1)] list_all2_lengthD [OF l] by auto
    then show ?thesis using v(2) by (auto simp: voteOf_typed)
  qed
  then show ?thesis using votes_distinct [OF l v(1)] by (simp add: voted_def)
qed

lemma ValidateUpdate_ok:
  assumes "ValidateUpdate ord trc (Some pred) = Ok u"
  obtains predCerts thisCerts normal pq where
    "TRC_Validate ord trc = Ok ()" "idISD (trcID trc) = idISD (trcID pred)" "idBase (trcID trc) = idBase (trcID pred)"
    "idSerial (trcID trc) = idSerial (trcID pred) + 1" "NoTrustReset trc = NoTrustReset pred"
    "countVotes (Certificates pred) (Votes trc) 0 [] = Ok (normal, pq)" "Quorum pred \<le> int normal" "QuorumPQ pred \<le> int (length pq)"
    "classifyCerts (Certificates pred) = Ok predCerts" "classifyCerts (Certificates trc) = Ok thisCerts"
    "NewVoters u = detectNewVoters ord predCerts thisCerts"
    "validateSensitive trc predCerts = Ok (updVotes u) \<or> validateRegular ord trc pred predCerts thisCerts = Ok (updVotes u, RootAcknowledgments u)"
  using assms by (auto simp: ValidateUpdate_def bindR_eq_Ok wrapR_eq_Ok mapR_eq_Ok split: if_splits)

lemma new_voter:
  assumes c: "c \<in> set (Certificates trc)" "ValidateCert c = Ok Sensitive \<or> ValidateCert c = Ok Regular" and ord: "\<And>m. set (ord m) = set m"
    and v: "verifyAll E s vs = Ok ()" and cl: "classifyCerts (Certificates pred) = Ok predCerts" "classifyCerts (Certificates trc) = Ok thisCerts"
    and vs: "vs = detectNewVoters ord predCerts thisCerts"
  shows "signed_by E s c \<or> (\<exists>p \<in> set (Certificates pred). cRaw p = cRaw c)"
proof -
  note t = classifyCerts_ok [OF cl(1)] classifyCerts_ok [OF cl(2)]
  have "\<exists>p \<in> set (Certificates pred). cRaw p = cRaw c" if un: "unchanged ord (typedCerts ty (Certificates pred)) c" for ty
  proof -
    obtain i where "certMap_find ord (typedCerts ty (Certificates pred)) c = Some (i, True)"
      using un by (auto simp: unchanged_def split: option.splits prod.splits)
    then show ?thesis using find_in_order [OF _ ord, of "typedCerts ty (Certificates pred)" c i True] by (auto simp: typedCerts_mem)
  qed
  moreover have "c \<in> set vs" if "ValidateCert c = Ok ty" "\<not> unchanged ord (typedCerts ty (Certificates pred)) c" "ty = Sensitive \<or> ty = Regular" for ty
    using typed_all [OF c(1) that(1) ord] that(2,3) t by (auto simp: vs detectNewVoters_def)
  ultimately show ?thesis using c(2) verifyAll_ok(2) [OF v] by blast
qed

text \<open>C23: a TRC that is accepted as an update of a predecessor is its direct successor and was authorized by it: at least as
  many distinct votes as the quorum of the predecessor, all cast with sensitive or all with regular voting certificates of the
  predecessor, signed the payload, and at least as many ASes as its post-quantum quorum voted with post-quantum
  certificates; every voting certificate that is new signed too. With regular votes, the quorums and the core and authoritative ASes
  are those of the predecessor, its sensitive voting certificates are all kept and none is added, and its root and regular
  certificates are kept or replaced one by one under the same subject, the replaced one having signed, none being added
  or dropped.\<close>

theorem trc_update_authorized:
  assumes ok: "SignedTRC_Verify E ord s (Some pred) = Ok ()" and ord: "\<And>m. set (ord m) = set m" and trc: "trc = stTRC s"
  shows "TRC_Validate ord trc = Ok () \<and> idISD (trcID trc) = idISD (trcID pred) \<and> idBase (trcID trc) = idBase (trcID pred)
    \<and> idSerial (trcID trc) = idSerial (trcID pred) + 1 \<and> NoTrustReset trc = NoTrustReset pred
    \<and> (voted E s pred Sensitive \<or> voted E s pred Regular \<and> regular_kept E s pred)
    \<and> Quorum pred \<le> int (card {i \<in> set (Votes trc). \<not> isPQ (Certificates pred ! nat i)})
    \<and> QuorumPQ pred \<le> int (card (pqVoters (Certificates pred) (Votes trc)))
    \<and> (\<forall>c \<in> set (Certificates trc). ValidateCert c \<in> {Ok Sensitive, Ok Regular} \<longrightarrow> signed_by E s c \<or> (\<exists>p \<in> set (Certificates pred). cRaw p = cRaw c))"
proof -
  obtain u where u: "ValidateUpdate ord trc (Some pred) = Ok u" "verifyAll E s (NewVoters u) = Ok ()" "verifyAll E s (RootAcknowledgments u) = Ok ()" "verifyAll E s (updVotes u) = Ok ()"
    using ok trc by (auto simp: SignedTRC_Verify_def verifyUpdate_def bindR_eq_Ok wrapR_eq_Ok split: if_splits)
  obtain predCerts thisCerts normal pq where v:
      "TRC_Validate ord trc = Ok ()" "idISD (trcID trc) = idISD (trcID pred)" "idBase (trcID trc) = idBase (trcID pred)"
      "idSerial (trcID trc) = idSerial (trcID pred) + 1" "NoTrustReset trc = NoTrustReset pred"
      "countVotes (Certificates pred) (Votes trc) 0 [] = Ok (normal, pq)" "Quorum pred \<le> int normal" "QuorumPQ pred \<le> int (length pq)"
      "classifyCerts (Certificates pred) = Ok predCerts" "classifyCerts (Certificates trc) = Ok thisCerts"
      "NewVoters u = detectNewVoters ord predCerts thisCerts"
      "validateSensitive trc predCerts = Ok (updVotes u) \<or> validateRegular ord trc pred predCerts thisCerts = Ok (updVotes u, RootAcknowledgments u)"
    using ValidateUpdate_ok [OF u(1)] .
  have "voted E s pred Sensitive \<or> voted E s pred Regular \<and> regular_kept E s pred"
    using v(12)
  proof
    assume "validateSensitive trc predCerts = Ok (updVotes u)"
    then show ?thesis using votes_ok [OF _ u(4), of _ Sensitive pred] classifyCerts_ok(1) [OF v(9)] trc by (simp add: validateSensitive_def)
  next
    assume r: "validateRegular ord trc pred predCerts thisCerts = Ok (updVotes u, RootAcknowledgments u)"
    note k = validateRegular_ok [OF r ord v(9,10) trc verifyAll_ok(2) [OF u(4)] verifyAll_ok(2) [OF u(3)] v(1)]
    show ?thesis using votes_ok [OF _ u(4), of _ Regular pred] k trc by simp
  qed
  moreover from this have dist: "distinct (Votes trc)" using trc by (auto simp: voted_def)
  note n = countVotes_ok [OF v(6)]
  have "normal = card {i \<in> set (Votes trc). \<not> isPQ (Certificates pred ! nat i)}"
    using n dist distinct_card [of "filter (\<lambda>i. \<not> isPQ (Certificates pred ! nat i)) (Votes trc)"] by (simp add: distinct_filter)
  moreover have "length pq = card (pqVoters (Certificates pred) (Votes trc))" using n distinct_card [of "map fst pq"] by simp
  moreover have "signed_by E s c \<or> (\<exists>p \<in> set (Certificates pred). cRaw p = cRaw c)"
    if c: "c \<in> set (Certificates trc)" "ValidateCert c \<in> {Ok Sensitive, Ok Regular}" for c
    using new_voter [OF c(1) _ ord u(2) v(9-11)] c(2) by auto
  ultimately show ?thesis using v(1-5,7,8) by simp
qed

text \<open>C24: a vote that is not an index into the certificates of the predecessor makes the validation of an update panic, before any
  signature is checked: the counting of votes indexes the certificates with numbers taken from the new TRC.\<close>

theorem trc_vote_out_of_range_panics:
  assumes "TRC_Validate ord trc = Ok ()" and "idISD (trcID pred) = idISD (trcID trc)" and "idBase (trcID pred) = idBase (trcID trc)"
    and "idSerial (trcID pred) + 1 = idSerial (trcID trc)" and "NoTrustReset pred = NoTrustReset trc"
    and "Votes trc = is @ i # js" and "i < 0 \<or> int (length (Certificates pred)) \<le> i"
    and "\<And>k. k \<in> set is \<Longrightarrow> 0 \<le> k \<and> k < int (length (Certificates pred)) \<and> \<not> isPQ (Certificates pred ! nat k)"
  shows "ValidateUpdate ord trc (Some pred) = Panic"
proof -
  have "countVotes cs (is @ i # js) n pq = Panic"
    if "i < 0 \<or> int (length cs) \<le> i" "\<forall>k \<in> set is. 0 \<le> k \<and> k < int (length cs) \<and> \<not> isPQ (cs ! nat k)" for cs n pq
    using that by (induction "is" arbitrary: n) (auto simp: certAt_def)
  then show ?thesis using assms by (simp add: ValidateUpdate_def)
qed

section \<open>A base TRC and an update\<close>

definition sample_name :: "string \<Rightarrow> pkix_Name" where
  "sample_name t = \<lparr>Names = [], rdnSeq = [], rdnText = t\<rparr>"

definition sample_cert :: "nat \<Rightarrow> u8 \<Rightarrow> oid \<Rightarrow> string \<Rightarrow> Certificate" where
  "sample_cert p k usage nm = \<lparr>cPtr = p, cRaw = [k], RawIssuer = [k], cVersion = 3, SerialNumber = Some (uint k), cSignatureAlgorithm = ECDSAWithSHA256,
     cPublicKeyAlgorithm = ECDSA, Issuer = sample_name nm, Subject = sample_name nm, NotBefore = 0, NotAfter = 100, KeyUsage = 0, cExtensions = [],
     ExtKeyUsages = [ExtKeyUsageTimeStamping], UnknownExtKeyUsage = [usage], BasicConstraintsValid = False, IsCA = False, MaxPathLen = 0,
     SubjectKeyId = [k, k], AuthorityKeyId = []\<rparr>"

definition sample_trc :: "nat \<Rightarrow> u64 \<Rightarrow> int list \<Rightarrow> TRC" where
  "sample_trc p serial votes = \<lparr>trcRaw = [word_of_nat p, 9, 9], trcVersion = 1, trcID = \<lparr>idISD = 1, idSerial = serial, idBase = 1\<rparr>, trcValidity = (10, 90),
     GracePeriod = 0, NoTrustReset = False, Votes = votes, Quorum = 1, QuorumPQ = 0, CoreASes = [5], AuthoritativeASes = [5], Description = [],
     Certificates = [sample_cert p 3 OIDExtKeyUsageSensitive ''s'', sample_cert (p + 1) 4 OIDExtKeyUsageRegular ''r'']\<rparr>"

definition sample_cms :: cmsEnv where
  "sample_cms = \<lparr>unmarshalISN = \<lambda>b. ((take 1 b, Some (uint (b ! 0))), Some []), unmarshalAny = \<lambda>b. Ok (\<lparr>rvClass = 0, rvTag = 4, rvBytes = b, rvFullBytes = b\<rparr>, []),
     marshalSeq = \<lambda>_. Ok [48], Available = \<lambda>_. True, hashSum = \<lambda>_ b. take 2 b,
     CheckSignature = \<lambda>c a m sig. if sig = SubjectKeyId c then Ok () else Fail (Err ''x509: ECDSA verification failure'')\<rparr>"

definition sample_signer_info :: "u8 \<Rightarrow> bytes \<Rightarrow> SignerInfo" where
  "sample_signer_info k digest = \<lparr>siVersion = 1, SID = \<lparr>rvClass = 0, rvTag = 16, rvBytes = [], rvFullBytes = [k]\<rparr>, DigestAlgorithm = [2, 16, 840, 1, 101, 3, 4, 2, 1],
     SignedAttrs = Some [(AttributeMessageDigest, \<lparr>rvClass = 0, rvTag = 17, rvBytes = digest, rvFullBytes = []\<rparr>)],
     siSignatureAlgorithm = [1, 2, 840, 10045, 4, 3, 2], siSignature = [k, k]\<rparr>"

definition sample_update :: SignedTRC where
  "sample_update = \<lparr>stRaw = [], stTRC = sample_trc 20 2 [0], SignerInfos = [sample_signer_info 3 [20, 9]]\<rparr>"

definition sample_regular :: SignedTRC where
  "sample_regular = sample_update\<lparr>stTRC := sample_trc 20 2 [1], SignerInfos := [sample_signer_info 4 [20, 9]]\<rparr>"

theorem trc_update_authorized_witness:
  "SignedTRC_Verify sample_cms (\<lambda>m. m) sample_update (Some (sample_trc 10 1 [])) = Ok ()
   \<and> voted sample_cms sample_update (sample_trc 10 1 []) Sensitive
   \<and> SignedTRC_Verify sample_cms (\<lambda>m. m) (sample_update\<lparr>SignerInfos := []\<rparr>) (Some (sample_trc 10 1 [])) \<noteq> Ok ()
   \<and> SignedTRC_Verify sample_cms (\<lambda>m. m) sample_regular (Some (sample_trc 10 1 [])) = Ok ()
   \<and> regular_kept sample_cms sample_regular (sample_trc 10 1 [])"
proof -
  have reg: "SignedTRC_Verify sample_cms (\<lambda>m. m) sample_regular (Some (sample_trc 10 1 [])) = Ok ()" by code_simp
  have "ValidateCert (Certificates (sample_trc 10 1 []) ! 1) = Ok Regular" by code_simp
  then have "\<not> voted sample_cms sample_regular (sample_trc 10 1 []) Sensitive"
    by (simp add: voted_def sample_regular_def sample_update_def sample_trc_def)
  then have kept: "regular_kept sample_cms sample_regular (sample_trc 10 1 [])" using trc_update_authorized [OF reg refl refl] by blast
  have ok: "SignedTRC_Verify sample_cms (\<lambda>m. m) sample_update (Some (sample_trc 10 1 [])) = Ok ()" by code_simp
  have "ValidateCert (Certificates (sample_trc 10 1 []) ! 0) = Ok Sensitive" by code_simp
  then have "\<not> voted sample_cms sample_update (sample_trc 10 1 []) Regular" by (simp add: voted_def sample_update_def sample_trc_def)
  moreover have "SignedTRC_Verify sample_cms (\<lambda>m. m) (sample_update\<lparr>SignerInfos := []\<rparr>) (Some (sample_trc 10 1 [])) \<noteq> Ok ()" by code_simp
  ultimately show ?thesis using ok trc_update_authorized [OF ok refl refl] reg kept by blast
qed

theorem trc_vote_out_of_range_panics_witness:
  "ValidateUpdate (\<lambda>m. m) (sample_trc 20 2 [0, 7]) (Some (sample_trc 10 1 [])) = Panic"
proof (rule trc_vote_out_of_range_panics [of _ _ _ "[0]" 7 "[]"])
  show "TRC_Validate (\<lambda>m. m) (sample_trc 20 2 [0, 7]) = Ok ()" by code_simp
qed (simp_all add: sample_trc_def isPQ_def sample_cert_def)

end
