(* ===== verification/Ring.thy ===== *)
theory Ring
  imports Prelude
begin

text \<open>
  The ring buffer between goroutines (\<^verbatim>\<open>private/ringbuf/ringbuf.go\<close>) and the packet ring of the gateway on top of it
  (\<^verbatim>\<open>gateway/dataplane/pktring.go\<close>). An entry is \<open>None\<close> for nil. A call that has to wait on its condition variable returns
  \<open>None\<close> and leaves the ring as it is; it is tried again after a broadcast, with \<open>blocked\<close> set. The ring implements a
  bounded queue.
\<close>

section \<open>The ring\<close>

record 'a Ring =
  entries :: "'a option list"
  writeIndex :: nat
  readIndex :: nat
  writable :: nat
  readable :: nat
  closed :: bool

definition Ring_New :: "nat \<Rightarrow> (nat \<Rightarrow> 'a) option \<Rightarrow> 'a Ring" where
  "Ring_New count newf =
    (case newf of
       Some f \<Rightarrow> \<lparr>entries = map (\<lambda>i. Some (f i)) [0..<count], writeIndex = 0, readIndex = 0, writable = 0, readable = count, closed = False\<rparr>
     | None \<Rightarrow> \<lparr>entries = replicate count None, writeIndex = 0, readIndex = 0, writable = count, readable = 0, closed = False\<rparr>)"

text \<open>\<open>copy(r.entries[i:], es)\<close>, with the number of entries copied.\<close>

definition copyTo :: "nat \<Rightarrow> 'a list \<Rightarrow> 'a list \<Rightarrow> (nat \<times> 'a list) result" where
  "copyTo i es xs = (if i > length xs then Panic else let n = min (length xs - i) (length es) in Ok (n, copy_at i (take n es) xs))"

definition ring_write :: "'a option list \<Rightarrow> 'a Ring \<Rightarrow> 'a Ring result" where
  "ring_write es r =
     bindR (copyTo (writeIndex r) es (entries r)) (\<lambda>(n, xs).
     let r1 = r\<lparr>entries := xs, writeIndex := writeIndex r + n\<rparr> in
     if n < length es
     then bindR (copyTo 0 (drop n es) (entries r1)) (\<lambda>(n, xs). Ok (r1\<lparr>entries := xs, writeIndex := n\<rparr>))
     else Ok r1)"

text \<open>Reading \<open>m\<close> entries: the entries read, and the ring with their slots cleared.\<close>

definition copyFrom :: "nat \<Rightarrow> nat \<Rightarrow> 'a option list \<Rightarrow> ('a option list \<times> 'a option list) result" where
  "copyFrom i m xs = (if i > length xs then Panic else
     let n = min m (length xs - i) in Ok (take n (drop i xs), copy_at i (replicate n None) xs))"

definition ring_read :: "nat \<Rightarrow> 'a Ring \<Rightarrow> ('a option list \<times> 'a Ring) result" where
  "ring_read m r =
     bindR (copyFrom (readIndex r) m (entries r)) (\<lambda>(ys, xs).
     let r1 = r\<lparr>entries := xs, readIndex := readIndex r + length ys\<rparr> in
     if length ys < m
     then bindR (copyFrom 0 (m - length ys) (entries r1)) (\<lambda>(zs, xs). Ok (ys @ zs, r1\<lparr>entries := xs, readIndex := length zs\<rparr>))
     else Ok (ys, r1))"

definition Ring_Write :: "bool \<Rightarrow> 'a Ring \<Rightarrow> 'a option list \<Rightarrow> bool \<Rightarrow> ((int \<times> bool) \<times> 'a Ring) option result" where
  "Ring_Write blocked r es block =
    (if es \<noteq> [] \<and> writable r = 0 \<and> \<not> closed r
     then (if \<not> block then Ok (Some ((0, blocked), r)) else Ok None)
     else if closed r then Ok (Some ((-1, blocked), r))
     else let n = min (writable r) (length es) in
       bindR (ring_write (take n es) r) (\<lambda>r1.
       Ok (Some ((int n, blocked), r1\<lparr>writable := writable r1 - n, readable := readable r1 + n\<rparr>))))"

definition Ring_Read :: "bool \<Rightarrow> 'a Ring \<Rightarrow> nat \<Rightarrow> bool \<Rightarrow> ((int \<times> bool) \<times> 'a option list \<times> 'a Ring) option result" where
  "Ring_Read blocked r m block =
    (if 0 < m \<and> readable r = 0 \<and> \<not> closed r
     then (if \<not> block then Ok (Some ((0, blocked), [], r)) else Ok None)
     else if closed r \<and> readable r = 0 then Ok (Some ((-1, blocked), [], r))
     else let n = min (readable r) m in
       bindR (ring_read n r) (\<lambda>(ys, r1).
       Ok (Some ((int n, blocked), ys, r1\<lparr>readable := readable r1 - n, writable := writable r1 + n\<rparr>))))"

definition Ring_Close :: "'a Ring \<Rightarrow> 'a Ring" where
  "Ring_Close r = r\<lparr>closed := True\<rparr>"

section \<open>The queue it implements\<close>

definition ring_ok :: "'a Ring \<Rightarrow> bool" where
  "ring_ok r \<longleftrightarrow> entries r \<noteq> [] \<and> readable r + writable r = length (entries r) \<and> readIndex r \<le> length (entries r) \<and> writeIndex r \<le> length (entries r)
     \<and> writeIndex r mod length (entries r) = (readIndex r + readable r) mod length (entries r)"

definition ring_contents :: "'a Ring \<Rightarrow> 'a option list" where
  "ring_contents r = map (\<lambda>k. entries r ! ((readIndex r + k) mod length (entries r))) [0..<readable r]"

lemma length_ring_contents [simp]: "length (ring_contents r) = readable r"
  by (simp add: ring_contents_def)

text \<open>Copying a list into a ring at a position, with at most one wrap-around.\<close>

definition wrap_at :: "nat \<Rightarrow> 'a list \<Rightarrow> 'a list \<Rightarrow> 'a list" where
  "wrap_at i es xs = (let n = min (length xs - i) (length es) in copy_at 0 (drop n es) (copy_at i (take n es) xs))"

lemma length_wrap_at [simp]: "i \<le> length xs \<Longrightarrow> length es \<le> length xs \<Longrightarrow> length (wrap_at i es xs) = length xs"
  by (simp add: wrap_at_def Let_def)

lemma nth_copy_at: "off + length ys \<le> length xs \<Longrightarrow> j < length xs \<Longrightarrow>
    copy_at off ys xs ! j = (if off \<le> j \<and> j < off + length ys then ys ! (j - off) else xs ! j)"
  by (auto simp: copy_at_def nth_append min_def)

lemma nth_wrap_at:
  assumes "i \<le> length xs" "length es \<le> length xs" "k < length xs" "xs \<noteq> []"
  shows "wrap_at i es xs ! ((i + k) mod length xs) = (if k < length es then es ! k else xs ! ((i + k) mod length xs))"
proof -
  have m: "(i + k) mod length xs = (if i + k < length xs then i + k else i + k - length xs)"
    using assms by (simp add: mod_if)
  show ?thesis using assms unfolding m wrap_at_def Let_def
    by (auto simp: nth_copy_at min_def)
qed

lemma ring_write_eq:
  assumes "ring_ok r" "length es \<le> writable r"
  shows "\<exists>w \<le> length (entries r). w mod length (entries r) = (writeIndex r + length es) mod length (entries r)
    \<and> ring_write es r = Ok (r\<lparr>entries := wrap_at (writeIndex r) es (entries r), writeIndex := w\<rparr>)"
proof -
  define N where "N = length (entries r)"
  have w: "writeIndex r \<le> N" "length es \<le> N" "0 < N" using assms by (auto simp: ring_ok_def N_def)
  show ?thesis
  proof (cases "length es \<le> N - writeIndex r")
    case True
    then show ?thesis using w
      by (intro exI [of _ "writeIndex r + length es"]) (auto simp: ring_write_def copyTo_def wrap_at_def copy_at_0 Let_def min_def N_def)
  next
    case False
    have "writeIndex r + length es = N + (length es - (N - writeIndex r))" using False w by simp
    then have "(length es - (N - writeIndex r)) mod N = (writeIndex r + length es) mod N" by (metis mod_add_self1)
    then show ?thesis using w False
      by (intro exI [of _ "length es - (N - writeIndex r)"]) (auto simp: ring_write_def copyTo_def wrap_at_def Let_def min_def N_def)
  qed
qed

lemma ring_read_eq:
  assumes "ring_ok r" "n \<le> readable r"
  shows "\<exists>w \<le> length (entries r). w mod length (entries r) = (readIndex r + n) mod length (entries r)
    \<and> ring_read n r = Ok (take n (ring_contents r), r\<lparr>entries := wrap_at (readIndex r) (replicate n None) (entries r), readIndex := w\<rparr>)"
proof -
  define N where "N = length (entries r)"
  have w: "readIndex r \<le> N" "n \<le> N" "0 < N" "readable r \<le> N" using assms by (auto simp: ring_ok_def N_def)
  show ?thesis
  proof (cases "n \<le> N - readIndex r")
    case True
    have c: "take n (ring_contents r) = take n (drop (readIndex r) (entries r))"
      by (rule nth_equalityI) (use True w assms(2) in \<open>auto simp: ring_contents_def N_def\<close>)
    show ?thesis using w True
      by (intro exI [of _ "readIndex r + n"]) (auto simp: ring_read_def copyFrom_def wrap_at_def copy_at_0 Let_def min_def N_def c)
  next
    case False
    have c: "take n (ring_contents r) = drop (readIndex r) (entries r) @ take (n - (N - readIndex r)) (entries r)"
      by (rule nth_equalityI) (use False w assms(2) in \<open>auto simp: ring_contents_def N_def nth_append mod_if add.commute\<close>)
    have d: "take (n - (N - readIndex r)) (copy_at (readIndex r) (replicate (N - readIndex r) None) (entries r)) = take (n - (N - readIndex r)) (entries r)"
      using False w by (intro take_copy_at_before) (auto simp: N_def)
    have "readIndex r + n = N + (n - (N - readIndex r))" using False w by simp
    then have "(n - (N - readIndex r)) mod N = (readIndex r + n) mod N" by (metis mod_add_self1)
    then show ?thesis using w False d
      by (intro exI [of _ "n - (N - readIndex r)"]) (auto simp: ring_read_def copyFrom_def wrap_at_def Let_def min_def N_def c)
  qed
qed

lemma nth_wrap_at_other:
  assumes "i \<le> length xs" "length es \<le> length xs" "p < length xs" "\<And>k. k < length es \<Longrightarrow> (i + k) mod length xs \<noteq> p"
  shows "wrap_at i es xs ! p = xs ! p"
proof -
  define k where "k = (p + length xs - i) mod length xs"
  have k: "k < length xs" using assms(3) by (auto simp: k_def intro: mod_less_divisor)
  have p: "(i + k) mod length xs = p" using assms(1,3) by (simp add: k_def mod_add_right_eq)
  have "xs \<noteq> []" using assms(3) by auto
  then show ?thesis using nth_wrap_at [OF assms(1,2) k] assms(4) [of k] p by (auto split: if_splits)
qed

lemma mod_window_le: "(i + a) mod N = (i + b) mod N \<Longrightarrow> a \<le> b \<Longrightarrow> b < N \<Longrightarrow> a = (b::nat)"
  using mod_eq_dvd_iff_nat [of "i + a" "i + b" N] by (auto dest: dvd_imp_le)

lemma mod_window_inj: "(i + a) mod N = (i + b) mod N \<Longrightarrow> a < N \<Longrightarrow> b < N \<Longrightarrow> a = (b::nat)"
  by (metis mod_window_le nle_le)

lemma mod_shift: "a mod N = b mod N \<Longrightarrow> (a + k) mod N = (b + k) mod (N::nat)"
  by (metis mod_add_left_eq)

lemma ring_write_contents:
  assumes "ring_ok r" "length es \<le> writable r" "ring_write es r = Ok r1"
  shows "ring_ok (r1\<lparr>writable := writable r1 - length es, readable := readable r1 + length es\<rparr>)"
    and "ring_contents (r1\<lparr>writable := writable r1 - length es, readable := readable r1 + length es\<rparr>) = ring_contents r @ es"
    and "closed r1 = closed r" "length (entries r1) = length (entries r)"
proof -
  define N where "N = length (entries r)"
  obtain w where w: "w \<le> N" "w mod N = (writeIndex r + length es) mod N"
      "r1 = r\<lparr>entries := wrap_at (writeIndex r) es (entries r), writeIndex := w\<rparr>"
    using ring_write_eq [OF assms(1,2)] assms(3) by (auto simp: N_def)
  have r: "0 < N" "readable r + writable r = N" "readIndex r \<le> N" "writeIndex r \<le> N" "writeIndex r mod N = (readIndex r + readable r) mod N"
    using assms(1) by (auto simp: ring_ok_def N_def)
  have l: "length (wrap_at (writeIndex r) es (entries r)) = N" using r assms(2) by (simp add: N_def)
  then have ne: "wrap_at (writeIndex r) es (entries r) \<noteq> []" using r(1) by auto
  have "w mod N = (readIndex r + readable r + length es) mod N" using w(2) mod_shift [OF r(5)] by simp
  then show "ring_ok (r1\<lparr>writable := writable r1 - length es, readable := readable r1 + length es\<rparr>)"
    using w r l ne assms(2) by (auto simp: ring_ok_def add.assoc N_def)
  show "closed r1 = closed r" "length (entries r1) = length (entries r)" using w(3) l by (auto simp: N_def)
  have "wrap_at (writeIndex r) es (entries r) ! ((readIndex r + k) mod N) = (ring_contents r @ es) ! k" if k: "k < readable r + length es" for k
  proof (cases "k < readable r")
    case True
    have "(writeIndex r + j) mod N \<noteq> (readIndex r + k) mod N" if "j < length es" for j
    proof
      assume a: "(writeIndex r + j) mod N = (readIndex r + k) mod N"
      then have "(readIndex r + (readable r + j)) mod N = (readIndex r + k) mod N"
        using mod_shift [OF r(5), of j] by (simp add: add.assoc)
      then have "readable r + j = k" by (rule mod_window_inj) (use that r assms(2) True in auto)
      then show False using True by simp
    qed
    then have "wrap_at (writeIndex r) es (entries r) ! ((readIndex r + k) mod N) = entries r ! ((readIndex r + k) mod N)"
      using r assms(2) by (intro nth_wrap_at_other) (auto simp: N_def)
    then show ?thesis using True by (simp add: nth_append ring_contents_def N_def)
  next
    case False
    then have "(readIndex r + k) mod N = (writeIndex r + (k - readable r)) mod N"
      using mod_shift [OF r(5), of "k - readable r"] by (simp add: add.assoc)
    then show ?thesis using nth_wrap_at [of "writeIndex r" "entries r" es "k - readable r"] r assms(2) k False
      by (auto simp: nth_append N_def)
  qed
  then show "ring_contents (r1\<lparr>writable := writable r1 - length es, readable := readable r1 + length es\<rparr>) = ring_contents r @ es"
    using l w(3) by (intro nth_equalityI) (auto simp: ring_contents_def N_def)
qed

lemma ring_read_contents:
  assumes "ring_ok r" "n \<le> readable r" "ring_read n r = Ok (ys, r1)"
  shows "ring_ok (r1\<lparr>readable := readable r1 - n, writable := writable r1 + n\<rparr>)"
    and "ys = take n (ring_contents r)"
    and "ring_contents (r1\<lparr>readable := readable r1 - n, writable := writable r1 + n\<rparr>) = drop n (ring_contents r)"
    and "closed r1 = closed r" "length (entries r1) = length (entries r)"
proof -
  define N where "N = length (entries r)"
  obtain w where w: "w \<le> N" "w mod N = (readIndex r + n) mod N" "ys = take n (ring_contents r)"
      "r1 = r\<lparr>entries := wrap_at (readIndex r) (replicate n None) (entries r), readIndex := w\<rparr>"
    using ring_read_eq [OF assms(1,2)] assms(3) by (auto simp: N_def)
  have r: "0 < N" "readable r + writable r = N" "readIndex r \<le> N" "writeIndex r \<le> N" "writeIndex r mod N = (readIndex r + readable r) mod N"
    using assms(1) by (auto simp: ring_ok_def N_def)
  have l: "length (wrap_at (readIndex r) (replicate n None) (entries r)) = N" using r assms(2) by (simp add: N_def)
  then have ne: "wrap_at (readIndex r) (replicate n None) (entries r) \<noteq> []" using r(1) by auto
  have "(w + (readable r - n)) mod N = writeIndex r mod N" using mod_shift [OF w(2), of "readable r - n"] r(5) assms(2) by (simp add: add.assoc)
  then show "ring_ok (r1\<lparr>readable := readable r1 - n, writable := writable r1 + n\<rparr>)"
    using w r l ne assms(2) by (auto simp: ring_ok_def N_def)
  show "ys = take n (ring_contents r)" by (rule w(3))
  show "closed r1 = closed r" "length (entries r1) = length (entries r)" using w(4) l by (auto simp: N_def)
  have "wrap_at (readIndex r) (replicate n None) (entries r) ! ((w + k) mod N) = entries r ! ((readIndex r + (n + k)) mod N)"
    if k: "k < readable r - n" for k
  proof -
    have "(w + k) mod N = (readIndex r + (n + k)) mod N" using mod_shift [OF w(2), of k] by (simp add: add.assoc)
    then show ?thesis using nth_wrap_at [of "readIndex r" "entries r" "replicate n None" "n + k"] r assms(2) k by (auto simp: N_def)
  qed
  then show "ring_contents (r1\<lparr>readable := readable r1 - n, writable := writable r1 + n\<rparr>) = drop n (ring_contents r)"
    using l w(4) assms(2) by (intro nth_equalityI) (auto simp: ring_contents_def N_def)
qed

section \<open>Bounded queues\<close>

text \<open>
  The operations of a queue between goroutines: \<open>write\<close> takes a prefix of the entries, \<open>read\<close> gives a prefix of the contents,
  a call waits only when there is no room or nothing to read.
\<close>

locale bounded_queue =
  fixes ok :: "'q \<Rightarrow> bool" and contents :: "'q \<Rightarrow> 'e list" and cap :: "'q \<Rightarrow> nat"
    and qwrite :: "bool \<Rightarrow> 'q \<Rightarrow> 'e list \<Rightarrow> bool \<Rightarrow> ((int \<times> bool) \<times> 'q) option result"
    and qread :: "bool \<Rightarrow> 'q \<Rightarrow> nat \<Rightarrow> bool \<Rightarrow> ((int \<times> bool) \<times> 'e list \<times> 'q) option result"
    and qclose :: "'q \<Rightarrow> 'q"
  assumes bound: "ok q \<Longrightarrow> length (contents q) \<le> cap q"
    and write_returns: "ok q \<Longrightarrow> \<exists>o'. qwrite b q es block = Ok o'"
    and write_waits: "ok q \<Longrightarrow> qwrite b q es block = Ok None \<Longrightarrow> block \<and> length (contents q) = cap q"
    and write_some: "ok q \<Longrightarrow> qwrite b q es block = Ok (Some ((n, b'), q')) \<Longrightarrow>
      ok q' \<and> cap q' = cap q \<and> contents q' = contents q @ take (nat n) es \<and> n \<le> int (length es)"
    and read_returns: "ok q \<Longrightarrow> \<exists>o'. qread b q m block = Ok o'"
    and read_waits: "ok q \<Longrightarrow> qread b q m block = Ok None \<Longrightarrow> block \<and> contents q = []"
    and read_some: "ok q \<Longrightarrow> qread b q m block = Ok (Some ((n, b'), ys, q')) \<Longrightarrow>
      ok q' \<and> cap q' = cap q \<and> contents q = ys @ contents q' \<and> length ys = nat n \<and> nat n \<le> m \<and> (contents q \<noteq> [] \<and> 0 < m \<longrightarrow> 0 < n)"
    and close_some: "ok q \<Longrightarrow> ok (qclose q) \<and> cap (qclose q) = cap q \<and> contents (qclose q) = contents q"

datatype 'e queueOp = QWrite "'e list" bool | QRead nat bool | QClose

text \<open>A sequence of calls of different goroutines, one lock at a time: what was written, what was read, and the queue.\<close>

fun queue_run :: "(bool \<Rightarrow> 'q \<Rightarrow> 'e list \<Rightarrow> bool \<Rightarrow> ((int \<times> bool) \<times> 'q) option result) \<Rightarrow> (bool \<Rightarrow> 'q \<Rightarrow> nat \<Rightarrow> bool \<Rightarrow> ((int \<times> bool) \<times> 'e list \<times> 'q) option result)
    \<Rightarrow> ('q \<Rightarrow> 'q) \<Rightarrow> 'e queueOp list \<Rightarrow> 'q \<Rightarrow> ('e list \<times> 'e list \<times> 'q) result" where
  "queue_run w rd c [] q = Ok ([], [], q)"
| "queue_run w rd c (QWrite es b # ops) q =
    bindR (w False q es b) (\<lambda>o'. case o' of
      None \<Rightarrow> queue_run w rd c ops q
    | Some ((n, _), q') \<Rightarrow> mapR (\<lambda>(ws, rs, q''). (take (nat n) es @ ws, rs, q'')) (queue_run w rd c ops q'))"
| "queue_run w rd c (QRead m b # ops) q =
    bindR (rd False q m b) (\<lambda>o'. case o' of
      None \<Rightarrow> queue_run w rd c ops q
    | Some (_, ys, q') \<Rightarrow> mapR (\<lambda>(ws, rs, q''). (ws, ys @ rs, q'')) (queue_run w rd c ops q'))"
| "queue_run w rd c (QClose # ops) q = queue_run w rd c ops (c q)"

context bounded_queue
begin

lemma run_fifo:
  assumes "ok q"
  shows "\<exists>ws rs q'. queue_run qwrite qread qclose ops q = Ok (ws, rs, q') \<and> ok q' \<and> cap q' = cap q \<and> contents q @ ws = rs @ contents q'"
  using assms
proof (induction ops arbitrary: q)
  case (Cons op ops)
  show ?case
  proof (cases op)
    case (QWrite es b)
    obtain o' where o: "qwrite False q es b = Ok o'" using write_returns [OF Cons.prems] by blast
    show ?thesis
    proof (cases o')
      case None
      then show ?thesis using o QWrite Cons.IH [OF Cons.prems] by simp
    next
      case (Some x)
      obtain n b' q1 where x: "x = ((n, b'), q1)" by (metis prod.exhaust_sel)
      note s = write_some [OF Cons.prems o [unfolded Some x]]
      obtain ws rs q' where i: "queue_run qwrite qread qclose ops q1 = Ok (ws, rs, q')" "ok q'" "cap q' = cap q1" "contents q1 @ ws = rs @ contents q'"
        using Cons.IH [of q1] s by blast
      show ?thesis using o Some x QWrite s i by simp
    qed
  next
    case (QRead m b)
    obtain o' where o: "qread False q m b = Ok o'" using read_returns [OF Cons.prems] by blast
    show ?thesis
    proof (cases o')
      case None
      then show ?thesis using o QRead Cons.IH [OF Cons.prems] by simp
    next
      case (Some x)
      obtain n b' ys q1 where x: "x = ((n, b'), ys, q1)" by (metis prod.exhaust_sel)
      note s = read_some [OF Cons.prems o [unfolded Some x]]
      obtain ws rs q' where i: "queue_run qwrite qread qclose ops q1 = Ok (ws, rs, q')" "ok q'" "cap q' = cap q1" "contents q1 @ ws = rs @ contents q'"
        using Cons.IH [of q1] s by blast
      show ?thesis using o Some x QRead s i by simp
    qed
  next
    case QClose
    then show ?thesis using Cons.IH [of "qclose q"] close_some [OF Cons.prems] by auto
  qed
qed simp

end

lemma Ring_New_ok: "0 < count \<Longrightarrow> ring_ok (Ring_New count newf)"
  by (auto simp: Ring_New_def ring_ok_def split: option.splits)

lemma Ring_New_contents: "ring_contents (Ring_New count None) = []"
  by (simp add: Ring_New_def ring_contents_def)

lemma ring_write_returns: "ring_ok r \<Longrightarrow> length es \<le> writable r \<Longrightarrow> \<exists>r1. ring_write es r = Ok r1"
  using ring_write_eq by blast

lemma ring_read_returns: "ring_ok r \<Longrightarrow> n \<le> readable r \<Longrightarrow> \<exists>ys r1. ring_read n r = Ok (ys, r1)"
  using ring_read_eq by blast

lemma Ring_Write_some:
  assumes "ring_ok r" "Ring_Write b r es block = Ok (Some ((n, b'), r'))"
  shows "ring_ok r' \<and> length (entries r') = length (entries r) \<and> ring_contents r' = ring_contents r @ take (nat n) es \<and> n \<le> int (length es) \<and> closed r' = closed r
    \<and> n = (if closed r then -1 else int (min (writable r) (length es)))"
proof -
  consider "es \<noteq> [] \<and> writable r = 0 \<and> \<not> closed r" | "closed r" | "\<not> (es \<noteq> [] \<and> writable r = 0 \<and> \<not> closed r)" "\<not> closed r" by blast
  then show ?thesis
  proof cases
    case 3
    define k where "k = min (writable r) (length es)"
    obtain r1 where r1: "ring_write (take k es) r = Ok r1" using ring_write_returns [OF assms(1), of "take k es"] by (auto simp: k_def)
    have l: "length (take k es) = k" by (simp add: k_def)
    then have "length (take k es) \<le> writable r" by (simp add: k_def)
    note w = ring_write_contents [OF assms(1) this r1, unfolded l]
    have "n = int k" "r' = r1\<lparr>writable := writable r1 - k, readable := readable r1 + k\<rparr>"
      using assms(2) 3 r1 by (auto simp: Ring_Write_def Let_def k_def)
    then show ?thesis using w 3 by (auto simp: k_def)
  qed (use assms in \<open>auto simp: Ring_Write_def split: if_splits\<close>)
qed

lemma Ring_Read_some:
  assumes "ring_ok r" "Ring_Read b r m block = Ok (Some ((n, b'), ys, r'))"
  shows "ring_ok r' \<and> length (entries r') = length (entries r) \<and> ring_contents r = ys @ ring_contents r' \<and> length ys = nat n \<and> nat n \<le> m \<and> closed r' = closed r
    \<and> (readable r \<noteq> 0 \<longrightarrow> n = int (min (readable r) m)) \<and> (readable r = 0 \<longrightarrow> r' = r \<and> n \<le> 0)"
proof -
  consider "0 < m \<and> readable r = 0 \<and> \<not> closed r" | "closed r \<and> readable r = 0" | "\<not> (0 < m \<and> readable r = 0 \<and> \<not> closed r)" "\<not> (closed r \<and> readable r = 0)" by blast
  then show ?thesis
  proof cases
    case 3
    define k where "k = min (readable r) m"
    have k: "k \<le> readable r" by (simp add: k_def)
    obtain zs r1 where r1: "ring_read k r = Ok (zs, r1)" using ring_read_returns [OF assms(1) k] by blast
    note w = ring_read_contents [OF assms(1) k r1]
    have e: "n = int k" "ys = zs" "r' = r1\<lparr>readable := readable r1 - k, writable := writable r1 + k\<rparr>"
      using assms(2) 3 r1 by (auto simp: Ring_Read_def Let_def k_def)
    have z: "readable r = 0 \<Longrightarrow> r' = r"
    proof -
      assume "readable r = 0"
      then have "ring_read 0 r = Ok (zs, r1)" "k = 0" using r1 by (auto simp: k_def)
      then show "r' = r" using e(3) assms(1) by (auto simp: ring_read_def copyFrom_def ring_ok_def copy_at_def)
    qed
    show ?thesis using w e 3 z by (auto simp: k_def)
  qed (use assms in \<open>auto simp: Ring_Read_def ring_contents_def split: if_splits\<close>)
qed

interpretation rq: bounded_queue ring_ok ring_contents "\<lambda>r. length (entries r)" Ring_Write Ring_Read Ring_Close
proof
  fix q :: "'a Ring" and b es block m
  assume q: "ring_ok q"
  show "length (ring_contents q) \<le> length (entries q)" using q by (simp add: ring_ok_def)
  show "\<exists>o'. Ring_Write b q es block = Ok o'"
    using ring_write_returns [OF q, of "take (min (writable q) (length es)) es"] by (auto simp: Ring_Write_def Let_def)
  show "\<exists>o'. Ring_Read b q m block = Ok o'"
    using ring_read_returns [OF q, of "min (readable q) m"] by (auto simp: Ring_Read_def Let_def)
  show "ring_ok (Ring_Close q) \<and> length (entries (Ring_Close q)) = length (entries q) \<and> ring_contents (Ring_Close q) = ring_contents q"
    using q by (simp add: Ring_Close_def ring_ok_def ring_contents_def)
  show "block \<and> length (ring_contents q) = length (entries q)" if "Ring_Write b q es block = Ok None"
    using that q by (auto simp: Ring_Write_def Let_def bindR_eq_Ok ring_ok_def split: if_splits)
  show "block \<and> ring_contents q = []" if "Ring_Read b q m block = Ok None"
    using that q by (auto simp: Ring_Read_def Let_def bindR_eq_Ok ring_contents_def split: if_splits)
next
  fix q :: "'a Ring" and b es block n b' q'
  assume "ring_ok q" "Ring_Write b q es block = Ok (Some ((n, b'), q'))"
  from Ring_Write_some [OF this]
  show "ring_ok q' \<and> length (entries q') = length (entries q) \<and> ring_contents q' = ring_contents q @ take (nat n) es \<and> n \<le> int (length es)" by blast
next
  fix q :: "'a Ring" and b m block n b' ys q'
  assume "ring_ok q" "Ring_Read b q m block = Ok (Some ((n, b'), ys, q'))"
  from Ring_Read_some [OF this]
  show "ring_ok q' \<and> length (entries q') = length (entries q) \<and> ring_contents q = ys @ ring_contents q' \<and> length ys = nat n \<and> nat n \<le> m \<and> (ring_contents q \<noteq> [] \<and> 0 < m \<longrightarrow> 0 < n)"
    by (auto simp: ring_contents_def)
qed

text \<open>C20: What is read from a ring is what was written to it, in the order of the writes, whatever calls of any goroutines are
  interleaved, blocking or not, across wrap-arounds of the buffer and after it was closed: no entry is lost, duplicated or
  reordered, at most \<open>count\<close> entries are buffered, and no call panics.
\<close>

theorem ring_fifo:
  assumes "0 < count"
  shows "\<exists>ws rs r. queue_run Ring_Write Ring_Read Ring_Close ops (Ring_New count None) = Ok (ws, rs, r)
    \<and> ws = rs @ ring_contents r \<and> length (ring_contents r) \<le> count"
proof -
  have e: "length (entries (Ring_New count None)) = count" by (simp add: Ring_New_def)
  obtain ws rs r where *: "queue_run Ring_Write Ring_Read Ring_Close ops (Ring_New count None) = Ok (ws, rs, r)" "ring_ok r"
      "length (entries r) = count" "ring_contents (Ring_New count None) @ ws = rs @ ring_contents r"
    using rq.run_fifo [OF Ring_New_ok [OF assms]] e by metis
  show ?thesis using * rq.bound [OF *(2)] by (auto simp: Ring_New_contents)
qed

theorem ring_fifo_witness:
  "\<exists>ws rs r. queue_run Ring_Write Ring_Read Ring_Close [QWrite [Some (1::nat), Some 2, Some 3] False, QRead 1 True, QWrite [Some 4] True, QRead 5 False] (Ring_New 2 None) = Ok (ws, rs, r)
    \<and> ws = rs @ ring_contents r \<and> length (ring_contents r) \<le> 2"
  by (rule ring_fifo) simp

section \<open>The packet ring\<close>

definition batchSize :: nat where "batchSize = 32"
definition ringSize :: nat where "ringSize = 64"

record pktRing =
  prRing :: "bytes Ring"
  prEntries :: "bytes option list"

definition newPktRing :: pktRing where
  "newPktRing = \<lparr>prRing = Ring_New ringSize None, prEntries = []\<rparr>"

definition pktRing_Write :: "pktRing \<Rightarrow> bytes \<Rightarrow> bool \<Rightarrow> (int \<times> pktRing) option result" where
  "pktRing_Write pr pkt block = mapR (map_option (\<lambda>((n, _), r). (n, pr\<lparr>prRing := r\<rparr>))) (Ring_Write False (prRing pr) [Some pkt] block)"

text \<open>The entries read in a batch are handed out one by one. The type assertion fails for nil.\<close>

definition nextPkt :: "pktRing \<Rightarrow> ((bytes option \<times> int) \<times> pktRing) option result" where
  "nextPkt pr = (case prEntries pr of
     Some pkt # es \<Rightarrow> Ok (Some ((Some pkt, 1), pr\<lparr>prEntries := es\<rparr>))
   | _ \<Rightarrow> Panic)"

definition pktRing_Read :: "pktRing \<Rightarrow> bool \<Rightarrow> ((bytes option \<times> int) \<times> pktRing) option result" where
  "pktRing_Read pr block =
    (if prEntries pr = []
     then bindR (Ring_Read False (prRing pr) batchSize block) (\<lambda>o'. case o' of
         None \<Rightarrow> Ok None
       | Some ((n, _), es, r) \<Rightarrow>
           if n = -1 then Ok (Some ((None, -1), pr\<lparr>prRing := r, prEntries := []\<rparr>))
           else if n = 0 then Ok (Some ((None, 0), pr\<lparr>prRing := r, prEntries := []\<rparr>))
           else nextPkt (pr\<lparr>prRing := r, prEntries := es\<rparr>))
     else nextPkt pr)"

definition pktRing_Close :: "pktRing \<Rightarrow> pktRing" where
  "pktRing_Close pr = pr\<lparr>prRing := Ring_Close (prRing pr)\<rparr>"

definition pr_contents :: "pktRing \<Rightarrow> bytes option list" where
  "pr_contents pr = prEntries pr @ ring_contents (prRing pr)"

definition pktRing_ok :: "pktRing \<Rightarrow> bool" where
  "pktRing_ok pr \<longleftrightarrow> ring_ok (prRing pr) \<and> None \<notin> set (pr_contents pr)"

lemma newPktRing_ok: "pktRing_ok newPktRing" "pr_contents newPktRing = []" "closed (prRing newPktRing) = False"
  using Ring_New_ok [of ringSize None] Ring_New_contents [of ringSize, where 'a = bytes]
  by (auto simp: newPktRing_def pktRing_ok_def pr_contents_def ringSize_def) (simp add: Ring_New_def)

lemma pktRing_Read_empty:
  assumes "pktRing_ok pr" "pr_contents pr = []"
  shows "pktRing_Read pr block = (if closed (prRing pr) then Ok (Some ((None, -1), pr)) else if block then Ok None else Ok (Some ((None, 0), pr)))"
  using assms by (auto simp: pktRing_Read_def Ring_Read_def pr_contents_def ring_contents_def batchSize_def)

lemma nextPkt_some:
  "pktRing_ok pr \<Longrightarrow> prEntries pr = x # es \<Longrightarrow> \<exists>p. x = Some p \<and> nextPkt pr = Ok (Some ((Some p, 1), pr\<lparr>prEntries := es\<rparr>))"
  by (cases x) (auto simp: nextPkt_def pktRing_ok_def pr_contents_def)

lemma pktRing_Read_some:
  assumes "pktRing_ok pr" "pr_contents pr = x # c"
  shows "\<exists>p pr'. x = Some p \<and> pktRing_Read pr block = Ok (Some ((Some p, 1), pr')) \<and> pktRing_ok pr' \<and> pr_contents pr' = c \<and> closed (prRing pr') = closed (prRing pr)"
proof (cases "prEntries pr")
  case (Cons y es)
  then show ?thesis using nextPkt_some [OF assms(1) Cons] assms by (auto simp: pktRing_Read_def pr_contents_def pktRing_ok_def)
next
  case Nil
  have r: "ring_ok (prRing pr)" "ring_contents (prRing pr) = x # c" using assms Nil by (auto simp: pktRing_ok_def pr_contents_def)
  then have "readable (prRing pr) \<noteq> 0" by (metis length_ring_contents list.size(3) list.distinct(1) length_0_conv)
  then obtain n b' es r' where o: "Ring_Read False (prRing pr) batchSize block = Ok (Some ((n, b'), es, r'))"
    using rq.read_returns [OF r(1), of False batchSize block] rq.read_waits [OF r(1)] r(2) by (metis list.distinct(1) option.exhaust prod.exhaust_sel)
  note s = Ring_Read_some [OF r(1) o]
  have n: "0 < n" using s \<open>readable (prRing pr) \<noteq> 0\<close> by (simp add: batchSize_def)
  obtain es' where es: "es = x # es'" "c = es' @ ring_contents r'" using s n r(2) by (cases es) auto
  let ?pr = "pr\<lparr>prRing := r', prEntries := es\<rparr>"
  have ok: "pktRing_ok ?pr" using s assms(1) Nil by (auto simp: pktRing_ok_def pr_contents_def)
  obtain p where p: "x = Some p" "nextPkt ?pr = Ok (Some ((Some p, 1), ?pr\<lparr>prEntries := es'\<rparr>))" using nextPkt_some [OF ok, of x es'] es by auto
  have e: "pktRing_Read pr block = Ok (Some ((Some p, 1), ?pr\<lparr>prEntries := es'\<rparr>))" using Nil o n p by (simp add: pktRing_Read_def)
  show ?thesis
    by (intro exI [of _ p] exI [of _ "?pr\<lparr>prEntries := es'\<rparr>"]) (use p e ok es s in \<open>auto simp: pktRing_ok_def pr_contents_def\<close>)
qed

text \<open>A packet is dropped when the ring is full or closed.\<close>

lemma pktRing_Write_some:
  assumes "pktRing_ok pr"
  shows "\<exists>n pr'. pktRing_Write pr pkt False = Ok (Some (n, pr')) \<and> pktRing_ok pr' \<and> closed (prRing pr') = closed (prRing pr)
    \<and> pr_contents pr' = (if n = 1 then pr_contents pr @ [Some pkt] else pr_contents pr)"
proof -
  have r: "ring_ok (prRing pr)" using assms by (simp add: pktRing_ok_def)
  obtain n b' r' where o: "Ring_Write False (prRing pr) [Some pkt] False = Ok (Some ((n, b'), r'))"
    using rq.write_returns [OF r, of False "[Some pkt]" False] rq.write_waits [OF r] by (metis option.exhaust prod.exhaust_sel)
  note s = Ring_Write_some [OF r o]
  have "n = 1 \<or> n \<le> 0" using s by (auto split: if_splits)
  then show ?thesis using o s assms by (auto simp: pktRing_Write_def pktRing_ok_def pr_contents_def)
qed

lemma pktRing_Close_some: "pktRing_ok pr \<Longrightarrow> pktRing_ok (pktRing_Close pr) \<and> pr_contents (pktRing_Close pr) = pr_contents pr"
  using rq.close_some [of "prRing pr"] by (auto simp: pktRing_Close_def pktRing_ok_def pr_contents_def)

end
