(* ===== verification/Encoder.thy ===== *)
theory Encoder
  imports Ring
begin

text \<open>
  The sending side of the gateway (\<^verbatim>\<open>gateway/dataplane/encoder.go\<close>, \<^verbatim>\<open>sender.go\<close>): IP packets are packed into frames. What the writers of
  the packet ring do is given by an environment, a list with one element for each access of the encoder to the ring: the
  writes and closings that happened since the access before. When it runs out, the call has not returned yet (\<open>None\<close>).
\<close>

unbundle bit_operations_syntax

section \<open>The encoder\<close>

definition hdrLen :: nat where "hdrLen = 16"

record encoder =
  encSession :: u8
  encStream :: u32
  encRing :: pktRing
  encSeq :: u64
  encPkt :: bytes
  encCap :: nat

definition newEncoder :: "u8 \<Rightarrow> u32 \<Rightarrow> u16 \<Rightarrow> encoder" where
  "newEncoder sessionID streamID mtu =
     \<lparr>encSession = sessionID, encStream = streamID, encRing = newPktRing, encSeq = 0, encPkt = [], encCap = unat mtu\<rparr>"

datatype ringOp = WriteOp bytes | CloseOp

text \<open>\<open>Write\<close> and \<open>Close\<close> of the encoder, as the environment calls them. The packets the ring has taken are returned as well.\<close>

fun ringOps :: "ringOp list \<Rightarrow> pktRing \<Rightarrow> (bytes list \<times> pktRing) result" where
  "ringOps [] pr = Ok ([], pr)"
| "ringOps (WriteOp pkt # ops) pr =
    bindR (pktRing_Write pr pkt False) (\<lambda>o'. case o' of
      None \<Rightarrow> ringOps ops pr
    | Some (n, pr') \<Rightarrow> mapR (\<lambda>(ps, pr''). (if n = 1 then pkt # ps else ps, pr'')) (ringOps ops pr'))"
| "ringOps (CloseOp # ops) pr = ringOps ops (pktRing_Close pr)"

text \<open>The frame is a slice of a buffer of \<open>encCap\<close> bytes; the header is written anew for each frame.\<close>

definition frameHeader :: "encoder \<Rightarrow> u16 \<Rightarrow> bytes" where
  "frameHeader e index = [0, encSession e] @ put_u16 index @ put_u32 (encStream e AND 0xfffff) @ put_u64 (encSeq e)"

text \<open>The bytes that were copied, and the encoder.\<close>

definition copyToFrame :: "encoder \<Rightarrow> nat \<Rightarrow> bytes \<times> encoder" where
  "copyToFrame e len = (let toCopy = min (encCap e - len) (length (encPkt e)) in (take toCopy (encPkt e), e\<lparr>encPkt := drop toCopy (encPkt e)\<rparr>))"

text \<open>The check that a packet is an IPv4 or IPv6 packet of the length its header states.\<close>

definition validPkt :: "bytes \<Rightarrow> bool" where
  "validPkt pkt =
    (if pkt = [] then False
     else let ipVersion = drop_bit 4 (pkt ! 0) in
     if ipVersion = 4 then length pkt \<ge> 20 \<and> unat (be_u16 (take 2 (drop 2 pkt))) = length pkt
     else if ipVersion = 6 then length pkt \<ge> 40 \<and> 40 + unat (be_u16 (take 2 (drop 4 pkt))) = length pkt
     else False)"

text \<open>
  The loop of \<open>Read\<close>. \<open>hdr\<close> is the header of the frame but for the index, \<open>body\<close> what follows it. The value is the frame (nil when
  the ring is closed), the encoder, the rest of the environment, the packets that were read from the ring and those written to it meanwhile.
\<close>

type_synonym readOut = "bytes option \<times> encoder \<times> ringOp list list \<times> bytes list \<times> bytes list"

definition noting :: "bytes list \<Rightarrow> bytes list \<Rightarrow> readOut option result \<Rightarrow> readOut option result" where
  "noting rs ws = mapR (map_option (\<lambda>(f, e, env, rs', ws'). (f, e, env, rs @ rs', ws @ ws')))"

fun readLoop :: "ringOp list list \<Rightarrow> (u16 \<Rightarrow> bytes) \<Rightarrow> encoder \<Rightarrow> u16 \<Rightarrow> bool \<Rightarrow> bytes \<Rightarrow> readOut option result" where
  "readLoop env hdr e index indexSet body =
    (if encCap e - (hdrLen + length body) < 40 then Ok (Some (Some (hdr index @ body), e, env, [], []))
     else case env of
       [] \<Rightarrow> Ok None
     | ops # env' \<Rightarrow>
       bindR (ringOps ops (encRing e)) (\<lambda>(ws, pr).
       let block = (body = []) in
       bindR (pktRing_Read pr block) (\<lambda>o'. case o' of
         None \<Rightarrow> noting [] ws (readLoop env' hdr (e\<lparr>encRing := pr\<rparr>) index indexSet body)
       | Some ((pkt, n), pr') \<Rightarrow>
         let e = e\<lparr>encRing := pr', encPkt := (case pkt of None \<Rightarrow> [] | Some p \<Rightarrow> p)\<rparr> in
         if n = 0 then Ok (Some (Some (hdr index @ body), e, env', [], ws))
         else if n = -1 then Ok (Some (if block then None else Some (hdr index @ body), e, env', [], ws))
         else if \<not> validPkt (encPkt e) then noting [encPkt e] ws (readLoop env' hdr e index indexSet body)
         else
           let p = encPkt e;
               index = (if indexSet then index else of_nat (length body));
               (b, e) = copyToFrame e (hdrLen + length body) in
           if encPkt e \<noteq> [] then Ok (Some (Some (hdr index @ body @ b), e, env', [p], ws))
           else noting [p] ws (readLoop env' hdr e index True (body @ b)))))"

declare readLoop.simps [simp del]

definition encoder_Read :: "encoder \<Rightarrow> ringOp list list \<Rightarrow> readOut option result" where
  "encoder_Read e env =
    (if encCap e < hdrLen then Panic
     else
       let hdr = frameHeader e; e = e\<lparr>encSeq := encSeq e + 1\<rparr> in
       if encPkt e \<noteq> []
       then (case copyToFrame e hdrLen of (b, e) \<Rightarrow>
         if encPkt e \<noteq> [] then Ok (Some (Some (hdr 0xffff @ b), e, env, [], []))
         else readLoop env hdr e 0xffff False b)
       else readLoop env hdr e 0xffff False [])"

definition NewStreamID :: "int \<Rightarrow> u32" where
  "NewStreamID unixNano = of_int unixNano AND 0xffff"

section \<open>The sender\<close>

definition minMTU :: int where "minMTU = int hdrLen + 41"
definition udpHdrLen :: int where "udpHdrLen = 8"
definition CmnHdrLen :: int where "CmnHdrLen = 12"

text \<open>Creating a sender: \<open>rawPath\<close> is \<open>None\<close> when the data plane path is no SCION path.\<close>

definition newSender :: "u8 \<Rightarrow> nat \<Rightarrow> nat \<Rightarrow> u16 \<Rightarrow> bytes option \<Rightarrow> int \<Rightarrow> encoder result" where
  "newSender sessID localLen remoteLen pathMTU rawPath now =
    (case rawPath of
       None \<Rightarrow> Fail (Err ''not a scion path'')
     | Some raw \<Rightarrow>
       let addrLen = 16 + int localLen + int remoteLen;
           mtu = uint pathMTU - CmnHdrLen - addrLen - int (length raw) - udpHdrLen in
       if mtu < minMTU then Fail (Err ''insufficient MTU'')
       else Ok (newEncoder sessID (NewStreamID now) (of_int mtu)))"

text \<open>
  The first \<open>n\<close> rounds of the loop of the sender: the frames it hands to the connection. It ends when the encoder is closed and
  empty, and waits when the environment has run out.
\<close>

fun sender_run :: "nat \<Rightarrow> encoder \<Rightarrow> ringOp list list \<Rightarrow> (bytes list \<times> encoder \<times> ringOp list list \<times> bytes list \<times> bytes list) result" where
  "sender_run 0 e env = Ok ([], e, env, [], [])"
| "sender_run (Suc n) e env =
    bindR (encoder_Read e env) (\<lambda>o'. case o' of
      None \<Rightarrow> Ok ([], e, env, [], [])
    | Some (None, e', env', rs, ws) \<Rightarrow> Ok ([], e', env', rs, ws)
    | Some (Some f, e', env', rs, ws) \<Rightarrow>
        mapR (\<lambda>(fs, e'', env'', rs', ws'). (f # fs, e'', env'', rs @ rs', ws @ ws')) (sender_run n e' env'))"

section \<open>What a frame holds\<close>

definition mkFrame :: "u8 \<Rightarrow> u32 \<Rightarrow> u64 \<Rightarrow> u16 \<Rightarrow> bytes \<Rightarrow> bytes" where
  "mkFrame sess stream seq index payload = [0, sess] @ put_u16 index @ put_u32 (stream AND 0xfffff) @ put_u64 seq @ payload"

text \<open>
  A frame with room for \<open>room\<close> bytes takes the pending part of a packet and, when that fits, packets \<open>ps\<close> of which only the last may
  be cut, leaving \<open>pend'\<close>; at least 40 bytes of it are in the frame then.
\<close>

definition cut :: "bytes \<Rightarrow> bytes \<Rightarrow> bytes list" where
  "cut tp rest = (if tp = [] then [] else [tp @ rest])"

definition packs :: "nat \<Rightarrow> bytes \<Rightarrow> bytes list \<Rightarrow> bytes \<Rightarrow> bytes \<Rightarrow> bool" where
  "packs room body ps tp rest \<longleftrightarrow> (\<forall>p \<in> set ps. validPkt p) \<and> length (body @ concat ps @ tp) \<le> room
     \<and> (if tp = [] then rest = [] else rest \<noteq> [] \<and> 40 \<le> length tp \<and> length (body @ concat ps @ tp) = room \<and> validPkt (tp @ rest))"

definition firstIndex :: "bytes \<Rightarrow> bytes list \<Rightarrow> bytes \<Rightarrow> u16" where
  "firstIndex pend ps tp = (if ps = [] \<and> tp = [] then 0xffff else of_nat (length pend))"

definition takes :: "nat \<Rightarrow> bytes \<Rightarrow> u16 \<Rightarrow> bytes \<Rightarrow> bytes list \<Rightarrow> bytes \<Rightarrow> bool" where
  "takes room pend index payload taken pend' \<longleftrightarrow>
     (room < length pend \<and> payload = take room pend \<and> pend' = drop room pend \<and> taken = [] \<and> index = 0xffff)
   \<or> (\<exists>ps tp. packs room pend ps tp pend' \<and> payload = pend @ concat ps @ tp \<and> taken = ps @ cut tp pend' \<and> index = firstIndex pend ps tp)"

text \<open>The fields of the encoder that do not change.\<close>

definition same_stream :: "encoder \<Rightarrow> encoder \<Rightarrow> bool" where
  "same_stream e e' \<longleftrightarrow> encSession e' = encSession e \<and> encStream e' = encStream e \<and> encCap e' = encCap e \<and> encSeq e' = encSeq e"

lemma same_stream_trans: "same_stream a b \<Longrightarrow> same_stream b c \<Longrightarrow> same_stream a c"
  by (simp add: same_stream_def)

lemma ringOps_some:
  assumes "pktRing_ok pr"
  shows "\<exists>ws pr'. ringOps ops pr = Ok (ws, pr') \<and> pktRing_ok pr' \<and> pr_contents pr' = pr_contents pr @ map Some ws"
  using assms
proof (induction ops arbitrary: pr)
  case (Cons op ops)
  show ?case
  proof (cases op)
    case (WriteOp pkt)
    obtain n pr1 where w: "pktRing_Write pr pkt False = Ok (Some (n, pr1))" "pktRing_ok pr1"
        "pr_contents pr1 = (if n = 1 then pr_contents pr @ [Some pkt] else pr_contents pr)"
      using pktRing_Write_some [OF Cons.prems] by metis
    obtain ws pr' where i: "ringOps ops pr1 = Ok (ws, pr')" "pktRing_ok pr'" "pr_contents pr' = pr_contents pr1 @ map Some ws"
      using Cons.IH [OF w(2)] by blast
    show ?thesis using WriteOp w i by auto
  next
    case CloseOp
    then show ?thesis using Cons.IH [of "pktRing_Close pr"] pktRing_Close_some [OF Cons.prems] by auto
  qed
qed simp

text \<open>A read of the packet ring after the environment has acted.\<close>

lemma pktRing_Read_cases:
  assumes "pktRing_ok pr"
  obtains (empty) "pr_contents pr = []" "pktRing_Read pr block = (if closed (prRing pr) then Ok (Some ((None, -1), pr)) else if block then Ok None else Ok (Some ((None, 0), pr)))"
  | (pkt) p pr' where "pktRing_Read pr block = Ok (Some ((Some p, 1), pr'))" "pktRing_ok pr'" "pr_contents pr = Some p # pr_contents pr'"
proof (cases "pr_contents pr")
  case Nil
  then show ?thesis using pktRing_Read_empty [OF assms Nil] empty by blast
next
  case (Cons x c)
  then show ?thesis using pktRing_Read_some [OF assms Cons] pkt by metis
qed

definition taken_from :: "encoder \<Rightarrow> encoder \<Rightarrow> bytes list \<Rightarrow> bytes list \<Rightarrow> bool" where
  "taken_from e e' rs ws \<longleftrightarrow> pktRing_ok (encRing e') \<and> same_stream e e' \<and> pr_contents (encRing e) @ map Some ws = map Some rs @ pr_contents (encRing e')"

definition frame_post :: "nat \<Rightarrow> (u16 \<Rightarrow> bytes) \<Rightarrow> u16 \<Rightarrow> bool \<Rightarrow> bytes \<Rightarrow> bytes option \<Rightarrow> bytes \<Rightarrow> bytes list \<Rightarrow> bool" where
  "frame_post room hdr index indexSet body f rest taken =
    (case f of
       None \<Rightarrow> body = [] \<and> taken = [] \<and> rest = []
     | Some frame \<Rightarrow> \<exists>ps tp. packs room body ps tp rest \<and> taken = ps @ cut tp rest
         \<and> frame = hdr (if indexSet \<or> ps = [] \<and> tp = [] then index else of_nat (length body)) @ body @ concat ps @ tp)"

definition loop_post :: "nat \<Rightarrow> (u16 \<Rightarrow> bytes) \<Rightarrow> encoder \<Rightarrow> u16 \<Rightarrow> bool \<Rightarrow> bytes \<Rightarrow> readOut \<Rightarrow> bool" where
  "loop_post room hdr e index indexSet body out = (case out of (f, e', env', rs, ws) \<Rightarrow>
     taken_from e e' rs ws \<and> frame_post room hdr index indexSet body f (encPkt e') (filter validPkt rs))"

lemma noting_Ok: "noting rs ws r = Ok (Some (f, e, env, rs'', ws'')) \<longleftrightarrow> (\<exists>rs' ws'. r = Ok (Some (f, e, env, rs', ws')) \<and> rs'' = rs @ rs' \<and> ws'' = ws @ ws')"
  by (cases r) (auto simp: noting_def mapR_eq_Ok)

lemma noting_Panic [simp]: "noting rs ws r = Panic \<longleftrightarrow> r = Panic" "noting rs ws r = Fail x \<longleftrightarrow> r = Fail x"
  by (cases r; simp add: noting_def)+

lemma taken_from_trans: "taken_from e e1 rs ws \<Longrightarrow> taken_from e1 e' rs' ws' \<Longrightarrow> taken_from e e' (rs @ rs') (ws @ ws')"
  by (simp add: taken_from_def same_stream_def) (metis append.assoc)

lemma loop_post_done:
  assumes "taken_from e e' [] ws" "encPkt e' = []" "length body \<le> room"
  shows "loop_post room hdr e index indexSet body (Some (hdr index @ body), e', env', [], ws)"
  unfolding loop_post_def frame_post_def using assms by (auto simp: cut_def packs_def intro!: exI [of _ "[]"])

lemma loop_post_closed: "taken_from e e' [] ws \<Longrightarrow> encPkt e' = [] \<Longrightarrow> loop_post room hdr e index indexSet [] (None, e', env', [], ws)"
  by (simp add: loop_post_def frame_post_def)

lemma loop_post_skip:
  assumes "loop_post room hdr e1 index indexSet body (f, e', env', rs', ws')" "taken_from e e1 rs ws" "filter validPkt rs = []"
  shows "loop_post room hdr e index indexSet body (f, e', env', rs @ rs', ws @ ws')"
  using assms taken_from_trans [OF assms(2)] by (simp add: loop_post_def)

lemma packs_Cons: "packs room (body @ p) ps tp rest \<Longrightarrow> validPkt p \<Longrightarrow> packs room body (p # ps) tp rest"
  by (auto simp: packs_def)

lemma validPkt_not_Nil: "validPkt p \<Longrightarrow> p \<noteq> []"
  by (auto simp: validPkt_def)

lemma frame_post_next:
  assumes "frame_post room hdr idx True (body @ p) f rest taken" "validPkt p" "idx = (if indexSet then index else of_nat (length body))"
  shows "frame_post room hdr index indexSet body f rest (p # taken)"
proof (cases f)
  case None
  then show ?thesis using assms validPkt_not_Nil by (auto simp: frame_post_def)
next
  case (Some frame)
  then obtain ps tp where *: "packs room (body @ p) ps tp rest" "taken = ps @ cut tp rest" "frame = hdr idx @ (body @ p) @ concat ps @ tp"
    using assms(1) by (auto simp: frame_post_def)
  then show ?thesis using Some assms(2,3) packs_Cons [OF *(1)]
    by (auto simp: frame_post_def intro!: exI [of _ "p # ps"] exI [of _ tp])
qed

lemma loop_post_next:
  assumes "loop_post room hdr e1 idx True (body @ p) (f, e', env', rs', ws')" "taken_from e e1 [p] ws" "validPkt p" "idx = (if indexSet then index else of_nat (length body))"
  shows "loop_post room hdr e index indexSet body (f, e', env', p # rs', ws @ ws')"
  using assms taken_from_trans [OF assms(2)] frame_post_next [of room hdr idx body p f] by (simp add: loop_post_def)

lemma loop_post_cut:
  assumes "validPkt p" "n < length p" "40 \<le> n" "length body + n = room" "taken_from e e' [p] ws" "encPkt e' = drop n p" "idx = (if indexSet then index else of_nat (length body))"
  shows "loop_post room hdr e index indexSet body (Some (hdr idx @ body @ take n p), e', env', [p], ws)"
proof -
  have t: "take n p \<noteq> []" using assms(2,3) by auto
  have "packs room body [] (take n p) (drop n p)" using assms t by (auto simp: packs_def)
  moreover have "cut (take n p) (drop n p) = [p]" using t by (simp add: cut_def)
  ultimately have "frame_post room hdr index indexSet body (Some (hdr idx @ body @ take n p)) (drop n p) [p]"
    unfolding frame_post_def option.case using t assms(7) by (intro exI [of _ "[]"] exI [of _ "take n p"]) auto
  then show ?thesis using assms by (simp add: loop_post_def)
qed

lemma readLoop_post:
  assumes "pktRing_ok (encRing e)" "hdrLen + length body \<le> encCap e" "readLoop env hdr e index indexSet body = Ok (Some out)" "encPkt e = [] \<or> \<not> encCap e - (hdrLen + length body) < 40"
  shows "loop_post (encCap e - hdrLen) hdr e index indexSet body out"
  using assms
proof (induction env arbitrary: e index indexSet body out)
  case Nil
  show ?case
  proof (cases "encCap e - (hdrLen + length body) < 40")
    case True
    then have "out = (Some (hdr index @ body), e, [], [], [])" using Nil.prems by (simp add: readLoop.simps [of "[]"])
    then show ?thesis using Nil.prems True by (auto intro!: loop_post_done simp: taken_from_def same_stream_def)
  qed (use Nil.prems in \<open>simp add: readLoop.simps [of "[]"]\<close>)
next
  case (Cons ops env)
  show ?case
  proof (cases "encCap e - (hdrLen + length body) < 40")
    case True
    then have "out = (Some (hdr index @ body), e, ops # env, [], [])" using Cons.prems by (simp add: readLoop.simps [of "ops # env"])
    then show ?thesis using Cons.prems True by (auto intro!: loop_post_done simp: taken_from_def same_stream_def)
  next
    case room: False
    obtain ws pr where o: "ringOps ops (encRing e) = Ok (ws, pr)" "pktRing_ok pr" "pr_contents pr = pr_contents (encRing e) @ map Some ws"
      using ringOps_some [OF Cons.prems(1)] by blast
    note unf = readLoop.simps [of "ops # env" hdr e index indexSet body]
    show ?thesis
    using o(2) proof (cases rule: pktRing_Read_cases [where block = "body = []"])
      case empty
      show ?thesis
      proof (cases "\<not> closed (prRing pr) \<and> body = []")
        case True
        have "noting [] ws (readLoop env hdr (e\<lparr>encRing := pr\<rparr>) index indexSet body) = Ok (Some out)"
          using Cons.prems(3) unfolding unf using room o(1) empty(2) True by simp
        then obtain f e' env' rs' ws' where out: "out = (f, e', env', rs', ws @ ws')" "readLoop env hdr (e\<lparr>encRing := pr\<rparr>) index indexSet body = Ok (Some (f, e', env', rs', ws'))"
          by (cases out) (auto simp: noting_Ok)
        have "loop_post (encCap e - hdrLen) hdr (e\<lparr>encRing := pr\<rparr>) index indexSet body (f, e', env', rs', ws')"
          using Cons.IH [of "e\<lparr>encRing := pr\<rparr>" body, OF _ _ out(2)] o(2) room Cons.prems(2) by simp
        from loop_post_skip [OF this, of e "[]" ws] show ?thesis using out(1) o by (simp add: taken_from_def same_stream_def)
      next
        case False
        then have "out = (if closed (prRing pr) \<and> body = [] then None else Some (hdr index @ body), e\<lparr>encRing := pr, encPkt := []\<rparr>, env, [], ws)"
          using Cons.prems(3) room o(1) empty(2) by (auto simp: unf split: if_splits)
        then show ?thesis using o room False by (auto intro!: loop_post_done loop_post_closed simp: taken_from_def same_stream_def)
      qed
    next
      case (pkt p pr')
      let ?e = "e\<lparr>encRing := pr', encPkt := p\<rparr>"
      have c: "pr_contents (encRing e) @ map Some ws = Some p # pr_contents pr'" using o(3) pkt(3) by simp
      show ?thesis
      proof (cases "validPkt p")
        case False
        have "noting [p] ws (readLoop env hdr ?e index indexSet body) = Ok (Some out)"
          using Cons.prems(3) room o(1) pkt(1) False by (simp add: unf)
        then obtain f e' env' rs' ws' where out: "out = (f, e', env', p # rs', ws @ ws')" "readLoop env hdr ?e index indexSet body = Ok (Some (f, e', env', rs', ws'))"
          by (cases out) (auto simp: noting_Ok)
        have "loop_post (encCap e - hdrLen) hdr ?e index indexSet body (f, e', env', rs', ws')"
          using Cons.IH [of ?e body, OF _ _ out(2)] pkt(2) room Cons.prems(2) by simp
        from loop_post_skip [OF this, of e "[p]" ws] show ?thesis using out(1) c pkt(2) False by (simp add: taken_from_def same_stream_def)
      next
        case valid: True
        define n where "n = min (encCap e - (hdrLen + length body)) (length p)"
        define idx where "idx = (if indexSet then index else of_nat (length body))"
        let ?e' = "e\<lparr>encRing := pr', encPkt := drop n p\<rparr>"
        show ?thesis
        proof (cases "n < length p")
          case True
          have "out = (Some (hdr idx @ body @ take n p), ?e', env, [p], ws)"
            using Cons.prems(3) room o(1) pkt(1) valid True by (simp add: unf copyToFrame_def Let_def idx_def flip: n_def)
          moreover have "40 \<le> n" "length body + n = encCap e - hdrLen" using room True Cons.prems(2) by (auto simp: n_def)
          ultimately show ?thesis using loop_post_cut [OF valid True, of body "encCap e - hdrLen" e ?e' ws idx] pkt(2) c by (simp add: taken_from_def same_stream_def idx_def)
        next
          case False
          then have n: "n = length p" "hdrLen + length (body @ p) \<le> encCap e" using Cons.prems(2) by (auto simp: n_def)
          have "noting [p] ws (readLoop env hdr ?e' idx True (body @ p)) = Ok (Some out)"
            using Cons.prems(3) room o(1) pkt(1) valid n(1) by (simp add: unf copyToFrame_def Let_def idx_def flip: n_def)
          then obtain f e' env' rs' ws' where out: "out = (f, e', env', p # rs', ws @ ws')" "readLoop env hdr ?e' idx True (body @ p) = Ok (Some (f, e', env', rs', ws'))"
            by (cases out) (auto simp: noting_Ok)
          have "loop_post (encCap e - hdrLen) hdr ?e' idx True (body @ p) (f, e', env', rs', ws')"
            using Cons.IH [of ?e' "body @ p", OF _ _ out(2)] pkt(2) n by simp
          from loop_post_next [OF this, of e ws indexSet index] show ?thesis using out(1) c valid pkt(2) by (simp add: taken_from_def same_stream_def idx_def)
        qed
      qed
    qed
  qed
qed

lemma packs_takes: "packs room pend ps tp rest \<Longrightarrow> takes room pend (firstIndex pend ps tp) (pend @ concat ps @ tp) (ps @ cut tp rest) rest"
  by (auto simp: takes_def)

lemma frame_post_takes:
  assumes "frame_post room hdr 0xffff False pend (Some frame) rest taken"
  shows "\<exists>index payload. frame = hdr index @ payload \<and> takes room pend index payload taken rest"
proof -
  obtain ps tp where *: "packs room pend ps tp rest" "taken = ps @ cut tp rest" "frame = hdr (firstIndex pend ps tp) @ pend @ concat ps @ tp"
    using assms by (auto simp: frame_post_def firstIndex_def)
  show ?thesis by (rule exI [of _ "firstIndex pend ps tp"], rule exI [of _ "pend @ concat ps @ tp"]) (use * packs_takes in auto)
qed

lemma frameHeader_mkFrame: "frameHeader e index @ payload = mkFrame (encSession e) (encStream e) (encSeq e) index payload"
  by (simp add: frameHeader_def mkFrame_def)

text \<open>A frame of the encoder takes what is pending and what it reads; \<open>nil\<close> is returned only when nothing is pending.\<close>

lemma encoder_Read_post:
  assumes "pktRing_ok (encRing e)" "hdrLen \<le> encCap e" "encoder_Read e env = Ok (Some (f, e', env', rs, ws))"
  shows "taken_from (e\<lparr>encSeq := encSeq e + 1\<rparr>) e' rs ws"
    and "case f of None \<Rightarrow> encPkt e = [] \<and> encPkt e' = [] \<and> filter validPkt rs = []
      | Some frame \<Rightarrow> \<exists>index payload. frame = mkFrame (encSession e) (encStream e) (encSeq e) index payload
          \<and> takes (encCap e - hdrLen) (encPkt e) index payload (filter validPkt rs) (encPkt e')"
proof -
  define e1 where "e1 = e\<lparr>encSeq := encSeq e + 1\<rparr>"
  let ?room = "encCap e - hdrLen"
  have main: "taken_from e1 e' rs ws \<and> (case f of None \<Rightarrow> encPkt e = [] \<and> encPkt e' = [] \<and> filter validPkt rs = []
      | Some frame \<Rightarrow> \<exists>index payload. frame = frameHeader e index @ payload \<and> takes ?room (encPkt e) index payload (filter validPkt rs) (encPkt e'))"
  proof (cases "?room < length (encPkt e)")
    case True
    then have p: "encPkt e \<noteq> []" by auto
    have out: "f = Some (frameHeader e 0xffff @ take ?room (encPkt e))" "e' = e1\<lparr>encPkt := drop ?room (encPkt e)\<rparr>" "rs = []" "ws = []"
      using assms(2,3) True p by (auto simp: encoder_Read_def copyToFrame_def Let_def min_def e1_def)
    then have "taken_from e1 e' rs ws" using assms(1) by (simp add: taken_from_def same_stream_def e1_def)
    moreover have "takes ?room (encPkt e) 0xffff (take ?room (encPkt e)) [] (drop ?room (encPkt e))" using True by (simp add: takes_def)
    ultimately show ?thesis using out by (auto simp: e1_def)
  next
    case False
    define e2 where "e2 = e1\<lparr>encPkt := []\<rparr>"
    have "readLoop env (frameHeader e) e2 0xffff False (encPkt e) = Ok (Some (f, e', env', rs, ws))"
    proof (cases "encPkt e = []")
      case True
      then have "e2 = e1" by (simp add: e2_def e1_def)
      then show ?thesis using assms(2,3) True by (simp add: encoder_Read_def Let_def e1_def)
    next
      case ne: False
      then show ?thesis using assms(2,3) False by (simp add: encoder_Read_def Let_def e2_def e1_def copyToFrame_def min_def split: if_splits)
    qed
    from readLoop_post [OF _ _ this] have "loop_post ?room (frameHeader e) e2 0xffff False (encPkt e) (f, e', env', rs, ws)"
      using assms(1,2) False by (simp add: e2_def e1_def)
    then have t: "taken_from e2 e' rs ws" "frame_post ?room (frameHeader e) 0xffff False (encPkt e) f (encPkt e') (filter validPkt rs)"
      by (auto simp: loop_post_def)
    have "taken_from e1 e' rs ws" using t(1) by (simp add: taken_from_def same_stream_def e2_def)
    then show ?thesis using t(2) frame_post_takes by (cases f) (auto simp: frame_post_def)
  qed
  then show "taken_from (e\<lparr>encSeq := encSeq e + 1\<rparr>) e' rs ws" by (simp add: e1_def)
  show "case f of None \<Rightarrow> encPkt e = [] \<and> encPkt e' = [] \<and> filter validPkt rs = []
      | Some frame \<Rightarrow> \<exists>index payload. frame = mkFrame (encSession e) (encStream e) (encSeq e) index payload
          \<and> takes (encCap e - hdrLen) (encPkt e) index payload (filter validPkt rs) (encPkt e')"
    using main by (auto simp: frameHeader_mkFrame split: option.splits)
qed

section \<open>Streams of frames\<close>

fun streams :: "nat \<Rightarrow> bytes \<Rightarrow> (u16 \<times> bytes) list \<Rightarrow> bytes list \<Rightarrow> bytes \<Rightarrow> bool" where
  "streams room pend [] taken pend' \<longleftrightarrow> taken = [] \<and> pend' = pend"
| "streams room pend (f # fs) taken pend' \<longleftrightarrow>
    (\<exists>t1 mid t2. takes room pend (fst f) (snd f) t1 mid \<and> streams room mid fs t2 pend' \<and> taken = t1 @ t2)"

fun numbered :: "u8 \<Rightarrow> u32 \<Rightarrow> u64 \<Rightarrow> (u16 \<times> bytes) list \<Rightarrow> bytes list" where
  "numbered sess stream seq [] = []"
| "numbered sess stream seq (f # fs) = mkFrame sess stream seq (fst f) (snd f) # numbered sess stream (seq + 1) fs"

lemma sender_run_post:
  assumes "pktRing_ok (encRing e)" "hdrLen \<le> encCap e" "sender_run n e env = Ok (frames, e', env', rs, ws)"
  shows "\<exists>fs. frames = numbered (encSession e) (encStream e) (encSeq e) fs \<and> streams (encCap e - hdrLen) (encPkt e) fs (filter validPkt rs) (encPkt e')
    \<and> length fs \<le> n \<and> pktRing_ok (encRing e') \<and> pr_contents (encRing e) @ map Some ws = map Some rs @ pr_contents (encRing e')"
  using assms
proof (induction n arbitrary: e env frames rs ws e' env')
  case (Suc n)
  obtain o' where o: "encoder_Read e env = Ok o'" using Suc.prems(3) by (auto simp: bindR_eq_Ok)
  consider "o' = None" | f e1 env1 rs1 ws1 where "o' = Some (f, e1, env1, rs1, ws1)" by (cases o') auto
  then show ?case
  proof cases
    case 1
    then show ?thesis using Suc.prems o by (auto intro!: exI [of _ "[]"])
  next
    case (2 f e1 env1 rs1 ws1)
    note p = encoder_Read_post [OF Suc.prems(1,2) o [unfolded 2]]
    show ?thesis
    proof (cases f)
      case None
      then show ?thesis using Suc.prems o 2 p by (auto simp: taken_from_def intro!: exI [of _ "[]"])
    next
      case (Some frame)
      obtain index payload where fr: "frame = mkFrame (encSession e) (encStream e) (encSeq e) index payload"
          "takes (encCap e - hdrLen) (encPkt e) index payload (filter validPkt rs1) (encPkt e1)" using p(2) Some by auto
      obtain frames' rs' ws' where r: "sender_run n e1 env1 = Ok (frames', e', env', rs', ws')" "frames = frame # frames'" "rs = rs1 @ rs'" "ws = ws1 @ ws'"
        using Suc.prems(3) o 2 Some by (auto simp: mapR_eq_Ok)
      have e1: "pktRing_ok (encRing e1)" "encSession e1 = encSession e" "encStream e1 = encStream e" "encCap e1 = encCap e" "encSeq e1 = encSeq e + 1"
          "pr_contents (encRing e) @ map Some ws1 = map Some rs1 @ pr_contents (encRing e1)"
        using p(1) by (auto simp: taken_from_def same_stream_def)
      obtain fs where fs: "frames' = numbered (encSession e) (encStream e) (encSeq e + 1) fs" "streams (encCap e - hdrLen) (encPkt e1) fs (filter validPkt rs') (encPkt e')"
          "length fs \<le> n" "pktRing_ok (encRing e')" "pr_contents (encRing e1) @ map Some ws' = map Some rs' @ pr_contents (encRing e')"
        using Suc.IH [OF e1(1) _ r(1)] Suc.prems(2) e1 by auto
      have "pr_contents (encRing e) @ map Some ws = map Some rs @ pr_contents (encRing e')"
        using e1(6) fs(5) r(3,4) by simp (metis append.assoc)
      then show ?thesis using fr fs r by (intro exI [of _ "(index, payload) # fs"]) auto
    qed
  qed
qed (auto intro!: exI [of _ "[]"])

end
