(* ===== verification/Reassembly.thy ===== *)
theory Reassembly
  imports Encoder
begin

text \<open>
  The receiving side of the gateway (\<^verbatim>\<open>gateway/dataplane/framebuf.go\<close>, \<^verbatim>\<open>rlist.go\<close>, \<^verbatim>\<open>worker.go\<close>): frames are kept in a list per stream until
  the packets that are spread over them can be put together. An operation returns, besides the new state, the packets
  it wrote to the tunnel device and the frame buffers it released to the pool.
\<close>

unbundle bit_operations_syntax

section \<open>Frame buffers\<close>

definition frameBufCap :: nat where "frameBufCap = 65535"
definition freeFramesCap :: nat where "freeFramesCap = 1024"
definition sigHdrSize :: nat where "sigHdrSize = 16"

record frameBuf =
  fbSess :: u8
  fbSeq :: u64
  fbIndex :: int
  fbLen :: nat
  frag0Start :: nat
  frag0Processed :: bool
  fragNProcessed :: bool
  completePktsProcessed :: bool
  fbPktLen :: nat
  fbRaw :: bytes

definition frameBuf_Reset :: "frameBuf \<Rightarrow> frameBuf" where
  "frameBuf_Reset fb = fb\<lparr>fbSess := 0, fbSeq := 0xffffffffffffffff, fbIndex := -1, fbLen := 0, frag0Start := 0, frag0Processed := False,
     fragNProcessed := False, completePktsProcessed := False, fbPktLen := 0\<rparr>"

text \<open>The loop over the packets that start in a frame: the packets that are complete, and where it stopped with the length of the packet there; \<open>None\<close> for a return out of the loop.\<close>

datatype pktHead = HeadBad | HeadLen nat

definition pktHeader :: "bytes \<Rightarrow> nat \<Rightarrow> nat \<Rightarrow> pktHead result" where
  "pktHeader raw frameLen offset =
    (if length raw \<le> offset then Panic
     else let ipVersion = drop_bit 4 (raw ! offset) in
     if ipVersion = 4
     then (if frameLen - offset < 20 then Ok HeadBad
           else mapR (\<lambda>b. let l = unat (be_u16 b) in if l < 20 then HeadBad else HeadLen l) (slice raw (offset + 2) (offset + 4)))
     else if ipVersion = 6
     then (if frameLen - offset < 40 then Ok HeadBad
           else mapR (\<lambda>b. HeadLen (unat (be_u16 b) + 40)) (slice raw (offset + 4) (offset + 6)))
     else Ok HeadBad)"

function pktLoop :: "bytes \<Rightarrow> nat \<Rightarrow> nat \<Rightarrow> nat \<Rightarrow> (bytes list \<times> (nat \<times> nat) option) result" where
  "pktLoop raw frameLen offset pktLen =
    (if frameLen \<le> offset then Ok ([], Some (offset, pktLen))
     else case pktHeader raw frameLen offset of
       Panic \<Rightarrow> Panic
     | Fail e \<Rightarrow> Fail e
     | Ok HeadBad \<Rightarrow> Ok ([], None)
     | Ok (HeadLen l) \<Rightarrow>
         (case slice raw offset frameLen of
            Panic \<Rightarrow> Panic
          | Fail e \<Rightarrow> Fail e
          | Ok rawPkt \<Rightarrow>
              if length rawPkt < l then Ok ([], Some (offset, l))
              else mapR (\<lambda>(ps, r). (take l rawPkt # ps, r)) (pktLoop raw frameLen (offset + l) l)))"
  by pat_completeness auto
termination
  by (relation "measure (\<lambda>(raw, frameLen, offset, pktLen). frameLen - offset)") (auto simp: pktHeader_def Let_def mapR_eq_Ok split: if_splits)

declare pktLoop.simps [simp del]

definition ProcessCompletePkts :: "frameBuf \<Rightarrow> (bytes list \<times> frameBuf) result" where
  "ProcessCompletePkts fb =
    (if completePktsProcessed fb \<or> fbIndex fb = 0xffff then Ok ([], fb\<lparr>completePktsProcessed := True\<rparr>)
     else
       mapR (\<lambda>(ps, r). (ps, case r of
           None \<Rightarrow> fb\<lparr>completePktsProcessed := True\<rparr>
         | Some (offset, pktLen) \<Rightarrow>
             let fb = (if offset < fbLen fb then fb\<lparr>frag0Start := offset, fbPktLen := pktLen\<rparr> else fb) in
             fb\<lparr>completePktsProcessed := True, frag0Processed := (frag0Start fb = 0)\<rparr>))
         (pktLoop (fbRaw fb) (fbLen fb) (nat (fbIndex fb + int sigHdrSize)) 0))"

definition Processed :: "frameBuf \<Rightarrow> bool" where
  "Processed fb \<longleftrightarrow> completePktsProcessed fb \<and> fragNProcessed fb \<and> (frag0Start fb = 0 \<or> frag0Processed fb)"

definition SetProcessed :: "frameBuf \<Rightarrow> frameBuf" where
  "SetProcessed fb = fb\<lparr>completePktsProcessed := True, fragNProcessed := True, frag0Processed := True\<rparr>"

section \<open>Reassembly lists\<close>

record reassemblyList =
  rlEpoch :: u32
  rlCapacity :: nat
  markedForDeletion :: bool
  rlEntries :: "frameBuf list"

type_synonym effects = "bytes list \<times> frameBuf list"

definition newReassemblyList :: "u32 \<Rightarrow> nat \<Rightarrow> reassemblyList" where
  "newReassemblyList epoch capacity = \<lparr>rlEpoch = epoch, rlCapacity = capacity, markedForDeletion = False, rlEntries = []\<rparr>"

definition removeAll :: "reassemblyList \<Rightarrow> reassemblyList \<times> frameBuf list" where
  "removeAll l = (l\<lparr>rlEntries := []\<rparr>, map frameBuf_Reset (rlEntries l))"

text \<open>All entries before the last one are removed.\<close>

definition removeBeforeBack :: "reassemblyList \<Rightarrow> reassemblyList \<times> frameBuf list" where
  "removeBeforeBack l = (l\<lparr>rlEntries := [last (rlEntries l)]\<rparr>, map frameBuf_Reset (butlast (rlEntries l)))"

definition removeProcessed :: "reassemblyList \<Rightarrow> reassemblyList \<times> frameBuf list" where
  "removeProcessed l = (l\<lparr>rlEntries := filter (\<lambda>fb. \<not> Processed fb) (rlEntries l)\<rparr>, map frameBuf_Reset (filter Processed (rlEntries l)))"

definition insertFirst :: "reassemblyList \<Rightarrow> frameBuf \<Rightarrow> (reassemblyList \<times> effects) result" where
  "insertFirst l frame =
     mapR (\<lambda>(ps, frame). if frag0Start frame \<noteq> 0 then (l\<lparr>rlEntries := rlEntries l @ [frame]\<rparr>, ps, []) else (l, ps, [frameBuf_Reset frame]))
       (ProcessCompletePkts frame)"

text \<open>The frames after the first are added to the packet as long as bytes are missing; they are returned with their mark, and the frames not needed.\<close>

definition intMin :: "int \<Rightarrow> int \<Rightarrow> int" where "intMin x y = (if x \<le> y then x else y)"

fun collect :: "nat \<Rightarrow> bytes \<Rightarrow> frameBuf list \<Rightarrow> (bytes \<times> frameBuf list \<times> frameBuf list) result" where
  "collect pktLen buf [] = Ok (buf, [], [])"
| "collect pktLen buf (frame # fs) =
    (if length buf < pktLen
     then
       let missingBytes = int pktLen - int (length buf) in
       bindR (slice (fbRaw frame) sigHdrSize (nat (intMin (missingBytes + int sigHdrSize) (int (fbLen frame))))) (\<lambda>b.
       mapR (\<lambda>(buf, seen, rest). (buf, frame\<lparr>fragNProcessed := True\<rparr> # seen, rest)) (collect pktLen (buf @ b) fs))
     else Ok (buf, [], frame # fs))"

text \<open>The last frame that was read is processed, which dereferences nil when there is none.\<close>

definition collectAndWrite :: "reassemblyList \<Rightarrow> (reassemblyList \<times> effects) result" where
  "collectAndWrite l =
    (case rlEntries l of
       [] \<Rightarrow> Panic
     | startFrame # others \<Rightarrow>
       bindR (slice (fbRaw startFrame) (frag0Start startFrame) (fbLen startFrame)) (\<lambda>b.
       bindR (collect (fbPktLen startFrame) b others) (\<lambda>(buf, seen, rest).
       let sent = (if length buf \<noteq> fbPktLen startFrame then [] else [buf]) in
       if seen = [] then Panic
       else bindR (ProcessCompletePkts (last seen)) (\<lambda>(ps, frame).
         let (l', released) = removeProcessed (l\<lparr>rlEntries := SetProcessed startFrame # butlast seen @ frame # rest\<rparr>) in
         Ok (l', sent @ ps, released)))))"

text \<open>Whether a packet can be reassembled, and whether there is a framing error.\<close>

fun scan :: "int \<Rightarrow> int \<Rightarrow> frameBuf list \<Rightarrow> bool \<times> bool" where
  "scan pktLen n [] = (False, False)"
| "scan pktLen n (frame # fs) =
    (let n = n + (int (fbLen frame) - int sigHdrSize) in
     if n \<ge> pktLen then (True, False) else if fbIndex frame \<noteq> 0xffff then (False, True) else scan pktLen n fs)"

definition tryReassemble :: "reassemblyList \<Rightarrow> (reassemblyList \<times> effects) result" where
  "tryReassemble l =
    (if length (rlEntries l) < 2 then Ok (l, [], [])
     else
       let startFrame = hd (rlEntries l) in
       if frag0Start startFrame = 0 then (case removeAll l of (l', released) \<Rightarrow> Ok (l', [], released))
       else
         let (canReassemble, framingError) = scan (int (fbPktLen startFrame)) (int (fbLen startFrame) - int (frag0Start startFrame)) (tl (rlEntries l)) in
         if canReassemble then collectAndWrite l
         else if framingError then (case removeBeforeBack l of (l', released) \<Rightarrow> Ok (l', [], released))
         else Ok (l, [], []))"

definition Insert :: "reassemblyList \<Rightarrow> frameBuf \<Rightarrow> (reassemblyList \<times> effects) result" where
  "Insert l frame =
    (if rlEntries l = [] then insertFirst l frame
     else
       let firstFrame = hd (rlEntries l); lastFrame = last (rlEntries l) in
       if fbSeq frame < fbSeq firstFrame then Ok (l, [], [frameBuf_Reset frame])
       else if fbSeq firstFrame \<le> fbSeq frame \<and> fbSeq frame \<le> fbSeq lastFrame then Ok (l, [], [frameBuf_Reset frame])
       else if fbSeq frame > fbSeq lastFrame + 1 \<or> length (rlEntries l) = rlCapacity l
       then (case removeAll l of (l', released) \<Rightarrow> mapR (\<lambda>(l'', sent, released'). (l'', sent, released @ released')) (insertFirst l' frame))
       else tryReassemble (l\<lparr>rlEntries := rlEntries l @ [frame]\<rparr>))"

section \<open>Workers\<close>

definition reassemblyListCap :: nat where "reassemblyListCap = 100"

type_synonym rlists = "u32 \<Rightarrow> reassemblyList option"

definition getRlist :: "rlists \<Rightarrow> u32 \<Rightarrow> reassemblyList" where
  "getRlist w epoch = (case w epoch of None \<Rightarrow> newReassemblyList epoch reassemblyListCap | Some l \<Rightarrow> l)\<lparr>markedForDeletion := False\<rparr>"

definition frameMeta :: "frameBuf \<Rightarrow> frameBuf" where
  "frameMeta frame =
    (let index = uint (be_u16 (take 2 (drop 2 (fbRaw frame)))) in
     frame\<lparr>fbSeq := be_u64 (take 8 (drop 8 (fbRaw frame))), fbIndex := index, fragNProcessed := (index = 0), completePktsProcessed := (index = 0xffff)\<rparr>)"

definition frameEpoch :: "frameBuf \<Rightarrow> u32" where
  "frameEpoch frame = be_u32 (take 4 (drop 4 (fbRaw frame))) AND 0xfffff"

definition processFrame :: "rlists \<Rightarrow> frameBuf \<Rightarrow> (rlists \<times> effects) result" where
  "processFrame w frame =
    (if length (fbRaw frame) < 16 then Panic
     else mapR (\<lambda>(l, ef). (w(frameEpoch frame \<mapsto> l), ef)) (Insert (getRlist w (frameEpoch frame)) (frameMeta frame)))"

text \<open>A list that was not used since the cleanup before is removed; \<open>epochs\<close> is the order in which the map is ranged over.\<close>

fun worker_cleanup :: "u32 list \<Rightarrow> rlists \<Rightarrow> rlists \<times> frameBuf list" where
  "worker_cleanup [] w = (w, [])"
| "worker_cleanup (k # ks) w =
    (case w k of
       None \<Rightarrow> worker_cleanup ks w
     | Some l \<Rightarrow>
         if markedForDeletion l
         then (case worker_cleanup ks (w(k := None)) of (w', released) \<Rightarrow> (w', snd (removeAll l) @ released))
         else worker_cleanup ks (w(k \<mapsto> l\<lparr>markedForDeletion := True\<rparr>)))"

text \<open>The frames a worker takes from its ring, one after the other.\<close>

fun processFrames :: "rlists \<Rightarrow> frameBuf list \<Rightarrow> (rlists \<times> effects) result" where
  "processFrames w [] = Ok (w, [], [])"
| "processFrames w (f # fs) =
    bindR (processFrame w f) (\<lambda>(w1, sent, released).
    mapR (\<lambda>(w2, sent', released'). (w2, sent @ sent', released @ released')) (processFrames w1 fs))"

end
