(* ===== verification/SigFlow.thy ===== *)
theory SigFlow
  imports Reassembly
begin

text \<open>
  Frames of one stream on their way: which part of which packet each frame holds, and what the receiver makes of them when they
  arrive in order, and when they arrive in any order, more than once or not at all.
\<close>

unbundle bit_operations_syntax

section \<open>Reading packets back from a frame\<close>

lemma be_u16_take: "2 \<le> length b \<Longrightarrow> be_u16 (take 2 b) = be_u16 b"
  by (simp add: be_u16_def)

lemma header_bytes:
  assumes "length h \<ge> a + 2" "b \<le> length raw" "take (length h) (drop off (take b raw)) = h" "off + length h \<le> b"
  shows "slice raw (off + a) (off + a + 2) = Ok (take 2 (drop a h))"
proof -
  have n: "raw ! (off + i) = h ! i" if "i < length h" for i
  proof -
    have "h ! i = take (length h) (drop off (take b raw)) ! i" by (simp only: assms(3))
    also have "\<dots> = raw ! (off + i)" using that assms(2,4) by simp
    finally show ?thesis by simp
  qed
  have "take 2 (drop (off + a) raw) = take 2 (drop a h)"
    by (rule nth_equalityI) (use assms(1,2,4) n [of "a + _"] in \<open>auto simp: add.assoc\<close>)
  then show ?thesis using assms by (simp add: slice_def)
qed

text \<open>A header is read correctly when at least its 40 bytes, or the whole packet, are in the frame.\<close>

lemma pktHeader_valid:
  assumes "validPkt q" "frameLen \<le> length raw" "off < frameLen"
    and "h = take (min (frameLen - off) (length q)) q" "take (length h) (drop off (take frameLen raw)) = h" "length q \<le> frameLen - off \<or> 40 \<le> frameLen - off"
  shows "pktHeader raw frameLen off = Ok (HeadLen (length q))"
proof -
  have len: "off + length h \<le> frameLen" "length h \<le> length q" "length q = length h \<or> 40 \<le> length h" using assms by auto
  have q: "q \<noteq> []" "20 \<le> length q" using assms(1) by (auto simp: validPkt_def Let_def split: if_splits)
  have h0: "h \<noteq> []" using assms(3,4) q by auto
  have r0: "raw ! off = q ! 0"
  proof -
    have "raw ! off = take (length h) (drop off (take frameLen raw)) ! 0" using assms(2,3) h0 by simp
    also have "\<dots> = q ! 0" unfolding assms(5) using assms(3,4) q by simp
    finally show ?thesis .
  qed
  have f: "slice raw b c = Ok (take 2 (drop a q))" if "a + 2 \<le> length h" "b = off + a" "c = off + a + 2" for a b c
  proof -
    have "take 2 (drop a h) = take 2 (drop a q)" using that(1) assms(4) by (auto simp: drop_take)
    then show ?thesis using header_bytes [OF that(1) assms(2,5) len(1)] that(2,3) by simp
  qed
  have room: "20 \<le> length h" using len q(2) by auto
  consider "drop_bit 4 (q ! 0) = 4" "unat (be_u16 (take 2 (drop 2 q))) = length q"
    | "drop_bit 4 (q ! 0) = 6" "40 + unat (be_u16 (take 2 (drop 4 q))) = length q" "40 \<le> length q"
    using assms(1) by (auto simp: validPkt_def Let_def split: if_splits)
  then show ?thesis
  proof cases
    case 1
    moreover have "slice raw (off + 2) (off + 4) = Ok (take 2 (drop 2 q))" "\<not> frameLen - off < 20" using room len by (auto intro: f)
    ultimately show ?thesis using r0 assms(2,3) q(2) by (simp add: pktHeader_def Let_def)
  next
    case 2
    then have "40 \<le> length h" using len by auto
    then have "slice raw (off + 4) (off + 6) = Ok (take 2 (drop 4 q))" "\<not> frameLen - off < 40" using len by (auto intro: f)
    then show ?thesis using 2 r0 assms(2,3) by (simp add: pktHeader_def Let_def)
  qed
qed

text \<open>The loop over a frame finds the packets that were put into it.\<close>

lemma pktLoop_packets:
  assumes "frameLen \<le> length raw" "drop off (take frameLen raw) = concat ps @ tp" "\<forall>p \<in> set ps. validPkt p" "off \<le> frameLen"
    and "tp = [] \<or> rest \<noteq> [] \<and> 40 \<le> length tp \<and> validPkt (tp @ rest)"
  shows "\<exists>l. pktLoop raw frameLen off l0 = Ok (ps, Some (frameLen - length tp, l)) \<and> (tp \<noteq> [] \<longrightarrow> l = length (tp @ rest))"
  using assms(2,3,4)
proof (induction ps arbitrary: off l0)
  case Nil
  have len: "frameLen - off = length tp" using arg_cong [OF Nil(1), of length] assms(1) by simp
  show ?case
  proof (cases "tp = []")
    case True
    then show ?thesis using len Nil.prems(3) by (simp add: pktLoop.simps)
  next
    case False
    then have tp: "rest \<noteq> []" "40 \<le> length tp" "validPkt (tp @ rest)" using assms(5) by auto
    have "pktHeader raw frameLen off = Ok (HeadLen (length (tp @ rest)))"
      by (rule pktHeader_valid [OF tp(3) assms(1), where h = tp]) (use len tp False Nil.prems in auto)
    moreover have "slice raw off frameLen = Ok tp" using assms(1) Nil.prems by (simp add: slice_def take_drop)
    moreover have o: "\<not> frameLen \<le> off" using len False Nil.prems(3) by auto
    ultimately have "pktLoop raw frameLen off l0 = Ok ([], Some (off, length (tp @ rest)))" using tp by (simp add: pktLoop.simps [of raw frameLen off])
    moreover have "off = frameLen - length tp" using len o by auto
    ultimately show ?thesis by auto
  qed
next
  case (Cons p ps)
  have len: "frameLen - off = length p + length (concat ps) + length tp" using arg_cong [OF Cons.prems(1), of length] assms(1) by simp
  have p: "validPkt p" "p \<noteq> []" using Cons.prems(2) validPkt_not_Nil by auto
  have off: "off < frameLen" using len p(2) by (cases "off < frameLen") auto
  have "pktHeader raw frameLen off = Ok (HeadLen (length p))"
    by (rule pktHeader_valid [OF p(1) assms(1) off, where h = p]) (use len Cons.prems in auto)
  moreover have "slice raw off frameLen = Ok (p @ concat ps @ tp)" using assms(1) Cons.prems off by (simp add: slice_def take_drop)
  moreover have "drop (off + length p) (take frameLen raw) = concat ps @ tp"
    using arg_cong [OF Cons.prems(1), of "drop (length p)"] by (simp add: add.commute)
  moreover have "off + length p \<le> frameLen" using len off by linarith
  moreover obtain l where "pktLoop raw frameLen (off + length p) (length p) = Ok (ps, Some (frameLen - length tp, l))" "tp \<noteq> [] \<longrightarrow> l = length (tp @ rest)"
    using Cons.IH [of "off + length p" "length p"] calculation(3,4) Cons.prems(2) by auto
  ultimately show ?case using off by (simp add: pktLoop.simps [of raw frameLen off])
qed

section \<open>The state of a stream\<close>

text \<open>The packet that is being sent, with the number of its bytes that were sent.\<close>

type_synonym flow = "(bytes \<times> nat) option"

definition pendOf :: "flow \<Rightarrow> bytes" where
  "pendOf st = (case st of None \<Rightarrow> [] | Some (p, k) \<Rightarrow> drop k p)"

definition flow_ok :: "flow \<Rightarrow> bool" where
  "flow_ok st \<longleftrightarrow> (case st of None \<Rightarrow> True | Some (p, k) \<Rightarrow> 40 \<le> k \<and> k < length p)"

text \<open>A frame that only continues a packet, and a frame in which the packet ends and others start.\<close>

definition inner :: "nat \<Rightarrow> flow \<Rightarrow> u16 \<times> bytes \<Rightarrow> flow \<Rightarrow> bool" where
  "inner room st f st' \<longleftrightarrow> (\<exists>p k. st = Some (p, k) \<and> k + room < length p \<and> f = (0xffff, take room (drop k p)) \<and> st' = Some (p, k + room))"

definition outer :: "nat \<Rightarrow> flow \<Rightarrow> u16 \<times> bytes \<Rightarrow> bytes list \<Rightarrow> bytes \<Rightarrow> bytes \<Rightarrow> flow \<Rightarrow> bool" where
  "outer room st f ps tp rest st' \<longleftrightarrow> packs room (pendOf st) ps tp rest \<and> f = (firstIndex (pendOf st) ps tp, pendOf st @ concat ps @ tp)
     \<and> st' = (if tp = [] then None else Some (tp @ rest, length tp))"

text \<open>The packets that are complete with a frame.\<close>

definition ends :: "flow \<Rightarrow> bytes list" where
  "ends st = (case st of None \<Rightarrow> [] | Some (p, k) \<Rightarrow> [p])"

definition linked :: "nat \<Rightarrow> flow \<Rightarrow> u16 \<times> bytes \<Rightarrow> bytes list \<Rightarrow> flow \<Rightarrow> bool" where
  "linked room st f done' st' \<longleftrightarrow> inner room st f st' \<and> done' = [] \<or> (\<exists>ps tp rest. outer room st f ps tp rest st' \<and> done' = ends st @ ps)"

lemma takes_linked:
  assumes "takes room (pendOf st) index payload taken pend'" "flow_ok st"
  shows "\<exists>done' st'. linked room st (index, payload) done' st' \<and> flow_ok st' \<and> pendOf st' = pend' \<and> ends st @ taken = done' @ ends st'"
  using assms(1) unfolding takes_def
proof (elim disjE exE conjE)
  assume a: "room < length (pendOf st)" "payload = take room (pendOf st)" "pend' = drop room (pendOf st)" "taken = []" "index = 0xffff"
  then obtain p k where st: "st = Some (p, k)" by (cases st) (auto simp: pendOf_def)
  show ?thesis
    by (rule exI [of _ "[]"], rule exI [of _ "Some (p, k + room)"])
      (use a st assms(2) in \<open>auto simp: linked_def inner_def pendOf_def flow_ok_def ends_def add.commute\<close>)
next
  fix ps tp
  assume a: "packs room (pendOf st) ps tp pend'" "payload = pendOf st @ concat ps @ tp" "taken = ps @ cut tp pend'" "index = firstIndex (pendOf st) ps tp"
  define st' where "st' = (if tp = [] then None else Some (tp @ pend', length tp))"
  have "outer room st (index, payload) ps tp pend' st'" using a by (simp add: outer_def st'_def)
  moreover have "flow_ok st'" "pendOf st' = pend'" "cut tp pend' = ends st'" using a(1) by (auto simp: st'_def flow_ok_def pendOf_def packs_def cut_def ends_def split: if_splits)
  ultimately show ?thesis using a(3) by (intro exI [of _ "ends st @ ps"] exI [of _ st']) (auto simp: linked_def)
qed

text \<open>The states before and after each frame of a stream, and the packets complete with it.\<close>

definition flows :: "nat \<Rightarrow> (u16 \<times> bytes) list \<Rightarrow> (nat \<Rightarrow> flow) \<Rightarrow> (nat \<Rightarrow> bytes list) \<Rightarrow> bool" where
  "flows room fs st done' \<longleftrightarrow> (\<forall>i < length fs. linked room (st i) (fs ! i) (done' i) (st (Suc i))) \<and> (\<forall>i \<le> length fs. flow_ok (st i))"

lemma streams_flows:
  assumes "streams room (pendOf s0) fs taken pend'" "flow_ok s0"
  shows "\<exists>st done'. flows room fs st done' \<and> st 0 = s0 \<and> pendOf (st (length fs)) = pend' \<and> ends s0 @ taken = concat (map done' [0..<length fs]) @ ends (st (length fs))"
  using assms
proof (induction fs arbitrary: s0 taken)
  case Nil
  then show ?case by (intro exI [of _ "\<lambda>_. s0"] exI [of _ "\<lambda>_. []"]) (auto simp: flows_def)
next
  case (Cons f fs)
  obtain t1 mid t2 where t: "takes room (pendOf s0) (fst f) (snd f) t1 mid" "streams room mid fs t2 pend'" "taken = t1 @ t2" using Cons.prems(1) by auto
  obtain d s1 where s1: "linked room s0 f d s1" "flow_ok s1" "pendOf s1 = mid" "ends s0 @ t1 = d @ ends s1"
    using takes_linked [OF t(1) Cons.prems(2)] by auto
  obtain st done' where i: "flows room fs st done'" "st 0 = s1" "pendOf (st (length fs)) = pend'" "ends s1 @ t2 = concat (map done' [0..<length fs]) @ ends (st (length fs))"
    using Cons.IH [of s1 t2] t(2) s1 by auto
  have "flows room (f # fs) (case_nat s0 st) (case_nat d done')"
    using i(1,2) s1(1) Cons.prems(2) by (auto simp: flows_def less_Suc_eq_0_disj le_Suc_eq split: nat.splits)
  moreover have "map (case_nat d done') [0..<length (f # fs)] = d # map done' [0..<length fs]"
    by (simp add: upt_conv_Cons map_Suc_upt [symmetric] comp_def del: upt_Suc)
  moreover have "ends s0 @ taken = d @ concat (map done' [0..<length fs]) @ ends (st (length fs))"
    using s1(4) i(4) t(3) by simp (metis append.assoc)
  ultimately show ?case using i(2,3) by (intro exI [of _ "case_nat s0 st"] exI [of _ "case_nat d done'"]) simp
qed

section \<open>Frames at the receiver\<close>

text \<open>The buffer with frame \<open>i\<close> as \<open>processFrame\<close> hands it to the list.\<close>

definition holds :: "(u16 \<times> bytes) list \<Rightarrow> nat \<Rightarrow> frameBuf \<Rightarrow> bool" where
  "holds fs i fb \<longleftrightarrow> fbSeq fb = of_nat i \<and> fbIndex fb = uint (fst (fs ! i)) \<and> fbLen fb = 16 + length (snd (fs ! i)) \<and> fbLen fb \<le> length (fbRaw fb)
     \<and> drop 16 (take (fbLen fb) (fbRaw fb)) = snd (fs ! i) \<and> frag0Start fb = 0 \<and> completePktsProcessed fb = (fst (fs ! i) = 0xffff)"

text \<open>A frame after its complete packets were processed: the start of the last packet is left in it.\<close>

definition started :: "(u16 \<times> bytes) list \<Rightarrow> nat \<Rightarrow> bytes \<Rightarrow> bytes \<Rightarrow> frameBuf \<Rightarrow> bool" where
  "started fs i tp rest fb \<longleftrightarrow> fbSeq fb = of_nat i \<and> fbLen fb \<le> length (fbRaw fb) \<and> completePktsProcessed fb
     \<and> (if tp = [] then frag0Start fb = 0
        else frag0Start fb = fbLen fb - length tp \<and> 16 \<le> frag0Start fb \<and> \<not> frag0Processed fb \<and> fbPktLen fb = length (tp @ rest) \<and> drop (frag0Start fb) (take (fbLen fb) (fbRaw fb)) = tp)"

lemma firstIndex_small:
  assumes "packs room pend ps tp rest" "room < 65520" "\<not> (ps = [] \<and> tp = [])"
  shows "uint (firstIndex pend ps tp) = int (length pend)" "firstIndex pend ps tp \<noteq> 0xffff" "length pend < 65520"
proof -
  show "length pend < 65520" using assms by (auto simp: packs_def)
  then have u: "uint (of_nat (length pend) :: u16) = int (length pend)" by (simp add: uint_nat unat_of_nat take_bit_nat_eq_self)
  then show "uint (firstIndex pend ps tp) = int (length pend)" using assms(3) by (auto simp: firstIndex_def)
  show "firstIndex pend ps tp \<noteq> 0xffff"
  proof
    assume "firstIndex pend ps tp = 0xffff"
    then have "uint (of_nat (length pend) :: u16) = uint (0xffff :: u16)" using assms(3) by (auto simp: firstIndex_def)
    then show False using u \<open>length pend < 65520\<close> by simp
  qed
qed

lemma process_outer:
  assumes "holds fs i fb" "outer room st (fs ! i) ps tp rest st'" "room < 65520"
  shows "\<exists>fb'. ProcessCompletePkts fb = Ok (ps, fb') \<and> started fs i tp rest fb' \<and> fragNProcessed fb' = fragNProcessed fb"
proof -
  have pk: "packs room (pendOf st) ps tp rest" and f: "fs ! i = (firstIndex (pendOf st) ps tp, pendOf st @ concat ps @ tp)" using assms(2) by (auto simp: outer_def)
  show ?thesis
  proof (cases "ps = [] \<and> tp = []")
    case True
    then show ?thesis using assms(1) f by (auto simp: ProcessCompletePkts_def holds_def firstIndex_def started_def)
  next
    case False
    note idx = firstIndex_small [OF pk assms(3) False]
    have len: "fbLen fb = 16 + length (pendOf st) + length (concat ps) + length tp" using assms(1) f by (simp add: holds_def)
    have raw: "fbLen fb \<le> length (fbRaw fb)" "drop 16 (take (fbLen fb) (fbRaw fb)) = pendOf st @ concat ps @ tp" using assms(1) f by (auto simp: holds_def)
    have d: "drop (16 + length (pendOf st)) (take (fbLen fb) (fbRaw fb)) = concat ps @ tp"
      using arg_cong [OF raw(2), of "drop (length (pendOf st))"] by (simp add: add.commute)
    obtain l where l: "pktLoop (fbRaw fb) (fbLen fb) (16 + length (pendOf st)) 0 = Ok (ps, Some (fbLen fb - length tp, l))" "tp \<noteq> [] \<longrightarrow> l = length (tp @ rest)"
      using pktLoop_packets [OF raw(1) d, of rest 0] pk len by (auto simp: packs_def split: if_splits)
    have n: "\<not> completePktsProcessed fb" "fbIndex fb \<noteq> 0xffff" "nat (fbIndex fb + int sigHdrSize) = 16 + length (pendOf st)" "frag0Start fb = 0" "fbSeq fb = of_nat i"
      using assms(1) f idx by (auto simp: holds_def sigHdrSize_def nat_add_distrib)
    show ?thesis
    proof (cases "tp = []")
      case True
      then show ?thesis using l n raw(1) by (simp add: ProcessCompletePkts_def started_def)
    next
      case tp: False
      have "drop (fbLen fb - length tp) (take (fbLen fb) (fbRaw fb)) = tp"
        using arg_cong [OF d, of "drop (length (concat ps))"] len by (simp add: add.commute add.left_commute)
      moreover have "fbLen fb - length tp < fbLen fb" using tp len by simp
      ultimately show ?thesis using l n raw(1) tp len by (simp add: ProcessCompletePkts_def started_def Let_def)
    qed
  qed
qed

text \<open>The list waits for the rest of the packet that starts in frame \<open>i\<close>; the frames up to \<open>j\<close> are there.\<close>

definition waiting :: "nat \<Rightarrow> (u16 \<times> bytes) list \<Rightarrow> (nat \<Rightarrow> flow) \<Rightarrow> frameBuf list \<Rightarrow> nat \<Rightarrow> nat \<Rightarrow> bool" where
  "waiting room fs st es i j \<longleftrightarrow> i \<le> j \<and> j < length fs
     \<and> (\<exists>tp rest fb0 others. es = fb0 # others \<and> tp \<noteq> [] \<and> started fs i tp rest fb0 \<and> st (Suc i) = Some (tp @ rest, length tp)
          \<and> list_all2 (holds fs) [Suc i..<Suc j] others \<and> (\<forall>m. i < m \<and> m \<le> j \<longrightarrow> inner room (st m) (fs ! m) (st (Suc m))))"

text \<open>Inner frames are passed over by the scan and collected completely.\<close>

lemma inner_holds:
  assumes "inner room st (fs ! i) st'" "st = Some (p, k)" "holds fs i fb"
  shows "st' = Some (p, k + room)" "k + room < length p" "fbLen fb = 16 + room" "fbIndex fb = 0xffff" "drop 16 (take (fbLen fb) (fbRaw fb)) = take room (drop k p)"
    and "completePktsProcessed fb" "frag0Start fb = 0" "fbLen fb \<le> length (fbRaw fb)"
  using assms by (auto simp: inner_def holds_def)

definition mark :: "frameBuf \<Rightarrow> frameBuf" where "mark fb = fb\<lparr>fragNProcessed := True\<rparr>"

lemma holds_mark [simp]: "holds fs i (mark fb) = holds fs i fb"
  by (cases fb) (simp add: holds_def mark_def)

lemma collect_inner:
  assumes "inner room (Some (p, k)) (fs ! i) st'" "holds fs i fb" "k \<le> length p"
  shows "collect (length p) (take k p) (fb # fbs) = mapR (\<lambda>(buf, seen, rest). (buf, mark fb # seen, rest)) (collect (length p) (take (k + room) p) fbs)"
proof -
  note h = inner_holds [OF assms(1) refl assms(2)]
  have "nat (intMin (int (length p) - int k + 16) (int (fbLen fb))) = 16 + room" using h(2,3) by (simp add: intMin_def)
  moreover have "slice (fbRaw fb) 16 (16 + room) = Ok (take room (drop k p))" using h(3,5,8) by (simp add: slice_def drop_take)
  moreover have "take k p @ take room (drop k p) = take (k + room) p" by (simp add: take_add)
  ultimately show ?thesis using h(2) assms(3) by (simp add: sigHdrSize_def mark_def min_def)
qed

lemma inner_run:
  assumes "list_all2 (holds fs) [a..<b] others" "a \<le> b" "\<forall>m. a \<le> m \<and> m < b \<longrightarrow> inner room (st m) (fs ! m) (st (Suc m))" "st a = Some (p, k)" "k \<le> length p"
  shows "\<exists>k'. st b = Some (p, k') \<and> k' = k + (b - a) * room \<and> k' \<le> length p
    \<and> scan (int (length p)) (int k) (others @ xs) = scan (int (length p)) (int k') xs
    \<and> collect (length p) (take k p) (others @ xs) = mapR (\<lambda>(buf, seen, rest). (buf, map mark others @ seen, rest)) (collect (length p) (take k' p) xs)
    \<and> (\<forall>fb \<in> set others. Processed (mark fb))"
  using assms
proof (induction others arbitrary: a k rule: list.induct)
  case Nil
  have "a = b" using list_all2_lengthD [OF Nil.prems(1)] Nil.prems(2) by simp
  then show ?case using Nil by (cases "collect (length p) (take k p) xs") auto
next
  case (Cons fb others)
  then have ab: "a < b" by (auto simp: list_all2_Cons2 upt_eq_Cons_conv)
  then have h: "holds fs a fb" "list_all2 (holds fs) [Suc a..<b] others" using Cons.prems(1) by (auto simp: upt_conv_Cons)
  have inn: "inner room (Some (p, k)) (fs ! a) (st (Suc a))" using Cons.prems(3,4) ab by (metis order_refl)
  note f = inner_holds [OF inn refl h(1)]
  obtain k' where k': "st b = Some (p, k')" "k' = k + room + (b - Suc a) * room" "k' \<le> length p"
      "scan (int (length p)) (int (k + room)) (others @ xs) = scan (int (length p)) (int k') xs"
      "collect (length p) (take (k + room) p) (others @ xs) = mapR (\<lambda>(buf, seen, rest). (buf, map mark others @ seen, rest)) (collect (length p) (take k' p) xs)"
      "\<forall>fb \<in> set others. Processed (mark fb)"
    using Cons.IH [OF h(2), of "k + room"] ab Cons.prems(3) f(1,2) by auto
  have "scan (int (length p)) (int k) (fb # others @ xs) = scan (int (length p)) (int (k + room)) (others @ xs)"
    using f(2,3,4) by (simp add: Let_def sigHdrSize_def)
  moreover have "collect (length p) (take k p) (fb # others @ xs) = mapR (\<lambda>(buf, seen, rest). (buf, map mark (fb # others) @ seen, rest)) (collect (length p) (take k' p) xs)"
    unfolding collect_inner [OF inn h(1) Cons.prems(5)] k'(5) by (cases "collect (length p) (take k' p) xs") auto
  moreover have "Processed (mark fb)" using f by (simp add: Processed_def mark_def)
  moreover have "k' = k + (b - a) * room" using k'(2) ab by (metis Suc_diff_Suc add.assoc mult_Suc)
  ultimately show ?case using k'(1,3,4,6) by (intro exI [of _ k']) (auto simp del: scan.simps collect.simps)
qed

lemma started_waiting: "started fs m tp rest fb \<Longrightarrow> tp \<noteq> [] \<Longrightarrow> st (Suc m) = Some (tp @ rest, length tp) \<Longrightarrow> m < length fs \<Longrightarrow> waiting room fs st [fb] m m"
  unfolding waiting_def by (intro conjI exI [of _ tp] exI [of _ rest] exI [of _ fb] exI [of _ "[]"]) auto

text \<open>The list after frame \<open>m\<close>: empty when no packet is cut, and waiting otherwise.\<close>

definition tracks :: "nat \<Rightarrow> (u16 \<times> bytes) list \<Rightarrow> (nat \<Rightarrow> flow) \<Rightarrow> frameBuf list \<Rightarrow> nat \<Rightarrow> bool" where
  "tracks room fs st es m \<longleftrightarrow> (if st (Suc m) = None then es = [] else \<exists>i. waiting room fs st es i m)"

lemma insertFirst_frame:
  assumes "linked room (st m) (fs ! m) d (st (Suc m))" "holds fs m fb" "room < 65520" "m < length fs" "rlEntries l = []"
  shows "\<exists>l' sent rel. insertFirst l fb = Ok (l', sent, rel) \<and> rlCapacity l' = rlCapacity l \<and> set sent \<subseteq> set d
    \<and> (rlEntries l' = [] \<or> tracks room fs st (rlEntries l') m) \<and> (st m = None \<longrightarrow> sent = d \<and> tracks room fs st (rlEntries l') m)"
  using assms(1) unfolding linked_def
proof (elim disjE exE conjE)
  assume a: "inner room (st m) (fs ! m) (st (Suc m))" "d = []"
  then obtain p k where st: "st m = Some (p, k)" by (auto simp: inner_def)
  note h = inner_holds [OF a(1) st assms(2)]
  show ?thesis using h st assms(5) by (simp add: insertFirst_def ProcessCompletePkts_def)
next
  fix ps tp rest
  assume a: "outer room (st m) (fs ! m) ps tp rest (st (Suc m))" "d = ends (st m) @ ps"
  obtain fb' where fb: "ProcessCompletePkts fb = Ok (ps, fb')" "started fs m tp rest fb'" using process_outer [OF assms(2) a(1) assms(3)] by blast
  have st': "st (Suc m) = (if tp = [] then None else Some (tp @ rest, length tp))" using a(1) by (simp add: outer_def)
  have z: "frag0Start fb' = 0 \<longleftrightarrow> tp = []" using fb(2) by (auto simp: started_def split: if_splits)
  show ?thesis
  proof (cases "tp = []")
    case True
    then show ?thesis using fb z st' a(2) assms(5) by (auto simp: insertFirst_def tracks_def ends_def)
  next
    case False
    have "waiting room fs st [fb'] m m" using started_waiting [OF fb(2) False] st' False assms(4) by simp
    then show ?thesis using fb z st' a(2) assms(5) False by (auto simp: insertFirst_def tracks_def ends_def)
  qed
qed

text \<open>The next frame arrives at a list that waits for it.\<close>

lemma append_frame:
  assumes "waiting room fs st (rlEntries l) i j" "linked room (st (Suc j)) (fs ! Suc j) d (st (Suc (Suc j)))" "holds fs (Suc j) fb" "room < 65520" "Suc j < length fs" and flow_ok: "\<And>p k. st (Suc j) = Some (p, k) \<Longrightarrow> k < length p"
  shows "\<exists>l' rel. tryReassemble (l\<lparr>rlEntries := rlEntries l @ [fb]\<rparr>) = Ok (l', d, rel) \<and> rlCapacity l' = rlCapacity l \<and> tracks room fs st (rlEntries l') (Suc j)"
proof -
  obtain tp rest fb0 others where w: "rlEntries l = fb0 # others" "tp \<noteq> []" "started fs i tp rest fb0" "st (Suc i) = Some (tp @ rest, length tp)"
      "list_all2 (holds fs) [Suc i..<Suc j] others" "i \<le> j" "\<forall>m. i < m \<and> m \<le> j \<longrightarrow> inner room (st m) (fs ! m) (st (Suc m))"
    using assms(1) by (auto simp: waiting_def)
  define p where "p = tp @ rest"
  have tk: "take (length tp) p = tp" "length tp \<le> length p" by (auto simp: p_def)
  have w0: "frag0Start fb0 \<noteq> 0" "fbPktLen fb0 = length p" "frag0Start fb0 \<le> fbLen fb0" "int (fbLen fb0) - int (frag0Start fb0) = int (length tp)"
      "slice (fbRaw fb0) (frag0Start fb0) (fbLen fb0) = Ok tp"
  proof -
    have s: "frag0Start fb0 = fbLen fb0 - length tp" "16 \<le> frag0Start fb0" "fbPktLen fb0 = length p" "drop (frag0Start fb0) (take (fbLen fb0) (fbRaw fb0)) = tp" "fbLen fb0 \<le> length (fbRaw fb0)"
      using w(2,3) by (auto simp: started_def p_def)
    then show "frag0Start fb0 \<noteq> 0" "fbPktLen fb0 = length p" "frag0Start fb0 \<le> fbLen fb0" "int (fbLen fb0) - int (frag0Start fb0) = int (length tp)" by auto
    show "slice (fbRaw fb0) (frag0Start fb0) (fbLen fb0) = Ok tp" using s by (simp add: slice_def take_drop)
  qed
  obtain k' where k': "st (Suc j) = Some (p, k')" "k' \<le> length p"
      "scan (int (length p)) (int (length tp)) (others @ [fb]) = scan (int (length p)) (int k') [fb]"
      "collect (length p) tp (others @ [fb]) = mapR (\<lambda>(buf, seen, rest). (buf, map mark others @ seen, rest)) (collect (length p) (take k' p) [fb])"
      "\<forall>fb \<in> set others. Processed (mark fb)"
    using inner_run [OF w(5), of room st p "length tp" "[fb]"] w(4,6,7) tk by (auto simp: p_def)
  show ?thesis
    using assms(2) unfolding linked_def
  proof (elim disjE exE conjE)
    assume a: "inner room (st (Suc j)) (fs ! Suc j) (st (Suc (Suc j)))" "d = []"
    note h = inner_holds [OF a(1) k'(1) assms(3)]
    have "waiting room fs st (rlEntries l @ [fb]) i (Suc j)"
      unfolding waiting_def
    proof (intro conjI exI)
      show "list_all2 (holds fs) [Suc i..<Suc (Suc j)] (others @ [fb])" using w(5,6) assms(3) by (simp add: list_all2_appendI)
      show "\<forall>m. i < m \<and> m \<le> Suc j \<longrightarrow> inner room (st m) (fs ! m) (st (Suc m))" using w(7) a(1) by (auto simp: le_Suc_eq)
    qed (use w assms(5) in auto)
    moreover have "scan (int (length p)) (int k') [fb] = (False, False)" using h by (simp add: Let_def sigHdrSize_def)
    ultimately show ?thesis using w w0 k'(3) h(1) a(2) by (auto simp: tryReassemble_def Let_def tracks_def)
  next
    fix ps tp' rest'
    assume a: "outer room (st (Suc j)) (fs ! Suc j) ps tp' rest' (st (Suc (Suc j)))" "d = ends (st (Suc j)) @ ps"
    have pend: "pendOf (st (Suc j)) = drop k' p" using k'(1) by (simp add: pendOf_def)
    have pk: "fs ! Suc j = (firstIndex (drop k' p) ps tp', drop k' p @ concat ps @ tp')" and st': "st (Suc (Suc j)) = (if tp' = [] then None else Some (tp' @ rest', length tp'))"
      using a(1) by (auto simp: outer_def pend)
    have h: "fbLen fb = 16 + (length p - k') + length (concat ps @ tp')" "fbLen fb \<le> length (fbRaw fb)" "drop 16 (take (fbLen fb) (fbRaw fb)) = drop k' p @ concat ps @ tp'"
      using assms(3) pk by (auto simp: holds_def)
    have k'l: "k' < length p" using k'(1) flow_ok by simp
    have sc: "scan (int (length p)) (int k') [fb] = (True, False)" using h(1) k'(2) by (simp add: Let_def sigHdrSize_def)
    have co: "collect (length p) (take k' p) [fb] = Ok (p, [mark fb], [])"
    proof -
      have "nat (intMin (int (length p) - int k' + 16) (int (fbLen fb))) = 16 + (length p - k')" using h(1) k'(2) by (auto simp: intMin_def)
      moreover have "slice (fbRaw fb) 16 (16 + (length p - k')) = Ok (drop k' p)"
      proof -
        have "take (length p - k') (drop 16 (take (fbLen fb) (fbRaw fb))) = drop k' p" unfolding h(3) by simp
        then show ?thesis using h(1,2) by (simp add: slice_def drop_take min_def)
      qed
      ultimately show ?thesis using k'l by (simp add: sigHdrSize_def mark_def)
    qed
    have hm: "holds fs (Suc j) (mark fb)" using assms(3) by simp
    obtain fb' where fb': "ProcessCompletePkts (mark fb) = Ok (ps, fb')" "started fs (Suc j) tp' rest' fb'" "fragNProcessed fb'"
      using process_outer [OF hm a(1) assms(4)] by (auto simp: mark_def)
    have z: "Processed fb' \<longleftrightarrow> tp' = []" using fb'(2,3) by (auto simp: started_def Processed_def split: if_splits)
    have all: "filter (\<lambda>fb. \<not> Processed fb) (SetProcessed fb0 # map mark others @ [fb']) = (if tp' = [] then [] else [fb'])"
      using k'(5) z by (auto simp: SetProcessed_def Processed_def filter_empty_conv)
    have "collectAndWrite (l\<lparr>rlEntries := rlEntries l @ [fb]\<rparr>) = Ok (l\<lparr>rlEntries := (if tp' = [] then [] else [fb'])\<rparr>, p # ps, map frameBuf_Reset (filter Processed (SetProcessed fb0 # map mark others @ [fb'])))"
      using w(1) w0 k'(4) co fb'(1) all by (simp add: collectAndWrite_def removeProcessed_def Let_def)
    then have t: "tryReassemble (l\<lparr>rlEntries := rlEntries l @ [fb]\<rparr>) = Ok (l\<lparr>rlEntries := (if tp' = [] then [] else [fb'])\<rparr>, p # ps, map frameBuf_Reset (filter Processed (SetProcessed fb0 # map mark others @ [fb'])))"
      using w(1) w0 k'(3) sc by (simp add: tryReassemble_def Let_def)
    have "tracks room fs st (if tp' = [] then [] else [fb']) (Suc j)"
      using st' started_waiting [OF fb'(2), of st room] assms(5) by (auto simp: tracks_def)
    then show ?thesis using t a(2) k'(1) by (auto simp: ends_def)
  qed
qed

section \<open>Insertion into the list\<close>

definition rl_inv :: "nat \<Rightarrow> (u16 \<times> bytes) list \<Rightarrow> (nat \<Rightarrow> flow) \<Rightarrow> frameBuf list \<Rightarrow> bool" where
  "rl_inv room fs st es \<longleftrightarrow> es = [] \<or> (\<exists>i j. waiting room fs st es i j)"

lemma tracks_inv: "tracks room fs st es m \<Longrightarrow> rl_inv room fs st es"
  by (auto simp: tracks_def rl_inv_def split: if_splits)

lemma waiting_ends:
  assumes "waiting room fs st es i j"
  shows "es \<noteq> []" "fbSeq (hd es) = of_nat i" "fbSeq (last es) = of_nat j" "length es = Suc (j - i)" "i \<le> j" "j < length fs"
proof -
  obtain tp rest fb0 others where w: "es = fb0 # others" "started fs i tp rest fb0" "list_all2 (holds fs) [Suc i..<Suc j] others" "i \<le> j" "j < length fs"
    using assms by (auto simp: waiting_def)
  show "es \<noteq> []" "fbSeq (hd es) = of_nat i" "i \<le> j" "j < length fs" using w by (auto simp: started_def)
  have l: "length others = j - i" using list_all2_lengthD [OF w(3)] by (simp del: upt_Suc)
  then show "length es = Suc (j - i)" using w(1) by simp
  show "fbSeq (last es) = of_nat j"
  proof (cases "others = []")
    case True
    then show ?thesis using w l by (auto simp: started_def)
  next
    case False
    have "holds fs ([Suc i..<Suc j] ! (j - i - 1)) (others ! (j - i - 1))" by (intro list_all2_nthD2 [OF w(3)]) (use False l in \<open>cases others; simp\<close>)
    moreover have "i < j" using False l w(4) by (cases others) auto
    then have "[Suc i..<Suc j] ! (j - i - 1) = j" by (subst nth_upt) (auto simp del: upt_Suc)
    ultimately have "fbSeq (others ! (j - i - 1)) = of_nat j" by (simp add: holds_def)
    then show ?thesis using w(1) False l by (simp add: last_conv_nth)
  qed
qed

lemma of_nat_word_less: "a < 2 ^ 64 \<Longrightarrow> b < 2 ^ 64 \<Longrightarrow> (of_nat a :: u64) < of_nat b \<longleftrightarrow> a < b"
  by (simp add: word_less_nat_alt unat_of_nat take_bit_nat_eq_self)

lemma of_nat_word_le: "a < 2 ^ 64 \<Longrightarrow> b < 2 ^ 64 \<Longrightarrow> (of_nat a :: u64) \<le> of_nat b \<longleftrightarrow> a \<le> b"
  by (simp add: word_le_nat_alt unat_of_nat take_bit_nat_eq_self)

text \<open>A frame at a list that waits: it is dropped, or the list starts again with it, or it is the next one.\<close>

lemma Insert_waiting:
  assumes "waiting room fs st (rlEntries l) i j" "holds fs m fb" "m < length fs" "length fs < 2 ^ 64"
  shows "Insert l fb =
    (if m \<le> j then Ok (l, [], [frameBuf_Reset fb])
     else if Suc j < m \<or> Suc (j - i) = rlCapacity l
     then mapR (\<lambda>(l', sent, rel). (l', sent, map frameBuf_Reset (rlEntries l) @ rel)) (insertFirst (l\<lparr>rlEntries := []\<rparr>) fb)
     else tryReassemble (l\<lparr>rlEntries := rlEntries l @ [fb]\<rparr>))"
proof -
  note e = waiting_ends [OF assms(1)]
  have s: "fbSeq fb = of_nat m" using assms(2) by (simp add: holds_def)
  have b: "i < 2 ^ 64" "j < 2 ^ 64" "m < 2 ^ 64" "Suc j < 2 ^ 64" using e(5,6) assms(3,4) by linarith+
  have "fbSeq fb > fbSeq (last (rlEntries l)) + 1 \<longleftrightarrow> Suc j < m" using e(3) s of_nat_word_less [OF b(4,3)] by (simp add: add.commute)
  moreover have "fbSeq fb < fbSeq (hd (rlEntries l)) \<longleftrightarrow> m < i" "fbSeq (hd (rlEntries l)) \<le> fbSeq fb \<longleftrightarrow> i \<le> m" "fbSeq fb \<le> fbSeq (last (rlEntries l)) \<longleftrightarrow> m \<le> j"
    using e(2,3) s of_nat_word_less [OF b(3,1)] of_nat_word_le [OF b(1,3)] of_nat_word_le [OF b(3,2)] by auto
  ultimately show ?thesis using e(1,4,5) by (auto simp: Insert_def Let_def removeAll_def)
qed

text \<open>Whatever frame of the stream arrives, only packets that were sent come out, and the list keeps its invariant.\<close>

lemma Insert_any:
  assumes "flows room fs st done'" "room < 65520" "length fs < 2 ^ 64" "rl_inv room fs st (rlEntries l)" "holds fs m fb" "m < length fs"
  shows "\<exists>l' sent rel. Insert l fb = Ok (l', sent, rel) \<and> rl_inv room fs st (rlEntries l') \<and> rlCapacity l' = rlCapacity l \<and> set sent \<subseteq> set (done' m)"
proof -
  have lk: "linked room (st m) (fs ! m) (done' m) (st (Suc m))" using assms(1,6) by (simp add: flows_def)
  have first: "\<exists>l' sent rel. insertFirst l0 fb = Ok (l', sent, rel) \<and> rl_inv room fs st (rlEntries l') \<and> rlCapacity l' = rlCapacity l0 \<and> set sent \<subseteq> set (done' m)"
    if "rlEntries l0 = []" for l0
    using insertFirst_frame [OF lk assms(5,2,6) that] tracks_inv by (fastforce simp: rl_inv_def)
  show ?thesis
  proof (cases "rlEntries l = []")
    case True
    then show ?thesis using first [OF True] by (simp add: Insert_def)
  next
    case False
    then obtain i j where w: "waiting room fs st (rlEntries l) i j" using assms(4) by (auto simp: rl_inv_def)
    note ins = Insert_waiting [OF w assms(5,6,3)]
    consider "m \<le> j" | "\<not> m \<le> j" "Suc j < m \<or> Suc (j - i) = rlCapacity l" | "m = Suc j" "Suc (j - i) \<noteq> rlCapacity l" by linarith
    then show ?thesis
    proof cases
      case 1
      then show ?thesis using ins assms(4) by auto
    next
      case 2
      then show ?thesis using ins first [of "l\<lparr>rlEntries := []\<rparr>"] by auto
    next
      case 3
      have fo: "k < length p" if "st (Suc j) = Some (p, k)" for p k
      proof -
        have "flow_ok (st (Suc j))" using assms(1,6) 3(1) by (auto simp: flows_def)
        then show ?thesis using that by (simp add: flow_ok_def)
      qed
      obtain l' rel where "tryReassemble (l\<lparr>rlEntries := rlEntries l @ [fb]\<rparr>) = Ok (l', done' m, rel)" "rlCapacity l' = rlCapacity l" "tracks room fs st (rlEntries l') (Suc j)"
        using append_frame [OF w, of "done' m" fb] lk assms(2,5,6) 3(1) fo by auto
      then show ?thesis using ins 3 tracks_inv by auto
    qed
  qed
qed

text \<open>The next frame of a stream that arrives in order is used completely, unless the list is full.\<close>

lemma Insert_next:
  assumes "flows room fs st done'" "room < 65520" "length fs < 2 ^ 64" "holds fs m fb" "m < length fs"
    and "m = 0 \<and> st 0 = None \<and> rlEntries l = [] \<or> (\<exists>n. m = Suc n \<and> tracks room fs st (rlEntries l) n)"
    and "\<And>p k. st m = Some (p, k) \<Longrightarrow> length p \<le> 40 + (rlCapacity l - 1) * room" "0 < rlCapacity l"
  shows "\<exists>l' rel. Insert l fb = Ok (l', done' m, rel) \<and> tracks room fs st (rlEntries l') m \<and> rlCapacity l' = rlCapacity l"
proof -
  have lk: "linked room (st m) (fs ! m) (done' m) (st (Suc m))" using assms(1,5) by (simp add: flows_def)
  show ?thesis
  proof (cases "st m = None")
    case True
    then have "rlEntries l = []" using assms(6) by (auto simp: tracks_def split: if_splits)
    then show ?thesis using insertFirst_frame [OF lk assms(4,2,5), of l] True by (fastforce simp: Insert_def)
  next
    case False
    then obtain n i where n: "m = Suc n" "waiting room fs st (rlEntries l) i n" using assms(6) by (auto simp: tracks_def split: if_splits)
    note ins = Insert_waiting [OF n(2) assms(4,5,3)]
    obtain tp rest others where w: "st (Suc i) = Some (tp @ rest, length tp)" "list_all2 (holds fs) [Suc i..<Suc n] others" "i \<le> n" "\<forall>m. i < m \<and> m \<le> n \<longrightarrow> inner room (st m) (fs ! m) (st (Suc m))"
      using n(2) by (auto simp: waiting_def)
    obtain k' where k': "st m = Some (tp @ rest, k')" "k' = length tp + (n - i) * room"
      using inner_run [of fs "Suc i" "Suc n" others room st "tp @ rest" "length tp" "[]"] w n(1) by auto
    have fo: "flow_ok (st m)" "flow_ok (st (Suc i))" using assms(1,5) w(3) n(1) by (auto simp: flows_def)
    then have "k' < length (tp @ rest)" "40 \<le> length tp" using k'(1) w(1) by (auto simp: flow_ok_def)
    then have "(n - i) * room < (rlCapacity l - 1) * room" using assms(7) [OF k'(1)] k'(2) by linarith
    then have c: "Suc (n - i) \<noteq> rlCapacity l" by auto
    have "\<And>p k. st (Suc n) = Some (p, k) \<Longrightarrow> k < length p" using fo(1) n(1) by (simp add: flow_ok_def)
    then show ?thesis using append_frame [OF n(2), of "done' m" fb] lk assms(2,4,5) n(1) ins c by auto
  qed
qed

section \<open>From the wire into the list\<close>

text \<open>\<open>IngressServer.read\<close> for one frame: the buffer it was read into, unless the frame is too short or of an unknown version.\<close>

definition received :: "frameBuf \<Rightarrow> bytes \<Rightarrow> frameBuf option" where
  "received fb frame =
    (let raw = copy_at 0 frame (fbRaw fb) in
     if length frame < sigHdrSize then None
     else if raw ! 0 \<noteq> 0 then None
     else Some (fb\<lparr>fbRaw := raw, fbLen := length frame, fbSess := raw ! 1\<rparr>))"

text \<open>A buffer of the pool.\<close>

definition fresh :: "frameBuf \<Rightarrow> bool" where
  "fresh fb \<longleftrightarrow> frag0Start fb = 0 \<and> length (fbRaw fb) = frameBufCap"

lemma header_fields:
  assumes "length (mkFrame sess stream seq index payload) \<le> length raw" "raw' = copy_at 0 (mkFrame sess stream seq index payload) raw"
  shows "take 2 (drop 2 raw') = put_u16 index" "take 4 (drop 4 raw') = put_u32 (stream AND 0xfffff)" "take 8 (drop 8 raw') = put_u64 seq"
    and "raw' ! 0 = 0" "drop 16 (take (16 + length payload) raw') = payload"
proof -
  show "take 2 (drop 2 raw') = put_u16 index" "take 4 (drop 4 raw') = put_u32 (stream AND 0xfffff)" "take 8 (drop 8 raw') = put_u64 seq" "raw' ! 0 = 0"
    using assms by (simp_all add: copy_at_0 mkFrame_def)
  obtain h where "mkFrame sess stream seq index payload = h @ payload" "length h = 16" by (simp add: mkFrame_def)
  then show "drop 16 (take (16 + length payload) raw') = payload" using assms by (simp add: copy_at_0)
qed

lemma received_mkFrame:
  assumes "fresh fb" "fs ! i = (index, payload)" "16 + length payload \<le> frameBufCap"
  shows "\<exists>fb'. received fb (mkFrame sess stream (of_nat i) index payload) = Some fb' \<and> holds fs i (frameMeta fb') \<and> frameEpoch fb' = stream AND 0xfffff \<and> 16 \<le> length (fbRaw fb')"
proof -
  define f where "f = mkFrame sess stream (of_nat i) index payload"
  have len: "length f = 16 + length payload" by (simp add: f_def mkFrame_def)
  have l: "length f \<le> length (fbRaw fb)" using assms(1,3) len by (simp add: fresh_def)
  note h = header_fields [of sess stream "of_nat i" index payload "fbRaw fb", OF l [unfolded f_def] refl, folded f_def]
  define fb' where "fb' = fb\<lparr>fbRaw := copy_at 0 f (fbRaw fb), fbLen := length f, fbSess := copy_at 0 f (fbRaw fb) ! 1\<rparr>"
  have r: "received fb f = Some fb'" using len h(4) by (simp add: received_def sigHdrSize_def Let_def fb'_def)
  have raw: "length (copy_at 0 f (fbRaw fb)) = frameBufCap" using l assms(1) by (simp add: fresh_def)
  have u: "be_u16 (put_u16 index) = index" "be_u32 (put_u32 (stream AND 0xfffff)) = stream AND 0xfffff" "be_u64 (put_u64 (of_nat i)) = of_nat i"
    using be_u16_put [of index "[]"] be_u32_put [of "stream AND 0xfffff" "[]"] be_u64_put [of "of_nat i" "[]"] by simp_all
  have "(uint index = 0xffff) = (index = 0xffff)" by (simp add: word_uint_eq_iff)
  then have "holds fs i (frameMeta fb')" using assms(1,2) h u len raw l by (simp add: holds_def frameMeta_def Let_def fb'_def fresh_def)
  moreover have "frameEpoch fb' = stream AND 0xfffff" using h(2) u by (simp add: frameEpoch_def fb'_def)
  ultimately show ?thesis using r raw assms(3) by (auto simp: f_def fb'_def)
qed

lemma numbered_nth: "i < length fs \<Longrightarrow> numbered sess stream seq fs ! i = mkFrame sess stream (seq + of_nat i) (fst (fs ! i)) (snd (fs ! i))"
  by (induction fs arbitrary: i seq) (auto simp: less_Suc_eq_0_disj add.assoc)

lemma length_numbered [simp]: "length (numbered sess stream seq fs) = length fs"
  by (induction fs arbitrary: seq) auto

lemma getRlist_upd [simp]: "rlEntries (getRlist (w(ep \<mapsto> l)) ep) = rlEntries l" "rlCapacity (getRlist (w(ep \<mapsto> l)) ep) = rlCapacity l"
  by (simp_all add: getRlist_def)

text \<open>Frames of one stream that arrive at a worker, in any order.\<close>

lemma processFrames_any:
  assumes "flows room fs st done'" "room < 65520" "length fs < 2 ^ 64"
    and "list_all2 (\<lambda>i fb. i < length fs \<and> holds fs i (frameMeta fb) \<and> frameEpoch fb = ep \<and> 16 \<le> length (fbRaw fb)) ks fbs"
    and "rl_inv room fs st (rlEntries (getRlist w ep))"
  shows "\<exists>w' sent rel. processFrames w fbs = Ok (w', sent, rel) \<and> set sent \<subseteq> (\<Union>i < length fs. set (done' i))"
  using assms(4,5)
proof (induction arbitrary: w rule: list_all2_induct)
  case (Cons i ks fb fbs)
  obtain l' sent rel where l: "Insert (getRlist w ep) (frameMeta fb) = Ok (l', sent, rel)" "rl_inv room fs st (rlEntries l')" "set sent \<subseteq> set (done' i)"
    using Insert_any [OF assms(1,2,3) Cons.prems, of i "frameMeta fb"] Cons.hyps(1) by auto
  obtain w' sent' rel' where "processFrames (w(ep \<mapsto> l')) fbs = Ok (w', sent', rel')" "set sent' \<subseteq> (\<Union>i < length fs. set (done' i))"
    using Cons.IH [of "w(ep \<mapsto> l')"] l(2) by (auto simp del: fun_upd_apply)
  moreover have "processFrame w fb = Ok (w(ep \<mapsto> l'), sent, rel)" using l(1) Cons.hyps(1) by (simp add: processFrame_def)
  ultimately show ?case using l(3) Cons.hyps(1) by auto
qed simp

text \<open>Frames that arrive in order, from frame \<open>m\<close> on.\<close>

lemma processFrames_ordered:
  assumes "flows room fs st done'" "room < 65520" "length fs < 2 ^ 64" "st 0 = None" "\<And>i p k. st i = Some (p, k) \<Longrightarrow> i \<le> length fs \<Longrightarrow> length p \<le> 40 + 99 * room"
    and "list_all2 (\<lambda>i fb. holds fs i (frameMeta fb) \<and> frameEpoch fb = ep \<and> 16 \<le> length (fbRaw fb)) [m..<length fs] fbs" "m \<le> length fs"
    and "m = 0 \<and> rlEntries (getRlist w ep) = [] \<or> (\<exists>n. m = Suc n \<and> tracks room fs st (rlEntries (getRlist w ep)) n)" "rlCapacity (getRlist w ep) = 100"
  shows "\<exists>w' rel. processFrames w fbs = Ok (w', concat (map done' [m..<length fs]), rel)"
  using assms(6-)
proof (induction fbs arbitrary: m w rule: list.induct)
  case Nil
  have "m = length fs" using list_all2_lengthD [OF Nil.prems(1)] Nil.prems(2) by simp
  then show ?case by simp
next
  case (Cons fb fbs)
  then have m: "m < length fs" by (auto simp: list_all2_Cons2 upt_eq_Cons_conv)
  then have h: "holds fs m (frameMeta fb)" "frameEpoch fb = ep" "16 \<le> length (fbRaw fb)"
      "list_all2 (\<lambda>i fb. holds fs i (frameMeta fb) \<and> frameEpoch fb = ep \<and> 16 \<le> length (fbRaw fb)) [Suc m..<length fs] fbs"
    using Cons.prems(1) by (auto simp: upt_conv_Cons)
  obtain l' rel where l: "Insert (getRlist w ep) (frameMeta fb) = Ok (l', done' m, rel)" "tracks room fs st (rlEntries l') m" "rlCapacity l' = 100"
    using Insert_next [OF assms(1,2,3) h(1) m, of "getRlist w ep"] Cons.prems(3,4) assms(4,5) m by auto
  obtain w' rel' where "processFrames (w(ep \<mapsto> l')) fbs = Ok (w', concat (map done' [Suc m..<length fs]), rel')"
    using Cons.IH [OF h(4), of "w(ep \<mapsto> l')"] m l(2,3) by (auto simp del: fun_upd_apply)
  moreover have "processFrame w fb = Ok (w(ep \<mapsto> l'), done' m, rel)" using l(1) h(2,3) by (simp add: processFrame_def)
  ultimately show ?case using m by (simp add: upt_conv_Cons)
qed

end
