(* ===== verification/Sig.thy ===== *)
theory Sig
  imports SigFlow
begin

text \<open>The gateway from the sender to the receiver: what the remote gateway writes to its tunnel device.\<close>

definition arrive :: "frameBuf list \<Rightarrow> bytes list \<Rightarrow> frameBuf list" where
  "arrive bufs frames = List.map_filter (\<lambda>(fb, f). received fb f) (zip bufs frames)"

lemma newSender_cap:
  assumes "newSender sess ll rl mtu raw now = Ok e"
  shows "57 \<le> encCap e" "encCap e < 65520 + 16" "encSeq e = 0" "encPkt e = []" "encRing e = newPktRing"
proof -
  obtain r where r: "raw = Some r" using assms by (cases raw) (auto simp: newSender_def)
  define m where "m = uint mtu - CmnHdrLen - (16 + int ll + int rl) - int (length r) - udpHdrLen"
  have m: "\<not> m < minMTU" "e = newEncoder sess (NewStreamID now) (of_int m)" using assms r by (auto simp: newSender_def Let_def m_def split: if_splits)
  have b: "57 \<le> m" "m < 65520" using m(1) uint_lt2p [of mtu] by (auto simp: minMTU_def hdrLen_def m_def CmnHdrLen_def udpHdrLen_def)
  have "uint (of_int m :: u16) = m" using b by (simp add: unsigned_of_int take_bit_int_eq_self)
  then have "unat (of_int m :: u16) = nat m" by (simp flip: nat_uint_eq)
  then show "57 \<le> encCap e" "encCap e < 65520 + 16" "encSeq e = 0" "encPkt e = []" "encRing e = newPktRing" using m(2) b by (simp_all add: newEncoder_def)
qed

lemma payload_bound: "linked room st f d st' \<Longrightarrow> length (snd f) \<le> room"
  by (auto simp: linked_def inner_def outer_def packs_def)

text \<open>A packet that is being sent is among those that come out or are pending.\<close>

lemma flow_packet:
  assumes "flows room fs st done'" "i \<le> length fs" "st i = Some (p, k)"
  shows "p \<in> set (concat (map done' [0..<length fs]) @ ends (st (length fs)))"
  using assms(2,3)
proof (induction arbitrary: k rule: inc_induct)
  case base
  then show ?case by (simp add: ends_def)
next
  case (step n)
  have "linked room (st n) (fs ! n) (done' n) (st (Suc n))" using assms(1) step.hyps by (simp add: flows_def)
  then consider "st (Suc n) = Some (p, k + room)" | "p \<in> set (done' n)" using step.prems by (auto simp: linked_def inner_def ends_def)
  then show ?case using step.IH step.hyps(2) by cases auto
qed

text \<open>The frames of a sender.\<close>

lemma sender_frames:
  assumes "newSender sess ll rl mtu raw now = Ok e" "sender_run n e env = Ok (frames, e', env', rs, ws)"
  shows "\<exists>fs st done'. frames = numbered (encSession e) (encStream e) 0 fs \<and> length fs \<le> n \<and> flows (encCap e - 16) fs st done' \<and> st 0 = None
    \<and> pendOf (st (length fs)) = encPkt e' \<and> filter validPkt rs = concat (map done' [0..<length fs]) @ ends (st (length fs))
    \<and> map Some ws = map Some rs @ pr_contents (encRing e')"
proof -
  note e = newSender_cap [OF assms(1)]
  have ok: "pktRing_ok (encRing e)" "hdrLen \<le> encCap e" using e newPktRing_ok by (auto simp: hdrLen_def)
  obtain fs where fs: "frames = numbered (encSession e) (encStream e) 0 fs" "streams (encCap e - 16) [] fs (filter validPkt rs) (encPkt e')" "length fs \<le> n"
      "map Some ws = map Some rs @ pr_contents (encRing e')"
    using sender_run_post [OF ok assms(2)] e newPktRing_ok by (auto simp: hdrLen_def)
  have "pendOf None = []" "flow_ok None" "ends None = []" by (auto simp: pendOf_def flow_ok_def ends_def)
  then show ?thesis using streams_flows [of "encCap e - 16" None fs "filter validPkt rs" "encPkt e'"] fs by (metis append_Nil)
qed

text \<open>Each frame is taken into a buffer that holds it.\<close>

lemma arrive_holds:
  assumes "list_all fresh bufs" "length bufs = length ks" "\<forall>i \<in> set ks. i < length fs \<and> 16 + length (snd (fs ! i)) \<le> frameBufCap"
  shows "list_all2 (\<lambda>i fb. i < length fs \<and> holds fs i (frameMeta fb) \<and> frameEpoch fb = stream AND 0xfffff \<and> 16 \<le> length (fbRaw fb)) ks
     (arrive bufs (map ((!) (numbered sess stream 0 fs)) ks))"
  using assms
proof (induction ks arbitrary: bufs)
  case (Cons i ks)
  obtain b bs where b: "bufs = b # bs" "fresh b" "list_all fresh bs" "length bs = length ks" using Cons.prems(1,2) by (cases bufs) auto
  obtain fb where fb: "received b (mkFrame sess stream (of_nat i) (fst (fs ! i)) (snd (fs ! i))) = Some fb" "holds fs i (frameMeta fb)" "frameEpoch fb = stream AND 0xfffff" "16 \<le> length (fbRaw fb)"
    using received_mkFrame [OF b(2), of fs i "fst (fs ! i)" "snd (fs ! i)" sess stream] Cons.prems(3) by auto
  have "arrive bufs (map ((!) (numbered sess stream 0 fs)) (i # ks)) = fb # arrive bs (map ((!) (numbered sess stream 0 fs)) ks)"
    using b(1) fb(1) Cons.prems(3) by (simp add: arrive_def map_filter_simps numbered_nth)
  then show ?case using Cons.IH [OF b(3,4)] Cons.prems(3) fb by simp
qed (simp add: arrive_def map_filter_simps)

text \<open>C14: A remote gateway that receives the frames of a sender in order writes exactly the valid IP packets the sender has taken from its ring,
  unchanged, each once and in their order; only a packet of which a part is still to be sent is missing. The packets taken and those still in
  the ring are the packets the ring has accepted. Packets may be cut over up to a hundred frames, which every packet of at most
  \<open>40 + 99 * (encCap e - hdrLen)\<close> bytes is; no frame is larger than the path allows; nothing panics.
\<close>

theorem sig_roundtrip:
  assumes "newSender sess ll rl mtu raw now = Ok e" "sender_run n e env = Ok (frames, e', env', rs, ws)" "n < 2 ^ 64"
    and "\<forall>p \<in> set rs. length p \<le> 40 + 99 * (encCap e - hdrLen)" "list_all fresh bufs" "length bufs = length frames"
  shows "\<exists>w sent rel pend. processFrames Map.empty (arrive bufs frames) = Ok (w, sent, rel) \<and> filter validPkt rs = sent @ pend
    \<and> (if encPkt e' = [] then pend = [] else \<exists>p k. pend = [p] \<and> encPkt e' = drop k p)
    \<and> map Some ws = map Some rs @ pr_contents (encRing e') \<and> (\<forall>f \<in> set frames. length f \<le> encCap e)"
proof -
  define room where "room = encCap e - 16"
  have room: "room < 65520" "16 + room = encCap e" "room \<le> frameBufCap - 16" "encCap e - hdrLen = room" using newSender_cap [OF assms(1)] by (auto simp: room_def frameBufCap_def hdrLen_def)
  obtain fs st done' where f: "frames = numbered (encSession e) (encStream e) 0 fs" "length fs \<le> n" "flows room fs st done'" "st 0 = None"
      "pendOf (st (length fs)) = encPkt e'" "filter validPkt rs = concat (map done' [0..<length fs]) @ ends (st (length fs))" "map Some ws = map Some rs @ pr_contents (encRing e')"
    using sender_frames [OF assms(1,2)] unfolding room_def by blast
  have pl: "length (snd (fs ! i)) \<le> room" if "i < length fs" for i using that f(3) payload_bound [of room "st i" "fs ! i"] by (auto simp: flows_def)
  have len: "length bufs = length [0..<length fs]" using assms(6) f(1) by simp
  have fr: "frames = map ((!) (numbered (encSession e) (encStream e) 0 fs)) [0..<length fs]" using f(1) map_nth [of frames] by simp
  have a: "list_all2 (\<lambda>i fb. i < length fs \<and> holds fs i (frameMeta fb) \<and> frameEpoch fb = encStream e AND 0xfffff \<and> 16 \<le> length (fbRaw fb)) [0..<length fs] (arrive bufs frames)"
    unfolding fr by (rule arrive_holds [OF assms(5) len]) (use pl room in \<open>force simp: frameBufCap_def\<close>)
  have big: "length p \<le> 40 + 99 * room" if "st i = Some (p, k)" "i \<le> length fs" for i p k
  proof -
    have "p \<in> set (filter validPkt rs)" using flow_packet [OF f(3) that(2,1)] f(6) by simp
    then show ?thesis using assms(4) room(4) by auto
  qed
  have lt: "length fs < 2 ^ 64" using f(2) assms(3) by linarith
  have ord: "list_all2 (\<lambda>i fb. holds fs i (frameMeta fb) \<and> frameEpoch fb = encStream e AND 0xfffff \<and> 16 \<le> length (fbRaw fb)) [0..<length fs] (arrive bufs frames)"
    by (rule list_all2_mono [OF a]) simp
  have start: "rlEntries (getRlist Map.empty ep) = []" "rlCapacity (getRlist Map.empty ep) = 100" for ep by (simp_all add: getRlist_def newReassemblyList_def reassemblyListCap_def)
  have "\<exists>w rel. processFrames Map.empty (arrive bufs frames) = Ok (w, concat (map done' [0..<length fs]), rel)"
    by (rule processFrames_ordered [OF f(3) room(1) lt f(4) _ ord]) (use big start in auto)
  then obtain w rel where w: "processFrames Map.empty (arrive bufs frames) = Ok (w, concat (map done' [0..<length fs]), rel)" by blast
  have "if encPkt e' = [] then ends (st (length fs)) = [] else \<exists>p k. ends (st (length fs)) = [p] \<and> encPkt e' = drop k p"
  proof -
    have "flow_ok (st (length fs))" using f(3) by (simp add: flows_def)
    then show ?thesis unfolding f(5) [symmetric] by (cases "st (length fs)") (auto simp: ends_def pendOf_def flow_ok_def)
  qed
  moreover have "\<forall>f \<in> set frames. length f \<le> encCap e"
  proof
    fix x assume "x \<in> set frames"
    then obtain i where "i < length fs" "x = frames ! i" using f(1) by (auto simp: in_set_conv_nth)
    then show "length x \<le> encCap e" using pl [of i] room(2) f(1) by (simp add: numbered_nth mkFrame_def)
  qed
  ultimately show ?thesis using w f(6,7) by blast
qed

text \<open>C18: Whatever frames of a stream arrive at the remote gateway, in any order, repeatedly or not at all, only valid packets that the sender has taken from
  its ring come out, unchanged: no loss, repetition or reordering of frames mixes the parts of different packets, and none makes the worker panic.
\<close>

theorem sig_any_order:
  assumes "newSender sess ll rl mtu raw now = Ok e" "sender_run n e env = Ok (frames, e', env', rs, ws)" "n < 2 ^ 64"
    and "\<forall>i \<in> set ks. i < length frames" "list_all fresh bufs" "length bufs = length ks"
  shows "\<exists>w sent rel. processFrames Map.empty (arrive bufs (map ((!) frames) ks)) = Ok (w, sent, rel) \<and> set sent \<subseteq> set (filter validPkt rs)"
proof -
  define room where "room = encCap e - 16"
  have room: "room < 65520" "room \<le> frameBufCap - 16" using newSender_cap [OF assms(1)] by (auto simp: room_def frameBufCap_def)
  obtain fs st done' where f: "frames = numbered (encSession e) (encStream e) 0 fs" "length fs \<le> n" "flows room fs st done'" "st 0 = None"
      "filter validPkt rs = concat (map done' [0..<length fs]) @ ends (st (length fs))"
    using sender_frames [OF assms(1,2)] unfolding room_def by blast
  have pl: "length (snd (fs ! i)) \<le> room" if "i < length fs" for i using that f(3) payload_bound [of room "st i" "fs ! i"] by (auto simp: flows_def)
  have a: "list_all2 (\<lambda>i fb. i < length fs \<and> holds fs i (frameMeta fb) \<and> frameEpoch fb = encStream e AND 0xfffff \<and> 16 \<le> length (fbRaw fb)) ks (arrive bufs (map ((!) frames) ks))"
    unfolding f(1) by (rule arrive_holds [OF assms(5,6)]) (use pl room assms(4) f(1) in \<open>force simp: frameBufCap_def\<close>)
  have "rl_inv room fs st (rlEntries (getRlist Map.empty (encStream e AND 0xfffff)))" by (simp add: getRlist_def newReassemblyList_def rl_inv_def)
  moreover have "length fs < 2 ^ 64" using f(2) assms(3) by linarith
  ultimately obtain w sent rel where "processFrames Map.empty (arrive bufs (map ((!) frames) ks)) = Ok (w, sent, rel)" "set sent \<subseteq> (\<Union>i < length fs. set (done' i))"
    using processFrames_any [OF f(3) room(1) _ a, of Map.empty] by blast
  moreover have "(\<Union>i < length fs. set (done' i)) \<subseteq> set (filter validPkt rs)" using f(5) by auto
  ultimately show ?thesis by blast
qed

section \<open>Frame buffers and framing errors\<close>

text \<open>Every buffer handed to the list is in the list afterwards, or was released.\<close>

lemma insertFirst_count: "insertFirst l fb = Ok (l', sent, rel) \<Longrightarrow> length (rlEntries l') + length rel = Suc (length (rlEntries l))"
  by (auto simp: insertFirst_def mapR_eq_Ok split: if_splits)

lemma collect_count: "collect n buf fs = Ok (buf', seen, rest) \<Longrightarrow> length seen + length rest = length fs"
  by (induction fs arbitrary: buf seen) (auto simp: bindR_eq_Ok mapR_eq_Ok Let_def split: if_splits)

lemma filter_count: "length (filter (\<lambda>x. \<not> P x) xs) + length (filter P xs) = length xs"
  using sum_length_filter_compl [of P xs] by simp

lemma collectAndWrite_count:
  assumes "collectAndWrite l = Ok (l', sent, rel)"
  shows "length (rlEntries l') + length rel = length (rlEntries l)"
proof -
  obtain s0 others where l: "rlEntries l = s0 # others" using assms by (cases "rlEntries l") (auto simp: collectAndWrite_def)
  obtain b where b: "slice (fbRaw s0) (frag0Start s0) (fbLen s0) = Ok b" using assms l by (auto simp: collectAndWrite_def bindR_eq_Ok)
  obtain buf seen rest where c1: "collect (fbPktLen s0) b others = Ok (buf, seen, rest)" using assms l b by (cases "collect (fbPktLen s0) b others") (auto simp: collectAndWrite_def)
  have c2: "seen \<noteq> []" using assms l b c1 by (auto simp: collectAndWrite_def Let_def split: if_splits)
  obtain ps frame where c3: "ProcessCompletePkts (last seen) = Ok (ps, frame)" using assms l b c1 c2 by (cases "ProcessCompletePkts (last seen)") (auto simp: collectAndWrite_def Let_def)
  have c: "collect (fbPktLen s0) b others = Ok (buf, seen, rest)" "seen \<noteq> []"
      "rlEntries l' = filter (\<lambda>fb. \<not> Processed fb) (SetProcessed s0 # butlast seen @ frame # rest)" "length rel = length (filter Processed (SetProcessed s0 # butlast seen @ frame # rest))"
    using assms l b c1 c2 c3 by (auto simp: collectAndWrite_def removeProcessed_def Let_def)
  have "length (rlEntries l') + length rel = length (SetProcessed s0 # butlast seen @ frame # rest)"
    unfolding c(3,4) by (rule filter_count)
  moreover have "length (butlast seen) = length seen - 1" "0 < length seen" using c(2) by auto
  ultimately show ?thesis using l collect_count [OF c(1)] by (cases others) auto
qed

lemma tryReassemble_count:
  assumes "tryReassemble l = Ok (l', sent, rel)"
  shows "length (rlEntries l') + length rel = length (rlEntries l)"
proof (cases "length (rlEntries l) < 2 \<or> frag0Start (hd (rlEntries l)) = 0")
  case True
  then show ?thesis using assms by (auto simp: tryReassemble_def removeAll_def Let_def split: if_splits)
next
  case False
  then have ne: "rlEntries l \<noteq> []" by auto
  obtain a b where sc: "scan (int (fbPktLen (hd (rlEntries l)))) (int (fbLen (hd (rlEntries l))) - int (frag0Start (hd (rlEntries l)))) (tl (rlEntries l)) = (a, b)" by fastforce
  show ?thesis
  proof (cases a)
    case True
    then have "collectAndWrite l = Ok (l', sent, rel)" using assms False sc by (simp add: tryReassemble_def Let_def)
    then show ?thesis by (rule collectAndWrite_count)
  next
    case a: False
    then show ?thesis using assms False sc ne by (cases b) (auto simp: tryReassemble_def removeBeforeBack_def Let_def)
  qed
qed

lemma Insert_count:
  assumes "Insert l fb = Ok (l', sent, rel)"
  shows "length (rlEntries l') + length rel = Suc (length (rlEntries l))"
proof -
  consider "rlEntries l = []" "insertFirst l fb = Ok (l', sent, rel)" | "l' = l" "rel = [frameBuf_Reset fb]"
    | rel' where "insertFirst (l\<lparr>rlEntries := []\<rparr>) fb = Ok (l', sent, rel')" "rel = map frameBuf_Reset (rlEntries l) @ rel'"
    | "tryReassemble (l\<lparr>rlEntries := rlEntries l @ [fb]\<rparr>) = Ok (l', sent, rel)"
    using assms unfolding Insert_def Let_def removeAll_def by (auto simp: mapR_eq_Ok split: if_splits)
  then show ?thesis
  proof cases
    case 4
    then show ?thesis using tryReassemble_count [OF 4] by simp
  qed (auto dest: insertFirst_count)
qed

text \<open>C21: A framing error, a frame in which packets start although the packet before it is not complete, costs more than the incomplete packet. The
  list keeps the frame with the error as its only entry without having processed it, so the packets in it are never written. The frame
  that follows it is dropped as well, with the packets in it: the list is empty afterwards, and both buffers are released.
\<close>

theorem framing_error_drops:
  assumes "rlEntries l = start # others" "frag0Start start \<noteq> 0" "fbSeq start \<le> fbSeq (last (rlEntries l))" "fbSeq fb = fbSeq (last (rlEntries l)) + 1" "fbSeq (last (rlEntries l)) < fbSeq fb"
    and "scan (int (fbPktLen start)) (int (fbLen start) - int (frag0Start start)) (others @ [fb]) = (False, True)" "frag0Start fb = 0"
    and "fbSeq fb2 = fbSeq fb + 1" "fbSeq fb < fbSeq fb2" "length (rlEntries l) \<noteq> rlCapacity l" "rlCapacity l \<noteq> 1"
  shows "\<exists>l1 l2 rel1 rel2. Insert l fb = Ok (l1, [], rel1) \<and> rlEntries l1 = [fb] \<and> Insert l1 fb2 = Ok (l2, [], rel2) \<and> rlEntries l2 = [] \<and> length rel2 = 2"
proof -
  have "Insert l fb = tryReassemble (l\<lparr>rlEntries := rlEntries l @ [fb]\<rparr>)"
    using assms(1,3,4,5,10) by (auto simp: Insert_def Let_def split: if_splits)
  also have "\<dots> = Ok (l\<lparr>rlEntries := [fb]\<rparr>, [], map frameBuf_Reset (rlEntries l))"
    using assms(1,2,6) by (simp add: tryReassemble_def removeBeforeBack_def Let_def)
  finally have 1: "Insert l fb = Ok (l\<lparr>rlEntries := [fb]\<rparr>, [], map frameBuf_Reset (rlEntries l))" .
  have 2: "Insert (l\<lparr>rlEntries := [fb]\<rparr>) fb2 = Ok (l\<lparr>rlEntries := []\<rparr>, [], map frameBuf_Reset [fb, fb2])"
    using assms(7,8,9,11) by (auto simp: Insert_def Let_def tryReassemble_def removeAll_def)
  show ?thesis using 1 2 by auto
qed

definition ipv4_packet :: "u8 \<Rightarrow> u8 list \<Rightarrow> bytes" where
  "ipv4_packet n payload = [0x45, 0, 0, n] @ replicate 16 0 @ payload"

definition sample_env :: "ringOp list list" where
  "sample_env = [[WriteOp (ipv4_packet 20 []), WriteOp (ipv4_packet 21 []), WriteOp (ipv4_packet 120 (replicate 100 7))], [], [], [], [CloseOp]]"

definition sample_buf :: frameBuf where
  "sample_buf = \<lparr>fbSess = 0, fbSeq = 0, fbIndex = -1, fbLen = 0, frag0Start = 0, frag0Processed = False, fragNProcessed = False, completePktsProcessed = False, fbPktLen = 0, fbRaw = replicate frameBufCap 0\<rparr>"

lemma sample_run:
  "\<exists>e frames e' env' rs ws. newSender 1 4 4 144 (Some []) 0 = Ok e \<and> sender_run 3 e sample_env = Ok (frames, e', env', rs, ws)
    \<and> length frames = 2 \<and> encPkt e' = [] \<and> encCap e = 100 \<and> (\<forall>p \<in> set rs. length p \<le> 120) \<and> filter validPkt rs = [ipv4_packet 20 [], ipv4_packet 120 (replicate 100 7)]"
proof -
  have "case newSender 1 4 4 144 (Some []) 0 of
      Ok e \<Rightarrow> (case sender_run 3 e sample_env of
        Ok (frames, e', env', rs, ws) \<Rightarrow> length frames = 2 \<and> encPkt e' = [] \<and> encCap e = 100 \<and> (\<forall>p \<in> set rs. length p \<le> 120) \<and> filter validPkt rs = [ipv4_packet 20 [], ipv4_packet 120 (replicate 100 7)]
      | _ \<Rightarrow> False)
    | _ \<Rightarrow> False" by code_simp
  then show ?thesis by (auto split: result.splits)
qed

lemma sample_buf_fresh: "fresh sample_buf"
  by (simp add: fresh_def sample_buf_def)

theorem sig_roundtrip_witness:
  "\<exists>e frames e' env' rs ws w sent rel. newSender 1 4 4 144 (Some []) 0 = Ok e \<and> sender_run 3 e sample_env = Ok (frames, e', env', rs, ws)
    \<and> processFrames Map.empty (arrive (replicate 2 sample_buf) frames) = Ok (w, sent, rel) \<and> sent = [ipv4_packet 20 [], ipv4_packet 120 (replicate 100 7)]"
proof -
  obtain e frames e' env' rs ws where r: "newSender 1 4 4 144 (Some []) 0 = Ok e" "sender_run 3 e sample_env = Ok (frames, e', env', rs, ws)"
      "length frames = 2" "encPkt e' = []" "encCap e = 100" "\<forall>p \<in> set rs. length p \<le> 120" "filter validPkt rs = [ipv4_packet 20 [], ipv4_packet 120 (replicate 100 7)]"
    using sample_run by blast
  have "\<forall>p \<in> set rs. length p \<le> 40 + 99 * (encCap e - hdrLen)" using r(5,6) by (force simp: hdrLen_def)
  then show ?thesis using sig_roundtrip [OF r(1,2), of "replicate 2 sample_buf"] r sample_buf_fresh by (auto simp: list_all_iff)
qed

theorem sig_any_order_witness:
  "\<exists>e frames e' env' rs ws w sent rel. newSender 1 4 4 144 (Some []) 0 = Ok e \<and> sender_run 3 e sample_env = Ok (frames, e', env', rs, ws)
    \<and> processFrames Map.empty (arrive (replicate 4 sample_buf) (map ((!) frames) [1, 0, 0, 1])) = Ok (w, sent, rel) \<and> set sent \<subseteq> {ipv4_packet 20 [], ipv4_packet 120 (replicate 100 7)}"
proof -
  obtain e frames e' env' rs ws where r: "newSender 1 4 4 144 (Some []) 0 = Ok e" "sender_run 3 e sample_env = Ok (frames, e', env', rs, ws)"
      "length frames = 2" "filter validPkt rs = [ipv4_packet 20 [], ipv4_packet 120 (replicate 100 7)]"
    using sample_run by blast
  have "\<exists>w sent rel. processFrames Map.empty (arrive (replicate 4 sample_buf) (map ((!) frames) [1, 0, 0, 1])) = Ok (w, sent, rel) \<and> set sent \<subseteq> set (filter validPkt rs)"
    by (rule sig_any_order [OF r(1,2)]) (use r(3) sample_buf_fresh in \<open>auto simp: list_all_iff\<close>)
  then show ?thesis using r by simp
qed

definition sample_list :: reassemblyList where
  "sample_list = (newReassemblyList 0 reassemblyListCap)\<lparr>rlEntries := [sample_buf\<lparr>fbSeq := 5, fbIndex := 0, fbLen := 60, frag0Start := 16, fbPktLen := 100, completePktsProcessed := True\<rparr>]\<rparr>"

theorem framing_error_drops_witness:
  "\<exists>l1 l2 rel1 rel2. Insert sample_list (sample_buf\<lparr>fbSeq := 6, fbIndex := 0, fbLen := 20\<rparr>) = Ok (l1, [], rel1) \<and> rlEntries l1 = [sample_buf\<lparr>fbSeq := 6, fbIndex := 0, fbLen := 20\<rparr>]
    \<and> Insert l1 (sample_buf\<lparr>fbSeq := 7, fbIndex := 0, fbLen := 36\<rparr>) = Ok (l2, [], rel2) \<and> rlEntries l2 = [] \<and> length rel2 = 2"
  by (rule framing_error_drops [where others = "[]" and start = "sample_buf\<lparr>fbSeq := 5, fbIndex := 0, fbLen := 60, frag0Start := 16, fbPktLen := 100, completePktsProcessed := True\<rparr>"]) (simp_all add: sample_list_def newReassemblyList_def reassemblyListCap_def sample_buf_def sigHdrSize_def Let_def)

end
