(* ===== verification/GwRouting.thy ===== *)
theory GwRouting
  imports Addr
begin

text \<open>
  Routing in the gateway: traffic classes (\<^verbatim>\<open>gateway/pktcls\<close>), the routing table of the data plane
  (\<^verbatim>\<open>gateway/dataplane/routingtable.go\<close>, \<^verbatim>\<open>atomicroutingtable.go\<close>, \<^verbatim>\<open>ipforwarder.go\<close>), and the router of the control plane, which puts the best session
  that is up into the table (\<^verbatim>\<open>gateway/control/router.go\<close>). IP addresses and masks are byte slices as in \<^verbatim>\<open>net\<close>. How
  gopacket decodes a packet is a parameter (\<open>l4env\<close>). A sub-entry is shared between the prefixes of a chain by its index; \<^verbatim>\<open>indexToEntries\<close>, which is never
  read, is left out. Networks are not nil.
\<close>

unbundle bit_operations_syntax

section \<open>Networks of package net\<close>

record IPNet =
  netIP :: bytes
  netMask :: bytes

definition ip_To4 :: "bytes \<Rightarrow> bytes option" where
  "ip_To4 ip = (if length ip = 4 then Some ip
     else if length ip = 16 \<and> take 12 ip = replicate 10 0 @ [0xff, 0xff] then Some (drop 12 ip) else None)"

definition networkNumberAndMask :: "IPNet \<Rightarrow> bytes \<times> bytes" where
  "networkNumberAndMask n =
    (let ip = (case ip_To4 (netIP n) of Some x \<Rightarrow> x | None \<Rightarrow> netIP n); m = netMask n in
     if ip_To4 (netIP n) = None \<and> length ip \<noteq> 16 then ([], [])
     else if length m = 4 then (if length ip \<noteq> 4 then ([], []) else (ip, m))
     else if length m = 16 then (ip, if length ip = 4 then drop 12 m else m)
     else ([], []))"

definition IPNet_Contains :: "IPNet \<Rightarrow> bytes \<Rightarrow> bool" where
  "IPNet_Contains n ip =
    (let (nn, m) = networkNumberAndMask n; ip = (case ip_To4 ip of Some x \<Rightarrow> x | None \<Rightarrow> ip) in
     length ip = length nn \<and> list_all (\<lambda>i. nn ! i AND m ! i = ip ! i AND m ! i) [0..<length ip])"

text \<open>The number of leading ones of a byte, \<open>None\<close> when a one follows a zero.\<close>

definition byteOnes :: "u8 \<Rightarrow> nat option" where
  "byteOnes v = map_of [(0, 0), (0x80, 1), (0xc0, 2), (0xe0, 3), (0xf0, 4), (0xf8, 5), (0xfc, 6), (0xfe, 7), (0xff, 8)] v"

fun simpleMaskLength :: "bytes \<Rightarrow> nat option" where
  "simpleMaskLength [] = Some 0"
| "simpleMaskLength (v # vs) =
    (if v = 0xff then map_option (\<lambda>n. n + 8) (simpleMaskLength vs)
     else case byteOnes v of None \<Rightarrow> None | Some n \<Rightarrow> if list_all (\<lambda>x. x = 0) vs then Some n else None)"

text \<open>The first result of \<open>Mask.Size\<close>.\<close>

definition maskOnes :: "bytes \<Rightarrow> nat" where
  "maskOnes m = (case simpleMaskLength m of None \<Rightarrow> 0 | Some n \<Rightarrow> n)"

section \<open>Traffic classes\<close>

record layers_IPv4 =
  ip4Src :: bytes
  ip4Dst :: bytes
  ip4TOS :: u8
  ip4Protocol :: u8
  ip4MoreFragments :: bool
  ip4FragOffset :: u16
  ip4Payload :: bytes

record layers_IPv6 =
  ip6Src :: bytes
  ip6Dst :: bytes
  ip6NextHeader :: u8
  ip6Payload :: bytes

datatype Layer = LayerIPv4 layers_IPv4 | LayerIPv6 layers_IPv6

datatype l4type = LayerTypeUDP | LayerTypeTCP | LayerTypeOther

text \<open>\<open>NextLayerType\<close> and the decoders of UDP and TCP headers of gopacket, with the ports they find.\<close>

record l4env =
  NextLayerType :: "layers_IPv4 \<Rightarrow> l4type"
  udpPorts :: "bytes \<Rightarrow> (u16 \<times> u16) option"
  tcpPorts :: "bytes \<Rightarrow> (u16 \<times> u16) option"

datatype IPv4Predicate =
    IPv4MatchSource IPNet
  | IPv4MatchDestination IPNet
  | IPv4MatchToS u8
  | IPv4MatchDSCP u8
  | IPv4MatchProtocol u8

fun IPv4Predicate_Eval :: "IPv4Predicate \<Rightarrow> layers_IPv4 \<Rightarrow> bool" where
  "IPv4Predicate_Eval (IPv4MatchSource n) p = IPNet_Contains n (ip4Src p)"
| "IPv4Predicate_Eval (IPv4MatchDestination n) p = IPNet_Contains n (ip4Dst p)"
| "IPv4Predicate_Eval (IPv4MatchToS t) p = (t = ip4TOS p)"
| "IPv4Predicate_Eval (IPv4MatchDSCP d) p = (d = drop_bit 2 (ip4TOS p))"
| "IPv4Predicate_Eval (IPv4MatchProtocol q) p = (q = ip4Protocol p)"

datatype PortPredicate = PortMatchSource u16 u16 | PortMatchDestination u16 u16

fun PortPredicate_Eval :: "PortPredicate \<Rightarrow> u16 \<times> u16 \<Rightarrow> bool" where
  "PortPredicate_Eval (PortMatchSource a b) p = (fst p \<ge> a \<and> fst p \<le> b)"
| "PortPredicate_Eval (PortMatchDestination a b) p = (snd p \<ge> a \<and> snd p \<le> b)"

datatype Cond =
    CondAnyOf "Cond list"
  | CondAllOf "Cond list"
  | CondNot "Cond option"
  | CondBool bool
  | CondIPv4 "IPv4Predicate option"
  | CondPorts "PortPredicate option"
  | CondClass string

definition CondIPv4_Eval :: "IPv4Predicate option \<Rightarrow> Layer \<Rightarrow> bool" where
  "CondIPv4_Eval q v = (case q of None \<Rightarrow> False | Some q \<Rightarrow> (case v of LayerIPv4 p \<Rightarrow> IPv4Predicate_Eval q p | LayerIPv6 _ \<Rightarrow> False))"

definition CondPorts_Eval :: "l4env \<Rightarrow> PortPredicate option \<Rightarrow> Layer \<Rightarrow> bool" where
  "CondPorts_Eval E q v =
    (case q of None \<Rightarrow> False | Some q \<Rightarrow>
      (case v of
         LayerIPv6 _ \<Rightarrow> False
       | LayerIPv4 p \<Rightarrow>
           (case (case NextLayerType E p of
                LayerTypeUDP \<Rightarrow> udpPorts E (ip4Payload p) | LayerTypeTCP \<Rightarrow> tcpPorts E (ip4Payload p) | LayerTypeOther \<Rightarrow> None) of
              None \<Rightarrow> False
            | Some ports \<Rightarrow> PortPredicate_Eval q ports)))"

fun Cond_Eval :: "l4env \<Rightarrow> Cond \<Rightarrow> Layer \<Rightarrow> bool" where
  "Cond_Eval E (CondAnyOf cs) v = (cs = [] \<or> (\<exists>c \<in> set cs. Cond_Eval E c v))"
| "Cond_Eval E (CondAllOf cs) v = (\<forall>c \<in> set cs. Cond_Eval E c v)"
| "Cond_Eval E (CondNot c) v = (case c of None \<Rightarrow> False | Some c \<Rightarrow> \<not> Cond_Eval E c v)"
| "Cond_Eval E (CondBool b) v = b"
| "Cond_Eval E (CondIPv4 q) v = CondIPv4_Eval q v"
| "Cond_Eval E (CondPorts q) v = CondPorts_Eval E q v"
| "Cond_Eval E (CondClass s) v = False"

section \<open>The routing table\<close>

record TrafficMatcher =
  tmID :: int
  tmMatcher :: Cond

record RoutingChain =
  RemoteIA :: IA
  Prefixes :: "IPNet list"
  TrafficMatchers :: "TrafficMatcher list"

record 's subEntry =
  seClass :: Cond
  seSession :: "'s option"

record rtEntry =
  rePrefix :: IPNet
  reTable :: "int list"

record 's RoutingTable =
  indexToSubEntry :: "int \<rightharpoonup> 's subEntry"
  rtTable :: "rtEntry list"

definition addMatcher :: "(int \<rightharpoonup> 's subEntry) \<Rightarrow> TrafficMatcher \<Rightarrow> (int \<rightharpoonup> 's subEntry)" where
  "addMatcher m tm = (case m (tmID tm) of Some _ \<Rightarrow> m | None \<Rightarrow> m(tmID tm \<mapsto> \<lparr>seClass = tmMatcher tm, seSession = None\<rparr>))"

definition addPrefix :: "TrafficMatcher list \<Rightarrow> 's RoutingTable \<Rightarrow> IPNet \<Rightarrow> 's RoutingTable" where
  "addPrefix tms rt prefix =
     rt\<lparr>indexToSubEntry := foldl addMatcher (indexToSubEntry rt) tms, rtTable := rtTable rt @ [\<lparr>rePrefix = prefix, reTable = map tmID tms\<rparr>]\<rparr>"

definition NewRoutingTable :: "RoutingChain list \<Rightarrow> 's RoutingTable" where
  "NewRoutingTable chs = foldl (\<lambda>rt c. foldl (addPrefix (TrafficMatchers c)) rt (Prefixes c)) \<lparr>indexToSubEntry = Map.empty, rtTable = []\<rparr> chs"

text \<open>The session of the first class that matches.\<close>

fun entry_route :: "l4env \<Rightarrow> (int \<rightharpoonup> 's subEntry) \<Rightarrow> int list \<Rightarrow> Layer \<Rightarrow> 's option result" where
  "entry_route E m [] pkt = Ok None"
| "entry_route E m (i # is) pkt = (case m i of
     None \<Rightarrow> Panic
   | Some se \<Rightarrow> if Cond_Eval E (seClass se) pkt then Ok (seSession se) else entry_route E m is pkt)"

fun route_loop :: "l4env \<Rightarrow> (int \<rightharpoonup> 's subEntry) \<Rightarrow> bytes \<Rightarrow> Layer \<Rightarrow> rtEntry list \<Rightarrow> nat \<Rightarrow> 's option \<Rightarrow> 's option result" where
  "route_loop E m dst pkt [] highestMask ret = Ok ret"
| "route_loop E m dst pkt (e # es) highestMask ret =
    (if \<not> IPNet_Contains (rePrefix e) dst then route_loop E m dst pkt es highestMask ret
     else if maskOnes (netMask (rePrefix e)) < highestMask then route_loop E m dst pkt es highestMask ret
     else bindR (entry_route E m (reTable e) pkt) (route_loop E m dst pkt es (maskOnes (netMask (rePrefix e)))))"

definition rt_route :: "l4env \<Rightarrow> 's RoutingTable \<Rightarrow> bytes \<Rightarrow> Layer \<Rightarrow> 's option result" where
  "rt_route E rt dst pkt = route_loop E (indexToSubEntry rt) dst pkt (rtTable rt) 0 None"

definition RouteIPv4 :: "l4env \<Rightarrow> 's RoutingTable \<Rightarrow> layers_IPv4 \<Rightarrow> 's option result" where
  "RouteIPv4 E rt pkt = rt_route E rt (ip4Dst pkt) (LayerIPv4 pkt)"

definition RouteIPv6 :: "l4env \<Rightarrow> 's RoutingTable \<Rightarrow> layers_IPv6 \<Rightarrow> 's option result" where
  "RouteIPv6 E rt pkt = rt_route E rt (ip6Dst pkt) (LayerIPv6 pkt)"

definition SetSession :: "'s RoutingTable \<Rightarrow> int \<Rightarrow> 's option \<Rightarrow> 's RoutingTable result" where
  "SetSession rt index session =
    (case session of
       None \<Rightarrow> Fail (Err ''nil session'')
     | Some s \<Rightarrow> (case indexToSubEntry rt index of
         None \<Rightarrow> Fail (Err ''invalid index'')
       | Some se \<Rightarrow> Ok (rt\<lparr>indexToSubEntry := (indexToSubEntry rt)(index \<mapsto> se\<lparr>seSession := Some s\<rparr>)\<rparr>)))"

definition ClearSession :: "'s RoutingTable \<Rightarrow> int \<Rightarrow> 's RoutingTable result" where
  "ClearSession rt index =
    (case indexToSubEntry rt index of
       None \<Rightarrow> Fail (Err ''invalid index'')
     | Some se \<Rightarrow> Ok (rt\<lparr>indexToSubEntry := (indexToSubEntry rt)(index \<mapsto> se\<lparr>seSession := None\<rparr>)\<rparr>))"

text \<open>The table that can be exchanged: without a table nothing is routed.\<close>

definition Atomic_RouteIPv4 :: "l4env \<Rightarrow> 's RoutingTable option \<Rightarrow> layers_IPv4 \<Rightarrow> 's option result" where
  "Atomic_RouteIPv4 E t pkt = (case t of None \<Rightarrow> Ok None | Some rt \<Rightarrow> RouteIPv4 E rt pkt)"

definition Atomic_RouteIPv6 :: "l4env \<Rightarrow> 's RoutingTable option \<Rightarrow> layers_IPv6 \<Rightarrow> 's option result" where
  "Atomic_RouteIPv6 E t pkt = (case t of None \<Rightarrow> Ok None | Some rt \<Rightarrow> RouteIPv6 E rt pkt)"

section \<open>The forwarder\<close>

text \<open>
  What happens to a packet that was read from the local network: one turn of the loop of \<^verbatim>\<open>Run\<close>. \<open>decode\<close> is gopacket: \<open>None\<close> when the packet has an error layer, \<open>Some None\<close> when its network
  layer is neither IPv4 nor IPv6.
\<close>

datatype 's fwdAction = FwdInvalid | FwdFragment | FwdNoRoute | FwdWrite 's

definition forwardPacket :: "l4env \<Rightarrow> (bytes \<Rightarrow> Layer option option) \<Rightarrow> 's RoutingTable option \<Rightarrow> bytes \<Rightarrow> 's fwdAction result" where
  "forwardPacket E decode t buf =
    (if buf = [] then Ok FwdInvalid
     else
       let version = drop_bit 4 (buf ! 0) in
       if version \<noteq> 4 \<and> version \<noteq> 6 then Ok FwdInvalid
       else case decode buf of
         None \<Rightarrow> Ok FwdInvalid
       | Some None \<Rightarrow> Ok FwdNoRoute
       | Some (Some (LayerIPv4 ip)) \<Rightarrow>
           if ip4MoreFragments ip \<or> ip4FragOffset ip \<noteq> 0 then Ok FwdFragment
           else mapR (\<lambda>s. case s of None \<Rightarrow> FwdNoRoute | Some s \<Rightarrow> FwdWrite s) (Atomic_RouteIPv4 E t ip)
       | Some (Some (LayerIPv6 ip)) \<Rightarrow> mapR (\<lambda>s. case s of None \<Rightarrow> FwdNoRoute | Some s \<Rightarrow> FwdWrite s) (Atomic_RouteIPv6 E t ip))"

section \<open>The router of the control plane\<close>

datatype Event = EventDown | EventUp | OtherEvent int

record 's Router =
  rtrTable :: "'s RoutingTable"
  RoutingTableIndices :: "int \<rightharpoonup> u8 list"
  DataplaneSessions :: "u8 \<rightharpoonup> 's"
  sessionStates :: "u8 \<rightharpoonup> Event"
  currentSessions :: "int \<rightharpoonup> u8"

definition Router_initData :: "'s Router \<Rightarrow> 's Router" where
  "Router_initData r = r\<lparr>currentSessions := Map.empty, sessionStates := Map.empty\<rparr>"

definition sessionIDs :: "'s Router \<Rightarrow> int \<Rightarrow> u8 list" where
  "sessionIDs r rtID = (case RoutingTableIndices r rtID of None \<Rightarrow> [] | Some ids \<Rightarrow> ids)"

definition findSession :: "'s Router \<Rightarrow> int \<Rightarrow> u8 option" where
  "findSession r rtID = find (\<lambda>s. sessionStates r s = Some EventUp) (sessionIDs r rtID)"

definition aliveSessions :: "'s Router \<Rightarrow> int \<Rightarrow> nat" where
  "aliveSessions r rtID = length (filter (\<lambda>s. sessionStates r s = Some EventUp) (sessionIDs r rtID))"

text \<open>An error of the table is a panic.\<close>

definition useSession :: "'s Router \<Rightarrow> int \<Rightarrow> u8 \<Rightarrow> 's Router result" where
  "useSession r rtID s =
    (case SetSession (rtrTable r) rtID (DataplaneSessions r s) of
       Ok t \<Rightarrow> Ok (r\<lparr>rtrTable := t, currentSessions := (currentSessions r)(rtID \<mapsto> s)\<rparr>)
     | _ \<Rightarrow> Panic)"

definition dropSession :: "'s Router \<Rightarrow> int \<Rightarrow> 's Router result" where
  "dropSession r rtID =
    (case ClearSession (rtrTable r) rtID of
       Ok t \<Rightarrow> Ok (r\<lparr>rtrTable := t, currentSessions := (currentSessions r)(rtID := None)\<rparr>)
     | _ \<Rightarrow> Panic)"

definition indexUp :: "u8 \<Rightarrow> 's Router \<Rightarrow> int \<Rightarrow> 's Router result" where
  "indexUp sid r rtID =
    (if sid \<notin> set (sessionIDs r rtID) then Ok r
     else case currentSessions r rtID of
       None \<Rightarrow> useSession r rtID sid
     | Some currentID \<Rightarrow>
         (case findSession r rtID of
            None \<Rightarrow> Panic
          | Some bestID \<Rightarrow> if currentID = bestID then Ok r else useSession r rtID bestID))"

definition indexDown :: "u8 \<Rightarrow> 's Router \<Rightarrow> int \<Rightarrow> 's Router result" where
  "indexDown sid r rtID =
    (if currentSessions r rtID \<noteq> Some sid then Ok r
     else case findSession r rtID of
       None \<Rightarrow> dropSession r rtID
     | Some newID \<Rightarrow> useSession r rtID newID)"

fun forIndices :: "('s Router \<Rightarrow> int \<Rightarrow> 's Router result) \<Rightarrow> int list \<Rightarrow> 's Router \<Rightarrow> 's Router result" where
  "forIndices f [] r = Ok r"
| "forIndices f (k # ks) r = bindR (f r k) (forIndices f ks)"

text \<open>\<open>ks\<close> is the order in which the map of the case is ranged over.\<close>

definition handleEvent :: "int list \<Rightarrow> 's Router \<Rightarrow> u8 \<times> Event \<Rightarrow> ('s Router \<times> go_error option) result" where
  "handleEvent ks r ev =
    (let (sid, event) = ev in
     if DataplaneSessions r sid = None then Ok (r, Some (Err ''event for unknown session''))
     else
       let r = r\<lparr>sessionStates := (sessionStates r)(sid \<mapsto> event)\<rparr> in
       case event of
         EventUp \<Rightarrow> mapR (\<lambda>r. (r, None)) (forIndices (indexUp sid) ks r)
       | EventDown \<Rightarrow> mapR (\<lambda>r. (r, None)) (forIndices (indexDown sid) ks r)
       | OtherEvent _ \<Rightarrow> Ok (r, Some (Err ''unknown'')))"

text \<open>The loop over the events; errors are logged.\<close>

fun handleEvents :: "(int list \<times> u8 \<times> Event) list \<Rightarrow> 's Router \<Rightarrow> 's Router result" where
  "handleEvents [] r = Ok r"
| "handleEvents ((ks, ev) # evs) r = bindR (handleEvent ks r ev) (\<lambda>(r', _). handleEvents evs r')"

section \<open>Longest prefix match\<close>

definition covering :: "bytes \<Rightarrow> rtEntry list \<Rightarrow> rtEntry list" where
  "covering dst es = filter (\<lambda>e. IPNet_Contains (rePrefix e) dst) es"

definition prefixLen :: "rtEntry \<Rightarrow> nat" where
  "prefixLen e = maskOnes (netMask (rePrefix e))"

text \<open>The entry with the longest prefix that contains the address; among equal lengths the last one.\<close>

definition longest :: "bytes \<Rightarrow> rtEntry list \<Rightarrow> rtEntry option" where
  "longest dst es =
    (let cs = covering dst es; ls = filter (\<lambda>e. \<forall>e' \<in> set cs. prefixLen e' \<le> prefixLen e) cs in
     if ls = [] then None else Some (last ls))"

definition table_ok :: "'s RoutingTable \<Rightarrow> bool" where
  "table_ok rt \<longleftrightarrow> (\<forall>e \<in> set (rtTable rt). set (reTable e) \<subseteq> dom (indexToSubEntry rt))"

text \<open>The index of the first class of an entry that matches, and the session there.\<close>

definition firstClass :: "l4env \<Rightarrow> (int \<rightharpoonup> 's subEntry) \<Rightarrow> Layer \<Rightarrow> rtEntry \<Rightarrow> int option" where
  "firstClass E m pkt e = find (\<lambda>i. Cond_Eval E (seClass (the (m i))) pkt) (reTable e)"

definition sessionOf :: "l4env \<Rightarrow> (int \<rightharpoonup> 's subEntry) \<Rightarrow> Layer \<Rightarrow> rtEntry option \<Rightarrow> 's option" where
  "sessionOf E m pkt e = Option.bind (Option.bind e (firstClass E m pkt)) (\<lambda>i. seSession (the (m i)))"

lemma entry_route_find:
  "set (reTable e) \<subseteq> dom m \<Longrightarrow> entry_route E m (reTable e) pkt = Ok (sessionOf E m pkt (Some e))"
proof -
  have "set ks \<subseteq> dom m \<Longrightarrow> entry_route E m ks pkt =
      Ok (Option.bind (find (\<lambda>i. Cond_Eval E (seClass (the (m i))) pkt) ks) (\<lambda>i. seSession (the (m i))))" for ks
    by (induction ks) (auto split: option.splits)
  then show "set (reTable e) \<subseteq> dom m \<Longrightarrow> ?thesis" by (simp add: sessionOf_def firstClass_def)
qed

lemma longest_Nil [simp]: "longest dst [] = None"
  by (simp add: longest_def covering_def)

lemma longest_max: "longest dst es = Some e \<Longrightarrow> e \<in> set (covering dst es) \<and> (\<forall>e' \<in> set (covering dst es). prefixLen e' \<le> prefixLen e)"
  by (auto simp: longest_def Let_def split: if_splits dest: last_in_set)

lemma longest_None: "longest dst es = None \<longleftrightarrow> covering dst es = []"
proof
  assume "longest dst es = None"
  then have no: "\<not> (\<exists>e \<in> set (covering dst es). \<forall>e' \<in> set (covering dst es). prefixLen e' \<le> prefixLen e)"
    by (auto simp: longest_def Let_def filter_empty_conv split: if_splits)
  show "covering dst es = []"
  proof (rule ccontr)
    assume "covering dst es \<noteq> []"
    then have "Max (prefixLen ` set (covering dst es)) \<in> prefixLen ` set (covering dst es)" by (intro Max_in) auto
    then obtain e where "e \<in> set (covering dst es)" "prefixLen e = Max (prefixLen ` set (covering dst es))" by auto
    with no show False by auto
  qed
qed (simp add: longest_def)

lemma longest_snoc:
  "longest dst (es @ [e]) =
    (if IPNet_Contains (rePrefix e) dst \<and> (case longest dst es of None \<Rightarrow> True | Some e' \<Rightarrow> prefixLen e' \<le> prefixLen e) then Some e else longest dst es)"
proof (cases "IPNet_Contains (rePrefix e) dst")
  case False
  then show ?thesis by (simp add: longest_def covering_def)
next
  case True
  let ?cs = "covering dst es"
  have cs: "covering dst (es @ [e]) = ?cs @ [e]" using True by (simp add: covering_def)
  show ?thesis
  proof (cases "longest dst es")
    case None
    then have "?cs = []" by (simp add: longest_None)
    then show ?thesis using None True by (simp add: longest_def cs)
  next
    case (Some m)
    note m = longest_max[OF Some]
    show ?thesis
    proof (cases "prefixLen m \<le> prefixLen e")
      case le: True
      then have "\<forall>e' \<in> set ?cs. prefixLen e' \<le> prefixLen e" using m by (meson order_trans)
      then show ?thesis using Some True le by (simp add: longest_def cs Let_def)
    next
      case False
      then have "filter (\<lambda>x. \<forall>e' \<in> set (?cs @ [e]). prefixLen e' \<le> prefixLen x) (?cs @ [e]) = filter (\<lambda>x. \<forall>e' \<in> set ?cs. prefixLen e' \<le> prefixLen x) ?cs"
        using m by (auto intro!: filter_cong)
      then show ?thesis using Some True False by (auto simp: longest_def cs Let_def)
    qed
  qed
qed

lemma route_loop_longest:
  "\<forall>e \<in> set es'. set (reTable e) \<subseteq> dom m \<Longrightarrow>
   route_loop E m dst pkt es' (case longest dst es of None \<Rightarrow> 0 | Some e \<Rightarrow> prefixLen e) (sessionOf E m pkt (longest dst es)) =
   Ok (sessionOf E m pkt (longest dst (es @ es')))"
proof (induction es' arbitrary: es)
  case (Cons e es')
  have e: "entry_route E m (reTable e) pkt = Ok (sessionOf E m pkt (Some e))" using Cons.prems by (intro entry_route_find) simp
  show ?case using Cons.IH[of "es @ [e]"] Cons.prems e
    by (auto simp: longest_snoc prefixLen_def split: option.splits if_splits)
qed simp

lemma rt_route_longest:
  "table_ok rt \<Longrightarrow> rt_route E rt dst pkt = Ok (sessionOf E (indexToSubEntry rt) pkt (longest dst (rtTable rt)))"
  using route_loop_longest[of "rtTable rt" "indexToSubEntry rt" E dst pkt "[]"]
  by (simp add: rt_route_def table_ok_def sessionOf_def)

section \<open>The table of the chains\<close>

definition chainEntries :: "RoutingChain list \<Rightarrow> rtEntry list" where
  "chainEntries chs = concat (map (\<lambda>c. map (\<lambda>p. \<lparr>rePrefix = p, reTable = map tmID (TrafficMatchers c)\<rparr>) (Prefixes c)) chs)"

text \<open>The traffic matchers of a table, those of a chain once for each of its prefixes.\<close>

definition chainMatchers :: "RoutingChain list \<Rightarrow> TrafficMatcher list" where
  "chainMatchers chs = concat (map (\<lambda>c. concat (map (\<lambda>_. TrafficMatchers c) (Prefixes c))) chs)"

lemma foldl_addPrefix:
  "foldl (addPrefix tms) rt ps =
     \<lparr>indexToSubEntry = foldl addMatcher (indexToSubEntry rt) (concat (map (\<lambda>_. tms) ps)),
      rtTable = rtTable rt @ map (\<lambda>p. \<lparr>rePrefix = p, reTable = map tmID tms\<rparr>) ps\<rparr>"
  by (induction ps arbitrary: rt) (simp_all add: addPrefix_def)

lemma NewRoutingTable_eq:
  "NewRoutingTable chs = \<lparr>indexToSubEntry = foldl addMatcher Map.empty (chainMatchers chs), rtTable = chainEntries chs\<rparr>"
proof -
  have "foldl (\<lambda>rt c. foldl (addPrefix (TrafficMatchers c)) rt (Prefixes c)) rt chs =
      \<lparr>indexToSubEntry = foldl addMatcher (indexToSubEntry rt) (chainMatchers chs), rtTable = rtTable rt @ chainEntries chs\<rparr>"
    for rt :: "'a RoutingTable"
    by (induction chs arbitrary: rt) (simp_all add: foldl_addPrefix chainMatchers_def chainEntries_def)
  then show ?thesis by (simp add: NewRoutingTable_def)
qed

lemma foldl_addMatcher:
  "foldl addMatcher m tms i = (case m i of Some se \<Rightarrow> Some se | None \<Rightarrow> map_option (\<lambda>tm. \<lparr>seClass = tmMatcher tm, seSession = None\<rparr>) (find (\<lambda>tm. tmID tm = i) tms))"
  by (induction tms arbitrary: m) (auto simp: addMatcher_def split: option.splits)

lemma new_table_sub:
  "indexToSubEntry (NewRoutingTable chs) i = map_option (\<lambda>tm. \<lparr>seClass = tmMatcher tm, seSession = None\<rparr>) (find (\<lambda>tm. tmID tm = i) (chainMatchers chs))"
  by (simp add: NewRoutingTable_eq foldl_addMatcher)

lemma new_table_dom: "dom (indexToSubEntry (NewRoutingTable chs)) = tmID ` set (chainMatchers chs)"
  by (auto simp: dom_def new_table_sub find_Some_iff image_iff find_None_iff)

lemma new_table_ok: "table_ok (NewRoutingTable chs)"
  unfolding table_ok_def new_table_dom by (fastforce simp: NewRoutingTable_eq chainEntries_def chainMatchers_def)

section \<open>The sessions in use\<close>

text \<open>The index \<open>k\<close> uses the first session that is up according to \<open>st\<close>.\<close>

definition firstUp :: "'s Router \<Rightarrow> (u8 \<rightharpoonup> Event) \<Rightarrow> int \<Rightarrow> u8 option" where
  "firstUp r st k = find (\<lambda>s. st s = Some EventUp) (sessionIDs r k)"

definition settled :: "(u8 \<rightharpoonup> Event) \<Rightarrow> 's Router \<Rightarrow> int \<Rightarrow> bool" where
  "settled st r k \<longleftrightarrow>
     currentSessions r k = firstUp r st k \<and>
     map_option seSession (indexToSubEntry (rtrTable r) k) =
       map_option (\<lambda>_. Option.bind (firstUp r st k) (DataplaneSessions r)) (indexToSubEntry (rtrTable r) k)"

definition router_ok :: "'s Router \<Rightarrow> bool" where
  "router_ok r \<longleftrightarrow>
     dom (RoutingTableIndices r) \<subseteq> dom (indexToSubEntry (rtrTable r)) \<and>
     (\<forall>s. sessionStates r s = Some EventUp \<longrightarrow> DataplaneSessions r s \<noteq> None)"

text \<open>Nothing changes but the session of the indices \<open>K\<close>.\<close>

definition only_at :: "int set \<Rightarrow> 's Router \<Rightarrow> 's Router \<Rightarrow> bool" where
  "only_at K r r' \<longleftrightarrow>
     RoutingTableIndices r' = RoutingTableIndices r \<and> DataplaneSessions r' = DataplaneSessions r \<and> sessionStates r' = sessionStates r \<and>
     rtTable (rtrTable r') = rtTable (rtrTable r) \<and>
     (\<forall>k. map_option seClass (indexToSubEntry (rtrTable r') k) = map_option seClass (indexToSubEntry (rtrTable r) k)) \<and>
     (\<forall>k. k \<notin> K \<longrightarrow> currentSessions r' k = currentSessions r k \<and> indexToSubEntry (rtrTable r') k = indexToSubEntry (rtrTable r) k)"

lemma only_at_refl [simp]: "only_at K r r"
  by (simp add: only_at_def)

lemma only_at_trans: "only_at K r r' \<Longrightarrow> only_at K' r' r'' \<Longrightarrow> only_at (K \<union> K') r r''"
  by (auto simp: only_at_def)

lemma only_at_same:
  assumes "only_at K r r'"
  shows "sessionIDs r' k = sessionIDs r k" "firstUp r' st k = firstUp r st k" "findSession r' k = findSession r k"
    "dom (indexToSubEntry (rtrTable r')) = dom (indexToSubEntry (rtrTable r))" "router_ok r' = router_ok r"
proof -
  have d: "dom (indexToSubEntry (rtrTable r')) = dom (indexToSubEntry (rtrTable r))"
    using assms unfolding only_at_def dom_def by (metis map_option_is_None)
  then show "dom (indexToSubEntry (rtrTable r')) = dom (indexToSubEntry (rtrTable r))" .
  show "sessionIDs r' k = sessionIDs r k" "firstUp r' st k = firstUp r st k" "findSession r' k = findSession r k" "router_ok r' = router_ok r"
    using assms d by (simp_all add: only_at_def sessionIDs_def firstUp_def findSession_def router_ok_def)
qed

lemma settled_elsewhere: "only_at K r r' \<Longrightarrow> k \<notin> K \<Longrightarrow> settled st r' k = settled st r k"
  by (simp add: settled_def only_at_same(2)) (simp add: only_at_def)

lemma useSession_settles:
  assumes "router_ok r" "k \<in> dom (RoutingTableIndices r)" "findSession r k = Some s"
  shows "\<exists>r'. useSession r k s = Ok r' \<and> only_at {k} r r' \<and> settled (sessionStates r) r' k"
proof -
  have up: "sessionStates r s = Some EventUp" using assms(3) by (auto simp: findSession_def find_Some_iff)
  obtain w se where w: "DataplaneSessions r s = Some w" "indexToSubEntry (rtrTable r) k = Some se"
    using assms up unfolding router_ok_def by (metis domD not_None_eq subsetD)
  then show ?thesis using assms(3)
    by (auto simp: useSession_def SetSession_def only_at_def settled_def firstUp_def findSession_def sessionIDs_def)
qed

lemma dropSession_settles:
  assumes "router_ok r" "k \<in> dom (RoutingTableIndices r)" "findSession r k = None"
  shows "\<exists>r'. dropSession r k = Ok r' \<and> only_at {k} r r' \<and> settled (sessionStates r) r' k"
proof -
  obtain se where "indexToSubEntry (rtrTable r) k = Some se" using assms unfolding router_ok_def by blast
  then show ?thesis using assms(3)
    by (auto simp: dropSession_def ClearSession_def only_at_def settled_def firstUp_def findSession_def sessionIDs_def)
qed

text \<open>Ranging over the indices: each of them is settled by its turn.\<close>

lemma forIndices_settles:
  assumes step: "\<And>r k. sessionStates r = st' \<Longrightarrow> router_ok r \<Longrightarrow> k \<in> dom (RoutingTableIndices r) \<Longrightarrow> settled st r k \<Longrightarrow>
      \<exists>r'. f r k = Ok r' \<and> only_at {k} r r' \<and> settled st' r' k"
  shows "distinct ks \<Longrightarrow> set ks \<subseteq> dom (RoutingTableIndices r) \<Longrightarrow> sessionStates r = st' \<Longrightarrow> router_ok r \<Longrightarrow> \<forall>k \<in> set ks. settled st r k \<Longrightarrow>
    \<exists>r'. forIndices f ks r = Ok r' \<and> only_at (set ks) r r' \<and> (\<forall>k \<in> set ks. settled st' r' k)"
proof (induction ks arbitrary: r)
  case (Cons k ks)
  obtain r1 where r1: "f r k = Ok r1" "only_at {k} r r1" "settled st' r1 k" using step[of r k] Cons.prems by auto
  have pre: "sessionStates r1 = st'" "RoutingTableIndices r1 = RoutingTableIndices r" using r1(2) Cons.prems(3) by (simp_all add: only_at_def)
  have "\<forall>j \<in> set ks. settled st r1 j" using Cons.prems(1,5) settled_elsewhere[OF r1(2)] by (metis distinct.simps(2) list.set_intros(2) singletonD)
  then obtain r2 where r2: "forIndices f ks r1 = Ok r2" "only_at (set ks) r1 r2" "\<forall>j \<in> set ks. settled st' r2 j"
    using Cons.IH[of r1] Cons.prems pre only_at_same(5)[OF r1(2)] by auto
  have "settled st' r2 k" using settled_elsewhere[OF r2(2)] r1(3) Cons.prems(1) by simp
  moreover have "only_at (set (k # ks)) r r2" using only_at_trans[OF r1(2) r2(2)] by simp
  ultimately show ?case using r1(1) r2 by auto
qed simp


lemma find_mono_None: "find P xs = None \<Longrightarrow> (\<And>x. x \<noteq> a \<Longrightarrow> Q x = P x) \<Longrightarrow> Q a \<Longrightarrow> a \<in> set xs \<Longrightarrow> find Q xs = Some a"
  by (induction xs) (auto split: if_splits)

lemma find_other:
  assumes "find P xs \<noteq> Some a" "\<And>x. x \<noteq> a \<Longrightarrow> Q x = P x" "\<not> Q a"
  shows "find Q xs = find P xs"
  using assms(1)
proof (induction xs)
  case (Cons x xs)
  then show ?case using assms(2)[of x] assms(3) by (cases "x = a") (auto split: if_splits)
qed simp

lemma settled_cong: "settled st r k \<Longrightarrow> firstUp r st' k = firstUp r st k \<Longrightarrow> settled st' r k"
  by (simp add: settled_def)

lemma findSession_firstUp: "findSession r k = firstUp r (sessionStates r) k"
  by (simp add: findSession_def firstUp_def)

lemma indexUp_settles:
  assumes st: "sessionStates r = st(sid \<mapsto> EventUp)" and ok: "router_ok r" "k \<in> dom (RoutingTableIndices r)" and se: "settled st r k"
  shows "\<exists>r'. indexUp sid r k = Ok r' \<and> only_at {k} r r' \<and> settled (st(sid \<mapsto> EventUp)) r' k"
proof (cases "sid \<in> set (sessionIDs r k)")
  case False
  then have "firstUp r (st(sid \<mapsto> EventUp)) k = firstUp r st k" unfolding firstUp_def by (intro find_cong) auto
  then show ?thesis using False settled_cong[OF se] by (simp add: indexUp_def)
next
  case True
  note use = useSession_settles[OF ok, unfolded st]
  show ?thesis
  proof (cases "currentSessions r k")
    case None
    then have "firstUp r st k = None" using se by (simp add: settled_def)
    then have "findSession r k = Some sid" unfolding findSession_def firstUp_def st by (rule find_mono_None) (use True in auto)
    then show ?thesis using None True use by (simp add: indexUp_def)
  next
    case (Some c)
    have "findSession r k \<noteq> None" using True by (auto simp: findSession_def find_None_iff st)
    then obtain b where b: "findSession r k = Some b" by blast
    show ?thesis
    proof (cases "c = b")
      case True
      then have "firstUp r (st(sid \<mapsto> EventUp)) k = firstUp r st k" using b Some se by (simp add: findSession_firstUp st settled_def)
      then show ?thesis using True Some b settled_cong[OF se] \<open>sid \<in> _\<close> by (simp add: indexUp_def)
    next
      case False
      then show ?thesis using Some b use[OF b] \<open>sid \<in> _\<close> by (simp add: indexUp_def)
    qed
  qed
qed

lemma indexDown_settles:
  assumes st: "sessionStates r = st(sid \<mapsto> EventDown)" and ok: "router_ok r" "k \<in> dom (RoutingTableIndices r)" and se: "settled st r k"
  shows "\<exists>r'. indexDown sid r k = Ok r' \<and> only_at {k} r r' \<and> settled (st(sid \<mapsto> EventDown)) r' k"
proof (cases "currentSessions r k = Some sid")
  case False
  then have "firstUp r st k \<noteq> Some sid" using se by (simp add: settled_def)
  then have "firstUp r (st(sid \<mapsto> EventDown)) k = firstUp r st k" unfolding firstUp_def by (rule find_other) auto
  then show ?thesis using False settled_cong[OF se] by (simp add: indexDown_def)
next
  case True
  then show ?thesis
    using useSession_settles[OF ok, unfolded st] dropSession_settles[OF ok, unfolded st]
    by (cases "findSession r k") (simp_all add: indexDown_def)
qed

section \<open>Runs of the router\<close>

text \<open>
  An event is handled with the map of its case ranged over in any order: \<^verbatim>\<open>RoutingTableIndices\<close> when a session goes up, \<^verbatim>\<open>currentSessions\<close>
  when one goes down.
\<close>

definition ranged :: "'s Router \<Rightarrow> Event \<Rightarrow> int set" where
  "ranged r event = (if event = EventUp then dom (RoutingTableIndices r) else dom (currentSessions r))"

inductive router_run :: "'s Router \<Rightarrow> (u8 \<times> Event) list \<Rightarrow> 's Router result \<Rightarrow> bool" where
  run_done: "router_run r [] (Ok r)"
| run_event: "distinct ks \<Longrightarrow> set ks = ranged r (snd ev) \<Longrightarrow> handleEvent ks r ev = Ok (r', err) \<Longrightarrow> router_run r' evs res \<Longrightarrow> router_run r (ev # evs) res"
| run_panic: "distinct ks \<Longrightarrow> set ks = ranged r (snd ev) \<Longrightarrow> handleEvent ks r ev = Panic \<Longrightarrow> router_run r (ev # evs) Panic"

inductive_cases router_run_NilE: "router_run r [] res"
inductive_cases router_run_ConsE: "router_run r (ev # evs) res"

definition router_inv :: "'s Router \<Rightarrow> bool" where
  "router_inv r \<longleftrightarrow> router_ok r \<and> dom (currentSessions r) \<subseteq> dom (RoutingTableIndices r) \<and> (\<forall>k. settled (sessionStates r) r k)"

text \<open>What does not change in a run.\<close>

definition same_setup :: "'s Router \<Rightarrow> 's Router \<Rightarrow> bool" where
  "same_setup r r' \<longleftrightarrow>
     RoutingTableIndices r' = RoutingTableIndices r \<and> DataplaneSessions r' = DataplaneSessions r \<and> rtTable (rtrTable r') = rtTable (rtrTable r) \<and>
     (\<forall>k. map_option seClass (indexToSubEntry (rtrTable r') k) = map_option seClass (indexToSubEntry (rtrTable r) k))"

definition noteEvent :: "'s Router \<Rightarrow> (u8 \<rightharpoonup> Event) \<Rightarrow> u8 \<times> Event \<Rightarrow> (u8 \<rightharpoonup> Event)" where
  "noteEvent r st ev = (if DataplaneSessions r (fst ev) = None then st else st(fst ev \<mapsto> snd ev))"

lemma unlisted_settled: "k \<notin> dom (RoutingTableIndices r) \<Longrightarrow> settled st r k \<longleftrightarrow> settled st' r k"
  by (simp add: settled_def firstUp_def sessionIDs_def domIff)

lemma handleEvent_inv:
  assumes inv: "router_inv r" and ev: "snd ev \<in> {EventUp, EventDown}" and ks: "distinct ks" "set ks = ranged r (snd ev)"
  shows "\<exists>r' err. handleEvent ks r ev = Ok (r', err) \<and> router_inv r' \<and> same_setup r r' \<and> sessionStates r' = noteEvent r (sessionStates r) ev"
proof (cases "DataplaneSessions r (fst ev) = None")
  case True
  then show ?thesis using inv by (auto simp: handleEvent_def noteEvent_def same_setup_def split: prod.splits)
next
  case False
  obtain sid event where [simp]: "ev = (sid, event)" by (cases ev)
  let ?st = "sessionStates r" let ?st' = "?st(sid \<mapsto> event)" let ?r = "r\<lparr>sessionStates := ?st'\<rparr>"
  let ?f = "if event = EventUp then indexUp sid else indexDown sid"
  have ok: "router_ok ?r" using inv False by (auto simp: router_inv_def router_ok_def)
  have se: "settled ?st ?r k" for k using inv by (simp add: router_inv_def settled_def firstUp_def sessionIDs_def)
  have sub: "set ks \<subseteq> dom (RoutingTableIndices ?r)" using inv ks(2) by (auto simp: router_inv_def ranged_def)
  have step: "\<exists>r'. ?f x k = Ok r' \<and> only_at {k} x r' \<and> settled ?st' r' k"
    if "sessionStates x = ?st'" "router_ok x" "k \<in> dom (RoutingTableIndices x)" "settled ?st x k" for x k
    using that ev indexUp_settles[of x ?st sid k] indexDown_settles[of x ?st sid k] by auto
  obtain r' where r': "forIndices ?f ks ?r = Ok r'" "only_at (set ks) ?r r'" "\<forall>k \<in> set ks. settled ?st' r' k"
    using forIndices_settles[of ?st' ?st ?f ks ?r] step ks(1) sub ok se by auto
  have st': "sessionStates r' = ?st'" "RoutingTableIndices r' = RoutingTableIndices r" using r'(2) by (simp_all add: only_at_def)
  have rest: "settled ?st' r' k" if "k \<notin> set ks" for k
  proof -
    have s: "settled ?st r' k" using settled_elsewhere[OF r'(2) that] se by simp
    show ?thesis
    proof (cases "event = EventUp")
      case True
      then have "k \<notin> dom (RoutingTableIndices r')" using that ks(2) st'(2) by (simp add: ranged_def)
      then show ?thesis using s unlisted_settled by metis
    next
      case False
      then have "firstUp r' ?st k \<noteq> Some sid" using that ks(2) se[of k] only_at_same(2)[OF r'(2)] by (auto simp: ranged_def settled_def)
      then have "firstUp r' ?st' k = firstUp r' ?st k" unfolding firstUp_def by (rule find_other) (use False in auto)
      then show ?thesis by (rule settled_cong[OF s])
    qed
  qed
  have dom': "dom (currentSessions r') \<subseteq> dom (RoutingTableIndices r')"
    using r'(2) sub inv by (auto simp: only_at_def router_inv_def) (metis domD domI subsetD)
  have "router_inv r'" using rest r'(3) dom' st' only_at_same(5)[OF r'(2)] ok by (auto simp: router_inv_def)
  moreover have "handleEvent ks r ev = Ok (r', None)" using False ev r'(1) by (auto simp: handleEvent_def)
  ultimately show ?thesis using r'(2) st' False by (auto simp: noteEvent_def same_setup_def only_at_def)
qed


lemma run_inv:
  assumes "router_run r evs res" "router_inv r" "\<forall>ev \<in> set evs. snd ev \<in> {EventUp, EventDown}"
  shows "\<exists>r'. res = Ok r' \<and> router_inv r' \<and> same_setup r r' \<and> sessionStates r' = foldl (noteEvent r) (sessionStates r) evs"
  using assms
proof (induction rule: router_run.induct)
  case (run_done r)
  then show ?case by (simp add: same_setup_def)
next
  case (run_event ks r ev r' err evs res)
  have r': "router_inv r'" "same_setup r r'" "sessionStates r' = noteEvent r (sessionStates r) ev"
    using handleEvent_inv[of r ev ks] run_event by auto
  have "noteEvent r' = noteEvent r" using r'(2) by (intro ext) (simp add: noteEvent_def same_setup_def)
  then show ?case using run_event.IH run_event.prems r' by (auto simp: same_setup_def)
next
  case (run_panic ks r ev evs)
  then show ?case using handleEvent_inv[of r ev ks] by auto
qed

text \<open>The router is never stuck: whatever the events, it has handled them all in some order of its maps.\<close>

lemma run_exists:
  assumes "router_inv r" "finite (dom (RoutingTableIndices r))" "\<forall>ev \<in> set evs. snd ev \<in> {EventUp, EventDown}"
  shows "\<exists>r'. router_run r evs (Ok r')"
  using assms
proof (induction evs arbitrary: r)
  case Nil
  then show ?case by (blast intro: run_done)
next
  case (Cons ev evs)
  have "finite (ranged r (snd ev))" using Cons.prems finite_subset by (auto simp: router_inv_def ranged_def)
  then obtain ks where ks: "set ks = ranged r (snd ev)" "distinct ks" using finite_distinct_list by blast
  obtain r' err where r': "handleEvent ks r ev = Ok (r', err)" "router_inv r'" "same_setup r r'"
    using handleEvent_inv[of r ev ks] Cons.prems ks by auto
  obtain r'' where "router_run r' evs (Ok r'')" using Cons.IH[of r'] Cons.prems r' by (auto simp: same_setup_def)
  then show ?case using run_event[OF ks(2,1) r'(1)] by blast
qed

lemma states_after:
  "foldl (noteEvent r) st evs s = (if DataplaneSessions r s = None then st s else case map_of (rev evs) s of None \<Rightarrow> st s | Some e \<Rightarrow> Some e)"
  by (induction evs rule: rev_induct) (auto simp: noteEvent_def split: option.splits)

section \<open>Routing as specified\<close>

text \<open>The class of an index is that of its first traffic matcher.\<close>

definition classOf :: "RoutingChain list \<Rightarrow> int \<Rightarrow> Cond option" where
  "classOf chs i = map_option tmMatcher (find (\<lambda>tm. tmID tm = i) (chainMatchers chs))"

text \<open>The index that a packet belongs to: the first class that matches among those of the longest prefix.\<close>

definition packetIndex :: "l4env \<Rightarrow> RoutingChain list \<Rightarrow> bytes \<Rightarrow> Layer \<Rightarrow> int option" where
  "packetIndex E chs dst pkt =
     Option.bind (longest dst (chainEntries chs)) (\<lambda>e. find (\<lambda>i. case classOf chs i of None \<Rightarrow> False | Some c \<Rightarrow> Cond_Eval E c pkt) (reTable e))"

text \<open>A session is up when it is known and its last event says so; an index uses the first of its sessions that is up.\<close>

definition upAfter :: "'s Router \<Rightarrow> (u8 \<times> Event) list \<Rightarrow> u8 \<Rightarrow> bool" where
  "upAfter r evs s \<longleftrightarrow> DataplaneSessions r s \<noteq> None \<and> map_of (rev evs) s = Some EventUp"

definition indexSession :: "'s Router \<Rightarrow> (u8 \<times> Event) list \<Rightarrow> int \<Rightarrow> 's option" where
  "indexSession r evs i = Option.bind (find (upAfter r evs) (sessionIDs r i)) (DataplaneSessions r)"

fun layerDst :: "Layer \<Rightarrow> bytes" where
  "layerDst (LayerIPv4 p) = ip4Dst p"
| "layerDst (LayerIPv6 p) = ip6Dst p"

fun isFragment :: "Layer \<Rightarrow> bool" where
  "isFragment (LayerIPv4 p) = (ip4MoreFragments p \<or> ip4FragOffset p \<noteq> 0)"
| "isFragment (LayerIPv6 p) = False"

lemma initial_inv:
  assumes "rtrTable r = NewRoutingTable chs" "dom (RoutingTableIndices r) \<subseteq> tmID ` set (chainMatchers chs)"
  shows "router_inv (Router_initData r)"
proof -
  have none: "find (\<lambda>s. False) xs = None" for xs :: "u8 list" by (simp add: find_None_iff)
  have "settled (sessionStates (Router_initData r)) (Router_initData r) k" for k
    using assms(1) by (simp add: settled_def Router_initData_def firstUp_def none new_table_sub option.map_comp o_def)
  then show ?thesis using assms by (auto simp: router_inv_def router_ok_def new_table_dom Router_initData_def)
qed

lemma after_run:
  assumes run: "router_run (Router_initData r) evs res" and table: "rtrTable r = NewRoutingTable chs"
    and idx: "dom (RoutingTableIndices r) \<subseteq> tmID ` set (chainMatchers chs)" and evs: "\<forall>ev \<in> set evs. snd ev \<in> {EventUp, EventDown}"
  shows "\<exists>r'. res = Ok r' \<and> table_ok (rtrTable r') \<and> rtTable (rtrTable r') = chainEntries chs \<and>
    (\<forall>i. map_option seClass (indexToSubEntry (rtrTable r') i) = classOf chs i) \<and>
    (\<forall>i. map_option seSession (indexToSubEntry (rtrTable r') i) = map_option (\<lambda>_. indexSession r evs i) (classOf chs i))"
proof -
  let ?r = "Router_initData r"
  obtain r' where r': "res = Ok r'" "router_inv r'" "same_setup ?r r'" "sessionStates r' = foldl (noteEvent ?r) (sessionStates ?r) evs"
    using run_inv[OF run initial_inv[OF table idx] evs] by blast
  have [simp]: "RoutingTableIndices ?r = RoutingTableIndices r" "DataplaneSessions ?r = DataplaneSessions r" "rtrTable ?r = rtrTable r" "sessionStates ?r = Map.empty"
    by (simp_all add: Router_initData_def)
  have up: "sessionStates r' s = Some EventUp \<longleftrightarrow> upAfter r evs s" for s
    by (simp add: r'(4) states_after upAfter_def split: option.splits)
  have cls: "map_option seClass (indexToSubEntry (rtrTable r') i) = classOf chs i" for i
    using r'(3) table by (simp add: same_setup_def new_table_sub classOf_def option.map_comp o_def)
  have first: "Option.bind (firstUp r' (sessionStates r') i) (DataplaneSessions r') = indexSession r evs i" for i
    using r'(3) by (simp add: indexSession_def firstUp_def up sessionIDs_def same_setup_def)
  have "map_option seSession (indexToSubEntry (rtrTable r') i) = map_option (\<lambda>_. indexSession r evs i) (classOf chs i)" for i
  proof -
    have "map_option seSession (indexToSubEntry (rtrTable r') i) = map_option (\<lambda>_. indexSession r evs i) (indexToSubEntry (rtrTable r') i)"
      using r'(2) first[of i] by (simp add: router_inv_def settled_def)
    also have "\<dots> = map_option (\<lambda>_. indexSession r evs i) (classOf chs i)" using cls[of i, symmetric] by (simp add: option.map_comp o_def)
    finally show ?thesis .
  qed
  moreover have "dom (indexToSubEntry (rtrTable r')) = dom (indexToSubEntry (rtrTable r))"
    using r'(3) unfolding same_setup_def dom_def by (metis \<open>rtrTable ?r = rtrTable r\<close> map_option_is_None)
  then have "table_ok (rtrTable r')" using r'(3) table new_table_ok[of chs, where 'a='a] by (simp add: table_ok_def same_setup_def)
  moreover have "rtTable (rtrTable r') = chainEntries chs" using r'(3) table by (simp add: same_setup_def NewRoutingTable_eq)
  ultimately show ?thesis using r'(1) cls by blast
qed

lemma sessionOf_spec:
  assumes "\<forall>i. map_option seClass (m i) = classOf chs i" "\<forall>i. map_option seSession (m i) = map_option (\<lambda>_. g i) (classOf chs i)"
    and "\<forall>e \<in> set (chainEntries chs). set (reTable e) \<subseteq> dom m"
  shows "sessionOf E m pkt (longest dst (chainEntries chs)) = Option.bind (packetIndex E chs dst pkt) g"
proof (cases "longest dst (chainEntries chs)")
  case None
  then show ?thesis by (simp add: sessionOf_def packetIndex_def)
next
  case (Some e)
  have "e \<in> set (chainEntries chs)" using longest_max[OF Some] by (simp add: covering_def)
  then have sub: "set (reTable e) \<subseteq> dom m" using assms(3) by blast
  have at: "\<exists>se. m i = Some se \<and> classOf chs i = Some (seClass se) \<and> seSession se = g i" if "i \<in> set (reTable e)" for i
    using that sub assms(1,2) by (metis (no_types, lifting) domD option.inject option.map(2) subsetD)
  have idx: "packetIndex E chs dst pkt = firstClass E m pkt e"
    unfolding packetIndex_def Some firstClass_def Option.bind.bind_lunit by (intro find_cong) (use at in fastforce)+
  have "seSession (the (m i)) = g i" if "firstClass E m pkt e = Some i" for i
    using that at[of i] by (auto simp: firstClass_def find_Some_iff)
  then show ?thesis unfolding idx by (cases "firstClass E m pkt e") (simp_all add: sessionOf_def Some)
qed


lemma routed:
  assumes run: "router_run (Router_initData r) evs res" and table: "rtrTable r = NewRoutingTable chs"
    and idx: "dom (RoutingTableIndices r) \<subseteq> tmID ` set (chainMatchers chs)" and evs: "\<forall>ev \<in> set evs. snd ev \<in> {EventUp, EventDown}"
    and buf: "buf \<noteq> []" "drop_bit 4 (buf ! 0) \<in> {4, 6}" "decode buf = Some (Some pkt)" "\<not> isFragment pkt"
  shows "\<exists>r'. res = Ok r' \<and>
    forwardPacket E decode (Some (rtrTable r')) buf =
      Ok (case Option.bind (packetIndex E chs (layerDst pkt) pkt) (indexSession r evs) of None \<Rightarrow> FwdNoRoute | Some s \<Rightarrow> FwdWrite s)"
proof -
  obtain r' where r': "res = Ok r'" "table_ok (rtrTable r')" "rtTable (rtrTable r') = chainEntries chs"
      "\<forall>i. map_option seClass (indexToSubEntry (rtrTable r') i) = classOf chs i"
      "\<forall>i. map_option seSession (indexToSubEntry (rtrTable r') i) = map_option (\<lambda>_. indexSession r evs i) (classOf chs i)"
    using after_run[OF run table idx evs] by blast
  have "rt_route E (rtrTable r') (layerDst pkt) pkt = Ok (Option.bind (packetIndex E chs (layerDst pkt) pkt) (indexSession r evs))"
    using rt_route_longest[OF r'(2)] sessionOf_spec[OF r'(4,5)] r'(2,3) by (simp add: table_ok_def)
  then show ?thesis using r'(1) buf
    by (cases pkt) (auto simp: forwardPacket_def Let_def Atomic_RouteIPv4_def Atomic_RouteIPv6_def RouteIPv4_def RouteIPv6_def)
qed

lemma routed_packet:
  assumes "router_run (Router_initData r) evs (Ok r')" "rtrTable r = NewRoutingTable chs"
    and "dom (RoutingTableIndices r) \<subseteq> tmID ` set (chainMatchers chs)" "\<forall>ev \<in> set evs. snd ev \<in> {EventUp, EventDown}"
    and "buf \<noteq> []" "drop_bit 4 (buf ! 0) \<in> {4, 6}" "decode buf = Some (Some pkt)" "\<not> isFragment pkt"
  shows "forwardPacket E decode (Some (rtrTable r')) buf =
    Ok (case Option.bind (packetIndex E chs (layerDst pkt) pkt) (indexSession r evs) of None \<Rightarrow> FwdNoRoute | Some s \<Rightarrow> FwdWrite s)"
  using routed[where decode = decode and E = E, OF assms] by auto

text \<open>C16: The gateway sends a packet over the right session. After any sequence of events that sessions go up or down, handled by the router with its maps
  ranged over in any order, the router has not panicked, and the data plane writes a packet, that was decoded and is not a fragment, to the first session in the priority
  list of the packet's index that is known and whose last event was up; the index is that of the first traffic class that matches among those
  of the longest prefix that contains the destination, the last one in the table when several are equally long. Without such a prefix,
  class or session the packet has no route.
\<close>
theorem gateway_routes:
  assumes run: "router_run (Router_initData r) evs res" and table: "rtrTable r = NewRoutingTable chs"
    and idx: "dom (RoutingTableIndices r) \<subseteq> tmID ` set (chainMatchers chs)" and evs: "\<forall>ev \<in> set evs. snd ev \<in> {EventUp, EventDown}"
    and buf: "buf \<noteq> []" "drop_bit 4 (buf ! 0) \<in> {4, 6}" "decode buf = Some (Some pkt)" "\<not> isFragment pkt"
  shows "\<exists>r'. res = Ok r' \<and>
    forwardPacket E decode (Some (rtrTable r')) buf =
      Ok (case Option.bind (packetIndex E chs (layerDst pkt) pkt) (indexSession r evs) of None \<Rightarrow> FwdNoRoute | Some s \<Rightarrow> FwdWrite s)"
  using assms by (rule routed)

text \<open>Two chains, 10.0.0.0/8 and 10.1.0.0/16; the second has the sessions 2 and 3 in this order. Session 2 goes up after 3.\<close>

definition sample_chains :: "RoutingChain list" where
  "sample_chains =
    [\<lparr>RemoteIA = 0, Prefixes = [\<lparr>netIP = [10, 1, 0, 0], netMask = [255, 255, 0, 0]\<rparr>], TrafficMatchers = [\<lparr>tmID = 1, tmMatcher = CondIPv4 (Some (IPv4MatchDSCP 9))\<rparr>, \<lparr>tmID = 2, tmMatcher = CondBool True\<rparr>]\<rparr>,
     \<lparr>RemoteIA = 0, Prefixes = [\<lparr>netIP = [10, 0, 0, 0], netMask = [255, 0, 0, 0]\<rparr>], TrafficMatchers = [\<lparr>tmID = 3, tmMatcher = CondBool True\<rparr>]\<rparr>]"

definition sample_router :: "string Router" where
  "sample_router =
    \<lparr>rtrTable = NewRoutingTable sample_chains, RoutingTableIndices = [1 \<mapsto> [1], 2 \<mapsto> [2, 3], 3 \<mapsto> [1]],
     DataplaneSessions = [1 \<mapsto> ''a'', 2 \<mapsto> ''b'', 3 \<mapsto> ''c''], sessionStates = Map.empty, currentSessions = Map.empty\<rparr>"

definition sample_pkt :: layers_IPv4 where
  "sample_pkt = \<lparr>ip4Src = [10, 2, 0, 1], ip4Dst = [10, 1, 0, 7], ip4TOS = 0, ip4Protocol = 17, ip4MoreFragments = False, ip4FragOffset = 0, ip4Payload = []\<rparr>"

definition sample_l4env :: l4env where
  "sample_l4env = \<lparr>NextLayerType = \<lambda>_. LayerTypeUDP, udpPorts = \<lambda>_. None, tcpPorts = \<lambda>_. None\<rparr>"

definition sample_events :: "(u8 \<times> Event) list" where
  "sample_events = [(1, EventUp), (3, EventUp), (2, EventUp), (1, EventDown)]"

lemma sample_matchers: "tmID ` set (chainMatchers sample_chains) = {1, 2, 3}"
  by (simp add: chainMatchers_def sample_chains_def)

lemma sample_idx: "dom (RoutingTableIndices sample_router) \<subseteq> tmID ` set (chainMatchers sample_chains)" "rtrTable sample_router = NewRoutingTable sample_chains"
  by (auto simp: sample_matchers sample_router_def split: if_splits)

lemma sample_index: "packetIndex sample_l4env sample_chains [10, 1, 0, 7] (LayerIPv4 sample_pkt) = Some 2"
  by code_simp

lemma sample_session: "indexSession sample_router sample_events 2 = Some ''b''"
  by (simp add: indexSession_def sessionIDs_def sample_router_def sample_events_def upAfter_def)

theorem gateway_routes_witness:
  "\<exists>r'. router_run (Router_initData sample_router) sample_events (Ok r') \<and>
     forwardPacket sample_l4env (\<lambda>_. Some (Some (LayerIPv4 sample_pkt))) (Some (rtrTable r')) [0x45] = Ok (FwdWrite ''b'')"
proof -
  have evs: "\<forall>ev \<in> set sample_events. snd ev \<in> {EventUp, EventDown}" by (simp add: sample_events_def)
  have "finite (dom (RoutingTableIndices (Router_initData sample_router)))" by (simp add: Router_initData_def sample_router_def)
  then obtain r' where r': "router_run (Router_initData sample_router) sample_events (Ok r')"
    using run_exists[OF initial_inv[OF sample_idx(2,1)] _ evs] by blast
  have "drop_bit 4 ([0x45 :: u8] ! 0) \<in> {4, 6}" by simp
  with gateway_routes[OF r' sample_idx(2,1) evs, of "[0x45]" "\<lambda>_. Some (Some (LayerIPv4 sample_pkt))" "LayerIPv4 sample_pkt" sample_l4env]
  show ?thesis using r' sample_index sample_session by (auto simp: sample_pkt_def)
qed

end
