(* ===== verification/GwConfig.thy ===== *)
theory GwConfig
  imports GwRouting
begin

text \<open>
  From the policies of the gateway to its routing chains: session configurations (\<^verbatim>\<open>gateway/control/sessionconfigurator.go\<close>), the
  chains and the priorities of the sessions (\<^verbatim>\<open>gateway/control/enginecontroller.go\<close>), the sessions of an engine (\<^verbatim>\<open>gateway/control/engine.go\<close>). Networks and traffic classes are compared by their text,
  which is modelled; addresses of gateways are their text. The names of the IP protocols, of gopacket, and the parser of path
  sequences are parameters (\<open>cfgEnv\<close>).
\<close>

section \<open>Text of networks and classes\<close>

definition hexByte :: "u8 \<Rightarrow> string" where
  "hexByte b = padLeft 2 (FormatUint (unat b) 16)"

fun join :: "string \<Rightarrow> string list \<Rightarrow> string" where
  "join sep [] = ''''"
| "join sep [x] = x"
| "join sep (x # y # ys) = x @ sep @ join sep (y # ys)"

definition ip6_word :: "bytes \<Rightarrow> nat \<Rightarrow> nat" where
  "ip6_word ip i = unat (ip ! (2 * i)) * 256 + unat (ip ! (2 * i + 1))"

text \<open>The longest run of at least two zero words, the first one of that length.\<close>

definition zeroRun :: "nat list \<Rightarrow> nat \<times> nat" where
  "zeroRun ws = foldl (\<lambda>(a, b) i. let j = i + length (takeWhile (\<lambda>w. w = 0) (drop i ws)) in
     if j - i \<ge> 2 \<and> j - i > b - a then (i, j) else (a, b)) (255, 255) [0..<8]"

definition ip6_String :: "bytes \<Rightarrow> string" where
  "ip6_String ip =
    (let ws = map (ip6_word ip) [0..<8]; hs = map (\<lambda>w. FormatUint w 16) ws; (a, b) = zeroRun ws in
     if a = 255 then join '':'' hs else join '':'' (take a hs) @ ''::'' @ join '':'' (drop b hs))"

definition ip_String :: "bytes \<Rightarrow> string" where
  "ip_String ip =
    (if ip = [] then ''<nil>''
     else case ip_To4 ip of
       Some x \<Rightarrow> join ''.'' (map (\<lambda>b. FormatUint (unat b) 10) x)
     | None \<Rightarrow> if length ip = 16 then ip6_String ip else CHR ''?'' # concat (map hexByte ip))"

definition IPNet_String :: "IPNet \<Rightarrow> string" where
  "IPNet_String n =
    (let (nn, m) = networkNumberAndMask n in
     if nn = [] \<or> m = [] then ''<nil>''
     else case simpleMaskLength m of
       None \<Rightarrow> ip_String nn @ ''/'' @ concat (map hexByte m)
     | Some l \<Rightarrow> ip_String nn @ ''/'' @ FormatUint l 10)"

record 'p cfgEnv =
  protocolName :: "u8 \<Rightarrow> string"
  newSequence :: "string \<Rightarrow> 'p option"

fun IPv4Predicate_String :: "'p cfgEnv \<Rightarrow> IPv4Predicate \<Rightarrow> string" where
  "IPv4Predicate_String E (IPv4MatchSource n) = ''src='' @ IPNet_String n"
| "IPv4Predicate_String E (IPv4MatchDestination n) = ''dst='' @ IPNet_String n"
| "IPv4Predicate_String E (IPv4MatchToS t) = ''tos=0x'' @ FormatUint (unat t) 16"
| "IPv4Predicate_String E (IPv4MatchDSCP d) = ''dscp=0x'' @ FormatUint (unat d) 16"
| "IPv4Predicate_String E (IPv4MatchProtocol q) = ''protocol='' @ protocolName E q"

fun PortPredicate_String :: "PortPredicate \<Rightarrow> string" where
  "PortPredicate_String (PortMatchSource a b) = ''srcport='' @ FormatUint (unat a) 10 @ ''-'' @ FormatUint (unat b) 10"
| "PortPredicate_String (PortMatchDestination a b) = ''dstport='' @ FormatUint (unat a) 10 @ ''-'' @ FormatUint (unat b) 10"

fun Cond_String :: "'p cfgEnv \<Rightarrow> Cond \<Rightarrow> string" where
  "Cond_String E (CondAnyOf cs) = ''any('' @ join '','' (map (Cond_String E) cs) @ '')''"
| "Cond_String E (CondAllOf cs) = ''all('' @ join '','' (map (Cond_String E) cs) @ '')''"
| "Cond_String E (CondNot c) = ''not('' @ (case c of None \<Rightarrow> ''<nil>'' | Some c \<Rightarrow> Cond_String E c) @ '')''"
| "Cond_String E (CondBool b) = ''BOOL='' @ (if b then ''true'' else ''false'')"
| "Cond_String E (CondIPv4 q) = (case q of None \<Rightarrow> ''<nil>'' | Some q \<Rightarrow> IPv4Predicate_String E q)"
| "Cond_String E (CondPorts q) = (case q of None \<Rightarrow> ''<nil>'' | Some q \<Rightarrow> PortPredicate_String q)"
| "Cond_String E (CondClass s) = ''cls='' @ s"

section \<open>Session configurations\<close>

record Gateway =
  gwControl :: string
  gwProbe :: string
  gwData :: string
  gwInterfaces :: "u64 list"

datatype 'p PathPolicy = DefaultPathPolicy | ConfiguredPolicy 'p | conjuctionPathPol "'p PathPolicy" "'p PathPolicy"

record 'p SessionPolicy =
  spIA :: IA
  spID :: int
  spTrafficMatcher :: Cond
  spPerfPolicy :: nat
  spPathPolicy :: "'p PathPolicy"
  spPathCount :: int
  spPrefixes :: "IPNet list"

record RemoteGateway =
  rgGateway :: Gateway
  rgPrefixes :: "IPNet list"

record 'p SessionConfig =
  scID :: u8
  scPolicyID :: int
  scIA :: IA
  scTrafficMatcher :: Cond
  scPerfPolicy :: nat
  scPathPolicy :: "'p PathPolicy"
  scPathCount :: int
  scGateway :: Gateway
  scPrefixes :: "IPNet list"

definition newPathPolForEnteringAS :: "'p cfgEnv \<Rightarrow> IA \<Rightarrow> u64 list \<Rightarrow> 'p PathPolicy result" where
  "newPathPolForEnteringAS E ia allowedInterfaces =
    (if allowedInterfaces = [] then Ok DefaultPathPolicy
     else case newSequence E (''0* ('' @ join ''|'' (map (\<lambda>intf. IA_String ia @ ''#'' @ FormatUint (unat intf) 10) allowedInterfaces) @ '')'') of
       None \<Rightarrow> Panic
     | Some p \<Rightarrow> Ok (ConfiguredPolicy p))"

definition PathPolicyWithAllowedInterfaces :: "'p cfgEnv \<Rightarrow> 'p PathPolicy \<Rightarrow> IA \<Rightarrow> u64 list \<Rightarrow> 'p PathPolicy result" where
  "PathPolicyWithAllowedInterfaces E policy remote allowedInterfaces =
    (if allowedInterfaces = [] then Ok policy
     else mapR (\<lambda>dynPol. if policy = DefaultPathPolicy then dynPol else conjuctionPathPol policy dynPol)
       (newPathPolForEnteringAS E remote allowedInterfaces))"

fun addNets :: "string list \<Rightarrow> IPNet list \<Rightarrow> IPNet list" where
  "addNets seen [] = []"
| "addNets seen (n # ns) = (if IPNet_String n \<in> set seen then addNets seen ns else n # addNets (IPNet_String n # seen) ns)"

text \<open>One pass over the static prefixes and then the dynamic ones, with the same set of networks seen.\<close>

definition mergePrefixes :: "IPNet list \<Rightarrow> IPNet list \<Rightarrow> IPNet list" where
  "mergePrefixes static dynamic = addNets [] (static @ dynamic)"

fun policyConfigs :: "'p cfgEnv \<Rightarrow> 'p SessionPolicy \<Rightarrow> RemoteGateway list \<Rightarrow> u8 \<Rightarrow> ('p SessionConfig list \<times> u8) result" where
  "policyConfigs E sp [] sessID = Ok ([], sessID)"
| "policyConfigs E sp (entry # es) sessID =
    bindR (PathPolicyWithAllowedInterfaces E (spPathPolicy sp) (spIA sp) (gwInterfaces (rgGateway entry))) (\<lambda>pathPol.
    bindR (policyConfigs E sp es (sessID + 1)) (\<lambda>(rest, sessID').
      Ok (\<lparr>scID = sessID, scPolicyID = spID sp, scIA = spIA sp, scTrafficMatcher = spTrafficMatcher sp, scPerfPolicy = spPerfPolicy sp,
           scPathPolicy = pathPol, scPathCount = spPathCount sp, scGateway = rgGateway entry,
           scPrefixes = mergePrefixes (spPrefixes sp) (rgPrefixes entry)\<rparr> # rest, sessID')))"

fun configLoop :: "'p cfgEnv \<Rightarrow> (IA \<rightharpoonup> RemoteGateway list) \<Rightarrow> 'p SessionPolicy list \<Rightarrow> u8 \<Rightarrow> 'p SessionConfig list result" where
  "configLoop E remotes [] sessID = Ok []"
| "configLoop E remotes (sp # sps) sessID =
    (case remotes (spIA sp) of
       None \<Rightarrow> configLoop E remotes sps sessID
     | Some gateways \<Rightarrow>
         bindR (policyConfigs E sp gateways sessID) (\<lambda>(cs, sessID'). mapR (\<lambda>rest. cs @ rest) (configLoop E remotes sps sessID')))"

text \<open>Without policies (\<^verbatim>\<open>nil\<close>) there are no sessions.\<close>

definition buildSessionConfigs :: "'p cfgEnv \<Rightarrow> 'p SessionPolicy list option \<Rightarrow> (IA \<rightharpoonup> RemoteGateway list) \<Rightarrow> 'p SessionConfig list result" where
  "buildSessionConfigs E sessionPolicies remotes = (case sessionPolicies of None \<Rightarrow> Ok [] | Some sps \<Rightarrow> configLoop E remotes sps 0)"

section \<open>Routing chains\<close>

text \<open>For each network, by its text, the gateways of the AS that serve it.\<close>

definition addGateway :: "'p SessionConfig \<Rightarrow> (string \<rightharpoonup> string set) \<Rightarrow> IPNet \<Rightarrow> (string \<rightharpoonup> string set)" where
  "addGateway sc m p = m(IPNet_String p \<mapsto> insert (gwControl (scGateway sc)) (case m (IPNet_String p) of None \<Rightarrow> {} | Some s \<Rightarrow> s))"

definition buildPrefixToGatewayMapping :: "'p SessionConfig list \<Rightarrow> (string \<rightharpoonup> string set)" where
  "buildPrefixToGatewayMapping iaSessions = foldl (\<lambda>m sc. foldl (addGateway sc) m (scPrefixes sc)) Map.empty iaSessions"

definition gatewaysAt :: "(string \<rightharpoonup> string set) \<Rightarrow> IPNet \<Rightarrow> string set" where
  "gatewaysAt m p = (case m (IPNet_String p) of None \<Rightarrow> {} | Some s \<Rightarrow> s)"

definition groupOf :: "(string \<rightharpoonup> nat) \<Rightarrow> IPNet \<Rightarrow> nat" where
  "groupOf G p = (case G (IPNet_String p) of None \<Rightarrow> 0 | Some g \<Rightarrow> g)"

text \<open>A prefix together with the prefixes before it in its session.\<close>

definition groupPrefix :: "(string \<rightharpoonup> string set) \<Rightarrow> nat \<Rightarrow> (string \<rightharpoonup> nat) \<times> nat \<Rightarrow> IPNet \<times> IPNet list \<Rightarrow> (string \<rightharpoonup> nat) \<times> nat" where
  "groupPrefix gws startID st x =
    (let (G, groupCount) = st; (p, earlier) = x in
     if G (IPNet_String p) \<noteq> None then (G, groupCount)
     else case find (\<lambda>q. gatewaysAt gws p = gatewaysAt gws q) earlier of
       Some q \<Rightarrow> (G(IPNet_String p \<mapsto> groupOf G q), groupCount)
     | None \<Rightarrow> (G(IPNet_String p \<mapsto> startID + groupCount), groupCount + 1))"

definition withEarlier :: "IPNet list \<Rightarrow> (IPNet \<times> IPNet list) list" where
  "withEarlier ps = map (\<lambda>i. (ps ! i, take i ps)) [0..<length ps]"

definition buildPrefixGroups :: "'p SessionConfig list \<Rightarrow> (string \<rightharpoonup> string set) \<Rightarrow> nat \<Rightarrow> (string \<rightharpoonup> nat)" where
  "buildPrefixGroups iaSessions gws startID =
     fst (foldl (groupPrefix gws startID) (Map.empty, 0) (concat (map (\<lambda>sc. withEarlier (scPrefixes sc)) iaSessions)))"

definition findTrafficMatcherID :: "'p cfgEnv \<Rightarrow> TrafficMatcher list \<Rightarrow> Cond \<Rightarrow> int option" where
  "findTrafficMatcherID E options search = map_option tmID (find (\<lambda>tm. Cond_String E (tmMatcher tm) = Cond_String E search) options)"

definition ip_Equal :: "bytes \<Rightarrow> bytes \<Rightarrow> bool" where
  "ip_Equal a b =
    (if length a = length b then a = b
     else if length a = 4 \<and> length b = 16 then take 12 b = replicate 10 0 @ [0xff, 0xff] \<and> a = drop 12 b
     else if length a = 16 \<and> length b = 4 then take 12 a = replicate 10 0 @ [0xff, 0xff] \<and> drop 12 a = b
     else False)"

definition equalCIDR :: "IPNet \<Rightarrow> IPNet \<Rightarrow> bool" where
  "equalCIDR a b \<longleftrightarrow> ip_Equal (netIP a) (netIP b) \<and> netMask a = netMask b"

definition nonDuplicateAppendNet :: "IPNet list \<Rightarrow> IPNet \<Rightarrow> IPNet list" where
  "nonDuplicateAppendNet nets add = (if \<exists>e \<in> set nets. equalCIDR e add then nets else nets @ [add])"

definition nonDuplicateAppendID :: "u8 list \<Rightarrow> u8 \<Rightarrow> u8 list" where
  "nonDuplicateAppendID ids add = (if add \<in> set ids then ids else ids @ [add])"

text \<open>The chains, the sessions of each index and the next index.\<close>

record chainState =
  routingChains :: "RoutingChain list"
  sessionMap :: "int \<rightharpoonup> u8 list"
  trafficMatcherID :: int

definition sessionsAt :: "(int \<rightharpoonup> u8 list) \<Rightarrow> int \<Rightarrow> u8 list" where
  "sessionsAt m i = (case m i of None \<Rightarrow> [] | Some ids \<Rightarrow> ids)"

definition ensureChain :: "IA \<Rightarrow> nat \<Rightarrow> RoutingChain list \<Rightarrow> RoutingChain list" where
  "ensureChain ia groupID rcs = (if groupID = length rcs then rcs @ [\<lparr>RemoteIA = ia, Prefixes = [], TrafficMatchers = []\<rparr>] else rcs)"

text \<open>The chain with the matcher of the session, the index of that matcher and the next index.\<close>

definition chainMatcher :: "'p cfgEnv \<Rightarrow> Cond \<Rightarrow> int \<Rightarrow> RoutingChain \<Rightarrow> RoutingChain \<times> int \<times> int" where
  "chainMatcher E cond next c =
    (case findTrafficMatcherID E (TrafficMatchers c) cond of
       Some i \<Rightarrow> (c, i, next)
     | None \<Rightarrow> (c\<lparr>TrafficMatchers := TrafficMatchers c @ [\<lparr>tmID = next, tmMatcher = cond\<rparr>]\<rparr>, next, next + 1))"

definition addToChain :: "'p cfgEnv \<Rightarrow> IA \<Rightarrow> (string \<rightharpoonup> nat) \<Rightarrow> 'p SessionConfig \<Rightarrow> IPNet \<Rightarrow> chainState \<Rightarrow> chainState result" where
  "addToChain E ia prefixGroups sc prefix st =
    (let groupID = groupOf prefixGroups prefix; rcs = ensureChain ia groupID (routingChains st) in
     if groupID \<ge> length rcs then Panic
     else
       let c = (rcs ! groupID)\<lparr>Prefixes := nonDuplicateAppendNet (Prefixes (rcs ! groupID)) prefix\<rparr>;
           (c', tm, next) = chainMatcher E (scTrafficMatcher sc) (trafficMatcherID st) c in
       Ok \<lparr>routingChains = rcs[groupID := c'],
           sessionMap = (sessionMap st)(tm \<mapsto> nonDuplicateAppendID (sessionsAt (sessionMap st) tm) (scID sc)),
           trafficMatcherID = next\<rparr>)"

fun addAll :: "'p cfgEnv \<Rightarrow> IA \<Rightarrow> (string \<rightharpoonup> nat) \<Rightarrow> ('p SessionConfig \<times> IPNet) list \<Rightarrow> chainState \<Rightarrow> chainState result" where
  "addAll E ia G [] st = Ok st"
| "addAll E ia G ((sc, p) # xs) st = bindR (addToChain E ia G sc p st) (addAll E ia G xs)"

definition sessionPrefixes :: "'p SessionConfig list \<Rightarrow> ('p SessionConfig \<times> IPNet) list" where
  "sessionPrefixes iaSessions = concat (map (\<lambda>sc. map (Pair sc) (scPrefixes sc)) iaSessions)"

definition addIA :: "'p cfgEnv \<Rightarrow> 'p SessionConfig list \<Rightarrow> chainState \<Rightarrow> IA \<Rightarrow> chainState result" where
  "addIA E scs st ia =
    (let iaSessions = filter (\<lambda>sc. scIA sc = ia) scs; gws = buildPrefixToGatewayMapping iaSessions;
         prefixGroups = buildPrefixGroups iaSessions gws (length (routingChains st)) in
     addAll E ia prefixGroups (sessionPrefixes iaSessions) st)"

fun addIAs :: "'p cfgEnv \<Rightarrow> 'p SessionConfig list \<Rightarrow> IA list \<Rightarrow> chainState \<Rightarrow> chainState result" where
  "addIAs E scs [] st = Ok st"
| "addIAs E scs (ia # ias) st = bindR (addIA E scs st ia) (addIAs E scs ias)"

definition buildRoutingChains :: "'p cfgEnv \<Rightarrow> 'p SessionConfig list \<Rightarrow> (RoutingChain list \<times> (int \<rightharpoonup> u8 list)) result" where
  "buildRoutingChains E scs =
     mapR (\<lambda>st. (routingChains st, sessionMap st))
       (addIAs E scs (sort (remdups (map scIA scs))) \<lparr>routingChains = [], sessionMap = Map.empty, trafficMatcherID = 1\<rparr>)"

text \<open>The data-plane sessions of an engine, one for each identifier, and its router; \<open>new\<close> is the factory.\<close>

definition dataplaneSessions :: "('p SessionConfig \<Rightarrow> 's) \<Rightarrow> 'p SessionConfig list \<Rightarrow> (u8 \<rightharpoonup> 's)" where
  "dataplaneSessions new scs = foldl (\<lambda>m sc. m(scID sc \<mapsto> new sc)) Map.empty scs"

definition engineRouter :: "('p SessionConfig \<Rightarrow> 's) \<Rightarrow> 'p SessionConfig list \<Rightarrow> RoutingChain list \<Rightarrow> (int \<rightharpoonup> u8 list) \<Rightarrow> 's Router" where
  "engineRouter new scs chs indices =
     \<lparr>rtrTable = NewRoutingTable chs, RoutingTableIndices = indices, DataplaneSessions = dataplaneSessions new scs, sessionStates = Map.empty, currentSessions = Map.empty\<rparr>"

section \<open>Identifiers of sessions\<close>

lemma policyConfigs_ids:
  "policyConfigs E sp es sid = Ok (cs, sid') \<Longrightarrow>
   map scID cs = map (\<lambda>i. sid + of_nat i) [0..<length cs] \<and> sid' = sid + of_nat (length cs) \<and> length cs = length es"
proof (induction E sp es sid arbitrary: cs sid' rule: policyConfigs.induct)
  case (2 E sp entry es sid)
  obtain pol rest where ok: "PathPolicyWithAllowedInterfaces E (spPathPolicy sp) (spIA sp) (gwInterfaces (rgGateway entry)) = Ok pol"
      "policyConfigs E sp es (sid + 1) = Ok (rest, sid')" and cs: "length cs = Suc (length rest)" "map scID cs = sid # map scID rest"
    using "2.prems" by (auto simp: bindR_eq_Ok)
  have "map (\<lambda>i. sid + of_nat i) [0..<Suc n] = sid # map (\<lambda>i. sid + 1 + of_nat i) [0..<n]" for n
    by (simp add: upt_conv_Cons map_Suc_upt[symmetric] add_ac del: upt_Suc)
  then show ?case using "2.IH"[OF ok(2)] cs by (simp add: add_ac del: upt_Suc)
qed simp

lemma map_upt_append: "map f [0..<n] @ map (\<lambda>i. f (n + i)) [0..<m] = map f [0..<n + m]"
  by (induction m) (simp_all add: add_ac)

lemma configLoop_ids: "configLoop E remotes sps sid = Ok cs \<Longrightarrow> map scID cs = map (\<lambda>i. sid + of_nat i) [0..<length cs]"
proof (induction E remotes sps sid arbitrary: cs rule: configLoop.induct)
  case (2 E remotes sp sps sid)
  show ?case
  proof (cases "remotes (spIA sp)")
    case None
    then show ?thesis using 2 by simp
  next
    case (Some gateways)
    obtain cs1 sid1 rest where ok: "policyConfigs E sp gateways sid = Ok (cs1, sid1)" "configLoop E remotes sps sid1 = Ok rest" "cs = cs1 @ rest"
      using "2.prems" Some by (auto simp: bindR_eq_Ok mapR_eq_Ok)
    note ids = policyConfigs_ids[OF ok(1)]
    have "map scID rest = map (\<lambda>i. sid + of_nat (length cs1 + i)) [0..<length rest]"
      using "2.IH"(2)[OF Some ok(2)] ids by (simp add: add_ac)
    then show ?thesis using ids ok(3) map_upt_append[of "\<lambda>i. sid + of_nat i" "length cs1" "length rest"] by simp
  qed
qed simp

lemma session_ids: "buildSessionConfigs E sps remotes = Ok cs \<Longrightarrow> map scID cs = map of_nat [0..<length cs]"
  using configLoop_ids[of E remotes "the sps" 0 cs] by (auto simp: buildSessionConfigs_def split: option.splits)

lemma byte_ids_distinct: "distinct (map (of_nat :: nat \<Rightarrow> u8) [0..<n]) \<longleftrightarrow> n \<le> 256"
proof
  assume d: "distinct (map (of_nat :: nat \<Rightarrow> u8) [0..<n])"
  show "n \<le> 256"
  proof (rule ccontr)
    assume "\<not> n \<le> 256"
    then have "0 \<in> {0..<n}" "256 \<in> {0..<n}" by auto
    moreover have "inj_on (of_nat :: nat \<Rightarrow> u8) {0..<n}" using d by (simp add: distinct_map)
    ultimately show False using inj_onD[of "of_nat :: nat \<Rightarrow> u8" "{0..<n}" 0 256] by simp
  qed
next
  assume "n \<le> 256"
  then show "distinct (map (of_nat :: nat \<Rightarrow> u8) [0..<n])"
    by (auto simp: distinct_map intro!: inj_onI dest!: arg_cong[where f = unat] simp: unsigned_of_nat take_bit_eq_mod)
qed

section \<open>Groups of prefixes\<close>

lemma gateways_mapping:
  "gatewaysAt (buildPrefixToGatewayMapping scs) p = (\<lambda>sc. gwControl (scGateway sc)) ` {sc \<in> set scs. \<exists>q \<in> set (scPrefixes sc). IPNet_String q = IPNet_String p}"
proof -
  have inner: "gatewaysAt (foldl (addGateway sc) m ps) p = gatewaysAt m p \<union> {gwControl (scGateway sc) |q. q \<in> set ps \<and> IPNet_String q = IPNet_String p}"
    for sc :: "'a SessionConfig" and m ps
    by (induction ps arbitrary: m) (auto simp: gatewaysAt_def addGateway_def split: option.splits)
  have "gatewaysAt (foldl (\<lambda>m sc. foldl (addGateway sc) m (scPrefixes sc)) m scs) p =
      gatewaysAt m p \<union> (\<lambda>sc. gwControl (scGateway sc)) ` {sc \<in> set scs. \<exists>q \<in> set (scPrefixes sc). IPNet_String q = IPNet_String p}" for m
    by (induction scs arbitrary: m) (auto simp: inner)
  then show ?thesis by (simp add: buildPrefixToGatewayMapping_def gatewaysAt_def)
qed

text \<open>
  The groups of the prefixes \<open>ps\<close> are numbered from \<open>start\<close> in the order in which they are met, and prefixes of one group have the same gateways.
\<close>

definition in_order :: "nat \<Rightarrow> (string \<rightharpoonup> nat) \<Rightarrow> IPNet list \<Rightarrow> bool" where
  "in_order start G ps \<longleftrightarrow>
     (\<forall>xs y ys. ps = xs @ y # ys \<longrightarrow> (\<exists>m. groupOf G ` set xs = {start..<start + m} \<and> start \<le> groupOf G y \<and> groupOf G y \<le> start + m))"

definition groups_ok :: "(string \<rightharpoonup> string set) \<Rightarrow> nat \<Rightarrow> IPNet list \<Rightarrow> (string \<rightharpoonup> nat) \<times> nat \<Rightarrow> bool" where
  "groups_ok gws start ps st \<longleftrightarrow> (let (G, n) = st in
     dom G = IPNet_String ` set ps \<and> groupOf G ` set ps = {start..<start + n} \<and> in_order start G ps \<and>
     (\<forall>p \<in> set ps. \<forall>q \<in> set ps. groupOf G p = groupOf G q \<longrightarrow> gatewaysAt gws p = gatewaysAt gws q))"

lemma groups_okI:
  "dom G = IPNet_String ` set ps \<Longrightarrow> groupOf G ` set ps = {start..<start + n} \<Longrightarrow> in_order start G ps \<Longrightarrow>
   \<forall>p \<in> set ps. \<forall>q \<in> set ps. groupOf G p = groupOf G q \<longrightarrow> gatewaysAt gws p = gatewaysAt gws q \<Longrightarrow> groups_ok gws start ps (G, n)"
  unfolding groups_ok_def Let_def prod.case by blast

lemma groups_okD:
  assumes "groups_ok gws start ps (G, n)"
  shows "in_order start G ps" "p \<in> set ps \<Longrightarrow> q \<in> set ps \<Longrightarrow> groupOf G p = groupOf G q \<Longrightarrow> gatewaysAt gws p = gatewaysAt gws q"
  using assms unfolding groups_ok_def Let_def prod.case by blast+

lemma in_order_snoc:
  assumes "in_order start G ps" "groupOf G ` set ps = {start..<start + n}" "start \<le> groupOf G p" "groupOf G p \<le> start + n"
  shows "in_order start G (ps @ [p])"
  unfolding in_order_def
proof (intro allI impI)
  fix xs y ys
  assume eq: "ps @ [p] = xs @ y # ys"
  show "\<exists>m. groupOf G ` set xs = {start..<start + m} \<and> start \<le> groupOf G y \<and> groupOf G y \<le> start + m"
  proof (cases ys rule: rev_cases)
    case Nil
    then show ?thesis using eq assms(2-4) by auto
  next
    case (snoc ys' z)
    then have "ps = xs @ y # ys'" using eq by simp
    then show ?thesis using assms(1) unfolding in_order_def by blast
  qed
qed

lemma in_order_cong: "in_order start G ps \<Longrightarrow> (\<And>q. q \<in> set ps \<Longrightarrow> groupOf G' q = groupOf G q) \<Longrightarrow> in_order start G' ps"
  unfolding in_order_def by (intro allI impI) (smt (verit, ccfv_threshold) Un_iff image_cong list.set_intros(1) set_append)

lemma gatewaysAt_cong: "IPNet_String p = IPNet_String q \<Longrightarrow> gatewaysAt gws p = gatewaysAt gws q"
  by (simp add: gatewaysAt_def)

lemma groupOf_upd: "groupOf (G(IPNet_String p \<mapsto> g)) q = (if IPNet_String q = IPNet_String p then g else groupOf G q)"
  by (simp add: groupOf_def)

lemma same_snoc:
  assumes "\<And>a b. a \<in> set xs \<Longrightarrow> b \<in> set xs \<Longrightarrow> f a = f b \<Longrightarrow> h a = h b" "\<And>a. a \<in> set xs \<Longrightarrow> f a = f p \<Longrightarrow> h a = h p"
  shows "\<forall>a \<in> set (xs @ [p]). \<forall>b \<in> set (xs @ [p]). f a = f b \<longrightarrow> h a = h b"
proof (intro ballI impI)
  fix a b assume "a \<in> set (xs @ [p])" "b \<in> set (xs @ [p])" and e: "f a = f b"
  then consider "a = p" "b = p" | "a = p" "b \<in> set xs" | "b = p" "a \<in> set xs" | "a \<in> set xs" "b \<in> set xs" by auto
  then show "h a = h b"
  proof cases
    case 2 then show ?thesis using assms(2)[of b] e by simp
  next
    case 3 then show ?thesis using assms(2)[of a] e by simp
  next
    case 4 then show ?thesis using assms(1) e by blast
  qed simp
qed

lemma groupPrefix_ok:
  assumes ok: "groups_ok gws start ps st" and earlier: "set earlier \<subseteq> set ps"
  shows "groups_ok gws start (ps @ [p]) (groupPrefix gws start st (p, earlier))"
proof -
  obtain G n where [simp]: "st = (G, n)" by (cases st)
  have dom: "dom G = IPNet_String ` set ps" and img: "groupOf G ` set ps = {start..<start + n}" and ord: "in_order start G ps"
    and same: "\<And>p q. p \<in> set ps \<Longrightarrow> q \<in> set ps \<Longrightarrow> groupOf G p = groupOf G q \<Longrightarrow> gatewaysAt gws p = gatewaysAt gws q"
    using ok[unfolded groups_ok_def \<open>st = (G, n)\<close> Let_def prod.case] by blast+
  show ?thesis
  proof (cases "G (IPNet_String p) = None")
    case False
    then obtain p' where p': "p' \<in> set ps" "IPNet_String p' = IPNet_String p" using dom by (metis domIff image_iff)
    then have eq: "groupOf G p = groupOf G p'" "gatewaysAt gws p = gatewaysAt gws p'" by (simp_all add: groupOf_def gatewaysAt_def)
    have "groupOf G p \<in> {start..<start + n}" using eq(1) p'(1) img by blast
    moreover have "groupOf G ` set (ps @ [p]) = {start..<start + n}" using img calculation by auto
    moreover have "IPNet_String p \<in> IPNet_String ` set ps" using p' by (metis image_eqI)
    then have "dom G = IPNet_String ` set (ps @ [p])" using dom by auto
    moreover have "in_order start G (ps @ [p])" using in_order_snoc[OF ord img] calculation(1) by simp
    moreover have "\<forall>a \<in> set (ps @ [p]). \<forall>b \<in> set (ps @ [p]). groupOf G a = groupOf G b \<longrightarrow> gatewaysAt gws a = gatewaysAt gws b"
      by (rule same_snoc) (use same p'(1) eq in metis)+
    moreover have step: "groupPrefix gws start st (p, earlier) = (G, n)" using False by (simp add: groupPrefix_def)
    ultimately show ?thesis unfolding step by (intro groups_okI)
  next
    case True
    then have new: "IPNet_String q \<noteq> IPNet_String p" if "q \<in> set ps" for q using dom that by (metis domIff image_eqI)
    let ?g = "case find (\<lambda>q. gatewaysAt gws p = gatewaysAt gws q) earlier of Some q \<Rightarrow> groupOf G q | None \<Rightarrow> start + n"
    let ?n = "case find (\<lambda>q. gatewaysAt gws p = gatewaysAt gws q) earlier of Some q \<Rightarrow> n | None \<Rightarrow> n + 1"
    let ?G = "G(IPNet_String p \<mapsto> ?g)"
    have old: "groupOf ?G q = groupOf G q" if "q \<in> set ps" for q using new[OF that] by (simp add: groupOf_upd)
    have at: "groupOf ?G p = ?g" by (simp add: groupOf_upd)
    have step: "groupPrefix gws start st (p, earlier) = (?G, ?n)" using True by (simp add: groupPrefix_def split: option.split)
    have g: "start \<le> ?g \<and> ?g \<le> start + n \<and> insert ?g {start..<start + n} = {start..<start + ?n} \<and>
        (\<forall>q \<in> set ps. groupOf G q = ?g \<longrightarrow> gatewaysAt gws q = gatewaysAt gws p)"
    proof (cases "find (\<lambda>q. gatewaysAt gws p = gatewaysAt gws q) earlier")
      case None
      have "\<forall>q \<in> set ps. groupOf G q \<noteq> start + n" using img by (metis atLeastLessThan_iff image_eqI less_irrefl)
      then show ?thesis using None by auto
    next
      case (Some q)
      then have q: "q \<in> set ps" "gatewaysAt gws p = gatewaysAt gws q" using earlier by (auto simp: find_Some_iff)
      then have mem: "groupOf G q \<in> {start..<start + n}" using img by blast
      have "\<forall>a \<in> set ps. groupOf G a = groupOf G q \<longrightarrow> gatewaysAt gws a = gatewaysAt gws p" using same q by metis
      with mem show ?thesis unfolding Some option.case by (intro conjI) (auto simp only: atLeastLessThan_iff insert_absorb less_imp_le)
    qed
    have img': "groupOf ?G ` set ps = {start..<start + n}" using img old by (simp cong: image_cong)
    have "groupOf ?G ` set (ps @ [p]) = {start..<start + ?n}" using img' at g by simp
    moreover have "in_order start ?G (ps @ [p])" using in_order_snoc[OF in_order_cong[OF ord old] img'] at g by simp
    moreover have "dom ?G = IPNet_String ` set (ps @ [p])" using dom by simp
    moreover have "\<forall>a \<in> set (ps @ [p]). \<forall>b \<in> set (ps @ [p]). groupOf ?G a = groupOf ?G b \<longrightarrow> gatewaysAt gws a = gatewaysAt gws b"
    proof (rule same_snoc)
      fix a b assume "a \<in> set ps" "b \<in> set ps" "groupOf ?G a = groupOf ?G b"
      then show "gatewaysAt gws a = gatewaysAt gws b" using same old by metis
    next
      fix a assume a: "a \<in> set ps" "groupOf ?G a = groupOf ?G p"
      then have "groupOf G a = ?g" using old[OF a(1)] at by simp
      then show "gatewaysAt gws a = gatewaysAt gws p" using g a(1) by blast
    qed
    ultimately show ?thesis unfolding step by (intro groups_okI)
  qed
qed

lemma groups_fold:
  assumes "groups_ok gws start ps st" "\<forall>i < length xs. set (snd (xs ! i)) \<subseteq> set ps \<union> fst ` set (take i xs)"
  shows "groups_ok gws start (ps @ map fst xs) (foldl (groupPrefix gws start) st xs)"
  using assms
proof (induction xs arbitrary: ps st)
  case (Cons x xs)
  have "groups_ok gws start (ps @ [fst x]) (groupPrefix gws start st x)"
    using groupPrefix_ok[OF Cons.prems(1), of "snd x" "fst x"] Cons.prems(2)[rule_format, of 0] by simp
  moreover have "\<forall>i < length xs. set (snd (xs ! i)) \<subseteq> set (ps @ [fst x]) \<union> fst ` set (take i xs)"
  proof (intro allI impI)
    fix i assume "i < length xs"
    then show "set (snd (xs ! i)) \<subseteq> set (ps @ [fst x]) \<union> fst ` set (take i xs)" using Cons.prems(2)[rule_format, of "Suc i"] by simp
  qed
  ultimately show ?case using Cons.IH[of "ps @ [fst x]"] by simp
qed simp

lemma map_fst_withEarlier: "map fst (withEarlier ps) = ps"
  by (simp add: withEarlier_def o_def map_nth)

lemma earlier_before:
  "i < length (concat (map (\<lambda>sc. withEarlier (scPrefixes sc)) scs)) \<Longrightarrow>
   set (snd (concat (map (\<lambda>sc. withEarlier (scPrefixes sc)) scs) ! i)) \<subseteq> fst ` set (take i (concat (map (\<lambda>sc. withEarlier (scPrefixes sc)) scs)))"
proof (induction scs arbitrary: i)
  case (Cons sc scs)
  show ?case
  proof (cases "i < length (withEarlier (scPrefixes sc))")
    case True
    let ?ps = "scPrefixes sc"
    have i: "i < length ?ps" using True by (simp add: withEarlier_def)
    have "fst ` set (take i (withEarlier ?ps)) = set (take i (map fst (withEarlier ?ps)))" by (simp add: take_map)
    also have "\<dots> = set (take i ?ps)" by (simp add: map_fst_withEarlier)
    finally show ?thesis using True i by (simp add: nth_append) (simp add: withEarlier_def)
  next
    case False
    let ?xs = "concat (map (\<lambda>sc. withEarlier (scPrefixes sc)) scs)" and ?i = "i - length (withEarlier (scPrefixes sc))"
    have "?i < length ?xs" using False Cons.prems unfolding list.map concat.simps length_append by linarith
    from Cons.IH[OF this] show ?thesis using False by (simp add: nth_append image_Un le_supI2)
  qed
qed simp

lemma buildPrefixGroups_ok:
  "\<exists>n. groups_ok gws start (map snd (sessionPrefixes scs)) (buildPrefixGroups scs gws start, n)"
proof -
  let ?xs = "concat (map (\<lambda>sc. withEarlier (scPrefixes sc)) scs)"
  have "map fst ?xs = map snd (sessionPrefixes scs)"
    by (simp add: sessionPrefixes_def map_concat o_def map_fst_withEarlier)
  moreover have "groups_ok gws start [] (Map.empty, 0)" by (simp add: groups_ok_def in_order_def)
  ultimately have "groups_ok gws start (map snd (sessionPrefixes scs)) (foldl (groupPrefix gws start) (Map.empty, 0) ?xs)"
    using groups_fold[of gws start "[]" "(Map.empty, 0)" ?xs] earlier_before[of _ scs] by simp
  then show ?thesis unfolding buildPrefixGroups_def by (metis prod.collapse)
qed

section \<open>The chains\<close>

text \<open>
  A chain is consistent with the configurations when its prefixes have the same gateways in the AS of the chain, and the sessions of its indices go to these gateways, for the traffic class of the index.
\<close>

definition servers :: "'p SessionConfig list \<Rightarrow> IA \<Rightarrow> IPNet \<Rightarrow> string set" where
  "servers scs ia p = (\<lambda>sc. gwControl (scGateway sc)) ` {sc \<in> set scs. scIA sc = ia \<and> (\<exists>q \<in> set (scPrefixes sc). IPNet_String q = IPNet_String p)}"

definition session_ok :: "'p cfgEnv \<Rightarrow> 'p SessionConfig list \<Rightarrow> RoutingChain \<Rightarrow> string set \<Rightarrow> TrafficMatcher \<Rightarrow> u8 \<Rightarrow> bool" where
  "session_ok E scs c W tm sid \<longleftrightarrow>
     (\<exists>sc \<in> set scs. scID sc = sid \<and> scIA sc = RemoteIA c \<and> gwControl (scGateway sc) \<in> W \<and> Cond_String E (scTrafficMatcher sc) = Cond_String E (tmMatcher tm))"

definition chain_ok :: "'p cfgEnv \<Rightarrow> 'p SessionConfig list \<Rightarrow> (int \<rightharpoonup> u8 list) \<Rightarrow> RoutingChain \<Rightarrow> bool" where
  "chain_ok E scs sm c \<longleftrightarrow>
     Prefixes c \<noteq> [] \<and>
     (\<exists>W. (\<forall>p \<in> set (Prefixes c). servers scs (RemoteIA c) p = W) \<and>
          (\<forall>tm \<in> set (TrafficMatchers c). \<forall>sid \<in> set (sessionsAt sm (tmID tm)). session_ok E scs c W tm sid))"

text \<open>All indices of the chains, in order.\<close>

definition chainIDs :: "RoutingChain list \<Rightarrow> int list" where
  "chainIDs rcs = concat (map (\<lambda>c. map tmID (TrafficMatchers c)) rcs)"

definition chains_ok :: "'p cfgEnv \<Rightarrow> 'p SessionConfig list \<Rightarrow> chainState \<Rightarrow> bool" where
  "chains_ok E scs st \<longleftrightarrow>
     (\<forall>c \<in> set (routingChains st). chain_ok E scs (sessionMap st) c) \<and>
     distinct (chainIDs (routingChains st)) \<and> (\<forall>i \<in> set (chainIDs (routingChains st)). i < trafficMatcherID st) \<and>
     dom (sessionMap st) \<subseteq> set (chainIDs (routingChains st))"

lemma chainMatcher_cases:
  assumes "chainMatcher E cond next c = (c', i, next')"
  obtains (old) tm where "tm \<in> set (TrafficMatchers c)" "Cond_String E (tmMatcher tm) = Cond_String E cond" "c' = c" "i = tmID tm" "next' = next"
  | (new) "c' = c\<lparr>TrafficMatchers := TrafficMatchers c @ [\<lparr>tmID = next, tmMatcher = cond\<rparr>]\<rparr>" "i = next" "next' = next + 1"
proof (cases "find (\<lambda>tm. Cond_String E (tmMatcher tm) = Cond_String E cond) (TrafficMatchers c)")
  case None
  then have "chainMatcher E cond next c = (c\<lparr>TrafficMatchers := TrafficMatchers c @ [\<lparr>tmID = next, tmMatcher = cond\<rparr>]\<rparr>, next, next + 1)"
    by (simp add: chainMatcher_def findTrafficMatcherID_def)
  then show ?thesis using assms by (intro new) simp_all
next
  case (Some tm)
  then have "tm \<in> set (TrafficMatchers c)" "Cond_String E (tmMatcher tm) = Cond_String E cond" by (auto simp: find_Some_iff)
  moreover have "chainMatcher E cond next c = (c, tmID tm, next)" using Some by (simp add: chainMatcher_def findTrafficMatcherID_def)
  ultimately show ?thesis using assms by (intro old[of tm]) simp_all
qed

lemma chainMatcher_same: "chainMatcher E cond next c = (c', i, next') \<Longrightarrow> Prefixes c' = Prefixes c \<and> RemoteIA c' = RemoteIA c \<and> set (TrafficMatchers c) \<subseteq> set (TrafficMatchers c')"
  by (erule chainMatcher_cases) auto

text \<open>The chain with the prefix and the matcher of a session that goes to one of its gateways.\<close>

lemma chain_ok_add:
  assumes c: "Prefixes c0 = [] \<and> TrafficMatchers c0 = [] \<or> chain_ok E scs sm c0 \<and> (\<forall>q \<in> set (Prefixes c0). servers scs ia q = servers scs ia p)"
    and ia: "RemoteIA c0 = ia" "scIA sc = ia" "sc \<in> set scs" "p \<in> set (scPrefixes sc)"
    and ids: "distinct (map tmID (TrafficMatchers c0))" "\<forall>tm \<in> set (TrafficMatchers c0). tmID tm < next" and free: "sm next = None"
    and cm: "chainMatcher E (scTrafficMatcher sc) next (c0\<lparr>Prefixes := nonDuplicateAppendNet (Prefixes c0) p\<rparr>) = (c', i, next')"
  shows "chain_ok E scs (sm(i \<mapsto> nonDuplicateAppendID (sessionsAt sm i) (scID sc))) c'"
proof -
  let ?W = "servers scs ia p" let ?sm = "sm(i \<mapsto> nonDuplicateAppendID (sessionsAt sm i) (scID sc))"
  have c': "Prefixes c' = nonDuplicateAppendNet (Prefixes c0) p" "RemoteIA c' = ia" using chainMatcher_same[OF cm] ia(1) by simp_all
  have gw: "gwControl (scGateway sc) \<in> ?W" using ia by (auto simp: servers_def)
  have pre: "Prefixes c' \<noteq> []" by (auto simp: c' nonDuplicateAppendNet_def)
  have ws: "\<forall>q \<in> set (Prefixes c'). servers scs ia q = ?W"
  proof -
    have "\<forall>q \<in> set (Prefixes c0). servers scs ia q = ?W" using c by (metis empty_iff list.set(1))
    moreover have "set (Prefixes c') \<subseteq> insert p (set (Prefixes c0))" by (auto simp: c' nonDuplicateAppendNet_def)
    ultimately show ?thesis by blast
  qed
  have old: "session_ok E scs c' ?W tm sid" if "tm \<in> set (TrafficMatchers c0)" "sid \<in> set (sessionsAt sm (tmID tm))" for tm sid
  proof -
    have "TrafficMatchers c0 \<noteq> []" using that(1) by auto
    then have ok: "chain_ok E scs sm c0" "\<forall>q \<in> set (Prefixes c0). servers scs ia q = ?W" using c by blast+
    from ok(1) obtain W where W: "Prefixes c0 \<noteq> []" "\<forall>q \<in> set (Prefixes c0). servers scs ia q = W"
        "\<forall>tm \<in> set (TrafficMatchers c0). \<forall>sid \<in> set (sessionsAt sm (tmID tm)). session_ok E scs c0 W tm sid"
      unfolding chain_ok_def ia(1) by blast
    obtain q where "q \<in> set (Prefixes c0)" using W(1) by (cases "Prefixes c0") auto
    then have "W = ?W" using ok(2) W(2) by metis
    moreover have "session_ok E scs c0 W tm sid" using W(3) that by blast
    ultimately show ?thesis using c'(2) ia(1) by (simp add: session_ok_def)
  qed
  have new: "session_ok E scs c' ?W tm (scID sc)" if "Cond_String E (tmMatcher tm) = Cond_String E (scTrafficMatcher sc)" for tm
    using that ia gw c'(2) by (auto simp: session_ok_def)
  have "session_ok E scs c' ?W tm sid" if tm: "tm \<in> set (TrafficMatchers c')" and sid: "sid \<in> set (sessionsAt ?sm (tmID tm))" for tm sid
    using cm
  proof (cases rule: chainMatcher_cases)
    case old': (old tm0)
    have tm': "tm \<in> set (TrafficMatchers c0)" using tm old'(3) by simp
    show ?thesis
    proof (cases "tmID tm = i")
      case True
      then have "tm = tm0" using old'(1,4) tm' ids(1) by (auto simp: distinct_map dest: inj_onD)
      moreover have "sid = scID sc \<or> sid \<in> set (sessionsAt sm (tmID tm))" using sid True by (auto simp: sessionsAt_def nonDuplicateAppendID_def split: if_splits)
      ultimately show ?thesis using new[of tm] old[OF tm'] old'(2) by blast
    next
      case False
      then show ?thesis using old[OF tm'] sid by (simp add: sessionsAt_def)
    qed
  next
    case new': new
    show ?thesis
    proof (cases "tm \<in> set (TrafficMatchers c0)")
      case True
      then have "tmID tm \<noteq> i" using ids(2) new'(2) by auto
      then show ?thesis using old[OF True] sid by (simp add: sessionsAt_def)
    next
      case False
      then have "tm = \<lparr>tmID = next, tmMatcher = scTrafficMatcher sc\<rparr>" using tm new'(1) by auto
      then show ?thesis using sid new'(2) free new[of tm] by (auto simp: sessionsAt_def nonDuplicateAppendID_def)
    qed
  qed
  then show ?thesis unfolding chain_ok_def using pre ws c'(2) by blast
qed

lemma chainIDs_append [simp]: "chainIDs (xs @ ys) = chainIDs xs @ chainIDs ys"
  by (simp add: chainIDs_def)

lemma chainIDs_Cons [simp]: "chainIDs (c # cs) = map tmID (TrafficMatchers c) @ chainIDs cs"
  by (simp add: chainIDs_def)

lemma chainIDs_Nil [simp]: "chainIDs [] = []"
  by (simp add: chainIDs_def)

lemma chainIDs_mem: "c \<in> set rcs \<Longrightarrow> tm \<in> set (TrafficMatchers c) \<Longrightarrow> tmID tm \<in> set (chainIDs rcs)"
  by (auto simp: chainIDs_def)

lemma chainIDs_split: "g < length R \<Longrightarrow> chainIDs R = chainIDs (take g R) @ map tmID (TrafficMatchers (R ! g)) @ chainIDs (drop (Suc g) R)"
  using arg_cong[OF id_take_nth_drop, of g R chainIDs] by simp

lemma chainIDs_upd: "g < length R \<Longrightarrow> chainIDs (R[g := c]) = chainIDs (take g R) @ map tmID (TrafficMatchers c) @ chainIDs (drop (Suc g) R)"
  by (simp add: upd_conv_take_nth_drop)

lemma other_ids:
  assumes "distinct (chainIDs R)" "g < length R" "h < length R" "g \<noteq> h" "tm \<in> set (TrafficMatchers (R ! h))"
  shows "tmID tm \<notin> tmID ` set (TrafficMatchers (R ! g))"
proof -
  have "R ! h \<in> set (take g R) \<or> R ! h \<in> set (drop (Suc g) R)"
  proof (cases "h < g")
    case True
    then have "R ! h = take g R ! h" "h < length (take g R)" using assms(3) by simp_all
    then show ?thesis by (metis nth_mem)
  next
    case False
    then have "R ! h = drop (Suc g) R ! (h - Suc g)" "h - Suc g < length (drop (Suc g) R)" using assms(3,4) by simp_all
    then show ?thesis by (metis nth_mem)
  qed
  then have "tmID tm \<in> set (chainIDs (take g R)) \<union> set (chainIDs (drop (Suc g) R))" using assms(5) by (auto dest: chainIDs_mem)
  then show ?thesis using assms(1) by (auto simp: chainIDs_split[OF assms(2)])
qed

lemma chain_ok_elsewhere: "chain_ok E scs sm c \<Longrightarrow> \<forall>tm \<in> set (TrafficMatchers c). tmID tm \<noteq> i \<Longrightarrow> chain_ok E scs (sm(i \<mapsto> x)) c"
  unfolding chain_ok_def by (simp add: sessionsAt_def)

text \<open>What a later state keeps of an earlier one.\<close>

definition chain_grows :: "RoutingChain \<Rightarrow> RoutingChain \<Rightarrow> bool" where
  "chain_grows c c' \<longleftrightarrow> RemoteIA c' = RemoteIA c \<and> set (Prefixes c) \<subseteq> set (Prefixes c') \<and> set (TrafficMatchers c) \<subseteq> set (TrafficMatchers c')"

definition grows :: "chainState \<Rightarrow> chainState \<Rightarrow> bool" where
  "grows st st' \<longleftrightarrow>
     (\<forall>c \<in> set (routingChains st). \<exists>c' \<in> set (routingChains st'). chain_grows c c') \<and> (\<forall>i. set (sessionsAt (sessionMap st) i) \<subseteq> set (sessionsAt (sessionMap st') i))"

text \<open>A prefix of a session is in a chain of its AS, with the class of the session and the session among those of the class.\<close>

definition served :: "'p cfgEnv \<Rightarrow> chainState \<Rightarrow> 'p SessionConfig \<Rightarrow> IPNet \<Rightarrow> bool" where
  "served E st sc p \<longleftrightarrow> (\<exists>c \<in> set (routingChains st). RemoteIA c = scIA sc \<and> (\<exists>q \<in> set (Prefixes c). q = p \<or> equalCIDR q p) \<and>
     (\<exists>tm \<in> set (TrafficMatchers c). Cond_String E (tmMatcher tm) = Cond_String E (scTrafficMatcher sc) \<and> scID sc \<in> set (sessionsAt (sessionMap st) (tmID tm))))"

lemma chain_grows_trans: "chain_grows a b \<Longrightarrow> chain_grows b c \<Longrightarrow> chain_grows a c"
  by (auto simp: chain_grows_def)

lemma grows_trans: "grows a b \<Longrightarrow> grows b c \<Longrightarrow> grows a c"
  unfolding grows_def by (meson chain_grows_trans subset_trans)

lemma grows_refl [simp]: "grows a a"
  by (auto simp: grows_def chain_grows_def)

lemma served_grows:
  assumes "served E st sc p" "grows st st'"
  shows "served E st' sc p"
proof -
  obtain c q tm where c: "c \<in> set (routingChains st)" "RemoteIA c = scIA sc" "q \<in> set (Prefixes c)" "q = p \<or> equalCIDR q p" "tm \<in> set (TrafficMatchers c)"
      "Cond_String E (tmMatcher tm) = Cond_String E (scTrafficMatcher sc)" "scID sc \<in> set (sessionsAt (sessionMap st) (tmID tm))"
    using assms(1) unfolding served_def by blast
  obtain c' where "c' \<in> set (routingChains st')" "chain_grows c c'" using assms(2) c(1) unfolding grows_def by blast
  moreover have "scID sc \<in> set (sessionsAt (sessionMap st') (tmID tm))" using assms(2) c(7) unfolding grows_def by blast
  ultimately show ?thesis using c unfolding served_def chain_grows_def by (metis subsetD)
qed

text \<open>The chains of the AS at hand, with the prefixes done so far in the chains of their groups.\<close>

definition at_groups :: "IA \<Rightarrow> nat \<Rightarrow> (string \<rightharpoonup> nat) \<Rightarrow> IPNet set \<Rightarrow> RoutingChain list \<Rightarrow> bool" where
  "at_groups ia start G done rcs \<longleftrightarrow>
     groupOf G ` done = {start..<length rcs} \<and> start \<le> length rcs \<and>
     (\<forall>g. start \<le> g \<and> g < length rcs \<longrightarrow> RemoteIA (rcs ! g) = ia \<and> (\<forall>q \<in> set (Prefixes (rcs ! g)). q \<in> done \<and> groupOf G q = g))"

lemma ensureChain_facts:
  assumes "g \<le> length rcs"
  shows "g < length (ensureChain ia g rcs)" "length (ensureChain ia g rcs) = max (Suc g) (length rcs)" "chainIDs (ensureChain ia g rcs) = chainIDs rcs"
    "set rcs \<subseteq> set (ensureChain ia g rcs)"
    "\<And>h. h < length rcs \<Longrightarrow> ensureChain ia g rcs ! h = rcs ! h"
    "g = length rcs \<Longrightarrow> ensureChain ia g rcs ! g = \<lparr>RemoteIA = ia, Prefixes = [], TrafficMatchers = []\<rparr>"
  using assms by (auto simp: ensureChain_def nth_append)

lemma at_groups_step:
  assumes at: "at_groups ia start G done rcs" and g: "start \<le> g" "g \<le> length rcs" "g = groupOf G p"
    and c': "RemoteIA c' = ia" "set (Prefixes c') \<subseteq> insert p (set (Prefixes (ensureChain ia g rcs ! g)))"
  shows "at_groups ia start G (insert p done) ((ensureChain ia g rcs)[g := c'])"
proof -
  note R = ensureChain_facts[OF g(2), where ia = ia]
  have img: "groupOf G ` done = {start..<length rcs}" "start \<le> length rcs" using at by (simp_all add: at_groups_def)
  have here: "RemoteIA (rcs ! h) = ia \<and> (\<forall>q \<in> set (Prefixes (rcs ! h)). q \<in> done \<and> groupOf G q = h)" if "start \<le> h" "h < length rcs" for h
    using at that by (simp add: at_groups_def)
  have "groupOf G ` insert p done = {start..<max (Suc g) (length rcs)}" using g img by (auto simp: max_def)
  moreover have "RemoteIA ((ensureChain ia g rcs)[g := c'] ! h) = ia \<and> (\<forall>q \<in> set (Prefixes ((ensureChain ia g rcs)[g := c'] ! h)). q \<in> insert p done \<and> groupOf G q = h)"
    if h: "start \<le> h" "h < max (Suc g) (length rcs)" for h
  proof (cases "h = g")
    case True
    have "set (Prefixes (ensureChain ia g rcs ! g)) \<subseteq> {q \<in> done. groupOf G q = g}"
    proof (cases "g = length rcs")
      case True
      then show ?thesis using R(6) by simp
    next
      case False
      then have "g < length rcs" using g(2) by simp
      then show ?thesis using here[of g] g(1) R(5)[of g] by auto
    qed
    then show ?thesis using True c' g(3) R(1) by auto
  next
    case False
    then have "h < length rcs" using h(2) g(2) by (auto simp: max_def split: if_splits)
    then show ?thesis using here[OF h(1)] False R(5)[of h] by simp
  qed
  ultimately show ?thesis using img(2) by (auto simp: at_groups_def R(2))
qed

lemma chains_ok_step:
  assumes ok: "chains_ok E scs st" and g: "g \<le> length (routingChains st)" and R: "R = ensureChain ia g (routingChains st)"
    and cm: "chainMatcher E cond (trafficMatcherID st) c1 = (c', i, next)" and c1: "TrafficMatchers c1 = TrafficMatchers (R ! g)"
    and good: "chain_ok E scs ((sessionMap st)(i \<mapsto> x)) c'"
  shows "chains_ok E scs \<lparr>routingChains = R[g := c'], sessionMap = (sessionMap st)(i \<mapsto> x), trafficMatcherID = next\<rparr>"
proof -
  note F = ensureChain_facts[OF g, where ia = ia, folded R]
  have ids: "distinct (chainIDs R)" "\<forall>k \<in> set (chainIDs R). k < trafficMatcherID st" "dom (sessionMap st) \<subseteq> set (chainIDs R)"
    using ok by (auto simp: chains_ok_def F(3))
  have new: "distinct (chainIDs (R[g := c'])) \<and> (\<forall>k \<in> set (chainIDs (R[g := c'])). k < next) \<and> insert i (set (chainIDs R)) \<subseteq> set (chainIDs (R[g := c']))"
    using cm
  proof (cases rule: chainMatcher_cases)
    case (old tm)
    then have "chainIDs (R[g := c']) = chainIDs R" using c1 by (simp add: chainIDs_upd[OF F(1)] chainIDs_split[OF F(1)])
    moreover have "i \<in> set (chainIDs R)" using chainIDs_mem[OF nth_mem[OF F(1)]] old(1,4) c1 by simp
    ultimately show ?thesis using ids old(5) by auto
  next
    case new
    have f: "trafficMatcherID st \<notin> set (chainIDs R)" using ids(2) by blast
    have e: "set (chainIDs (R[g := c'])) = insert i (set (chainIDs R))" using new c1 by (auto simp: chainIDs_upd[OF F(1)] chainIDs_split[OF F(1)])
    have "distinct (chainIDs (R[g := c']))" using ids(1) f new c1 by (auto simp: chainIDs_upd[OF F(1)] chainIDs_split[OF F(1)])
    moreover have "\<forall>k \<in> insert i (set (chainIDs R)). k < next" using ids(2) new(2,3) by fastforce
    ultimately show ?thesis by (simp only: e subset_refl simp_thms)
  qed
  have others: "chain_ok E scs ((sessionMap st)(i \<mapsto> x)) (R ! h)" if h: "h < length R" "h \<noteq> g" for h
  proof (rule chain_ok_elsewhere)
    have "h < length (routingChains st)" using h F(2) g by (auto simp: max_def split: if_splits)
    then show "chain_ok E scs (sessionMap st) (R ! h)" using ok F(5) by (simp add: chains_ok_def)
    show "\<forall>tm \<in> set (TrafficMatchers (R ! h)). tmID tm \<noteq> i"
    proof
      fix tm assume tm: "tm \<in> set (TrafficMatchers (R ! h))"
      have o: "tmID tm \<notin> tmID ` set (TrafficMatchers (R ! g))" by (rule other_ids[OF ids(1) F(1) h(1) h(2)[symmetric] tm])
      have l: "tmID tm < trafficMatcherID st" using ids(2) chainIDs_mem[OF nth_mem[OF h(1)] tm] by blast
      show "tmID tm \<noteq> i" using cm by (cases rule: chainMatcher_cases) (use o l c1 in auto)
    qed
  qed
  have "\<forall>c \<in> set (R[g := c']). chain_ok E scs ((sessionMap st)(i \<mapsto> x)) c"
    using others good by (metis in_set_conv_nth length_list_update nth_list_update_eq nth_list_update_neq)
  then show ?thesis using new ids(3) by (auto simp: chains_ok_def)
qed

lemma addToChain_ok:
  assumes ok: "chains_ok E scs st" and at: "at_groups ia start G done (routingChains st)"
    and sc: "sc \<in> set scs" "scIA sc = ia" "p \<in> set (scPrefixes sc)" and g: "start \<le> groupOf G p" "groupOf G p \<le> length (routingChains st)"
    and same: "\<forall>q \<in> done. groupOf G q = groupOf G p \<longrightarrow> servers scs ia q = servers scs ia p"
  shows "\<exists>st'. addToChain E ia G sc p st = Ok st' \<and> chains_ok E scs st' \<and> at_groups ia start G (insert p done) (routingChains st') \<and> grows st st' \<and> served E st' sc p"
proof -
  define g where "g = groupOf G p"
  define R where "R = ensureChain ia g (routingChains st)"
  define c1 where "c1 = (R ! g)\<lparr>Prefixes := nonDuplicateAppendNet (Prefixes (R ! g)) p\<rparr>"
  obtain c' i nxt where cm: "chainMatcher E (scTrafficMatcher sc) (trafficMatcherID st) c1 = (c', i, nxt)" by (metis prod_cases3)
  let ?x = "nonDuplicateAppendID (sessionsAt (sessionMap st) i) (scID sc)"
  let ?st = "\<lparr>routingChains = R[g := c'], sessionMap = (sessionMap st)(i \<mapsto> ?x), trafficMatcherID = nxt\<rparr>"
  have gl: "g \<le> length (routingChains st)" using g(2) by (simp add: g_def)
  note F = ensureChain_facts[OF gl, where ia = ia, folded R_def]
  have step: "addToChain E ia G sc p st = Ok ?st" using F(1) cm by (simp add: addToChain_def Let_def g_def[symmetric] R_def[symmetric] c1_def[symmetric])
  have c1: "TrafficMatchers c1 = TrafficMatchers (R ! g)" "RemoteIA c1 = RemoteIA (R ! g)" "Prefixes c1 = nonDuplicateAppendNet (Prefixes (R ! g)) p" by (simp_all add: c1_def)
  have at_g: "RemoteIA (R ! g) = ia \<and> (Prefixes (R ! g) = [] \<and> TrafficMatchers (R ! g) = [] \<or>
      chain_ok E scs (sessionMap st) (R ! g) \<and> (\<forall>q \<in> set (Prefixes (R ! g)). servers scs ia q = servers scs ia p))"
  proof (cases "g = length (routingChains st)")
    case False
    then have lt: "g < length (routingChains st)" using gl by simp
    then have "RemoteIA (R ! g) = ia" "\<forall>q \<in> set (Prefixes (R ! g)). q \<in> done \<and> groupOf G q = g"
      using at g(1) F(5)[of g] by (simp_all add: at_groups_def g_def)
    moreover have "chain_ok E scs (sessionMap st) (R ! g)" using ok lt F(5) by (simp add: chains_ok_def)
    ultimately show ?thesis using same unfolding g_def by blast
  next
    case True
    then show ?thesis using F(6)[OF True] by simp
  qed
  have ids: "distinct (chainIDs R)" "\<forall>k \<in> set (chainIDs R). k < trafficMatcherID st" "dom (sessionMap st) \<subseteq> set (chainIDs R)"
    using ok by (auto simp: chains_ok_def F(3))
  have fresh: "sessionMap st (trafficMatcherID st) = None" using ids(2,3) by (metis domIff less_irrefl subsetD)
  have "chain_ok E scs ((sessionMap st)(i \<mapsto> ?x)) c'"
  proof (rule chain_ok_add[OF conjunct2[OF at_g] conjunct1[OF at_g] sc(2,1,3) _ _ fresh cm[unfolded c1_def]])
    show "distinct (map tmID (TrafficMatchers (R ! g)))" using ids(1) by (simp add: chainIDs_split[OF F(1)])
    show "\<forall>tm \<in> set (TrafficMatchers (R ! g)). tmID tm < trafficMatcherID st" using ids(2) chainIDs_mem[OF nth_mem[OF F(1)]] by blast
  qed
  then have "chains_ok E scs ?st" by (rule chains_ok_step[OF ok gl R_def cm c1(1)])
  have c': "Prefixes c' = nonDuplicateAppendNet (Prefixes (R ! g)) p" "RemoteIA c' = ia" "set (TrafficMatchers (R ! g)) \<subseteq> set (TrafficMatchers c')"
    using chainMatcher_same[OF cm] c1 conjunct1[OF at_g] by simp_all
  have "at_groups ia start G (insert p done) (R[g := c'])" unfolding R_def
    by (rule at_groups_step[OF at _ gl g_def c'(2)]) (use g(1) c'(1) in \<open>auto simp: g_def R_def nonDuplicateAppendNet_def split: if_splits\<close>)
  have c'in: "c' \<in> set (R[g := c'])" using F(1) by (simp add: set_update_memI)
  have "grows st ?st"
  proof -
    have "chain_grows (R ! g) c'" using c' conjunct1[OF at_g] by (auto simp: chain_grows_def nonDuplicateAppendNet_def)
    have "\<exists>d \<in> set (R[g := c']). chain_grows c d" if "c \<in> set (routingChains st)" for c
    proof -
      have "c \<in> set R" using that F(4) by blast
      then obtain h where h: "h < length R" "c = R ! h" by (auto simp: in_set_conv_nth)
      show ?thesis
      proof (cases "h = g")
        case False
        then have "c = R[g := c'] ! h" "h < length (R[g := c'])" using h by simp_all
        then have "c \<in> set (R[g := c'])" by (simp only: nth_mem)
        then show ?thesis by (auto simp: chain_grows_def)
      qed (use \<open>chain_grows (R ! g) c'\<close> c'in h in blast)
    qed
    moreover have "set (sessionsAt (sessionMap st) k) \<subseteq> set (sessionsAt ((sessionMap st)(i \<mapsto> ?x)) k)" for k
      by (auto simp: sessionsAt_def nonDuplicateAppendID_def)
    ultimately show ?thesis by (simp add: grows_def)
  qed
  have "\<exists>tm \<in> set (TrafficMatchers c'). tmID tm = i \<and> Cond_String E (tmMatcher tm) = Cond_String E (scTrafficMatcher sc)"
    using cm by (cases rule: chainMatcher_cases) auto
  moreover have "\<exists>q \<in> set (Prefixes c'). q = p \<or> equalCIDR q p" by (auto simp: c'(1) nonDuplicateAppendNet_def)
  moreover have "scID sc \<in> set (sessionsAt ((sessionMap st)(i \<mapsto> ?x)) i)" by (simp add: sessionsAt_def nonDuplicateAppendID_def)
  ultimately have "served E ?st sc p" using c'in c'(2) sc(2) unfolding served_def by auto
  with step \<open>chains_ok E scs ?st\<close> \<open>at_groups ia start G (insert p done) (R[g := c'])\<close> \<open>grows st ?st\<close> show ?thesis by auto
qed

lemma addAll_ok:
  assumes "groups_ok gws start (map snd (xs @ ys)) (G, n)" "\<And>p. gatewaysAt gws p = servers scs ia p"
    "\<forall>(sc, p) \<in> set ys. sc \<in> set scs \<and> scIA sc = ia \<and> p \<in> set (scPrefixes sc)"
    "chains_ok E scs st" "at_groups ia start G (snd ` set xs) (routingChains st)"
  shows "\<exists>st'. addAll E ia G ys st = Ok st' \<and> chains_ok E scs st' \<and> grows st st' \<and> (\<forall>(sc, p) \<in> set ys. served E st' sc p)"
  using assms
proof (induction ys arbitrary: xs st)
  case (Cons y ys)
  obtain sc p where [simp]: "y = (sc, p)" by (cases y)
  have ord: "in_order start G (map snd xs @ p # map snd ys)" using groups_okD(1)[OF Cons.prems(1)] by simp
  obtain m where m: "groupOf G ` set (map snd xs) = {start..<start + m}" "start \<le> groupOf G p" "groupOf G p \<le> start + m"
    using ord unfolding in_order_def by blast
  have at: "groupOf G ` (snd ` set xs) = {start..<length (routingChains st)}" "start \<le> length (routingChains st)"
    using Cons.prems(5) by (simp_all add: at_groups_def)
  have "card {start..<start + m} = card {start..<length (routingChains st)}" using m(1) at(1) by simp
  then have le: "groupOf G p \<le> length (routingChains st)" using m(3) at(2) by simp
  have "\<forall>q \<in> snd ` set xs. groupOf G q = groupOf G p \<longrightarrow> gatewaysAt gws q = gatewaysAt gws p"
    by (intro ballI impI groups_okD(2)[OF Cons.prems(1)]) auto
  then have eq: "\<forall>q \<in> snd ` set xs. groupOf G q = groupOf G p \<longrightarrow> servers scs ia q = servers scs ia p" by (simp only: Cons.prems(2))
  obtain st1 where st1: "addToChain E ia G sc p st = Ok st1" "chains_ok E scs st1" "at_groups ia start G (insert p (snd ` set xs)) (routingChains st1)" "grows st st1" "served E st1 sc p"
    using addToChain_ok[OF Cons.prems(4,5) _ _ _ m(2) le eq, of sc] Cons.prems(3) by auto
  have "at_groups ia start G (snd ` set (xs @ [y])) (routingChains st1)" using st1(3) by simp
  then obtain st' where "addAll E ia G ys st1 = Ok st'" "chains_ok E scs st'" "grows st1 st'" "\<forall>(sc, p) \<in> set ys. served E st' sc p"
    using Cons.IH[of "xs @ [y]" st1] Cons.prems(1-3) st1(2) by auto
  then show ?case using st1(1,5) grows_trans[OF st1(4)] served_grows by auto
qed simp

lemma servers_filter: "gatewaysAt (buildPrefixToGatewayMapping (filter (\<lambda>sc. scIA sc = ia) scs)) p = servers scs ia p"
  by (auto simp: gateways_mapping servers_def)

lemma sessionPrefixes_mem: "(sc, p) \<in> set (sessionPrefixes scs) \<longleftrightarrow> sc \<in> set scs \<and> p \<in> set (scPrefixes sc)"
  by (auto simp: sessionPrefixes_def)

lemma addIA_ok:
  assumes "chains_ok E scs st"
  shows "\<exists>st'. addIA E scs st ia = Ok st' \<and> chains_ok E scs st' \<and> grows st st' \<and>
    (\<forall>sc \<in> set scs. \<forall>p \<in> set (scPrefixes sc). scIA sc = ia \<longrightarrow> served E st' sc p)"
proof -
  let ?ss = "filter (\<lambda>sc. scIA sc = ia) scs" and ?start = "length (routingChains st)"
  let ?G = "buildPrefixGroups ?ss (buildPrefixToGatewayMapping ?ss) ?start"
  obtain n where "groups_ok (buildPrefixToGatewayMapping ?ss) ?start (map snd ([] @ sessionPrefixes ?ss)) (?G, n)"
    using buildPrefixGroups_ok[of "buildPrefixToGatewayMapping ?ss" ?start ?ss] by auto
  moreover have "at_groups ia ?start ?G (snd ` set []) (routingChains st)" by (auto simp: at_groups_def)
  moreover have "\<forall>(sc, p) \<in> set (sessionPrefixes ?ss). sc \<in> set scs \<and> scIA sc = ia \<and> p \<in> set (scPrefixes sc)" by (auto simp: sessionPrefixes_mem)
  ultimately obtain st' where st': "addAll E ia ?G (sessionPrefixes ?ss) st = Ok st'" "chains_ok E scs st'" "grows st st'" "\<forall>(sc, p) \<in> set (sessionPrefixes ?ss). served E st' sc p"
    using addAll_ok[OF _ servers_filter _ assms] by blast
  have "served E st' sc p" if "sc \<in> set scs" "p \<in> set (scPrefixes sc)" "scIA sc = ia" for sc p
    using st'(4) that sessionPrefixes_mem[of sc p ?ss] by auto
  then show ?thesis using st'(1-3) by (simp add: addIA_def Let_def)
qed

lemma addIAs_ok:
  "chains_ok E scs st \<Longrightarrow> \<exists>st'. addIAs E scs ias st = Ok st' \<and> chains_ok E scs st' \<and> grows st st' \<and>
    (\<forall>sc \<in> set scs. \<forall>p \<in> set (scPrefixes sc). scIA sc \<in> set ias \<longrightarrow> served E st' sc p)"
proof (induction ias arbitrary: st)
  case (Cons ia ias)
  obtain st1 where st1: "addIA E scs st ia = Ok st1" "chains_ok E scs st1" "grows st st1" "\<forall>sc \<in> set scs. \<forall>p \<in> set (scPrefixes sc). scIA sc = ia \<longrightarrow> served E st1 sc p"
    using addIA_ok[OF Cons.prems] by blast
  obtain st' where st': "addIAs E scs ias st1 = Ok st'" "chains_ok E scs st'" "grows st1 st'" "\<forall>sc \<in> set scs. \<forall>p \<in> set (scPrefixes sc). scIA sc \<in> set ias \<longrightarrow> served E st' sc p"
    using Cons.IH[OF st1(2)] by blast
  have "\<forall>sc \<in> set scs. \<forall>p \<in> set (scPrefixes sc). scIA sc \<in> set (ia # ias) \<longrightarrow> served E st' sc p"
    using st1(4) st'(4) served_grows[OF _ st'(3)] by (metis set_ConsD)
  then show ?case using st1(1) st'(1,2) grows_trans[OF st1(3) st'(3)] by auto
qed simp

lemma build_ok:
  "\<exists>st. buildRoutingChains E scs = Ok (routingChains st, sessionMap st) \<and> chains_ok E scs st \<and> (\<forall>sc \<in> set scs. \<forall>p \<in> set (scPrefixes sc). served E st sc p)"
proof -
  have "chains_ok E scs \<lparr>routingChains = [], sessionMap = Map.empty, trafficMatcherID = 1\<rparr>" by (simp add: chains_ok_def)
  from addIAs_ok[OF this, of "sort (remdups (map scIA scs))"] show ?thesis by (auto simp: buildRoutingChains_def)
qed

lemma matchers_of_chains: "\<forall>c \<in> set chs. Prefixes c \<noteq> [] \<Longrightarrow> set (chainMatchers chs) = (\<Union>c \<in> set chs. set (TrafficMatchers c))"
  by (auto simp: chainMatchers_def)

lemma chain_ids_indices: "\<forall>c \<in> set chs. Prefixes c \<noteq> [] \<Longrightarrow> tmID ` set (chainMatchers chs) = set (chainIDs chs)"
  by (auto simp: matchers_of_chains chainIDs_def)

text \<open>The sessions of an index go to gateways that serve the prefixes of the chain, for the class of the index.\<close>

lemma chain_sessions:
  assumes "chain_ok E scs sm c" "p \<in> set (Prefixes c)" "tm \<in> set (TrafficMatchers c)" "sid \<in> set (sessionsAt sm (tmID tm))"
  shows "session_ok E scs c (servers scs (RemoteIA c) p) tm sid"
proof -
  obtain W where "\<forall>p \<in> set (Prefixes c). servers scs (RemoteIA c) p = W"
      "\<forall>tm \<in> set (TrafficMatchers c). \<forall>sid \<in> set (sessionsAt sm (tmID tm)). session_ok E scs c W tm sid"
    using assms(1) unfolding chain_ok_def by blast
  then show ?thesis using assms(2-4) by metis
qed

end
