(* ===== verification/GwDelivery.thy ===== *)
theory GwDelivery
  imports GwConfig
begin

text \<open>
  The gateway as a whole: a packet is sent to a gateway that serves its longest prefix, over a session that is up and meant for its traffic class. The
  chains that the control plane builds (\<open>GwConfig\<close>) are put into the routing table and the router that \<open>GwRouting\<close> describes.
\<close>

section \<open>Networks that are equal\<close>

lemma ip_Equal_cases: "ip_Equal a b \<Longrightarrow> a = b \<or> ip_To4 a \<noteq> None \<and> ip_To4 a = ip_To4 b"
  by (auto simp: ip_Equal_def ip_To4_def split: if_splits)

lemma equalCIDR_same:
  assumes "equalCIDR a b"
  shows "networkNumberAndMask a = networkNumberAndMask b" "netMask a = netMask b"
proof -
  show m: "netMask a = netMask b" using assms by (simp add: equalCIDR_def)
  have "netIP a = netIP b \<or> ip_To4 (netIP a) \<noteq> None \<and> ip_To4 (netIP a) = ip_To4 (netIP b)"
    using assms ip_Equal_cases by (simp add: equalCIDR_def)
  then have "ip_To4 (netIP a) = ip_To4 (netIP b)"
      "(case ip_To4 (netIP a) of Some x \<Rightarrow> x | None \<Rightarrow> netIP a) = (case ip_To4 (netIP b) of Some x \<Rightarrow> x | None \<Rightarrow> netIP b)"
    by (auto split: option.splits)
  then show "networkNumberAndMask a = networkNumberAndMask b" using m by (simp only: networkNumberAndMask_def)
qed

lemma equalCIDR_contains: "equalCIDR a b \<Longrightarrow> IPNet_Contains a x = IPNet_Contains b x"
  by (simp add: IPNet_Contains_def equalCIDR_same(1))

section \<open>The sessions of an engine\<close>

lemma dataplaneSessions_at:
  assumes "distinct (map scID scs)" "sc \<in> set scs"
  shows "dataplaneSessions new scs (scID sc) = Some (new sc)"
proof -
  have fold: "foldl (\<lambda>m sc. m(scID sc \<mapsto> new sc)) m scs k = (case map_of (rev (map (\<lambda>sc. (scID sc, new sc)) scs)) k of None \<Rightarrow> m k | Some s \<Rightarrow> Some s)" for m k
    by (induction scs arbitrary: m) (auto simp: map_add_def split: option.splits)
  have "distinct (map fst (rev (map (\<lambda>sc. (scID sc, new sc)) scs)))" using assms(1) by (simp add: rev_map[symmetric] o_def)
  then have "map_of (rev (map (\<lambda>sc. (scID sc, new sc)) scs)) (scID sc) = Some (new sc)" using assms(2) by (intro map_of_is_SomeI) auto
  then show ?thesis by (simp add: dataplaneSessions_def fold)
qed

lemma classOf_index:
  assumes "distinct (chainIDs chs)" "\<forall>c \<in> set chs. Prefixes c \<noteq> []" "c \<in> set chs" "tm \<in> set (TrafficMatchers c)"
  shows "classOf chs (tmID tm) = Some (tmMatcher tm)"
proof -
  have tms: "set (chainMatchers chs) = set (concat (map TrafficMatchers chs))" using assms(2) by (simp add: matchers_of_chains)
  have "inj_on tmID (set (concat (map TrafficMatchers chs)))"
  proof -
    have "chainIDs chs = map tmID (concat (map TrafficMatchers chs))" by (simp add: chainIDs_def map_concat o_def)
    then show ?thesis using assms(1) by (simp only: distinct_map)
  qed
  then have "tm' = tm" if "tm' \<in> set (chainMatchers chs)" "tmID tm' = tmID tm" for tm'
    using that assms(3,4) tms by (auto dest: inj_onD)
  moreover have "find (\<lambda>t. tmID t = tmID tm) (chainMatchers chs) \<noteq> None" using assms(3,4) tms by (auto simp: find_None_iff)
  then obtain t where t: "find (\<lambda>t. tmID t = tmID tm) (chainMatchers chs) = Some t" by blast
  then have "t \<in> set (chainMatchers chs)" "tmID t = tmID tm" by (auto simp: find_Some_iff)
  ultimately have "t = tm" by blast
  then show ?thesis using t by (simp add: classOf_def)
qed

lemma packetIndex_chain:
  assumes "distinct (chainIDs chs)" "\<forall>c \<in> set chs. Prefixes c \<noteq> []" "packetIndex E chs dst pkt = Some i"
  obtains c p tm where "c \<in> set chs" "p \<in> set (Prefixes c)" "tm \<in> set (TrafficMatchers c)" "i = tmID tm" "Cond_Eval E (tmMatcher tm) pkt"
    "IPNet_Contains p dst" "\<forall>c' \<in> set chs. \<forall>q \<in> set (Prefixes c'). IPNet_Contains q dst \<longrightarrow> maskOnes (netMask q) \<le> maskOnes (netMask p)"
proof -
  obtain e where e: "longest dst (chainEntries chs) = Some e" "find (\<lambda>i. case classOf chs i of None \<Rightarrow> False | Some c \<Rightarrow> Cond_Eval E c pkt) (reTable e) = Some i"
    using assms(3) by (auto simp: packetIndex_def bind_eq_Some_conv)
  note l = longest_max[OF e(1)]
  obtain c p where c: "c \<in> set chs" "p \<in> set (Prefixes c)" "e = \<lparr>rePrefix = p, reTable = map tmID (TrafficMatchers c)\<rparr>"
    using l by (auto simp: covering_def chainEntries_def)
  obtain tm where tm: "tm \<in> set (TrafficMatchers c)" "i = tmID tm" "case classOf chs i of None \<Rightarrow> False | Some c \<Rightarrow> Cond_Eval E c pkt"
    using e(2) c(3) by (auto simp: find_Some_iff) (metis nth_mem)
  have "Cond_Eval E (tmMatcher tm) pkt" using tm classOf_index[OF assms(1,2) c(1) tm(1)] by simp
  moreover have "IPNet_Contains p dst" using l c(3) by (simp add: covering_def)
  moreover have "maskOnes (netMask q) \<le> maskOnes (netMask p)" if "c' \<in> set chs" "q \<in> set (Prefixes c')" "IPNet_Contains q dst" for c' q
  proof -
    have "\<lparr>rePrefix = q, reTable = map tmID (TrafficMatchers c')\<rparr> \<in> set (covering dst (chainEntries chs))"
      using that by (auto simp: covering_def chainEntries_def)
    then show ?thesis using l c(3) by (auto simp: prefixLen_def)
  qed
  ultimately show ?thesis using that c(1,2) tm(1,2) by blast
qed

lemma forwarded_packet:
  assumes "forwardPacket L decode t buf = Ok (FwdWrite s)"
  obtains pkt where "buf \<noteq> []" "drop_bit 4 (buf ! 0) \<in> {4, 6}" "decode buf = Some (Some pkt)" "\<not> isFragment pkt"
proof -
  have b: "buf \<noteq> []" "drop_bit 4 (buf ! 0) \<in> {4, 6}" using assms by (auto simp: forwardPacket_def Let_def split: if_splits)
  obtain pkt where p: "decode buf = Some (Some pkt)" using assms by (auto simp: forwardPacket_def Let_def split: if_splits option.splits)
  have "\<not> isFragment pkt" using assms b p by (cases pkt) (auto simp: forwardPacket_def Let_def split: if_splits)
  with b p show ?thesis by (rule that)
qed

section \<open>Properties\<close>

lemma build_indices: "\<exists>chs m. buildRoutingChains E scs = Ok (chs, m) \<and> dom m \<subseteq> tmID ` set (chainMatchers chs)"
proof -
  obtain st where st: "buildRoutingChains E scs = Ok (routingChains st, sessionMap st)" "chains_ok E scs st" using build_ok by blast
  then have "\<forall>c \<in> set (routingChains st). Prefixes c \<noteq> []" by (simp add: chains_ok_def chain_ok_def)
  then show ?thesis using st chain_ids_indices by (auto simp: chains_ok_def)
qed

text \<open>C17: The routing chains are built without a panic, whatever the session configurations: every index of the session map is the index of a traffic matcher of a chain with a
  prefix, no two matchers share an index, every prefix of every session is in a chain of its AS that lists the session for its class, and for every prefix of a chain, the sessions listed
  for the classes of the chain go to gateways that serve this very prefix, in the AS of the chain, and are configured with that class.
\<close>
theorem routing_chains_complete:
  "\<exists>chs m. buildRoutingChains E scs = Ok (chs, m) \<and>
     dom m \<subseteq> tmID ` set (chainMatchers chs) \<and> distinct (concat (map (\<lambda>c. map tmID (TrafficMatchers c)) chs)) \<and>
     (\<forall>sc \<in> set scs. \<forall>p \<in> set (scPrefixes sc). \<exists>c \<in> set chs. RemoteIA c = scIA sc \<and> (\<exists>q \<in> set (Prefixes c). q = p \<or> equalCIDR q p) \<and>
        (\<exists>tm \<in> set (TrafficMatchers c). Cond_String E (tmMatcher tm) = Cond_String E (scTrafficMatcher sc) \<and> scID sc \<in> set (sessionsAt m (tmID tm)))) \<and>
     (\<forall>c \<in> set chs. \<forall>p \<in> set (Prefixes c). \<forall>tm \<in> set (TrafficMatchers c). \<forall>sid \<in> set (sessionsAt m (tmID tm)).
        \<exists>sc \<in> set scs. scID sc = sid \<and> scIA sc = RemoteIA c \<and> gwControl (scGateway sc) \<in> servers scs (RemoteIA c) p \<and>
          Cond_String E (scTrafficMatcher sc) = Cond_String E (tmMatcher tm))"
proof -
  obtain st where st: "buildRoutingChains E scs = Ok (routingChains st, sessionMap st)" "chains_ok E scs st" "\<forall>sc \<in> set scs. \<forall>p \<in> set (scPrefixes sc). served E st sc p"
    using build_ok by blast
  have ne: "\<forall>c \<in> set (routingChains st). Prefixes c \<noteq> []" using st(2) by (simp add: chains_ok_def chain_ok_def)
  have "dom (sessionMap st) \<subseteq> tmID ` set (chainMatchers (routingChains st))" using st(2) chain_ids_indices[OF ne] by (simp add: chains_ok_def)
  moreover have "distinct (concat (map (\<lambda>c. map tmID (TrafficMatchers c)) (routingChains st)))" using st(2) by (simp add: chains_ok_def chainIDs_def)
  moreover have "\<forall>c \<in> set (routingChains st). \<forall>p \<in> set (Prefixes c). \<forall>tm \<in> set (TrafficMatchers c). \<forall>sid \<in> set (sessionsAt (sessionMap st) (tmID tm)).
      session_ok E scs c (servers scs (RemoteIA c) p) tm sid"
    using st(2) chain_sessions unfolding chains_ok_def by blast
  ultimately show ?thesis using st(1,3) unfolding served_def session_ok_def by blast
qed

text \<open>One AS with two gateways for the same prefix.\<close>

definition sample_net :: IPNet where
  "sample_net = \<lparr>netIP = [10, 1, 0, 0], netMask = [255, 255, 0, 0]\<rparr>"

definition sample_cfg :: "unit cfgEnv" where
  "sample_cfg = \<lparr>protocolName = \<lambda>_. ''UDP'', newSequence = \<lambda>_. Some ()\<rparr>"

definition sample_gateway :: "string \<Rightarrow> Gateway" where
  "sample_gateway a = \<lparr>gwControl = a, gwProbe = a, gwData = a, gwInterfaces = []\<rparr>"

definition sample_config :: "u8 \<Rightarrow> string \<Rightarrow> unit SessionConfig" where
  "sample_config i a =
     \<lparr>scID = i, scPolicyID = 0, scIA = 1, scTrafficMatcher = CondBool True, scPerfPolicy = 0, scPathPolicy = DefaultPathPolicy, scPathCount = 1,
      scGateway = sample_gateway a, scPrefixes = [sample_net]\<rparr>"

definition sample_policies :: "unit SessionPolicy list" where
  "sample_policies =
     [\<lparr>spIA = 1, spID = 0, spTrafficMatcher = CondBool True, spPerfPolicy = 0, spPathPolicy = DefaultPathPolicy, spPathCount = 1, spPrefixes = []\<rparr>]"

definition sample_remotes :: "IA \<rightharpoonup> RemoteGateway list" where
  "sample_remotes = [1 \<mapsto> [\<lparr>rgGateway = sample_gateway ''a'', rgPrefixes = [sample_net]\<rparr>, \<lparr>rgGateway = sample_gateway ''b'', rgPrefixes = [sample_net]\<rparr>]]"

lemma sample_build: "buildSessionConfigs sample_cfg (Some sample_policies) sample_remotes = Ok [sample_config 0 ''a'', sample_config 1 ''b'']"
  by (simp add: buildSessionConfigs_def sample_policies_def sample_remotes_def PathPolicyWithAllowedInterfaces_def sample_gateway_def sample_config_def mergePrefixes_def)

definition sample_built :: "(RoutingChain list \<times> (int \<rightharpoonup> u8 list)) result" where
  "sample_built = buildRoutingChains sample_cfg [sample_config 0 ''a'', sample_config 1 ''b'']"

lemma sample_built_chains: "mapR fst sample_built = Ok [\<lparr>RemoteIA = 1, Prefixes = [sample_net], TrafficMatchers = [\<lparr>tmID = 1, tmMatcher = CondBool True\<rparr>]\<rparr>]"
  by code_simp

lemma sample_built_sessions: "mapR (\<lambda>b. snd b 1) sample_built = Ok (Some [0, 1])"
  by code_simp

theorem routing_chains_complete_witness:
  "\<exists>chs m. buildRoutingChains sample_cfg [sample_config 0 ''a'', sample_config 1 ''b''] = Ok (chs, m) \<and>
     (\<exists>c \<in> set chs. RemoteIA c = 1 \<and> (\<exists>tm \<in> set (TrafficMatchers c). Cond_String sample_cfg (tmMatcher tm) = ''BOOL=true'' \<and> 1 \<in> set (sessionsAt m (tmID tm))))"
proof -
  have sc: "sample_config 1 ''b'' \<in> set [sample_config 0 ''a'', sample_config 1 ''b'']" "sample_net \<in> set (scPrefixes (sample_config 1 ''b''))"
      "scIA (sample_config 1 ''b'') = 1" "Cond_String sample_cfg (scTrafficMatcher (sample_config 1 ''b'')) = ''BOOL=true''" "scID (sample_config 1 ''b'') = 1"
    by (simp_all add: sample_config_def)
  from routing_chains_complete[of sample_cfg "[sample_config 0 ''a'', sample_config 1 ''b'']"]
  obtain chs m where b: "buildRoutingChains sample_cfg [sample_config 0 ''a'', sample_config 1 ''b''] = Ok (chs, m)"
    and all: "\<forall>sc \<in> set [sample_config 0 ''a'', sample_config 1 ''b'']. \<forall>p \<in> set (scPrefixes sc). \<exists>c \<in> set chs. RemoteIA c = scIA sc \<and> (\<exists>q \<in> set (Prefixes c). q = p \<or> equalCIDR q p) \<and>
        (\<exists>tm \<in> set (TrafficMatchers c). Cond_String sample_cfg (tmMatcher tm) = Cond_String sample_cfg (scTrafficMatcher sc) \<and> scID sc \<in> set (sessionsAt m (tmID tm)))"
    by blast
  show ?thesis using b all[rule_format, OF sc(1,2)] unfolding sc(3-5) by blast
qed

text \<open>C15: The gateway delivers packets to the right place. With at most 256 sessions, in the data plane that the control plane sets up from its policies and the remote gateways it has discovered, after any events that sessions go
  up or down, a packet that is written to a session is decoded, and the session is up, by its last event; it goes to a gateway that serves the prefix \<open>p\<close> in its AS,
  where \<open>p\<close> contains the destination and is at least as long as every prefix of any session that contains it; and the packet satisfies a traffic class with the text of the class
  that the session is configured with.
\<close>
theorem gateway_delivers:
  assumes cfg: "buildSessionConfigs E policies remotes = Ok scs" "length scs \<le> 256" and chs: "buildRoutingChains E scs = Ok (chs, m)"
    and run: "router_run (Router_initData (engineRouter new scs chs m)) evs (Ok r)" and evs: "\<forall>ev \<in> set evs. snd ev \<in> {EventUp, EventDown}"
    and fwd: "forwardPacket L decode (Some (rtrTable r)) buf = Ok (FwdWrite s)"
  shows "\<exists>pkt sc p cond. decode buf = Some (Some pkt) \<and> sc \<in> set scs \<and> s = new sc \<and> map_of (rev evs) (scID sc) = Some EventUp \<and>
    gwControl (scGateway sc) \<in> servers scs (scIA sc) p \<and> IPNet_Contains p (layerDst pkt) \<and>
    (\<forall>sc' \<in> set scs. \<forall>q \<in> set (scPrefixes sc'). IPNet_Contains q (layerDst pkt) \<longrightarrow> maskOnes (netMask q) \<le> maskOnes (netMask p)) \<and>
    Cond_Eval L cond pkt \<and> Cond_String E cond = Cond_String E (scTrafficMatcher sc)"
proof -
  obtain st where st: "chs = routingChains st" "m = sessionMap st" "chains_ok E scs st" "\<forall>sc \<in> set scs. \<forall>p \<in> set (scPrefixes sc). served E st sc p"
    using build_ok[of E scs] chs by auto
  have ne: "\<forall>c \<in> set chs. Prefixes c \<noteq> []" using st(1,3) by (simp add: chains_ok_def chain_ok_def)
  have ids: "distinct (chainIDs chs)" using st(1,3) by (simp add: chains_ok_def)
  let ?r = "engineRouter new scs chs m"
  have r: "rtrTable ?r = NewRoutingTable chs" "RoutingTableIndices ?r = m" "DataplaneSessions ?r = dataplaneSessions new scs" by (simp_all add: engineRouter_def)
  have dm: "dom m \<subseteq> set (chainIDs chs)" using st(1-3) by (simp add: chains_ok_def)
  have idx: "dom (RoutingTableIndices ?r) \<subseteq> tmID ` set (chainMatchers chs)" unfolding r(2) chain_ids_indices[OF ne] by (rule dm)
  obtain pkt where buf: "buf \<noteq> []" "drop_bit 4 (buf ! 0) \<in> {4, 6}" "decode buf = Some (Some pkt)" "\<not> isFragment pkt"
    by (rule forwarded_packet[OF fwd])
  have "FwdWrite s = (case Option.bind (packetIndex L chs (layerDst pkt) pkt) (indexSession ?r evs) of None \<Rightarrow> FwdNoRoute | Some s \<Rightarrow> FwdWrite s)"
    using routed_packet[where decode = decode and E = L, OF run r(1) idx evs buf] fwd by simp
  then obtain i where i: "packetIndex L chs (layerDst pkt) pkt = Some i" "indexSession ?r evs i = Some s"
    by (auto simp: bind_eq_Some_conv split: option.splits)
  obtain sid where sid: "find (upAfter ?r evs) (sessionIDs ?r i) = Some sid" "dataplaneSessions new scs sid = Some s"
    using i(2) by (auto simp: indexSession_def bind_eq_Some_conv r)
  have "sessionIDs ?r i = sessionsAt m i" by (simp add: sessionIDs_def sessionsAt_def r)
  then have up: "sid \<in> set (sessionsAt m i)" "map_of (rev evs) sid = Some EventUp" using sid(1) by (auto simp: find_Some_iff upAfter_def)
  obtain c p tm where c: "c \<in> set chs" "p \<in> set (Prefixes c)" "tm \<in> set (TrafficMatchers c)" "i = tmID tm" "Cond_Eval L (tmMatcher tm) pkt" "IPNet_Contains p (layerDst pkt)"
      "\<forall>c' \<in> set chs. \<forall>q \<in> set (Prefixes c'). IPNet_Contains q (layerDst pkt) \<longrightarrow> maskOnes (netMask q) \<le> maskOnes (netMask p)"
    by (rule packetIndex_chain[OF ids ne i(1)])
  have "session_ok E scs c (servers scs (RemoteIA c) p) tm sid"
  proof (rule chain_sessions[OF _ c(2,3)])
    show "chain_ok E scs m c" using st(1-3) c(1) by (simp add: chains_ok_def)
    show "sid \<in> set (sessionsAt m (tmID tm))" using up(1) c(4) by simp
  qed
  then obtain sc where sc: "sc \<in> set scs" "scID sc = sid" "scIA sc = RemoteIA c" "gwControl (scGateway sc) \<in> servers scs (RemoteIA c) p"
      "Cond_String E (scTrafficMatcher sc) = Cond_String E (tmMatcher tm)"
    unfolding session_ok_def by blast
  have "distinct (map scID scs)" using session_ids[OF cfg(1)] byte_ids_distinct cfg(2) by metis
  then have "s = new sc" using dataplaneSessions_at[of scs sc new] sc(1,2) sid(2) by simp
  moreover have "maskOnes (netMask q) \<le> maskOnes (netMask p)" if q: "sc' \<in> set scs" "q \<in> set (scPrefixes sc')" "IPNet_Contains q (layerDst pkt)" for sc' q
  proof -
    obtain c' q' where "c' \<in> set chs" "q' \<in> set (Prefixes c')" "q' = q \<or> equalCIDR q' q" using st(1,4) q(1,2) unfolding served_def by blast
    then show ?thesis using c(7)[rule_format, of c' q'] q(3) equalCIDR_contains[of q' q] equalCIDR_same(2)[of q' q] by auto
  qed
  then have "\<forall>sc' \<in> set scs. \<forall>q \<in> set (scPrefixes sc'). IPNet_Contains q (layerDst pkt) \<longrightarrow> maskOnes (netMask q) \<le> maskOnes (netMask p)" by blast
  moreover have "map_of (rev evs) (scID sc) = Some EventUp" "gwControl (scGateway sc) \<in> servers scs (scIA sc) p" using up(2) sc(2-4) by simp_all
  ultimately show ?thesis
    by (intro exI[of _ pkt] exI[of _ sc] exI[of _ p] exI[of _ "tmMatcher tm"] conjI) (simp_all add: buf(3) sc(1,5) c(5,6))
qed

lemma sample_routed:
  assumes "buildRoutingChains sample_cfg [sample_config 0 ''a'', sample_config 1 ''b''] = Ok (chs, m)"
    and "router_run (Router_initData (engineRouter (\<lambda>sc. gwData (scGateway sc)) [sample_config 0 ''a'', sample_config 1 ''b''] chs m)) [(1, EventUp)] (Ok r)"
  shows "forwardPacket sample_l4env (\<lambda>_. Some (Some (LayerIPv4 sample_pkt))) (Some (rtrTable r)) [0x45] = Ok (FwdWrite ''b'')"
proof -
  let ?r = "engineRouter (\<lambda>sc. gwData (scGateway sc)) [sample_config 0 ''a'', sample_config 1 ''b''] chs m"
  have built: "sample_built = Ok (chs, m)" using assms(1) by (simp add: sample_built_def)
  have chs: "chs = [\<lparr>RemoteIA = 1, Prefixes = [sample_net], TrafficMatchers = [\<lparr>tmID = 1, tmMatcher = CondBool True\<rparr>]\<rparr>]" using sample_built_chains unfolding built by simp
  have m: "m 1 = Some [0, 1]" using sample_built_sessions unfolding built by simp
  obtain chs' m' where "buildRoutingChains sample_cfg [sample_config 0 ''a'', sample_config 1 ''b''] = Ok (chs', m')" "dom m' \<subseteq> tmID ` set (chainMatchers chs')"
    using build_indices by blast
  then have idx: "dom (RoutingTableIndices ?r) \<subseteq> tmID ` set (chainMatchers chs)" using assms(1) by (simp add: engineRouter_def)
  have "packetIndex sample_l4env chs (ip4Dst sample_pkt) (LayerIPv4 sample_pkt) = Some 1" unfolding chs by code_simp
  moreover have "indexSession ?r [(1, EventUp)] 1 = Some ''b''"
    by (simp add: indexSession_def sessionIDs_def engineRouter_def m upAfter_def dataplaneSessions_def sample_config_def sample_gateway_def)
  ultimately show ?thesis
    using routed_packet[OF assms(2) _ idx, of "[0x45]" "\<lambda>_. Some (Some (LayerIPv4 sample_pkt))" "LayerIPv4 sample_pkt" sample_l4env]
    by (simp add: sample_pkt_def engineRouter_def)
qed

theorem gateway_delivers_witness:
  "\<exists>scs chs m r sc. buildSessionConfigs sample_cfg (Some sample_policies) sample_remotes = Ok scs \<and> buildRoutingChains sample_cfg scs = Ok (chs, m) \<and>
     router_run (Router_initData (engineRouter (\<lambda>sc. gwData (scGateway sc)) scs chs m)) [(1, EventUp)] (Ok r) \<and>
     forwardPacket sample_l4env (\<lambda>_. Some (Some (LayerIPv4 sample_pkt))) (Some (rtrTable r)) [0x45] = Ok (FwdWrite ''b'') \<and>
     sc \<in> set scs \<and> gwData (scGateway sc) = ''b'' \<and> map_of [(1, EventUp)] (scID sc) = Some EventUp"
proof -
  let ?scs = "[sample_config 0 ''a'', sample_config 1 ''b'']" and ?new = "\<lambda>sc :: unit SessionConfig. gwData (scGateway sc)"
  obtain chs m where b: "buildRoutingChains sample_cfg ?scs = Ok (chs, m)" "dom m \<subseteq> tmID ` set (chainMatchers chs)" using build_indices by blast
  let ?r = "engineRouter ?new ?scs chs m"
  have e: "rtrTable ?r = NewRoutingTable chs" "RoutingTableIndices (Router_initData ?r) = m" "dom (RoutingTableIndices ?r) \<subseteq> tmID ` set (chainMatchers chs)"
    using b(2) by (simp_all add: engineRouter_def Router_initData_def)
  have evs: "\<forall>ev \<in> set [(1 :: u8, EventUp)]. snd ev \<in> {EventUp, EventDown}" by simp
  have "finite (dom m)" using b(2) finite_subset by blast
  then obtain r where r: "router_run (Router_initData ?r) [(1, EventUp)] (Ok r)" using run_exists[OF initial_inv[OF e(1,3)] _ evs] e(2) by auto
  note f = sample_routed[OF b(1) r]
  have "length ?scs \<le> 256" by simp
  from gateway_delivers[OF sample_build this b(1) r evs f]
  obtain sc where "sc \<in> set ?scs" "''b'' = gwData (scGateway sc)" "map_of (rev [(1, EventUp)]) (scID sc) = Some EventUp" by blast
  then have sc: "sc \<in> set ?scs \<and> gwData (scGateway sc) = ''b'' \<and> map_of [(1, EventUp)] (scID sc) = Some EventUp" by simp
  show ?thesis by (rule exI, rule exI, rule exI, rule exI, rule exI, intro conjI) (rule sample_build b(1) r f sc[THEN conjunct1] sc[THEN conjunct2, THEN conjunct1] sc[THEN conjunct2, THEN conjunct2])+
qed

text \<open>With more sessions than identifiers two sessions share one.\<close>

lemma session_ids_wrap:
  "buildSessionConfigs E policies remotes = Ok scs \<Longrightarrow> distinct (map scID scs) \<longleftrightarrow> length scs \<le> 256"
  using session_ids byte_ids_distinct by metis

end
