(* ===== verification/GwPublish.thy ===== *)
theory GwPublish
  imports GwRouting "HOL-Library.Multiset" "HOL-Library.AList"
begin

text \<open>
  Around the routing table of the gateway: the table that publishes the routes of the sites it can reach (\<^verbatim>\<open>gateway/control/publishingroutingtable.go\<close>), the monitor whose events
  move the sessions up and down (\<^verbatim>\<open>gateway/control/sessionmonitor.go\<close>), and the choice of a path for a packet (\<^verbatim>\<open>gateway/dataplane/session.go\<close>).
\<close>

unbundle bit_operations_syntax

section \<open>The publishing routing table\<close>

record 's remoteSite =
  rsPrefixes :: "IPNet list"
  trafficClasses :: "(int \<times> 's option) list"
  rsIA :: IA

record Route =
  rtPrefix :: IPNet
  rtSource :: bytes
  rtNextHop :: bytes
  rtIA :: IA

datatype routeAction = AddRoute Route | DeleteRoute Route

record 's pubTable =
  routingTable :: "'s RoutingTable"
  nextHop :: bytes
  sourceIPv4 :: bytes
  sourceIPv6 :: bytes
  remoteSites :: "'s remoteSite list"

definition newSite :: "RoutingChain \<Rightarrow> 's remoteSite" where
  "newSite rc = \<lparr>rsPrefixes = Prefixes rc, trafficClasses = foldl (\<lambda>m tm. AList.update (tmID tm) None m) [] (TrafficMatchers rc), rsIA = RemoteIA rc\<rparr>"

definition NewPublishingRoutingTable :: "RoutingChain list \<Rightarrow> 's RoutingTable \<Rightarrow> bytes \<Rightarrow> bytes \<Rightarrow> bytes \<Rightarrow> 's pubTable" where
  "NewPublishingRoutingTable rcs rt nh s4 s6 = \<lparr>routingTable = rt, nextHop = nh, sourceIPv4 = s4, sourceIPv6 = s6, remoteSites = map newSite rcs\<rparr>"

definition healthy :: "'s remoteSite \<Rightarrow> bool" where
  "healthy r \<longleftrightarrow> list_ex (\<lambda>(_, session). session \<noteq> None) (trafficClasses r)"

definition sourceForPrefix :: "'s pubTable \<Rightarrow> IPNet \<Rightarrow> bytes" where
  "sourceForPrefix pt prefix = (if ip_To4 (netIP prefix) = None then sourceIPv6 pt else sourceIPv4 pt)"

definition siteRoutes :: "'s pubTable \<Rightarrow> 's remoteSite \<Rightarrow> Route list" where
  "siteRoutes pt site = map (\<lambda>prefix. \<lparr>rtPrefix = prefix, rtSource = sourceForPrefix pt prefix, rtNextHop = nextHop pt, rtIA = rsIA site\<rparr>) (rsPrefixes site)"

text \<open>One turn of the loop over the sites: the site and what the publisher is told.\<close>

definition siteSet :: "'s pubTable \<Rightarrow> int \<Rightarrow> 's option \<Rightarrow> 's remoteSite \<Rightarrow> 's remoteSite \<times> routeAction list" where
  "siteSet pt index session site =
    (case map_of (trafficClasses site) index of
       None \<Rightarrow> (site, [])
     | Some _ \<Rightarrow>
         let site' = site\<lparr>trafficClasses := AList.update index session (trafficClasses site)\<rparr> in
         (site', if \<not> healthy site \<and> healthy site' then map AddRoute (siteRoutes pt site) else []))"

definition siteClear :: "'s pubTable \<Rightarrow> int \<Rightarrow> 's remoteSite \<Rightarrow> 's remoteSite \<times> routeAction list" where
  "siteClear pt index site =
    (case map_of (trafficClasses site) index of
       None \<Rightarrow> (site, [])
     | Some _ \<Rightarrow>
         let site' = site\<lparr>trafficClasses := AList.update index None (trafficClasses site)\<rparr> in
         (site', if healthy site \<and> \<not> healthy site' then map DeleteRoute (siteRoutes pt site) else []))"

definition pub_SetSession :: "'s pubTable \<Rightarrow> int \<Rightarrow> 's option \<Rightarrow> ('s pubTable \<times> routeAction list) result" where
  "pub_SetSession pt index session =
     mapR (\<lambda>rt. let rs = map (siteSet pt index session) (remoteSites pt) in
       (pt\<lparr>routingTable := rt, remoteSites := map fst rs\<rparr>, concat (map snd rs))) (SetSession (routingTable pt) index session)"

definition pub_ClearSession :: "'s pubTable \<Rightarrow> int \<Rightarrow> ('s pubTable \<times> routeAction list) result" where
  "pub_ClearSession pt index =
     mapR (\<lambda>rt. let rs = map (siteClear pt index) (remoteSites pt) in
       (pt\<lparr>routingTable := rt, remoteSites := map fst rs\<rparr>, concat (map snd rs))) (ClearSession (routingTable pt) index)"

definition pub_RouteIPv4 :: "l4env \<Rightarrow> 's pubTable \<Rightarrow> layers_IPv4 \<Rightarrow> 's option result" where
  "pub_RouteIPv4 E pt pkt = RouteIPv4 E (routingTable pt) pkt"

definition pub_RouteIPv6 :: "l4env \<Rightarrow> 's pubTable \<Rightarrow> layers_IPv6 \<Rightarrow> 's option result" where
  "pub_RouteIPv6 E pt pkt = RouteIPv6 E (routingTable pt) pkt"

text \<open>Calls of the table; one that fails changes nothing. The routes announced are those added and not deleted since.\<close>

datatype 's pubOp = OpSet int "'s option" | OpClear int

fun pub_op :: "'s pubTable \<Rightarrow> 's pubOp \<Rightarrow> ('s pubTable \<times> routeAction list) result" where
  "pub_op pt (OpSet i s) = pub_SetSession pt i s"
| "pub_op pt (OpClear i) = pub_ClearSession pt i"

fun announce :: "Route multiset \<Rightarrow> routeAction \<Rightarrow> Route multiset" where
  "announce A (AddRoute r) = add_mset r A"
| "announce A (DeleteRoute r) = A - {#r#}"

fun pub_run :: "'s pubTable \<Rightarrow> Route multiset \<Rightarrow> 's pubOp list \<Rightarrow> 's pubTable \<times> Route multiset" where
  "pub_run pt A [] = (pt, A)"
| "pub_run pt A (op # ops) = (case pub_op pt op of Ok (pt', acts) \<Rightarrow> pub_run pt' (foldl announce A acts) ops | _ \<Rightarrow> pub_run pt A ops)"

section \<open>Routes follow sessions\<close>

text \<open>Publishing does not touch the routing: the table inside changes as it would by itself, and fails when it would.\<close>

lemma pub_routing:
  "mapR (\<lambda>x. routingTable (fst x)) (pub_SetSession pt i s) = SetSession (routingTable pt) i s"
  "mapR (\<lambda>x. routingTable (fst x)) (pub_ClearSession pt i) = ClearSession (routingTable pt) i"
  by (cases "SetSession (routingTable pt) i s"; simp add: pub_SetSession_def Let_def) (cases "ClearSession (routingTable pt) i"; simp add: pub_ClearSession_def Let_def)

definition sessionAt :: "'s RoutingTable \<Rightarrow> int \<Rightarrow> 's option" where
  "sessionAt rt i = Option.bind (indexToSubEntry rt i) seSession"

definition chainRoutes :: "'s pubTable \<Rightarrow> RoutingChain \<Rightarrow> Route multiset" where
  "chainRoutes pt c = mset (map (\<lambda>prefix. \<lparr>rtPrefix = prefix, rtSource = sourceForPrefix pt prefix, rtNextHop = nextHop pt, rtIA = RemoteIA c\<rparr>) (Prefixes c))"

text \<open>A site mirrors its chain and the sessions of the table.\<close>

definition mirrors :: "'s RoutingTable \<Rightarrow> RoutingChain \<Rightarrow> 's remoteSite \<Rightarrow> bool" where
  "mirrors rt c site \<longleftrightarrow>
     rsPrefixes site = Prefixes c \<and> rsIA site = RemoteIA c \<and> distinct (map fst (trafficClasses site)) \<and>
     map_of (trafficClasses site) = (\<lambda>i. if i \<in> tmID ` set (TrafficMatchers c) then Some (sessionAt rt i) else None)"

definition reachable_chain :: "'s RoutingTable \<Rightarrow> RoutingChain \<Rightarrow> bool" where
  "reachable_chain rt c \<longleftrightarrow> (\<exists>tm \<in> set (TrafficMatchers c). sessionAt rt (tmID tm) \<noteq> None)"

definition contribution :: "'s pubTable \<Rightarrow> 's remoteSite \<Rightarrow> Route multiset" where
  "contribution pt site = (if healthy site then mset (siteRoutes pt site) else {#})"

lemma healthy_map_of: "distinct (map fst (trafficClasses r)) \<Longrightarrow> healthy r \<longleftrightarrow> (\<exists>i s. map_of (trafficClasses r) i = Some (Some s))"
  by (auto simp: healthy_def list_ex_iff)

lemma mirrors_healthy: "mirrors rt c site \<Longrightarrow> healthy site \<longleftrightarrow> reachable_chain rt c"
  by (auto simp: mirrors_def healthy_map_of reachable_chain_def split: if_splits)

definition nilClasses :: "TrafficMatcher list \<Rightarrow> (int \<times> 's option) list \<Rightarrow> (int \<times> 's option) list" where
  "nilClasses tms m = foldl (\<lambda>m tm. AList.update (tmID tm) None m) m tms"

lemma nilClasses_distinct: "distinct (map fst m) \<Longrightarrow> distinct (map fst (nilClasses tms m))"
  unfolding nilClasses_def by (induction tms arbitrary: m) (simp_all add: distinct_update)

lemma nilClasses_map_of: "map_of (nilClasses tms m) i = (if i \<in> tmID ` set tms then Some None else map_of m i)"
  unfolding nilClasses_def by (induction tms arbitrary: m) (auto simp: update_conv')

lemma mirrors_new: "(\<And>i. sessionAt rt i = None) \<Longrightarrow> mirrors rt c (newSite c)"
  by (auto simp: mirrors_def newSite_def nilClasses_def[symmetric] nilClasses_distinct nilClasses_map_of)

lemma sessionAt_set: "SetSession rt i v = Ok rt' \<Longrightarrow> sessionAt rt' k = (if k = i then v else sessionAt rt k)"
  by (auto simp: SetSession_def sessionAt_def split: option.splits)

lemma sessionAt_clear: "ClearSession rt i = Ok rt' \<Longrightarrow> sessionAt rt' k = (if k = i then None else sessionAt rt k)"
  by (auto simp: ClearSession_def sessionAt_def split: option.splits)

lemma mirrors_update:
  assumes "mirrors rt c site" "\<And>k. sessionAt rt' k = (if k = i then v else sessionAt rt k)"
  shows "mirrors rt' c (if map_of (trafficClasses site) i = None then site else site\<lparr>trafficClasses := AList.update i v (trafficClasses site)\<rparr>)"
  using assms by (auto simp: mirrors_def update_conv' distinct_update fun_eq_iff split: if_splits)

lemma announce_adds: "foldl announce A (map AddRoute rs) = A + mset rs"
  by (induction rs arbitrary: A) simp_all

lemma announce_deletes: "foldl announce A (map DeleteRoute rs) = A - mset rs"
  by (induction rs arbitrary: A) simp_all

lemma siteRoutes_upd [simp]: "siteRoutes pt (site\<lparr>trafficClasses := x\<rparr>) = siteRoutes pt site"
  by (simp add: siteRoutes_def)

lemma update_subset: "set (AList.update k v al) \<subseteq> insert (k, v) (set al)"
  by (induction al) auto

lemma contribution_set:
  "foldl announce (A + contribution pt site) (snd (siteSet pt i (Some s) site)) = A + contribution pt (fst (siteSet pt i (Some s) site))"
proof (cases "map_of (trafficClasses site) i")
  case None
  then show ?thesis by (simp add: siteSet_def)
next
  case (Some x)
  let ?site = "site\<lparr>trafficClasses := AList.update i (Some s) (trafficClasses site)\<rparr>"
  have "(i, Some s) \<in> set (AList.update i (Some s) (trafficClasses site))" by (rule map_of_SomeD) (simp add: update_conv')
  then have "healthy ?site" by (auto simp: healthy_def list_ex_iff)
  then show ?thesis using Some by (auto simp: siteSet_def Let_def contribution_def announce_adds)
qed

lemma contribution_clear:
  "foldl announce (A + contribution pt site) (snd (siteClear pt i site)) = A + contribution pt (fst (siteClear pt i site))"
proof (cases "map_of (trafficClasses site) i")
  case None
  then show ?thesis by (simp add: siteClear_def)
next
  case (Some x)
  let ?site = "site\<lparr>trafficClasses := AList.update i None (trafficClasses site)\<rparr>"
  have "set (AList.update i None (trafficClasses site)) \<subseteq> insert (i, None) (set (trafficClasses site))" by (rule update_subset)
  then have "healthy ?site \<Longrightarrow> healthy site" by (auto simp: healthy_def list_ex_iff)
  then show ?thesis using Some by (auto simp: siteClear_def Let_def contribution_def announce_deletes)
qed

text \<open>The sites together.\<close>

lemma contributions:
  assumes "\<And>A site. foldl announce (A + contribution pt site) (snd (f site)) = A + contribution pt (fst (f site))"
  shows "foldl announce (A + sum_list (map (contribution pt) sites)) (concat (map (snd \<circ> f) sites)) = A + sum_list (map (contribution pt) (map (fst \<circ> f) sites))"
proof (induction sites arbitrary: A)
  case (Cons site sites)
  have "foldl announce (A + (contribution pt site + sum_list (map (contribution pt) sites))) (snd (f site)) =
      A + contribution pt (fst (f site)) + sum_list (map (contribution pt) sites)"
    using assms[of "A + sum_list (map (contribution pt) sites)" site] by (simp add: add_ac)
  then show ?case using Cons.IH[of "A + contribution pt (fst (f site))"] by (simp add: add_ac)
qed simp

definition pub_inv :: "RoutingChain list \<Rightarrow> 's pubTable \<Rightarrow> Route multiset \<Rightarrow> bool" where
  "pub_inv rcs pt A \<longleftrightarrow> list_all2 (mirrors (routingTable pt)) rcs (remoteSites pt) \<and> A = sum_list (map (contribution pt) (remoteSites pt))"

lemma contribution_cong: "nextHop pt' = nextHop pt \<Longrightarrow> sourceIPv4 pt' = sourceIPv4 pt \<Longrightarrow> sourceIPv6 pt' = sourceIPv6 pt \<Longrightarrow> contribution pt' = contribution pt"
proof -
  assume h: "nextHop pt' = nextHop pt" "sourceIPv4 pt' = sourceIPv4 pt" "sourceIPv6 pt' = sourceIPv6 pt"
  then have "sourceForPrefix pt' = sourceForPrefix pt" by (intro ext) (simp add: sourceForPrefix_def)
  then show ?thesis using h(1) by (intro ext) (simp add: contribution_def siteRoutes_def)
qed

lemma pub_step:
  assumes inv: "pub_inv rcs pt A" and pt': "pt' = pt\<lparr>routingTable := rt', remoteSites := map (fst \<circ> f) (remoteSites pt)\<rparr>"
    and mir: "\<And>c site. mirrors (routingTable pt) c site \<Longrightarrow> mirrors rt' c (fst (f site))"
    and con: "\<And>A site. foldl announce (A + contribution pt site) (snd (f site)) = A + contribution pt (fst (f site))"
  shows "pub_inv rcs pt' (foldl announce A (concat (map (snd \<circ> f) (remoteSites pt))))"
proof -
  have "contribution pt' = contribution pt" using pt' by (intro contribution_cong) simp_all
  moreover have "list_all2 (mirrors rt') rcs (map (fst \<circ> f) (remoteSites pt))"
    using inv mir by (auto simp: pub_inv_def list_all2_map2 elim!: list_all2_mono)
  ultimately show ?thesis using inv contributions[of pt f "{#}" "remoteSites pt"] con pt' by (simp add: pub_inv_def)
qed

lemma pub_op_inv:
  assumes inv: "pub_inv rcs pt A" and op: "pub_op pt op = Ok (pt', acts)"
  shows "pub_inv rcs pt' (foldl announce A acts)"
proof (cases op)
  case (OpSet i v)
  obtain rt' where rt': "SetSession (routingTable pt) i v = Ok rt'" and eq: "pt' = pt\<lparr>routingTable := rt', remoteSites := map (fst \<circ> siteSet pt i v) (remoteSites pt)\<rparr>"
      "acts = concat (map (snd \<circ> siteSet pt i v) (remoteSites pt))"
    using op OpSet by (auto simp: pub_SetSession_def mapR_eq_Ok Let_def)
  obtain s where [simp]: "v = Some s" using rt' by (cases v) (simp_all add: SetSession_def)
  have "mirrors rt' c (fst (siteSet pt i v site))" if "mirrors (routingTable pt) c site" for c site
    using mirrors_update[OF that sessionAt_set[OF rt']] by (auto simp: siteSet_def Let_def split: option.splits)
  then show ?thesis unfolding eq(2) by (intro pub_step[OF inv eq(1)]) (simp_all add: contribution_set)
next
  case (OpClear i)
  obtain rt' where rt': "ClearSession (routingTable pt) i = Ok rt'" and eq: "pt' = pt\<lparr>routingTable := rt', remoteSites := map (fst \<circ> siteClear pt i) (remoteSites pt)\<rparr>"
      "acts = concat (map (snd \<circ> siteClear pt i) (remoteSites pt))"
    using op OpClear by (auto simp: pub_ClearSession_def mapR_eq_Ok Let_def)
  have "mirrors rt' c (fst (siteClear pt i site))" if "mirrors (routingTable pt) c site" for c site
    using mirrors_update[OF that sessionAt_clear[OF rt']] by (auto simp: siteClear_def Let_def split: option.splits)
  then show ?thesis unfolding eq(2) by (intro pub_step[OF inv eq(1)]) (simp_all add: contribution_clear)
qed

lemma pub_run_inv: "pub_inv rcs pt A \<Longrightarrow> pub_run pt A ops = (pt', A') \<Longrightarrow> pub_inv rcs pt' A'"
proof (induction ops arbitrary: pt A)
  case (Cons op ops)
  then show ?case by (cases "pub_op pt op") (auto intro: pub_op_inv)
qed simp

lemma pub_step_frame:
  "pub_op pt op = Ok (pt', acts) \<Longrightarrow> nextHop pt' = nextHop pt \<and> sourceIPv4 pt' = sourceIPv4 pt \<and> sourceIPv6 pt' = sourceIPv6 pt"
  by (cases op) (auto simp: pub_SetSession_def pub_ClearSession_def mapR_eq_Ok Let_def)

lemma pub_run_frame: "pub_run pt A ops = (pt', A') \<Longrightarrow> nextHop pt' = nextHop pt \<and> sourceIPv4 pt' = sourceIPv4 pt \<and> sourceIPv6 pt' = sourceIPv6 pt"
proof (induction ops arbitrary: pt A)
  case (Cons op ops)
  show ?case
  proof (cases "pub_op pt op")
    case (Ok x)
    obtain pt1 acts where x: "x = (pt1, acts)" by (cases x)
    then show ?thesis using Cons Ok pub_step_frame[of pt op pt1 acts] by auto
  qed (use Cons in auto)
qed simp

lemma pub_inv_routes:
  assumes "pub_inv rcs pt A"
  shows "A = sum_list (map (\<lambda>c. if reachable_chain (routingTable pt) c then chainRoutes pt c else {#}) rcs)"
proof -
  have "list_all2 (mirrors rt) rcs sites \<Longrightarrow>
      sum_list (map (contribution pt) sites) = sum_list (map (\<lambda>c. if reachable_chain rt c then chainRoutes pt c else {#}) rcs)" for rt sites
  proof (induction rule: list_all2_induct)
    case (Cons c rcs site sites)
    have "contribution pt site = (if reachable_chain rt c then chainRoutes pt c else {#})"
      using Cons(1) mirrors_healthy[OF Cons(1)] by (simp add: contribution_def chainRoutes_def siteRoutes_def mirrors_def)
    then show ?case using Cons by simp
  qed simp
  then show ?thesis using assms by (simp add: pub_inv_def)
qed

lemma new_no_session: "sessionAt (NewRoutingTable chs) i = None"
  by (cases "find (\<lambda>tm. tmID tm = i) (chainMatchers chs)") (simp_all add: sessionAt_def new_table_sub)

lemma new_site_silent: "contribution pt (newSite c) = {#}"
  by (simp add: contribution_def mirrors_healthy[OF mirrors_new[OF new_no_session[of "[]"]]] reachable_chain_def new_no_session)

text \<open>C19: The gateway announces exactly the routes it can serve. Whatever sequence of sessions is set and cleared in the publishing routing table, with wrong indices or without a session too, the routes that have
  been added and not deleted since are, as a multiset, those of the prefixes of the chains that have a session for at least one of their traffic classes in the routing table.
\<close>
theorem published_routes:
  assumes "pub_run (NewPublishingRoutingTable chs (NewRoutingTable chs) nh s4 s6) {#} ops = (pt, A)"
  shows "A = sum_list (map (\<lambda>c. if \<exists>tm \<in> set (TrafficMatchers c). sessionAt (routingTable pt) (tmID tm) \<noteq> None then
      mset (map (\<lambda>p. \<lparr>rtPrefix = p, rtSource = (if ip_To4 (netIP p) = None then s6 else s4), rtNextHop = nh, rtIA = RemoteIA c\<rparr>) (Prefixes c)) else {#}) chs)"
proof -
  let ?pt = "NewPublishingRoutingTable chs (NewRoutingTable chs) nh s4 s6"
  have "list_all2 (mirrors (NewRoutingTable chs)) chs (map newSite chs)" by (simp add: list_all2_map2 list.rel_refl_strong mirrors_new new_no_session)
  then have "pub_inv chs ?pt {#}" by (simp add: pub_inv_def NewPublishingRoutingTable_def o_def new_site_silent)
  then have "pub_inv chs pt A" using assms by (rule pub_run_inv)
  moreover have "nextHop pt = nh" "sourceIPv4 pt = s4" "sourceIPv6 pt = s6" using pub_run_frame[OF assms] by (simp_all add: NewPublishingRoutingTable_def)
  then have "chainRoutes pt = (\<lambda>c. mset (map (\<lambda>p. \<lparr>rtPrefix = p, rtSource = (if ip_To4 (netIP p) = None then s6 else s4), rtNextHop = nh, rtIA = RemoteIA c\<rparr>) (Prefixes c)))"
    by (intro ext) (simp only: chainRoutes_def sourceForPrefix_def)
  ultimately show ?thesis using pub_inv_routes[of chs pt A] by (simp only: reachable_chain_def)
qed

text \<open>Of the two chains of the sample, the one for 10.1.0.0/16 has two classes: its route stays when one of two sessions is cleared.\<close>

theorem published_routes_witness:
  "snd (pub_run (NewPublishingRoutingTable sample_chains (NewRoutingTable sample_chains) [] [10, 9, 9, 9] [])
      {#} [OpSet 1 (Some ''a''), OpSet 2 (Some ''b''), OpSet 3 (Some ''a''), OpClear 1, OpClear 3, OpSet 7 (Some ''a''), OpSet 3 None]) =
   {#\<lparr>rtPrefix = \<lparr>netIP = [10, 1, 0, 0], netMask = [255, 255, 0, 0]\<rparr>, rtSource = [10, 9, 9, 9], rtNextHop = [], rtIA = 0\<rparr>#}"
proof -
  let ?ops = "[OpSet 1 (Some ''a''), OpSet 2 (Some ''b''), OpSet 3 (Some ''a''), OpClear 1, OpClear 3, OpSet 7 (Some ''a''), OpSet 3 None]"
  let ?run = "pub_run (NewPublishingRoutingTable sample_chains (NewRoutingTable sample_chains) [] [10, 9, 9, 9] []) {#} ?ops"
  have at: "map (sessionAt (routingTable (fst ?run))) [1, 2, 3] = [None, Some ''b'', None]" by code_simp
  show ?thesis using published_routes[OF prod.collapse[symmetric], of sample_chains "[]" "[10, 9, 9, 9]" "[]" ?ops] at
    by (simp add: sample_chains_def ip_To4_def)
qed

section \<open>The session monitor\<close>

text \<open>Replies to probes bring the session up, the expiration of its health brings it down; only changes are notified. \<open>closing\<close>: the monitor is being closed, and the event is not sent.\<close>

record SessionMonitor =
  monID :: u8
  monState :: Event

definition setupInternalState :: "SessionMonitor \<Rightarrow> SessionMonitor" where
  "setupInternalState m = m\<lparr>monState := EventDown\<rparr>"

definition notification :: "SessionMonitor \<Rightarrow> u8 \<times> Event" where
  "notification m = (monID m, monState m)"

definition handleProbeReply :: "bool \<Rightarrow> SessionMonitor \<Rightarrow> SessionMonitor \<times> (u8 \<times> Event) list" where
  "handleProbeReply closing m =
    (if monState m \<noteq> EventUp then let m' = m\<lparr>monState := EventUp\<rparr> in (m', if closing then [] else [notification m']) else (m, []))"

definition handleExpiration :: "bool \<Rightarrow> SessionMonitor \<Rightarrow> SessionMonitor \<times> (u8 \<times> Event) list" where
  "handleExpiration closing m =
    (if monState m = EventDown then (m, []) else let m' = m\<lparr>monState := EventDown\<rparr> in (m', if closing then [] else [notification m']))"

datatype monInput = ProbeReply | Expiration

fun monitor_run :: "SessionMonitor \<Rightarrow> monInput list \<Rightarrow> SessionMonitor \<times> (u8 \<times> Event) list" where
  "monitor_run m [] = (m, [])"
| "monitor_run m (i # is) =
    (let (m', evs) = (case i of ProbeReply \<Rightarrow> handleProbeReply False m | Expiration \<Rightarrow> handleExpiration False m); (m'', evs') = monitor_run m' is in (m'', evs @ evs'))"

fun alternating :: "Event \<Rightarrow> Event list \<Rightarrow> bool" where
  "alternating prev [] = True"
| "alternating prev (e # es) = (e \<noteq> prev \<and> e \<in> {EventUp, EventDown} \<and> alternating e es)"

text \<open>The events of a monitor alternate, are for its session, and the last one is its state: so the router's view of the session is the monitor's.\<close>

lemma monitor_events:
  assumes "monitor_run m is = (m', evs)" "monState m \<in> {EventUp, EventDown}"
  shows "alternating (monState m) (map snd evs) \<and> set (map fst evs) \<subseteq> {monID m} \<and> monID m' = monID m \<and> monState m' = last (monState m # map snd evs)"
  using assms
proof (induction "is" arbitrary: m evs)
  case (Cons i "is")
  show ?case
  proof (cases "(i = ProbeReply \<longleftrightarrow> monState m = EventUp)")
    case True
    then have "monitor_run m is = (m', evs)" using Cons.prems by (cases i) (auto simp: handleProbeReply_def handleExpiration_def split: prod.splits)
    then show ?thesis using Cons by blast
  next
    case False
    let ?e = "case i of ProbeReply \<Rightarrow> EventUp | Expiration \<Rightarrow> EventDown"
    obtain evs' where r: "monitor_run (m\<lparr>monState := ?e\<rparr>) is = (m', evs')" "evs = (monID m, ?e) # evs'"
      using Cons.prems False by (cases i) (auto simp: handleProbeReply_def handleExpiration_def notification_def Let_def split: prod.splits)
    then show ?thesis using Cons.IH[OF r(1)] False Cons.prems(2) by (cases i) auto
  qed
qed simp

section \<open>The path of a packet\<close>

text \<open>\<^verbatim>\<open>hash/crc64\<close> with the ECMA polynomial.\<close>

definition crcTable :: "u8 \<Rightarrow> u64" where
  "crcTable i = ((\<lambda>crc :: u64. if bit crc 0 then drop_bit 1 crc XOR 0xC96C5795D7870F42 else drop_bit 1 crc) ^^ 8) (ucast i)"

definition crc64_Checksum :: "bytes \<Rightarrow> u64" where
  "crc64_Checksum bs = NOT (foldl (\<lambda>crc v. crcTable (ucast crc XOR v) XOR drop_bit 8 crc) (NOT 0) bs)"

text \<open>A decoded packet: its data, its network layer, and the ports of its TCP and UDP layers when it has such layers.\<close>

record gwPacket =
  pktData :: bytes
  NetworkLayer :: "Layer option"
  layerTCP :: "(u16 \<times> u16) option"
  layerUDP :: "(u16 \<times> u16) option"

definition portBytes :: "u16 \<times> u16 \<Rightarrow> bytes" where
  "portBytes ports = [ucast (drop_bit 8 (fst ports)), ucast (fst ports), ucast (drop_bit 8 (snd ports)), ucast (snd ports)]"

text \<open>A type assertion on a layer that is not there panics.\<close>

definition extractQuintuple :: "gwPacket \<Rightarrow> bytes result" where
  "extractQuintuple packet =
    (case (case NetworkLayer packet of
        None \<Rightarrow> None
      | Some (LayerIPv4 ip) \<Rightarrow> Some (ip4Protocol ip, [ip4Protocol ip] @ ip4Src ip @ ip4Dst ip)
      | Some (LayerIPv6 ip) \<Rightarrow> Some (ip6NextHeader ip, [ip6NextHeader ip] @ ip6Src ip @ ip6Dst ip)) of
       None \<Rightarrow> Panic
     | Some (proto, q) \<Rightarrow>
         if proto = 6 then (case layerTCP packet of None \<Rightarrow> Panic | Some ports \<Rightarrow> Ok (q @ portBytes ports))
         else if proto = 17 then (case layerUDP packet of None \<Rightarrow> Panic | Some ports \<Rightarrow> Ok (q @ portBytes ports))
         else Ok q)"

text \<open>The sender that the data of the packet is written to, if any.\<close>

definition Session_Write :: "'s list \<Rightarrow> gwPacket \<Rightarrow> 's option result" where
  "Session_Write senders packet =
    (if senders = [] then Ok None
     else if length senders = 1 then Ok (Some (senders ! 0))
     else bindR (extractQuintuple packet) (\<lambda>q.
       let index = unat (crc64_Checksum q mod of_nat (length senders)) in
       if index < length senders then Ok (Some (senders ! index)) else Panic))"

lemma Session_Write_sender:
  assumes "extractQuintuple packet = Ok q" "senders \<noteq> []" "length senders < 2 ^ 64"
  shows "\<exists>s \<in> set senders. Session_Write senders packet = Ok (Some s)"
proof -
  have "unat (of_nat (length senders) :: u64) = length senders" using assms(3) by (simp add: unsigned_of_nat take_bit_eq_mod)
  then have "unat (crc64_Checksum q mod of_nat (length senders)) < length senders" using assms(2) by (simp add: unat_mod)
  then show ?thesis using assms(1,2) by (auto simp: Session_Write_def)
qed

text \<open>A packet that says TCP in its IP header and has no TCP layer stops the gateway when the session has several paths.\<close>

lemma Session_Write_panics:
  "NetworkLayer packet = Some (LayerIPv4 ip) \<Longrightarrow> ip4Protocol ip = 6 \<Longrightarrow> layerTCP packet = None \<Longrightarrow> length senders \<ge> 2 \<Longrightarrow> Session_Write senders packet = Panic"
  by (auto simp: Session_Write_def extractQuintuple_def)

end
