(* ===== verification/Spec2Isabelle.thy ===== *)
theory Spec2Isabelle
  imports ScionPath Addr PathTypes Header Extn Scmp Bfd EpicAuth Fabrid Drkey DataPlane Connector Router RouterSafe Spao ReplyPath Pipeline EndToEnd Trc Sig GwDelivery GwPublish
begin

text \<open>
  A model of the SCION data plane under \<^verbatim>\<open>src/scion-sbom\<close> and of the control plane code that makes paths for it: the wire
  formats of the SCION header, of its path types and of its extension headers, the border router that processes
  packets, the parts of the router that go with it (BFD, EPIC, FABRID, DRKey, packet authentication, SCMP), path segments,
  the extension of beacons, the combination of segments to forwarding paths, trust root configurations, and the IP gateway with its
  framing, routing and session configuration.

  How the parts work together. A border router reads a packet from a socket, decodes the SCION header
  (\<^verbatim>\<open>pkg/slayers\<close>), which makes a path of one of four path types (\<^verbatim>\<open>pkg/slayers/path\<close>), checks the hop field of the
  path that belongs to the local AS (expiry, interface, MAC), moves the path to the next hop in place, and hands
  the packet to the interface the hop field names (\<^verbatim>\<open>router/dataplane.go\<close>). Packets that need more work, such as an
  SCMP error message or a reply to a traceroute request, go through the slow path. The control process configures
  the data plane through the connector (\<^verbatim>\<open>router/connector.go\<close>). BFD sessions (\<^verbatim>\<open>router/bfd\<close>) tell which links are up.
  Packets move between receivers, processors and forwarders through bounded queues, in buffers of a shared pool. The hop fields
  come from beacons, which every AS on the way extends by its own entry (\<^verbatim>\<open>control/beaconing\<close>, \<^verbatim>\<open>pkg/segment\<close>); an end
  host combines up, core and down segments to a path (\<^verbatim>\<open>private/path/combinator\<close>), which the routers then check. A gateway (\<^verbatim>\<open>gateway\<close>)
  carries IP packets between ASes: its control plane makes sessions to remote gateways and routing chains of prefixes and traffic classes, its
  forwarder picks the session for a packet, the encoder of the session packs packets into frames, and the worker of the remote gateway takes them out again.

  Values and effects. Bytes are \<open>8 word\<close>, all wire quantities are words of their width, Go's \<^verbatim>\<open>int\<close> is \<open>int\<close> where it
  cannot wrap for the lengths that occur. A fallible function returns \<open>result\<close>: a value, an error, or \<open>Panic\<close> for an
  index or slice out of range, a nil dereference or an explicit panic. Methods that write through their
  receiver return it. A buffer that a function fills is an argument and part of the result.

  Theories.

  \<^item> \<open>Prelude\<close>: results, slices, big endian integers, and the lemmas on them that all theories use.
  \<^item> \<open>PathFields\<close>: \<^verbatim>\<open>hopfield.go\<close>, \<^verbatim>\<open>infofield.go\<close>, \<^verbatim>\<open>mac.go\<close>. The locale \<open>field_codec\<close> is the contract of a field of fixed size
    on the wire; hop fields and info fields interpret it. The MAC input is injective.
  \<^item> \<open>ScionPath\<close>: \<^verbatim>\<open>path/scion\<close>: \<open>Base\<close>, \<open>Raw\<close> and \<open>Decoded\<close>. The in-place operations of \<open>Raw\<close> refine those of \<open>Decoded\<close>
    (\<open>refines\<close>) and keep the bytes of the buffer, meta header included, an encoding of it (\<open>encodes\<close>), both accept the same inputs, \<open>Reverse\<close> is an involution and \<open>IncPath\<close> walks the path once.
  \<^item> \<open>Addr\<close>: \<^verbatim>\<open>pkg/addr\<close>: ISD-AS numbers and service addresses with their text formats.
  \<^item> \<open>PathTypes\<close>: the empty, one-hop and EPIC path types, the registry of path types and the path interface as a
    locale that all of them interpret.
  \<^item> \<open>Header\<close>: \<^verbatim>\<open>slayers/scion.go\<close>: the SCION header, host addresses and the checksum of upper layers.
  \<^item> \<open>Extn\<close>, \<open>Scmp\<close>: \<^verbatim>\<open>slayers/extn.go\<close>, \<^verbatim>\<open>udp.go\<close>, \<^verbatim>\<open>scmp.go\<close>, \<^verbatim>\<open>scmp_msg.go\<close>, \<^verbatim>\<open>scmp_typecode.go\<close>. Round trips, alignment of options,
    decoding of arbitrary bytes without a panic.
  \<^item> \<open>Bfd\<close>: \<^verbatim>\<open>router/bfd\<close>: the state machine and the session as a step relation; invariant, handshake and the absorbing
    state AdminDown.
  \<^item> \<open>EpicAuth\<close>, \<open>Fabrid\<close>, \<open>Drkey\<close>: \<^verbatim>\<open>pkg/experimental/epic\<close>, \<^verbatim>\<open>pkg/experimental/fabrid\<close>, \<^verbatim>\<open>pkg/drkey\<close> and \<^verbatim>\<open>router/control/drkey.go\<close>.
  \<^item> \<open>DataPlane\<close>, \<open>Connector\<close>: the state of the data plane, its configuration, the service registry, and the
    operations of the control process. The invariant holds in every configuration that can be reached.
  \<^item> \<open>Router\<close>: the packet processor, one definition per method of \<^verbatim>\<open>scionPacketProcessor\<close>, composed as the code does.
  \<^item> \<open>Forwarding\<close>, \<open>ForwardPath\<close>, \<open>RouterSafe\<close>: what holds of a packet that was forwarded (hop field, links, addresses), that
    the path bytes that leave decode to the path moved forward as specified (\<open>routed_path\<close>), and that no input makes the processor panic.
  \<^item> \<open>Spao\<close>: \<^verbatim>\<open>slayers/pkt_auth.go\<close>, \<^verbatim>\<open>pkg/spao\<close>, \<^verbatim>\<open>private/drkey/drkeyutil\<close>: the authenticator option. What is authenticated in the
    packet a router sends on, as the next host decodes it, is what was authenticated in the packet it got, and the receiver finds the key of the sender.
  \<^item> \<open>SlowPath\<close>, \<open>ReplyPath\<close>: the slow path, SCMP error messages and the path they take back, out of the AS or inside it, over peering links too.
  \<^item> \<open>Pipeline\<close>: the goroutines of a running data plane as a step relation over the pool, the queues and what each goroutine
    holds. No buffer is lost or duplicated but by the slow path, and a receiver never waits for a buffer in vain.
  \<^item> \<open>SegExt\<close>, \<open>Segment\<close>: \<^verbatim>\<open>pkg/segment\<close> and its extensions: data, conversion from and to protobuf values, validation, signing.
  \<^item> \<open>Extender\<close>: \<^verbatim>\<open>control/beaconing/extender.go\<close>, \<^verbatim>\<open>control/ifstate\<close>: \<open>Extend\<close> keeps the chain of MACs (\<open>seg_auth\<close>).
  \<^item> \<open>Combinator\<close>, \<open>PathSearch\<close>: \<^verbatim>\<open>private/path/combinator\<close>: the graph, the search, which terminates and finds exactly the chains
    of edges that are allowed, and the forwarding path of a solution.
  \<^item> \<open>Journey\<close>, \<open>EndToEnd\<close>: a packet on its way through the ASes, in the terms of \<open>ForwardPath\<close>; a path combined from beaconed
    segments is accepted by all of them.
  \<^item> \<open>Certs\<close>, \<open>Trc\<close>: \<^verbatim>\<open>pkg/scrypto/cppki\<close>: certificates, chains and trust root configurations. An accepted update of a TRC
    was signed by a quorum of the voters of its predecessor, and a regular one adds and drops no certificate (\<open>regular_kept\<close>).

  \<^item> \<open>Ring\<close>: \<^verbatim>\<open>private/ringbuf\<close> and the packet ring of the gateway. The locale \<open>bounded_queue\<close> is the contract of a bounded queue, which the ring
    interprets.
  \<^item> \<open>Encoder\<close>, \<open>Reassembly\<close>, \<open>SigFlow\<close>, \<open>Sig\<close>: \<^verbatim>\<open>gateway/dataplane\<close>: frames out of packets and packets out of frames. Frames that arrive in order
    give the packets that were written; frames that arrive anyhow give no other packets. Sequence numbers stay below \<open>2 ^ 64\<close>, and a packet has at most
    \<open>40 + 99 * room\<close> bytes, where \<open>room\<close> is what a frame has room for: the capacity of a reassembly list is 100 frames.
  \<^item> \<open>GwRouting\<close>: \<^verbatim>\<open>gateway/pktcls\<close>, the routing table and the forwarder of the data plane, the router of the control plane. Runs of the router are an
    inductive relation, since Go ranges over maps in any order.
  \<^item> \<open>GwConfig\<close>, \<open>GwDelivery\<close>: \<^verbatim>\<open>gateway/control\<close>: sessions from policies, chains from sessions. A packet is sent over a session that is up, to a gateway that serves
    its prefix.
  \<^item> \<open>GwPublish\<close>: the table that publishes routes, the session monitor, and the choice of a path for a packet.

  Parameters. Code outside the repository is a parameter: AES and CMAC (\<open>aesOf\<close>, \<open>macFactory\<close>, \<open>cmac\<close>, of which only the
  length of the output is used), random numbers (\<open>intn\<close>), the clock (\<open>timeNow\<close>, one reading per place of the code), the
  layer decoding of gopacket, the contents of fresh buffers and the iteration order of maps. They are
  collected in the record \<open>envir\<close>. \<open>envir_ok\<close> states what is relied on. For segments, the protobuf encoding, the signers and
  SHA-256 are parameters, of which nothing is assumed; so are ASN.1, the hash functions and the check of a signature for TRCs
  (\<open>cmsEnv\<close>) and the verification of a certificate by \<^verbatim>\<open>crypto/x509\<close>. For the gateway, what writers do to the ring of an encoder between
  two of its accesses is a list that is a parameter, as are the decoders of gopacket (\<open>l4env\<close>), protocol names and path sequences (\<open>cfgEnv\<close>).

  Bounds. No model of code uses fuel; only \<open>journey\<close>, a notion of the specification, counts the ASes to come, and the number of
  hop fields is enough. Loops over options and hop fields are recursions on lengths of the input; a
  path has at most 64 hop fields in 3 segments, which \<open>wf_base\<close> states and decoding establishes. The search of the
  combinator terminates because a solution that is replaced in the queue is replaced by solutions with fewer segments to come.

  Not modelled. Sockets and metrics of the router; the textual forms of host addresses, which
  are parsed by \<^verbatim>\<open>net/netip\<close>; of the combinator the static metadata and FABRID policies of a path; of the control service
  what stores and distributes beacons and segments; of the gateway the discovery of gateways and prefixes, the probes, the route managers and the table of workers; the daemon and the command line tools; generated code
  (protobuf, OpenAPI, ANTLR), mocks and acceptance tests.
\<close>

end
